(* ===== verification/Prelude.thy ===== *)
theory Prelude
  imports Main "HOL-Library.Word" "HOL-Library.Monad_Syntax"
begin

text \<open>
  What every component of the development shares: the names of the machine
  types, the memory of one C object as a byte list with checked accesses, big
  endian numbers, flag masks, and the two interfaces several components
  provide (a byte stream cut into records, and a bounded queue).

  A C object (a buffer, an array) is a list; an access outside it is the value
  None, so that "this function never reads or writes outside the buffer it was
  given" is the statement that its model is never None.  A pointer that may be
  NULL is an option of an offset into the object.
\<close>

unbundle bit_operations_syntax

text \<open>Offsets stay sums of numerals, not nested successors.\<close>

declare One_nat_def [simp del] add_2_eq_Suc [simp del] add_2_eq_Suc' [simp del]
declare One_nat_def [symmetric, simp]

lemma cons_at_1 [simp]:
  "(x # xs) ! 1 = xs ! 0" "take 1 (x # xs) = [x]" "drop 1 (x # xs) = xs"
  "replicate 1 x = [x]" "[0 ..< n + 1] = [0 ..< n] @ [n]"
  "replicate (n + 1) x = x # replicate n x"
  by (simp_all only: One_nat_def add_Suc_right add_0_right upt_Suc_append le0 nth_Cons_Suc take_Suc_Cons drop_Suc_Cons take_0 drop_0 replicate.simps)

lemma take_bit_num_1 [simp]:
  "take_bit_num 1 num.One = Some num.One" "take_bit_num 1 (num.Bit0 k) = None"
  "take_bit_num 1 (num.Bit1 k) = Some num.One"
  by (simp_all only: One_nat_def take_bit_num_simps, simp_all)

section \<open>Machine types\<close>

type_synonym u8 = "8 word"
type_synonym u16 = "16 word"
type_synonym u32 = "32 word"
type_synonym u64 = "64 word"
type_synonym i16 = "16 word"
type_synonym i32 = "32 word"
type_synonym bytes = "u8 list"

named_theorems mem_simps \<open>checked memory accesses that succeed\<close>
named_theorems be_simps \<open>big endian reads of writes and numeric values\<close>
named_theorems flag_simps \<open>flag masks as sets of bits\<close>

section \<open>Checked memory\<close>

definition rd8 :: "'a list \<Rightarrow> nat \<Rightarrow> 'a option" where
  "rd8 m i = (if i < length m then Some (m ! i) else None)"

definition wr8 :: "'a list \<Rightarrow> nat \<Rightarrow> 'a \<Rightarrow> 'a list option" where
  "wr8 m i v = (if i < length m then Some (m[i := v]) else None)"

text \<open>The bytes a memcpy of n elements reads at i, and the object after one
  wrote vs at i.\<close>

definition slice :: "'a list \<Rightarrow> nat \<Rightarrow> nat \<Rightarrow> 'a list" where
  "slice m i n = take n (drop i m)"

definition rd_mem :: "'a list \<Rightarrow> nat \<Rightarrow> nat \<Rightarrow> 'a list option" where
  "rd_mem m i n = (if i + n \<le> length m then Some (slice m i n) else None)"

definition patch :: "'a list \<Rightarrow> nat \<Rightarrow> 'a list \<Rightarrow> 'a list" where
  "patch m i vs = take i m @ vs @ drop (i + length vs) m"

definition wr_mem :: "'a list \<Rightarrow> nat \<Rightarrow> 'a list \<Rightarrow> 'a list option" where
  "wr_mem m i vs = (if i + length vs \<le> length m then Some (patch m i vs) else None)"

lemma rd8_Some [mem_simps]: "i < length m \<Longrightarrow> rd8 m i = Some (m ! i)"
  by (simp add: rd8_def)

lemma rd8_eq_Some: "rd8 m i = Some x \<longleftrightarrow> i < length m \<and> m ! i = x"
  by (auto simp: rd8_def)

lemma wr8_Some [mem_simps]: "i < length m \<Longrightarrow> wr8 m i v = Some (m[i := v])"
  by (simp add: wr8_def)

lemma wr8_eq_Some: "wr8 m i v = Some m' \<longleftrightarrow> i < length m \<and> m' = m[i := v]"
  by (auto simp: wr8_def)

lemma rd_mem_Some [mem_simps]: "i + n \<le> length m \<Longrightarrow> rd_mem m i n = Some (slice m i n)"
  by (simp add: rd_mem_def)

lemma rd_mem_eq_Some: "rd_mem m i n = Some x \<longleftrightarrow> i + n \<le> length m \<and> x = slice m i n"
  by (auto simp: rd_mem_def)

lemma wr_mem_Some [mem_simps]: "i + length vs \<le> length m \<Longrightarrow> wr_mem m i vs = Some (patch m i vs)"
  by (simp add: wr_mem_def)

lemma wr_mem_eq_Some:
  "wr_mem m i vs = Some m' \<longleftrightarrow> i + length vs \<le> length m \<and> m' = patch m i vs"
  by (auto simp: wr_mem_def)

lemma length_slice [simp]: "i + n \<le> length m \<Longrightarrow> length (slice m i n) = n"
  by (simp add: slice_def)

lemma length_patch [simp]: "i + length vs \<le> length m \<Longrightarrow> length (patch m i vs) = length m"
  by (simp add: patch_def)

lemma slice_0 [simp]: "slice m i 0 = []"
  by (simp add: slice_def)

lemma slice_all: "slice m 0 (length m) = m"
  by (simp add: slice_def)

lemma slice_whole [simp]: "length m = n \<Longrightarrow> slice m 0 n = m"
  by (simp add: slice_def)

lemma slice_append_left [simp]:
  "i + n \<le> length a \<Longrightarrow> slice (a @ b) i n = slice a i n"
  by (simp add: slice_def)

lemma slice_append_right:
  "length a \<le> i \<Longrightarrow> slice (a @ b) i n = slice b (i - length a) n"
  by (simp add: slice_def)

lemma slice_app_mid [simp]:
  "length a = i \<Longrightarrow> length v = n \<Longrightarrow> slice (a @ v @ b) i n = v"
  by (auto simp: slice_def)

lemma slice_app_mid2 [simp]:
  "length a = i \<Longrightarrow> length v = n \<Longrightarrow> slice (a @ v) i n = v"
  by (auto simp: slice_def)

lemma slice_slice:
  "j + k \<le> n \<Longrightarrow> slice (slice m i n) j k = slice m (i + j) k"
  by (simp add: slice_def drop_take add.commute min_absorb1)

lemma slice_patch_same [simp]:
  "i + length vs \<le> length m \<Longrightarrow> slice (patch m i vs) i (length vs) = vs"
  by (simp add: slice_def patch_def)

lemma slice_append_split:
  "slice m i (a + b) = slice m i a @ slice m (i + a) b"
  by (simp add: slice_def take_add add.commute)

lemma nth_slice: "j < n \<Longrightarrow> i + n \<le> length m \<Longrightarrow> slice m i n ! j = m ! (i + j)"
  by (simp add: slice_def)

lemma rd8_slice: "j < n \<Longrightarrow> i + n \<le> length m \<Longrightarrow> rd8 (slice m i n) j = rd8 m (i + j)"
  by (simp add: rd8_def nth_slice)

lemma rd8_append [simp]: "i < length a \<Longrightarrow> rd8 (a @ b) i = rd8 a i"
  by (simp add: rd8_def nth_append)

lemma nth_patch:
  "i + length vs \<le> length m \<Longrightarrow> j < length m \<Longrightarrow>
   patch m i vs ! j = (if i \<le> j \<and> j < i + length vs then vs ! (j - i) else m ! j)"
  by (auto simp: patch_def nth_append min_def not_less)

lemma list_update_is_patch: "i < length m \<Longrightarrow> m[i := v] = patch m i [v]"
  by (simp add: patch_def upd_conv_take_nth_drop Suc_eq_plus1)

lemma patch_at_0: "patch m 0 vs = vs @ drop (length vs) m"
  by (simp add: patch_def)

lemma patch_patch_adj:
  "i + length vs + length ws \<le> length m \<Longrightarrow>
   patch (patch m i vs) (i + length vs) ws = patch m i (vs @ ws)"
  by (simp add: patch_def ac_simps)

lemma patch_patch_adj':
  "i + length vs + length ws \<le> length m \<Longrightarrow> j = i + length vs \<Longrightarrow>
   patch (patch m i vs) j ws = patch m i (vs @ ws)"
  by (simp add: patch_patch_adj)

lemma patch_app_right:
  "length a \<le> i \<Longrightarrow> patch (a @ b) i vs = a @ patch b (i - length a) vs"
  by (simp add: patch_def)

lemma patch_Cons: "1 \<le> i \<Longrightarrow> patch (x # b) i vs = x # patch b (i - 1) vs"
  using patch_app_right [of "[x]" i b vs] by simp

lemma patch_all: "length vs = length m \<Longrightarrow> patch m 0 vs = vs"
  by (simp add: patch_def)

text \<open>The bytes of a string literal (C char arrays are HOL strings).\<close>

definition byte_of :: "char \<Rightarrow> u8" where
  "byte_of c = of_nat (of_char c)"

definition char_of_byte :: "u8 \<Rightarrow> char" where
  "char_of_byte b = char_of (unat b)"

definition str_bytes :: "string \<Rightarrow> bytes" where
  "str_bytes s = map byte_of s"

definition bytes_str :: "bytes \<Rightarrow> string" where
  "bytes_str bs = map char_of_byte bs"

text \<open>The C string held in a char array: the characters before the first NUL.\<close>

definition nul :: char where "nul = CHR 0x00"

definition cstr :: "string \<Rightarrow> string" where
  "cstr s = takeWhile (\<lambda>c. c \<noteq> nul) s"

lemma cstr_no_nul: "nul \<notin> set (cstr s)"
  unfolding cstr_def by (auto dest: set_takeWhileD)

lemma cstr_id [simp]: "nul \<notin> set s \<Longrightarrow> cstr s = s"
  unfolding cstr_def by (simp add: takeWhile_eq_all_conv) metis

lemma length_cstr: "length (cstr s) \<le> length s"
  unfolding cstr_def by (rule length_takeWhile_le)

lemma byte_of_char_of_byte [simp]: "byte_of (char_of_byte b) = b"
proof -
  have "unat b < 2 ^ LENGTH(8)" by (rule unsigned_less)
  then have "unat b < 256" by simp
  then have "of_char (char_of (unat b) :: char) = unat b"
    by simp
  then show ?thesis by (simp add: byte_of_def char_of_byte_def)
qed

lemma unat_byte_of: "unat (byte_of c) = of_char c"
proof -
  have "(of_char c :: nat) < 256"
    using of_char_mod_256 [of c, where 'a = nat] by (metis mod_less_divisor zero_less_numeral)
  then show ?thesis by (simp add: byte_of_def unat_of_nat)
qed

lemma char_of_byte_byte_of [simp]: "char_of_byte (byte_of c) = c"
  by (simp add: char_of_byte_def unat_byte_of)

lemma byte_of_inject [simp]: "byte_of a = byte_of b \<longleftrightarrow> a = b"
  by (metis char_of_byte_byte_of)

lemma char_of_byte_inject [simp]: "char_of_byte a = char_of_byte b \<longleftrightarrow> a = b"
  by (metis byte_of_char_of_byte)

lemma bytes_str_bytes [simp]: "bytes_str (str_bytes s) = s"
  by (simp add: bytes_str_def str_bytes_def comp_def)

lemma str_bytes_str [simp]: "str_bytes (bytes_str s) = s"
  by (simp add: bytes_str_def str_bytes_def comp_def)

lemma length_str_bytes [simp]: "length (str_bytes s) = length s"
  by (simp add: str_bytes_def)

lemma length_bytes_str [simp]: "length (bytes_str s) = length s"
  by (simp add: bytes_str_def)

lemma str_bytes_append [simp]: "str_bytes (a @ b) = str_bytes a @ str_bytes b"
  by (simp add: str_bytes_def)

section \<open>Flag masks\<close>

text \<open>The code writes a mask as \<open>1 << k\<close> and tests it as
  \<open>(present & mask) != 0\<close>.\<close>

definition flag :: "nat \<Rightarrow> 'a::len word" where
  "flag k = push_bit k 1"

definition has :: "'a::len word \<Rightarrow> 'a word \<Rightarrow> bool" where
  "has p m \<longleftrightarrow> p AND m \<noteq> 0"

lemma bit_flag [simp]: "bit (flag k :: 'a::len word) n \<longleftrightarrow> n = k \<and> k < LENGTH('a)"
  by (auto simp: flag_def bit_simps)

lemma has_bit: "has p m \<longleftrightarrow> (\<exists>n. bit p n \<and> bit m n)"
proof -
  have "has p m \<longleftrightarrow> (\<exists>n. bit (p AND m) n)"
    unfolding has_def using bit_eqI [of "p AND m" 0] by auto
  then show ?thesis by (auto simp: bit_simps dest: bit_imp_le_length)
qed

lemma has_flag [flag_simps]: "k < LENGTH('a) \<Longrightarrow> has p (flag k :: 'a::len word) \<longleftrightarrow> bit p k"
  by (auto simp: has_bit)

lemma has_0 [simp]: "\<not> has 0 m" "\<not> has p 0"
  by (simp_all add: has_def)

lemma has_or_left: "has (a OR b) m \<longleftrightarrow> has a m \<or> has b m"
  by (auto simp: has_bit bit_simps)

lemma has_or_right: "has p (a OR b) \<longleftrightarrow> has p a \<or> has p b"
  by (auto simp: has_bit bit_simps)

lemma bit_or_iff_flag [flag_simps]:
  "bit (p OR flag k :: 'a::len word) n \<longleftrightarrow> bit p n \<or> n = k \<and> k < LENGTH('a)"
  by (auto simp: bit_simps)

section \<open>A byte stream cut into records\<close>

text \<open>Decode records from the front of a buffer until one is incomplete or
  invalid: the records and the bytes left over.  A decoder that consumes
  nothing stops the loop.\<close>

function dec_all :: "('b list \<Rightarrow> ('a \<times> 'b list) option) \<Rightarrow> 'b list \<Rightarrow> 'a list \<times> 'b list" where
  "dec_all dec bs = (case dec bs of
     None \<Rightarrow> ([], bs)
   | Some (x, r) \<Rightarrow>
       if length r < length bs
       then (let (xs, e) = dec_all dec r in (x # xs, e)) else ([], bs))"
  by pat_completeness auto
termination by (relation "measure (\<lambda>(d, bs). length bs)") auto

declare dec_all.simps [simp del]

text \<open>A record format: decoding an encoded record gives it back and leaves
  the bytes behind it, and decoding consumes bytes.\<close>

locale codec =
  fixes enc :: "'a \<Rightarrow> 'b list"
    and dec :: "'b list \<Rightarrow> ('a \<times> 'b list) option"
    and ok :: "'a \<Rightarrow> bool"
  assumes dec_enc: "ok x \<Longrightarrow> dec (enc x @ rest) = Some (x, rest)"
    and dec_shrinks: "dec bs = Some (x, r) \<Longrightarrow> length r < length bs"
begin

lemma dec_all_Nil_rest: "dec bs = None \<Longrightarrow> dec_all dec bs = ([], bs)"
  by (simp add: dec_all.simps)

lemma dec_all_Cons:
  "dec bs = Some (x, r) \<Longrightarrow> dec_all dec bs = (x # fst (dec_all dec r), snd (dec_all dec r))"
  using dec_shrinks [of bs x r] by (simp add: dec_all.simps [of dec bs] split_def Let_def)

lemma dec_all_enc_app:
  "list_all ok xs \<Longrightarrow>
   dec_all dec (concat (map enc xs) @ rest) = (xs @ fst (dec_all dec rest), snd (dec_all dec rest))"
proof (induction xs)
  case Nil
  then show ?case by simp
next
  case (Cons x xs)
  then have "dec (concat (map enc (x # xs)) @ rest) = Some (x, concat (map enc xs) @ rest)"
    by (simp add: dec_enc)
  from dec_all_Cons [OF this] Cons show ?case by simp
qed

lemma dec_all_enc:
  assumes "list_all ok xs" and "dec [] = None"
  shows "dec_all dec (concat (map enc xs)) = (xs, [])"
  using dec_all_enc_app [OF assms(1), of "[]"] dec_all_Nil_rest [OF assms(2)] by simp

end

text \<open>A record format that can be read from a stream: more bytes behind a
  complete record do not change it, so cutting the stream into chunks does not
  change the records.\<close>

locale stream_codec = codec +
  assumes dec_more: "dec bs = Some (x, r) \<Longrightarrow> dec (bs @ c) = Some (x, r @ c)"
begin

lemma dec_all_chunk:
  "dec_all dec (a @ b) =
   (fst (dec_all dec a) @ fst (dec_all dec (snd (dec_all dec a) @ b)),
    snd (dec_all dec (snd (dec_all dec a) @ b)))"
proof (induction a rule: length_induct)
  case (1 a)
  show ?case
  proof (cases "dec a")
    case None
    then show ?thesis by (simp add: dec_all_Nil_rest)
  next
    case (Some p)
    obtain x r where p: "p = (x, r)" by (cases p)
    have s: "dec a = Some (x, r)" using Some p by simp
    have l: "length r < length a" using dec_shrinks [OF s] .
    show ?thesis
      using 1 l dec_all_Cons [OF s] dec_all_Cons [OF dec_more [OF s]] by auto
  qed
qed

end

section \<open>Ring indices\<close>

lemma mod_add_inj:
  fixes n :: nat
  assumes "(h + i) mod n = (h + j) mod n" and "i < n" and "j < n"
  shows "i = j"
proof -
  have le: "a = b" if "(h + a) mod n = (h + b) mod n" "b < n" "a \<le> b" for a b :: nat
  proof -
    have "n dvd (h + b) - (h + a)"
      using that mod_eq_dvd_iff_nat [of "h + a" "h + b" n] by simp
    then have "b - a = 0"
      using that dvd_imp_le [of n "b - a"] by fastforce
    then show ?thesis using that by simp
  qed
  show ?thesis using assms le [of i j] le [of j i] by (cases "i \<le> j") auto
qed

lemma mod_add_cancel_iff [simp]:
  fixes n :: nat
  shows "i < n \<Longrightarrow> j < n \<Longrightarrow> (h + i) mod n = (h + j) mod n \<longleftrightarrow> i = j"
  using mod_add_inj by metis

section \<open>A bounded first-in first-out queue\<close>

text \<open>A run of operations on a queue: Some x enqueues x, None dequeues.  The result
  is what was accepted, what came out and the queue.\<close>

fun run_queue ::
  "('q \<Rightarrow> 'a \<Rightarrow> 'q option) \<Rightarrow> ('q \<Rightarrow> ('a \<times> 'q) option) \<Rightarrow> 'a option list \<Rightarrow> 'q \<Rightarrow>
   'a list \<times> 'a list \<times> 'q" where
  "run_queue enq deq [] q = ([], [], q)"
| "run_queue enq deq (Some x # ops) q =
     (case enq q x of
        None \<Rightarrow> run_queue enq deq ops q
      | Some q' \<Rightarrow> (let (ins, outs, q'') = run_queue enq deq ops q' in (x # ins, outs, q'')))"
| "run_queue enq deq (None # ops) q =
     (case deq q of
        None \<Rightarrow> run_queue enq deq ops q
      | Some (y, q') \<Rightarrow> (let (ins, outs, q'') = run_queue enq deq ops q' in (ins, y # outs, q'')))"

text \<open>The state is abstracted by the list of its items, oldest first.\<close>

locale bounded_queue =
  fixes items :: "'q \<Rightarrow> 'a list"
    and ok :: "'q \<Rightarrow> bool"
    and valid :: "'a \<Rightarrow> bool"
    and cap :: nat
    and enq :: "'q \<Rightarrow> 'a \<Rightarrow> 'q option"
    and deq :: "'q \<Rightarrow> ('a \<times> 'q) option"
  assumes enq_full: "ok q \<Longrightarrow> length (items q) \<ge> cap \<Longrightarrow> enq q x = None"
    and enq_room: "ok q \<Longrightarrow> valid x \<Longrightarrow> length (items q) < cap \<Longrightarrow>
      \<exists>q'. enq q x = Some q' \<and> ok q' \<and> items q' = items q @ [x]"
    and deq_empty: "ok q \<Longrightarrow> items q = [] \<Longrightarrow> deq q = None"
    and deq_cons: "ok q \<Longrightarrow> items q = x # xs \<Longrightarrow>
      \<exists>q'. deq q = Some (x, q') \<and> ok q' \<and> items q' = xs"
    and len_cap: "ok q \<Longrightarrow> length (items q) \<le> cap"
begin

lemma enq_SomeD: "ok q \<Longrightarrow> valid x \<Longrightarrow> enq q x = Some q' \<Longrightarrow> ok q' \<and> items q' = items q @ [x]"
  by (metis enq_full enq_room leI not_Some_eq option.inject)

lemma deq_SomeD: "ok q \<Longrightarrow> deq q = Some (x, q') \<Longrightarrow> ok q' \<and> items q = x # items q'"
proof -
  assume ok: "ok q" and d: "deq q = Some (x, q')"
  show "ok q' \<and> items q = x # items q'"
  proof (cases "items q")
    case Nil
    then show ?thesis using deq_empty [OF ok] d by simp
  next
    case (Cons y ys)
    then show ?thesis using deq_cons [OF ok Cons] d by auto
  qed
qed

lemma enq_None_iff: "ok q \<Longrightarrow> valid x \<Longrightarrow> enq q x = None \<longleftrightarrow> length (items q) = cap"
  using enq_full [of q x] enq_room [of q x] len_cap [of q] by fastforce

text \<open>Any run of operations keeps the invariant, and what comes out is what went
  in, in order: the items removed so far followed by the items still queued
  are the items that were accepted.\<close>

lemma run_queue_fifo:
  assumes "ok q" and "\<forall>x. Some x \<in> set ops \<longrightarrow> valid x" and "run_queue enq deq ops q = (ins, outs, q')"
  shows "ok q' \<and> items q @ ins = outs @ items q' \<and> length (items q') \<le> cap"
  using assms
proof (induction ops arbitrary: q ins outs)
  case Nil
  then show ?case by (simp add: len_cap)
next
  case (Cons op ops)
  show ?case
  proof (cases op)
    case None
    show ?thesis
    proof (cases "deq q")
      case no: None
      then show ?thesis using Cons None by simp
    next
      case (Some p)
      obtain y q1 where p: "p = (y, q1)" by (cases p)
      have "ok q1 \<and> items q = y # items q1" using deq_SomeD [OF Cons.prems(1)] Some p by simp
      then show ?thesis using Cons None Some p by (fastforce split: prod.splits)
    qed
  next
    case (Some x)
    show ?thesis
    proof (cases "enq q x")
      case None
      then show ?thesis using Cons Some by simp
    next
      case acc: (Some q1)
      have "ok q1 \<and> items q1 = items q @ [x]"
        using enq_SomeD [OF Cons.prems(1) _ acc] Cons.prems(2) Some by simp
      then show ?thesis using Cons Some acc by (fastforce split: prod.splits)
    qed
  qed
qed

lemma deq_None_iff: "ok q \<Longrightarrow> deq q = None \<longleftrightarrow> items q = []"
  using deq_empty [of q] deq_cons [of q] by (cases "items q") fastforce+

end

end
