(* ===== verification/Common.thy ===== *)
theory Common
  imports Prelude
begin

text \<open>
  c_hook/framework/common.h: result codes, priorities and directions, the big
  endian accessors and the two string helpers.  Each accessor is modelled with
  its memory accesses checked; the lemmas give the pure reading (be16, be32,
  be64 of the bytes), the effect of a write as a patch of the object, and
  the round trips the formats above rest on.
\<close>

section \<open>Result codes, priorities, directions\<close>

datatype hook_result = HOOK_OK | HOOK_ERR_INIT | HOOK_ERR_PARAM | HOOK_ERR_MEMORY
  | HOOK_ERR_IO | HOOK_ERR_NOT_FOUND | HOOK_ERR_BUSY

fun hook_result_code :: "hook_result \<Rightarrow> int" where
  "hook_result_code HOOK_OK = 0"
| "hook_result_code HOOK_ERR_INIT = - 1"
| "hook_result_code HOOK_ERR_PARAM = - 2"
| "hook_result_code HOOK_ERR_MEMORY = - 3"
| "hook_result_code HOOK_ERR_IO = - 4"
| "hook_result_code HOOK_ERR_NOT_FOUND = - 5"
| "hook_result_code HOOK_ERR_BUSY = - 6"

definition HOOK_PRIORITY_FIRST :: int where "HOOK_PRIORITY_FIRST = 0"
definition HOOK_PRIORITY_HIGH :: int where "HOOK_PRIORITY_HIGH = 25"
definition HOOK_PRIORITY_NORMAL :: int where "HOOK_PRIORITY_NORMAL = 50"
definition HOOK_PRIORITY_LOW :: int where "HOOK_PRIORITY_LOW = 75"
definition HOOK_PRIORITY_LAST :: int where "HOOK_PRIORITY_LAST = 100"

datatype msg_direction = MSG_DIR_INCOMING | MSG_DIR_OUTGOING

section \<open>String helpers\<close>

text \<open>strncasecmp of the C locale.\<close>

definition tolower :: "char \<Rightarrow> char" where
  "tolower c = (let n = (of_char c :: nat) in if 65 \<le> n \<and> n \<le> 90 then char_of (n + 32) else c)"

definition strncasecmp_eq :: "string \<Rightarrow> string \<Rightarrow> nat \<Rightarrow> bool" where
  "strncasecmp_eq a b n \<longleftrightarrow> map tolower (take n a) = map tolower (take n b)"

text \<open>cp_strcasestr: the suffix of the haystack the returned pointer is at.\<close>

fun strcasestr_loop :: "string \<Rightarrow> string \<Rightarrow> string option" where
  "strcasestr_loop [] needle = None"
| "strcasestr_loop (c # cs) needle =
     (if strncasecmp_eq (c # cs) needle (length needle) then Some (c # cs)
      else strcasestr_loop cs needle)"

definition cp_strcasestr :: "string option \<Rightarrow> string option \<Rightarrow> string option" where
  "cp_strcasestr haystack needle =
     (case (haystack, needle) of
        (Some h, Some n) \<Rightarrow> if n = [] then Some h else strcasestr_loop h n
      | _ \<Rightarrow> None)"

text \<open>safe_strcpy: the destination object, NULL source and zero size
  included.\<close>

definition safe_strcpy :: "string \<Rightarrow> nat option \<Rightarrow> string option \<Rightarrow> nat \<Rightarrow> string option" where
  "safe_strcpy m dst src dst_size =
     (case dst of None \<Rightarrow> Some m
      | Some d \<Rightarrow>
         if dst_size = 0 then Some m
         else (case src of
             None \<Rightarrow> wr8 m d nul
           | Some s \<Rightarrow>
               let src_len = length s;
                   copy_len = (if src_len < dst_size - 1 then src_len else dst_size - 1)
               in do { m \<leftarrow> wr_mem m d (take copy_len s); wr8 m (d + copy_len) nul }))"

lemma safe_strcpy_content:
  assumes "dst_size > 0" and "d + dst_size \<le> length m" and "nul \<notin> set s"
  shows "\<exists>m'. safe_strcpy m (Some d) (Some s) dst_size = Some m' \<and> length m' = length m \<and>
    cstr (drop d m') = take (dst_size - 1) s"
proof -
  define n where "n = (if length s < dst_size - 1 then length s else dst_size - 1)"
  have tk: "take n s = take (dst_size - 1) s" and ln: "length (take n s) = n"
    and n: "d + n < length m"
    using assms by (auto simp: n_def)
  let ?m = "(patch m d (take n s))[d + n := nul]"
  have "safe_strcpy m (Some d) (Some s) dst_size = Some ?m"
    unfolding safe_strcpy_def Let_def option.case n_def [symmetric]
    using assms(1) n ln by (simp add: wr_mem_def wr8_def)
  moreover have "drop d ?m = take n s @ nul # drop (Suc (d + n)) m"
    using n ln by (simp add: list_update_is_patch patch_def Suc_eq_plus1 ac_simps)
  moreover have "nul \<notin> set (take n s)" using assms(3) by (meson in_set_takeD)
  then have "cstr (take n s @ nul # drop (Suc (d + n)) m) = take n s"
    unfolding cstr_def by (subst takeWhile_append2) auto
  ultimately show ?thesis using tk n ln by simp
qed

section \<open>Big endian numbers\<close>

definition be16 :: "u8 \<Rightarrow> u8 \<Rightarrow> u16" where
  "be16 a b = push_bit 8 (ucast a) OR ucast b"

definition be32 :: "u8 \<Rightarrow> u8 \<Rightarrow> u8 \<Rightarrow> u8 \<Rightarrow> u32" where
  "be32 a b c d = push_bit 24 (ucast a) OR push_bit 16 (ucast b) OR push_bit 8 (ucast c) OR ucast d"

definition be64 :: "u32 \<Rightarrow> u32 \<Rightarrow> u64" where
  "be64 h l = push_bit 32 (ucast h) OR ucast l"

definition read_be16 :: "bytes \<Rightarrow> nat \<Rightarrow> u16 option" where
  "read_be16 m p = do { a \<leftarrow> rd8 m p; b \<leftarrow> rd8 m (p + 1); Some (be16 a b) }"

definition read_be32 :: "bytes \<Rightarrow> nat \<Rightarrow> u32 option" where
  "read_be32 m p = do { a \<leftarrow> rd8 m p; b \<leftarrow> rd8 m (p + 1); c \<leftarrow> rd8 m (p + 2); d \<leftarrow> rd8 m (p + 3);
     Some (be32 a b c d) }"

definition read_be64 :: "bytes \<Rightarrow> nat \<Rightarrow> u64 option" where
  "read_be64 m p = do { h \<leftarrow> read_be32 m p; l \<leftarrow> read_be32 m (p + 4); Some (be64 h l) }"

definition be16_bytes :: "u16 \<Rightarrow> bytes" where
  "be16_bytes v = [ucast (drop_bit 8 v AND 0xFF), ucast (v AND 0xFF)]"

definition be32_bytes :: "u32 \<Rightarrow> bytes" where
  "be32_bytes v = [ucast (drop_bit 24 v AND 0xFF), ucast (drop_bit 16 v AND 0xFF),
                   ucast (drop_bit 8 v AND 0xFF), ucast (v AND 0xFF)]"

definition write_be16 :: "bytes \<Rightarrow> nat \<Rightarrow> u16 \<Rightarrow> bytes option" where
  "write_be16 m p v = do {
     m \<leftarrow> wr8 m p (ucast (drop_bit 8 v AND 0xFF));
     wr8 m (p + 1) (ucast (v AND 0xFF)) }"

definition write_be32 :: "bytes \<Rightarrow> nat \<Rightarrow> u32 \<Rightarrow> bytes option" where
  "write_be32 m p v = do {
     m \<leftarrow> wr8 m p (ucast (drop_bit 24 v AND 0xFF));
     m \<leftarrow> wr8 m (p + 1) (ucast (drop_bit 16 v AND 0xFF));
     m \<leftarrow> wr8 m (p + 2) (ucast (drop_bit 8 v AND 0xFF));
     wr8 m (p + 3) (ucast (v AND 0xFF)) }"

definition write_be64 :: "bytes \<Rightarrow> nat \<Rightarrow> u64 \<Rightarrow> bytes option" where
  "write_be64 m p v = do {
     m \<leftarrow> write_be32 m p (ucast (drop_bit 32 v));
     write_be32 m (p + 4) (ucast (v AND 0xFFFFFFFF)) }"

lemma length_be_bytes [simp]: "length (be16_bytes v) = 2" "length (be32_bytes w) = 4"
  by (simp_all add: be16_bytes_def be32_bytes_def)

lemma read_be16_Some [mem_simps]:
  "p + 2 \<le> length m \<Longrightarrow> read_be16 m p = Some (be16 (m ! p) (m ! (p + 1)))"
  by (simp add: read_be16_def rd8_def)

lemma read_be32_Some [mem_simps]:
  "p + 4 \<le> length m \<Longrightarrow>
   read_be32 m p = Some (be32 (m ! p) (m ! (p + 1)) (m ! (p + 2)) (m ! (p + 3)))"
  by (simp add: read_be32_def rd8_def)

lemma write_be16_Some [mem_simps]:
  "p + 2 \<le> length m \<Longrightarrow> write_be16 m p v = Some (patch m p (be16_bytes v))"
  by (simp add: write_be16_def wr8_def list_update_is_patch patch_patch_adj'
      be16_bytes_def)

lemma write_be32_Some [mem_simps]:
  "p + 4 \<le> length m \<Longrightarrow> write_be32 m p v = Some (patch m p (be32_bytes v))"
  by (simp add: write_be32_def wr8_def list_update_is_patch patch_patch_adj'
      be32_bytes_def)

lemma bit_255 [simp]: "bit (255 :: int) n \<longleftrightarrow> n < 8"
proof -
  have "(255 :: int) = mask 8" by (simp add: mask_eq_exp_minus_1)
  then show ?thesis by (simp only: bit_mask_iff) (auto simp: possible_bit_def)
qed

lemma be16_hi_lo [be_simps]:
  "be16 (ucast (drop_bit 8 v AND 0xFF)) (ucast (v AND 0xFF)) = v"
  unfolding be16_def by (rule bit_word_eqI) (auto simp: bit_simps)

lemma be32_parts [be_simps]:
  "be32 (ucast (drop_bit 24 v AND 0xFF)) (ucast (drop_bit 16 v AND 0xFF))
        (ucast (drop_bit 8 v AND 0xFF)) (ucast (v AND 0xFF)) = v"
proof (rule bit_word_eqI)
  fix n assume n: "n < LENGTH(32)"
  consider "n < 8" | "8 \<le> n" "n < 16" | "16 \<le> n" "n < 24" | "24 \<le> n" by linarith
  then show "bit (be32 (ucast (drop_bit 24 v AND 0xFF)) (ucast (drop_bit 16 v AND 0xFF))
        (ucast (drop_bit 8 v AND 0xFF)) (ucast (v AND 0xFF))) n = bit v n"
    by cases (use n in \<open>auto simp: be32_def bit_simps\<close>)
qed

lemma be16_bytes_nth [be_simps]:
  "be16 (be16_bytes v ! 0) (be16_bytes v ! 1) = v"
  by (simp_all add: be16_bytes_def be16_hi_lo)

lemma unat_of_nat_u16 [be_simps]: "n < 65536 \<Longrightarrow> unat (of_nat n :: u16) = n"
  by (simp add: unat_of_nat)

lemma be32_bytes_nth [be_simps]:
  "be32 (be32_bytes v ! 0) (be32_bytes v ! 1) (be32_bytes v ! 2) (be32_bytes v ! 3) = v"
  by (simp add: be32_bytes_def be32_parts)

lemma unat_of_nat_u32 [be_simps]: "n < 4294967296 \<Longrightarrow> unat (of_nat n :: u32) = n"
  by (simp add: unat_of_nat)

end
