(* ===== verification/Iap2_Protocol.thy ===== *)
theory Iap2_Protocol
  imports Common
begin

text \<open>
  c_hook/framework/iap2_protocol.c and .h: finding and validating iAP2 frames,
  the TLV (type, length, value) parser, iterator, lookups and builders, the
  link checksum and the link header.

  A buffer argument is the object m, the pointer into it (None for NULL) and
  the length the caller states.  Output structures are always given by the
  callers and are returned.  size_t arithmetic is on nat: every length here is
  below 2^32, so an addition never wraps on the target.
\<close>

definition IAP2_SYNC1 :: u8 where "IAP2_SYNC1 = 0x40"
definition IAP2_SYNC2 :: u8 where "IAP2_SYNC2 = 0x40"
definition IAP2_LINK_SYNC1 :: u8 where "IAP2_LINK_SYNC1 = 0xFF"
definition IAP2_LINK_SYNC2 :: u8 where "IAP2_LINK_SYNC2 = 0x5A"
definition IAP2_MIN_FRAME :: nat where "IAP2_MIN_FRAME = 6"

definition IAP2_MSG_IDENTIFY_START :: u16 where "IAP2_MSG_IDENTIFY_START = 0x1D00"
definition IAP2_MSG_IDENTIFY :: u16 where "IAP2_MSG_IDENTIFY = 0x1D01"
definition IAP2_MSG_IDENTIFY_ACCEPTED :: u16 where "IAP2_MSG_IDENTIFY_ACCEPTED = 0x1D02"
definition IAP2_MSG_IDENTIFY_END :: u16 where "IAP2_MSG_IDENTIFY_END = 0x1D03"
definition IAP2_MSG_AUTH_REQ_CERT :: u16 where "IAP2_MSG_AUTH_REQ_CERT = 0xAA00"
definition IAP2_MSG_AUTH_REQ_CHALLENGE :: u16 where "IAP2_MSG_AUTH_REQ_CHALLENGE = 0xAA02"
definition IAP2_MSG_AUTH_COMPLETE :: u16 where "IAP2_MSG_AUTH_COMPLETE = 0xAA05"
definition IAP2_MSG_AUTH_SUCCESS :: u16 where "IAP2_MSG_AUTH_SUCCESS = IAP2_MSG_AUTH_COMPLETE"
definition IAP2_MSG_ROUTE_GUIDANCE_START :: u16 where "IAP2_MSG_ROUTE_GUIDANCE_START = 0x5200"
definition IAP2_MSG_ROUTE_GUIDANCE_UPDATE :: u16 where "IAP2_MSG_ROUTE_GUIDANCE_UPDATE = 0x5201"
definition IAP2_MSG_ROUTE_GUIDANCE_MANEUVER :: u16 where "IAP2_MSG_ROUTE_GUIDANCE_MANEUVER = 0x5202"
definition IAP2_MSG_ROUTE_GUIDANCE_STOP :: u16 where "IAP2_MSG_ROUTE_GUIDANCE_STOP = 0x5203"
definition IAP2_MSG_ROUTE_GUIDANCE_LANE :: u16 where "IAP2_MSG_ROUTE_GUIDANCE_LANE = 0x5204"

lemmas sync_defs = IAP2_SYNC1_def IAP2_SYNC2_def
lemmas msgid_defs = IAP2_MSG_IDENTIFY_START_def IAP2_MSG_IDENTIFY_def
  IAP2_MSG_IDENTIFY_ACCEPTED_def IAP2_MSG_IDENTIFY_END_def IAP2_MSG_AUTH_REQ_CERT_def
  IAP2_MSG_AUTH_REQ_CHALLENGE_def IAP2_MSG_AUTH_COMPLETE_def IAP2_MSG_AUTH_SUCCESS_def
  IAP2_MSG_ROUTE_GUIDANCE_START_def IAP2_MSG_ROUTE_GUIDANCE_UPDATE_def
  IAP2_MSG_ROUTE_GUIDANCE_MANEUVER_def IAP2_MSG_ROUTE_GUIDANCE_STOP_def
  IAP2_MSG_ROUTE_GUIDANCE_LANE_def

section \<open>Frames\<close>

record iap2_frame =
  fr_msgid :: u16
  fr_len :: u16
  fr_offset :: nat
  fr_payload :: "nat option"
  fr_payload_len :: nat

text \<open>The body of the scan loop: the frame that starts at i, if one does.\<close>

definition iap2_frame_here :: "bytes \<Rightarrow> nat \<Rightarrow> nat \<Rightarrow> nat \<Rightarrow> iap2_frame option option" where
  "iap2_frame_here m buf len i = do {
     s1 \<leftarrow> rd8 m (buf + i);
     if s1 \<noteq> IAP2_SYNC1 then Some None else do {
     s2 \<leftarrow> rd8 m (buf + i + 1);
     if s2 \<noteq> IAP2_SYNC2 then Some None else do {
     flen \<leftarrow> read_be16 m (buf + i + 2);
     if unat flen < IAP2_MIN_FRAME then Some None
     else if i + unat flen > len then Some None
     else do {
       msgid \<leftarrow> read_be16 m (buf + i + 4);
       Some (Some \<lparr> fr_msgid = msgid, fr_len = flen, fr_offset = i,
         fr_payload = (if unat flen > 6 then Some (buf + i + 6) else None),
         fr_payload_len = (if unat flen > 6 then unat flen - 6 else 0) \<rparr>)
     }}}}"

function find_frame_loop :: "bytes \<Rightarrow> nat \<Rightarrow> nat \<Rightarrow> nat \<Rightarrow> nat \<Rightarrow> iap2_frame option option" where
  "find_frame_loop m buf len mx i =
     (if i < mx then
        (case iap2_frame_here m buf len i of
           None \<Rightarrow> None
         | Some (Some f) \<Rightarrow> Some (Some f)
         | Some None \<Rightarrow> find_frame_loop m buf len mx (i + 1))
      else Some None)"
  by pat_completeness auto
termination by (relation "measure (\<lambda>(m, buf, len, mx, i). mx - i)") auto

declare find_frame_loop.simps [simp del]

definition iap2_find_frame_at :: "bytes \<Rightarrow> nat option \<Rightarrow> nat \<Rightarrow> nat \<Rightarrow> iap2_frame option option" where
  "iap2_find_frame_at m buf len start_off =
     (case buf of None \<Rightarrow> Some None
      | Some b \<Rightarrow> if len < IAP2_MIN_FRAME then Some None
                 else find_frame_loop m b len (len - 5) start_off)"

definition iap2_find_frame :: "bytes \<Rightarrow> nat option \<Rightarrow> nat \<Rightarrow> iap2_frame option option" where
  "iap2_find_frame m buf len = iap2_find_frame_at m buf len 0"

definition iap2_validate_frame :: "bytes \<Rightarrow> nat option \<Rightarrow> nat \<Rightarrow> bool option" where
  "iap2_validate_frame m buf len =
     (case buf of None \<Rightarrow> Some False
      | Some b \<Rightarrow>
         if len < IAP2_MIN_FRAME then Some False else do {
           s1 \<leftarrow> rd8 m b;
           if s1 \<noteq> IAP2_SYNC1 then Some False else do {
           s2 \<leftarrow> rd8 m (b + 1);
           if s2 \<noteq> IAP2_SYNC2 then Some False else do {
           flen \<leftarrow> read_be16 m (b + 2);
           Some (\<not> (unat flen < IAP2_MIN_FRAME \<or> unat flen > len)) }}})"

definition iap2_parse_msgid :: "bytes \<Rightarrow> nat option \<Rightarrow> nat \<Rightarrow> int option" where
  "iap2_parse_msgid m buf len =
     (case buf of None \<Rightarrow> Some (- 1)
      | Some b \<Rightarrow>
         if len < IAP2_MIN_FRAME then Some (- 1) else do {
           s1 \<leftarrow> rd8 m b;
           if s1 \<noteq> IAP2_SYNC1 then Some (- 1) else do {
           s2 \<leftarrow> rd8 m (b + 1);
           if s2 \<noteq> IAP2_SYNC2 then Some (- 1) else do {
           v \<leftarrow> read_be16 m (b + 4);
           Some (uint v) }}})"

section \<open>TLVs\<close>

record iap2_tlv =
  tlv_id :: u16
  tlv_len :: u16
  tlv_value :: "nat option"
  tlv_value_len :: nat

definition mk_tlv :: "nat \<Rightarrow> u16 \<Rightarrow> u16 \<Rightarrow> iap2_tlv" where
  "mk_tlv p tlen tid = \<lparr> tlv_id = tid, tlv_len = tlen,
     tlv_value = (if unat tlen > 4 then Some (p + 4) else None),
     tlv_value_len = (if unat tlen > 4 then unat tlen - 4 else 0) \<rparr>"

definition iap2_parse_tlv :: "bytes \<Rightarrow> nat option \<Rightarrow> nat \<Rightarrow> iap2_tlv option option" where
  "iap2_parse_tlv m buf len =
     (case buf of None \<Rightarrow> Some None
      | Some b \<Rightarrow>
         if len < 4 then Some None else do {
           tlen \<leftarrow> read_be16 m b;
           tid \<leftarrow> read_be16 m (b + 2);
           if unat tlen < 4 \<or> unat tlen > len then Some None
           else Some (Some (mk_tlv b tlen tid)) })"

record iap2_tlv_iter =
  it_data :: "nat option"
  it_len :: nat
  it_offset :: nat

definition iap2_tlv_iter_init :: "nat option \<Rightarrow> nat \<Rightarrow> iap2_tlv_iter" where
  "iap2_tlv_iter_init frame frame_len =
     (case frame of
        Some f \<Rightarrow> if frame_len > 6
          then \<lparr> it_data = Some (f + 6), it_len = frame_len - 6, it_offset = 0 \<rparr>
          else \<lparr> it_data = None, it_len = 0, it_offset = 0 \<rparr>
      | None \<Rightarrow> \<lparr> it_data = None, it_len = 0, it_offset = 0 \<rparr>)"

definition iap2_tlv_iter_next ::
  "bytes \<Rightarrow> iap2_tlv_iter \<Rightarrow> (iap2_tlv option \<times> iap2_tlv_iter) option" where
  "iap2_tlv_iter_next m it =
     (case it_data it of None \<Rightarrow> Some (None, it)
      | Some d \<Rightarrow>
         if it_offset it + 4 > it_len it then Some (None, it)
         else do {
           r \<leftarrow> iap2_parse_tlv m (Some (d + it_offset it)) (it_len it - it_offset it);
           (case r of None \<Rightarrow> Some (None, it)
            | Some t \<Rightarrow> Some (Some t, it\<lparr> it_offset := it_offset it + unat (tlv_len t) \<rparr>)) })"

text \<open>The callers' loop \<open>while (iap2_tlv_iter_next(&iter, &tlv))\<close>.\<close>

function iap2_tlv_iter_all :: "bytes \<Rightarrow> iap2_tlv_iter \<Rightarrow> iap2_tlv list option" where
  "iap2_tlv_iter_all m it =
     (case iap2_tlv_iter_next m it of
        None \<Rightarrow> None
      | Some (None, it') \<Rightarrow> Some []
      | Some (Some t, it') \<Rightarrow> map_option ((#) t) (iap2_tlv_iter_all m it'))"
  by pat_completeness auto
termination
  by (relation "measure (\<lambda>(m, it). it_len it - it_offset it)")
    (auto simp: iap2_tlv_iter_next_def iap2_parse_tlv_def mk_tlv_def Let_def bind_eq_Some_conv
      split: option.splits if_splits)

declare iap2_tlv_iter_all.simps [simp del]

function find_tlv_loop :: "bytes \<Rightarrow> nat \<Rightarrow> nat \<Rightarrow> u16 \<Rightarrow> nat \<Rightarrow> iap2_tlv option option" where
  "find_tlv_loop m p len tid off =
     (if off + 4 \<le> len then
        (case (read_be16 m (p + off), read_be16 m (p + off + 2)) of
           (Some tlen, Some i) \<Rightarrow>
             if unat tlen < 4 \<or> off + unat tlen > len then Some None
             else if i = tid then Some (Some (mk_tlv (p + off) tlen i))
             else find_tlv_loop m p len tid (off + unat tlen)
         | _ \<Rightarrow> None)
      else Some None)"
  by pat_completeness auto
termination by (relation "measure (\<lambda>(m, p, len, tid, off). len - off)") auto

declare find_tlv_loop.simps [simp del]

definition iap2_find_tlv :: "bytes \<Rightarrow> nat option \<Rightarrow> nat \<Rightarrow> u16 \<Rightarrow> iap2_tlv option option" where
  "iap2_find_tlv m payload len tid =
     (case payload of None \<Rightarrow> Some None
      | Some p \<Rightarrow> if len < 4 then Some None else find_tlv_loop m p len tid 0)"

text \<open>The result is the offset and what the out_len argument was set to.\<close>

function find_tlv_offset_loop :: "bytes \<Rightarrow> nat \<Rightarrow> nat \<Rightarrow> u16 \<Rightarrow> nat \<Rightarrow> (nat \<times> u16 option) option" where
  "find_tlv_offset_loop m p len tid off =
     (if off + 4 \<le> len then
        (case (read_be16 m (p + off), read_be16 m (p + off + 2)) of
           (Some tlen, Some i) \<Rightarrow>
             if unat tlen < 4 \<or> off + unat tlen > len then Some (0, None)
             else if i = tid then Some (off, Some tlen)
             else find_tlv_offset_loop m p len tid (off + unat tlen)
         | _ \<Rightarrow> None)
      else Some (0, None))"
  by pat_completeness auto
termination by (relation "measure (\<lambda>(m, p, len, tid, off). len - off)") auto

declare find_tlv_offset_loop.simps [simp del]

definition iap2_find_tlv_offset :: "bytes \<Rightarrow> nat option \<Rightarrow> nat \<Rightarrow> u16 \<Rightarrow> (nat \<times> u16 option) option" where
  "iap2_find_tlv_offset m payload len tid =
     (case payload of None \<Rightarrow> Some (0, None)
      | Some p \<Rightarrow> if len < 4 then Some (0, None) else find_tlv_offset_loop m p len tid 0)"

section \<open>Builders\<close>

text \<open>A builder returns the size it wrote (0 for an error) and the output
  object.  A source argument is None for NULL.\<close>

definition iap2_build_frame ::
  "bytes \<Rightarrow> nat option \<Rightarrow> nat \<Rightarrow> u16 \<Rightarrow> bytes option \<Rightarrow> nat \<Rightarrow> (nat \<times> bytes) option" where
  "iap2_build_frame m out out_max msgid payload payload_len =
     (let frame_len = 6 + payload_len in
      case out of None \<Rightarrow> Some (0, m)
      | Some o1 \<Rightarrow>
        if out_max < frame_len then Some (0, m) else do {
          m \<leftarrow> wr8 m o1 IAP2_SYNC1;
          m \<leftarrow> wr8 m (o1 + 1) IAP2_SYNC2;
          m \<leftarrow> write_be16 m (o1 + 2) (of_nat frame_len);
          m \<leftarrow> write_be16 m (o1 + 4) msgid;
          m \<leftarrow> (case payload of None \<Rightarrow> Some m
                | Some pl \<Rightarrow> if payload_len > 0
                    then do { bs \<leftarrow> rd_mem pl 0 payload_len; wr_mem m (o1 + 6) bs } else Some m);
          Some (frame_len, m) })"

definition iap2_build_tlv ::
  "bytes \<Rightarrow> nat option \<Rightarrow> nat \<Rightarrow> u16 \<Rightarrow> bytes option \<Rightarrow> nat \<Rightarrow> (nat \<times> bytes) option" where
  "iap2_build_tlv m out out_max tid v value_len =
     (let tlen = 4 + value_len in
      case out of None \<Rightarrow> Some (0, m)
      | Some o1 \<Rightarrow>
        if out_max < tlen then Some (0, m) else do {
          m \<leftarrow> write_be16 m o1 (of_nat tlen);
          m \<leftarrow> write_be16 m (o1 + 2) tid;
          m \<leftarrow> (case v of None \<Rightarrow> Some m
                | Some vs \<Rightarrow> if value_len > 0
                    then do { bs \<leftarrow> rd_mem vs 0 value_len; wr_mem m (o1 + 4) bs } else Some m);
          Some (tlen, m) })"

definition iap2_build_tlv_u16 :: "bytes \<Rightarrow> nat option \<Rightarrow> nat \<Rightarrow> u16 \<Rightarrow> u16 \<Rightarrow> (nat \<times> bytes) option" where
  "iap2_build_tlv_u16 m out out_max tid v =
     (case out of None \<Rightarrow> Some (0, m)
      | Some o1 \<Rightarrow> if out_max < 6 then Some (0, m) else do {
          m \<leftarrow> write_be16 m o1 6;
          m \<leftarrow> write_be16 m (o1 + 2) tid;
          m \<leftarrow> write_be16 m (o1 + 4) v;
          Some (6, m) })"

definition iap2_build_tlv_u8 :: "bytes \<Rightarrow> nat option \<Rightarrow> nat \<Rightarrow> u16 \<Rightarrow> u8 \<Rightarrow> (nat \<times> bytes) option" where
  "iap2_build_tlv_u8 m out out_max tid v =
     (case out of None \<Rightarrow> Some (0, m)
      | Some o1 \<Rightarrow> if out_max < 5 then Some (0, m) else do {
          m \<leftarrow> write_be16 m o1 5;
          m \<leftarrow> write_be16 m (o1 + 2) tid;
          m \<leftarrow> wr8 m (o1 + 4) v;
          Some (5, m) })"

text \<open>The string argument is the C string's characters; its terminator is
  copied with it.\<close>

definition iap2_build_tlv_str :: "bytes \<Rightarrow> nat option \<Rightarrow> nat \<Rightarrow> u16 \<Rightarrow> string option \<Rightarrow> (nat \<times> bytes) option" where
  "iap2_build_tlv_str m out out_max tid str =
     (let s = (case str of None \<Rightarrow> [] | Some s \<Rightarrow> s);
          str_len = length s + 1;
          tlen = 4 + str_len in
      case out of None \<Rightarrow> Some (0, m)
      | Some o1 \<Rightarrow> if out_max < tlen then Some (0, m) else do {
          m \<leftarrow> write_be16 m o1 (of_nat tlen);
          m \<leftarrow> write_be16 m (o1 + 2) tid;
          m \<leftarrow> wr_mem m (o1 + 4) (str_bytes s @ [0]);
          Some (tlen, m) })"

section \<open>Link layer\<close>

definition sum8 :: "bytes \<Rightarrow> u8" where
  "sum8 bs = foldl (+) 0 bs"

definition iap2_cksum_neg :: "bytes \<Rightarrow> nat option \<Rightarrow> nat \<Rightarrow> u8 option" where
  "iap2_cksum_neg m buf len =
     (case buf of None \<Rightarrow> Some 0
      | Some b \<Rightarrow> do { bs \<leftarrow> rd_mem m b len; Some (0 - sum8 bs) })"

record iap2_link_header =
  lh_length :: u16
  lh_ctrl :: u8
  lh_seq :: u8
  lh_ack :: u8
  lh_session :: u8
  lh_checksum :: u8

definition iap2_parse_link_header :: "bytes \<Rightarrow> nat option \<Rightarrow> nat \<Rightarrow> iap2_link_header option option" where
  "iap2_parse_link_header m buf len =
     (case buf of None \<Rightarrow> Some None
      | Some b \<Rightarrow> if len < 9 then Some None else do {
          s1 \<leftarrow> rd8 m b;
          if s1 \<noteq> IAP2_LINK_SYNC1 then Some None else do {
          s2 \<leftarrow> rd8 m (b + 1);
          if s2 \<noteq> IAP2_LINK_SYNC2 then Some None else do {
            l \<leftarrow> read_be16 m (b + 2);
            c \<leftarrow> rd8 m (b + 4);
            s \<leftarrow> rd8 m (b + 5);
            a \<leftarrow> rd8 m (b + 6);
            n \<leftarrow> rd8 m (b + 7);
            k \<leftarrow> rd8 m (b + 8);
            Some (Some \<lparr> lh_length = l, lh_ctrl = c, lh_seq = s, lh_ack = a,
              lh_session = n, lh_checksum = k \<rparr>) }}})"

text \<open>The scan of iap2_patch_link_header for the length field: matches, the
  offset and the old value.\<close>

function link_scan :: "bytes \<Rightarrow> nat \<Rightarrow> nat \<Rightarrow> nat \<Rightarrow> (int \<times> nat \<times> u16) option" where
  "link_scan m b prefix_len i =
     (if i + 1 < prefix_len then
        (case read_be16 m (b + i) of
           None \<Rightarrow> None
         | Some v \<Rightarrow>
             if i = 2 \<or> v > 0 then
               (if i = 2 then Some (1, i, v) else link_scan m b prefix_len (i + 1))
             else link_scan m b prefix_len (i + 1))
      else Some (0, 0, 0))"
  by pat_completeness auto
termination by (relation "measure (\<lambda>(m, b, n, i). n - i)") auto

declare link_scan.simps [simp del]

definition iap2_patch_link_header :: "bytes \<Rightarrow> nat option \<Rightarrow> nat \<Rightarrow> nat \<Rightarrow> bytes option" where
  "iap2_patch_link_header m buf prefix_len new_total_len =
     (case buf of None \<Rightarrow> Some m
      | Some b \<Rightarrow>
        if prefix_len < 9 then Some m else do {
          (matches, match_off, old_len) \<leftarrow> link_scan m b prefix_len 0;
          if matches = 1 \<and> old_len > 0 then do {
            m \<leftarrow> write_be16 m (b + match_off) (of_nat new_total_len);
            bs \<leftarrow> rd_mem m b (prefix_len - 1);
            wr8 m (b + (prefix_len - 1)) (0 - sum8 bs)
          } else Some m })"

section \<open>The TLV format\<close>

text \<open>What the walkers above read, as a record format: a TLV is its id and its
  value.\<close>

definition tlv_enc :: "u16 \<times> bytes \<Rightarrow> bytes" where
  "tlv_enc t = be16_bytes (of_nat (4 + length (snd t))) @ be16_bytes (fst t) @ snd t"

definition tlv_dec :: "bytes \<Rightarrow> ((u16 \<times> bytes) \<times> bytes) option" where
  "tlv_dec bs =
     (if length bs < 4 then None else
        let tlen = unat (be16 (bs ! 0) (bs ! 1)); tid = be16 (bs ! 2) (bs ! 3)
        in if tlen < 4 \<or> tlen > length bs then None
           else Some ((tid, slice bs 4 (tlen - 4)), drop tlen bs))"

definition tlv_ok :: "u16 \<times> bytes \<Rightarrow> bool" where
  "tlv_ok t \<longleftrightarrow> 4 + length (snd t) < 65536"

definition tlv_split :: "bytes \<Rightarrow> (u16 \<times> bytes) list" where
  "tlv_split bs = fst (dec_all tlv_dec bs)"

interpretation tlvc: stream_codec tlv_enc tlv_dec tlv_ok
proof
  fix x rest assume ok: "tlv_ok x"
  then have n: "unat (of_nat (4 + length (snd x)) :: u16) = 4 + length (snd x)"
    by (simp add: tlv_ok_def be_simps del: of_nat_add)
  have b: "be16 ((be16_bytes u @ be16_bytes v @ w) ! 0) ((be16_bytes u @ be16_bytes v @ w) ! 1) = u"
    "be16 ((be16_bytes u @ be16_bytes v @ w) ! 2) ((be16_bytes u @ be16_bytes v @ w) ! 3) = v" for u v w
    by (simp_all add: nth_append be_simps)
  show "tlv_dec (tlv_enc x @ rest) = Some (x, rest)"
    unfolding tlv_dec_def tlv_enc_def append_assoc b Let_def n
    by (simp add: slice_def)
next
  fix bs x r assume "tlv_dec bs = Some (x, r)"
  then show "length r < length bs"
    by (auto simp: tlv_dec_def Let_def split: if_splits)
next
  fix bs x r c assume "tlv_dec bs = Some (x, r)"
  then show "tlv_dec (bs @ c) = Some (x, r @ c)"
    by (auto simp: tlv_dec_def Let_def nth_append split: if_splits)
qed

lemma tlv_split_simps:
  "tlv_dec bs = None \<Longrightarrow> tlv_split bs = []"
  "tlv_dec bs = Some (t, r) \<Longrightarrow> tlv_split bs = t # tlv_split r"
  by (simp_all add: tlv_split_def tlvc.dec_all_Nil_rest tlvc.dec_all_Cons)

lemma tlv_split_Nil [simp]: "tlv_split [] = []"
  by (rule tlv_split_simps) (simp add: tlv_dec_def)

lemma tlv_split_enc: "list_all tlv_ok ts \<Longrightarrow> tlv_split (concat (map tlv_enc ts)) = ts"
  unfolding tlv_split_def by (simp add: tlvc.dec_all_enc tlv_dec_def)

text \<open>The TLV a parser result denotes in the object it points into.\<close>

definition tlv_abs :: "bytes \<Rightarrow> iap2_tlv \<Rightarrow> u16 \<times> bytes" where
  "tlv_abs m t = (tlv_id t,
     case tlv_value t of None \<Rightarrow> [] | Some q \<Rightarrow> slice m q (tlv_value_len t))"

lemma tlv_abs_mk: "tlv_abs m (mk_tlv p tlen tid) = (tid, slice m (p + 4) (unat tlen - 4))"
  by (simp add: tlv_abs_def mk_tlv_def)

lemma mk_tlv_sel [simp]: "tlv_id (mk_tlv p tlen tid) = tid" "tlv_len (mk_tlv p tlen tid) = tlen"
  by (simp_all add: mk_tlv_def)

text \<open>One decoding step at an offset of a payload, as the walkers do it.\<close>

lemma tlv_dec_at:
  assumes "p + len \<le> length m" and "off + 4 \<le> len"
  defines "tlen \<equiv> be16 (m ! (p + off)) (m ! (p + off + 1))"
    and "tid \<equiv> be16 (m ! (p + off + 2)) (m ! (p + off + 3))"
  shows "tlv_dec (slice m (p + off) (len - off)) =
    (if unat tlen < 4 \<or> off + unat tlen > len then None
     else Some ((tid, slice m (p + off + 4) (unat tlen - 4)),
                slice m (p + (off + unat tlen)) (len - (off + unat tlen))))"
proof -
  have n: "slice m (p + off) (len - off) ! k = m ! (p + off + k)" if "k < 4" for k
    using that assms(1,2) by (subst nth_slice) auto
  have l: "length (slice m (p + off) (len - off)) = len - off"
    using assms(1,2) by simp
  have d: "drop k (slice m (p + off) (len - off)) = slice m (p + (off + k)) (len - (off + k))" for k
    by (simp add: slice_def drop_take add.commute add.left_commute)
  have s: "slice (slice m (p + off) (len - off)) 4 (k - 4) = slice m (p + off + 4) (k - 4)"
    if "k \<le> len - off" "4 \<le> k" for k
    using that by (subst slice_slice) auto
  have i: "be16 (slice m (p + off) (len - off) ! 0) (slice m (p + off) (len - off) ! 1) = tlen"
    "be16 (slice m (p + off) (len - off) ! 2) (slice m (p + off) (len - off) ! 3) = tid"
    by (simp_all only: n tlen_def tid_def) simp
  show ?thesis
    unfolding tlv_dec_def l i Let_def d
    using assms(2) by (auto simp: s)
qed

lemma slice_short_dec: "\<not> off + 4 \<le> len \<Longrightarrow> tlv_dec (slice m (p + off) (len - off)) = None"
proof -
  assume "\<not> off + 4 \<le> len"
  then have "length (slice m (p + off) (len - off)) < 4" by (auto simp: slice_def)
  then show ?thesis by (simp add: tlv_dec_def)
qed

text \<open>The two bytes pairs a walker reads at an offset, and the step they give.\<close>

lemma tlv_step:
  assumes "p + len \<le> length m" and "off + 4 \<le> len"
  obtains tl ti where "read_be16 m (p + off) = Some tl" and "read_be16 m (p + off + 2) = Some ti"
    and "tlv_dec (slice m (p + off) (len - off)) =
      (if unat tl < 4 \<or> off + unat tl > len then None
       else Some ((ti, slice m (p + off + 4) (unat tl - 4)),
                  slice m (p + (off + unat tl)) (len - (off + unat tl))))"
proof
  show "read_be16 m (p + off) = Some (be16 (m ! (p + off)) (m ! (p + off + 1)))"
    using assms by (simp add: read_be16_Some)
  show "read_be16 m (p + off + 2) = Some (be16 (m ! (p + off + 2)) (m ! (p + off + 3)))"
    using assms by (simp add: read_be16_Some add.assoc)
qed (rule tlv_dec_at [OF assms])

lemma find_tlv_loop_spec:
  assumes "p + len \<le> length m"
  shows "\<exists>r. find_tlv_loop m p len tid off = Some r \<and>
     map_option (tlv_abs m) r =
       find (\<lambda>t. fst t = tid) (tlv_split (slice m (p + off) (len - off)))"
proof (induction "len - off" arbitrary: off rule: less_induct)
  case less
  show ?case
  proof (cases "off + 4 \<le> len")
    case False
    then show ?thesis
      by (simp add: find_tlv_loop.simps [of m p len tid off] tlv_split_simps slice_short_dec)
  next
    case True
    obtain tl ti where s: "read_be16 m (p + off) = Some tl" "read_be16 m (p + off + 2) = Some ti"
      "tlv_dec (slice m (p + off) (len - off)) =
        (if unat tl < 4 \<or> off + unat tl > len then None
         else Some ((ti, slice m (p + off + 4) (unat tl - 4)),
                    slice m (p + (off + unat tl)) (len - (off + unat tl))))"
      using tlv_step [OF assms True] by blast
    show ?thesis
      by (subst find_tlv_loop.simps, unfold s)
        (use less [of "off + unat tl"] True s(3) in
          \<open>auto simp: tlv_split_simps tlv_abs_mk split: if_splits\<close>)
  qed
qed

text \<open>The position of the first TLV with an id.\<close>

fun tlv_pos :: "u16 \<Rightarrow> (u16 \<times> bytes) list \<Rightarrow> nat option" where
  "tlv_pos tid [] = None"
| "tlv_pos tid (t # ts) =
     (if fst t = tid then Some 0 else map_option ((+) (4 + length (snd t))) (tlv_pos tid ts))"

lemma find_tlv_offset_loop_spec:
  assumes "p + len \<le> length m"
  shows "case tlv_pos tid (tlv_split (slice m (p + off) (len - off))) of
      None \<Rightarrow> find_tlv_offset_loop m p len tid off = Some (0, None)
    | Some n \<Rightarrow> \<exists>l. find_tlv_offset_loop m p len tid off = Some (off + n, Some l)"
proof (induction "len - off" arbitrary: off rule: less_induct)
  case less
  show ?case
  proof (cases "off + 4 \<le> len")
    case False
    then show ?thesis
      by (simp add: find_tlv_offset_loop.simps [of m p len tid off] tlv_split_simps slice_short_dec)
  next
    case True
    obtain tl ti where s: "read_be16 m (p + off) = Some tl" "read_be16 m (p + off + 2) = Some ti"
      "tlv_dec (slice m (p + off) (len - off)) =
        (if unat tl < 4 \<or> off + unat tl > len then None
         else Some ((ti, slice m (p + off + 4) (unat tl - 4)),
                    slice m (p + (off + unat tl)) (len - (off + unat tl))))"
      using tlv_step [OF assms True] by blast
    have l: "unat tl < 4 \<or> off + unat tl > len \<or> 4 + length (slice m (p + off + 4) (unat tl - 4)) = unat tl"
      using assms True by (auto simp: slice_def)
    show ?thesis
      by (subst (1 2) find_tlv_offset_loop.simps, unfold s)
        (use less [of "off + unat tl"] True s(3) l in
          \<open>auto simp: tlv_split_simps add.assoc split: if_splits option.splits\<close>)
  qed
qed

lemma iter_next_step:
  assumes "d + n \<le> length m"
  shows "iap2_tlv_iter_next m \<lparr>it_data = Some d, it_len = n, it_offset = off\<rparr> =
    (case tlv_dec (slice m (d + off) (n - off)) of
       None \<Rightarrow> Some (None, \<lparr>it_data = Some d, it_len = n, it_offset = off\<rparr>)
     | Some ((ti, v), r) \<Rightarrow>
         Some (Some (mk_tlv (d + off) (of_nat (4 + length v)) ti),
               \<lparr>it_data = Some d, it_len = n, it_offset = off + (4 + length v)\<rparr>))"
proof (cases "off + 4 \<le> n")
  case False
  then show ?thesis by (simp add: iap2_tlv_iter_next_def slice_short_dec)
next
  case True
  obtain tl ti where s: "read_be16 m (d + off) = Some tl" "read_be16 m (d + off + 2) = Some ti"
    "tlv_dec (slice m (d + off) (n - off)) =
      (if unat tl < 4 \<or> off + unat tl > n then None
       else Some ((ti, slice m (d + off + 4) (unat tl - 4)),
                  slice m (d + (off + unat tl)) (n - (off + unat tl))))"
    using tlv_step [OF assms True] by blast
  have l: "4 + length (slice m (d + off + 4) (unat tl - 4)) = unat tl"
    if "\<not> (unat tl < 4 \<or> off + unat tl > n)"
    using assms that by simp
  have c: "unat tl < 4 \<or> unat tl > n - off \<longleftrightarrow> unat tl < 4 \<or> off + unat tl > n"
    using True by auto
  show ?thesis
  proof (cases "unat tl < 4 \<or> off + unat tl > n")
    case bad: True
    then show ?thesis
      using True by (auto simp: iap2_tlv_iter_next_def iap2_parse_tlv_def s c)
  next
    case good: False
    have w: "(of_nat (4 + length (slice m (d + off + 4) (unat tl - 4))) :: u16) = tl"
      unfolding l [OF good] by simp
    show ?thesis
      unfolding s(3) iap2_tlv_iter_next_def iap2_parse_tlv_def
      using True good l [OF good] w by (simp add: s(1,2) c del: length_slice of_nat_add)
  qed
qed

lemma iter_all_spec:
  assumes "d + n \<le> length m"
  shows "\<exists>ts. iap2_tlv_iter_all m \<lparr>it_data = Some d, it_len = n, it_offset = off\<rparr> = Some ts \<and>
    map (tlv_abs m) ts = tlv_split (slice m (d + off) (n - off))"
proof (induction "n - off" arbitrary: off rule: less_induct)
  case less
  show ?case
  proof (cases "tlv_dec (slice m (d + off) (n - off))")
    case None
    then show ?thesis
      by (subst iap2_tlv_iter_all.simps) (simp add: iter_next_step [OF assms] tlv_split_simps)
  next
    case (Some a)
    obtain ti v r where a: "a = ((ti, v), r)" by (metis surj_pair)
    have o4: "off + 4 \<le> n" using Some slice_short_dec by fastforce
    obtain tl :: u16 where tl: "tlv_dec (slice m (d + off) (n - off)) =
        Some ((ti, slice m (d + off + 4) (unat tl - 4)),
              slice m (d + (off + unat tl)) (n - (off + unat tl)))"
      "4 \<le> unat tl" "off + unat tl \<le> n"
    proof (rule tlv_step [OF assms o4])
      fix tl ti' :: u16
      assume "tlv_dec (slice m (d + off) (n - off)) =
        (if unat tl < 4 \<or> off + unat tl > n then None
         else Some ((ti', slice m (d + off + 4) (unat tl - 4)),
                    slice m (d + (off + unat tl)) (n - (off + unat tl))))"
      with that [of tl] Some a show thesis by (auto split: if_splits)
    qed
    have v: "v = slice m (d + off + 4) (unat tl - 4)" "r = slice m (d + (off + unat tl)) (n - (off + unat tl))"
      using tl(1) Some a by auto
    have lv: "4 + length v = unat tl" using v tl assms by simp
    then have uw: "(of_nat (4 + length v) :: u16) = tl" by simp
    have dec: "n - (off + unat tl) < n - off" using tl by arith
    obtain ts where ts: "iap2_tlv_iter_all m \<lparr>it_data = Some d, it_len = n, it_offset = off + unat tl\<rparr> = Some ts"
      "map (tlv_abs m) ts = tlv_split r"
      using less [OF dec] v by auto
    show ?thesis
      unfolding iap2_tlv_iter_all.simps [of m "\<lparr>it_data = Some d, it_len = n, it_offset = off\<rparr>"]
        iter_next_step [OF assms] Some a option.case prod.case lv uw ts(1)
      using ts(2) tlv_split_simps(2) [OF Some [unfolded a]] by (simp add: tlv_abs_mk v)
  qed
qed

section \<open>The frame format\<close>

definition frame_starts :: "bytes \<Rightarrow> nat \<Rightarrow> bool" where
  "frame_starts xs i \<longleftrightarrow> i + 6 \<le> length xs \<and> xs ! i = IAP2_SYNC1 \<and> xs ! (i + 1) = IAP2_SYNC2 \<and>
     6 \<le> unat (be16 (xs ! (i + 2)) (xs ! (i + 3))) \<and>
     i + unat (be16 (xs ! (i + 2)) (xs ! (i + 3))) \<le> length xs"

definition frame_abs :: "bytes \<Rightarrow> iap2_frame \<Rightarrow> u16 \<times> bytes" where
  "frame_abs m f = (fr_msgid f,
     case fr_payload f of None \<Rightarrow> [] | Some q \<Rightarrow> slice m q (fr_payload_len f))"

text \<open>The frame at a position: its message id and its payload.\<close>

definition frame_at :: "bytes \<Rightarrow> nat \<Rightarrow> u16 \<times> bytes" where
  "frame_at xs i = (be16 (xs ! (i + 4)) (xs ! (i + 5)),
     slice xs (i + 6) (unat (be16 (xs ! (i + 2)) (xs ! (i + 3))) - 6))"

definition frame_enc :: "u16 \<times> bytes \<Rightarrow> bytes" where
  "frame_enc f = [IAP2_SYNC1, IAP2_SYNC2] @ be16_bytes (of_nat (6 + length (snd f))) @
     be16_bytes (fst f) @ snd f"

lemma frame_here_spec:
  assumes "b + len \<le> length m" and "i + 6 \<le> len"
  shows "if frame_starts (slice m b len) i
    then \<exists>f. iap2_frame_here m b len i = Some (Some f) \<and> fr_offset f = i \<and>
      frame_abs m f = frame_at (slice m b len) i \<and>
      fr_len f = be16 (slice m b len ! (i + 2)) (slice m b len ! (i + 3))
    else iap2_frame_here m b len i = Some None"
proof -
  let ?xs = "slice m b len"
  have n: "?xs ! (i + k) = m ! (b + i + k)" if "k < 6" for k
    using that assms by (subst nth_slice) (auto simp: add.assoc)
  have r: "rd8 m (b + i) = Some (?xs ! i)" "rd8 m (b + i + 1) = Some (?xs ! (i + 1))"
    "read_be16 m (b + i + 2) = Some (be16 (?xs ! (i + 2)) (?xs ! (i + 3)))"
    "read_be16 m (b + i + 4) = Some (be16 (?xs ! (i + 4)) (?xs ! (i + 5)))"
    using assms n [of 0] n [of 1] n [of 2] n [of 3] n [of 4] n [of 5]
    by (simp_all add: read_be16_Some rd8_Some add.assoc)
  have s: "slice ?xs (i + 6) k = slice m (b + i + 6) k" if "i + 6 + k \<le> len" for k
    using that by (subst slice_slice) (auto simp: add.assoc)
  show ?thesis
    using assms s
    by (auto simp: iap2_frame_here_def r frame_starts_def frame_abs_def frame_at_def IAP2_MIN_FRAME_def)
qed

lemma find_frame_loop_spec:
  assumes "b + len \<le> length m" and "6 \<le> len"
  shows "case find (frame_starts (slice m b len)) [i ..< len - 5] of
      None \<Rightarrow> find_frame_loop m b len (len - 5) i = Some None
    | Some j \<Rightarrow> \<exists>f. find_frame_loop m b len (len - 5) i = Some (Some f) \<and> fr_offset f = j \<and>
        frame_abs m f = frame_at (slice m b len) j \<and>
        fr_len f = be16 (slice m b len ! (j + 2)) (slice m b len ! (j + 3))"
proof (induction "len - 5 - i" arbitrary: i rule: less_induct)
  case less
  show ?case
  proof (cases "i < len - 5")
    case False
    then show ?thesis by (simp add: find_frame_loop.simps [of m b len "len - 5" i])
  next
    case True
    have f: "if frame_starts (slice m b len) i
      then \<exists>f. iap2_frame_here m b len i = Some (Some f) \<and> fr_offset f = i \<and>
        frame_abs m f = frame_at (slice m b len) i \<and>
        fr_len f = be16 (slice m b len ! (i + 2)) (slice m b len ! (i + 3))
      else iap2_frame_here m b len i = Some None"
      using True by (intro frame_here_spec [OF assms(1)]) simp
    have u: "[i ..< len - 5] = i # [i + 1 ..< len - 5]"
      and dec: "len - 5 - (i + 1) < len - 5 - i" using True by (simp add: upt_conv_Cons Suc_eq_plus1, arith)
    show ?thesis
      using f less [OF dec] True
      by (cases "frame_starts (slice m b len) i")
        (auto simp: u find_frame_loop.simps [of m b len "len - 5" i] split: option.splits)
  qed
qed

section \<open>Builders and link header\<close>

lemma length_frame_enc [simp]: "length (frame_enc f) = 6 + length (snd f)"
  by (simp add: frame_enc_def)

lemma length_tlv_enc [simp]: "length (tlv_enc t) = 4 + length (snd t)"
  by (simp add: tlv_enc_def)

lemma build_frame_patch:
  assumes "o1 + 6 + length pl \<le> length m" and "6 + length pl \<le> mx"
  shows "iap2_build_frame m (Some o1) mx msgid (Some pl) (length pl) =
    Some (6 + length pl, patch m o1 (frame_enc (msgid, pl)))"
proof -
  have e: "frame_enc (msgid, pl) =
    [IAP2_SYNC1] @ [IAP2_SYNC2] @ be16_bytes (of_nat (6 + length pl)) @ be16_bytes msgid @ pl"
    by (simp add: frame_enc_def)
  have p: "patch (patch (patch (patch (patch m o1 [IAP2_SYNC1]) (o1 + 1) [IAP2_SYNC2]) (o1 + 2)
      (be16_bytes (of_nat (6 + length pl)))) (o1 + 4) (be16_bytes msgid)) (o1 + 6) pl =
    patch m o1 (frame_enc (msgid, pl))"
    using assms unfolding e by (simp add: patch_patch_adj' del: of_nat_add)
  have "patch m' j [] = m'" if "j \<le> length m'" for m' :: bytes and j using that by (simp add: patch_def)
  then show ?thesis
    using assms p
    by (cases "pl = []")
      (auto simp: iap2_build_frame_def mem_simps list_update_is_patch simp del: of_nat_add)
qed

lemma build_tlv_patch:
  assumes "o1 + 4 + length v \<le> length m" and "4 + length v \<le> mx"
  shows "iap2_build_tlv m (Some o1) mx tid (Some v) (length v) =
    Some (4 + length v, patch m o1 (tlv_enc (tid, v)))"
proof -
  have p: "patch (patch (patch m o1 (be16_bytes (of_nat (4 + length v)))) (o1 + 2) (be16_bytes tid)) (o1 + 4) v =
    patch m o1 (tlv_enc (tid, v))"
    using assms by (simp add: tlv_enc_def patch_patch_adj' del: of_nat_add)
  have "patch m' j [] = m'" if "j \<le> length m'" for m' :: bytes and j using that by (simp add: patch_def)
  then show ?thesis
    using assms p
    by (cases "v = []") (auto simp: iap2_build_tlv_def mem_simps simp del: of_nat_add)
qed

lemma build_tlv_u16_patch:
  "o1 + 6 \<le> length m \<Longrightarrow> 6 \<le> mx \<Longrightarrow>
   iap2_build_tlv_u16 m (Some o1) mx tid v = Some (6, patch m o1 (tlv_enc (tid, be16_bytes v)))"
  by (simp add: iap2_build_tlv_u16_def mem_simps patch_patch_adj' tlv_enc_def)

lemma build_tlv_u8_patch:
  "o1 + 5 \<le> length m \<Longrightarrow> 5 \<le> mx \<Longrightarrow>
   iap2_build_tlv_u8 m (Some o1) mx tid v = Some (5, patch m o1 (tlv_enc (tid, [v])))"
  by (simp add: iap2_build_tlv_u8_def mem_simps list_update_is_patch patch_patch_adj' tlv_enc_def)

lemma build_tlv_str_patch:
  "o1 + 5 + length s \<le> length m \<Longrightarrow> 5 + length s \<le> mx \<Longrightarrow>
   iap2_build_tlv_str m (Some o1) mx tid (Some s) =
     Some (5 + length s, patch m o1 (tlv_enc (tid, str_bytes s @ [0])))"
  by (simp add: iap2_build_tlv_str_def Let_def mem_simps patch_patch_adj' tlv_enc_def)

lemma frame_starts_enc:
  assumes "6 + length pl < 65536"
  shows "frame_starts (frame_enc (msgid, pl)) 0" and "frame_at (frame_enc (msgid, pl)) 0 = (msgid, pl)"
proof -
  let ?e = "frame_enc (msgid, pl)"
  have "?e ! 0 = IAP2_SYNC1" "?e ! 1 = IAP2_SYNC2"
    by (simp_all add: frame_enc_def)
  moreover have l: "be16 (?e ! 2) (?e ! 3) = of_nat (6 + length pl)" "be16 (?e ! 4) (?e ! 5) = msgid"
    by (simp_all add: frame_enc_def be_simps nth_append nth_Cons' del: of_nat_add)
  moreover have n: "unat (of_nat (6 + length pl) :: u16) = 6 + length pl"
    using assms by (simp add: be_simps del: of_nat_add)
  ultimately show "frame_starts ?e 0"
    by (simp add: frame_starts_def n)
  show "frame_at ?e 0 = (msgid, pl)"
    using l n by (simp add: frame_at_def frame_enc_def slice_def)
qed

lemma sum8_append [simp]: "sum8 (xs @ ys) = sum8 xs + sum8 ys"
proof -
  have h: "foldl (+) a ys = a + foldl (+) 0 ys" for a :: u8 and ys
  proof (induction ys arbitrary: a)
    case (Cons y ys)
    show ?case unfolding foldl.simps Cons [of "a + y"] Cons [of "0 + y"] by (simp add: add.assoc)
  qed simp
  show ?thesis unfolding sum8_def foldl_append by (rule h)
qed

lemma sum8_Nil [simp]: "sum8 [] = 0" and sum8_single [simp]: "sum8 [x] = x"
  by (simp_all add: sum8_def)

lemma link_scan_at_2: "9 \<le> n \<Longrightarrow> b + n \<le> length m \<Longrightarrow>
  link_scan m b n 0 = Some (1, 2, be16 (m ! (b + 2)) (m ! (b + 3)))"
  by (subst link_scan.simps, simp add: read_be16_Some,
      subst link_scan.simps, simp add: read_be16_Some,
      subst link_scan.simps, simp add: read_be16_Some add.assoc)

section \<open>Properties\<close>

text \<open>iap2_find_frame_at never reads outside its buffer; it finds the
  frame at the least position at or after start_off where a frame starts (sync
  bytes, length at least 6, wholly inside the buffer) and reports that frame's
  message id, length and payload; without such a position it reports none.\<close>

theorem find_frame_at_first:
  assumes "b + len \<le> length m"
  shows "case find (frame_starts (slice m b len)) [start_off ..< len - 5] of
      None \<Rightarrow> iap2_find_frame_at m (Some b) len start_off = Some None
    | Some i \<Rightarrow> \<exists>f. iap2_find_frame_at m (Some b) len start_off = Some (Some f) \<and>
        fr_offset f = i \<and> frame_abs m f = frame_at (slice m b len) i \<and>
        fr_len f = be16 (slice m b len ! (i + 2)) (slice m b len ! (i + 3))"
proof (cases "len < 6")
  case True
  then have "[start_off ..< len - 5] = []" by simp
  then show ?thesis using True by (simp add: iap2_find_frame_at_def IAP2_MIN_FRAME_def)
next
  case False
  then have e: "iap2_find_frame_at m (Some b) len start_off = find_frame_loop m b len (len - 5) start_off"
    by (simp add: iap2_find_frame_at_def IAP2_MIN_FRAME_def)
  show ?thesis
    unfolding e by (rule find_frame_loop_spec [OF assms]) (use False in simp)
qed

lemma find_frame_at_first_witness:
  "\<exists>f. iap2_find_frame_at [0x40, 0x40, 0, 13, 0x40, 0x40, 0, 7, 0x52, 0x01, 5] (Some 0) 11 0 =
     Some (Some f) \<and> fr_offset f = 4"
proof -
  have 1: "find (frame_starts (slice [0x40, 0x40, 0, 13, 0x40, 0x40, 0, 7, 0x52, 0x01, 5] 0 11))
    [0 ..< 11 - 5] = Some 4"
    by code_simp
  show ?thesis
    using find_frame_at_first [of 0 11 "[0x40, 0x40, 0, 13, 0x40, 0x40, 0, 7, 0x52, 0x01, 5]" 0]
    unfolding 1 by auto
qed

text \<open>Property C23. A frame built by iap2_build_frame in a large enough buffer is
  written at the output position and nothing else changes; searched there, it
  is found with its message id and its payload.\<close>

theorem build_find_frame:
  assumes "o1 + 6 + length pl \<le> length m" and "6 + length pl \<le> out_max" and "6 + length pl < 65536"
  shows "\<exists>m' f. iap2_build_frame m (Some o1) out_max msgid (Some pl) (length pl) = Some (6 + length pl, m') \<and>
    m' = patch m o1 (frame_enc (msgid, pl)) \<and>
    iap2_find_frame m' (Some o1) (6 + length pl) = Some (Some f) \<and>
    fr_offset f = 0 \<and> frame_abs m' f = (msgid, pl)"
proof -
  let ?m' = "patch m o1 (frame_enc (msgid, pl))"
  have s: "slice ?m' o1 (6 + length pl) = frame_enc (msgid, pl)"
    using slice_patch_same [of o1 "frame_enc (msgid, pl)" m] assms by simp
  have l: "o1 + (6 + length pl) \<le> length ?m'" using assms by simp
  have st: "frame_starts (slice ?m' o1 (6 + length pl)) 0"
    unfolding s by (rule frame_starts_enc [OF assms(3)])
  obtain f where "iap2_frame_here ?m' o1 (6 + length pl) 0 = Some (Some f)" "fr_offset f = 0"
    "frame_abs ?m' f = frame_at (slice ?m' o1 (6 + length pl)) 0"
    using frame_here_spec [OF l, of 0] st by auto
  then have "iap2_find_frame ?m' (Some o1) (6 + length pl) = Some (Some f)"
    "fr_offset f = 0" "frame_abs ?m' f = (msgid, pl)"
    unfolding s frame_starts_enc(2) [OF assms(3)]
    by (simp_all add: iap2_find_frame_def iap2_find_frame_at_def IAP2_MIN_FRAME_def find_frame_loop.simps)
  then show ?thesis
    using build_frame_patch [of o1 pl m out_max msgid] assms by blast
qed

lemma build_find_frame_witness:
  "\<exists>m' f. iap2_build_frame (replicate 12 0) (Some 2) 10 0x5200 (Some [1, 2, 3]) 3 = Some (9, m') \<and>
    iap2_find_frame m' (Some 2) 9 = Some (Some f) \<and> frame_abs m' f = (0x5200, [1, 2, 3])"
  using build_find_frame [of 2 "[1, 2, 3]" "replicate 12 0" 10 "0x5200"] by auto

text \<open>Property C24. The three TLV walkers agree with one reading of the payload as a
  list of TLVs, cut at the first malformed one: iap2_find_tlv gives the first
  TLV with the id, iap2_find_tlv_offset its position (0 when there is none),
  the iterator every TLV in order, and none reads outside the payload.\<close>

theorem tlv_walkers_agree:
  assumes "p + len \<le> length m"
  defines "ts \<equiv> tlv_split (slice m p len)"
  shows "(\<exists>r. iap2_find_tlv m (Some p) len tid = Some r \<and>
            map_option (tlv_abs m) r = find (\<lambda>t. fst t = tid) ts) \<and>
    (\<exists>l. iap2_find_tlv_offset m (Some p) len tid =
       Some (case tlv_pos tid ts of None \<Rightarrow> 0 | Some n \<Rightarrow> n, l) \<and> (l = None \<longleftrightarrow> tlv_pos tid ts = None)) \<and>
    (\<exists>xs. iap2_tlv_iter_all m \<lparr>it_data = Some p, it_len = len, it_offset = 0\<rparr> = Some xs \<and>
       map (tlv_abs m) xs = ts)"
proof -
  have short: "ts = []" if "len < 4"
    using that slice_short_dec [of 0 len m p] by (simp add: ts_def tlv_split_simps)
  show ?thesis
    using find_tlv_loop_spec [OF assms(1), of tid 0] find_tlv_offset_loop_spec [OF assms(1), of tid 0]
      iter_all_spec [OF assms(1), of 0] short
    by (cases "len < 4") (auto simp: ts_def [symmetric] iap2_find_tlv_def iap2_find_tlv_offset_def
        split: option.splits)
qed

lemma tlv_walkers_agree_witness:
  "\<exists>r. iap2_find_tlv [9, 0, 5, 0, 1, 7, 0, 6, 0, 2, 1, 4] (Some 1) 11 2 = Some r \<and>
    map_option (tlv_abs [9, 0, 5, 0, 1, 7, 0, 6, 0, 2, 1, 4]) r = Some (2, [1, 4])"
proof -
  have 1: "find (\<lambda>t. fst t = 2) (tlv_split (slice [9, 0, 5, 0, 1, 7, 0, 6, 0, 2, 1, 4] 1 11)) =
    Some (2, [1, 4])"
    by code_simp
  show ?thesis
    using tlv_walkers_agree [of 1 11 "[9, 0, 5, 0, 1, 7, 0, 6, 0, 2, 1, 4]" 2] unfolding 1 by simp
qed

text \<open>What patching a link header does.\<close>

lemma patch_link_header_spec:
  assumes "length m = a + (n + r)" and "9 \<le> n"
    and "be16 (m ! (a + 2)) (m ! (a + 3)) \<noteq> 0"
  shows "\<exists>m'. iap2_patch_link_header m (Some a) n tot = Some m' \<and> length m' = length m \<and>
    read_be16 m' (a + 2) = Some (of_nat tot) \<and> sum8 (slice m' a n) = 0 \<and>
    (\<forall>i. i < length m \<longrightarrow> i \<noteq> a + 2 \<longrightarrow> i \<noteq> a + 3 \<longrightarrow> i \<noteq> a + (n - 1) \<longrightarrow> m' ! i = m ! i)"
proof -
  let ?w = "patch m (a + 2) (be16_bytes (of_nat tot))"
  let ?s = "slice ?w a (n - 1)"
  let ?m' = "?w[a + (n - 1) := 0 - sum8 ?s]"
  have lw: "length ?w = length m" using assms by simp
  have r: "iap2_patch_link_header m (Some a) n tot = Some ?m'"
    using assms link_scan_at_2 [of n a m] lw
    by (simp add: iap2_patch_link_header_def mem_simps word_neq_0_conv)
  have n2: "?m' ! i = (if i = a + (n - 1) then 0 - sum8 ?s else
      if i = a + 2 then be16_bytes (of_nat tot) ! 0 else
      if i = a + 3 then be16_bytes (of_nat tot) ! 1 else m ! i)" if "i < length m" for i
    using that assms lw by (auto simp: nth_list_update nth_patch less_Suc_eq )
  have ne: "a + 2 \<noteq> a + (n - 1)" "a + 3 \<noteq> a + (n - 1)" using assms(2) by auto
  have "?m' ! (a + 2) = be16_bytes (of_nat tot) ! 0" "?m' ! (a + 3) = be16_bytes (of_nat tot) ! 1"
    using assms n2 [of "a + 2"] n2 [of "a + 3"] ne by (simp_all only: if_False if_True) auto
  then have "read_be16 ?m' (a + 2) = Some (of_nat tot)"
    using assms lw by (subst read_be16_Some) (simp_all only: length_list_update add.assoc, simp_all add: be_simps)
  moreover have "slice ?m' a n = ?s @ [0 - sum8 ?s]"
  proof -
    have "?m' = patch ?w (a + (n - 1)) [0 - sum8 ?s]"
      using assms lw by (simp add: list_update_is_patch)
    then have "slice ?m' (a + (n - 1)) 1 = [0 - sum8 ?s]"
      using slice_patch_same [of "a + (n - 1)" "[0 - sum8 ?s]" ?w] assms lw by simp
    moreover have "slice ?m' a (n - 1) = ?s"
      by (rule nth_equalityI) (use assms lw in \<open>auto simp: nth_slice nth_list_update\<close>)
    ultimately show ?thesis
      using slice_append_split [of ?m' a "n - 1" 1] assms(2) by simp
  qed
  moreover have "\<forall>i. i < length m \<longrightarrow> i \<noteq> a + 2 \<longrightarrow> i \<noteq> a + 3 \<longrightarrow> i \<noteq> a + (n - 1) \<longrightarrow> ?m' ! i = m ! i"
    by (intro allI impI) (subst n2, assumption, simp only: if_False)
  moreover have "length ?m' = length m" using lw by simp
  ultimately show ?thesis
    using r by (intro exI [of _ ?m']) simp
qed

text \<open>A TLV built by any of the builders is one record of the TLV
  format: written after some records of a payload it reads back as those
  records followed by the id and the value (two big endian bytes, one byte, or
  the string with its terminator).\<close>

theorem built_tlv_reads_back:
  assumes "list_all tlv_ok ts" and "4 + length v < 65536"
    and "m = concat (map tlv_enc ts) @ room" and "4 + length v \<le> length room"
  shows "\<exists>m'. iap2_build_tlv m (Some (length (concat (map tlv_enc ts)))) (length room) tid (Some v) (length v) =
      Some (4 + length v, m') \<and>
    length m' = length m \<and>
    tlv_split (take (length (concat (map tlv_enc ts)) + 4 + length v) m') = ts @ [(tid, v)]"
proof -
  let ?n = "length (concat (map tlv_enc ts))"
  have b: "iap2_build_tlv m (Some ?n) (length room) tid (Some v) (length v) =
    Some (4 + length v, patch m ?n (tlv_enc (tid, v)))"
    by (rule build_tlv_patch) (use assms in auto)
  have "take (?n + 4 + length v) (patch m ?n (tlv_enc (tid, v))) = concat (map tlv_enc (ts @ [(tid, v)]))"
    using assms(3,4) by (simp add: patch_def)
  moreover have "list_all tlv_ok (ts @ [(tid, v)])" using assms(1,2) by (simp add: tlv_ok_def)
  ultimately have "tlv_split (take (?n + 4 + length v) (patch m ?n (tlv_enc (tid, v)))) = ts @ [(tid, v)]"
    by (metis tlv_split_enc)
  moreover have "length (patch m ?n (tlv_enc (tid, v))) = length m"
    using assms(3,4) by simp
  ultimately show ?thesis using b by blast
qed

lemma built_tlv_reads_back_witness:
  "\<exists>m'. iap2_build_tlv [0, 5, 0, 1, 7, 0, 0, 0, 0, 0, 0] (Some 5) 6 2 (Some [8, 9]) 2 = Some (6, m') \<and>
    tlv_split (take 11 m') = [(1, [7]), (2, [8, 9])]"
proof -
  have e: "concat (map tlv_enc [(1, [7])]) = [0, 5, 0, 1, 7]"
    by code_simp
  have l: "length [8, 9 :: u8] = 2" "length [0, 5, 0, 1, 7 :: u8] = 5" "length [0, 0, 0, 0, 0, 0 :: u8] = 6"
    by simp_all
  show ?thesis
    using built_tlv_reads_back [of "[(1, [7])]" "[8, 9]" "[0, 5, 0, 1, 7, 0, 0, 0, 0, 0, 0]"
        "[0, 0, 0, 0, 0, 0]" 2, unfolded e l]
    by (auto simp: tlv_ok_def)
qed

text \<open>iap2_patch_link_header on a link header with a nonzero length
  field never touches memory outside the header, stores the new total length
  big endian, keeps every byte but the length and the checksum, and the header
  bytes then sum to 0 modulo 256.\<close>

theorem patched_link_header_valid:
  assumes "length m = a + (n + r)" and "9 \<le> n"
    and "be16 (m ! (a + 2)) (m ! (a + 3)) \<noteq> 0"
  shows "\<exists>m'. iap2_patch_link_header m (Some a) n tot = Some m' \<and> length m' = length m \<and>
    read_be16 m' (a + 2) = Some (of_nat tot) \<and> sum8 (slice m' a n) = 0 \<and>
    (\<forall>i. i < length m \<longrightarrow> i \<noteq> a + 2 \<longrightarrow> i \<noteq> a + 3 \<longrightarrow> i \<noteq> a + (n - 1) \<longrightarrow> m' ! i = m ! i)"
  by (rule patch_link_header_spec [OF assms])

lemma patched_link_header_valid_witness:
  "\<exists>m'. iap2_patch_link_header [0xFF, 0x5A, 0, 20, 0x40, 1, 2, 3, 0] (Some 0) 9 33 = Some m' \<and>
    read_be16 m' 2 = Some 33 \<and> sum8 (slice m' 0 9) = 0"
proof -
  have "be16 ([0xFF, 0x5A, 0, 20, 0x40, 1, 2, 3, 0] ! (0 + 2)) ([0xFF, 0x5A, 0, 20, 0x40, 1, 2, 3, 0] ! (0 + 3)) \<noteq> 0"
    by code_simp
  then show ?thesis
    using patched_link_header_valid [of "[0xFF, 0x5A, 0, 20, 0x40, 1, 2, 3, 0]" 0 9 0 33] by auto
qed

end
