(* ===== verification/Bus_Text.thy ===== *)
theory Bus_Text
  imports Common
begin

text \<open>
  The text payload builder of c_hook/framework/bus.c (bus_text_*, lines
  734-848) and the reader of such payloads on the Java side
  (CarplayBus.parseText, over the characters a UTF-8 decoder gives it).  The
  builder's state is the bytes written so far (b->buf up to b->len), the
  capacity and the two flags; a char array is a HOL string.  The lemmas give
  the size bound, what overflow does, that reading the bytes gives the fields
  that were put, and that decoding commutes with reading, so that the Java
  reader gets these fields decoded, whatever bytes the values hold.
\<close>

section \<open>Decimal numbers (snprintf)\<close>

definition digit :: "nat \<Rightarrow> char" where
  "digit n = char_of (48 + n)"

fun dec_nat :: "nat \<Rightarrow> string" where
  "dec_nat n = (if n < 10 then [digit n] else dec_nat (n div 10) @ [digit (n mod 10)])"

declare dec_nat.simps [simp del]

definition dec_int :: "int \<Rightarrow> string" where
  "dec_int z = (if z < 0 then CHR ''-'' # dec_nat (nat (- z)) else dec_nat (nat z))"

definition digits :: "char set" where
  "digits = set (map digit [0 ..< 10])"

lemma digit_in_digits [simp]: "n < 10 \<Longrightarrow> digit n \<in> digits"
  by (auto simp: digits_def)

lemma set_dec_nat: "set (dec_nat n) \<subseteq> digits"
proof (induction n rule: dec_nat.induct)
  case (1 n)
  then show ?case by (subst dec_nat.simps) auto
qed

lemma dec_nat_nonempty [simp]: "dec_nat n \<noteq> []"
  by (subst dec_nat.simps) simp

lemma digits_code: "digits = set ''0123456789''"
  by code_simp

lemma set_dec_int: "set (dec_int z) \<subseteq> insert CHR ''-'' digits"
  using set_dec_nat by (auto simp: dec_int_def)

section \<open>The builder\<close>

record bus_text_builder =
  tb_text :: string
  tb_cap :: nat
  tb_own_buf :: bool
  tb_overflow :: bool
  tb_has_buf :: bool

definition BUS_TEXT_BUILDER_DEFAULT_CAP :: nat where "BUS_TEXT_BUILDER_DEFAULT_CAP = 4096"
definition BUS_TEXT_BUILDER_LARGE_CAP :: nat where "BUS_TEXT_BUILDER_LARGE_CAP = 64 * 1024"

definition bt_append :: "string \<Rightarrow> bus_text_builder \<Rightarrow> bus_text_builder" where
  "bt_append s b =
     (if tb_overflow b then b
      else if length (tb_text b) + length s > tb_cap b then b\<lparr>tb_overflow := True\<rparr>
      else b\<lparr>tb_text := tb_text b @ s\<rparr>)"

fun bt_append_sanitized :: "string \<Rightarrow> bus_text_builder \<Rightarrow> bus_text_builder" where
  "bt_append_sanitized [] b = b"
| "bt_append_sanitized (c # cs) b =
     bt_append_sanitized cs
       (if (of_char c :: nat) < 0x20 then bt_append '' '' b else bt_append [c] b)"

definition bt_kv_begin :: "string \<Rightarrow> char \<Rightarrow> bus_text_builder \<Rightarrow> bus_text_builder" where
  "bt_kv_begin key type_ch b = bt_append [CHR '':'', type_ch, CHR '':''] (bt_append key b)"

definition NL :: string where "NL = [CHR 0x0A]"

definition bt_nl :: "bus_text_builder \<Rightarrow> bus_text_builder" where
  "bt_nl b = bt_append NL b"

definition bus_text_raw :: "string option \<Rightarrow> bus_text_builder \<Rightarrow> bus_text_builder" where
  "bus_text_raw line b = (case line of None \<Rightarrow> b | Some l \<Rightarrow> bt_append l b)"

definition bus_text_begin_with :: "string option \<Rightarrow> nat \<Rightarrow> bus_text_builder" where
  "bus_text_begin_with object_name cap =
     (let b = \<lparr> tb_text = [], tb_cap = cap, tb_own_buf = False, tb_overflow = False, tb_has_buf = True \<rparr>
      in case object_name of None \<Rightarrow> b
         | Some n \<Rightarrow> if n = [] then b
             else bus_text_raw (Some NL) (bus_text_raw (Some n) (bus_text_raw (Some ''@'') b)))"

text \<open>alloc tells whether the heap buffer could be allocated.\<close>

definition bus_text_begin_heap :: "bool \<Rightarrow> string option \<Rightarrow> nat \<Rightarrow> hook_result + bus_text_builder" where
  "bus_text_begin_heap alloc object_name cap =
     (if \<not> alloc then Inl HOOK_ERR_MEMORY
      else Inr ((bus_text_begin_with object_name cap)\<lparr>tb_own_buf := True\<rparr>))"

definition bus_text_free :: "bus_text_builder \<Rightarrow> bus_text_builder" where
  "bus_text_free b =
     (if tb_own_buf b \<and> tb_has_buf b then b\<lparr>tb_has_buf := False, tb_own_buf := False\<rparr> else b)"

definition bus_text_str :: "string \<Rightarrow> string option \<Rightarrow> bus_text_builder \<Rightarrow> bus_text_builder" where
  "bus_text_str key v b =
     (let v = (case v of None \<Rightarrow> [] | Some s \<Rightarrow> s)
      in bt_nl (bt_append_sanitized v (bt_kv_begin key CHR ''s'' b)))"

definition bus_text_int :: "string \<Rightarrow> int \<Rightarrow> bus_text_builder \<Rightarrow> bus_text_builder" where
  "bus_text_int key v b = bt_nl (bt_append (dec_int v) (bt_kv_begin key CHR ''n'' b))"

definition bus_text_uint :: "string \<Rightarrow> nat \<Rightarrow> bus_text_builder \<Rightarrow> bus_text_builder" where
  "bus_text_uint key v b = bt_nl (bt_append (dec_nat v) (bt_kv_begin key CHR ''n'' b))"

definition bus_text_bool :: "string \<Rightarrow> bool \<Rightarrow> bus_text_builder \<Rightarrow> bus_text_builder" where
  "bus_text_bool key v b =
     bt_nl (bt_append (if v then ''true'' else ''false'') (bt_kv_begin key CHR ''b'' b))"

text \<open>bus_text_fmt: out is the expansion of the format; at most 511 characters
  of it fit the scratch buffer.\<close>

definition bus_text_fmt :: "string \<Rightarrow> char \<Rightarrow> string \<Rightarrow> bus_text_builder \<Rightarrow> bus_text_builder" where
  "bus_text_fmt key type_ch out b =
     (if out = [] then b
      else let n = (if length out \<ge> 512 then 511 else length out)
           in bt_nl (bt_append_sanitized (take n out) (bt_kv_begin key type_ch b)))"

section \<open>The reader (CarplayBus.parseText)\<close>

text \<open>A Java string is a list of 16 bit characters; new String(buf, 0, len,
  "UTF-8") is the parameter decode.  The result is the list of the d.put(key,
  value) calls in order.\<close>

type_synonym jstring = "u16 list"

definition index_of :: "'a \<Rightarrow> 'a list \<Rightarrow> nat option" where
  "index_of c s = (let k = length (takeWhile (\<lambda>x. x \<noteq> c) s) in if k < length s then Some k else None)"

definition java_line :: "jstring \<Rightarrow> (jstring \<times> jstring) list" where
  "java_line line =
     (if line = [] \<or> hd line = 0x40 then []
      else case index_of 0x3A line of
        None \<Rightarrow> []
      | Some c1 \<Rightarrow>
          (let rest = drop (c1 + 1) line;
               key = take c1 line;
               v = (case index_of 0x3A rest of None \<Rightarrow> [] | Some c2 \<Rightarrow> drop (c2 + 1) rest)
           in [(key, v)]))"

function java_lines :: "jstring \<Rightarrow> (jstring \<times> jstring) list" where
  "java_lines content =
     (if content = [] then []
      else (case index_of 0x0A content of
              None \<Rightarrow> java_line content
            | Some eol \<Rightarrow> java_line (take eol content) @ java_lines (drop (eol + 1) content)))"
  by pat_completeness auto
termination by (relation "measure length") auto

declare java_lines.simps [simp del]

definition parseText :: "(bytes \<Rightarrow> jstring) \<Rightarrow> bytes \<Rightarrow> (jstring \<times> jstring) list" where
  "parseText decode buf = (if buf = [] then [] else java_lines (decode buf))"

text \<open>The same reading of the bytes themselves, before any decoding: what the
  sender has written into its lines.\<close>

definition parse_line :: "string \<Rightarrow> (string \<times> string) list" where
  "parse_line line =
     (if line = [] \<or> hd line = CHR ''@'' then []
      else case index_of CHR '':'' line of
        None \<Rightarrow> []
      | Some c1 \<Rightarrow>
          (let rest = drop (c1 + 1) line;
               key = take c1 line;
               v = (case index_of CHR '':'' rest of None \<Rightarrow> [] | Some c2 \<Rightarrow> drop (c2 + 1) rest)
           in [(key, v)]))"

function parse_text :: "string \<Rightarrow> (string \<times> string) list" where
  "parse_text content =
     (if content = [] then []
      else (case index_of (hd NL) content of
              None \<Rightarrow> parse_line content
            | Some eol \<Rightarrow> parse_line (take eol content) @ parse_text (drop (eol + 1) content)))"
  by pat_completeness auto
termination by (relation "measure length") auto

declare parse_text.simps [simp del]

section \<open>Size and overflow\<close>

text \<open>Every operation is the append of some chunks; appending chunks keeps the
  text below the capacity and, when no chunk overflows, is their
  concatenation.\<close>

definition bt_chunks :: "string list \<Rightarrow> bus_text_builder \<Rightarrow> bus_text_builder" where
  "bt_chunks cs b = fold bt_append cs b"

definition sanitize_char :: "char \<Rightarrow> char" where
  "sanitize_char c = (if (of_char c :: nat) < 0x20 then CHR '' '' else c)"

definition sanitize :: "string \<Rightarrow> string" where
  "sanitize s = map sanitize_char s"

lemma bt_append_is_chunk: "bt_append s b = bt_chunks [s] b"
  by (simp add: bt_chunks_def)

lemma bt_chunks_append: "bt_chunks ds (bt_chunks cs b) = bt_chunks (cs @ ds) b"
  by (simp add: bt_chunks_def)

lemma bt_sanitized_chunks: "bt_append_sanitized s b = bt_chunks (map (\<lambda>c. [sanitize_char c]) s) b"
proof (induction s arbitrary: b)
  case (Cons c s)
  then show ?case by (simp add: bt_chunks_def sanitize_char_def)
qed (simp add: bt_chunks_def)

lemma concat_single [simp]: "concat (map (\<lambda>c. [f c]) s) = map f s"
  by (induction s) auto

definition bt_wf :: "bus_text_builder \<Rightarrow> bool" where
  "bt_wf b \<longleftrightarrow> length (tb_text b) \<le> tb_cap b"

lemma bt_append_wf: "bt_wf b \<Longrightarrow> bt_wf (bt_append s b)"
  by (simp add: bt_wf_def bt_append_def)

lemma bt_chunks_wf: "bt_wf b \<Longrightarrow> bt_wf (bt_chunks cs b)"
  unfolding bt_chunks_def by (induction cs arbitrary: b) (auto simp: bt_append_wf)

lemma bt_chunks_overflowed: "tb_overflow b \<Longrightarrow> bt_chunks cs b = b"
  unfolding bt_chunks_def by (induction cs arbitrary: b) (auto simp: bt_append_def)

lemma bt_chunks_fits:
  "\<not> tb_overflow b \<Longrightarrow> length (tb_text b) + length (concat cs) \<le> tb_cap b \<Longrightarrow>
   bt_chunks cs b = b\<lparr>tb_text := tb_text b @ concat cs\<rparr>"
  unfolding bt_chunks_def
  by (induction cs arbitrary: b) (simp_all add: bt_append_def add.assoc)

lemma bt_chunks_overflows:
  "bt_wf b \<Longrightarrow> tb_cap b < length (tb_text b) + length (concat cs) \<Longrightarrow> tb_overflow (bt_chunks cs b)"
proof (induction cs arbitrary: b)
  case Nil
  then show ?case by (simp add: bt_wf_def)
next
  case (Cons c cs)
  have s: "bt_chunks (c # cs) b = bt_chunks cs (bt_append c b)" by (simp add: bt_chunks_def)
  show ?case
  proof (cases "tb_overflow (bt_append c b)")
    case True
    then show ?thesis unfolding s by (simp add: bt_chunks_overflowed)
  next
    case False
    then have "tb_text (bt_append c b) = tb_text b @ c" "tb_cap (bt_append c b) = tb_cap b"
      by (auto simp: bt_append_def split: if_splits)
    then show ?thesis
      unfolding s using Cons.prems by (intro Cons.IH bt_append_wf) simp_all
  qed
qed

lemma bt_chunks_overflow_iff:
  "\<not> tb_overflow b \<Longrightarrow> bt_wf b \<Longrightarrow>
   tb_overflow (bt_chunks cs b) \<longleftrightarrow> tb_cap b < length (tb_text b) + length (concat cs)"
  using bt_chunks_fits [of b cs] bt_chunks_overflows [of b cs] by (cases "tb_cap b < length (tb_text b) + length (concat cs)") auto

lemma bt_chunks_fields [simp]:
  "tb_cap (bt_chunks cs b) = tb_cap b" "tb_own_buf (bt_chunks cs b) = tb_own_buf b"
  "tb_has_buf (bt_chunks cs b) = tb_has_buf b"
  unfolding bt_chunks_def by (induction cs arbitrary: b) (auto simp: bt_append_def)

section \<open>Fields\<close>

text \<open>What a publisher puts, and the line each call writes.\<close>

datatype bt_field =
    FStr string "string option"
  | FInt string int
  | FUint string nat
  | FBool string bool

fun put_field :: "bt_field \<Rightarrow> bus_text_builder \<Rightarrow> bus_text_builder" where
  "put_field (FStr k v) b = bus_text_str k v b"
| "put_field (FInt k v) b = bus_text_int k v b"
| "put_field (FUint k v) b = bus_text_uint k v b"
| "put_field (FBool k v) b = bus_text_bool k v b"

fun field_key :: "bt_field \<Rightarrow> string" where
  "field_key (FStr k v) = k" | "field_key (FInt k v) = k"
| "field_key (FUint k v) = k" | "field_key (FBool k v) = k"

fun field_type :: "bt_field \<Rightarrow> char" where
  "field_type (FStr k v) = CHR ''s''" | "field_type (FInt k v) = CHR ''n''"
| "field_type (FUint k v) = CHR ''n''" | "field_type (FBool k v) = CHR ''b''"

fun field_value :: "bt_field \<Rightarrow> string" where
  "field_value (FStr k v) = sanitize (case v of None \<Rightarrow> [] | Some s \<Rightarrow> s)"
| "field_value (FInt k v) = dec_int v"
| "field_value (FUint k v) = dec_nat v"
| "field_value (FBool k v) = (if v then ''true'' else ''false'')"

definition field_line :: "bt_field \<Rightarrow> string" where
  "field_line f = field_key f @ [CHR '':'', field_type f, CHR '':''] @ field_value f @ NL"

definition put_fields :: "bt_field list \<Rightarrow> bus_text_builder \<Rightarrow> bus_text_builder" where
  "put_fields fs b = fold put_field fs b"

definition field_chunks :: "bt_field \<Rightarrow> string list" where
  "field_chunks f = [field_key f, [CHR '':'', field_type f, CHR '':'']] @
     (case f of FStr k v \<Rightarrow> map (\<lambda>c. [sanitize_char c]) (case v of None \<Rightarrow> [] | Some s \<Rightarrow> s)
      | _ \<Rightarrow> [field_value f]) @ [NL]"

lemma concat_field_chunks: "concat (field_chunks f) = field_line f"
  by (cases f) (simp_all add: field_chunks_def field_line_def sanitize_def)

lemma put_field_chunks: "put_field f b = bt_chunks (field_chunks f) b"
proof -
  have kv: "bt_kv_begin k c b' = bt_chunks [k, [CHR '':'', c, CHR '':'']] b'" for k c b'
    by (simp add: bt_kv_begin_def bt_append_is_chunk bt_chunks_append)
  show ?thesis
    by (cases f)
      (simp_all add: bus_text_str_def bus_text_int_def bus_text_uint_def bus_text_bool_def Let_def bt_nl_def
        kv bt_append_is_chunk bt_sanitized_chunks bt_chunks_append field_chunks_def)
qed

lemma put_fields_chunks: "put_fields fs b = bt_chunks (concat (map field_chunks fs)) b"
  by (induction fs arbitrary: b)
    (simp_all add: put_fields_def put_field_chunks bt_chunks_append, simp add: bt_chunks_def)

lemma concat_fields_chunks: "concat (concat (map field_chunks fs)) = concat (map field_line fs)"
  by (induction fs) (simp_all add: concat_field_chunks)

definition name_line :: "string option \<Rightarrow> string" where
  "name_line n = (case n of None \<Rightarrow> [] | Some s \<Rightarrow> if s = [] then [] else ''@'' @ s @ NL)"

definition name_chunks :: "string option \<Rightarrow> string list" where
  "name_chunks n = (case n of None \<Rightarrow> [] | Some s \<Rightarrow> if s = [] then [] else [''@'', s, NL])"

lemma begin_with_chunks:
  "bus_text_begin_with n cap = bt_chunks (name_chunks n)
     \<lparr> tb_text = [], tb_cap = cap, tb_own_buf = False, tb_overflow = False, tb_has_buf = True \<rparr>"
  by (auto simp: bus_text_begin_with_def Let_def bus_text_raw_def name_chunks_def bt_chunks_def
      split: option.splits)

lemma concat_name_chunks: "concat (name_chunks n) = name_line n"
  by (auto simp: name_chunks_def name_line_def split: option.splits)

text \<open>A whole payload: the text is the name line and the field lines when they
  fit, and the overflow flag is set when they do not.\<close>

lemma payload_text:
  "bt_wf (put_fields fs (bus_text_begin_with n cap))"
  "tb_overflow (put_fields fs (bus_text_begin_with n cap)) \<longleftrightarrow>
     cap < length (name_line n @ concat (map field_line fs))"
  "\<not> tb_overflow (put_fields fs (bus_text_begin_with n cap)) \<Longrightarrow>
     tb_text (put_fields fs (bus_text_begin_with n cap)) = name_line n @ concat (map field_line fs)"
proof -
  let ?b = "\<lparr> tb_text = [], tb_cap = cap, tb_own_buf = False, tb_overflow = False, tb_has_buf = True \<rparr>"
  let ?cs = "name_chunks n @ concat (map field_chunks fs)"
  have e: "put_fields fs (bus_text_begin_with n cap) = bt_chunks ?cs ?b"
    by (simp add: begin_with_chunks put_fields_chunks bt_chunks_append)
  have c: "concat ?cs = name_line n @ concat (map field_line fs)"
    by (simp only: concat_append concat_name_chunks concat_fields_chunks)
  have wf: "bt_wf ?b" by (simp add: bt_wf_def)
  show "bt_wf (put_fields fs (bus_text_begin_with n cap))"
    unfolding e by (rule bt_chunks_wf [OF wf])
  show o: "tb_overflow (put_fields fs (bus_text_begin_with n cap)) \<longleftrightarrow>
     cap < length (name_line n @ concat (map field_line fs))"
    unfolding e c [symmetric] using bt_chunks_overflow_iff [OF _ wf] by simp
  show "\<not> tb_overflow (put_fields fs (bus_text_begin_with n cap)) \<Longrightarrow>
     tb_text (put_fields fs (bus_text_begin_with n cap)) = name_line n @ concat (map field_line fs)"
    using o c bt_chunks_fits [of ?b ?cs] unfolding e by simp
qed

section \<open>Reading a payload back\<close>

definition nl :: char where "nl = CHR 0x0A"

lemma NL_nl: "NL = [nl]" by (simp add: NL_def nl_def)

definition key_ok :: "string \<Rightarrow> bool" where
  "key_ok k \<longleftrightarrow> k \<noteq> [] \<and> hd k \<noteq> CHR ''@'' \<and> CHR '':'' \<notin> set k \<and> nl \<notin> set k"

lemma index_of_append: "c \<notin> set a \<Longrightarrow> index_of c (a @ c # b) = Some (length a)"
proof -
  assume c: "c \<notin> set a"
  have "takeWhile (\<lambda>x. x \<noteq> c) a = a" using c by (auto simp: takeWhile_eq_all_conv)
  then have "takeWhile (\<lambda>x. x \<noteq> c) (a @ c # b) = a"
    using c by (subst takeWhile_append2) auto
  then show ?thesis by (simp add: index_of_def Let_def)
qed

lemma index_of_cases:
  obtains "index_of c s = None" and "c \<notin> set s"
  | a b where "s = a @ c # b" and "c \<notin> set a" and "index_of c s = Some (length a)"
proof (cases "c \<in> set s")
  case True
  then obtain a b where "s = a @ c # b" "c \<notin> set a" using split_list_first by fast
  then show ?thesis using that(2) index_of_append by metis
next
  case False
  then have t: "takeWhile (\<lambda>x. x \<noteq> c) s = s" by (auto simp: takeWhile_eq_all_conv)
  have "index_of c s = None" unfolding index_of_def Let_def t by simp
  then show ?thesis using that(1) False by blast
qed

lemma sanitize_no_nl [simp]: "nl \<notin> set (sanitize s)"
proof
  assume "nl \<in> set (sanitize s)"
  then obtain c where c: "nl = sanitize_char c" by (auto simp: sanitize_def)
  show False
  proof (cases "(of_char c :: nat) < 0x20")
    case True
    then show False using c by (simp add: sanitize_char_def nl_def)
  next
    case False
    then have "nl = c" using c by (simp add: sanitize_char_def)
    moreover have "(of_char nl :: nat) = 10" unfolding nl_def by code_simp
    ultimately show False using False by simp
  qed
qed

lemma nl_not_digit: "nl \<notin> digits" "CHR ''-'' \<noteq> nl"
  by (simp_all add: digits_code nl_def)

lemma field_value_no_nl: "nl \<notin> set (field_value f)"
proof (cases f)
  case (FStr k v) then show ?thesis by simp
next
  case (FInt k v) then show ?thesis using set_dec_int [of v] nl_not_digit by auto
next
  case (FUint k v) then show ?thesis using set_dec_nat [of v] nl_not_digit by auto
next
  case (FBool k v) then show ?thesis by (simp add: nl_def)
qed

lemma field_type_not_special: "field_type f \<noteq> nl" "field_type f \<noteq> CHR '':''"
  by (cases f; simp add: nl_def)+

lemma parse_field_line:
  assumes "key_ok (field_key f)"
  shows "parse_line (field_key f @ [CHR '':'', field_type f, CHR '':''] @ field_value f) =
    [(field_key f, field_value f)]"
proof -
  have k: "field_key f \<noteq> []" "hd (field_key f) \<noteq> CHR ''@''" "CHR '':'' \<notin> set (field_key f)"
    using assms by (simp_all add: key_ok_def)
  have 1: "index_of CHR '':'' (field_key f @ CHR '':'' # field_type f # CHR '':'' # field_value f) =
    Some (length (field_key f))"
    by (rule index_of_append [OF k(3)])
  have 2: "index_of CHR '':'' (field_type f # CHR '':'' # field_value f) = Some 1"
    using index_of_append [of "CHR '':''" "[field_type f]" "field_value f"] field_type_not_special(2) [of f]
    by simp
  show ?thesis
    using k(1,2) by (simp add: parse_line_def 1 2 Let_def)
qed

lemma parse_text_line:
  assumes "nl \<notin> set l"
  shows "parse_text (l @ nl # rest) = parse_line l @ parse_text rest"
proof -
  have "index_of (hd NL) (l @ nl # rest) = Some (length l)"
    unfolding NL_nl by (simp add: index_of_append [OF assms])
  then show ?thesis by (simp add: parse_text.simps [of "l @ nl # rest"])
qed

lemma parse_fields:
  "list_all (\<lambda>f. key_ok (field_key f)) fs \<Longrightarrow>
   parse_text (concat (map field_line fs)) = map (\<lambda>f. (field_key f, field_value f)) fs"
proof (induction fs)
  case Nil
  then show ?case by (simp add: parse_text.simps)
next
  case (Cons f fs)
  let ?l = "field_key f @ [CHR '':'', field_type f, CHR '':''] @ field_value f"
  have n: "nl \<notin> set ?l"
    using Cons.prems field_value_no_nl [of f] field_type_not_special(1) [of f]
    by (auto simp: key_ok_def nl_def)
  have "concat (map field_line (f # fs)) = ?l @ nl # concat (map field_line fs)"
    by (simp add: field_line_def NL_nl)
  then show ?case
    using parse_text_line [OF n] parse_field_line [of f] Cons by simp
qed

lemma parse_name_line:
  "nl \<notin> set (case n of None \<Rightarrow> [] | Some s \<Rightarrow> s) \<Longrightarrow> parse_text (name_line n @ r) = parse_text r"
proof (cases "n = None \<or> n = Some []")
  case True
  then show ?thesis by (auto simp: name_line_def)
next
  case False
  then obtain s where s: "n = Some s" "s \<noteq> []" by auto
  assume "nl \<notin> set (case n of None \<Rightarrow> [] | Some s \<Rightarrow> s)"
  then have "nl \<notin> set (CHR ''@'' # s)" using s by (simp add: nl_def)
  from parse_text_line [OF this, of r] show ?thesis
    using s by (simp add: name_line_def NL_nl parse_line_def)
qed

section \<open>Decoding commutes with reading\<close>

text \<open>What the reader relies on of the UTF-8 decoder: an ASCII byte is always a
  character of its own, between what is decoded before and behind it, and any
  other bytes, valid or not, give at least one character and none below 128
  (malformed bytes become the replacement character).\<close>

definition utf8_decoder :: "(bytes \<Rightarrow> jstring) \<Rightarrow> bool" where
  "utf8_decoder decode \<longleftrightarrow> decode [] = [] \<and>
     (\<forall>a c b. c < 128 \<longrightarrow> decode (a @ c # b) = decode a @ ucast c # decode b) \<and>
     (\<forall>bs. bs \<noteq> [] \<longrightarrow> (\<forall>c \<in> set bs. 128 \<le> c) \<longrightarrow> decode bs \<noteq> [] \<and> (\<forall>u \<in> set (decode bs). 128 \<le> u))"

definition decoded :: "(bytes \<Rightarrow> jstring) \<Rightarrow> string \<Rightarrow> jstring" where
  "decoded decode s = decode (str_bytes s)"

definition unit_of :: "char \<Rightarrow> u16" where
  "unit_of c = ucast (byte_of c)"

definition ascii :: "char \<Rightarrow> bool" where
  "ascii c \<longleftrightarrow> byte_of c < 128"

lemma unit_of_special: "unit_of nl = 0x0A" "unit_of CHR '':'' = 0x3A" "unit_of CHR ''@'' = 0x40"
  "ascii nl" "ascii CHR '':''" "ascii CHR ''@''"
  unfolding nl_def by code_simp+

lemma unit_of_inj: "unit_of c = unit_of d \<longleftrightarrow> c = d"
proof -
  have "unat (ucast b :: u16) = unat b" for b :: u8
    using unsigned_less [of b, where 'a = nat] by (simp add: unsigned_ucast_eq take_bit_nat_eq_self)
  then have "unit_of c = unit_of d \<longleftrightarrow> byte_of c = byte_of d"
    unfolding unit_of_def by (metis word_unat_eq_iff)
  then show ?thesis by (metis char_of_byte_byte_of)
qed

lemma unit_of_ascii: "ascii c \<longleftrightarrow> unit_of c < 128"
proof -
  have "unat (ucast b :: u16) = unat b" for b :: u8
    using unsigned_less [of b, where 'a = nat] by (simp add: unsigned_ucast_eq take_bit_nat_eq_self)
  then show ?thesis by (simp add: ascii_def unit_of_def word_less_nat_alt)
qed

lemma decoded_rules:
  assumes "utf8_decoder decode"
  shows "decoded decode [] = []" "ascii c \<Longrightarrow> decoded decode (a @ c # b) = decoded decode a @ unit_of c # decoded decode b"
    "a \<noteq> [] \<Longrightarrow> \<forall>c \<in> set a. \<not> ascii c \<Longrightarrow> decoded decode a \<noteq> []"
    "\<forall>c \<in> set a. \<not> ascii c \<Longrightarrow> u \<in> set (decoded decode a) \<Longrightarrow> 128 \<le> u"
proof -
  note d = assms [unfolded utf8_decoder_def]
  show "decoded decode [] = []" using d by (simp add: decoded_def str_bytes_def)
  show "decoded decode (a @ c # b) = decoded decode a @ unit_of c # decoded decode b" if "ascii c"
    using d that by (simp add: decoded_def str_bytes_def ascii_def unit_of_def)
  have h: "\<forall>c \<in> set (str_bytes a). 128 \<le> c" if "\<forall>c \<in> set a. \<not> ascii c"
    using that by (auto simp: str_bytes_def ascii_def)
  show "decoded decode a \<noteq> []" if "a \<noteq> []" "\<forall>c \<in> set a. \<not> ascii c"
    using d h [OF that(2)] that(1) by (simp add: decoded_def str_bytes_def)
  show "128 \<le> u" if "\<forall>c \<in> set a. \<not> ascii c" "u \<in> set (decoded decode a)"
  proof -
    have "str_bytes a \<noteq> []" using that(2) d by (auto simp: decoded_def)
    then show ?thesis using d h [OF that(1)] that(2) unfolding decoded_def by blast
  qed
qed

text \<open>The first ASCII character of a text.\<close>

lemma ascii_cases:
  obtains "\<forall>c \<in> set s. \<not> ascii c" | a c b where "s = a @ c # b" and "\<forall>x \<in> set a. \<not> ascii x" and "ascii c"
  using split_list_first_prop [of s ascii] by blast

lemma decoded_absent:
  assumes "utf8_decoder decode" and "ascii c"
  shows "c \<notin> set s \<Longrightarrow> unit_of c \<notin> set (decoded decode s)"
proof (induction "length s" arbitrary: s rule: less_induct)
  case less
  have low: "\<not> 128 \<le> unit_of c" using assms(2) by (simp add: unit_of_ascii)
  show ?case
  proof (cases s rule: ascii_cases)
    case 1
    then show ?thesis using decoded_rules(4) [OF assms(1) 1] low by blast
  next
    case (2 a x b)
    have "unit_of c \<notin> set (decoded decode b)" by (rule less.hyps) (use 2(1) less.prems in simp_all)
    moreover have "unit_of c \<notin> set (decoded decode a)" using decoded_rules(4) [OF assms(1) 2(2)] low by blast
    ultimately show ?thesis
      using less.prems decoded_rules(2) [OF assms(1) 2(3), of a b] by (auto simp: 2(1) unit_of_inj)
  qed
qed

lemma decoded_head:
  assumes "utf8_decoder decode" and "s \<noteq> []" and "ascii c"
  shows "decoded decode s \<noteq> [] \<and> (hd (decoded decode s) = unit_of c \<longleftrightarrow> hd s = c)"
proof -
  have high: "decoded decode a \<noteq> [] \<and> hd (decoded decode a) \<noteq> unit_of c" if "a \<noteq> []" "\<forall>x \<in> set a. \<not> ascii x" for a
    using decoded_rules(3) [OF assms(1) that] decoded_rules(4) [OF assms(1) that(2)] assms(3) hd_in_set
    by (metis not_le unit_of_ascii)
  show ?thesis
  proof (cases s rule: ascii_cases)
    case 1
    then show ?thesis using high [OF assms(2) 1] assms(2,3) hd_in_set by metis
  next
    case (2 a x b)
    show ?thesis
    proof (cases "a = []")
      case True
      then show ?thesis
        using decoded_rules(1) [OF assms(1)] decoded_rules(2) [OF assms(1) 2(3), of "[]" b] by (simp add: 2(1) unit_of_inj)
    next
      case False
      have "hd s \<noteq> c" using False 2(1,2) assms(3) by auto
      then show ?thesis
        using high [OF False 2(2)] decoded_rules(2) [OF assms(1) 2(3), of a b] by (simp add: 2(1))
    qed
  qed
qed

text \<open>Splitting at an ASCII character before or after decoding.\<close>

lemma decoded_split:
  assumes "utf8_decoder decode" and "ascii c"
  obtains "index_of c s = None" and "index_of (unit_of c) (decoded decode s) = None"
  | a b where "s = a @ c # b" and "index_of c s = Some (length a)"
      and "decoded decode s = decoded decode a @ unit_of c # decoded decode b"
      and "index_of (unit_of c) (decoded decode s) = Some (length (decoded decode a))"
proof (cases c s rule: index_of_cases)
  case 1
  have "index_of (unit_of c) (decoded decode s) = None"
    by (rule index_of_cases [of "unit_of c" "decoded decode s"]) (use decoded_absent [OF assms 1(2)] in auto)
  then show ?thesis using that(1) 1(1) by blast
next
  case (2 a b)
  have e: "decoded decode s = decoded decode a @ unit_of c # decoded decode b"
    using decoded_rules(2) [OF assms, of a b] 2(1) by simp
  then have "index_of (unit_of c) (decoded decode s) = Some (length (decoded decode a))"
    using index_of_append [OF decoded_absent [OF assms 2(2)]] by metis
  then show ?thesis using that(2) 2(1,3) e by blast
qed

abbreviation decoded_pairs :: "(bytes \<Rightarrow> jstring) \<Rightarrow> (string \<times> string) list \<Rightarrow> (jstring \<times> jstring) list" where
  "decoded_pairs decode \<equiv> map (map_prod (decoded decode) (decoded decode))"

lemma java_line_decoded:
  assumes "utf8_decoder decode"
  shows "java_line (decoded decode l) = decoded_pairs decode (parse_line l)"
proof (cases "l = []")
  case True
  then show ?thesis using decoded_rules(1) [OF assms] by (simp add: java_line_def parse_line_def)
next
  case False
  note hd = decoded_head [OF assms False unit_of_special(6), unfolded unit_of_special]
  note split = decoded_split [OF assms unit_of_special(5), unfolded unit_of_special]
  show ?thesis
  proof (cases "hd l = CHR ''@''")
    case True
    then show ?thesis using False hd by (simp add: java_line_def parse_line_def)
  next
    case at: False
    show ?thesis
    proof (cases l rule: split)
      case 1
      then show ?thesis using False at hd by (simp add: java_line_def parse_line_def)
    next
      case (2 a b)
      have "(case index_of 0x3A (decoded decode b) of None \<Rightarrow> [] | Some c2 \<Rightarrow> drop (c2 + 1) (decoded decode b)) =
          decoded decode (case index_of CHR '':'' b of None \<Rightarrow> [] | Some c2 \<Rightarrow> drop (c2 + 1) b)"
        by (rule split [of b]) (simp_all add: decoded_rules(1) [OF assms])
      moreover have "drop (length a + 1) l = b" "take (length a) l = a" by (simp_all add: 2(1))
      moreover have "drop (length (decoded decode a) + 1) (decoded decode l) = decoded decode b"
        "take (length (decoded decode a)) (decoded decode l) = decoded decode a" by (simp_all add: 2(3))
      ultimately show ?thesis
        using False at hd 2(2,4) by (simp add: java_line_def parse_line_def)
    qed
  qed
qed

lemma java_lines_decoded:
  assumes "utf8_decoder decode"
  shows "java_lines (decoded decode s) = decoded_pairs decode (parse_text s)"
proof (induction "length s" arbitrary: s rule: less_induct)
  case less
  note split = decoded_split [OF assms unit_of_special(4), unfolded unit_of_special]
  have NL: "hd NL = nl" by (simp add: NL_nl)
  show ?case
  proof (cases "s = []")
    case True
    then show ?thesis using decoded_rules(1) [OF assms] by (simp add: java_lines.simps parse_text.simps)
  next
    case False
    have ne: "decoded decode s \<noteq> []" using decoded_head [OF assms False unit_of_special(4)] by blast
    show ?thesis
    proof (cases s rule: split)
      case 1
      then show ?thesis
        using False ne java_line_decoded [OF assms, of s]
        by (simp add: java_lines.simps [of "decoded decode s"] parse_text.simps [of s] NL)
    next
      case (2 a b)
      have "java_lines (decoded decode b) = decoded_pairs decode (parse_text b)" by (rule less.hyps) (simp add: 2(1))
      moreover have "java_lines (decoded decode s) = java_line (decoded decode a) @ java_lines (decoded decode b)"
        using ne by (subst java_lines.simps) (simp add: 2(4), simp add: 2(3))
      moreover have "parse_text s = parse_line a @ parse_text b"
        using False by (subst parse_text.simps) (simp add: NL 2(2), simp add: 2(1))
      ultimately show ?thesis using java_line_decoded [OF assms, of a] by simp
    qed
  qed
qed

lemma parseText_decoded:
  assumes "utf8_decoder decode"
  shows "parseText decode (str_bytes s) = decoded_pairs decode (parse_text s)"
proof (cases "s = []")
  case True
  then show ?thesis by (simp add: parseText_def str_bytes_def parse_text.simps)
next
  case False
  then have "str_bytes s \<noteq> []" by (simp add: str_bytes_def)
  then show ?thesis using java_lines_decoded [OF assms, of s] by (simp add: parseText_def decoded_def)
qed

section \<open>Properties\<close>

text \<open>Property C19. A payload made by bus_text_begin_with and any sequence of field
  calls never exceeds its capacity, and the overflow flag is set exactly when
  the lines do not fit.  When it is not set, and the keys are of the form all
  callers use (not empty, no colon, no line feed, no leading at sign), then
  CarplayBus.parseText on these bytes puts exactly the fields that were put, in
  order and no others: the decoded key with the decoded value, in which every
  byte below 0x20 of a string has become a space.  So no value can end its line
  and forge another field, whatever bytes it holds, valid UTF-8 or not.\<close>

theorem text_payload_reads_back:
  fixes cap :: nat
  assumes "list_all (\<lambda>f. key_ok (field_key f)) fs"
    and "nl \<notin> set (case n of None \<Rightarrow> [] | Some s \<Rightarrow> s)"
    and "utf8_decoder decode"
  defines "b \<equiv> put_fields fs (bus_text_begin_with n cap)"
  shows "length (tb_text b) \<le> cap \<and>
    (tb_overflow b \<longleftrightarrow> cap < length (name_line n @ concat (map field_line fs))) \<and>
    (\<not> tb_overflow b \<longrightarrow> parseText decode (str_bytes (tb_text b)) =
       map (\<lambda>f. (decode (str_bytes (field_key f)), decode (str_bytes (field_value f)))) fs)"
proof -
  have "tb_cap b = cap"
    unfolding b_def by (simp add: put_fields_chunks begin_with_chunks)
  then have "length (tb_text b) \<le> cap"
    using payload_text(1) [of fs n cap] by (simp add: b_def bt_wf_def)
  moreover have "parse_text (tb_text b) = map (\<lambda>f. (field_key f, field_value f)) fs" if "\<not> tb_overflow b"
    using payload_text(3) [of fs n cap] that parse_name_line [OF assms(2)] parse_fields [OF assms(1)] by (simp add: b_def)
  ultimately show ?thesis
    using payload_text(2) [of fs n cap] by (simp add: b_def parseText_decoded [OF assms(3)] decoded_def)
qed

text \<open>A decoder that replaces every byte that is not ASCII.\<close>

definition ascii_decoder :: "bytes \<Rightarrow> jstring" where
  "ascii_decoder bs = map (\<lambda>c. if c < 128 then ucast c else 0xFFFD) bs"

lemma ascii_decoder_ok: "utf8_decoder ascii_decoder"
  by (auto simp: utf8_decoder_def ascii_decoder_def)

lemma text_payload_reads_back_witness:
  "parseText ascii_decoder (str_bytes (tb_text (put_fields [FStr ''road'' (Some (''A'' @ NL @ ''route_state:n:1'')), FInt ''x'' (- 7)]
     (bus_text_begin_with (Some ''routeguidance'') 200)))) =
   [(map unit_of ''road'', map unit_of ''A route_state:n:1''), (map unit_of ''x'', map unit_of ''-7'')]"
proof -
  let ?fs = "[FStr ''road'' (Some (''A'' @ NL @ ''route_state:n:1'')), FInt ''x'' (- 7)]"
  have 1: "list_all (\<lambda>f. key_ok (field_key f)) ?fs" by code_simp
  have 2: "nl \<notin> set (case Some ''routeguidance'' of None \<Rightarrow> [] | Some s \<Rightarrow> s)" by code_simp
  have 3: "\<not> 200 < length (name_line (Some ''routeguidance'') @ concat (map field_line ?fs))" by code_simp
  have 4: "map (\<lambda>f. (ascii_decoder (str_bytes (field_key f)), ascii_decoder (str_bytes (field_value f)))) ?fs =
      [(map unit_of ''road'', map unit_of ''A route_state:n:1''), (map unit_of ''x'', map unit_of ''-7'')]"
    by code_simp
  from text_payload_reads_back [OF 1 2 ascii_decoder_ok, of 200] 3 show ?thesis unfolding 4 by blast
qed

end
