(* ===== verification/Bus_Core.thy ===== *)
theory Bus_Core
  imports Bus_Text
begin

text \<open>
  The bus core of c_hook/framework/bus.c: frames, the per-type table with the
  sticky cache, the send ring, bus_send, the sync snapshot and the frames on
  the wire.  Every function that runs under g_lock is one operation on the
  record bus; the threads that call them are in Bus_Threads.

  malloc is a parameter: an argument (or, for the snapshot, a function of the
  allocation's index) tells whether an allocation succeeds.  A memcpy from a
  NULL payload is a fault, the outer None.  Handlers and callbacks are named
  by numbers, NULL is None.
\<close>

definition SEND_QUEUE_CAPACITY :: nat where "SEND_QUEUE_CAPACITY = 256"
definition MAX_TYPES :: nat where "MAX_TYPES = 0x40"

definition BUS_MAGIC :: u32 where "BUS_MAGIC = 0x43504842"
definition BUS_HEADER_SIZE :: nat where "BUS_HEADER_SIZE = 16"
definition BUS_MAX_PAYLOAD :: nat where "BUS_MAX_PAYLOAD = 128 * 1024"

definition BUS_FLAG_STICKY :: u8 where "BUS_FLAG_STICKY = 0x01"
definition BUS_FLAG_BINARY :: u8 where "BUS_FLAG_BINARY = 0x02"
definition BUS_FLAG_REPLAY :: u8 where "BUS_FLAG_REPLAY = 0x04"

definition EVT_HELLO :: u16 where "EVT_HELLO = 0x0001"
definition EVT_SYNC_BEGIN :: u16 where "EVT_SYNC_BEGIN = 0x0002"
definition EVT_SYNC_END :: u16 where "EVT_SYNC_END = 0x0003"
definition EVT_COVERART :: u16 where "EVT_COVERART = 0x0010"
definition EVT_RGD_UPDATE :: u16 where "EVT_RGD_UPDATE = 0x0020"

datatype bus_policy = BUS_POLICY_RELIABLE | BUS_POLICY_LOSSY | BUS_POLICY_DROP_OLD

record frame =
  f_type :: u16
  f_flags :: u8
  f_seq :: u32
  f_len :: nat
  f_payload :: "bytes option"

record type_slot =
  ts_configured :: bool
  ts_sticky :: bool
  ts_policy :: bus_policy
  ts_last :: frame
  ts_has_last :: bool
  ts_handler :: "nat option"
  ts_handler_ctx :: nat

record ring =
  g_ring :: "frame list"
  g_ring_head :: nat
  g_ring_tail :: nat
  g_ring_count :: nat

record bus =
  g_types :: "type_slot list"
  g_queue :: ring
  g_client_fd :: int
  g_tx_seq :: u32
  g_connector_up :: bool
  g_writer_up :: bool
  g_timer_up :: bool
  g_shutdown :: bool
  g_tick_cb :: "nat option"

definition zero_frame :: frame where
  "zero_frame = \<lparr> f_type = 0, f_flags = 0, f_seq = 0, f_len = 0, f_payload = None \<rparr>"

definition zero_slot :: type_slot where
  "zero_slot = \<lparr> ts_configured = False, ts_sticky = False, ts_policy = BUS_POLICY_RELIABLE,
     ts_last = zero_frame, ts_has_last = False, ts_handler = None, ts_handler_ctx = 0 \<rparr>"

definition zero_ring :: ring where
  "zero_ring = \<lparr> g_ring = replicate SEND_QUEUE_CAPACITY zero_frame, g_ring_head = 0,
     g_ring_tail = 0, g_ring_count = 0 \<rparr>"

text \<open>The static initial state (zero initialised storage).\<close>

definition bus0 :: bus where
  "bus0 = \<lparr> g_types = replicate MAX_TYPES zero_slot, g_queue = zero_ring, g_client_fd = - 1,
     g_tx_seq = 1, g_connector_up = False, g_writer_up = False, g_timer_up = False,
     g_shutdown = False, g_tick_cb = None \<rparr>"

section \<open>Frames\<close>

definition slot_for :: "u16 \<Rightarrow> nat option" where
  "slot_for type = (if unat type \<ge> MAX_TYPES then None else Some (unat type))"

definition frame_dispose :: "frame \<Rightarrow> frame" where
  "frame_dispose f = f\<lparr> f_payload := None, f_type := 0, f_flags := 0, f_len := 0, f_seq := 0 \<rparr>"

definition frame_dup :: "bool \<Rightarrow> frame \<Rightarrow> (hook_result \<times> frame) option" where
  "frame_dup alloc src =
     (let dst = \<lparr> f_type = f_type src, f_flags = f_flags src, f_seq = f_seq src,
                  f_len = f_len src, f_payload = None \<rparr>
      in if f_len src > 0 then
           if \<not> alloc then Some (HOOK_ERR_MEMORY, dst)
           else do {
             p \<leftarrow> f_payload src;
             bs \<leftarrow> rd_mem p 0 (f_len src);
             Some (HOOK_OK, dst\<lparr> f_payload := Some bs \<rparr>) }
         else Some (HOOK_OK, dst))"

section \<open>The send ring\<close>

definition q_is_full :: "ring \<Rightarrow> bool" where "q_is_full q = (g_ring_count q = SEND_QUEUE_CAPACITY)"
definition q_is_empty :: "ring \<Rightarrow> bool" where "q_is_empty q = (g_ring_count q = 0)"

definition q_enqueue_nolock :: "bool \<Rightarrow> frame \<Rightarrow> ring \<Rightarrow> (hook_result \<times> ring) option" where
  "q_enqueue_nolock alloc f q =
     (if q_is_full q then Some (HOOK_ERR_BUSY, q)
      else do {
        (r, d) \<leftarrow> frame_dup alloc f;
        buf \<leftarrow> wr8 (g_ring q) (g_ring_tail q) d;
        if r \<noteq> HOOK_OK then Some (r, q\<lparr> g_ring := buf \<rparr>)
        else Some (HOOK_OK, q\<lparr> g_ring := buf,
               g_ring_tail := (g_ring_tail q + 1) mod SEND_QUEUE_CAPACITY,
               g_ring_count := g_ring_count q + 1 \<rparr>) })"

definition q_dequeue_nolock :: "ring \<Rightarrow> (frame option \<times> ring) option" where
  "q_dequeue_nolock q =
     (if q_is_empty q then Some (None, q)
      else do {
        f \<leftarrow> rd8 (g_ring q) (g_ring_head q);
        buf \<leftarrow> wr8 (g_ring q) (g_ring_head q) (f\<lparr> f_payload := None \<rparr>);
        Some (Some f, q\<lparr> g_ring := buf,
          g_ring_head := (g_ring_head q + 1) mod SEND_QUEUE_CAPACITY,
          g_ring_count := g_ring_count q - 1 \<rparr>) })"

section \<open>Configuration\<close>

definition upd_slot :: "nat \<Rightarrow> (type_slot \<Rightarrow> type_slot) \<Rightarrow> bus \<Rightarrow> bus" where
  "upd_slot i g b = b\<lparr> g_types := (g_types b)[i := g (g_types b ! i)] \<rparr>"

definition bus_set_sticky :: "u16 \<Rightarrow> bool \<Rightarrow> bus \<Rightarrow> bus" where
  "bus_set_sticky type sticky b =
     (case slot_for type of None \<Rightarrow> b
      | Some i \<Rightarrow> upd_slot i (\<lambda>s. s\<lparr> ts_configured := True, ts_sticky := sticky \<rparr>) b)"

definition bus_set_policy :: "u16 \<Rightarrow> bus_policy \<Rightarrow> bus \<Rightarrow> bus" where
  "bus_set_policy type policy b =
     (case slot_for type of None \<Rightarrow> b
      | Some i \<Rightarrow> upd_slot i (\<lambda>s. s\<lparr> ts_configured := True, ts_policy := policy \<rparr>) b)"

definition bus_on :: "u16 \<Rightarrow> nat option \<Rightarrow> nat \<Rightarrow> bus \<Rightarrow> hook_result \<times> bus" where
  "bus_on type handler ctx b =
     (case slot_for type of None \<Rightarrow> (HOOK_ERR_PARAM, b)
      | Some i \<Rightarrow> (HOOK_OK, upd_slot i (\<lambda>s. s\<lparr> ts_handler := handler, ts_handler_ctx := ctx \<rparr>) b))"

definition bus_off :: "u16 \<Rightarrow> bus \<Rightarrow> bus" where
  "bus_off type b =
     (case slot_for type of None \<Rightarrow> b
      | Some i \<Rightarrow> upd_slot i (\<lambda>s. s\<lparr> ts_handler := None, ts_handler_ctx := 0 \<rparr>) b)"

definition bus_is_connected :: "bus \<Rightarrow> bool" where
  "bus_is_connected b = (g_client_fd b \<ge> 0)"

definition bus_set_periodic_tick :: "nat option \<Rightarrow> bus \<Rightarrow> bus" where
  "bus_set_periodic_tick cb b = b\<lparr> g_tick_cb := cb \<rparr>"

section \<open>Sending\<close>

text \<open>bus_send; the three flags are the allocations of the local copy, of the
  sticky copy and of the ring's copy.\<close>

definition bus_send_sticky :: "bool \<Rightarrow> frame \<Rightarrow> type_slot \<Rightarrow> type_slot option" where
  "bus_send_sticky alloc f s =
     (if has (f_flags f) BUS_FLAG_STICKY \<or> ts_sticky s then
        (let s1 = (if ts_has_last s then s\<lparr> ts_last := frame_dispose (ts_last s) \<rparr> else s)
         in do {
           (r, d) \<leftarrow> frame_dup alloc f;
           Some (if r = HOOK_OK then s1\<lparr> ts_last := d, ts_has_last := True \<rparr>
                 else s1\<lparr> ts_last := d \<rparr>) })
      else Some s)"

definition bus_send ::
  "bool \<times> bool \<times> bool \<Rightarrow> u16 \<Rightarrow> u8 \<Rightarrow> bytes \<Rightarrow> nat \<Rightarrow> bus \<Rightarrow> (hook_result \<times> bus) option" where
  "bus_send al type flags payload len b =
     (let (al1, al2, al3) = al in
      if len > BUS_MAX_PAYLOAD then Some (HOOK_ERR_PARAM, b)
      else case slot_for type of None \<Rightarrow> Some (HOOK_ERR_PARAM, b)
      | Some i \<Rightarrow>
        if len > 0 \<and> \<not> al1 then Some (HOOK_ERR_MEMORY, b)
        else do {
          pl \<leftarrow> (if len > 0 then map_option Some (rd_mem payload 0 len) else Some None);
          let my_seq = g_tx_seq b;
          let f = \<lparr> f_type = type, f_flags = flags, f_seq = my_seq, f_len = len, f_payload = pl \<rparr>;
          let b1 = b\<lparr> g_tx_seq := my_seq + 1 \<rparr>;
          s \<leftarrow> rd8 (g_types b1) i;
          s' \<leftarrow> bus_send_sticky al2 f s;
          let b2 = upd_slot i (\<lambda>_. s') b1;
          (enq, q') \<leftarrow> q_enqueue_nolock al3 f (g_queue b2);
          let b3 = b2\<lparr> g_queue := q' \<rparr>;
          Some (enq, if enq = HOOK_OK then b3
                     else if g_tx_seq b3 = my_seq + 1 then b3\<lparr> g_tx_seq := g_tx_seq b3 - 1 \<rparr> else b3) })"

text \<open>bus_send_text: the text of the builder as the payload of a frame.\<close>

definition bus_send_text ::
  "bool \<times> bool \<times> bool \<Rightarrow> u16 \<Rightarrow> u8 \<Rightarrow> bus_text_builder \<Rightarrow> bus \<Rightarrow>
   (hook_result \<times> bus_text_builder \<times> bus) option" where
  "bus_send_text al type flags tb b =
     (if \<not> tb_has_buf tb then Some (HOOK_ERR_PARAM, tb, b)
      else if tb_overflow tb then Some (HOOK_ERR_MEMORY, bus_text_free tb, b)
      else do {
        (r, b') \<leftarrow> bus_send al type (flags AND NOT BUS_FLAG_BINARY) (str_bytes (tb_text tb))
          (length (tb_text tb)) b;
        Some (r, bus_text_free tb, b') })"

section \<open>The snapshot\<close>

text \<open>The part of send_sync_snapshot under the lock: the BEGIN frame, the
  replayed frames and the END frame.  alloc 0 is the calloc of the array,
  alloc (i + 1) the payload copy of type i.\<close>

fun snapshot_loop :: "(nat \<Rightarrow> bool) \<Rightarrow> nat \<Rightarrow> type_slot list \<Rightarrow> frame list option" where
  "snapshot_loop alloc i [] = Some []"
| "snapshot_loop alloc i (s # ss) =
     (if \<not> ts_has_last s then snapshot_loop alloc (i + 1) ss
      else do {
        (r, f) \<leftarrow> frame_dup (alloc (i + 1)) (ts_last s);
        fs \<leftarrow> snapshot_loop alloc (i + 1) ss;
        Some (if r = HOOK_OK then f\<lparr> f_flags := f_flags f OR BUS_FLAG_REPLAY \<rparr> # fs else fs) })"

definition sync_frame :: "u16 \<Rightarrow> u32 \<Rightarrow> frame" where
  "sync_frame type seq = \<lparr> f_type = type, f_flags = 0, f_seq = seq, f_len = 0, f_payload = None \<rparr>"

definition snapshot_collect :: "(nat \<Rightarrow> bool) \<Rightarrow> bus \<Rightarrow> (frame list \<times> bus) option" where
  "snapshot_collect alloc b =
     (let begin_f = sync_frame EVT_SYNC_BEGIN (g_tx_seq b);
          end_f = sync_frame EVT_SYNC_END (g_tx_seq b + 1);
          b' = b\<lparr> g_tx_seq := g_tx_seq b + 2 \<rparr>
      in do {
        snapshot \<leftarrow> (if list_ex ts_has_last (g_types b) \<and> alloc 0
                     then snapshot_loop alloc 0 (g_types b) else Some []);
        Some (begin_f # snapshot @ [end_f], b') })"

section \<open>Frames on the wire\<close>

text \<open>The results of successive send() calls on a socket: the count accepted, or
  an error (True for EINTR).  The list ends where the kernel has not answered
  yet; a call that still waits is None.\<close>

datatype send_result = Sent nat | SendErr bool

fun write_all :: "send_result list \<Rightarrow> bytes \<Rightarrow> (int \<times> bytes \<times> send_result list) option" where
  "write_all os [] = Some (0, [], os)"
| "write_all [] (x # xs) = None"
| "write_all (SendErr eintr # os) (x # xs) =
     (if eintr then write_all os (x # xs) else Some (- 1, [], os))"
| "write_all (Sent n # os) (x # xs) =
     (if n = 0 then Some (- 1, [], os)
      else map_option (\<lambda>(r, w, os'). (r, take n (x # xs) @ w, os')) (write_all os (drop n (x # xs))))"

definition frame_hdr :: "frame \<Rightarrow> bytes option" where
  "frame_hdr f = do {
     h \<leftarrow> write_be32 (replicate BUS_HEADER_SIZE 0) 0 BUS_MAGIC;
     h \<leftarrow> write_be32 h 4 (f_seq f);
     h \<leftarrow> write_be16 h 8 (f_type f);
     h \<leftarrow> wr8 h 10 (f_flags f);
     h \<leftarrow> wr8 h 11 0;
     write_be32 h 12 (of_nat (f_len f)) }"

text \<open>send_frame: the result code, the bytes the kernel took and the answers
  left.\<close>

definition send_frame :: "send_result list \<Rightarrow> frame \<Rightarrow> (int \<times> bytes \<times> send_result list) option" where
  "send_frame os f = do {
     hdr \<leftarrow> frame_hdr f;
     (r, w, os) \<leftarrow> write_all os hdr;
     if r \<noteq> 0 then Some (- 1, w, os)
     else (case f_payload f of
         None \<Rightarrow> Some (0, w, os)
       | Some p \<Rightarrow>
           if f_len f > 0 then do {
             bs \<leftarrow> rd_mem p 0 (f_len f);
             (r2, w2, os) \<leftarrow> write_all os bs;
             Some (if r2 \<noteq> 0 then - 1 else 0, w @ w2, os) }
           else Some (0, w, os)) }"

fun send_frames :: "send_result list \<Rightarrow> frame list \<Rightarrow> (bytes \<times> send_result list) option" where
  "send_frames os [] = Some ([], os)"
| "send_frames os (f # fs) = do {
     (r, w, os) \<leftarrow> send_frame os f;
     (ws, os) \<leftarrow> send_frames os fs;
     Some (w @ ws, os) }"

section \<open>Lifecycle\<close>

text \<open>bus_init up to the creation of the threads: the three pthread_create
  results are arguments.\<close>

definition bus_init :: "bool \<times> bool \<times> bool \<Rightarrow> bus \<Rightarrow> hook_result \<times> bus" where
  "bus_init created b =
     (let (c1, c2, c3) = created in
      if g_connector_up b \<or> g_writer_up b \<or> g_timer_up b then (HOOK_ERR_BUSY, b)
      else let b = b\<lparr> g_queue := (g_queue b)\<lparr> g_ring_head := 0, g_ring_tail := 0, g_ring_count := 0 \<rparr>,
                      g_tx_seq := 1, g_shutdown := False \<rparr>
           in if \<not> c1 then (HOOK_ERR_INIT, b\<lparr> g_connector_up := False \<rparr>)
           else let b = b\<lparr> g_connector_up := True \<rparr>
           in if \<not> c2 then (HOOK_ERR_INIT, b\<lparr> g_writer_up := False, g_shutdown := True \<rparr>)
           else let b = b\<lparr> g_writer_up := True \<rparr>
           in (HOOK_OK, b\<lparr> g_timer_up := c3 \<rparr>))"

function drain_ring :: "ring \<Rightarrow> ring option" where
  "drain_ring q =
     (if q_is_empty q then Some q
      else (case q_dequeue_nolock q of None \<Rightarrow> None
            | Some (f, q') \<Rightarrow> drain_ring q'))"
  by pat_completeness auto
termination
  by (relation "measure g_ring_count")
    (auto simp: q_dequeue_nolock_def q_is_empty_def bind_eq_Some_conv)

declare drain_ring.simps [simp del]

definition bus_shutdown :: "bus \<Rightarrow> bus option" where
  "bus_shutdown b = do {
     q \<leftarrow> drain_ring (g_queue b);
     Some (b\<lparr> g_shutdown := True, g_client_fd := (if g_client_fd b \<ge> 0 then - 1 else g_client_fd b),
       g_queue := q,
       g_types := map (\<lambda>s. (if ts_has_last s then s\<lparr> ts_last := frame_dispose (ts_last s) \<rparr> else s)
                             \<lparr> ts_has_last := False \<rparr>) (g_types b) \<rparr>) }"

section \<open>The ring is a bounded queue\<close>

definition wf_frame :: "frame \<Rightarrow> bool" where
  "wf_frame f \<longleftrightarrow> (case f_payload f of None \<Rightarrow> f_len f = 0 | Some p \<Rightarrow> length p = f_len f \<and> f_len f > 0)"

lemma frame_dup_wf: "wf_frame f \<Longrightarrow> frame_dup True f = Some (HOOK_OK, f)"
  by (auto simp: wf_frame_def frame_dup_def Let_def rd_mem_def split: option.splits)

lemma frame_dup_no_alloc:
  "wf_frame f \<Longrightarrow> f_len f > 0 \<Longrightarrow> frame_dup False f = Some (HOOK_ERR_MEMORY, f\<lparr> f_payload := None \<rparr>)"
  by (simp add: frame_dup_def)

lemma frame_dup_cases:
  assumes "wf_frame f"
  shows "frame_dup a f = Some (HOOK_OK, f) \<or>
    \<not> a \<and> f_len f > 0 \<and> frame_dup a f = Some (HOOK_ERR_MEMORY, f\<lparr> f_payload := None \<rparr>)"
proof (cases a)
  case True
  then show ?thesis using frame_dup_wf [OF assms] by simp
next
  case False
  then show ?thesis
    using assms frame_dup_no_alloc [OF assms]
    by (cases "f_len f > 0") (auto simp: frame_dup_def wf_frame_def split: option.splits)
qed

definition ring_items :: "ring \<Rightarrow> frame list" where
  "ring_items q = map (\<lambda>i. g_ring q ! ((g_ring_head q + i) mod SEND_QUEUE_CAPACITY)) [0 ..< g_ring_count q]"

definition ring_ok :: "ring \<Rightarrow> bool" where
  "ring_ok q \<longleftrightarrow> length (g_ring q) = SEND_QUEUE_CAPACITY \<and> g_ring_head q < SEND_QUEUE_CAPACITY \<and>
     g_ring_tail q = (g_ring_head q + g_ring_count q) mod SEND_QUEUE_CAPACITY \<and>
     g_ring_count q \<le> SEND_QUEUE_CAPACITY"

definition ring_enq :: "ring \<Rightarrow> frame \<Rightarrow> ring option" where
  "ring_enq q f = (case q_enqueue_nolock True f q of Some (HOOK_OK, q') \<Rightarrow> Some q' | _ \<Rightarrow> None)"

definition ring_deq :: "ring \<Rightarrow> (frame \<times> ring) option" where
  "ring_deq q = (case q_dequeue_nolock q of Some (Some f, q') \<Rightarrow> Some (f, q') | _ \<Rightarrow> None)"

lemma SQC_pos [simp]: "0 < SEND_QUEUE_CAPACITY"
  by (simp add: SEND_QUEUE_CAPACITY_def)

lemma length_ring_items [simp]: "length (ring_items q) = g_ring_count q"
  by (simp add: ring_items_def)

lemma ring_tail_lt: "ring_ok q \<Longrightarrow> g_ring_tail q < SEND_QUEUE_CAPACITY"
  by (simp add: ring_ok_def)

lemma q_enqueue_room:
  assumes "ring_ok q" and "wf_frame f" and "g_ring_count q < SEND_QUEUE_CAPACITY"
  shows "\<exists>q'. q_enqueue_nolock True f q = Some (HOOK_OK, q') \<and> ring_ok q' \<and> ring_items q' = ring_items q @ [f]"
proof -
  let ?q = "q\<lparr> g_ring := (g_ring q)[g_ring_tail q := f],
               g_ring_tail := (g_ring_tail q + 1) mod SEND_QUEUE_CAPACITY,
               g_ring_count := g_ring_count q + 1 \<rparr>"
  have e: "q_enqueue_nolock True f q = Some (HOOK_OK, ?q)"
    using assms ring_tail_lt [OF assms(1)]
    by (simp add: q_enqueue_nolock_def q_is_full_def frame_dup_wf wr8_def ring_ok_def)
  have ok: "ring_ok ?q"
    using assms by (simp add: ring_ok_def mod_add_left_eq add.assoc)
  have "ring_items ?q = map (\<lambda>i. (g_ring q)[g_ring_tail q := f] ! ((g_ring_head q + i) mod SEND_QUEUE_CAPACITY))
      [0 ..< g_ring_count q] @ [f]"
    using assms by (simp add: ring_items_def ring_ok_def)
  also have "map (\<lambda>i. (g_ring q)[g_ring_tail q := f] ! ((g_ring_head q + i) mod SEND_QUEUE_CAPACITY))
      [0 ..< g_ring_count q] = ring_items q"
    unfolding ring_items_def
  proof (rule map_cong [OF refl])
    fix i assume "i \<in> set [0 ..< g_ring_count q]"
    then have "(g_ring_head q + i) mod SEND_QUEUE_CAPACITY \<noteq> g_ring_tail q"
      using assms by (simp add: ring_ok_def)
    then show "(g_ring q)[g_ring_tail q := f] ! ((g_ring_head q + i) mod SEND_QUEUE_CAPACITY) =
      g_ring q ! ((g_ring_head q + i) mod SEND_QUEUE_CAPACITY)" by simp
  qed
  finally show ?thesis using e ok by blast
qed

lemma q_dequeue_cons:
  assumes "ring_ok q" and "0 < g_ring_count q"
  shows "\<exists>q'. q_dequeue_nolock q = Some (Some (hd (ring_items q)), q') \<and> ring_ok q' \<and>
    ring_items q' = tl (ring_items q)"
proof -
  let ?f = "g_ring q ! g_ring_head q"
  let ?q = "q\<lparr> g_ring := (g_ring q)[g_ring_head q := ?f\<lparr> f_payload := None \<rparr>],
               g_ring_head := (g_ring_head q + 1) mod SEND_QUEUE_CAPACITY,
               g_ring_count := g_ring_count q - 1 \<rparr>"
  have u: "[0 ..< g_ring_count q] = 0 # map (\<lambda>i. i + 1) [0 ..< g_ring_count q - 1]"
    using assms(2) by (simp add: upt_conv_Cons map_add_upt)
  have e: "q_dequeue_nolock q = Some (Some ?f, ?q)"
    using assms by (simp add: q_dequeue_nolock_def q_is_empty_def rd8_def wr8_def ring_ok_def)
  have i: "ring_items q = ?f # map (\<lambda>i. g_ring q ! ((g_ring_head q + (i + 1)) mod SEND_QUEUE_CAPACITY))
      [0 ..< g_ring_count q - 1]"
    using assms by (simp add: ring_items_def u ring_ok_def comp_def)
  have "g_ring_head q + 1 + (g_ring_count q - 1) = g_ring_head q + g_ring_count q"
    using assms(2) by simp
  then have "((g_ring_head q + 1) mod SEND_QUEUE_CAPACITY + (g_ring_count q - 1)) mod SEND_QUEUE_CAPACITY =
    (g_ring_head q + g_ring_count q) mod SEND_QUEUE_CAPACITY"
    by (simp only: mod_add_left_eq)
  then have "ring_ok ?q"
    using assms by (auto simp: ring_ok_def)
  moreover have "ring_items ?q = map (\<lambda>i. g_ring q ! ((g_ring_head q + (i + 1)) mod SEND_QUEUE_CAPACITY))
      [0 ..< g_ring_count q - 1]"
    unfolding ring_items_def
  proof (simp, intro ballI)
    fix j assume "j \<in> {0 ..< g_ring_count q - 1}"
    then have j: "j + 1 < SEND_QUEUE_CAPACITY" using assms by (auto simp: ring_ok_def)
    have m: "((g_ring_head q + 1) mod SEND_QUEUE_CAPACITY + j) mod SEND_QUEUE_CAPACITY =
      (g_ring_head q + (j + 1)) mod SEND_QUEUE_CAPACITY"
      unfolding mod_add_left_eq by (simp add: ac_simps)
    have "(g_ring_head q + (j + 1)) mod SEND_QUEUE_CAPACITY \<noteq> (g_ring_head q + 0) mod SEND_QUEUE_CAPACITY"
      using j by (subst mod_add_cancel_iff) auto
    then have "g_ring_head q \<noteq> (g_ring_head q + (j + 1)) mod SEND_QUEUE_CAPACITY"
      using assms by (simp add: ring_ok_def)
    then show "(g_ring q)[g_ring_head q := ?f\<lparr> f_payload := None \<rparr>] !
        (((g_ring_head q + 1) mod SEND_QUEUE_CAPACITY + j) mod SEND_QUEUE_CAPACITY) =
      g_ring q ! ((g_ring_head q + (j + 1)) mod SEND_QUEUE_CAPACITY)"
      unfolding m by simp
  qed
  ultimately show ?thesis using e i by simp
qed

interpretation busq: bounded_queue ring_items ring_ok wf_frame SEND_QUEUE_CAPACITY ring_enq ring_deq
proof
  fix q x assume "ring_ok q" "SEND_QUEUE_CAPACITY \<le> length (ring_items q)"
  then show "ring_enq q x = None"
    by (simp add: ring_enq_def q_enqueue_nolock_def q_is_full_def ring_ok_def)
next
  fix q x assume "ring_ok q" "wf_frame x" "length (ring_items q) < SEND_QUEUE_CAPACITY"
  then show "\<exists>q'. ring_enq q x = Some q' \<and> ring_ok q' \<and> ring_items q' = ring_items q @ [x]"
    using q_enqueue_room [of q x] by (auto simp: ring_enq_def)
next
  fix q assume "ring_ok q" "ring_items q = []"
  then have "g_ring_count q = 0" by (metis length_ring_items list.size(3))
  then show "ring_deq q = None" by (simp add: ring_deq_def q_dequeue_nolock_def q_is_empty_def)
next
  fix q x xs assume "ring_ok q" "ring_items q = x # xs"
  moreover from this have "0 < g_ring_count q" by (metis length_ring_items length_greater_0_conv list.distinct(1))
  ultimately show "\<exists>q'. ring_deq q = Some (x, q') \<and> ring_ok q' \<and> ring_items q' = xs"
    using q_dequeue_cons [of q] by (auto simp: ring_deq_def)
next
  fix q assume "ring_ok q"
  then show "length (ring_items q) \<le> SEND_QUEUE_CAPACITY" by (simp add: ring_ok_def)
qed

section \<open>The bus invariant and bus_send\<close>

text \<open>The sticky cache, as the map from a type to its last frame.\<close>

definition sticky_cache :: "bus \<Rightarrow> nat \<Rightarrow> frame option" where
  "sticky_cache b i =
     (if i < length (g_types b) \<and> ts_has_last (g_types b ! i) then Some (ts_last (g_types b ! i)) else None)"

definition bus_ok :: "bus \<Rightarrow> bool" where
  "bus_ok b \<longleftrightarrow> length (g_types b) = MAX_TYPES \<and> ring_ok (g_queue b) \<and>
     (\<forall>f \<in> set (ring_items (g_queue b)). wf_frame f) \<and>
     (\<forall>i f. sticky_cache b i = Some f \<longrightarrow> wf_frame f \<and> unat (f_type f) = i)"

lemma bus_ok_bus0: "bus_ok bus0"
  by (auto simp: bus_ok_def bus0_def ring_ok_def zero_ring_def ring_items_def sticky_cache_def zero_slot_def)

text \<open>The frame a send makes.\<close>

definition sent_frame :: "u16 \<Rightarrow> u8 \<Rightarrow> u32 \<Rightarrow> bytes \<Rightarrow> nat \<Rightarrow> frame" where
  "sent_frame type flags seq payload len = \<lparr> f_type = type, f_flags = flags, f_seq = seq, f_len = len,
     f_payload = (if len > 0 then Some (take len payload) else None) \<rparr>"

lemma wf_sent_frame: "len \<le> length payload \<Longrightarrow> wf_frame (sent_frame type flags seq payload len)"
  by (simp add: wf_frame_def sent_frame_def)

lemma sent_frame_sel [simp]:
  "f_type (sent_frame type flags seq payload len) = type"
  "f_flags (sent_frame type flags seq payload len) = flags"
  "f_len (sent_frame type flags seq payload len) = len"
  by (simp_all add: sent_frame_def)

lemma enqueue_cases:
  assumes "ring_ok q" and "wf_frame f"
  shows "\<exists>r q'. q_enqueue_nolock a f q = Some (r, q') \<and> ring_ok q' \<and>
    (if g_ring_count q = SEND_QUEUE_CAPACITY then r = HOOK_ERR_BUSY \<and> q' = q
     else if f_len f > 0 \<and> \<not> a then r = HOOK_ERR_MEMORY \<and> ring_items q' = ring_items q
     else r = HOOK_OK \<and> ring_items q' = ring_items q @ [f])"
proof (cases "g_ring_count q = SEND_QUEUE_CAPACITY")
  case True
  then show ?thesis using assms by (simp add: q_enqueue_nolock_def q_is_full_def)
next
  case False
  then have room: "g_ring_count q < SEND_QUEUE_CAPACITY" using assms by (simp add: ring_ok_def)
  show ?thesis
  proof (cases "f_len f > 0 \<and> \<not> a")
    case True
    let ?q = "q\<lparr> g_ring := (g_ring q)[g_ring_tail q := f\<lparr> f_payload := None \<rparr>] \<rparr>"
    have "q_enqueue_nolock a f q = Some (HOOK_ERR_MEMORY, ?q)"
      using False True assms ring_tail_lt [OF assms(1)] frame_dup_no_alloc [OF assms(2)]
      by (simp add: q_enqueue_nolock_def q_is_full_def wr8_def ring_ok_def)
    moreover have "ring_items ?q = ring_items q"
      unfolding ring_items_def
    proof (simp, intro ballI)
      fix i assume "i \<in> {0 ..< g_ring_count q}"
      then have "(g_ring_head q + i) mod SEND_QUEUE_CAPACITY \<noteq> g_ring_tail q"
        using assms room by (simp add: ring_ok_def)
      then show "(g_ring q)[g_ring_tail q := f\<lparr> f_payload := None \<rparr>] !
          ((g_ring_head q + i) mod SEND_QUEUE_CAPACITY) =
        g_ring q ! ((g_ring_head q + i) mod SEND_QUEUE_CAPACITY)" by simp
    qed
    ultimately show ?thesis using False True assms by (auto simp: ring_ok_def)
  next
    case no: False
    then have "frame_dup a f = frame_dup True f"
      using frame_dup_cases [OF assms(2), of a] frame_dup_wf [OF assms(2)] by auto
    then have "q_enqueue_nolock a f q = q_enqueue_nolock True f q"
      by (simp add: q_enqueue_nolock_def)
    then show ?thesis
      using q_enqueue_room [OF assms room] False no by auto
  qed
qed

lemma sticky_cases:
  assumes "wf_frame f"
  shows "bus_send_sticky True f s =
    Some (if has (f_flags f) BUS_FLAG_STICKY \<or> ts_sticky s
          then s\<lparr> ts_last := f, ts_has_last := True \<rparr> else s)"
  using frame_dup_wf [OF assms] by (simp add: bus_send_sticky_def Let_def)

lemma sticky_cache_upd:
  assumes "length (g_types b) = MAX_TYPES" and "i < MAX_TYPES"
  shows "sticky_cache (upd_slot i (\<lambda>_. s) b) =
    (sticky_cache b)(i := (if ts_has_last s then Some (ts_last s) else None))"
  using assms by (auto simp: sticky_cache_def upd_slot_def fun_eq_iff)

lemma sticky_cache_simps [simp]:
  "sticky_cache (b\<lparr> g_tx_seq := x \<rparr>) = sticky_cache b"
  "sticky_cache (b\<lparr> g_queue := y \<rparr>) = sticky_cache b"
  "sticky_cache (b\<lparr> g_client_fd := z \<rparr>) = sticky_cache b"
  by (simp_all add: sticky_cache_def fun_eq_iff)

lemma upd_slot_simps [simp]:
  "g_queue (upd_slot i g b) = g_queue b" "g_tx_seq (upd_slot i g b) = g_tx_seq b"
  "length (g_types (upd_slot i g b)) = length (g_types b)"
  "g_client_fd (upd_slot i g b) = g_client_fd b"
  by (simp_all add: upd_slot_def)

text \<open>What bus_send does on each of its branches.\<close>

lemma bus_send_main:
  fixes flags :: u8 and al3 :: bool
  assumes ok: "bus_ok b" and len: "len \<le> length payload" and max: "len \<le> BUS_MAX_PAYLOAD"
    and ty: "unat type < MAX_TYPES" and al: "len = 0 \<or> al1"
  defines "f \<equiv> sent_frame type flags (g_tx_seq b) payload len"
    and "i \<equiv> unat type"
  shows "\<exists>r b'. bus_send (al1, True, al3) type flags payload len b = Some (r, b') \<and> bus_ok b' \<and>
    sticky_cache b' = (if has flags BUS_FLAG_STICKY \<or> ts_sticky (g_types b ! i)
      then (sticky_cache b)(i \<mapsto> f) else sticky_cache b) \<and>
    (if g_ring_count (g_queue b) = SEND_QUEUE_CAPACITY then
       r = HOOK_ERR_BUSY \<and> ring_items (g_queue b') = ring_items (g_queue b) \<and> g_tx_seq b' = g_tx_seq b
     else if len > 0 \<and> \<not> al3 then
       r = HOOK_ERR_MEMORY \<and> ring_items (g_queue b') = ring_items (g_queue b) \<and> g_tx_seq b' = g_tx_seq b
     else r = HOOK_OK \<and> ring_items (g_queue b') = ring_items (g_queue b) @ [f] \<and>
       g_tx_seq b' = g_tx_seq b + 1) \<and> g_client_fd b' = g_client_fd b"
proof -
  have lt: "length (g_types b) = MAX_TYPES" and rk: "ring_ok (g_queue b)"
    using ok by (simp_all add: bus_ok_def)
  have i: "i < MAX_TYPES" using ty by (simp add: i_def)
  have wf: "wf_frame f" unfolding f_def by (rule wf_sent_frame [OF len])
  obtain r q' where q: "q_enqueue_nolock al3 f (g_queue b) = Some (r, q')" "ring_ok q'"
    "if g_ring_count (g_queue b) = SEND_QUEUE_CAPACITY then r = HOOK_ERR_BUSY \<and> q' = g_queue b
     else if f_len f > 0 \<and> \<not> al3 then r = HOOK_ERR_MEMORY \<and> ring_items q' = ring_items (g_queue b)
     else r = HOOK_OK \<and> ring_items q' = ring_items (g_queue b) @ [f]"
    using enqueue_cases [OF rk wf, of al3] by blast
  let ?s = "g_types b ! i"
  let ?s' = "if has flags BUS_FLAG_STICKY \<or> ts_sticky ?s then ?s\<lparr> ts_last := f, ts_has_last := True \<rparr> else ?s"
  let ?b' = "(upd_slot i (\<lambda>_. ?s') (b\<lparr> g_tx_seq := g_tx_seq b + 1 \<rparr>))\<lparr> g_queue := q' \<rparr>"
  let ?b'' = "if r = HOOK_OK then ?b' else ?b'\<lparr> g_tx_seq := g_tx_seq b \<rparr>"
  have pl: "(if len > 0 then map_option Some (rd_mem payload 0 len) else Some None) =
    Some (if len > 0 then Some (take len payload) else None)"
    using len by (simp add: rd_mem_def slice_def)
  have sl: "slot_for type = Some i" using ty by (simp add: slot_for_def i_def)
  have gt: "rd8 (g_types (b\<lparr> g_tx_seq := g_tx_seq b + 1 \<rparr>)) i = Some ?s"
    using i lt by (simp add: rd8_def)
  have fe: "\<lparr> f_type = type, f_flags = flags, f_seq = g_tx_seq b, f_len = len,
      f_payload = (if len > 0 then Some (take len payload) else None) \<rparr> = f"
    by (simp add: f_def sent_frame_def)
  have st: "bus_send_sticky True f ?s = Some ?s'"
    unfolding sticky_cases [OF wf] by (simp add: f_def)
  have gq: "g_queue (upd_slot i (\<lambda>_. ?s') (b\<lparr> g_tx_seq := g_tx_seq b + 1 \<rparr>)) = g_queue b" by simp
  have run: "bus_send (al1, True, al3) type flags payload len b = Some (r, ?b'')"
    using max al unfolding bus_send_def Let_def prod.case sl option.case pl bind.bind_lunit fe gt st gq q(1)
    by auto
  have sc: "sticky_cache ?b'' = (if has flags BUS_FLAG_STICKY \<or> ts_sticky ?s
      then (sticky_cache b)(i \<mapsto> f) else sticky_cache b)"
    using sticky_cache_upd [of "b\<lparr> g_tx_seq := g_tx_seq b + 1 \<rparr>" i ?s'] lt i
    by (auto simp: fun_eq_iff) (simp_all add: sticky_cache_def)
  have "bus_ok ?b''"
    using ok sc q wf lt by (auto simp: bus_ok_def f_def i_def split: if_splits)
  then show ?thesis using run sc q(3) by (auto simp: f_def split: if_splits)
qed

section \<open>The wire format\<close>

text \<open>What the peer reads (CarplayBus.java, the reader loop): a 16 byte header and
  the payload.  A record is (seq, type, flags, payload).\<close>

definition bus_dec :: "bytes \<Rightarrow> ((u32 \<times> u16 \<times> u8 \<times> bytes) \<times> bytes) option" where
  "bus_dec bs =
     (if length bs < BUS_HEADER_SIZE then None
      else if be32 (bs ! 0) (bs ! 1) (bs ! 2) (bs ! 3) \<noteq> BUS_MAGIC then None
      else let len = unat (be32 (bs ! 12) (bs ! 13) (bs ! 14) (bs ! 15))
           in if len > BUS_MAX_PAYLOAD \<or> BUS_HEADER_SIZE + len > length bs then None
              else Some ((be32 (bs ! 4) (bs ! 5) (bs ! 6) (bs ! 7), be16 (bs ! 8) (bs ! 9), bs ! 10,
                          slice bs BUS_HEADER_SIZE len), drop (BUS_HEADER_SIZE + len) bs))"

definition bus_enc :: "u32 \<times> u16 \<times> u8 \<times> bytes \<Rightarrow> bytes" where
  "bus_enc r = (case r of (sq, ty, fl, pl) \<Rightarrow>
     be32_bytes BUS_MAGIC @ be32_bytes sq @ be16_bytes ty @ [fl, 0] @ be32_bytes (of_nat (length pl)) @ pl)"

definition wire_ok :: "u32 \<times> u16 \<times> u8 \<times> bytes \<Rightarrow> bool" where
  "wire_ok r \<longleftrightarrow> length (snd (snd (snd r))) \<le> BUS_MAX_PAYLOAD"

definition wire_of :: "frame \<Rightarrow> u32 \<times> u16 \<times> u8 \<times> bytes" where
  "wire_of f = (f_seq f, f_type f, f_flags f, case f_payload f of None \<Rightarrow> [] | Some p \<Rightarrow> p)"

lemma bus_enc_nth:
  fixes sq :: u32 and ty :: u16 and fl :: u8 and pl rest :: bytes
  defines "e \<equiv> bus_enc (sq, ty, fl, pl) @ rest"
  shows "be32 (e ! 0) (e ! 1) (e ! 2) (e ! 3) = BUS_MAGIC"
    and "be32 (e ! 4) (e ! 5) (e ! 6) (e ! 7) = sq" and "be16 (e ! 8) (e ! 9) = ty" and "e ! 10 = fl"
    and "be32 (e ! 12) (e ! 13) (e ! 14) (e ! 15) = of_nat (length pl)"
  by (simp_all add: e_def bus_enc_def nth_append be_simps)

interpretation busw: stream_codec bus_enc bus_dec wire_ok
proof
  fix x rest assume ok: "wire_ok x"
  obtain sq ty fl pl where x: "x = (sq, ty, fl, pl)" by (metis prod_cases4)
  have n: "unat (of_nat (length pl) :: u32) = length pl"
    using ok by (simp add: wire_ok_def x BUS_MAX_PAYLOAD_def be_simps)
  have l: "length (bus_enc (sq, ty, fl, pl) @ rest) = 16 + length pl + length rest"
    by (simp add: bus_enc_def)
  have s: "slice (bus_enc (sq, ty, fl, pl) @ rest) 16 (length pl) = pl"
    "drop (16 + length pl) (bus_enc (sq, ty, fl, pl) @ rest) = rest"
  proof -
    obtain h where h: "bus_enc (sq, ty, fl, pl) = h @ pl" "length h = 16"
      by (simp add: bus_enc_def)
    show "slice (bus_enc (sq, ty, fl, pl) @ rest) 16 (length pl) = pl"
      "drop (16 + length pl) (bus_enc (sq, ty, fl, pl) @ rest) = rest"
      by (simp_all add: h slice_def)
  qed
  show "bus_dec (bus_enc x @ rest) = Some (x, rest)"
    using ok unfolding x bus_dec_def bus_enc_nth l n Let_def BUS_HEADER_SIZE_def s
    by (simp add: wire_ok_def)
next
  fix bs x r assume "bus_dec bs = Some (x, r)"
  then show "length r < length bs"
    by (auto simp: bus_dec_def Let_def BUS_HEADER_SIZE_def split: if_splits)
next
  fix bs x r c assume d: "bus_dec bs = Some (x, r)"
  have l: "16 \<le> length bs" using d by (auto simp: bus_dec_def BUS_HEADER_SIZE_def split: if_splits)
  have nth: "(bs @ c) ! k = bs ! k" if "k < 16" for k using that l by (simp add: nth_append)
  show "bus_dec (bs @ c) = Some (x, r @ c)"
    using d l by (auto simp: bus_dec_def Let_def BUS_HEADER_SIZE_def nth split: if_splits)
qed

lemma frame_hdr_bytes:
  "frame_hdr f = Some (be32_bytes BUS_MAGIC @ be32_bytes (f_seq f) @ be16_bytes (f_type f) @
     [f_flags f, 0] @ be32_bytes (of_nat (f_len f)))"
proof -
  let ?z = "replicate 16 (0 :: u8)"
  have "frame_hdr f = Some (patch (patch (patch (patch (patch (patch ?z 0 (be32_bytes BUS_MAGIC)) 4
    (be32_bytes (f_seq f))) 8 (be16_bytes (f_type f))) 10 [f_flags f]) 11 [0]) 12
    (be32_bytes (of_nat (f_len f))))"
    by (simp add: frame_hdr_def BUS_HEADER_SIZE_def mem_simps list_update_is_patch)
  then show ?thesis
    by (simp add: patch_patch_adj' patch_at_0 patch_app_right patch_Cons patch_all)
qed

text \<open>Answers the kernel can give: it never takes more than it was offered.\<close>

fun answers_ok :: "send_result list \<Rightarrow> nat \<Rightarrow> bool" where
  "answers_ok [] n \<longleftrightarrow> True"
| "answers_ok (SendErr e # os) n \<longleftrightarrow> (e \<longrightarrow> answers_ok os n)"
| "answers_ok (Sent k # os) n \<longleftrightarrow> k \<le> n \<and> (0 < k \<and> k < n \<longrightarrow> answers_ok os (n - k))"

text \<open>write_all hands the kernel a prefix of the buffer, all of it when it
  returns 0.\<close>

lemma write_all_prefix:
  "write_all os bs = Some (r, w, os') \<Longrightarrow>
   (\<exists>rest. bs = w @ rest) \<and> (r = 0 \<longleftrightarrow> w = bs) \<and> (r = 0 \<or> r = - 1)"
proof (induction os bs arbitrary: r w os' rule: write_all.induct)
  case (4 n os x xs)
  show ?case
  proof (cases "n = 0")
    case True
    then show ?thesis using 4 by auto
  next
    case False
    then obtain r1 w1 os1 where w1: "write_all os (drop n (x # xs)) = Some (r1, w1, os1)"
      "r = r1" "w = take n (x # xs) @ w1" "os' = os1"
      using 4(2) by auto
    from 4(1) [OF False w1(1)] obtain rest where
      rest: "drop n (x # xs) = w1 @ rest" "r1 = 0 \<longleftrightarrow> w1 = drop n (x # xs)" "r1 = 0 \<or> r1 = - 1"
      by blast
    have t: "x # xs = take n (x # xs) @ w1 @ rest"
      using rest(1) by (metis append_take_drop_id)
    moreover have "w1 = drop n (x # xs) \<longleftrightarrow> w = x # xs"
      unfolding w1(3) by (metis append_take_drop_id same_append_eq)
    ultimately show ?thesis using rest w1 by (metis append.assoc)
  qed
qed (auto split: if_splits)

text \<open>A kernel that takes something every time: write_all returns 0.\<close>

lemma write_all_total:
  "(\<And>k. k \<le> length bs \<Longrightarrow> k < length os \<Longrightarrow> \<exists>n. os ! k = Sent n \<and> n > 0) \<Longrightarrow> length bs \<le> length os \<Longrightarrow>
   \<exists>os'. write_all os bs = Some (0, bs, os')"
proof (induction os bs rule: write_all.induct)
  case (3 e os x xs)
  from 3(2) [of 0] show ?case by simp
next
  case (4 n os x xs)
  have n: "n > 0" using 4(2) [of 0] by auto
  have "\<exists>os'. write_all os (drop n (x # xs)) = Some (0, drop n (x # xs), os')"
  proof (rule 4(1))
    show "n \<noteq> 0" using n by simp
    show "length (drop n (x # xs)) \<le> length os" using 4(3) n by simp
    fix k assume "k \<le> length (drop n (x # xs))" "k < length os"
    then show "\<exists>m. os ! k = Sent m \<and> m > 0"
      using 4(2) [of "Suc k"] n by (auto split: if_splits)
  qed
  then show ?case using n by auto
qed auto

lemma send_frame_wire:
  assumes "wf_frame f" and "f_len f \<le> BUS_MAX_PAYLOAD" and "send_frame os f = Some (r, w, os')"
  shows "(\<exists>rest. bus_enc (wire_of f) = w @ rest) \<and> (r = 0 \<longleftrightarrow> w = bus_enc (wire_of f)) \<and> (r = 0 \<or> r = - 1)"
proof -
  let ?h = "be32_bytes BUS_MAGIC @ be32_bytes (f_seq f) @ be16_bytes (f_type f) @
     [f_flags f, 0] @ be32_bytes (of_nat (f_len f))"
  let ?p = "case f_payload f of None \<Rightarrow> [] | Some p \<Rightarrow> p"
  have e: "bus_enc (wire_of f) = ?h @ ?p" and lp: "length ?p = f_len f"
    using assms(1) by (auto simp: bus_enc_def wire_of_def wf_frame_def split: option.splits)
  obtain r1 w1 os1 where 1: "write_all os ?h = Some (r1, w1, os1)"
    using assms(3) by (auto simp: send_frame_def frame_hdr_bytes bind_eq_Some_conv)
  note p1 = write_all_prefix [OF 1]
  show ?thesis
  proof (cases "r1 = 0")
    case False
    then have "r = - 1" "w = w1"
      using assms(3) 1 by (simp_all add: send_frame_def frame_hdr_bytes)
    moreover obtain rest where "?h = w1 @ rest" using p1 by blast
    moreover have "w1 \<noteq> ?h @ ?p" using False p1 calculation by (metis append_Nil2 append_assoc same_append_eq append_is_Nil_conv)
    ultimately show ?thesis unfolding e by auto
  next
    case True
    then have w1: "w1 = ?h" using p1 by simp
    show ?thesis
    proof (cases "f_payload f")
      case None
      then have "r = 0" "w = w1" using assms(3) 1 True by (simp_all add: send_frame_def frame_hdr_bytes)
      then show ?thesis unfolding e using w1 None by simp
    next
      case (Some p)
      then have l: "f_len f > 0" "length p = f_len f" using assms(1) by (simp_all add: wf_frame_def)
      obtain r2 w2 where 2: "write_all os1 p = Some (r2, w2, os')" "r = (if r2 \<noteq> 0 then - 1 else 0)" "w = w1 @ w2"
        using assms(3) 1 True Some l
        by (auto simp: send_frame_def frame_hdr_bytes bind_eq_Some_conv rd_mem_def)
      note p2 = write_all_prefix [OF 2(1)]
      show ?thesis unfolding e using p2 2 w1 Some by auto
    qed
  qed
qed

section \<open>The snapshot\<close>

definition replayed :: "frame \<Rightarrow> frame" where
  "replayed f = f\<lparr> f_flags := f_flags f OR BUS_FLAG_REPLAY \<rparr>"

lemma replayed_simps [simp]: "wf_frame (replayed f) = wf_frame f" "f_len (replayed f) = f_len f"
  by (auto simp: wf_frame_def replayed_def split: option.splits)

text \<open>The cached frames in the order of their types.\<close>

definition sticky_frames :: "bus \<Rightarrow> frame list" where
  "sticky_frames b = List.map_filter (sticky_cache b) [0 ..< MAX_TYPES]"

lemma snapshot_loop_spec:
  "\<forall>i. alloc i \<Longrightarrow> \<forall>s \<in> set ss. ts_has_last s \<longrightarrow> wf_frame (ts_last s) \<Longrightarrow>
   snapshot_loop alloc i ss =
     Some (map replayed (List.map_filter (\<lambda>s. if ts_has_last s then Some (ts_last s) else None) ss))"
  by (induction ss arbitrary: i)
    (simp_all add: List.map_filter_simps frame_dup_wf replayed_def)

lemma sticky_frames_slots:
  "length (g_types b) = MAX_TYPES \<Longrightarrow>
   sticky_frames b = List.map_filter (\<lambda>s. if ts_has_last s then Some (ts_last s) else None) (g_types b)"
proof -
  assume l: "length (g_types b) = MAX_TYPES"
  have m: "List.map_filter g (map h xs) = List.map_filter (g \<circ> h) xs" for g :: "type_slot \<Rightarrow> frame option" and h :: "nat \<Rightarrow> type_slot" and xs
    by (simp add: List.map_filter_def filter_map comp_def)
  have "g_types b = map (\<lambda>i. g_types b ! i) [0 ..< MAX_TYPES]"
    using l by (metis map_nth)
  then have "List.map_filter (\<lambda>s. if ts_has_last s then Some (ts_last s) else None) (g_types b) =
    List.map_filter ((\<lambda>s. if ts_has_last s then Some (ts_last s) else None) \<circ> (\<lambda>i. g_types b ! i)) [0 ..< MAX_TYPES]"
    using m by metis
  also have "\<dots> = sticky_frames b"
    unfolding sticky_frames_def using l
    by (auto simp: List.map_filter_def sticky_cache_def comp_def intro!: map_cong filter_cong)
  finally show ?thesis by simp
qed

lemma snapshot_collect_spec:
  assumes "bus_ok b" and "\<forall>i. alloc i"
  shows "snapshot_collect alloc b =
    Some (sync_frame EVT_SYNC_BEGIN (g_tx_seq b) # map replayed (sticky_frames b) @
            [sync_frame EVT_SYNC_END (g_tx_seq b + 1)],
          b\<lparr> g_tx_seq := g_tx_seq b + 2 \<rparr>)"
proof -
  have l: "length (g_types b) = MAX_TYPES" using assms(1) by (simp add: bus_ok_def)
  have w: "\<forall>s \<in> set (g_types b). ts_has_last s \<longrightarrow> wf_frame (ts_last s)"
  proof (clarsimp simp: in_set_conv_nth)
    fix i assume "i < length (g_types b)" "ts_has_last (g_types b ! i)"
    then have "sticky_cache b i = Some (ts_last (g_types b ! i))" by (simp add: sticky_cache_def)
    then show "wf_frame (ts_last (g_types b ! i))" using assms(1) unfolding bus_ok_def by blast
  qed
  have none: "sticky_frames b = []" if "\<not> list_ex ts_has_last (g_types b)"
    using that unfolding sticky_frames_slots [OF l]
    by (induction "g_types b") (auto simp: List.map_filter_def list_ex_iff filter_empty_conv)
  have "alloc = (\<lambda>_. True)" using assms(2) by auto
  then show ?thesis
    using snapshot_loop_spec [OF assms(2) w, of 0] none
    by (cases "list_ex ts_has_last (g_types b)")
      (simp_all add: snapshot_collect_def sticky_frames_slots [OF l] Let_def)
qed

text \<open>Bytes of whole frames, and what remains of the stream behind them.\<close>

lemma wire_stream:
  "list_all (\<lambda>f. wf_frame f \<and> f_len f \<le> BUS_MAX_PAYLOAD) fs \<Longrightarrow>
   dec_all bus_dec (concat (map (\<lambda>f. bus_enc (wire_of f)) fs)) = (map wire_of fs, [])"
proof -
  assume a: "list_all (\<lambda>f. wf_frame f \<and> f_len f \<le> BUS_MAX_PAYLOAD) fs"
  then have "list_all wire_ok (map wire_of fs)"
    by (induction fs) (auto simp: wire_ok_def wire_of_def wf_frame_def split: option.splits)
  then show ?thesis
    using busw.dec_all_enc [of "map wire_of fs"]
    by (simp add: comp_def bus_dec_def BUS_HEADER_SIZE_def)
qed

section \<open>Properties\<close>

text \<open>Property C16. The send ring refines a bounded first-in first-out queue: over any
  run of enqueue and dequeue calls on well-formed frames, what comes out
  followed by what is still queued is what was queued followed by what was
  accepted, in order, and never more than 256 frames are queued.\<close>

theorem ring_is_fifo:
  assumes "ring_ok q" and "\<forall>f. Some f \<in> set ops \<longrightarrow> wf_frame f"
    and "run_queue ring_enq ring_deq ops q = (ins, outs, q')"
  shows "ring_ok q' \<and> ring_items q @ ins = outs @ ring_items q' \<and> g_ring_count q' \<le> 256"
  using busq.run_queue_fifo [OF assms] by (simp add: SEND_QUEUE_CAPACITY_def)

lemma ring_is_fifo_witness:
  "\<exists>ins outs q'. run_queue ring_enq ring_deq
     [Some (sync_frame 2 1), None, Some (sync_frame 3 2), None, None] zero_ring = (ins, outs, q') \<and>
   outs @ ring_items q' = ins"
proof -
  have 1: "ring_ok zero_ring" by (simp add: ring_ok_def zero_ring_def)
  have 2: "\<forall>f. Some f \<in> set [Some (sync_frame 2 1), None, Some (sync_frame 3 2), None, None] \<longrightarrow> wf_frame f"
    by (auto simp: wf_frame_def sync_frame_def)
  have 3: "ring_items zero_ring = []" by (simp add: ring_items_def zero_ring_def)
  obtain ins outs q' where r: "run_queue ring_enq ring_deq
     [Some (sync_frame 2 1), None, Some (sync_frame 3 2), None, None] zero_ring = (ins, outs, q')"
    by (metis prod_cases3)
  from ring_is_fifo [OF 1 2 r] r 3 show ?thesis by auto
qed

text \<open>bus_send on every branch, when memory for the sticky copy is
  available: a payload over 128 KB or a type outside the table is refused and
  changes nothing; a failed copy of the payload changes nothing; otherwise the
  frame with the next sequence number becomes the cached frame of its type if
  it or its type is sticky, and it is queued with the counter advanced, or, if
  the ring is full or its copy cannot be allocated, the queue and the counter
  stay as they were.  The bus invariant is kept.\<close>

theorem bus_send_effect:
  fixes flags :: u8 and type :: u16
  assumes "bus_ok b" and "len \<le> length payload"
  defines "f \<equiv> sent_frame type flags (g_tx_seq b) payload len"
    and "full \<equiv> g_ring_count (g_queue b) = SEND_QUEUE_CAPACITY"
  shows "\<exists>r b'. bus_send (al1, True, al3) type flags payload len b = Some (r, b') \<and> bus_ok b' \<and>
    (if len > BUS_MAX_PAYLOAD \<or> unat type \<ge> MAX_TYPES then r = HOOK_ERR_PARAM \<and> b' = b
     else if len > 0 \<and> \<not> al1 then r = HOOK_ERR_MEMORY \<and> b' = b
     else sticky_cache b' = (if has flags BUS_FLAG_STICKY \<or> ts_sticky (g_types b ! unat type)
            then (sticky_cache b)(unat type \<mapsto> f) else sticky_cache b) \<and>
       (if full \<or> len > 0 \<and> \<not> al3
        then r \<noteq> HOOK_OK \<and> ring_items (g_queue b') = ring_items (g_queue b) \<and> g_tx_seq b' = g_tx_seq b
        else r = HOOK_OK \<and> ring_items (g_queue b') = ring_items (g_queue b) @ [f] \<and>
          g_tx_seq b' = g_tx_seq b + 1))"
proof (cases "len > BUS_MAX_PAYLOAD \<or> unat type \<ge> MAX_TYPES")
  case True
  then show ?thesis using assms(1) by (auto simp: bus_send_def slot_for_def)
next
  case ok: False
  show ?thesis
  proof (cases "len > 0 \<and> \<not> al1")
    case True
    then show ?thesis using assms(1) ok by (auto simp: bus_send_def slot_for_def)
  next
    case False
    then have "len \<le> BUS_MAX_PAYLOAD" "unat type < MAX_TYPES" "len = 0 \<or> al1" using ok by auto
    from bus_send_main [OF assms(1,2) this, of al3 flags] show ?thesis
      using ok False unfolding f_def full_def by (elim exE) (rule exI, rule exI, auto split: if_splits)
  qed
qed

lemma bus_send_effect_witness:
  "\<exists>r b'. bus_send (True, True, True) EVT_RGD_UPDATE BUS_FLAG_STICKY [104, 105] 2 bus0 = Some (r, b') \<and>
     r = HOOK_OK \<and> g_tx_seq b' = 2"
proof -
  have c: "\<not> (2 > BUS_MAX_PAYLOAD \<or> unat EVT_RGD_UPDATE \<ge> MAX_TYPES)"
    "\<not> (g_ring_count (g_queue bus0) = SEND_QUEUE_CAPACITY \<or> (2::nat) > 0 \<and> \<not> True)"
    "g_tx_seq bus0 = 1"
    by (simp_all add: BUS_MAX_PAYLOAD_def EVT_RGD_UPDATE_def MAX_TYPES_def bus0_def zero_ring_def
        SEND_QUEUE_CAPACITY_def)
  have l: "2 \<le> length [104, 105 :: u8]" by simp
  from bus_send_effect [OF bus_ok_bus0 l, of True True EVT_RGD_UPDATE BUS_FLAG_STICKY] c
  show ?thesis by auto
qed

text \<open>Property C25. The sync snapshot of a bus whose allocations succeed is the
  BEGIN frame, the last frame of every type that has one, in the order of the
  types, marked as replayed and otherwise unchanged (sequence number
  included), and the END frame; BEGIN and END take two new sequence numbers.
  Sent completely, it reads back on the other side as exactly these frames.\<close>

theorem snapshot_replays_cache:
  assumes "bus_ok b" and "\<forall>i. alloc i" and "\<forall>f \<in> set (sticky_frames b). f_len f \<le> BUS_MAX_PAYLOAD"
  shows "\<exists>fs. snapshot_collect alloc b = Some (fs, b\<lparr> g_tx_seq := g_tx_seq b + 2 \<rparr>) \<and>
    fs = sync_frame EVT_SYNC_BEGIN (g_tx_seq b) # map replayed (sticky_frames b) @
         [sync_frame EVT_SYNC_END (g_tx_seq b + 1)] \<and>
    dec_all bus_dec (concat (map (\<lambda>f. bus_enc (wire_of f)) fs)) = (map wire_of fs, [])"
proof -
  have w: "wf_frame f" if "f \<in> set (sticky_frames b)" for f
    using that assms(1) by (auto simp: sticky_frames_def List.map_filter_def bus_ok_def)
  have "list_all (\<lambda>f. wf_frame f \<and> f_len f \<le> BUS_MAX_PAYLOAD)
    (sync_frame EVT_SYNC_BEGIN (g_tx_seq b) # map replayed (sticky_frames b) @ [sync_frame EVT_SYNC_END (g_tx_seq b + 1)])"
    using w assms(3) by (auto simp: list_all_iff) (simp_all add: wf_frame_def sync_frame_def)
  from wire_stream [OF this] snapshot_collect_spec [OF assms(1,2)] show ?thesis by blast
qed

lemma snapshot_replays_cache_witness:
  "\<exists>fs. snapshot_collect (\<lambda>_. True) bus0 = Some (fs, bus0\<lparr> g_tx_seq := 3 \<rparr>) \<and>
     map f_type fs = [EVT_SYNC_BEGIN, EVT_SYNC_END]"
proof -
  have 1: "sticky_frames bus0 = []"
    by (simp add: sticky_frames_def List.map_filter_def sticky_cache_def bus0_def zero_slot_def)
  have 2: "g_tx_seq bus0 = 1" by (simp add: bus0_def)
  show ?thesis
    using snapshot_replays_cache [OF bus_ok_bus0, of "\<lambda>_. True"] by (auto simp: 1 2 sync_frame_def)
qed

text \<open>Property C26. One frame on the socket: whatever the kernel answers, the bytes
  it took are a prefix of the frame's encoding, send_frame returns 0 exactly
  when they are all of it, and -1 otherwise.\<close>

theorem send_frame_prefix:
  assumes "wf_frame f" and "f_len f \<le> BUS_MAX_PAYLOAD" and "send_frame os f = Some (r, w, os')"
  shows "(\<exists>rest. bus_enc (wire_of f) = w @ rest) \<and> (r = 0 \<longleftrightarrow> w = bus_enc (wire_of f)) \<and>
    (r = 0 \<or> r = - 1) \<and> (r = 0 \<longrightarrow> bus_dec w = Some (wire_of f, []))"
proof -
  have "wire_ok (wire_of f)"
    using assms(1,2) by (auto simp: wire_ok_def wire_of_def wf_frame_def split: option.splits)
  then have "bus_dec (bus_enc (wire_of f)) = Some (wire_of f, [])"
    using busw.dec_enc [of "wire_of f" "[]"] by simp
  then show ?thesis using send_frame_wire [OF assms] by auto
qed

lemma send_frame_prefix_witness:
  "\<exists>w os'. send_frame [Sent 10, SendErr True, Sent 6] (sync_frame 2 7) = Some (0, w, os') \<and>
     bus_dec w = Some (wire_of (sync_frame 2 7), [])"
proof -
  have 1: "wf_frame (sync_frame 2 7)" "f_len (sync_frame 2 7) \<le> BUS_MAX_PAYLOAD"
    by (simp_all add: wf_frame_def sync_frame_def)
  obtain w os' where 3: "send_frame [Sent 10, SendErr True, Sent 6] (sync_frame 2 7) = Some (0, w, os')"
    by (simp add: send_frame_def frame_hdr_bytes be32_bytes_def be16_bytes_def sync_frame_def)
  from send_frame_prefix [OF 1 3] 3 show ?thesis by auto
qed

text \<open>The bus with the stored policies forgotten.\<close>

definition strip_policy :: "type_slot \<Rightarrow> type_slot" where
  "strip_policy s = s\<lparr> ts_policy := BUS_POLICY_RELIABLE, ts_configured := True \<rparr>"

definition strip_policies :: "bus \<Rightarrow> bus" where
  "strip_policies b = b\<lparr> g_types := map strip_policy (g_types b) \<rparr>"

lemma send_sticky_strip:
  "bus_send_sticky al f (strip_policy s) = map_option strip_policy (bus_send_sticky al f s)"
  by (cases "frame_dup al f") (auto simp: bus_send_sticky_def strip_policy_def Let_def)

lemma strip_upd_slot:
  "strip_policies (upd_slot i (\<lambda>_. s) b) = upd_slot i (\<lambda>_. strip_policy s) (strip_policies b)"
  by (simp add: strip_policies_def upd_slot_def map_update)

lemma strip_simps [simp]:
  "g_tx_seq (strip_policies b) = g_tx_seq b" "g_queue (strip_policies b) = g_queue b"
  "(strip_policies b)\<lparr> g_tx_seq := n \<rparr> = strip_policies (b\<lparr> g_tx_seq := n \<rparr>)"
  "(strip_policies b)\<lparr> g_queue := q \<rparr> = strip_policies (b\<lparr> g_queue := q \<rparr>)"
  "rd8 (g_types (strip_policies b)) i = map_option strip_policy (rd8 (g_types b) i)"
  by (simp_all add: strip_policies_def rd8_def)

lemma bus_send_strip:
  "bus_send al type flags payload len (strip_policies b) =
   map_option (map_prod id strip_policies) (bus_send al type flags payload len b)"
proof (cases "slot_for type")
  case None
  then show ?thesis by (simp add: bus_send_def split_def Let_def)
next
  case (Some i)
  show ?thesis
    unfolding bus_send_def Some Let_def
    by (auto simp: split_def send_sticky_strip strip_upd_slot [symmetric] option.map_comp
        map_option_case bind_eq_None_conv bind_eq_Some_conv split: option.splits Option.bind_splits)
qed

text \<open>The send policy of a type has no effect: bus_send returns the same
  result, queues the same frames and caches the same frames whatever policy
  bus_set_policy stored before (the ring always drops the newest frame).\<close>

theorem policy_has_no_effect:
  "map_option (map_prod id strip_policies)
     (bus_send al type flags payload len (bus_set_policy t p b)) =
   map_option (map_prod id strip_policies)
     (bus_send al type flags payload len b)"
proof -
  have m: "map strip_policy (xs[i := (xs ! i)\<lparr> ts_configured := True, ts_policy := p \<rparr>]) = map strip_policy xs"
    for xs i
  proof (rule nth_equalityI)
    fix k assume "k < length (map strip_policy (xs[i := (xs ! i)\<lparr> ts_configured := True, ts_policy := p \<rparr>]))"
    then show "map strip_policy (xs[i := (xs ! i)\<lparr> ts_configured := True, ts_policy := p \<rparr>]) ! k =
        map strip_policy xs ! k"
      by (cases "k = i") (simp_all add: strip_policy_def)
  qed simp
  have "strip_policies (bus_set_policy t p b) = strip_policies b"
    by (auto simp: bus_set_policy_def strip_policies_def upd_slot_def m split: option.splits)
  then show ?thesis unfolding bus_send_strip [symmetric] by simp
qed

lemma snapshot_loop_fault:
  "s \<in> set ss \<Longrightarrow> ts_has_last s \<Longrightarrow> f_len (ts_last s) > 0 \<Longrightarrow> f_payload (ts_last s) = None \<Longrightarrow>
   snapshot_loop (\<lambda>_. True) i ss = None"
proof (induction ss arbitrary: i)
  case (Cons x ss)
  show ?case
  proof (cases "s = x")
    case True
    then show ?thesis using Cons.prems by (simp add: frame_dup_def)
  next
    case False
    then have "snapshot_loop (\<lambda>_. True) j ss = None" for j using Cons by simp
    then show ?thesis by (auto simp: bind_eq_None_conv)
  qed
qed simp

text \<open>Property C27. A cached frame whose copy could not be allocated poisons the next
  snapshot: when a sticky type already has a cached frame and the copy of the
  next payload fails, the slot keeps has_last with a length and no payload,
  and send_sync_snapshot then copies from a NULL pointer (a fault).\<close>

theorem sticky_copy_failure_poisons_snapshot:
  assumes "bus_ok b" and "sticky_cache b (unat type) \<noteq> None"
    and "has flags BUS_FLAG_STICKY" and "0 < len" and "len \<le> length payload" and "len \<le> BUS_MAX_PAYLOAD"
    and "bus_send (True, False, al3) type flags payload len b = Some (r, b')"
  shows "snapshot_collect (\<lambda>_. True) b' = None"
proof -
  have i: "unat type < MAX_TYPES" "ts_has_last (g_types b ! unat type)" and l: "length (g_types b) = MAX_TYPES"
    using assms(1,2) by (auto simp: sticky_cache_def bus_ok_def split: if_splits)
  then have sl: "slot_for type = Some (unat type)" by (simp add: slot_for_def)
  let ?s = "g_types b' ! unat type"
  have "g_types b' = (g_types b)[unat type := ?s] \<and> ts_has_last ?s \<and> f_len (ts_last ?s) > 0 \<and>
      f_payload (ts_last ?s) = None"
    using assms(3-7) i l
    by (auto simp: bus_send_def sl bind_eq_Some_conv rd_mem_def rd8_def bus_send_sticky_def frame_dup_def
        upd_slot_def Let_def split: if_splits)
  moreover from this have "?s \<in> set (g_types b')"
    using i l by (metis length_list_update nth_mem)
  ultimately have "snapshot_loop (\<lambda>_. True) 0 (g_types b') = None" "list_ex ts_has_last (g_types b')"
    by (auto intro: snapshot_loop_fault simp: list_ex_iff)
  then show ?thesis by (simp add: snapshot_collect_def Let_def)
qed

lemma sticky_copy_failure_poisons_snapshot_witness:
  "\<exists>b r b'. bus_ok b \<and> bus_send (True, False, True) 32 BUS_FLAG_STICKY [8] 1 b = Some (r, b') \<and>
     r = HOOK_OK \<and> snapshot_collect (\<lambda>_. True) b' = None"
proof -
  let ?f = "sent_frame 32 1 1 [7] 1"
  let ?b = "upd_slot 32 (\<lambda>_. zero_slot\<lparr> ts_has_last := True, ts_last := ?f \<rparr>) bus0"
  have sc: "sticky_cache ?b = (sticky_cache bus0)(32 \<mapsto> ?f)"
    using sticky_cache_upd [of bus0 32] by (simp add: bus0_def MAX_TYPES_def)
  have wf: "wf_frame ?f" by (rule wf_sent_frame) simp
  have ok: "bus_ok ?b"
    using bus_ok_bus0 wf by (auto simp: bus_ok_def sc)
  obtain r b' where s: "bus_send (True, False, True) 32 BUS_FLAG_STICKY [8] 1 ?b = Some (r, b')"
    and r: "r = HOOK_OK"
    by (simp add: bus_send_def slot_for_def MAX_TYPES_def BUS_MAX_PAYLOAD_def rd_mem_def rd8_def
        upd_slot_def bus0_def bus_send_sticky_def BUS_FLAG_STICKY_def has_def frame_dup_def Let_def
        q_enqueue_nolock_def q_is_full_def zero_ring_def SEND_QUEUE_CAPACITY_def wr8_def)
  have "snapshot_collect (\<lambda>_. True) b' = None"
    by (rule sticky_copy_failure_poisons_snapshot [OF ok _ _ _ _ _ s])
      (simp_all add: sc BUS_FLAG_STICKY_def has_def BUS_MAX_PAYLOAD_def)
  then show ?thesis using ok s r by blast
qed

text \<open>The snapshot goes on after a frame that was sent only in part:
  when the kernel takes one byte of a cached frame's payload and then fails
  (the 500 ms send timeout), the next frame's header follows on the same
  connection, and the peer reads it as the rest of the payload.\<close>

theorem snapshot_desynchronises:
  "\<exists>w sq. send_frames [Sent 16, Sent 1, SendErr False, Sent 16]
       [sent_frame EVT_RGD_UPDATE BUS_FLAG_STICKY 7 [97, 98, 99, 100] 4, sync_frame EVT_SYNC_END 9] = Some (w, []) \<and>
     map_option (snd \<circ> fst) (bus_dec w) = Some (EVT_RGD_UPDATE, BUS_FLAG_STICKY, [97, 0x43, 0x50, 0x48])"
proof -
  let ?w = "be32_bytes BUS_MAGIC @ be32_bytes 7 @ be16_bytes EVT_RGD_UPDATE @ [BUS_FLAG_STICKY, 0] @ be32_bytes 4 @
    [97] @ be32_bytes BUS_MAGIC @ be32_bytes 9 @ be16_bytes EVT_SYNC_END @ [0, 0] @ be32_bytes 0"
  have m: "be32_bytes BUS_MAGIC = [0x43, 0x50, 0x48, 0x42]" by code_simp
  have w: "send_frames [Sent 16, Sent 1, SendErr False, Sent 16]
       [sent_frame EVT_RGD_UPDATE BUS_FLAG_STICKY 7 [97, 98, 99, 100] 4, sync_frame EVT_SYNC_END 9] = Some (?w, [])"
    by (simp add: send_frame_def frame_hdr_bytes be32_bytes_def be16_bytes_def sync_frame_def sent_frame_def
        rd_mem_def)
  have e: "?w = bus_enc (7, EVT_RGD_UPDATE, BUS_FLAG_STICKY, [97, 0x43, 0x50, 0x48]) @
      [0x42] @ be32_bytes 9 @ be16_bytes EVT_SYNC_END @ [0, 0] @ be32_bytes 0"
    unfolding m bus_enc_def by simp
  have "bus_dec ?w = Some ((7, EVT_RGD_UPDATE, BUS_FLAG_STICKY, [97, 0x43, 0x50, 0x48]),
      [0x42] @ be32_bytes 9 @ be16_bytes EVT_SYNC_END @ [0, 0] @ be32_bytes 0)"
    unfolding e by (rule busw.dec_enc) (simp add: wire_ok_def BUS_MAX_PAYLOAD_def)
  then show ?thesis using w by (intro exI [of _ ?w]) simp
qed

end
