(* ===== verification/Bus_Threads.thy ===== *)
theory Bus_Threads
  imports Bus_Core
begin

text \<open>
  The threads of c_hook/framework/bus.c: the connector (connector_main), the
  writer (writer_main), the callers of bus_send and bus_shutdown, interleaved.
  A section under g_lock is one step; send_frame holds g_sock_write, so the
  bytes of one frame are one step too.  What connect(), the probe of
  socket_peer_closed and send() answer is chosen by the step.

  A descriptor number can be handed out again once it is closed.  With the
  parameter reuse True, connect() may return any number that is not open, as
  POSIX allows; with reuse False it does not return the one the writer is just
  sending on.
\<close>

text \<open>The program counter of the connector; a descriptor it works on, the
  backoff of the connect loop.\<close>

datatype connector_pc =
    CConnect nat
  | CHello int
  | CSendHello int frame
  | CSnapshot int
  | CSendSnap int "frame list"
  | CPublish int
  | CWatch int
  | CDone

datatype writer_pc = WWait | WSend int frame | WDone

record sys =
  s_bus :: bus
  s_conn :: connector_pc
  s_writer :: writer_pc
  s_open :: "int \<Rightarrow> bool"
  s_log :: "int \<Rightarrow> (frame \<times> bytes) list"
  s_held :: "int \<Rightarrow> frame option"

text \<open>Two fields only record what happens and decide nothing: s_log is what was
  handed to send_frame for the connection now behind a descriptor, each frame
  with the bytes the kernel took of it; s_held is the frame the writer was still
  sending on that number, from the connection before, when it was opened.\<close>

fun held_frame :: "int \<Rightarrow> writer_pc \<Rightarrow> frame option" where
  "held_frame d (WSend e f) = (if e = d then Some f else None)"
| "held_frame d _ = None"

definition hello_text :: string where
  "hello_text = ''ver:n:1'' @ NL @ ''proto:s:carplay_bus'' @ NL"

definition hello_frame :: "u32 \<Rightarrow> frame" where
  "hello_frame seq = \<lparr> f_type = EVT_HELLO, f_flags = 0, f_seq = seq, f_len = length hello_text,
     f_payload = Some (str_bytes hello_text) \<rparr>"

definition close_fd :: "int \<Rightarrow> sys \<Rightarrow> sys" where
  "close_fd d s = s\<lparr> s_open := (s_open s)(d := False) \<rparr>"

definition log_frame :: "int \<Rightarrow> frame \<Rightarrow> bytes \<Rightarrow> sys \<Rightarrow> sys" where
  "log_frame d f w s = s\<lparr> s_log := (s_log s)(d := s_log s d @ [(f, w)]) \<rparr>"

text \<open>A send on a descriptor: on a closed one it fails and no byte goes out.\<close>

definition sends :: "int \<Rightarrow> frame \<Rightarrow> sys \<Rightarrow> int \<Rightarrow> sys \<Rightarrow> bool" where
  "sends d f s rc s' \<longleftrightarrow>
     (if s_open s d
      then \<exists>os w os'. send_frame os f = Some (rc, w, os') \<and> s' = log_frame d f w s
      else rc = - 1 \<and> s' = s)"

text \<open>connector_main.\<close>

definition next_backoff :: "nat \<Rightarrow> nat" where
  "next_backoff ms = (if ms < 2000 then ms * 2 else ms)"

definition conn_connected :: "int \<Rightarrow> sys \<Rightarrow> sys" where
  "conn_connected d s = s\<lparr> s_conn := CHello d, s_open := (s_open s)(d := True), s_log := (s_log s)(d := []),
     s_held := (s_held s)(d := held_frame d (s_writer s)) \<rparr>"

definition conn_hello :: "int \<Rightarrow> sys \<Rightarrow> sys" where
  "conn_hello d s = s\<lparr> s_conn := CSendHello d (hello_frame (g_tx_seq (s_bus s))),
     s_bus := (s_bus s)\<lparr> g_tx_seq := g_tx_seq (s_bus s) + 1 \<rparr> \<rparr>"

definition conn_hello_sent :: "int \<Rightarrow> int \<Rightarrow> sys \<Rightarrow> sys" where
  "conn_hello_sent d rc s =
     (if rc \<noteq> 0 then close_fd d (s\<lparr> s_conn := CConnect 100 \<rparr>) else s\<lparr> s_conn := CSnapshot d \<rparr>)"

definition conn_publish :: "int \<Rightarrow> sys \<Rightarrow> sys" where
  "conn_publish d s =
     (let s = (if g_client_fd (s_bus s) \<ge> 0 then close_fd (g_client_fd (s_bus s)) s else s)
      in s\<lparr> s_conn := CWatch d, s_bus := (s_bus s)\<lparr> g_client_fd := d \<rparr> \<rparr>)"

text \<open>close_current_fd_if_matches, also the writer's own close after an error.\<close>

definition close_current_fd_if_matches :: "int \<Rightarrow> sys \<Rightarrow> sys" where
  "close_current_fd_if_matches d s =
     (if g_client_fd (s_bus s) = d
      then (close_fd d s)\<lparr> s_bus := (s_bus s)\<lparr> g_client_fd := - 1 \<rparr> \<rparr> else s)"

text \<open>writer_main.\<close>

definition writer_take :: "frame \<Rightarrow> ring \<Rightarrow> sys \<Rightarrow> sys" where
  "writer_take f q s = s\<lparr> s_writer := WSend (g_client_fd (s_bus s)) f, s_bus := (s_bus s)\<lparr> g_queue := q \<rparr> \<rparr>"

definition writer_sent :: "int \<Rightarrow> int \<Rightarrow> sys \<Rightarrow> sys" where
  "writer_sent d rc s =
     (if d \<ge> 0 \<and> rc \<noteq> 0 then close_current_fd_if_matches d s else s)\<lparr> s_writer := WWait \<rparr>"

inductive bstep :: "bool \<Rightarrow> sys \<Rightarrow> sys \<Rightarrow> bool" for reuse where
  connect_failed: "s_conn s = CConnect ms \<Longrightarrow> \<not> g_shutdown (s_bus s) \<Longrightarrow>
    bstep reuse s (s\<lparr> s_conn := CConnect (next_backoff ms) \<rparr>)"
| connect_ok: "s_conn s = CConnect ms \<Longrightarrow> \<not> g_shutdown (s_bus s) \<Longrightarrow> d \<ge> 0 \<Longrightarrow> \<not> s_open s d \<Longrightarrow>
    reuse \<or> (\<forall>f. s_writer s \<noteq> WSend d f) \<Longrightarrow>
    bstep reuse s (conn_connected d s)"
| connector_exit: "s_conn s \<in> {CConnect ms, CWatch d} \<Longrightarrow> g_shutdown (s_bus s) \<Longrightarrow>
    bstep reuse s (s\<lparr> s_conn := CDone \<rparr>)"
| connector_late_exit: "s_conn s = CHello d \<Longrightarrow> g_shutdown (s_bus s) \<Longrightarrow>
    bstep reuse s (close_fd d (s\<lparr> s_conn := CDone \<rparr>))"
| hello_seq: "s_conn s = CHello d \<Longrightarrow> bstep reuse s (conn_hello d s)"
| hello_send: "s_conn s = CSendHello d f \<Longrightarrow> sends d f s rc s' \<Longrightarrow> bstep reuse s (conn_hello_sent d rc s')"
| snapshot: "s_conn s = CSnapshot d \<Longrightarrow> snapshot_collect alloc (s_bus s) = Some (fs, b') \<Longrightarrow>
    bstep reuse s (s\<lparr> s_conn := CSendSnap d fs, s_bus := b' \<rparr>)"
| snapshot_send: "s_conn s = CSendSnap d (f # fs) \<Longrightarrow> sends d f s rc s' \<Longrightarrow>
    bstep reuse s (s'\<lparr> s_conn := CSendSnap d fs \<rparr>)"
| snapshot_done: "s_conn s = CSendSnap d [] \<Longrightarrow> bstep reuse s (s\<lparr> s_conn := CPublish d \<rparr>)"
| publish: "s_conn s = CPublish d \<Longrightarrow> bstep reuse s (conn_publish d s)"
| watch_gone: "s_conn s = CWatch d \<Longrightarrow> g_client_fd (s_bus s) \<noteq> d \<Longrightarrow>
    bstep reuse s (s\<lparr> s_conn := CConnect 100 \<rparr>)"
| watch_closed: "s_conn s = CWatch d \<Longrightarrow>
    bstep reuse s ((close_current_fd_if_matches d s)\<lparr> s_conn := CConnect 100 \<rparr>)"
| writer_dequeue: "s_writer s = WWait \<Longrightarrow> \<not> g_shutdown (s_bus s) \<Longrightarrow> g_client_fd (s_bus s) \<ge> 0 \<Longrightarrow>
    q_dequeue_nolock (g_queue (s_bus s)) = Some (Some f, q) \<Longrightarrow>
    bstep reuse s (writer_take f q s)"
| writer_send: "s_writer s = WSend d f \<Longrightarrow> sends d f s rc s' \<Longrightarrow> bstep reuse s (writer_sent d rc s')"
| writer_exit: "s_writer s = WWait \<Longrightarrow> g_shutdown (s_bus s) \<Longrightarrow> bstep reuse s (s\<lparr> s_writer := WDone \<rparr>)"
| producer: "len \<le> length payload \<Longrightarrow> bus_send al type flags payload len (s_bus s) = Some (r, b') \<Longrightarrow>
    bstep reuse s (s\<lparr> s_bus := b' \<rparr>)"
| shutdown: "bus_shutdown (s_bus s) = Some b' \<Longrightarrow>
    bstep reuse s ((if g_client_fd (s_bus s) \<ge> 0 then close_fd (g_client_fd (s_bus s)) s else s)\<lparr> s_bus := b' \<rparr>)"

definition sys0 :: sys where
  "sys0 = \<lparr> s_bus = bus0, s_conn = CConnect 100, s_writer = WWait, s_open = (\<lambda>_. False), s_log = (\<lambda>_. []),
     s_held = (\<lambda>_. None) \<rparr>"

inductive reachable :: "bool \<Rightarrow> sys \<Rightarrow> bool" for reuse where
  init: "reachable reuse sys0"
| step: "reachable reuse s \<Longrightarrow> bstep reuse s s' \<Longrightarrow> reachable reuse s'"

section \<open>What a connection carries\<close>

text \<open>The shape of the log of a connection at each place of the connector.\<close>

definition snap_frames :: "frame list \<Rightarrow> bool" where
  "snap_frames fs \<longleftrightarrow> (\<exists>q1 q2 ss. fs = sync_frame EVT_SYNC_BEGIN q1 # ss @ [sync_frame EVT_SYNC_END q2] \<and>
     (\<forall>f \<in> set ss. has (f_flags f) BUS_FLAG_REPLAY))"

definition greeted :: "frame list \<Rightarrow> bool" where
  "greeted fs \<longleftrightarrow> (\<exists>q ss live. fs = hello_frame q # ss @ live \<and> snap_frames ss)"

definition conn_log :: "sys \<Rightarrow> int \<Rightarrow> frame list" where
  "conn_log s d = map fst (s_log s d)"

text \<open>The descriptor the connector is greeting, if any.\<close>

fun greeting_fd :: "connector_pc \<Rightarrow> int option" where
  "greeting_fd (CHello d) = Some d"
| "greeting_fd (CSendHello d f) = Some d"
| "greeting_fd (CSnapshot d) = Some d"
| "greeting_fd (CSendSnap d fs) = Some d"
| "greeting_fd (CPublish d) = Some d"
| "greeting_fd _ = None"

text \<open>The log, given the frame that was held: the frames fs, or these with that
  one frame somewhere among them.\<close>

definition mixed :: "frame option \<Rightarrow> frame list \<Rightarrow> frame list \<Rightarrow> bool" where
  "mixed held log fs \<longleftrightarrow> log = fs \<or> (\<exists>f a b. held = Some f \<and> log = a @ f # b \<and> fs = a @ b)"

definition greeted_but :: "frame option \<Rightarrow> frame list \<Rightarrow> bool" where
  "greeted_but held log \<longleftrightarrow> (\<exists>fs. mixed held log fs \<and> greeted fs)"

text \<open>While the writer is still to send the held frame, it is not in the log.\<close>

definition carried :: "sys \<Rightarrow> int \<Rightarrow> frame list \<Rightarrow> bool" where
  "carried s d fs \<longleftrightarrow>
     (if \<exists>f. s_writer s = WSend d f then conn_log s d = fs \<and> (\<exists>f. s_writer s = WSend d f \<and> s_held s d = Some f)
      else mixed (s_held s d) (conn_log s d) fs)"

fun pc_inv :: "frame list \<Rightarrow> connector_pc \<Rightarrow> bool" where
  "pc_inv fs (CHello d) \<longleftrightarrow> fs = []"
| "pc_inv fs (CSendHello d f) \<longleftrightarrow> fs = [] \<and> (\<exists>q. f = hello_frame q)"
| "pc_inv fs (CSnapshot d) \<longleftrightarrow> (\<exists>q. fs = [hello_frame q])"
| "pc_inv fs (CSendSnap d todo) \<longleftrightarrow> (\<exists>q done. fs = hello_frame q # done \<and> snap_frames (done @ todo))"
| "pc_inv fs (CPublish d) \<longleftrightarrow> (\<exists>q ss. fs = hello_frame q # ss \<and> snap_frames ss)"
| "pc_inv fs _ \<longleftrightarrow> True"

fun unpublished :: "connector_pc \<Rightarrow> bool" where
  "unpublished (CConnect ms) = True"
| "unpublished (CWatch d) = False"
| "unpublished CDone = False"
| "unpublished _ = True"

definition sys_inv :: "sys \<Rightarrow> bool" where
  "sys_inv s \<longleftrightarrow>
     (\<forall>d. greeting_fd (s_conn s) = Some d \<longrightarrow> d \<ge> 0 \<and> s_open s d \<and> (\<exists>fs. carried s d fs \<and> pc_inv fs (s_conn s))) \<and>
     (unpublished (s_conn s) \<longrightarrow> g_client_fd (s_bus s) < 0) \<and>
     (\<forall>d. s_conn s = CWatch d \<longrightarrow> g_client_fd (s_bus s) = d \<or> g_client_fd (s_bus s) < 0) \<and>
     (g_client_fd (s_bus s) \<ge> 0 \<longrightarrow> s_open s (g_client_fd (s_bus s))) \<and>
     (\<forall>d. s_open s d \<and> greeting_fd (s_conn s) \<noteq> Some d \<longrightarrow> greeted_but (s_held s d) (conn_log s d))"

lemma snapshot_collect_shape:
  "snapshot_collect alloc b = Some (fs, b') \<Longrightarrow> snap_frames fs \<and> g_client_fd b' = g_client_fd b"
proof -
  have l: "snapshot_loop al i ss = Some fs \<Longrightarrow> \<forall>f \<in> set fs. has (f_flags f) BUS_FLAG_REPLAY" for al i ss fs
  proof (induction ss arbitrary: i fs)
    case (Cons s ss)
    then show ?case
      by (auto simp: bind_eq_Some_conv has_or_left has_def BUS_FLAG_REPLAY_def split: if_splits)
  qed simp
  assume "snapshot_collect alloc b = Some (fs, b')"
  then show ?thesis
    using l by (auto simp: snapshot_collect_def Let_def bind_eq_Some_conv snap_frames_def split: if_splits)
qed

lemma bus_send_client_fd:
  "bus_send al type flags payload len b = Some (r, b') \<Longrightarrow> g_client_fd b' = g_client_fd b"
  by (auto simp: bus_send_def Let_def split_def bind_eq_Some_conv upd_slot_def split: option.splits if_splits)

lemmas thread_defs = conn_connected_def conn_hello_def conn_hello_sent_def conn_publish_def
  close_current_fd_if_matches_def writer_take_def writer_sent_def close_fd_def log_frame_def

lemma conn_log_log_frame [simp]:
  "conn_log (log_frame d f w s) e = (if e = d then conn_log s d @ [f] else conn_log s e)"
  by (simp add: conn_log_def log_frame_def)

lemma conn_log_cong: "s_log s = s_log s' \<Longrightarrow> conn_log s = conn_log s'"
  by (simp add: conn_log_def fun_eq_iff)

lemma greeted_live: "greeted fs \<Longrightarrow> greeted (fs @ [f])"
  unfolding greeted_def
  by (elim exE, rule exI, rule exI, rule exI [of _ "live @ [f]" for live]) auto

lemma greeted_full: "snap_frames ss \<Longrightarrow> greeted (hello_frame q # ss)"
  by (auto simp: greeted_def)

lemma sends_cases:
  assumes "sends d f s rc s'" and "s_open s d"
  obtains w where "s' = log_frame d f w s"
  using assms by (auto simp: sends_def)

lemma mixed_snoc: "mixed held log fs \<Longrightarrow> mixed held (log @ [f]) (fs @ [f])"
  unfolding mixed_def by (metis append.assoc append_Cons)

lemma mixed_same: "mixed held fs fs"
  by (simp add: mixed_def)

lemma greeted_but_live: "greeted_but held log \<Longrightarrow> greeted_but held (log @ [f])"
  unfolding greeted_but_def using mixed_snoc greeted_live by blast

lemma carried_snoc: "carried s d fs \<Longrightarrow> carried (log_frame d f w s) d (fs @ [f])"
  unfolding carried_def using mixed_snoc [of "s_held s d" "conn_log s d" fs f]
  by (auto simp: log_frame_def conn_log_def)

lemma carried_mixed: "carried s d fs \<Longrightarrow> mixed (s_held s d) (conn_log s d) fs"
  unfolding carried_def using mixed_same by (auto split: if_splits)

lemma carried_cong:
  "s_writer s' = s_writer s \<Longrightarrow> s_log s' = s_log s \<Longrightarrow> s_held s' = s_held s \<Longrightarrow> carried s' d fs = carried s d fs"
  by (simp add: carried_def conn_log_def)

text \<open>The writer sends what it held: the frame is now in the log.\<close>

lemma carried_sent:
  assumes "carried s d fs" and "s_writer s = WSend e f"
  shows "carried ((log_frame e f w s)\<lparr> s_writer := WWait \<rparr>) d fs"
proof (cases "e = d")
  case True
  then have "conn_log s d = fs" "s_held s d = Some f" using assms by (auto simp: carried_def split: if_splits)
  then have "mixed (s_held s d) (conn_log s d @ [f]) fs" unfolding mixed_def by (intro disjI2 exI [of _ f] exI [of _ fs] exI [of _ "[]"]) simp
  then show ?thesis using True by (simp add: carried_def log_frame_def conn_log_def)
next
  case False
  then have "mixed (s_held s d) (conn_log s d) fs" using assms by (simp add: carried_def)
  then show ?thesis using False by (simp add: carried_def log_frame_def conn_log_def)
qed

text \<open>What the invariant needs of a step that leaves the connector's place
  alone.\<close>

lemma sys_inv_other:
  assumes "sys_inv s" and "s_conn s' = s_conn s"
    and "\<And>d fs. greeting_fd (s_conn s) = Some d \<Longrightarrow> carried s d fs \<Longrightarrow> carried s' d fs \<and> s_open s' d"
    and "g_client_fd (s_bus s') = g_client_fd (s_bus s) \<or> g_client_fd (s_bus s') < 0"
    and "g_client_fd (s_bus s') \<ge> 0 \<Longrightarrow> s_open s' (g_client_fd (s_bus s'))"
    and "\<And>d. s_open s' d \<Longrightarrow> greeting_fd (s_conn s) \<noteq> Some d \<Longrightarrow>
      s_open s d \<and> s_held s' d = s_held s d \<and> (conn_log s' d = conn_log s d \<or> (\<exists>f. conn_log s' d = conn_log s d @ [f]))"
  shows "sys_inv s'"
proof -
  note inv = assms(1) [unfolded sys_inv_def]
  have 5: "greeted_but (s_held s' d) (conn_log s' d)" if "s_open s' d" "greeting_fd (s_conn s) \<noteq> Some d" for d
    using assms(6) [OF that] inv that(2) greeted_but_live by metis
  have 1: "d \<ge> 0 \<and> s_open s' d \<and> (\<exists>fs. carried s' d fs \<and> pc_inv fs (s_conn s))"
    if g: "greeting_fd (s_conn s) = Some d" for d
  proof -
    obtain fs where "d \<ge> 0" "carried s d fs" "pc_inv fs (s_conn s)" using inv g by blast
    then show ?thesis using assms(3) [OF g] by blast
  qed
  have 2: "unpublished (s_conn s) \<longrightarrow> g_client_fd (s_bus s') < 0" using inv assms(4) by auto
  have 3: "\<forall>d. s_conn s = CWatch d \<longrightarrow> g_client_fd (s_bus s') = d \<or> g_client_fd (s_bus s') < 0" using inv assms(4) by auto
  show ?thesis unfolding sys_inv_def assms(2) using 1 2 3 5 assms(5) by blast
qed

lemma greeting_unpublished: "greeting_fd pc = Some d \<Longrightarrow> unpublished pc"
  by (cases pc) simp_all

lemma sys_inv_close: "sys_inv s \<Longrightarrow> sys_inv (close_current_fd_if_matches d s)"
proof (cases "g_client_fd (s_bus s) = d")
  case True
  assume inv: "sys_inv s"
  show ?thesis
  proof (rule sys_inv_other [OF inv])
    fix e fs assume e: "greeting_fd (s_conn s) = Some e" "carried s e fs"
    have "g_client_fd (s_bus s) < 0" "e \<ge> 0" "s_open s e"
      using inv e(1) greeting_unpublished [OF e(1)] by (auto simp: sys_inv_def)
    then have "e \<noteq> d" using True by simp
    then show "carried (close_current_fd_if_matches d s) e fs \<and> s_open (close_current_fd_if_matches d s) e"
      using \<open>s_open s e\<close> e(2) carried_cong [of "close_current_fd_if_matches d s" s e fs]
      by (simp add: close_current_fd_if_matches_def close_fd_def)
  qed (use True in \<open>auto simp: close_current_fd_if_matches_def close_fd_def conn_log_def split: if_splits\<close>)
qed (simp add: close_current_fd_if_matches_def)

lemma sys_inv_writer_sent:
  assumes "sys_inv s" and "s_writer s = WSend d f" and "sends d f s rc s1"
  shows "sys_inv (writer_sent d rc s1)"
proof -
  have inv: "sys_inv (s1\<lparr> s_writer := WWait \<rparr>)"
  proof (cases "s_open s d")
    case True
    then obtain w where s1: "s1 = log_frame d f w s" using sends_cases assms(3) by blast
    show ?thesis
    proof (rule sys_inv_other [OF assms(1)])
      fix e fs assume "greeting_fd (s_conn s) = Some e" "carried s e fs"
      then show "carried (s1\<lparr> s_writer := WWait \<rparr>) e fs \<and> s_open (s1\<lparr> s_writer := WWait \<rparr>) e"
        using carried_sent [OF _ assms(2)] assms(1) by (simp add: s1 sys_inv_def log_frame_def)
    qed (use assms(1) in \<open>auto simp: s1 sys_inv_def log_frame_def conn_log_def\<close>)
  next
    case False
    then have s1: "s1 = s" using assms(3) by (simp add: sends_def)
    show ?thesis
    proof (rule sys_inv_other [OF assms(1)])
      fix e fs assume e: "greeting_fd (s_conn s) = Some e" "carried s e fs"
      then have "s_open s e" using assms(1) by (simp add: sys_inv_def)
      then have "e \<noteq> d" using False by blast
      then show "carried (s1\<lparr> s_writer := WWait \<rparr>) e fs \<and> s_open (s1\<lparr> s_writer := WWait \<rparr>) e"
        using e(2) \<open>s_open s e\<close> assms(2) by (simp add: s1 carried_def conn_log_def)
    qed (use assms(1) in \<open>auto simp: s1 sys_inv_def conn_log_def\<close>)
  qed
  have "writer_sent d rc s1 =
      (if d \<ge> 0 \<and> rc \<noteq> 0 then close_current_fd_if_matches d (s1\<lparr> s_writer := WWait \<rparr>) else s1\<lparr> s_writer := WWait \<rparr>)"
    by (simp add: writer_sent_def close_current_fd_if_matches_def close_fd_def)
  then show ?thesis using inv sys_inv_close by simp
qed

text \<open>A step of the connector that sends a frame of the greeting.\<close>

lemma greeting_sends:
  assumes "sys_inv s" and "greeting_fd (s_conn s) = Some d" and "sends d f s rc s1"
  obtains w fs where "s1 = log_frame d f w s" and "carried s d fs" and "pc_inv fs (s_conn s)" and "carried s1 d (fs @ [f])"
proof -
  obtain fs where fs: "s_open s d" "carried s d fs" "pc_inv fs (s_conn s)" using assms(1,2) by (auto simp: sys_inv_def)
  obtain w where w: "s1 = log_frame d f w s" using sends_cases [OF assms(3) fs(1)] by blast
  show ?thesis using that [OF w fs(2,3)] carried_snoc [OF fs(2), of f w] w by simp
qed

text \<open>What it needs of a step that moves the connector on within a greeting.\<close>

lemma sys_inv_greeting:
  assumes "sys_inv s" and "greeting_fd (s_conn s) = Some d" and "greeting_fd (s_conn s') = Some d"
    and "carried s' d fs" and "pc_inv fs (s_conn s')"
    and "s_open s' = s_open s" and "s_held s' = s_held s" and "g_client_fd (s_bus s') = g_client_fd (s_bus s)"
    and "\<And>e. e \<noteq> d \<Longrightarrow> conn_log s' e = conn_log s e"
  shows "sys_inv s'"
proof -
  note inv = assms(1) [unfolded sys_inv_def]
  have "unpublished (s_conn s')" using greeting_unpublished [OF assms(3)] .
  moreover have "g_client_fd (s_bus s') < 0" using inv greeting_unpublished [OF assms(2)] assms(8) by simp
  moreover have "s_conn s' \<noteq> CWatch e" for e using assms(3) by auto
  ultimately show ?thesis
    unfolding sys_inv_def using inv assms by (metis not_le option.inject)
qed

lemma sys_inv_step:
  assumes "bstep reuse s s'" and "sys_inv s"
  shows "sys_inv s'"
  using assms(1)
proof (cases rule: bstep.cases)
  case (connect_failed ms)
  then show ?thesis using assms(2) by (simp add: sys_inv_def conn_log_def)
next
  case (connect_ok ms d)
  have c: "carried s' d []"
    by (cases "s_writer s") (auto simp: connect_ok(1) carried_def conn_connected_def conn_log_def mixed_def)
  then show ?thesis
    using assms(2) connect_ok c by (auto simp: sys_inv_def conn_connected_def conn_log_def)
next
  case (connector_exit ms d)
  then show ?thesis using assms(2) by (auto simp: sys_inv_def conn_log_def)
next
  case (connector_late_exit d)
  then show ?thesis using assms(2) by (auto simp: sys_inv_def close_fd_def conn_log_def)
next
  case (hello_seq d)
  then obtain fs where fs: "carried s d fs" "pc_inv fs (CHello d)" using assms(2) by (auto simp: sys_inv_def)
  have "carried s' d fs" using fs(1) carried_cong [of s' s d fs] by (simp add: hello_seq(1) conn_hello_def)
  then show ?thesis
    by (intro sys_inv_greeting [OF assms(2), of d _ fs]) (use hello_seq fs(2) in \<open>auto simp: conn_hello_def conn_log_def\<close>)
next
  case (hello_send d f rc s1)
  have g: "greeting_fd (s_conn s) = Some d" by (simp add: hello_send(2))
  obtain w fs where w: "s1 = log_frame d f w s" "carried s d fs" "pc_inv fs (s_conn s)" "carried s1 d (fs @ [f])"
    by (rule greeting_sends [OF assms(2) g hello_send(3)])
  show ?thesis
  proof (cases "rc = 0")
    case True
    have "carried s' d (fs @ [f])"
      using w(4) True carried_cong [of s' s1 d "fs @ [f]"] by (simp add: hello_send(1) conn_hello_sent_def)
    then show ?thesis
      by (intro sys_inv_greeting [OF assms(2) g, of _ "fs @ [f]"])
        (use hello_send True w in \<open>auto simp: conn_hello_sent_def log_frame_def conn_log_def\<close>)
  next
    case False
    then show ?thesis
      using assms(2) hello_send unfolding w(1)
      by (auto simp: sys_inv_def conn_hello_sent_def close_fd_def conn_log_def log_frame_def)
  qed
next
  case (snapshot d alloc fs' b')
  then obtain fs where fs: "carried s d fs" "pc_inv fs (CSnapshot d)" using assms(2) by (auto simp: sys_inv_def)
  have "carried s' d fs" using fs(1) carried_cong [of s' s d fs] by (simp add: snapshot(1))
  then show ?thesis
    by (intro sys_inv_greeting [OF assms(2), of d _ fs])
      (use snapshot fs(2) snapshot_collect_shape [OF snapshot(3)] in \<open>auto simp: conn_log_def\<close>)
next
  case (snapshot_send d f fs' rc s1)
  have g: "greeting_fd (s_conn s) = Some d" by (simp add: snapshot_send(2))
  obtain w fs where w: "s1 = log_frame d f w s" "carried s d fs" "pc_inv fs (s_conn s)" "carried s1 d (fs @ [f])"
    by (rule greeting_sends [OF assms(2) g snapshot_send(3)])
  have "carried s' d (fs @ [f])"
    using w(4) carried_cong [of s' s1 d "fs @ [f]"] by (simp add: snapshot_send(1))
  moreover have "pc_inv (fs @ [f]) (CSendSnap d fs')" using w(3) by (auto simp: snapshot_send(2))
  ultimately show ?thesis
    by (intro sys_inv_greeting [OF assms(2) g, of _ "fs @ [f]"])
      (use snapshot_send w in \<open>auto simp: log_frame_def conn_log_def\<close>)
next
  case (snapshot_done d)
  then obtain fs where fs: "carried s d fs" "pc_inv fs (CSendSnap d [])" using assms(2) by (auto simp: sys_inv_def)
  have "carried s' d fs" using fs(1) carried_cong [of s' s d fs] by (simp add: snapshot_done(1))
  then show ?thesis
    by (intro sys_inv_greeting [OF assms(2), of d _ fs]) (use snapshot_done fs(2) in \<open>auto simp: conn_log_def\<close>)
next
  case (publish d)
  then obtain fs where fs: "carried s d fs" "pc_inv fs (CPublish d)" "s_open s d" "g_client_fd (s_bus s) < 0"
    using assms(2) by (auto simp: sys_inv_def)
  have "greeted fs" using fs(2) greeted_full by auto
  then have "greeted_but (s_held s d) (conn_log s d)"
    using carried_mixed [OF fs(1)] unfolding greeted_but_def by blast
  then show ?thesis
    using assms(2) publish fs by (auto simp: sys_inv_def conn_publish_def Let_def conn_log_def)
next
  case (watch_gone d)
  then show ?thesis using assms(2) by (auto simp: sys_inv_def conn_log_def)
next
  case (watch_closed d)
  note inv = sys_inv_close [OF assms(2), of d]
  have c: "s_conn (close_current_fd_if_matches d s) = CWatch d" "g_client_fd (s_bus (close_current_fd_if_matches d s)) < 0"
    using watch_closed assms(2) by (auto simp: sys_inv_def close_current_fd_if_matches_def close_fd_def)
  show ?thesis using inv c unfolding watch_closed(1) by (auto simp: sys_inv_def conn_log_def)
next
  case (writer_dequeue f q)
  have "greeting_fd (s_conn s) = None"
    using assms(2) writer_dequeue(4) greeting_unpublished by (cases "greeting_fd (s_conn s)") (auto simp: sys_inv_def)
  then show ?thesis
    by (intro sys_inv_other [OF assms(2)])
      (use assms(2) writer_dequeue in \<open>auto simp: sys_inv_def writer_take_def conn_log_def\<close>)
next
  case (writer_send d f rc s1)
  then show ?thesis using sys_inv_writer_sent [OF assms(2)] by simp
next
  case writer_exit
  then show ?thesis
    by (intro sys_inv_other [OF assms(2)])
      (use assms(2) writer_exit in \<open>auto simp: sys_inv_def conn_log_def carried_def\<close>)
next
  case (producer len payload al type flags r b')
  then show ?thesis
    using assms(2) bus_send_client_fd [OF producer(3)] carried_cong [of s' s]
    by (intro sys_inv_other [OF assms(2)]) (auto simp: sys_inv_def conn_log_def)
next
  case (shutdown b')
  then have fd: "g_client_fd b' = (if g_client_fd (s_bus s) \<ge> 0 then - 1 else g_client_fd (s_bus s))"
    by (auto simp: bus_shutdown_def bind_eq_Some_conv)
  have up: "g_client_fd (s_bus s) < 0" if "greeting_fd (s_conn s) = Some d" for d
    using assms(2) greeting_unpublished [OF that] by (auto simp: sys_inv_def)
  show ?thesis
  proof (cases "g_client_fd (s_bus s) \<ge> 0")
    case True
    then have "s' = (close_fd (g_client_fd (s_bus s)) s)\<lparr> s_bus := b' \<rparr>" "g_client_fd b' = - 1"
      using shutdown(1) fd by simp_all
    then show ?thesis
      using assms(2) True up
      by (intro sys_inv_other [OF assms(2)]) (force simp: sys_inv_def close_fd_def conn_log_def split: if_splits)+
  next
    case False
    then have "s' = s\<lparr> s_bus := b' \<rparr>" "g_client_fd b' = g_client_fd (s_bus s)"
      using shutdown(1) fd by simp_all
    then show ?thesis
      using assms(2) False carried_cong [of s' s]
      by (intro sys_inv_other [OF assms(2)]) (auto simp: sys_inv_def conn_log_def)
  qed
qed

lemma sys_inv_reachable: "reachable reuse s \<Longrightarrow> sys_inv s"
proof (induction rule: reachable.induct)
  case init
  show ?case by (simp add: sys_inv_def sys0_def bus0_def)
next
  case (step s s')
  then show ?case using sys_inv_step by blast
qed

text \<open>A frame is held only when connect() returned the number the writer was
  sending on.\<close>

lemma held_reuse: "reachable reuse s \<Longrightarrow> s_held s d = Some f \<Longrightarrow> reuse"
proof (induction arbitrary: d f rule: reachable.induct)
  case init
  then show ?case by (simp add: sys0_def)
next
  case (step s s')
  have "s_held s' d = s_held s d \<or> s_held s' d = None \<or>
      (\<exists>e f'. held_frame e (s_writer s) = Some f' \<and> (reuse \<or> (\<forall>f. s_writer s \<noteq> WSend e f)))"
    using step.hyps(2)
  proof (cases rule: bstep.cases)
    case (connect_ok ms e)
    then show ?thesis by (cases "held_frame e (s_writer s)") (auto simp: conn_connected_def)
  qed (auto simp: thread_defs Let_def sends_def split: if_splits)
  then consider "s_held s' d = s_held s d"
    | e f' where "held_frame e (s_writer s) = Some f'" "reuse \<or> (\<forall>f. s_writer s \<noteq> WSend e f)"
    using step.prems by auto
  then show ?case
  proof cases
    case 1
    then show ?thesis using step.IH [of d f] step.prems by simp
  next
    case 2
    then show ?thesis by (cases "s_writer s") (auto split: if_splits)
  qed
qed

section \<open>Runs\<close>

lemma send_frame_possible:
  assumes "wf_frame f"
  shows "\<exists>os w os'. send_frame os f = Some (0, w, os')"
proof -
  have ones: "write_all (replicate (length bs) (Sent 1) @ rs) bs = Some (0, bs, rs)" for bs :: bytes and rs
    by (induction bs) simp_all
  obtain h where h: "frame_hdr f = Some h" by (simp add: frame_hdr_bytes)
  let ?p = "case f_payload f of None \<Rightarrow> [] | Some p \<Rightarrow> p"
  have "send_frame (replicate (length h) (Sent 1) @ replicate (length ?p) (Sent 1) @ []) f = Some (0, h @ ?p, [])"
    using assms ones [of h] ones [of ?p "[]"]
    by (auto simp: send_frame_def h wf_frame_def rd_mem_def split: option.splits)
  then show ?thesis by blast
qed

lemma sends_possible:
  assumes "wf_frame f" and "s_open s d"
  shows "\<exists>w. sends d f s 0 (log_frame d f w s)"
  using send_frame_possible [OF assms(1)] assms(2) by (auto simp: sends_def)

text \<open>A run up to a published connection on descriptor 3.\<close>

lemma reach_connected:
  "\<exists>s. reachable reuse s \<and> s_conn s = CWatch 3 \<and> s_writer s = WWait \<and> g_client_fd (s_bus s) = 3 \<and>
     s_open s 3 \<and> bus_ok (s_bus s) \<and> ring_items (g_queue (s_bus s)) = [] \<and> \<not> g_shutdown (s_bus s)"
proof -
  note st = reachable.step
  let ?s1 = "conn_connected 3 sys0"
  have r1: "reachable reuse ?s1"
    by (rule st [OF reachable.init], rule bstep.connect_ok [where ms = 100]) (auto simp: sys0_def bus0_def)
  let ?s2 = "conn_hello 3 ?s1" and ?h = "hello_frame 1"
  have r2: "reachable reuse ?s2"
    by (rule st [OF r1], rule bstep.hello_seq) (simp add: conn_connected_def)
  have h: "wf_frame ?h" by (simp add: wf_frame_def hello_frame_def hello_text_def)
  have c2: "s_conn ?s2 = CSendHello 3 ?h" "s_open ?s2 3"
    by (simp_all add: conn_hello_def conn_connected_def sys0_def bus0_def)
  obtain w where "sends 3 ?h ?s2 0 (log_frame 3 ?h w ?s2)" using sends_possible [OF h c2(2)] by blast
  then have r3: "reachable reuse (conn_hello_sent 3 0 (log_frame 3 ?h w ?s2))" (is "reachable _ ?s3")
    by (rule st [OF r2 bstep.hello_send [OF c2(1)]])
  let ?fs = "[sync_frame EVT_SYNC_BEGIN 2, sync_frame EVT_SYNC_END 3]"
  let ?b = "bus0\<lparr> g_tx_seq := 4 \<rparr>"
  have c3: "s_conn ?s3 = CSnapshot 3" "s_bus ?s3 = bus0\<lparr> g_tx_seq := 2 \<rparr>"
    by (simp_all add: conn_hello_sent_def log_frame_def conn_hello_def conn_connected_def sys0_def bus0_def)
  have sc: "snapshot_collect (\<lambda>_. False) (s_bus ?s3) = Some (?fs, ?b)"
    unfolding c3(2) by (simp add: snapshot_collect_def Let_def)
  let ?s4 = "?s3\<lparr> s_conn := CSendSnap 3 ?fs, s_bus := ?b \<rparr>"
  have r4: "reachable reuse ?s4"
    by (rule st [OF r3 bstep.snapshot [OF c3(1) sc]])
  have wfs: "wf_frame (sync_frame ty sq)" for ty sq by (simp add: wf_frame_def sync_frame_def)
  have c4: "s_conn ?s4 = CSendSnap 3 ?fs" "s_open ?s4 3"
    by (simp_all add: conn_hello_sent_def log_frame_def conn_hello_def conn_connected_def)
  obtain w4 where "sends 3 (hd ?fs) ?s4 0 (log_frame 3 (hd ?fs) w4 ?s4)"
    using sends_possible [OF wfs c4(2)] by auto
  then have r5: "reachable reuse ((log_frame 3 (hd ?fs) w4 ?s4)\<lparr> s_conn := CSendSnap 3 (tl ?fs) \<rparr>)" (is "reachable _ ?s5")
    using st [OF r4 bstep.snapshot_send] c4(1) by simp
  have c5: "s_conn ?s5 = CSendSnap 3 [sync_frame EVT_SYNC_END 3]" "s_open ?s5 3"
    using c4 by (simp_all add: log_frame_def)
  obtain w5 where "sends 3 (sync_frame EVT_SYNC_END 3) ?s5 0 (log_frame 3 (sync_frame EVT_SYNC_END 3) w5 ?s5)"
    using sends_possible [OF wfs c5(2)] by blast
  then have r6: "reachable reuse ((log_frame 3 (sync_frame EVT_SYNC_END 3) w5 ?s5)\<lparr> s_conn := CSendSnap 3 [] \<rparr>)" (is "reachable _ ?s6")
    by (rule st [OF r5 bstep.snapshot_send [OF c5(1)]])
  have r7: "reachable reuse (?s6\<lparr> s_conn := CPublish 3 \<rparr>)"
    by (rule st [OF r6 bstep.snapshot_done]) simp
  have r8: "reachable reuse (conn_publish 3 (?s6\<lparr> s_conn := CPublish 3 \<rparr>))" (is "reachable _ ?s8")
    by (rule st [OF r7 bstep.publish]) simp
  have b6: "s_bus ?s6 = ?b" "s_open ?s6 3" "s_writer ?s6 = WWait"
    using c5(2) by (simp_all add: log_frame_def conn_hello_sent_def conn_hello_def conn_connected_def sys0_def)
  have ok: "bus_ok (?b\<lparr> g_client_fd := 3 \<rparr>)" using bus_ok_bus0 by (simp add: bus_ok_def)
  have "s_bus ?s8 = ?b\<lparr> g_client_fd := 3 \<rparr>" "s_open ?s8 3" "s_writer ?s8 = WWait" "s_conn ?s8 = CWatch 3"
    using b6 by (simp_all add: conn_publish_def Let_def bus0_def)
  with r8 ok show ?thesis
    by (intro exI [of _ ?s8]) (simp add: bus0_def ring_items_def zero_ring_def)
qed

section \<open>Properties\<close>



text \<open>Property C28. When connect() may return a descriptor number the writer still
  holds from the connection before, there is a run in which a route guidance
  frame goes out on the new connection before its HELLO: the writer took the
  frame for the old connection, the connector saw the peer close, closed the
  descriptor and connected again.\<close>

theorem stale_descriptor_skips_hello:
  "\<exists>s d f. reachable True s \<and> s_conn s = CHello d \<and> conn_log s d = [f] \<and> f_type f = EVT_RGD_UPDATE"
proof -
  note st = reachable.step
  obtain s where s: "reachable True s" "s_conn s = CWatch 3" "s_writer s = WWait" "g_client_fd (s_bus s) = 3"
    "s_open s 3" "bus_ok (s_bus s)" "ring_items (g_queue (s_bus s)) = []" "\<not> g_shutdown (s_bus s)"
    using reach_connected [of True] by blast
  let ?f = "sent_frame EVT_RGD_UPDATE 0 (g_tx_seq (s_bus s)) [65] 1"
  have cnt: "g_ring_count (g_queue (s_bus s)) = 0" using s(7) by (metis length_ring_items list.size(3))
  have l: "1 \<le> length [65 :: u8]" by simp
  have e: "unat EVT_RGD_UPDATE < MAX_TYPES" "\<not> 1 > BUS_MAX_PAYLOAD"
    by (simp_all add: EVT_RGD_UPDATE_def MAX_TYPES_def BUS_MAX_PAYLOAD_def)
  obtain r b1 where b1: "bus_send (True, True, True) EVT_RGD_UPDATE 0 [65] 1 (s_bus s) = Some (r, b1)"
    "bus_ok b1" "ring_items (g_queue b1) = [?f]" "g_client_fd b1 = 3"
    using bus_send_main [OF s(6) l, of EVT_RGD_UPDATE True True 0] e s(4,7) cnt
    by (auto simp: SEND_QUEUE_CAPACITY_def not_less split: if_splits)
  have sh: "\<not> g_shutdown b1"
    using b1(1) s(8)
    by (auto simp: bus_send_def Let_def bind_eq_Some_conv upd_slot_def split: option.splits if_splits)
  let ?s1 = "s\<lparr> s_bus := b1 \<rparr>"
  have r1: "reachable True ?s1"
    by (rule st [OF s(1) bstep.producer [OF l b1(1)]])
  have ro: "ring_ok (g_queue b1)" using b1(2) by (simp add: bus_ok_def)
  obtain q where q: "q_dequeue_nolock (g_queue (s_bus ?s1)) = Some (Some ?f, q)"
    using q_dequeue_cons [OF ro] b1(3) length_ring_items [of "g_queue b1"] by auto
  let ?s2 = "writer_take ?f q ?s1"
  have r2: "reachable True ?s2"
    by (rule st [OF r1], rule bstep.writer_dequeue [OF _ _ _ q]) (use s sh b1(4) in auto)
  let ?s3 = "(close_current_fd_if_matches 3 ?s2)\<lparr> s_conn := CConnect 100 \<rparr>"
  have r3: "reachable True ?s3"
    by (rule st [OF r2], rule bstep.watch_closed) (use s in \<open>simp add: writer_take_def\<close>)
  let ?s4 = "conn_connected 3 ?s3"
  have r4: "reachable True ?s4"
    by (rule st [OF r3], rule bstep.connect_ok [where ms = 100])
      (use sh b1(4) in \<open>auto simp: close_current_fd_if_matches_def close_fd_def writer_take_def\<close>)
  have c4: "s_writer ?s4 = WSend 3 ?f" "s_open ?s4 3" "s_conn ?s4 = CHello 3" "conn_log ?s4 3 = []"
    using b1(4) by (simp_all add: conn_connected_def close_current_fd_if_matches_def close_fd_def
        writer_take_def conn_log_def)
  have wf: "wf_frame ?f" by (rule wf_sent_frame) simp
  obtain w where "sends 3 ?f ?s4 0 (log_frame 3 ?f w ?s4)" using sends_possible [OF wf c4(2)] by blast
  then have r5: "reachable True (writer_sent 3 0 (log_frame 3 ?f w ?s4))" (is "reachable _ ?s5")
    by (rule st [OF r4 bstep.writer_send [OF c4(1)]])
  have "s_conn ?s5 = CHello 3" "conn_log ?s5 3 = [?f]"
    using c4(3,4) by (simp_all add: writer_sent_def log_frame_def conn_log_def)
  then show ?thesis using r5 by (metis sent_frame_sel(1))
qed

end
