(* ===== verification/Hook_Framework.thy ===== *)
theory Hook_Framework
  imports Iap2_Protocol Bus_Core
begin

text \<open>
  c_hook/framework/hook_framework.c and .h: the module registry, the dispatch
  of messages, events and transport notifications to the modules, frame
  injection behind a stored link header, and the three hooked functions
  (Decode, Encode, transport Send).

  The state is the core (the context, the flags, the bus, what was handed to
  the real transport), the list of registered modules and a state of the
  modules' own; a module's callbacks act on the core and that state.  Pointers
  to objects of the host program (NmeTransport) are numbers, None for NULL.
  What the host's functions return is an argument: the result of the real
  Decode and Encode, the array Encode filled, and the transport, a function of
  what was sent so far, the object and the bytes.  Log output is not modelled.
\<close>

definition MAX_MODULES :: nat where "MAX_MODULES = 16"
definition MAX_PREFIX_LEN :: nat where "MAX_PREFIX_LEN = 64"

definition IAP2_MSG_STOP_LOCATION :: u16 where "IAP2_MSG_STOP_LOCATION = 0xFFFC"
definition IAP2_MSG_LOCATION_INFO :: u16 where "IAP2_MSG_LOCATION_INFO = 0xFFFB"

datatype hook_event = HOOK_EVENT_INIT | HOOK_EVENT_SHUTDOWN | HOOK_EVENT_DISCONNECT
  | HOOK_EVENT_IDENTIFY_START | HOOK_EVENT_IDENTIFY_OK | HOOK_EVENT_IDENTIFY_END | HOOK_EVENT_AUTH_DONE

section \<open>State\<close>

record injection_ctx =
  inj_prefix_buf :: "bytes option"
  inj_prefix_len :: nat
  inj_original_total_len :: nat
  inj_transport_self :: "nat option"
  inj_valid :: bool

text \<open>The host's byte array: data, length and capacity.\<close>

record nme_array =
  na_data :: "bytes option"
  na_len :: nat
  na_cap :: nat

record hook_context =
  hc_direction :: msg_direction
  hc_msgid :: u16
  hc_raw_buf :: "bytes option"
  hc_raw_len :: nat
  hc_identify_patched :: bool
  hc_identify_accepted :: bool
  hc_auth_done :: bool
  hc_session_active :: bool
  hc_rgd_component_id :: u16
  hc_rgd_component_valid :: bool
  hc_inject :: injection_ctx
  hc_current_module :: "nat option"
  hc_priv :: "nme_array option"

type_synonym tx_log = "(nat option \<times> bytes) list"
type_synonym transport = "tx_log \<Rightarrow> nat option \<Rightarrow> bytes \<Rightarrow> int"

record fw_core =
  fc_ctx :: hook_context
  fc_initialized :: bool
  fc_in_send :: bool
  fc_real_transport :: bool
  fc_cksum_checked :: bool
  fc_bus :: bus
  fc_tx :: tx_log

record 's hook_module =
  hm_name :: string
  hm_priority :: int
  hm_msg_filter :: "u16 list option"
  hm_on_message :: "(iap2_frame \<Rightarrow> 's \<Rightarrow> (bool \<times> 's) option) option"
  hm_on_identify :: "(nat \<Rightarrow> nat \<Rightarrow> 's \<Rightarrow> (nat \<times> 's) option) option"
  hm_on_state :: "(hook_event \<Rightarrow> 's \<Rightarrow> 's option) option"
  hm_on_transport_send :: "(u16 \<Rightarrow> 's \<Rightarrow> 's option) option"
  hm_active :: bool

definition zero_inject :: injection_ctx where
  "zero_inject = \<lparr> inj_prefix_buf = None, inj_prefix_len = 0, inj_original_total_len = 0,
     inj_transport_self = None, inj_valid = False \<rparr>"

definition zero_ctx :: hook_context where
  "zero_ctx = \<lparr> hc_direction = MSG_DIR_INCOMING, hc_msgid = 0, hc_raw_buf = None, hc_raw_len = 0,
     hc_identify_patched = False, hc_identify_accepted = False, hc_auth_done = False,
     hc_session_active = False, hc_rgd_component_id = 0, hc_rgd_component_valid = False,
     hc_inject = zero_inject, hc_current_module = None, hc_priv = None \<rparr>"

definition upd_ctx :: "(hook_context \<Rightarrow> hook_context) \<Rightarrow> fw_core \<times> 'x \<Rightarrow> fw_core \<times> 'x" where
  "upd_ctx g s = ((fst s)\<lparr> fc_ctx := g (fc_ctx (fst s)) \<rparr>, snd s)"

definition set_current :: "nat option \<Rightarrow> fw_core \<times> 'x \<Rightarrow> fw_core \<times> 'x" where
  "set_current i = upd_ctx (\<lambda>c. c\<lparr> hc_current_module := i \<rparr>)"

section \<open>Helpers\<close>

definition is_known_52xx_msg :: "u16 \<Rightarrow> bool" where
  "is_known_52xx_msg msgid \<longleftrightarrow>
     msgid \<in> {IAP2_MSG_ROUTE_GUIDANCE_START, IAP2_MSG_ROUTE_GUIDANCE_UPDATE,
               IAP2_MSG_ROUTE_GUIDANCE_MANEUVER, IAP2_MSG_ROUTE_GUIDANCE_STOP,
               IAP2_MSG_ROUTE_GUIDANCE_LANE}"

text \<open>The one-shot checksum check: whether it is done after this call (its reads
  are checked; the comparison only decides about a log line).\<close>

definition cksum_sanity :: "bool \<Rightarrow> bytes \<Rightarrow> nat \<Rightarrow> nat \<Rightarrow> bool option" where
  "cksum_sanity checked buf len frame_offset =
     (if \<not> checked \<and> frame_offset > 0 then do {
        r \<leftarrow> iap2_find_frame buf (Some 0) len;
        (case r of None \<Rightarrow> Some checked
         | Some frame \<Rightarrow>
             let cksum_pos = fr_offset frame + unat (fr_len frame) in
             if cksum_pos < len then do {
               expected \<leftarrow> rd8 buf cksum_pos;
               computed \<leftarrow> iap2_cksum_neg buf (Some (fr_offset frame)) (unat (fr_len frame));
               Some True }
             else Some checked) }
      else Some checked)"

definition store_injection_context ::
  "bool \<Rightarrow> nat option \<Rightarrow> bytes \<Rightarrow> nat \<Rightarrow> nat \<Rightarrow> fw_core \<Rightarrow> fw_core option" where
  "store_injection_context alloc transport_self buf len frame_offset c =
     (let inj = (hc_inject (fc_ctx c))\<lparr> inj_prefix_buf := None, inj_transport_self := transport_self,
                   inj_original_total_len := len \<rparr>
      in do {
        inj \<leftarrow> (if frame_offset > 0 \<and> frame_offset \<le> MAX_PREFIX_LEN then
                  if alloc then do {
                    p \<leftarrow> rd_mem buf 0 frame_offset;
                    Some (inj\<lparr> inj_prefix_buf := Some p, inj_prefix_len := frame_offset \<rparr>) }
                  else Some inj
                else Some (inj\<lparr> inj_prefix_len := 0 \<rparr>));
        checked \<leftarrow> cksum_sanity (fc_cksum_checked c) buf len frame_offset;
        Some (c\<lparr> fc_ctx := (fc_ctx c)\<lparr> hc_inject := inj\<lparr> inj_valid := (transport_self \<noteq> None) \<rparr> \<rparr>,
                 fc_cksum_checked := checked \<rparr>) })"

text \<open>The notification loops; i is the index of the head module.\<close>

fun notify_state_loop :: "nat \<Rightarrow> hook_event \<Rightarrow> (fw_core \<times> 'x) hook_module list \<Rightarrow> fw_core \<times> 'x \<Rightarrow>
    (fw_core \<times> 'x) option" where
  "notify_state_loop i ev [] s = Some s"
| "notify_state_loop i ev (md # ms) s =
     (case hm_on_state md of
        Some cb \<Rightarrow>
          if hm_active md
          then do { s \<leftarrow> cb ev (set_current (Some i) s); notify_state_loop (i + 1) ev ms s }
          else notify_state_loop (i + 1) ev ms s
      | None \<Rightarrow> notify_state_loop (i + 1) ev ms s)"

definition notify_state :: "hook_event \<Rightarrow> (fw_core \<times> 'x) hook_module list \<Rightarrow> fw_core \<times> 'x \<Rightarrow>
    (fw_core \<times> 'x) option" where
  "notify_state ev ms s = map_option (set_current None) (notify_state_loop 0 ev ms s)"

fun notify_transport_loop :: "nat \<Rightarrow> u16 \<Rightarrow> (fw_core \<times> 'x) hook_module list \<Rightarrow> fw_core \<times> 'x \<Rightarrow>
    (fw_core \<times> 'x) option" where
  "notify_transport_loop i msgid [] s = Some s"
| "notify_transport_loop i msgid (md # ms) s =
     (case hm_on_transport_send md of
        Some cb \<Rightarrow>
          if hm_active md
          then do { s \<leftarrow> cb msgid (set_current (Some i) s); notify_transport_loop (i + 1) msgid ms s }
          else notify_transport_loop (i + 1) msgid ms s
      | None \<Rightarrow> notify_transport_loop (i + 1) msgid ms s)"

definition notify_transport_send :: "u16 \<Rightarrow> (fw_core \<times> 'x) hook_module list \<Rightarrow> fw_core \<times> 'x \<Rightarrow>
    (fw_core \<times> 'x) option" where
  "notify_transport_send msgid ms s = map_option (set_current None) (notify_transport_loop 0 msgid ms s)"

definition module_wants_message :: "'s hook_module \<Rightarrow> u16 \<Rightarrow> bool" where
  "module_wants_message md msgid =
     (case hm_msg_filter md of None \<Rightarrow> True | Some fs \<Rightarrow> if fs = [] then True else msgid \<in> set fs)"

fun dispatch_loop :: "nat \<Rightarrow> iap2_frame \<Rightarrow> (fw_core \<times> 'x) hook_module list \<Rightarrow> fw_core \<times> 'x \<Rightarrow>
    (bool \<times> fw_core \<times> 'x) option" where
  "dispatch_loop i frame [] s = Some (False, s)"
| "dispatch_loop i frame (md # ms) s =
     (case hm_on_message md of
        None \<Rightarrow> dispatch_loop (i + 1) frame ms s
      | Some cb \<Rightarrow>
          if \<not> hm_active md then dispatch_loop (i + 1) frame ms s
          else if \<not> module_wants_message md (fr_msgid frame) then dispatch_loop (i + 1) frame ms s
          else do {
            (consumed, s) \<leftarrow> cb frame (upd_ctx (\<lambda>c. c\<lparr> hc_current_module := Some i, hc_msgid := fr_msgid frame \<rparr>) s);
            if consumed then Some (True, s) else dispatch_loop (i + 1) frame ms s })"

definition dispatch_message :: "iap2_frame \<Rightarrow> (fw_core \<times> 'x) hook_module list \<Rightarrow> fw_core \<times> 'x \<Rightarrow>
    (bool \<times> fw_core \<times> 'x) option" where
  "dispatch_message frame ms s = map_option (\<lambda>(r, s). (r, set_current None s)) (dispatch_loop 0 frame ms s)"

definition handle_state_messages :: "u16 \<Rightarrow> (fw_core \<times> 'x) hook_module list \<Rightarrow> fw_core \<times> 'x \<Rightarrow>
    (fw_core \<times> 'x) option" where
  "handle_state_messages msgid ms s =
     (if msgid = IAP2_MSG_IDENTIFY_START then notify_state HOOK_EVENT_IDENTIFY_START ms s
      else if msgid = IAP2_MSG_IDENTIFY_ACCEPTED then
        notify_state HOOK_EVENT_IDENTIFY_OK ms (upd_ctx (\<lambda>c. c\<lparr> hc_identify_accepted := True \<rparr>) s)
      else if msgid = IAP2_MSG_IDENTIFY_END then
        (if \<not> hc_session_active (fc_ctx (fst s)) then notify_state HOOK_EVENT_IDENTIFY_END ms s else Some s)
      else if msgid = IAP2_MSG_AUTH_COMPLETE then
        notify_state HOOK_EVENT_AUTH_DONE ms (upd_ctx (\<lambda>c. c\<lparr> hc_auth_done := True \<rparr>) s)
      else Some s)"

section \<open>The registry and the lifecycle\<close>

text \<open>hook_framework_init; created are the results of bus_init's thread
  creations.\<close>

definition hook_framework_init :: "bool \<times> bool \<times> bool \<Rightarrow> fw_core \<Rightarrow> hook_result \<times> fw_core" where
  "hook_framework_init created c =
     (if fc_initialized c then (HOOK_OK, c)
      else (HOOK_OK, c\<lparr> fc_ctx := zero_ctx\<lparr> hc_rgd_component_id := 0x0010 \<rparr>, fc_initialized := True,
              fc_bus := snd (bus_init created (fc_bus c)) \<rparr>))"

definition deactivate :: "'s hook_module \<Rightarrow> 's hook_module" where
  "deactivate md = md\<lparr> hm_active := False \<rparr>"

text \<open>After shutdown the module array is empty (module_count is 0).\<close>

definition hook_framework_shutdown :: "(fw_core \<times> 'x) hook_module list \<Rightarrow> fw_core \<times> 'x \<Rightarrow>
    ((fw_core \<times> 'x) hook_module list \<times> fw_core \<times> 'x) option" where
  "hook_framework_shutdown ms s =
     (if \<not> fc_initialized (fst s) then Some (ms, s)
      else do {
        s \<leftarrow> notify_state HOOK_EVENT_SHUTDOWN ms s;
        b \<leftarrow> bus_shutdown (fc_bus (fst s));
        let c = fst s;
        Some ([], c\<lparr> fc_bus := b, fc_initialized := False,
                fc_ctx := (fc_ctx c)\<lparr> hc_inject := (hc_inject (fc_ctx c))\<lparr> inj_prefix_buf := None \<rparr> \<rparr> \<rparr>, snd s) })"

fun insert_index :: "nat \<Rightarrow> int \<Rightarrow> 's hook_module list \<Rightarrow> nat" where
  "insert_index i p [] = i"
| "insert_index i p (md # ms) = (if p < hm_priority md then i else insert_index (i + 1) p ms)"

text \<open>The module argument is the definition; registering sets it active.\<close>

definition hook_framework_register_module ::
  "'s hook_module option \<Rightarrow> 's hook_module list \<Rightarrow> hook_result \<times> 's hook_module list" where
  "hook_framework_register_module def ms =
     (case def of None \<Rightarrow> (HOOK_ERR_PARAM, ms)
      | Some d \<Rightarrow>
         if length ms \<ge> MAX_MODULES then (HOOK_ERR_BUSY, ms)
         else if list_ex (\<lambda>md. hm_name md = hm_name d) ms then (HOOK_OK, ms)
         else let k = insert_index 0 (hm_priority d) ms
              in (HOOK_OK, take k ms @ [d\<lparr> hm_active := True \<rparr>] @ drop k ms))"

fun unregister_loop :: "string \<Rightarrow> 's hook_module list \<Rightarrow> hook_result \<times> 's hook_module list" where
  "unregister_loop name [] = (HOOK_ERR_NOT_FOUND, [])"
| "unregister_loop name (md # ms) =
     (if hm_name md = name then (HOOK_OK, deactivate md # ms)
      else (let (r, ms') = unregister_loop name ms in (r, md # ms')))"

definition hook_framework_unregister_module ::
  "string option \<Rightarrow> 's hook_module list \<Rightarrow> hook_result \<times> 's hook_module list" where
  "hook_framework_unregister_module name ms =
     (case name of None \<Rightarrow> (HOOK_ERR_PARAM, ms) | Some n \<Rightarrow> unregister_loop n ms)"

section \<open>Injection\<close>

definition transport_send :: "transport \<Rightarrow> nat option \<Rightarrow> bytes \<Rightarrow> fw_core \<Rightarrow> int \<times> fw_core" where
  "transport_send ts self bs c = (ts (fc_tx c) self bs, c\<lparr> fc_tx := fc_tx c @ [(self, bs)] \<rparr>)"

definition hook_inject_frame ::
  "transport \<Rightarrow> bool \<Rightarrow> bytes option \<Rightarrow> nat \<Rightarrow> fw_core \<Rightarrow> (hook_result \<times> fw_core) option" where
  "hook_inject_frame ts alloc frame frame_len c =
     (case frame of None \<Rightarrow> Some (HOOK_ERR_PARAM, c)
      | Some fm \<Rightarrow>
        if frame_len < 6 then Some (HOOK_ERR_PARAM, c)
        else if \<not> fc_initialized c then Some (HOOK_ERR_INIT, c)
        else let inj = hc_inject (fc_ctx c) in
        if \<not> inj_valid inj \<or> inj_transport_self inj = None \<or> \<not> fc_real_transport c then Some (HOOK_ERR_IO, c)
        else let c = c\<lparr> fc_in_send := True \<rparr> in
        (case inj_prefix_buf inj of
           Some pb \<Rightarrow>
             if inj_prefix_len inj > 0 then
               let total = inj_prefix_len inj + frame_len + 1 in
               if \<not> alloc then Some (HOOK_ERR_MEMORY, c\<lparr> fc_in_send := False \<rparr>)
               else do {
                 p \<leftarrow> rd_mem pb 0 (inj_prefix_len inj);
                 out \<leftarrow> wr_mem (replicate total 0) 0 p;
                 f \<leftarrow> rd_mem fm 0 frame_len;
                 out \<leftarrow> wr_mem out (inj_prefix_len inj) f;
                 k \<leftarrow> iap2_cksum_neg fm (Some 0) frame_len;
                 out \<leftarrow> wr8 out (inj_prefix_len inj + frame_len) k;
                 out \<leftarrow> iap2_patch_link_header out (Some 0) (inj_prefix_len inj) total;
                 let (ret, c) = transport_send ts (inj_transport_self inj) out c;
                 Some (if ret \<noteq> 0 then HOOK_ERR_IO else HOOK_OK, c\<lparr> fc_in_send := False \<rparr>) }
             else do {
               f \<leftarrow> rd_mem fm 0 frame_len;
               let (ret, c) = transport_send ts (inj_transport_self inj) f c;
               Some (if ret \<noteq> 0 then HOOK_ERR_IO else HOOK_OK, c\<lparr> fc_in_send := False \<rparr>) }
         | None \<Rightarrow> do {
             f \<leftarrow> rd_mem fm 0 frame_len;
             let (ret, c) = transport_send ts (inj_transport_self inj) f c;
             Some (if ret \<noteq> 0 then HOOK_ERR_IO else HOOK_OK, c\<lparr> fc_in_send := False \<rparr>) }))"

definition hook_inject_message ::
  "transport \<Rightarrow> bool \<Rightarrow> u16 \<Rightarrow> bytes option \<Rightarrow> nat \<Rightarrow> fw_core \<Rightarrow> (hook_result \<times> fw_core) option" where
  "hook_inject_message ts alloc msgid payload payload_len c = do {
     (frame_len, frame) \<leftarrow> iap2_build_frame (replicate 512 0) (Some 0) 512 msgid payload payload_len;
     if frame_len = 0 then Some (HOOK_ERR_PARAM, c)
     else hook_inject_frame ts alloc (Some frame) frame_len c }"

definition hook_is_ready :: "fw_core \<Rightarrow> bool" where
  "hook_is_ready c \<longleftrightarrow> hc_identify_patched (fc_ctx c) \<and> hc_identify_accepted (fc_ctx c) \<and>
     hc_auth_done (fc_ctx c) \<and> hc_rgd_component_valid (fc_ctx c)"

definition hook_is_active :: "fw_core \<Rightarrow> bool" where
  "hook_is_active c = hc_session_active (fc_ctx c)"

definition hook_get_component_id :: "fw_core \<Rightarrow> u16" where
  "hook_get_component_id c = hc_rgd_component_id (fc_ctx c)"

section \<open>The hooked functions\<close>

definition ensure_init :: "bool \<times> bool \<times> bool \<Rightarrow> fw_core \<times> 'x \<Rightarrow> fw_core \<times> 'x" where
  "ensure_init created s =
     (if fc_initialized (fst s) then s else (snd (hook_framework_init created (fst s)), snd s))"

text \<open>NmeIAP2Message::Decode; ret is what the real function returned (None when
  it was not found), buf and len its arguments.\<close>

definition hook_decode ::
  "bool \<times> bool \<times> bool \<Rightarrow> int option \<Rightarrow> bytes option \<Rightarrow> int \<Rightarrow> (fw_core \<times> 'x) hook_module list \<Rightarrow>
   fw_core \<times> 'x \<Rightarrow> (int \<times> fw_core \<times> 'x) option" where
  "hook_decode created real_ret buf len ms s =
     (let s = ensure_init created s;
          ret = (case real_ret of None \<Rightarrow> 0 | Some r \<Rightarrow> r)
      in if ret \<noteq> 0 then Some (ret, s)
      else case buf of None \<Rightarrow> Some (ret, s)
      | Some m \<Rightarrow>
        if len < 6 then Some (ret, s) else do {
          b0 \<leftarrow> rd8 m 0;
          if b0 \<noteq> 0x40 then Some (ret, s) else do {
          b1 \<leftarrow> rd8 m 1;
          if b1 \<noteq> 0x40 then Some (ret, s) else do {
          frame_len \<leftarrow> read_be16 m 2;
          if unat frame_len < 6 \<or> frame_len > of_int len then Some (ret, s) else do {
          msgid \<leftarrow> read_be16 m 4;
          let s = upd_ctx (\<lambda>c. c\<lparr> hc_direction := MSG_DIR_INCOMING, hc_raw_buf := Some m,
                                hc_raw_len := nat len \<rparr>) s;
          s \<leftarrow> handle_state_messages msgid ms s;
          let frame = \<lparr> fr_msgid = msgid, fr_len = frame_len, fr_offset = 0,
             fr_payload = (if unat frame_len > 6 then Some 6 else None),
             fr_payload_len = (if unat frame_len > 6 then unat frame_len - 6 else 0) \<rparr>;
          (consumed, s) \<leftarrow> dispatch_message frame ms s;
          Some (ret, s) }}}})"

text \<open>The identify loop of NmeIAP2Message::Encode: the patched flag and the
  length; the array itself is behind the context's _priv.\<close>

fun identify_loop ::
  "nat \<Rightarrow> (fw_core \<times> 'x) hook_module list \<Rightarrow> bool \<Rightarrow> nat \<Rightarrow> fw_core \<times> 'x \<Rightarrow>
   (bool \<times> nat \<times> fw_core \<times> 'x) option" where
  "identify_loop i [] patched len s = Some (patched, len, s)"
| "identify_loop i (md # ms) patched len s =
     (case hm_on_identify md of
        None \<Rightarrow> identify_loop (i + 1) ms patched len s
      | Some cb \<Rightarrow>
          if \<not> hm_active md then identify_loop (i + 1) ms patched len s
          else do {
            let s = set_current (Some i) s;
            arr \<leftarrow> hc_priv (fc_ctx (fst s));
            (new_len, s) \<leftarrow> cb len (na_cap arr) s;
            if new_len \<noteq> len then
              identify_loop (i + 1) ms True new_len
                (upd_ctx (\<lambda>c. c\<lparr> hc_priv := map_option (\<lambda>a. a\<lparr> na_len := new_len \<rparr>) (hc_priv c) \<rparr>) s)
            else identify_loop (i + 1) ms (patched \<or> hc_identify_patched (fc_ctx (fst s))) len s })"

definition identify_phase ::
  "int \<Rightarrow> nme_array \<Rightarrow> (fw_core \<times> 'x) hook_module list \<Rightarrow> fw_core \<times> 'x \<Rightarrow>
   (nme_array \<times> fw_core \<times> 'x) option" where
  "identify_phase msgid arr ms s =
     (if msgid = uint IAP2_MSG_IDENTIFY \<and> \<not> hc_identify_patched (fc_ctx (fst s)) then do {
        let s = upd_ctx (\<lambda>c. c\<lparr> hc_priv := Some arr \<rparr>) s;
        (patched, len, s) \<leftarrow> identify_loop 0 ms (hc_identify_patched (fc_ctx (fst s))) (na_len arr) s;
        arr \<leftarrow> hc_priv (fc_ctx (fst s));
        Some (arr, upd_ctx (\<lambda>c. c\<lparr> hc_current_module := None, hc_priv := None,
               hc_identify_patched := (if patched then True else hc_identify_patched c) \<rparr>) s) }
      else Some (arr, s))"

text \<open>NmeIAP2Message::Encode; arr is the array the real function filled.\<close>

definition hook_encode ::
  "bool \<times> bool \<times> bool \<Rightarrow> int option \<Rightarrow> nme_array \<Rightarrow> (fw_core \<times> 'x) hook_module list \<Rightarrow>
   fw_core \<times> 'x \<Rightarrow> (int \<times> nme_array \<times> fw_core \<times> 'x) option" where
  "hook_encode created real_ret arr ms s =
     (let s = ensure_init created s;
          ret = (case real_ret of None \<Rightarrow> - 1 | Some r \<Rightarrow> r)
      in if ret \<noteq> 0 then Some (ret, arr, s)
      else case na_data arr of None \<Rightarrow> Some (ret, arr, s)
      | Some data \<Rightarrow>
        if na_len arr < 6 then Some (ret, arr, s) else do {
          msgid \<leftarrow> iap2_parse_msgid data (Some 0) (na_len arr);
          if msgid < 0 then Some (ret, arr, s) else do {
          (arr, s) \<leftarrow> identify_phase msgid arr ms s;
          data \<leftarrow> na_data arr;
          frame_len \<leftarrow> read_be16 data 2;
          let len = na_len arr;
          let frame = \<lparr> fr_msgid = of_int msgid, fr_len = frame_len, fr_offset = 0,
             fr_payload = (if len > 6 then Some 6 else None),
             fr_payload_len = (if len > 6 then len - 6 else 0) \<rparr>;
          let s = upd_ctx (\<lambda>c. c\<lparr> hc_direction := MSG_DIR_OUTGOING, hc_raw_buf := Some data,
                                hc_raw_len := len \<rparr>) s;
          (consumed, s) \<leftarrow> dispatch_message frame ms s;
          Some (ret, arr, s) }})"

text \<open>NmeTransport::Send.\<close>

definition hook_transport_send ::
  "bool \<times> bool \<times> bool \<Rightarrow> transport \<Rightarrow> bool \<Rightarrow> nat option \<Rightarrow> bytes option \<Rightarrow> nat \<Rightarrow>
   (fw_core \<times> 'x) hook_module list \<Rightarrow> fw_core \<times> 'x \<Rightarrow> (int \<times> fw_core \<times> 'x) option" where
  "hook_transport_send created ts alloc self buf len ms s =
     (let s = ensure_init created s;
          send = (\<lambda>s. let (r, c) = transport_send ts self (case buf of None \<Rightarrow> [] | Some m \<Rightarrow> slice m 0 len) (fst s)
                      in (r, c, snd s))
      in if \<not> fc_real_transport (fst s) then Some (- 1, s)
      else if fc_in_send (fst s) then Some (send s)
      else case buf of None \<Rightarrow> Some (send s)
      | Some m \<Rightarrow>
        if len < 6 then Some (send s) else do {
          r \<leftarrow> iap2_find_frame m (Some 0) len;
          (case r of None \<Rightarrow> Some (send s)
           | Some frame \<Rightarrow> do {
               c \<leftarrow> store_injection_context alloc self m len (fr_offset frame) (fst s);
               s \<leftarrow> notify_transport_send (fr_msgid frame) ms (c, snd s);
               Some (send s) }) })"

section \<open>The registry\<close>

definition registry_ok :: "'s hook_module list \<Rightarrow> bool" where
  "registry_ok ms \<longleftrightarrow> length ms \<le> MAX_MODULES \<and> distinct (map hm_name ms) \<and>
     sorted (map hm_priority ms)"

text \<open>Where a definition goes: behind every module of the same or an earlier
  priority.\<close>

definition register_spec :: "'s hook_module \<Rightarrow> 's hook_module list \<Rightarrow> 's hook_module list" where
  "register_spec d ms = takeWhile (\<lambda>md. hm_priority md \<le> hm_priority d) ms @ [d\<lparr> hm_active := True \<rparr>] @
     dropWhile (\<lambda>md. hm_priority md \<le> hm_priority d) ms"

lemma insert_index_spec:
  "insert_index i p ms = i + length (takeWhile (\<lambda>md. hm_priority md \<le> p) ms)"
  by (induction ms arbitrary: i) auto

lemma register_new:
  assumes "length ms < MAX_MODULES" and "\<not> list_ex (\<lambda>md. hm_name md = hm_name d) ms"
  shows "hook_framework_register_module (Some d) ms = (HOOK_OK, register_spec d ms)"
proof -
  have "take (length (takeWhile P ms)) ms = takeWhile P ms" "drop (length (takeWhile P ms)) ms = dropWhile P ms" for P
    by (metis takeWhile_eq_take) (metis dropWhile_eq_drop)
  then show ?thesis
    using assms by (simp add: hook_framework_register_module_def insert_index_spec register_spec_def Let_def)
qed

lemma sorted_insert_after:
  assumes "sorted (map f xs)"
  shows "sorted (map f (takeWhile (\<lambda>x. f x \<le> f d) xs @ [d] @ dropWhile (\<lambda>x. f x \<le> f d) xs))"
proof -
  have 1: "sorted (map f (takeWhile (\<lambda>x. f x \<le> f d) xs))" "sorted (map f (dropWhile (\<lambda>x. f x \<le> f d) xs))"
    using assms sorted_append by (metis map_append takeWhile_dropWhile_id)+
  have 2: "\<forall>x \<in> set (takeWhile (\<lambda>x. f x \<le> f d) xs). f x \<le> f d"
    by (auto dest: set_takeWhileD)
  have 3: "\<forall>x \<in> set (dropWhile (\<lambda>x. f x \<le> f d) xs). f d \<le> f x"
  proof (cases "dropWhile (\<lambda>x. f x \<le> f d) xs")
    case (Cons y ys)
    then have "\<not> f y \<le> f d" by (simp add: dropWhile_eq_Cons_conv)
    then show ?thesis using 1(2) Cons by fastforce
  qed (simp only: list.set ball_empty)
  show ?thesis
    using 1 2 3 by (simp add: sorted_append) (meson order_trans)
qed

lemma register_spec_ok:
  assumes "registry_ok ms" and "length ms < MAX_MODULES" and "\<not> list_ex (\<lambda>md. hm_name md = hm_name d) ms"
  shows "registry_ok (register_spec d ms)"
proof -
  let ?d = "d\<lparr> hm_active := True \<rparr>"
  have s: "sorted (map hm_priority (register_spec d ms))"
    using sorted_insert_after [of hm_priority ms ?d] assms(1) by (simp add: registry_ok_def register_spec_def)
  define xs where "xs = takeWhile (\<lambda>md. hm_priority md \<le> hm_priority d) ms"
  define ys where "ys = dropWhile (\<lambda>md. hm_priority md \<le> hm_priority d) ms"
  have ms: "ms = xs @ ys" by (simp add: xs_def ys_def)
  have r: "register_spec d ms = xs @ ?d # ys" by (simp add: register_spec_def xs_def ys_def)
  have "length (register_spec d ms) = length ms + 1"
    unfolding r by (simp add: ms)
  moreover have "hm_name d \<notin> hm_name ` set (xs @ ys)"
    using assms(3) unfolding ms by (auto simp: list_ex_iff)
  then have "distinct (map hm_name (register_spec d ms))"
    using assms(1) unfolding r registry_ok_def by (auto simp: ms)
  ultimately show ?thesis using s assms(2) by (simp add: registry_ok_def)
qed

section \<open>Dispatch and injection\<close>

text \<open>The modules a message is offered to.\<close>

definition eligible :: "u16 \<Rightarrow> 's hook_module \<Rightarrow> bool" where
  "eligible msgid md \<longleftrightarrow> hm_on_message md \<noteq> None \<and> hm_active md \<and> module_wants_message md msgid"

text \<open>The call of a module at its place in the registry: its callback gets the
  frame, with the module current and the message id in the context.\<close>

definition offer :: "iap2_frame \<Rightarrow> nat \<times> (fw_core \<times> 'x) hook_module \<Rightarrow> fw_core \<times> 'x \<Rightarrow> (bool \<times> fw_core \<times> 'x) option" where
  "offer frame x s = (case hm_on_message (snd x) of None \<Rightarrow> None
     | Some cb \<Rightarrow> cb frame (upd_ctx (\<lambda>c. c\<lparr> hc_current_module := Some (fst x), hc_msgid := fr_msgid frame \<rparr>) s))"

primrec offers :: "iap2_frame \<Rightarrow> (nat \<times> (fw_core \<times> 'x) hook_module) list \<Rightarrow> fw_core \<times> 'x \<Rightarrow> (bool \<times> fw_core \<times> 'x) option" where
  "offers frame [] s = Some (False, s)"
| "offers frame (x # xs) s = do { (c, s) \<leftarrow> offer frame x s; if c then Some (True, s) else offers frame xs s }"

lemma dispatch_loop_offers:
  "dispatch_loop i frame ms s = offers frame (filter (\<lambda>x. eligible (fr_msgid frame) (snd x)) (enumerate i ms)) s"
proof (induction ms arbitrary: i s)
  case (Cons md ms)
  have e: "enumerate i (md # ms) = (i, md) # enumerate (i + 1) ms" by (simp flip: Suc_eq_plus1)
  show ?case
  proof (cases "eligible (fr_msgid frame) md")
    case True
    then show ?thesis unfolding e by (auto simp: eligible_def offer_def Cons split: bind_splits)
  next
    case False
    then show ?thesis unfolding e by (auto simp: eligible_def Cons split: option.split)
  qed
qed simp

text \<open>A run of calls: n of them, each module in turn, with the states in between;
  all but the last are refused, and the last is only when r is.\<close>

definition offered :: "iap2_frame \<Rightarrow> (nat \<times> (fw_core \<times> 'x) hook_module) list \<Rightarrow> bool \<Rightarrow> (fw_core \<times> 'x) list \<Rightarrow> bool" where
  "offered frame xs r ss \<longleftrightarrow> ss \<noteq> [] \<and> length ss \<le> length xs + 1 \<and>
     (if r then 1 < length ss else length ss = length xs + 1) \<and>
     (\<forall>k < length ss - 1. offer frame (xs ! k) (ss ! k) = Some (r \<and> k + 2 = length ss, ss ! (k + 1)))"

lemma offered_Nil: "offered frame [] r ss \<longleftrightarrow> \<not> r \<and> (\<exists>s. ss = [s])"
  by (cases ss) (auto simp: offered_def)

lemma offered_single: "\<not> offered frame (x # xs) r [s]"
  by (simp add: offered_def)

lemma offered_Cons:
  "offered frame (x # xs) r (s # t # ss) \<longleftrightarrow>
     (\<exists>c. offer frame x s = Some (c, t) \<and> (if c then r \<and> ss = [] else offered frame xs r (t # ss)))"
proof -
  have all: "(\<forall>k < length ss + 1. P k) \<longleftrightarrow> P 0 \<and> (\<forall>k < length ss. P (k + 1))" for P
    unfolding Suc_eq_plus1 [symmetric] by (rule All_less_Suc2)
  have "offered frame (x # xs) r (s # t # ss) \<longleftrightarrow> length ss \<le> length xs \<and> (\<not> r \<longrightarrow> length ss = length xs) \<and>
      offer frame x s = Some (r \<and> ss = [], t) \<and>
      (\<forall>k < length ss. offer frame (xs ! k) ((t # ss) ! k) = Some (r \<and> k + 1 = length ss, ss ! k))"
    by (simp add: offered_def all)
  moreover have "offered frame xs r (t # ss) \<longleftrightarrow> length ss \<le> length xs \<and> (if r then ss \<noteq> [] else length ss = length xs) \<and>
      (\<forall>k < length ss. offer frame (xs ! k) ((t # ss) ! k) = Some (r \<and> k + 1 = length ss, ss ! k))"
    by (auto simp: offered_def)
  ultimately show ?thesis by (cases "r \<and> ss = []") auto
qed

lemma offers_offered: "offers frame xs s = Some (r, t) \<longleftrightarrow> (\<exists>ss. offered frame xs r ss \<and> hd ss = s \<and> last ss = t)"
proof (induction xs arbitrary: s)
  case Nil
  have "(\<exists>ss. offered frame [] r ss \<and> hd ss = s \<and> last ss = t) \<longleftrightarrow> \<not> r \<and> s = t"
    unfolding offered_Nil by (metis last.simps list.sel(1))
  then show ?case by auto
next
  case (Cons x xs)
  have ex: "(\<exists>ss. offered frame (x # xs) r ss \<and> hd ss = s \<and> last ss = t) \<longleftrightarrow>
      (\<exists>u ss. offered frame (x # xs) r (s # u # ss) \<and> last (u # ss) = t)"
  proof
    assume "\<exists>ss. offered frame (x # xs) r ss \<and> hd ss = s \<and> last ss = t"
    then obtain ss where ss: "offered frame (x # xs) r ss" "hd ss = s" "last ss = t" by blast
    then obtain us where us: "ss = s # us" by (cases ss) (auto simp: offered_def)
    have "us \<noteq> []" using ss(1) offered_single [of frame x xs r s] unfolding us by blast
    then obtain u vs where vs: "us = u # vs" by (cases us) auto
    have "offered frame (x # xs) r (s # u # vs) \<and> last (u # vs) = t" using ss us vs by simp
    then show "\<exists>u ss. offered frame (x # xs) r (s # u # ss) \<and> last (u # ss) = t" by blast
  qed (metis last_ConsR list.distinct(1) list.sel(1))
  have in_list: "(\<exists>ss. offered frame xs r (u # ss) \<and> last (u # ss) = t) \<longleftrightarrow> (\<exists>ss. offered frame xs r ss \<and> hd ss = u \<and> last ss = t)" for u
    by (metis list.collapse list.sel(1) offered_def)
  show ?case
  proof (cases "offer frame x s")
    case None
    then show ?thesis unfolding ex offered_Cons by simp
  next
    case (Some cu)
    obtain c u where cu: "cu = (c, u)" by (cases cu)
    have "offers frame (x # xs) s = Some (r, t) \<longleftrightarrow> (if c then r \<and> u = t else offers frame xs u = Some (r, t))"
      using Some by (auto simp: cu)
    also have "\<dots> \<longleftrightarrow> (\<exists>ss. (if c then r \<and> ss = [] else offered frame xs r (u # ss)) \<and> last (u # ss) = t)"
      using Cons.IH [of u] in_list [of u] by (cases c) auto
    also have "\<dots> \<longleftrightarrow> (\<exists>v ss. offered frame (x # xs) r (s # v # ss) \<and> last (v # ss) = t)"
      unfolding offered_Cons Some cu by auto
    finally show ?thesis unfolding ex .
  qed
qed

text \<open>The bytes handed to the transport behind a stored link header.\<close>

lemma inject_with_prefix:
  assumes "6 \<le> frame_len" and "frame_len \<le> length fm" and "fc_initialized c"
    and "inj_valid (hc_inject (fc_ctx c))" and "inj_transport_self (hc_inject (fc_ctx c)) = Some self"
    and "fc_real_transport c"
    and "inj_prefix_buf (hc_inject (fc_ctx c)) = Some pb" and "inj_prefix_len (hc_inject (fc_ctx c)) = length pb"
    and "9 \<le> length pb" and "be16 (pb ! 2) (pb ! 3) \<noteq> 0"
  shows "\<exists>out. hook_inject_frame ts True (Some fm) frame_len c =
      Some (if ts (fc_tx c) (Some self) out \<noteq> 0 then HOOK_ERR_IO else HOOK_OK,
            c\<lparr> fc_in_send := False, fc_tx := fc_tx c @ [(Some self, out)] \<rparr>) \<and>
    length out = length pb + frame_len + 1 \<and>
    slice out (length pb) frame_len = take frame_len fm \<and>
    sum8 (drop (length pb) out) = 0 \<and> sum8 (take (length pb) out) = 0 \<and>
    read_be16 out 2 = Some (of_nat (length out)) \<and>
    (\<forall>i < length pb. i \<notin> {2, 3, length pb - 1} \<longrightarrow> out ! i = pb ! i)"
proof -
  let ?f = "take frame_len fm" and ?n = "length pb"
  let ?k = "0 - sum8 ?f"
  let ?raw = "pb @ ?f @ [?k]"
  have lf: "length ?f = frame_len" using assms(2) by simp
  have ne: "pb \<noteq> []" using assms(9) by auto
  have l: "length ?raw = 0 + (?n + (frame_len + 1))" using lf by simp
  have w1: "wr_mem (replicate (?n + frame_len + 1) 0) 0 pb = Some (pb @ replicate (frame_len + 1) 0)"
    by (simp add: wr_mem_def patch_def add.assoc drop_replicate)
  have w2: "wr_mem (pb @ replicate (frame_len + 1) 0) ?n ?f = Some (pb @ ?f @ [0])"
  proof -
    have r: "replicate (frame_len + 1) 0 = replicate frame_len (0 :: u8) @ [0]"
      by (simp add: replicate_append_same)
    show ?thesis unfolding r using lf by (simp add: wr_mem_def patch_def)
  qed
  have w3: "wr8 (pb @ ?f @ [0]) (?n + frame_len) ?k = Some ?raw"
    using lf by (simp add: wr8_def list_update_append)
  have k: "iap2_cksum_neg fm (Some 0) frame_len = Some ?k"
    using assms(2) by (simp add: iap2_cksum_neg_def rd_mem_def slice_def)
  have hdr: "be16 (?raw ! (0 + 2)) (?raw ! (0 + 3)) \<noteq> 0"
    using assms(9,10) by (simp add: nth_append)
  obtain out where out: "iap2_patch_link_header ?raw (Some 0) ?n (?n + frame_len + 1) = Some out"
    "length out = length ?raw" "read_be16 out (0 + 2) = Some (of_nat (?n + frame_len + 1))"
    "sum8 (slice out 0 ?n) = 0"
    "\<forall>i < length ?raw. i \<noteq> 0 + 2 \<longrightarrow> i \<noteq> 0 + 3 \<longrightarrow> i \<noteq> 0 + (?n - 1) \<longrightarrow> out ! i = ?raw ! i"
    using patch_link_header_spec [OF l assms(9) hdr, of "?n + frame_len + 1"] by blast
  have tail: "drop ?n out = ?f @ [?k]"
  proof (rule nth_equalityI)
    show "length (drop ?n out) = length (?f @ [?k])" using out(2) lf by simp
    fix i assume "i < length (drop ?n out)"
    then have "i < frame_len + 1" using out(2) lf by simp
    then show "drop ?n out ! i = (?f @ [?k]) ! i"
      using out(2,5) lf assms(9) by (simp add: nth_append)
  qed
  have "hook_inject_frame ts True (Some fm) frame_len c =
      Some (if ts (fc_tx c) (Some self) out \<noteq> 0 then HOOK_ERR_IO else HOOK_OK,
            c\<lparr> fc_in_send := False, fc_tx := fc_tx c @ [(Some self, out)] \<rparr>)"
    using assms w1 w2 w3 k out(1) ne
    by (simp add: hook_inject_frame_def Let_def rd_mem_def slice_def transport_send_def lf)
  moreover have "slice out ?n frame_len = ?f"
    using tail lf by (simp add: slice_def)
  moreover have "sum8 (drop ?n out) = 0" unfolding tail by simp
  moreover have "sum8 (take ?n out) = 0" using out(4) by (simp add: slice_def)
  moreover have "\<forall>i < ?n. i \<notin> {2, 3, ?n - 1} \<longrightarrow> out ! i = pb ! i"
    using out(5) by (simp add: nth_append)
  ultimately show ?thesis using out(2,3) lf by (intro exI [of _ out]) simp
qed

section \<open>Properties\<close>

lemma unregister_loop_spec:
  "distinct (map hm_name xs) \<Longrightarrow>
   unregister_loop n xs = (if n \<in> hm_name ` set xs then HOOK_OK else HOOK_ERR_NOT_FOUND,
     map (\<lambda>md. if hm_name md = n then deactivate md else md) xs)"
proof (induction xs)
  case (Cons x xs)
  have "(if hm_name md = n then deactivate md else md) = md" if "hm_name x = n" "md \<in> set xs" for md
  proof -
    have "hm_name md \<noteq> n" using Cons.prems that by (metis distinct.simps(2) image_eqI list.set_map list.simps(9))
    then show ?thesis by simp
  qed
  then have "map (\<lambda>md. if hm_name md = n then deactivate md else md) xs = xs" if "hm_name x = n"
    using that by (intro map_idI) simp
  then show ?case using Cons by auto
qed simp

text \<open>Property C6. Registering keeps the registry well formed (at most 16 modules,
  distinct names, sorted by priority) and does exactly one of: refuse when 16
  modules are registered, succeed without effect when the name is known, or
  insert the module, active, behind all modules of the same or an earlier
  priority.  Unregistering only clears the active flag of the named module.\<close>

theorem registry_operations:
  assumes "registry_ok ms"
  shows "(case hook_framework_register_module (Some d) ms of (r, ms') \<Rightarrow>
      registry_ok ms' \<and>
      (if length ms \<ge> MAX_MODULES then r = HOOK_ERR_BUSY \<and> ms' = ms
       else if hm_name d \<in> hm_name ` set ms then r = HOOK_OK \<and> ms' = ms
       else r = HOOK_OK \<and> ms' = register_spec d ms)) \<and>
    (case hook_framework_unregister_module (Some n) ms of (r, ms') \<Rightarrow>
      registry_ok ms' \<and> (r = HOOK_OK \<longleftrightarrow> n \<in> hm_name ` set ms) \<and>
      ms' = map (\<lambda>md. if hm_name md = n then deactivate md else md) ms)"
proof -
  note u = unregister_loop_spec
  have k: "map hm_name (map (\<lambda>md. if hm_name md = n then deactivate md else md) ms) = map hm_name ms"
    "map hm_priority (map (\<lambda>md. if hm_name md = n then deactivate md else md) ms) = map hm_priority ms"
    by (auto simp: deactivate_def)
  have un: "case hook_framework_unregister_module (Some n) ms of (r, ms') \<Rightarrow>
      registry_ok ms' \<and> (r = HOOK_OK \<longleftrightarrow> n \<in> hm_name ` set ms) \<and>
      ms' = map (\<lambda>md. if hm_name md = n then deactivate md else md) ms"
  proof -
    have "hook_framework_unregister_module (Some n) ms = (if n \<in> hm_name ` set ms then HOOK_OK else HOOK_ERR_NOT_FOUND,
        map (\<lambda>md. if hm_name md = n then deactivate md else md) ms)"
      using assms u [of ms n] by (simp add: hook_framework_unregister_module_def registry_ok_def)
    moreover have "registry_ok (map (\<lambda>md. if hm_name md = n then deactivate md else md) ms)"
      using assms unfolding registry_ok_def k by simp
    ultimately show ?thesis by simp
  qed
  have ex: "list_ex (\<lambda>md. hm_name md = hm_name d) ms \<longleftrightarrow> hm_name d \<in> hm_name ` set ms"
    unfolding list_ex_iff image_iff by metis
  have "case hook_framework_register_module (Some d) ms of (r, ms') \<Rightarrow>
      registry_ok ms' \<and>
      (if length ms \<ge> MAX_MODULES then r = HOOK_ERR_BUSY \<and> ms' = ms
       else if hm_name d \<in> hm_name ` set ms then r = HOOK_OK \<and> ms' = ms
       else r = HOOK_OK \<and> ms' = register_spec d ms)"
  proof (cases "length ms \<ge> MAX_MODULES \<or> hm_name d \<in> hm_name ` set ms")
    case True
    then show ?thesis using assms ex by (auto simp: hook_framework_register_module_def)
  next
    case False
    then show ?thesis
      using assms ex register_new [of ms d] register_spec_ok [of ms d] by (simp add: not_le)
  qed
  then show ?thesis using un by simp
qed

definition module_named :: "string \<Rightarrow> int \<Rightarrow> (fw_core \<times> string list) hook_module" where
  "module_named n p = \<lparr> hm_name = n, hm_priority = p, hm_msg_filter = None, hm_on_message =
     Some (\<lambda>f s. Some (n = ''b'', fst s, snd s @ [n])), hm_on_identify = None, hm_on_state = None,
     hm_on_transport_send = None, hm_active = True \<rparr>"

lemma registry_operations_witness:
  "\<exists>r. hook_framework_register_module (Some (module_named ''b'' 50)) [module_named ''a'' 50, module_named ''c'' 75] =
     (r, [module_named ''a'' 50, module_named ''b'' 50, module_named ''c'' 75]) \<and> r = HOOK_OK"
proof -
  have ok: "registry_ok [module_named ''a'' 50, module_named ''c'' 75]"
    by (simp add: registry_ok_def module_named_def MAX_MODULES_def)
  show ?thesis
    using registry_operations [OF ok, of "module_named ''b'' 50"]
    by (auto simp: MAX_MODULES_def register_spec_def module_named_def split: prod.splits)
qed

text \<open>Property C29. A module that was unregistered cannot come back: registering it
  again reports success but leaves the registry as it is, with the module
  inactive.\<close>

theorem reregister_stays_inactive:
  assumes "length ms < MAX_MODULES" and "hm_name d \<in> hm_name ` set ms" and "distinct (map hm_name ms)"
  shows "\<exists>ms'. hook_framework_unregister_module (Some (hm_name d)) ms = (HOOK_OK, ms') \<and>
    hook_framework_register_module (Some d) ms' = (HOOK_OK, ms') \<and>
    (\<forall>md \<in> set ms'. hm_name md = hm_name d \<longrightarrow> \<not> hm_active md)"
proof -
  define ms' where "ms' = map (\<lambda>md. if hm_name md = hm_name d then deactivate md else md) ms"
  have u: "unregister_loop (hm_name d) ms = (HOOK_OK, ms')" "map hm_name ms' = map hm_name ms"
    "\<forall>md \<in> set ms'. hm_name md = hm_name d \<longrightarrow> \<not> hm_active md"
    using unregister_loop_spec [OF assms(3), of "hm_name d"] assms(2)
    by (auto simp: ms'_def deactivate_def)
  have "length ms' < MAX_MODULES" using assms(1) u(2) by (metis length_map)
  moreover have "list_ex (\<lambda>md. hm_name md = hm_name d) ms'"
    using assms(2) u(2) by (auto simp: list_ex_iff) (metis (no_types, lifting) image_iff list.set_map)
  ultimately show ?thesis
    using u by (auto simp: hook_framework_unregister_module_def hook_framework_register_module_def)
qed

lemma reregister_stays_inactive_witness:
  "\<exists>ms'. hook_framework_register_module (Some (module_named ''a'' 50)) ms' = (HOOK_OK, ms') \<and>
     (\<forall>md \<in> set ms'. hm_name md = ''a'' \<longrightarrow> \<not> hm_active md)"
  using reregister_stays_inactive [of "[module_named ''a'' 50]" "module_named ''a'' 50"]
  by (auto simp: module_named_def MAX_MODULES_def)

text \<open>Property C30. Whatever the callbacks of the modules do, dispatch_message
  returns exactly when the following run of calls exists, with its result.
  The active modules that handle messages and whose filter takes the id are
  called one after the other, in the order of the registry, each with this
  frame, with itself as the current module and the id in the context, and with
  the state the call before left.  Every call but the last left the message;
  when the result is that it was consumed, the last one consumed it and no
  other module is called; when it is not, all of them were called and none
  consumed it.  The last call's state is the result, without a current
  module.\<close>

theorem dispatch_order:
  "dispatch_message frame ms s = Some (r, s') \<longleftrightarrow>
   (\<exists>ss. let xs = filter (\<lambda>x. eligible (fr_msgid frame) (snd x)) (enumerate 0 ms) in
      ss \<noteq> [] \<and> hd ss = s \<and> s' = set_current None (last ss) \<and>
      length ss \<le> length xs + 1 \<and> (if r then 1 < length ss else length ss = length xs + 1) \<and>
      (\<forall>k < length ss - 1. case xs ! k of (i, md) \<Rightarrow> \<exists>cb. hm_on_message md = Some cb \<and>
         cb frame (upd_ctx (\<lambda>c. c\<lparr> hc_current_module := Some i, hc_msgid := fr_msgid frame \<rparr>) (ss ! k)) =
           Some (r \<and> k + 2 = length ss, ss ! (k + 1))))"
proof -
  let ?xs = "filter (\<lambda>x. eligible (fr_msgid frame) (snd x)) (enumerate 0 ms)"
  have call: "offer frame x s = Some y \<longleftrightarrow> (case x of (i, md) \<Rightarrow> \<exists>cb. hm_on_message md = Some cb \<and>
      cb frame (upd_ctx (\<lambda>c. c\<lparr> hc_current_module := Some i, hc_msgid := fr_msgid frame \<rparr>) s) = Some y)" for x s y
    by (auto simp: offer_def split: option.splits prod.splits)
  have "dispatch_message frame ms s = Some (r, s') \<longleftrightarrow> (\<exists>t. offers frame ?xs s = Some (r, t) \<and> s' = set_current None t)"
    by (auto simp: dispatch_message_def dispatch_loop_offers)
  also have "\<dots> \<longleftrightarrow> (\<exists>ss. offered frame ?xs r ss \<and> hd ss = s \<and> s' = set_current None (last ss))"
    unfolding offers_offered by blast
  finally show ?thesis unfolding offered_def call Let_def by blast
qed

definition core0 :: fw_core where
  "core0 = \<lparr> fc_ctx = zero_ctx, fc_initialized = False, fc_in_send = False, fc_real_transport = True,
     fc_cksum_checked = False, fc_bus = bus0, fc_tx = [] \<rparr>"

lemma dispatch_order_witness:
  "\<exists>c'. dispatch_message \<lparr> fr_msgid = 0x5201, fr_len = 6, fr_offset = 0, fr_payload = None, fr_payload_len = 0 \<rparr>
       [module_named ''a'' 1, deactivate (module_named ''x'' 2), module_named ''b'' 3, module_named ''c'' 4] (core0, []) =
     Some (True, c', [''a'', ''b''])"
proof -
  let ?f = "\<lparr> fr_msgid = 0x5201, fr_len = 6, fr_offset = 0, fr_payload = None, fr_payload_len = 0 \<rparr>"
  let ?ms = "[module_named ''a'' 1, deactivate (module_named ''x'' 2), module_named ''b'' 3, module_named ''c'' 4]"
  define at where "at i s = upd_ctx (\<lambda>c. c\<lparr> hc_current_module := Some i, hc_msgid := 0x5201 \<rparr>) s"
    for i and s :: "fw_core \<times> string list"
  define s1 where "s1 = (fst (at 0 (core0, [])), [''a''])"
  define s2 where "s2 = (fst (at 2 s1), [''a'', ''b''])"
  let ?ss = "[(core0, []), s1, s2]"
  have xs: "filter (\<lambda>x. eligible (fr_msgid ?f) (snd x)) (enumerate 0 ?ms) =
      [(0, module_named ''a'' 1), (2, module_named ''b'' 3), (3, module_named ''c'' 4)]"
    by (simp add: eligible_def module_named_def module_wants_message_def deactivate_def)
  have calls: "case [(0, module_named ''a'' 1), (2, module_named ''b'' 3), (3, module_named ''c'' 4)] ! k of
      (i, md) \<Rightarrow> \<exists>cb. hm_on_message md = Some cb \<and>
       cb ?f (upd_ctx (\<lambda>c. c\<lparr> hc_current_module := Some i, hc_msgid := fr_msgid ?f \<rparr>) (?ss ! k)) =
         Some (True \<and> k + 2 = length ?ss, ?ss ! (k + 1))" if "k < length ?ss - 1" for k
  proof -
    have "k = 0 \<or> k = 1" using that by auto
    then show ?thesis by (auto simp: module_named_def s1_def s2_def at_def upd_ctx_def)
  qed
  have "dispatch_message ?f ?ms (core0, []) = Some (True, set_current None s2)"
    unfolding dispatch_order xs Let_def
    by (rule exI [of _ ?ss]) (use calls in simp)
  then show ?thesis by (simp add: set_current_def upd_ctx_def s2_def)
qed

text \<open>Property C15. With a stored link header of nonzero length, an injected frame goes
  to the stored transport once, as the header, the frame and one checksum byte:
  the header's length field is the total, the header and the frame with its
  checksum each sum to 0 modulo 256, every other header byte is the stored
  one, no byte outside a buffer is touched, and in_send is cleared.\<close>

theorem injected_frame_well_formed:
  assumes "6 \<le> frame_len" and "frame_len \<le> length fm" and "fc_initialized c"
    and "inj_valid (hc_inject (fc_ctx c))" and "inj_transport_self (hc_inject (fc_ctx c)) = Some self"
    and "fc_real_transport c"
    and "inj_prefix_buf (hc_inject (fc_ctx c)) = Some pb" and "inj_prefix_len (hc_inject (fc_ctx c)) = length pb"
    and "9 \<le> length pb" and "be16 (pb ! 2) (pb ! 3) \<noteq> 0"
  shows "\<exists>out. hook_inject_frame ts True (Some fm) frame_len c =
      Some (if ts (fc_tx c) (Some self) out \<noteq> 0 then HOOK_ERR_IO else HOOK_OK,
            c\<lparr> fc_in_send := False, fc_tx := fc_tx c @ [(Some self, out)] \<rparr>) \<and>
    length out = length pb + frame_len + 1 \<and>
    slice out (length pb) frame_len = take frame_len fm \<and>
    sum8 (drop (length pb) out) = 0 \<and> sum8 (take (length pb) out) = 0 \<and>
    read_be16 out 2 = Some (of_nat (length out)) \<and>
    (\<forall>i < length pb. i \<notin> {2, 3, length pb - 1} \<longrightarrow> out ! i = pb ! i)"
  by (rule inject_with_prefix [OF assms])

definition core_ready :: fw_core where
  "core_ready = core0\<lparr> fc_initialized := True, fc_ctx := zero_ctx\<lparr> hc_inject :=
     \<lparr> inj_prefix_buf = Some [0xFF, 0x5A, 0, 20, 0x40, 1, 2, 3, 0], inj_prefix_len = 9,
       inj_original_total_len = 20, inj_transport_self = Some 7, inj_valid = True \<rparr> \<rparr> \<rparr>"

lemma injected_frame_well_formed_witness:
  "\<exists>out. hook_inject_frame (\<lambda>_ _ _. 0) True (Some [0x40, 0x40, 0, 6, 0x52, 0]) 6 core_ready =
      Some (HOOK_OK, core_ready\<lparr> fc_in_send := False, fc_tx := [(Some 7, out)] \<rparr>) \<and>
    length out = 16 \<and> sum8 (drop 9 out) = 0"
proof -
  have b: "be16 ([0xFF, 0x5A, 0, 20, 0x40, 1, 2, 3, 0] ! 2) ([0xFF, 0x5A, 0, 20, 0x40, 1, 2, 3, 0] ! 3) \<noteq> 0"
    by code_simp
  show ?thesis
    using injected_frame_well_formed [of 6 "[0x40, 0x40, 0, 6, 0x52, 0]" core_ready 7
        "[0xFF, 0x5A, 0, 20, 0x40, 1, 2, 3, 0]" "\<lambda>_ _ _. 0", OF _ _ _ _ _ _ _ _ _ b]
    by (auto simp: core_ready_def core0_def)
qed

text \<open>hook_inject_frame on every input whose buffers are as long as
  stated: it never faults; when it starts with in_send clear it ends with
  in_send clear on every branch; the transport is called at most once, and
  exactly when the result is not a parameter, initialisation or memory error
  and the injection context is valid.\<close>

theorem inject_frame_total:
  assumes "\<And>fm. frame = Some fm \<Longrightarrow> frame_len \<le> length fm" and "\<not> fc_in_send c"
    and "\<And>pb. inj_prefix_buf (hc_inject (fc_ctx c)) = Some pb \<Longrightarrow>
      inj_prefix_len (hc_inject (fc_ctx c)) \<le> length pb"
  shows "\<exists>r c'. hook_inject_frame ts alloc frame frame_len c = Some (r, c') \<and> \<not> fc_in_send c' \<and>
    (fc_tx c' = fc_tx c \<or> (\<exists>self out. fc_tx c' = fc_tx c @ [(self, out)])) \<and>
    (frame = None \<or> frame_len < 6 \<longrightarrow> r = HOOK_ERR_PARAM \<and> c' = c) \<and>
    (r = HOOK_OK \<longrightarrow> fc_tx c' \<noteq> fc_tx c)"
proof (cases frame)
  case None
  then show ?thesis using assms(2) by (simp add: hook_inject_frame_def)
next
  case (Some fm)
  let ?inj = "hc_inject (fc_ctx c)"
  have fl: "frame_len \<le> length fm" using assms(1) Some by blast
  have lt: "link_scan m 0 n 0 = Some (1, 2, be16 (m ! 2) (m ! 3))" if "9 \<le> n" "n \<le> length m" for m n
    using link_scan_at_2 [of n 0 m] that by simp
  have pt: "\<exists>m'. iap2_patch_link_header m (Some 0) n t = Some m'" if "n \<le> length m" for m n t
    using that lt [of n m] by (auto simp: iap2_patch_link_header_def mem_simps)
  show ?thesis
  proof (cases "frame_len < 6 \<or> \<not> fc_initialized c \<or> \<not> inj_valid ?inj \<or> inj_transport_self ?inj = None \<or> \<not> fc_real_transport c")
    case True
    then show ?thesis using assms(2) Some by (auto simp: hook_inject_frame_def Let_def)
  next
    case go: False
    show ?thesis
    proof (cases "\<exists>pb. inj_prefix_buf ?inj = Some pb \<and> inj_prefix_len ?inj > 0")
      case False
      then have "hook_inject_frame ts alloc frame frame_len c =
        (let (ret, c) = transport_send ts (inj_transport_self ?inj) (slice fm 0 frame_len) (c\<lparr> fc_in_send := True \<rparr>)
         in Some (if ret \<noteq> 0 then HOOK_ERR_IO else HOOK_OK, c\<lparr> fc_in_send := False \<rparr>))"
        using go Some fl by (auto simp: hook_inject_frame_def Let_def rd_mem_def split: option.splits)
      then show ?thesis using go Some by (simp add: transport_send_def)
    next
      case True
      then obtain pb where pb: "inj_prefix_buf ?inj = Some pb" "inj_prefix_len ?inj > 0" by blast
      let ?n = "inj_prefix_len ?inj"
      have n: "?n \<le> length pb" using assms(3) pb by blast
      show ?thesis
      proof (cases alloc)
        case False
        then show ?thesis using go Some pb by (auto simp: hook_inject_frame_def Let_def)
      next
        case al: True
        have n1: "length (slice pb 0 ?n) = ?n" "length (slice fm 0 frame_len) = frame_len" using n fl by simp_all
        obtain m1 where m1: "wr_mem (replicate (?n + frame_len + 1) 0) 0 (slice pb 0 ?n) = Some m1" "length m1 = ?n + frame_len + 1"
          using n1 by (simp add: wr_mem_def)
        obtain m2 where m2: "wr_mem m1 ?n (slice fm 0 frame_len) = Some m2" "length m2 = ?n + frame_len + 1"
          using n1 m1 by (simp add: wr_mem_def)
        obtain m3 where m3: "wr8 m2 (?n + frame_len) (0 - sum8 (slice fm 0 frame_len)) = Some m3" "length m3 = ?n + frame_len + 1"
          using m2 by (simp add: wr8_def)
        obtain m4 where m4: "iap2_patch_link_header m3 (Some 0) ?n (?n + frame_len + 1) = Some m4"
          using pt [of ?n m3 "?n + frame_len + 1"] m3(2) by auto
        have "hook_inject_frame ts alloc frame frame_len c =
          (let (ret, c) = transport_send ts (inj_transport_self ?inj) m4 (c\<lparr> fc_in_send := True \<rparr>)
           in Some (if ret \<noteq> 0 then HOOK_ERR_IO else HOOK_OK, c\<lparr> fc_in_send := False \<rparr>))"
          using go Some pb al n fl m1(1) m2(1) m3(1) m4
          by (auto simp: hook_inject_frame_def Let_def rd_mem_def iap2_cksum_neg_def)
        then show ?thesis using go Some by (simp add: transport_send_def)
      qed
    qed
  qed
qed

lemma inject_frame_total_witness:
  "\<exists>r c'. hook_inject_frame (\<lambda>_ _ _. 1) True (Some [0x40, 0x40, 0, 6, 0x52, 0]) 6 core0 = Some (r, c') \<and>
    \<not> fc_in_send c'"
  using inject_frame_total [of "Some [0x40, 0x40, 0, 6, 0x52, 0]" 6 core0 "\<lambda>_ _ _. 1" True]
  by (auto simp: core0_def zero_ctx_def zero_inject_def)

end
