(* ===== verification/Rgd_Data.thy ===== *)
theory Rgd_Data
  imports Iap2_Protocol
begin

text \<open>
  c_hook/routeguidance/rgd_tlv.h: the TLV ids of the route guidance messages,
  the bits of the present masks and the three structures the parsers fill.

  A fixed array with its element count is the list of its valid elements, a
  char array the C string in it (the characters before the first NUL); the
  parsers never read what is behind the count or the terminator.
\<close>

section \<open>Identifiers and masks\<close>

definition IDENT_TLV_ROUTE_GUIDANCE_COMPONENT :: u16 where "IDENT_TLV_ROUTE_GUIDANCE_COMPONENT = 0x001E"

definition RGD_COMP_COMPONENT_ID :: u16 where "RGD_COMP_COMPONENT_ID = 0x0000"
definition RGD_COMP_NAME :: u16 where "RGD_COMP_NAME = 0x0001"
definition RGD_COMP_MAX_CURRENT_ROAD_NAME :: u16 where "RGD_COMP_MAX_CURRENT_ROAD_NAME = 0x0002"
definition RGD_COMP_MAX_DEST_NAME :: u16 where "RGD_COMP_MAX_DEST_NAME = 0x0003"
definition RGD_COMP_MAX_AFTER_MANEUVER_NAME :: u16 where "RGD_COMP_MAX_AFTER_MANEUVER_NAME = 0x0004"
definition RGD_COMP_MAX_MANEUVER_DESC :: u16 where "RGD_COMP_MAX_MANEUVER_DESC = 0x0005"
definition RGD_COMP_MAX_MANEUVER_CAPACITY :: u16 where "RGD_COMP_MAX_MANEUVER_CAPACITY = 0x0006"
definition RGD_COMP_MAX_LANE_GUIDANCE_DESC :: u16 where "RGD_COMP_MAX_LANE_GUIDANCE_DESC = 0x0007"
definition RGD_COMP_MAX_LANE_GUIDANCE_CAPACITY :: u16 where "RGD_COMP_MAX_LANE_GUIDANCE_CAPACITY = 0x0008"

lemmas comp_ids =  RGD_COMP_COMPONENT_ID_def RGD_COMP_NAME_def RGD_COMP_MAX_CURRENT_ROAD_NAME_def
  RGD_COMP_MAX_DEST_NAME_def RGD_COMP_MAX_AFTER_MANEUVER_NAME_def
  RGD_COMP_MAX_MANEUVER_DESC_def RGD_COMP_MAX_MANEUVER_CAPACITY_def
  RGD_COMP_MAX_LANE_GUIDANCE_DESC_def RGD_COMP_MAX_LANE_GUIDANCE_CAPACITY_def

definition RGD_TLV_COMPONENT_ID :: u16 where "RGD_TLV_COMPONENT_ID = 0x0000"
definition RGD_TLV_ROUTE_GUIDANCE_STATE :: u16 where "RGD_TLV_ROUTE_GUIDANCE_STATE = 0x0001"
definition RGD_TLV_MANEUVER_STATE :: u16 where "RGD_TLV_MANEUVER_STATE = 0x0002"
definition RGD_TLV_CURRENT_ROAD_NAME :: u16 where "RGD_TLV_CURRENT_ROAD_NAME = 0x0003"
definition RGD_TLV_DESTINATION_NAME :: u16 where "RGD_TLV_DESTINATION_NAME = 0x0004"
definition RGD_TLV_ETA :: u16 where "RGD_TLV_ETA = 0x0005"
definition RGD_TLV_TIME_REMAINING :: u16 where "RGD_TLV_TIME_REMAINING = 0x0006"
definition RGD_TLV_DISTANCE_REMAINING :: u16 where "RGD_TLV_DISTANCE_REMAINING = 0x0007"
definition RGD_TLV_DISTANCE_STRING :: u16 where "RGD_TLV_DISTANCE_STRING = 0x0008"
definition RGD_TLV_DISTANCE_UNITS :: u16 where "RGD_TLV_DISTANCE_UNITS = 0x0009"
definition RGD_TLV_DIST_TO_MANEUVER :: u16 where "RGD_TLV_DIST_TO_MANEUVER = 0x000A"
definition RGD_TLV_DIST_TO_MANEUVER_STRING :: u16 where "RGD_TLV_DIST_TO_MANEUVER_STRING = 0x000B"
definition RGD_TLV_DIST_TO_MANEUVER_UNITS :: u16 where "RGD_TLV_DIST_TO_MANEUVER_UNITS = 0x000C"
definition RGD_TLV_MANEUVER_LIST :: u16 where "RGD_TLV_MANEUVER_LIST = 0x000D"
definition RGD_TLV_MANEUVER_COUNT :: u16 where "RGD_TLV_MANEUVER_COUNT = 0x000E"
definition RGD_TLV_VISIBLE_IN_APP :: u16 where "RGD_TLV_VISIBLE_IN_APP = 0x000F"
definition RGD_TLV_LANE_GUIDANCE_INDEX :: u16 where "RGD_TLV_LANE_GUIDANCE_INDEX = 0x0010"
definition RGD_TLV_LANE_GUIDANCE_TOTAL :: u16 where "RGD_TLV_LANE_GUIDANCE_TOTAL = 0x0011"
definition RGD_TLV_LANE_GUIDANCE_SHOWING :: u16 where "RGD_TLV_LANE_GUIDANCE_SHOWING = 0x0012"
definition RGD_TLV_SOURCE_NAME :: u16 where "RGD_TLV_SOURCE_NAME = 0x0013"
definition RGD_TLV_SOURCE_SUPPORTS_RG :: u16 where "RGD_TLV_SOURCE_SUPPORTS_RG = 0x0014"

lemmas upd_ids =  RGD_TLV_COMPONENT_ID_def RGD_TLV_ROUTE_GUIDANCE_STATE_def RGD_TLV_MANEUVER_STATE_def
  RGD_TLV_CURRENT_ROAD_NAME_def RGD_TLV_DESTINATION_NAME_def RGD_TLV_ETA_def
  RGD_TLV_TIME_REMAINING_def RGD_TLV_DISTANCE_REMAINING_def RGD_TLV_DISTANCE_STRING_def
  RGD_TLV_DISTANCE_UNITS_def RGD_TLV_DIST_TO_MANEUVER_def
  RGD_TLV_DIST_TO_MANEUVER_STRING_def RGD_TLV_DIST_TO_MANEUVER_UNITS_def
  RGD_TLV_MANEUVER_LIST_def RGD_TLV_MANEUVER_COUNT_def RGD_TLV_VISIBLE_IN_APP_def
  RGD_TLV_LANE_GUIDANCE_INDEX_def RGD_TLV_LANE_GUIDANCE_TOTAL_def
  RGD_TLV_LANE_GUIDANCE_SHOWING_def RGD_TLV_SOURCE_NAME_def RGD_TLV_SOURCE_SUPPORTS_RG_def

definition RGD_UPD_COMPONENT_IDS :: u64 where "RGD_UPD_COMPONENT_IDS = flag 0"
definition RGD_UPD_ROUTE_STATE :: u64 where "RGD_UPD_ROUTE_STATE = flag 1"
definition RGD_UPD_MANEUVER_STATE :: u64 where "RGD_UPD_MANEUVER_STATE = flag 2"
definition RGD_UPD_CURRENT_ROAD :: u64 where "RGD_UPD_CURRENT_ROAD = flag 3"
definition RGD_UPD_DESTINATION :: u64 where "RGD_UPD_DESTINATION = flag 4"
definition RGD_UPD_ETA :: u64 where "RGD_UPD_ETA = flag 5"
definition RGD_UPD_TIME_REMAINING :: u64 where "RGD_UPD_TIME_REMAINING = flag 6"
definition RGD_UPD_DISTANCE_REMAINING :: u64 where "RGD_UPD_DISTANCE_REMAINING = flag 7"
definition RGD_UPD_DISTANCE_STRING :: u64 where "RGD_UPD_DISTANCE_STRING = flag 8"
definition RGD_UPD_DISTANCE_UNITS :: u64 where "RGD_UPD_DISTANCE_UNITS = flag 9"
definition RGD_UPD_DIST_TO_MANEUVER :: u64 where "RGD_UPD_DIST_TO_MANEUVER = flag 10"
definition RGD_UPD_DIST_TO_MANEUVER_STR :: u64 where "RGD_UPD_DIST_TO_MANEUVER_STR = flag 11"
definition RGD_UPD_DIST_TO_MANEUVER_UNI :: u64 where "RGD_UPD_DIST_TO_MANEUVER_UNI = flag 12"
definition RGD_UPD_MANEUVER_COUNT :: u64 where "RGD_UPD_MANEUVER_COUNT = flag 13"
definition RGD_UPD_MANEUVER_LIST :: u64 where "RGD_UPD_MANEUVER_LIST = flag 14"
definition RGD_UPD_VISIBLE_IN_APP :: u64 where "RGD_UPD_VISIBLE_IN_APP = flag 15"
definition RGD_UPD_LANE_INDEX :: u64 where "RGD_UPD_LANE_INDEX = flag 16"
definition RGD_UPD_LANE_TOTAL :: u64 where "RGD_UPD_LANE_TOTAL = flag 17"
definition RGD_UPD_LANE_SHOWING :: u64 where "RGD_UPD_LANE_SHOWING = flag 18"
definition RGD_UPD_SOURCE_NAME :: u64 where "RGD_UPD_SOURCE_NAME = flag 19"
definition RGD_UPD_SOURCE_SUPPORTS_RG :: u64 where "RGD_UPD_SOURCE_SUPPORTS_RG = flag 20"
definition RGD_UPD_LANE_SLOT :: u64 where "RGD_UPD_LANE_SLOT = flag 21"

lemmas upd_bits =  RGD_UPD_COMPONENT_IDS_def RGD_UPD_ROUTE_STATE_def RGD_UPD_MANEUVER_STATE_def
  RGD_UPD_CURRENT_ROAD_def RGD_UPD_DESTINATION_def RGD_UPD_ETA_def
  RGD_UPD_TIME_REMAINING_def RGD_UPD_DISTANCE_REMAINING_def RGD_UPD_DISTANCE_STRING_def
  RGD_UPD_DISTANCE_UNITS_def RGD_UPD_DIST_TO_MANEUVER_def RGD_UPD_DIST_TO_MANEUVER_STR_def
  RGD_UPD_DIST_TO_MANEUVER_UNI_def RGD_UPD_MANEUVER_COUNT_def RGD_UPD_MANEUVER_LIST_def
  RGD_UPD_VISIBLE_IN_APP_def RGD_UPD_LANE_INDEX_def RGD_UPD_LANE_TOTAL_def
  RGD_UPD_LANE_SHOWING_def RGD_UPD_SOURCE_NAME_def RGD_UPD_SOURCE_SUPPORTS_RG_def
  RGD_UPD_LANE_SLOT_def

definition RGD_LANE_COMPONENT_IDS :: u64 where "RGD_LANE_COMPONENT_IDS = flag 0"
definition RGD_LANE_GUIDANCE_INDEX :: u64 where "RGD_LANE_GUIDANCE_INDEX = flag 1"
definition RGD_LANE_INFORMATIONS :: u64 where "RGD_LANE_INFORMATIONS = flag 2"
definition RGD_LANE_GUIDANCE_DESC :: u64 where "RGD_LANE_GUIDANCE_DESC = flag 3"

lemmas lane_bits =  RGD_LANE_COMPONENT_IDS_def RGD_LANE_GUIDANCE_INDEX_def RGD_LANE_INFORMATIONS_def
  RGD_LANE_GUIDANCE_DESC_def

definition MAN_TLV_COMPONENT_ID :: u16 where "MAN_TLV_COMPONENT_ID = 0x0000"
definition MAN_TLV_INDEX :: u16 where "MAN_TLV_INDEX = 0x0001"
definition MAN_TLV_DESCRIPTION :: u16 where "MAN_TLV_DESCRIPTION = 0x0002"
definition MAN_TLV_TYPE :: u16 where "MAN_TLV_TYPE = 0x0003"
definition MAN_TLV_AFTER_ROAD_NAME :: u16 where "MAN_TLV_AFTER_ROAD_NAME = 0x0004"
definition MAN_TLV_DISTANCE_BETWEEN :: u16 where "MAN_TLV_DISTANCE_BETWEEN = 0x0005"
definition MAN_TLV_DISTANCE_STRING :: u16 where "MAN_TLV_DISTANCE_STRING = 0x0006"
definition MAN_TLV_DISTANCE_UNITS :: u16 where "MAN_TLV_DISTANCE_UNITS = 0x0007"
definition MAN_TLV_DRIVING_SIDE :: u16 where "MAN_TLV_DRIVING_SIDE = 0x0008"
definition MAN_TLV_JUNCTION_TYPE :: u16 where "MAN_TLV_JUNCTION_TYPE = 0x0009"
definition MAN_TLV_JUNCTION_ANGLES :: u16 where "MAN_TLV_JUNCTION_ANGLES = 0x000A"
definition MAN_TLV_EXIT_ANGLE :: u16 where "MAN_TLV_EXIT_ANGLE = 0x000B"
definition MAN_TLV_LINKED_LANE_GUIDANCE :: u16 where "MAN_TLV_LINKED_LANE_GUIDANCE = 0x000C"
definition MAN_TLV_EXIT_INFO :: u16 where "MAN_TLV_EXIT_INFO = 0x000D"

lemmas man_ids =  MAN_TLV_COMPONENT_ID_def MAN_TLV_INDEX_def MAN_TLV_DESCRIPTION_def MAN_TLV_TYPE_def
  MAN_TLV_AFTER_ROAD_NAME_def MAN_TLV_DISTANCE_BETWEEN_def MAN_TLV_DISTANCE_STRING_def
  MAN_TLV_DISTANCE_UNITS_def MAN_TLV_DRIVING_SIDE_def MAN_TLV_JUNCTION_TYPE_def
  MAN_TLV_JUNCTION_ANGLES_def MAN_TLV_EXIT_ANGLE_def MAN_TLV_LINKED_LANE_GUIDANCE_def
  MAN_TLV_EXIT_INFO_def

definition RGD_MAN_COMPONENT_IDS :: u64 where "RGD_MAN_COMPONENT_IDS = flag 0"
definition RGD_MAN_INDEX :: u64 where "RGD_MAN_INDEX = flag 1"
definition RGD_MAN_DESCRIPTION :: u64 where "RGD_MAN_DESCRIPTION = flag 2"
definition RGD_MAN_TYPE :: u64 where "RGD_MAN_TYPE = flag 3"
definition RGD_MAN_AFTER_ROAD :: u64 where "RGD_MAN_AFTER_ROAD = flag 4"
definition RGD_MAN_DISTANCE_BETWEEN :: u64 where "RGD_MAN_DISTANCE_BETWEEN = flag 5"
definition RGD_MAN_DISTANCE_STRING :: u64 where "RGD_MAN_DISTANCE_STRING = flag 6"
definition RGD_MAN_DISTANCE_UNITS :: u64 where "RGD_MAN_DISTANCE_UNITS = flag 7"
definition RGD_MAN_DRIVING_SIDE :: u64 where "RGD_MAN_DRIVING_SIDE = flag 8"
definition RGD_MAN_JUNCTION_TYPE :: u64 where "RGD_MAN_JUNCTION_TYPE = flag 9"
definition RGD_MAN_JUNCTION_ANGLES :: u64 where "RGD_MAN_JUNCTION_ANGLES = flag 10"
definition RGD_MAN_EXIT_ANGLE :: u64 where "RGD_MAN_EXIT_ANGLE = flag 11"
definition RGD_MAN_LANE_GUIDANCE_RAW :: u64 where "RGD_MAN_LANE_GUIDANCE_RAW = flag 12"
definition RGD_MAN_EXIT_INFO_RAW :: u64 where "RGD_MAN_EXIT_INFO_RAW = flag 13"
definition RGD_MAN_EXIT_INFO_STR :: u64 where "RGD_MAN_EXIT_INFO_STR = flag 14"
definition RGD_MAN_LANE_GUIDANCE :: u64 where "RGD_MAN_LANE_GUIDANCE = flag 15"
definition RGD_MAN_LINKED_LANE_INDEX :: u64 where "RGD_MAN_LINKED_LANE_INDEX = flag 16"

lemmas man_bits =  RGD_MAN_COMPONENT_IDS_def RGD_MAN_INDEX_def RGD_MAN_DESCRIPTION_def RGD_MAN_TYPE_def
  RGD_MAN_AFTER_ROAD_def RGD_MAN_DISTANCE_BETWEEN_def RGD_MAN_DISTANCE_STRING_def
  RGD_MAN_DISTANCE_UNITS_def RGD_MAN_DRIVING_SIDE_def RGD_MAN_JUNCTION_TYPE_def
  RGD_MAN_JUNCTION_ANGLES_def RGD_MAN_EXIT_ANGLE_def RGD_MAN_LANE_GUIDANCE_RAW_def
  RGD_MAN_EXIT_INFO_RAW_def RGD_MAN_EXIT_INFO_STR_def RGD_MAN_LANE_GUIDANCE_def
  RGD_MAN_LINKED_LANE_INDEX_def

definition LANE_MSG_TLV_COMPONENT_ID :: u16 where "LANE_MSG_TLV_COMPONENT_ID = 0x0000"
definition LANE_MSG_TLV_LANE_GUIDANCE_INDEX :: u16 where "LANE_MSG_TLV_LANE_GUIDANCE_INDEX = 0x0001"
definition LANE_MSG_TLV_LANE_INFORMATIONS :: u16 where "LANE_MSG_TLV_LANE_INFORMATIONS = 0x0002"
definition LANE_MSG_TLV_LANE_GUIDANCE_DESC :: u16 where "LANE_MSG_TLV_LANE_GUIDANCE_DESC = 0x0003"

lemmas lane_msg_ids =  LANE_MSG_TLV_COMPONENT_ID_def LANE_MSG_TLV_LANE_GUIDANCE_INDEX_def
  LANE_MSG_TLV_LANE_INFORMATIONS_def LANE_MSG_TLV_LANE_GUIDANCE_DESC_def

definition LANE_INFO_TLV_INDEX :: u16 where "LANE_INFO_TLV_INDEX = 0x0000"
definition LANE_INFO_TLV_STATUS :: u16 where "LANE_INFO_TLV_STATUS = 0x0001"
definition LANE_INFO_TLV_ANGLES :: u16 where "LANE_INFO_TLV_ANGLES = 0x0002"
definition LANE_INFO_TLV_ANGLE_HIGHLIGHT :: u16 where "LANE_INFO_TLV_ANGLE_HIGHLIGHT = 0x0003"

lemmas lane_info_ids =  LANE_INFO_TLV_INDEX_def LANE_INFO_TLV_STATUS_def LANE_INFO_TLV_ANGLES_def
  LANE_INFO_TLV_ANGLE_HIGHLIGHT_def

definition MAX_MANEUVER_LIST :: nat where "MAX_MANEUVER_LIST = 16"
definition MAX_COMPONENT_LIST :: nat where "MAX_COMPONENT_LIST = 8"
definition MAX_LANE_GUIDANCE :: nat where "MAX_LANE_GUIDANCE = 8"
definition MAX_LANE_ANGLES :: nat where "MAX_LANE_ANGLES = 16"
definition MANEUVER_CACHE_SIZE :: nat where "MANEUVER_CACHE_SIZE = 32"
definition RGD_EXIT_INFO_MAX :: nat where "RGD_EXIT_INFO_MAX = 256"

lemmas rgd_max_defs = MAX_MANEUVER_LIST_def MAX_COMPONENT_LIST_def MAX_LANE_GUIDANCE_def
  MAX_LANE_ANGLES_def MANEUVER_CACHE_SIZE_def RGD_EXIT_INFO_MAX_def

definition RGD_STATE_NO_ROUTE_SET :: u8 where "RGD_STATE_NO_ROUTE_SET = 0"
definition RGD_STATE_ROUTE_SET :: u8 where "RGD_STATE_ROUTE_SET = 1"
definition RGD_STATE_ARRIVED :: u8 where "RGD_STATE_ARRIVED = 2"
definition RGD_STATE_LOADING :: u8 where "RGD_STATE_LOADING = 3"
definition RGD_STATE_LOCATING :: u8 where "RGD_STATE_LOCATING = 4"
definition RGD_STATE_REROUTING :: u8 where "RGD_STATE_REROUTING = 5"
definition RGD_STATE_PROCEED_TO_ROUTE :: u8 where "RGD_STATE_PROCEED_TO_ROUTE = 6"
definition RGD_STATE_NOT_ACTIVE :: u8 where "RGD_STATE_NOT_ACTIVE = RGD_STATE_NO_ROUTE_SET"
definition RGD_STATE_ACTIVE :: u8 where "RGD_STATE_ACTIVE = RGD_STATE_ROUTE_SET"

lemmas rgd_state_defs = RGD_STATE_NO_ROUTE_SET_def RGD_STATE_ROUTE_SET_def RGD_STATE_ARRIVED_def
  RGD_STATE_LOADING_def RGD_STATE_LOCATING_def RGD_STATE_REROUTING_def
  RGD_STATE_PROCEED_TO_ROUTE_def RGD_STATE_NOT_ACTIVE_def RGD_STATE_ACTIVE_def

section \<open>The parsed messages\<close>

record rgd_lane =
  ln_position :: u16
  ln_direction :: i16
  ln_status :: u8
  ln_angles :: "i16 list"
  ln_description :: string

record rgd_lane_guidance =
  rl_present :: u64
  rl_component_ids :: "u16 list"
  rl_lane_guidance_index :: u16
  rl_lanes :: "rgd_lane list"
  rl_description :: string

record rgd_update =
  ru_present :: u64
  ru_component_ids :: "u16 list"
  ru_route_state :: u8
  ru_maneuver_state :: u8
  ru_distance_units :: u8
  ru_dist_to_maneuver_units :: u8
  ru_visible_in_app :: u8
  ru_lane_guidance_showing :: u8
  ru_source_supports_rg :: u8
  ru_maneuver_count :: u16
  ru_lane_guidance_index :: u16
  ru_lane_guidance_slot :: i16
  ru_lane_guidance_total :: u16
  ru_distance_remaining :: u32
  ru_dist_to_maneuver :: u32
  ru_eta :: u64
  ru_time_remaining :: u64
  ru_current_road :: string
  ru_destination :: string
  ru_distance_string :: string
  ru_dist_to_maneuver_string :: string
  ru_source_name :: string
  ru_maneuver_list :: "u16 list"

record rgd_maneuver =
  rm_present :: u64
  rm_component_ids :: "u16 list"
  rm_index :: u16
  rm_maneuver_type :: u8
  rm_distance_units :: u8
  rm_driving_side :: u8
  rm_junction_type :: u8
  rm_exit_angle :: i16
  rm_junction_angles :: "i16 list"
  rm_distance_between :: u32
  rm_description :: string
  rm_after_road_name :: string
  rm_distance_string :: string
  rm_lanes :: "rgd_lane list"
  rm_lane_guidance_raw_len :: u16
  rm_linked_lane_guidance_index :: u16
  rm_exit_info_raw_len :: u16
  rm_exit_info_str :: string
  rm_valid :: u8

text \<open>What memset leaves.\<close>

definition zero_lane :: rgd_lane where
  "zero_lane = \<lparr> ln_position = 0, ln_direction = 0, ln_status = 0, ln_angles = [], ln_description = [] \<rparr>"

definition zero_lane_guidance :: rgd_lane_guidance where
  "zero_lane_guidance = \<lparr> rl_present = 0, rl_component_ids = [], rl_lane_guidance_index = 0,
     rl_lanes = [], rl_description = [] \<rparr>"

definition zero_update :: rgd_update where
  "zero_update = \<lparr> ru_present = 0, ru_component_ids = [], ru_route_state = 0, ru_maneuver_state = 0,
     ru_distance_units = 0, ru_dist_to_maneuver_units = 0, ru_visible_in_app = 0,
     ru_lane_guidance_showing = 0, ru_source_supports_rg = 0, ru_maneuver_count = 0,
     ru_lane_guidance_index = 0, ru_lane_guidance_slot = 0, ru_lane_guidance_total = 0,
     ru_distance_remaining = 0, ru_dist_to_maneuver = 0, ru_eta = 0, ru_time_remaining = 0,
     ru_current_road = [], ru_destination = [], ru_distance_string = [],
     ru_dist_to_maneuver_string = [], ru_source_name = [], ru_maneuver_list = [] \<rparr>"

definition zero_maneuver :: rgd_maneuver where
  "zero_maneuver = \<lparr> rm_present = 0, rm_component_ids = [], rm_index = 0, rm_maneuver_type = 0,
     rm_distance_units = 0, rm_driving_side = 0, rm_junction_type = 0, rm_exit_angle = 0,
     rm_junction_angles = [], rm_distance_between = 0, rm_description = [], rm_after_road_name = [],
     rm_distance_string = [], rm_lanes = [], rm_lane_guidance_raw_len = 0,
     rm_linked_lane_guidance_index = 0, rm_exit_info_raw_len = 0, rm_exit_info_str = [], rm_valid = 0 \<rparr>"

end
