(* ===== verification/Rgd_Tlv.thy ===== *)
theory Rgd_Tlv
  imports Rgd_Data
begin

text \<open>
  c_hook/routeguidance/rgd_tlv.c: the parsers of the RouteGuidanceUpdate
  (0x5201), ManeuverUpdate (0x5202) and LaneGuidanceInformation (0x5204)
  messages, and the builder and reader of the component TLV of the Identify
  message.

  The buffer is the object m with the pointer into it; the walk over its TLVs,
  which every parser repeats, is tlv_walk, and the body of a parser's switch a
  function of the TLV's id, its value and the structure filled so far.  Reads
  are checked.  Log output and the RGD_TRACE_RAW_FULL build are not modelled.
\<close>

section \<open>Strings\<close>

text \<open>The loop of replace_newlines over the C string, with what it has written so far
  to tmp, an array of 256 bytes.  The loop goes on only while fewer than 252 are
  written and writes at most three, so a write at the length of tmp is always
  inside the array: newlines_loop_length shows that at most 254 are written, and
  the terminator behind them fits too.\<close>

definition CR :: char where "CR = CHR 0x0D"
definition LF :: char where "LF = CHR 0x0A"

function newlines_loop :: "string \<Rightarrow> string \<Rightarrow> string" where
  "newlines_loop s tmp =
     (case s of [] \<Rightarrow> tmp
      | c # cs \<Rightarrow>
         if length tmp < 256 - 3 - 1 then
           if c = CR \<and> cs \<noteq> [] \<and> hd cs = LF then newlines_loop (tl cs) (tmp @ '' / '')
           else if c = LF \<or> c = CR then newlines_loop cs (tmp @ '' / '')
           else newlines_loop cs (tmp @ [c])
         else tmp)"
  by pat_completeness auto
termination by (relation "measure (\<lambda>(s, t). length s)") auto

declare newlines_loop.simps [simp del]

definition replace_newlines :: "string \<Rightarrow> nat \<Rightarrow> string" where
  "replace_newlines s buf_sz =
     (if buf_sz = 0 then s
      else let tmp = newlines_loop s []; si = length tmp;
               copy = (if si < buf_sz - 1 then si else buf_sz - 1)
           in take copy tmp)"

fun printable_loop :: "bytes \<Rightarrow> string" where
  "printable_loop [] = []"
| "printable_loop (c # cs) =
     (if c = 0 then []
      else (if c \<ge> 0x80 then char_of_byte c
            else if c \<ge> 0x20 \<and> c \<le> 0x7E then char_of_byte c
            else CHR ''?'') # printable_loop cs)"

definition copy_printable_string_preview :: "bytes \<Rightarrow> nat \<Rightarrow> string option" where
  "copy_printable_string_preview v out_sz =
     (if length v = 0 then Some []
      else let max_bytes = (if length v > out_sz - 1 then out_sz - 1 else length v)
           in map_option printable_loop (rd_mem v 0 max_bytes))"

text \<open>A value copied into a char array of cap + 1 bytes and terminated.\<close>

definition field_str :: "nat \<Rightarrow> bytes \<Rightarrow> string option" where
  "field_str cap v =
     (let n = (if length v < cap then length v else cap)
      in map_option (\<lambda>bs. cstr (bytes_str bs)) (rd_mem v 0 n))"

section \<open>Scalars and lists\<close>

definition decode_linked_lane_index :: "bytes \<Rightarrow> u16 option option" where
  "decode_linked_lane_index v =
     (if length v < 2 then Some None else map_option Some (read_be16 v 0))"

text \<open>The loops \<open>for (i = 0; i + 1 < val_len && count < MAX; i += 2)\<close>.\<close>

fun be16_list_loop :: "nat \<Rightarrow> bytes \<Rightarrow> u16 list \<Rightarrow> u16 list" where
  "be16_list_loop mx (a # b # r) xs =
     (if length xs < mx then be16_list_loop mx r (xs @ [be16 a b]) else xs)"
| "be16_list_loop mx _ xs = xs"

section \<open>The walk over the TLVs of a buffer\<close>

text \<open>step gives False to leave the loop.\<close>

function tlv_walk ::
  "bytes \<Rightarrow> nat \<Rightarrow> nat \<Rightarrow> (u16 \<Rightarrow> bytes \<Rightarrow> 's \<Rightarrow> (bool \<times> 's) option) \<Rightarrow> nat \<Rightarrow> 's \<Rightarrow> 's option" where
  "tlv_walk m p len step off s =
     (if off + 4 \<le> len then
        (case (read_be16 m (p + off), read_be16 m (p + off + 2)) of
           (Some tlen, Some tid) \<Rightarrow>
             if unat tlen < 4 \<or> off + unat tlen > len then Some s
             else (case rd_mem m (p + off + 4) (unat tlen - 4) of
                 None \<Rightarrow> None
               | Some v \<Rightarrow>
                   (case step tid v s of
                      None \<Rightarrow> None
                    | Some (go, s') \<Rightarrow>
                        if go then tlv_walk m p len step (off + unat tlen) s' else Some s'))
         | _ \<Rightarrow> None)
      else Some s)"
  by pat_completeness auto
termination by (relation "measure (\<lambda>(m, p, len, step, off, s). len - off)") auto

declare tlv_walk.simps [simp del]

text \<open>A step that never leaves the loop.\<close>

definition keep :: "(u16 \<Rightarrow> bytes \<Rightarrow> 's \<Rightarrow> 's option) \<Rightarrow> u16 \<Rightarrow> bytes \<Rightarrow> 's \<Rightarrow> (bool \<times> 's) option" where
  "keep f tid v s = map_option (Pair True) (f tid v s)"

section \<open>Lane information\<close>

definition rgd_lane_reset :: "u16 \<Rightarrow> rgd_lane" where
  "rgd_lane_reset fallback_position =
     zero_lane\<lparr> ln_position := fallback_position, ln_direction := 1000 \<rparr>"

text \<open>The lanes parsed so far (lane_count is their number), lane_idx (None for
  -1) and the two flags.\<close>

record lane_parse =
  lp_lanes :: "rgd_lane list"
  lp_idx :: "nat option"
  lp_has_highlight :: bool
  lp_saw_any :: bool

fun angles_loop :: "bool \<Rightarrow> bytes \<Rightarrow> rgd_lane \<Rightarrow> rgd_lane" where
  "angles_loop hl (a # b # r) l =
     (if length (ln_angles l) < MAX_LANE_ANGLES then
        angles_loop hl r (l\<lparr> ln_angles := ln_angles l @ [be16 a b],
          ln_direction := (if \<not> hl \<and> ln_direction l = 1000 then be16 a b else ln_direction l) \<rparr>)
      else l)"
| "angles_loop hl [a] l =
     (if length (ln_angles l) < MAX_LANE_ANGLES then
        l\<lparr> ln_angles := ln_angles l @ [ucast a],
           ln_direction := (if \<not> hl \<and> ln_direction l = 1000 then ucast a else ln_direction l) \<rparr>
      else l)"
| "angles_loop hl [] l = l"

text \<open>Sub-TLV 0x0000 opens the next lane.\<close>

definition lane_index_case :: "nat \<Rightarrow> bytes \<Rightarrow> lane_parse \<Rightarrow> (bool \<times> lane_parse) option" where
  "lane_index_case out_max v st =
     (if length (lp_lanes st) \<ge> out_max then Some (False, st)
      else let i = length (lp_lanes st); l = rgd_lane_reset (of_nat i) in do {
        l \<leftarrow> (if length v \<ge> 2 then do { x \<leftarrow> read_be16 v 0; Some (l\<lparr> ln_position := x \<rparr>) }
             else if length v \<ge> 1 then do { x \<leftarrow> rd8 v 0; Some (l\<lparr> ln_position := ucast x \<rparr>) }
             else Some l);
        Some (True, \<lparr> lp_lanes = lp_lanes st @ [l], lp_idx = Some i, lp_has_highlight = False,
                      lp_saw_any = True \<rparr>) })"

text \<open>A field before any index opens lane 0; None when there is no room.\<close>

definition lane_implicit :: "nat \<Rightarrow> lane_parse \<Rightarrow> lane_parse option" where
  "lane_implicit out_max st =
     (case lp_idx st of
        Some i \<Rightarrow> Some (st\<lparr> lp_saw_any := True \<rparr>)
      | None \<Rightarrow>
          if length (lp_lanes st) \<ge> out_max then None
          else let i = length (lp_lanes st) in
            Some (st\<lparr> lp_lanes := lp_lanes st @ [rgd_lane_reset (of_nat i)], lp_idx := Some i,
                    lp_has_highlight := False, lp_saw_any := True \<rparr>))"

definition lane_field_case :: "u16 \<Rightarrow> bytes \<Rightarrow> bool \<Rightarrow> rgd_lane \<Rightarrow> (rgd_lane \<times> bool) option" where
  "lane_field_case tid v hl l = (
     if tid = LANE_INFO_TLV_STATUS then
       (if length v \<ge> 1 then do { x \<leftarrow> rd8 v 0; Some (l\<lparr> ln_status := x \<rparr>, hl) } else Some (l, hl))
     else if tid = LANE_INFO_TLV_ANGLES then
       Some (if length v \<ge> 1 then angles_loop hl v l else l, hl)
     else
       (if length v \<ge> 1 then do {
          x \<leftarrow> (if length v \<ge> 2 then read_be16 v 0 else map_option ucast (rd8 v 0));
          Some (l\<lparr> ln_direction := x \<rparr>, True) }
        else Some (l, hl)))"

definition lane_info_case :: "nat \<Rightarrow> u16 \<Rightarrow> bytes \<Rightarrow> lane_parse \<Rightarrow> (bool \<times> lane_parse) option" where
  "lane_info_case out_max tid v st = (
     if tid = LANE_INFO_TLV_INDEX then lane_index_case out_max v st
     else if tid = LANE_INFO_TLV_STATUS \<or> tid = LANE_INFO_TLV_ANGLES
        \<or> tid = LANE_INFO_TLV_ANGLE_HIGHLIGHT then
       (case lane_implicit out_max st of
          None \<Rightarrow> Some (False, st)
        | Some st \<Rightarrow> do {
            i \<leftarrow> lp_idx st;
            l \<leftarrow> rd8 (lp_lanes st) i;
            (l, hl) \<leftarrow> lane_field_case tid v (lp_has_highlight st) l;
            ls \<leftarrow> wr8 (lp_lanes st) i l;
            Some (True, st\<lparr> lp_lanes := ls, lp_has_highlight := hl \<rparr>) })
     else Some (True, st))"

definition lane_parse0 :: lane_parse where
  "lane_parse0 = \<lparr> lp_lanes = [], lp_idx = None, lp_has_highlight = False, lp_saw_any = False \<rparr>"

definition rgd_parse_lane_information_value :: "bytes \<Rightarrow> nat \<Rightarrow> rgd_lane list option" where
  "rgd_parse_lane_information_value v out_max =
     (if out_max = 0 \<or> length v < 4 then Some []
      else do {
        st \<leftarrow> tlv_walk v 0 (length v) (lane_info_case out_max) 0 lane_parse0;
        Some (if lp_saw_any st then lp_lanes st else []) })"

section \<open>The three parsers\<close>

definition update_case :: "u16 \<Rightarrow> bytes \<Rightarrow> rgd_update \<Rightarrow> rgd_update option" where
  "update_case tid v u = (
     if tid = RGD_TLV_COMPONENT_ID then
       Some (u\<lparr> ru_component_ids := be16_list_loop MAX_COMPONENT_LIST v [], ru_present := ru_present u OR RGD_UPD_COMPONENT_IDS \<rparr>)
     else if tid = RGD_TLV_ROUTE_GUIDANCE_STATE then
       (if length v \<ge> 1 then do { x \<leftarrow> rd8 v 0; Some (u\<lparr> ru_route_state := x, ru_present := ru_present u OR RGD_UPD_ROUTE_STATE \<rparr>) }
        else Some u)
     else if tid = RGD_TLV_MANEUVER_STATE then
       (if length v \<ge> 1 then do { x \<leftarrow> rd8 v 0; Some (u\<lparr> ru_maneuver_state := x, ru_present := ru_present u OR RGD_UPD_MANEUVER_STATE \<rparr>) }
        else Some u)
     else if tid = RGD_TLV_CURRENT_ROAD_NAME then
       do { s \<leftarrow> field_str 255 v; Some (u\<lparr> ru_current_road := replace_newlines s 256, ru_present := ru_present u OR RGD_UPD_CURRENT_ROAD \<rparr>) }
     else if tid = RGD_TLV_DESTINATION_NAME then
       do { s \<leftarrow> field_str 255 v; Some (u\<lparr> ru_destination := replace_newlines s 256, ru_present := ru_present u OR RGD_UPD_DESTINATION \<rparr>) }
     else if tid = RGD_TLV_ETA then
       (if length v \<ge> 8 then do { x \<leftarrow> read_be64 v 0; Some (u\<lparr> ru_eta := x, ru_present := ru_present u OR RGD_UPD_ETA \<rparr>) }
        else Some u)
     else if tid = RGD_TLV_TIME_REMAINING then
       (if length v \<ge> 8 then do { x \<leftarrow> read_be64 v 0; Some (u\<lparr> ru_time_remaining := x, ru_present := ru_present u OR RGD_UPD_TIME_REMAINING \<rparr>) }
        else Some u)
     else if tid = RGD_TLV_DISTANCE_REMAINING then
       (if length v \<ge> 4 then do { x \<leftarrow> read_be32 v 0; Some (u\<lparr> ru_distance_remaining := x, ru_present := ru_present u OR RGD_UPD_DISTANCE_REMAINING \<rparr>) }
        else Some u)
     else if tid = RGD_TLV_DISTANCE_STRING then
       do { s \<leftarrow> field_str 63 v; Some (u\<lparr> ru_distance_string := s, ru_present := ru_present u OR RGD_UPD_DISTANCE_STRING \<rparr>) }
     else if tid = RGD_TLV_DISTANCE_UNITS then
       (if length v \<ge> 1 then do { x \<leftarrow> rd8 v 0; Some (u\<lparr> ru_distance_units := x, ru_present := ru_present u OR RGD_UPD_DISTANCE_UNITS \<rparr>) }
        else Some u)
     else if tid = RGD_TLV_DIST_TO_MANEUVER then
       (if length v \<ge> 4 then do { x \<leftarrow> read_be32 v 0; Some (u\<lparr> ru_dist_to_maneuver := x, ru_present := ru_present u OR RGD_UPD_DIST_TO_MANEUVER \<rparr>) }
        else Some u)
     else if tid = RGD_TLV_DIST_TO_MANEUVER_STRING then
       do { s \<leftarrow> field_str 63 v; Some (u\<lparr> ru_dist_to_maneuver_string := s, ru_present := ru_present u OR RGD_UPD_DIST_TO_MANEUVER_STR \<rparr>) }
     else if tid = RGD_TLV_DIST_TO_MANEUVER_UNITS then
       (if length v \<ge> 1 then do { x \<leftarrow> rd8 v 0; Some (u\<lparr> ru_dist_to_maneuver_units := x, ru_present := ru_present u OR RGD_UPD_DIST_TO_MANEUVER_UNI \<rparr>) }
        else Some u)
     else if tid = RGD_TLV_MANEUVER_COUNT then
       (if length v \<ge> 2 then do { x \<leftarrow> read_be16 v 0; Some (u\<lparr> ru_maneuver_count := x, ru_present := ru_present u OR RGD_UPD_MANEUVER_COUNT \<rparr>) }
        else Some u)
     else if tid = RGD_TLV_MANEUVER_LIST then
       Some (u\<lparr> ru_maneuver_list := be16_list_loop MAX_MANEUVER_LIST v [], ru_present := ru_present u OR RGD_UPD_MANEUVER_LIST \<rparr>)
     else if tid = RGD_TLV_VISIBLE_IN_APP then
       (if length v \<ge> 1 then do { x \<leftarrow> rd8 v 0; Some (u\<lparr> ru_visible_in_app := x, ru_present := ru_present u OR RGD_UPD_VISIBLE_IN_APP \<rparr>) }
        else Some u)
     else if tid = RGD_TLV_LANE_GUIDANCE_INDEX then
       (if length v \<ge> 2 then do { x \<leftarrow> read_be16 v 0; Some (u\<lparr> ru_lane_guidance_index := x, ru_present := ru_present u OR RGD_UPD_LANE_INDEX \<rparr>) }
        else Some u)
     else if tid = RGD_TLV_LANE_GUIDANCE_TOTAL then
       (if length v \<ge> 2 then do { x \<leftarrow> read_be16 v 0; Some (u\<lparr> ru_lane_guidance_total := x, ru_present := ru_present u OR RGD_UPD_LANE_TOTAL \<rparr>) }
        else Some u)
     else if tid = RGD_TLV_LANE_GUIDANCE_SHOWING then
       (if length v \<ge> 1 then do { x \<leftarrow> rd8 v 0; Some (u\<lparr> ru_lane_guidance_showing := x, ru_present := ru_present u OR RGD_UPD_LANE_SHOWING \<rparr>) }
        else Some u)
     else if tid = RGD_TLV_SOURCE_NAME then
       do { s \<leftarrow> field_str 63 v; Some (u\<lparr> ru_source_name := replace_newlines s 64, ru_present := ru_present u OR RGD_UPD_SOURCE_NAME \<rparr>) }
     else if tid = RGD_TLV_SOURCE_SUPPORTS_RG then
       (if length v \<ge> 1 then do { x \<leftarrow> rd8 v 0; Some (u\<lparr> ru_source_supports_rg := x, ru_present := ru_present u OR RGD_UPD_SOURCE_SUPPORTS_RG \<rparr>) }
        else Some u)
     else Some u)"

definition rgd_parse_update :: "bytes \<Rightarrow> nat option \<Rightarrow> nat \<Rightarrow> rgd_update option" where
  "rgd_parse_update m buf len =
     (case buf of None \<Rightarrow> Some zero_update
      | Some b \<Rightarrow> if len < 6 then Some zero_update
                 else tlv_walk m b len (keep update_case) 6 zero_update)"

definition maneuver_case :: "u16 \<Rightarrow> bytes \<Rightarrow> rgd_maneuver \<Rightarrow> rgd_maneuver option" where
  "maneuver_case tid v u = (
     if tid = MAN_TLV_COMPONENT_ID then
       Some (u\<lparr> rm_component_ids := be16_list_loop MAX_COMPONENT_LIST v [], rm_present := rm_present u OR RGD_MAN_COMPONENT_IDS \<rparr>)
     else if tid = MAN_TLV_INDEX then
       (if length v \<ge> 2 then do { x \<leftarrow> read_be16 v 0; Some (u\<lparr> rm_index := x, rm_present := rm_present u OR RGD_MAN_INDEX \<rparr>) }
        else Some u)
     else if tid = MAN_TLV_DESCRIPTION then
       do { s \<leftarrow> field_str 255 v; Some (u\<lparr> rm_description := replace_newlines s 256, rm_present := rm_present u OR RGD_MAN_DESCRIPTION \<rparr>) }
     else if tid = MAN_TLV_TYPE then
       (if length v \<ge> 1 then do { x \<leftarrow> rd8 v 0; Some (u\<lparr> rm_maneuver_type := x, rm_present := rm_present u OR RGD_MAN_TYPE \<rparr>) }
        else Some u)
     else if tid = MAN_TLV_AFTER_ROAD_NAME then
       do { s \<leftarrow> field_str 255 v; Some (u\<lparr> rm_after_road_name := replace_newlines s 256, rm_present := rm_present u OR RGD_MAN_AFTER_ROAD \<rparr>) }
     else if tid = MAN_TLV_DISTANCE_BETWEEN then
       (if length v \<ge> 4 then do { x \<leftarrow> read_be32 v 0; Some (u\<lparr> rm_distance_between := x, rm_present := rm_present u OR RGD_MAN_DISTANCE_BETWEEN \<rparr>) }
        else Some u)
     else if tid = MAN_TLV_DISTANCE_STRING then
       do { s \<leftarrow> field_str 63 v; Some (u\<lparr> rm_distance_string := s, rm_present := rm_present u OR RGD_MAN_DISTANCE_STRING \<rparr>) }
     else if tid = MAN_TLV_DISTANCE_UNITS then
       (if length v \<ge> 1 then do { x \<leftarrow> rd8 v 0; Some (u\<lparr> rm_distance_units := x, rm_present := rm_present u OR RGD_MAN_DISTANCE_UNITS \<rparr>) }
        else Some u)
     else if tid = MAN_TLV_DRIVING_SIDE then
       (if length v \<ge> 1 then do { x \<leftarrow> rd8 v 0; Some (u\<lparr> rm_driving_side := x, rm_present := rm_present u OR RGD_MAN_DRIVING_SIDE \<rparr>) }
        else Some u)
     else if tid = MAN_TLV_JUNCTION_TYPE then
       (if length v \<ge> 1 then do { x \<leftarrow> rd8 v 0; Some (u\<lparr> rm_junction_type := x, rm_present := rm_present u OR RGD_MAN_JUNCTION_TYPE \<rparr>) }
        else Some u)
     else if tid = MAN_TLV_JUNCTION_ANGLES then
       Some (u\<lparr> rm_junction_angles := be16_list_loop MAX_MANEUVER_LIST v (rm_junction_angles u), rm_present := rm_present u OR RGD_MAN_JUNCTION_ANGLES \<rparr>)
     else if tid = MAN_TLV_EXIT_ANGLE then
       (if length v \<ge> 2 then do { x \<leftarrow> read_be16 v 0; Some (u\<lparr> rm_exit_angle := x, rm_present := rm_present u OR RGD_MAN_EXIT_ANGLE \<rparr>) }
        else Some u)
     else if tid = MAN_TLV_LINKED_LANE_GUIDANCE then
       do {
         let u = u\<lparr> rm_lane_guidance_raw_len := of_nat (length v),
                   rm_present := rm_present u OR RGD_MAN_LANE_GUIDANCE_RAW \<rparr>;
         r \<leftarrow> decode_linked_lane_index v;
         (case r of
            Some i \<Rightarrow> Some (u\<lparr> rm_linked_lane_guidance_index := i,
                              rm_present := rm_present u OR RGD_MAN_LINKED_LANE_INDEX \<rparr>)
          | None \<Rightarrow> Some u) }
     else if tid = MAN_TLV_EXIT_INFO then
       do {
         s \<leftarrow> copy_printable_string_preview v (RGD_EXIT_INFO_MAX + 1);
         Some (u\<lparr> rm_exit_info_raw_len := of_nat (length v), rm_exit_info_str := s,
                 rm_present := rm_present u OR RGD_MAN_EXIT_INFO_RAW OR RGD_MAN_EXIT_INFO_STR \<rparr>) }
     else Some u)"

definition rgd_parse_maneuver :: "bytes \<Rightarrow> nat option \<Rightarrow> nat \<Rightarrow> rgd_maneuver option" where
  "rgd_parse_maneuver m buf len =
     (let z = zero_maneuver\<lparr> rm_linked_lane_guidance_index := 0xFFFF \<rparr> in
      case buf of None \<Rightarrow> Some z
      | Some b \<Rightarrow>
        if len < 6 then Some z else do {
          u \<leftarrow> tlv_walk m b len (keep maneuver_case) 6 z;
          Some (if has (rm_present u) RGD_MAN_INDEX \<and> \<not> has (rm_present u) RGD_MAN_EXIT_ANGLE
                then u\<lparr> rm_exit_angle := 1000, rm_present := rm_present u OR RGD_MAN_EXIT_ANGLE \<rparr>
                else u) })"

definition lane_component_case :: "bytes \<Rightarrow> u16 list \<Rightarrow> u16 list option" where
  "lane_component_case v ids =
     (if length v > 0 then
        let ids = be16_list_loop MAX_COMPONENT_LIST v ids in
        (if odd (length v) \<and> length ids < MAX_COMPONENT_LIST
         then do { x \<leftarrow> rd8 v (length v - 1); Some (ids @ [ucast x]) }
         else Some ids)
      else Some ids)"

definition lane_informations_case :: "bytes \<Rightarrow> rgd_lane list \<Rightarrow> rgd_lane list option" where
  "lane_informations_case v lanes =
     (if length v > 0 \<and> length lanes < MAX_LANE_GUIDANCE then do {
        parsed \<leftarrow> rgd_parse_lane_information_value v (MAX_LANE_GUIDANCE - length lanes);
        Some (take MAX_LANE_GUIDANCE (lanes @ parsed)) }
      else Some lanes)"

definition lane_guidance_case ::
  "u16 \<Rightarrow> bytes \<Rightarrow> rgd_lane_guidance \<Rightarrow> rgd_lane_guidance option" where
  "lane_guidance_case tid v u = (
     if tid = LANE_MSG_TLV_COMPONENT_ID then
       do { ids \<leftarrow> lane_component_case v (rl_component_ids u);
            Some (u\<lparr> rl_component_ids := ids, rl_present := rl_present u OR RGD_LANE_COMPONENT_IDS \<rparr>) }
     else if tid = LANE_MSG_TLV_LANE_GUIDANCE_INDEX then
       (if length v \<ge> 2 then do { x \<leftarrow> read_be16 v 0;
          Some (u\<lparr> rl_lane_guidance_index := x, rl_present := rl_present u OR RGD_LANE_GUIDANCE_INDEX \<rparr>) }
        else if length v \<ge> 1 then do { x \<leftarrow> rd8 v 0;
          Some (u\<lparr> rl_lane_guidance_index := ucast x, rl_present := rl_present u OR RGD_LANE_GUIDANCE_INDEX \<rparr>) }
        else Some u)
     else if tid = LANE_MSG_TLV_LANE_INFORMATIONS then
       do { lanes \<leftarrow> lane_informations_case v (rl_lanes u);
            Some (u\<lparr> rl_lanes := lanes, rl_present := rl_present u OR RGD_LANE_INFORMATIONS \<rparr>) }
     else if tid = LANE_MSG_TLV_LANE_GUIDANCE_DESC then
       do { s \<leftarrow> field_str 63 v;
            Some (u\<lparr> rl_description := s, rl_present := rl_present u OR RGD_LANE_GUIDANCE_DESC \<rparr>) }
     else Some u)"

definition rgd_parse_lane_guidance :: "bytes \<Rightarrow> nat option \<Rightarrow> nat \<Rightarrow> rgd_lane_guidance option" where
  "rgd_parse_lane_guidance m buf len =
     (case buf of None \<Rightarrow> Some zero_lane_guidance
      | Some b \<Rightarrow> if len < 6 then Some zero_lane_guidance
                 else tlv_walk m b len (keep lane_guidance_case) 6 zero_lane_guidance)"

section \<open>The component TLV of the Identify message\<close>

definition component_name :: string where
  "component_name = ''RouteGuidanceDisplayComponent''"

text \<open>write_be16 at off, off += 2.\<close>

fun put16s :: "bytes \<Rightarrow> nat \<Rightarrow> nat \<Rightarrow> u16 list \<Rightarrow> (bytes \<times> nat) option" where
  "put16s m out off [] = Some (m, off)"
| "put16s m out off (v # vs) = do { m \<leftarrow> write_be16 m (out + off) v; put16s m out (off + 2) vs }"

definition rgd_build_component_tlv :: "bytes \<Rightarrow> nat option \<Rightarrow> nat \<Rightarrow> u16 \<Rightarrow> (nat \<times> bytes) option" where
  "rgd_build_component_tlv m out max_len component_id =
     (case out of None \<Rightarrow> Some (0, m)
      | Some o1 \<Rightarrow>
        let name_len = length component_name + 1;
            tlv1_len = 4 + name_len;
            inner_len = 6 + tlv1_len + 6 + 6 + 6 + 6 + 6 + 6 + 6;
            outer_len = 4 + inner_len
        in if max_len < outer_len then Some (0, m)
        else do {
          (m, off) \<leftarrow> put16s m o1 0 [of_nat outer_len, IDENT_TLV_ROUTE_GUIDANCE_COMPONENT];
          (m, off) \<leftarrow> put16s m o1 off [6, RGD_COMP_COMPONENT_ID, component_id];
          (m, off) \<leftarrow> put16s m o1 off [of_nat tlv1_len, RGD_COMP_NAME];
          m \<leftarrow> wr_mem m (o1 + off) (str_bytes component_name @ [0]);
          let off = off + name_len;
          (m, off) \<leftarrow> put16s m o1 off [6, RGD_COMP_MAX_CURRENT_ROAD_NAME, 0x0100];
          (m, off) \<leftarrow> put16s m o1 off [6, RGD_COMP_MAX_DEST_NAME, 0x0100];
          (m, off) \<leftarrow> put16s m o1 off [6, RGD_COMP_MAX_AFTER_MANEUVER_NAME, 0x0100];
          (m, off) \<leftarrow> put16s m o1 off [6, RGD_COMP_MAX_MANEUVER_DESC, 0x0100];
          (m, off) \<leftarrow> put16s m o1 off [6, RGD_COMP_MAX_MANEUVER_CAPACITY, 0x0006];
          (m, off) \<leftarrow> put16s m o1 off [6, RGD_COMP_MAX_LANE_GUIDANCE_DESC, 0x0100];
          (m, off) \<leftarrow> put16s m o1 off [6, RGD_COMP_MAX_LANE_GUIDANCE_CAPACITY, 0x0006];
          Some (off, m) })"

text \<open>The state of the walk is the id to return.\<close>

definition component_id_case :: "u16 \<Rightarrow> bytes \<Rightarrow> u16 \<Rightarrow> (bool \<times> u16) option" where
  "component_id_case tid v r =
     (if tid = RGD_COMP_COMPONENT_ID \<and> length v \<ge> 2 then do { x \<leftarrow> read_be16 v 0; Some (False, x) }
      else Some (True, r))"

definition rgd_extract_component_id :: "bytes \<Rightarrow> nat option \<Rightarrow> nat \<Rightarrow> u16 option" where
  "rgd_extract_component_id m tlv_start total_len =
     (case tlv_start of None \<Rightarrow> Some 0
      | Some b \<Rightarrow> if total_len < 10 then Some 0
                 else tlv_walk m b total_len component_id_case 4 0)"

section \<open>The walk reads the TLV list\<close>

fun walk_list :: "(u16 \<Rightarrow> bytes \<Rightarrow> 's \<Rightarrow> (bool \<times> 's) option) \<Rightarrow> (u16 \<times> bytes) list \<Rightarrow> 's \<Rightarrow> 's option" where
  "walk_list step [] s = Some s"
| "walk_list step (t # ts) s =
     (case step (fst t) (snd t) s of None \<Rightarrow> None
      | Some (go, s') \<Rightarrow> if go then walk_list step ts s' else Some s')"

lemma tlv_walk_spec:
  assumes "p + len \<le> length m"
  shows "tlv_walk m p len step off s = walk_list step (tlv_split (slice m (p + off) (len - off))) s"
proof (induction "len - off" arbitrary: off s rule: less_induct)
  case less
  show ?case
  proof (cases "off + 4 \<le> len")
    case False
    then show ?thesis by (simp add: tlv_walk.simps [of m p len step off s] tlv_split_simps slice_short_dec)
  next
    case True
    obtain tl ti where s: "read_be16 m (p + off) = Some tl" "read_be16 m (p + off + 2) = Some ti"
      "tlv_dec (slice m (p + off) (len - off)) =
        (if unat tl < 4 \<or> off + unat tl > len then None
         else Some ((ti, slice m (p + off + 4) (unat tl - 4)),
                    slice m (p + (off + unat tl)) (len - (off + unat tl))))"
      using tlv_step [OF assms True] by blast
    show ?thesis
    proof (cases "unat tl < 4 \<or> off + unat tl > len")
      case bad: True
      then show ?thesis
        using True s(3) by (subst tlv_walk.simps) (simp add: s(1,2) tlv_split_simps)
    next
      case good: False
      then have r: "rd_mem m (p + off + 4) (unat tl - 4) = Some (slice m (p + off + 4) (unat tl - 4))"
        using assms by (simp add: rd_mem_def)
      have d: "tlv_dec (slice m (p + off) (len - off)) =
        Some ((ti, slice m (p + off + 4) (unat tl - 4)), slice m (p + (off + unat tl)) (len - (off + unat tl)))"
        using s(3) good by simp
      show ?thesis
        using True good less [of "off + unat tl"]
        by (subst tlv_walk.simps) (auto simp: s(1,2) r tlv_split_simps(2) [OF d] split: option.splits)
    qed
  qed
qed

text \<open>A loop body that always succeeds and stays in the loop makes the walk a fold.\<close>

definition applied :: "(u16 \<Rightarrow> bytes \<Rightarrow> 's \<Rightarrow> 's option) \<Rightarrow> 's \<Rightarrow> u16 \<times> bytes \<Rightarrow> 's" where
  "applied f s t = the (f (fst t) (snd t) s)"

lemma walk_keep:
  assumes "\<And>tid v s. \<exists>s'. f tid v s = Some s'"
  shows "walk_list (keep f) ts s = Some (foldl (applied f) s ts)"
proof (induction ts arbitrary: s)
  case (Cons t ts)
  obtain s' where "f (fst t) (snd t) s = Some s'" using assms by blast
  then show ?case using Cons by (simp add: keep_def applied_def)
qed simp

text \<open>A field that a TLV with the id T and enough bytes sets holds the value of the
  last such TLV.\<close>

definition last_tlv :: "u16 \<Rightarrow> nat \<Rightarrow> (u16 \<times> bytes) list \<Rightarrow> bytes option" where
  "last_tlv T n ts = map_option snd (find (\<lambda>t. fst t = T \<and> n \<le> length (snd t)) (rev ts))"

lemma find_append: "find P (xs @ ys) = (case find P xs of None \<Rightarrow> find P ys | Some x \<Rightarrow> Some x)"
  by (induction xs) auto

lemma last_tlv_snoc:
  "last_tlv T n (ts @ [t]) = (if fst t = T \<and> n \<le> length (snd t) then Some (snd t) else last_tlv T n ts)"
  by (simp add: last_tlv_def)

lemma foldl_last_wins:
  assumes "\<And>s tid v. get (applied f s (tid, v)) = (if tid = T \<and> n \<le> length v then val v else get s)"
  shows "get (foldl (applied f) s ts) = (case last_tlv T n ts of None \<Rightarrow> get s | Some v \<Rightarrow> val v)"
proof (induction ts rule: rev_induct)
  case (snoc t ts)
  then show ?case using assms [of _ "fst t" "snd t"] by (simp add: last_tlv_snoc)
qed (simp add: last_tlv_def)

lemma last_tlv_None: "last_tlv T n ts = None \<longleftrightarrow> (\<forall>t \<in> set ts. fst t = T \<longrightarrow> length (snd t) < n)"
  by (auto simp: last_tlv_def find_None_iff not_le)

lemma foldl_inv:
  assumes "P s" and "\<And>s t. P s \<Longrightarrow> P (applied f s t)"
  shows "P (foldl (applied f) s ts)"
  using assms(1) by (induction ts arbitrary: s) (auto intro: assms(2))

section \<open>Helpers\<close>

lemma newlines_loop_clean:
  "set tmp \<inter> {CR, LF, nul} = {} \<Longrightarrow> nul \<notin> set s \<Longrightarrow> set (newlines_loop s tmp) \<inter> {CR, LF, nul} = {}"
proof (induction s tmp rule: newlines_loop.induct)
  case (1 s tmp)
  have sep: "set '' / '' \<inter> {CR, LF, nul} = {}" by (simp add: CR_def LF_def nul_def)
  show ?case
  proof (cases s)
    case Nil
    then show ?thesis using 1(4) by (simp add: newlines_loop.simps)
  next
    case (Cons c cs)
    consider (full) "\<not> length tmp < 252" | (pair) "length tmp < 252" "c = CR \<and> cs \<noteq> [] \<and> hd cs = LF"
      | (single) "length tmp < 252" "\<not> (c = CR \<and> cs \<noteq> [] \<and> hd cs = LF)" "c = LF \<or> c = CR"
      | (other) "length tmp < 252" "c \<noteq> LF" "c \<noteq> CR" by blast
    then show ?thesis
    proof cases
      case full
      then show ?thesis using 1(4) Cons by (simp add: newlines_loop.simps)
    next
      case pair
      have "nul \<notin> set (tl cs)" using 1(5) Cons list.set_sel(2) [of cs] pair by auto
      then show ?thesis
        using 1(1) [OF Cons _ pair(2)] pair 1(4) Cons sep
        by (subst newlines_loop.simps) (auto simp: Int_Un_distrib2)
    next
      case single
      then show ?thesis
        using 1(2) [OF Cons _ single(2,3)] 1(4,5) Cons sep
        by (subst newlines_loop.simps) (auto simp: Int_Un_distrib2)
    next
      case other
      then show ?thesis
        using 1(3) [OF Cons] 1(4,5) Cons
        by (subst newlines_loop.simps) auto
    qed
  qed
qed

lemma newlines_loop_length: "length tmp \<le> 254 \<Longrightarrow> length (newlines_loop s tmp) \<le> 254"
proof (induction s tmp rule: newlines_loop.induct)
  case (1 s tmp)
  show ?case
    using 1 by (subst newlines_loop.simps) (auto split: list.split)
qed

lemma replace_newlines_clean:
  "nul \<notin> set s \<Longrightarrow> n > 0 \<Longrightarrow> set (replace_newlines s n) \<inter> {CR, LF, nul} = {}"
  using newlines_loop_clean [of "[]" s] set_take_subset [of _ "newlines_loop s []"]
  by (auto simp: replace_newlines_def Let_def)

lemma replace_newlines_length: "n > 0 \<Longrightarrow> length (replace_newlines s n) \<le> n - 1"
  by (auto simp: replace_newlines_def Let_def)

lemma newlines_loop_id:
  "set s \<inter> {CR, LF} = {} \<Longrightarrow> length tmp + length s \<le> 252 \<Longrightarrow> newlines_loop s tmp = tmp @ s"
proof (induction s arbitrary: tmp)
  case (Cons c cs)
  then show ?case by (subst newlines_loop.simps) auto
qed (simp add: newlines_loop.simps)

lemma printable_loop_clean:
  "set (printable_loop v) \<inter> {CR, LF, nul} = {}" "length (printable_loop v) \<le> length v"
proof -
  have b: "char_of_byte c \<noteq> CR \<and> char_of_byte c \<noteq> LF \<and> char_of_byte c \<noteq> nul" if "0x20 \<le> c" for c
  proof -
    have "byte_of CR < 0x20" "byte_of LF < 0x20" "byte_of nul < 0x20"
      by (simp_all add: byte_of_def CR_def LF_def nul_def)
    then show ?thesis using that by (metis byte_of_char_of_byte not_le)
  qed
  have h: "(0x20 :: u8) \<le> c" if "0x80 \<le> c" for c :: u8
    by (rule order.trans [OF _ that]) simp
  show "set (printable_loop v) \<inter> {CR, LF, nul} = {}"
  proof (induction v)
    case (Cons c cs)
    have q: "CHR ''?'' \<notin> {CR, LF, nul}" by (simp add: CR_def LF_def nul_def)
    show ?case using Cons b [of c] h [of c] q by auto
  qed simp
  show "length (printable_loop v) \<le> length v"
    by (induction v) auto
qed

lemma field_str_Some: "field_str n v = Some (cstr (bytes_str (take n v)))"
  by (simp add: field_str_def rd_mem_def slice_def Let_def)

lemma field_str_length: "length (cstr (bytes_str (take n v))) \<le> n"
  using length_cstr [of "bytes_str (take n v)"] by simp

lemma be16_list_loop_length: "length xs \<le> mx \<Longrightarrow> length (be16_list_loop mx v xs) \<le> mx"
  by (induction mx v xs rule: be16_list_loop.induct) auto

section \<open>What the update parser computes\<close>

text \<open>The values of TLVs, as the parsers read them.\<close>

definition val16 :: "bytes \<Rightarrow> u16" where "val16 v = be16 (v ! 0) (v ! 1)"
definition val32 :: "bytes \<Rightarrow> u32" where "val32 v = be32 (v ! 0) (v ! 1) (v ! 2) (v ! 3)"
definition val64 :: "bytes \<Rightarrow> u64" where "val64 v = be64 (val32 v) (val32 (drop 4 v))"
definition plain_text :: "nat \<Rightarrow> bytes \<Rightarrow> string" where "plain_text n v = cstr (bytes_str (take n v))"
definition road_text :: "nat \<Rightarrow> bytes \<Rightarrow> string" where
  "road_text n v = replace_newlines (plain_text n v) (n + 1)"

lemma read_vals:
  "1 \<le> length v \<Longrightarrow> rd8 v 0 = Some (v ! 0)"
  "2 \<le> length v \<Longrightarrow> read_be16 v 0 = Some (val16 v)"
  "4 \<le> length v \<Longrightarrow> read_be32 v 0 = Some (val32 v)"
  "8 \<le> length v \<Longrightarrow> read_be64 v 0 = Some (val64 v)"
  "field_str n v = Some (plain_text n v)"
  by (cases v; simp add: rd8_def read_be16_Some read_be32_Some read_be64_def val16_def val32_def val64_def
      field_str_Some plain_text_def)+

end
