(* ===== verification/Rgd_Parse.thy ===== *)
theory Rgd_Parse
  imports Rgd_Tlv
begin

text \<open>
  What the parsers of rgd_tlv.c compute.  A message's payload read as a TLV list
  is folded through the switch of the parser; every scalar and string field is
  the value of the last TLV with its id that is long enough, a present bit is
  set exactly when there is such a TLV, and the fields stay inside their
  arrays.
\<close>

section \<open>What the update parser computes\<close>

lemma if_total: "(c \<Longrightarrow> \<exists>y. a = Some y) \<Longrightarrow> (\<not> c \<Longrightarrow> \<exists>y. b = Some y) \<Longrightarrow> \<exists>y. (if c then a else b) = Some y"
  by simp

lemma update_case_total: "\<exists>u'. update_case tid v u = Some u'"
  unfolding update_case_def by (intro if_total; simp add: read_vals)

text \<open>The effect of one TLV, by its id.\<close>

lemma update_at:
  "applied update_case u (RGD_TLV_COMPONENT_ID, v) =
     (u\<lparr> ru_component_ids := be16_list_loop MAX_COMPONENT_LIST v [], ru_present := ru_present u OR RGD_UPD_COMPONENT_IDS \<rparr>)"
  "applied update_case u (RGD_TLV_ROUTE_GUIDANCE_STATE, v) =
     (if 1 \<le> length v then u\<lparr> ru_route_state := v ! 0, ru_present := ru_present u OR RGD_UPD_ROUTE_STATE \<rparr> else u)"
  "applied update_case u (RGD_TLV_MANEUVER_STATE, v) =
     (if 1 \<le> length v then u\<lparr> ru_maneuver_state := v ! 0, ru_present := ru_present u OR RGD_UPD_MANEUVER_STATE \<rparr> else u)"
  "applied update_case u (RGD_TLV_CURRENT_ROAD_NAME, v) =
     (u\<lparr> ru_current_road := road_text 255 v, ru_present := ru_present u OR RGD_UPD_CURRENT_ROAD \<rparr>)"
  "applied update_case u (RGD_TLV_DESTINATION_NAME, v) =
     (u\<lparr> ru_destination := road_text 255 v, ru_present := ru_present u OR RGD_UPD_DESTINATION \<rparr>)"
  "applied update_case u (RGD_TLV_ETA, v) =
     (if 8 \<le> length v then u\<lparr> ru_eta := val64 v, ru_present := ru_present u OR RGD_UPD_ETA \<rparr> else u)"
  "applied update_case u (RGD_TLV_TIME_REMAINING, v) =
     (if 8 \<le> length v then u\<lparr> ru_time_remaining := val64 v, ru_present := ru_present u OR RGD_UPD_TIME_REMAINING \<rparr> else u)"
  "applied update_case u (RGD_TLV_DISTANCE_REMAINING, v) =
     (if 4 \<le> length v then u\<lparr> ru_distance_remaining := val32 v, ru_present := ru_present u OR RGD_UPD_DISTANCE_REMAINING \<rparr> else u)"
  "applied update_case u (RGD_TLV_DISTANCE_STRING, v) =
     (u\<lparr> ru_distance_string := plain_text 63 v, ru_present := ru_present u OR RGD_UPD_DISTANCE_STRING \<rparr>)"
  "applied update_case u (RGD_TLV_DISTANCE_UNITS, v) =
     (if 1 \<le> length v then u\<lparr> ru_distance_units := v ! 0, ru_present := ru_present u OR RGD_UPD_DISTANCE_UNITS \<rparr> else u)"
  "applied update_case u (RGD_TLV_DIST_TO_MANEUVER, v) =
     (if 4 \<le> length v then u\<lparr> ru_dist_to_maneuver := val32 v, ru_present := ru_present u OR RGD_UPD_DIST_TO_MANEUVER \<rparr> else u)"
  "applied update_case u (RGD_TLV_DIST_TO_MANEUVER_STRING, v) =
     (u\<lparr> ru_dist_to_maneuver_string := plain_text 63 v, ru_present := ru_present u OR RGD_UPD_DIST_TO_MANEUVER_STR \<rparr>)"
  "applied update_case u (RGD_TLV_DIST_TO_MANEUVER_UNITS, v) =
     (if 1 \<le> length v then u\<lparr> ru_dist_to_maneuver_units := v ! 0, ru_present := ru_present u OR RGD_UPD_DIST_TO_MANEUVER_UNI \<rparr> else u)"
  "applied update_case u (RGD_TLV_MANEUVER_COUNT, v) =
     (if 2 \<le> length v then u\<lparr> ru_maneuver_count := val16 v, ru_present := ru_present u OR RGD_UPD_MANEUVER_COUNT \<rparr> else u)"
  "applied update_case u (RGD_TLV_MANEUVER_LIST, v) =
     (u\<lparr> ru_maneuver_list := be16_list_loop MAX_MANEUVER_LIST v [], ru_present := ru_present u OR RGD_UPD_MANEUVER_LIST \<rparr>)"
  "applied update_case u (RGD_TLV_VISIBLE_IN_APP, v) =
     (if 1 \<le> length v then u\<lparr> ru_visible_in_app := v ! 0, ru_present := ru_present u OR RGD_UPD_VISIBLE_IN_APP \<rparr> else u)"
  "applied update_case u (RGD_TLV_LANE_GUIDANCE_INDEX, v) =
     (if 2 \<le> length v then u\<lparr> ru_lane_guidance_index := val16 v, ru_present := ru_present u OR RGD_UPD_LANE_INDEX \<rparr> else u)"
  "applied update_case u (RGD_TLV_LANE_GUIDANCE_TOTAL, v) =
     (if 2 \<le> length v then u\<lparr> ru_lane_guidance_total := val16 v, ru_present := ru_present u OR RGD_UPD_LANE_TOTAL \<rparr> else u)"
  "applied update_case u (RGD_TLV_LANE_GUIDANCE_SHOWING, v) =
     (if 1 \<le> length v then u\<lparr> ru_lane_guidance_showing := v ! 0, ru_present := ru_present u OR RGD_UPD_LANE_SHOWING \<rparr> else u)"
  "applied update_case u (RGD_TLV_SOURCE_NAME, v) =
     (u\<lparr> ru_source_name := road_text 63 v, ru_present := ru_present u OR RGD_UPD_SOURCE_NAME \<rparr>)"
  "applied update_case u (RGD_TLV_SOURCE_SUPPORTS_RG, v) =
     (if 1 \<le> length v then u\<lparr> ru_source_supports_rg := v ! 0, ru_present := ru_present u OR RGD_UPD_SOURCE_SUPPORTS_RG \<rparr> else u)"
  by (simp_all add: applied_def update_case_def upd_ids read_vals road_text_def)

definition update_ids :: "u16 set" where
  "update_ids = {RGD_TLV_COMPONENT_ID, RGD_TLV_ROUTE_GUIDANCE_STATE, RGD_TLV_MANEUVER_STATE,
     RGD_TLV_CURRENT_ROAD_NAME, RGD_TLV_DESTINATION_NAME, RGD_TLV_ETA, RGD_TLV_TIME_REMAINING,
     RGD_TLV_DISTANCE_REMAINING, RGD_TLV_DISTANCE_STRING, RGD_TLV_DISTANCE_UNITS,
     RGD_TLV_DIST_TO_MANEUVER, RGD_TLV_DIST_TO_MANEUVER_STRING,
     RGD_TLV_DIST_TO_MANEUVER_UNITS, RGD_TLV_MANEUVER_COUNT, RGD_TLV_MANEUVER_LIST,
     RGD_TLV_VISIBLE_IN_APP, RGD_TLV_LANE_GUIDANCE_INDEX, RGD_TLV_LANE_GUIDANCE_TOTAL,
     RGD_TLV_LANE_GUIDANCE_SHOWING, RGD_TLV_SOURCE_NAME, RGD_TLV_SOURCE_SUPPORTS_RG}"

lemma update_at_other: "tid \<notin> update_ids \<Longrightarrow> applied update_case u (tid, v) = u"
  by (simp add: update_ids_def applied_def update_case_def)

lemma update_field:
  assumes "\<forall>T \<in> update_ids. get (applied update_case u (T, v)) = (if T = T0 \<and> n \<le> length v then x else get u)"
    and "T0 \<in> update_ids"
  shows "get (applied update_case u (tid, v)) = (if tid = T0 \<and> n \<le> length v then x else get u)"
  using assms by (cases "tid \<in> update_ids") (auto simp: update_at_other)

lemma update_applied_fields:
  "ru_component_ids (applied update_case u (tid, v)) =
     (if tid = RGD_TLV_COMPONENT_ID \<and> 0 \<le> length v then be16_list_loop MAX_COMPONENT_LIST v [] else ru_component_ids u)"
  "ru_route_state (applied update_case u (tid, v)) =
     (if tid = RGD_TLV_ROUTE_GUIDANCE_STATE \<and> 1 \<le> length v then v ! 0 else ru_route_state u)"
  "ru_maneuver_state (applied update_case u (tid, v)) =
     (if tid = RGD_TLV_MANEUVER_STATE \<and> 1 \<le> length v then v ! 0 else ru_maneuver_state u)"
  "ru_current_road (applied update_case u (tid, v)) =
     (if tid = RGD_TLV_CURRENT_ROAD_NAME \<and> 0 \<le> length v then road_text 255 v else ru_current_road u)"
  "ru_destination (applied update_case u (tid, v)) =
     (if tid = RGD_TLV_DESTINATION_NAME \<and> 0 \<le> length v then road_text 255 v else ru_destination u)"
  "ru_eta (applied update_case u (tid, v)) =
     (if tid = RGD_TLV_ETA \<and> 8 \<le> length v then val64 v else ru_eta u)"
  "ru_time_remaining (applied update_case u (tid, v)) =
     (if tid = RGD_TLV_TIME_REMAINING \<and> 8 \<le> length v then val64 v else ru_time_remaining u)"
  "ru_distance_remaining (applied update_case u (tid, v)) =
     (if tid = RGD_TLV_DISTANCE_REMAINING \<and> 4 \<le> length v then val32 v else ru_distance_remaining u)"
  "ru_distance_string (applied update_case u (tid, v)) =
     (if tid = RGD_TLV_DISTANCE_STRING \<and> 0 \<le> length v then plain_text 63 v else ru_distance_string u)"
  "ru_distance_units (applied update_case u (tid, v)) =
     (if tid = RGD_TLV_DISTANCE_UNITS \<and> 1 \<le> length v then v ! 0 else ru_distance_units u)"
  "ru_dist_to_maneuver (applied update_case u (tid, v)) =
     (if tid = RGD_TLV_DIST_TO_MANEUVER \<and> 4 \<le> length v then val32 v else ru_dist_to_maneuver u)"
  "ru_dist_to_maneuver_string (applied update_case u (tid, v)) =
     (if tid = RGD_TLV_DIST_TO_MANEUVER_STRING \<and> 0 \<le> length v then plain_text 63 v else ru_dist_to_maneuver_string u)"
  "ru_dist_to_maneuver_units (applied update_case u (tid, v)) =
     (if tid = RGD_TLV_DIST_TO_MANEUVER_UNITS \<and> 1 \<le> length v then v ! 0 else ru_dist_to_maneuver_units u)"
  "ru_maneuver_count (applied update_case u (tid, v)) =
     (if tid = RGD_TLV_MANEUVER_COUNT \<and> 2 \<le> length v then val16 v else ru_maneuver_count u)"
  "ru_maneuver_list (applied update_case u (tid, v)) =
     (if tid = RGD_TLV_MANEUVER_LIST \<and> 0 \<le> length v then be16_list_loop MAX_MANEUVER_LIST v [] else ru_maneuver_list u)"
  "ru_visible_in_app (applied update_case u (tid, v)) =
     (if tid = RGD_TLV_VISIBLE_IN_APP \<and> 1 \<le> length v then v ! 0 else ru_visible_in_app u)"
  "ru_lane_guidance_index (applied update_case u (tid, v)) =
     (if tid = RGD_TLV_LANE_GUIDANCE_INDEX \<and> 2 \<le> length v then val16 v else ru_lane_guidance_index u)"
  "ru_lane_guidance_total (applied update_case u (tid, v)) =
     (if tid = RGD_TLV_LANE_GUIDANCE_TOTAL \<and> 2 \<le> length v then val16 v else ru_lane_guidance_total u)"
  "ru_lane_guidance_showing (applied update_case u (tid, v)) =
     (if tid = RGD_TLV_LANE_GUIDANCE_SHOWING \<and> 1 \<le> length v then v ! 0 else ru_lane_guidance_showing u)"
  "ru_source_name (applied update_case u (tid, v)) =
     (if tid = RGD_TLV_SOURCE_NAME \<and> 0 \<le> length v then road_text 63 v else ru_source_name u)"
  "ru_source_supports_rg (applied update_case u (tid, v)) =
     (if tid = RGD_TLV_SOURCE_SUPPORTS_RG \<and> 1 \<le> length v then v ! 0 else ru_source_supports_rg u)"
  by (rule update_field, unfold update_ids_def,
      (intro ballI, elim insertE emptyE; hypsubst; unfold update_at; simp add: upd_ids), simp)+

text \<open>The ids with the bit each sets and the length it needs.\<close>

definition update_table :: "(u16 \<times> u64 \<times> nat) list" where
  "update_table =
    [(RGD_TLV_COMPONENT_ID, RGD_UPD_COMPONENT_IDS, 0),
     (RGD_TLV_ROUTE_GUIDANCE_STATE, RGD_UPD_ROUTE_STATE, 1),
     (RGD_TLV_MANEUVER_STATE, RGD_UPD_MANEUVER_STATE, 1),
     (RGD_TLV_CURRENT_ROAD_NAME, RGD_UPD_CURRENT_ROAD, 0),
     (RGD_TLV_DESTINATION_NAME, RGD_UPD_DESTINATION, 0),
     (RGD_TLV_ETA, RGD_UPD_ETA, 8),
     (RGD_TLV_TIME_REMAINING, RGD_UPD_TIME_REMAINING, 8),
     (RGD_TLV_DISTANCE_REMAINING, RGD_UPD_DISTANCE_REMAINING, 4),
     (RGD_TLV_DISTANCE_STRING, RGD_UPD_DISTANCE_STRING, 0),
     (RGD_TLV_DISTANCE_UNITS, RGD_UPD_DISTANCE_UNITS, 1),
     (RGD_TLV_DIST_TO_MANEUVER, RGD_UPD_DIST_TO_MANEUVER, 4),
     (RGD_TLV_DIST_TO_MANEUVER_STRING, RGD_UPD_DIST_TO_MANEUVER_STR, 0),
     (RGD_TLV_DIST_TO_MANEUVER_UNITS, RGD_UPD_DIST_TO_MANEUVER_UNI, 1),
     (RGD_TLV_MANEUVER_COUNT, RGD_UPD_MANEUVER_COUNT, 2),
     (RGD_TLV_MANEUVER_LIST, RGD_UPD_MANEUVER_LIST, 0),
     (RGD_TLV_VISIBLE_IN_APP, RGD_UPD_VISIBLE_IN_APP, 1),
     (RGD_TLV_LANE_GUIDANCE_INDEX, RGD_UPD_LANE_INDEX, 2),
     (RGD_TLV_LANE_GUIDANCE_TOTAL, RGD_UPD_LANE_TOTAL, 2),
     (RGD_TLV_LANE_GUIDANCE_SHOWING, RGD_UPD_LANE_SHOWING, 1),
     (RGD_TLV_SOURCE_NAME, RGD_UPD_SOURCE_NAME, 0),
     (RGD_TLV_SOURCE_SUPPORTS_RG, RGD_UPD_SOURCE_SUPPORTS_RG, 1)]"

lemma update_applied_present:
  "has (ru_present (applied update_case u (tid, v))) RGD_UPD_COMPONENT_IDS =
     (if tid = RGD_TLV_COMPONENT_ID \<and> 0 \<le> length v then True else has (ru_present u) RGD_UPD_COMPONENT_IDS)"
  "has (ru_present (applied update_case u (tid, v))) RGD_UPD_ROUTE_STATE =
     (if tid = RGD_TLV_ROUTE_GUIDANCE_STATE \<and> 1 \<le> length v then True else has (ru_present u) RGD_UPD_ROUTE_STATE)"
  "has (ru_present (applied update_case u (tid, v))) RGD_UPD_MANEUVER_STATE =
     (if tid = RGD_TLV_MANEUVER_STATE \<and> 1 \<le> length v then True else has (ru_present u) RGD_UPD_MANEUVER_STATE)"
  "has (ru_present (applied update_case u (tid, v))) RGD_UPD_CURRENT_ROAD =
     (if tid = RGD_TLV_CURRENT_ROAD_NAME \<and> 0 \<le> length v then True else has (ru_present u) RGD_UPD_CURRENT_ROAD)"
  "has (ru_present (applied update_case u (tid, v))) RGD_UPD_DESTINATION =
     (if tid = RGD_TLV_DESTINATION_NAME \<and> 0 \<le> length v then True else has (ru_present u) RGD_UPD_DESTINATION)"
  "has (ru_present (applied update_case u (tid, v))) RGD_UPD_ETA =
     (if tid = RGD_TLV_ETA \<and> 8 \<le> length v then True else has (ru_present u) RGD_UPD_ETA)"
  "has (ru_present (applied update_case u (tid, v))) RGD_UPD_TIME_REMAINING =
     (if tid = RGD_TLV_TIME_REMAINING \<and> 8 \<le> length v then True else has (ru_present u) RGD_UPD_TIME_REMAINING)"
  "has (ru_present (applied update_case u (tid, v))) RGD_UPD_DISTANCE_REMAINING =
     (if tid = RGD_TLV_DISTANCE_REMAINING \<and> 4 \<le> length v then True else has (ru_present u) RGD_UPD_DISTANCE_REMAINING)"
  "has (ru_present (applied update_case u (tid, v))) RGD_UPD_DISTANCE_STRING =
     (if tid = RGD_TLV_DISTANCE_STRING \<and> 0 \<le> length v then True else has (ru_present u) RGD_UPD_DISTANCE_STRING)"
  "has (ru_present (applied update_case u (tid, v))) RGD_UPD_DISTANCE_UNITS =
     (if tid = RGD_TLV_DISTANCE_UNITS \<and> 1 \<le> length v then True else has (ru_present u) RGD_UPD_DISTANCE_UNITS)"
  "has (ru_present (applied update_case u (tid, v))) RGD_UPD_DIST_TO_MANEUVER =
     (if tid = RGD_TLV_DIST_TO_MANEUVER \<and> 4 \<le> length v then True else has (ru_present u) RGD_UPD_DIST_TO_MANEUVER)"
  "has (ru_present (applied update_case u (tid, v))) RGD_UPD_DIST_TO_MANEUVER_STR =
     (if tid = RGD_TLV_DIST_TO_MANEUVER_STRING \<and> 0 \<le> length v then True else has (ru_present u) RGD_UPD_DIST_TO_MANEUVER_STR)"
  "has (ru_present (applied update_case u (tid, v))) RGD_UPD_DIST_TO_MANEUVER_UNI =
     (if tid = RGD_TLV_DIST_TO_MANEUVER_UNITS \<and> 1 \<le> length v then True else has (ru_present u) RGD_UPD_DIST_TO_MANEUVER_UNI)"
  "has (ru_present (applied update_case u (tid, v))) RGD_UPD_MANEUVER_COUNT =
     (if tid = RGD_TLV_MANEUVER_COUNT \<and> 2 \<le> length v then True else has (ru_present u) RGD_UPD_MANEUVER_COUNT)"
  "has (ru_present (applied update_case u (tid, v))) RGD_UPD_MANEUVER_LIST =
     (if tid = RGD_TLV_MANEUVER_LIST \<and> 0 \<le> length v then True else has (ru_present u) RGD_UPD_MANEUVER_LIST)"
  "has (ru_present (applied update_case u (tid, v))) RGD_UPD_VISIBLE_IN_APP =
     (if tid = RGD_TLV_VISIBLE_IN_APP \<and> 1 \<le> length v then True else has (ru_present u) RGD_UPD_VISIBLE_IN_APP)"
  "has (ru_present (applied update_case u (tid, v))) RGD_UPD_LANE_INDEX =
     (if tid = RGD_TLV_LANE_GUIDANCE_INDEX \<and> 2 \<le> length v then True else has (ru_present u) RGD_UPD_LANE_INDEX)"
  "has (ru_present (applied update_case u (tid, v))) RGD_UPD_LANE_TOTAL =
     (if tid = RGD_TLV_LANE_GUIDANCE_TOTAL \<and> 2 \<le> length v then True else has (ru_present u) RGD_UPD_LANE_TOTAL)"
  "has (ru_present (applied update_case u (tid, v))) RGD_UPD_LANE_SHOWING =
     (if tid = RGD_TLV_LANE_GUIDANCE_SHOWING \<and> 1 \<le> length v then True else has (ru_present u) RGD_UPD_LANE_SHOWING)"
  "has (ru_present (applied update_case u (tid, v))) RGD_UPD_SOURCE_NAME =
     (if tid = RGD_TLV_SOURCE_NAME \<and> 0 \<le> length v then True else has (ru_present u) RGD_UPD_SOURCE_NAME)"
  "has (ru_present (applied update_case u (tid, v))) RGD_UPD_SOURCE_SUPPORTS_RG =
     (if tid = RGD_TLV_SOURCE_SUPPORTS_RG \<and> 1 \<le> length v then True else has (ru_present u) RGD_UPD_SOURCE_SUPPORTS_RG)"
  by (rule update_field [where get = "\<lambda>u. has (ru_present u) _"], unfold update_ids_def,
      (intro ballI, elim insertE emptyE; hypsubst; unfold update_at;
        simp add: upd_ids upd_bits flag_simps), simp)+

lemma update_applied_high:
  assumes "21 \<le> k"
  shows "bit (ru_present (applied update_case u (tid, v))) k \<longleftrightarrow> bit (ru_present u) k"
proof (cases "tid \<in> update_ids")
  case True
  then show ?thesis
    unfolding update_ids_def
    by (elim insertE emptyE; hypsubst; unfold update_at; use assms in \<open>simp add: upd_bits flag_simps\<close>)
qed (simp add: update_at_other)

definition tlv_val :: "u16 \<Rightarrow> nat \<Rightarrow> (bytes \<Rightarrow> 'a) \<Rightarrow> 'a \<Rightarrow> (u16 \<times> bytes) list \<Rightarrow> 'a" where
  "tlv_val T n val d ts = (case last_tlv T n ts of None \<Rightarrow> d | Some v \<Rightarrow> val v)"

lemma foldl_tlv_val:
  assumes "\<And>s tid v. get (applied f s (tid, v)) = (if tid = T \<and> n \<le> length v then val v else get s)"
    and "get s = d"
  shows "get (foldl (applied f) s ts) = tlv_val T n val d ts"
  unfolding tlv_val_def using foldl_last_wins [where get = get, OF assms(1)] assms(2) by (simp split: option.splits)

lemma parse_update_fold:
  assumes "p + len \<le> length m" and "6 \<le> len"
  shows "rgd_parse_update m (Some p) len =
    Some (foldl (applied update_case) zero_update (tlv_split (slice m (p + 6) (len - 6))))"
  using assms
  by (simp add: rgd_parse_update_def tlv_walk_spec [OF assms(1)] walk_keep update_case_total)

lemma update_fold_fields:
  "ru_component_ids (foldl (applied update_case) zero_update ts) =
     tlv_val RGD_TLV_COMPONENT_ID 0 (\<lambda>v. be16_list_loop MAX_COMPONENT_LIST v []) [] ts"
  "ru_route_state (foldl (applied update_case) zero_update ts) =
     tlv_val RGD_TLV_ROUTE_GUIDANCE_STATE 1 (\<lambda>v. v ! 0) 0 ts"
  "ru_maneuver_state (foldl (applied update_case) zero_update ts) =
     tlv_val RGD_TLV_MANEUVER_STATE 1 (\<lambda>v. v ! 0) 0 ts"
  "ru_current_road (foldl (applied update_case) zero_update ts) =
     tlv_val RGD_TLV_CURRENT_ROAD_NAME 0 (road_text 255) [] ts"
  "ru_destination (foldl (applied update_case) zero_update ts) =
     tlv_val RGD_TLV_DESTINATION_NAME 0 (road_text 255) [] ts"
  "ru_eta (foldl (applied update_case) zero_update ts) =
     tlv_val RGD_TLV_ETA 8 val64 0 ts"
  "ru_time_remaining (foldl (applied update_case) zero_update ts) =
     tlv_val RGD_TLV_TIME_REMAINING 8 val64 0 ts"
  "ru_distance_remaining (foldl (applied update_case) zero_update ts) =
     tlv_val RGD_TLV_DISTANCE_REMAINING 4 val32 0 ts"
  "ru_distance_string (foldl (applied update_case) zero_update ts) =
     tlv_val RGD_TLV_DISTANCE_STRING 0 (plain_text 63) [] ts"
  "ru_distance_units (foldl (applied update_case) zero_update ts) =
     tlv_val RGD_TLV_DISTANCE_UNITS 1 (\<lambda>v. v ! 0) 0 ts"
  "ru_dist_to_maneuver (foldl (applied update_case) zero_update ts) =
     tlv_val RGD_TLV_DIST_TO_MANEUVER 4 val32 0 ts"
  "ru_dist_to_maneuver_string (foldl (applied update_case) zero_update ts) =
     tlv_val RGD_TLV_DIST_TO_MANEUVER_STRING 0 (plain_text 63) [] ts"
  "ru_dist_to_maneuver_units (foldl (applied update_case) zero_update ts) =
     tlv_val RGD_TLV_DIST_TO_MANEUVER_UNITS 1 (\<lambda>v. v ! 0) 0 ts"
  "ru_maneuver_count (foldl (applied update_case) zero_update ts) =
     tlv_val RGD_TLV_MANEUVER_COUNT 2 val16 0 ts"
  "ru_maneuver_list (foldl (applied update_case) zero_update ts) =
     tlv_val RGD_TLV_MANEUVER_LIST 0 (\<lambda>v. be16_list_loop MAX_MANEUVER_LIST v []) [] ts"
  "ru_visible_in_app (foldl (applied update_case) zero_update ts) =
     tlv_val RGD_TLV_VISIBLE_IN_APP 1 (\<lambda>v. v ! 0) 0 ts"
  "ru_lane_guidance_index (foldl (applied update_case) zero_update ts) =
     tlv_val RGD_TLV_LANE_GUIDANCE_INDEX 2 val16 0 ts"
  "ru_lane_guidance_total (foldl (applied update_case) zero_update ts) =
     tlv_val RGD_TLV_LANE_GUIDANCE_TOTAL 2 val16 0 ts"
  "ru_lane_guidance_showing (foldl (applied update_case) zero_update ts) =
     tlv_val RGD_TLV_LANE_GUIDANCE_SHOWING 1 (\<lambda>v. v ! 0) 0 ts"
  "ru_source_name (foldl (applied update_case) zero_update ts) =
     tlv_val RGD_TLV_SOURCE_NAME 0 (road_text 63) [] ts"
  "ru_source_supports_rg (foldl (applied update_case) zero_update ts) =
     tlv_val RGD_TLV_SOURCE_SUPPORTS_RG 1 (\<lambda>v. v ! 0) 0 ts"
  by (rule foldl_tlv_val, rule update_applied_fields, simp add: zero_update_def)+

lemma update_fold_present:
  assumes "(T, b, n) \<in> set update_table"
  shows "has (ru_present (foldl (applied update_case) zero_update ts)) b \<longleftrightarrow> last_tlv T n ts \<noteq> None"
proof -
  have "\<forall>(T, b, n) \<in> set update_table. \<forall>u tid v.
    has (ru_present (applied update_case u (tid, v))) b =
      (if tid = T \<and> n \<le> length v then True else has (ru_present u) b)"
    unfolding update_table_def list.set ball_simps prod.case
    by (intro conjI allI TrueI; rule update_applied_present)
  then have "has (ru_present (foldl (applied update_case) zero_update ts)) b =
    tlv_val T n (\<lambda>v. True) False ts"
    using assms by (intro foldl_tlv_val [where get = "\<lambda>u. has (ru_present u) b"])
      (auto simp: zero_update_def)
  then show ?thesis by (simp add: tlv_val_def split: option.splits)
qed

lemma update_fold_high: "21 \<le> k \<Longrightarrow> \<not> bit (ru_present (foldl (applied update_case) zero_update ts)) k"
proof (induction ts rule: rev_induct)
  case (snoc t ts)
  then show ?case by (cases t) (simp add: update_applied_high)
qed (simp add: zero_update_def)

lemma flag_eq_iff:
  "k < LENGTH('a) \<Longrightarrow> l < LENGTH('a) \<Longrightarrow> flag k = (flag l :: 'a::len word) \<longleftrightarrow> k = l"
  by (metis bit_flag)

section \<open>What the maneuver parser computes\<close>

definition info_text :: "bytes \<Rightarrow> string" where "info_text v = printable_loop (take 256 v)"

lemma copy_printable_info: "copy_printable_string_preview v (RGD_EXIT_INFO_MAX + 1) = Some (info_text v)"
  by (cases "v = []")
    (simp_all add: copy_printable_string_preview_def RGD_EXIT_INFO_MAX_def info_text_def Let_def rd_mem_def slice_def)

lemma linked_index_read: "decode_linked_lane_index v = Some (if 2 \<le> length v then Some (val16 v) else None)"
  by (simp add: decode_linked_lane_index_def read_vals)

lemma maneuver_case_total: "\<exists>u'. maneuver_case tid v u = Some u'"
  unfolding maneuver_case_def
  by (intro if_total; simp add: read_vals copy_printable_info linked_index_read Let_def)

lemma maneuver_at:
  "applied maneuver_case u (MAN_TLV_COMPONENT_ID, v) =
     (u\<lparr> rm_component_ids := be16_list_loop MAX_COMPONENT_LIST v [], rm_present := rm_present u OR RGD_MAN_COMPONENT_IDS \<rparr>)"
  "applied maneuver_case u (MAN_TLV_INDEX, v) =
     (if 2 \<le> length v then u\<lparr> rm_index := val16 v, rm_present := rm_present u OR RGD_MAN_INDEX \<rparr> else u)"
  "applied maneuver_case u (MAN_TLV_DESCRIPTION, v) =
     (u\<lparr> rm_description := road_text 255 v, rm_present := rm_present u OR RGD_MAN_DESCRIPTION \<rparr>)"
  "applied maneuver_case u (MAN_TLV_TYPE, v) =
     (if 1 \<le> length v then u\<lparr> rm_maneuver_type := v ! 0, rm_present := rm_present u OR RGD_MAN_TYPE \<rparr> else u)"
  "applied maneuver_case u (MAN_TLV_AFTER_ROAD_NAME, v) =
     (u\<lparr> rm_after_road_name := road_text 255 v, rm_present := rm_present u OR RGD_MAN_AFTER_ROAD \<rparr>)"
  "applied maneuver_case u (MAN_TLV_DISTANCE_BETWEEN, v) =
     (if 4 \<le> length v then u\<lparr> rm_distance_between := val32 v, rm_present := rm_present u OR RGD_MAN_DISTANCE_BETWEEN \<rparr> else u)"
  "applied maneuver_case u (MAN_TLV_DISTANCE_STRING, v) =
     (u\<lparr> rm_distance_string := plain_text 63 v, rm_present := rm_present u OR RGD_MAN_DISTANCE_STRING \<rparr>)"
  "applied maneuver_case u (MAN_TLV_DISTANCE_UNITS, v) =
     (if 1 \<le> length v then u\<lparr> rm_distance_units := v ! 0, rm_present := rm_present u OR RGD_MAN_DISTANCE_UNITS \<rparr> else u)"
  "applied maneuver_case u (MAN_TLV_DRIVING_SIDE, v) =
     (if 1 \<le> length v then u\<lparr> rm_driving_side := v ! 0, rm_present := rm_present u OR RGD_MAN_DRIVING_SIDE \<rparr> else u)"
  "applied maneuver_case u (MAN_TLV_JUNCTION_TYPE, v) =
     (if 1 \<le> length v then u\<lparr> rm_junction_type := v ! 0, rm_present := rm_present u OR RGD_MAN_JUNCTION_TYPE \<rparr> else u)"
  "applied maneuver_case u (MAN_TLV_EXIT_ANGLE, v) =
     (if 2 \<le> length v then u\<lparr> rm_exit_angle := val16 v, rm_present := rm_present u OR RGD_MAN_EXIT_ANGLE \<rparr> else u)"
  "applied maneuver_case u (MAN_TLV_JUNCTION_ANGLES, v) =
     (u\<lparr> rm_junction_angles := be16_list_loop MAX_MANEUVER_LIST v (rm_junction_angles u), rm_present := rm_present u OR RGD_MAN_JUNCTION_ANGLES \<rparr>)"
  "applied maneuver_case u (MAN_TLV_LINKED_LANE_GUIDANCE, v) =
     (if 2 \<le> length v
      then u\<lparr> rm_lane_guidance_raw_len := of_nat (length v), rm_linked_lane_guidance_index := val16 v,
        rm_present := rm_present u OR RGD_MAN_LANE_GUIDANCE_RAW OR RGD_MAN_LINKED_LANE_INDEX \<rparr>
      else u\<lparr> rm_lane_guidance_raw_len := of_nat (length v),
        rm_present := rm_present u OR RGD_MAN_LANE_GUIDANCE_RAW \<rparr>)"
  "applied maneuver_case u (MAN_TLV_EXIT_INFO, v) =
     (u\<lparr> rm_exit_info_raw_len := of_nat (length v), rm_exit_info_str := info_text v,
        rm_present := rm_present u OR RGD_MAN_EXIT_INFO_RAW OR RGD_MAN_EXIT_INFO_STR \<rparr>)"
  by (simp_all add: applied_def maneuver_case_def man_ids read_vals road_text_def copy_printable_info
      linked_index_read Let_def or.assoc)

definition maneuver_ids :: "u16 set" where
  "maneuver_ids = {MAN_TLV_COMPONENT_ID, MAN_TLV_INDEX, MAN_TLV_DESCRIPTION, MAN_TLV_TYPE,
     MAN_TLV_AFTER_ROAD_NAME, MAN_TLV_DISTANCE_BETWEEN, MAN_TLV_DISTANCE_STRING,
     MAN_TLV_DISTANCE_UNITS, MAN_TLV_DRIVING_SIDE, MAN_TLV_JUNCTION_TYPE, MAN_TLV_EXIT_ANGLE,
     MAN_TLV_JUNCTION_ANGLES, MAN_TLV_LINKED_LANE_GUIDANCE, MAN_TLV_EXIT_INFO}"

lemma maneuver_at_other: "tid \<notin> maneuver_ids \<Longrightarrow> applied maneuver_case u (tid, v) = u"
  by (simp add: maneuver_ids_def applied_def maneuver_case_def)

lemma maneuver_field:
  assumes "\<forall>T \<in> maneuver_ids. get (applied maneuver_case u (T, v)) = (if T = T0 \<and> n \<le> length v then x else get u)"
    and "T0 \<in> maneuver_ids"
  shows "get (applied maneuver_case u (tid, v)) = (if tid = T0 \<and> n \<le> length v then x else get u)"
  using assms by (cases "tid \<in> maneuver_ids") (auto simp: maneuver_at_other)

lemma maneuver_applied_fields:
  "rm_component_ids (applied maneuver_case u (tid, v)) =
     (if tid = MAN_TLV_COMPONENT_ID \<and> 0 \<le> length v then be16_list_loop MAX_COMPONENT_LIST v [] else rm_component_ids u)"
  "rm_index (applied maneuver_case u (tid, v)) =
     (if tid = MAN_TLV_INDEX \<and> 2 \<le> length v then val16 v else rm_index u)"
  "rm_description (applied maneuver_case u (tid, v)) =
     (if tid = MAN_TLV_DESCRIPTION \<and> 0 \<le> length v then road_text 255 v else rm_description u)"
  "rm_maneuver_type (applied maneuver_case u (tid, v)) =
     (if tid = MAN_TLV_TYPE \<and> 1 \<le> length v then v ! 0 else rm_maneuver_type u)"
  "rm_after_road_name (applied maneuver_case u (tid, v)) =
     (if tid = MAN_TLV_AFTER_ROAD_NAME \<and> 0 \<le> length v then road_text 255 v else rm_after_road_name u)"
  "rm_distance_between (applied maneuver_case u (tid, v)) =
     (if tid = MAN_TLV_DISTANCE_BETWEEN \<and> 4 \<le> length v then val32 v else rm_distance_between u)"
  "rm_distance_string (applied maneuver_case u (tid, v)) =
     (if tid = MAN_TLV_DISTANCE_STRING \<and> 0 \<le> length v then plain_text 63 v else rm_distance_string u)"
  "rm_distance_units (applied maneuver_case u (tid, v)) =
     (if tid = MAN_TLV_DISTANCE_UNITS \<and> 1 \<le> length v then v ! 0 else rm_distance_units u)"
  "rm_driving_side (applied maneuver_case u (tid, v)) =
     (if tid = MAN_TLV_DRIVING_SIDE \<and> 1 \<le> length v then v ! 0 else rm_driving_side u)"
  "rm_junction_type (applied maneuver_case u (tid, v)) =
     (if tid = MAN_TLV_JUNCTION_TYPE \<and> 1 \<le> length v then v ! 0 else rm_junction_type u)"
  "rm_exit_angle (applied maneuver_case u (tid, v)) =
     (if tid = MAN_TLV_EXIT_ANGLE \<and> 2 \<le> length v then val16 v else rm_exit_angle u)"
  "rm_lane_guidance_raw_len (applied maneuver_case u (tid, v)) =
     (if tid = MAN_TLV_LINKED_LANE_GUIDANCE \<and> 0 \<le> length v then of_nat (length v) else rm_lane_guidance_raw_len u)"
  "rm_linked_lane_guidance_index (applied maneuver_case u (tid, v)) =
     (if tid = MAN_TLV_LINKED_LANE_GUIDANCE \<and> 2 \<le> length v then val16 v else rm_linked_lane_guidance_index u)"
  "rm_exit_info_raw_len (applied maneuver_case u (tid, v)) =
     (if tid = MAN_TLV_EXIT_INFO \<and> 0 \<le> length v then of_nat (length v) else rm_exit_info_raw_len u)"
  "rm_exit_info_str (applied maneuver_case u (tid, v)) =
     (if tid = MAN_TLV_EXIT_INFO \<and> 0 \<le> length v then info_text v else rm_exit_info_str u)"
  by (rule maneuver_field, unfold maneuver_ids_def,
      (intro ballI, elim insertE emptyE; hypsubst; unfold maneuver_at; simp add: man_ids), simp)+

lemma maneuver_applied_junction:
  "rm_junction_angles (applied maneuver_case u (tid, v)) =
     (if tid = MAN_TLV_JUNCTION_ANGLES \<and> 0 \<le> length v
      then be16_list_loop MAX_MANEUVER_LIST v (rm_junction_angles u) else rm_junction_angles u)"
  by (rule maneuver_field, unfold maneuver_ids_def,
      (intro ballI, elim insertE emptyE; hypsubst; unfold maneuver_at; simp add: man_ids), simp)

definition maneuver_table :: "(u16 \<times> u64 \<times> nat) list" where
  "maneuver_table =
    [(MAN_TLV_COMPONENT_ID, RGD_MAN_COMPONENT_IDS, 0),
     (MAN_TLV_INDEX, RGD_MAN_INDEX, 2),
     (MAN_TLV_DESCRIPTION, RGD_MAN_DESCRIPTION, 0),
     (MAN_TLV_TYPE, RGD_MAN_TYPE, 1),
     (MAN_TLV_AFTER_ROAD_NAME, RGD_MAN_AFTER_ROAD, 0),
     (MAN_TLV_DISTANCE_BETWEEN, RGD_MAN_DISTANCE_BETWEEN, 4),
     (MAN_TLV_DISTANCE_STRING, RGD_MAN_DISTANCE_STRING, 0),
     (MAN_TLV_DISTANCE_UNITS, RGD_MAN_DISTANCE_UNITS, 1),
     (MAN_TLV_DRIVING_SIDE, RGD_MAN_DRIVING_SIDE, 1),
     (MAN_TLV_JUNCTION_TYPE, RGD_MAN_JUNCTION_TYPE, 1),
     (MAN_TLV_EXIT_ANGLE, RGD_MAN_EXIT_ANGLE, 2),
     (MAN_TLV_LINKED_LANE_GUIDANCE, RGD_MAN_LANE_GUIDANCE_RAW, 0),
     (MAN_TLV_LINKED_LANE_GUIDANCE, RGD_MAN_LINKED_LANE_INDEX, 2),
     (MAN_TLV_EXIT_INFO, RGD_MAN_EXIT_INFO_RAW, 0),
     (MAN_TLV_EXIT_INFO, RGD_MAN_EXIT_INFO_STR, 0),
     (MAN_TLV_JUNCTION_ANGLES, RGD_MAN_JUNCTION_ANGLES, 0)]"

lemma maneuver_applied_present:
  "has (rm_present (applied maneuver_case u (tid, v))) RGD_MAN_COMPONENT_IDS =
     (if tid = MAN_TLV_COMPONENT_ID \<and> 0 \<le> length v then True else has (rm_present u) RGD_MAN_COMPONENT_IDS)"
  "has (rm_present (applied maneuver_case u (tid, v))) RGD_MAN_INDEX =
     (if tid = MAN_TLV_INDEX \<and> 2 \<le> length v then True else has (rm_present u) RGD_MAN_INDEX)"
  "has (rm_present (applied maneuver_case u (tid, v))) RGD_MAN_DESCRIPTION =
     (if tid = MAN_TLV_DESCRIPTION \<and> 0 \<le> length v then True else has (rm_present u) RGD_MAN_DESCRIPTION)"
  "has (rm_present (applied maneuver_case u (tid, v))) RGD_MAN_TYPE =
     (if tid = MAN_TLV_TYPE \<and> 1 \<le> length v then True else has (rm_present u) RGD_MAN_TYPE)"
  "has (rm_present (applied maneuver_case u (tid, v))) RGD_MAN_AFTER_ROAD =
     (if tid = MAN_TLV_AFTER_ROAD_NAME \<and> 0 \<le> length v then True else has (rm_present u) RGD_MAN_AFTER_ROAD)"
  "has (rm_present (applied maneuver_case u (tid, v))) RGD_MAN_DISTANCE_BETWEEN =
     (if tid = MAN_TLV_DISTANCE_BETWEEN \<and> 4 \<le> length v then True else has (rm_present u) RGD_MAN_DISTANCE_BETWEEN)"
  "has (rm_present (applied maneuver_case u (tid, v))) RGD_MAN_DISTANCE_STRING =
     (if tid = MAN_TLV_DISTANCE_STRING \<and> 0 \<le> length v then True else has (rm_present u) RGD_MAN_DISTANCE_STRING)"
  "has (rm_present (applied maneuver_case u (tid, v))) RGD_MAN_DISTANCE_UNITS =
     (if tid = MAN_TLV_DISTANCE_UNITS \<and> 1 \<le> length v then True else has (rm_present u) RGD_MAN_DISTANCE_UNITS)"
  "has (rm_present (applied maneuver_case u (tid, v))) RGD_MAN_DRIVING_SIDE =
     (if tid = MAN_TLV_DRIVING_SIDE \<and> 1 \<le> length v then True else has (rm_present u) RGD_MAN_DRIVING_SIDE)"
  "has (rm_present (applied maneuver_case u (tid, v))) RGD_MAN_JUNCTION_TYPE =
     (if tid = MAN_TLV_JUNCTION_TYPE \<and> 1 \<le> length v then True else has (rm_present u) RGD_MAN_JUNCTION_TYPE)"
  "has (rm_present (applied maneuver_case u (tid, v))) RGD_MAN_EXIT_ANGLE =
     (if tid = MAN_TLV_EXIT_ANGLE \<and> 2 \<le> length v then True else has (rm_present u) RGD_MAN_EXIT_ANGLE)"
  "has (rm_present (applied maneuver_case u (tid, v))) RGD_MAN_LANE_GUIDANCE_RAW =
     (if tid = MAN_TLV_LINKED_LANE_GUIDANCE \<and> 0 \<le> length v then True else has (rm_present u) RGD_MAN_LANE_GUIDANCE_RAW)"
  "has (rm_present (applied maneuver_case u (tid, v))) RGD_MAN_LINKED_LANE_INDEX =
     (if tid = MAN_TLV_LINKED_LANE_GUIDANCE \<and> 2 \<le> length v then True else has (rm_present u) RGD_MAN_LINKED_LANE_INDEX)"
  "has (rm_present (applied maneuver_case u (tid, v))) RGD_MAN_EXIT_INFO_RAW =
     (if tid = MAN_TLV_EXIT_INFO \<and> 0 \<le> length v then True else has (rm_present u) RGD_MAN_EXIT_INFO_RAW)"
  "has (rm_present (applied maneuver_case u (tid, v))) RGD_MAN_EXIT_INFO_STR =
     (if tid = MAN_TLV_EXIT_INFO \<and> 0 \<le> length v then True else has (rm_present u) RGD_MAN_EXIT_INFO_STR)"
  "has (rm_present (applied maneuver_case u (tid, v))) RGD_MAN_JUNCTION_ANGLES =
     (if tid = MAN_TLV_JUNCTION_ANGLES \<and> 0 \<le> length v then True else has (rm_present u) RGD_MAN_JUNCTION_ANGLES)"
  by (rule maneuver_field [where get = "\<lambda>u. has (rm_present u) _"], unfold maneuver_ids_def,
      (intro ballI, elim insertE emptyE; hypsubst; unfold maneuver_at;
        simp add: man_ids man_bits flag_simps bit_or_iff), simp)+

lemma maneuver_applied_lanes: "rm_lanes (applied maneuver_case u (tid, v)) = rm_lanes u"
  "has (rm_present (applied maneuver_case u (tid, v))) RGD_MAN_LANE_GUIDANCE = has (rm_present u) RGD_MAN_LANE_GUIDANCE"
proof -
  have "rm_lanes (applied maneuver_case u (tid, v)) = rm_lanes u \<and>
    has (rm_present (applied maneuver_case u (tid, v))) RGD_MAN_LANE_GUIDANCE = has (rm_present u) RGD_MAN_LANE_GUIDANCE"
  proof (cases "tid \<in> maneuver_ids")
    case True
    then show ?thesis
      unfolding maneuver_ids_def
      by (elim insertE emptyE; hypsubst; unfold maneuver_at; simp add: man_bits flag_simps bit_or_iff)
  qed (simp add: maneuver_at_other)
  then show "rm_lanes (applied maneuver_case u (tid, v)) = rm_lanes u"
    "has (rm_present (applied maneuver_case u (tid, v))) RGD_MAN_LANE_GUIDANCE = has (rm_present u) RGD_MAN_LANE_GUIDANCE"
    by blast+
qed

definition maneuver0 :: rgd_maneuver where
  "maneuver0 = zero_maneuver\<lparr> rm_linked_lane_guidance_index := 0xFFFF \<rparr>"

abbreviation maneuver_fold :: "(u16 \<times> bytes) list \<Rightarrow> rgd_maneuver" where
  "maneuver_fold ts \<equiv> foldl (applied maneuver_case) maneuver0 ts"

definition default_exit_angle :: "rgd_maneuver \<Rightarrow> rgd_maneuver" where
  "default_exit_angle u =
     (if has (rm_present u) RGD_MAN_INDEX \<and> \<not> has (rm_present u) RGD_MAN_EXIT_ANGLE
      then u\<lparr> rm_exit_angle := 1000, rm_present := rm_present u OR RGD_MAN_EXIT_ANGLE \<rparr> else u)"

lemma parse_maneuver_fold:
  assumes "p + len \<le> length m" and "6 \<le> len"
  shows "rgd_parse_maneuver m (Some p) len =
    Some (default_exit_angle (maneuver_fold (tlv_split (slice m (p + 6) (len - 6)))))"
  using assms
  by (simp add: rgd_parse_maneuver_def tlv_walk_spec [OF assms(1)] walk_keep maneuver_case_total
      maneuver0_def default_exit_angle_def Let_def)

lemma maneuver_fold_fields:
  "rm_component_ids (maneuver_fold ts) =
     tlv_val MAN_TLV_COMPONENT_ID 0 (\<lambda>v. be16_list_loop MAX_COMPONENT_LIST v []) [] ts"
  "rm_index (maneuver_fold ts) =
     tlv_val MAN_TLV_INDEX 2 val16 0 ts"
  "rm_description (maneuver_fold ts) =
     tlv_val MAN_TLV_DESCRIPTION 0 (road_text 255) [] ts"
  "rm_maneuver_type (maneuver_fold ts) =
     tlv_val MAN_TLV_TYPE 1 (\<lambda>v. v ! 0) 0 ts"
  "rm_after_road_name (maneuver_fold ts) =
     tlv_val MAN_TLV_AFTER_ROAD_NAME 0 (road_text 255) [] ts"
  "rm_distance_between (maneuver_fold ts) =
     tlv_val MAN_TLV_DISTANCE_BETWEEN 4 val32 0 ts"
  "rm_distance_string (maneuver_fold ts) =
     tlv_val MAN_TLV_DISTANCE_STRING 0 (plain_text 63) [] ts"
  "rm_distance_units (maneuver_fold ts) =
     tlv_val MAN_TLV_DISTANCE_UNITS 1 (\<lambda>v. v ! 0) 0 ts"
  "rm_driving_side (maneuver_fold ts) =
     tlv_val MAN_TLV_DRIVING_SIDE 1 (\<lambda>v. v ! 0) 0 ts"
  "rm_junction_type (maneuver_fold ts) =
     tlv_val MAN_TLV_JUNCTION_TYPE 1 (\<lambda>v. v ! 0) 0 ts"
  "rm_exit_angle (maneuver_fold ts) =
     tlv_val MAN_TLV_EXIT_ANGLE 2 val16 0 ts"
  "rm_lane_guidance_raw_len (maneuver_fold ts) =
     tlv_val MAN_TLV_LINKED_LANE_GUIDANCE 0 (\<lambda>v. of_nat (length v)) 0 ts"
  "rm_linked_lane_guidance_index (maneuver_fold ts) =
     tlv_val MAN_TLV_LINKED_LANE_GUIDANCE 2 val16 0xFFFF ts"
  "rm_exit_info_raw_len (maneuver_fold ts) =
     tlv_val MAN_TLV_EXIT_INFO 0 (\<lambda>v. of_nat (length v)) 0 ts"
  "rm_exit_info_str (maneuver_fold ts) =
     tlv_val MAN_TLV_EXIT_INFO 0 info_text [] ts"
  by (rule foldl_tlv_val, rule maneuver_applied_fields, simp add: maneuver0_def zero_maneuver_def)+

text \<open>The angles of all the angle TLVs, in order, as far as the array goes.\<close>

definition junction_angles :: "(u16 \<times> bytes) list \<Rightarrow> i16 list" where
  "junction_angles ts = foldl (\<lambda>xs t. be16_list_loop MAX_MANEUVER_LIST (snd t) xs) []
     (filter (\<lambda>t. fst t = MAN_TLV_JUNCTION_ANGLES) ts)"

lemma maneuver_fold_junction: "rm_junction_angles (maneuver_fold ts) = junction_angles ts"
proof (induction ts rule: rev_induct)
  case (snoc t ts)
  then show ?case by (cases t) (simp add: maneuver_applied_junction junction_angles_def)
qed (simp add: maneuver0_def zero_maneuver_def junction_angles_def)

lemma maneuver_fold_lanes:
  "rm_lanes (maneuver_fold ts) = []" "\<not> has (rm_present (maneuver_fold ts)) RGD_MAN_LANE_GUIDANCE"
proof -
  have "rm_lanes (maneuver_fold ts) = [] \<and> \<not> has (rm_present (maneuver_fold ts)) RGD_MAN_LANE_GUIDANCE"
  proof (induction ts rule: rev_induct)
    case (snoc t ts)
    then show ?case by (cases t) (simp add: maneuver_applied_lanes)
  qed (simp add: maneuver0_def zero_maneuver_def)
  then show "rm_lanes (maneuver_fold ts) = []" "\<not> has (rm_present (maneuver_fold ts)) RGD_MAN_LANE_GUIDANCE"
    by blast+
qed

lemma maneuver_fold_present:
  assumes "(T, b, n) \<in> set maneuver_table"
  shows "has (rm_present (maneuver_fold ts)) b \<longleftrightarrow> last_tlv T n ts \<noteq> None"
proof -
  have "\<forall>(T, b, n) \<in> set maneuver_table. \<forall>u tid v.
    has (rm_present (applied maneuver_case u (tid, v))) b =
      (if tid = T \<and> n \<le> length v then True else has (rm_present u) b)"
    unfolding maneuver_table_def list.set ball_simps prod.case
    by (intro conjI allI TrueI; rule maneuver_applied_present)
  then have "has (rm_present (maneuver_fold ts)) b = tlv_val T n (\<lambda>v. True) False ts"
    using assms by (intro foldl_tlv_val [where get = "\<lambda>u. has (rm_present u) b"])
      (auto simp: maneuver0_def zero_maneuver_def)
  then show ?thesis by (simp add: tlv_val_def split: option.splits)
qed

section \<open>Bounds\<close>

lemma tlv_val_P: "P d \<Longrightarrow> (\<And>v. P (val v)) \<Longrightarrow> P (tlv_val T n val d ts)"
  by (simp add: tlv_val_def split: option.splits)

text \<open>A text for the display: no line break, within its array.\<close>

definition clean_text :: "nat \<Rightarrow> string \<Rightarrow> bool" where
  "clean_text n s \<longleftrightarrow> length s \<le> n \<and> set s \<inter> {CR, LF, nul} = {}"

definition c_text :: "nat \<Rightarrow> string \<Rightarrow> bool" where
  "c_text n s \<longleftrightarrow> length s \<le> n \<and> nul \<notin> set s"

lemma plain_text_ok: "c_text n (plain_text n v)"
  by (simp add: c_text_def plain_text_def field_str_length cstr_no_nul)

lemma road_text_ok: "clean_text n (road_text n v)"
  using replace_newlines_length [of "n + 1" "plain_text n v"] replace_newlines_clean [of "plain_text n v" "n + 1"]
    plain_text_ok [of n v]
  by (simp add: clean_text_def road_text_def c_text_def)

lemma info_text_ok: "clean_text 256 (info_text v)"
  using printable_loop_clean [of "take 256 v"] by (auto simp: clean_text_def info_text_def)

lemma text_Nil_ok [simp]: "clean_text n []" "c_text n []"
  by (simp_all add: clean_text_def c_text_def)

definition update_bounded :: "rgd_update \<Rightarrow> bool" where
  "update_bounded u \<longleftrightarrow> length (ru_component_ids u) \<le> 8 \<and> length (ru_maneuver_list u) \<le> 16 \<and>
     clean_text 255 (ru_current_road u) \<and> clean_text 255 (ru_destination u) \<and>
     clean_text 63 (ru_source_name u) \<and> c_text 63 (ru_distance_string u) \<and>
     c_text 63 (ru_dist_to_maneuver_string u)"

definition maneuver_bounded :: "rgd_maneuver \<Rightarrow> bool" where
  "maneuver_bounded u \<longleftrightarrow> length (rm_component_ids u) \<le> 8 \<and> length (rm_junction_angles u) \<le> 16 \<and>
     clean_text 255 (rm_description u) \<and> clean_text 255 (rm_after_road_name u) \<and>
     c_text 63 (rm_distance_string u) \<and> clean_text 256 (rm_exit_info_str u)"

lemma update_fold_bounded: "update_bounded (foldl (applied update_case) zero_update ts)"
  unfolding update_bounded_def update_fold_fields
  by (intro conjI tlv_val_P [where P = "\<lambda>x. length x \<le> _"] tlv_val_P [where P = "clean_text _"]
      tlv_val_P [where P = "c_text _"] road_text_ok plain_text_ok text_Nil_ok)
    (use be16_list_loop_length [of "[]"] in \<open>simp_all add: rgd_max_defs\<close>)

lemma junction_angles_length: "length (junction_angles ts) \<le> 16"
proof (induction ts rule: rev_induct)
  case (snoc t ts)
  then show ?case
    using be16_list_loop_length [of "junction_angles ts" 16 "snd t"]
    by (auto simp: junction_angles_def rgd_max_defs)
qed (simp add: junction_angles_def)

lemma maneuver_fold_bounded: "maneuver_bounded (maneuver_fold ts)"
  unfolding maneuver_bounded_def maneuver_fold_fields maneuver_fold_junction
  by (intro conjI tlv_val_P [where P = "\<lambda>x. length x \<le> _"] tlv_val_P [where P = "clean_text _"]
      tlv_val_P [where P = "c_text _"] road_text_ok plain_text_ok info_text_ok text_Nil_ok junction_angles_length)
    (use be16_list_loop_length [of "[]"] in \<open>simp_all add: rgd_max_defs\<close>)

lemma parse_update_bounded:
  "p + len \<le> length m \<Longrightarrow> \<exists>u. rgd_parse_update m (Some p) len = Some u \<and> update_bounded u"
  using parse_update_fold [of p len m] update_fold_bounded update_fold_bounded [of "[]"]
  by (cases "6 \<le> len") (auto simp: rgd_parse_update_def)

lemma parse_maneuver_bounded:
  "p + len \<le> length m \<Longrightarrow> \<exists>u. rgd_parse_maneuver m (Some p) len = Some u \<and> maneuver_bounded u"
  using parse_maneuver_fold [of p len m] maneuver_fold_bounded maneuver_fold_bounded [of "[]"]
  by (cases "6 \<le> len") (auto simp: rgd_parse_maneuver_def maneuver0_def default_exit_angle_def maneuver_bounded_def)

section \<open>Properties\<close>

text \<open>Property C21. rgd_parse_update never reads outside its buffer; every scalar and
  string field is the value of the last TLV with its id that is long enough
  (zero or empty when there is none), lists hold the elements of the last list
  TLV, a present bit is set exactly when the field's TLV occurred, and no bit
  above the twenty one of the message is set.\<close>

theorem update_last_wins:
  assumes "p + len \<le> length m" and "6 \<le> len"
  defines "ts \<equiv> tlv_split (slice m (p + 6) (len - 6))"
  shows "\<exists>u. rgd_parse_update m (Some p) len = Some u \<and>
    ru_component_ids u = tlv_val RGD_TLV_COMPONENT_ID 0 (\<lambda>v. be16_list_loop MAX_COMPONENT_LIST v []) [] ts \<and>
    ru_route_state u = tlv_val RGD_TLV_ROUTE_GUIDANCE_STATE 1 (\<lambda>v. v ! 0) 0 ts \<and>
    ru_maneuver_state u = tlv_val RGD_TLV_MANEUVER_STATE 1 (\<lambda>v. v ! 0) 0 ts \<and>
    ru_current_road u = tlv_val RGD_TLV_CURRENT_ROAD_NAME 0 (road_text 255) [] ts \<and>
    ru_destination u = tlv_val RGD_TLV_DESTINATION_NAME 0 (road_text 255) [] ts \<and>
    ru_eta u = tlv_val RGD_TLV_ETA 8 val64 0 ts \<and>
    ru_time_remaining u = tlv_val RGD_TLV_TIME_REMAINING 8 val64 0 ts \<and>
    ru_distance_remaining u = tlv_val RGD_TLV_DISTANCE_REMAINING 4 val32 0 ts \<and>
    ru_distance_string u = tlv_val RGD_TLV_DISTANCE_STRING 0 (plain_text 63) [] ts \<and>
    ru_distance_units u = tlv_val RGD_TLV_DISTANCE_UNITS 1 (\<lambda>v. v ! 0) 0 ts \<and>
    ru_dist_to_maneuver u = tlv_val RGD_TLV_DIST_TO_MANEUVER 4 val32 0 ts \<and>
    ru_dist_to_maneuver_string u = tlv_val RGD_TLV_DIST_TO_MANEUVER_STRING 0 (plain_text 63) [] ts \<and>
    ru_dist_to_maneuver_units u = tlv_val RGD_TLV_DIST_TO_MANEUVER_UNITS 1 (\<lambda>v. v ! 0) 0 ts \<and>
    ru_maneuver_count u = tlv_val RGD_TLV_MANEUVER_COUNT 2 val16 0 ts \<and>
    ru_maneuver_list u = tlv_val RGD_TLV_MANEUVER_LIST 0 (\<lambda>v. be16_list_loop MAX_MANEUVER_LIST v []) [] ts \<and>
    ru_visible_in_app u = tlv_val RGD_TLV_VISIBLE_IN_APP 1 (\<lambda>v. v ! 0) 0 ts \<and>
    ru_lane_guidance_index u = tlv_val RGD_TLV_LANE_GUIDANCE_INDEX 2 val16 0 ts \<and>
    ru_lane_guidance_total u = tlv_val RGD_TLV_LANE_GUIDANCE_TOTAL 2 val16 0 ts \<and>
    ru_lane_guidance_showing u = tlv_val RGD_TLV_LANE_GUIDANCE_SHOWING 1 (\<lambda>v. v ! 0) 0 ts \<and>
    ru_source_name u = tlv_val RGD_TLV_SOURCE_NAME 0 (road_text 63) [] ts \<and>
    ru_source_supports_rg u = tlv_val RGD_TLV_SOURCE_SUPPORTS_RG 1 (\<lambda>v. v ! 0) 0 ts \<and>
    (\<forall>(T, b, n) \<in> set update_table. has (ru_present u) b \<longleftrightarrow> last_tlv T n ts \<noteq> None) \<and>
    (\<forall>k \<ge> 21. \<not> bit (ru_present u) k)"
  unfolding ts_def
  by (intro exI conjI, rule parse_update_fold [OF assms(1,2)])
    (use update_fold_present update_fold_high in \<open>auto simp: update_fold_fields\<close>)

lemma update_last_wins_witness:
  "\<exists>u. rgd_parse_update [0x40, 0x40, 0, 23, 0x52, 1, 0, 5, 0, 1, 1, 0, 5, 0, 1, 5, 0, 7, 0, 3, 65, 13, 66]
       (Some 0) 23 = Some u \<and>
     ru_route_state u = 5 \<and> ru_current_road u = ''A / B'' \<and> has (ru_present u) RGD_UPD_CURRENT_ROAD \<and>
     \<not> has (ru_present u) RGD_UPD_ETA"
proof -
  let ?m = "[0x40, 0x40, 0, 23, 0x52, 1, 0, 5, 0, 1, 1, 0, 5, 0, 1, 5, 0, 7, 0, 3, 65, 13, 66] :: bytes"
  have ts: "tlv_split (slice ?m (0 + 6) (23 - 6)) = [(1, [1]), (1, [5]), (3, [65, 13, 66])]"
    by code_simp
  have v: "tlv_val RGD_TLV_ROUTE_GUIDANCE_STATE 1 (\<lambda>v. v ! 0) 0 [(1, [1]), (1, [5]), (3, [65, 13, 66 :: u8])] = 5"
    "tlv_val RGD_TLV_CURRENT_ROAD_NAME 0 (road_text 255) [] [(1, [1]), (1, [5]), (3, [65, 13, 66 :: u8])] = ''A / B''"
    "last_tlv RGD_TLV_CURRENT_ROAD_NAME 0 [(1, [1]), (1, [5]), (3, [65, 13, 66 :: u8])] = Some [65, 13, 66]"
    "last_tlv RGD_TLV_ETA 8 [(1, [1]), (1, [5]), (3, [65, 13, 66 :: u8])] = None"
    by code_simp+
  have t: "(RGD_TLV_CURRENT_ROAD_NAME, RGD_UPD_CURRENT_ROAD, 0) \<in> set update_table"
    "(RGD_TLV_ETA, RGD_UPD_ETA, 8) \<in> set update_table"
    by (simp_all add: update_table_def)
  have l: "0 + 23 \<le> length ?m" "(6 :: nat) \<le> 23" by simp_all
  show ?thesis
    using update_last_wins [OF l, unfolded ts v] t v(3,4) by fastforce
qed

text \<open>rgd_parse_maneuver never reads outside its buffer; scalar and
  string fields hold the last TLV with their id that is long enough, the
  junction angles of repeated TLVs accumulate, the exit angle of a maneuver
  with an index defaults to 1000 and counts as present, the linked lane index
  defaults to 0xFFFF, and the lanes and their bit are never set.\<close>

theorem maneuver_last_wins:
  assumes "p + len \<le> length m" and "6 \<le> len"
  defines "ts \<equiv> tlv_split (slice m (p + 6) (len - 6))"
  shows "\<exists>u. rgd_parse_maneuver m (Some p) len = Some u \<and>
    rm_component_ids u = tlv_val MAN_TLV_COMPONENT_ID 0 (\<lambda>v. be16_list_loop MAX_COMPONENT_LIST v []) [] ts \<and>
    rm_index u = tlv_val MAN_TLV_INDEX 2 val16 0 ts \<and>
    rm_description u = tlv_val MAN_TLV_DESCRIPTION 0 (road_text 255) [] ts \<and>
    rm_maneuver_type u = tlv_val MAN_TLV_TYPE 1 (\<lambda>v. v ! 0) 0 ts \<and>
    rm_after_road_name u = tlv_val MAN_TLV_AFTER_ROAD_NAME 0 (road_text 255) [] ts \<and>
    rm_distance_between u = tlv_val MAN_TLV_DISTANCE_BETWEEN 4 val32 0 ts \<and>
    rm_distance_string u = tlv_val MAN_TLV_DISTANCE_STRING 0 (plain_text 63) [] ts \<and>
    rm_distance_units u = tlv_val MAN_TLV_DISTANCE_UNITS 1 (\<lambda>v. v ! 0) 0 ts \<and>
    rm_driving_side u = tlv_val MAN_TLV_DRIVING_SIDE 1 (\<lambda>v. v ! 0) 0 ts \<and>
    rm_junction_type u = tlv_val MAN_TLV_JUNCTION_TYPE 1 (\<lambda>v. v ! 0) 0 ts \<and>
    rm_lane_guidance_raw_len u = tlv_val MAN_TLV_LINKED_LANE_GUIDANCE 0 (\<lambda>v. of_nat (length v)) 0 ts \<and>
    rm_linked_lane_guidance_index u = tlv_val MAN_TLV_LINKED_LANE_GUIDANCE 2 val16 0xFFFF ts \<and>
    rm_exit_info_raw_len u = tlv_val MAN_TLV_EXIT_INFO 0 (\<lambda>v. of_nat (length v)) 0 ts \<and>
    rm_exit_info_str u = tlv_val MAN_TLV_EXIT_INFO 0 info_text [] ts \<and>
    rm_junction_angles u = junction_angles ts \<and>
    rm_exit_angle u = (case last_tlv MAN_TLV_EXIT_ANGLE 2 ts of Some v \<Rightarrow> val16 v
      | None \<Rightarrow> if last_tlv MAN_TLV_INDEX 2 ts \<noteq> None then 1000 else 0) \<and>
    (\<forall>(T, b, n) \<in> set maneuver_table. has (rm_present u) b \<longleftrightarrow>
       last_tlv T n ts \<noteq> None \<or> b = RGD_MAN_EXIT_ANGLE \<and> last_tlv MAN_TLV_INDEX 2 ts \<noteq> None) \<and>
    rm_lanes u = [] \<and> \<not> has (rm_present u) RGD_MAN_LANE_GUIDANCE"
proof -
  let ?f = "maneuver_fold ts"
  have i: "has (rm_present ?f) RGD_MAN_INDEX \<longleftrightarrow> last_tlv MAN_TLV_INDEX 2 ts \<noteq> None"
    and e: "has (rm_present ?f) RGD_MAN_EXIT_ANGLE \<longleftrightarrow> last_tlv MAN_TLV_EXIT_ANGLE 2 ts \<noteq> None"
    by (rule maneuver_fold_present, simp add: maneuver_table_def)+
  have b: "\<forall>(T, b, n) \<in> set maneuver_table. has (rm_present (default_exit_angle ?f)) b \<longleftrightarrow>
       last_tlv T n ts \<noteq> None \<or> b = RGD_MAN_EXIT_ANGLE \<and> last_tlv MAN_TLV_INDEX 2 ts \<noteq> None"
  proof clarify
    fix T b n assume t: "(T, b, n) \<in> set maneuver_table"
    have "has RGD_MAN_EXIT_ANGLE b \<longleftrightarrow> b = RGD_MAN_EXIT_ANGLE"
      using t by (auto simp: maneuver_table_def man_bits flag_simps)
    moreover have "b = RGD_MAN_EXIT_ANGLE \<Longrightarrow> T = MAN_TLV_EXIT_ANGLE \<and> n = 2"
      using t by (auto simp: maneuver_table_def man_bits flag_eq_iff)
    ultimately show "has (rm_present (default_exit_angle ?f)) b \<longleftrightarrow>
       last_tlv T n ts \<noteq> None \<or> b = RGD_MAN_EXIT_ANGLE \<and> last_tlv MAN_TLV_INDEX 2 ts \<noteq> None"
      using maneuver_fold_present [OF t] i e by (auto simp: default_exit_angle_def has_or_left)
  qed
  have d: "rm_exit_angle ?f = tlv_val MAN_TLV_EXIT_ANGLE 2 val16 0 ts" by (rule maneuver_fold_fields)
  have r: "rgd_parse_maneuver m (Some p) len = Some (default_exit_angle ?f)"
    unfolding ts_def by (rule parse_maneuver_fold [OF assms(1,2)])
  show ?thesis
    using i e d maneuver_fold_fields maneuver_fold_junction maneuver_fold_lanes
    by (intro exI [of _ "default_exit_angle ?f"] conjI r b)
      (auto simp: default_exit_angle_def tlv_val_def has_or_left man_bits flag_simps split: option.splits)
qed

lemma maneuver_last_wins_witness:
  "\<exists>u. rgd_parse_maneuver [0x40, 0x40, 0, 24, 0x52, 2, 0, 6, 0, 1, 0, 7, 0, 6, 0, 10, 0, 90, 0, 6, 0, 10, 0, 180]
       (Some 0) 24 = Some u \<and>
     rm_index u = 7 \<and> rm_exit_angle u = 1000 \<and> rm_junction_angles u = [90, 180] \<and>
     rm_linked_lane_guidance_index u = 0xFFFF"
proof -
  let ?m = "[0x40, 0x40, 0, 24, 0x52, 2, 0, 6, 0, 1, 0, 7, 0, 6, 0, 10, 0, 90, 0, 6, 0, 10, 0, 180] :: bytes"
  have ts: "tlv_split (slice ?m (0 + 6) (24 - 6)) = [(1, [0, 7]), (10, [0, 90]), (10, [0, 180])]"
    by code_simp
  have v: "tlv_val MAN_TLV_INDEX 2 val16 0 [(1, [0, 7]), (10, [0, 90]), (10, [0, 180])] = 7"
    "junction_angles [(1, [0, 7]), (10, [0, 90]), (10, [0, 180])] = [90, 180]"
    "tlv_val MAN_TLV_LINKED_LANE_GUIDANCE 2 val16 0xFFFF [(1, [0, 7]), (10, [0, 90]), (10, [0, 180])] = 0xFFFF"
    "last_tlv MAN_TLV_INDEX 2 [(1, [0, 7]), (10, [0, 90]), (10, [0, 180 :: u8])] = Some [0, 7]"
    "last_tlv MAN_TLV_EXIT_ANGLE 2 [(1, [0, 7]), (10, [0, 90]), (10, [0, 180 :: u8])] = None"
    by code_simp+
  have l: "0 + 24 \<le> length ?m" "(6 :: nat) \<le> 24" by simp_all
  show ?thesis
    using maneuver_last_wins [OF l, unfolded ts v] by fastforce
qed

end
