(* ===== verification/Rgd_Lane.thy ===== *)
theory Rgd_Lane
  imports Rgd_Parse
begin

text \<open>
  Lane guidance (0x5204) and the component TLV of the Identify message: the
  lane parser never faults and stays inside its arrays on any input, reads
  back every encoding of up to eight lanes, and the built component TLV is the
  list of nine TLVs the device expects, whose id the reader gets back.
\<close>

section \<open>The lane parser's invariant\<close>

lemma ex_bool [simp]: "\<exists>b. b" "\<exists>b. \<not> b" "(\<exists>b. b \<and> P) = P" "(\<exists>b. P \<and> b \<and> Q) = (P \<and> Q)"
  by (blast intro: exI [of _ True] exI [of _ False])+

lemma walk_list_inv:
  assumes "P s" and "\<And>tid v s. P s \<Longrightarrow> \<exists>go s'. step tid v s = Some (go, s') \<and> P s'"
  shows "\<exists>s'. walk_list step ts s = Some s' \<and> P s'"
  using assms(1)
proof (induction ts arbitrary: s)
  case (Cons t ts)
  obtain go s' where "step (fst t) (snd t) s = Some (go, s')" "P s'"
    using assms(2) [OF Cons.prems] by blast
  then show ?case using Cons by (cases go) auto
qed simp

definition lane_ok :: "rgd_lane \<Rightarrow> bool" where
  "lane_ok l \<longleftrightarrow> length (ln_angles l) \<le> MAX_LANE_ANGLES \<and> ln_description l = []"

definition lanes_ok :: "nat \<Rightarrow> lane_parse \<Rightarrow> bool" where
  "lanes_ok mx st \<longleftrightarrow> length (lp_lanes st) \<le> mx \<and> list_all lane_ok (lp_lanes st) \<and>
     (\<forall>i. lp_idx st = Some i \<longrightarrow> i < length (lp_lanes st))"

lemma angles_loop_ok: "lane_ok l \<Longrightarrow> lane_ok (angles_loop hl v l)"
  by (induction hl v l rule: angles_loop.induct) (auto simp: lane_ok_def MAX_LANE_ANGLES_def)

lemma lane_reset_ok:
  fixes x i :: u16
  shows "lane_ok (rgd_lane_reset i)" "lane_ok (rgd_lane_reset i\<lparr> ln_position := x \<rparr>)"
  by (simp_all add: lane_ok_def rgd_lane_reset_def zero_lane_def)

lemma lane_index_case_ok:
  assumes "lanes_ok mx st"
  shows "\<exists>go st'. lane_index_case mx v st = Some (go, st') \<and> lanes_ok mx st'"
proof (cases "length (lp_lanes st) \<ge> mx")
  case True
  then show ?thesis using assms by (simp add: lane_index_case_def)
next
  case False
  let ?i = "length (lp_lanes st)"
  have "lanes_ok mx \<lparr> lp_lanes = lp_lanes st @ [l], lp_idx = Some ?i, lp_has_highlight = False, lp_saw_any = True \<rparr>"
    if "lane_ok l" for l
    using that assms False by (simp add: lanes_ok_def)
  then show ?thesis
    using False lane_reset_ok(1) [of "of_nat ?i"] lane_reset_ok(2) [where i = "of_nat ?i" and x = "val16 v"]
      lane_reset_ok(2) [where i = "of_nat ?i" and x = "ucast (v ! 0)"]
    by (cases "2 \<le> length v"; cases "1 \<le> length v") (simp_all add: lane_index_case_def read_vals Let_def)
qed

lemma lane_implicit_ok:
  "lanes_ok mx st \<Longrightarrow> lane_implicit mx st = Some st' \<Longrightarrow> lanes_ok mx st' \<and> (\<exists>i. lp_idx st' = Some i)"
  using lane_reset_ok by (auto simp: lane_implicit_def lanes_ok_def Let_def split: option.splits if_splits)

lemma lane_field_case_ok:
  assumes "lane_ok l"
  shows "\<exists>l' hl'. lane_field_case tid v hl l = Some (l', hl') \<and> lane_ok l'"
proof -
  have u: "lane_ok (l\<lparr> ln_status := x \<rparr>)" "lane_ok (l\<lparr> ln_direction := y \<rparr>)" for x y
    using assms by (simp_all add: lane_ok_def)
  consider "length v = 0" | "length v = 1" | "2 \<le> length v" by linarith
  then show ?thesis
    using assms u angles_loop_ok [OF assms]
    by cases (auto simp: lane_field_case_def read_vals)
qed

lemma lane_info_case_ok:
  assumes "lanes_ok mx st"
  shows "\<exists>go st'. lane_info_case mx tid v st = Some (go, st') \<and> lanes_ok mx st'"
proof (cases "tid = LANE_INFO_TLV_INDEX")
  case True
  then show ?thesis using lane_index_case_ok [OF assms] by (simp add: lane_info_case_def)
next
  case no: False
  show ?thesis
  proof (cases "tid = LANE_INFO_TLV_STATUS \<or> tid = LANE_INFO_TLV_ANGLES \<or> tid = LANE_INFO_TLV_ANGLE_HIGHLIGHT")
    case True
    show ?thesis
    proof (cases "lane_implicit mx st")
      case None
      then show ?thesis using no True assms by (simp add: lane_info_case_def)
    next
      case (Some st1)
      obtain i where ok: "lanes_ok mx st1" and i: "lp_idx st1 = Some i"
        using lane_implicit_ok [OF assms Some] by blast
      then have il: "i < length (lp_lanes st1)" and "lane_ok (lp_lanes st1 ! i)"
        by (simp_all add: lanes_ok_def list_all_length)
      then obtain l' hl' where "lane_field_case tid v (lp_has_highlight st1) (lp_lanes st1 ! i) = Some (l', hl')"
        and l': "lane_ok l'"
        using lane_field_case_ok by blast
      then have r: "lane_info_case mx tid v st =
          Some (True, st1\<lparr> lp_lanes := (lp_lanes st1)[i := l'], lp_has_highlight := hl' \<rparr>)"
        using no True Some i il by (auto simp: lane_info_case_def mem_simps)
      have "list_all lane_ok ((lp_lanes st1)[i := l'])"
        using ok l' by (auto simp: lanes_ok_def list_all_iff dest: set_update_subset_insert [THEN subsetD])
      then show ?thesis using r ok by (simp add: lanes_ok_def)
    qed
  qed (use no assms in \<open>simp add: lane_info_case_def\<close>)
qed

lemma lane_value_ok:
  "\<exists>ls. rgd_parse_lane_information_value v mx = Some ls \<and> length ls \<le> mx \<and> list_all lane_ok ls"
proof -
  have "lanes_ok mx lane_parse0" by (simp add: lanes_ok_def lane_parse0_def)
  then have "\<exists>st. walk_list (lane_info_case mx) (tlv_split v) lane_parse0 = Some st \<and> lanes_ok mx st"
    by (rule walk_list_inv) (rule lane_info_case_ok)
  moreover have "tlv_walk v 0 (length v) step 0 s = walk_list step (tlv_split v) s" for step and s :: lane_parse
    using tlv_walk_spec [of 0 "length v" v step 0 s] by simp
  ultimately show ?thesis
    by (auto simp: rgd_parse_lane_information_value_def lanes_ok_def)
qed

definition lane_guidance_bounded :: "rgd_lane_guidance \<Rightarrow> bool" where
  "lane_guidance_bounded u \<longleftrightarrow> length (rl_component_ids u) \<le> 8 \<and> length (rl_lanes u) \<le> 8 \<and>
     list_all lane_ok (rl_lanes u) \<and> c_text 63 (rl_description u)"

lemma lane_component_case_ok:
  "length ids \<le> 8 \<Longrightarrow> \<exists>ids'. lane_component_case v ids = Some ids' \<and> length ids' \<le> 8"
  using be16_list_loop_length [of ids 8 v]
  by (auto simp: lane_component_case_def Let_def rgd_max_defs rd8_def)

lemma lane_informations_case_ok:
  assumes "length ls \<le> 8" and "list_all lane_ok ls"
  shows "\<exists>ls'. lane_informations_case v ls = Some ls' \<and> length ls' \<le> 8 \<and> list_all lane_ok ls'"
proof (cases "length v > 0 \<and> length ls < MAX_LANE_GUIDANCE")
  case True
  obtain ps where "rgd_parse_lane_information_value v (MAX_LANE_GUIDANCE - length ls) = Some ps"
    "list_all lane_ok ps"
    using lane_value_ok by blast
  then show ?thesis
    using True assms by (auto simp: lane_informations_case_def rgd_max_defs list_all_iff dest!: in_set_takeD)
qed (use assms in \<open>auto simp: lane_informations_case_def\<close>)

lemma lane_guidance_case_ok:
  assumes "lane_guidance_bounded u"
  shows "\<exists>u'. lane_guidance_case tid v u = Some u' \<and> lane_guidance_bounded u'"
proof -
  obtain ids' where i: "lane_component_case v (rl_component_ids u) = Some ids'" "length ids' \<le> 8"
    using lane_component_case_ok assms by (auto simp: lane_guidance_bounded_def)
  obtain ls' where l: "lane_informations_case v (rl_lanes u) = Some ls'" "length ls' \<le> 8" "list_all lane_ok ls'"
    using lane_informations_case_ok [of "rl_lanes u" v] assms by (auto simp: lane_guidance_bounded_def)
  consider "length v = 0" | "length v = 1" | "2 \<le> length v" by linarith
  then show ?thesis
    using assms i l plain_text_ok [of 63 v]
    by cases (auto simp: lane_guidance_case_def lane_guidance_bounded_def read_vals)
qed

lemma walk_list_keep: "walk_list (keep f) ts s = (case ts of [] \<Rightarrow> Some s
   | t # ts' \<Rightarrow> (case f (fst t) (snd t) s of None \<Rightarrow> None | Some s' \<Rightarrow> walk_list (keep f) ts' s'))"
  by (cases ts) (auto simp: keep_def split: option.split)

lemma parse_lane_guidance_bounded:
  assumes "p + len \<le> length m"
  shows "\<exists>u. rgd_parse_lane_guidance m (Some p) len = Some u \<and> lane_guidance_bounded u"
proof -
  have z: "lane_guidance_bounded zero_lane_guidance"
    by (simp add: lane_guidance_bounded_def zero_lane_guidance_def)
  have "\<exists>go s'. keep lane_guidance_case tid v s = Some (go, s') \<and> lane_guidance_bounded s'"
    if "lane_guidance_bounded s" for tid v s
    using lane_guidance_case_ok [OF that, of tid v] by (auto simp: keep_def)
  from walk_list_inv [where P = lane_guidance_bounded, OF z this]
  show ?thesis
    using z by (auto simp: rgd_parse_lane_guidance_def tlv_walk_spec [OF assms])
qed

section \<open>Reading back encoded lanes\<close>

text \<open>The sub-TLVs of a lane and the value that packs some lanes.\<close>

definition lane_tlvs :: "rgd_lane \<Rightarrow> (u16 \<times> bytes) list" where
  "lane_tlvs l = (LANE_INFO_TLV_INDEX, be16_bytes (ln_position l)) #
     (LANE_INFO_TLV_STATUS, [ln_status l]) #
     map (\<lambda>a. (LANE_INFO_TLV_ANGLES, be16_bytes a)) (ln_angles l) @
     [(LANE_INFO_TLV_ANGLE_HIGHLIGHT, be16_bytes (ln_direction l))]"

definition lanes_value :: "rgd_lane list \<Rightarrow> bytes" where
  "lanes_value ls = concat (map tlv_enc (concat (map lane_tlvs ls)))"

lemma val16_be16_bytes [simp]: "val16 (be16_bytes x) = x"
  by (simp add: val16_def be_simps)

lemma be16_bytes_pair: "\<exists>a b. be16_bytes x = [a, b] \<and> be16 a b = x"
  by (simp add: be16_bytes_def be_simps)

definition at_lane :: "rgd_lane list \<Rightarrow> rgd_lane \<Rightarrow> bool \<Rightarrow> lane_parse" where
  "at_lane ls l hl = \<lparr> lp_lanes = ls @ [l], lp_idx = Some (length ls), lp_has_highlight = hl, lp_saw_any = True \<rparr>"

lemma lane_info_at:
  assumes "tid = LANE_INFO_TLV_STATUS \<or> tid = LANE_INFO_TLV_ANGLES \<or> tid = LANE_INFO_TLV_ANGLE_HIGHLIGHT"
    and "lane_field_case tid v hl l = Some (l', hl')"
  shows "lane_info_case mx tid v (at_lane ls l hl) = Some (True, at_lane ls l' hl')"
proof -
  have "tid \<noteq> LANE_INFO_TLV_INDEX" using assms(1) by (auto simp: lane_info_ids)
  then show ?thesis
    using assms by (auto simp: lane_info_case_def lane_implicit_def at_lane_def mem_simps)
qed

lemma walk_angles:
  assumes "length (ln_angles l) + length as \<le> MAX_LANE_ANGLES"
  shows "\<exists>d. walk_list (lane_info_case mx) (map (\<lambda>a. (LANE_INFO_TLV_ANGLES, be16_bytes a)) as @ rest)
      (at_lane ls l False) =
    walk_list (lane_info_case mx) rest
      (at_lane ls (l\<lparr> ln_angles := ln_angles l @ as, ln_direction := d \<rparr>) False)"
  using assms
proof (induction as arbitrary: l)
  case Nil
  show ?case by (intro exI [of _ "ln_direction l"]) simp
next
  case (Cons a as)
  obtain x y where xy: "be16_bytes a = [x, y]" "be16 x y = a" using be16_bytes_pair by blast
  define l1 where "l1 = l\<lparr> ln_angles := ln_angles l @ [a],
      ln_direction := (if ln_direction l = 1000 then a else ln_direction l) \<rparr>"
  have "lane_field_case LANE_INFO_TLV_ANGLES (be16_bytes a) False l = Some (l1, False)"
    using Cons.prems by (simp add: lane_field_case_def lane_info_ids xy l1_def)
  note s = lane_info_at [OF _ this, of mx ls]
  have "length (ln_angles l1) + length as \<le> MAX_LANE_ANGLES" using Cons.prems by (simp add: l1_def)
  from Cons.IH [OF this] obtain d where
    "walk_list (lane_info_case mx) (map (\<lambda>a. (LANE_INFO_TLV_ANGLES, be16_bytes a)) as @ rest) (at_lane ls l1 False) =
     walk_list (lane_info_case mx) rest (at_lane ls (l1\<lparr> ln_angles := ln_angles l1 @ as, ln_direction := d \<rparr>) False)"
    by blast
  then show ?case by (intro exI [of _ d]) (simp add: s, simp add: l1_def)
qed

lemma walk_lane:
  assumes "lane_ok l" and "length (lp_lanes st) < mx"
  shows "walk_list (lane_info_case mx) (lane_tlvs l @ rest) st =
    walk_list (lane_info_case mx) rest (at_lane (lp_lanes st) l True)"
proof -
  let ?ls = "lp_lanes st"
  let ?l0 = "rgd_lane_reset (of_nat (length ?ls))\<lparr> ln_position := ln_position l \<rparr>"
  let ?l1 = "?l0\<lparr> ln_status := ln_status l \<rparr>"
  have 1: "lane_info_case mx LANE_INFO_TLV_INDEX (be16_bytes (ln_position l)) st = Some (True, at_lane ?ls ?l0 False)"
    using assms(2) by (simp add: lane_info_case_def lane_index_case_def read_vals at_lane_def Let_def)
  have 2: "lane_info_case mx LANE_INFO_TLV_STATUS [ln_status l] (at_lane ?ls ?l0 False) = Some (True, at_lane ?ls ?l1 False)"
    by (rule lane_info_at) (simp_all add: lane_field_case_def read_vals)
  have "length (ln_angles ?l1) + length (ln_angles l) \<le> MAX_LANE_ANGLES"
    using assms(1) by (simp add: lane_ok_def rgd_lane_reset_def zero_lane_def)
  from walk_angles [OF this, of mx "[(LANE_INFO_TLV_ANGLE_HIGHLIGHT, be16_bytes (ln_direction l))] @ rest" ?ls]
  obtain d where
    3: "walk_list (lane_info_case mx) (map (\<lambda>a. (LANE_INFO_TLV_ANGLES, be16_bytes a)) (ln_angles l) @
        [(LANE_INFO_TLV_ANGLE_HIGHLIGHT, be16_bytes (ln_direction l))] @ rest) (at_lane ?ls ?l1 False) =
      walk_list (lane_info_case mx) ([(LANE_INFO_TLV_ANGLE_HIGHLIGHT, be16_bytes (ln_direction l))] @ rest)
        (at_lane ?ls (?l1\<lparr> ln_angles := ln_angles ?l1 @ ln_angles l, ln_direction := d \<rparr>) False)"
    by blast
  let ?l2 = "?l1\<lparr> ln_angles := ln_angles ?l1 @ ln_angles l, ln_direction := d \<rparr>"
  have l: "?l2\<lparr> ln_direction := ln_direction l \<rparr> = l"
    using assms(1) by (cases l) (simp add: lane_ok_def rgd_lane_reset_def zero_lane_def)
  have "lane_info_case mx LANE_INFO_TLV_ANGLE_HIGHLIGHT (be16_bytes (ln_direction l)) (at_lane ?ls ?l2 False) =
      Some (True, at_lane ?ls (?l2\<lparr> ln_direction := ln_direction l \<rparr>) True)"
    by (rule lane_info_at) (simp_all add: lane_field_case_def read_vals lane_info_ids)
  then show ?thesis
    using 3 unfolding l lane_tlvs_def by (simp add: 1 2)
qed

lemma at_lane_lanes [simp]: "lp_lanes (at_lane ls l hl) = ls @ [l]" "lp_saw_any (at_lane ls l hl)"
  by (simp_all add: at_lane_def)

lemma walk_lanes:
  assumes "list_all lane_ok ls" and "length (lp_lanes st) + length ls \<le> mx"
  shows "\<exists>st'. walk_list (lane_info_case mx) (concat (map lane_tlvs ls)) st = Some st' \<and>
    lp_lanes st' = lp_lanes st @ ls \<and> (ls \<noteq> [] \<longrightarrow> lp_saw_any st')"
  using assms
proof (induction ls arbitrary: st)
  case (Cons l ls)
  then have "\<exists>st'. walk_list (lane_info_case mx) (concat (map lane_tlvs ls)) (at_lane (lp_lanes st) l True) = Some st' \<and>
    lp_lanes st' = (lp_lanes st @ [l]) @ ls \<and> (ls \<noteq> [] \<longrightarrow> lp_saw_any st')"
    using Cons.IH [of "at_lane (lp_lanes st) l True"] by simp
  moreover have "ls = [] \<Longrightarrow> walk_list (lane_info_case mx) (concat (map lane_tlvs ls)) (at_lane (lp_lanes st) l True) =
      Some (at_lane (lp_lanes st) l True)" by simp
  ultimately show ?case
    using Cons.prems walk_lane [of l st mx "concat (map lane_tlvs ls)"] by (cases ls) auto
qed simp

lemma length_lane_tlvs: "lane_ok l \<Longrightarrow> list_all tlv_ok (lane_tlvs l)"
  by (auto simp: lane_tlvs_def tlv_ok_def list_all_iff)

lemma tlv_split_lanes_value: "list_all lane_ok ls \<Longrightarrow> tlv_split (lanes_value ls) = concat (map lane_tlvs ls)"
  unfolding lanes_value_def
  by (rule tlv_split_enc) (use length_lane_tlvs in \<open>fastforce simp: list_all_iff\<close>)

lemma lane_value_reads_back:
  assumes "list_all lane_ok ls" and "length ls \<le> mx"
  shows "rgd_parse_lane_information_value (lanes_value ls) mx = Some ls"
proof (cases ls)
  case Nil
  then show ?thesis by (simp add: rgd_parse_lane_information_value_def lanes_value_def)
next
  case (Cons l ls')
  have "4 \<le> length (lanes_value ls)" by (simp add: Cons lanes_value_def lane_tlvs_def)
  moreover have "mx \<noteq> 0" using assms(2) Cons by simp
  moreover obtain st' where "walk_list (lane_info_case mx) (concat (map lane_tlvs ls)) lane_parse0 = Some st'"
    "lp_lanes st' = ls" "lp_saw_any st'"
    using walk_lanes [OF assms(1), of lane_parse0 mx] assms(2) Cons by (auto simp: lane_parse0_def)
  moreover have "tlv_walk (lanes_value ls) 0 (length (lanes_value ls)) (lane_info_case mx) 0 lane_parse0 =
      walk_list (lane_info_case mx) (concat (map lane_tlvs ls)) lane_parse0"
    using tlv_walk_spec [of 0 "length (lanes_value ls)" "lanes_value ls" _ 0] tlv_split_lanes_value [OF assms(1)]
    by simp
  ultimately show ?thesis by (simp add: rgd_parse_lane_information_value_def)
qed

section \<open>Reading back a lane guidance message\<close>

text \<open>The TLVs of a message: the index, the lanes in groups (one TLV each) and the
  description.\<close>

definition lane_message :: "u16 \<Rightarrow> rgd_lane list list \<Rightarrow> string \<Rightarrow> (u16 \<times> bytes) list" where
  "lane_message idx gs desc = (LANE_MSG_TLV_LANE_GUIDANCE_INDEX, be16_bytes idx) #
     map (\<lambda>g. (LANE_MSG_TLV_LANE_INFORMATIONS, lanes_value g)) gs @
     [(LANE_MSG_TLV_LANE_GUIDANCE_DESC, str_bytes desc)]"

lemma lane_informations_append:
  assumes "list_all lane_ok g" and "length ls + length g \<le> 8" and "g \<noteq> []"
  shows "lane_informations_case (lanes_value g) ls = Some (ls @ g)"
proof -
  have "0 < length (lanes_value g)" using assms(3) by (cases g) (simp_all add: lanes_value_def lane_tlvs_def)
  moreover have "length ls < 8" using assms(2,3) by (cases g) simp_all
  ultimately show ?thesis
    using assms(2) lane_value_reads_back [OF assms(1), of "8 - length ls"]
    by (simp add: lane_informations_case_def rgd_max_defs)
qed

lemma keep_Some: "f tid v s = Some s' \<Longrightarrow> keep f tid v s = Some (True, s')"
  by (simp add: keep_def)

lemma walk_groups:
  assumes "\<forall>g \<in> set gs. list_all lane_ok g \<and> g \<noteq> []" and "length (rl_lanes u) + length (concat gs) \<le> 8"
  shows "\<exists>pr. (gs \<noteq> [] \<longrightarrow> has pr RGD_LANE_INFORMATIONS) \<and> (\<forall>b. has (rl_present u) b \<longrightarrow> has pr b) \<and>
    walk_list (keep lane_guidance_case) (map (\<lambda>g. (LANE_MSG_TLV_LANE_INFORMATIONS, lanes_value g)) gs @ rest) u =
    walk_list (keep lane_guidance_case) rest (u\<lparr> rl_lanes := rl_lanes u @ concat gs, rl_present := pr \<rparr>)"
  using assms
proof (induction gs arbitrary: u)
  case Nil
  show ?case by (intro exI [of _ "rl_present u"]) simp
next
  case (Cons g gs)
  define u1 where "u1 = u\<lparr> rl_lanes := rl_lanes u @ g, rl_present := rl_present u OR RGD_LANE_INFORMATIONS \<rparr>"
  have "lane_informations_case (lanes_value g) (rl_lanes u) = Some (rl_lanes u @ g)"
    using Cons.prems by (intro lane_informations_append) auto
  then have s: "lane_guidance_case LANE_MSG_TLV_LANE_INFORMATIONS (lanes_value g) u = Some u1"
    by (simp add: lane_guidance_case_def lane_msg_ids u1_def)
  have "length (rl_lanes u1) + length (concat gs) \<le> 8" using Cons.prems by (simp add: u1_def)
  with Cons.IH [of u1] Cons.prems obtain pr where pr: "\<forall>b. has (rl_present u1) b \<longrightarrow> has pr b"
    "walk_list (keep lane_guidance_case) (map (\<lambda>g. (LANE_MSG_TLV_LANE_INFORMATIONS, lanes_value g)) gs @ rest) u1 =
     walk_list (keep lane_guidance_case) rest (u1\<lparr> rl_lanes := rl_lanes u1 @ concat gs, rl_present := pr \<rparr>)"
    by auto
  have "has (rl_present u1) RGD_LANE_INFORMATIONS" "\<forall>b. has (rl_present u) b \<longrightarrow> has (rl_present u1) b"
    by (auto simp: u1_def has_or_left lane_bits flag_simps)
  then show ?case
    using pr keep_Some [of lane_guidance_case, OF s] by (intro exI [of _ pr]) (auto simp: u1_def)
qed

lemma length_angle_tlvs:
  "length (concat (map tlv_enc (map (\<lambda>a. (LANE_INFO_TLV_ANGLES, be16_bytes a)) as))) = 6 * length as"
  by (induction as) simp_all

lemma length_in_concat: "g \<in> set gs \<Longrightarrow> length g \<le> length (concat gs)"
  by (induction gs) auto

lemma lane_message_ok:
  assumes "\<forall>g \<in> set gs. list_all lane_ok g" and "length (concat gs) \<le> 8" and "length desc \<le> 63"
  shows "list_all tlv_ok (lane_message idx gs desc)"
proof -
  have "length (concat (map tlv_enc (lane_tlvs l))) \<le> 113" if "lane_ok l" for l
  proof -
    have "length (concat (map tlv_enc (lane_tlvs l))) = 17 + 6 * length (ln_angles l)"
      using length_angle_tlvs [of "ln_angles l"] by (simp add: lane_tlvs_def)
    then show ?thesis using that by (simp add: lane_ok_def MAX_LANE_ANGLES_def)
  qed
  then have v: "list_all lane_ok g \<Longrightarrow> length (lanes_value g) \<le> 113 * length g" for g
  proof (induction g)
    case (Cons l g)
    then have "length (concat (map tlv_enc (lane_tlvs l))) \<le> 113" "length (lanes_value g) \<le> 113 * length g" by simp_all
    then show ?case by (simp add: lanes_value_def)
  qed (simp add: lanes_value_def)
  have "tlv_ok (t, lanes_value g)" if "g \<in> set gs" for t g
  proof -
    have "length g \<le> 8" using length_in_concat [OF that] assms(2) by simp
    moreover have "length (lanes_value g) \<le> 113 * length g" using v [of g] assms(1) that by blast
    ultimately have "length (lanes_value g) \<le> 904" by linarith
    then show ?thesis by (simp add: tlv_ok_def)
  qed
  then show ?thesis using assms(3) by (auto simp: lane_message_def list_all_iff) (simp_all add: tlv_ok_def)
qed

section \<open>Properties\<close>

text \<open>Property C31. Whatever the buffer holds, the three parsers return without
  reading outside it, and what they return fits the arrays: at most 8
  component ids, 16 list entries, 16 angles, 8 lanes of 16 angles; texts are
  terminated within their arrays, and road, destination, source, maneuver and
  exit texts hold no line break.\<close>

theorem parsers_bounded:
  assumes "p + len \<le> length m"
  shows "(\<exists>u. rgd_parse_update m (Some p) len = Some u \<and> update_bounded u) \<and>
    (\<exists>u. rgd_parse_maneuver m (Some p) len = Some u \<and> maneuver_bounded u) \<and>
    (\<exists>u. rgd_parse_lane_guidance m (Some p) len = Some u \<and> lane_guidance_bounded u)"
  using parse_update_bounded [OF assms] parse_maneuver_bounded [OF assms] parse_lane_guidance_bounded [OF assms]
  by blast

lemma parsers_bounded_witness:
  "\<exists>u. rgd_parse_lane_guidance (replicate 6 0 @ [0, 9, 0, 2, 0, 5, 0, 2, 1]) (Some 0) 15 = Some u \<and>
     lane_guidance_bounded u"
proof -
  have "0 + 15 \<le> length (replicate 6 0 @ [0, 9, 0, 2, 0, 5, 0, 2, 1] :: bytes)" by simp
  from parsers_bounded [OF this] show ?thesis by blast
qed

text \<open>Property C32. rgd_parse_lane_guidance reads back a message that encodes lanes:
  with at most eight lanes in any grouping into LaneInformations TLVs, each
  with at most 16 angles, it returns exactly these lanes (position, status,
  angles, highlighted direction), the index and the description.\<close>

theorem lane_message_reads_back:
  assumes "\<forall>g \<in> set gs. list_all lane_ok g \<and> g \<noteq> []" and "length (concat gs) \<le> 8" and "gs \<noteq> []"
    and "length desc \<le> 63" and "nul \<notin> set desc"
    and "m = pre @ hdr @ concat (map tlv_enc (lane_message idx gs desc)) @ post" and "length hdr = 6"
    and "len = 6 + length (concat (map tlv_enc (lane_message idx gs desc)))"
  shows "\<exists>u. rgd_parse_lane_guidance m (Some (length pre)) len = Some u \<and>
    rl_lane_guidance_index u = idx \<and> rl_lanes u = concat gs \<and> rl_description u = desc \<and>
    has (rl_present u) RGD_LANE_GUIDANCE_INDEX \<and> has (rl_present u) RGD_LANE_INFORMATIONS"
proof -
  let ?ts = "lane_message idx gs desc"
  have "slice m (length pre + 6) (len - 6) = concat (map tlv_enc ?ts)"
    using assms(6,7,8) by (simp add: slice_append_right)
  then have "tlv_split (slice m (length pre + 6) (len - 6)) = ?ts"
    using lane_message_ok [of gs desc idx] assms(1,2,4) by (simp add: tlv_split_enc)
  moreover have "length pre + len \<le> length m" using assms(6,7,8) by simp
  ultimately have r: "rgd_parse_lane_guidance m (Some (length pre)) len =
      walk_list (keep lane_guidance_case) ?ts zero_lane_guidance"
    using assms(8) by (simp add: rgd_parse_lane_guidance_def tlv_walk_spec)
  define u1 where "u1 = zero_lane_guidance\<lparr> rl_lane_guidance_index := idx, rl_present := 0 OR RGD_LANE_GUIDANCE_INDEX \<rparr>"
  have s1: "lane_guidance_case LANE_MSG_TLV_LANE_GUIDANCE_INDEX (be16_bytes idx) zero_lane_guidance = Some u1"
    by (simp add: lane_guidance_case_def lane_msg_ids read_vals u1_def zero_lane_guidance_def)
  let ?d = "[(LANE_MSG_TLV_LANE_GUIDANCE_DESC, str_bytes desc)]"
  obtain pr where pr: "has pr RGD_LANE_INFORMATIONS" "\<forall>b. has (rl_present u1) b \<longrightarrow> has pr b"
    "walk_list (keep lane_guidance_case) (map (\<lambda>g. (LANE_MSG_TLV_LANE_INFORMATIONS, lanes_value g)) gs @ ?d) u1 =
     walk_list (keep lane_guidance_case) ?d (u1\<lparr> rl_lanes := rl_lanes u1 @ concat gs, rl_present := pr \<rparr>)"
    using walk_groups [OF assms(1), of u1 ?d] assms(2,3) by (auto simp: u1_def zero_lane_guidance_def)
  have "plain_text 63 (str_bytes desc) = desc"
    using assms(4,5) by (simp add: plain_text_def)
  then have s2: "lane_guidance_case LANE_MSG_TLV_LANE_GUIDANCE_DESC (str_bytes desc) u =
      Some (u\<lparr> rl_description := desc, rl_present := rl_present u OR RGD_LANE_GUIDANCE_DESC \<rparr>)" for u
    by (simp add: lane_guidance_case_def lane_msg_ids read_vals)
  have "has (rl_present u1) RGD_LANE_GUIDANCE_INDEX" by (simp add: u1_def lane_bits flag_simps)
  then show ?thesis
    using pr s1 s2 unfolding r by (auto simp: lane_message_def keep_Some has_or_left u1_def zero_lane_guidance_def)
qed

lemma lane_message_reads_back_witness:
  defines "l1 \<equiv> \<lparr> ln_position = 0, ln_direction = 90, ln_status = 1, ln_angles = [90, 0], ln_description = [] \<rparr>"
    and "l2 \<equiv> \<lparr> ln_position = 1, ln_direction = 1000, ln_status = 0, ln_angles = [0], ln_description = [] \<rparr>"
  shows "\<exists>u. rgd_parse_lane_guidance (replicate 6 0 @ concat (map tlv_enc (lane_message 3 [[l1], [l2]] ''R''))) (Some 0)
      (6 + length (concat (map tlv_enc (lane_message 3 [[l1], [l2]] ''R'')))) = Some u \<and>
    rl_lanes u = [l1, l2] \<and> rl_lane_guidance_index u = 3 \<and> rl_description u = ''R''"
proof -
  have "lane_ok l1" "lane_ok l2" by (simp_all add: lane_ok_def l1_def l2_def MAX_LANE_ANGLES_def)
  then have "\<exists>u. rgd_parse_lane_guidance (replicate 6 0 @ concat (map tlv_enc (lane_message 3 [[l1], [l2]] ''R''))) (Some (length ([] :: bytes)))
      (6 + length (concat (map tlv_enc (lane_message 3 [[l1], [l2]] ''R'')))) = Some u \<and>
    rl_lane_guidance_index u = 3 \<and> rl_lanes u = concat [[l1], [l2]] \<and> rl_description u = ''R'' \<and>
    has (rl_present u) RGD_LANE_GUIDANCE_INDEX \<and> has (rl_present u) RGD_LANE_INFORMATIONS"
    by (intro lane_message_reads_back [where hdr = "replicate 6 0" and post = "[]"]) (simp_all add: nul_def)
  then show ?thesis by auto
qed

section \<open>The component TLV\<close>

definition component_tlvs :: "u16 \<Rightarrow> (u16 \<times> bytes) list" where
  "component_tlvs cid =
    [(0, be16_bytes cid), (1, str_bytes component_name @ [0]), (2, be16_bytes 0x0100), (3, be16_bytes 0x0100),
     (4, be16_bytes 0x0100), (5, be16_bytes 0x0100), (6, be16_bytes 6), (7, be16_bytes 0x0100), (8, be16_bytes 6)]"

definition component_value :: "u16 \<Rightarrow> bytes" where
  "component_value cid = concat (map tlv_enc (component_tlvs cid))"

lemma length_component_name [simp]: "length component_name = 29"
  by (simp add: component_name_def)

lemma length_component_value [simp]: "length (component_value cid) = 82"
  by (simp add: component_value_def component_tlvs_def)

lemma length_concat_be16 [simp]: "length (concat (map be16_bytes vs)) = 2 * length vs"
  by (induction vs) simp_all

lemma put16s_spec:
  "out + off + 2 * length vs \<le> length m \<Longrightarrow>
   put16s m out off vs = Some (patch m (out + off) (concat (map be16_bytes vs)), off + 2 * length vs)"
proof (induction vs arbitrary: m off)
  case Nil
  then show ?case by (simp add: patch_def)
next
  case (Cons v vs)
  then show ?case
    by (simp add: mem_simps patch_patch_adj' add.assoc)
qed

lemma build_component_patch:
  assumes "o1 + 86 \<le> length m" and "86 \<le> mx"
  shows "rgd_build_component_tlv m (Some o1) mx cid =
    Some (86, patch m o1 (tlv_enc (IDENT_TLV_ROUTE_GUIDANCE_COMPONENT, component_value cid)))"
proof -
  have e: "tlv_enc (IDENT_TLV_ROUTE_GUIDANCE_COMPONENT, component_value cid) =
    concat (map be16_bytes [86, IDENT_TLV_ROUTE_GUIDANCE_COMPONENT]) @
    concat (map be16_bytes [6, RGD_COMP_COMPONENT_ID, cid]) @ concat (map be16_bytes [34, RGD_COMP_NAME]) @
    (str_bytes component_name @ [0]) @ concat (map be16_bytes [6, RGD_COMP_MAX_CURRENT_ROAD_NAME, 0x0100]) @
    concat (map be16_bytes [6, RGD_COMP_MAX_DEST_NAME, 0x0100]) @
    concat (map be16_bytes [6, RGD_COMP_MAX_AFTER_MANEUVER_NAME, 0x0100]) @
    concat (map be16_bytes [6, RGD_COMP_MAX_MANEUVER_DESC, 0x0100]) @
    concat (map be16_bytes [6, RGD_COMP_MAX_MANEUVER_CAPACITY, 6]) @
    concat (map be16_bytes [6, RGD_COMP_MAX_LANE_GUIDANCE_DESC, 0x0100]) @
    concat (map be16_bytes [6, RGD_COMP_MAX_LANE_GUIDANCE_CAPACITY, 6])"
    by (simp add: tlv_enc_def component_value_def component_tlvs_def comp_ids)
  define z where "z = str_bytes component_name @ [0]"
  have lz: "length z = 30" by (simp add: z_def)
  show ?thesis
    unfolding e z_def [symmetric] rgd_build_component_tlv_def option.case Let_def length_component_name
    using assms lz
    by (simp add: put16s_spec mem_simps patch_patch_adj')
qed

lemma component_tlvs_ok: "list_all tlv_ok (component_tlvs cid)"
  by (simp add: component_tlvs_def tlv_ok_def)

text \<open>rgd_build_component_tlv needs 86 bytes (with less room it writes
  nothing and returns 0); it writes one TLV of id 0x001E, nothing else, whose
  value is the list of the nine TLVs of the display component, and
  rgd_extract_component_id gives the id back.\<close>

theorem component_tlv_round_trip:
  assumes "o1 + 86 \<le> length m" and "86 \<le> mx" and "n < 86"
  shows "rgd_build_component_tlv m (Some o1) n cid = Some (0, m) \<and>
    (\<exists>m'. rgd_build_component_tlv m (Some o1) mx cid = Some (86, m') \<and>
       m' = patch m o1 (tlv_enc (IDENT_TLV_ROUTE_GUIDANCE_COMPONENT, component_value cid)) \<and>
       tlv_split (component_value cid) = component_tlvs cid \<and>
       rgd_extract_component_id m' (Some o1) 86 = Some cid)"
proof -
  let ?m = "patch m o1 (tlv_enc (IDENT_TLV_ROUTE_GUIDANCE_COMPONENT, component_value cid))"
  have s: "tlv_split (component_value cid) = component_tlvs cid"
    unfolding component_value_def by (rule tlv_split_enc [OF component_tlvs_ok])
  have "slice ?m o1 (4 + 82) = tlv_enc (IDENT_TLV_ROUTE_GUIDANCE_COMPONENT, component_value cid)"
    using slice_patch_same [of o1 "tlv_enc (IDENT_TLV_ROUTE_GUIDANCE_COMPONENT, component_value cid)" m] assms(1)
    by simp
  then have "slice (slice ?m o1 86) 4 82 = component_value cid"
    by (simp add: tlv_enc_def slice_append_right)
  then have "slice ?m (o1 + 4) 82 = component_value cid" by (simp add: slice_slice)
  then have "rgd_extract_component_id ?m (Some o1) 86 = walk_list component_id_case (component_tlvs cid) 0"
    using assms(1) s by (simp add: rgd_extract_component_id_def tlv_walk_spec)
  also have "\<dots> = Some cid"
    by (simp add: component_tlvs_def component_id_case_def comp_ids read_vals)
  finally show ?thesis
    using s build_component_patch [OF assms(1,2), of cid] assms(3)
    by (simp add: rgd_build_component_tlv_def Let_def)
qed

lemma component_tlv_round_trip_witness:
  "\<exists>m'. rgd_build_component_tlv (replicate 90 0) (Some 4) 86 0x10 = Some (86, m') \<and>
    rgd_extract_component_id m' (Some 4) 86 = Some 0x10"
  using component_tlv_round_trip [of 4 "replicate 90 0" 86 85 "0x10"] by auto

end
