(* ===== verification/Rgd_State.thy ===== *)
theory Rgd_State
  imports Rgd_Lane Hook_Framework
begin

text \<open>
  c_hook/routeguidance/rgd_hook.c, the module's state: the cached update and
  how a message is merged into it, and the two tables that map iOS indexes to
  32 slots with least recently used eviction (maneuvers and lane guidance).

  The tables are lists of MANEUVER_CACHE_SIZE elements; reads and writes at a
  computed index are checked (the victim -1 of the C code is None, and using
  it as an index is a fault).  The lists of the current update are the valid
  elements of the C arrays.  Log output is not modelled.
\<close>

definition EMPTY :: u16 where "EMPTY = 0xFFFF"

record rgd =
  rg_active :: bool
  rg_sent_5200 :: bool
  rg_sent_5203 :: bool
  rg_got_520x :: bool
  rg_component_id :: u16
  rg_component_valid :: bool
  rg_have_update :: bool
  rg_last_route_state :: u8
  rg_zero_started_ms :: u64
  rg_zero_deadline_ms :: u64
  rg_zero_from_reroute :: bool
  rg_emitted_route_state :: u8
  rg_current_list :: "u16 list"
  rg_current_list_present :: bool
  rg_slot_to_iap_idx :: "u16 list"
  rg_slot_seq :: "u32 list"
  rg_slot_ver :: "u32 list"
  rg_seq_counter :: u32
  rg_ver_counter :: u32
  rg_highest_list_index :: u16
  rg_lane_slot_to_iap_idx :: "u16 list"
  rg_lane_slot_seq :: "u32 list"
  rg_lane_seq_counter :: u32
  rg_lane_cache :: "rgd_lane_guidance list"
  rg_slot_cache :: "rgd_maneuver list"
  rg_update_cache :: rgd_update
  rg_initialized :: bool

text \<open>The static initial state; rg_initialized is the flag of rgd_lazy_init.\<close>

definition rgd0 :: rgd where
  "rgd0 = \<lparr> rg_active = False, rg_sent_5200 = False, rg_sent_5203 = False, rg_got_520x = False,
     rg_component_id = 0x0010, rg_component_valid = False, rg_have_update = False,
     rg_last_route_state = 0, rg_zero_started_ms = 0, rg_zero_deadline_ms = 0,
     rg_zero_from_reroute = False, rg_emitted_route_state = 0, rg_current_list = [],
     rg_current_list_present = False,
     rg_slot_to_iap_idx = replicate MANEUVER_CACHE_SIZE 0,
     rg_slot_seq = replicate MANEUVER_CACHE_SIZE 0, rg_slot_ver = replicate MANEUVER_CACHE_SIZE 0,
     rg_seq_counter = 0, rg_ver_counter = 0, rg_highest_list_index = 0,
     rg_lane_slot_to_iap_idx = replicate MANEUVER_CACHE_SIZE 0,
     rg_lane_slot_seq = replicate MANEUVER_CACHE_SIZE 0, rg_lane_seq_counter = 0,
     rg_lane_cache = replicate MANEUVER_CACHE_SIZE zero_lane_guidance,
     rg_slot_cache = replicate MANEUVER_CACHE_SIZE zero_maneuver,
     rg_update_cache = zero_update, rg_initialized = False \<rparr>"

section \<open>The cached update\<close>

definition rgd_update_cache_reset :: "rgd \<Rightarrow> rgd" where
  "rgd_update_cache_reset g = g\<lparr> rg_update_cache := zero_update \<rparr>"

definition rgd_cancel_pending_zero :: "rgd \<Rightarrow> rgd" where
  "rgd_cancel_pending_zero g =
     (if rg_zero_started_ms g = 0 then g
      else g\<lparr> rg_zero_started_ms := 0, rg_zero_deadline_ms := 0, rg_zero_from_reroute := False \<rparr>)"

definition rgd_update_has_active_evidence :: "rgd_update \<Rightarrow> bool" where
  "rgd_update_has_active_evidence u \<longleftrightarrow>
     has (ru_present u) RGD_UPD_ROUTE_STATE \<and> ru_route_state u > 0 \<or>
     has (ru_present u) RGD_UPD_MANEUVER_COUNT \<and> ru_maneuver_count u > 0 \<or>
     has (ru_present u) RGD_UPD_MANEUVER_LIST \<and> ru_maneuver_list u \<noteq> [] \<or>
     has (ru_present u) RGD_UPD_DIST_TO_MANEUVER \<and> ru_dist_to_maneuver u > 0 \<or>
     has (ru_present u) RGD_UPD_DISTANCE_REMAINING \<and> ru_distance_remaining u > 0 \<or>
     has (ru_present u) RGD_UPD_DESTINATION \<and> ru_destination u \<noteq> [] \<or>
     has (ru_present u) RGD_UPD_CURRENT_ROAD \<and> ru_current_road u \<noteq> []"

definition rgd_update_cache_merge :: "rgd_update \<Rightarrow> rgd \<Rightarrow> rgd" where
  "rgd_update_cache_merge u g =
     (let c = rg_update_cache g; p = ru_present u in
      g\<lparr> rg_update_cache := c\<lparr>
        ru_present := ru_present c OR p,
        ru_component_ids := (if has p RGD_UPD_COMPONENT_IDS then take MAX_COMPONENT_LIST (ru_component_ids u) else ru_component_ids c),
        ru_route_state := (if has p RGD_UPD_ROUTE_STATE then ru_route_state u else ru_route_state c),
        ru_maneuver_state := (if has p RGD_UPD_MANEUVER_STATE then ru_maneuver_state u else ru_maneuver_state c),
        ru_current_road := (if has p RGD_UPD_CURRENT_ROAD then ru_current_road u else ru_current_road c),
        ru_destination := (if has p RGD_UPD_DESTINATION then ru_destination u else ru_destination c),
        ru_eta := (if has p RGD_UPD_ETA then ru_eta u else ru_eta c),
        ru_time_remaining := (if has p RGD_UPD_TIME_REMAINING then ru_time_remaining u else ru_time_remaining c),
        ru_distance_remaining := (if has p RGD_UPD_DISTANCE_REMAINING then ru_distance_remaining u else ru_distance_remaining c),
        ru_distance_string := (if has p RGD_UPD_DISTANCE_STRING then ru_distance_string u else ru_distance_string c),
        ru_distance_units := (if has p RGD_UPD_DISTANCE_UNITS then ru_distance_units u else ru_distance_units c),
        ru_dist_to_maneuver := (if has p RGD_UPD_DIST_TO_MANEUVER then ru_dist_to_maneuver u else ru_dist_to_maneuver c),
        ru_dist_to_maneuver_string := (if has p RGD_UPD_DIST_TO_MANEUVER_STR then ru_dist_to_maneuver_string u else ru_dist_to_maneuver_string c),
        ru_dist_to_maneuver_units := (if has p RGD_UPD_DIST_TO_MANEUVER_UNI then ru_dist_to_maneuver_units u else ru_dist_to_maneuver_units c),
        ru_maneuver_count := (if has p RGD_UPD_MANEUVER_COUNT then ru_maneuver_count u else ru_maneuver_count c),
        ru_visible_in_app := (if has p RGD_UPD_VISIBLE_IN_APP then ru_visible_in_app u else ru_visible_in_app c),
        ru_lane_guidance_index := (if has p RGD_UPD_LANE_INDEX then ru_lane_guidance_index u else ru_lane_guidance_index c),
        ru_lane_guidance_slot := (if has p RGD_UPD_LANE_SLOT then ru_lane_guidance_slot u else ru_lane_guidance_slot c),
        ru_lane_guidance_total := (if has p RGD_UPD_LANE_TOTAL then ru_lane_guidance_total u else ru_lane_guidance_total c),
        ru_lane_guidance_showing := (if has p RGD_UPD_LANE_SHOWING then ru_lane_guidance_showing u else ru_lane_guidance_showing c),
        ru_source_name := (if has p RGD_UPD_SOURCE_NAME then ru_source_name u else ru_source_name c),
        ru_source_supports_rg := (if has p RGD_UPD_SOURCE_SUPPORTS_RG then ru_source_supports_rg u else ru_source_supports_rg c),
        ru_maneuver_list := (if has p RGD_UPD_MANEUVER_LIST then take MAX_MANEUVER_LIST (ru_maneuver_list u) else ru_maneuver_list c) \<rparr> \<rparr>)"

definition rgd_maneuver_map_reset :: "rgd \<Rightarrow> rgd" where
  "rgd_maneuver_map_reset g = g\<lparr>
     rg_current_list_present := False, rg_current_list := [],
     rg_seq_counter := 0, rg_ver_counter := 0, rg_lane_seq_counter := 0, rg_highest_list_index := 0,
     rg_slot_to_iap_idx := map (\<lambda>_. EMPTY) (rg_slot_to_iap_idx g),
     rg_slot_seq := map (\<lambda>_. 0) (rg_slot_seq g),
     rg_slot_ver := map (\<lambda>_. 0) (rg_slot_ver g),
     rg_slot_cache := map (\<lambda>m. m\<lparr> rm_present := 0 \<rparr>) (rg_slot_cache g),
     rg_lane_slot_to_iap_idx := map (\<lambda>_. EMPTY) (rg_lane_slot_to_iap_idx g),
     rg_lane_slot_seq := map (\<lambda>_. 0) (rg_lane_slot_seq g),
     rg_lane_cache := map (\<lambda>l. l\<lparr> rl_present := 0 \<rparr>) (rg_lane_cache g) \<rparr>"

definition RGD_UPD_WRITE_MASK :: u64 where
  "RGD_UPD_WRITE_MASK = RGD_UPD_ROUTE_STATE OR
     RGD_UPD_MANEUVER_STATE OR
     RGD_UPD_DISTANCE_REMAINING OR
     RGD_UPD_DIST_TO_MANEUVER OR
     RGD_UPD_ETA OR
     RGD_UPD_TIME_REMAINING OR
     RGD_UPD_CURRENT_ROAD OR
     RGD_UPD_DESTINATION OR
     RGD_UPD_DISTANCE_UNITS OR
     RGD_UPD_DIST_TO_MANEUVER_UNI OR
     RGD_UPD_DISTANCE_STRING OR
     RGD_UPD_DIST_TO_MANEUVER_STR OR
     RGD_UPD_LANE_INDEX OR
     RGD_UPD_LANE_SLOT OR
     RGD_UPD_LANE_TOTAL OR
     RGD_UPD_LANE_SHOWING OR
     RGD_UPD_SOURCE_NAME OR
     RGD_UPD_SOURCE_SUPPORTS_RG OR
     RGD_UPD_VISIBLE_IN_APP OR
     RGD_UPD_COMPONENT_IDS OR
     RGD_UPD_MANEUVER_COUNT OR
     RGD_UPD_MANEUVER_LIST"

text \<open>None for -1.\<close>

fun min_loop :: "u16 list \<Rightarrow> u16 \<Rightarrow> u16" where
  "min_loop [] m = m"
| "min_loop (x # xs) m = min_loop xs (if x < m then x else m)"

definition rgd_min_current_index :: "rgd \<Rightarrow> u16 option" where
  "rgd_min_current_index g =
     (case rg_current_list g of [] \<Rightarrow> None | x # xs \<Rightarrow> Some (min_loop xs x))"

definition rgd_can_process_maneuver_index :: "u16 \<Rightarrow> rgd \<Rightarrow> bool" where
  "rgd_can_process_maneuver_index idx g =
     (if \<not> rg_have_update g then False
      else if \<not> rg_current_list_present g then True
      else if rg_current_list g = [] then True
      else if rg_last_route_state g = RGD_STATE_REROUTING then True
      else (case rgd_min_current_index g of None \<Rightarrow> False | Some m \<Rightarrow> idx \<ge> m))"

section \<open>The slot tables\<close>

definition rgd_is_active_index :: "rgd \<Rightarrow> u16 \<Rightarrow> bool" where
  "rgd_is_active_index g idx =
     (if \<not> rg_current_list_present g then False else idx \<in> set (rg_current_list g))"

text \<open>The first slot that holds an index.\<close>

fun find_slot :: "nat \<Rightarrow> u16 \<Rightarrow> u16 list \<Rightarrow> nat option" where
  "find_slot s idx [] = None"
| "find_slot s idx (x # xs) = (if x = idx then Some s else find_slot (s + 1) idx xs)"

definition rgd_find_slot_for_iap_index_no_touch :: "u16 \<Rightarrow> rgd \<Rightarrow> nat option" where
  "rgd_find_slot_for_iap_index_no_touch idx g = find_slot 0 idx (rg_slot_to_iap_idx g)"

definition rgd_is_active_lane_index :: "rgd \<Rightarrow> u16 \<Rightarrow> bool" where
  "rgd_is_active_lane_index g lane_idx =
     (if has (ru_present (rg_update_cache g)) RGD_UPD_LANE_INDEX \<and>
         ru_lane_guidance_index (rg_update_cache g) = lane_idx then True
      else if \<not> rg_current_list_present g then False
      else list_ex (\<lambda>i. i = lane_idx \<or>
             (case rgd_find_slot_for_iap_index_no_touch i g of
                None \<Rightarrow> False
              | Some s \<Rightarrow> has (rm_present (rg_slot_cache g ! s)) RGD_MAN_LINKED_LANE_INDEX \<and>
                  rm_linked_lane_guidance_index (rg_slot_cache g ! s) = lane_idx)) (rg_current_list g))"

text \<open>The search for the oldest slot that is not skipped: best and victim so
  far.\<close>

fun victim_loop :: "nat \<Rightarrow> (u16 \<Rightarrow> bool) \<Rightarrow> u16 list \<Rightarrow> u32 list \<Rightarrow> u32 \<Rightarrow> nat option \<Rightarrow> nat option" where
  "victim_loop s skip (x # xs) (q # qs) best victim =
     (if skip x then victim_loop (s + 1) skip xs qs best victim
      else if q < best then victim_loop (s + 1) skip xs qs q (Some s)
      else victim_loop (s + 1) skip xs qs best victim)"
| "victim_loop s skip _ _ best victim = victim"

definition UINT32_MAX :: u32 where "UINT32_MAX = 0xFFFFFFFF"

definition rgd_slot_for_iap_index :: "u16 \<Rightarrow> bool \<Rightarrow> rgd \<Rightarrow> (nat option \<times> rgd) option" where
  "rgd_slot_for_iap_index idx create g =
     (let touch = (\<lambda>s g. do {
            q \<leftarrow> wr8 (rg_slot_seq g) s (rg_seq_counter g + 1);
            Some (g\<lparr> rg_slot_seq := q, rg_seq_counter := rg_seq_counter g + 1 \<rparr>) });
          assign = (\<lambda>s g. do {
            t \<leftarrow> wr8 (rg_slot_to_iap_idx g) s idx;
            g \<leftarrow> touch s (g\<lparr> rg_slot_to_iap_idx := t \<rparr>);
            v \<leftarrow> wr8 (rg_slot_ver g) s (rg_ver_counter g + 1);
            Some (g\<lparr> rg_slot_ver := v, rg_ver_counter := rg_ver_counter g + 1 \<rparr>) })
      in case find_slot 0 idx (rg_slot_to_iap_idx g) of
        Some s \<Rightarrow> do { g \<leftarrow> touch s g; Some (Some s, g) }
      | None \<Rightarrow>
          if \<not> create then Some (None, g)
          else (case find_slot 0 EMPTY (rg_slot_to_iap_idx g) of
            Some s \<Rightarrow> do { g \<leftarrow> assign s g; Some (Some s, g) }
          | None \<Rightarrow> do {
              s \<leftarrow> (case victim_loop 0 (rgd_is_active_index g) (rg_slot_to_iap_idx g) (rg_slot_seq g) UINT32_MAX None of
                     Some s \<Rightarrow> Some s
                   | None \<Rightarrow> victim_loop 0 (\<lambda>_. False) (rg_slot_to_iap_idx g) (rg_slot_seq g) UINT32_MAX None);
              g \<leftarrow> assign s g;
              c \<leftarrow> wr8 (rg_slot_cache g) s zero_maneuver;
              Some (Some s, g\<lparr> rg_slot_cache := c \<rparr>) }))"

definition rgd_lane_slot_for_iap_index :: "u16 \<Rightarrow> bool \<Rightarrow> rgd \<Rightarrow> (nat option \<times> rgd) option" where
  "rgd_lane_slot_for_iap_index idx create g =
     (let touch = (\<lambda>s g. do {
            q \<leftarrow> wr8 (rg_lane_slot_seq g) s (rg_lane_seq_counter g + 1);
            Some (g\<lparr> rg_lane_slot_seq := q, rg_lane_seq_counter := rg_lane_seq_counter g + 1 \<rparr>) });
          assign = (\<lambda>s g. do {
            t \<leftarrow> wr8 (rg_lane_slot_to_iap_idx g) s idx;
            touch s (g\<lparr> rg_lane_slot_to_iap_idx := t \<rparr>) })
      in case find_slot 0 idx (rg_lane_slot_to_iap_idx g) of
        Some s \<Rightarrow> do { g \<leftarrow> touch s g; Some (Some s, g) }
      | None \<Rightarrow>
          if \<not> create then Some (None, g)
          else (case find_slot 0 EMPTY (rg_lane_slot_to_iap_idx g) of
            Some s \<Rightarrow> do { g \<leftarrow> assign s g; Some (Some s, g) }
          | None \<Rightarrow> do {
              s \<leftarrow> (case victim_loop 0 (rgd_is_active_lane_index g) (rg_lane_slot_to_iap_idx g) (rg_lane_slot_seq g) UINT32_MAX None of
                     Some s \<Rightarrow> Some s
                   | None \<Rightarrow> victim_loop 0 (\<lambda>_. False) (rg_lane_slot_to_iap_idx g) (rg_lane_slot_seq g) UINT32_MAX (Some 0));
              g \<leftarrow> assign s g;
              c \<leftarrow> wr8 (rg_lane_cache g) s zero_lane_guidance;
              Some (Some s, g\<lparr> rg_lane_cache := c \<rparr>) }))"

end
