(* ===== verification/Rgd_Slots.thy ===== *)
theory Rgd_Slots
  imports Rgd_State
begin

text \<open>
  The slot tables of the route guidance module as one interface: a bounded map
  from iOS indexes to slots.  The interface promises where a request finds or
  makes its slot and which entry it may overwrite; the consequences (indexes
  stay distinct, a request is found again, an index of the displayed list is
  not evicted while another slot can go) are proved once, inside it, and the
  maneuver table and the lane table are both interpretations.
\<close>

section \<open>The loops\<close>

lemma find_slot_shift: "find_slot (s + k) idx xs = map_option ((+) s) (find_slot k idx xs)"
  by (induction xs arbitrary: k) (auto simp: add.assoc)

lemma find_slot_Some:
  "find_slot 0 idx xs = Some k \<Longrightarrow> k < length xs \<and> xs ! k = idx"
proof (induction xs arbitrary: k)
  case (Cons x xs)
  then show ?case using find_slot_shift [of 1 0 idx xs] by (auto split: if_splits)
qed simp

lemma find_slot_None: "find_slot s idx xs = None \<longleftrightarrow> idx \<notin> set xs"
  by (induction xs arbitrary: s) auto

definition distinct_table :: "u16 list \<Rightarrow> bool" where
  "distinct_table t \<longleftrightarrow> (\<forall>i j. i < length t \<longrightarrow> j < length t \<longrightarrow> t ! i = t ! j \<longrightarrow> t ! i \<noteq> EMPTY \<longrightarrow> i = j)"

lemma find_slot_unique:
  assumes "distinct_table t" and "k < length t" and "t ! k \<noteq> EMPTY"
  shows "find_slot 0 (t ! k) t = Some k"
proof (cases "find_slot 0 (t ! k) t")
  case None
  then show ?thesis using assms(2) by (simp add: find_slot_None)
next
  case (Some j)
  then show ?thesis using find_slot_Some [OF Some] assms by (auto simp: distinct_table_def)
qed

lemma distinct_table_upd:
  "distinct_table t \<Longrightarrow> i \<notin> set t \<Longrightarrow> distinct_table (t[k := i])"
proof (unfold distinct_table_def, intro allI impI)
  fix a b
  assume d: "\<forall>a b. a < length t \<longrightarrow> b < length t \<longrightarrow> t ! a = t ! b \<longrightarrow> t ! a \<noteq> EMPTY \<longrightarrow> a = b"
    and i: "i \<notin> set t" and l: "a < length (t[k := i])" "b < length (t[k := i])"
    and e: "t[k := i] ! a = t[k := i] ! b" "t[k := i] ! a \<noteq> EMPTY"
  have "t ! a \<noteq> i" "t ! b \<noteq> i" using i l by auto
  then show "a = b" using d l e by (cases "a = k"; cases "b = k") simp_all
qed

lemma victim_loop_cases:
  assumes "length xs = length qs"
  shows "victim_loop s skip xs qs best v = v \<and> (\<forall>j < length xs. skip (xs ! j) \<or> best \<le> qs ! j) \<or>
    (\<exists>j < length xs. victim_loop s skip xs qs best v = Some (s + j) \<and> \<not> skip (xs ! j) \<and> qs ! j < best \<and>
       (\<forall>i < length xs. skip (xs ! i) \<or> qs ! j \<le> qs ! i))"
  using assms
proof (induction xs qs arbitrary: s best v rule: list_induct2')
  case (4 x xs q qs)
  have l: "length xs = length qs" using 4(2) by simp
  have sp: "(\<forall>j < length (x # xs). Q j) \<longleftrightarrow> Q 0 \<and> (\<forall>j < length xs. Q (j + 1))" for Q
    using All_less_Suc2 [of "length xs" Q] by (simp only: list.size Suc_eq_plus1 add_0)
  have ex: "(\<exists>j < length (x # xs). Q j) \<longleftrightarrow> Q 0 \<or> (\<exists>j < length xs. Q (j + 1))" for Q
    using Ex_less_Suc2 [of "length xs" Q] by (simp only: list.size Suc_eq_plus1 add_0)
  have n: "(x # xs) ! (j + 1) = xs ! j" "(q # qs) ! (j + 1) = qs ! j" for j by simp_all
  show ?case
  proof (cases "\<not> skip x \<and> q < best")
    case True
    then have e: "victim_loop s skip (x # xs) (q # qs) best v = victim_loop (s + 1) skip xs qs q (Some s)" by simp
    from 4(1) [OF l, of "s + 1" q "Some s"] show ?thesis
    proof (elim disjE)
      assume "victim_loop (s + 1) skip xs qs q (Some s) = Some s \<and> (\<forall>j<length xs. skip (xs ! j) \<or> q \<le> qs ! j)"
      then show ?thesis unfolding e sp ex n using True by (intro disjI2 disjI1) simp
    next
      assume "\<exists>j<length xs. victim_loop (s + 1) skip xs qs q (Some s) = Some (s + 1 + j) \<and> \<not> skip (xs ! j) \<and> qs ! j < q \<and>
        (\<forall>i<length xs. skip (xs ! i) \<or> qs ! j \<le> qs ! i)"
      then obtain j where "j < length xs" "victim_loop (s + 1) skip xs qs q (Some s) = Some (s + (j + 1))"
        "\<not> skip (xs ! j)" "qs ! j < q" "\<forall>i<length xs. skip (xs ! i) \<or> qs ! j \<le> qs ! i" by auto
      then show ?thesis unfolding e sp ex n using True
        by (intro disjI2) (auto intro!: exI [of _ j] intro: less_trans)
    qed
  next
    case False
    then have e: "victim_loop s skip (x # xs) (q # qs) best v = victim_loop (s + 1) skip xs qs best v" by auto
    have x: "skip x \<or> best \<le> q" using False by auto
    from 4(1) [OF l, of "s + 1" best v] show ?thesis
    proof (elim disjE)
      assume "victim_loop (s + 1) skip xs qs best v = v \<and> (\<forall>j<length xs. skip (xs ! j) \<or> best \<le> qs ! j)"
      then show ?thesis unfolding e sp n using x by simp
    next
      assume "\<exists>j<length xs. victim_loop (s + 1) skip xs qs best v = Some (s + 1 + j) \<and> \<not> skip (xs ! j) \<and> qs ! j < best \<and>
        (\<forall>i<length xs. skip (xs ! i) \<or> qs ! j \<le> qs ! i)"
      then obtain j where "j < length xs" "victim_loop (s + 1) skip xs qs best v = Some (s + (j + 1))"
        "\<not> skip (xs ! j)" "qs ! j < best" "\<forall>i<length xs. skip (xs ! i) \<or> qs ! j \<le> qs ! i" by auto
      then show ?thesis unfolding e sp ex n using x
        by (intro disjI2) (auto intro!: exI [of _ j])
    qed
  qed
qed simp_all

text \<open>The two searches of an eviction, when no sequence number is the maximum.\<close>

lemma victim_search:
  assumes "length xs = length qs" and "xs \<noteq> []" and "\<forall>q \<in> set qs. q < UINT32_MAX"
  shows "\<exists>k < length xs. (case victim_loop 0 skip xs qs UINT32_MAX None of Some s \<Rightarrow> Some s
      | None \<Rightarrow> victim_loop 0 (\<lambda>_. False) xs qs UINT32_MAX v) = Some k \<and>
    (skip (xs ! k) \<longrightarrow> (\<forall>x \<in> set xs. skip x)) \<and>
    (\<forall>i < length xs. (skip (xs ! i) \<longrightarrow> skip (xs ! k)) \<longrightarrow> qs ! k \<le> qs ! i)"
proof -
  have lt: "\<not> UINT32_MAX \<le> qs ! j" if "j < length xs" for j using assms that by (simp add: not_le)
  from victim_loop_cases [OF assms(1), of 0 skip UINT32_MAX None]
  show ?thesis
  proof (elim disjE exE conjE)
    assume n: "victim_loop 0 skip xs qs UINT32_MAX None = None" "\<forall>j<length xs. skip (xs ! j) \<or> UINT32_MAX \<le> qs ! j"
    then have all: "\<forall>j<length xs. skip (xs ! j)" using lt by blast
    from victim_loop_cases [OF assms(1), of 0 "\<lambda>_. False" UINT32_MAX v] show ?thesis
      using n(1) lt assms(2) all by (fastforce simp: all_set_conv_all_nth)
  next
    fix j assume "j < length xs" "victim_loop 0 skip xs qs UINT32_MAX None = Some (0 + j)" "\<not> skip (xs ! j)"
      "\<forall>i<length xs. skip (xs ! i) \<or> qs ! j \<le> qs ! i"
    then show ?thesis by (intro exI [of _ j]) auto
  qed
qed

section \<open>The interface\<close>

locale slot_table =
  fixes table :: "'s \<Rightarrow> u16 list"
    and age :: "'s \<Rightarrow> u32 list"
    and live :: "'s \<Rightarrow> u16 \<Rightarrow> bool"
    and ok :: "'s \<Rightarrow> bool"
    and room :: "'s \<Rightarrow> bool"
    and get :: "u16 \<Rightarrow> bool \<Rightarrow> 's \<Rightarrow> (nat option \<times> 's) option"
  assumes hit: "ok s \<Longrightarrow> room s \<Longrightarrow> find_slot 0 i (table s) = Some k \<Longrightarrow>
      \<exists>s'. get i c s = Some (Some k, s') \<and> ok s' \<and> table s' = table s"
    and miss: "ok s \<Longrightarrow> i \<notin> set (table s) \<Longrightarrow> get i False s = Some (None, s)"
    and alloc: "ok s \<Longrightarrow> room s \<Longrightarrow> i \<notin> set (table s) \<Longrightarrow>
      \<exists>k s'. get i True s = Some (Some k, s') \<and> ok s' \<and> k < length (table s) \<and>
        table s' = (table s)[k := i] \<and>
        (if EMPTY \<in> set (table s) then table s ! k = EMPTY
         else (live s (table s ! k) \<longrightarrow> (\<forall>x \<in> set (table s). live s x)) \<and>
           (\<forall>j < length (table s). (live s (table s ! j) \<longrightarrow> live s (table s ! k)) \<longrightarrow>
              age s ! k \<le> age s ! j))"
begin

text \<open>A request never faults and keeps the invariants; a created slot is found
  again.\<close>

lemma get_total:
  assumes "ok s" and "room s"
  shows "\<exists>r s'. get i c s = Some (r, s') \<and> ok s' \<and> (c \<longrightarrow> r \<noteq> None) \<and>
    (distinct_table (table s) \<longrightarrow> distinct_table (table s')) \<and> length (table s') = length (table s)"
proof (cases "find_slot 0 i (table s)")
  case None
  then have i: "i \<notin> set (table s)" by (simp add: find_slot_None)
  show ?thesis
  proof (cases c)
    case True
    then show ?thesis using alloc [OF assms i] distinct_table_upd [OF _ i] by fastforce
  next
    case False
    then show ?thesis using miss [OF assms(1) i] assms by simp
  qed
next
  case (Some k)
  then show ?thesis using hit [OF assms Some, of c] by fastforce
qed

lemma get_found:
  assumes "ok s" and "room s" and "get i c s = Some (Some k, s')" and "i \<noteq> EMPTY" and "distinct_table (table s)"
  shows "find_slot 0 i (table s') = Some k"
proof (cases "find_slot 0 i (table s)")
  case None
  then have i: "i \<notin> set (table s)" by (simp add: find_slot_None)
  have c: "c" using miss [OF assms(1) i] assms(3) by (cases c) auto
  then have t: "table s' = (table s)[k := i]" "k < length (table s)"
    using alloc [OF assms(1,2) i] assms(3) by auto
  then have "distinct_table (table s')" using distinct_table_upd [OF assms(5) i] by simp
  then show ?thesis using find_slot_unique [of "table s'" k] t assms(4) by simp
next
  case (Some j)
  then show ?thesis using hit [OF assms(1,2) Some, of c] assms(3) by auto
qed

text \<open>Requests for other indexes leave a live index its slot, unless every slot
  holds a live index.\<close>

lemma get_keeps_live:
  assumes "ok s" and "room s" and "get i c s = Some (r, s')" and "distinct_table (table s)"
    and "find_slot 0 x (table s) = Some k" and "x \<noteq> EMPTY"
    and "live s x" and "\<exists>y \<in> set (table s). y = EMPTY \<or> \<not> live s y"
  shows "find_slot 0 x (table s') = Some k"
proof (cases "find_slot 0 i (table s)")
  case (Some j)
  then show ?thesis using hit [OF assms(1,2) Some, of c] assms(3,5) by auto
next
  case None
  then have i: "i \<notin> set (table s)" by (simp add: find_slot_None)
  have xk: "k < length (table s)" "table s ! k = x" using find_slot_Some [OF assms(5)] by simp_all
  show ?thesis
  proof (cases c)
    case False
    then show ?thesis using miss [OF assms(1) i] assms(3,5) by simp
  next
    case True
    obtain j s1 where j: "get i True s = Some (Some j, s1)" "j < length (table s)" "table s1 = (table s)[j := i]"
      "if EMPTY \<in> set (table s) then table s ! j = EMPTY
       else (live s (table s ! j) \<longrightarrow> (\<forall>x \<in> set (table s). live s x))"
      using alloc [OF assms(1,2) i] that by (auto split: if_splits)
    then have s1: "s' = s1" using True assms(3) by simp
    have "j \<noteq> k" using j(4) xk assms(6,7,8) by (cases "EMPTY \<in> set (table s)") auto
    then have "table s' ! k = x" "k < length (table s')" using j xk s1 by simp_all
    moreover have "distinct_table (table s')" using distinct_table_upd [OF assms(4) i] j(3) s1 by simp
    ultimately show ?thesis using find_slot_unique [of "table s'" k] assms(6) by simp
  qed
qed

end

section \<open>The two tables\<close>

definition slots_ok :: "rgd \<Rightarrow> bool" where
  "slots_ok g \<longleftrightarrow> length (rg_slot_to_iap_idx g) = MANEUVER_CACHE_SIZE \<and>
     length (rg_slot_seq g) = MANEUVER_CACHE_SIZE \<and> length (rg_slot_ver g) = MANEUVER_CACHE_SIZE \<and>
     length (rg_slot_cache g) = MANEUVER_CACHE_SIZE \<and> (\<forall>q \<in> set (rg_slot_seq g). q \<le> rg_seq_counter g)"

definition slots_room :: "rgd \<Rightarrow> bool" where
  "slots_room g \<longleftrightarrow> rg_seq_counter g < UINT32_MAX"

definition lanes_table_ok :: "rgd \<Rightarrow> bool" where
  "lanes_table_ok g \<longleftrightarrow> length (rg_lane_slot_to_iap_idx g) = MANEUVER_CACHE_SIZE \<and>
     length (rg_lane_slot_seq g) = MANEUVER_CACHE_SIZE \<and> length (rg_lane_cache g) = MANEUVER_CACHE_SIZE \<and>
     (\<forall>q \<in> set (rg_lane_slot_seq g). q \<le> rg_lane_seq_counter g)"

definition lanes_room :: "rgd \<Rightarrow> bool" where
  "lanes_room g \<longleftrightarrow> rg_lane_seq_counter g < UINT32_MAX"

lemma next_counter:
  fixes c :: u32
  assumes "c < UINT32_MAX"
  shows "c \<le> c + 1" "q \<le> c \<Longrightarrow> q \<le> c + 1"
proof -
  show 1: "c \<le> c + 1"
    using assms by (simp add: word_le_nat_alt word_less_nat_alt unat_plus_if_size UINT32_MAX_def word_size)
  show "q \<le> c \<Longrightarrow> q \<le> c + 1" using 1 by simp
qed

lemma seq_upd_ok:
  assumes "\<forall>q \<in> set qs. q \<le> c" and "c < UINT32_MAX"
  shows "\<forall>q \<in> set (qs[k := c + 1]). q \<le> (c + 1 :: u32)"
  using assms next_counter [OF assms(2)] set_update_subset_insert [of qs k "c + 1"] by auto

lemma find_slot_lt: "slots_ok g \<Longrightarrow> find_slot 0 i (rg_slot_to_iap_idx g) = Some k \<Longrightarrow> k < MANEUVER_CACHE_SIZE"
  using find_slot_Some by (fastforce simp: slots_ok_def)

lemma lane_find_slot_lt:
  "lanes_table_ok g \<Longrightarrow> find_slot 0 i (rg_lane_slot_to_iap_idx g) = Some k \<Longrightarrow> k < MANEUVER_CACHE_SIZE"
  using find_slot_Some by (fastforce simp: lanes_table_ok_def)

text \<open>What a request does to the maneuver table, by branch.\<close>

definition slot_touched :: "nat \<Rightarrow> rgd \<Rightarrow> rgd" where
  "slot_touched s g = g\<lparr> rg_slot_seq := (rg_slot_seq g)[s := rg_seq_counter g + 1],
     rg_seq_counter := rg_seq_counter g + 1 \<rparr>"

definition slot_assigned :: "nat \<Rightarrow> u16 \<Rightarrow> rgd \<Rightarrow> rgd" where
  "slot_assigned s idx g = slot_touched s (g\<lparr> rg_slot_to_iap_idx := (rg_slot_to_iap_idx g)[s := idx],
     rg_slot_ver := (rg_slot_ver g)[s := rg_ver_counter g + 1], rg_ver_counter := rg_ver_counter g + 1 \<rparr>)"

definition slot_victim :: "rgd \<Rightarrow> nat option" where
  "slot_victim g = (case victim_loop 0 (rgd_is_active_index g) (rg_slot_to_iap_idx g) (rg_slot_seq g) UINT32_MAX None of
     Some s \<Rightarrow> Some s
   | None \<Rightarrow> victim_loop 0 (\<lambda>_. False) (rg_slot_to_iap_idx g) (rg_slot_seq g) UINT32_MAX None)"

lemma slot_for_branches:
  assumes "slots_ok g"
  shows "find_slot 0 i (rg_slot_to_iap_idx g) = Some s \<Longrightarrow>
      rgd_slot_for_iap_index i c g = Some (Some s, slot_touched s g)"
    and "i \<notin> set (rg_slot_to_iap_idx g) \<Longrightarrow> rgd_slot_for_iap_index i False g = Some (None, g)"
    and "i \<notin> set (rg_slot_to_iap_idx g) \<Longrightarrow> find_slot 0 EMPTY (rg_slot_to_iap_idx g) = Some s \<Longrightarrow>
      rgd_slot_for_iap_index i True g = Some (Some s, slot_assigned s i g)"
    and "i \<notin> set (rg_slot_to_iap_idx g) \<Longrightarrow> EMPTY \<notin> set (rg_slot_to_iap_idx g) \<Longrightarrow>
      slot_victim g = Some s \<Longrightarrow> s < MANEUVER_CACHE_SIZE \<Longrightarrow>
      rgd_slot_for_iap_index i True g =
        Some (Some s, (slot_assigned s i g)\<lparr> rg_slot_cache := (rg_slot_cache g)[s := zero_maneuver] \<rparr>)"
  using assms find_slot_lt [OF assms]
  by (simp_all add: rgd_slot_for_iap_index_def slot_victim_def slot_touched_def slot_assigned_def
      Let_def mem_simps slots_ok_def find_slot_None [THEN iffD2])

lemma slot_touched_ok: "slots_ok g \<Longrightarrow> slots_room g \<Longrightarrow> slots_ok (slot_touched s g)"
  using seq_upd_ok [of "rg_slot_seq g" "rg_seq_counter g" s] by (simp add: slots_ok_def slots_room_def slot_touched_def)

lemma slot_assigned_ok: "slots_ok g \<Longrightarrow> slots_room g \<Longrightarrow> slots_ok (slot_assigned s i g)"
  unfolding slot_assigned_def by (rule slot_touched_ok) (simp_all add: slots_ok_def slots_room_def)

lemma slot_sel [simp]:
  "rg_slot_to_iap_idx (slot_touched s g) = rg_slot_to_iap_idx g"
  "rg_slot_to_iap_idx (slot_assigned s i g) = (rg_slot_to_iap_idx g)[s := i]"
  "rg_slot_cache (slot_touched s g) = rg_slot_cache g" "rg_slot_cache (slot_assigned s i g) = rg_slot_cache g"
  by (simp_all add: slot_touched_def slot_assigned_def)

interpretation maneuver_slots: slot_table rg_slot_to_iap_idx rg_slot_seq rgd_is_active_index slots_ok slots_room
  rgd_slot_for_iap_index
proof
  fix g :: rgd and i k c
  assume ok: "slots_ok g" and room: "slots_room g" and f: "find_slot 0 i (rg_slot_to_iap_idx g) = Some k"
  show "\<exists>s'. rgd_slot_for_iap_index i c g = Some (Some k, s') \<and> slots_ok s' \<and>
    rg_slot_to_iap_idx s' = rg_slot_to_iap_idx g"
    using slot_for_branches(1) [OF ok f] slot_touched_ok [OF ok room] by simp
next
  fix g :: rgd and i
  assume "slots_ok g" "i \<notin> set (rg_slot_to_iap_idx g)"
  then show "rgd_slot_for_iap_index i False g = Some (None, g)" by (rule slot_for_branches)
next
  fix g :: rgd and i
  assume ok: "slots_ok g" and room: "slots_room g" and i: "i \<notin> set (rg_slot_to_iap_idx g)"
  let ?t = "rg_slot_to_iap_idx g"
  show "\<exists>k s'. rgd_slot_for_iap_index i True g = Some (Some k, s') \<and> slots_ok s' \<and> k < length ?t \<and>
    rg_slot_to_iap_idx s' = ?t[k := i] \<and>
    (if EMPTY \<in> set ?t then ?t ! k = EMPTY
     else (rgd_is_active_index g (?t ! k) \<longrightarrow> (\<forall>x \<in> set ?t. rgd_is_active_index g x)) \<and>
       (\<forall>j < length ?t. (rgd_is_active_index g (?t ! j) \<longrightarrow> rgd_is_active_index g (?t ! k)) \<longrightarrow>
          rg_slot_seq g ! k \<le> rg_slot_seq g ! j))"
  proof (cases "find_slot 0 EMPTY ?t")
    case (Some s)
    have s: "s < length ?t" "?t ! s = EMPTY" using find_slot_Some [OF Some] by simp_all
    then have e: "EMPTY \<in> set ?t" by (metis nth_mem)
    show ?thesis
      unfolding if_P [OF e]
      by (intro exI conjI, rule slot_for_branches(3) [OF ok i Some], rule slot_assigned_ok [OF ok room],
          rule s(1), simp, rule s(2))
  next
    case None
    have l: "length ?t = length (rg_slot_seq g)" "?t \<noteq> []" and ltm: "\<forall>q \<in> set (rg_slot_seq g). q < UINT32_MAX"
      using ok room by (auto simp: slots_ok_def slots_room_def rgd_max_defs)
    obtain k where k: "slot_victim g = Some k" "k < length ?t"
      "rgd_is_active_index g (?t ! k) \<longrightarrow> (\<forall>x \<in> set ?t. rgd_is_active_index g x)"
      "\<forall>j < length ?t. (rgd_is_active_index g (?t ! j) \<longrightarrow> rgd_is_active_index g (?t ! k)) \<longrightarrow>
          rg_slot_seq g ! k \<le> rg_slot_seq g ! j"
      using victim_search [OF l ltm, where skip = "rgd_is_active_index g" and v = None] by (auto simp: slot_victim_def)
    let ?g = "(slot_assigned k i g)\<lparr> rg_slot_cache := (rg_slot_cache g)[k := zero_maneuver] \<rparr>"
    have e: "EMPTY \<notin> set ?t" using None by (simp add: find_slot_None)
    have "k < MANEUVER_CACHE_SIZE" using k(2) ok by (simp add: slots_ok_def)
    then have run: "rgd_slot_for_iap_index i True g = Some (Some k, ?g)"
      by (rule slot_for_branches(4) [OF ok i e k(1)])
    have okk: "slots_ok ?g"
      using slot_assigned_ok [OF ok room, of k i] ok
      by (simp add: slots_ok_def slot_assigned_def slot_touched_def)
    show ?thesis
      unfolding if_not_P [OF e]
      by (rule exI [of _ k], rule exI [of _ ?g], intro conjI run okk k(2), simp, rule k(3), rule k(4))
  qed
qed

text \<open>And to the lane table.\<close>

definition lane_touched :: "nat \<Rightarrow> rgd \<Rightarrow> rgd" where
  "lane_touched s g = g\<lparr> rg_lane_slot_seq := (rg_lane_slot_seq g)[s := rg_lane_seq_counter g + 1],
     rg_lane_seq_counter := rg_lane_seq_counter g + 1 \<rparr>"

definition lane_assigned :: "nat \<Rightarrow> u16 \<Rightarrow> rgd \<Rightarrow> rgd" where
  "lane_assigned s idx g =
     lane_touched s (g\<lparr> rg_lane_slot_to_iap_idx := (rg_lane_slot_to_iap_idx g)[s := idx] \<rparr>)"

definition lane_victim :: "rgd \<Rightarrow> nat option" where
  "lane_victim g = (case victim_loop 0 (rgd_is_active_lane_index g) (rg_lane_slot_to_iap_idx g)
       (rg_lane_slot_seq g) UINT32_MAX None of
     Some s \<Rightarrow> Some s
   | None \<Rightarrow> victim_loop 0 (\<lambda>_. False) (rg_lane_slot_to_iap_idx g) (rg_lane_slot_seq g) UINT32_MAX (Some 0))"

lemma lane_slot_for_branches:
  assumes "lanes_table_ok g"
  shows "find_slot 0 i (rg_lane_slot_to_iap_idx g) = Some s \<Longrightarrow>
      rgd_lane_slot_for_iap_index i c g = Some (Some s, lane_touched s g)"
    and "i \<notin> set (rg_lane_slot_to_iap_idx g) \<Longrightarrow> rgd_lane_slot_for_iap_index i False g = Some (None, g)"
    and "i \<notin> set (rg_lane_slot_to_iap_idx g) \<Longrightarrow> find_slot 0 EMPTY (rg_lane_slot_to_iap_idx g) = Some s \<Longrightarrow>
      rgd_lane_slot_for_iap_index i True g = Some (Some s, lane_assigned s i g)"
    and "i \<notin> set (rg_lane_slot_to_iap_idx g) \<Longrightarrow> EMPTY \<notin> set (rg_lane_slot_to_iap_idx g) \<Longrightarrow>
      lane_victim g = Some s \<Longrightarrow> s < MANEUVER_CACHE_SIZE \<Longrightarrow>
      rgd_lane_slot_for_iap_index i True g =
        Some (Some s, (lane_assigned s i g)\<lparr> rg_lane_cache := (rg_lane_cache g)[s := zero_lane_guidance] \<rparr>)"
  using assms lane_find_slot_lt [OF assms]
  by (simp_all add: rgd_lane_slot_for_iap_index_def lane_victim_def lane_touched_def lane_assigned_def
      Let_def mem_simps lanes_table_ok_def find_slot_None [THEN iffD2])

lemma lane_touched_ok: "lanes_table_ok g \<Longrightarrow> lanes_room g \<Longrightarrow> lanes_table_ok (lane_touched s g)"
  using seq_upd_ok [of "rg_lane_slot_seq g" "rg_lane_seq_counter g" s] by (simp add: lanes_table_ok_def lanes_room_def lane_touched_def)

lemma lane_assigned_ok: "lanes_table_ok g \<Longrightarrow> lanes_room g \<Longrightarrow> lanes_table_ok (lane_assigned s i g)"
  unfolding lane_assigned_def by (rule lane_touched_ok) (simp_all add: lanes_table_ok_def lanes_room_def)

lemma lane_sel [simp]:
  "rg_lane_slot_to_iap_idx (lane_touched s g) = rg_lane_slot_to_iap_idx g"
  "rg_lane_slot_to_iap_idx (lane_assigned s i g) = (rg_lane_slot_to_iap_idx g)[s := i]"
  "rg_lane_cache (lane_touched s g) = rg_lane_cache g" "rg_lane_cache (lane_assigned s i g) = rg_lane_cache g"
  by (simp_all add: lane_touched_def lane_assigned_def)

interpretation lane_slots: slot_table rg_lane_slot_to_iap_idx rg_lane_slot_seq rgd_is_active_lane_index
  lanes_table_ok lanes_room rgd_lane_slot_for_iap_index
proof
  fix g :: rgd and i k c
  assume ok: "lanes_table_ok g" and room: "lanes_room g" and f: "find_slot 0 i (rg_lane_slot_to_iap_idx g) = Some k"
  show "\<exists>s'. rgd_lane_slot_for_iap_index i c g = Some (Some k, s') \<and> lanes_table_ok s' \<and>
    rg_lane_slot_to_iap_idx s' = rg_lane_slot_to_iap_idx g"
    using lane_slot_for_branches(1) [OF ok f] lane_touched_ok [OF ok room] by simp
next
  fix g :: rgd and i
  assume "lanes_table_ok g" "i \<notin> set (rg_lane_slot_to_iap_idx g)"
  then show "rgd_lane_slot_for_iap_index i False g = Some (None, g)" by (rule lane_slot_for_branches)
next
  fix g :: rgd and i
  assume ok: "lanes_table_ok g" and room: "lanes_room g" and i: "i \<notin> set (rg_lane_slot_to_iap_idx g)"
  let ?t = "rg_lane_slot_to_iap_idx g"
  show "\<exists>k s'. rgd_lane_slot_for_iap_index i True g = Some (Some k, s') \<and> lanes_table_ok s' \<and> k < length ?t \<and>
    rg_lane_slot_to_iap_idx s' = ?t[k := i] \<and>
    (if EMPTY \<in> set ?t then ?t ! k = EMPTY
     else (rgd_is_active_lane_index g (?t ! k) \<longrightarrow> (\<forall>x \<in> set ?t. rgd_is_active_lane_index g x)) \<and>
       (\<forall>j < length ?t. (rgd_is_active_lane_index g (?t ! j) \<longrightarrow> rgd_is_active_lane_index g (?t ! k)) \<longrightarrow>
          rg_lane_slot_seq g ! k \<le> rg_lane_slot_seq g ! j))"
  proof (cases "find_slot 0 EMPTY ?t")
    case (Some s)
    have s: "s < length ?t" "?t ! s = EMPTY" using find_slot_Some [OF Some] by simp_all
    then have e: "EMPTY \<in> set ?t" by (metis nth_mem)
    show ?thesis
      unfolding if_P [OF e]
      by (intro exI conjI, rule lane_slot_for_branches(3) [OF ok i Some], rule lane_assigned_ok [OF ok room],
          rule s(1), simp, rule s(2))
  next
    case None
    have l: "length ?t = length (rg_lane_slot_seq g)" "?t \<noteq> []" and ltm: "\<forall>q \<in> set (rg_lane_slot_seq g). q < UINT32_MAX"
      using ok room by (auto simp: lanes_table_ok_def lanes_room_def rgd_max_defs)
    obtain k where k: "lane_victim g = Some k" "k < length ?t"
      "rgd_is_active_lane_index g (?t ! k) \<longrightarrow> (\<forall>x \<in> set ?t. rgd_is_active_lane_index g x)"
      "\<forall>j < length ?t. (rgd_is_active_lane_index g (?t ! j) \<longrightarrow> rgd_is_active_lane_index g (?t ! k)) \<longrightarrow>
          rg_lane_slot_seq g ! k \<le> rg_lane_slot_seq g ! j"
      using victim_search [OF l ltm, where skip = "rgd_is_active_lane_index g" and v = "Some 0"] by (auto simp: lane_victim_def)
    let ?g = "(lane_assigned k i g)\<lparr> rg_lane_cache := (rg_lane_cache g)[k := zero_lane_guidance] \<rparr>"
    have e: "EMPTY \<notin> set ?t" using None by (simp add: find_slot_None)
    have "k < MANEUVER_CACHE_SIZE" using k(2) ok by (simp add: lanes_table_ok_def)
    then have run: "rgd_lane_slot_for_iap_index i True g = Some (Some k, ?g)"
      by (rule lane_slot_for_branches(4) [OF ok i e k(1)])
    have okk: "lanes_table_ok ?g"
      using lane_assigned_ok [OF ok room, of k i] ok
      by (simp add: lanes_table_ok_def lane_assigned_def lane_touched_def)
    show ?thesis
      unfolding if_not_P [OF e]
      by (rule exI [of _ k], rule exI [of _ ?g], intro conjI run okk k(2), simp, rule k(3), rule k(4))
  qed
qed

section \<open>Properties\<close>

text \<open>A full table of distinct indexes has an entry outside any shorter list.\<close>

lemma distinct_table_full: "distinct_table t \<Longrightarrow> EMPTY \<notin> set t \<Longrightarrow> distinct t"
  unfolding distinct_conv_nth distinct_table_def by (metis nth_mem)

lemma not_all_active:
  assumes "slots_ok g" and "distinct_table (rg_slot_to_iap_idx g)" and "length (rg_current_list g) \<le> MAX_MANEUVER_LIST"
  shows "\<exists>y \<in> set (rg_slot_to_iap_idx g). y = EMPTY \<or> \<not> rgd_is_active_index g y"
proof (rule ccontr)
  assume n: "\<not> ?thesis"
  then have "EMPTY \<notin> set (rg_slot_to_iap_idx g)" by blast
  then have "card (set (rg_slot_to_iap_idx g)) = 32"
    using distinct_table_full [OF assms(2)] assms(1) by (simp add: distinct_card slots_ok_def rgd_max_defs)
  moreover have "set (rg_slot_to_iap_idx g) \<subseteq> set (rg_current_list g)"
    using n by (auto simp: rgd_is_active_index_def split: if_splits)
  then have "card (set (rg_slot_to_iap_idx g)) \<le> length (rg_current_list g)"
    by (rule order.trans [OF card_mono [OF finite_set] card_length])
  ultimately show False using assms(3) by (simp add: rgd_max_defs)
qed

text \<open>Property C5. Asking for the slot of a maneuver index always gives one of the 32
  slots; the index is then found there; the table keeps distinct indexes; and
  no index of the displayed maneuver list loses its slot: the list has at most
  16 entries, so another slot can always be reused.\<close>

theorem maneuver_slot_request:
  assumes "slots_ok g" and "slots_room g" and "distinct_table (rg_slot_to_iap_idx g)" and "i \<noteq> EMPTY"
    and "length (rg_current_list g) \<le> MAX_MANEUVER_LIST"
  shows "\<exists>k g'. rgd_slot_for_iap_index i True g = Some (Some k, g') \<and> k < MANEUVER_CACHE_SIZE \<and>
    slots_ok g' \<and> distinct_table (rg_slot_to_iap_idx g') \<and>
    rgd_find_slot_for_iap_index_no_touch i g' = Some k \<and>
    (\<forall>x l. rgd_find_slot_for_iap_index_no_touch x g = Some l \<and> x \<noteq> EMPTY \<and> rgd_is_active_index g x \<longrightarrow>
       rgd_find_slot_for_iap_index_no_touch x g' = Some l)"
proof -
  obtain k g' where r: "rgd_slot_for_iap_index i True g = Some (Some k, g')" "slots_ok g'"
    "distinct_table (rg_slot_to_iap_idx g')"
    using maneuver_slots.get_total [OF assms(1,2), of i True] assms(3) by auto
  have f: "find_slot 0 i (rg_slot_to_iap_idx g') = Some k"
    by (rule maneuver_slots.get_found [OF assms(1,2) r(1) assms(4,3)])
  have "k < MANEUVER_CACHE_SIZE" by (rule find_slot_lt [OF r(2) f])
  then show ?thesis
    using r f maneuver_slots.get_keeps_live [OF assms(1,2) r(1) assms(3)] not_all_active [OF assms(1,3,5)]
    by (auto simp: rgd_find_slot_for_iap_index_no_touch_def)
qed

definition rgd_reset :: rgd where
  "rgd_reset = rgd_maneuver_map_reset rgd0"

lemma rgd_reset_ok: "slots_ok rgd_reset" "slots_room rgd_reset" "lanes_table_ok rgd_reset" "lanes_room rgd_reset"
  by (simp_all add: rgd_reset_def rgd_maneuver_map_reset_def rgd0_def slots_ok_def slots_room_def
      lanes_table_ok_def lanes_room_def UINT32_MAX_def)

lemma rgd_reset_distinct:
  "distinct_table (rg_slot_to_iap_idx rgd_reset)" "distinct_table (rg_lane_slot_to_iap_idx rgd_reset)"
  by (simp_all add: rgd_reset_def rgd_maneuver_map_reset_def rgd0_def distinct_table_def)

lemma maneuver_slot_request_witness:
  "\<exists>k g'. rgd_slot_for_iap_index 7 True rgd_reset = Some (Some k, g') \<and>
     rgd_find_slot_for_iap_index_no_touch 7 g' = Some k"
proof -
  have "(7 :: u16) \<noteq> EMPTY" "length (rg_current_list rgd_reset) \<le> MAX_MANEUVER_LIST"
    by (simp_all add: EMPTY_def rgd_reset_def rgd_maneuver_map_reset_def)
  from maneuver_slot_request [OF rgd_reset_ok(1,2) rgd_reset_distinct(1) this] show ?thesis by blast
qed

text \<open>Asking for the slot of a lane guidance index always gives one of
  the 32 slots, where it is then found; the table keeps distinct indexes; and
  an index that is displayed or linked from a displayed maneuver keeps its
  slot as long as some slot is free or holds an index that is neither.\<close>

theorem lane_slot_request:
  assumes "lanes_table_ok g" and "lanes_room g" and "distinct_table (rg_lane_slot_to_iap_idx g)" and "i \<noteq> EMPTY"
  shows "\<exists>k g'. rgd_lane_slot_for_iap_index i True g = Some (Some k, g') \<and> k < MANEUVER_CACHE_SIZE \<and>
    lanes_table_ok g' \<and> distinct_table (rg_lane_slot_to_iap_idx g') \<and>
    find_slot 0 i (rg_lane_slot_to_iap_idx g') = Some k \<and>
    ((\<exists>y \<in> set (rg_lane_slot_to_iap_idx g). y = EMPTY \<or> \<not> rgd_is_active_lane_index g y) \<longrightarrow>
      (\<forall>x l. find_slot 0 x (rg_lane_slot_to_iap_idx g) = Some l \<and> x \<noteq> EMPTY \<and> rgd_is_active_lane_index g x \<longrightarrow>
         find_slot 0 x (rg_lane_slot_to_iap_idx g') = Some l))"
proof -
  obtain k g' where r: "rgd_lane_slot_for_iap_index i True g = Some (Some k, g')" "lanes_table_ok g'"
    "distinct_table (rg_lane_slot_to_iap_idx g')"
    using lane_slots.get_total [OF assms(1,2), of i True] assms(3) by auto
  have f: "find_slot 0 i (rg_lane_slot_to_iap_idx g') = Some k"
    by (rule lane_slots.get_found [OF assms(1,2) r(1) assms(4,3)])
  have "k < MANEUVER_CACHE_SIZE" by (rule lane_find_slot_lt [OF r(2) f])
  then show ?thesis
    using r f lane_slots.get_keeps_live [OF assms(1,2) r(1) assms(3)] by auto
qed

lemma lane_slot_request_witness:
  "\<exists>k g'. rgd_lane_slot_for_iap_index 7 True rgd_reset = Some (Some k, g') \<and>
     find_slot 0 7 (rg_lane_slot_to_iap_idx g') = Some k"
proof -
  have "(7 :: u16) \<noteq> EMPTY" by (simp add: EMPTY_def)
  from lane_slot_request [OF rgd_reset_ok(3,4) rgd_reset_distinct(2) this] show ?thesis by blast
qed

text \<open>When no slot is free, the evicted maneuver is the least recently
  used one that is not in the displayed list (or, were all displayed, the least
  recently used one); its cached data is erased and its slot gets the next
  assignment version, so that the reader sees the change.\<close>

theorem maneuver_eviction_lru:
  assumes "slots_ok g" and "slots_room g" and "i \<notin> set (rg_slot_to_iap_idx g)"
    and "EMPTY \<notin> set (rg_slot_to_iap_idx g)"
  shows "\<exists>k g'. rgd_slot_for_iap_index i True g = Some (Some k, g') \<and> k < MANEUVER_CACHE_SIZE \<and>
    rg_slot_to_iap_idx g' = (rg_slot_to_iap_idx g)[k := i] \<and>
    (rgd_is_active_index g (rg_slot_to_iap_idx g ! k) \<longrightarrow>
       (\<forall>x \<in> set (rg_slot_to_iap_idx g). rgd_is_active_index g x)) \<and>
    (\<forall>j < MANEUVER_CACHE_SIZE. \<not> rgd_is_active_index g (rg_slot_to_iap_idx g ! j) \<longrightarrow>
       rg_slot_seq g ! k \<le> rg_slot_seq g ! j) \<and>
    rg_slot_cache g' = (rg_slot_cache g)[k := zero_maneuver] \<and>
    rg_slot_ver g' = (rg_slot_ver g)[k := rg_ver_counter g + 1] \<and> rg_ver_counter g' = rg_ver_counter g + 1 \<and>
    rg_slot_seq g' = (rg_slot_seq g)[k := rg_seq_counter g + 1]"
proof -
  let ?t = "rg_slot_to_iap_idx g"
  have l: "length ?t = length (rg_slot_seq g)" "?t \<noteq> []" "length ?t = MANEUVER_CACHE_SIZE"
    and ltm: "\<forall>q \<in> set (rg_slot_seq g). q < UINT32_MAX"
    using assms(1,2) by (auto simp: slots_ok_def slots_room_def rgd_max_defs)
  obtain k where k: "slot_victim g = Some k" "k < length ?t"
    "rgd_is_active_index g (?t ! k) \<longrightarrow> (\<forall>x \<in> set ?t. rgd_is_active_index g x)"
    "\<forall>j < length ?t. (rgd_is_active_index g (?t ! j) \<longrightarrow> rgd_is_active_index g (?t ! k)) \<longrightarrow>
        rg_slot_seq g ! k \<le> rg_slot_seq g ! j"
    using victim_search [OF l(1,2) ltm, where skip = "rgd_is_active_index g" and v = None]
    by (auto simp: slot_victim_def)
  have "k < MANEUVER_CACHE_SIZE" using k(2) l(3) by simp
  from slot_for_branches(4) [OF assms(1,3,4) k(1) this] show ?thesis
    using k(2,3,4) l(3) by (auto simp: slot_assigned_def slot_touched_def)
qed

lemma maneuver_eviction_lru_witness:
  "\<exists>k g'. rgd_slot_for_iap_index 40 True
       (rgd_reset\<lparr> rg_slot_to_iap_idx := map of_nat [0 ..< 32],
         rg_slot_seq := map (\<lambda>n. if n = 0 \<or> n = 9 then 1 else 2) [0 ..< 32], rg_seq_counter := 2,
         rg_current_list_present := True, rg_current_list := [0] \<rparr>) = Some (Some k, g') \<and>
     k < MANEUVER_CACHE_SIZE \<and> rg_ver_counter g' = 1"
proof -
  let ?g = "rgd_reset\<lparr> rg_slot_to_iap_idx := map of_nat [0 ..< 32],
         rg_slot_seq := map (\<lambda>n. if n = 0 \<or> n = 9 then 1 else 2) [0 ..< 32], rg_seq_counter := 2,
         rg_current_list_present := True, rg_current_list := [0] \<rparr>"
  have "\<forall>q \<in> set (rg_slot_seq ?g). q \<le> rg_seq_counter ?g" by code_simp
  then have ok: "slots_ok ?g" "slots_room ?g"
    by (simp_all add: slots_ok_def slots_room_def rgd_reset_def rgd_maneuver_map_reset_def rgd0_def
        rgd_max_defs UINT32_MAX_def)
  have t: "40 \<notin> set (rg_slot_to_iap_idx ?g)" "EMPTY \<notin> set (rg_slot_to_iap_idx ?g)" by code_simp+
  have "rg_ver_counter ?g = 0" by (simp add: rgd_reset_def rgd_maneuver_map_reset_def)
  with maneuver_eviction_lru [OF ok t] show ?thesis by force
qed

end
