(* ===== verification/Rgd_Publish.thy ===== *)
theory Rgd_Publish
  imports Rgd_Slots
begin

text \<open>
  c_hook/routeguidance/rgd_hook.c, the publisher: the text snapshot of the
  route guidance state that goes to the Java side in one sticky frame, and the
  three operations that change the caches and publish.

  The builder calls of a function are given as the list of fields it puts, in
  order (put_fields performs them).  A local char buffer filled by snprintf in
  a loop is the list of the pieces written: a piece that does not fit, and a
  buffer that is read although no piece was written to it, are faults.  The
  boolean pair heap, al are the results of the allocations of the builder and
  of the bus.
\<close>

section \<open>Local buffers\<close>

fun snprintf_loop :: "nat \<Rightarrow> string \<Rightarrow> string list \<Rightarrow> string option" where
  "snprintf_loop cap acc [] = Some acc"
| "snprintf_loop cap acc (x # xs) =
     (if length acc + length x < cap then snprintf_loop cap (acc @ x) xs else None)"

definition buf_text :: "nat \<Rightarrow> string list \<Rightarrow> string option" where
  "buf_text cap ps = (if ps = [] then None else snprintf_loop cap [] ps)"

definition seps :: "string \<Rightarrow> string list \<Rightarrow> string list" where
  "seps sep xs = (case xs of [] \<Rightarrow> [] | x # r \<Rightarrow> x # map ((@) sep) r)"

text \<open>With the break once fewer than four characters are left.\<close>

fun snprintf_break :: "nat \<Rightarrow> string \<Rightarrow> string list \<Rightarrow> string option" where
  "snprintf_break cap acc [] = Some acc"
| "snprintf_break cap acc (x # xs) =
     (if length acc + length x < cap then
        (if length (acc @ x) \<ge> cap - 4 then Some (acc @ x) else snprintf_break cap (acc @ x) xs)
      else None)"

definition dec_i16 :: "i16 \<Rightarrow> string" where "dec_i16 v = dec_int (sint v)"
definition dec_u16 :: "u16 \<Rightarrow> string" where "dec_u16 v = dec_nat (unat v)"
definition dec_u8 :: "u8 \<Rightarrow> string" where "dec_u8 v = dec_nat (unat v)"

definition slot_key :: "string \<Rightarrow> nat \<Rightarrow> string \<Rightarrow> string" where
  "slot_key p idx name = p @ dec_nat idx @ name"

section \<open>Lanes as text\<close>

definition lanes_csv :: "nat \<Rightarrow> string \<Rightarrow> (rgd_lane \<Rightarrow> string) \<Rightarrow> rgd_lane list \<Rightarrow> string option" where
  "lanes_csv cap sep f lanes =
     (if lanes = [] then Some [] else buf_text cap (seps sep (map f (take MAX_LANE_GUIDANCE lanes))))"

fun angle_pieces :: "rgd_lane list \<Rightarrow> string list" where
  "angle_pieces [] = []"
| "angle_pieces [l] = seps '','' (map dec_i16 (take MAX_LANE_ANGLES (ln_angles l)))"
| "angle_pieces (l # l' # ls) =
     seps '','' (map dec_i16 (take MAX_LANE_ANGLES (ln_angles l))) @ ''|'' # angle_pieces (l' # ls)"

definition lane_angles_text :: "rgd_lane list \<Rightarrow> string option" where
  "lane_angles_text lanes =
     (if lanes = [] then Some [] else buf_text 1200 (angle_pieces (take MAX_LANE_GUIDANCE lanes)))"

text \<open>The five lane texts under the key prefix of a slot.\<close>

definition lane_text_fields :: "string \<Rightarrow> nat \<Rightarrow> rgd_lane list \<Rightarrow> bt_field list option" where
  "lane_text_fields p idx lanes = do {
     pos \<leftarrow> lanes_csv 128 '','' (\<lambda>l. dec_u16 (ln_position l)) lanes;
     dir \<leftarrow> lanes_csv 128 '','' (\<lambda>l. dec_i16 (ln_direction l)) lanes;
     sta \<leftarrow> lanes_csv 128 '','' (\<lambda>l. dec_u8 (ln_status l)) lanes;
     des \<leftarrow> lanes_csv 600 ''|'' ln_description lanes;
     ang \<leftarrow> lane_angles_text lanes;
     Some [FStr (slot_key p idx ''_lane_positions'') (Some pos),
           FStr (slot_key p idx ''_lane_directions'') (Some dir),
           FStr (slot_key p idx ''_lane_status'') (Some sta),
           FStr (slot_key p idx ''_lane_desc'') (Some des),
           FStr (slot_key p idx ''_lane_angles'') (Some ang)] }"

definition empty_lane_fields :: "string \<Rightarrow> nat \<Rightarrow> bt_field list" where
  "empty_lane_fields p idx =
     map (\<lambda>n. FStr (slot_key p idx n) (Some []))
       [''_lane_positions'', ''_lane_directions'', ''_lane_status'', ''_lane_desc'', ''_lane_angles'']"

definition write_lane_data_keys :: "nat \<Rightarrow> rgd_lane_guidance \<Rightarrow> bt_field list option" where
  "write_lane_data_keys idx lane =
     (if \<not> has (rl_present lane) RGD_LANE_GUIDANCE_INDEX then Some []
      else if \<not> has (rl_present lane) RGD_LANE_INFORMATIONS then Some []
      else do {
        ts \<leftarrow> lane_text_fields ''lg'' idx (rl_lanes lane);
        Some ([FInt (slot_key ''lg'' idx ''_index'') (uint (rl_lane_guidance_index lane)),
               FInt (slot_key ''lg'' idx ''_lane_count'') (int (length (rl_lanes lane)))] @ ts) })"

definition write_lane_clear_keys :: "nat \<Rightarrow> bt_field list" where
  "write_lane_clear_keys idx =
     [FInt (slot_key ''lg'' idx ''_index'') (- 1), FInt (slot_key ''lg'' idx ''_lane_count'') (- 1)]
     @ empty_lane_fields ''lg'' idx"

section \<open>The data of a maneuver slot\<close>

definition opt_fields :: "bool \<Rightarrow> 'a list \<Rightarrow> 'a list" where
  "opt_fields c xs = (if c then xs else [])"

definition linked_lane_fields :: "nat \<Rightarrow> rgd_maneuver \<Rightarrow> rgd \<Rightarrow> (bt_field list \<times> rgd) option" where
  "linked_lane_fields idx man g =
     (if has (rm_present man) RGD_MAN_LINKED_LANE_INDEX then do {
        (r, g) \<leftarrow> rgd_lane_slot_for_iap_index (rm_linked_lane_guidance_index man) False g;
        Some (FInt (slot_key ''m'' idx ''_linked_lane_guidance_index'') (uint (rm_linked_lane_guidance_index man))
              # (case r of None \<Rightarrow> []
                 | Some s \<Rightarrow> [FInt (slot_key ''m'' idx ''_linked_lane_guidance_slot'') (int s)]), g) }
      else Some ([], g))"

definition maneuver_lane_fields :: "nat \<Rightarrow> rgd_maneuver \<Rightarrow> bt_field list option" where
  "maneuver_lane_fields idx man =
     (if has (rm_present man) RGD_MAN_LANE_GUIDANCE then do {
        ts \<leftarrow> lane_text_fields ''m'' idx (rm_lanes man);
        Some (FInt (slot_key ''m'' idx ''_lane_count'') (int (length (rm_lanes man))) # ts) }
      else if has (rm_present man) RGD_MAN_LANE_GUIDANCE_RAW then
        Some (FInt (slot_key ''m'' idx ''_lane_count'') 0 # empty_lane_fields ''m'' idx)
      else Some [])"

definition write_slot_data_keys :: "nat \<Rightarrow> rgd_maneuver \<Rightarrow> rgd \<Rightarrow> (bt_field list \<times> rgd) option" where
  "write_slot_data_keys idx man g = (
     let p = rm_present man; key = slot_key ''m'' idx in do {
     ja \<leftarrow> (if has p RGD_MAN_JUNCTION_ANGLES then
              map_option (\<lambda>t. [FStr (key ''_junction_angles'') (Some t)])
                (buf_text 128 (seps '','' (map dec_i16 (rm_junction_angles man))))
            else Some []);
     ver \<leftarrow> rd8 (rg_slot_ver g) idx;
     (linked, g) \<leftarrow> linked_lane_fields idx man g;
     lanes \<leftarrow> maneuver_lane_fields idx man;
     Some (
       opt_fields (has p RGD_MAN_TYPE) [FInt (key ''_type'') (uint (rm_maneuver_type man))] @
       opt_fields (has p RGD_MAN_EXIT_ANGLE)
         [FInt (key ''_turn_angle'') (sint (rm_exit_angle man)),
          FInt (key ''_exit_angle'') (sint (rm_exit_angle man))] @
       opt_fields (has p RGD_MAN_JUNCTION_TYPE) [FInt (key ''_junction_type'') (uint (rm_junction_type man))] @
       opt_fields (has p RGD_MAN_DRIVING_SIDE) [FInt (key ''_driving_side'') (uint (rm_driving_side man))] @
       opt_fields (has p RGD_MAN_DISTANCE_BETWEEN) [FUint (key ''_distance'') (unat (rm_distance_between man))] @
       opt_fields (has p RGD_MAN_DISTANCE_STRING) [FStr (key ''_distance_str'') (Some (rm_distance_string man))] @
       opt_fields (has p RGD_MAN_DISTANCE_UNITS) [FInt (key ''_distance_units'') (uint (rm_distance_units man))] @
       opt_fields (has p RGD_MAN_DESCRIPTION) [FStr (key ''_name'') (Some (rm_description man))] @
       opt_fields (has p RGD_MAN_AFTER_ROAD) [FStr (key ''_after_road'') (Some (rm_after_road_name man))] @
       ja @
       [FUint (key ''_ver'') (unat (ver mod 65535 + 1))] @
       opt_fields (has p RGD_MAN_LANE_GUIDANCE_RAW)
         [FInt (key ''_lane_guidance_len'') (uint (rm_lane_guidance_raw_len man))] @
       linked @ lanes @
       opt_fields (has p RGD_MAN_EXIT_INFO_RAW) [FInt (key ''_exit_info_len'') (uint (rm_exit_info_raw_len man))] @
       opt_fields (has p RGD_MAN_EXIT_INFO_STR) [FStr (key ''_exit_info'') (Some (rm_exit_info_str man))],
       g) })"

section \<open>Cache maintenance\<close>

definition rgd_lane_slot_has_data :: "nat \<Rightarrow> rgd \<Rightarrow> bool" where
  "rgd_lane_slot_has_data s g \<longleftrightarrow> s < MANEUVER_CACHE_SIZE \<and>
     rl_present (rg_lane_cache g ! s) AND (RGD_LANE_GUIDANCE_INDEX OR RGD_LANE_INFORMATIONS) =
       (RGD_LANE_GUIDANCE_INDEX OR RGD_LANE_INFORMATIONS)"

definition stale_lane :: "u16 \<Rightarrow> rgd \<Rightarrow> nat \<Rightarrow> bool" where
  "stale_lane m g i \<longleftrightarrow>
     (let lane_idx = rg_lane_slot_to_iap_idx g ! i in
      lane_idx \<noteq> EMPTY \<and> lane_idx < m \<and>
      \<not> (has (ru_present (rg_update_cache g)) RGD_UPD_LANE_INDEX \<and>
         ru_lane_guidance_index (rg_update_cache g) = lane_idx))"

definition prune_lane :: "nat \<Rightarrow> rgd \<Rightarrow> rgd" where
  "prune_lane i g = g\<lparr> rg_lane_slot_to_iap_idx := (rg_lane_slot_to_iap_idx g)[i := EMPTY],
     rg_lane_slot_seq := (rg_lane_slot_seq g)[i := 0],
     rg_lane_cache := (rg_lane_cache g)[i := (rg_lane_cache g ! i)\<lparr> rl_present := 0 \<rparr>] \<rparr>"

fun prune_loop :: "u16 \<Rightarrow> nat list \<Rightarrow> bool \<times> rgd \<Rightarrow> bool \<times> rgd" where
  "prune_loop m [] (pruned, g) = (pruned, g)"
| "prune_loop m (i # is) (pruned, g) =
     (if stale_lane m g i then prune_loop m is (True, prune_lane i g) else prune_loop m is (pruned, g))"

definition rgd_prune_stale_lane_cache :: "rgd \<Rightarrow> bool \<times> rgd" where
  "rgd_prune_stale_lane_cache g =
     (if \<not> rg_current_list_present g then (False, g)
      else if rg_current_list g = [] then (False, g)
      else if rg_last_route_state g = RGD_STATE_REROUTING then (False, g)
      else (case rgd_min_current_index g of
              None \<Rightarrow> (False, g)
            | Some m \<Rightarrow> prune_loop m [0 ..< MANEUVER_CACHE_SIZE] (False, g)))"

definition copy_lanes :: "rgd_maneuver \<Rightarrow> rgd_maneuver \<Rightarrow> rgd_maneuver" where
  "copy_lanes src man = man\<lparr> rm_lanes := rm_lanes src, rm_present := rm_present man OR RGD_MAN_LANE_GUIDANCE \<rparr>"

definition rgd_resolve_linked_lanes :: "nat \<Rightarrow> rgd \<Rightarrow> rgd option" where
  "rgd_resolve_linked_lanes slot g = do {
     man \<leftarrow> rd8 (rg_slot_cache g) slot;
     if \<not> has (rm_present man) RGD_MAN_LINKED_LANE_INDEX then Some g
     else if has (rm_present man) RGD_MAN_LANE_GUIDANCE then Some g
     else do {
       (r, g) \<leftarrow> rgd_slot_for_iap_index (rm_linked_lane_guidance_index man) False g;
       (case r of None \<Rightarrow> Some g
        | Some ls \<Rightarrow> do {
            src \<leftarrow> rd8 (rg_slot_cache g) ls;
            if \<not> has (rm_present src) RGD_MAN_LANE_GUIDANCE \<or> rm_lanes src = [] then Some g
            else do {
              c \<leftarrow> wr8 (rg_slot_cache g) slot (copy_lanes src man);
              Some (g\<lparr> rg_slot_cache := c \<rparr>) } }) } }"

definition rgd_backpropagate_linked_lanes :: "nat \<Rightarrow> rgd \<Rightarrow> rgd option" where
  "rgd_backpropagate_linked_lanes source_slot g = do {
     src \<leftarrow> rd8 (rg_slot_cache g) source_slot;
     if \<not> has (rm_present src) RGD_MAN_LANE_GUIDANCE \<or> rm_lanes src = [] then Some g
     else do {
       src_idx \<leftarrow> rd8 (rg_slot_to_iap_idx g) source_slot;
       if src_idx = EMPTY then Some g
       else Some (g\<lparr> rg_slot_cache := map (\<lambda>(s, man).
              if s \<noteq> source_slot \<and> has (rm_present man) RGD_MAN_LINKED_LANE_INDEX \<and>
                 \<not> has (rm_present man) RGD_MAN_LANE_GUIDANCE \<and>
                 rm_linked_lane_guidance_index man = src_idx
              then copy_lanes src man else man) (enumerate 0 (rg_slot_cache g)) \<rparr>) } }"

section \<open>The snapshot\<close>

definition update_fields1 :: "u64 \<Rightarrow> rgd_update \<Rightarrow> bt_field list" where
  "update_fields1 p upd =
     opt_fields (has p RGD_UPD_ROUTE_STATE) [FInt ''route_state'' (uint (ru_route_state upd))] @
     opt_fields (has p RGD_UPD_MANEUVER_STATE) [FInt ''maneuver_state'' (uint (ru_maneuver_state upd))] @
     opt_fields (has p RGD_UPD_DISTANCE_REMAINING) [FUint ''dist_dest_m'' (unat (ru_distance_remaining upd))] @
     opt_fields (has p RGD_UPD_DIST_TO_MANEUVER) [FUint ''dist_maneuver_m'' (unat (ru_dist_to_maneuver upd))] @
     opt_fields (has p RGD_UPD_ETA) [FUint ''eta_seconds'' (unat (ru_eta upd))] @
     opt_fields (has p RGD_UPD_TIME_REMAINING) [FUint ''time_remaining_seconds'' (unat (ru_time_remaining upd))] @
     opt_fields (has p RGD_UPD_CURRENT_ROAD) [FStr ''current_road'' (Some (ru_current_road upd))] @
     opt_fields (has p RGD_UPD_DESTINATION) [FStr ''destination'' (Some (ru_destination upd))] @
     opt_fields (has p RGD_UPD_DISTANCE_UNITS) [FInt ''dist_dest_units'' (uint (ru_distance_units upd))] @
     opt_fields (has p RGD_UPD_DIST_TO_MANEUVER_UNI)
       [FInt ''dist_maneuver_units'' (uint (ru_dist_to_maneuver_units upd))] @
     opt_fields (has p RGD_UPD_DISTANCE_STRING) [FStr ''dist_dest_str'' (Some (ru_distance_string upd))] @
     opt_fields (has p RGD_UPD_DIST_TO_MANEUVER_STR)
       [FStr ''dist_maneuver_str'' (Some (ru_dist_to_maneuver_string upd))] @
     opt_fields (has p RGD_UPD_LANE_INDEX) [FInt ''lane_guidance_index'' (uint (ru_lane_guidance_index upd))]"

definition lane_slot_fields :: "u64 \<Rightarrow> rgd_update \<Rightarrow> rgd \<Rightarrow> (bt_field list \<times> rgd) option" where
  "lane_slot_fields p upd g =
     (if has p RGD_UPD_LANE_INDEX then do {
        (r, g) \<leftarrow> rgd_lane_slot_for_iap_index (ru_lane_guidance_index upd) False g;
        Some ([FInt ''lane_guidance_slot'' (case r of None \<Rightarrow> - 1 | Some s \<Rightarrow> int s)], g) }
      else if has p RGD_UPD_LANE_SLOT then
        Some ([FInt ''lane_guidance_slot'' (sint (ru_lane_guidance_slot upd))], g)
      else Some ([], g))"

definition component_fields :: "u64 \<Rightarrow> rgd_update \<Rightarrow> bt_field list option" where
  "component_fields p upd =
     (if has p RGD_UPD_COMPONENT_IDS then do {
        t \<leftarrow> (if ru_component_ids upd \<noteq> []
              then snprintf_break 128 [] (seps '','' (map dec_u16 (ru_component_ids upd))) else Some []);
        Some [FInt ''component_count'' (int (length (ru_component_ids upd))),
              FStr ''component_ids'' (Some t)] }
      else Some [])"

definition update_fields :: "u64 \<Rightarrow> rgd_update \<Rightarrow> rgd \<Rightarrow> (bt_field list \<times> rgd) option" where
  "update_fields p upd g = do {
     (ls, g) \<leftarrow> lane_slot_fields p upd g;
     cs \<leftarrow> component_fields p upd;
     Some (update_fields1 p upd @ ls @
       opt_fields (has p RGD_UPD_LANE_TOTAL) [FInt ''lane_guidance_total'' (uint (ru_lane_guidance_total upd))] @
       opt_fields (has p RGD_UPD_LANE_SHOWING) [FInt ''lane_guidance_showing'' (uint (ru_lane_guidance_showing upd))] @
       opt_fields (has p RGD_UPD_SOURCE_NAME) [FStr ''source_name'' (Some (ru_source_name upd))] @
       opt_fields (has p RGD_UPD_SOURCE_SUPPORTS_RG) [FInt ''source_supports_rg'' (uint (ru_source_supports_rg upd))] @
       opt_fields (has p RGD_UPD_VISIBLE_IN_APP) [FInt ''visible_in_app'' (uint (ru_visible_in_app upd))] @
       cs @
       opt_fields (has p RGD_UPD_MANEUVER_COUNT) [FInt ''maneuver_count'' (uint (ru_maneuver_count upd))], g) }"

fun max_loop :: "u16 list \<Rightarrow> u16 \<Rightarrow> u16" where
  "max_loop [] m = m"
| "max_loop (x # xs) m = max_loop xs (if x > m then x else m)"

text \<open>The displayed list is replaced only by an update that carries one.\<close>

definition adopt_maneuver_list :: "rgd_update option \<Rightarrow> rgd \<Rightarrow> rgd" where
  "adopt_maneuver_list upd g =
     (case upd of None \<Rightarrow> g
      | Some u \<Rightarrow>
         if has (ru_present u) RGD_UPD_MANEUVER_LIST then
           let l = take MAX_MANEUVER_LIST (ru_maneuver_list u);
               g = g\<lparr> rg_current_list_present := True, rg_current_list := l \<rparr>
           in (case l of [] \<Rightarrow> g
               | x # xs \<Rightarrow> let m = max_loop xs x in
                   if m > rg_highest_list_index g then g\<lparr> rg_highest_list_index := m \<rparr> else g)
         else g)"

text \<open>The slots of the displayed list that have a type: the text written so far,
  how many were written and the slots listed.\<close>

fun list_loop :: "rgd \<Rightarrow> u16 list \<Rightarrow> string \<Rightarrow> nat \<Rightarrow> nat list \<Rightarrow> (string \<times> nat \<times> nat list) option" where
  "list_loop g [] t outc ls = Some (t, outc, ls)"
| "list_loop g (i # is) t outc ls =
     (case rgd_find_slot_for_iap_index_no_touch i g of
        None \<Rightarrow> list_loop g is t outc ls
      | Some s \<Rightarrow>
          if \<not> has (rm_present (rg_slot_cache g ! s)) RGD_MAN_TYPE then list_loop g is t outc ls
          else
            let ls = (if length ls < MAX_MANEUVER_LIST then ls @ [s] else ls);
                piece = (if outc > 0 then '','' else []) @ dec_nat s
            in if length t + length piece < 128 then
                 (if length (t @ piece) \<ge> 124 then Some (t @ piece, outc + 1, ls)
                  else list_loop g is (t @ piece) (outc + 1) ls)
               else None)"

definition list_fields :: "rgd \<Rightarrow> (bt_field list \<times> nat list) option" where
  "list_fields g =
     (if rg_current_list_present g then
        (if rg_current_list g \<noteq> [] then do {
           (t, outc, ls) \<leftarrow> list_loop g (rg_current_list g) [] 0 [];
           Some ([FStr ''maneuver_list'' (Some (if outc > 0 then t else []))], ls) }
         else Some ([FStr ''maneuver_list'' (Some [])], []))
      else Some ([], []))"

fun slots_fields :: "nat list \<Rightarrow> rgd \<Rightarrow> (bt_field list \<times> rgd) option" where
  "slots_fields [] g = Some ([], g)"
| "slots_fields (s # ss) g =
     (if s < MANEUVER_CACHE_SIZE \<and> rm_present (rg_slot_cache g ! s) \<noteq> 0 then do {
        (fs, g) \<leftarrow> write_slot_data_keys s (rg_slot_cache g ! s) g;
        (fs', g) \<leftarrow> slots_fields ss g;
        Some (fs @ fs', g) }
      else slots_fields ss g)"

fun lanes_fields :: "rgd \<Rightarrow> nat list \<Rightarrow> bt_field list option" where
  "lanes_fields g [] = Some []"
| "lanes_fields g (i # is) = do {
     fs \<leftarrow> (if rgd_lane_slot_has_data i g then write_lane_data_keys i (rg_lane_cache g ! i)
           else Some (write_lane_clear_keys i));
     fs' \<leftarrow> lanes_fields g is;
     Some (fs @ fs') }"

type_synonym alloc3 = "bool \<times> bool \<times> bool"

definition snapshot_fields :: "u64 \<Rightarrow> rgd_update option \<Rightarrow> rgd \<Rightarrow> (bt_field list \<times> rgd) option" where
  "snapshot_fields present current_upd g = do {
     (f1, g) \<leftarrow> update_fields present (rg_update_cache g) g;
     let g = adopt_maneuver_list current_upd g;
     let g = snd (rgd_prune_stale_lane_cache g);
     (f2, listed) \<leftarrow> list_fields g;
     (f3, g) \<leftarrow> slots_fields listed g;
     f4 \<leftarrow> lanes_fields g [0 ..< MANEUVER_CACHE_SIZE];
     Some (f1 @ f2 @ f3 @ f4, g) }"

definition write_bus_snapshot_from_cache ::
  "bool \<Rightarrow> alloc3 \<Rightarrow> nat option \<Rightarrow> rgd_maneuver option \<Rightarrow> rgd_update option \<Rightarrow> bus \<times> rgd \<Rightarrow> (bus \<times> rgd) option" where
  "write_bus_snapshot_from_cache heap al extra_slot extra_man current_upd s =
     (let b = fst s; g = snd s;
          present = ru_present (rg_update_cache g) AND RGD_UPD_WRITE_MASK;
          have_extra_slot = (case (extra_man, extra_slot) of
             (Some m, Some k) \<Rightarrow> rm_present m \<noteq> 0 \<and> k < MANEUVER_CACHE_SIZE | _ \<Rightarrow> False);
          (pruned, g) = rgd_prune_stale_lane_cache g;
          have_lane_cache = list_ex (\<lambda>i. rgd_lane_slot_has_data i g) [0 ..< MANEUVER_CACHE_SIZE]
      in if present = 0 \<and> \<not> have_extra_slot \<and> \<not> have_lane_cache \<and> \<not> pruned then Some (b, g)
      else case bus_text_begin_heap heap (Some ''routeguidance'') BUS_TEXT_BUILDER_LARGE_CAP of
        Inl _ \<Rightarrow> Some (b, g)
      | Inr tb \<Rightarrow> do {
          (fs, g) \<leftarrow> snapshot_fields present current_upd g;
          (r, tb, b) \<leftarrow> bus_send_text al EVT_RGD_UPDATE BUS_FLAG_STICKY (put_fields fs tb) b;
          Some (b, g) })"

section \<open>The operations\<close>

definition write_bus_update_partial :: "bool \<Rightarrow> alloc3 \<Rightarrow> rgd_update \<Rightarrow> bus \<times> rgd \<Rightarrow> (bus \<times> rgd) option" where
  "write_bus_update_partial heap al upd s =
     (if ru_present upd = 0 then Some s
      else if ru_present upd AND RGD_UPD_WRITE_MASK = 0 then Some s
      else do {
        (enriched, g) \<leftarrow> (if has (ru_present upd) RGD_UPD_LANE_INDEX then do {
              (r, g) \<leftarrow> rgd_lane_slot_for_iap_index (ru_lane_guidance_index upd) False (snd s);
              Some (upd\<lparr> ru_present := ru_present upd OR RGD_UPD_LANE_SLOT,
                        ru_lane_guidance_slot := (case r of Some k \<Rightarrow> of_nat k | None \<Rightarrow> - 1) \<rparr>, g) }
            else Some (upd, snd s));
        write_bus_snapshot_from_cache heap al None None (Some enriched)
          (fst s, rgd_update_cache_merge enriched g) })"

definition RGD_MAN_WRITE_MASK :: u64 where
  "RGD_MAN_WRITE_MASK = RGD_MAN_TYPE OR RGD_MAN_EXIT_ANGLE OR RGD_MAN_JUNCTION_TYPE OR
     RGD_MAN_DRIVING_SIDE OR RGD_MAN_DISTANCE_BETWEEN OR RGD_MAN_DISTANCE_STRING OR
     RGD_MAN_DISTANCE_UNITS OR RGD_MAN_DESCRIPTION OR RGD_MAN_AFTER_ROAD OR
     RGD_MAN_JUNCTION_ANGLES OR RGD_MAN_LANE_GUIDANCE_RAW OR RGD_MAN_LINKED_LANE_INDEX OR
     RGD_MAN_LANE_GUIDANCE OR RGD_MAN_EXIT_INFO_RAW OR RGD_MAN_EXIT_INFO_STR"

text \<open>The cache part: the slot the maneuver went to, None when it is rejected.\<close>

definition cache_maneuver :: "rgd_maneuver \<Rightarrow> rgd \<Rightarrow> (nat option \<times> rgd) option" where
  "cache_maneuver man g =
     (if rm_present man = 0 then Some (None, g)
      else if \<not> has (rm_present man) RGD_MAN_INDEX then Some (None, g)
      else if rm_present man AND RGD_MAN_WRITE_MASK = 0 then Some (None, g)
      else if \<not> rgd_can_process_maneuver_index (rm_index man) g then Some (None, g)
      else do {
        (r, g) \<leftarrow> rgd_slot_for_iap_index (rm_index man) True g;
        (case r of None \<Rightarrow> Some (None, g)
         | Some slot \<Rightarrow> do {
             c \<leftarrow> wr8 (rg_slot_cache g) slot man;
             g \<leftarrow> rgd_resolve_linked_lanes slot (g\<lparr> rg_slot_cache := c \<rparr>);
             m \<leftarrow> rd8 (rg_slot_cache g) slot;
             g \<leftarrow> (if has (rm_present m) RGD_MAN_LANE_GUIDANCE
                   then rgd_backpropagate_linked_lanes slot g else Some g);
             Some (Some slot, g) }) })"

definition write_bus_maneuver_partial :: "bool \<Rightarrow> alloc3 \<Rightarrow> rgd_maneuver \<Rightarrow> bus \<times> rgd \<Rightarrow> (bus \<times> rgd) option" where
  "write_bus_maneuver_partial heap al man s = do {
     (r, g) \<leftarrow> cache_maneuver man (snd s);
     (case r of None \<Rightarrow> Some (fst s, g)
      | Some slot \<Rightarrow> do {
          m \<leftarrow> rd8 (rg_slot_cache g) slot;
          write_bus_snapshot_from_cache heap al (Some slot) (Some m) None (fst s, g) }) }"

definition describe_lanes :: "rgd_lane_guidance \<Rightarrow> rgd_lane_guidance" where
  "describe_lanes dst =
     (if has (rl_present dst) RGD_LANE_GUIDANCE_DESC \<and> rl_description dst \<noteq> [] then
        dst\<lparr> rl_lanes := map (\<lambda>l. if ln_description l = [] then l\<lparr> ln_description := take 63 (rl_description dst) \<rparr> else l)
                          (rl_lanes dst) \<rparr>
      else dst)"

text \<open>The index the lanes are for (0xFFFF when unknown), the slot they were stored
  in, the update that refreshes the displayed lane slot.\<close>

definition lane_message_index :: "rgd_lane_guidance \<Rightarrow> rgd \<Rightarrow> u16" where
  "lane_message_index lane g =
     (if has (rl_present lane) RGD_LANE_GUIDANCE_INDEX then rl_lane_guidance_index lane
      else if rg_current_list_present g then (case rg_current_list g of [] \<Rightarrow> 0xFFFF | x # _ \<Rightarrow> x)
      else 0xFFFF)"

definition cache_lane_guidance :: "rgd_lane_guidance \<Rightarrow> u16 \<Rightarrow> rgd \<Rightarrow> (nat option \<times> rgd) option" where
  "cache_lane_guidance lane iap_idx g =
     (if has (rl_present lane) RGD_LANE_INFORMATIONS \<and> iap_idx \<noteq> 0xFFFF then do {
        (r, g) \<leftarrow> rgd_lane_slot_for_iap_index iap_idx True g;
        (case r of None \<Rightarrow> Some (None, g)
         | Some slot \<Rightarrow> do {
             c \<leftarrow> wr8 (rg_lane_cache g) slot (describe_lanes (lane\<lparr> rl_lane_guidance_index := iap_idx,
                   rl_present := rl_present lane OR (RGD_LANE_GUIDANCE_INDEX OR RGD_LANE_INFORMATIONS) \<rparr>));
             Some (Some slot, g\<lparr> rg_lane_cache := c \<rparr>) }) }
      else Some (None, g))"

definition lane_slot_update :: "u16 \<Rightarrow> nat option \<Rightarrow> rgd \<Rightarrow> (rgd_update option \<times> rgd) option" where
  "lane_slot_update iap_idx slot g =
     (if iap_idx \<noteq> 0xFFFF then do {
        (ps, g) \<leftarrow> (case slot of Some k \<Rightarrow> Some (Some k, g)
                    | None \<Rightarrow> rgd_lane_slot_for_iap_index iap_idx False g);
        Some (if has (ru_present (rg_update_cache g)) RGD_UPD_LANE_INDEX \<and>
                 ru_lane_guidance_index (rg_update_cache g) = iap_idx
              then Some (zero_update\<lparr> ru_present := RGD_UPD_LANE_SLOT,
                     ru_lane_guidance_slot := (case ps of Some k \<Rightarrow> of_nat k | None \<Rightarrow> - 1) \<rparr>)
              else None, g) }
      else Some (None, g))"

definition write_bus_lane_guidance_partial ::
  "bool \<Rightarrow> alloc3 \<Rightarrow> rgd_lane_guidance \<Rightarrow> bus \<times> rgd \<Rightarrow> (bus \<times> rgd) option" where
  "write_bus_lane_guidance_partial heap al lane s =
     (if rl_present lane AND (RGD_LANE_GUIDANCE_INDEX OR RGD_LANE_INFORMATIONS) = 0 then Some s
      else do {
        let iap_idx = lane_message_index lane (snd s);
        (slot, g) \<leftarrow> cache_lane_guidance lane iap_idx (snd s);
        (upd, g) \<leftarrow> lane_slot_update iap_idx slot g;
        let g = (case upd of None \<Rightarrow> g | Some u \<Rightarrow> rgd_update_cache_merge u g);
        (case slot of
           Some k \<Rightarrow> do {
             m \<leftarrow> rd8 (rg_slot_cache g) k;
             write_bus_snapshot_from_cache heap al (Some k) (Some m) upd (fst s, g) }
         | None \<Rightarrow>
             (case upd of None \<Rightarrow> Some (fst s, g)
              | Some u \<Rightarrow> write_bus_snapshot_from_cache heap al None None (Some u) (fst s, g))) })"

end
