(* ===== verification/Rgd_Snapshot.thy ===== *)
theory Rgd_Snapshot
  imports Rgd_Publish
begin

text \<open>
  Properties of the publisher of rgd_hook.c: the local buffers are large enough
  for what the parsers can store, the keys are well formed, so the Java reader
  gets back the fields put; which slots the maneuver list names; what pruning
  removes; and the two texts that are read although nothing was written.
\<close>

section \<open>The local buffers are large enough\<close>

lemma snprintf_loop_fits:
  "length acc + length (concat ps) < cap \<Longrightarrow> snprintf_loop cap acc ps = Some (acc @ concat ps)"
  by (induction ps arbitrary: acc) simp_all

lemma buf_text_fits:
  "ps \<noteq> [] \<Longrightarrow> length (concat ps) < cap \<Longrightarrow> buf_text cap ps = Some (concat ps)"
  by (simp add: buf_text_def snprintf_loop_fits)

lemma snprintf_break_fits:
  "length acc + length (concat ps) < cap - 4 \<Longrightarrow> snprintf_break cap acc ps = Some (acc @ concat ps)"
  by (induction ps arbitrary: acc) simp_all

lemma concat_bounded:
  "\<forall>x \<in> set xs. length x \<le> k \<Longrightarrow> length (concat xs) \<le> k * length xs"
  by (induction xs) (auto simp: algebra_simps)

lemma seps_bounded:
  assumes "\<forall>x \<in> set xs. length x \<le> k"
  shows "length (concat (seps sep xs)) \<le> (length sep + k) * length xs"
proof -
  have "\<forall>x \<in> set (seps sep xs). length x \<le> length sep + k" "length (seps sep xs) = length xs"
    using assms by (auto simp: seps_def split: list.splits)
  then show ?thesis using concat_bounded [of "seps sep xs" "length sep + k"] by simp
qed

lemma seps_Nil [simp]: "seps sep xs = [] \<longleftrightarrow> xs = []"
  by (simp add: seps_def split: list.splits)

lemma length_dec_nat: "n < 10 ^ k \<Longrightarrow> 0 < k \<Longrightarrow> length (dec_nat n) \<le> k"
proof (induction k arbitrary: n)
  case (Suc k)
  show ?case
  proof (cases "n < 10")
    case True
    then show ?thesis by (subst dec_nat.simps) simp
  next
    case False
    then have "0 < k" "n div 10 < 10 ^ k" using Suc.prems by (cases k; simp)+
    then have "length (dec_nat (n div 10)) \<le> k" by (rule Suc.IH [rotated])
    then show ?thesis using False by (subst dec_nat.simps) simp
  qed
qed simp

lemma length_dec_u16: "length (dec_u16 v) \<le> 5"
proof -
  have "unat v < 10 ^ 5" by (rule order.strict_trans2 [OF unsigned_less]) simp
  then show ?thesis using length_dec_nat [of "unat v" 5] by (simp add: dec_u16_def)
qed

lemma length_dec_u8: "length (dec_u8 v) \<le> 3"
proof -
  have "unat v < 10 ^ 3" by (rule order.strict_trans2 [OF unsigned_less]) simp
  then show ?thesis using length_dec_nat [of "unat v" 3] by (simp add: dec_u8_def)
qed

lemma length_dec_i16: "length (dec_i16 v) \<le> 6"
proof -
  have "nat (sint v) < 10 ^ 5" "nat (- sint v) < 10 ^ 5"
    using sint_lt [of v] sint_ge [of v] by simp_all
  then show ?thesis using length_dec_nat [of _ 5] by (fastforce simp: dec_i16_def dec_int_def)
qed

text \<open>A list of at most n numbers of at most k characters, with a one character
  separator.\<close>

lemma csv_fits:
  assumes "xs \<noteq> []" and "length xs \<le> n" and "\<forall>x \<in> set xs. length x \<le> k" and "length sep = 1" and "(1 + k) * n < cap"
  shows "buf_text cap (seps sep xs) = Some (concat (seps sep xs))"
proof (rule buf_text_fits)
  have "length (concat (seps sep xs)) \<le> (1 + k) * length xs" using seps_bounded [OF assms(3), of sep] assms(4) by simp
  also have "\<dots> \<le> (1 + k) * n" by (rule mult_le_mono2 [OF assms(2)])
  finally show "length (concat (seps sep xs)) < cap" using assms(5) by simp
qed (use assms(1) in simp)

lemma lanes_csv_fits:
  assumes "\<forall>l \<in> set lanes. length (f l) \<le> k" and "length sep = 1" and "(1 + k) * 8 < cap"
  shows "lanes_csv cap sep f lanes = Some (concat (seps sep (map f (take MAX_LANE_GUIDANCE lanes))))"
proof (cases lanes)
  case Nil
  then show ?thesis by (simp add: lanes_csv_def seps_def)
next
  case (Cons l ls)
  have "buf_text cap (seps sep (map f (take MAX_LANE_GUIDANCE lanes))) = Some (concat (seps sep (map f (take MAX_LANE_GUIDANCE lanes))))"
    using assms Cons by (intro csv_fits [where n = 8 and k = k]) (auto simp: rgd_max_defs dest!: in_set_takeD)
  then show ?thesis using Cons by (simp add: lanes_csv_def)
qed

text \<open>A lane entry whose texts are all written: not a single lane without
  angles.\<close>

definition lane_texts_ok :: "rgd_lane list \<Rightarrow> bool" where
  "lane_texts_ok lanes \<longleftrightarrow> (\<forall>l \<in> set lanes. length (ln_description l) \<le> 63) \<and>
     \<not> (length lanes = 1 \<and> ln_angles (hd lanes) = [])"

lemma angle_pieces_bounded: "length (concat (angle_pieces ls)) \<le> 113 * length ls"
proof (induction ls rule: angle_pieces.induct)
  have b: "length (concat (seps '','' (map dec_i16 (take MAX_LANE_ANGLES (ln_angles l))))) \<le> 112" for l
    using seps_bounded [of "map dec_i16 (take MAX_LANE_ANGLES (ln_angles l))" 6 "'',''"] length_dec_i16
    by (force simp: rgd_max_defs)
  { case (2 l) show ?case using b [of l] by simp
  next case (3 l l' ls) then show ?case using b [of l] by simp }
qed simp

lemma lane_angles_text_fits:
  assumes "lane_texts_ok lanes"
  shows "lane_angles_text lanes = Some (concat (angle_pieces (take MAX_LANE_GUIDANCE lanes)))"
proof (cases lanes)
  case Nil
  then show ?thesis by (simp add: lane_angles_text_def)
next
  case (Cons l ls)
  have "length (concat (angle_pieces (take MAX_LANE_GUIDANCE lanes))) < 1200"
    using angle_pieces_bounded [of "take MAX_LANE_GUIDANCE lanes"] by (auto simp: rgd_max_defs)
  moreover have "angle_pieces (take MAX_LANE_GUIDANCE lanes) \<noteq> []"
  proof (cases ls)
    case Nil
    then show ?thesis using assms Cons by (simp add: rgd_max_defs lane_texts_ok_def)
  next
    case (Cons l' ls')
    then show ?thesis using \<open>lanes = l # ls\<close> by (simp add: rgd_max_defs)
  qed
  ultimately show ?thesis using Cons buf_text_fits by (simp add: lane_angles_text_def)
qed

text \<open>What the publisher has to say, written down on its own: texts joined without
  a buffer, the fields whose flag is set, and for each slot and for the whole
  state the fields of it, in order.\<close>

definition joined :: "string \<Rightarrow> string list \<Rightarrow> string" where
  "joined sep xs = concat (seps sep xs)"

definition present_fields :: "u64 \<Rightarrow> (u64 \<times> bt_field) list \<Rightarrow> bt_field list" where
  "present_fields p tab = map snd (filter (\<lambda>(fl, f). has p fl) tab)"

lemma present_fields_opt:
  "present_fields p [] = []" "present_fields p ((fl, f) # tab) = opt_fields (has p fl) [f] @ present_fields p tab"
  by (simp_all add: present_fields_def opt_fields_def)

definition lane_angles :: "rgd_lane \<Rightarrow> string" where
  "lane_angles l = joined '','' (map dec_i16 (take MAX_LANE_ANGLES (ln_angles l)))"

definition lane_texts :: "string \<Rightarrow> nat \<Rightarrow> rgd_lane list \<Rightarrow> bt_field list" where
  "lane_texts p idx lanes = (let ls = take MAX_LANE_GUIDANCE lanes in
     [FStr (slot_key p idx ''_lane_positions'') (Some (joined '','' (map (\<lambda>l. dec_u16 (ln_position l)) ls))),
      FStr (slot_key p idx ''_lane_directions'') (Some (joined '','' (map (\<lambda>l. dec_i16 (ln_direction l)) ls))),
      FStr (slot_key p idx ''_lane_status'') (Some (joined '','' (map (\<lambda>l. dec_u8 (ln_status l)) ls))),
      FStr (slot_key p idx ''_lane_desc'') (Some (joined ''|'' (map ln_description ls))),
      FStr (slot_key p idx ''_lane_angles'') (Some (joined ''|'' (map lane_angles ls)))])"

lemma joined_Cons: "joined sep [] = []" "joined sep [x] = x" "joined sep (x # y # zs) = x @ sep @ joined sep (y # zs)"
  by (simp_all add: joined_def seps_def)

lemma angle_pieces_joined: "concat (angle_pieces ls) = joined ''|'' (map lane_angles ls)"
  by (induction ls rule: angle_pieces.induct) (simp_all add: joined_Cons lane_angles_def, simp_all add: joined_def)

lemma lane_text_fields_total:
  assumes "lane_texts_ok lanes"
  shows "lane_text_fields p idx lanes = Some (lane_texts p idx lanes)"
proof -
  have 1: "lanes_csv 128 '','' (\<lambda>l. dec_u16 (ln_position l)) lanes =
      Some (concat (seps '','' (map (\<lambda>l. dec_u16 (ln_position l)) (take MAX_LANE_GUIDANCE lanes))))"
    by (rule lanes_csv_fits [where k = 5]) (simp_all add: length_dec_u16)
  have 2: "lanes_csv 128 '','' (\<lambda>l. dec_i16 (ln_direction l)) lanes =
      Some (concat (seps '','' (map (\<lambda>l. dec_i16 (ln_direction l)) (take MAX_LANE_GUIDANCE lanes))))"
    by (rule lanes_csv_fits [where k = 6]) (simp_all add: length_dec_i16)
  have 3: "lanes_csv 128 '','' (\<lambda>l. dec_u8 (ln_status l)) lanes =
      Some (concat (seps '','' (map (\<lambda>l. dec_u8 (ln_status l)) (take MAX_LANE_GUIDANCE lanes))))"
    by (rule lanes_csv_fits [where k = 3]) (simp_all add: length_dec_u8)
  have 4: "lanes_csv 600 ''|'' ln_description lanes =
      Some (concat (seps ''|'' (map ln_description (take MAX_LANE_GUIDANCE lanes))))"
    by (rule lanes_csv_fits [where k = 63]) (use assms in \<open>simp_all add: lane_texts_ok_def\<close>)
  show ?thesis
    by (simp add: lane_text_fields_def 1 2 3 4 lane_angles_text_fits [OF assms] angle_pieces_joined
        lane_texts_def Let_def joined_def [symmetric])
qed

section \<open>The state invariant\<close>

text \<open>The budget n bounds the two access counters: it grows by at most 64 with
  each message.  A cached maneuver or lane entry is publishable when none of
  its texts would be read unwritten; no maneuver holds lanes of its own, since
  the parser never sets that bit (so the copying between linked slots never
  happens).\<close>

definition publishable :: "rgd_maneuver \<Rightarrow> bool" where
  "publishable m \<longleftrightarrow> length (rm_junction_angles m) \<le> 16 \<and>
     (has (rm_present m) RGD_MAN_JUNCTION_ANGLES \<longrightarrow> rm_junction_angles m \<noteq> []) \<and>
     \<not> has (rm_present m) RGD_MAN_LANE_GUIDANCE"

definition rgd_wf :: "nat \<Rightarrow> rgd \<Rightarrow> bool" where
  "rgd_wf n g \<longleftrightarrow> slots_ok g \<and> lanes_table_ok g \<and>
     unat (rg_seq_counter g) \<le> n \<and> unat (rg_lane_seq_counter g) \<le> n \<and>
     distinct_table (rg_slot_to_iap_idx g) \<and> distinct_table (rg_lane_slot_to_iap_idx g) \<and>
     length (rg_current_list g) \<le> MAX_MANEUVER_LIST \<and>
     length (ru_component_ids (rg_update_cache g)) \<le> MAX_COMPONENT_LIST \<and>
     (\<forall>m \<in> set (rg_slot_cache g). publishable m) \<and>
     (\<forall>l \<in> set (rg_lane_cache g). lane_texts_ok (rl_lanes l))"

lemma rgd_wf_mono: "rgd_wf n g \<Longrightarrow> n \<le> k \<Longrightarrow> rgd_wf k g"
  by (auto simp: rgd_wf_def)

lemma rgd_wf_room:
  assumes "rgd_wf n g" and "n + 1 < 2 ^ 32"
  shows "slots_room g" "lanes_room g"
proof -
  have "unat (rg_seq_counter g) < 2 ^ 32 - 1" "unat (rg_lane_seq_counter g) < 2 ^ 32 - 1"
    using assms by (simp_all add: rgd_wf_def)
  then show "slots_room g" "lanes_room g"
    by (simp_all add: slots_room_def lanes_room_def UINT32_MAX_def word_less_nat_alt)
qed

text \<open>Two states that differ at most in when lane entries were last used.\<close>

definition aged :: "rgd \<Rightarrow> rgd \<Rightarrow> bool" where
  "aged g g' \<longleftrightarrow> g' = g\<lparr> rg_lane_slot_seq := rg_lane_slot_seq g', rg_lane_seq_counter := rg_lane_seq_counter g' \<rparr>"

lemma aged_refl [simp]: "aged g g"
  by (simp add: aged_def)

lemma aged_sel:
  assumes "aged g g'"
  shows "rg_slot_cache g' = rg_slot_cache g" "rg_slot_ver g' = rg_slot_ver g"
    "rg_slot_to_iap_idx g' = rg_slot_to_iap_idx g" "rg_lane_cache g' = rg_lane_cache g"
    "rg_lane_slot_to_iap_idx g' = rg_lane_slot_to_iap_idx g" "rg_current_list g' = rg_current_list g"
    "rg_current_list_present g' = rg_current_list_present g" "rg_update_cache g' = rg_update_cache g"
    "rg_last_route_state g' = rg_last_route_state g"
  by (subst assms [unfolded aged_def], simp)+

lemma aged_trans: "aged a b \<Longrightarrow> aged b c \<Longrightarrow> aged a c"
  by (cases a; cases b; cases c) (simp add: aged_def)

lemma unat_next: "unat (c :: u32) + 1 < 2 ^ 32 \<Longrightarrow> unat (c + 1) = unat c + 1"
  by (simp add: unat_plus_if_size word_size)

lemma lane_lookup:
  assumes "rgd_wf n g" and "n + 1 < 2 ^ 32"
  shows "\<exists>g'. rgd_lane_slot_for_iap_index i False g = Some (find_slot 0 i (rg_lane_slot_to_iap_idx g), g') \<and>
    rgd_wf (n + 1) g' \<and> aged g g'"
proof (cases "find_slot 0 i (rg_lane_slot_to_iap_idx g)")
  case None
  then have "i \<notin> set (rg_lane_slot_to_iap_idx g)" by (simp add: find_slot_None)
  then have "rgd_lane_slot_for_iap_index i False g = Some (None, g)"
    using lane_slot_for_branches(2) [of g i] assms(1) by (simp add: rgd_wf_def)
  then show ?thesis using None rgd_wf_mono [OF assms(1), of "n + 1"] by simp
next
  case (Some k)
  let ?g = "lane_touched k g"
  have ok: "lanes_table_ok g" using assms(1) by (simp add: rgd_wf_def)
  have "unat (rg_lane_seq_counter g) + 1 < 2 ^ 32" using assms by (simp add: rgd_wf_def)
  then have c: "unat (rg_lane_seq_counter g + 1) \<le> n + 1"
    using unat_next [of "rg_lane_seq_counter g"] assms(1) by (simp add: rgd_wf_def)
  have "lanes_table_ok ?g" by (rule lane_touched_ok [OF ok rgd_wf_room(2) [OF assms]])
  then have "rgd_wf (n + 1) ?g"
    using assms(1) c by (simp add: rgd_wf_def slots_ok_def lane_touched_def)
  moreover have "aged g ?g" by (simp add: aged_def lane_touched_def)
  ultimately show ?thesis using lane_slot_for_branches(1) [OF ok Some] Some by simp
qed

section \<open>Keys\<close>

definition keys_ok :: "bt_field list \<Rightarrow> bool" where
  "keys_ok fs \<longleftrightarrow> list_all (\<lambda>f. key_ok (field_key f)) fs"

lemma keys_ok_append [simp]: "keys_ok (xs @ ys) \<longleftrightarrow> keys_ok xs \<and> keys_ok ys"
  "keys_ok (x # xs) \<longleftrightarrow> key_ok (field_key x) \<and> keys_ok xs" "keys_ok []"
  by (simp_all add: keys_ok_def)

lemma keys_ok_opt [simp]: "keys_ok xs \<Longrightarrow> keys_ok (opt_fields c xs)"
  by (simp add: opt_fields_def)

lemma key_ok_slot:
  assumes "p \<noteq> []" "hd p \<noteq> CHR ''@''" "CHR '':'' \<notin> set (p @ name)" "nl \<notin> set (p @ name)"
  shows "key_ok (slot_key p idx name)"
proof -
  have "CHR '':'' \<notin> digits" by (simp add: digits_code)
  then show ?thesis
    using assms set_dec_nat [of idx] nl_not_digit(1) by (auto simp: key_ok_def slot_key_def)
qed

lemmas key_simps = key_ok_slot key_ok_def nl_def

section \<open>The fields of one slot\<close>

lemma lane_text_keys_ok:
  assumes "p = ''m'' \<or> p = ''lg''"
  shows "keys_ok (lane_texts p idx lanes)"
  using assms by (auto simp: lane_texts_def Let_def intro!: key_ok_slot simp: nl_def)

lemma empty_lane_keys_ok: "p = ''m'' \<or> p = ''lg'' \<Longrightarrow> keys_ok (empty_lane_fields p idx)"
  by (auto simp: empty_lane_fields_def intro!: key_ok_slot simp: nl_def)

text \<open>The fields of the maneuver in a slot, and those of a lane slot, as the final
  state has them.\<close>

definition linked_part :: "rgd \<Rightarrow> nat \<Rightarrow> rgd_maneuver \<Rightarrow> bt_field list" where
  "linked_part g s m = (let i = rm_linked_lane_guidance_index m in
     if has (rm_present m) RGD_MAN_LINKED_LANE_INDEX
     then FInt (slot_key ''m'' s ''_linked_lane_guidance_index'') (uint i) #
       (case find_slot 0 i (rg_lane_slot_to_iap_idx g) of None \<Rightarrow> []
        | Some k \<Rightarrow> [FInt (slot_key ''m'' s ''_linked_lane_guidance_slot'') (int k)])
     else [])"

definition slot_part :: "rgd \<Rightarrow> nat \<Rightarrow> bt_field list" where
  "slot_part g s = (let m = rg_slot_cache g ! s; p = rm_present m; key = slot_key ''m'' s in
     present_fields p
       [(RGD_MAN_TYPE, FInt (key ''_type'') (uint (rm_maneuver_type m))),
        (RGD_MAN_EXIT_ANGLE, FInt (key ''_turn_angle'') (sint (rm_exit_angle m))),
        (RGD_MAN_EXIT_ANGLE, FInt (key ''_exit_angle'') (sint (rm_exit_angle m))),
        (RGD_MAN_JUNCTION_TYPE, FInt (key ''_junction_type'') (uint (rm_junction_type m))),
        (RGD_MAN_DRIVING_SIDE, FInt (key ''_driving_side'') (uint (rm_driving_side m))),
        (RGD_MAN_DISTANCE_BETWEEN, FUint (key ''_distance'') (unat (rm_distance_between m))),
        (RGD_MAN_DISTANCE_STRING, FStr (key ''_distance_str'') (Some (rm_distance_string m))),
        (RGD_MAN_DISTANCE_UNITS, FInt (key ''_distance_units'') (uint (rm_distance_units m))),
        (RGD_MAN_DESCRIPTION, FStr (key ''_name'') (Some (rm_description m))),
        (RGD_MAN_AFTER_ROAD, FStr (key ''_after_road'') (Some (rm_after_road_name m))),
        (RGD_MAN_JUNCTION_ANGLES,
           FStr (key ''_junction_angles'') (Some (joined '','' (map dec_i16 (rm_junction_angles m)))))] @
     FUint (key ''_ver'') (unat (rg_slot_ver g ! s mod 65535 + 1)) #
     present_fields p [(RGD_MAN_LANE_GUIDANCE_RAW, FInt (key ''_lane_guidance_len'') (uint (rm_lane_guidance_raw_len m)))] @
     linked_part g s m @
     opt_fields (has p RGD_MAN_LANE_GUIDANCE_RAW) (FInt (key ''_lane_count'') 0 # empty_lane_fields ''m'' s) @
     present_fields p
       [(RGD_MAN_EXIT_INFO_RAW, FInt (key ''_exit_info_len'') (uint (rm_exit_info_raw_len m))),
        (RGD_MAN_EXIT_INFO_STR, FStr (key ''_exit_info'') (Some (rm_exit_info_str m)))])"

definition lane_part :: "rgd \<Rightarrow> nat \<Rightarrow> bt_field list" where
  "lane_part g i = (let l = rg_lane_cache g ! i in
     if rgd_lane_slot_has_data i g
     then FInt (slot_key ''lg'' i ''_index'') (uint (rl_lane_guidance_index l)) #
       FInt (slot_key ''lg'' i ''_lane_count'') (int (length (rl_lanes l))) # lane_texts ''lg'' i (rl_lanes l)
     else FInt (slot_key ''lg'' i ''_index'') (- 1) # FInt (slot_key ''lg'' i ''_lane_count'') (- 1) #
       empty_lane_fields ''lg'' i)"

lemma maneuver_lane_fields_total:
  "publishable man \<Longrightarrow> maneuver_lane_fields idx man =
     Some (opt_fields (has (rm_present man) RGD_MAN_LANE_GUIDANCE_RAW)
       (FInt (slot_key ''m'' idx ''_lane_count'') 0 # empty_lane_fields ''m'' idx))"
  by (simp add: maneuver_lane_fields_def publishable_def opt_fields_def)

lemma linked_lane_fields_total:
  assumes "rgd_wf n g" and "n + 1 < 2 ^ 32"
  shows "\<exists>g'. linked_lane_fields idx man g = Some (linked_part g idx man, g') \<and> rgd_wf (n + 1) g' \<and> aged g g'"
proof -
  obtain g' where g': "rgd_lane_slot_for_iap_index (rm_linked_lane_guidance_index man) False g =
      Some (find_slot 0 (rm_linked_lane_guidance_index man) (rg_lane_slot_to_iap_idx g), g')"
    "rgd_wf (n + 1) g'" "aged g g'"
    using lane_lookup [OF assms] by blast
  then show ?thesis
    using rgd_wf_mono [OF assms(1), of "n + 1"]
    by (simp add: linked_lane_fields_def linked_part_def Let_def)
qed

lemma junction_text_total:
  assumes "publishable man" and "has (rm_present man) RGD_MAN_JUNCTION_ANGLES"
  shows "buf_text 128 (seps '','' (map dec_i16 (rm_junction_angles man))) =
    Some (concat (seps '','' (map dec_i16 (rm_junction_angles man))))"
  using assms length_dec_i16 by (intro csv_fits [where n = 16 and k = 6]) (auto simp: publishable_def)

lemma slot_data_total:
  assumes "rgd_wf n g" and "n + 1 < 2 ^ 32" and "publishable (rg_slot_cache g ! idx)" and "idx < MANEUVER_CACHE_SIZE"
  shows "\<exists>g'. write_slot_data_keys idx (rg_slot_cache g ! idx) g = Some (slot_part g idx, g') \<and>
    rgd_wf (n + 1) g' \<and> aged g g'"
proof -
  let ?man = "rg_slot_cache g ! idx"
  obtain g' where l: "linked_lane_fields idx ?man g = Some (linked_part g idx ?man, g')"
    "rgd_wf (n + 1) g'" "aged g g'"
    using linked_lane_fields_total [OF assms(1,2)] by blast
  note m = maneuver_lane_fields_total [OF assms(3)]
  have v: "rd8 (rg_slot_ver g) idx = Some (rg_slot_ver g ! idx)"
    using assms(1,4) by (simp add: rgd_wf_def slots_ok_def rd8_def)
  have j: "(if has (rm_present ?man) RGD_MAN_JUNCTION_ANGLES then
              map_option (\<lambda>t. [FStr (slot_key ''m'' idx ''_junction_angles'') (Some t)])
                (buf_text 128 (seps '','' (map dec_i16 (rm_junction_angles ?man))))
            else Some []) =
      Some (opt_fields (has (rm_present ?man) RGD_MAN_JUNCTION_ANGLES)
        [FStr (slot_key ''m'' idx ''_junction_angles'') (Some (joined '','' (map dec_i16 (rm_junction_angles ?man))))])"
    using junction_text_total [OF assms(3)] by (simp add: opt_fields_def joined_def)
  have two: "opt_fields c [x, y] = opt_fields c [x] @ opt_fields c [y]" for c and x y :: bt_field
    by (simp add: opt_fields_def)
  have "write_slot_data_keys idx ?man g = Some (slot_part g idx, g')"
    unfolding write_slot_data_keys_def Let_def j v l(1) m bind.bind_lunit prod.case slot_part_def
    by (simp add: present_fields_opt two)
  with l show ?thesis by blast
qed

lemma present_keys_ok [simp]: "keys_ok (map snd tab) \<Longrightarrow> keys_ok (present_fields p tab)"
  by (induction tab) (auto simp: present_fields_opt simp del: prod.case simp: present_fields_def [of p "[]"])

lemma part_keys_ok:
  "keys_ok (linked_part g s m)" "keys_ok (slot_part g s)" "keys_ok (lane_part g s)"
proof -
  have k: "p = ''m'' \<or> p = ''lg'' \<Longrightarrow> key_ok (slot_key p s name)" if "CHR '':'' \<notin> set name" "nl \<notin> set name" for p name
    using that by (auto intro!: key_ok_slot simp: nl_def)
  show l: "keys_ok (linked_part g s m)" for m
    by (simp add: linked_part_def Let_def k nl_def split: option.split)
  show "keys_ok (slot_part g s)"
    using empty_lane_keys_ok [of "''m''" s] by (simp add: slot_part_def Let_def l k nl_def)
  show "keys_ok (lane_part g s)"
    using empty_lane_keys_ok [of "''lg''" s] lane_text_keys_ok [of "''lg''" s]
    by (simp add: lane_part_def Let_def k nl_def)
qed

section \<open>Pruning\<close>

text \<open>The lane table, its ages and its cache, slot by slot, when the slots of S
  are cleared.\<close>

definition lanes_cleared :: "nat set \<Rightarrow> rgd \<Rightarrow> rgd" where
  "lanes_cleared S g = g\<lparr>
     rg_lane_slot_to_iap_idx := map (\<lambda>i. if i \<in> S then EMPTY else rg_lane_slot_to_iap_idx g ! i) [0 ..< MANEUVER_CACHE_SIZE],
     rg_lane_slot_seq := map (\<lambda>i. if i \<in> S then 0 else rg_lane_slot_seq g ! i) [0 ..< MANEUVER_CACHE_SIZE],
     rg_lane_cache := map (\<lambda>i. if i \<in> S then (rg_lane_cache g ! i)\<lparr> rl_present := 0 \<rparr> else rg_lane_cache g ! i)
       [0 ..< MANEUVER_CACHE_SIZE] \<rparr>"

definition lane_lengths :: "rgd \<Rightarrow> bool" where
  "lane_lengths g \<longleftrightarrow> length (rg_lane_slot_to_iap_idx g) = MANEUVER_CACHE_SIZE \<and>
     length (rg_lane_slot_seq g) = MANEUVER_CACHE_SIZE \<and> length (rg_lane_cache g) = MANEUVER_CACHE_SIZE"

lemma map_nth_whole: "length xs = n \<Longrightarrow> map (\<lambda>i. if i \<in> {} then f i else xs ! i) [0 ..< n] = xs"
  using map_nth [of xs] by simp

lemma lanes_cleared_empty: "lane_lengths g \<Longrightarrow> lanes_cleared {} g = g"
  unfolding lanes_cleared_def lane_lengths_def by (simp only: map_nth_whole) simp

lemma prune_lane_cleared:
  "i < MANEUVER_CACHE_SIZE \<Longrightarrow> i \<notin> S \<Longrightarrow> prune_lane i (lanes_cleared S g) = lanes_cleared (insert i S) g"
  by (auto simp: prune_lane_def lanes_cleared_def list_eq_iff_nth_eq nth_list_update intro!: rgd.equality)

lemma stale_cleared:
  "i < MANEUVER_CACHE_SIZE \<Longrightarrow> i \<notin> S \<Longrightarrow> stale_lane m (lanes_cleared S g) i = stale_lane m g i"
  by (simp add: stale_lane_def lanes_cleared_def Let_def)

lemma prune_loop_cleared:
  "distinct is \<Longrightarrow> set is \<subseteq> {..< MANEUVER_CACHE_SIZE} \<Longrightarrow> S \<inter> set is = {} \<Longrightarrow>
   prune_loop m is (p, lanes_cleared S g) =
     (p \<or> (\<exists>i \<in> set is. stale_lane m g i), lanes_cleared (S \<union> {i \<in> set is. stale_lane m g i}) g)"
proof (induction "is" arbitrary: p S)
  case (Cons i "is")
  have i: "i < MANEUVER_CACHE_SIZE" "i \<notin> S" using Cons.prems by auto
  have IH: "prune_loop m is (q, lanes_cleared T g) =
     (q \<or> (\<exists>i \<in> set is. stale_lane m g i), lanes_cleared (T \<union> {i \<in> set is. stale_lane m g i}) g)"
    if "T \<inter> set is = {}" for q T
    using Cons.IH [of T q] Cons.prems that by simp
  show ?case
  proof (cases "stale_lane m g i")
    case True
    have "insert i S \<union> {j \<in> set is. stale_lane m g j} = S \<union> {j \<in> set (i # is). stale_lane m g j}"
      using True by auto
    then show ?thesis
      using IH [of "insert i S" True] Cons.prems True by (simp add: stale_cleared [OF i] prune_lane_cleared [OF i])
  next
    case False
    then have "{j \<in> set (i # is). stale_lane m g j} = {j \<in> set is. stale_lane m g j}" by auto
    then show ?thesis
      using IH [of S p] Cons.prems False by (simp add: stale_cleared [OF i])
  qed
qed simp

text \<open>The stale slots of a state: pruning is due and the index is behind the
  displayed list and not shown.\<close>

definition stale_slots :: "rgd \<Rightarrow> nat set" where
  "stale_slots g =
     (if rg_current_list_present g \<and> rg_current_list g \<noteq> [] \<and> rg_last_route_state g \<noteq> RGD_STATE_REROUTING then
        {i \<in> {..< MANEUVER_CACHE_SIZE}. \<exists>m. rgd_min_current_index g = Some m \<and> stale_lane m g i} else {})"

lemma prune_spec:
  assumes "lane_lengths g"
  shows "rgd_prune_stale_lane_cache g = (stale_slots g \<noteq> {}, lanes_cleared (stale_slots g) g)"
proof (cases "rg_current_list_present g \<and> rg_current_list g \<noteq> [] \<and> rg_last_route_state g \<noteq> RGD_STATE_REROUTING")
  case True
  then obtain m where m: "rgd_min_current_index g = Some m"
    by (cases "rg_current_list g") (auto simp: rgd_min_current_index_def)
  have s: "stale_slots g = {i \<in> set [0 ..< MANEUVER_CACHE_SIZE]. stale_lane m g i}"
    using True m by (auto simp: stale_slots_def)
  have "prune_loop m [0 ..< MANEUVER_CACHE_SIZE] (False, lanes_cleared {} g) =
      (False \<or> (\<exists>i \<in> set [0 ..< MANEUVER_CACHE_SIZE]. stale_lane m g i),
       lanes_cleared ({} \<union> {i \<in> set [0 ..< MANEUVER_CACHE_SIZE]. stale_lane m g i}) g)"
    by (rule prune_loop_cleared) auto
  then show ?thesis
    using True m unfolding s lanes_cleared_empty [OF assms]
    by (auto simp: rgd_prune_stale_lane_cache_def)
next
  case False
  then have s: "stale_slots g = {}" unfolding stale_slots_def by (rule if_not_P)
  show ?thesis
    using False unfolding s lanes_cleared_empty [OF assms] by (auto simp: rgd_prune_stale_lane_cache_def)
qed

lemma lanes_cleared_sel [simp]:
  "rg_slot_cache (lanes_cleared S g) = rg_slot_cache g" "rg_slot_to_iap_idx (lanes_cleared S g) = rg_slot_to_iap_idx g"
  "rg_slot_ver (lanes_cleared S g) = rg_slot_ver g" "rg_slot_seq (lanes_cleared S g) = rg_slot_seq g"
  "rg_seq_counter (lanes_cleared S g) = rg_seq_counter g" "rg_update_cache (lanes_cleared S g) = rg_update_cache g"
  "rg_current_list (lanes_cleared S g) = rg_current_list g"
  "rg_current_list_present (lanes_cleared S g) = rg_current_list_present g"
  "rg_lane_seq_counter (lanes_cleared S g) = rg_lane_seq_counter g"
  "rg_last_route_state (lanes_cleared S g) = rg_last_route_state g"
  by (simp_all add: lanes_cleared_def)

lemma lanes_cleared_wf:
  assumes "rgd_wf n g"
  shows "rgd_wf n (lanes_cleared S g)"
proof -
  have l: "lanes_table_ok g" "distinct_table (rg_lane_slot_to_iap_idx g)" "\<forall>l \<in> set (rg_lane_cache g). lane_texts_ok (rl_lanes l)"
    using assms by (simp_all add: rgd_wf_def)
  have "lanes_table_ok (lanes_cleared S g)"
    using l(1) by (auto simp: lanes_table_ok_def lanes_cleared_def)
  moreover have "distinct_table (rg_lane_slot_to_iap_idx (lanes_cleared S g))"
    using l(1,2) by (auto simp: lanes_table_ok_def lanes_cleared_def distinct_table_def)
  moreover have "\<forall>l \<in> set (rg_lane_cache (lanes_cleared S g)). lane_texts_ok (rl_lanes l)"
    using l(1,3) by (auto simp: lanes_table_ok_def lanes_cleared_def)
  ultimately show ?thesis using assms by (simp add: rgd_wf_def slots_ok_def)
qed

lemma wf_lane_lengths: "rgd_wf n g \<Longrightarrow> lane_lengths g"
  by (simp add: rgd_wf_def lanes_table_ok_def lane_lengths_def)

lemma prune_wf:
  assumes "rgd_wf n g"
  shows "rgd_wf n (snd (rgd_prune_stale_lane_cache g))"
  using lanes_cleared_wf [OF assms] by (simp add: prune_spec [OF wf_lane_lengths [OF assms]])

section \<open>The maneuver list\<close>

text \<open>The slot of a displayed index, when its maneuver has a type.\<close>

definition typed_slot :: "rgd \<Rightarrow> u16 \<Rightarrow> nat option" where
  "typed_slot g i = (case rgd_find_slot_for_iap_index_no_touch i g of
      None \<Rightarrow> None
    | Some s \<Rightarrow> if has (rm_present (rg_slot_cache g ! s)) RGD_MAN_TYPE then Some s else None)"

definition listed_slots :: "rgd \<Rightarrow> nat list" where
  "listed_slots g = (if rg_current_list_present g then List.map_filter (typed_slot g) (rg_current_list g) else [])"

lemma seps_snoc: "seps sep (xs @ [x]) = seps sep xs @ [if xs = [] then x else sep @ x]"
  by (cases xs) (simp_all add: seps_def)

lemma length_slot: "s < MANEUVER_CACHE_SIZE \<Longrightarrow> length (dec_nat s) \<le> 2"
  using length_dec_nat [of s 2] by (simp add: rgd_max_defs)

lemma typed_slot_lt: "slots_ok g \<Longrightarrow> typed_slot g i = Some s \<Longrightarrow> s < MANEUVER_CACHE_SIZE"
  using find_slot_lt by (auto simp: typed_slot_def rgd_find_slot_for_iap_index_no_touch_def split: option.splits if_splits)

lemma typed_slot_type: "typed_slot g i = Some s \<Longrightarrow> has (rm_present (rg_slot_cache g ! s)) RGD_MAN_TYPE"
  by (auto simp: typed_slot_def split: option.splits if_splits)

lemma list_loop_spec:
  assumes "slots_ok g"
  shows "length ls + length is \<le> MAX_MANEUVER_LIST \<Longrightarrow> \<forall>s \<in> set ls. s < MANEUVER_CACHE_SIZE \<Longrightarrow>
    list_loop g is (concat (seps '','' (map dec_nat ls))) (length ls) ls =
      (let r = ls @ List.map_filter (typed_slot g) is in Some (concat (seps '','' (map dec_nat r)), length r, r))"
proof (induction "is" arbitrary: ls)
  case (Cons i "is")
  show ?case
  proof (cases "typed_slot g i")
    case None
    then have "list_loop g (i # is) t n ls = list_loop g is t n ls" for t n ls
      by (auto simp: typed_slot_def split: option.splits if_splits)
    then show ?thesis using Cons None by (simp add: map_filter_simps)
  next
    case (Some s)
    have s: "rgd_find_slot_for_iap_index_no_touch i g = Some s" "has (rm_present (rg_slot_cache g ! s)) RGD_MAN_TYPE"
      using Some by (auto simp: typed_slot_def split: option.splits if_splits)
    have lt: "s < MANEUVER_CACHE_SIZE" by (rule typed_slot_lt [OF assms Some])
    have room: "length ls < MAX_MANEUVER_LIST" using Cons.prems by simp
    have "\<forall>x \<in> set (map dec_nat (ls @ [s])). length x \<le> 2"
      using Cons.prems(2) lt length_slot by auto
    from seps_bounded [OF this, of "'',''"]
    have len: "length (concat (seps '','' (map dec_nat (ls @ [s])))) \<le> 48"
      using room by (simp add: rgd_max_defs)
    have t: "concat (seps '','' (map dec_nat ls)) @ (if length ls > 0 then '','' else []) @ dec_nat s =
        concat (seps '','' (map dec_nat (ls @ [s])))"
      by (simp add: seps_snoc)
    have "list_loop g (i # is) (concat (seps '','' (map dec_nat ls))) (length ls) ls =
        list_loop g is (concat (seps '','' (map dec_nat (ls @ [s])))) (length (ls @ [s])) (ls @ [s])"
      using s room len unfolding t [symmetric] by simp
    also have "\<dots> = (let r = (ls @ [s]) @ List.map_filter (typed_slot g) is
        in Some (concat (seps '','' (map dec_nat r)), length r, r))"
      by (rule Cons.IH) (use Cons.prems lt in auto)
    finally show ?thesis using Some by (simp add: map_filter_simps)
  qed
qed (simp add: map_filter_simps)

lemma list_fields_spec:
  assumes "rgd_wf n g"
  shows "list_fields g = Some
    (opt_fields (rg_current_list_present g) [FStr ''maneuver_list'' (Some (concat (seps '','' (map dec_nat (listed_slots g)))))],
     listed_slots g)"
proof -
  have ok: "slots_ok g" "length (rg_current_list g) \<le> MAX_MANEUVER_LIST" using assms by (simp_all add: rgd_wf_def)
  have "list_loop g (rg_current_list g) [] 0 [] =
      (let r = List.map_filter (typed_slot g) (rg_current_list g) in Some (concat (seps '','' (map dec_nat r)), length r, r))"
    using list_loop_spec [OF ok(1), of "[]" "rg_current_list g"] ok(2) by (simp add: seps_def)
  then show ?thesis
    by (auto simp: list_fields_def listed_slots_def opt_fields_def Let_def seps_def map_filter_simps)
qed

lemma in_map_filter: "y \<in> set (List.map_filter f xs) \<Longrightarrow> \<exists>x \<in> set xs. f x = Some y"
  by (auto simp: List.map_filter_def)

lemma listed_slots_bounded:
  assumes "rgd_wf n g"
  shows "length (listed_slots g) \<le> MAX_MANEUVER_LIST" "\<forall>s \<in> set (listed_slots g). s < MANEUVER_CACHE_SIZE"
    "\<forall>s \<in> set (listed_slots g). has (rm_present (rg_slot_cache g ! s)) RGD_MAN_TYPE"
proof -
  have "length (List.map_filter f xs) \<le> length xs" for f :: "u16 \<Rightarrow> nat option" and xs
    by (simp add: List.map_filter_def)
  from this [of "typed_slot g" "rg_current_list g"] show "length (listed_slots g) \<le> MAX_MANEUVER_LIST"
    using assms by (simp add: listed_slots_def rgd_wf_def)
  have t: "\<exists>i. typed_slot g i = Some s" if "s \<in> set (listed_slots g)" for s
    using that in_map_filter [of s "typed_slot g"] by (auto simp: listed_slots_def split: if_splits)
  show "\<forall>s \<in> set (listed_slots g). s < MANEUVER_CACHE_SIZE"
    using typed_slot_lt [of g] t assms by (simp add: rgd_wf_def) blast
  show "\<forall>s \<in> set (listed_slots g). has (rm_present (rg_slot_cache g ! s)) RGD_MAN_TYPE"
    using t typed_slot_type by blast
qed

section \<open>All the slots\<close>

lemma aged_parts:
  assumes "aged g g'"
  shows "slot_part g' s = slot_part g s" "lane_part g' i = lane_part g i" "listed_slots g' = listed_slots g"
proof -
  show "slot_part g' s = slot_part g s"
    by (simp add: slot_part_def linked_part_def Let_def aged_sel [OF assms])
  show "lane_part g' i = lane_part g i"
    by (simp add: lane_part_def rgd_lane_slot_has_data_def Let_def aged_sel [OF assms])
  have "typed_slot g' = typed_slot g"
    by (simp add: fun_eq_iff typed_slot_def rgd_find_slot_for_iap_index_no_touch_def aged_sel [OF assms]
        split: option.split)
  then show "listed_slots g' = listed_slots g" by (simp add: listed_slots_def aged_sel [OF assms])
qed

lemma slots_fields_total:
  assumes "rgd_wf n g" and "n + length ls < 2 ^ 32" and "\<forall>s \<in> set ls. s < MANEUVER_CACHE_SIZE"
    and "\<forall>s \<in> set ls. has (rm_present (rg_slot_cache g ! s)) RGD_MAN_TYPE"
  shows "\<exists>g'. slots_fields ls g = Some (concat (map (slot_part g) ls), g') \<and> rgd_wf (n + length ls) g' \<and> aged g g'"
  using assms
proof (induction ls arbitrary: n g)
  case Nil
  then show ?case by simp
next
  case (Cons s ls)
  have s: "s < MANEUVER_CACHE_SIZE" "n + 1 < 2 ^ 32" "rm_present (rg_slot_cache g ! s) \<noteq> 0"
    using Cons.prems by auto
  have "publishable (rg_slot_cache g ! s)"
    using Cons.prems(1) s(1) by (auto simp: rgd_wf_def slots_ok_def)
  from slot_data_total [OF Cons.prems(1) s(2) this s(1)] obtain g1 where
    1: "write_slot_data_keys s (rg_slot_cache g ! s) g = Some (slot_part g s, g1)" "rgd_wf (n + 1) g1" "aged g g1"
    by blast
  have p: "n + 1 + length ls < 2 ^ 32" "\<forall>s \<in> set ls. s < MANEUVER_CACHE_SIZE"
    "\<forall>s \<in> set ls. has (rm_present (rg_slot_cache g1 ! s)) RGD_MAN_TYPE"
    using Cons.prems by (simp_all add: aged_sel [OF 1(3)])
  from Cons.IH [OF 1(2) p] obtain g2 where
    2: "slots_fields ls g1 = Some (concat (map (slot_part g1) ls), g2)" "rgd_wf (n + 1 + length ls) g2" "aged g1 g2"
    by blast
  have "slot_part g1 = slot_part g" using aged_parts(1) [OF 1(3)] by blast
  then have "slots_fields (s # ls) g = Some (concat (map (slot_part g) (s # ls)), g2)"
    using s 1(1) 2(1) by simp
  moreover have "rgd_wf (n + length (s # ls)) g2" using 2(2) by (simp add: add.commute add.left_commute)
  ultimately show ?case using aged_trans [OF 1(3) 2(3)] by blast
qed

lemma has_both:
  fixes p :: "'a::len word"
  assumes "p AND (m OR m') = m OR m'"
  shows "m \<noteq> 0 \<Longrightarrow> has p m" "m' \<noteq> 0 \<Longrightarrow> has p m'"
proof -
  have "bit p n" if "bit (m OR m') n" for n
    using that arg_cong [OF assms, of "\<lambda>w. bit w n"] by (simp add: bit_simps)
  then have "p AND m = m" "p AND m' = m'" by (auto simp: bit_eq_iff bit_simps)
  then show "m \<noteq> 0 \<Longrightarrow> has p m" "m' \<noteq> 0 \<Longrightarrow> has p m'" by (simp_all add: has_def)
qed

lemma lane_flags_nz: "RGD_LANE_GUIDANCE_INDEX \<noteq> 0" "RGD_LANE_INFORMATIONS \<noteq> 0"
  by code_simp+

lemma lanes_fields_total:
  assumes "rgd_wf n g" and "\<forall>i \<in> set is. i < MANEUVER_CACHE_SIZE"
  shows "lanes_fields g is = Some (concat (map (lane_part g) is))"
  using assms(2)
proof (induction "is")
  case (Cons i "is")
  have "lane_texts_ok (rl_lanes (rg_lane_cache g ! i))"
    using assms(1) Cons.prems by (auto simp: rgd_wf_def lanes_table_ok_def)
  note t = lane_text_fields_total [OF this, of "''lg''" i]
  have "has (rl_present l) RGD_LANE_GUIDANCE_INDEX \<and> has (rl_present l) RGD_LANE_INFORMATIONS"
    if "rl_present l AND (RGD_LANE_GUIDANCE_INDEX OR RGD_LANE_INFORMATIONS) =
      RGD_LANE_GUIDANCE_INDEX OR RGD_LANE_INFORMATIONS" for l
    using has_both [OF that] lane_flags_nz by simp
  then have "(if rgd_lane_slot_has_data i g then write_lane_data_keys i (rg_lane_cache g ! i)
      else Some (write_lane_clear_keys i)) = Some (lane_part g i)"
    by (auto simp: write_lane_data_keys_def write_lane_clear_keys_def lane_part_def rgd_lane_slot_has_data_def t Let_def)
  then show ?case using Cons by simp
qed simp

section \<open>The whole snapshot\<close>

text \<open>The fields of the cached update and of the whole state.  The slot k is the
  one of the displayed lane entry.\<close>

definition update_part :: "nat option \<Rightarrow> u64 \<Rightarrow> rgd_update \<Rightarrow> bt_field list" where
  "update_part k p u =
     present_fields p
       [(RGD_UPD_ROUTE_STATE, FInt ''route_state'' (uint (ru_route_state u))),
        (RGD_UPD_MANEUVER_STATE, FInt ''maneuver_state'' (uint (ru_maneuver_state u))),
        (RGD_UPD_DISTANCE_REMAINING, FUint ''dist_dest_m'' (unat (ru_distance_remaining u))),
        (RGD_UPD_DIST_TO_MANEUVER, FUint ''dist_maneuver_m'' (unat (ru_dist_to_maneuver u))),
        (RGD_UPD_ETA, FUint ''eta_seconds'' (unat (ru_eta u))),
        (RGD_UPD_TIME_REMAINING, FUint ''time_remaining_seconds'' (unat (ru_time_remaining u))),
        (RGD_UPD_CURRENT_ROAD, FStr ''current_road'' (Some (ru_current_road u))),
        (RGD_UPD_DESTINATION, FStr ''destination'' (Some (ru_destination u))),
        (RGD_UPD_DISTANCE_UNITS, FInt ''dist_dest_units'' (uint (ru_distance_units u))),
        (RGD_UPD_DIST_TO_MANEUVER_UNI, FInt ''dist_maneuver_units'' (uint (ru_dist_to_maneuver_units u))),
        (RGD_UPD_DISTANCE_STRING, FStr ''dist_dest_str'' (Some (ru_distance_string u))),
        (RGD_UPD_DIST_TO_MANEUVER_STR, FStr ''dist_maneuver_str'' (Some (ru_dist_to_maneuver_string u))),
        (RGD_UPD_LANE_INDEX, FInt ''lane_guidance_index'' (uint (ru_lane_guidance_index u))),
        (RGD_UPD_LANE_INDEX, FInt ''lane_guidance_slot'' (case k of None \<Rightarrow> - 1 | Some s \<Rightarrow> int s))] @
     opt_fields (has p RGD_UPD_LANE_SLOT \<and> \<not> has p RGD_UPD_LANE_INDEX)
       [FInt ''lane_guidance_slot'' (sint (ru_lane_guidance_slot u))] @
     present_fields p
       [(RGD_UPD_LANE_TOTAL, FInt ''lane_guidance_total'' (uint (ru_lane_guidance_total u))),
        (RGD_UPD_LANE_SHOWING, FInt ''lane_guidance_showing'' (uint (ru_lane_guidance_showing u))),
        (RGD_UPD_SOURCE_NAME, FStr ''source_name'' (Some (ru_source_name u))),
        (RGD_UPD_SOURCE_SUPPORTS_RG, FInt ''source_supports_rg'' (uint (ru_source_supports_rg u))),
        (RGD_UPD_VISIBLE_IN_APP, FInt ''visible_in_app'' (uint (ru_visible_in_app u))),
        (RGD_UPD_COMPONENT_IDS, FInt ''component_count'' (int (length (ru_component_ids u)))),
        (RGD_UPD_COMPONENT_IDS, FStr ''component_ids'' (Some (joined '','' (map dec_u16 (ru_component_ids u))))),
        (RGD_UPD_MANEUVER_COUNT, FInt ''maneuver_count'' (uint (ru_maneuver_count u)))]"

definition state_fields :: "nat option \<Rightarrow> rgd \<Rightarrow> bt_field list" where
  "state_fields k g =
     update_part k (ru_present (rg_update_cache g) AND RGD_UPD_WRITE_MASK) (rg_update_cache g) @
     opt_fields (rg_current_list_present g)
       [FStr ''maneuver_list'' (Some (joined '','' (map dec_nat (listed_slots g))))] @
     concat (map (slot_part g) (listed_slots g)) @
     concat (map (lane_part g) [0 ..< MANEUVER_CACHE_SIZE])"

text \<open>The slot of the displayed lane entry is the one its index has in the lane
  table; an index 0xFFFF names a free slot, if there is one.\<close>

definition lane_slot_named :: "nat option \<Rightarrow> rgd \<Rightarrow> bool" where
  "lane_slot_named k g \<longleftrightarrow> (\<forall>s. k = Some s \<longrightarrow> s < MANEUVER_CACHE_SIZE) \<and>
     (let u = rg_update_cache g; i = ru_lane_guidance_index u in
      has (ru_present u) RGD_UPD_LANE_INDEX \<and> i \<noteq> EMPTY \<longrightarrow> k = find_slot 0 i (rg_lane_slot_to_iap_idx g))"

lemma two_opt: "opt_fields c [x, y] = opt_fields c [x] @ opt_fields c [y]"
  by (simp add: opt_fields_def)

lemma component_fields_total:
  assumes "length (ru_component_ids upd) \<le> MAX_COMPONENT_LIST"
  shows "component_fields p upd = Some (opt_fields (has p RGD_UPD_COMPONENT_IDS)
    [FInt ''component_count'' (int (length (ru_component_ids upd))),
     FStr ''component_ids'' (Some (joined '','' (map dec_u16 (ru_component_ids upd))))])"
proof -
  have "length (concat (seps '','' (map dec_u16 (ru_component_ids upd)))) \<le> 48"
    using seps_bounded [of "map dec_u16 (ru_component_ids upd)" 5 "'',''"] length_dec_u16 assms
    by (force simp: rgd_max_defs)
  then have "snprintf_break 128 [] (seps '','' (map dec_u16 (ru_component_ids upd))) =
      Some (concat (seps '','' (map dec_u16 (ru_component_ids upd))))"
    using snprintf_break_fits [of "[]"] by simp
  then show ?thesis by (simp add: component_fields_def opt_fields_def joined_def seps_def)
qed

lemma lane_slot_fields_total:
  assumes "rgd_wf n g" and "n + 1 < 2 ^ 32"
  shows "\<exists>g'. lane_slot_fields p upd g = Some
      (opt_fields (has p RGD_UPD_LANE_INDEX) [FInt ''lane_guidance_slot''
         (case find_slot 0 (ru_lane_guidance_index upd) (rg_lane_slot_to_iap_idx g) of None \<Rightarrow> - 1 | Some s \<Rightarrow> int s)] @
       opt_fields (has p RGD_UPD_LANE_SLOT \<and> \<not> has p RGD_UPD_LANE_INDEX)
         [FInt ''lane_guidance_slot'' (sint (ru_lane_guidance_slot upd))], g') \<and> rgd_wf (n + 1) g' \<and> aged g g'"
proof -
  obtain g' where g': "rgd_lane_slot_for_iap_index (ru_lane_guidance_index upd) False g =
      Some (find_slot 0 (ru_lane_guidance_index upd) (rg_lane_slot_to_iap_idx g), g')"
    "rgd_wf (n + 1) g'" "aged g g'"
    using lane_lookup [OF assms] by blast
  then show ?thesis
    using rgd_wf_mono [OF assms(1), of "n + 1"] by (simp add: lane_slot_fields_def opt_fields_def)
qed

lemma update_fields_total:
  assumes "rgd_wf n g" and "n + 1 < 2 ^ 32" and "length (ru_component_ids upd) \<le> MAX_COMPONENT_LIST"
  shows "\<exists>g'. update_fields p upd g =
      Some (update_part (find_slot 0 (ru_lane_guidance_index upd) (rg_lane_slot_to_iap_idx g)) p upd, g') \<and>
    rgd_wf (n + 1) g' \<and> aged g g'"
proof -
  obtain ls g' where l: "lane_slot_fields p upd g = Some (ls, g')" "rgd_wf (n + 1) g'" "aged g g'"
    "ls = opt_fields (has p RGD_UPD_LANE_INDEX) [FInt ''lane_guidance_slot''
         (case find_slot 0 (ru_lane_guidance_index upd) (rg_lane_slot_to_iap_idx g) of None \<Rightarrow> - 1 | Some s \<Rightarrow> int s)] @
       opt_fields (has p RGD_UPD_LANE_SLOT \<and> \<not> has p RGD_UPD_LANE_INDEX)
         [FInt ''lane_guidance_slot'' (sint (ru_lane_guidance_slot upd))]"
    using lane_slot_fields_total [OF assms(1,2)] by blast
  show ?thesis
    unfolding update_fields_def l(1) component_fields_total [OF assms(3)] bind.bind_lunit prod.case
    using l by (simp add: update_fields1_def update_part_def present_fields_opt two_opt)
qed

lemma take_Cons_length: "take n l = x # xs \<Longrightarrow> length xs + 1 \<le> n"
  using length_take [of n l] by simp

lemma adopt_wf: "rgd_wf n g \<Longrightarrow> rgd_wf n (adopt_maneuver_list upd g)"
  by (cases upd)
    (auto simp: adopt_maneuver_list_def rgd_wf_def slots_ok_def lanes_table_ok_def Let_def dest!: take_Cons_length split: list.splits)

text \<open>The state whose slots the snapshot lists.\<close>

definition displayed :: "rgd_update option \<Rightarrow> rgd \<Rightarrow> rgd" where
  "displayed upd g = (let g' = adopt_maneuver_list upd g in lanes_cleared (stale_slots g') g')"

lemma find_slot_same:
  "map ((=) i) xs = map ((=) i) ys \<Longrightarrow> find_slot n i xs = find_slot n i ys"
proof (induction xs arbitrary: ys n)
  case (Cons x xs)
  then obtain y ys' where "ys = y # ys'" by (cases ys) simp_all
  then show ?case using Cons by auto
qed simp

text \<open>Pruning spares the lane entry that is displayed.\<close>

lemma stale_spares_displayed:
  assumes "lane_lengths g" and "has (ru_present (rg_update_cache g)) RGD_UPD_LANE_INDEX"
    and "ru_lane_guidance_index (rg_update_cache g) = i" and "i \<noteq> EMPTY"
  shows "find_slot 0 i (rg_lane_slot_to_iap_idx (lanes_cleared (stale_slots g) g)) = find_slot 0 i (rg_lane_slot_to_iap_idx g)"
proof (rule find_slot_same)
  have "rg_lane_slot_to_iap_idx g ! s \<noteq> i" if "s \<in> stale_slots g" for s
    using that assms by (auto simp: stale_slots_def stale_lane_def Let_def split: if_splits)
  then show "map ((=) i) (rg_lane_slot_to_iap_idx (lanes_cleared (stale_slots g) g)) = map ((=) i) (rg_lane_slot_to_iap_idx g)"
    using assms(1,4) by (auto simp: list_eq_iff_nth_eq lanes_cleared_def lane_lengths_def)
qed

lemma adopt_keeps [simp]:
  "rg_lane_slot_to_iap_idx (adopt_maneuver_list upd g) = rg_lane_slot_to_iap_idx g"
  "rg_update_cache (adopt_maneuver_list upd g) = rg_update_cache g"
  by (cases upd; simp add: adopt_maneuver_list_def Let_def split: list.split)+

lemma snapshot_fields_total:
  assumes "rgd_wf n g" and "n + 17 < 2 ^ 32" and "p = ru_present (rg_update_cache g) AND RGD_UPD_WRITE_MASK"
  shows "\<exists>k g1 g'. snapshot_fields p upd g = Some (state_fields k g', g') \<and> lane_slot_named k g' \<and>
    rgd_wf (n + 17) g' \<and> aged g g1 \<and> aged (displayed upd g1) g'"
proof -
  let ?i = "ru_lane_guidance_index (rg_update_cache g)"
  define k where "k = find_slot 0 ?i (rg_lane_slot_to_iap_idx g)"
  have c: "length (ru_component_ids (rg_update_cache g)) \<le> MAX_COMPONENT_LIST" "n + 1 < 2 ^ 32"
    using assms by (simp_all add: rgd_wf_def)
  obtain g1 where 1: "update_fields p (rg_update_cache g) g = Some (update_part k p (rg_update_cache g), g1)"
    "rgd_wf (n + 1) g1" "aged g g1"
    unfolding k_def using update_fields_total [OF assms(1) c(2,1)] by blast
  define g2 where "g2 = displayed upd g1"
  let ?a = "adopt_maneuver_list upd g1"
  have a: "rgd_wf (n + 1) ?a" by (rule adopt_wf [OF 1(2)])
  have p: "snd (rgd_prune_stale_lane_cache ?a) = g2"
    by (simp add: prune_spec [OF wf_lane_lengths [OF a]] g2_def displayed_def Let_def)
  have wf2: "rgd_wf (n + 1) g2" using prune_wf [OF a] unfolding p .
  note l2 = list_fields_spec [OF wf2] and lb = listed_slots_bounded [OF wf2]
  have n: "n + 1 + length (listed_slots g2) < 2 ^ 32" using assms(2) lb(1) by (simp add: rgd_max_defs)
  obtain g3 where 3: "slots_fields (listed_slots g2) g2 = Some (concat (map (slot_part g2) (listed_slots g2)), g3)"
    "rgd_wf (n + 1 + length (listed_slots g2)) g3" "aged g2 g3"
    using slots_fields_total [OF wf2 n lb(2,3)] by blast
  have wf3: "rgd_wf (n + 17) g3"
    by (rule rgd_wf_mono [OF 3(2)]) (use lb(1) in \<open>simp add: rgd_max_defs\<close>)
  have 4: "lanes_fields g3 [0 ..< MANEUVER_CACHE_SIZE] = Some (concat (map (lane_part g3) [0 ..< MANEUVER_CACHE_SIZE]))"
    by (rule lanes_fields_total [OF wf3]) simp
  have u: "rg_update_cache g3 = rg_update_cache g"
    using aged_sel(8) [OF 1(3)] aged_sel(8) [OF 3(3)] by (simp add: g2_def displayed_def Let_def)
  have ps: "slot_part g3 = slot_part g2" using aged_parts(1) [OF 3(3)] by blast
  have r: "snapshot_fields p upd g = Some (state_fields k g3, g3)"
    by (simp add: snapshot_fields_def 1(1) p l2 3(1) 4 Let_def state_fields_def u assms(3) [symmetric]
        aged_parts(3) [OF 3(3)] ps aged_sel(7) [OF 3(3)] joined_def)
  have "k = find_slot 0 ?i (rg_lane_slot_to_iap_idx g3)"
    if "has (ru_present (rg_update_cache g)) RGD_UPD_LANE_INDEX" "?i \<noteq> EMPTY"
    using stale_spares_displayed [OF wf_lane_lengths [OF a] _ refl] that aged_sel(5) [OF 3(3)]
      aged_sel(5,8) [OF 1(3)] by (simp add: k_def g2_def displayed_def Let_def)
  moreover have "s < MANEUVER_CACHE_SIZE" if "k = Some s" for s
    using that assms(1) lane_find_slot_lt [of g ?i s] by (simp add: k_def rgd_wf_def)
  ultimately have "lane_slot_named k g3" by (simp add: lane_slot_named_def u Let_def)
  then show ?thesis using r wf3 1(3) 3(3) unfolding g2_def by blast
qed

lemma state_keys_ok: "keys_ok (state_fields k g)"
proof -
  have c: "\<forall>x \<in> set xs. keys_ok (f x) \<Longrightarrow> keys_ok (concat (map f xs))" for f :: "nat \<Rightarrow> bt_field list" and xs
    by (induction xs) simp_all
  show ?thesis
    using c [of "listed_slots g" "slot_part g"] c [of "[0 ..< MANEUVER_CACHE_SIZE]" "lane_part g"] part_keys_ok
    by (simp add: state_fields_def update_part_def key_ok_def nl_def)
qed

section \<open>What reaches the bus\<close>

definition rgd_text :: "bt_field list \<Rightarrow> string" where
  "rgd_text fs = name_line (Some ''routeguidance'') @ concat (map field_line fs)"

definition rgd_frame :: "u32 \<Rightarrow> bt_field list \<Rightarrow> frame" where
  "rgd_frame seq fs = sent_frame EVT_RGD_UPDATE BUS_FLAG_STICKY seq (str_bytes (rgd_text fs)) (length (rgd_text fs))"

text \<open>What a bus that got one more frame looks like: the frame is the cached one
  of its type, and it is queued unless the ring is full or its copy failed.\<close>

definition bus_got :: "bool \<Rightarrow> bt_field list \<Rightarrow> bus \<Rightarrow> bus \<Rightarrow> bool" where
  "bus_got a3 fs b b' \<longleftrightarrow> bus_ok b' \<and> g_client_fd b' = g_client_fd b \<and>
     sticky_cache b' = (sticky_cache b)(unat EVT_RGD_UPDATE \<mapsto> rgd_frame (g_tx_seq b) fs) \<and>
     (if g_ring_count (g_queue b) = SEND_QUEUE_CAPACITY \<or> \<not> a3
      then ring_items (g_queue b') = ring_items (g_queue b) \<and> g_tx_seq b' = g_tx_seq b
      else ring_items (g_queue b') = ring_items (g_queue b) @ [rgd_frame (g_tx_seq b) fs] \<and>
        g_tx_seq b' = g_tx_seq b + 1)"

text \<open>What the Java side reads from the cached frame, as the bytes of each key and
  value; parseText gives their decoded characters.\<close>

definition java_reads :: "bus \<Rightarrow> (string \<times> string) list option" where
  "java_reads b = do {
     f \<leftarrow> sticky_cache b (unat EVT_RGD_UPDATE);
     p \<leftarrow> f_payload f;
     Some (parse_text (bytes_str p)) }"

lemma java_reads_parseText:
  "utf8_decoder decode \<Longrightarrow> java_reads b = Some ps \<Longrightarrow> \<exists>f p. sticky_cache b (unat EVT_RGD_UPDATE) = Some f \<and>
     f_payload f = Some p \<and> parseText decode p = decoded_pairs decode ps"
  using parseText_decoded [of decode "bytes_str p" for p]
  by (auto simp: java_reads_def bind_eq_Some_conv str_bytes_def bytes_str_def o_def)

definition read_pairs :: "bt_field list \<Rightarrow> (string \<times> string) list" where
  "read_pairs fs = map (\<lambda>f. (field_key f, field_value f)) fs"

lemma java_reads_got:
  assumes "bus_got a3 fs b b'" and "keys_ok fs"
  shows "java_reads b' = Some (read_pairs fs)"
proof -
  have "length (rgd_text fs) > 0" by (simp add: rgd_text_def name_line_def)
  moreover have "parse_text (rgd_text fs) = read_pairs fs"
    using parse_name_line [of "Some ''routeguidance''"] parse_fields [of fs] assms(2)
    by (simp add: rgd_text_def keys_ok_def read_pairs_def nl_def)
  ultimately show ?thesis
    using assms(1) by (simp add: java_reads_def bus_got_def rgd_frame_def sent_frame_def)
qed

lemma put_fields_own: "put_fields fs (tb\<lparr> tb_own_buf := x \<rparr>) = (put_fields fs tb)\<lparr> tb_own_buf := x \<rparr>"
proof -
  have "bt_append c (tb\<lparr> tb_own_buf := x \<rparr>) = (bt_append c tb)\<lparr> tb_own_buf := x \<rparr>" for c tb
    by (cases tb) (simp add: bt_append_def)
  then have "bt_chunks cs (tb\<lparr> tb_own_buf := x \<rparr>) = (bt_chunks cs tb)\<lparr> tb_own_buf := x \<rparr>" for cs
    unfolding bt_chunks_def by (induction cs arbitrary: tb) simp_all
  then show ?thesis by (simp add: put_fields_chunks)
qed

lemma sticky_text_flags: "BUS_FLAG_STICKY AND NOT BUS_FLAG_BINARY = BUS_FLAG_STICKY" "has BUS_FLAG_STICKY BUS_FLAG_STICKY"
  by (simp_all add: BUS_FLAG_STICKY_def BUS_FLAG_BINARY_def has_def)

lemma send_text_effect:
  assumes "bus_ok b" and "length (rgd_text fs) \<le> cap" and "cap \<le> BUS_MAX_PAYLOAD"
  shows "\<exists>r tb b'. bus_send_text (True, True, a3) EVT_RGD_UPDATE BUS_FLAG_STICKY
      ((put_fields fs (bus_text_begin_with (Some ''routeguidance'') cap))\<lparr> tb_own_buf := own \<rparr>) b = Some (r, tb, b') \<and>
    bus_got a3 fs b b'"
proof -
  let ?tb = "put_fields fs (bus_text_begin_with (Some ''routeguidance'') cap)"
  have o: "\<not> tb_overflow ?tb" and t: "tb_text ?tb = rgd_text fs"
    using payload_text(2,3) [of fs "Some ''routeguidance''" cap] assms(2) by (simp_all add: rgd_text_def)
  have h: "tb_has_buf ?tb" by (simp add: put_fields_chunks begin_with_chunks)
  have len: "length (rgd_text fs) \<le> length (str_bytes (rgd_text fs))" "length (rgd_text fs) \<le> BUS_MAX_PAYLOAD"
    "unat EVT_RGD_UPDATE < MAX_TYPES" "0 < length (rgd_text fs)"
    using assms by (simp_all add: EVT_RGD_UPDATE_def MAX_TYPES_def rgd_text_def name_line_def)
  from bus_send_main [OF assms(1) len(1,2,3), of True a3 BUS_FLAG_STICKY] len(4)
  obtain r b' where "bus_send (True, True, a3) EVT_RGD_UPDATE BUS_FLAG_STICKY (str_bytes (rgd_text fs)) (length (rgd_text fs)) b =
      Some (r, b')" "bus_got a3 fs b b'"
    by (auto simp: bus_got_def rgd_frame_def sticky_text_flags split: if_splits)
  then show ?thesis
    using o t h by (simp add: bus_send_text_def sticky_text_flags)
qed

lemma send_text_overflow:
  assumes "cap < length (rgd_text fs)"
  shows "\<exists>tb. bus_send_text al type flags
      ((put_fields fs (bus_text_begin_with (Some ''routeguidance'') cap))\<lparr> tb_own_buf := own \<rparr>) b =
    Some (HOOK_ERR_MEMORY, tb, b)"
  using payload_text(2) [of fs "Some ''routeguidance''" cap] assms
  by (simp add: bus_send_text_def rgd_text_def put_fields_chunks begin_with_chunks)

text \<open>When a snapshot is skipped.\<close>

definition nothing_to_publish :: "nat option \<Rightarrow> rgd_maneuver option \<Rightarrow> rgd \<Rightarrow> bool" where
  "nothing_to_publish slot man g \<longleftrightarrow> ru_present (rg_update_cache g) AND RGD_UPD_WRITE_MASK = 0 \<and>
     \<not> (\<exists>m k. man = Some m \<and> slot = Some k \<and> rm_present m \<noteq> 0 \<and> k < MANEUVER_CACHE_SIZE) \<and>
     stale_slots g = {} \<and> \<not> (\<exists>i < MANEUVER_CACHE_SIZE. rgd_lane_slot_has_data i g)"

text \<open>Fields of the state that a snapshot leaves alone; among them everything that
  is not a cache or a table.\<close>

definition rgd_flags :: "rgd \<Rightarrow> (bool \<times> bool \<times> bool \<times> bool \<times> u16 \<times> bool \<times> bool) \<times> (u64 \<times> u64 \<times> bool \<times> u8 \<times> bool)" where
  "rgd_flags g = ((rg_active g, rg_sent_5200 g, rg_sent_5203 g, rg_got_520x g, rg_component_id g,
      rg_component_valid g, rg_have_update g),
     (rg_zero_started_ms g, rg_zero_deadline_ms g, rg_zero_from_reroute g, rg_emitted_route_state g, rg_initialized g))"

definition same_route :: "rgd \<Rightarrow> rgd \<Rightarrow> bool" where
  "same_route g g' \<longleftrightarrow> rgd_flags g' = rgd_flags g \<and> rg_update_cache g' = rg_update_cache g \<and> rg_slot_cache g' = rg_slot_cache g \<and>
     rg_slot_to_iap_idx g' = rg_slot_to_iap_idx g \<and> rg_slot_ver g' = rg_slot_ver g \<and>
     rg_last_route_state g' = rg_last_route_state g"

lemma same_route_trans: "same_route a b \<Longrightarrow> same_route b c \<Longrightarrow> same_route a c"
  by (simp add: same_route_def)

lemma aged_flags: "aged g g' \<Longrightarrow> rgd_flags g' = rgd_flags g"
  by (cases g; cases g') (simp add: aged_def rgd_flags_def)

lemma same_route_steps: "aged g g' \<Longrightarrow> same_route g g'" "same_route g (lanes_cleared S g)"
  "same_route g (adopt_maneuver_list upd g)"
proof -
  show "aged g g' \<Longrightarrow> same_route g g'" using aged_sel aged_flags by (simp add: same_route_def)
  show "same_route g (lanes_cleared S g)" by (simp add: same_route_def) (simp add: rgd_flags_def lanes_cleared_def)
  show "same_route g (adopt_maneuver_list upd g)"
    by (cases upd) (simp_all add: same_route_def adopt_maneuver_list_def rgd_flags_def Let_def split: list.split)
qed

definition adopted :: "rgd_update option \<Rightarrow> rgd \<Rightarrow> rgd \<Rightarrow> bool" where
  "adopted upd g g' \<longleftrightarrow>
     (case upd of
        Some u \<Rightarrow> if has (ru_present u) RGD_UPD_MANEUVER_LIST
          then rg_current_list_present g' \<and> rg_current_list g' = take MAX_MANEUVER_LIST (ru_maneuver_list u)
          else rg_current_list_present g' = rg_current_list_present g \<and> rg_current_list g' = rg_current_list g
      | None \<Rightarrow> rg_current_list_present g' = rg_current_list_present g \<and> rg_current_list g' = rg_current_list g)"

lemma adopted_adopt: "adopted upd g (adopt_maneuver_list upd g)"
  by (cases upd) (simp_all add: adopted_def adopt_maneuver_list_def Let_def split: list.split)

lemma has_data_iff: "(\<exists>i < MANEUVER_CACHE_SIZE. rgd_lane_slot_has_data i g) \<longleftrightarrow>
    list_ex (\<lambda>i. rgd_lane_slot_has_data i g) [0 ..< MANEUVER_CACHE_SIZE]"
  by (auto simp: list_ex_iff)

lemma snapshot_effect:
  assumes "rgd_wf n g" and "n + 17 < 2 ^ 32" and "bus_ok b"
  shows "\<exists>b' g'. write_bus_snapshot_from_cache True (True, True, a3) slot man upd (b, g) = Some (b', g') \<and>
    rgd_wf (n + 17) g' \<and> bus_ok b' \<and> same_route g g' \<and>
    (if nothing_to_publish slot man g then b' = b \<and> g' = g
     else adopted upd g g' \<and> (\<exists>k. lane_slot_named k g' \<and>
       (if length (rgd_text (state_fields k g')) \<le> BUS_TEXT_BUILDER_LARGE_CAP
        then bus_got a3 (state_fields k g') b b' else b' = b)))"
proof -
  let ?p = "ru_present (rg_update_cache g) AND RGD_UPD_WRITE_MASK"
  let ?g = "lanes_cleared (stale_slots g) g"
  have pr: "rgd_prune_stale_lane_cache g = (stale_slots g \<noteq> {}, ?g)"
    by (rule prune_spec [OF wf_lane_lengths [OF assms(1)]])
  have he: "(case man of None \<Rightarrow> False | Some m \<Rightarrow> case slot of None \<Rightarrow> False | Some k \<Rightarrow> rm_present m \<noteq> 0 \<and> k < MANEUVER_CACHE_SIZE) =
      (\<exists>m k. man = Some m \<and> slot = Some k \<and> rm_present m \<noteq> 0 \<and> k < MANEUVER_CACHE_SIZE)"
    by (cases man; cases slot) simp_all
  have id: "?g = g" if "stale_slots g = {}"
    using lanes_cleared_empty [OF wf_lane_lengths [OF assms(1)]] that by simp
  have skip: "(?p = 0 \<and> \<not> (case man of None \<Rightarrow> False | Some m \<Rightarrow> case slot of None \<Rightarrow> False | Some k \<Rightarrow> rm_present m \<noteq> 0 \<and> k < MANEUVER_CACHE_SIZE) \<and>
      \<not> list_ex (\<lambda>i. rgd_lane_slot_has_data i ?g) [0 ..< MANEUVER_CACHE_SIZE] \<and> \<not> stale_slots g \<noteq> {}) \<longleftrightarrow>
      nothing_to_publish slot man g"
    unfolding nothing_to_publish_def he has_data_iff using id by auto
  show ?thesis
  proof (cases "nothing_to_publish slot man g")
    case True
    then have "stale_slots g = {}" by (simp add: nothing_to_publish_def)
    then have "write_bus_snapshot_from_cache True (True, True, a3) slot man upd (b, g) = Some (b, g)"
      unfolding write_bus_snapshot_from_cache_def Let_def fst_conv snd_conv pr prod.case skip
      using True id by simp
    then show ?thesis using True assms rgd_wf_mono [OF assms(1), of "n + 17"] by (simp add: same_route_def)
  next
    case False
    have wf: "rgd_wf n ?g" by (rule lanes_cleared_wf [OF assms(1)])
    obtain k g1 g' where s: "snapshot_fields ?p upd ?g = Some (state_fields k g', g')" "lane_slot_named k g'"
      "rgd_wf (n + 17) g'" "aged ?g g1" "aged (displayed upd g1) g'"
      using snapshot_fields_total [OF wf assms(2), of ?p upd] by auto
    define fs where "fs = state_fields k g'"
    have f: "snapshot_fields ?p upd ?g = Some (fs, g')" using s(1) by (simp add: fs_def)
    have same: "same_route g g'"
      using same_route_steps(2) [of g "stale_slots g"] same_route_steps(1) [OF s(4)]
        same_route_steps(3) [of g1 upd] same_route_steps(2) [of "adopt_maneuver_list upd g1"]
        same_route_steps(1) [OF s(5)]
      by (metis same_route_trans displayed_def)
    have ad: "adopted upd g g'"
      using adopted_adopt [of upd g1] aged_sel(6,7) [OF s(4)] aged_sel(6,7) [OF s(5)]
      by (cases upd) (simp_all add: adopted_def displayed_def Let_def)
    let ?tb = "bus_text_begin_with (Some ''routeguidance'') BUS_TEXT_BUILDER_LARGE_CAP"
    have run: "write_bus_snapshot_from_cache True (True, True, a3) slot man upd (b, g) = do {
          (r, tb, b) \<leftarrow> bus_send_text (True, True, a3) EVT_RGD_UPDATE BUS_FLAG_STICKY
            ((put_fields fs ?tb)\<lparr> tb_own_buf := True \<rparr>) b;
          Some (b, g') }"
      unfolding write_bus_snapshot_from_cache_def Let_def fst_conv snd_conv pr prod.case skip
      using False f by (simp add: bus_text_begin_heap_def put_fields_own)
    show ?thesis
    proof (cases "length (rgd_text fs) \<le> BUS_TEXT_BUILDER_LARGE_CAP")
      case True
      have cap: "BUS_TEXT_BUILDER_LARGE_CAP \<le> BUS_MAX_PAYLOAD"
        by (simp add: BUS_TEXT_BUILDER_LARGE_CAP_def BUS_MAX_PAYLOAD_def)
      obtain r tb b' where "bus_send_text (True, True, a3) EVT_RGD_UPDATE BUS_FLAG_STICKY
          ((put_fields fs ?tb)\<lparr> tb_own_buf := True \<rparr>) b = Some (r, tb, b')" "bus_got a3 fs b b'"
        using send_text_effect [OF assms(3) True cap] by blast
      moreover have "bus_ok b'" using \<open>bus_got a3 fs b b'\<close> by (simp add: bus_got_def)
      ultimately show ?thesis using run False True s(2,3) same ad unfolding fs_def by auto
    next
      case over: False
      then obtain tb where "bus_send_text (True, True, a3) EVT_RGD_UPDATE BUS_FLAG_STICKY
          ((put_fields fs ?tb)\<lparr> tb_own_buf := True \<rparr>) b = Some (HOOK_ERR_MEMORY, tb, b)"
        using send_text_overflow [of BUS_TEXT_BUILDER_LARGE_CAP fs] by fastforce
      then show ?thesis using run False over s(2,3) same ad assms(3) unfolding fs_def by auto
    qed
  qed
qed

end
