(* ===== verification/Rgd_Operations.thy ===== *)
theory Rgd_Operations
  imports Rgd_Snapshot
begin

text \<open>
  The three publishing operations of rgd_hook.c on well formed states: they
  never fault, keep the state invariant with a bounded use of the access
  counters, and what they leave in the bus is the new state.
\<close>

section \<open>Slot requests keep the invariant\<close>

lemma zero_publishable [simp]: "publishable zero_maneuver" "lane_texts_ok (rl_lanes zero_lane_guidance)"
  by (simp_all add: publishable_def lane_texts_ok_def zero_maneuver_def zero_lane_guidance_def)

lemma slot_request_frame:
  assumes "rgd_slot_for_iap_index i c g = Some (r, g')"
  shows "g' = g\<lparr> rg_slot_to_iap_idx := rg_slot_to_iap_idx g', rg_slot_seq := rg_slot_seq g', rg_slot_ver := rg_slot_ver g',
      rg_seq_counter := rg_seq_counter g', rg_ver_counter := rg_ver_counter g', rg_slot_cache := rg_slot_cache g' \<rparr>"
    "rg_seq_counter g' = rg_seq_counter g \<or> rg_seq_counter g' = rg_seq_counter g + 1"
    "set (rg_slot_cache g') \<subseteq> insert zero_maneuver (set (rg_slot_cache g))"
  using assms
  by (auto simp: rgd_slot_for_iap_index_def Let_def bind_eq_Some_conv wr8_def split: option.splits if_splits
      dest!: set_update_subset_insert [THEN subsetD])

lemma lane_request_frame:
  assumes "rgd_lane_slot_for_iap_index i c g = Some (r, g')"
  shows "g' = g\<lparr> rg_lane_slot_to_iap_idx := rg_lane_slot_to_iap_idx g', rg_lane_slot_seq := rg_lane_slot_seq g',
      rg_lane_seq_counter := rg_lane_seq_counter g', rg_lane_cache := rg_lane_cache g' \<rparr>"
    "rg_lane_seq_counter g' = rg_lane_seq_counter g \<or> rg_lane_seq_counter g' = rg_lane_seq_counter g + 1"
    "set (rg_lane_cache g') \<subseteq> insert zero_lane_guidance (set (rg_lane_cache g))"
  using assms
  by (auto simp: rgd_lane_slot_for_iap_index_def Let_def bind_eq_Some_conv wr8_def split: option.splits if_splits
      dest!: set_update_subset_insert [THEN subsetD])

lemma counter_bound:
  fixes c :: u32
  assumes "c' = c \<or> c' = c + 1" and "unat c \<le> n" and "n + 1 < 2 ^ 32"
  shows "unat c' \<le> n + 1"
  using assms unat_next [of c] by auto

lemma slot_request_wf:
  assumes "rgd_wf n g" and "n + 1 < 2 ^ 32"
  shows "\<exists>r g'. rgd_slot_for_iap_index i c g = Some (r, g') \<and> rgd_wf (n + 1) g' \<and> (c \<longrightarrow> r \<noteq> None) \<and>
    (\<forall>k. r = Some k \<longrightarrow> k < MANEUVER_CACHE_SIZE) \<and>
    (\<forall>k. r = Some k \<longrightarrow> i \<noteq> EMPTY \<longrightarrow> rgd_find_slot_for_iap_index_no_touch i g' = Some k)"
proof -
  have ok: "slots_ok g" "slots_room g" "distinct_table (rg_slot_to_iap_idx g)"
    using assms rgd_wf_room [OF assms] by (simp_all add: rgd_wf_def)
  obtain r g' where r: "rgd_slot_for_iap_index i c g = Some (r, g')" "slots_ok g'" "c \<longrightarrow> r \<noteq> None"
    "distinct_table (rg_slot_to_iap_idx g')"
    using maneuver_slots.get_total [OF ok(1,2), of i c] ok(3) by blast
  note f = slot_request_frame [OF r(1)]
  have p: "\<forall>m \<in> set (rg_slot_cache g'). publishable m" using assms(1) f(3) by (auto simp: rgd_wf_def)
  have lanes: "rg_lane_slot_to_iap_idx g' = rg_lane_slot_to_iap_idx g" "rg_lane_slot_seq g' = rg_lane_slot_seq g"
    "rg_lane_cache g' = rg_lane_cache g" "rg_lane_seq_counter g' = rg_lane_seq_counter g"
    "rg_current_list g' = rg_current_list g" "rg_update_cache g' = rg_update_cache g"
    by (subst f(1), simp)+
  have wf: "rgd_wf (n + 1) g'"
    using assms(1) r(2,4) p counter_bound [OF f(2) _ assms(2)] by (simp add: rgd_wf_def lanes lanes_table_ok_def)
  have lt: "k < MANEUVER_CACHE_SIZE" if "r = Some k" for k
  proof (cases "find_slot 0 i (rg_slot_to_iap_idx g)")
    case (Some j)
    then show ?thesis using slot_for_branches(1) [OF ok(1) Some, of c] r(1) that find_slot_lt [OF ok(1) Some] by simp
  next
    case None
    then have i: "i \<notin> set (rg_slot_to_iap_idx g)" by (simp add: find_slot_None)
    have c: c using slot_for_branches(2) [OF ok(1) i] r(1) that by (cases c) simp_all
    from maneuver_slots.alloc [OF ok(1,2) i] r(1) that c ok(1) show ?thesis by (auto simp: slots_ok_def)
  qed
  then show ?thesis
    using r(1,3) wf maneuver_slots.get_found [OF ok(1,2), of i c _ g', OF _ _ ok(3)]
    by (auto simp: rgd_find_slot_for_iap_index_no_touch_def)
qed

lemma lane_request_wf:
  assumes "rgd_wf n g" and "n + 1 < 2 ^ 32"
  shows "\<exists>r g'. rgd_lane_slot_for_iap_index i c g = Some (r, g') \<and> rgd_wf (n + 1) g' \<and> (c \<longrightarrow> r \<noteq> None) \<and>
    (\<forall>k. r = Some k \<longrightarrow> k < MANEUVER_CACHE_SIZE) \<and> same_route g g' \<and>
    rg_current_list g' = rg_current_list g \<and> rg_current_list_present g' = rg_current_list_present g"
proof -
  have ok: "lanes_table_ok g" "lanes_room g" "distinct_table (rg_lane_slot_to_iap_idx g)"
    using assms rgd_wf_room [OF assms] by (simp_all add: rgd_wf_def)
  obtain r g' where r: "rgd_lane_slot_for_iap_index i c g = Some (r, g')" "lanes_table_ok g'" "c \<longrightarrow> r \<noteq> None"
    "distinct_table (rg_lane_slot_to_iap_idx g')"
    using lane_slots.get_total [OF ok(1,2), of i c] ok(3) by blast
  note f = lane_request_frame [OF r(1)]
  have p: "\<forall>m \<in> set (rg_lane_cache g'). lane_texts_ok (rl_lanes m)" using assms(1) f(3) by (auto simp: rgd_wf_def)
  have slots: "rg_slot_to_iap_idx g' = rg_slot_to_iap_idx g" "rg_slot_seq g' = rg_slot_seq g" "rg_slot_ver g' = rg_slot_ver g"
    "rg_slot_cache g' = rg_slot_cache g" "rg_seq_counter g' = rg_seq_counter g"
    "rg_current_list g' = rg_current_list g" "rg_update_cache g' = rg_update_cache g"
    "rg_current_list_present g' = rg_current_list_present g" "rg_last_route_state g' = rg_last_route_state g"
    by (subst f(1), simp)+
  have flags: "rgd_flags g' = rgd_flags g" by (subst f(1)) (simp add: rgd_flags_def)
  have wf: "rgd_wf (n + 1) g'"
    using assms(1) r(2,4) p counter_bound [OF f(2) _ assms(2)] by (simp add: rgd_wf_def slots slots_ok_def)
  have lt: "k < MANEUVER_CACHE_SIZE" if "r = Some k" for k
  proof (cases "find_slot 0 i (rg_lane_slot_to_iap_idx g)")
    case (Some j)
    then show ?thesis using lane_slot_for_branches(1) [OF ok(1) Some, of c] r(1) that lane_find_slot_lt [OF ok(1) Some] by simp
  next
    case None
    then have i: "i \<notin> set (rg_lane_slot_to_iap_idx g)" by (simp add: find_slot_None)
    have c: c using lane_slot_for_branches(2) [OF ok(1) i] r(1) that by (cases c) simp_all
    from lane_slots.alloc [OF ok(1,2) i] r(1) that c ok(1) show ?thesis by (auto simp: lanes_table_ok_def)
  qed
  then show ?thesis using r(1,3) wf slots flags by (auto simp: same_route_def)
qed

section \<open>Updates\<close>

lemma merge_wf: "rgd_wf n g \<Longrightarrow> rgd_wf n (rgd_update_cache_merge u g)"
  by (simp add: rgd_wf_def rgd_update_cache_merge_def Let_def slots_ok_def lanes_table_ok_def)

lemma merge_same [simp]:
  "rg_slot_cache (rgd_update_cache_merge u g) = rg_slot_cache g"
  "rg_slot_to_iap_idx (rgd_update_cache_merge u g) = rg_slot_to_iap_idx g"
  "rg_current_list (rgd_update_cache_merge u g) = rg_current_list g"
  "rg_current_list_present (rgd_update_cache_merge u g) = rg_current_list_present g"
  "rgd_flags (rgd_update_cache_merge u g) = rgd_flags g"
  by (simp_all add: rgd_update_cache_merge_def rgd_flags_def Let_def)

text \<open>What the three operations do to the bus: nothing, or the state they leave is
  the one the Java side reads (a text of more than 64 KB is dropped).\<close>

definition publishes :: "bool \<Rightarrow> rgd \<Rightarrow> bus \<Rightarrow> bus \<Rightarrow> bool" where
  "publishes a3 g b b' \<longleftrightarrow> (\<exists>k. lane_slot_named k g \<and>
     (if length (rgd_text (state_fields k g)) \<le> BUS_TEXT_BUILDER_LARGE_CAP
      then bus_got a3 (state_fields k g) b b' else b' = b))"

lemma publishes_read:
  "publishes a3 g b b' \<Longrightarrow> \<exists>k. lane_slot_named k g \<and>
     (if length (rgd_text (state_fields k g)) \<le> BUS_TEXT_BUILDER_LARGE_CAP
      then java_reads b' = Some (read_pairs (state_fields k g)) else b' = b)"
  using java_reads_got [OF _ state_keys_ok] unfolding publishes_def by metis

definition with_lane_slot :: "nat option \<Rightarrow> rgd_update \<Rightarrow> rgd_update" where
  "with_lane_slot r upd = upd\<lparr> ru_present := ru_present upd OR RGD_UPD_LANE_SLOT,
     ru_lane_guidance_slot := (case r of Some k \<Rightarrow> of_nat k | None \<Rightarrow> - 1) \<rparr>"

lemma with_lane_slot_bits [simp]:
  "has (ru_present (with_lane_slot r u)) RGD_UPD_MANEUVER_LIST = has (ru_present u) RGD_UPD_MANEUVER_LIST"
  "ru_maneuver_list (with_lane_slot r u) = ru_maneuver_list u"
  by (simp_all add: with_lane_slot_def has_or_left upd_bits flag_simps)

lemma with_lane_slot_has: "has (ru_present u) m \<Longrightarrow> has (ru_present (with_lane_slot r u)) m"
  by (simp add: with_lane_slot_def has_or_left)

lemma merged_present:
  "ru_present (rg_update_cache (rgd_update_cache_merge u g)) = ru_present (rg_update_cache g) OR ru_present u"
  by (simp add: rgd_update_cache_merge_def Let_def)

lemma has_mask: "has p m \<longleftrightarrow> p AND m \<noteq> 0"
  by (simp add: has_def)

text \<open>What an update leaves: the cache is merged with it, the lane slot looked up
  from its lane index.\<close>

definition update_applied :: "rgd_update \<Rightarrow> rgd \<Rightarrow> rgd \<Rightarrow> bool" where
  "update_applied upd g g' \<longleftrightarrow> rg_slot_cache g' = rg_slot_cache g \<and> rg_slot_to_iap_idx g' = rg_slot_to_iap_idx g \<and>
     adopted (Some upd) g g' \<and>
     rg_update_cache g' = rg_update_cache (rgd_update_cache_merge
        (if has (ru_present upd) RGD_UPD_LANE_INDEX
         then with_lane_slot (find_slot 0 (ru_lane_guidance_index upd) (rg_lane_slot_to_iap_idx g)) upd else upd) g)"

lemma merge_depends: "rg_update_cache a = rg_update_cache b \<Longrightarrow>
    rg_update_cache (rgd_update_cache_merge u a) = rg_update_cache (rgd_update_cache_merge u b)"
  by (simp add: rgd_update_cache_merge_def Let_def)

lemma update_op:
  assumes "rgd_wf n g" and "n + 18 < 2 ^ 32" and "bus_ok b"
  shows "\<exists>b' g'. write_bus_update_partial True (True, True, a3) upd (b, g) = Some (b', g') \<and>
    rgd_wf (n + 18) g' \<and> bus_ok b' \<and> rgd_flags g' = rgd_flags g \<and>
    (if ru_present upd AND RGD_UPD_WRITE_MASK = 0 then b' = b \<and> g' = g
     else update_applied upd g g' \<and> publishes a3 g' b b')"
proof (cases "ru_present upd AND RGD_UPD_WRITE_MASK = 0")
  case True
  then show ?thesis using assms rgd_wf_mono [OF assms(1), of "n + 18"] by (simp add: write_bus_update_partial_def)
next
  case False
  have n: "n + 1 < 2 ^ 32" "n + 1 + 17 < 2 ^ 32" and e: "n + 1 + 17 = n + 18" using assms(2) by simp_all
  obtain r g1 where l: "rgd_lane_slot_for_iap_index (ru_lane_guidance_index upd) False g = Some (r, g1)"
    "rgd_wf (n + 1) g1" "same_route g g1" "rg_current_list g1 = rg_current_list g"
    "rg_current_list_present g1 = rg_current_list_present g"
    using lane_request_wf [OF assms(1) n(1)] by blast
  have r: "r = find_slot 0 (ru_lane_guidance_index upd) (rg_lane_slot_to_iap_idx g)"
    using lane_lookup [OF assms(1) n(1), of "ru_lane_guidance_index upd"] l(1) by auto
  define u where "u = (if has (ru_present upd) RGD_UPD_LANE_INDEX then with_lane_slot r upd else upd)"
  define g2 where "g2 = (if has (ru_present upd) RGD_UPD_LANE_INDEX then g1 else g)"
  have wf: "rgd_wf (n + 1) (rgd_update_cache_merge u g2)"
    unfolding g2_def using merge_wf [OF l(2)] merge_wf [OF rgd_wf_mono [OF assms(1)], of "n + 1"] by simp
  have same: "same_route g g2" "rg_current_list g2 = rg_current_list g"
    "rg_current_list_present g2 = rg_current_list_present g"
    using l(3-5) by (simp_all add: same_route_def g2_def)
  have run: "write_bus_update_partial True (True, True, a3) upd (b, g) =
      write_bus_snapshot_from_cache True (True, True, a3) None None (Some u) (b, rgd_update_cache_merge u g2)"
    using False l(1) by (auto simp: write_bus_update_partial_def with_lane_slot_def u_def g2_def)
  have "has (ru_present u) RGD_UPD_WRITE_MASK"
    using False by (simp add: u_def has_mask [symmetric] with_lane_slot_has)
  then have nn: "\<not> nothing_to_publish None None (rgd_update_cache_merge u g2)"
    by (simp add: nothing_to_publish_def merged_present has_mask [symmetric] has_or_left)
  obtain b' g' where s: "write_bus_snapshot_from_cache True (True, True, a3) None None (Some u) (b, rgd_update_cache_merge u g2) = Some (b', g')"
    "rgd_wf (n + 1 + 17) g'" "bus_ok b'" "same_route (rgd_update_cache_merge u g2) g'"
    "adopted (Some u) (rgd_update_cache_merge u g2) g'" "publishes a3 g' b b'"
    using snapshot_effect [OF wf n(2) assms(3), of a3 None None "Some u"] nn by (auto simp: publishes_def)
  have "adopted (Some upd) g g'" using s(5) same by (simp add: adopted_def u_def split: if_splits)
  moreover have "rg_update_cache g' = rg_update_cache (rgd_update_cache_merge u g)"
    using s(4) same(1) merge_depends [of g2 g u] by (simp add: same_route_def)
  moreover have "rg_slot_cache g' = rg_slot_cache g" "rg_slot_to_iap_idx g' = rg_slot_to_iap_idx g"
    using s(4) same(1) by (simp_all add: same_route_def)
  ultimately have "update_applied upd g g'"
    unfolding update_applied_def u_def r by (intro conjI)
  moreover have "rgd_flags g' = rgd_flags g" using s(4) same(1) by (simp add: same_route_def)
  ultimately show ?thesis
    unfolding run s(1) if_not_P [OF False] using s(2,3,6) e by simp
qed

section \<open>Maneuvers\<close>

lemma set_list_update_all: "\<forall>m \<in> set xs. P m \<Longrightarrow> P y \<Longrightarrow> \<forall>m \<in> set (xs[k := y]). P m"
  using set_update_subset_insert by fast

lemma cache_put_wf:
  "rgd_wf n g \<Longrightarrow> publishable m \<Longrightarrow> rgd_wf n (g\<lparr> rg_slot_cache := (rg_slot_cache g)[k := m] \<rparr>)"
  using set_list_update_all [of "rg_slot_cache g" publishable m k]
  by (simp add: rgd_wf_def slots_ok_def lanes_table_ok_def)

lemma slot_cache_read:
  "rgd_wf n g \<Longrightarrow> k < MANEUVER_CACHE_SIZE \<Longrightarrow> rd8 (rg_slot_cache g) k = Some (rg_slot_cache g ! k)"
  "rgd_wf n g \<Longrightarrow> k < MANEUVER_CACHE_SIZE \<Longrightarrow> publishable (rg_slot_cache g ! k)"
  "rgd_wf n g \<Longrightarrow> k < MANEUVER_CACHE_SIZE \<Longrightarrow> wr8 (rg_slot_cache g) k x = Some ((rg_slot_cache g)[k := x])"
  by (simp_all add: rgd_wf_def slots_ok_def rd8_def wr8_def)

text \<open>The linked lanes are looked up and never copied.\<close>

lemma resolve_wf:
  assumes "rgd_wf n g" and "n + 1 < 2 ^ 32" and "k < MANEUVER_CACHE_SIZE"
  shows "\<exists>q c. rgd_resolve_linked_lanes k g = Some (g\<lparr> rg_slot_seq := q, rg_seq_counter := c \<rparr>) \<and>
    rgd_wf (n + 1) (g\<lparr> rg_slot_seq := q, rg_seq_counter := c \<rparr>)"
proof -
  let ?i = "rm_linked_lane_guidance_index (rg_slot_cache g ! k)"
  let ?k = "rgd_resolve_linked_lanes k g"
  have id: "g\<lparr> rg_slot_seq := rg_slot_seq g, rg_seq_counter := rg_seq_counter g \<rparr> = g" by simp
  have keep: "rgd_wf (n + 1) g" by (rule rgd_wf_mono [OF assms(1)]) simp
  have ok: "slots_ok g" using assms(1) by (simp add: rgd_wf_def)
  show ?thesis
  proof (cases "find_slot 0 ?i (rg_slot_to_iap_idx g)")
    case None
    then have "rgd_slot_for_iap_index ?i False g = Some (None, g)"
      using slot_for_branches(2) [OF ok] by (simp add: find_slot_None)
    then have "?k = Some g"
      by (simp add: rgd_resolve_linked_lanes_def slot_cache_read(1) [OF assms(1,3)])
    then show ?thesis using keep id by metis
  next
    case (Some s)
    have r: "rgd_slot_for_iap_index ?i False g = Some (Some s, slot_touched s g)"
      by (rule slot_for_branches(1) [OF ok Some])
    have s: "s < MANEUVER_CACHE_SIZE" by (rule find_slot_lt [OF ok Some])
    have wf: "rgd_wf (n + 1) (slot_touched s g)"
      using slot_request_wf [OF assms(1,2), of ?i False] r by auto
    have "\<not> has (rm_present (rg_slot_cache g ! s)) RGD_MAN_LANE_GUIDANCE"
      using slot_cache_read(2) [OF assms(1) s] by (simp add: publishable_def)
    then have "?k = Some g \<or> ?k = Some (slot_touched s g)"
      using r slot_cache_read(1) [OF wf s]
      by (simp add: rgd_resolve_linked_lanes_def slot_cache_read(1) [OF assms(1,3)])
    then show ?thesis
    proof
      assume "?k = Some g"
      then show ?thesis using keep id by metis
    next
      assume "?k = Some (slot_touched s g)"
      then show ?thesis using wf unfolding slot_touched_def by blast
    qed
  qed
qed

definition maneuver_accepted :: "rgd_maneuver \<Rightarrow> rgd \<Rightarrow> bool" where
  "maneuver_accepted man g \<longleftrightarrow> has (rm_present man) RGD_MAN_INDEX \<and>
     rm_present man AND RGD_MAN_WRITE_MASK \<noteq> 0 \<and> rgd_can_process_maneuver_index (rm_index man) g"

lemma cache_maneuver_wf:
  assumes "rgd_wf n g" and "n + 2 < 2 ^ 32" and "publishable man"
  shows "\<exists>r g'. cache_maneuver man g = Some (r, g') \<and> rgd_wf (n + 2) g' \<and>
    (if maneuver_accepted man g then
       (\<exists>k. r = Some k \<and> k < MANEUVER_CACHE_SIZE \<and> rg_slot_cache g' ! k = man \<and>
         (rm_index man \<noteq> EMPTY \<longrightarrow> rgd_find_slot_for_iap_index_no_touch (rm_index man) g' = Some k)) \<and>
       rg_current_list g' = rg_current_list g \<and> rg_current_list_present g' = rg_current_list_present g \<and>
       rg_update_cache g' = rg_update_cache g \<and> rgd_flags g' = rgd_flags g
     else r = None \<and> g' = g)"
proof (cases "maneuver_accepted man g")
  case False
  then have "cache_maneuver man g = Some (None, g)"
    by (auto simp: cache_maneuver_def maneuver_accepted_def)
  then show ?thesis using False rgd_wf_mono [OF assms(1), of "n + 2"] by simp
next
  case True
  have n: "n + 1 < 2 ^ 32" "n + 1 + 1 < 2 ^ 32" and e: "n + 1 + 1 = n + 2" using assms(2) by simp_all
  obtain k g1 where q: "rgd_slot_for_iap_index (rm_index man) True g = Some (Some k, g1)" "rgd_wf (n + 1) g1"
    "k < MANEUVER_CACHE_SIZE"
    "rm_index man \<noteq> EMPTY \<longrightarrow> rgd_find_slot_for_iap_index_no_touch (rm_index man) g1 = Some k"
    using slot_request_wf [OF assms(1) n(1), of "rm_index man" True] by fastforce
  have f: "rg_current_list g1 = rg_current_list g" "rg_current_list_present g1 = rg_current_list_present g"
    "rg_update_cache g1 = rg_update_cache g"
    by (subst slot_request_frame(1) [OF q(1)], simp)+
  have flags: "rgd_flags g1 = rgd_flags g" by (subst slot_request_frame(1) [OF q(1)]) (simp add: rgd_flags_def)
  let ?g = "g1\<lparr> rg_slot_cache := (rg_slot_cache g1)[k := man] \<rparr>"
  obtain qs c where g2: "rgd_resolve_linked_lanes k ?g = Some (?g\<lparr> rg_slot_seq := qs, rg_seq_counter := c \<rparr>)"
    "rgd_wf (n + 1 + 1) (?g\<lparr> rg_slot_seq := qs, rg_seq_counter := c \<rparr>)"
    using resolve_wf [OF cache_put_wf [OF q(2) assms(3)] n(2) q(3)] by blast
  have l: "k < length (rg_slot_cache g1)" using q(2,3) by (simp add: rgd_wf_def slots_ok_def)
  have p: "rm_present man \<noteq> 0" "\<not> has (rm_present man) RGD_MAN_LANE_GUIDANCE"
    using True assms(3) by (auto simp: maneuver_accepted_def publishable_def)
  have "cache_maneuver man g = Some (Some k, ?g\<lparr> rg_slot_seq := qs, rg_seq_counter := c \<rparr>)"
    using True p(1) q(1) l g2(1) p(2)
    by (simp add: cache_maneuver_def maneuver_accepted_def rd8_def wr8_def)
  then show ?thesis
    using True q(3,4) g2(2) f l flags unfolding e by (simp add: rgd_find_slot_for_iap_index_no_touch_def rgd_flags_def)
qed

lemma maneuver_op:
  assumes "rgd_wf n g" and "n + 19 < 2 ^ 32" and "bus_ok b" and "publishable man"
  shows "\<exists>b' g'. write_bus_maneuver_partial True (True, True, a3) man (b, g) = Some (b', g') \<and>
    rgd_wf (n + 19) g' \<and> bus_ok b' \<and> rgd_flags g' = rgd_flags g \<and>
    (if maneuver_accepted man g then
       (\<exists>k < MANEUVER_CACHE_SIZE. rg_slot_cache g' ! k = man \<and>
         (rm_index man \<noteq> EMPTY \<longrightarrow> rgd_find_slot_for_iap_index_no_touch (rm_index man) g' = Some k)) \<and>
       rg_current_list g' = rg_current_list g \<and> rg_current_list_present g' = rg_current_list_present g \<and>
       rg_update_cache g' = rg_update_cache g \<and> publishes a3 g' b b'
     else b' = b \<and> g' = g)"
proof (cases "maneuver_accepted man g")
  case False
  have "n + 2 < 2 ^ 32" using assms(2) by simp
  from cache_maneuver_wf [OF assms(1) this assms(4)] have "cache_maneuver man g = Some (None, g)"
    using False by auto
  then show ?thesis
    using False assms(3) rgd_wf_mono [OF assms(1), of "n + 19"] by (simp add: write_bus_maneuver_partial_def)
next
  case True
  have n: "n + 2 < 2 ^ 32" "n + 2 + 17 < 2 ^ 32" and e: "n + 2 + 17 = n + 19" using assms(2) by simp_all
  obtain k g1 where c: "cache_maneuver man g = Some (Some k, g1)" "rgd_wf (n + 2) g1" "k < MANEUVER_CACHE_SIZE"
    "rg_slot_cache g1 ! k = man" "rm_index man \<noteq> EMPTY \<longrightarrow> rgd_find_slot_for_iap_index_no_touch (rm_index man) g1 = Some k"
    "rg_current_list g1 = rg_current_list g" "rg_current_list_present g1 = rg_current_list_present g"
    "rg_update_cache g1 = rg_update_cache g" "rgd_flags g1 = rgd_flags g"
    using cache_maneuver_wf [OF assms(1) n(1) assms(4)] True by auto
  have nn: "\<not> nothing_to_publish (Some k) (Some man) g1"
    using True c(3) by (auto simp: nothing_to_publish_def maneuver_accepted_def)
  obtain b' g' where s: "write_bus_snapshot_from_cache True (True, True, a3) (Some k) (Some man) None (b, g1) = Some (b', g')"
    "rgd_wf (n + 2 + 17) g'" "bus_ok b'" "same_route g1 g'" "adopted None g1 g'" "publishes a3 g' b b'"
    using snapshot_effect [OF c(2) n(2) assms(3), of a3 "Some k" "Some man" None] nn
    by (auto simp: publishes_def)
  have "write_bus_maneuver_partial True (True, True, a3) man (b, g) = Some (b', g')"
    using c(1,4) slot_cache_read(1) [OF c(2,3)] s(1) by (simp add: write_bus_maneuver_partial_def)
  then show ?thesis
    using True s c unfolding e
    by (auto simp: same_route_def adopted_def rgd_find_slot_for_iap_index_no_touch_def)
qed

section \<open>Lane guidance\<close>

text \<open>A lane message is publishable when it is not a single lane without angles.\<close>

definition lane_publishable :: "rgd_lane_guidance \<Rightarrow> bool" where
  "lane_publishable lane \<longleftrightarrow> length (rl_description lane) \<le> 63 \<and>
     (\<forall>l \<in> set (rl_lanes lane). ln_description l = []) \<and>
     \<not> (length (rl_lanes lane) = 1 \<and> ln_angles (hd (rl_lanes lane)) = [])"

definition lane_entry :: "rgd_lane_guidance \<Rightarrow> u16 \<Rightarrow> rgd_lane_guidance" where
  "lane_entry lane i = describe_lanes (lane\<lparr> rl_lane_guidance_index := i,
     rl_present := rl_present lane OR (RGD_LANE_GUIDANCE_INDEX OR RGD_LANE_INFORMATIONS) \<rparr>)"

lemma lane_entry_ok: "lane_publishable lane \<Longrightarrow> lane_texts_ok (rl_lanes (lane_entry lane i))"
  by (cases "rl_lanes lane")
    (auto simp: lane_publishable_def lane_entry_def describe_lanes_def lane_texts_ok_def)

lemma lane_entry_bits:
  "rl_present (lane_entry lane i) AND (RGD_LANE_GUIDANCE_INDEX OR RGD_LANE_INFORMATIONS) =
     RGD_LANE_GUIDANCE_INDEX OR RGD_LANE_INFORMATIONS"
  by (simp add: lane_entry_def describe_lanes_def bit_eq_iff bit_simps) blast

lemma lane_put_wf:
  "rgd_wf n g \<Longrightarrow> lane_texts_ok (rl_lanes l) \<Longrightarrow> rgd_wf n (g\<lparr> rg_lane_cache := (rg_lane_cache g)[k := l] \<rparr>)"
  using set_list_update_all [of "rg_lane_cache g" "\<lambda>l. lane_texts_ok (rl_lanes l)" l k]
  by (simp add: rgd_wf_def slots_ok_def lanes_table_ok_def)

lemma cache_lane_wf:
  assumes "rgd_wf n g" and "n + 1 < 2 ^ 32" and "lane_publishable lane"
  shows "\<exists>r g'. cache_lane_guidance lane i g = Some (r, g') \<and> rgd_wf (n + 1) g' \<and> same_route g g' \<and>
    rg_current_list g' = rg_current_list g \<and> rg_current_list_present g' = rg_current_list_present g \<and>
    (if has (rl_present lane) RGD_LANE_INFORMATIONS \<and> i \<noteq> EMPTY
     then \<exists>k. r = Some k \<and> k < MANEUVER_CACHE_SIZE \<and> rg_lane_cache g' ! k = lane_entry lane i
     else r = None \<and> g' = g)"
proof (cases "has (rl_present lane) RGD_LANE_INFORMATIONS \<and> i \<noteq> EMPTY")
  case False
  then show ?thesis
    using rgd_wf_mono [OF assms(1), of "n + 1"] by (auto simp: cache_lane_guidance_def EMPTY_def same_route_def)
next
  case True
  obtain k g1 where q: "rgd_lane_slot_for_iap_index i True g = Some (Some k, g1)" "rgd_wf (n + 1) g1"
    "k < MANEUVER_CACHE_SIZE" "same_route g g1" "rg_current_list g1 = rg_current_list g"
    "rg_current_list_present g1 = rg_current_list_present g"
    using lane_request_wf [OF assms(1,2), of i True] by fastforce
  let ?g = "g1\<lparr> rg_lane_cache := (rg_lane_cache g1)[k := lane_entry lane i] \<rparr>"
  have l: "k < length (rg_lane_cache g1)" using q(2,3) by (simp add: rgd_wf_def lanes_table_ok_def)
  have r: "cache_lane_guidance lane i g = Some (Some k, ?g)"
    using True q(1) l by (simp add: cache_lane_guidance_def wr8_def EMPTY_def lane_entry_def)
  have "same_route g ?g" using q(4) by (simp add: same_route_def rgd_flags_def)
  then show ?thesis
    using True q(3,5,6) l lane_put_wf [OF q(2) lane_entry_ok [OF assms(3)]] unfolding r by simp
qed

lemma lane_slot_update_wf:
  assumes "rgd_wf n g" and "n + 1 < 2 ^ 32"
  shows "\<exists>upd g'. lane_slot_update i slot g = Some (upd, g') \<and> rgd_wf (n + 1) g' \<and> same_route g g' \<and>
    rg_current_list g' = rg_current_list g \<and> rg_current_list_present g' = rg_current_list_present g \<and>
    rg_lane_cache g' = rg_lane_cache g \<and>
    (upd \<noteq> None \<longleftrightarrow> i \<noteq> EMPTY \<and> has (ru_present (rg_update_cache g)) RGD_UPD_LANE_INDEX \<and>
       ru_lane_guidance_index (rg_update_cache g) = i) \<and>
    (\<forall>u. upd = Some u \<longrightarrow> ru_present u = RGD_UPD_LANE_SLOT)"
proof -
  obtain g1 where q: "rgd_lane_slot_for_iap_index i False g = Some (find_slot 0 i (rg_lane_slot_to_iap_idx g), g1)"
    "rgd_wf (n + 1) g1" "aged g g1"
    using lane_lookup [OF assms] by blast
  have keep: "rgd_wf (n + 1) g" by (rule rgd_wf_mono [OF assms(1)]) simp
  show ?thesis
    using q keep aged_sel [OF q(3)] aged_flags [OF q(3)]
    by (cases "i = EMPTY"; cases slot) (simp_all add: lane_slot_update_def EMPTY_def same_route_def)
qed

definition lane_stored :: "rgd_lane_guidance \<Rightarrow> rgd \<Rightarrow> bool" where
  "lane_stored lane g \<longleftrightarrow> has (rl_present lane) RGD_LANE_INFORMATIONS \<and> lane_message_index lane g \<noteq> EMPTY"

definition lane_shown :: "rgd_lane_guidance \<Rightarrow> rgd \<Rightarrow> bool" where
  "lane_shown lane g \<longleftrightarrow> has (rl_present lane) (RGD_LANE_GUIDANCE_INDEX OR RGD_LANE_INFORMATIONS) \<and>
     lane_message_index lane g \<noteq> EMPTY \<and>
     has (ru_present (rg_update_cache g)) RGD_UPD_LANE_INDEX \<and>
     ru_lane_guidance_index (rg_update_cache g) = lane_message_index lane g"

lemma lane_slot_masked: "has RGD_UPD_LANE_SLOT RGD_UPD_WRITE_MASK" "\<not> has RGD_UPD_LANE_SLOT RGD_UPD_MANEUVER_LIST"
  by (simp_all add: RGD_UPD_WRITE_MASK_def has_or_right upd_bits flag_simps)

lemma lane_op:
  assumes "rgd_wf n g" and "n + 19 < 2 ^ 32" and "bus_ok b" and "lane_publishable lane"
  shows "\<exists>b' g'. write_bus_lane_guidance_partial True (True, True, a3) lane (b, g) = Some (b', g') \<and>
    rgd_wf (n + 19) g' \<and> bus_ok b' \<and> rgd_flags g' = rgd_flags g \<and>
    rg_slot_cache g' = rg_slot_cache g \<and> rg_slot_to_iap_idx g' = rg_slot_to_iap_idx g \<and>
    rg_current_list g' = rg_current_list g \<and> rg_current_list_present g' = rg_current_list_present g \<and>
    (if lane_stored lane g \<or> lane_shown lane g then publishes a3 g' b b' else b' = b)"
proof (cases "rl_present lane AND (RGD_LANE_GUIDANCE_INDEX OR RGD_LANE_INFORMATIONS) = 0")
  case True
  then have "\<not> has (rl_present lane) (RGD_LANE_GUIDANCE_INDEX OR RGD_LANE_INFORMATIONS)" by (simp add: has_def)
  then show ?thesis
    using True assms rgd_wf_mono [OF assms(1), of "n + 19"]
    by (simp add: write_bus_lane_guidance_partial_def lane_stored_def lane_shown_def has_or_right)
next
  case False
  let ?i = "lane_message_index lane g"
  have n: "n + 1 < 2 ^ 32" "n + 1 + 1 < 2 ^ 32" "n + 1 + 1 + 17 < 2 ^ 32" and e: "n + 1 + 1 + 17 = n + 19"
    using assms(2) by simp_all
  obtain r g1 where c: "cache_lane_guidance lane ?i g = Some (r, g1)" "rgd_wf (n + 1) g1" "same_route g g1"
    "rg_current_list g1 = rg_current_list g" "rg_current_list_present g1 = rg_current_list_present g"
    "if lane_stored lane g then \<exists>k. r = Some k \<and> k < MANEUVER_CACHE_SIZE \<and> rg_lane_cache g1 ! k = lane_entry lane ?i
     else r = None \<and> g1 = g"
    using cache_lane_wf [OF assms(1) n(1) assms(4), of ?i] by (auto simp: lane_stored_def)
  obtain upd g2 where u: "lane_slot_update ?i r g1 = Some (upd, g2)" "rgd_wf (n + 1 + 1) g2" "same_route g1 g2"
    "rg_current_list g2 = rg_current_list g1" "rg_current_list_present g2 = rg_current_list_present g1"
    "rg_lane_cache g2 = rg_lane_cache g1"
    "upd \<noteq> None \<longleftrightarrow> ?i \<noteq> EMPTY \<and> has (ru_present (rg_update_cache g1)) RGD_UPD_LANE_INDEX \<and>
       ru_lane_guidance_index (rg_update_cache g1) = ?i"
    "\<forall>u. upd = Some u \<longrightarrow> ru_present u = RGD_UPD_LANE_SLOT"
    using lane_slot_update_wf [OF c(2) n(2), of ?i r] by (elim exE conjE) blast
  define g3 where "g3 = (case upd of None \<Rightarrow> g2 | Some u \<Rightarrow> rgd_update_cache_merge u g2)"
  have wf3: "rgd_wf (n + 1 + 1) g3" using u(2) merge_wf [OF u(2)] by (simp add: g3_def split: option.split)
  have f3: "rg_slot_cache g3 = rg_slot_cache g" "rg_slot_to_iap_idx g3 = rg_slot_to_iap_idx g"
    "rg_current_list g3 = rg_current_list g" "rg_current_list_present g3 = rg_current_list_present g"
    "rgd_flags g3 = rgd_flags g"
    using c(3-5) u(3-5) by (simp_all add: g3_def same_route_def split: option.split)
  have l3: "rg_lane_cache g3 = rg_lane_cache g1"
    using u(6) by (simp add: g3_def rgd_update_cache_merge_def Let_def split: option.split)
  have us: "upd \<noteq> None \<longleftrightarrow> lane_shown lane g"
    using u(7) c(3) False by (simp add: lane_shown_def same_route_def has_def)
  have snap: "?thesis" if nn: "\<not> nothing_to_publish sl man g3"
    and run: "write_bus_lane_guidance_partial True (True, True, a3) lane (b, g) =
      write_bus_snapshot_from_cache True (True, True, a3) sl man upd (b, g3)"
    and pub: "lane_stored lane g \<or> lane_shown lane g" for sl man
  proof -
    obtain b' g' where s: "write_bus_snapshot_from_cache True (True, True, a3) sl man upd (b, g3) = Some (b', g')"
      "rgd_wf (n + 1 + 1 + 17) g'" "bus_ok b'" "same_route g3 g'" "adopted upd g3 g'" "publishes a3 g' b b'"
      using snapshot_effect [OF wf3 n(3) assms(3), of a3 sl man upd] nn by (auto simp: publishes_def)
    have "rg_current_list g' = rg_current_list g3 \<and> rg_current_list_present g' = rg_current_list_present g3"
      using s(5) u(8) lane_slot_masked(2) by (cases upd) (simp_all add: adopted_def)
    then show ?thesis unfolding run s(1) using s f3 pub e by (simp add: same_route_def)
  qed
  show ?thesis
  proof (cases r)
    case (Some k)
    then have st: "lane_stored lane g" "k < MANEUVER_CACHE_SIZE" "rg_lane_cache g1 ! k = lane_entry lane ?i"
      using c(6) by (simp_all split: if_splits)
    have "rgd_lane_slot_has_data k g3"
      using st lane_entry_bits by (simp add: rgd_lane_slot_has_data_def l3)
    then have nn: "\<not> nothing_to_publish (Some k) (Some (rg_slot_cache g3 ! k)) g3"
      using st(2) unfolding nothing_to_publish_def by blast
    have "write_bus_lane_guidance_partial True (True, True, a3) lane (b, g) =
        write_bus_snapshot_from_cache True (True, True, a3) (Some k) (Some (rg_slot_cache g3 ! k)) upd (b, g3)"
      using False c(1) u(1) Some slot_cache_read(1) [OF wf3 st(2)]
      by (simp add: write_bus_lane_guidance_partial_def Let_def g3_def [symmetric])
    from snap [OF nn this] st(1) show ?thesis by blast
  next
    case None
    then have ns: "\<not> lane_stored lane g" using c(6) by (auto split: if_splits)
    show ?thesis
    proof (cases upd)
      case None
      have "write_bus_lane_guidance_partial True (True, True, a3) lane (b, g) = Some (b, g3)"
        using False c(1) u(1) \<open>r = None\<close> None
        by (simp add: write_bus_lane_guidance_partial_def Let_def g3_def)
      then show ?thesis
        using ns us None f3 assms(3) rgd_wf_mono [OF wf3, of "n + 19"] by simp
    next
      case (Some x)
      have "has (ru_present (rg_update_cache g3)) RGD_UPD_WRITE_MASK"
        using Some u(8) lane_slot_masked(1) by (simp add: g3_def merged_present has_or_left)
      then have nn: "\<not> nothing_to_publish None None g3" by (simp add: nothing_to_publish_def has_def)
      have "write_bus_lane_guidance_partial True (True, True, a3) lane (b, g) =
          write_bus_snapshot_from_cache True (True, True, a3) None None upd (b, g3)"
        using False c(1) u(1) \<open>r = None\<close> Some
        by (simp add: write_bus_lane_guidance_partial_def Let_def g3_def)
      from snap [OF nn this] us Some show ?thesis by simp
    qed
  qed
qed

section \<open>Properties\<close>

lemma rgd_reset_wf: "rgd_wf 0 rgd_reset"
  using rgd_reset_ok rgd_reset_distinct
  by (simp add: rgd_wf_def)
    (simp add: rgd_reset_def rgd_maneuver_map_reset_def rgd0_def zero_update_def zero_maneuver_def
      zero_lane_guidance_def publishable_def lane_texts_ok_def)

text \<open>Property C4. With memory available, publishing a route guidance update never
  faults on a well formed state and keeps it well formed.  An update without a field of interest
  changes nothing; any other is merged into the cache (the maneuver list is
  replaced exactly when the update carries one), and afterwards the Java side
  reads, from the one cached frame, exactly the fields of the new state and
  nothing else: each cached value of the update, the slots of the displayed
  maneuvers whose type is known, every stored value of each of them, and the
  32 lane slots.  Only when the text of these fields exceeds 64 KB does the old
  frame stay.\<close>

theorem update_published:
  assumes "rgd_wf n g" and "n + 18 < 2 ^ 32" and "bus_ok b"
  shows "\<exists>b' g'. write_bus_update_partial True (True, True, a3) upd (b, g) = Some (b', g') \<and>
    rgd_wf (n + 18) g' \<and> bus_ok b' \<and>
    (if ru_present upd AND RGD_UPD_WRITE_MASK = 0 then b' = b \<and> g' = g
     else update_applied upd g g' \<and>
       (\<exists>k. lane_slot_named k g' \<and>
         (if length (rgd_text (state_fields k g')) \<le> BUS_TEXT_BUILDER_LARGE_CAP
          then java_reads b' = Some (read_pairs (state_fields k g')) else b' = b)))"
  using update_op [OF assms, of a3 upd] publishes_read by (metis (no_types, lifting))

lemma update_published_witness:
  "\<exists>b' g'. write_bus_update_partial True (True, True, True)
       (zero_update\<lparr> ru_present := RGD_UPD_ROUTE_STATE, ru_route_state := 1 \<rparr>) (bus0, rgd_reset) = Some (b', g') \<and>
     rgd_wf 18 g' \<and> rg_current_list g' = []"
proof -
  let ?u = "zero_update\<lparr> ru_present := RGD_UPD_ROUTE_STATE, ru_route_state := 1 \<rparr>"
  have n: "0 + 18 < (2 ^ 32 :: nat)" and e: "0 + 18 = (18 :: nat)" by simp_all
  have u: "ru_present ?u AND RGD_UPD_WRITE_MASK \<noteq> 0" "\<not> has (ru_present ?u) RGD_UPD_MANEUVER_LIST"
    by code_simp+
  have l: "rg_current_list rgd_reset = []" by (simp add: rgd_reset_def rgd_maneuver_map_reset_def)
  from update_published [OF rgd_reset_wf n bus_ok_bus0, of True ?u] show ?thesis
    unfolding e if_not_P [OF u(1)] update_applied_def adopted_def option.case if_not_P [OF u(2)] using l by metis
qed

text \<open>Property C22. With memory available, publishing a maneuver whose junction
  angles, if given, are not empty never faults on a well formed state and keeps it well formed.  An
  accepted maneuver is stored whole in one of the 32 slots, where its index is
  then found, the update cache and the displayed list stay, and the Java side
  reads exactly the fields of the new state (unless their text exceeds 64 KB:
  then the old frame stays); a rejected one (no index, no field of interest, no
  update seen, or behind the displayed list) changes nothing.\<close>

theorem maneuver_published:
  assumes "rgd_wf n g" and "n + 19 < 2 ^ 32" and "bus_ok b" and "publishable man"
  shows "\<exists>b' g'. write_bus_maneuver_partial True (True, True, a3) man (b, g) = Some (b', g') \<and>
    rgd_wf (n + 19) g' \<and> bus_ok b' \<and>
    (if maneuver_accepted man g then
       (\<exists>k < MANEUVER_CACHE_SIZE. rg_slot_cache g' ! k = man \<and>
         (rm_index man \<noteq> EMPTY \<longrightarrow> rgd_find_slot_for_iap_index_no_touch (rm_index man) g' = Some k)) \<and>
       rg_current_list g' = rg_current_list g \<and> rg_current_list_present g' = rg_current_list_present g \<and>
       rg_update_cache g' = rg_update_cache g \<and>
       (\<exists>k. lane_slot_named k g' \<and>
         (if length (rgd_text (state_fields k g')) \<le> BUS_TEXT_BUILDER_LARGE_CAP
          then java_reads b' = Some (read_pairs (state_fields k g')) else b' = b))
     else b' = b \<and> g' = g)"
  using maneuver_op [OF assms, of a3] publishes_read by (metis (no_types, lifting))

lemma maneuver_published_witness:
  "\<exists>b' g'. write_bus_maneuver_partial True (True, True, True)
       (zero_maneuver\<lparr> rm_present := RGD_MAN_INDEX OR RGD_MAN_TYPE, rm_index := 4 \<rparr>)
       (bus0, rgd_reset\<lparr> rg_have_update := True \<rparr>) = Some (b', g') \<and>
     (\<exists>k. rgd_find_slot_for_iap_index_no_touch 4 g' = Some k)"
proof -
  let ?m = "zero_maneuver\<lparr> rm_present := RGD_MAN_INDEX OR RGD_MAN_TYPE, rm_index := 4 \<rparr>"
  let ?g = "rgd_reset\<lparr> rg_have_update := True \<rparr>"
  have n: "0 + 19 < (2 ^ 32 :: nat)" by simp
  have wf: "rgd_wf 0 ?g" using rgd_reset_wf by (simp add: rgd_wf_def slots_ok_def lanes_table_ok_def)
  have p: "publishable ?m" by code_simp
  have a: "maneuver_accepted ?m ?g" by code_simp
  have "rm_index ?m \<noteq> EMPTY" "rm_index ?m = 4" by code_simp+
  with maneuver_published [OF wf n bus_ok_bus0 p, of True] show ?thesis unfolding if_P [OF a] by metis
qed

text \<open>A snapshot whose fields cannot be formed.\<close>

lemma snapshot_unwritten:
  assumes "snd (rgd_prune_stale_lane_cache g) = g"
    and "man = Some m" and "slot = Some k" and "rm_present m \<noteq> 0 \<or> rgd_lane_slot_has_data k g" and "k < MANEUVER_CACHE_SIZE"
    and "snapshot_fields (ru_present (rg_update_cache g) AND RGD_UPD_WRITE_MASK) upd g = None"
  shows "write_bus_snapshot_from_cache True al slot man upd (b, g) = None"
proof -
  obtain p where p: "rgd_prune_stale_lane_cache g = (p, g)" using assms(1) by (metis prod.collapse)
  have "rm_present m \<noteq> 0 \<or> list_ex (\<lambda>i. rgd_lane_slot_has_data i g) [0 ..< MANEUVER_CACHE_SIZE]"
    using assms(4,5) has_data_iff [of g] by blast
  then show ?thesis
    using assms(2,3,5,6) p by (auto simp: write_bus_snapshot_from_cache_def Let_def bus_text_begin_heap_def)
qed

definition one_lane_message :: bytes where
  "one_lane_message = replicate 6 0 @ [0, 6, 0, 1, 0, 7] @ [0, 10, 0, 2, 0, 6, 0, 0, 0, 0]"

definition one_lane :: rgd_lane_guidance where
  "one_lane = \<lparr> rl_present = 6, rl_component_ids = [], rl_lane_guidance_index = 7,
     rl_lanes = [\<lparr> ln_position = 0, ln_direction = 1000, ln_status = 0, ln_angles = [], ln_description = [] \<rparr>],
     rl_description = [] \<rparr>"

definition one_lane_state :: rgd where
  "one_lane_state = rgd_reset\<lparr> rg_lane_slot_to_iap_idx := 7 # replicate 31 EMPTY,
     rg_lane_slot_seq := 1 # replicate 31 0, rg_lane_seq_counter := 1,
     rg_lane_cache := one_lane # replicate 31 zero_lane_guidance \<rparr>"

definition no_angles_message :: bytes where
  "no_angles_message = replicate 6 0 @ [0, 6, 0, 1, 0, 7] @ [0, 5, 0, 3, 1] @ [0, 4, 0, 10]"

definition no_angles :: rgd_maneuver where
  "no_angles = zero_maneuver\<lparr> rm_present := 3082, rm_index := 7, rm_maneuver_type := 1, rm_exit_angle := 1000,
     rm_linked_lane_guidance_index := 65535 \<rparr>"

definition awaiting_7 :: rgd where
  "awaiting_7 = rgd_reset\<lparr> rg_have_update := True, rg_current_list_present := True, rg_current_list := [7] \<rparr>"

definition no_angles_state :: rgd where
  "no_angles_state = awaiting_7\<lparr> rg_slot_to_iap_idx := 7 # replicate 31 EMPTY,
     rg_slot_seq := 1 # replicate 31 0, rg_seq_counter := 1, rg_slot_ver := 1 # replicate 31 0, rg_ver_counter := 1,
     rg_slot_cache := no_angles # replicate 31 zero_maneuver \<rparr>"

lemma one_lane_run:
  "rgd_parse_lane_guidance one_lane_message (Some 0) 22 = Some one_lane"
  "rl_present one_lane AND (RGD_LANE_GUIDANCE_INDEX OR RGD_LANE_INFORMATIONS) \<noteq> 0"
  "lane_message_index one_lane rgd_reset = 7"
  "cache_lane_guidance one_lane 7 rgd_reset = Some (Some 0, one_lane_state)"
  "lane_slot_update 7 (Some 0) one_lane_state = Some (None, one_lane_state)"
  "rd8 (rg_slot_cache one_lane_state) 0 = Some zero_maneuver"
  "snd (rgd_prune_stale_lane_cache one_lane_state) = one_lane_state"
  "rgd_lane_slot_has_data 0 one_lane_state"
  "snapshot_fields (ru_present (rg_update_cache one_lane_state) AND RGD_UPD_WRITE_MASK) None one_lane_state = None"
  by code_simp+

lemma no_angles_run:
  "rgd_parse_maneuver no_angles_message (Some 0) 21 = Some no_angles"
  "cache_maneuver no_angles awaiting_7 = Some (Some 0, no_angles_state)"
  "rd8 (rg_slot_cache no_angles_state) 0 = Some no_angles"
  "rm_present no_angles \<noteq> 0"
  "snd (rgd_prune_stale_lane_cache no_angles_state) = no_angles_state"
  "snapshot_fields (ru_present (rg_update_cache no_angles_state) AND RGD_UPD_WRITE_MASK) None no_angles_state = None"
  by code_simp+

text \<open>Property C33. Two texts are published although nothing was written to their
  buffer: the angles of a lane entry with a single lane that has none, and the
  junction angles of a displayed maneuver whose JunctionAngles TLV is empty.
  Both come from messages that the parsers accept.\<close>

theorem unwritten_text_published:
  "(\<exists>lane. rgd_parse_lane_guidance one_lane_message (Some 0) 22 = Some lane \<and>
      (\<forall>b. write_bus_lane_guidance_partial True (True, True, True) lane (b, rgd_reset) = None)) \<and>
   (\<exists>man. rgd_parse_maneuver no_angles_message (Some 0) 21 = Some man \<and>
      (\<forall>b. write_bus_maneuver_partial True (True, True, True) man (b, awaiting_7) = None))"
proof -
  have k: "0 < MANEUVER_CACHE_SIZE" by (simp add: MANEUVER_CACHE_SIZE_def)
  have 1: "write_bus_snapshot_from_cache True (True, True, True) (Some 0) (Some zero_maneuver) None (b, one_lane_state) = None" for b
    by (rule snapshot_unwritten [OF one_lane_run(7) refl refl _ k one_lane_run(9)]) (simp add: one_lane_run(8))
  have 2: "write_bus_snapshot_from_cache True (True, True, True) (Some 0) (Some no_angles) None (b, no_angles_state) = None" for b
    by (rule snapshot_unwritten [OF no_angles_run(5) refl refl _ k no_angles_run(6)]) (simp add: no_angles_run(4))
  have "write_bus_lane_guidance_partial True (True, True, True) one_lane (b, rgd_reset) = None" for b
    using one_lane_run(2) by (simp add: write_bus_lane_guidance_partial_def Let_def one_lane_run(3,4,5,6) 1)
  moreover have "write_bus_maneuver_partial True (True, True, True) no_angles (b, awaiting_7) = None" for b
    by (simp add: write_bus_maneuver_partial_def no_angles_run(2,3) 2)
  ultimately show ?thesis using one_lane_run(1) no_angles_run(1) by blast
qed

end
