(* ===== verification/Rgd_Hook.thy ===== *)
theory Rgd_Hook
  imports Rgd_Operations
begin

text \<open>
  c_hook/routeguidance/rgd_hook.c, the module proper: the framework's callbacks
  (messages, Identify, transport, events), the debounce of route ends with its
  1 Hz tick, the requests sent to the phone and the lifecycle.

  The state is the framework core and the module's state.  What the host
  decides is in the record rgd_env: the monotonic clock, which allocations
  succeed, what realloc and malloc leave in the bytes they do not define, and
  the transport.  The tick runs on the bus timer thread; it is given as its
  two parts, the claim under the debounce lock and the send after it, and as
  their composition.  Log output is not modelled.
\<close>

record rgd_env =
  re_now :: u64
  re_heap :: bool
  re_al :: alloc3
  re_inject_alloc :: bool
  re_realloc :: bool
  re_malloc :: bool
  re_junk :: "nat \<Rightarrow> u8"
  re_ts :: transport

type_synonym rgd_sys = "fw_core \<times> rgd"

definition ROUTE_ZERO_NORMAL_GRACE_MS :: u64 where "ROUTE_ZERO_NORMAL_GRACE_MS = 800"

definition RGD_START_TLV_COMPONENT_ID :: u16 where "RGD_START_TLV_COMPONENT_ID = 0x0000"
definition RGD_START_TLV_SOURCE_NAME :: u16 where "RGD_START_TLV_SOURCE_NAME = 0x0001"
definition RGD_START_TLV_SOURCE_SUPPORTS_RG :: u16 where "RGD_START_TLV_SOURCE_SUPPORTS_RG = 0x0002"
definition RGD_START_TLV_SUPPORTS_EXIT_INFO :: u16 where "RGD_START_TLV_SUPPORTS_EXIT_INFO = 0x0003"

text \<open>The number that stands for rgd_periodic_tick as a callback.\<close>

definition RGD_PERIODIC_TICK :: nat where "RGD_PERIODIC_TICK = 1"

section \<open>Session and publishing\<close>

definition rgd_update_session_active :: "rgd_sys \<Rightarrow> rgd_sys" where
  "rgd_update_session_active s =
     upd_ctx (\<lambda>c. c\<lparr> hc_session_active := rg_active (snd s) \<or> rg_got_520x (snd s) \<rparr>) s"

definition on_bus :: "(bus \<times> rgd \<Rightarrow> (bus \<times> rgd) option) \<Rightarrow> rgd_sys \<Rightarrow> rgd_sys option" where
  "on_bus f s = do {
     (b, g) \<leftarrow> f (fc_bus (fst s), snd s);
     Some ((fst s)\<lparr> fc_bus := b \<rparr>, g) }"

text \<open>A small text frame built in a scratch buffer on the stack.\<close>

definition send_scratch :: "rgd_env \<Rightarrow> nat \<Rightarrow> bt_field list \<Rightarrow> bus \<Rightarrow> bus option" where
  "send_scratch e cap fs b = do {
     (r, tb, b) \<leftarrow> bus_send_text (re_al e) EVT_RGD_UPDATE BUS_FLAG_STICKY
       (put_fields fs (bus_text_begin_with (Some ''routeguidance'') cap)) b;
     Some b }"

definition clear_fields :: "string option \<Rightarrow> bt_field list" where
  "clear_fields reason =
     [FInt ''route_state'' (uint RGD_STATE_NOT_ACTIVE), FInt ''maneuver_count'' 0] @
     (case reason of None \<Rightarrow> [] | Some r \<Rightarrow> [FStr ''disconnect_reason'' (Some r)])"

definition rgd_cleared :: "rgd \<Rightarrow> rgd" where
  "rgd_cleared g = rgd_update_cache_reset (rgd_maneuver_map_reset (g\<lparr>
     rg_active := False, rg_sent_5200 := False, rg_sent_5203 := False, rg_got_520x := False,
     rg_component_valid := False, rg_have_update := False, rg_last_route_state := 0,
     rg_zero_started_ms := 0, rg_zero_deadline_ms := 0, rg_zero_from_reroute := False,
     rg_emitted_route_state := 0 \<rparr>))"

definition rgd_clear_state :: "rgd_env \<Rightarrow> string option \<Rightarrow> rgd_sys \<Rightarrow> rgd_sys option" where
  "rgd_clear_state e reason s = do {
     b \<leftarrow> send_scratch e 256 (clear_fields reason) (fc_bus (fst s));
     Some (rgd_update_session_active ((fst s)\<lparr> fc_bus := b \<rparr>, rgd_cleared (snd s))) }"

definition rgd_lazy_init :: "rgd_env \<Rightarrow> rgd_sys \<Rightarrow> rgd_sys option" where
  "rgd_lazy_init e s =
     (if rg_initialized (snd s) then Some s
      else do {
        (c, g) \<leftarrow> rgd_clear_state e (Some ''init'') (fst s, (snd s)\<lparr> rg_initialized := True \<rparr>);
        Some (c\<lparr> fc_bus := bus_set_periodic_tick (Some RGD_PERIODIC_TICK) (fc_bus c) \<rparr>, g) })"

section \<open>Requests to the phone\<close>

text \<open>An empty TLV behind the bytes built so far; a size of 0 is the error.\<close>

fun build_empty_tlvs :: "bytes \<Rightarrow> nat \<Rightarrow> u16 list \<Rightarrow> (nat option \<times> bytes) option" where
  "build_empty_tlvs m off [] = Some (Some off, m)"
| "build_empty_tlvs m off (t # ts) = do {
     (n, m) \<leftarrow> iap2_build_tlv m (Some off) (24 - off) t None 0;
     if n = 0 then Some (None, m) else build_empty_tlvs m (off + n) ts }"

definition start_tlvs :: "u16 \<Rightarrow> (nat option \<times> bytes) option" where
  "start_tlvs cid = do {
     (n, m) \<leftarrow> iap2_build_tlv_u16 (replicate 24 0) (Some 0) 24 RGD_START_TLV_COMPONENT_ID cid;
     if n = 0 then Some (None, m)
     else build_empty_tlvs m n [RGD_START_TLV_SOURCE_NAME, RGD_START_TLV_SOURCE_SUPPORTS_RG,
            RGD_START_TLV_SUPPORTS_EXIT_INFO] }"

definition rgd_request_updates :: "rgd_env \<Rightarrow> rgd_sys \<Rightarrow> (hook_result \<times> rgd_sys) option" where
  "rgd_request_updates e s =
     (if \<not> rg_component_valid (snd s) then Some (HOOK_ERR_INIT, s)
      else do {
        (r, tlv) \<leftarrow> start_tlvs (rg_component_id (snd s));
        (case r of None \<Rightarrow> Some (HOOK_ERR_PARAM, s)
         | Some off \<Rightarrow> do {
             (res, c) \<leftarrow> hook_inject_message (re_ts e) (re_inject_alloc e) IAP2_MSG_ROUTE_GUIDANCE_START (Some tlv) off (fst s);
             if res = HOOK_OK
             then Some (res, rgd_update_session_active (c, (snd s)\<lparr> rg_sent_5200 := True, rg_active := True \<rparr>))
             else Some (res, (c, snd s)) }) })"

definition rgd_stop_updates :: "rgd_env \<Rightarrow> rgd_sys \<Rightarrow> (hook_result \<times> rgd_sys) option" where
  "rgd_stop_updates e s =
     (if rg_sent_5203 (snd s) \<or> \<not> rg_active (snd s) then Some (HOOK_OK, s)
      else do {
        (n, tlv) \<leftarrow> iap2_build_tlv_u16 (replicate 6 0) (Some 0) 6 RGD_START_TLV_COMPONENT_ID (rg_component_id (snd s));
        (res, c) \<leftarrow> hook_inject_message (re_ts e) (re_inject_alloc e) IAP2_MSG_ROUTE_GUIDANCE_STOP (Some tlv) 6 (fst s);
        if res = HOOK_OK
        then Some (res, rgd_update_session_active (c, (snd s)\<lparr> rg_sent_5203 := True, rg_active := False \<rparr>))
        else Some (res, (c, snd s)) })"

section \<open>The debounce of route ends\<close>

definition hard_clear :: "rgd_update \<Rightarrow> bool" where
  "hard_clear u \<longleftrightarrow> has (ru_present u) RGD_UPD_SOURCE_SUPPORTS_RG \<and> ru_source_supports_rg u = 0"

text \<open>Whether the update is held back, and the state.\<close>

definition debounce :: "u64 \<Rightarrow> rgd_update \<Rightarrow> rgd \<Rightarrow> bool \<times> rgd" where
  "debounce now u g =
     (if has (ru_present u) RGD_UPD_ROUTE_STATE then
        let prev = rg_last_route_state g;
            g = g\<lparr> rg_last_route_state := ru_route_state u \<rparr>
        in if ru_route_state u = 0 then
             (if hard_clear u then
                (False, (rgd_cancel_pending_zero (rgd_maneuver_map_reset (rgd_update_cache_reset g)))
                          \<lparr> rg_emitted_route_state := 0 \<rparr>)
              else if rg_emitted_route_state g = 0 then (False, g)
              else
                let from_reroute = (prev = RGD_STATE_REROUTING \<or> rg_emitted_route_state g = RGD_STATE_REROUTING);
                    g = rgd_update_cache_reset g;
                    g = (if prev > 0 then rgd_maneuver_map_reset g else g)
                in (True, if rg_zero_started_ms g = 0
                     then g\<lparr> rg_zero_started_ms := now, rg_zero_from_reroute := from_reroute,
                            rg_zero_deadline_ms := (if from_reroute then 0 else now + ROUTE_ZERO_NORMAL_GRACE_MS) \<rparr>
                     else g))
           else
             let g = (if rg_zero_started_ms g \<noteq> 0 then rgd_cancel_pending_zero g else g)
             in (False, g\<lparr> rg_emitted_route_state := ru_route_state u \<rparr>)
      else if rgd_update_has_active_evidence u then (False, rgd_cancel_pending_zero g)
      else if \<not> hard_clear u then (rg_zero_started_ms g \<noteq> 0, g)
      else (False, g))"

text \<open>The two parts of rgd_periodic_tick: the claim under the lock (whether a frame
  is to be sent), and the frame.\<close>

definition rgd_tick_claim :: "u64 \<Rightarrow> rgd \<Rightarrow> bool \<times> rgd" where
  "rgd_tick_claim now g =
     (if rg_zero_started_ms g = 0 \<or> rg_emitted_route_state g = 0 then (False, g)
      else if rg_zero_from_reroute g \<or> rg_zero_deadline_ms g = 0 then (False, g)
      else if now < rg_zero_deadline_ms g then (False, g)
      else (True, g\<lparr> rg_emitted_route_state := 0, rg_zero_started_ms := 0, rg_zero_deadline_ms := 0,
                    rg_zero_from_reroute := False \<rparr>))"

definition ended_fields :: "bt_field list" where
  "ended_fields = [FInt ''route_state'' 0, FInt ''maneuver_count'' 0]"

definition rgd_tick_send :: "rgd_env \<Rightarrow> bus \<Rightarrow> bus option" where
  "rgd_tick_send e b = send_scratch e 128 ended_fields b"

definition rgd_periodic_tick :: "rgd_env \<Rightarrow> rgd_sys \<Rightarrow> rgd_sys option" where
  "rgd_periodic_tick e s =
     (let (claimed, g) = rgd_tick_claim (re_now e) (snd s)
      in if claimed then do { b \<leftarrow> rgd_tick_send e (fc_bus (fst s)); Some ((fst s)\<lparr> fc_bus := b \<rparr>, g) }
         else Some (fst s, g))"

section \<open>Callbacks\<close>

definition first_message :: "rgd_sys \<Rightarrow> rgd_sys" where
  "first_message s =
     (if \<not> rg_got_520x (snd s) then rgd_update_session_active (fst s, (snd s)\<lparr> rg_got_520x := True \<rparr>) else s)"

definition raw_message :: "rgd_sys \<Rightarrow> bytes \<times> nat option" where
  "raw_message s = (case hc_raw_buf (fc_ctx (fst s)) of None \<Rightarrow> ([], None) | Some m \<Rightarrow> (m, Some 0))"

definition handle_update :: "rgd_env \<Rightarrow> nat \<Rightarrow> rgd_sys \<Rightarrow> rgd_sys option" where
  "handle_update e len s = do {
     u \<leftarrow> rgd_parse_update (fst (raw_message s)) (snd (raw_message s)) len;
     let (suppress, g) = debounce (re_now e) u ((snd s)\<lparr> rg_have_update := True \<rparr>);
     if suppress then Some (fst s, g)
     else on_bus (write_bus_update_partial (re_heap e) (re_al e) u) (fst s, g) }"

definition handle_maneuver :: "rgd_env \<Rightarrow> nat \<Rightarrow> rgd_sys \<Rightarrow> rgd_sys option" where
  "handle_maneuver e len s = do {
     m \<leftarrow> rgd_parse_maneuver (fst (raw_message s)) (snd (raw_message s)) len;
     on_bus (write_bus_maneuver_partial (re_heap e) (re_al e) m) (fst s, rgd_cancel_pending_zero (snd s)) }"

definition handle_lane :: "rgd_env \<Rightarrow> nat \<Rightarrow> rgd_sys \<Rightarrow> rgd_sys option" where
  "handle_lane e len s = do {
     l \<leftarrow> rgd_parse_lane_guidance (fst (raw_message s)) (snd (raw_message s)) len;
     on_bus (write_bus_lane_guidance_partial (re_heap e) (re_al e) l) (fst s, rgd_cancel_pending_zero (snd s)) }"

definition rgd_message_handler :: "rgd_env \<Rightarrow> iap2_frame \<Rightarrow> rgd_sys \<Rightarrow> (bool \<times> rgd_sys) option" where
  "rgd_message_handler e frame s = do {
     s \<leftarrow> rgd_lazy_init e s;
     s \<leftarrow> (if fr_msgid frame = IAP2_MSG_ROUTE_GUIDANCE_UPDATE then
             handle_update e (unat (fr_len frame)) (first_message s)
           else if fr_msgid frame = IAP2_MSG_ROUTE_GUIDANCE_MANEUVER then
             handle_maneuver e (unat (fr_len frame)) (first_message s)
           else if fr_msgid frame = IAP2_MSG_ROUTE_GUIDANCE_LANE then
             handle_lane e (unat (fr_len frame)) (first_message s)
           else Some s);
     Some (False, s) }"

definition rgd_transport_handler :: "rgd_env \<Rightarrow> u16 \<Rightarrow> rgd_sys \<Rightarrow> rgd_sys option" where
  "rgd_transport_handler e msgid s =
     (if msgid = IAP2_MSG_LOCATION_INFO \<and> \<not> rg_sent_5200 (snd s) \<and> hook_is_ready (fst s)
      then map_option snd (rgd_request_updates e s) else Some s)"

definition rgd_state_handler :: "rgd_env \<Rightarrow> hook_event \<Rightarrow> rgd_sys \<Rightarrow> rgd_sys option" where
  "rgd_state_handler e event s =
     (if event = HOOK_EVENT_SHUTDOWN \<or> event = HOOK_EVENT_DISCONNECT then do {
        (r, s) \<leftarrow> rgd_stop_updates e s;
        rgd_clear_state e (Some (if event = HOOK_EVENT_SHUTDOWN then ''shutdown'' else ''disconnect'')) s }
      else if event = HOOK_EVENT_IDENTIFY_END \<and> \<not> rg_active (snd s) \<and> \<not> rg_got_520x (snd s) then
        rgd_clear_state e (Some ''identify_end'') s
      else Some s)"

section \<open>Small frames and clearing\<close>

lemma scratch_sent:
  assumes "bus_ok b" and "re_al e = (True, True, a3)" and "length (rgd_text fs) \<le> cap" and "cap \<le> BUS_MAX_PAYLOAD"
  shows "\<exists>b'. send_scratch e cap fs b = Some b' \<and> bus_got a3 fs b b'"
proof -
  let ?tb = "put_fields fs (bus_text_begin_with (Some ''routeguidance'') cap)"
  have own: "?tb\<lparr> tb_own_buf := False \<rparr> = ?tb"
  proof -
    have "(bus_text_begin_with (Some ''routeguidance'') cap)\<lparr> tb_own_buf := False \<rparr> =
        bus_text_begin_with (Some ''routeguidance'') cap"
      by (simp add: bus_text_begin_with_def Let_def bus_text_raw_def bt_append_def)
    then show ?thesis using put_fields_own [where x = False] by metis
  qed
  from send_text_effect [OF assms(1,3,4), of a3 False] show ?thesis
    unfolding own by (auto simp: send_scratch_def assms(2))
qed

text \<open>A reason of at most 180 characters fits the 256 byte buffer.\<close>

lemma clear_text_fits:
  assumes "length (case reason of None \<Rightarrow> [] | Some r \<Rightarrow> r) \<le> 180"
  shows "length (rgd_text (clear_fields reason)) \<le> 256"
proof -
  have d: "dec_int 0 = ''0''" by code_simp
  have u: "uint RGD_STATE_NOT_ACTIVE = 0" by (simp add: rgd_state_defs)
  show ?thesis
    using assms by (cases reason) (simp_all add: rgd_text_def clear_fields_def name_line_def field_line_def u d NL_def sanitize_def)
qed

lemma clear_keys_ok: "keys_ok (clear_fields reason)" "keys_ok ended_fields"
  by (simp_all add: clear_fields_def ended_fields_def key_ok_def nl_def split: option.split)

lemma ended_text_fits: "length (rgd_text ended_fields) \<le> 128"
  by code_simp

text \<open>What clearing needs of a state, which no operation changes: the lengths of
  the tables, and what the caches may hold even where they are not present.\<close>

definition rgd_raw :: "rgd \<Rightarrow> bool" where
  "rgd_raw g \<longleftrightarrow> length (rg_slot_to_iap_idx g) = MANEUVER_CACHE_SIZE \<and>
     length (rg_slot_seq g) = MANEUVER_CACHE_SIZE \<and> length (rg_slot_ver g) = MANEUVER_CACHE_SIZE \<and>
     length (rg_slot_cache g) = MANEUVER_CACHE_SIZE \<and> lane_lengths g \<and>
     (\<forall>l \<in> set (rg_lane_cache g). lane_texts_ok (rl_lanes l)) \<and>
     (\<forall>m \<in> set (rg_slot_cache g). length (rm_junction_angles m) \<le> 16)"

text \<open>The invariant of the system; before the first callback has initialised the
  module the tables are the zeros of static storage.\<close>

definition rgd_inv :: "nat \<Rightarrow> rgd_sys \<Rightarrow> bool" where
  "rgd_inv n s \<longleftrightarrow> bus_ok (fc_bus (fst s)) \<and> rgd_raw (snd s) \<and> (rg_initialized (snd s) \<longrightarrow> rgd_wf n (snd s))"

lemma rgd_wf_raw: "rgd_wf n g \<Longrightarrow> rgd_raw g"
  by (simp add: rgd_wf_def rgd_raw_def slots_ok_def lanes_table_ok_def lane_lengths_def publishable_def)

lemma cleared_wf:
  assumes "rgd_raw g"
  shows "rgd_wf 0 (rgd_cleared g)"
proof -
  have z: "length (ru_component_ids zero_update) \<le> MAX_COMPONENT_LIST" by (simp add: zero_update_def)
  show ?thesis
    using assms z
    by (simp add: rgd_wf_def rgd_cleared_def rgd_update_cache_reset_def rgd_maneuver_map_reset_def rgd_raw_def
        lane_lengths_def slots_ok_def lanes_table_ok_def distinct_table_def publishable_def)
qed

lemma cleared_initialized [simp]: "rg_initialized (rgd_cleared g) = rg_initialized g"
  by (simp add: rgd_cleared_def rgd_update_cache_reset_def rgd_maneuver_map_reset_def)

lemma clear_state_total:
  assumes "bus_ok (fc_bus c)" and "re_al e = (True, True, a3)"
    and "length (case reason of None \<Rightarrow> [] | Some r \<Rightarrow> r) \<le> 180"
  shows "\<exists>b. rgd_clear_state e reason (c, g) =
      Some (c\<lparr> fc_bus := b, fc_ctx := (fc_ctx c)\<lparr> hc_session_active := False \<rparr> \<rparr>, rgd_cleared g) \<and>
    bus_got a3 (clear_fields reason) (fc_bus c) b"
proof -
  have m: "256 \<le> BUS_MAX_PAYLOAD" by (simp add: BUS_MAX_PAYLOAD_def)
  have a: "\<not> rg_active (rgd_cleared g)" "\<not> rg_got_520x (rgd_cleared g)"
    by (simp_all add: rgd_cleared_def rgd_update_cache_reset_def rgd_maneuver_map_reset_def)
  from scratch_sent [OF assms(1,2) clear_text_fits [OF assms(3)] m] a show ?thesis
    by (auto simp: rgd_clear_state_def rgd_update_session_active_def upd_ctx_def)
qed

lemma bus_got_ok: "bus_got a3 fs b b' \<Longrightarrow> bus_ok b'"
  by (simp add: bus_got_def)

lemma bus_ok_tick [simp]: "bus_ok (bus_set_periodic_tick cb b) = bus_ok b"
  by (simp add: bus_ok_def bus_set_periodic_tick_def sticky_cache_def)

lemma lazy_init_total:
  assumes "rgd_inv n (c, g)" and "re_al e = (True, True, a3)"
  shows "\<exists>c' g'. rgd_lazy_init e (c, g) = Some (c', g') \<and> rgd_inv n (c', g') \<and> rg_initialized g' \<and>
    hc_raw_buf (fc_ctx c') = hc_raw_buf (fc_ctx c) \<and> hc_priv (fc_ctx c') = hc_priv (fc_ctx c) \<and>
    rg_component_id g' = rg_component_id g \<and>
    (rg_initialized g \<longrightarrow> c' = c \<and> g' = g)"
proof (cases "rg_initialized g")
  case True
  then show ?thesis using assms by (simp add: rgd_lazy_init_def)
next
  case False
  let ?g = "g\<lparr> rg_initialized := True \<rparr>"
  have r: "rgd_raw ?g" using assms(1) by (simp add: rgd_inv_def rgd_raw_def lane_lengths_def)
  have b: "bus_ok (fc_bus c)" using assms(1) by (simp add: rgd_inv_def)
  obtain b where 1: "rgd_clear_state e (Some ''init'') (c, ?g) =
      Some (c\<lparr> fc_bus := b, fc_ctx := (fc_ctx c)\<lparr> hc_session_active := False \<rparr> \<rparr>, rgd_cleared ?g)"
    "bus_got a3 (clear_fields (Some ''init'')) (fc_bus c) b"
    using clear_state_total [OF b assms(2), of "Some ''init''" ?g] by auto
  have wf: "rgd_wf n (rgd_cleared ?g)" by (rule rgd_wf_mono [OF cleared_wf [OF r]]) simp
  then show ?thesis
    using False 1 bus_got_ok [OF 1(2)] rgd_wf_raw [OF wf]
    by (simp add: rgd_lazy_init_def rgd_inv_def)
      (simp add: rgd_cleared_def rgd_update_cache_reset_def rgd_maneuver_map_reset_def)
qed

section \<open>Messages never fault\<close>

lemma cache_reset_wf: "rgd_wf n g \<Longrightarrow> rgd_wf n (rgd_update_cache_reset g)"
  by (simp add: rgd_wf_def rgd_update_cache_reset_def slots_ok_def lanes_table_ok_def zero_update_def)

lemma map_reset_wf: "rgd_wf n g \<Longrightarrow> rgd_wf n (rgd_maneuver_map_reset g)"
  by (simp add: rgd_wf_def rgd_maneuver_map_reset_def slots_ok_def lanes_table_ok_def distinct_table_def publishable_def)

lemma cancel_wf: "rgd_wf n g \<Longrightarrow> rgd_wf n (rgd_cancel_pending_zero g)"
  by (simp add: rgd_cancel_pending_zero_def rgd_wf_def slots_ok_def lanes_table_ok_def)

text \<open>The invariant does not look at the flags and the debounce fields.\<close>

lemma wf_flags [simp]:
  "rgd_wf n (g\<lparr> rg_last_route_state := x \<rparr>) = rgd_wf n g"
  "rgd_wf n (g\<lparr> rg_emitted_route_state := x \<rparr>) = rgd_wf n g"
  "rgd_wf n (g\<lparr> rg_have_update := f \<rparr>) = rgd_wf n g"
  "rgd_wf n (g\<lparr> rg_got_520x := f \<rparr>) = rgd_wf n g"
  "rgd_wf n (g\<lparr> rg_component_valid := f \<rparr>) = rgd_wf n g"
  "rgd_wf n (g\<lparr> rg_component_id := i \<rparr>) = rgd_wf n g"
  "rgd_wf n (g\<lparr> rg_sent_5200 := f, rg_active := f' \<rparr>) = rgd_wf n g"
  "rgd_wf n (g\<lparr> rg_sent_5203 := f, rg_active := f' \<rparr>) = rgd_wf n g"
  "rgd_wf n (g\<lparr> rg_zero_started_ms := t, rg_zero_from_reroute := f, rg_zero_deadline_ms := t' \<rparr>) = rgd_wf n g"
  "rgd_wf n (g\<lparr> rg_emitted_route_state := x, rg_zero_started_ms := t, rg_zero_deadline_ms := t', rg_zero_from_reroute := f \<rparr>) = rgd_wf n g"
  by (simp_all add: rgd_wf_def slots_ok_def lanes_table_ok_def)

lemma debounce_wf: "rgd_wf n g \<Longrightarrow> rgd_wf n (snd (debounce now u g))"
  by (simp add: debounce_def Let_def cache_reset_wf map_reset_wf cancel_wf)

text \<open>The two texts that the publisher reads unwritten when a message announces
  them empty: the junction angles of a maneuver, and the angles of lanes that
  are a single lane without angles.  The other messages have no such text.\<close>

definition angles_given :: "bytes \<Rightarrow> nat \<Rightarrow> bool" where
  "angles_given m len \<longleftrightarrow>
     (case rgd_parse_maneuver m (Some 0) len of None \<Rightarrow> True
      | Some u \<Rightarrow> has (rm_present u) RGD_MAN_JUNCTION_ANGLES \<longrightarrow> rm_junction_angles u \<noteq> [])"

definition lanes_given :: "bytes \<Rightarrow> nat \<Rightarrow> bool" where
  "lanes_given m len \<longleftrightarrow>
     (case rgd_parse_lane_guidance m (Some 0) len of None \<Rightarrow> True
      | Some u \<Rightarrow> \<not> (length (rl_lanes u) = 1 \<and> ln_angles (hd (rl_lanes u)) = []))"

definition texts_given :: "iap2_frame \<Rightarrow> bytes \<Rightarrow> bool" where
  "texts_given f m \<longleftrightarrow>
     (fr_msgid f = IAP2_MSG_ROUTE_GUIDANCE_MANEUVER \<longrightarrow> angles_given m (unat (fr_len f))) \<and>
     (fr_msgid f = IAP2_MSG_ROUTE_GUIDANCE_LANE \<longrightarrow> lanes_given m (unat (fr_len f)))"

lemma parsed_maneuver_publishable:
  assumes "len \<le> length m" and "angles_given m len"
  shows "\<exists>u. rgd_parse_maneuver m (Some 0) len = Some u \<and> publishable u"
proof -
  obtain u where u: "rgd_parse_maneuver m (Some 0) len = Some u" "maneuver_bounded u"
    using parse_maneuver_bounded [of 0 len m] assms(1) by auto
  have "\<not> has (rm_present u) RGD_MAN_LANE_GUIDANCE"
  proof (cases "6 \<le> len")
    case True
    then show ?thesis
      using u(1) parse_maneuver_fold [of 0 len m] assms(1) maneuver_fold_lanes
      by (auto simp: default_exit_angle_def has_or_left man_bits flag_simps split: if_splits)
  next
    case False
    then show ?thesis using u(1) by (auto simp: rgd_parse_maneuver_def zero_maneuver_def)
  qed
  then show ?thesis using u assms(2) by (auto simp: publishable_def maneuver_bounded_def angles_given_def)
qed

lemma parsed_lane_publishable:
  assumes "len \<le> length m" and "lanes_given m len"
  shows "\<exists>u. rgd_parse_lane_guidance m (Some 0) len = Some u \<and> lane_publishable u"
proof -
  obtain u where u: "rgd_parse_lane_guidance m (Some 0) len = Some u" "lane_guidance_bounded u"
    using parse_lane_guidance_bounded [of 0 len m] assms(1) by auto
  then show ?thesis
    using assms(2) by (auto simp: lane_publishable_def lane_guidance_bounded_def lanes_given_def c_text_def
        list_all_iff lane_ok_def)
qed

lemma on_bus_total:
  assumes "\<exists>b' g'. f (fc_bus c, g) = Some (b', g') \<and> rgd_wf k g' \<and> bus_ok b'"
  shows "\<exists>s'. on_bus f (c, g) = Some s' \<and> rgd_wf k (snd s') \<and> bus_ok (fc_bus (fst s'))"
  using assms by (auto simp: on_bus_def)

lemma first_message_keeps:
  "fc_bus (fst (first_message s)) = fc_bus (fst s)" "hc_raw_buf (fc_ctx (fst (first_message s))) = hc_raw_buf (fc_ctx (fst s))"
  "rgd_wf n (snd s) \<Longrightarrow> rgd_wf n (snd (first_message s))"
  by (simp_all add: first_message_def rgd_update_session_active_def upd_ctx_def)

lemma handlers_total:
  assumes "rgd_wf n (snd s)" and "bus_ok (fc_bus (fst s))" and "n + 20 < 2 ^ 32"
    and "re_heap e" and "re_al e = (True, True, a3)"
    and "hc_raw_buf (fc_ctx (fst s)) = Some m" and "len \<le> length m"
  shows "\<exists>s'. handle_update e len s = Some s' \<and> rgd_wf (n + 20) (snd s') \<and> bus_ok (fc_bus (fst s'))"
    and "angles_given m len \<Longrightarrow> \<exists>s'. handle_maneuver e len s = Some s' \<and> rgd_wf (n + 20) (snd s') \<and> bus_ok (fc_bus (fst s'))"
    and "lanes_given m len \<Longrightarrow> \<exists>s'. handle_lane e len s = Some s' \<and> rgd_wf (n + 20) (snd s') \<and> bus_ok (fc_bus (fst s'))"
proof -
  obtain c g where s: "s = (c, g)" by (cases s)
  have wf: "rgd_wf n g" and b: "bus_ok (fc_bus c)" using assms(1,2) by (simp_all add: s)
  have raw: "raw_message (c, g) = (m, Some 0)" using assms(6) by (simp add: s raw_message_def)
  have n: "n + 18 < 2 ^ 32" "n + 19 < 2 ^ 32" using assms(3) by simp_all
  have al: "re_heap e = True" using assms(4) by simp
  have up: "\<exists>s'. x = Some s' \<and> rgd_wf k (snd s') \<and> bus_ok (fc_bus (fst s')) \<Longrightarrow> k \<le> n + 20 \<Longrightarrow>
      \<exists>s'. x = Some s' \<and> rgd_wf (n + 20) (snd s') \<and> bus_ok (fc_bus (fst s'))" for x :: "rgd_sys option" and k
    using rgd_wf_mono by blast
  { obtain u where u: "rgd_parse_update m (Some 0) len = Some u"
      using parse_update_bounded [of 0 len m] assms(7) by auto
    obtain sup g1 where d: "debounce (re_now e) u (g\<lparr> rg_have_update := True \<rparr>) = (sup, g1)" by fastforce
    have wf1: "rgd_wf n g1" using debounce_wf [of n "g\<lparr> rg_have_update := True \<rparr>" "re_now e" u] wf d by simp
    have "\<exists>s'. on_bus (write_bus_update_partial (re_heap e) (re_al e) u) (c, g1) = Some s' \<and>
        rgd_wf (n + 18) (snd s') \<and> bus_ok (fc_bus (fst s'))"
      unfolding al assms(5) using update_op [OF wf1 n(1) b, of a3 u] by (intro on_bus_total) blast
    then have "\<exists>s'. on_bus (write_bus_update_partial (re_heap e) (re_al e) u) (c, g1) = Some s' \<and>
        rgd_wf (n + 20) (snd s') \<and> bus_ok (fc_bus (fst s'))" by (rule up) simp
    then show "\<exists>s'. handle_update e len s = Some s' \<and> rgd_wf (n + 20) (snd s') \<and> bus_ok (fc_bus (fst s'))"
      using b rgd_wf_mono [OF wf1, of "n + 20"] by (cases sup) (simp_all add: s handle_update_def raw u d)
  next
    assume given: "angles_given m len"
    obtain u where u: "rgd_parse_maneuver m (Some 0) len = Some u" "publishable u"
      using parsed_maneuver_publishable [OF assms(7) given] by blast
    have "\<exists>s'. on_bus (write_bus_maneuver_partial (re_heap e) (re_al e) u) (c, rgd_cancel_pending_zero g) = Some s' \<and>
        rgd_wf (n + 19) (snd s') \<and> bus_ok (fc_bus (fst s'))"
      unfolding al assms(5) using maneuver_op [OF cancel_wf [OF wf] n(2) b u(2), of a3] by (intro on_bus_total) blast
    from up [OF this] show "\<exists>s'. handle_maneuver e len s = Some s' \<and> rgd_wf (n + 20) (snd s') \<and> bus_ok (fc_bus (fst s'))"
      by (simp add: s handle_maneuver_def raw u(1))
  next
    assume given: "lanes_given m len"
    obtain u where u: "rgd_parse_lane_guidance m (Some 0) len = Some u" "lane_publishable u"
      using parsed_lane_publishable [OF assms(7) given] by blast
    have "\<exists>s'. on_bus (write_bus_lane_guidance_partial (re_heap e) (re_al e) u) (c, rgd_cancel_pending_zero g) = Some s' \<and>
        rgd_wf (n + 19) (snd s') \<and> bus_ok (fc_bus (fst s'))"
      unfolding al assms(5) using lane_op [OF cancel_wf [OF wf] n(2) b u(2), of a3] by (intro on_bus_total) blast
    from up [OF this] show "\<exists>s'. handle_lane e len s = Some s' \<and> rgd_wf (n + 20) (snd s') \<and> bus_ok (fc_bus (fst s'))"
      by (simp add: s handle_lane_def raw u(1)) }
qed

section \<open>Properties\<close>

text \<open>Property C1. With memory available, and before the 32 bit access counters
  are used up, rgd_message_handler handles every incoming message of which the frame lies in the buffer, whatever its bytes,
  with one exception: a maneuver message whose JunctionAngles are announced
  empty, or a lane message that is a single lane without angles (these read an
  unwritten text, see C33).  Route guidance updates and messages of any other
  kind have no exception.  Handling never faults (no read or write outside an
  object, no unwritten text), it never consumes the message, and it keeps the
  invariant of the bus and of the module's tables and caches, whether or not
  the module was initialised.\<close>

theorem message_handled:
  assumes "rgd_inv n (c, g)" and "n + 20 < 2 ^ 32" and "re_heap e" and "re_al e = (True, True, a3)"
    and "hc_raw_buf (fc_ctx c) = Some m" and "unat (fr_len frame) \<le> length m" and "texts_given frame m"
  shows "\<exists>s'. rgd_message_handler e frame (c, g) = Some (False, s') \<and> rgd_inv (n + 20) s'"
proof -
  obtain c1 g1 where i: "rgd_lazy_init e (c, g) = Some (c1, g1)" "rgd_inv n (c1, g1)" "rg_initialized g1"
    "hc_raw_buf (fc_ctx c1) = Some m"
    using lazy_init_total [OF assms(1,4)] assms(5) by auto
  let ?f = "first_message (c1, g1)"
  have k: "rgd_wf n (snd ?f)" "bus_ok (fc_bus (fst ?f))" "hc_raw_buf (fc_ctx (fst ?f)) = Some m"
    using i first_message_keeps(1,2) [of "(c1, g1)"] first_message_keeps(3) [of n "(c1, g1)"] by (simp_all add: rgd_inv_def)
  note h = handlers_total [OF k(1,2) assms(2,3,4) k(3) assms(6)]
  have inv: "\<exists>s'. x = Some s' \<and> rgd_wf (n + 20) (snd s') \<and> bus_ok (fc_bus (fst s')) \<Longrightarrow>
      \<exists>s'. x = Some s' \<and> rgd_inv (n + 20) s'" for x :: "rgd_sys option"
    using rgd_wf_raw by (auto simp: rgd_inv_def)
  have same: "rgd_inv (n + 20) (c1, g1)"
    using i rgd_wf_mono [of n g1 "n + 20"] by (simp add: rgd_inv_def)
  show ?thesis
    using inv [OF h(1)] inv [OF h(2)] inv [OF h(3)] same assms(7)
    by (auto simp: rgd_message_handler_def i(1) texts_given_def)
qed

text \<open>Several ticks of the bus timer.\<close>

fun ticks :: "rgd_env \<Rightarrow> u64 list \<Rightarrow> rgd_sys \<Rightarrow> rgd_sys option" where
  "ticks e [] s = Some s"
| "ticks e (t # ts) s = do { s \<leftarrow> rgd_periodic_tick (e\<lparr> re_now := t \<rparr>) s; ticks e ts s }"

lemma ticks_idle:
  "\<forall>t \<in> set ts. \<not> fst (rgd_tick_claim t g) \<Longrightarrow> ticks e ts (c, g) = Some (c, g)"
proof (induction ts)
  case (Cons t ts)
  have "\<not> fst (rgd_tick_claim t g)" using Cons.prems by simp
  moreover have "fst (rgd_tick_claim t g) \<or> rgd_tick_claim t g = (False, g)" by (simp add: rgd_tick_claim_def)
  ultimately have "rgd_tick_claim t g = (False, g)" by blast
  then show ?case using Cons by (simp add: rgd_periodic_tick_def)
qed simp

definition shows_route :: "rgd_update \<Rightarrow> bool" where
  "shows_route u \<longleftrightarrow> (if has (ru_present u) RGD_UPD_ROUTE_STATE then ru_route_state u > 0
     else rgd_update_has_active_evidence u)"

text \<open>Property C2. A route end (state 0 without a hard clear) that arrives while the
  Java side shows a route is held: the update is suppressed, and no tick
  before 800 ms later does anything.  The first tick from then on sends
  exactly one frame that says the route ended, which is what the Java side
  reads, and later ticks do nothing; but after a reroute no tick ever ends the
  route, and any update that shows a route before then passes and withdraws
  the held end for good.\<close>

theorem route_end_held:
  fixes now :: u64
  assumes "has (ru_present u) RGD_UPD_ROUTE_STATE" and "ru_route_state u = 0" and "\<not> hard_clear u"
    and "rg_emitted_route_state g \<noteq> 0" and "rg_zero_started_ms g = 0"
    and "now \<noteq> 0" and "unat now + 800 < 2 ^ 64"
    and "bus_ok (fc_bus c)" and "re_al e = (True, True, a3)"
  defines "reroute \<equiv> rg_last_route_state g = RGD_STATE_REROUTING \<or> rg_emitted_route_state g = RGD_STATE_REROUTING"
    and "g1 \<equiv> snd (debounce now u g)"
  shows "fst (debounce now u g) \<and>
    (\<forall>ts. reroute \<or> (\<forall>t \<in> set ts. unat t < unat now + 800) \<longrightarrow> ticks e ts (c, g1) = Some (c, g1)) \<and>
    (\<forall>t. \<not> reroute \<and> unat now + 800 \<le> unat t \<longrightarrow>
       (\<exists>b g2. rgd_periodic_tick (e\<lparr> re_now := t \<rparr>) (c, g1) = Some (c\<lparr> fc_bus := b \<rparr>, g2) \<and>
          bus_got a3 ended_fields (fc_bus c) b \<and>
          java_reads b = Some [(''route_state'', ''0''), (''maneuver_count'', ''0'')] \<and>
          rg_emitted_route_state g2 = 0 \<and> (\<forall>ts c'. ticks e ts (c', g2) = Some (c', g2)))) \<and>
    (\<forall>u' now'. shows_route u' \<longrightarrow> \<not> fst (debounce now' u' g1) \<and>
       (\<forall>ts c'. ticks e ts (c', snd (debounce now' u' g1)) = Some (c', snd (debounce now' u' g1))))"
proof -
  have add: "unat (now + 800) = unat now + 800"
    using assms(7) by (simp add: unat_plus_if_size word_size)
  have d: "fst (debounce now u g)" "rg_zero_started_ms g1 = now" "rg_emitted_route_state g1 = rg_emitted_route_state g"
    "rg_zero_from_reroute g1 = reroute" "rg_zero_deadline_ms g1 = (if reroute then 0 else now + 800)"
    using assms(1-5) unfolding g1_def reroute_def
    by (simp_all add: debounce_def Let_def rgd_update_cache_reset_def rgd_maneuver_map_reset_def ROUTE_ZERO_NORMAL_GRACE_MS_def)
  have ne: "now + 800 \<noteq> 0" using add by (metis add_is_0 unat_0 zero_neq_numeral)
  have held: "ticks e ts (c, g1) = Some (c, g1)" if "reroute \<or> (\<forall>t \<in> set ts. unat t < unat now + 800)" for ts
    by (rule ticks_idle) (use that d add in \<open>auto simp: rgd_tick_claim_def word_less_nat_alt\<close>)
  have idle: "ticks e ts (c', g') = Some (c', g')" if "rg_zero_started_ms g' = 0" for ts c' g'
    by (rule ticks_idle) (use that in \<open>simp add: rgd_tick_claim_def\<close>)
  have fires: "\<exists>b g2. rgd_periodic_tick (e\<lparr> re_now := t \<rparr>) (c, g1) = Some (c\<lparr> fc_bus := b \<rparr>, g2) \<and>
      bus_got a3 ended_fields (fc_bus c) b \<and>
      java_reads b = Some [(''route_state'', ''0''), (''maneuver_count'', ''0'')] \<and>
      rg_emitted_route_state g2 = 0 \<and> (\<forall>ts c'. ticks e ts (c', g2) = Some (c', g2))"
    if t: "\<not> reroute" "unat now + 800 \<le> unat t" for t
  proof -
    let ?g2 = "g1\<lparr> rg_emitted_route_state := 0, rg_zero_started_ms := 0, rg_zero_deadline_ms := 0,
                    rg_zero_from_reroute := False \<rparr>"
    have "\<not> t < now + 800" using t(2) add by (simp add: word_less_nat_alt)
    then have cl: "rgd_tick_claim t g1 = (True, ?g2)"
      using d t(1) ne assms(4,6) by (simp add: rgd_tick_claim_def)
    have al: "re_al (e\<lparr> re_now := t \<rparr>) = (True, True, a3)" using assms(9) by simp
    have m: "128 \<le> BUS_MAX_PAYLOAD" by (simp add: BUS_MAX_PAYLOAD_def)
    obtain b where b: "send_scratch (e\<lparr> re_now := t \<rparr>) 128 ended_fields (fc_bus c) = Some b"
      "bus_got a3 ended_fields (fc_bus c) b"
      using scratch_sent [OF assms(8) al ended_text_fits m] by blast
    have "read_pairs ended_fields = [(''route_state'', ''0''), (''maneuver_count'', ''0'')]" by code_simp
    then have "java_reads b = Some [(''route_state'', ''0''), (''maneuver_count'', ''0'')]"
      using java_reads_got [OF b(2) clear_keys_ok(2)] by simp
    then show ?thesis
      using cl b idle [of ?g2]
      by (intro exI [of _ b] exI [of _ ?g2]) (simp add: rgd_periodic_tick_def rgd_tick_send_def)
  qed
  have withdrawn: "\<not> fst (debounce now' u' g1) \<and> rg_zero_started_ms (snd (debounce now' u' g1)) = 0"
    if "shows_route u'" for u' now'
    using that by (auto simp: shows_route_def debounce_def Let_def rgd_cancel_pending_zero_def)
  show ?thesis
    using d(1) held fires withdrawn idle by blast
qed

text \<open>For the witnesses: a host whose calls succeed, and a received update that
  says the route is set.\<close>

definition calm :: "u64 \<Rightarrow> rgd_env" where
  "calm t = \<lparr> re_now = t, re_heap = True, re_al = (True, True, True), re_inject_alloc = True, re_realloc = True,
     re_malloc = True, re_junk = (\<lambda>_. 0), re_ts = (\<lambda>_ _ _. 0) \<rparr>"

lemma calm_sel [simp]: "re_heap (calm t)" "re_al (calm t) = (True, True, True)" "(calm t)\<lparr> re_now := t' \<rparr> = calm t'"
  by (simp_all add: calm_def)

definition state_1_message :: bytes where
  "state_1_message = [0x40, 0x40, 0, 11, 0x52, 1, 0, 5, 0, 1, 1]"

definition core_state_1 :: fw_core where
  "core_state_1 = core0\<lparr> fc_ctx := zero_ctx\<lparr> hc_raw_buf := Some state_1_message \<rparr> \<rparr>"

lemma core_state_1_sel [simp]:
  "hc_raw_buf (fc_ctx core_state_1) = Some state_1_message" "fc_bus core_state_1 = bus0"
  "bus_ok (fc_bus core_state_1)" "length state_1_message = 11"
  using bus_ok_bus0 by (simp_all add: core_state_1_def core0_def state_1_message_def)

lemma message_handled_witness:
  "\<exists>s'. rgd_message_handler (calm 5)
      \<lparr> fr_msgid = 0x5201, fr_len = 11, fr_offset = 0, fr_payload = Some 6, fr_payload_len = 5 \<rparr>
      (core_state_1, rgd0) = Some (False, s') \<and> rgd_inv 20 s'"
proof -
  let ?f = "\<lparr> fr_msgid = 0x5201, fr_len = 11, fr_offset = 0, fr_payload = Some 6, fr_payload_len = 5 \<rparr>"
  have inv: "rgd_inv 0 (core_state_1, rgd0)"
    using bus_ok_bus0 by (simp add: rgd_inv_def rgd_raw_def rgd0_def lane_lengths_def zero_maneuver_def)
  have n: "0 + 20 < (2 ^ 32 :: nat)" and e: "0 + 20 = (20 :: nat)" by simp_all
  have l: "unat (fr_len ?f) = 11" by simp
  have t: "unat (fr_len ?f) \<le> length state_1_message" "texts_given ?f state_1_message"
    unfolding l by (simp, code_simp)
  from message_handled [OF inv n calm_sel(1,2) core_state_1_sel(1) t] show ?thesis unfolding e .
qed

lemma route_end_held_witness:
  "\<exists>b g2. rgd_periodic_tick (calm 900)
      (core0, snd (debounce 50 (zero_update\<lparr> ru_present := RGD_UPD_ROUTE_STATE \<rparr>)
         (rgd_reset\<lparr> rg_last_route_state := 1, rg_emitted_route_state := 1 \<rparr>))) = Some (core0\<lparr> fc_bus := b \<rparr>, g2) \<and>
    java_reads b = Some [(''route_state'', ''0''), (''maneuver_count'', ''0'')]"
proof -
  let ?u = "zero_update\<lparr> ru_present := RGD_UPD_ROUTE_STATE \<rparr>"
  let ?g = "rgd_reset\<lparr> rg_last_route_state := 1, rg_emitted_route_state := 1 \<rparr>"
  have 1: "has (ru_present ?u) RGD_UPD_ROUTE_STATE" "ru_route_state ?u = 0" "\<not> hard_clear ?u" by code_simp+
  have 2: "rg_emitted_route_state ?g \<noteq> 0" "rg_zero_started_ms ?g = 0"
    by (simp_all add: rgd_reset_def rgd_maneuver_map_reset_def rgd0_def)
  have 3: "(50 :: u64) \<noteq> 0" "unat (50 :: u64) + 800 < 2 ^ 64" "bus_ok (fc_bus core0)"
    using bus_ok_bus0 by (simp_all add: core0_def)
  have 4: "\<not> (rg_last_route_state ?g = RGD_STATE_REROUTING \<or> rg_emitted_route_state ?g = RGD_STATE_REROUTING) \<and>
      unat (50 :: u64) + 800 \<le> unat (900 :: u64)"
    by (simp add: rgd_state_defs)
  note r = route_end_held [OF 1 2 3 calm_sel(2) [of 0], THEN conjunct2, THEN conjunct2, THEN conjunct1, rule_format, OF 4]
  from r show ?thesis unfolding calm_sel(3) by blast
qed

text \<open>Property C34. The tick claims the end of the route under the lock and sends its
  frame after releasing it.  When an update that starts a route is handled in
  between, the phone's route is active, the module believes it has told so and
  no tick is pending, but what the Java side reads last is the end of the
  route, and no later tick corrects it.\<close>

theorem late_tick_ends_new_route:
  assumes "rgd_wf n g" and "n + 20 < 2 ^ 32" and "bus_ok (fc_bus c)" and "re_heap e" and "re_al e = (True, True, a3)"
    and "rgd_tick_claim now g = (True, g1)"
    and "hc_raw_buf (fc_ctx c) = Some m" and "rgd_parse_update m (Some 0) len = Some u"
    and "has (ru_present u) RGD_UPD_ROUTE_STATE" and "ru_route_state u > 0"
  shows "\<exists>c2 g2 b. handle_update e len (c, g1) = Some (c2, g2) \<and> rgd_tick_send e (fc_bus c2) = Some b \<and>
    ru_route_state (rg_update_cache g2) = ru_route_state u \<and> rg_emitted_route_state g2 = ru_route_state u \<and>
    java_reads b = Some [(''route_state'', ''0''), (''maneuver_count'', ''0'')] \<and>
    (\<forall>ts c'. ticks e ts (c', g2) = Some (c', g2))"
proof -
  have g1: "rg_zero_started_ms g1 = 0" "rgd_wf n g1"
    using assms(1,6) by (auto simp: rgd_tick_claim_def split: if_splits)
  define g' where "g' = g1\<lparr> rg_have_update := True, rg_last_route_state := ru_route_state u, rg_emitted_route_state := ru_route_state u \<rparr>"
  have d: "debounce (re_now e) u (g1\<lparr> rg_have_update := True \<rparr>) = (False, g')"
    using assms(9,10) g1(1) by (simp add: debounce_def Let_def g'_def word_neq_0_conv)
  have wf: "rgd_wf n g'" using g1(2) by (simp add: g'_def)
  have n: "n + 18 < 2 ^ 32" using assms(2) by simp
  have "has (ru_present u) RGD_UPD_WRITE_MASK"
    using assms(9) by (simp add: RGD_UPD_WRITE_MASK_def has_or_right)
  then have nz: "ru_present u AND RGD_UPD_WRITE_MASK \<noteq> 0" by (simp add: has_def)
  obtain b1 g2 where o: "write_bus_update_partial True (True, True, a3) u (fc_bus c, g') = Some (b1, g2)"
    "bus_ok b1" "rgd_flags g2 = rgd_flags g'" "update_applied u g' g2"
    using update_op [OF wf n assms(3), of a3 u] nz by auto
  have h: "re_heap e = True" using assms(4) by simp
  have run: "handle_update e len (c, g1) = Some (c\<lparr> fc_bus := b1 \<rparr>, g2)"
    unfolding handle_update_def raw_message_def using assms(7,8) d o(1)
    by (simp add: on_bus_def h assms(5))
  have fl: "rg_zero_started_ms g2 = 0" "rg_emitted_route_state g2 = ru_route_state u"
    using o(3) g1(1) by (simp_all add: rgd_flags_def g'_def)
  have cache: "ru_route_state (rg_update_cache g2) = ru_route_state u"
    using o(4) assms(9)
    by (auto simp: update_applied_def rgd_update_cache_merge_def Let_def with_lane_slot_def has_or_left)
  have m: "128 \<le> BUS_MAX_PAYLOAD" by (simp add: BUS_MAX_PAYLOAD_def)
  obtain b where b: "send_scratch e 128 ended_fields b1 = Some b" "bus_got a3 ended_fields b1 b"
    using scratch_sent [OF o(2) assms(5) ended_text_fits m] by blast
  have "read_pairs ended_fields = [(''route_state'', ''0''), (''maneuver_count'', ''0'')]" by code_simp
  then have "java_reads b = Some [(''route_state'', ''0''), (''maneuver_count'', ''0'')]"
    using java_reads_got [OF b(2) clear_keys_ok(2)] by simp
  moreover have "ticks e ts (c', g2) = Some (c', g2)" for ts c'
    by (rule ticks_idle) (use fl(1) in \<open>simp add: rgd_tick_claim_def\<close>)
  ultimately show ?thesis
    using run b(1) fl(2) cache
    by (intro exI [of _ "c\<lparr> fc_bus := b1 \<rparr>"] exI [of _ g2] exI [of _ b]) (simp add: rgd_tick_send_def)
qed

lemma late_tick_ends_new_route_witness:
  "\<exists>c2 g2 b. handle_update (calm 900) 11
      (core_state_1,
       snd (rgd_tick_claim 900 (rgd_reset\<lparr> rg_emitted_route_state := 1, rg_zero_started_ms := 50, rg_zero_deadline_ms := 850 \<rparr>)))
      = Some (c2, g2) \<and>
    ru_route_state (rg_update_cache g2) = 1 \<and> rgd_tick_send (calm 900) (fc_bus c2) = Some b \<and>
    java_reads b = Some [(''route_state'', ''0''), (''maneuver_count'', ''0'')]"
proof -
  let ?g = "rgd_reset\<lparr> rg_emitted_route_state := 1, rg_zero_started_ms := 50, rg_zero_deadline_ms := 850 \<rparr>"
  let ?u = "zero_update\<lparr> ru_present := RGD_UPD_ROUTE_STATE, ru_route_state := 1 \<rparr>"
  have wf: "rgd_wf 0 ?g" using rgd_reset_wf by (simp add: rgd_wf_def slots_ok_def lanes_table_ok_def)
  have n: "0 + 20 < (2 ^ 32 :: nat)" by simp
  have t: "rgd_tick_claim 900 ?g = (True, snd (rgd_tick_claim 900 ?g))"
    by (simp add: rgd_tick_claim_def rgd_reset_def rgd_maneuver_map_reset_def rgd0_def)
  have p: "rgd_parse_update state_1_message (Some 0) 11 = Some ?u" by code_simp
  have h: "has (ru_present ?u) RGD_UPD_ROUTE_STATE" "ru_route_state ?u > 0" "ru_route_state ?u = 1" by code_simp+
  from late_tick_ends_new_route [OF wf n core_state_1_sel(3) calm_sel(1) calm_sel(2) t core_state_1_sel(1) p h(1,2)]
  show ?thesis unfolding h(3) by blast
qed

end
