(* ===== verification/Rgd_Identify.thy ===== *)
theory Rgd_Identify
  imports Rgd_Hook
begin

text \<open>
  c_hook/routeguidance/rgd_hook.c, the Identify patch and the module as the
  framework sees it: rgd_identify_patcher puts the route guidance display
  component into the accessory's Identify message, in the host's byte array
  (the context's _priv), which it may have to enlarge; rgd_module_def is the
  definition that rgd_init registers.

  An array's data is the whole object, its length the C object's size.  A
  module's identify callback gets the length and the capacity; the buffer is
  the array's data.
\<close>

section \<open>Definitions\<close>

text \<open>The outer None is a fault, the inner None the result NULL.\<close>

definition rgd_resize_identify_buffer :: "rgd_env \<Rightarrow> nme_array option \<Rightarrow> nat \<Rightarrow> nat \<Rightarrow> nme_array option option" where
  "rgd_resize_identify_buffer e priv len new_len =
     (case priv of None \<Rightarrow> Some None
      | Some arr \<Rightarrow>
          if na_cap arr \<ge> new_len then Some (Some arr)
          else
            let alloc = new_len + 64;
                junk = (\<lambda>n. map (re_junk e) [n ..< alloc]);
                grown = (\<lambda>old. arr\<lparr> na_data := Some (old @ junk (length old)), na_cap := alloc mod 2 ^ 32 \<rparr>)
            in if re_realloc e then
                 Some (Some (grown (case na_data arr of None \<Rightarrow> [] | Some d \<Rightarrow> take alloc d)))
               else if \<not> re_malloc e then Some None
               else (case na_data arr of
                   None \<Rightarrow> Some (Some (grown []))
                 | Some d \<Rightarrow> if len > 0 then do { old \<leftarrow> rd_mem d 0 len; Some (Some (grown old)) }
                             else Some (Some (grown []))))"

text \<open>The component id to announce, from the component TLV of the message if it
  has one (its offset and length in the buffer).\<close>

definition identify_component :: "bytes \<Rightarrow> nat \<Rightarrow> nat \<Rightarrow> rgd \<Rightarrow> rgd option" where
  "identify_component buf off existing_len g =
     (if existing_len > 0 then do {
        comp_id \<leftarrow> rgd_extract_component_id buf (Some off) existing_len;
        Some ((if comp_id \<noteq> 0 then g\<lparr> rg_component_id := comp_id \<rparr> else g)\<lparr> rg_component_valid := True \<rparr>) }
      else Some (g\<lparr> rg_component_valid := True \<rparr>))"

text \<open>The new TLV in place of the old one, or behind the message.\<close>

definition identify_splice :: "bytes \<Rightarrow> nat \<Rightarrow> nat \<Rightarrow> nat \<Rightarrow> bytes \<Rightarrow> bytes option" where
  "identify_splice buf len off existing_len t =
     (if existing_len > 0 then do {
        let after_off = off + existing_len;
        let after_len = len - after_off;
        buf \<leftarrow> (if after_len > 0 then do {
                  bs \<leftarrow> rd_mem buf after_off after_len;
                  wr_mem buf (off + length t) bs } else Some buf);
        wr_mem buf off t }
      else wr_mem buf len t)"

definition rgd_identify_patcher :: "rgd_env \<Rightarrow> nat \<Rightarrow> nat \<Rightarrow> rgd_sys \<Rightarrow> (nat \<times> rgd_sys) option" where
  "rgd_identify_patcher e len max_len s = do {
     (c, g) \<leftarrow> rgd_lazy_init e s;
     (case Option.bind (hc_priv (fc_ctx c)) na_data of
        None \<Rightarrow> Some (len, c, g)
      | Some buf \<Rightarrow>
        if len < 6 then Some (len, c, g)
        else do {
          (off, l) \<leftarrow> iap2_find_tlv_offset buf (Some 6) (len - 6) IDENT_TLV_ROUTE_GUIDANCE_COMPONENT;
          let existing_len = (case l of None \<Rightarrow> 0 | Some x \<Rightarrow> unat x);
          g \<leftarrow> identify_component buf (off + 6) existing_len g;
          (n, t) \<leftarrow> rgd_build_component_tlv (replicate 256 0) (Some 0) 256 (rg_component_id g);
          if n = 0 then Some (len, c, g)
          else do {
            let new_len = (if existing_len > 0 then len - existing_len + n else len + n);
            r \<leftarrow> (if new_len > max_len then rgd_resize_identify_buffer e (hc_priv (fc_ctx c)) len new_len
                  else Some (hc_priv (fc_ctx c)));
            (case r of None \<Rightarrow> Some (len, c, g)
             | Some arr \<Rightarrow> do {
                 buf \<leftarrow> na_data arr;
                 t \<leftarrow> rd_mem t 0 n;
                 buf \<leftarrow> identify_splice buf len (off + 6) existing_len t;
                 buf \<leftarrow> write_be16 buf 2 (of_nat new_len);
                 Some (new_len, upd_ctx (\<lambda>x. x\<lparr>
                   hc_priv := Some (arr\<lparr> na_data := Some buf, na_len := new_len mod 2 ^ 32 \<rparr>),
                   hc_rgd_component_id := rg_component_id g, hc_rgd_component_valid := True,
                   hc_identify_patched := True \<rparr>) (c, g)) }) } }) }"

definition rgd_msg_filter :: "u16 list" where
  "rgd_msg_filter = [IAP2_MSG_ROUTE_GUIDANCE_UPDATE, IAP2_MSG_ROUTE_GUIDANCE_MANEUVER, IAP2_MSG_ROUTE_GUIDANCE_LANE]"

definition rgd_module_def :: "rgd_env \<Rightarrow> rgd_sys hook_module" where
  "rgd_module_def e = \<lparr> hm_name = ''routeguidance'', hm_priority = HOOK_PRIORITY_NORMAL,
     hm_msg_filter = Some rgd_msg_filter, hm_on_message = Some (rgd_message_handler e),
     hm_on_identify = Some (rgd_identify_patcher e), hm_on_state = Some (rgd_state_handler e),
     hm_on_transport_send = Some (rgd_transport_handler e), hm_active = False \<rparr>"

text \<open>The flag is g_rgd_module_registered.\<close>

definition rgd_init :: "rgd_env \<Rightarrow> bool \<times> rgd_sys hook_module list \<Rightarrow> bool \<times> rgd_sys hook_module list" where
  "rgd_init e s = (if \<not> fst s then (True, snd (hook_framework_register_module (Some (rgd_module_def e)) (snd s))) else s)"

definition rgd_shutdown :: "rgd_env \<Rightarrow> rgd_sys \<Rightarrow> rgd_sys option" where
  "rgd_shutdown e s = do {
     let s = ((fst s)\<lparr> fc_bus := bus_set_periodic_tick None (fc_bus (fst s)) \<rparr>, snd s);
     (r, s) \<leftarrow> rgd_stop_updates e s;
     rgd_clear_state e (Some ''module_shutdown'') s }"

section \<open>Finding and replacing a TLV\<close>

lemma find_offset_value:
  "find_tlv_offset_loop m p len tid off = Some (o1, Some l) \<Longrightarrow> read_be16 m (p + o1) = Some l \<and> o1 + unat l \<le> len"
proof (induction m p len tid off rule: find_tlv_offset_loop.induct)
  case (1 m p len tid off)
  from 1(2) show ?case
    unfolding find_tlv_offset_loop.simps [of m p len tid off]
    using 1(1) by (auto split: if_splits option.splits)
qed

lemma tlv_pos_split:
  "tid \<notin> fst ` set ts1 \<Longrightarrow> tlv_pos tid (ts1 @ (tid, v) # ts2) = Some (length (concat (map tlv_enc ts1)))"
  by (induction ts1) auto

lemma tlv_pos_none: "tlv_pos tid ts = None \<longleftrightarrow> tid \<notin> fst ` set ts"
  by (induction ts) auto

text \<open>The message is a header of six bytes, TLVs and spare room.\<close>

lemma find_in_message:
  assumes "length hdr = 6" and "list_all tlv_ok ts" and "buf = hdr @ concat (map tlv_enc ts) @ room"
    and "n = length (concat (map tlv_enc ts))"
  shows "tid \<notin> fst ` set ts \<Longrightarrow> iap2_find_tlv_offset buf (Some 6) n tid = Some (0, None)"
    and "ts = ts1 @ (tid, v) # ts2 \<Longrightarrow> tid \<notin> fst ` set ts1 \<Longrightarrow>
      iap2_find_tlv_offset buf (Some 6) n tid = Some (length (concat (map tlv_enc ts1)), Some (of_nat (4 + length v)))"
proof -
  have s: "tlv_split (slice buf 6 n) = ts"
    using assms by (simp add: slice_append_right tlv_split_enc slice_def)
  have b: "6 + n \<le> length buf" using assms by simp
  note spec = find_tlv_offset_loop_spec [OF b, of tid 0]
  { assume "tid \<notin> fst ` set ts"
    then show "iap2_find_tlv_offset buf (Some 6) n tid = Some (0, None)"
      using spec s by (simp add: tlv_pos_none [symmetric] iap2_find_tlv_offset_def)
  next
    assume t: "ts = ts1 @ (tid, v) # ts2" "tid \<notin> fst ` set ts1"
    let ?o = "length (concat (map tlv_enc ts1))"
    have n4: "\<not> n < 4" using t(1) assms(4) by simp
    obtain l where l: "find_tlv_offset_loop buf 6 n tid 0 = Some (?o, Some l)"
      using spec s t tlv_pos_split [OF t(2), of v ts2] by auto
    have "read_be16 buf (6 + ?o) = Some (of_nat (4 + length v))"
      using assms(1,3) t(1)
      by (simp add: read_be16_def rd8_def nth_append tlv_enc_def be_simps)
    then have "l = of_nat (4 + length v)" using find_offset_value [OF l] by simp
    then show "iap2_find_tlv_offset buf (Some 6) n tid = Some (?o, Some (of_nat (4 + length v)))"
      using l n4 by (simp add: iap2_find_tlv_offset_def del: of_nat_add) }
qed

lemma splice_replace:
  assumes "buf = P @ E @ B @ R" and "len = length P + length E + length B" and "E \<noteq> []"
    and "length P + length t + length B \<le> length buf"
  shows "\<exists>R'. identify_splice buf len (length P) (length E) t = Some (P @ t @ B @ R')"
proof (cases "B = []")
  case True
  then show ?thesis using assms by (simp add: identify_splice_def Let_def wr_mem_def patch_def)
next
  case False
  let ?m = "patch buf (length P + length t) B"
  have r: "rd_mem buf (length P + length E) (length B) = Some B"
    using assms(1) by (simp add: rd_mem_def slice_def)
  have w: "wr_mem buf (length P + length t) B = Some ?m" "length ?m = length buf"
    using assms(4) by (simp_all add: wr_mem_def)
  have "patch ?m (length P) t = P @ t @ B @ drop (length P + length t + length B) buf"
  proof -
    have "take (length P) ?m = P" using assms(1,4) by (simp add: patch_def)
    moreover have "drop (length P + length t) ?m = B @ drop (length P + length t + length B) buf"
      using assms(4) by (simp add: patch_def)
    ultimately show ?thesis by (simp add: patch_def)
  qed
  moreover have "length P + length t \<le> length ?m" using assms(4) w(2) by simp
  ultimately show ?thesis
    using assms(2,3) False r w(1) by (simp add: identify_splice_def Let_def wr_mem_def)
qed

lemma splice_append:
  assumes "buf = M @ R" and "length M + length t \<le> length buf"
  shows "\<exists>R'. identify_splice buf (length M) off 0 t = Some (M @ t @ R')"
  using assms by (simp add: identify_splice_def wr_mem_def patch_def)

text \<open>Enlarging keeps the message.\<close>

lemma resize_keeps:
  assumes "na_data arr = Some (M @ R)" and "na_cap arr = length (M @ R)" and "re_realloc e \<or> re_malloc e"
  shows "\<exists>arr' R'. (if new_len > na_cap arr then rgd_resize_identify_buffer e (Some arr) (length M) new_len
      else Some (Some arr)) = Some (Some arr') \<and> na_data arr' = Some (M @ R') \<and> new_len \<le> length (M @ R') \<or>
    new_len < length M"
proof (cases "new_len > na_cap arr")
  case False
  then show ?thesis using assms by auto
next
  case True
  let ?grown = "\<lambda>old. arr\<lparr> na_data := Some (old @ map (re_junk e) [length old ..< new_len + 64]), na_cap := (new_len + 64) mod 2 ^ 32 \<rparr>"
  have "rgd_resize_identify_buffer e (Some arr) (length M) new_len = Some (Some (?grown (M @ R))) \<or>
      rgd_resize_identify_buffer e (Some arr) (length M) new_len = Some (Some (?grown M))"
    using True assms by (auto simp: rgd_resize_identify_buffer_def Let_def rd_mem_def slice_def)
  then show ?thesis
  proof
    assume r: "rgd_resize_identify_buffer e (Some arr) (length M) new_len = Some (Some (?grown (M @ R)))"
    show ?thesis
      unfolding if_P [OF True] r
      by (intro disjI1 exI [of _ "?grown (M @ R)"] exI [of _ "R @ map (re_junk e) [length (M @ R) ..< new_len + 64]"]) simp
  next
    assume r: "rgd_resize_identify_buffer e (Some arr) (length M) new_len = Some (Some (?grown M))"
    show ?thesis
      unfolding if_P [OF True] r
      by (intro disjI1 exI [of _ "?grown M"] exI [of _ "map (re_junk e) [length M ..< new_len + 64]"]) simp
  qed
qed

section \<open>The component id\<close>

definition component_in :: "bytes \<Rightarrow> u16" where
  "component_in v =
     (if length v < 6 then 0
      else case find (\<lambda>t. fst t = RGD_COMP_COMPONENT_ID \<and> 2 \<le> length (snd t)) (tlv_split v) of
        None \<Rightarrow> 0
      | Some t \<Rightarrow> be16 (snd t ! 0) (snd t ! 1))"

lemma walk_component_id:
  "walk_list component_id_case ts 0 =
     Some (case find (\<lambda>t. fst t = RGD_COMP_COMPONENT_ID \<and> 2 \<le> length (snd t)) ts of
        None \<Rightarrow> 0 | Some t \<Rightarrow> be16 (snd t ! 0) (snd t ! 1))"
  by (induction ts) (auto simp: component_id_case_def read_be16_def rd8_def)

lemma extract_component:
  assumes "buf = P @ tlv_enc (tid, v) @ R"
  shows "rgd_extract_component_id buf (Some (length P)) (4 + length v) = Some (component_in v)"
proof (cases "length v < 6")
  case True
  then show ?thesis by (simp add: rgd_extract_component_id_def component_in_def)
next
  case False
  have "slice buf (length P + 4) (length v) = v"
    using assms by (simp add: tlv_enc_def slice_append_right slice_def)
  then show ?thesis
    using False assms by (simp add: rgd_extract_component_id_def tlv_walk_spec walk_component_id component_in_def)
qed

definition announced_id :: "u16 \<Rightarrow> (u16 \<times> bytes) list \<Rightarrow> u16" where
  "announced_id own ts =
     (case find (\<lambda>t. fst t = IDENT_TLV_ROUTE_GUIDANCE_COMPONENT) ts of
        None \<Rightarrow> own
      | Some t \<Rightarrow> if component_in (snd t) \<noteq> 0 then component_in (snd t) else own)"

text \<open>The TLVs of the message with the display component in them.\<close>

fun with_component :: "u16 \<Rightarrow> (u16 \<times> bytes) list \<Rightarrow> (u16 \<times> bytes) list" where
  "with_component cid [] = [(IDENT_TLV_ROUTE_GUIDANCE_COMPONENT, component_value cid)]"
| "with_component cid (t # ts) =
     (if fst t = IDENT_TLV_ROUTE_GUIDANCE_COMPONENT
      then (IDENT_TLV_ROUTE_GUIDANCE_COMPONENT, component_value cid) # ts
      else t # with_component cid ts)"

lemma with_component_absent:
  "IDENT_TLV_ROUTE_GUIDANCE_COMPONENT \<notin> fst ` set ts \<Longrightarrow>
   with_component cid ts = ts @ [(IDENT_TLV_ROUTE_GUIDANCE_COMPONENT, component_value cid)] \<and>
   announced_id d ts = d"
  by (induction ts) (auto simp: announced_id_def)

lemma with_component_present:
  "IDENT_TLV_ROUTE_GUIDANCE_COMPONENT \<notin> fst ` set ts1 \<Longrightarrow>
   with_component cid (ts1 @ (IDENT_TLV_ROUTE_GUIDANCE_COMPONENT, v) # ts2) =
     ts1 @ (IDENT_TLV_ROUTE_GUIDANCE_COMPONENT, component_value cid) # ts2 \<and>
   announced_id d (ts1 @ (IDENT_TLV_ROUTE_GUIDANCE_COMPONENT, v) # ts2) =
     (if component_in v \<noteq> 0 then component_in v else d)"
  by (induction ts1) (auto simp: announced_id_def)

section \<open>Properties\<close>

lemma component_built:
  "rgd_build_component_tlv (replicate 256 0) (Some 0) 256 cid =
     Some (86, patch (replicate 256 0) 0 (tlv_enc (IDENT_TLV_ROUTE_GUIDANCE_COMPONENT, component_value cid)))"
  by (rule build_component_patch) simp_all

lemma component_bytes:
  "rd_mem (patch (replicate 256 0) 0 (tlv_enc (IDENT_TLV_ROUTE_GUIDANCE_COMPONENT, component_value cid))) 0 86 =
     Some (tlv_enc (IDENT_TLV_ROUTE_GUIDANCE_COMPONENT, component_value cid))"
  by (simp add: rd_mem_def patch_at_0 slice_def)

lemma write_length:
  "length hdr = 6 \<Longrightarrow> write_be16 (hdr @ r) 2 v = Some (patch hdr 2 (be16_bytes v) @ r)"
  by (simp add: write_be16_Some patch_def)

text \<open>Where the component goes, in both cases: the new length, the spliced buffer.\<close>

lemma identify_message:
  fixes g :: rgd
  assumes "length hdr = 6" and "list_all tlv_ok ts" and "na_data arr = Some (hdr @ concat (map tlv_enc ts) @ room)"
    and "na_cap arr = length (hdr @ concat (map tlv_enc ts) @ room)" and "re_realloc e \<or> re_malloc e"
    and "len = 6 + length (concat (map tlv_enc ts))"
  defines "buf \<equiv> hdr @ concat (map tlv_enc ts) @ room"
    and "cid \<equiv> announced_id (rg_component_id g) ts"
  defines "ts' \<equiv> with_component cid ts"
  defines "new_len \<equiv> 6 + length (concat (map tlv_enc ts'))"
  shows "\<exists>off l g' arr' buf' room'.
    iap2_find_tlv_offset buf (Some 6) (len - 6) IDENT_TLV_ROUTE_GUIDANCE_COMPONENT = Some (off, l) \<and>
    identify_component buf (off + 6) (case l of None \<Rightarrow> 0 | Some x \<Rightarrow> unat x) g = Some g' \<and>
    g' = g\<lparr> rg_component_id := cid, rg_component_valid := True \<rparr> \<and>
    (if (case l of None \<Rightarrow> 0 | Some x \<Rightarrow> unat x) > 0 then len - (case l of None \<Rightarrow> 0 | Some x \<Rightarrow> unat x) + 86 else len + 86) = new_len \<and>
    (if new_len > na_cap arr then rgd_resize_identify_buffer e (Some arr) len new_len else Some (Some arr)) = Some (Some arr') \<and>
    na_data arr' = Some buf' \<and>
    identify_splice buf' len (off + 6) (case l of None \<Rightarrow> 0 | Some x \<Rightarrow> unat x)
      (tlv_enc (IDENT_TLV_ROUTE_GUIDANCE_COMPONENT, component_value cid)) =
      Some (hdr @ concat (map tlv_enc ts') @ room')"
proof (cases "IDENT_TLV_ROUTE_GUIDANCE_COMPONENT \<in> fst ` set ts")
  case False
  have f: "iap2_find_tlv_offset buf (Some 6) (len - 6) IDENT_TLV_ROUTE_GUIDANCE_COMPONENT = Some (0, None)"
    by (rule find_in_message(1) [OF assms(1,2) buf_def [THEN meta_eq_to_obj_eq] _ False]) (simp add: assms(6))
  have w: "ts' = ts @ [(IDENT_TLV_ROUTE_GUIDANCE_COMPONENT, component_value cid)]" "cid = rg_component_id g"
    using with_component_absent [OF False] by (simp_all add: ts'_def cid_def)
  let ?M = "hdr @ concat (map tlv_enc ts)"
  have len: "length ?M = len" "new_len = len + 86" using assms(1,6) w by (simp_all add: new_len_def)
  have d: "na_data arr = Some (?M @ room)" "na_cap arr = length (?M @ room)" using assms(3,4) by simp_all
  obtain arr' R where r: "(if new_len > na_cap arr then rgd_resize_identify_buffer e (Some arr) len new_len else Some (Some arr)) =
      Some (Some arr')" "na_data arr' = Some (?M @ R)" "new_len \<le> length (?M @ R)"
  proof -
    have "\<not> new_len < len" using len(2) by simp
    with resize_keeps [OF d assms(5), of new_len, unfolded len(1)] that show thesis by blast
  qed
  have "length ?M + length (tlv_enc (IDENT_TLV_ROUTE_GUIDANCE_COMPONENT, component_value cid)) \<le> length (?M @ R)"
    using r(3) len by simp
  from splice_append [OF refl this] obtain R' where
    "identify_splice (?M @ R) len (0 + 6) 0 (tlv_enc (IDENT_TLV_ROUTE_GUIDANCE_COMPONENT, component_value cid)) =
       Some (?M @ tlv_enc (IDENT_TLV_ROUTE_GUIDANCE_COMPONENT, component_value cid) @ R')"
    using len(1) by metis
  then show ?thesis
    using f w(1) w(2) [symmetric] len(2) r(1,2) by (simp add: identify_component_def)
next
  case True
  then have "\<exists>x \<in> set ts. fst x = IDENT_TLV_ROUTE_GUIDANCE_COMPONENT" by force
  from split_list_first_prop [OF this] obtain ts1 t ts2 where
    "ts = ts1 @ t # ts2" "fst t = IDENT_TLV_ROUTE_GUIDANCE_COMPONENT"
    "IDENT_TLV_ROUTE_GUIDANCE_COMPONENT \<notin> fst ` set ts1" by force
  then obtain v where t: "ts = ts1 @ (IDENT_TLV_ROUTE_GUIDANCE_COMPONENT, v) # ts2"
    "IDENT_TLV_ROUTE_GUIDANCE_COMPONENT \<notin> fst ` set ts1" by (metis prod.collapse)
  let ?P = "hdr @ concat (map tlv_enc ts1)" and ?E = "tlv_enc (IDENT_TLV_ROUTE_GUIDANCE_COMPONENT, v)"
    and ?B = "concat (map tlv_enc ts2)" and ?C = "tlv_enc (IDENT_TLV_ROUTE_GUIDANCE_COMPONENT, component_value cid)"
  have f: "iap2_find_tlv_offset buf (Some 6) (len - 6) IDENT_TLV_ROUTE_GUIDANCE_COMPONENT =
      Some (length (concat (map tlv_enc ts1)), Some (of_nat (4 + length v)))"
    by (rule find_in_message(2) [OF assms(1,2) buf_def [THEN meta_eq_to_obj_eq] _ t]) (simp add: assms(6))
  have lv: "unat (of_nat (4 + length v) :: u16) = 4 + length v"
    using assms(2) t(1) by (simp add: tlv_ok_def be_simps del: of_nat_add)
  have off: "length (concat (map tlv_enc ts1)) + 6 = length ?P" using assms(1) by simp
  have buf: "buf = ?P @ ?E @ ?B @ room" using t(1) by (simp add: buf_def)
  have w: "ts' = ts1 @ (IDENT_TLV_ROUTE_GUIDANCE_COMPONENT, component_value cid) # ts2"
    "cid = (if component_in v \<noteq> 0 then component_in v else rg_component_id g)"
    using with_component_present [OF t(2)] t(1) by (simp_all add: ts'_def cid_def)
  have g: "identify_component buf (length ?P) (4 + length v) g = Some (g\<lparr> rg_component_id := cid, rg_component_valid := True \<rparr>)"
    using extract_component [OF buf] w(2) by (simp add: identify_component_def)
  have len: "len = length ?P + length ?E + length ?B" "new_len = len - (4 + length v) + 86"
    using assms(1,6) t(1) w(1) by (simp_all add: new_len_def)
  have d: "na_data arr = Some ((?P @ ?E @ ?B) @ room)" "na_cap arr = length ((?P @ ?E @ ?B) @ room)"
    using assms(3,4) t(1) by simp_all
  have l2: "length (?P @ ?E @ ?B) = len" using len(1) by simp
  obtain arr' R where r: "(if new_len > na_cap arr then rgd_resize_identify_buffer e (Some arr) len new_len else Some (Some arr)) =
      Some (Some arr')" "na_data arr' = Some (?P @ ?E @ ?B @ R)" "new_len \<le> length (?P @ ?E @ ?B @ R)"
  proof (cases "new_len > na_cap arr")
    case True
    then have "\<not> new_len < len" using d(2) l2 by simp
    with resize_keeps [OF d assms(5), of new_len, unfolded l2] that show thesis by (metis append.assoc)
  next
    case False
    then show thesis using d that [of arr room] by simp
  qed
  have "length ?P + length ?C + length ?B \<le> length (?P @ ?E @ ?B @ R)" using r(3) len by simp
  moreover have lE: "length ?E = 4 + length v" by simp
  moreover have "?E \<noteq> []" using lE by (metis add_is_0 list.size(3) zero_neq_numeral)
  ultimately obtain R' where
    s: "identify_splice (?P @ ?E @ ?B @ R) len (length ?P) (4 + length v) ?C = Some (?P @ ?C @ ?B @ R')"
    using splice_replace [OF refl len(1)] by metis
  show ?thesis
    using len(2) w(1) r(1,2) s
    by (intro exI [of _ "length (concat (map tlv_enc ts1))"] exI [of _ "Some (of_nat (4 + length v))"]
        exI [of _ "g\<lparr> rg_component_id := cid, rg_component_valid := True \<rparr>"] exI [of _ arr']
        exI [of _ "?P @ ?E @ ?B @ R"] exI [of _ R'] conjI f)
      (simp_all add: lv off g del: of_nat_add length_append)
qed

lemma with_component_ok: "list_all tlv_ok ts \<Longrightarrow> list_all tlv_ok (with_component cid ts)"
  by (induction ts) (auto simp: tlv_ok_def)

text \<open>The request 0x5200: its TLVs and its frame.\<close>

definition start_request :: "u16 \<Rightarrow> bytes" where
  "start_request cid = frame_enc (IAP2_MSG_ROUTE_GUIDANCE_START,
     concat (map tlv_enc [(RGD_START_TLV_COMPONENT_ID, be16_bytes cid), (RGD_START_TLV_SOURCE_NAME, []),
       (RGD_START_TLV_SOURCE_SUPPORTS_RG, []), (RGD_START_TLV_SUPPORTS_EXIT_INFO, [])]))"

lemma build_empty_tlv:
  "o1 + 4 \<le> length m \<Longrightarrow> 4 \<le> mx \<Longrightarrow> iap2_build_tlv m (Some o1) mx t None 0 = Some (4, patch m o1 (tlv_enc (t, [])))"
  by (simp add: iap2_build_tlv_def mem_simps patch_patch_adj' tlv_enc_def)

lemma start_tlvs_built:
  "start_tlvs cid = Some (Some 18, patch (replicate 24 0) 0
     (concat (map tlv_enc [(RGD_START_TLV_COMPONENT_ID, be16_bytes cid), (RGD_START_TLV_SOURCE_NAME, []),
       (RGD_START_TLV_SOURCE_SUPPORTS_RG, []), (RGD_START_TLV_SUPPORTS_EXIT_INFO, [])])))"
  by (simp add: start_tlvs_def build_tlv_u16_patch build_empty_tlv patch_patch_adj')

lemma build_frame_prefix:
  assumes "n \<le> length pl"
  shows "iap2_build_frame m o1 mx msgid (Some pl) n = iap2_build_frame m o1 mx msgid (Some (take n pl)) n"
proof -
  have "rd_mem (take n pl) 0 n = rd_mem pl 0 n" using assms by (simp add: rd_mem_def slice_def)
  then show ?thesis unfolding iap2_build_frame_def Let_def option.case by (simp only:)
qed

lemma inject_message_frame:
  assumes "n \<le> length pl" and "6 + n \<le> 512"
  shows "hook_inject_message ts al msgid (Some pl) n c =
    hook_inject_frame ts al (Some (patch (replicate 512 0) 0 (frame_enc (msgid, take n pl)))) (6 + n) c"
proof -
  have "length (take n pl) = n" using assms(1) by simp
  then have "iap2_build_frame (replicate 512 0) (Some 0) 512 msgid (Some (take n pl)) n =
      Some (6 + n, patch (replicate 512 0) 0 (frame_enc (msgid, take n pl)))"
    using build_frame_patch [of 0 "take n pl" "replicate 512 0" 512 msgid] assms by simp
  then show ?thesis
    unfolding hook_inject_message_def build_frame_prefix [OF assms(1)] by simp
qed

text \<open>Once Identify announced the component, rgd_request_updates hands
  the transport exactly one message: the stored link header with the new
  length, and the frame 0x5200 with the component's id and the three empty
  option TLVs.  The request counts as sent, and the session as active, exactly
  when the transport accepts it; before Identify nothing is sent.\<close>

theorem request_updates_frame:
  assumes "rg_component_valid g" and "re_inject_alloc e" and "fc_initialized c"
    and "inj_valid (hc_inject (fc_ctx c))" and "inj_transport_self (hc_inject (fc_ctx c)) = Some self"
    and "fc_real_transport c"
    and "inj_prefix_buf (hc_inject (fc_ctx c)) = Some pb" and "inj_prefix_len (hc_inject (fc_ctx c)) = length pb"
    and "9 \<le> length pb" and "be16 (pb ! 2) (pb ! 3) \<noteq> 0"
  shows "\<exists>out r c' g'. rgd_request_updates e (c, g) = Some (r, c', g') \<and>
    fc_tx c' = fc_tx c @ [(Some self, out)] \<and> slice out (length pb) 24 = start_request (rg_component_id g) \<and>
    length out = length pb + 25 \<and> sum8 (drop (length pb) out) = 0 \<and>
    (if re_ts e (fc_tx c) (Some self) out = 0
     then r = HOOK_OK \<and> rg_sent_5200 g' \<and> rg_active g' \<and> hc_session_active (fc_ctx c')
     else r = HOOK_ERR_IO \<and> g' = g) \<and>
    rgd_request_updates e (c, g\<lparr> rg_component_valid := False \<rparr>) = Some (HOOK_ERR_INIT, c, g\<lparr> rg_component_valid := False \<rparr>)"
proof -
  let ?v = "concat (map tlv_enc [(RGD_START_TLV_COMPONENT_ID, be16_bytes (rg_component_id g)), (RGD_START_TLV_SOURCE_NAME, []),
       (RGD_START_TLV_SOURCE_SUPPORTS_RG, []), (RGD_START_TLV_SUPPORTS_EXIT_INFO, [])])"
  let ?pl = "patch (replicate 24 0) 0 ?v"
  have lv: "length ?v = 18" by simp
  have tk: "take 18 ?pl = ?v" using lv unfolding patch_at_0 by simp
  let ?fm = "patch (replicate 512 0) 0 (start_request (rg_component_id g))"
  have lf: "length (start_request (rg_component_id g)) = 24" by (simp add: start_request_def)
  have fm: "take 24 ?fm = start_request (rg_component_id g)" using lf by (simp add: patch_at_0)
  have l24: "18 \<le> length ?pl" "6 + 18 \<le> (512 :: nat)" "6 + 18 = (24 :: nat)" using lv by simp_all
  have inj: "hook_inject_message (re_ts e) (re_inject_alloc e) IAP2_MSG_ROUTE_GUIDANCE_START (Some ?pl) 18 c =
      hook_inject_frame (re_ts e) True (Some ?fm) 24 c"
    using inject_message_frame [OF l24(1,2), of "re_ts e" "re_inject_alloc e" IAP2_MSG_ROUTE_GUIDANCE_START c] assms(2)
    unfolding tk l24(3) start_request_def by simp
  have f: "6 \<le> (24 :: nat)" "24 \<le> length ?fm" using lf by simp_all
  obtain out where out: "hook_inject_frame (re_ts e) True (Some ?fm) 24 c =
      Some (if re_ts e (fc_tx c) (Some self) out \<noteq> 0 then HOOK_ERR_IO else HOOK_OK,
            c\<lparr> fc_in_send := False, fc_tx := fc_tx c @ [(Some self, out)] \<rparr>)"
    "length out = length pb + 24 + 1" "slice out (length pb) 24 = take 24 ?fm" "sum8 (drop (length pb) out) = 0"
    using inject_with_prefix [OF f assms(3-10), of "re_ts e"] by blast
  let ?c = "c\<lparr> fc_in_send := False, fc_tx := fc_tx c @ [(Some self, out)] \<rparr>"
  have st: "start_tlvs (rg_component_id g) = Some (Some 18, ?pl)" by (rule start_tlvs_built)
  have no: "rgd_request_updates e (c, g\<lparr> rg_component_valid := False \<rparr>) = Some (HOOK_ERR_INIT, c, g\<lparr> rg_component_valid := False \<rparr>)"
    by (simp add: rgd_request_updates_def)
  show ?thesis
  proof (cases "re_ts e (fc_tx c) (Some self) out = 0")
    case True
    have "rgd_request_updates e (c, g) = Some (HOOK_OK,
        rgd_update_session_active (?c, g\<lparr> rg_sent_5200 := True, rg_active := True \<rparr>))"
      unfolding rgd_request_updates_def snd_conv fst_conv st inj out(1) using assms(1) True inj out(1) by simp
    then show ?thesis
      using True out(2-4) fm no
      by (intro exI [of _ out]) (simp add: rgd_update_session_active_def upd_ctx_def)
  next
    case False
    have "rgd_request_updates e (c, g) = Some (HOOK_ERR_IO, ?c, g)"
      unfolding rgd_request_updates_def snd_conv fst_conv st using assms(1) False inj out(1) by simp
    then show ?thesis
      using False out(2-4) fm no by (intro exI [of _ out]) simp
  qed
qed

lemma request_updates_frame_witness:
  "\<exists>out r c' g'. rgd_request_updates (calm 5) (core_ready, rgd0\<lparr> rg_component_valid := True \<rparr>) = Some (r, c', g') \<and>
    fc_tx c' = [(Some 7, out)] \<and> slice out 9 24 = start_request 0x10 \<and> r = HOOK_OK"
proof -
  let ?pb = "[0xFF, 0x5A, 0, 20, 0x40, 1, 2, 3, 0] :: bytes"
  have g: "rg_component_valid (rgd0\<lparr> rg_component_valid := True \<rparr>)" "re_inject_alloc (calm 5)"
    "rg_component_id (rgd0\<lparr> rg_component_valid := True \<rparr>) = 0x10"
    by (simp_all add: calm_def rgd0_def)
  have c: "fc_initialized core_ready" "inj_valid (hc_inject (fc_ctx core_ready))"
    "inj_transport_self (hc_inject (fc_ctx core_ready)) = Some 7" "fc_real_transport core_ready"
    "inj_prefix_buf (hc_inject (fc_ctx core_ready)) = Some ?pb" "inj_prefix_len (hc_inject (fc_ctx core_ready)) = length ?pb"
    "9 \<le> length ?pb" "fc_tx core_ready = []"
    by (simp_all add: core_ready_def core0_def)
  have b: "be16 (?pb ! 2) (?pb ! 3) \<noteq> 0" by code_simp
  have t: "re_ts (calm 5) x y z = 0" for x y z by (simp add: calm_def)
  have l: "length ?pb = 9" by simp
  from request_updates_frame [OF g(1,2) c(1-7) b, unfolded c(8) g(3) t l] show ?thesis by fastforce
qed

text \<open>Property C3. Given an Identify message in the host's array, the patcher leaves
  the message with the route guidance display component in it: in place of
  the component TLV the message had, whose id is kept, or behind all TLVs with
  the module's own id.  Every other TLV keeps its place and bytes, the array
  is enlarged when it is too small, the length in the header and the array's
  length are the new one, nothing outside the array is touched, and the
  context says the message is patched with that id.\<close>

theorem identify_gets_component:
  assumes "rgd_inv n (c, g)" and "re_al e = (True, True, a3)" and "hc_priv (fc_ctx c) = Some arr"
    and "length hdr = 6" and "list_all tlv_ok ts" and "na_data arr = Some (hdr @ concat (map tlv_enc ts) @ room)"
    and "na_cap arr = length (hdr @ concat (map tlv_enc ts) @ room)" and "re_realloc e \<or> re_malloc e"
    and "len = 6 + length (concat (map tlv_enc ts))"
  shows "\<exists>cid new_len c' g' arr' m'. cid = announced_id (rg_component_id g) ts \<and>
    new_len = 6 + length (concat (map tlv_enc (with_component cid ts))) \<and>
    rgd_identify_patcher e len (na_cap arr) (c, g) = Some (new_len, c', g') \<and>
    hc_priv (fc_ctx c') = Some arr' \<and> na_data arr' = Some m' \<and> na_len arr' = new_len mod 2 ^ 32 \<and>
    take 6 m' = patch hdr 2 (be16_bytes (of_nat new_len)) \<and>
    tlv_split (slice m' 6 (new_len - 6)) = with_component cid ts \<and>
    hc_identify_patched (fc_ctx c') \<and> hc_rgd_component_valid (fc_ctx c') \<and> hc_rgd_component_id (fc_ctx c') = cid \<and>
    rg_component_id g' = cid \<and> rg_component_valid g' \<and> rgd_inv n (c', g')"
proof -
  obtain c1 g1 where i: "rgd_lazy_init e (c, g) = Some (c1, g1)" "rgd_inv n (c1, g1)"
    "hc_priv (fc_ctx c1) = Some arr" "rg_component_id g1 = rg_component_id g"
    using lazy_init_total [OF assms(1,2)] assms(3) by auto
  define cid where "cid = announced_id (rg_component_id g) ts"
  let ?ts = "with_component cid ts"
  let ?n = "6 + length (concat (map tlv_enc ?ts))"
  let ?g = "g1\<lparr> rg_component_id := cid, rg_component_valid := True \<rparr>"
  have c: "announced_id (rg_component_id g1) ts = cid" by (simp add: i(4) cid_def)
  obtain off l arr' buf' room' where m:
    "iap2_find_tlv_offset (hdr @ concat (map tlv_enc ts) @ room) (Some 6) (len - 6) IDENT_TLV_ROUTE_GUIDANCE_COMPONENT = Some (off, l)"
    "identify_component (hdr @ concat (map tlv_enc ts) @ room) (off + 6) (case l of None \<Rightarrow> 0 | Some x \<Rightarrow> unat x) g1 = Some ?g"
    "(if (case l of None \<Rightarrow> 0 | Some x \<Rightarrow> unat x) > 0 then len - (case l of None \<Rightarrow> 0 | Some x \<Rightarrow> unat x) + 86 else len + 86) = ?n"
    "(if ?n > na_cap arr then rgd_resize_identify_buffer e (Some arr) len ?n else Some (Some arr)) = Some (Some arr')"
    "na_data arr' = Some buf'"
    "identify_splice buf' len (off + 6) (case l of None \<Rightarrow> 0 | Some x \<Rightarrow> unat x)
       (tlv_enc (IDENT_TLV_ROUTE_GUIDANCE_COMPONENT, component_value cid)) =
       Some (hdr @ concat (map tlv_enc ?ts) @ room')"
    using identify_message [OF assms(4-9), of g1] unfolding c by blast
  define buf2 where "buf2 = patch hdr 2 (be16_bytes (of_nat ?n)) @ concat (map tlv_enc ?ts) @ room'"
  have w: "write_be16 (hdr @ concat (map tlv_enc ?ts) @ room') 2 (of_nat ?n) = Some buf2"
    unfolding buf2_def by (rule write_length [OF assms(4)])
  let ?s = "upd_ctx (\<lambda>x. x\<lparr> hc_priv := Some (arr'\<lparr> na_data := Some buf2, na_len := ?n mod 2 ^ 32 \<rparr>),
                   hc_rgd_component_id := cid, hc_rgd_component_valid := True,
                   hc_identify_patched := True \<rparr>) (c1, ?g)"
  have nl: "\<not> len < 6" using assms(9) by simp
  have cg: "rg_component_id ?g = cid" by simp
  have run: "rgd_identify_patcher e len (na_cap arr) (c, g) = Some (?n, ?s)"
    unfolding rgd_identify_patcher_def i(1) bind.bind_lunit prod.case i(3) assms(6) option.case if_not_P [OF nl]
      m(1,2) Let_def cg component_built component_bytes m(3,4) m(5,6) w
    by simp
  have lh: "length (patch hdr 2 (be16_bytes (of_nat ?n))) = 6" using assms(4) by simp
  have "list_all tlv_ok ?ts" by (rule with_component_ok [OF assms(5)])
  then have "tlv_split (slice buf2 6 (?n - 6)) = ?ts"
    using lh by (simp add: buf2_def slice_append_right tlv_split_enc slice_def)
  moreover have "take 6 buf2 = patch hdr 2 (be16_bytes (of_nat ?n))" using lh by (simp add: buf2_def)
  moreover have "rgd_inv n (fst ?s, snd ?s)"
    using i(2) by (simp add: rgd_inv_def upd_ctx_def rgd_wf_def rgd_raw_def slots_ok_def lanes_table_ok_def lane_lengths_def)
  ultimately show ?thesis
    unfolding run
    by (intro exI [of _ cid] exI [of _ ?n] exI [of _ "fst ?s"] exI [of _ "snd ?s"]
        exI [of _ "arr'\<lparr> na_data := Some buf2, na_len := ?n mod 2 ^ 32 \<rparr>"] exI [of _ buf2])
      (simp add: cid_def upd_ctx_def)
qed

lemma identify_gets_component_witness:
  "\<exists>c' g' arr' m'. rgd_identify_patcher (calm 5) 11 11
      (core0\<lparr> fc_ctx := zero_ctx\<lparr> hc_priv := Some \<lparr> na_data = Some [0x40, 0x40, 0, 11, 0x1D, 1, 0, 5, 0, 2, 7],
         na_len = 11, na_cap = 11 \<rparr> \<rparr> \<rparr>, rgd0) = Some (97, c', g') \<and>
    hc_priv (fc_ctx c') = Some arr' \<and> na_data arr' = Some m' \<and>
    tlv_split (slice m' 6 91) = [(2, [7]), (0x1E, component_value 0x10)]"
proof -
  let ?arr = "\<lparr> na_data = Some [0x40, 0x40, 0, 11, 0x1D, 1, 0, 5, 0, 2, 7], na_len = 11, na_cap = 11 \<rparr>"
  let ?c = "core0\<lparr> fc_ctx := zero_ctx\<lparr> hc_priv := Some ?arr \<rparr> \<rparr>"
  let ?ts = "[(2, [7])] :: (u16 \<times> bytes) list"
  have inv: "rgd_inv 0 (?c, rgd0)"
    using bus_ok_bus0 by (simp add: rgd_inv_def rgd_raw_def core0_def rgd0_def lane_lengths_def zero_maneuver_def)
  have p: "hc_priv (fc_ctx ?c) = Some ?arr" by simp
  have h: "length [0x40, 0x40, 0, 11, 0x1D, 1 :: u8] = 6" "list_all tlv_ok ?ts" by (simp_all add: tlv_ok_def)
  have d: "na_data ?arr = Some ([0x40, 0x40, 0, 11, 0x1D, 1] @ concat (map tlv_enc ?ts) @ [])"
    "na_cap ?arr = length ([0x40, 0x40, 0, 11, 0x1D, 1] @ concat (map tlv_enc ?ts) @ ([] :: bytes))"
    by (code_simp, simp)
  have r: "re_realloc (calm 5) \<or> re_malloc (calm 5)" by (simp add: calm_def)
  have l: "11 = 6 + length (concat (map tlv_enc ?ts))" by simp
  have a: "announced_id (rg_component_id rgd0) ?ts = 0x10" "rg_component_id rgd0 = 0x10" by code_simp+
  have w: "with_component 0x10 ?ts = [(2, [7]), (0x1E, component_value 0x10)]"
    by (simp add: IDENT_TLV_ROUTE_GUIDANCE_COMPONENT_def)
  have k: "6 + length (concat (map tlv_enc [(2, [7]), (0x1E, component_value 0x10)])) = 97" by simp
  from identify_gets_component [OF inv calm_sel(2) p h d r l] show ?thesis
    unfolding a(1) by (elim exE conjE) (hypsubst, unfold w k, fastforce)
qed

end
