(* ===== verification/Cover_Bytes.thy ===== *)
theory Cover_Bytes
  imports Common
begin

text \<open>
  c_hook/coverart/coverart_hook.c, the functions over raw bytes: the CRC used to
  recognise an image seen before, the signature tests, the byte search and
  the reader of the EXIF orientation.  A pointer with a length is the list of
  the bytes; reads are checked, so that None is a read outside them.
\<close>

section \<open>Constants\<close>

definition COVERART_MIN_BYTES :: nat where "COVERART_MIN_BYTES = 500"
definition COVERART_MAX_BYTES :: nat where "COVERART_MAX_BYTES = 800000"
definition jpeg_soi :: bytes where "jpeg_soi = [0xFF, 0xD8]"
definition jpeg_eoi :: bytes where "jpeg_eoi = [0xFF, 0xD9]"

section \<open>Definitions\<close>

primrec crc_bits :: "nat \<Rightarrow> u32 \<Rightarrow> u32" where
  "crc_bits 0 crc = crc"
| "crc_bits (Suc n) crc = crc_bits n (drop_bit 1 crc XOR (0xEDB88320 AND - (crc AND 1)))"

definition crc_byte :: "u8 \<Rightarrow> u32 \<Rightarrow> u32" where
  "crc_byte b crc = crc_bits 8 (crc XOR ucast b)"

definition crc32_bytes :: "bytes \<Rightarrow> u32" where
  "crc32_bytes data = NOT (fold crc_byte data 0xFFFFFFFF)"

definition png_sig :: bytes where
  "png_sig = [0x89, 0x50, 0x4E, 0x47, 0x0D, 0x0A, 0x1A, 0x0A]"

definition is_png :: "bytes \<Rightarrow> bool" where
  "is_png data \<longleftrightarrow> (if length data < length png_sig then False else take (length png_sig) data = png_sig)"

definition is_jpeg :: "bytes \<Rightarrow> bool" where
  "is_jpeg data \<longleftrightarrow> (if length data < 3 then False else data ! 0 = 0xFF \<and> data ! 1 = 0xD8 \<and> data ! 2 = 0xFF)"

text \<open>The offset the search returns; h is the haystack from position i on.\<close>

fun memmem_loop :: "nat \<Rightarrow> bytes \<Rightarrow> bytes \<Rightarrow> nat option" where
  "memmem_loop i [] n = None"
| "memmem_loop i (x # h) n =
     (if length (x # h) < length n then None
      else if x = n ! 0 \<and> take (length n) (x # h) = n then Some i
      else memmem_loop (i + 1) h n)"

declare memmem_loop.simps(2) [simp del]

definition my_memmem :: "bytes \<Rightarrow> bytes \<Rightarrow> nat option" where
  "my_memmem h n =
     (if length n = 0 then Some 0
      else if length h < length n then None
      else memmem_loop 0 h n)"

text \<open>A 16 or 32 bit field of the TIFF header in the byte order it declares.\<close>

definition tiff16 :: "bool \<Rightarrow> bytes \<Rightarrow> nat \<Rightarrow> u16 option" where
  "tiff16 little data p = do {
     a \<leftarrow> rd8 data p; b \<leftarrow> rd8 data (p + 1);
     Some (if little then be16 b a else be16 a b) }"

definition tiff32 :: "bool \<Rightarrow> bytes \<Rightarrow> nat \<Rightarrow> u32 option" where
  "tiff32 little data p = do {
     a \<leftarrow> rd8 data p; b \<leftarrow> rd8 data (p + 1); c \<leftarrow> rd8 data (p + 2); d \<leftarrow> rd8 data (p + 3);
     Some (if little then be32 d c b a else be32 a b c d) }"

text \<open>The entries of the image file directory, n of them from offset off of the
  TIFF data (at tiff, of the given size): the inner None when no entry is the
  orientation.\<close>

fun ifd_loop :: "bool \<Rightarrow> bytes \<Rightarrow> nat \<Rightarrow> nat \<Rightarrow> nat \<Rightarrow> nat \<Rightarrow> nat option option" where
  "ifd_loop little data tiff tiff_size 0 off = Some None"
| "ifd_loop little data tiff tiff_size (Suc n) off =
     (if off + 12 \<le> tiff_size then do {
        tag \<leftarrow> tiff16 little data (tiff + off);
        if tag = 0x0112 then do {
          v \<leftarrow> tiff16 little data (tiff + off + 8);
          Some (Some (if 1 \<le> v \<and> v \<le> 8 then unat v else 0)) }
        else ifd_loop little data tiff tiff_size n (off + 12) }
      else Some None)"

definition exif_header :: bytes where
  "exif_header = [0x45, 0x78, 0x69, 0x66, 0, 0]"

text \<open>An APP1 segment: Some v ends the search with v, None goes on.  The test of
  the directory's offset is 32 bit arithmetic, and so are the addresses of the
  target (an ARMv7): the sum of a pointer and the offset wraps with it.\<close>

definition exif_segment :: "bytes \<Rightarrow> nat \<Rightarrow> nat \<Rightarrow> nat option option" where
  "exif_segment data seg seg_size = do {
     is_exif \<leftarrow> (if seg_size \<ge> 6 then map_option (\<lambda>h. h = exif_header) (rd_mem data seg 6) else Some False);
     if \<not> is_exif then Some None
     else do {
       let tiff = seg + 6;
       let tiff_size = seg_size - 6;
       if tiff_size < 8 then Some (Some 0)
       else do {
         a \<leftarrow> rd8 data tiff; b \<leftarrow> rd8 data (tiff + 1);
         let little = (a = 0x49 \<and> b = 0x49);
         let big = (a = 0x4D \<and> b = 0x4D);
         if \<not> little \<and> \<not> big then Some (Some 0)
         else do {
           ifd_offset \<leftarrow> tiff32 little data (tiff + 4);
           if unat (ifd_offset + 2) > tiff_size then Some (Some 0)
           else do {
             num_entries \<leftarrow> tiff16 little data ((tiff + unat ifd_offset) mod 2 ^ 32);
             ifd_loop little data tiff tiff_size (unat num_entries) (unat (ifd_offset + 2)) } } } } }"

function orient_loop :: "bytes \<Rightarrow> nat \<Rightarrow> nat option" where
  "orient_loop data pos =
     (if pos + 4 < length data then do {
        b \<leftarrow> rd8 data pos;
        if b \<noteq> 0xFF then orient_loop data (pos + 1)
        else do {
          marker \<leftarrow> rd8 data (pos + 1);
          if marker = 0xFF then orient_loop data (pos + 1)
          else if marker = 0xD9 \<or> marker = 0xDA then Some 0
          else if (0xD0 \<le> marker \<and> marker \<le> 0xD7) \<or> marker = 0xD8 \<or> marker = 0x01 then orient_loop data (pos + 2)
          else if pos + 4 > length data then Some 0
          else do {
            h \<leftarrow> rd8 data (pos + 2); l \<leftarrow> rd8 data (pos + 3);
            if unat (be16 h l) < 2 \<or> pos + 2 + unat (be16 h l) > length data then Some 0
            else do {
              r \<leftarrow> (if marker = 0xE1 \<and> unat (be16 h l) \<ge> 8 then exif_segment data (pos + 4) (unat (be16 h l) - 2)
                    else Some None);
              (case r of Some v \<Rightarrow> Some v | None \<Rightarrow> orient_loop data (pos + 2 + unat (be16 h l))) } } } }
      else Some 0)"
  by pat_completeness auto
termination by (relation "measure (\<lambda>(data, pos). length data - pos)") auto

declare orient_loop.simps [simp del]

definition get_jpeg_orientation :: "bytes \<Rightarrow> nat option" where
  "get_jpeg_orientation data =
     (if length data < 12 then Some 0
      else if data ! 0 \<noteq> 0xFF \<or> data ! 1 \<noteq> 0xD8 then Some 0
      else orient_loop data 2)"

section \<open>The CRC tells apart images that differ in one byte\<close>

lemma xor_cancel: "a XOR k = b XOR k \<longleftrightarrow> a = b" for a b k :: "'a::len word"
  by (auto simp: bit_eq_iff bit_simps)

lemma crc_step_inj:
  fixes a b :: u32
  assumes "drop_bit 1 a XOR (0xEDB88320 AND - (a AND 1)) = drop_bit 1 b XOR (0xEDB88320 AND - (b AND 1))"
  shows "a = b"
proof -
  have m: "- (c AND 1) = (if bit c 0 then - 1 else 0)" for c :: u32
    by (simp add: and_one_eq bit_0 mod2_eq_if)
  have p: "bit (0xEDB88320 :: u32) 31" by code_simp
  have top: "bit (drop_bit 1 c XOR (0xEDB88320 AND - (c AND 1))) 31 = bit c 0" for c :: u32
    unfolding m bit_xor_iff bit_and_iff bit_drop_bit_eq using p by (simp add: bit_and_iff impossible_bit)
  have z: "bit a 0 = bit b 0" using top [of a] top [of b] assms by simp
  then have "- (a AND 1) = - (b AND 1)" unfolding m by simp
  then have d: "drop_bit 1 a = drop_bit 1 b" using assms by (simp add: xor_cancel)
  have "bit a n = bit b n" for n
  proof (cases "n = 0")
    case False
    have "bit a (1 + (n - 1)) = bit b (1 + (n - 1))"
      using d unfolding bit_drop_bit_eq [symmetric, unfolded comp_def] by (metis bit_drop_bit_eq comp_apply)
    then show ?thesis using False by simp
  qed (use z in simp)
  then show ?thesis by (intro bit_word_eqI) simp
qed

lemma crc_bits_inj: "crc_bits n a = crc_bits n b \<Longrightarrow> a = b"
proof (induction n arbitrary: a b)
  case (Suc n)
  have "crc_bits n (drop_bit 1 a XOR (0xEDB88320 AND - (a AND 1))) =
      crc_bits n (drop_bit 1 b XOR (0xEDB88320 AND - (b AND 1)))"
    using Suc.prems by (simp only: crc_bits.simps)
  then show ?case by (rule crc_step_inj [OF Suc.IH])
qed simp

lemma crc_byte_inj: "crc_byte x a = crc_byte x b \<Longrightarrow> a = b"
  unfolding crc_byte_def by (drule crc_bits_inj) (simp only: xor_cancel)

lemma crc_byte_inj_data: "crc_byte x a = crc_byte y a \<Longrightarrow> x = y"
proof -
  assume "crc_byte x a = crc_byte y a"
  then have "a XOR (ucast x :: u32) = a XOR ucast y"
    unfolding crc_byte_def by (rule crc_bits_inj)
  then have "(ucast x :: u32) = ucast y" by (simp only: xor.commute [of a] xor_cancel)
  moreover have "ucast (ucast z :: u32) = z" for z :: u8 by (rule bit_word_eqI) (simp add: bit_simps)
  ultimately show "x = y" by metis
qed

lemma crc_fold_inj: "fold crc_byte r a = fold crc_byte r b \<Longrightarrow> a = b"
  by (induction r arbitrary: a b) (auto dest: crc_byte_inj)

lemma crc32_bytes_one_byte:
  "crc32_bytes (l @ x # r) = crc32_bytes (l @ y # r) \<longleftrightarrow> x = y"
proof
  assume e: "crc32_bytes (l @ x # r) = crc32_bytes (l @ y # r)"
  have c: "crc32_bytes (l @ z # r) = NOT (fold crc_byte r (crc_byte z (fold crc_byte l 0xFFFFFFFF)))" for z
    by (simp only: crc32_bytes_def fold_append comp_apply fold_simps)
  have "fold crc_byte r (crc_byte x (fold crc_byte l 0xFFFFFFFF)) = fold crc_byte r (crc_byte y (fold crc_byte l 0xFFFFFFFF))"
    using e unfolding c by (simp only: bit.compl_eq_compl_iff)
  then show "x = y" by (rule crc_byte_inj_data [OF crc_fold_inj])
qed simp

section \<open>The search finds the first occurrence\<close>

definition occurs_at :: "bytes \<Rightarrow> bytes \<Rightarrow> nat \<Rightarrow> bool" where
  "occurs_at n h i \<longleftrightarrow> i + length n \<le> length h \<and> slice h i (length n) = n"

lemma occurs_at_0: "occurs_at n h 0 \<longleftrightarrow> length n \<le> length h \<and> take (length n) h = n"
  by (auto simp: occurs_at_def slice_def)

lemma occurs_at_Suc: "occurs_at n (x # h) (i + 1) \<longleftrightarrow> occurs_at n h i"
  by (auto simp: occurs_at_def slice_def drop_Cons')

definition first_at :: "bytes \<Rightarrow> bytes \<Rightarrow> nat \<Rightarrow> bool" where
  "first_at n h i \<longleftrightarrow> occurs_at n h i \<and> (\<forall>j < i. \<not> occurs_at n h j)"

lemma first_at_unique: "first_at n h i \<Longrightarrow> first_at n h j \<Longrightarrow> i = j"
  unfolding first_at_def by (metis linorder_neqE_nat)

lemma memmem_loop_spec:
  "n \<noteq> [] \<Longrightarrow> (case memmem_loop i h n of None \<Rightarrow> \<forall>j. \<not> occurs_at n h j
     | Some k \<Rightarrow> i \<le> k \<and> first_at n h (k - i))"
proof (induction i h n rule: memmem_loop.induct)
  case (1 i n)
  then show ?case by (simp add: occurs_at_def)
next
  case (2 i x h n)
  have z: "occurs_at n (x # h) 0 \<longleftrightarrow> length n \<le> length (x # h) \<and> x = n ! 0 \<and> take (length n) (x # h) = n"
    using 2(2) by (cases n) (auto simp: occurs_at_0 take_Cons')
  have s: "j \<noteq> 0 \<Longrightarrow> occurs_at n (x # h) j \<longleftrightarrow> occurs_at n h (j - 1)" for j
    using occurs_at_Suc [of n x h "j - 1"] by simp
  show ?case
  proof (cases "length (x # h) < length n")
    case True
    then show ?thesis by (simp add: occurs_at_def memmem_loop.simps(2))
  next
    case long: False
    show ?thesis
    proof (cases "x = n ! 0 \<and> take (length n) (x # h) = n")
      case True
      have "memmem_loop i (x # h) n = Some i"
        unfolding memmem_loop.simps if_not_P [OF long] if_P [OF True] by simp
      moreover have "occurs_at n (x # h) 0" using True long unfolding z not_less by blast
      ultimately show ?thesis by (simp add: first_at_def)
    next
      case False
      then have r: "memmem_loop i (x # h) n = memmem_loop (i + 1) h n" and n0: "\<not> occurs_at n (x # h) 0"
        using long z by (auto simp: memmem_loop.simps(2))
      note ih = 2(1) [OF long False 2(2)]
      show ?thesis
      proof (cases "memmem_loop (i + 1) h n")
        case None
        then have "\<not> occurs_at n h j" for j using ih by simp
        then have "\<not> occurs_at n (x # h) j" for j using n0 s [of j] by (cases "j = 0") simp_all
        then show ?thesis using r None by simp
      next
        case (Some k)
        then have k: "i + 1 \<le> k" "first_at n h (k - (i + 1))" using ih by auto
        have "\<not> occurs_at n (x # h) j" if "j < k - i" for j
          using k that n0 s [of j] by (cases "j = 0") (simp_all add: first_at_def)
        moreover have "occurs_at n (x # h) (k - i)"
          using k s [of "k - i"] by (simp add: first_at_def)
        ultimately have "first_at n (x # h) (k - i)" by (simp add: first_at_def)
        then show ?thesis using r Some k(1) by simp
      qed
    qed
  qed
qed

lemma my_memmem_Some: "n \<noteq> [] \<Longrightarrow> my_memmem h n = Some k \<longleftrightarrow> first_at n h k"
proof -
  assume n: "n \<noteq> []"
  note l = memmem_loop_spec [OF n, where i = 0 and h = h]
  have short: "length h < length n \<Longrightarrow> \<not> occurs_at n h j" for j by (simp add: occurs_at_def)
  show ?thesis
  proof (cases "my_memmem h n")
    case None
    then have "\<not> occurs_at n h j" for j using n l short by (auto simp: my_memmem_def split: if_splits)
    then show ?thesis using None by (simp add: first_at_def)
  next
    case (Some i)
    then have "first_at n h i" using n l by (auto simp: my_memmem_def split: if_splits)
    then show ?thesis using Some first_at_unique by auto
  qed
qed

lemma my_memmem_None: "n \<noteq> [] \<Longrightarrow> my_memmem h n = None \<longleftrightarrow> (\<forall>j. \<not> occurs_at n h j)"
proof -
  assume n: "n \<noteq> []"
  have "(\<exists>j. occurs_at n h j) \<longleftrightarrow> (\<exists>k. first_at n h k)"
    unfolding first_at_def by (metis (mono_tags, lifting) exists_least_iff)
  then show ?thesis using my_memmem_Some [OF n, of h] by (metis not_Some_eq)
qed

section \<open>The EXIF reader stays in its buffer\<close>

lemma tiff16_Some [mem_simps]: "p + 2 \<le> length data \<Longrightarrow> \<exists>v. tiff16 little data p = Some v"
  by (simp add: tiff16_def rd8_def)

lemma tiff32_Some: "p + 4 \<le> length data \<Longrightarrow> \<exists>v. tiff32 little data p = Some v"
  by (simp add: tiff32_def rd8_def)

lemma ifd_loop_total:
  "tiff + tiff_size \<le> length data \<Longrightarrow>
   \<exists>r. ifd_loop little data tiff tiff_size n off = Some r \<and> (\<forall>v. r = Some v \<longrightarrow> v \<le> 8)"
proof (induction n arbitrary: off)
  case (Suc n)
  show ?case
  proof (cases "off + 12 \<le> tiff_size")
    case True
    obtain tag where t: "tiff16 little data (tiff + off) = Some tag"
      using tiff16_Some [of "tiff + off" data] Suc.prems True by fastforce
    obtain v where v: "tiff16 little data (tiff + off + 8) = Some v"
      using tiff16_Some [of "tiff + off + 8" data] Suc.prems True by fastforce
    have "v \<le> 8 \<Longrightarrow> unat v \<le> 8" by (simp add: word_le_nat_alt)
    then show ?thesis using True t v Suc by auto
  qed simp
qed simp

text \<open>An offset that passes the test: the count lies in the segment, or the test
  has wrapped and the count lies in the last two bytes of the Exif mark or
  starts at the last of them.\<close>

lemma offset_inside:
  fixes off :: u32
  assumes "unat (off + 2) \<le> sz" and "6 \<le> t" and "t + sz \<le> n" and "2 \<le> sz"
  shows "(t + unat off) mod 2 ^ 32 + 2 \<le> n"
proof (cases "unat off + 2 < 2 ^ 32")
  case True
  then have "unat off + 2 \<le> sz" using assms(1) by (simp add: unat_plus_if_size word_size)
  moreover have "(t + unat off) mod 2 ^ 32 \<le> t + unat off" by (rule mod_less_eq_dividend)
  ultimately show ?thesis using assms(3) by linarith
next
  case False
  define k where "k = 2 ^ 32 - unat off"
  have "unat off < 2 ^ LENGTH(32)" by (rule unsigned_less)
  then have k: "1 \<le> k" "k \<le> 2" "unat off = 2 ^ 32 - k" using False by (simp_all add: k_def)
  have "(t + unat off) mod 2 ^ 32 = (t - k + 2 ^ 32) mod 2 ^ 32" using k assms(2) by simp
  also have "\<dots> = (t - k) mod 2 ^ 32" by (rule mod_add_self2)
  also have "\<dots> \<le> t - k" by (rule mod_less_eq_dividend)
  finally show ?thesis using k assms by linarith
qed

lemma exif_segment_total:
  assumes "seg + seg_size \<le> length data"
  shows "\<exists>r. exif_segment data seg seg_size = Some r \<and> (\<forall>v. r = Some v \<longrightarrow> v \<le> 8)"
proof (cases "seg_size \<ge> 6 \<and> slice data seg 6 = exif_header \<and> 14 \<le> seg_size")
  case False
  then show ?thesis using assms by (auto simp: exif_segment_def mem_simps Let_def)
next
  case True
  define a b where "a = data ! (seg + 6)" and "b = data ! (seg + 7)"
  have ab: "rd8 data (seg + 6) = Some a" "rd8 data (seg + 7) = Some b" "rd8 data (7 + seg) = Some b"
    using True assms(1) by (simp_all add: rd8_def a_def b_def add.commute)
  have h: "rd_mem data seg 6 = Some exif_header" using True assms(1) by (simp add: mem_simps)
  define little where "little = (a = 0x49 \<and> b = 0x49)"
  show ?thesis
  proof (cases "little \<or> a = 0x4D \<and> b = 0x4D")
    case False
    then show ?thesis using True h ab by (auto simp: exif_segment_def Let_def little_def)
  next
    case mark: True
    obtain off where off: "tiff32 little data (seg + 10) = Some off"
      using tiff32_Some [of "seg + 10" data] True assms(1) by fastforce
    have run: "exif_segment data seg seg_size =
      (if unat (off + 2) > seg_size - 6 then Some (Some 0)
       else do { n \<leftarrow> tiff16 little data ((seg + 6 + unat off) mod 2 ^ 32);
                 ifd_loop little data (seg + 6) (seg_size - 6) (unat n) (unat (off + 2)) })"
      using True h ab mark off by (auto simp: exif_segment_def Let_def little_def add.assoc)
    show ?thesis
    proof (cases "unat (off + 2) > seg_size - 6")
      case False
      have "(seg + 6 + unat off) mod 2 ^ 32 + 2 \<le> length data"
        by (rule offset_inside [of off "seg_size - 6"]) (use False True assms in linarith)+
      then obtain n where n: "tiff16 little data ((seg + 6 + unat off) mod 2 ^ 32) = Some n"
        using tiff16_Some by blast
      have "seg + 6 + (seg_size - 6) \<le> length data" using True assms(1) by simp
      then show ?thesis using run False n ifd_loop_total [of "seg + 6" "seg_size - 6" data little "unat n"] by simp
    qed (simp add: run)
  qed
qed

text \<open>One round of the loop over the segments.\<close>

lemma orient_step:
  "orient_loop data pos = Some 0 \<or>
   pos < length data \<and> (\<exists>k > pos. orient_loop data pos = orient_loop data k \<or>
     (\<exists>seg n. seg + n \<le> length data \<and> orient_loop data pos =
        do { r \<leftarrow> exif_segment data seg n; (case r of Some v \<Rightarrow> Some v | None \<Rightarrow> orient_loop data k) }))"
proof (cases "pos + 4 < length data")
  case False
  then show ?thesis by (simp add: orient_loop.simps)
next
  case True
  define b m s where "b = data ! pos" and "m = data ! (pos + 1)"
    and "s = unat (be16 (data ! (pos + 2)) (data ! (pos + 3)))"
  have rd: "rd8 data pos = Some b" "rd8 data (pos + 1) = Some m"
    "rd8 data (pos + 2) = Some (data ! (pos + 2))" "rd8 data (pos + 3) = Some (data ! (pos + 3))"
    using True by (simp_all add: rd8_def b_def m_def)
  note eq = orient_loop.simps [of data pos, unfolded if_P [OF True] rd Option.bind.bind_lunit, folded s_def]
  have pos: "pos < length data" "\<not> pos + 4 > length data" using True by simp_all
  have skip: ?thesis if "orient_loop data pos = orient_loop data k" "pos < k" for k using that pos(1) by blast
  consider "b \<noteq> 0xFF \<or> m = 0xFF" | "b = 0xFF" "m \<noteq> 0xFF" "m = 0xD9 \<or> m = 0xDA"
    | "b = 0xFF" "m \<noteq> 0xFF" "\<not> (m = 0xD9 \<or> m = 0xDA)" "(0xD0 \<le> m \<and> m \<le> 0xD7) \<or> m = 0xD8 \<or> m = 0x01"
    | "b = 0xFF" "m \<noteq> 0xFF" "\<not> (m = 0xD9 \<or> m = 0xDA)" "\<not> ((0xD0 \<le> m \<and> m \<le> 0xD7) \<or> m = 0xD8 \<or> m = 0x01)"
    by blast
  then show ?thesis
  proof cases
    case 1
    then have "orient_loop data pos = orient_loop data (pos + 1)" using eq by (auto split: if_splits)
    then show ?thesis by (rule skip) simp
  next
    case 2
    then show ?thesis using eq by simp
  next
    case 3
    then have "orient_loop data pos = orient_loop data (pos + 2)" using eq by auto
    then show ?thesis by (rule skip) simp
  next
    case 4
    note e4 = eq [unfolded if_not_P [OF 4(3)] if_not_P [OF 4(4)] if_not_P [OF pos(2)]]
    show ?thesis
    proof (cases "s < 2 \<or> pos + 2 + s > length data")
      case True
      then show ?thesis using 4(1,2) e4 by simp
    next
      case seg: False
      note e5 = e4 [unfolded if_not_P [OF seg]]
      show ?thesis
      proof (cases "m = 0xE1 \<and> s \<ge> 8")
        case True
        then have "orient_loop data pos =
          do { r \<leftarrow> exif_segment data (pos + 4) (s - 2); (case r of Some v \<Rightarrow> Some v | None \<Rightarrow> orient_loop data (pos + 2 + s)) }"
          using 4(1,2) e5 by simp
        moreover have "pos + 4 + (s - 2) \<le> length data" "pos < pos + 2 + s" using seg True by simp_all
        ultimately show ?thesis using pos(1) by blast
      next
        case False
        then have "orient_loop data pos = orient_loop data (pos + 2 + s)" using 4(1,2) e5 by auto
        then show ?thesis by (rule skip) simp
      qed
    qed
  qed
qed

lemma orient_loop_total: "\<exists>v. orient_loop data pos = Some v"
proof (induction "length data - pos" arbitrary: pos rule: less_induct)
  case less
  have ih: "pos < length data \<Longrightarrow> pos < k \<Longrightarrow> \<exists>v. orient_loop data k = Some v" for k
    using less [of k] by simp
  have ex: "seg + n \<le> length data \<Longrightarrow> \<exists>r. exif_segment data seg n = Some r" for seg n
    using exif_segment_total by blast
  show ?case
    using orient_step [of data pos] ih ex by (fastforce split: option.splits)
qed

lemma exif_value_small:
  "ifd_loop little data tiff n k off = Some (Some v) \<Longrightarrow> v \<le> 8"
  "exif_segment data seg seg_size = Some (Some v) \<Longrightarrow> v \<le> 8"
proof -
  show ifd: "ifd_loop little data tiff n k off = Some (Some v) \<Longrightarrow> v \<le> 8" for little data tiff n k off
  proof (induction k arbitrary: off)
    case (Suc k)
    have "w \<le> 8 \<Longrightarrow> unat w \<le> 8" for w :: u16 by (simp add: word_le_nat_alt)
    then show ?case using Suc by (auto split: bind_splits if_splits)
  qed simp
  show "exif_segment data seg seg_size = Some (Some v) \<Longrightarrow> v \<le> 8"
    by (auto simp: exif_segment_def Let_def split: bind_splits if_splits dest: ifd)
qed

lemma orient_loop_small: "orient_loop data pos = Some v \<Longrightarrow> v \<le> 8"
proof (induction "length data - pos" arbitrary: pos rule: less_induct)
  case less
  have ih: "pos < length data \<Longrightarrow> pos < k \<Longrightarrow> orient_loop data k = Some v \<Longrightarrow> v \<le> 8" for k
    using less(1) [of k] by simp
  show ?case
    using orient_step [of data pos] ih less(2) exif_value_small(2)
    by (auto split: option.splits bind_splits)
qed

section \<open>The orientation of a well formed JPEG is found\<close>

definition t16 :: "bool \<Rightarrow> u16 \<Rightarrow> bytes" where
  "t16 little v = (if little then rev (be16_bytes v) else be16_bytes v)"

lemma length_t16 [simp]: "length (t16 little v) = 2" by (simp add: t16_def)

lemma tiff16_t16: "length a = p \<Longrightarrow> tiff16 little (a @ t16 little v @ b) p = Some v"
  by (auto simp: tiff16_def t16_def be16_bytes_def rd8_def nth_append be_simps)

text \<open>A directory entry: tag, type and count, value, padding.\<close>

definition ifd_entry :: "bool \<Rightarrow> u16 \<times> bytes \<times> u16 \<times> bytes \<Rightarrow> bytes" where
  "ifd_entry little e = (case e of (tag, mid, v, pad) \<Rightarrow> t16 little tag @ mid @ t16 little v @ pad)"

definition entry_ok :: "u16 \<times> bytes \<times> u16 \<times> bytes \<Rightarrow> bool" where
  "entry_ok e = (case e of (tag, mid, v, pad) \<Rightarrow> length mid = 6 \<and> length pad = 2)"

definition clip8 :: "u16 \<Rightarrow> nat" where
  "clip8 v = (if 1 \<le> v \<and> v \<le> 8 then unat v else 0)"

lemma ifd_loop_finds:
  "\<lbrakk> data = a @ concat (map (ifd_entry little) es) @ b; tiff + off = length a; off + 12 * length es \<le> n;
     list_all entry_ok es \<rbrakk> \<Longrightarrow>
   ifd_loop little data tiff n (length es) off =
     Some (map_option (\<lambda>e. clip8 (fst (snd (snd e)))) (find (\<lambda>e. fst e = 0x0112) es))"
proof (induction es arbitrary: a off)
  case (Cons e es)
  obtain tag mid v pad where e: "e = (tag, mid, v, pad)" by (cases e)
  have l: "length mid = 6" "length pad = 2" using Cons.prems(4) by (simp_all add: e entry_ok_def)
  have ent: "ifd_entry little e = t16 little tag @ mid @ t16 little v @ pad" by (simp add: e ifd_entry_def)
  let ?r = "concat (map (ifd_entry little) es) @ b"
  have d: "data = a @ t16 little tag @ (mid @ t16 little v @ pad @ ?r)"
    "data = (a @ t16 little tag @ mid) @ t16 little v @ (pad @ ?r)"
    "data = (a @ ifd_entry little e) @ ?r"
    using Cons.prems(1) by (simp_all add: ent)
  have 1: "tiff16 little data (tiff + off) = Some tag"
    using tiff16_t16 [of a "tiff + off"] Cons.prems(2) d(1) by simp
  have 2: "tiff16 little data (tiff + off + 8) = Some v"
    using tiff16_t16 [of "a @ t16 little tag @ mid" "tiff + off + 8"] Cons.prems(2) d(2) l by simp
  have 3: "ifd_loop little data tiff n (length es) (off + 12) =
      Some (map_option (\<lambda>e. clip8 (fst (snd (snd e)))) (find (\<lambda>e. fst e = 0x0112) es))"
    by (rule Cons.IH [OF d(3)]) (use Cons.prems l in \<open>simp_all add: ent\<close>)
  have "off + 12 \<le> n" using Cons.prems(3) by simp
  then show ?case using 1 2 3 by (simp add: e clip8_def ifd_loop.simps(2) [unfolded Suc_eq_plus1])
qed simp

text \<open>The segment of an EXIF block with one directory at offset 8.\<close>

definition exif_block :: "bool \<Rightarrow> (u16 \<times> bytes \<times> u16 \<times> bytes) list \<Rightarrow> bytes \<Rightarrow> bytes" where
  "exif_block little es rest =
     exif_header @ (if little then [0x49, 0x49] else [0x4D, 0x4D]) @ t16 little 0x2A @
     (if little then [8, 0, 0, 0] else [0, 0, 0, 8]) @ t16 little (of_nat (length es)) @
     concat (map (ifd_entry little) es) @ rest"

lemma length_entries: "list_all entry_ok es \<Longrightarrow> length (concat (map (ifd_entry little) es)) = 12 * length es"
  by (induction es) (auto simp: entry_ok_def ifd_entry_def)

lemma exif_segment_finds:
  assumes "length a = seg" and "list_all entry_ok es" and "length es < 2 ^ 16"
    and "seg_size = length (exif_block little es rest)" and "seg + seg_size < 2 ^ 32"
  shows "exif_segment (a @ exif_block little es rest @ b) seg seg_size =
    Some (map_option (\<lambda>e. clip8 (fst (snd (snd e)))) (find (\<lambda>e. fst e = 0x0112) es))"
proof -
  let ?d = "a @ exif_block little es rest @ b"
  define m where "m = (if little then [0x49, 0x49] else [0x4D, 0x4D :: u8])"
  define o8 where "o8 = (if little then [8, 0, 0, 0] else [0, 0, 0, 8 :: u8])"
  let ?tail = "concat (map (ifd_entry little) es) @ rest @ b"
  have d: "?d = a @ exif_header @ (m @ t16 little 0x2A @ o8 @ t16 little (of_nat (length es)) @ ?tail)"
    "?d = (a @ exif_header @ m @ t16 little 0x2A @ o8) @ t16 little (of_nat (length es)) @ ?tail"
    "?d = (a @ exif_header @ m @ t16 little 0x2A @ o8 @ t16 little (of_nat (length es))) @ ?tail"
    by (simp_all add: exif_block_def m_def o8_def)
  have l: "length exif_header = 6" "length m = 2" "length o8 = 4"
    by (simp_all add: exif_header_def m_def o8_def)
  have size: "seg_size = 16 + 12 * length es + length rest"
    using assms(4) length_entries [OF assms(2)] by (simp add: exif_block_def l)
  have h: "rd_mem ?d seg 6 = Some exif_header"
    using assms(1) by (simp add: d(1) rd_mem_def l)
  have mark: "rd8 ?d (seg + 6) = Some (m ! 0)" "rd8 ?d (7 + seg) = Some (m ! 1)"
    using assms(1) unfolding d(1) by (simp_all add: rd8_def nth_append l)
  have off: "tiff32 little ?d (10 + seg) = Some 8"
    using assms(1) unfolding d(1)
    by (simp add: tiff32_def rd8_def nth_append l o8_def be32_def)
  have cnt: "tiff16 little ?d (14 + seg) = Some (of_nat (length es))"
    by (subst d(2), rule tiff16_t16) (simp add: assms(1) l)
  have len: "unat (of_nat (length es) :: u16) = length es"
    using assms(3) by (simp add: unat_of_nat take_bit_nat_eq_self)
  have loop: "ifd_loop little ?d (seg + 6) (seg_size - 6) (length es) 10 =
      Some (map_option (\<lambda>e. clip8 (fst (snd (snd e)))) (find (\<lambda>e. fst e = 0x0112) es))"
    by (rule ifd_loop_finds [OF d(3)]) (use assms size l in simp_all)
  show ?thesis
    using size h off cnt loop mark assms(5) by (cases little) (simp_all add: exif_segment_def m_def len Let_def)
qed

definition seg_bytes :: "u8 \<times> bytes \<Rightarrow> bytes" where
  "seg_bytes s = [0xFF, fst s] @ be16_bytes (of_nat (length (snd s) + 2)) @ snd s"

text \<open>A segment with a length that is not an EXIF candidate.\<close>

definition plain_seg :: "u8 \<times> bytes \<Rightarrow> bool" where
  "plain_seg s \<longleftrightarrow> fst s \<notin> {0xFF, 0xD8, 0xD9, 0xDA, 0x01, 0xE1} \<and> \<not> (0xD0 \<le> fst s \<and> fst s \<le> 0xD7) \<and>
     length (snd s) + 2 < 2 ^ 16"

lemma seg_reads:
  assumes "length a = p" and "length (snd s) + 2 < 2 ^ 16"
  shows "rd8 (a @ seg_bytes s @ r) p = Some 0xFF" "rd8 (a @ seg_bytes s @ r) (p + 1) = Some (fst s)"
    "\<exists>h l. rd8 (a @ seg_bytes s @ r) (p + 2) = Some h \<and> rd8 (a @ seg_bytes s @ r) (p + 3) = Some l \<and>
       unat (be16 h l) = length (snd s) + 2"
proof -
  have d: "a @ seg_bytes s @ r = a @ [0xFF, fst s] @ be16_bytes (of_nat (length (snd s) + 2)) @ (snd s @ r)"
    by (simp add: seg_bytes_def)
  show "rd8 (a @ seg_bytes s @ r) p = Some 0xFF" "rd8 (a @ seg_bytes s @ r) (p + 1) = Some (fst s)"
    using assms(1) unfolding d by (simp_all add: rd8_def nth_append)
  let ?w = "of_nat (length (snd s) + 2) :: u16"
  have "rd8 (a @ seg_bytes s @ r) (p + 2) = Some (be16_bytes ?w ! 0)"
    "rd8 (a @ seg_bytes s @ r) (p + 3) = Some (be16_bytes ?w ! 1)"
    using assms(1) unfolding d by (simp_all add: rd8_def nth_append del: of_nat_add)
  moreover have "unat (be16 (be16_bytes ?w ! 0) (be16_bytes ?w ! 1)) = length (snd s) + 2"
    unfolding be16_bytes_nth using assms(2) by (simp add: unat_of_nat take_bit_nat_eq_self del: of_nat_add)
  ultimately show "\<exists>h l. rd8 (a @ seg_bytes s @ r) (p + 2) = Some h \<and> rd8 (a @ seg_bytes s @ r) (p + 3) = Some l \<and>
       unat (be16 h l) = length (snd s) + 2" by blast
qed

lemma length_seg_bytes [simp]: "length (seg_bytes s) = 4 + length (snd s)"
  by (simp add: seg_bytes_def)

lemma orient_loop_at_seg:
  assumes "length (snd s) + 2 < 2 ^ 16" and "fst s \<notin> {0xFF, 0xD8, 0xD9, 0xDA, 0x01}" and "\<not> (0xD0 \<le> fst s \<and> fst s \<le> 0xD7)"
    and "snd s @ r \<noteq> []" and "length a = p"
  shows "orient_loop (a @ seg_bytes s @ r) p =
    do { x \<leftarrow> (if fst s = 0xE1 \<and> length (snd s) + 2 \<ge> 8
              then exif_segment (a @ seg_bytes s @ r) (p + 4) (length (snd s)) else Some None);
         (case x of Some v \<Rightarrow> Some v | None \<Rightarrow> orient_loop (a @ seg_bytes s @ r) (p + 4 + length (snd s))) }"
proof -
  obtain h l where h: "rd8 (a @ seg_bytes s @ r) (p + 2) = Some h" "rd8 (a @ seg_bytes s @ r) (p + 3) = Some l"
    "unat (be16 h l) = length (snd s) + 2"
    using seg_reads(3) [OF assms(5,1)] by blast
  have g: "p + 4 < length (a @ seg_bytes s @ r)" using assms(4,5) by (cases "snd s") auto
  have "p + 2 + unat (be16 h l) = p + 4 + length (snd s)" using h(3) by simp
  then show ?thesis
    using assms(2,3,5) g h seg_reads(1,2) [OF assms(5,1), of r]
    by (subst orient_loop.simps) (auto simp: add.commute add.left_commute)
qed

lemma orient_loop_skips:
  "list_all plain_seg segs \<Longrightarrow> r \<noteq> [] \<Longrightarrow>
   orient_loop (a @ concat (map seg_bytes segs) @ r) (length a) =
   orient_loop (a @ concat (map seg_bytes segs) @ r) (length a + length (concat (map seg_bytes segs)))"
proof (induction segs arbitrary: a)
  case (Cons s segs)
  let ?r = "concat (map seg_bytes segs) @ r"
  have s: "plain_seg s" using Cons.prems(1) by simp
  have "orient_loop (a @ seg_bytes s @ ?r) (length a) = orient_loop (a @ seg_bytes s @ ?r) (length a + 4 + length (snd s))"
    by (subst orient_loop_at_seg) (use s Cons.prems(2) in \<open>auto simp: plain_seg_def\<close>)
  moreover have "orient_loop ((a @ seg_bytes s) @ ?r) (length (a @ seg_bytes s)) =
      orient_loop ((a @ seg_bytes s) @ ?r) (length (a @ seg_bytes s) + length (concat (map seg_bytes segs)))"
    by (rule Cons.IH) (use Cons.prems in simp_all)
  ultimately show ?case by (simp add: add.assoc)
qed simp

text \<open>The orientation of a JPEG with leading segments that are not APP1 and an EXIF
  segment is the value of the first orientation entry, 0 when that is not one
  of 1 to 8, in either byte order.\<close>

lemma exif_orientation_read:
  assumes "list_all plain_seg segs" and "list_all entry_ok es" and "length (exif_block little es rest) + 2 < 2 ^ 16"
    and "find (\<lambda>e. fst e = 0x0112) es = Some (tag, mid, v, pad)"
    and "length (jpeg_soi @ concat (map seg_bytes segs) @ seg_bytes (0xE1, exif_block little es rest) @ tail) < 2 ^ 32"
  shows "get_jpeg_orientation (jpeg_soi @ concat (map seg_bytes segs) @
    seg_bytes (0xE1, exif_block little es rest) @ tail) = Some (clip8 v)"
proof -
  let ?x = "exif_block little es rest"
  let ?a = "jpeg_soi @ concat (map seg_bytes segs)"
  have n: "length es < 2 ^ 16" "14 \<le> length ?x"
    using assms(3) length_entries [OF assms(2), of little] by (simp_all add: exif_block_def exif_header_def)
  have "exif_segment ((?a @ [0xFF, 0xE1] @ be16_bytes (of_nat (length ?x + 2))) @ ?x @ tail) (length ?a + 4) (length ?x) =
      Some (Some (clip8 v))"
    by (subst exif_segment_finds) (use assms n in simp_all)
  then have x: "exif_segment (?a @ seg_bytes (0xE1, ?x) @ tail) (length ?a + 4) (length ?x) = Some (Some (clip8 v))"
    by (simp add: seg_bytes_def)
  have e: "orient_loop (?a @ seg_bytes (0xE1, ?x) @ tail) (length ?a) = Some (clip8 v)"
    by (subst orient_loop_at_seg) (use assms(3) n x in auto)
  have "orient_loop (jpeg_soi @ concat (map seg_bytes segs) @ (seg_bytes (0xE1, ?x) @ tail)) (length jpeg_soi) = Some (clip8 v)"
    by (subst orient_loop_skips) (use assms(1) e in \<open>simp_all add: seg_bytes_def\<close>)
  then show ?thesis
    using n(2) by (simp add: get_jpeg_orientation_def jpeg_soi_def nth_append)
qed

section \<open>Properties\<close>

text \<open>An image whose directory offset is 0xFFFFFFFF, and a small well formed one.\<close>

definition wrapping_jpeg :: bytes where
  "wrapping_jpeg = [0xFF, 0xD8, 0xFF, 0xE1, 0, 33] @ exif_header @
     [0x4D, 0x4D, 0, 0x2A, 0xFF, 0xFF, 0xFF, 0xFF, 0, 0, 0, 0, 0, 0x01, 0x12, 0, 0, 0, 0, 0, 0, 0, 6, 0, 0] @ [0, 0]"

definition orientation_entry :: "u16 \<times> bytes \<times> u16 \<times> bytes" where
  "orientation_entry = (0x0112, [3, 0, 1, 0, 0, 0], 4, [0, 0])"

text \<open>Property C37. Whatever the bytes, the EXIF reader reads only inside the image
  and returns an orientation from 0 to 8.  In a JPEG with leading segments that
  are not APP1 and then an EXIF segment, in either byte order, that is the value
  of the first orientation entry (0 when it is not one of 1 to 8).  But the
  bound check of the directory's offset wraps: for the offset 0xFFFFFFFF, far
  outside the segment, it passes, and the reader takes the bytes from offset 1
  for a directory; in this image it finds the orientation 6 there.\<close>

theorem exif_reads_inside:
  "(\<exists>v \<le> 8. get_jpeg_orientation data = Some v) \<and>
   (\<forall>segs es little rest tail tag mid v pad.
      list_all plain_seg segs \<and> list_all entry_ok es \<and> length (exif_block little es rest) + 2 < 2 ^ 16 \<and>
      find (\<lambda>e. fst e = 0x0112) es = Some (tag, mid, v, pad) \<and>
      length (jpeg_soi @ concat (map seg_bytes segs) @ seg_bytes (0xE1, exif_block little es rest) @ tail) < 2 ^ 32 \<longrightarrow>
      get_jpeg_orientation (jpeg_soi @ concat (map seg_bytes segs) @
        seg_bytes (0xE1, exif_block little es rest) @ tail) = Some (clip8 v)) \<and>
   get_jpeg_orientation wrapping_jpeg = Some 6"
proof (intro conjI)
  have "\<exists>v. get_jpeg_orientation data = Some v \<and> (v = 0 \<or> orient_loop data 2 = Some v)"
    using orient_loop_total [of data 2] by (auto simp: get_jpeg_orientation_def)
  then show "\<exists>v \<le> 8. get_jpeg_orientation data = Some v" using orient_loop_small [of data 2] by fastforce
  let ?x = "exif_header @ [0x4D, 0x4D, 0, 0x2A, 0xFF, 0xFF, 0xFF, 0xFF, 0, 0, 0, 0, 0, 0x01, 0x12, 0, 0, 0, 0, 0, 0, 0, 6, 0, 0]"
  have w: "wrapping_jpeg = jpeg_soi @ seg_bytes (0xE1, ?x) @ [0, 0]" by code_simp
  have off: "be32 0xFF 0xFF 0xFF 0xFF = 0xFFFFFFFF" "unat ((0xFFFFFFFF :: u32) + 2) = 1"
    "be16 0 0x4D = 77" "be16 0x4D 0x4D = 0x4D4D" "be16 1 0x12 = 0x0112" "be16 0 6 = 6" by code_simp+
  have rd: "tiff32 False wrapping_jpeg 16 = Some 0xFFFFFFFF" "tiff16 False wrapping_jpeg 11 = Some 77"
    "tiff16 False wrapping_jpeg 13 = Some 0x4D00" "tiff16 False wrapping_jpeg 25 = Some 0x0112"
    "tiff16 False wrapping_jpeg 33 = Some 6" "rd_mem wrapping_jpeg 6 6 = Some exif_header"
    "rd8 wrapping_jpeg 12 = Some 0x4D" "rd8 wrapping_jpeg 13 = Some 0x4D" by code_simp+
  have "ifd_loop False wrapping_jpeg 12 25 (Suc (Suc 75)) 1 = Some (Some 6)"
    unfolding ifd_loop.simps(2) by (simp add: rd)
  moreover have "Suc (Suc 75) = 77" by simp
  ultimately have loop: "ifd_loop False wrapping_jpeg 12 25 77 1 = Some (Some 6)" by simp
  from rd have "exif_segment wrapping_jpeg 6 31 = Some (Some 6)"
    using loop by (simp add: exif_segment_def off)
  then have "orient_loop wrapping_jpeg 2 = Some 6"
    unfolding w by (subst orient_loop_at_seg) (simp_all add: jpeg_soi_def exif_header_def)
  then show "get_jpeg_orientation wrapping_jpeg = Some 6"
    by (simp add: get_jpeg_orientation_def wrapping_jpeg_def exif_header_def)
qed (use exif_orientation_read in blast)

lemma exif_reads_inside_witness:
  "get_jpeg_orientation (jpeg_soi @ seg_bytes (0xE1, exif_block True [orientation_entry] []) @ []) = Some 4"
proof -
  let ?e = orientation_entry
  have "list_all plain_seg [] \<and> list_all entry_ok [?e] \<and> length (exif_block True [?e] []) + 2 < 2 ^ 16 \<and>
      find (\<lambda>e. fst e = 0x0112) [?e] = Some (0x0112, [3, 0, 1, 0, 0, 0], 4, [0, 0]) \<and>
      length (jpeg_soi @ concat (map seg_bytes []) @ seg_bytes (0xE1, exif_block True [?e] []) @ []) < 2 ^ 32"
    by (simp add: orientation_entry_def entry_ok_def exif_block_def exif_header_def ifd_entry_def jpeg_soi_def)
  from exif_reads_inside [THEN conjunct2, THEN conjunct1, rule_format, OF this]
  show ?thesis by (simp add: clip8_def)
qed

end
