(* ===== verification/Cover_Stream.thy ===== *)
theory Cover_Stream
  imports Cover_Bytes
begin

text \<open>
  c_hook/coverart/coverart_hook.c, the capture: the per descriptor stream state,
  the packet scanner (FF 5A framing), the assembly of the JPEG, the filter of
  descriptors and the open and close hooks.

  A stream holds the valid bytes of its two buffers (raw_buf up to raw_len,
  jpeg_buf up to jpeg_len) and their capacities; a write past a capacity or a
  read past the valid bytes is None.  Which allocations succeed is an argument.
  Sizes are natural numbers: no read returns the 2 GB from which size_t sums
  could wrap.  The mutexes make each locked part atomic; handle_stream_data is
  the lookup followed by the locked part with its ownership test.
\<close>

section \<open>State\<close>

record stream =
  st_fd :: int
  st_raw :: bytes
  st_raw_cap :: nat
  st_jpeg :: bytes
  st_jpeg_cap :: nat
  st_target :: int
  st_carplay :: bool
  st_probe :: nat
  st_active :: bool

record cover =
  co_streams :: "stream list"
  co_fd_skip :: "int \<Rightarrow> bool"
  co_fd_iap2 :: "int \<Rightarrow> bool"

record stream_env =
  se_raw_alloc :: bool
  se_jpeg_alloc :: "nat \<Rightarrow> bool"
  se_image_alloc :: bool

definition PACKET_HEADER_SIZE :: nat where "PACKET_HEADER_SIZE = 4"
definition PACKET_WRAPPER_SIZE :: nat where "PACKET_WRAPPER_SIZE = 7"
definition PACKET_TRAILER_SIZE :: nat where "PACKET_TRAILER_SIZE = 1"
definition TOTAL_STRIP_SIZE :: nat where "TOTAL_STRIP_SIZE = PACKET_HEADER_SIZE + PACKET_WRAPPER_SIZE"
definition STREAM_BUF_MAX :: nat where "STREAM_BUF_MAX = 1024 * 1024"
definition MAX_STREAMS :: nat where "MAX_STREAMS = 16"
definition COVERART_MAX_JPEG :: nat where "COVERART_MAX_JPEG = 32 * 1024 * 1024"
definition FD_TABLE_SIZE :: int where "FD_TABLE_SIZE = 1024"
definition FD_PROBE_LIMIT :: nat where "FD_PROBE_LIMIT = 64"
definition IAP2_USB_PATH :: string where "IAP2_USB_PATH = ''/dev/otg-cinemo''"
definition JPEG_KEEP_MAX :: nat where "JPEG_KEEP_MAX = 10 * 1024 * 1024"

definition zero_stream :: stream where
  "zero_stream = \<lparr> st_fd = 0, st_raw = [], st_raw_cap = 0, st_jpeg = [], st_jpeg_cap = 0, st_target = 0,
     st_carplay = False, st_probe = 0, st_active = False \<rparr>"

definition cover0 :: cover where
  "cover0 = \<lparr> co_streams = replicate MAX_STREAMS zero_stream, co_fd_skip = (\<lambda>_. False), co_fd_iap2 = (\<lambda>_. False) \<rparr>"

section \<open>Slots\<close>

definition fresh_stream :: "int \<Rightarrow> stream" where
  "fresh_stream fd = \<lparr> st_fd = fd, st_raw = [], st_raw_cap = 0, st_jpeg = [], st_jpeg_cap = 0, st_target = - 1,
     st_carplay = False, st_probe = 0, st_active = True \<rparr>"

text \<open>The slot of the descriptor and the first free one.\<close>

primrec stream_loop :: "int \<Rightarrow> nat \<Rightarrow> nat option \<Rightarrow> stream list \<Rightarrow> nat option \<times> nat option" where
  "stream_loop fd i fr [] = (None, fr)"
| "stream_loop fd i fr (s # ss) =
     (if st_active s \<and> st_fd s = fd then (Some i, fr)
      else stream_loop fd (i + 1) (if \<not> st_active s \<and> fr = None then Some i else fr) ss)"

definition get_stream :: "int \<Rightarrow> stream list \<Rightarrow> nat option \<times> stream list" where
  "get_stream fd ss =
     (case stream_loop fd 0 None ss of
        (Some i, _) \<Rightarrow> (Some i, ss)
      | (None, None) \<Rightarrow> (None, ss)
      | (None, Some i) \<Rightarrow> (Some i, ss[i := fresh_stream fd]))"

section \<open>Buffers\<close>

function grow_cap :: "nat \<Rightarrow> nat \<Rightarrow> nat" where
  "grow_cap cap need = (if 0 < cap \<and> cap < need then grow_cap (cap * 2) need else cap)"
  by pat_completeness auto
termination by (relation "measure (\<lambda>(cap, need). need - cap)") auto

declare grow_cap.simps [simp del]

definition new_cap :: "nat \<Rightarrow> nat \<Rightarrow> nat" where
  "new_cap cap need = grow_cap (if cap \<noteq> 0 then cap * 2 else 65536) need"

text \<open>Whether the bytes were appended.\<close>

definition append_raw :: "bool \<Rightarrow> bytes \<Rightarrow> stream \<Rightarrow> (bool \<times> stream) option" where
  "append_raw al buf st =
     (let need = length (st_raw st) + length buf in
      if need > st_raw_cap st then
        let c = new_cap (st_raw_cap st) need in
        if c > STREAM_BUF_MAX then Some (False, st\<lparr> st_raw := [] \<rparr>)
        else if \<not> al then Some (False, st\<lparr> st_raw := [] \<rparr>)
        else if need \<le> c then Some (True, st\<lparr> st_raw_cap := c, st_raw := st_raw st @ buf \<rparr>) else None
      else Some (True, st\<lparr> st_raw := st_raw st @ buf \<rparr>))"

definition append_jpeg :: "bool \<Rightarrow> bytes \<Rightarrow> stream \<Rightarrow> (bool \<times> stream) option" where
  "append_jpeg al payload st =
     (let need = length (st_jpeg st) + length payload in
      if need > st_jpeg_cap st then
        if need > COVERART_MAX_JPEG then
          Some (False, st\<lparr> st_jpeg := [], st_jpeg_cap := 0, st_target := - 1 \<rparr>)
        else
          let c = new_cap (st_jpeg_cap st) need;
              c = (if c > COVERART_MAX_JPEG then COVERART_MAX_JPEG else c)
          in if \<not> al then Some (False, st)
             else if need \<le> c then Some (True, st\<lparr> st_jpeg_cap := c, st_jpeg := st_jpeg st @ payload \<rparr>) else None
      else Some (True, st\<lparr> st_jpeg := st_jpeg st @ payload \<rparr>))"

section \<open>Packets\<close>

text \<open>A packet that was accepted: whether the scan goes on.\<close>

definition accept_packet :: "(nat \<Rightarrow> bool) \<Rightarrow> nat \<Rightarrow> nat \<Rightarrow> stream \<Rightarrow> (bool \<times> stream) option" where
  "accept_packet al k packet_len st =
     (let st = st\<lparr> st_carplay := True \<rparr> in
      if packet_len > TOTAL_STRIP_SIZE + PACKET_TRAILER_SIZE then do {
        session_id \<leftarrow> rd8 (st_raw st) (k + 7);
        payload \<leftarrow> rd_mem (st_raw st) (k + TOTAL_STRIP_SIZE) (packet_len - TOTAL_STRIP_SIZE - PACKET_TRAILER_SIZE);
        let st = (if st_target st = - 1 \<and> my_memmem payload jpeg_soi \<noteq> None
                  then st\<lparr> st_target := uint session_id \<rparr> else st);
        if st_target st = uint session_id then append_jpeg (al k) payload st else Some (True, st) }
      else Some (True, st))"

text \<open>One round of the scan at position k: whether it goes on, the stream and the
  next position.\<close>

definition parse_step :: "(nat \<Rightarrow> bool) \<Rightarrow> stream \<Rightarrow> nat \<Rightarrow> (bool \<times> stream \<times> nat) option" where
  "parse_step al st k = do {
     a \<leftarrow> rd8 (st_raw st) k; b \<leftarrow> rd8 (st_raw st) (k + 1);
     if a \<noteq> 0xFF \<or> b \<noteq> 0x5A then Some (True, st, k + 1)
     else do {
       h \<leftarrow> rd8 (st_raw st) (k + 2); l \<leftarrow> rd8 (st_raw st) (k + 3);
       let packet_len = unat (be16 h l);
       if packet_len < 4 then Some (True, st, k + 1)
       else if length (st_raw st) - k < packet_len then Some (False, st, k)
       else do {
         let next_offset = k + packet_len;
         let has_lookahead = (length (st_raw st) \<ge> next_offset + 2);
         in_sync \<leftarrow> (if has_lookahead then do {
             a \<leftarrow> rd8 (st_raw st) next_offset; b \<leftarrow> rd8 (st_raw st) (next_offset + 1);
             Some (\<not> (a \<noteq> 0xFF \<or> b \<noteq> 0x5A)) } else Some True);
         if \<not> in_sync then Some (True, st, k + 1)
         else if \<not> has_lookahead \<and> k > 0 then Some (False, st, k)
         else do {
           (go, st) \<leftarrow> accept_packet al k packet_len st;
           Some (go, st, if go then next_offset else k) } } } }"

lemma append_jpeg_raw: "append_jpeg al p st = Some (go, st') \<Longrightarrow> st_raw st' = st_raw st"
  by (auto simp: append_jpeg_def Let_def split: if_splits)

lemma accept_packet_raw: "accept_packet al k n st = Some (go, st') \<Longrightarrow> st_raw st' = st_raw st"
  by (auto simp: accept_packet_def Let_def split: bind_splits if_splits dest: append_jpeg_raw)

lemma parse_step_advances:
  "parse_step al st k = Some (True, st', k') \<Longrightarrow> k < k' \<and> k < length (st_raw st) \<and> st_raw st' = st_raw st"
  by (auto simp: parse_step_def Let_def rd8_eq_Some split: bind_splits if_splits dest: accept_packet_raw)

function parse_loop :: "(nat \<Rightarrow> bool) \<Rightarrow> stream \<Rightarrow> nat \<Rightarrow> (stream \<times> nat) option" where
  "parse_loop al st k =
     (if length (st_raw st) - k \<ge> 4 then
        (case parse_step al st k of
           None \<Rightarrow> None
         | Some r \<Rightarrow> if fst r then parse_loop al (fst (snd r)) (snd (snd r)) else Some (snd r))
      else Some (st, k))"
  by pat_completeness auto
termination
proof (relation "measure (\<lambda>(al, st, k). length (st_raw st) - k)", goal_cases)
  case (2 al st k r)
  then obtain st' k' where r: "r = (True, st', k')" by (cases r) auto
  with 2 parse_step_advances [of al st k st' k'] show ?case by auto
qed simp

declare parse_loop.simps [simp del]

section \<open>Images\<close>

text \<open>The complete image at the end of a read (None when there is none or its copy
  cannot be allocated).\<close>

definition take_image :: "bool \<Rightarrow> stream \<Rightarrow> (bytes option \<times> stream) option" where
  "take_image al st =
     (if length (st_jpeg st) > 0 then do {
        (img, st) \<leftarrow> (case my_memmem (st_jpeg st) jpeg_soi of
            None \<Rightarrow> Some (None, st)
          | Some soi \<Rightarrow>
              (case my_memmem (drop soi (st_jpeg st)) jpeg_eoi of
                 None \<Rightarrow> Some (None, st)
               | Some eoi \<Rightarrow> do {
                   img \<leftarrow> (if al then map_option Some (rd_mem (st_jpeg st) soi (eoi + 2)) else Some None);
                   Some (img, st\<lparr> st_jpeg := [], st_target := - 1 \<rparr>) }));
        Some (img, if length (st_jpeg st) > JPEG_KEEP_MAX
                   then st\<lparr> st_jpeg := [], st_jpeg_cap := 0, st_target := - 1 \<rparr> else st) }
      else Some (None, st))"

text \<open>The descriptor filter: whether the descriptor is to be skipped from now on.\<close>

definition probe_filter :: "int \<Rightarrow> stream \<Rightarrow> bool \<times> stream" where
  "probe_filter fd st =
     (if st_carplay st then (False, st)
      else let st = st\<lparr> st_probe := st_probe st + 1 \<rparr> in
        if st_probe st \<ge> FD_PROBE_LIMIT \<and> 0 \<le> fd \<and> fd < FD_TABLE_SIZE
        then (True, st\<lparr> st_raw := [], st_raw_cap := 0, st_active := False \<rparr>)
        else (False, st))"

text \<open>The part under the lock of the slot: the image to hand off, whether the
  descriptor is to be skipped, the stream.\<close>

definition handle_locked :: "stream_env \<Rightarrow> int \<Rightarrow> bytes \<Rightarrow> stream \<Rightarrow> (bytes option \<times> bool \<times> stream) option" where
  "handle_locked e fd buf st =
     (if \<not> st_active st \<or> st_fd st \<noteq> fd then Some (None, False, st)
      else do {
        (appended, st) \<leftarrow> append_raw (se_raw_alloc e) buf st;
        if \<not> appended then Some (None, False, st)
        else do {
          (st, processed) \<leftarrow> parse_loop (se_jpeg_alloc e) st 0;
          let st = (if processed > 0 then st\<lparr> st_raw := drop processed (st_raw st) \<rparr> else st);
          (img, st) \<leftarrow> take_image (se_image_alloc e) st;
          let (skip, st) = probe_filter fd st;
          Some (img, skip, st) } })"

definition handle_stream_data :: "stream_env \<Rightarrow> int \<Rightarrow> bytes \<Rightarrow> cover \<Rightarrow> (bytes option \<times> cover) option" where
  "handle_stream_data e fd buf c =
     (if fd < 0 \<or> fd \<ge> 1024 \<or> length buf = 0 then Some (None, c)
      else (case get_stream fd (co_streams c) of
        (None, ss) \<Rightarrow> Some (None, c\<lparr> co_streams := ss \<rparr>)
      | (Some i, ss) \<Rightarrow> do {
          st \<leftarrow> rd8 ss i;
          (img, skip, st) \<leftarrow> handle_locked e fd buf st;
          Some (img, c\<lparr> co_streams := ss[i := st],
            co_fd_skip := (if skip then (co_fd_skip c)(fd := True) else co_fd_skip c) \<rparr>) }))"

section \<open>The hooks\<close>

definition fd_wants_iap2_processing :: "int \<Rightarrow> cover \<Rightarrow> bool" where
  "fd_wants_iap2_processing fd c =
     (if fd < 0 \<or> fd \<ge> FD_TABLE_SIZE then True
      else if co_fd_iap2 c fd then True
      else if co_fd_skip c fd then False
      else True)"

text \<open>read() and recv() after the real call returned the bytes got: the image to
  hand off.\<close>

definition after_read :: "stream_env \<Rightarrow> int \<Rightarrow> bytes \<Rightarrow> cover \<Rightarrow> (bytes option \<times> cover) option" where
  "after_read e fd got c =
     (if length got > 0 \<and> fd_wants_iap2_processing fd c then handle_stream_data e fd got c else Some (None, c))"

definition strstr_found :: "string \<Rightarrow> string \<Rightarrow> bool" where
  "strstr_found s sub \<longleftrightarrow> list_ex (\<lambda>k. take (length sub) (drop k s) = sub) [0 ..< length s + 1]"

definition open_hook :: "string option \<Rightarrow> int \<Rightarrow> cover \<Rightarrow> cover" where
  "open_hook path fd c =
     (case path of
        Some p \<Rightarrow>
          if fd \<ge> 0 \<and> fd < FD_TABLE_SIZE then
            (if strstr_found p IAP2_USB_PATH
             then c\<lparr> co_fd_iap2 := (co_fd_iap2 c)(fd := True), co_fd_skip := (co_fd_skip c)(fd := False) \<rparr>
             else c\<lparr> co_fd_skip := (co_fd_skip c)(fd := True), co_fd_iap2 := (co_fd_iap2 c)(fd := False) \<rparr>)
          else c
      | None \<Rightarrow> c)"

definition released :: "stream \<Rightarrow> stream" where
  "released st = st\<lparr> st_raw := [], st_jpeg := [], st_raw_cap := 0, st_jpeg_cap := 0, st_active := False \<rparr>"

primrec close_loop :: "int \<Rightarrow> stream list \<Rightarrow> stream list" where
  "close_loop fd [] = []"
| "close_loop fd (s # ss) = (if st_active s \<and> st_fd s = fd then released s # ss else s # close_loop fd ss)"

definition close_hook :: "int \<Rightarrow> cover \<Rightarrow> cover" where
  "close_hook fd c =
     (if fd \<ge> 0 \<and> fd < FD_TABLE_SIZE then
        c\<lparr> co_fd_skip := (co_fd_skip c)(fd := False), co_fd_iap2 := (co_fd_iap2 c)(fd := False),
          co_streams := close_loop fd (co_streams c) \<rparr>
      else c)"

section \<open>Capacities\<close>

lemma cap_double: "(65536 :: nat) * 2 ^ j * 2 = 65536 * 2 ^ (j + 1)"
  by (simp add: power_add)

lemma grow_cap_pow:
  "need \<le> 65536 * 2 ^ m \<Longrightarrow> j \<le> m \<Longrightarrow>
   \<exists>i \<le> m. grow_cap (65536 * 2 ^ j) need = 65536 * 2 ^ i \<and> need \<le> 65536 * 2 ^ i"
proof (induction "m - j" arbitrary: j)
  case 0
  then have "j = m" by simp
  then show ?case using 0 by (intro exI [of _ m]) (simp add: grow_cap.simps)
next
  case (Suc d)
  show ?case
  proof (cases "65536 * 2 ^ j < need")
    case True
    then have "j < m" using Suc.prems(1) by (metis le_less linorder_not_less not_less_iff_gr_or_eq Suc.prems(2))
    then have "\<exists>i \<le> m. grow_cap (65536 * 2 ^ (j + 1)) need = 65536 * 2 ^ i \<and> need \<le> 65536 * 2 ^ i"
      using Suc.hyps(1) [of "j + 1"] Suc.hyps(2) Suc.prems(1) by simp
    moreover have "grow_cap (65536 * 2 ^ j) need = grow_cap (65536 * 2 ^ (j + 1)) need"
      using True by (subst grow_cap.simps, unfold cap_double) simp
    ultimately show ?thesis by simp
  next
    case False
    then show ?thesis using Suc.prems by (intro exI [of _ j]) (simp add: grow_cap.simps)
  qed
qed

lemma grow_cap_ge: "0 < cap \<Longrightarrow> need \<le> grow_cap cap need"
  by (induction cap need rule: grow_cap.induct) (subst grow_cap.simps, simp)

lemma new_cap_ge: "need \<le> new_cap cap need"
  by (simp add: new_cap_def grow_cap_ge)

definition raw_cap_ok :: "nat \<Rightarrow> bool" where
  "raw_cap_ok c \<longleftrightarrow> c = 0 \<or> (\<exists>j \<le> 4. c = 65536 * 2 ^ j)"

lemma raw_cap_le: "raw_cap_ok c \<Longrightarrow> c \<le> STREAM_BUF_MAX"
proof -
  assume "raw_cap_ok c"
  moreover have "(2 :: nat) ^ j \<le> 2 ^ 4" if "j \<le> 4" for j :: nat using that by (intro power_increasing) auto
  ultimately show ?thesis by (auto simp: raw_cap_ok_def STREAM_BUF_MAX_def)
qed

lemma new_cap_ok:
  assumes "raw_cap_ok c" and "c < need" and "need \<le> STREAM_BUF_MAX"
  shows "raw_cap_ok (new_cap c need)" "new_cap c need \<le> STREAM_BUF_MAX"
proof -
  have n: "need \<le> 65536 * 2 ^ 4" using assms(3) by (simp add: STREAM_BUF_MAX_def)
  have "\<exists>i \<le> 4. new_cap c need = 65536 * 2 ^ i"
  proof (cases "c = 0")
    case True
    then show ?thesis using grow_cap_pow [OF n, of 0] by (auto simp: new_cap_def)
  next
    case False
    then obtain j where j: "j \<le> 4" "c = 65536 * 2 ^ j" using assms(1) by (auto simp: raw_cap_ok_def)
    have "j \<noteq> 4" using j(2) assms(2) n by auto
    with j(1) have "j + 1 \<le> 4" by simp
    have "new_cap c need = grow_cap (65536 * 2 ^ (j + 1)) need"
      unfolding new_cap_def j(2) cap_double by simp
    then show ?thesis using grow_cap_pow [OF n \<open>j + 1 \<le> 4\<close>] by metis
  qed
  then show "raw_cap_ok (new_cap c need)" by (simp add: raw_cap_ok_def)
  then show "new_cap c need \<le> STREAM_BUF_MAX" by (rule raw_cap_le)
qed

section \<open>The invariant of a stream\<close>

definition stream_ok :: "stream \<Rightarrow> bool" where
  "stream_ok st \<longleftrightarrow> raw_cap_ok (st_raw_cap st) \<and> length (st_raw st) \<le> st_raw_cap st \<and>
     length (st_jpeg st) \<le> st_jpeg_cap st \<and> st_jpeg_cap st \<le> COVERART_MAX_JPEG \<and>
     length (st_jpeg st) \<le> JPEG_KEEP_MAX"

text \<open>During the scan, at position k: the image grew by at most what was scanned.\<close>

definition scan_ok :: "stream \<Rightarrow> nat \<Rightarrow> bool" where
  "scan_ok st k \<longleftrightarrow> length (st_raw st) \<le> STREAM_BUF_MAX \<and> k \<le> length (st_raw st) \<and>
     length (st_jpeg st) \<le> st_jpeg_cap st \<and> st_jpeg_cap st \<le> COVERART_MAX_JPEG \<and>
     length (st_jpeg st) \<le> JPEG_KEEP_MAX + k"

text \<open>What the scan leaves alone.\<close>

definition same_stream :: "stream \<Rightarrow> stream \<Rightarrow> bool" where
  "same_stream st st' \<longleftrightarrow> st_raw st' = st_raw st \<and> st_raw_cap st' = st_raw_cap st \<and> st_fd st' = st_fd st \<and>
     st_active st' = st_active st \<and> st_probe st' = st_probe st"

lemma same_stream_refl [simp]: "same_stream st st" by (simp add: same_stream_def)

lemma same_stream_trans: "same_stream a b \<Longrightarrow> same_stream b c \<Longrightarrow> same_stream a c"
  by (simp add: same_stream_def)

lemma same_stream_upd [simp]:
  "same_stream st (st'\<lparr> st_carplay := x \<rparr>) = same_stream st st'"
  "same_stream st (st'\<lparr> st_target := y \<rparr>) = same_stream st st'"
  "same_stream (st\<lparr> st_carplay := x \<rparr>) st' = same_stream st st'"
  "same_stream (st\<lparr> st_target := y \<rparr>) st' = same_stream st st'"
  by (simp_all add: same_stream_def)

lemma jpeg_room: "n \<le> JPEG_KEEP_MAX + m \<Longrightarrow> m \<le> STREAM_BUF_MAX \<Longrightarrow> n \<le> COVERART_MAX_JPEG"
  by (simp add: JPEG_KEEP_MAX_def STREAM_BUF_MAX_def COVERART_MAX_JPEG_def)

text \<open>The hard limit on the image is never reached.\<close>

lemma append_jpeg_scan:
  assumes "scan_ok st k" and "k + length payload \<le> m" and "m \<le> length (st_raw st)"
  shows "\<exists>go st'. append_jpeg al payload st = Some (go, st') \<and> scan_ok st' (if go then m else k) \<and> same_stream st st' \<and>
    st_target st' = st_target st \<and> st_carplay st' = st_carplay st \<and>
    (al \<longrightarrow> go) \<and> st_jpeg st' = (if go then st_jpeg st @ payload else st_jpeg st)"
proof -
  let ?need = "length (st_jpeg st) + length payload"
  have n: "?need \<le> JPEG_KEEP_MAX + m" using assms by (simp add: scan_ok_def)
  moreover have "m \<le> STREAM_BUF_MAX" using assms by (simp add: scan_ok_def)
  ultimately have max: "?need \<le> COVERART_MAX_JPEG" by (rule jpeg_room)
  let ?c = "min (new_cap (st_jpeg_cap st) ?need) COVERART_MAX_JPEG"
  have c: "(if new_cap (st_jpeg_cap st) ?need > COVERART_MAX_JPEG then COVERART_MAX_JPEG else new_cap (st_jpeg_cap st) ?need) = ?c"
    by simp
  have fit: "?need \<le> ?c" using max new_cap_ge [of ?need] by simp
  show ?thesis
    using assms n max fit unfolding append_jpeg_def Let_def c
    by (auto simp: scan_ok_def same_stream_def not_less)
qed

section \<open>The scan stays in the buffers\<close>

lemma strip_sizes [simp]: "TOTAL_STRIP_SIZE = 11" "PACKET_TRAILER_SIZE = 1"
  by (simp_all add: TOTAL_STRIP_SIZE_def PACKET_HEADER_SIZE_def PACKET_WRAPPER_SIZE_def PACKET_TRAILER_SIZE_def)

lemma scan_ok_upd [simp]:
  "scan_ok (st\<lparr> st_carplay := x \<rparr>) k = scan_ok st k" "scan_ok (st\<lparr> st_target := y \<rparr>) k = scan_ok st k"
  by (simp_all add: scan_ok_def)

lemma scan_ok_mono: "scan_ok st k \<Longrightarrow> k \<le> m \<Longrightarrow> m \<le> length (st_raw st) \<Longrightarrow> scan_ok st m"
  by (auto simp: scan_ok_def)

text \<open>The accepted packet: the effect on the session and the image.\<close>

definition deliver :: "bytes \<Rightarrow> int \<times> bytes \<Rightarrow> int \<times> bytes" where
  "deliver p s =
     (if length p > 12 then
        let payload = slice p 11 (length p - 12);
            session = uint (p ! 7);
            target = (if fst s = - 1 \<and> my_memmem payload jpeg_soi \<noteq> None then session else fst s)
        in (target, if target = session then snd s @ payload else snd s)
      else s)"

definition jpeg_state :: "stream \<Rightarrow> int \<times> bytes" where
  "jpeg_state st = (st_target st, st_jpeg st)"

lemma accept_packet_scan:
  assumes "scan_ok st k" and "k + n \<le> length (st_raw st)" and "4 \<le> n"
  shows "\<exists>go st'. accept_packet al k n st = Some (go, st') \<and> scan_ok st' (if go then k + n else k) \<and>
    same_stream st st' \<and> st_carplay st' \<and>
    (al k \<longrightarrow> go) \<and> (go \<longrightarrow> jpeg_state st' = deliver (slice (st_raw st) k n) (jpeg_state st))"
proof (cases "n > 12")
  case False
  then show ?thesis using assms scan_ok_mono [OF assms(1)]
    by (auto simp: accept_packet_def deliver_def jpeg_state_def scan_ok_def)
next
  case True
  let ?p = "slice (st_raw st) k n"
  let ?pl = "slice (st_raw st) (k + 11) (n - 12)"
  define sid where "sid = st_raw st ! (k + 7)"
  have rd: "rd8 (st_raw st) (k + 7) = Some sid" "rd_mem (st_raw st) (k + 11) (n - 12) = Some ?pl"
    using assms(2) True by (simp_all add: rd8_def rd_mem_def sid_def)
  define st1 where "st1 = (if st_target st = - 1 \<and> my_memmem ?pl jpeg_soi \<noteq> None
      then st\<lparr> st_carplay := True, st_target := uint sid \<rparr> else st\<lparr> st_carplay := True \<rparr>)"
  have st1: "scan_ok st1 k" "same_stream st st1" "st_raw st1 = st_raw st" "st_jpeg st1 = st_jpeg st" "st_carplay st1"
    "st_target st1 = (if st_target st = - 1 \<and> my_memmem ?pl jpeg_soi \<noteq> None then uint sid else st_target st)"
    using assms(1) by (auto simp: st1_def)
  have run: "accept_packet al k n st = (if st_target st1 = uint sid then append_jpeg (al k) ?pl st1 else Some (True, st1))"
    using True rd by (simp add: accept_packet_def Let_def st1_def)
  have d: "deliver ?p (jpeg_state st) =
      (st_target st1, if st_target st1 = uint sid then st_jpeg st @ ?pl else st_jpeg st)"
    using True assms(2) by (simp add: deliver_def Let_def jpeg_state_def slice_slice nth_slice st1(6) sid_def)
  show ?thesis
  proof (cases "st_target st1 = uint sid")
    case False
    then show ?thesis
      using run st1(1-5) scan_ok_mono [OF st1(1), of "k + n"] assms(2) d
      by (intro exI [of _ True] exI [of _ st1]) (simp add: jpeg_state_def)
  next
    case True
    have "k + length ?pl \<le> k + n" "k + n \<le> length (st_raw st1)" using assms(2) st1(3) \<open>n > 12\<close> by simp_all
    from append_jpeg_scan [OF st1(1) this, of "al k"] obtain go st' where
      a: "append_jpeg (al k) ?pl st1 = Some (go, st')" "scan_ok st' (if go then k + n else k)" "same_stream st1 st'"
      "st_target st' = st_target st1" "st_carplay st' = st_carplay st1" "al k \<longrightarrow> go"
      "st_jpeg st' = (if go then st_jpeg st1 @ ?pl else st_jpeg st1)" by blast
    then show ?thesis
      using True run st1 d same_stream_trans [OF st1(2) a(3)] by (simp add: jpeg_state_def)
  qed
qed

lemma parse_step_scan:
  assumes "scan_ok st k" and "4 \<le> length (st_raw st) - k"
  shows "\<exists>go st' k'. parse_step al st k = Some (go, st', k') \<and> scan_ok st' k' \<and> same_stream st st'"
proof -
  let ?r = "st_raw st"
  have rd: "rd8 ?r k = Some (?r ! k)" "rd8 ?r (k + 1) = Some (?r ! (k + 1))"
    "rd8 ?r (k + 2) = Some (?r ! (k + 2))" "rd8 ?r (k + 3) = Some (?r ! (k + 3))"
    using assms(2) by (simp_all add: rd8_def)
  define n where "n = unat (be16 (?r ! (k + 2)) (?r ! (k + 3)))"
  have skip: "scan_ok st (k + 1)" by (rule scan_ok_mono [OF assms(1)]) (use assms(2) in simp_all)
  note eq = parse_step_def [of al st k, unfolded rd Option.bind.bind_lunit, folded n_def, unfolded Let_def]
  show ?thesis
  proof (cases "?r ! k \<noteq> 0xFF \<or> ?r ! (k + 1) \<noteq> 0x5A \<or> n < 4 \<or> length ?r - k < n")
    case True
    then show ?thesis using assms(1) skip unfolding eq by auto
  next
    case False
    have le: "k + n \<le> length ?r" using False assms(2) by linarith
    obtain go st' where a: "accept_packet al k n st = Some (go, st')" "scan_ok st' (if go then k + n else k)" "same_stream st st'"
      using accept_packet_scan [OF assms(1) le, of al] False by auto
    have look: "k + n + 2 \<le> length ?r \<Longrightarrow> rd8 ?r (k + n) = Some (?r ! (k + n))"
      "k + n + 2 \<le> length ?r \<Longrightarrow> rd8 ?r (k + n + 1) = Some (?r ! (k + n + 1))"
      by (simp_all add: rd8_def)
    show ?thesis using False a assms(1) skip look unfolding eq by auto
  qed
qed

lemma parse_loop_scan:
  "scan_ok st k \<Longrightarrow> \<exists>st' k'. parse_loop al st k = Some (st', k') \<and> scan_ok st' k' \<and> same_stream st st'"
proof (induction al st k rule: parse_loop.induct)
  case (1 al st k)
  show ?case
  proof (cases "4 \<le> length (st_raw st) - k")
    case False
    then show ?thesis using 1(2) by (simp add: parse_loop.simps)
  next
    case True
    obtain go st' k' where s: "parse_step al st k = Some (go, st', k')" "scan_ok st' k'" "same_stream st st'"
      using parse_step_scan [OF 1(2) True] by blast
    show ?thesis
    proof (cases go)
      case False
      then show ?thesis using s True by (simp add: parse_loop.simps)
    next
      case go: True
      have "\<exists>st'' k''. parse_loop al st' k' = Some (st'', k'') \<and> scan_ok st'' k'' \<and> same_stream st' st''"
        using 1(1) [OF True s(1)] go s(2) by simp
      then show ?thesis using s True go same_stream_trans [OF s(3)] by (subst parse_loop.simps) auto
    qed
  qed
qed

section \<open>Images\<close>

definition image_like :: "bytes \<Rightarrow> bool" where
  "image_like im \<longleftrightarrow> 4 \<le> length im \<and> take 2 im = jpeg_soi \<and> first_at jpeg_eoi im (length im - 2)"

lemma soi_eoi [simp]: "jpeg_soi \<noteq> []" "jpeg_eoi \<noteq> []" "length jpeg_soi = 2" "length jpeg_eoi = 2"
  by (simp_all add: jpeg_soi_def jpeg_eoi_def)

lemma occurs_at_take: "occurs_at n (take m h) i \<longleftrightarrow> occurs_at n h i \<and> i + length n \<le> m"
  by (auto simp: occurs_at_def slice_def drop_take)

lemma occurs_at_drop: "s \<le> length h \<Longrightarrow> occurs_at n (drop s h) i \<longleftrightarrow> occurs_at n h (s + i)"
  by (auto simp: occurs_at_def slice_def add.commute)

lemma image_found:
  assumes "first_at jpeg_soi j s" and "first_at jpeg_eoi (drop s j) e"
  shows "s + (e + 2) \<le> length j" "image_like (slice j s (e + 2))"
proof -
  have s: "s + 2 \<le> length j" "slice j s 2 = jpeg_soi" using assms(1) by (simp_all add: first_at_def occurs_at_def)
  have e: "occurs_at jpeg_eoi (drop s j) e" "\<forall>i < e. \<not> occurs_at jpeg_eoi (drop s j) i"
    using assms(2) by (simp_all add: first_at_def)
  have "e + 2 \<le> length j - s" using e(1) by (simp add: occurs_at_def)
  then show le: "s + (e + 2) \<le> length j" using s(1) by linarith
  have d: "take 2 (drop s j) = jpeg_soi" using s(2) by (simp add: slice_def)
  have "drop s j ! 0 = 0xFF" "drop s j ! 1 = 0xD8"
    using arg_cong [OF d, of "\<lambda>x. x ! 0"] arg_cong [OF d, of "\<lambda>x. x ! 1"] s(1) by (simp_all add: jpeg_soi_def)
  moreover have "drop s j ! e = 0xFF" "drop s j ! (e + 1) = 0xD9"
  proof -
    have t: "take 2 (drop e (drop s j)) = jpeg_eoi" using e(1) by (simp add: occurs_at_def slice_def)
    show "drop s j ! e = 0xFF" "drop s j ! (e + 1) = 0xD9"
      using arg_cong [OF t, of "\<lambda>x. x ! 0"] arg_cong [OF t, of "\<lambda>x. x ! 1"] le by (simp_all add: jpeg_eoi_def ac_simps)
  qed
  ultimately have "e = 0 \<longrightarrow> False" "e = 1 \<longrightarrow> False" by (intro impI; hypsubst; simp)+
  then have two: "2 \<le> e" by presburger
  have im: "slice j s (e + 2) = take (e + 2) (drop s j)" by (simp add: slice_def)
  have "first_at jpeg_eoi (slice j s (e + 2)) e"
    using e by (simp add: first_at_def im occurs_at_take)
  moreover have "take 2 (slice j s (e + 2)) = jpeg_soi" using d two by (simp add: im min_def)
  ultimately show "image_like (slice j s (e + 2))" using le two by (simp add: image_like_def)
qed

lemma take_image_branches:
  assumes "st_jpeg st \<noteq> []"
  shows "(\<forall>s e. first_at jpeg_soi (st_jpeg st) s \<and> first_at jpeg_eoi (drop s (st_jpeg st)) e \<longrightarrow>
       take_image al st = Some (if al then Some (slice (st_jpeg st) s (e + 2)) else None, st\<lparr> st_jpeg := [], st_target := - 1 \<rparr>))"
    and "\<not> (\<exists>s e. first_at jpeg_soi (st_jpeg st) s \<and> first_at jpeg_eoi (drop s (st_jpeg st)) e) \<Longrightarrow>
       take_image al st = Some (None, if length (st_jpeg st) > JPEG_KEEP_MAX
          then st\<lparr> st_jpeg := [], st_jpeg_cap := 0, st_target := - 1 \<rparr> else st)"
proof -
  show "\<forall>s e. first_at jpeg_soi (st_jpeg st) s \<and> first_at jpeg_eoi (drop s (st_jpeg st)) e \<longrightarrow>
       take_image al st = Some (if al then Some (slice (st_jpeg st) s (e + 2)) else None, st\<lparr> st_jpeg := [], st_target := - 1 \<rparr>)"
  proof (intro allI impI)
    fix s e
    assume f: "first_at jpeg_soi (st_jpeg st) s \<and> first_at jpeg_eoi (drop s (st_jpeg st)) e"
    then have "my_memmem (st_jpeg st) jpeg_soi = Some s" "my_memmem (drop s (st_jpeg st)) jpeg_eoi = Some e"
      by (simp_all add: my_memmem_Some)
    then show "take_image al st = Some (if al then Some (slice (st_jpeg st) s (e + 2)) else None, st\<lparr> st_jpeg := [], st_target := - 1 \<rparr>)"
      using assms image_found(1) [of "st_jpeg st" s e] f by (simp add: take_image_def rd_mem_def)
  qed
  assume n: "\<not> (\<exists>s e. first_at jpeg_soi (st_jpeg st) s \<and> first_at jpeg_eoi (drop s (st_jpeg st)) e)"
  show "take_image al st = Some (None, if length (st_jpeg st) > JPEG_KEEP_MAX
          then st\<lparr> st_jpeg := [], st_jpeg_cap := 0, st_target := - 1 \<rparr> else st)"
  proof (cases "my_memmem (st_jpeg st) jpeg_soi")
    case (Some s)
    then have "my_memmem (drop s (st_jpeg st)) jpeg_eoi = None"
      using n by (metis my_memmem_Some not_Some_eq soi_eoi(1,2))
    then show ?thesis using assms Some by (simp add: take_image_def)
  qed (use assms in \<open>simp add: take_image_def\<close>)
qed

lemma take_image_total:
  "\<exists>img st'. take_image al st = Some (img, st') \<and> (\<forall>im. img = Some im \<longrightarrow> image_like im) \<and>
     same_stream st st' \<and> st_carplay st' = st_carplay st \<and>
     (length (st_jpeg st) \<le> st_jpeg_cap st \<and> st_jpeg_cap st \<le> COVERART_MAX_JPEG \<longrightarrow>
      length (st_jpeg st') \<le> st_jpeg_cap st' \<and> st_jpeg_cap st' \<le> COVERART_MAX_JPEG \<and>
      length (st_jpeg st') \<le> JPEG_KEEP_MAX)"
proof (cases "st_jpeg st = []")
  case True
  then show ?thesis by (simp add: take_image_def)
next
  case False
  note b = take_image_branches [OF False, of al]
  show ?thesis
  proof (cases "\<exists>s e. first_at jpeg_soi (st_jpeg st) s \<and> first_at jpeg_eoi (drop s (st_jpeg st)) e")
    case True
    then show ?thesis using b(1) image_found(2) by (fastforce simp: same_stream_def)
  next
    case False
    then show ?thesis using b(2) by (auto simp: same_stream_def)
  qed
qed

section \<open>Every read keeps the streams in bounds\<close>

lemma append_raw_ok:
  assumes "stream_ok st"
  shows "\<exists>go st'. append_raw al buf st = Some (go, st') \<and> stream_ok st' \<and> (go \<longrightarrow> st_raw st' = st_raw st @ buf) \<and>
    st_fd st' = st_fd st \<and> st_active st' = st_active st \<and> st_carplay st' = st_carplay st \<and> st_probe st' = st_probe st \<and>
    jpeg_state st' = jpeg_state st \<and>
    (al \<and> length (st_raw st) + length buf \<le> STREAM_BUF_MAX \<longrightarrow> go)"
proof (cases "length (st_raw st) + length buf > st_raw_cap st")
  case False
  then show ?thesis using assms
    by (intro exI [of _ True] exI [of _ "st\<lparr> st_raw := st_raw st @ buf \<rparr>"])
      (simp add: append_raw_def stream_ok_def jpeg_state_def)
next
  case True
  let ?need = "length (st_raw st) + length buf"
  let ?c = "new_cap (st_raw_cap st) ?need"
  have ge: "?need \<le> ?c" by (rule new_cap_ge)
  have ok: "?c \<le> STREAM_BUF_MAX \<Longrightarrow> raw_cap_ok ?c"
    using new_cap_ok(1) [of "st_raw_cap st" ?need] assms True ge by (simp add: stream_ok_def)
  have room: "?need \<le> STREAM_BUF_MAX \<Longrightarrow> ?c \<le> STREAM_BUF_MAX"
    using new_cap_ok(2) [of "st_raw_cap st" ?need] assms True by (simp add: stream_ok_def)
  show ?thesis
  proof (cases "?c > STREAM_BUF_MAX \<or> \<not> al")
    case drop: True
    have "append_raw al buf st = Some (False, st\<lparr> st_raw := [] \<rparr>)"
      using drop unfolding append_raw_def Let_def if_P [OF True] by (cases "?c > STREAM_BUF_MAX") simp_all
    moreover have "\<not> (al \<and> ?need \<le> STREAM_BUF_MAX)" using drop room by linarith
    ultimately show ?thesis using assms
      by (intro exI [of _ False] exI [of _ "st\<lparr> st_raw := [] \<rparr>"]) (simp add: stream_ok_def jpeg_state_def)
  next
    case False
    then have "append_raw al buf st = Some (True, st\<lparr> st_raw_cap := ?c, st_raw := st_raw st @ buf \<rparr>)"
      unfolding append_raw_def Let_def if_P [OF True] using ge by simp
    moreover have "raw_cap_ok ?c" using False ok by simp
    ultimately show ?thesis using ge assms
      by (intro exI [of _ True] exI [of _ "st\<lparr> st_raw_cap := ?c, st_raw := st_raw st @ buf \<rparr>"])
        (simp add: stream_ok_def jpeg_state_def)
  qed
qed

lemma handle_locked_ok:
  assumes "stream_ok st"
  shows "\<exists>img skip st'. handle_locked e fd buf st = Some (img, skip, st') \<and> stream_ok st' \<and>
    (\<forall>im. img = Some im \<longrightarrow> image_like im) \<and> st_fd st' = st_fd st \<and> (st_active st' \<longrightarrow> st_active st)"
proof (cases "\<not> st_active st \<or> st_fd st \<noteq> fd")
  case True
  then show ?thesis using assms by (auto simp: handle_locked_def)
next
  case False
  obtain go st1 where a: "append_raw (se_raw_alloc e) buf st = Some (go, st1)" "stream_ok st1"
    "st_fd st1 = st_fd st" "st_active st1 = st_active st"
    using append_raw_ok [OF assms] by metis
  show ?thesis
  proof (cases go)
    case False
    then show ?thesis using a \<open>\<not> (\<not> st_active st \<or> st_fd st \<noteq> fd)\<close> by (auto simp: handle_locked_def)
  next
    case True
    have "length (st_raw st1) \<le> STREAM_BUF_MAX"
      using a(2) raw_cap_le [of "st_raw_cap st1"] by (simp add: stream_ok_def)
    then have "scan_ok st1 0" using a(2) by (simp add: stream_ok_def scan_ok_def)
    then obtain st2 k where p: "parse_loop (se_jpeg_alloc e) st1 0 = Some (st2, k)" "scan_ok st2 k" "same_stream st1 st2"
      using parse_loop_scan by blast
    define st3 where "st3 = (if k > 0 then st2\<lparr> st_raw := drop k (st_raw st2) \<rparr> else st2)"
    obtain img st4 where i: "take_image (se_image_alloc e) st3 = Some (img, st4)" "\<forall>im. img = Some im \<longrightarrow> image_like im"
      "same_stream st3 st4" "length (st_jpeg st3) \<le> st_jpeg_cap st3 \<and> st_jpeg_cap st3 \<le> COVERART_MAX_JPEG \<longrightarrow>
      length (st_jpeg st4) \<le> st_jpeg_cap st4 \<and> st_jpeg_cap st4 \<le> COVERART_MAX_JPEG \<and> length (st_jpeg st4) \<le> JPEG_KEEP_MAX"
      using take_image_total [of "se_image_alloc e" st3] by blast
    have st4: "stream_ok st4"
      using a(2) p(2,3) i(3,4) by (auto simp: stream_ok_def scan_ok_def same_stream_def st3_def)
    obtain skip st5 where f: "probe_filter fd st4 = (skip, st5)" by (cases "probe_filter fd st4")
    have st5: "stream_ok st5" "st_fd st5 = st_fd st4" "st_active st5 \<longrightarrow> st_active st4"
      using f st4 by (auto simp: probe_filter_def stream_ok_def raw_cap_ok_def Let_def split: if_splits)
    have "handle_locked e fd buf st = Some (img, skip, st5)"
      using False a(1) True p(1) i(1) f by (simp add: handle_locked_def st3_def [symmetric] Let_def)
    moreover have "st_fd st4 = st_fd st" "st_active st4 = st_active st"
      using a(3,4) p(3) i(3) by (auto simp: same_stream_def st3_def)
    ultimately show ?thesis using st5 i(2) by simp
  qed
qed

text \<open>The table of streams: sixteen slots, one per descriptor at most.\<close>

definition cover_ok :: "cover \<Rightarrow> bool" where
  "cover_ok c \<longleftrightarrow> length (co_streams c) = MAX_STREAMS \<and> list_all stream_ok (co_streams c) \<and>
     (\<forall>i j. i < MAX_STREAMS \<and> j < MAX_STREAMS \<and> st_active (co_streams c ! i) \<and> st_active (co_streams c ! j) \<and>
        st_fd (co_streams c ! i) = st_fd (co_streams c ! j) \<longrightarrow> i = j)"

lemma stream_loop_Some:
  "stream_loop fd k fr ss = (Some i, f) \<Longrightarrow>
   k \<le> i \<and> i < k + length ss \<and> st_active (ss ! (i - k)) \<and> st_fd (ss ! (i - k)) = fd"
proof (induction ss arbitrary: k fr)
  case (Cons s ss)
  show ?case
  proof (cases "st_active s \<and> st_fd s = fd")
    case False
    have "stream_loop fd (k + 1) (if \<not> st_active s \<and> fr = None then Some k else fr) ss = (Some i, f)"
      using Cons.prems by (simp only: stream_loop.simps if_not_P [OF False])
    from Cons.IH [OF this] show ?thesis by (auto simp: nth_Cons')
  qed (use Cons.prems in simp)
qed simp

lemma stream_loop_None:
  "stream_loop fd k fr ss = (None, f) \<Longrightarrow> list_all (\<lambda>s. \<not> (st_active s \<and> st_fd s = fd)) ss"
  by (induction ss arbitrary: k fr) (auto split: if_splits)

lemma stream_loop_free:
  "stream_loop fd k fr ss = (None, Some i) \<Longrightarrow>
   fr = Some i \<or> k \<le> i \<and> i < k + length ss \<and> \<not> st_active (ss ! (i - k))"
proof (induction ss arbitrary: k fr)
  case (Cons s ss)
  have n: "\<not> (st_active s \<and> st_fd s = fd)" using Cons.prems by (auto split: if_splits)
  have "stream_loop fd (k + 1) (if \<not> st_active s \<and> fr = None then Some k else fr) ss = (None, Some i)"
    using Cons.prems by (simp only: stream_loop.simps if_not_P [OF n])
  from Cons.IH [OF this] show ?case by (auto simp: nth_Cons' split: if_splits)
qed simp

lemma fresh_stream_sel [simp]: "st_fd (fresh_stream fd) = fd" "st_active (fresh_stream fd)"
  by (simp_all add: fresh_stream_def)

lemma inactive_stream [simp]: "\<not> st_active (released s)" "\<not> st_active zero_stream"
  by (simp_all add: released_def zero_stream_def)

lemma fresh_stream_ok [simp]: "stream_ok (fresh_stream fd)" "stream_ok zero_stream" "stream_ok (released s)"
  by (simp_all add: stream_ok_def fresh_stream_def zero_stream_def released_def raw_cap_ok_def)

lemma cover_ok_update:
  assumes "cover_ok c" and "i < MAX_STREAMS" and "stream_ok s"
    and "st_active s \<longrightarrow> (\<forall>j < MAX_STREAMS. j \<noteq> i \<and> st_active (co_streams c ! j) \<longrightarrow> st_fd (co_streams c ! j) \<noteq> st_fd s)"
  shows "cover_ok (c\<lparr> co_streams := (co_streams c)[i := s] \<rparr>)"
proof -
  have "stream_ok ((co_streams c)[i := s] ! j)" if "j < MAX_STREAMS" for j
    using assms(1,3) that by (cases "j = i") (auto simp: cover_ok_def list_all_length)
  then show ?thesis using assms by (auto simp: cover_ok_def list_all_length nth_list_update)
qed

lemma get_stream_ok:
  assumes "cover_ok c" and "get_stream fd (co_streams c) = (r, ss)"
  shows "cover_ok (c\<lparr> co_streams := ss \<rparr>)"
    and "r = Some i \<Longrightarrow> i < MAX_STREAMS \<and> st_active (ss ! i) \<and> st_fd (ss ! i) = fd"
proof -
  have len: "length (co_streams c) = MAX_STREAMS" using assms(1) by (simp add: cover_ok_def)
  obtain m f where l: "stream_loop fd 0 None (co_streams c) = (m, f)" by (cases "stream_loop fd 0 None (co_streams c)")
  have "cover_ok (c\<lparr> co_streams := ss \<rparr>) \<and> (r = Some i \<longrightarrow> i < MAX_STREAMS \<and> st_active (ss ! i) \<and> st_fd (ss ! i) = fd)"
  proof (cases m)
    case (Some k)
    then have "r = Some k" "ss = co_streams c" using assms(2) l by (simp_all add: get_stream_def)
    then show ?thesis using stream_loop_Some [OF l [unfolded Some]] assms(1) len by auto
  next
    case None
    show ?thesis
    proof (cases f)
      case None
      then show ?thesis using assms l \<open>m = None\<close> by (auto simp: get_stream_def)
    next
      case (Some k)
      have k: "k < MAX_STREAMS" using stream_loop_free [OF l [unfolded None Some]] len by simp
      have r: "r = Some k" "ss = (co_streams c)[k := fresh_stream fd]"
        using assms(2) l None Some by (simp_all add: get_stream_def)
      have other: "\<forall>j < MAX_STREAMS. \<not> (st_active (co_streams c ! j) \<and> st_fd (co_streams c ! j) = fd)"
        using stream_loop_None [OF l [unfolded None]] len by (simp add: list_all_length)
      have "cover_ok (c\<lparr> co_streams := ss \<rparr>)"
        unfolding r(2) by (rule cover_ok_update [OF assms(1) k]) (use other in auto)
      then show ?thesis using r k len by simp
    qed
  qed
  then show "cover_ok (c\<lparr> co_streams := ss \<rparr>)" "r = Some i \<Longrightarrow> i < MAX_STREAMS \<and> st_active (ss ! i) \<and> st_fd (ss ! i) = fd"
    by simp_all
qed

lemma cover_ok_fds [simp]:
  "cover_ok (c\<lparr> co_fd_skip := f \<rparr>) = cover_ok c" "cover_ok (c\<lparr> co_fd_iap2 := f \<rparr>) = cover_ok c"
  by (simp_all add: cover_ok_def)

lemma handle_stream_data_ok:
  assumes "cover_ok c"
  shows "\<exists>img c'. handle_stream_data e fd buf c = Some (img, c') \<and> cover_ok c' \<and> (\<forall>im. img = Some im \<longrightarrow> image_like im)"
proof (cases "fd < 0 \<or> fd \<ge> 1024 \<or> length buf = 0")
  case True
  then show ?thesis using assms by (auto simp: handle_stream_data_def)
next
  case False
  obtain r ss where g: "get_stream fd (co_streams c) = (r, ss)" by (cases "get_stream fd (co_streams c)")
  note ok = get_stream_ok [OF assms g]
  show ?thesis
  proof (cases r)
    case None
    then show ?thesis using False g ok(1) by (auto simp: handle_stream_data_def)
  next
    case (Some i)
    have i: "i < MAX_STREAMS" "st_active (ss ! i)" "st_fd (ss ! i) = fd" using ok(2) [OF Some] by simp_all
    have len: "length ss = MAX_STREAMS" and all: "list_all stream_ok ss" using ok(1) by (simp_all add: cover_ok_def)
    then have "stream_ok (ss ! i)" using i(1) by (simp add: list_all_length)
    then obtain img skip st where h: "handle_locked e fd buf (ss ! i) = Some (img, skip, st)" "stream_ok st"
      "\<forall>im. img = Some im \<longrightarrow> image_like im" "st_fd st = fd" "st_active st \<longrightarrow> st_active (ss ! i)"
      using handle_locked_ok i(3) by metis
    have "cover_ok ((c\<lparr> co_streams := ss \<rparr>)\<lparr> co_streams := (co_streams (c\<lparr> co_streams := ss \<rparr>))[i := st] \<rparr>)"
      by (rule cover_ok_update [OF ok(1) i(1) h(2)]) (use ok(1) i h(4,5) in \<open>auto simp: cover_ok_def\<close>)
    then show ?thesis using False g Some h i len by (simp add: handle_stream_data_def rd8_def)
  qed
qed

section \<open>Runs of the hooks\<close>

text \<open>The calls the host makes: reads with the bytes they got, opens with the
  descriptor they returned, closes.\<close>

datatype cover_op = Read stream_env int bytes | Open "string option" int | Close int

fun run_op :: "cover_op \<Rightarrow> cover \<Rightarrow> (bytes option \<times> cover) option" where
  "run_op (Read e fd got) c = after_read e fd got c"
| "run_op (Open path fd) c = Some (None, open_hook path fd c)"
| "run_op (Close fd) c = Some (None, close_hook fd c)"

fun run_ops :: "cover_op list \<Rightarrow> cover \<Rightarrow> (bytes list \<times> cover) option" where
  "run_ops [] c = Some ([], c)"
| "run_ops (x # xs) c = do {
     (img, c) \<leftarrow> run_op x c;
     (imgs, c) \<leftarrow> run_ops xs c;
     Some (case img of None \<Rightarrow> imgs | Some im \<Rightarrow> im # imgs, c) }"

lemma close_loop_update:
  "close_loop fd ss = ss \<or> (\<exists>i < length ss. close_loop fd ss = ss[i := released (ss ! i)])"
proof (induction ss)
  case (Cons s ss)
  show ?case
  proof (cases "st_active s \<and> st_fd s = fd")
    case True
    then have "close_loop fd (s # ss) = (s # ss)[0 := released ((s # ss) ! 0)]" by simp
    then show ?thesis by blast
  next
    case False
    have e: "close_loop fd (s # ss) = s # close_loop fd ss" by (simp only: close_loop.simps if_not_P [OF False])
    have u: "(s # ss)[i + 1 := released ((s # ss) ! (i + 1))] = s # ss[i := released (ss ! i)]" for i
      by (metis Suc_eq_plus1 list_update_code(3) nth_Cons_Suc)
    show ?thesis using Cons.IH
    proof (elim disjE exE conjE)
      fix i
      assume i: "i < length ss" "close_loop fd ss = ss[i := released (ss ! i)]"
      have "i + 1 < length (s # ss)" using i(1) by simp
      then show ?thesis using e i(2) u [of i] by metis
    qed (use e in simp)
  qed
qed simp

lemma close_hook_ok: "cover_ok c \<Longrightarrow> cover_ok (close_hook fd c)"
proof -
  assume ok: "cover_ok c"
  have "cover_ok (c\<lparr> co_streams := close_loop fd (co_streams c) \<rparr>)"
    using close_loop_update [of fd "co_streams c"]
  proof (elim disjE exE conjE)
    fix i
    assume i: "i < length (co_streams c)" "close_loop fd (co_streams c) = (co_streams c)[i := released (co_streams c ! i)]"
    have "i < MAX_STREAMS" using i(1) ok by (simp add: cover_ok_def)
    then show ?thesis unfolding i(2) by (rule cover_ok_update [OF ok]) simp_all
  qed (use ok in simp)
  then show ?thesis using ok by (simp add: close_hook_def cover_ok_def)
qed

lemma run_op_ok:
  assumes "cover_ok c"
  shows "\<exists>img c'. run_op x c = Some (img, c') \<and> cover_ok c' \<and> (\<forall>im. img = Some im \<longrightarrow> image_like im)"
proof (cases x)
  case (Read e fd got)
  then show ?thesis using handle_stream_data_ok [OF assms, of e fd got] assms by (simp add: after_read_def)
next
  case (Open path fd)
  have "cover_ok (open_hook path fd c)" using assms by (simp add: open_hook_def split: option.splits)
  then show ?thesis using Open by simp
qed (use close_hook_ok [OF assms] in simp)

lemma run_ops_ok:
  "cover_ok c \<Longrightarrow> \<exists>imgs c'. run_ops xs c = Some (imgs, c') \<and> cover_ok c' \<and> list_all image_like imgs"
proof (induction xs arbitrary: c)
  case (Cons x xs)
  obtain img c1 where x: "run_op x c = Some (img, c1)" "cover_ok c1" "\<forall>im. img = Some im \<longrightarrow> image_like im"
    using run_op_ok [OF Cons.prems] by blast
  obtain imgs c2 where "run_ops xs c1 = Some (imgs, c2)" "cover_ok c2" "list_all image_like imgs"
    using Cons.IH [OF x(2)] by blast
  then show ?case using x by (cases img) simp_all
qed simp

lemma cover0_ok: "cover_ok cover0"
  by (auto simp: cover_ok_def cover0_def list_all_length)

lemma distinct_map_filter:
  "\<lbrakk> \<And>i j. i < length xs \<Longrightarrow> j < length xs \<Longrightarrow> P (xs ! i) \<Longrightarrow> P (xs ! j) \<Longrightarrow> f (xs ! i) = f (xs ! j) \<Longrightarrow> i = j \<rbrakk> \<Longrightarrow>
   distinct (map f (filter P xs))"
proof (induction xs)
  case (Cons x xs)
  have "distinct (map f (filter P xs))"
  proof (rule Cons.IH)
    fix i j
    assume "i < length xs" "j < length xs" "P (xs ! i)" "P (xs ! j)" "f (xs ! i) = f (xs ! j)"
    then show "i = j" using Cons.prems [of "i + 1" "j + 1"] by (simp add: nth_Cons')
  qed
  moreover have "f x \<noteq> f y" if "P x" "y \<in> set xs" "P y" for y
  proof -
    obtain j where "j < length xs" "y = xs ! j" using \<open>y \<in> set xs\<close> by (auto simp: in_set_conv_nth)
    then show ?thesis using Cons.prems [of 0 "j + 1"] that by (auto simp: nth_Cons')
  qed
  ultimately show ?case by auto
qed simp

section \<open>Properties\<close>

text \<open>Property C36. Whatever the host reads, opens and closes, and whichever
  allocations fail, the capture never reads or writes outside its buffers; it
  keeps at most 16 streams, one per descriptor, each with a raw buffer of at
  most 1 MB and an image of at most 10 MB; and every image it hands off starts
  with FF D8, ends with FF D9 and has no FF D9 before that.\<close>

theorem capture_bounded:
  "\<exists>imgs c. run_ops xs cover0 = Some (imgs, c) \<and> list_all image_like imgs \<and> length (co_streams c) = 16 \<and>
     distinct (map st_fd (filter st_active (co_streams c))) \<and>
     list_all (\<lambda>s. length (st_raw s) \<le> st_raw_cap s \<and> st_raw_cap s \<le> 1024 * 1024 \<and>
       length (st_jpeg s) \<le> st_jpeg_cap s \<and> st_jpeg_cap s \<le> 32 * 1024 * 1024 \<and>
       length (st_jpeg s) \<le> 10 * 1024 * 1024) (co_streams c)"
proof -
  obtain imgs c where r: "run_ops xs cover0 = Some (imgs, c)" "cover_ok c" "list_all image_like imgs"
    using run_ops_ok [OF cover0_ok] by blast
  have len: "length (co_streams c) = MAX_STREAMS" using r(2) by (simp add: cover_ok_def)
  have "distinct (map st_fd (filter st_active (co_streams c)))"
    by (rule distinct_map_filter) (use r(2) in \<open>auto simp: cover_ok_def\<close>)
  moreover have "list_all (\<lambda>s. length (st_raw s) \<le> st_raw_cap s \<and> st_raw_cap s \<le> 1024 * 1024 \<and>
       length (st_jpeg s) \<le> st_jpeg_cap s \<and> st_jpeg_cap s \<le> 32 * 1024 * 1024 \<and>
       length (st_jpeg s) \<le> 10 * 1024 * 1024) (co_streams c)"
    using r(2) raw_cap_le unfolding cover_ok_def list_all_iff stream_ok_def
      STREAM_BUF_MAX_def COVERART_MAX_JPEG_def JPEG_KEEP_MAX_def by blast
  ultimately show ?thesis using r(1,3) len by (simp add: MAX_STREAMS_def)
qed

end
