(* ===== verification/Cover_Assembly.thy ===== *)
theory Cover_Assembly
  imports Cover_Stream
begin

text \<open>
  The scanner of Cover_Stream against a stream of well formed packets: however
  the reads cut the stream into chunks, the packets are taken whole and in
  order, and an image spread over the packets of a session is handed off once,
  byte for byte.
\<close>

section \<open>Well formed packets\<close>

definition packet :: "bytes \<Rightarrow> bool" where
  "packet p \<longleftrightarrow> 4 \<le> length p \<and> length p < 2 ^ 16 \<and> p ! 0 = 0xFF \<and> p ! 1 = 0x5A \<and>
     unat (be16 (p ! 2) (p ! 3)) = length p"

definition always :: "nat \<Rightarrow> bool" where "always n = True"

lemma packet_reads:
  assumes "packet p" and "st_raw st = a @ w" and "length a = k" and "w @ fut = p @ r" and "4 \<le> length w"
  shows "rd8 (st_raw st) k = Some 0xFF" "rd8 (st_raw st) (k + 1) = Some 0x5A"
    "\<exists>h l. rd8 (st_raw st) (k + 2) = Some h \<and> rd8 (st_raw st) (k + 3) = Some l \<and> unat (be16 h l) = length p"
proof -
  have w: "w ! j = p ! j" if "j < 4" for j
    using assms(1,4,5) that by (metis (no_types, lifting) nth_append order_less_le_trans packet_def)
  have r: "rd8 (st_raw st) (k + j) = Some (p ! j)" if "j < 4" for j
    using assms(2,3,5) that w [OF that] by (simp add: rd8_def nth_append)
  show "rd8 (st_raw st) k = Some 0xFF" "rd8 (st_raw st) (k + 1) = Some 0x5A"
    using r [of 0] r [of 1] assms(1) by (simp_all add: packet_def)
  show "\<exists>h l. rd8 (st_raw st) (k + 2) = Some h \<and> rd8 (st_raw st) (k + 3) = Some l \<and> unat (be16 h l) = length p"
    using r [of 2] r [of 3] assms(1) by (auto simp: packet_def)
qed

lemma parse_step_partial:
  assumes "packet p" and "st_raw st = a @ w" and "length a = k" and "w @ fut = p @ r" and "4 \<le> length w" and "length w < length p"
  shows "parse_step al st k = Some (False, st, k)"
proof -
  obtain h l where h: "rd8 (st_raw st) (k + 2) = Some h" "rd8 (st_raw st) (k + 3) = Some l" "unat (be16 h l) = length p"
    using packet_reads(3) [OF assms(1-5)] by blast
  have "length (st_raw st) - k < length p" "\<not> length p < 4" using assms by (simp_all add: packet_def)
  then show ?thesis
    using h packet_reads(1,2) [OF assms(1-5)] by (simp add: parse_step_def Let_def)
qed

lemma parse_step_whole:
  assumes "packet p" and "st_raw st = a @ p @ r" and "length a = k"
    and "2 \<le> length r \<longrightarrow> r ! 0 = 0xFF \<and> r ! 1 = 0x5A"
  shows "parse_step al st k =
    (if length r < 2 \<and> k > 0 then Some (False, st, k)
     else do { (go, st) \<leftarrow> accept_packet al k (length p) st; Some (go, st, if go then k + length p else k) })"
proof -
  have p4: "4 \<le> length (p @ r)" "\<not> length p < 4" using assms(1) by (simp_all add: packet_def)
  have app: "(p @ r) @ [] = p @ r" by simp
  note pr = packet_reads [OF assms(1,2,3) app p4(1)]
  obtain h l where h: "rd8 (st_raw st) (k + 2) = Some h" "rd8 (st_raw st) (k + 3) = Some l" "unat (be16 h l) = length p"
    using pr(3) by blast
  have len: "length (st_raw st) = k + length p + length r" using assms(2,3) by simp
  have look: "rd8 (st_raw st) (k + length p) = Some 0xFF" "rd8 (st_raw st) (k + length p + 1) = Some 0x5A" if "2 \<le> length r"
    using assms(2,3,4) that by (auto simp: rd8_def nth_append)
  have r12: "rd8 (st_raw st) k = Some 0xFF" "rd8 (st_raw st) (k + 1) = Some 0x5A"
    using pr(1,2) by auto
  show ?thesis
    using h r12 p4(2) look unfolding parse_step_def len by (auto simp: Let_def)
qed

lemma packets_start:
  assumes "list_all packet ps" and "r @ fut = concat ps" and "2 \<le> length r"
  shows "r ! 0 = 0xFF" "r ! 1 = 0x5A"
proof -
  obtain p qs where ps: "ps = p # qs" using assms(2,3) by (cases ps) auto
  then have p: "packet p" using assms(1) by simp
  have "r ! j = p ! j" if "j < 2" for j
  proof -
    have "4 \<le> length p" using p by (simp add: packet_def)
    then have "(r @ fut) ! j = r ! j" "(p @ concat qs) ! j = p ! j" using that assms(3) by (simp_all add: nth_append)
    then show ?thesis using assms(2) ps by simp
  qed
  then show "r ! 0 = 0xFF" "r ! 1 = 0x5A" using p by (auto simp: packet_def)
qed

section \<open>The scan takes whole packets in order\<close>

lemma parse_loop_packets:
  assumes "list_all packet ps" and "st_raw st = a @ w" and "length a = k" and "w @ fut = concat ps" and "scan_ok st k"
  shows "\<exists>m st'. parse_loop always st k = Some (st', k + length (concat (take m ps))) \<and> m \<le> length ps \<and>
    length (concat (take m ps)) \<le> length w \<and> jpeg_state st' = fold deliver (take m ps) (jpeg_state st) \<and>
    same_stream st st' \<and> scan_ok st' (k + length (concat (take m ps))) \<and> (st_carplay st' \<longleftrightarrow> st_carplay st \<or> 0 < m) \<and>
    (m < length ps \<longrightarrow> length w < length (concat (take m ps)) + length (ps ! m) + 2) \<and>
    (k = 0 \<and> ps \<noteq> [] \<and> length (ps ! 0) \<le> length w \<longrightarrow> 0 < m)"
  using assms
proof (induction ps arbitrary: st a w k)
  case Nil
  then show ?case by (intro exI [of _ 0] exI [of _ st]) (simp add: parse_loop.simps)
next
  case (Cons p ps)
  have p: "packet p" "4 \<le> length p" using Cons.prems(1) by (simp_all add: packet_def)
  have wf: "w @ fut = p @ concat ps" using Cons.prems(4) by simp
  have len: "length (st_raw st) - k = length w" using Cons.prems(2,3) by simp
  have stop: ?case if "parse_loop always st k = Some (st, k)" "length w < length p + 2" "length w < length p \<or> 0 < k"
    using that Cons.prems(5) by (intro exI [of _ 0] exI [of _ st]) auto
  show ?case
  proof (cases "length w < length p")
    case True
    then have "parse_loop always st k = Some (st, k)"
      using parse_step_partial [OF p(1) Cons.prems(2,3) wf] len by (subst parse_loop.simps) auto
    then show ?thesis using True by (intro stop) auto
  next
    case False
    obtain r where r: "w = p @ r" "r @ fut = concat ps"
    proof
      have "take (length p) w = p"
        using arg_cong [OF wf, of "take (length p)"] False by simp
      then show w: "w = p @ drop (length p) w" by (metis append_take_drop_id)
      show "drop (length p) w @ fut = concat ps"
        using wf by (subst (asm) w) simp
    qed
    have raw: "st_raw st = a @ p @ r" using Cons.prems(2) r(1) by simp
    have look: "2 \<le> length r \<longrightarrow> r ! 0 = 0xFF \<and> r ! 1 = 0x5A"
      using packets_start [OF _ r(2)] Cons.prems(1) by simp
    note step = parse_step_whole [OF p(1) raw Cons.prems(3) look, of always]
    have four: "4 \<le> length (st_raw st) - k" using len False p(2) by simp
    show ?thesis
    proof (cases "length r < 2 \<and> k > 0")
      case True
      then have "parse_loop always st k = Some (st, k)"
        using step four by (subst parse_loop.simps) simp
      then show ?thesis using True r(1) by (intro stop) auto
    next
      case go_on: False
      have le: "k + length p \<le> length (st_raw st)" using raw Cons.prems(3) by simp
      obtain st1 where s1: "accept_packet always k (length p) st = Some (True, st1)" "scan_ok st1 (k + length p)"
        "same_stream st st1" "st_carplay st1" "jpeg_state st1 = deliver p (jpeg_state st)"
        using accept_packet_scan [OF Cons.prems(5) le p(2), of always] raw Cons.prems(3) by (auto simp: always_def)
      have st1: "st_raw st1 = (a @ p) @ r" "length (a @ p) = k + length p"
        using s1(3) raw Cons.prems(3) by (simp_all add: same_stream_def)
      obtain m st2 where ih: "parse_loop always st1 (k + length p) = Some (st2, k + length p + length (concat (take m ps)))"
        "m \<le> length ps" "length (concat (take m ps)) \<le> length r" "jpeg_state st2 = fold deliver (take m ps) (jpeg_state st1)"
        "same_stream st1 st2" "scan_ok st2 (k + length p + length (concat (take m ps)))" "st_carplay st2 \<longleftrightarrow> st_carplay st1 \<or> 0 < m"
        "m < length ps \<longrightarrow> length r < length (concat (take m ps)) + length (ps ! m) + 2"
        using Cons.IH [OF _ st1 r(2) s1(2)] Cons.prems(1) by auto
      have run: "parse_loop always st k = parse_loop always st1 (k + length p)"
        using step go_on four s1(1) by (subst parse_loop.simps) auto
      have t: "take (m + 1) (p # ps) = p # take m ps" "(p # ps) ! (m + 1) = ps ! m" by (simp_all add: take_Cons' nth_Cons')
      show ?thesis
        using run ih s1(4,5) same_stream_trans [OF s1(3) ih(5)] r(1)
        by (intro exI [of _ "m + 1"] exI [of _ st2]) (simp add: t add.assoc)
    qed
  qed
qed

section \<open>One read of an aligned stream\<close>

definition all_alloc :: stream_env where
  "all_alloc = \<lparr> se_raw_alloc = True, se_jpeg_alloc = always, se_image_alloc = True \<rparr>"

lemma handle_locked_packets:
  assumes "stream_ok st" and "st_active st" and "st_fd st = fd" and "list_all packet ps"
    and "(st_raw st @ buf) @ fut = concat ps" and "length (st_raw st) + length buf \<le> STREAM_BUF_MAX"
  shows "\<exists>m img skip st1 st2. handle_locked all_alloc fd buf st = Some (img, skip, st2) \<and> m \<le> length ps \<and>
    length (concat (take m ps)) \<le> length (st_raw st @ buf) \<and>
    (m < length ps \<longrightarrow> length (st_raw st @ buf) < length (concat (take m ps)) + length (ps ! m) + 2) \<and>
    jpeg_state st1 = fold deliver (take m ps) (jpeg_state st) \<and>
    (\<exists>st3. take_image True st1 = Some (img, st3) \<and> jpeg_state st2 = jpeg_state st3) \<and>
    stream_ok st2 \<and> st_fd st2 = fd \<and>
    (st_carplay st \<or> st_probe st + 1 < FD_PROBE_LIMIT \<longrightarrow>
       \<not> skip \<and> st_active st2 \<and> (st_carplay st2 \<or> \<not> st_carplay st \<and> st_probe st2 = st_probe st + 1) \<and>
       st_raw st2 = drop (length (concat (take m ps))) (st_raw st @ buf))"
proof -
  obtain st0 where a: "append_raw True buf st = Some (True, st0)" "stream_ok st0" "st_raw st0 = st_raw st @ buf"
    "st_fd st0 = st_fd st" "st_active st0 = st_active st" "st_carplay st0 = st_carplay st" "st_probe st0 = st_probe st"
    "jpeg_state st0 = jpeg_state st"
    using append_raw_ok [OF assms(1), of True buf] assms(6) by auto
  have scan: "scan_ok st0 0" using a(2) raw_cap_le [of "st_raw_cap st0"] by (simp add: stream_ok_def scan_ok_def)
  have raw0: "st_raw st0 = [] @ (st_raw st @ buf)" using a(3) by simp
  obtain m st1 where m: "parse_loop always st0 0 = Some (st1, length (concat (take m ps)))" "m \<le> length ps"
    "length (concat (take m ps)) \<le> length (st_raw st @ buf)" "jpeg_state st1 = fold deliver (take m ps) (jpeg_state st0)"
    "same_stream st0 st1" "scan_ok st1 (length (concat (take m ps)))" "st_carplay st1 \<longleftrightarrow> st_carplay st0 \<or> 0 < m"
    "m < length ps \<longrightarrow> length (st_raw st @ buf) < length (concat (take m ps)) + length (ps ! m) + 2"
    using parse_loop_packets [OF assms(4) raw0 _ assms(5) scan] by auto
  define n where "n = length (concat (take m ps))"
  note mn = m(1) [folded n_def]
  define st2 where "st2 = (if n > 0 then st1\<lparr> st_raw := drop n (st_raw st1) \<rparr> else st1)"
  have st2: "st_raw st2 = drop n (st_raw st @ buf)" "jpeg_state st2 = jpeg_state st1"
  proof -
    have "st_raw st1 = st_raw st @ buf" using m(5) a(3) by (simp add: same_stream_def)
    then have "st_raw (if n > 0 then st1\<lparr> st_raw := drop n (st_raw st1) \<rparr> else st1) = drop n (st_raw st @ buf)" for n
      by (cases "n > 0") simp_all
    then show "st_raw st2 = drop n (st_raw st @ buf)" unfolding st2_def .
    show "jpeg_state st2 = jpeg_state st1" by (simp add: st2_def jpeg_state_def)
  qed
  obtain img st3 where i: "take_image True st2 = Some (img, st3)" "same_stream st2 st3" "st_carplay st3 = st_carplay st2"
    using take_image_total [of True st2] by blast
  obtain skip st4 where f: "probe_filter fd st3 = (skip, st4)" by (cases "probe_filter fd st3")
  have run: "handle_locked all_alloc fd buf st = Some (img, skip, st4)"
    using assms(2,3) a(1) mn i(1) f by (simp add: handle_locked_def all_alloc_def st2_def [symmetric] Let_def)
  have ok: "stream_ok st4" "st_fd st4 = fd"
    using handle_locked_ok [OF assms(1), of all_alloc fd buf] run assms(3) by auto
  have same: "st_probe st3 = st_probe st" "st_active st3" "st_carplay st3 \<longleftrightarrow> st_carplay st \<or> 0 < m" "st_raw st3 = st_raw st2"
    using i(2,3) m(5,7) a(5,6,7) assms(2) by (auto simp: same_stream_def st2_def)
  have jp: "jpeg_state st4 = jpeg_state st3" using f by (auto simp: probe_filter_def Let_def jpeg_state_def split: if_splits)
  have probe: "\<not> skip \<and> st_active st4 \<and> (st_carplay st4 \<or> \<not> st_carplay st \<and> st_probe st4 = st_probe st + 1) \<and> st_raw st4 = st_raw st2"
    if "st_carplay st \<or> st_probe st + 1 < FD_PROBE_LIMIT"
    using that same f by (auto simp: probe_filter_def Let_def split: if_splits)
  show ?thesis
    using run m(2,3,8) ok i(1) jp probe st2 m(4) a(8) unfolding n_def by metis
qed

lemma get_stream_active:
  assumes "cover_ok c" and "i < MAX_STREAMS" and "st_active (co_streams c ! i)" and "st_fd (co_streams c ! i) = fd"
  shows "get_stream fd (co_streams c) = (Some i, co_streams c)"
proof -
  have len: "length (co_streams c) = MAX_STREAMS" using assms(1) by (simp add: cover_ok_def)
  obtain m f where l: "stream_loop fd 0 None (co_streams c) = (m, f)" by (cases "stream_loop fd 0 None (co_streams c)")
  show ?thesis
  proof (cases m)
    case None
    then show ?thesis using stream_loop_None [OF l [unfolded None]] assms len by (auto simp: list_all_length)
  next
    case (Some k)
    have "k = i" using stream_loop_Some [OF l [unfolded Some]] assms len by (auto simp: cover_ok_def)
    then show ?thesis using l Some by (simp add: get_stream_def)
  qed
qed

section \<open>First occurrences in growing data\<close>

lemma occurs_at_append: "i + length n \<le> length h \<Longrightarrow> occurs_at n (h @ z) i \<longleftrightarrow> occurs_at n h i"
  by (auto simp: occurs_at_def slice_def)

lemma first_at_append: "first_at n h i \<Longrightarrow> first_at n (h @ z) i"
  unfolding first_at_def by (auto simp: occurs_at_append occurs_at_def)

lemma first_at_prefix: "first_at n h i \<Longrightarrow> first_at n (h @ z) j \<Longrightarrow> i = j"
  using first_at_append first_at_unique by blast

lemma no_image_yet:
  assumes "first_at jpeg_soi (x @ J @ y) (length x)" and "first_at jpeg_eoi (J @ y) (length J - 2)"
    and "x @ J @ y = j @ z" and "length j < length (x @ J)"
  shows "\<not> (\<exists>s e. first_at jpeg_soi j s \<and> first_at jpeg_eoi (drop s j) e)"
proof (intro notI, elim exE conjE)
  fix s e
  assume s: "first_at jpeg_soi j s" and e: "first_at jpeg_eoi (drop s j) e"
  have sx: "s = length x" using first_at_prefix [OF s] assms(1,3) by metis
  have sj: "s \<le> length j" using s by (simp add: first_at_def occurs_at_def)
  have "J @ y = drop s j @ z" using arg_cong [OF assms(3), of "drop s"] sx sj by simp
  then have "e = length J - 2" using first_at_prefix [OF e] assms(2) by metis
  moreover have "e + 2 \<le> length j - s" using e by (simp add: first_at_def occurs_at_def)
  ultimately show False using assms(4) sx sj by simp
qed

lemma image_complete:
  assumes "first_at jpeg_soi (x @ J @ y) (length x)" and "first_at jpeg_eoi (J @ y) (length J - 2)" and "2 \<le> length J"
    and "st_jpeg st = x @ J @ y @ z"
  shows "take_image True st = Some (Some J, st\<lparr> st_jpeg := [], st_target := - 1 \<rparr>)"
proof -
  have ne: "st_jpeg st \<noteq> []" using assms(3,4) by auto
  have "first_at jpeg_soi (st_jpeg st) (length x)"
    using first_at_append [OF assms(1), of z] assms(4) by simp
  moreover have "first_at jpeg_eoi (drop (length x) (st_jpeg st)) (length J - 2)"
    using first_at_append [OF assms(2), of z] assms(4) by simp
  moreover have "slice (st_jpeg st) (length x) (length J - 2 + 2) = J" using assms(3,4) by (simp add: slice_def)
  ultimately show ?thesis using take_image_branches(1) [OF ne, of True] by auto
qed

lemma deliver_appends: "\<exists>z. snd (deliver p t) = snd t @ z"
  by (auto simp: deliver_def Let_def)

lemma fold_deliver_appends: "\<exists>z. snd (fold deliver ps t) = snd t @ z"
proof (induction ps arbitrary: t)
  case (Cons p ps)
  then show ?case using deliver_appends [of p t] by (metis append.assoc comp_apply fold_simps(2))
qed simp

definition no_image_start :: "bytes \<Rightarrow> bool" where
  "no_image_start p \<longleftrightarrow> my_memmem (slice p 11 (length p - 12)) jpeg_soi = None"

lemma deliver_idle: "no_image_start p \<Longrightarrow> deliver p (- 1, j) = (- 1, j)"
proof -
  have "- 1 \<noteq> uint (p ! 7)" using uint_ge_0 [of "p ! 7"] by linarith
  then show "no_image_start p \<Longrightarrow> deliver p (- 1, j) = (- 1, j)"
    by (auto simp: deliver_def Let_def no_image_start_def)
qed

lemma fold_deliver_idle: "list_all no_image_start ps \<Longrightarrow> fold deliver ps (- 1, j) = (- 1, j)"
  by (induction ps) (simp_all add: deliver_idle)

section \<open>Reads of one descriptor\<close>

definition reads :: "int \<Rightarrow> bytes list \<Rightarrow> cover_op list" where
  "reads fd cs = map (Read all_alloc fd) cs"

text \<open>The stream of descriptor fd is in slot i and has k reads left to show a packet.\<close>

definition reading :: "cover \<Rightarrow> nat \<Rightarrow> int \<Rightarrow> nat \<Rightarrow> bool" where
  "reading c i fd k \<longleftrightarrow> cover_ok c \<and> i < MAX_STREAMS \<and> st_active (co_streams c ! i) \<and> st_fd (co_streams c ! i) = fd \<and>
     0 \<le> fd \<and> fd < FD_TABLE_SIZE \<and> co_fd_iap2 c fd \<and>
     (st_carplay (co_streams c ! i) \<or> st_probe (co_streams c ! i) + k < FD_PROBE_LIMIT)"

lemma read_packets:
  assumes "reading c i fd (k + 1)" and "list_all packet ps" and "buf \<noteq> []"
    and "(st_raw (co_streams c ! i) @ buf) @ fut = concat ps"
    and "length (st_raw (co_streams c ! i)) < 2 ^ 16 + 2" and "length buf \<le> 900000"
  shows "\<exists>m img c' st1 st3. run_op (Read all_alloc fd buf) c = Some (img, c') \<and> reading c' i fd k \<and> m \<le> length ps \<and>
    st_raw (co_streams c' ! i) @ fut = concat (drop m ps) \<and> length (st_raw (co_streams c' ! i)) < 2 ^ 16 + 2 \<and>
    (m < length ps \<longrightarrow> length (st_raw (co_streams c' ! i)) < length (ps ! m) + 2) \<and>
    jpeg_state st1 = fold deliver (take m ps) (jpeg_state (co_streams c ! i)) \<and>
    take_image True st1 = Some (img, st3) \<and> jpeg_state (co_streams c' ! i) = jpeg_state st3"
proof -
  let ?st = "co_streams c ! i"
  have r: "cover_ok c" "i < MAX_STREAMS" "st_active ?st" "st_fd ?st = fd" "0 \<le> fd" "fd < FD_TABLE_SIZE" "co_fd_iap2 c fd"
    "st_carplay ?st \<or> st_probe ?st + 1 < FD_PROBE_LIMIT"
    using assms(1) by (auto simp: reading_def)
  have len: "length (co_streams c) = MAX_STREAMS" using r(1) by (simp add: cover_ok_def)
  have ok: "stream_ok ?st" using r(1,2) len by (simp add: cover_ok_def list_all_length)
  have "length (st_raw ?st) + length buf \<le> STREAM_BUF_MAX" using assms(5,6) by (simp add: STREAM_BUF_MAX_def)
  then obtain m img skip st1 st2 st3 where h: "handle_locked all_alloc fd buf ?st = Some (img, skip, st2)" "m \<le> length ps"
    "length (concat (take m ps)) \<le> length (st_raw ?st @ buf)"
    "m < length ps \<longrightarrow> length (st_raw ?st @ buf) < length (concat (take m ps)) + length (ps ! m) + 2"
    "jpeg_state st1 = fold deliver (take m ps) (jpeg_state ?st)"
    "take_image True st1 = Some (img, st3)" "jpeg_state st2 = jpeg_state st3" "stream_ok st2" "st_fd st2 = fd"
    "\<not> skip" "st_active st2" "st_carplay st2 \<or> \<not> st_carplay ?st \<and> st_probe st2 = st_probe ?st + 1"
    "st_raw st2 = drop (length (concat (take m ps))) (st_raw ?st @ buf)"
    using handle_locked_packets [OF ok r(3,4) assms(2,4)] r(8) by metis
  let ?c = "c\<lparr> co_streams := (co_streams c)[i := st2] \<rparr>"
  have run: "run_op (Read all_alloc fd buf) c = Some (img, ?c)"
    using get_stream_active [OF r(1-4)] h(1,10) r(2,5,6,7) len assms(3)
    by (simp add: after_read_def fd_wants_iap2_processing_def handle_stream_data_def FD_TABLE_SIZE_def rd8_def)
  have okc: "cover_ok ?c"
    by (rule cover_ok_update [OF r(1,2) h(8)]) (use r h(9) in \<open>auto simp: cover_ok_def\<close>)
  have at: "co_streams ?c ! i = st2" using r(2) len by simp
  have rd: "reading ?c i fd k"
    using okc at r h(9,11,12) assms(1) by (auto simp: reading_def)
  have split: "concat ps = concat (take m ps) @ concat (drop m ps)" by (metis append_take_drop_id concat_append)
  have rest: "st_raw st2 @ fut = concat (drop m ps)"
    using arg_cong [OF assms(4), of "drop (length (concat (take m ps)))"] h(3,13) unfolding split by simp
  have l: "length (st_raw st2) < length (ps ! m) + 2" if "m < length ps" using h(4,13) that by simp
  have "length (st_raw st2) < 2 ^ 16 + 2"
  proof (cases "m < length ps")
    case True
    then have "length (ps ! m) < 2 ^ 16" using assms(2) by (auto simp: list_all_length packet_def)
    then show ?thesis using l [OF True] by simp
  next
    case False
    then have "st_raw st2 = []" using rest h(2) by simp
    then show ?thesis by simp
  qed
  then show ?thesis using run rd h(2,5,6,7) rest l at by metis
qed

lemma reads_after:
  assumes "reading c i fd (length cs)" and "list_all packet bs" and "list_all no_image_start bs"
    and "st_raw (co_streams c ! i) @ concat cs = concat bs" and "length (st_raw (co_streams c ! i)) < 2 ^ 16 + 2"
    and "list_all (\<lambda>b. length b \<le> 900000) cs" and "jpeg_state (co_streams c ! i) = (- 1, [])"
  shows "\<exists>c'. run_ops (reads fd cs) c = Some ([], c') \<and> reading c' i fd 0 \<and> jpeg_state (co_streams c' ! i) = (- 1, [])"
  using assms
proof (induction cs arbitrary: c bs)
  case Nil
  then show ?case by (simp add: reads_def)
next
  case (Cons b cs)
  show ?case
  proof (cases "b = []")
    case True
    have "reading c i fd (length cs)" using Cons.prems(1) by (auto simp: reading_def)
    from Cons.IH [OF this Cons.prems(2,3)] show ?thesis
      using Cons.prems True by (simp add: reads_def after_read_def)
  next
    case False
    have pre: "reading c i fd (length cs + 1)" "(st_raw (co_streams c ! i) @ b) @ concat cs = concat bs" "length b \<le> 900000"
      using Cons.prems(1,4,6) by simp_all
    obtain m img c1 st1 st3 where r: "run_op (Read all_alloc fd b) c = Some (img, c1)" "reading c1 i fd (length cs)"
      "st_raw (co_streams c1 ! i) @ concat cs = concat (drop m bs)" "length (st_raw (co_streams c1 ! i)) < 2 ^ 16 + 2"
      "jpeg_state st1 = fold deliver (take m bs) (jpeg_state (co_streams c ! i))"
      "take_image True st1 = Some (img, st3)" "jpeg_state (co_streams c1 ! i) = jpeg_state st3"
      using read_packets [OF pre(1) Cons.prems(2) False pre(2) Cons.prems(5) pre(3)] by blast
    have "list_all no_image_start (take m bs)" using Cons.prems(3) by (auto simp: list_all_iff dest: in_set_takeD)
    then have st1: "jpeg_state st1 = (- 1, [])" using r(5) Cons.prems(7) by (simp add: fold_deliver_idle)
    then have "img = None" "jpeg_state st3 = (- 1, [])" using r(6) by (auto simp: take_image_def jpeg_state_def)
    moreover have "list_all packet (drop m bs)" "list_all no_image_start (drop m bs)"
      using Cons.prems(2,3) by (auto simp: list_all_iff dest: in_set_dropD)
    ultimately show ?thesis
      using Cons.IH [OF r(2) _ _ r(3,4)] Cons.prems(6) r(1,7) by (auto simp: reads_def)
  qed
qed

lemma reads_before:
  assumes "reading c i fd (length cs)" and "list_all packet (as @ bs)" and "list_all no_image_start bs" and "bs \<noteq> []" and "as \<noteq> []"
    and "st_raw (co_streams c ! i) @ concat cs = concat (as @ bs)" and "length (st_raw (co_streams c ! i)) < length (as ! 0) + 2"
    and "list_all (\<lambda>b. length b \<le> 900000) cs"
    and "snd (fold deliver as (jpeg_state (co_streams c ! i))) = x @ J @ y"
    and "\<forall>m < length as. length (snd (fold deliver (take m as) (jpeg_state (co_streams c ! i)))) < length (x @ J)"
    and "first_at jpeg_soi (x @ J @ y) (length x)" and "first_at jpeg_eoi (J @ y) (length J - 2)" and "2 \<le> length J"
    and "length (x @ J) \<le> JPEG_KEEP_MAX"
  shows "\<exists>c'. run_ops (reads fd cs) c = Some ([J], c') \<and> reading c' i fd 0 \<and> jpeg_state (co_streams c' ! i) = (- 1, [])"
  using assms(1-10)
proof (induction cs arbitrary: c as)
  case Nil
  obtain a as' b bs' where "as = a # as'" "bs = b # bs'" using Nil.prems(4,5) by (meson neq_Nil_conv)
  moreover then have "4 \<le> length b" using Nil.prems(2) by (simp add: packet_def)
  ultimately show ?case using Nil.prems(6,7) by simp
next
  case (Cons b cs)
  let ?t = "jpeg_state (co_streams c ! i)"
  show ?case
  proof (cases "b = []")
    case True
    have "reading c i fd (length cs)" using Cons.prems(1) by (auto simp: reading_def)
    from Cons.IH [OF this Cons.prems(2-5)] show ?thesis
      using Cons.prems True by (simp add: reads_def after_read_def)
  next
    case False
    have "length (as ! 0) < 2 ^ 16" using Cons.prems(2,5) by (cases as) (simp_all add: packet_def)
    then have small: "length (st_raw (co_streams c ! i)) < 2 ^ 16 + 2" using Cons.prems(7) by simp
    have pre: "reading c i fd (length cs + 1)" "(st_raw (co_streams c ! i) @ b) @ concat cs = concat (as @ bs)" "length b \<le> 900000"
      using Cons.prems(1,6,8) by simp_all
    obtain m img c1 st1 st3 where r: "run_op (Read all_alloc fd b) c = Some (img, c1)" "reading c1 i fd (length cs)"
      "m \<le> length (as @ bs)"
      "st_raw (co_streams c1 ! i) @ concat cs = concat (drop m (as @ bs))" "length (st_raw (co_streams c1 ! i)) < 2 ^ 16 + 2"
      "m < length (as @ bs) \<longrightarrow> length (st_raw (co_streams c1 ! i)) < length ((as @ bs) ! m) + 2"
      "jpeg_state st1 = fold deliver (take m (as @ bs)) ?t"
      "take_image True st1 = Some (img, st3)" "jpeg_state (co_streams c1 ! i) = jpeg_state st3"
      using read_packets [OF pre(1) Cons.prems(2) False pre(2) small pre(3)] by blast
    show ?thesis
    proof (cases "m < length as")
      case True
      have st1: "jpeg_state st1 = fold deliver (take m as) ?t" using r(7) True by simp
      have split: "fold deliver as ?t = fold deliver (drop m as) (jpeg_state st1)"
        unfolding st1 by (metis append_take_drop_id comp_apply fold_append)
      obtain z where z: "x @ J @ y = st_jpeg st1 @ z"
        using fold_deliver_appends [of "drop m as" "jpeg_state st1"] Cons.prems(9) split by (auto simp: jpeg_state_def)
      have short: "length (st_jpeg st1) < length (x @ J)"
        using Cons.prems(10) True st1 by (auto simp: jpeg_state_def dest!: spec [of _ m] arg_cong [of _ _ snd])
      have "img = None \<and> jpeg_state st3 = jpeg_state st1"
      proof (cases "st_jpeg st1 = []")
        case True
        then show ?thesis using r(8) by (simp add: take_image_def)
      next
        case ne: False
        have "\<not> length (st_jpeg st1) > JPEG_KEEP_MAX" using short assms(14) by simp
        then show ?thesis
          using take_image_branches(2) [OF ne no_image_yet [OF assms(11,12) z short], of True] r(8) by simp
      qed
      then have c1: "jpeg_state (co_streams c1 ! i) = fold deliver (take m as) ?t" "img = None" using r(9) st1 by simp_all
      have tk: "fold deliver (take k (drop m as)) (fold deliver (take m as) ?t) = fold deliver (take (m + k) as) ?t" for k
        by (simp add: take_add fold_append)
      have "\<exists>c'. run_ops (reads fd cs) c1 = Some ([J], c') \<and> reading c' i fd 0 \<and> jpeg_state (co_streams c' ! i) = (- 1, [])"
      proof (rule Cons.IH [OF r(2), of "drop m as"])
        show "list_all packet (drop m as @ bs)" using Cons.prems(2) by (auto simp: list_all_iff dest: in_set_dropD)
        show "drop m as \<noteq> []" using True by simp
        show "st_raw (co_streams c1 ! i) @ concat cs = concat (drop m as @ bs)" using r(4) True by simp
        show "length (st_raw (co_streams c1 ! i)) < length (drop m as ! 0) + 2"
          using r(6) True by (simp add: nth_append)
        show "snd (fold deliver (drop m as) (jpeg_state (co_streams c1 ! i))) = x @ J @ y"
          using Cons.prems(9) split c1(1) st1 by simp
        show "\<forall>k < length (drop m as). length (snd (fold deliver (take k (drop m as)) (jpeg_state (co_streams c1 ! i)))) < length (x @ J)"
          using Cons.prems(10) True unfolding c1(1) tk by auto
      qed (use Cons.prems in simp_all)
      then show ?thesis using r(1) c1(2) by (auto simp: reads_def)
    next
      case False
      have tm: "take m (as @ bs) = as @ take (m - length as) bs" using False by simp
      have "snd (jpeg_state st1) = snd (fold deliver (take (m - length as) bs) (fold deliver as ?t))"
        unfolding r(7) tm by simp
      then obtain z where z: "st_jpeg st1 = x @ J @ y @ z"
        using fold_deliver_appends [of "take (m - length as) bs" "fold deliver as ?t"] Cons.prems(9)
        by (auto simp: jpeg_state_def)
      have img: "img = Some J" "jpeg_state (co_streams c1 ! i) = (- 1, [])"
        using image_complete [OF assms(11-13) z] r(8,9) by (auto simp: jpeg_state_def)
      have "\<exists>c'. run_ops (reads fd cs) c1 = Some ([], c') \<and> reading c' i fd 0 \<and> jpeg_state (co_streams c' ! i) = (- 1, [])"
        by (rule reads_after [OF r(2), of "drop (m - length as) bs"])
          (use Cons.prems(2,3,8) r(4,5) img False in \<open>auto simp: list_all_iff dest: in_set_dropD\<close>)
      then show ?thesis using r(1) img(1) by (auto simp: reads_def)
    qed
  qed
qed

section \<open>Properties\<close>

text \<open>Property C35. However the reads on the iAP2 descriptor cut up a stream of packets,
  an image is handed off exactly once and byte for byte: the session of the
  first packet whose payload shows FF D8 is followed, its payloads are joined,
  and the image is the joined bytes from the first FF D8 to the next FF D9.
  The packets behind the image (at least one, none of them starting another
  image) change nothing, and the stream is ready for the next image.\<close>

theorem image_delivered:
  assumes "cover_ok c" and "i < MAX_STREAMS" and "0 \<le> fd" and "fd < FD_TABLE_SIZE" and "co_fd_iap2 c fd"
    and "co_streams c ! i = st" and "st_active st" and "st_fd st = fd" and "st_raw st = []" and "jpeg_state st = (- 1, [])"
    and "st_carplay st \<or> st_probe st + length cs < FD_PROBE_LIMIT"
    and "list_all packet (as @ bs)" and "bs \<noteq> []" and "list_all no_image_start bs"
    and "snd (fold deliver as (- 1, [])) = x @ J @ y" and "length (x @ J) \<le> JPEG_KEEP_MAX"
    and "\<forall>m < length as. length (snd (fold deliver (take m as) (- 1, []))) < length (x @ J)"
    and "2 \<le> length J" and "first_at jpeg_soi (x @ J @ y) (length x)" and "first_at jpeg_eoi (J @ y) (length J - 2)"
    and "concat cs = concat (as @ bs)" and "list_all (\<lambda>b. length b \<le> 900000) cs"
  shows "\<exists>c'. run_ops (reads fd cs) c = Some ([J], c') \<and> cover_ok c' \<and>
    st_active (co_streams c' ! i) \<and> st_fd (co_streams c' ! i) = fd \<and> jpeg_state (co_streams c' ! i) = (- 1, [])"
proof -
  have ne: "as \<noteq> []" using assms(15,18) by auto
  have rd: "reading c i fd (length cs)" using assms(1-8,11) by (simp add: reading_def)
  have raw: "st_raw (co_streams c ! i) @ concat cs = concat (as @ bs)" using assms(6,9,21) by simp
  have small: "length (st_raw (co_streams c ! i)) < length (as ! 0) + 2" using assms(6,9) by simp
  have st: "jpeg_state (co_streams c ! i) = (- 1, [])" using assms(6,10) by simp
  show ?thesis
    using reads_before [OF rd assms(12,14,13) ne raw small assms(22), unfolded st, OF assms(15,17,19,20,18,16)]
    unfolding reading_def by blast
qed

text \<open>Two packets with an image of four bytes each, and a third packet behind them.\<close>

definition tiny_image :: bytes where "tiny_image = [0xFF, 0xD8, 0xFF, 0xD9]"

definition image_packet :: "u8 \<Rightarrow> bytes" where
  "image_packet s = [0xFF, 0x5A, 0, 16, 0, 0, 0, s, 0, 0, 0] @ tiny_image @ [0]"

definition idle_packet :: bytes where
  "idle_packet = [0xFF, 0x5A, 0, 4]"

definition connected :: cover where
  "connected = cover0\<lparr> co_streams := (co_streams cover0)[0 := fresh_stream 5], co_fd_iap2 := (\<lambda>fd. fd = 5) \<rparr>"

lemma cover_ok_streams: "co_streams c' = co_streams c \<Longrightarrow> cover_ok c \<Longrightarrow> cover_ok c'"
  by (simp add: cover_ok_def)

lemma connected_ok: "cover_ok connected"
proof -
  have "0 < MAX_STREAMS" by (simp add: MAX_STREAMS_def)
  moreover have "stream_ok (fresh_stream 5)" by (simp add: fresh_stream_ok)
  moreover have "\<not> st_active (co_streams cover0 ! j)" if "j < MAX_STREAMS" for j
    using that by (simp add: cover0_def zero_stream_def)
  ultimately have "cover_ok (cover0\<lparr> co_streams := (co_streams cover0)[0 := fresh_stream 5] \<rparr>)"
    by (intro cover_ok_update [OF cover0_ok]) blast+
  then show ?thesis by (rule cover_ok_streams [rotated]) (simp add: connected_def)
qed

definition tiny_reads :: "bytes list" where
  "tiny_reads = [take 7 (image_packet 2), drop 7 (image_packet 2) @ [0xFF], drop 1 idle_packet]"

lemma tiny_packets:
  "list_all packet ([image_packet 2] @ [idle_packet])" "list_all no_image_start [idle_packet]"
  by (simp_all add: packet_def no_image_start_def image_packet_def idle_packet_def tiny_image_def slice_def my_memmem_def
    jpeg_soi_def be16_def)

lemma tiny_deliver: "snd (fold deliver [image_packet 2] (- 1, [])) = [] @ tiny_image @ []"
  by (simp add: deliver_def image_packet_def tiny_image_def slice_def my_memmem_def memmem_loop.simps(2) jpeg_soi_def)

lemma tiny_found:
  "first_at jpeg_soi ([] @ tiny_image @ []) (length [])" "first_at jpeg_eoi (tiny_image @ []) (length tiny_image - 2)"
proof -
  have no: "\<not> occurs_at jpeg_eoi tiny_image 0" "\<not> occurs_at jpeg_eoi tiny_image 1"
    by (simp_all add: occurs_at_def slice_def tiny_image_def jpeg_eoi_def)
  have "j = 0 \<or> j = 1" if "j < 2" for j :: nat using that by linarith
  with no have "\<forall>j < 2. \<not> occurs_at jpeg_eoi tiny_image j" by metis
  then show "first_at jpeg_eoi (tiny_image @ []) (length tiny_image - 2)"
    by (simp add: first_at_def occurs_at_def slice_def tiny_image_def jpeg_eoi_def)
  show "first_at jpeg_soi ([] @ tiny_image @ []) (length [])"
    by (simp add: first_at_def occurs_at_def slice_def tiny_image_def jpeg_soi_def)
qed

lemma tiny_reads_cut: "concat tiny_reads = concat ([image_packet 2] @ [idle_packet])" "list_all (\<lambda>b. length b \<le> 900000) tiny_reads"
  by (simp_all add: tiny_reads_def image_packet_def tiny_image_def idle_packet_def)

lemma image_delivered_witness:
  "\<exists>c'. run_ops (reads 5 tiny_reads) connected = Some ([tiny_image], c') \<and> cover_ok c' \<and>
     st_active (co_streams c' ! 0) \<and> st_fd (co_streams c' ! 0) = 5 \<and> jpeg_state (co_streams c' ! 0) = (- 1, [])"
proof -
  have m: "0 < MAX_STREAMS" "(0 :: int) \<le> 5" "5 < FD_TABLE_SIZE" "co_fd_iap2 connected 5"
    by (simp_all add: MAX_STREAMS_def FD_TABLE_SIZE_def connected_def)
  have s: "co_streams connected ! 0 = fresh_stream 5"
    by (simp add: connected_def cover0_def MAX_STREAMS_def)
  have r: "st_raw (fresh_stream 5) = []" "jpeg_state (fresh_stream 5) = (- 1, [])"
    "st_carplay (fresh_stream 5) \<or> st_probe (fresh_stream 5) + length tiny_reads < FD_PROBE_LIMIT"
    by (simp_all add: fresh_stream_def jpeg_state_def tiny_reads_def FD_PROBE_LIMIT_def)
  have a: "\<forall>m < length [image_packet 2]. length (snd (fold deliver (take m [image_packet 2]) (- 1, []))) < length ([] @ tiny_image)"
    "[idle_packet] \<noteq> []" "length ([] @ tiny_image) \<le> JPEG_KEEP_MAX" "2 \<le> length tiny_image"
    by (simp_all add: tiny_image_def JPEG_KEEP_MAX_def)
  show ?thesis
    by (intro image_delivered [OF connected_ok, where as = "[image_packet 2]" and bs = "[idle_packet]" and
      x = "[]" and y = "[]"])
      (fact m s r a tiny_packets tiny_deliver tiny_found tiny_reads_cut fresh_stream_sel)+
qed

end
