(* ===== verification/Floats.thy ===== *)
theory Floats
  imports Complex_Main "HOL-Library.Log_Nat" Prelude
begin

text \<open>
  The floating point arithmetic of the C code: a finite value is the rational
  it stands for, and every operation rounds the exact result to the nearest
  value of p significant bits, ties to the even one (p = 53 for double, 24 for
  float).  The exponent is not bounded: the code's values stay far from the
  overflow and underflow thresholds, infinities and NaN are not modelled.
\<close>

text \<open>The offsets stay as in the prelude.\<close>

declare One_nat_def [simp del] add_2_eq_Suc [simp del] add_2_eq_Suc' [simp del]

section \<open>Rounding\<close>

definition round_even :: "rat \<Rightarrow> int" where
  "round_even q =
     (let n = \<lfloor>q\<rfloor>; d = q - of_int n in
      if d < 1 / 2 then n else if d > 1 / 2 then n + 1 else if even n then n else n + 1)"

text \<open>The exponent of the last of the p bits of a positive value.\<close>

definition rnd_exp :: "nat \<Rightarrow> rat \<Rightarrow> int" where
  "rnd_exp p x =
     (let (a, b) = quotient_of x; e = bitlen a - bitlen b - int p in
      if x < 2 powi (e + int p) then e else e + 1)"

definition rnd_pos :: "nat \<Rightarrow> rat \<Rightarrow> rat" where
  "rnd_pos p x = (let e = rnd_exp p x in of_int (round_even (x / 2 powi e)) * 2 powi e)"

definition rnd :: "nat \<Rightarrow> rat \<Rightarrow> rat" where
  "rnd p x = (if x = 0 then 0 else if x < 0 then - rnd_pos p (- x) else rnd_pos p x)"

definition rnd64 :: "rat \<Rightarrow> rat" where "rnd64 = rnd 53"
definition rnd32 :: "rat \<Rightarrow> rat" where "rnd32 = rnd 24"

text \<open>Conversion to int: towards zero, undefined out of range.\<close>

definition c_int :: "int \<Rightarrow> int option" where
  "c_int x = (if - 2147483648 \<le> x \<and> x < 2147483648 then Some x else None)"

definition trunc :: "rat \<Rightarrow> int" where
  "trunc x = (if x < 0 then - \<lfloor>- x\<rfloor> else \<lfloor>x\<rfloor>)"

definition float_to_int :: "rat \<Rightarrow> int option" where
  "float_to_int x = c_int (trunc x)"

lemma c_int_Some: "- 2147483648 \<le> x \<Longrightarrow> x < 2147483648 \<Longrightarrow> c_int x = Some x"
  by (simp add: c_int_def)

lemma c_int_eq_Some: "c_int x = Some y \<longleftrightarrow> y = x \<and> - 2147483648 \<le> x \<and> x < 2147483648"
  by (auto simp: c_int_def)

section \<open>The rounding error\<close>

lemma round_even_err: "\<bar>of_int (round_even q) - q\<bar> \<le> 1 / 2"
proof -
  have "of_int \<lfloor>q\<rfloor> \<le> q" "q < of_int \<lfloor>q\<rfloor> + 1" by linarith+
  then show ?thesis by (auto simp: round_even_def Let_def abs_le_iff)
qed

lemma two_powi_pos: "0 < (2 :: rat) powi e"
  by (simp add: power_int_def)

lemma two_powi_add: "(2 :: rat) powi (a + b) = 2 powi a * 2 powi b"
  by (rule power_int_add) simp

lemma bitlen_bounds_rat:
  assumes "0 < a"
  shows "(2 :: rat) powi (bitlen a - 1) \<le> of_int a" "of_int a < (2 :: rat) powi (bitlen a)"
proof -
  have b: "2 ^ nat (bitlen a - 1) \<le> a" "a < 2 ^ nat (bitlen a)" "0 < bitlen a"
    using bitlen_bounds [OF assms] assms bitlen_eq_zero_iff [of a] bitlen_nonneg [of a] by auto
  have "(2 :: rat) powi (bitlen a - 1) = of_int (2 ^ nat (bitlen a - 1))"
    "(2 :: rat) powi bitlen a = of_int (2 ^ nat (bitlen a))"
    using b(3) by (simp_all add: power_int_def)
  then show "(2 :: rat) powi (bitlen a - 1) \<le> of_int a" "of_int a < (2 :: rat) powi (bitlen a)"
    using b(1,2) by (simp_all only: of_int_le_iff of_int_less_iff)
qed

text \<open>The p bits: the value lies between the smallest and the end of its binade.\<close>

lemma rnd_exp_low: "0 < x \<Longrightarrow> 2 powi (rnd_exp p x + int p - 1) \<le> x"
proof -
  assume x: "0 < x"
  obtain a b where q: "quotient_of x = (a, b)" by (cases "quotient_of x")
  have b: "0 < b" using quotient_of_denom_pos [OF q] .
  have xq: "x = of_int a / of_int b" using quotient_of_div [OF q] .
  then have a: "0 < a" using x b by (simp add: zero_less_divide_iff)
  define e where "e = bitlen a - bitlen b - int p"
  have "2 powi (bitlen a - 1) \<le> (of_int a :: rat)" "of_int b \<le> (2 :: rat) powi bitlen b"
    using bitlen_bounds_rat [OF a] bitlen_bounds_rat [OF b] by simp_all
  moreover have "(2 :: rat) powi (bitlen a - 1) = 2 powi (e + int p - 1) * 2 powi bitlen b"
    by (simp add: e_def flip: two_powi_add)
  ultimately have "2 powi (e + int p - 1) * of_int b \<le> (of_int a :: rat)"
    using mult_left_mono [of "of_int b :: rat" "2 powi bitlen b" "2 powi (e + int p - 1)"] two_powi_pos [of "e + int p - 1"]
    by linarith
  then have lo: "2 powi (e + int p - 1) \<le> x" using b by (simp add: xq le_divide_eq)
  show ?thesis
  proof (cases "x < 2 powi (e + int p)")
    case True
    then have "rnd_exp p x = e" by (simp add: rnd_exp_def q e_def)
    then show ?thesis using lo by simp
  next
    case False
    then have "rnd_exp p x = e + 1" by (simp add: rnd_exp_def q e_def)
    then show ?thesis using False by simp
  qed
qed

lemma rnd_pos_err:
  assumes "0 < x"
  shows "\<bar>rnd_pos p x - x\<bar> \<le> x / 2 ^ p"
proof -
  define w where "w = (2 :: rat) powi rnd_exp p x"
  have w: "0 < w" by (simp add: w_def two_powi_pos)
  have "rnd_pos p x - x = (of_int (round_even (x / w)) - x / w) * w"
    using w by (simp add: rnd_pos_def w_def left_diff_distrib Let_def)
  then have "\<bar>rnd_pos p x - x\<bar> = \<bar>of_int (round_even (x / w)) - x / w\<bar> * w" using w by (simp add: abs_mult)
  also have "\<dots> \<le> 1 / 2 * w" using round_even_err w by (intro mult_right_mono) auto
  also have "\<dots> \<le> x / 2 ^ p"
  proof -
    have "2 powi (rnd_exp p x + int p - 1) = w * 2 ^ p / 2"
      using power_int_diff [of "2 :: rat" "rnd_exp p x + int p" 1] by (simp add: two_powi_add w_def)
    with rnd_exp_low [OF assms, of p] have "w * 2 ^ p \<le> 2 * x" by simp
    then show ?thesis by (simp add: le_divide_eq)
  qed
  finally show ?thesis .
qed

lemma rnd_err: "\<bar>rnd p x - x\<bar> \<le> \<bar>x\<bar> / 2 ^ p"
  using rnd_pos_err [of x p] rnd_pos_err [of "- x" p] by (auto simp: rnd_def)

lemma rnd_0 [simp]: "rnd p 0 = 0" "rnd64 0 = 0" "rnd32 0 = 0"
  by (simp_all add: rnd_def rnd64_def rnd32_def)

lemma rnd64_err: "\<bar>rnd64 x - x\<bar> \<le> \<bar>x\<bar> / 2 ^ 53"
  by (simp only: rnd64_def rnd_err)

lemma rnd32_err: "\<bar>rnd32 x - x\<bar> \<le> \<bar>x\<bar> / 2 ^ 24"
  by (simp only: rnd32_def rnd_err)

text \<open>Bounds of a rounded value that is not negative.\<close>

lemma rnd32_bounds:
  assumes "0 \<le> x"
  shows "x - x / 16777216 \<le> rnd32 x" "rnd32 x \<le> x + x / 16777216" "0 \<le> rnd32 x"
proof -
  have "\<bar>rnd32 x - x\<bar> \<le> x / 16777216" using rnd32_err [of x] assms by simp
  then have "rnd32 x - x \<le> x / 16777216" "x - rnd32 x \<le> x / 16777216" unfolding abs_le_iff by linarith+
  moreover have "x / 16777216 \<le> x" using assms by simp
  ultimately show "x - x / 16777216 \<le> rnd32 x" "rnd32 x \<le> x + x / 16777216" "0 \<le> rnd32 x" by linarith+
qed

lemma rnd32_pos: "0 < x \<Longrightarrow> 0 < rnd32 x"
  using rnd32_bounds(1) [of x] by simp

text \<open>Bounds that a bound of the exact value gives.\<close>

lemma rnd32_neg_le: "x \<le> 0 \<Longrightarrow> rnd32 x \<le> 0"
proof -
  assume x: "x \<le> 0"
  have "\<bar>rnd32 x - x\<bar> \<le> - x / 16777216" using rnd32_err [of x] x by simp
  then have "rnd32 x - x \<le> - x / 16777216" unfolding abs_le_iff by blast
  moreover have "- x / 16777216 \<le> - x" using x by simp
  ultimately show ?thesis by linarith
qed

lemma rnd32_le_mono: "x \<le> b \<Longrightarrow> 0 \<le> b \<Longrightarrow> rnd32 x \<le> b + b / 16777216"
proof (cases "0 \<le> x")
  case True
  assume "x \<le> b"
  then have "x / 16777216 \<le> b / 16777216" by (simp add: divide_right_mono)
  then show ?thesis using rnd32_bounds(2) [OF True] \<open>x \<le> b\<close> by linarith
next
  case False
  assume "0 \<le> b"
  then have "0 \<le> b + b / 16777216" by simp
  then show ?thesis using rnd32_neg_le [of x] False by linarith
qed

lemma rnd32_ge_mono: "a \<le> x \<Longrightarrow> 0 \<le> a \<Longrightarrow> a - a / 16777216 \<le> rnd32 x"
proof -
  assume a: "a \<le> x" "0 \<le> a"
  have "(x - a) / 16777216 \<le> x - a" using a(1) by simp
  then have "a - a / 16777216 \<le> x - x / 16777216" by (simp add: diff_divide_distrib)
  then show ?thesis using rnd32_bounds(1) [of x] a by linarith
qed

text \<open>Rounding keeps what p bits can hold: integers of the last bit, and 1 as a bound.\<close>

lemma round_even_of_int: "round_even (of_int n) = n"
  by (simp add: round_even_def Let_def)

lemma round_even_le: "q \<le> of_int n \<Longrightarrow> round_even q \<le> n"
proof (cases "q = of_int n")
  case False
  assume "q \<le> of_int n"
  then have "\<lfloor>q\<rfloor> < n" using False by (simp add: floor_less_iff)
  then show ?thesis by (auto simp: round_even_def Let_def)
qed (simp add: round_even_of_int)

lemma rnd_exp_high: "0 < x \<Longrightarrow> x < 2 powi (rnd_exp p x + int p)"
proof -
  assume x: "0 < x"
  obtain a b where q: "quotient_of x = (a, b)" by (cases "quotient_of x")
  have b: "0 < b" using quotient_of_denom_pos [OF q] .
  have xq: "x = of_int a / of_int b" using quotient_of_div [OF q] .
  then have a: "0 < a" using x b by (simp add: zero_less_divide_iff)
  define e where "e = bitlen a - bitlen b - int p"
  have "of_int a < (2 :: rat) powi bitlen a" "2 powi (bitlen b - 1) \<le> (of_int b :: rat)"
    using bitlen_bounds_rat [OF a] bitlen_bounds_rat [OF b] by simp_all
  moreover have "(2 :: rat) powi bitlen a = 2 powi (e + 1 + int p) * 2 powi (bitlen b - 1)"
    by (simp add: e_def flip: two_powi_add)
  ultimately have "of_int a < 2 powi (e + 1 + int p) * (of_int b :: rat)"
    using mult_left_mono [of "2 powi (bitlen b - 1)" "of_int b :: rat" "2 powi (e + 1 + int p)"] two_powi_pos [of "e + 1 + int p"]
    by linarith
  then have "x < 2 powi (e + 1 + int p)" using b by (simp add: xq divide_less_eq)
  moreover have "rnd_exp p x = (if x < 2 powi (e + int p) then e else e + 1)" by (simp add: rnd_exp_def q e_def)
  ultimately show ?thesis by presburger
qed

lemma two_powi_int: "0 \<le> e \<Longrightarrow> (2 :: rat) powi e = of_int (2 ^ nat e)"
  by (simp add: power_int_def)

lemma two_powi_mono: "(2 :: rat) powi a \<le> 2 powi b \<longleftrightarrow> a \<le> b"
  using power_int_strict_increasing [of b a "2 :: rat"] power_int_increasing [of a b "2 :: rat"] by (auto simp: not_le [symmetric])

lemma rnd_pos_le_1: "0 < x \<Longrightarrow> x \<le> 1 \<Longrightarrow> 0 < p \<Longrightarrow> rnd_pos p x \<le> 1"
proof -
  assume x: "0 < x" "x \<le> 1" "0 < p"
  define e where "e = rnd_exp p x"
  have "2 powi (e + int p - 1) \<le> (2 :: rat) powi 0" using rnd_exp_low [OF x(1), of p] x(2) by (simp add: e_def)
  then have e: "e \<le> 0" using x(3) unfolding two_powi_mono by linarith
  have w: "0 < (2 :: rat) powi e" by (rule two_powi_pos)
  have inv: "(2 :: rat) powi (- e) * 2 powi e = 1" by (simp flip: two_powi_add)
  have "x / 2 powi e = x * 2 powi (- e)" using w inv by (simp add: field_simps)
  also have "\<dots> \<le> 2 powi (- e)" using x(2) two_powi_pos [of "- e"] by (simp add: mult_left_le_one_le)
  finally have "x / 2 powi e \<le> of_int (2 ^ nat (- e))" using e by (simp add: two_powi_int)
  then have "of_int (round_even (x / 2 powi e)) \<le> (of_int (2 ^ nat (- e)) :: rat)" unfolding of_int_le_iff by (rule round_even_le)
  also have "\<dots> = 2 powi (- e)" using e by (simp add: two_powi_int)
  finally have "of_int (round_even (x / 2 powi e)) * 2 powi e \<le> 2 powi (- e) * (2 :: rat) powi e" using w by (intro mult_right_mono) simp_all
  then show ?thesis by (simp add: rnd_pos_def Let_def e_def [symmetric] inv)
qed

lemma rnd32_le_1: "x \<le> 1 \<Longrightarrow> rnd32 x \<le> 1"
  using rnd_pos_le_1 [of x 24] rnd32_neg_le [of x] by (cases "0 < x") (auto simp: rnd32_def rnd_def)

lemma rnd_pos_idem: "0 < x \<Longrightarrow> 0 < p \<Longrightarrow> rnd_pos p (rnd_pos p x) = rnd_pos p x \<and> 0 < rnd_pos p x"
proof -
  assume x: "0 < x" "0 < p"
  define e where "e = rnd_exp p x"
  define k where "k = round_even (x / 2 powi e)"
  define y where "y = rnd_pos p x"
  have y: "y = of_int k * 2 powi e" by (simp add: y_def rnd_pos_def Let_def e_def k_def)
  have w: "0 < (2 :: rat) powi e" by (rule two_powi_pos)
  have "\<bar>y - x\<bar> \<le> x / 2 ^ p" using rnd_pos_err [OF x(1)] by (simp add: y_def)
  moreover have "x / 2 ^ p < x" using x by (simp add: divide_less_eq)
  ultimately have y0: "0 < y" by linarith
  have "x < 2 powi (e + int p)" using rnd_exp_high [OF x(1), of p] by (simp add: e_def)
  then have "x < 2 powi e * 2 powi int p" by (simp only: two_powi_add)
  then have "x / 2 powi e \<le> of_int (2 ^ p)" using w by (simp add: divide_le_eq two_powi_int mult.commute)
  then have k: "k \<le> 2 ^ p" unfolding k_def by (rule round_even_le)
  define f where "f = rnd_exp p y"
  have "\<exists>j. y = of_int j * 2 powi f"
  proof (cases "f \<le> e")
    case True
    then have "y = of_int (k * 2 ^ nat (e - f)) * 2 powi f"
      using two_powi_add [of "e - f" f] by (simp add: y two_powi_int)
    then show ?thesis by blast
  next
    case False
    have "2 powi (f + int p - 1) \<le> y" using rnd_exp_low [OF y0, of p] by (simp add: f_def)
    also have "y \<le> of_int (2 ^ p) * 2 powi e" unfolding y using k w by (intro mult_right_mono) (simp_all flip: of_int_power)
    also have "\<dots> = 2 powi (int p + e)" by (simp add: two_powi_add)
    finally have "f + int p - 1 \<le> int p + e" unfolding two_powi_mono .
    then have f: "f = e + 1" using False by simp
    then have "of_int (2 ^ p) * 2 powi e \<le> y" using rnd_exp_low [OF y0, of p] by (simp add: f_def [symmetric] two_powi_add add.commute mult.commute)
    then have "y = of_int (2 ^ p) * 2 powi e"
      using \<open>y \<le> of_int (2 ^ p) * 2 powi e\<close> by simp
    also have "(of_int (2 ^ p) :: rat) = of_int (2 ^ (p - 1)) * 2" using x(2) by (cases p) simp_all
    finally have "y = of_int (2 ^ (p - 1)) * 2 powi f" by (simp add: f two_powi_add)
    then show ?thesis by blast
  qed
  then obtain j where j: "y = of_int j * 2 powi f" by blast
  then have "round_even (y / 2 powi f) = j" using two_powi_pos [of f] by (simp add: round_even_of_int)
  moreover have "rnd_pos p y = of_int (round_even (y / 2 powi f)) * 2 powi f" by (simp add: rnd_pos_def Let_def f_def)
  ultimately have "rnd_pos p y = y" using j by simp
  then show ?thesis using y0 by (simp add: y_def)
qed

lemma rnd32_idem [simp]: "rnd32 (rnd32 x) = rnd32 x"
  using rnd_pos_idem [of x 24] rnd_pos_idem [of "- x" 24] by (auto simp: rnd32_def rnd_def)

text \<open>For measures.\<close>

lemma nat_ceiling_less:
  assumes "y + 1 \<le> (x :: rat)" and "0 < x" shows "nat \<lceil>y\<rceil> < nat \<lceil>x\<rceil>"
proof -
  have "\<lceil>y\<rceil> + 1 \<le> \<lceil>x\<rceil>" using assms(1) by (metis ceiling_add_one ceiling_mono)
  moreover have "0 < \<lceil>x\<rceil>" using assms(2) by simp
  ultimately show ?thesis by linarith
qed

end
