(* ===== verification/Cover_Image.thy ===== *)
theory Cover_Image
  imports Cover_Bytes Floats
begin

text \<open>
  c_hook/coverart/coverart_hook.c, the picture: the two resize functions and the
  PNG encoder.  Signed products are checked (None on overflow), every access to
  a buffer is checked; malloc is an argument that gives the new object with its
  unknown contents, zlib's crc32, compressBound and compress2 are parameters.
\<close>

definition OUTPUT_WIDTH :: int where "OUTPUT_WIDTH = 256"
definition OUTPUT_HEIGHT :: int where "OUTPUT_HEIGHT = 256"

text \<open>An object of n bytes, when the allocation succeeds.\<close>

type_synonym allocator = "nat \<Rightarrow> bytes option"

definition alloc_ok :: "allocator \<Rightarrow> bool" where
  "alloc_ok al \<longleftrightarrow> (\<forall>n m. al n = Some m \<longrightarrow> length m = n)"

section \<open>Loops and accesses at signed offsets\<close>

primrec for_each :: "('a \<Rightarrow> 's \<Rightarrow> 's option) \<Rightarrow> 'a list \<Rightarrow> 's \<Rightarrow> 's option" where
  "for_each f [] s = Some s"
| "for_each f (i # is) s = (case f i s of None \<Rightarrow> None | Some s \<Rightarrow> for_each f is s)"

definition get_at :: "bytes \<Rightarrow> int \<Rightarrow> u8 option" where
  "get_at m i = (if 0 \<le> i then rd8 m (nat i) else None)"

definition put_at :: "bytes \<Rightarrow> int \<Rightarrow> u8 \<Rightarrow> bytes option" where
  "put_at m i v = (if 0 \<le> i then wr8 m (nat i) v else None)"

definition get_row :: "bytes \<Rightarrow> int \<Rightarrow> nat \<Rightarrow> bytes option" where
  "get_row m i n = (if 0 \<le> i then rd_mem m (nat i) n else None)"

definition put_row :: "bytes \<Rightarrow> int \<Rightarrow> bytes \<Rightarrow> bytes option" where
  "put_row m i vs = (if 0 \<le> i then wr_mem m (nat i) vs else None)"

section \<open>Resizing\<close>

text \<open>One pixel of a row; src_row and dst_row are offsets into the two objects.\<close>

definition resize_pixel :: "bytes \<Rightarrow> int \<Rightarrow> int \<Rightarrow> int \<Rightarrow> int \<Rightarrow> int \<Rightarrow> bytes \<Rightarrow> bytes option" where
  "resize_pixel src src_row sw dst_row dw x dst = do {
     sx \<leftarrow> c_int (x * sw);
     p \<leftarrow> c_int (sx div dw * 3);
     q \<leftarrow> c_int (x * 3 + 2);
     a \<leftarrow> get_at src (src_row + p);
     dst \<leftarrow> put_at dst (dst_row + x * 3) a;
     b \<leftarrow> get_at src (src_row + p + 1);
     dst \<leftarrow> put_at dst (dst_row + x * 3 + 1) b;
     c \<leftarrow> get_at src (src_row + p + 2);
     put_at dst (dst_row + x * 3 + 2) c }"

definition resize_row :: "bytes \<Rightarrow> int \<Rightarrow> int \<Rightarrow> int \<Rightarrow> int \<Rightarrow> bool \<Rightarrow> int \<Rightarrow> bytes \<Rightarrow> bytes option" where
  "resize_row src sw sh dw dh flip y dst = do {
     t \<leftarrow> c_int (y * sh);
     let sy = t div dh;
     let src_y = (if flip then sh - 1 - sy else sy);
     u \<leftarrow> c_int (src_y * sw);
     src_row \<leftarrow> c_int (u * 3);
     v \<leftarrow> c_int (y * dw);
     dst_row \<leftarrow> c_int (v * 3);
     for_each (resize_pixel src src_row sw dst_row dw) [0 .. dw - 1] dst }"

definition resize_rgb :: "bytes \<Rightarrow> int \<Rightarrow> int \<Rightarrow> bytes \<Rightarrow> int \<Rightarrow> int \<Rightarrow> bool \<Rightarrow> bytes option" where
  "resize_rgb src sw sh dst dw dh flip = for_each (resize_row src sw sh dw dh flip) [0 .. dh - 1] dst"

text \<open>The size of the picture inside the canvas, in double arithmetic.\<close>

definition contain_scale :: "int \<Rightarrow> int \<Rightarrow> int \<Rightarrow> int \<Rightarrow> rat" where
  "contain_scale sw sh dw dh =
     (let sx = rnd64 (of_int dw / of_int sw); sy = rnd64 (of_int dh / of_int sh)
      in if sx < sy then sx else sy)"

definition contain_extent :: "int \<Rightarrow> rat \<Rightarrow> int \<Rightarrow> int option" where
  "contain_extent s scale d = do {
     n \<leftarrow> float_to_int (rnd64 (rnd64 (of_int s * scale) + 1 / 2));
     let n = (if n < 1 then 1 else n);
     Some (if n > d then d else n) }"

definition copy_row :: "bytes \<Rightarrow> int \<Rightarrow> int \<Rightarrow> int \<Rightarrow> int \<Rightarrow> int \<Rightarrow> bytes \<Rightarrow> bytes option" where
  "copy_row tmp nw dw x0 y0 y dst = do {
     a \<leftarrow> c_int ((y0 + y) * dw);
     b \<leftarrow> c_int ((a + x0) * 3);
     c \<leftarrow> c_int (y * nw);
     d \<leftarrow> c_int (c * 3);
     row \<leftarrow> get_row tmp d (nat nw * 3);
     put_row dst b row }"

definition resize_rgb_contain ::
  "allocator \<Rightarrow> bytes \<Rightarrow> int \<Rightarrow> int \<Rightarrow> bytes \<Rightarrow> int \<Rightarrow> int \<Rightarrow> bool \<Rightarrow> bytes option" where
  "resize_rgb_contain al src sw sh dst dw dh flip =
     (if sw \<le> 0 \<or> sh \<le> 0 \<or> dw \<le> 0 \<or> dh \<le> 0 then Some dst
      else do {
        dst \<leftarrow> wr_mem dst 0 (replicate (nat dw * nat dh * 3) 0);
        let scale = contain_scale sw sh dw dh;
        nw \<leftarrow> contain_extent sw scale dw;
        nh \<leftarrow> contain_extent sh scale dh;
        (case al (nat nw * nat nh * 3) of
           None \<Rightarrow> Some dst
         | Some tmp \<Rightarrow> do {
             tmp \<leftarrow> resize_rgb src sw sh tmp nw nh flip;
             for_each (copy_row tmp nw dw ((dw - nw) div 2) ((dh - nh) div 2)) [0 .. nh - 1] dst }) })"

section \<open>The PNG encoder\<close>

text \<open>What the code uses of zlib: crc32 extends a checksum, compressBound sizes the
  output of compress2, which is None when it fails.\<close>

record zlib =
  z_crc32 :: "u32 \<Rightarrow> bytes \<Rightarrow> u32"
  z_bound :: "nat \<Rightarrow> nat"
  z_compress :: "bytes \<Rightarrow> bytes option"

text \<open>buf[pos++] = v.\<close>

definition push :: "u8 \<Rightarrow> bytes \<times> nat \<Rightarrow> (bytes \<times> nat) option" where
  "push v s = (case s of (buf, pos) \<Rightarrow> do { buf \<leftarrow> wr8 buf pos v; Some (buf, pos + 1) })"

text \<open>memcpy(buf + pos, vs, n); pos += n.\<close>

definition push_mem :: "bytes \<Rightarrow> bytes \<times> nat \<Rightarrow> (bytes \<times> nat) option" where
  "push_mem vs s = (case s of (buf, pos) \<Rightarrow> do { buf \<leftarrow> wr_mem buf pos vs; Some (buf, pos + length vs) })"

definition push_be32 :: "u32 \<Rightarrow> bytes \<times> nat \<Rightarrow> (bytes \<times> nat) option" where
  "push_be32 v s = do {
     s \<leftarrow> push (ucast (drop_bit 24 v AND 0xFF)) s; s \<leftarrow> push (ucast (drop_bit 16 v AND 0xFF)) s;
     s \<leftarrow> push (ucast (drop_bit 8 v AND 0xFF)) s; push (ucast (v AND 0xFF)) s }"

definition ihdr :: "int \<Rightarrow> int \<Rightarrow> bytes" where
  "ihdr w h = be32_bytes (of_int w) @ be32_bytes (of_int h) @ [8, 2, 0, 0, 0]"

text \<open>One scanline of the raw data: the filter byte and the pixels.\<close>

definition raw_row :: "bytes \<Rightarrow> int \<Rightarrow> int \<Rightarrow> bytes \<Rightarrow> bytes option" where
  "raw_row rgb w y raw = do {
     a \<leftarrow> c_int (y * (w * 3 + 1));
     raw \<leftarrow> put_at raw a 0;
     b \<leftarrow> c_int (y * w);
     b \<leftarrow> c_int (b * 3);
     row \<leftarrow> get_row rgb b (nat (w * 3));
     put_row raw (a + 1) row }"

text \<open>The encoded file, or None in the inner option when the code returns -1.\<close>

definition build_png :: "zlib \<Rightarrow> allocator \<Rightarrow> bytes \<Rightarrow> int \<Rightarrow> int \<Rightarrow> bytes option option" where
  "build_png z al rgb w h =
     (if w \<le> 0 \<or> h \<le> 0 then Some None
      else do {
        n \<leftarrow> c_int (w * 3 + 1);
        let raw_len = nat h * nat n;
        case al (8 + 25 + raw_len + 1024) of None \<Rightarrow> Some None
        | Some buf \<Rightarrow> do {
            s \<leftarrow> push_mem png_sig (buf, 0);
            s \<leftarrow> push_be32 13 s;
            s \<leftarrow> push_mem (str_bytes ''IHDR'') s;
            s \<leftarrow> push_mem (ihdr w h) s;
            s \<leftarrow> push_be32 (z_crc32 z (z_crc32 z 0 (str_bytes ''IHDR'')) (ihdr w h)) s;
            case al raw_len of None \<Rightarrow> Some None
            | Some raw \<Rightarrow> do {
                raw \<leftarrow> for_each (raw_row rgb w) [0 .. h - 1] raw;
                case al (z_bound z raw_len) of None \<Rightarrow> Some None
                | Some _ \<Rightarrow>
                    (case z_compress z raw of None \<Rightarrow> Some None
                     | Some packed \<Rightarrow> do {
                         s \<leftarrow> push_be32 (of_nat (length packed)) s;
                         s \<leftarrow> push_mem (str_bytes ''IDAT'') s;
                         s \<leftarrow> push_mem packed s;
                         s \<leftarrow> push_be32 (z_crc32 z (z_crc32 z 0 (str_bytes ''IDAT'')) packed) s;
                         s \<leftarrow> push_be32 0 s;
                         s \<leftarrow> push_mem (str_bytes ''IEND'') s;
                         (buf, pos) \<leftarrow> push_be32 (z_crc32 z 0 (str_bytes ''IEND'')) s;
                         Some (Some (take pos buf)) }) } } })"

section \<open>Loops that write an object from front to back\<close>

lemma for_each_append:
  "for_each f (xs @ ys) s = (case for_each f xs s of None \<Rightarrow> None | Some s \<Rightarrow> for_each f ys s)"
  by (induction xs arbitrary: s) (auto split: option.splits)

lemma for_each_upto:
  assumes "P 0 s" and "\<And>i s. i < n \<Longrightarrow> P i s \<Longrightarrow> \<exists>s'. f (int i) s = Some s' \<and> P (i + 1) s'"
  shows "\<exists>s'. for_each f [0 .. int n - 1] s = Some s' \<and> P n s'"
proof -
  have all: "\<exists>s'. for_each f [0 .. int k - 1] s = Some s' \<and> P k s'" if "k \<le> n" for k
    using that
  proof (induction k)
    case 0
    then show ?case using assms(1) by simp
  next
    case (Suc k)
    from Suc.prems have k: "k < n" "k \<le> n" by simp_all
    obtain s' where s': "for_each f [0 .. int k - 1] s = Some s'" "P k s'" using Suc.IH [OF k(2)] by (elim exE conjE)
    obtain s'' where s'': "f (int k) s' = Some s''" "P (k + 1) s''" using assms(2) [OF k(1) s'(2)] by (elim exE conjE)
    have m: "int (Suc k) - 1 = int k" "0 \<le> int k" by simp_all
    have "for_each f [0 .. int (Suc k) - 1] s = Some s''"
      unfolding m(1) upto_rec2 [OF m(2)] for_each_append s'(1) option.case for_each.simps s''(1) ..
    then show ?case using s''(2) unfolding Suc_eq_plus1 by (intro exI conjI)
  qed
  show ?thesis by (rule all [OF order_refl])
qed

text \<open>An object whose first k bytes are those of e.\<close>

definition filled :: "bytes \<Rightarrow> bytes \<Rightarrow> nat \<Rightarrow> bytes" where
  "filled e m k = take k e @ drop k m"

lemma length_filled [simp]: "length e = length m \<Longrightarrow> length (filled e m k) = length m"
  by (simp add: filled_def)

lemma filled_0 [simp]: "filled e m 0 = m"
  by (simp add: filled_def)

lemma filled_all [simp]: "length e = length m \<Longrightarrow> filled e m (length m) = e"
  by (simp add: filled_def)

lemma filled_patch:
  assumes "length e = length m" and "k + length v \<le> length m" and "slice e k (length v) = v"
  shows "patch (filled e m k) k v = filled e m (k + length v)"
proof -
  have "take (k + length v) e = take k e @ v" using assms(3) by (simp add: take_add slice_def)
  then show ?thesis using assms(1,2) by (simp add: filled_def patch_def add.commute)
qed

text \<open>Blocks of equal length.\<close>

lemma length_blocks:
  "\<lbrakk> \<And>i. i < n \<Longrightarrow> length (g i) = b \<rbrakk> \<Longrightarrow> length (concat (map g [0 ..< n])) = n * b"
  by (induction n) (simp_all add: distrib_right)

lemma slice_blocks:
  "\<lbrakk> \<And>i. i < n \<Longrightarrow> length (g i) = b; i < n \<rbrakk> \<Longrightarrow> slice (concat (map g [0 ..< n])) (i * b) b = g i"
proof (induction n)
  case (Suc n)
  have len: "length (concat (map g [0 ..< n])) = n * b" using Suc.prems(1) by (intro length_blocks) simp
  show ?case
  proof (cases "i < n")
    case True
    have "i * b + b \<le> n * b" using True by (metis Suc_leI mult_Suc mult_le_mono1 add.commute)
    then show ?thesis using True Suc len by simp
  next
    case False
    then have "i = n" using Suc.prems(2) by simp
    then show ?thesis using Suc.prems(1) [of n] len by (simp add: slice_append_right)
  qed
qed simp

lemma block_end: "i < n \<Longrightarrow> i * b + b \<le> n * (b :: nat)"
  by (metis Suc_leI mult_Suc mult_le_mono1 add.commute)

section \<open>Resizing\<close>

text \<open>Reference: where each pixel of the result is taken from, and the result.\<close>

definition source_pixel :: "nat \<Rightarrow> nat \<Rightarrow> nat \<Rightarrow> nat \<Rightarrow> bool \<Rightarrow> nat \<Rightarrow> nat \<Rightarrow> nat" where
  "source_pixel sw sh dw dh flip x y =
     (let sy = y * sh div dh in (if flip then sh - 1 - sy else sy) * sw + x * sw div dw)"

definition pixel :: "bytes \<Rightarrow> nat \<Rightarrow> bytes" where
  "pixel img k = slice img (k * 3) 3"

definition resized_row :: "bytes \<Rightarrow> nat \<Rightarrow> nat \<Rightarrow> nat \<Rightarrow> nat \<Rightarrow> bool \<Rightarrow> nat \<Rightarrow> bytes" where
  "resized_row src sw sh dw dh flip y =
     concat (map (\<lambda>x. pixel src (source_pixel sw sh dw dh flip x y)) [0 ..< dw])"

definition resized :: "bytes \<Rightarrow> nat \<Rightarrow> nat \<Rightarrow> nat \<Rightarrow> nat \<Rightarrow> bool \<Rightarrow> bytes" where
  "resized src sw sh dw dh flip = concat (map (resized_row src sw sh dw dh flip) [0 ..< dh])"

lemma scaled_less: "x < d \<Longrightarrow> 0 < s \<Longrightarrow> x * s div d < (s :: nat)"
  by (simp add: less_mult_imp_div_less mult.commute)

lemma source_pixel_less:
  assumes "x < dw" and "y < dh" and "0 < sw" and "0 < sh"
  shows "source_pixel sw sh dw dh flip x y < sw * sh"
proof -
  define t where "t = y * sh div dh"
  define r where "r = (if flip then sh - 1 - t else t)"
  define c where "c = x * sw div dw"
  have "t < sh" unfolding t_def by (rule scaled_less [OF assms(2,4)])
  then have "r < sh" unfolding r_def by (split if_split) linarith
  then have "r * sw + sw \<le> sh * sw" by (rule block_end)
  moreover have "c < sw" unfolding c_def by (rule scaled_less [OF assms(1,3)])
  ultimately have "r * sw + c < sh * sw" by linarith
  then show ?thesis unfolding source_pixel_def Let_def r_def t_def c_def by (simp only: mult.commute)
qed

lemma length_pixel:
  assumes "k < n" and "length img = n * 3"
  shows "length (pixel img k) = 3"
proof -
  have "k * 3 + 3 \<le> length img" unfolding assms(2) by (rule block_end [OF assms(1)])
  then show ?thesis unfolding pixel_def by (rule length_slice)
qed

lemma at_nat: "get_at m (int i) = rd8 m i" "put_at m (int i) v = wr8 m i v"
  "get_row m (int i) n = rd_mem m i n" "put_row m (int i) vs = wr_mem m i vs"
  by (simp_all add: get_at_def put_at_def get_row_def put_row_def)

lemma int_offset: "int p + 1 = int (p + 1)" "int p + 2 = int (p + 2)"
  by simp_all

lemma slice_3: "p + 3 \<le> length m \<Longrightarrow> slice m p 3 = [m ! p, m ! (p + 1), m ! (p + 2)]"
proof -
  assume p: "p + 3 \<le> length m"
  have one: "slice m i 1 = [m ! i]" if "i < length m" for i
    using that by (simp add: slice_def take_Suc_conv_app_nth Cons_nth_drop_Suc [symmetric])
  have "slice m p (1 + (1 + 1)) = [m ! p, m ! (p + 1), m ! (p + 1 + 1)]"
    unfolding slice_append_split using p by (simp add: one)
  then show ?thesis by (simp add: add.assoc)
qed

lemma copy_3:
  assumes "p + 3 \<le> length src" and "q + 3 \<le> length dst"
  shows "do { a \<leftarrow> get_at src (int p); dst \<leftarrow> put_at dst (int q) a;
     b \<leftarrow> get_at src (int p + 1); dst \<leftarrow> put_at dst (int q + 1) b;
     c \<leftarrow> get_at src (int p + 2); put_at dst (int q + 2) c } = Some (patch dst q (slice src p 3))"
  unfolding int_offset at_nat slice_3 [OF assms(1)]
  using assms by (simp add: rd8_def wr8_def list_update_is_patch patch_patch_adj')

lemma c_int_nat: "n < 2147483648 \<Longrightarrow> c_int (int n) = Some (int n)"
  by (simp add: c_int_def)

lemma less_times: "a \<le> b \<Longrightarrow> c \<le> d \<Longrightarrow> b * d < n \<Longrightarrow> a * c < (n :: nat)"
  by (meson le_less_trans mult_le_mono)

lemma resize_pixel_patch:
  assumes "x < dw" and "y < dh" and "r < sh" and "length src = sw * sh * 3" and "length dst = dw * dh * 3"
    and "0 < sw" and "length src < 2147483648" and "length dst < 2147483648" and "dw * sw < 2147483648"
  shows "resize_pixel src (int (r * sw * 3)) (int sw) (int (y * dw * 3)) (int dw) (int x) dst =
     Some (patch dst ((y * dw + x) * 3) (pixel src (r * sw + x * sw div dw)))"
proof -
  define c where "c = x * sw div dw"
  have c: "c < sw" unfolding c_def by (rule scaled_less [OF assms(1,6)])
  have "(r * sw + c) * 3 + 3 \<le> (sh * sw) * 3"
    by (rule block_end) (use block_end [OF assms(3), of sw] c in linarith)
  then have p: "r * sw * 3 + c * 3 + 3 \<le> length src" unfolding assms(4) by (simp add: algebra_simps)
  have "(y * dw + x) * 3 + 3 \<le> (dh * dw) * 3"
    by (rule block_end) (use block_end [OF assms(2), of dw] assms(1) in linarith)
  then have q: "y * dw * 3 + x * 3 + 3 \<le> length dst" unfolding assms(5) by (simp add: algebra_simps)
  have "x * sw < 2147483648" by (rule less_times [OF _ order_refl assms(9)]) (use assms(1) in simp)
  then have i1: "c_int (int x * int sw) = Some (int (x * sw))" using c_int_nat by (metis of_nat_mult)
  have i2: "c_int (int (x * sw) div int dw * 3) = Some (int (c * 3))"
    using c_int_nat [of "c * 3"] p assms(7) by (simp add: c_def zdiv_int)
  have i3: "c_int (int x * 3 + 2) = Some (int (x * 3 + 2))"
    using c_int_nat [of "x * 3 + 2"] q assms(8) by simp
  have o: "int (r * sw * 3) + int (c * 3) = int (r * sw * 3 + c * 3)" "int (y * dw * 3) + int x * 3 = int (y * dw * 3 + x * 3)"
    by simp_all
  have "resize_pixel src (int (r * sw * 3)) (int sw) (int (y * dw * 3)) (int dw) (int x) dst =
     Some (patch dst (y * dw * 3 + x * 3) (slice src (r * sw * 3 + c * 3) 3))"
    unfolding resize_pixel_def i1 i2 i3 o bind.bind_lunit by (rule copy_3 [OF p q])
  then show ?thesis by (simp add: pixel_def distrib_right c_def)
qed

text \<open>The sizes for which no product leaves the range of int.\<close>

definition resize_fits :: "bytes \<Rightarrow> nat \<Rightarrow> nat \<Rightarrow> nat \<Rightarrow> nat \<Rightarrow> bool" where
  "resize_fits src sw sh dw dh \<longleftrightarrow> 0 < sw \<and> 0 < sh \<and> 0 < dw \<and> 0 < dh \<and> length src = sw * sh * 3 \<and>
     length src < 2147483648 \<and> dw * dh * 3 < 2147483648 \<and> dw * sw < 2147483648 \<and> dh * sh < 2147483648"

lemma length_resized:
  assumes "resize_fits src sw sh dw dh"
  shows "y < dh \<Longrightarrow> length (resized_row src sw sh dw dh flip y) = dw * 3"
    and "length (resized src sw sh dw dh flip) = dw * dh * 3"
proof -
  have row: "length (resized_row src sw sh dw dh flip y) = dw * 3" if "y < dh" for y
    unfolding resized_row_def
    by (rule length_blocks, rule length_pixel [OF source_pixel_less]) (use assms that in \<open>simp_all add: resize_fits_def\<close>)
  then show "y < dh \<Longrightarrow> length (resized_row src sw sh dw dh flip y) = dw * 3" .
  have "length (resized src sw sh dw dh flip) = dh * (dw * 3)"
    unfolding resized_def by (rule length_blocks) (rule row)
  then show "length (resized src sw sh dw dh flip) = dw * dh * 3" by simp
qed

lemma resized_pixel:
  assumes "resize_fits src sw sh dw dh" and "x < dw" and "y < dh"
  shows "slice (resized src sw sh dw dh flip) ((y * dw + x) * 3) 3 = pixel src (source_pixel sw sh dw dh flip x y)"
proof -
  have row: "slice (resized src sw sh dw dh flip) (y * (dw * 3)) (dw * 3) = resized_row src sw sh dw dh flip y"
    unfolding resized_def by (rule slice_blocks) (use assms length_resized in auto)
  have "slice (resized_row src sw sh dw dh flip y) (x * 3) 3 = pixel src (source_pixel sw sh dw dh flip x y)"
    unfolding resized_row_def
    by (rule slice_blocks, rule length_pixel [OF source_pixel_less]) (use assms in \<open>simp_all add: resize_fits_def\<close>)
  moreover have "slice (slice (resized src sw sh dw dh flip) (y * (dw * 3)) (dw * 3)) (x * 3) 3 =
      slice (resized src sw sh dw dh flip) (y * (dw * 3) + x * 3) 3"
    by (rule slice_slice) (use block_end [OF assms(2), of 3] in simp)
  ultimately show ?thesis unfolding row by (simp add: distrib_right mult.assoc)
qed

lemma resize_row_fills:
  fixes flip :: bool
  assumes "resize_fits src sw sh dw dh" and "y < dh" and "length dst = dw * dh * 3"
  defines "e \<equiv> resized src sw sh dw dh flip"
  shows "resize_row src (int sw) (int sh) (int dw) (int dh) flip (int y) (filled e dst (y * dw * 3)) =
     Some (filled e dst ((y + 1) * dw * 3))"
proof -
  define t where "t = y * sh div dh"
  define r where "r = (if flip then sh - 1 - t else t)"
  note fits = assms(1) [unfolded resize_fits_def]
  have le: "length e = length dst" unfolding e_def assms(3) by (rule length_resized [OF assms(1)])
  have t: "t < sh" unfolding t_def by (rule scaled_less) (use assms(2) fits in simp_all)
  then have r: "r < sh" unfolding r_def by (split if_split) linarith
  have "y * sh < 2147483648" by (rule less_times [of _ dh _ sh]) (use assms(2) fits in simp_all)
  then have i1: "c_int (int y * int sh) = Some (int (y * sh))" using c_int_nat by (metis of_nat_mult)
  have sy: "(if flip then int sh - 1 - int (y * sh) div int dh else int (y * sh) div int dh) = int r"
    using t by (auto simp: r_def t_def zdiv_int)
  have "r * sw * 3 \<le> length src" using r fits by (simp add: less_imp_le)
  then have "r * sw * 3 < 2147483648" "r * sw < 2147483648" using fits by linarith+
  then have i2: "c_int (int r * int sw) = Some (int (r * sw))" "c_int (int (r * sw) * 3) = Some (int (r * sw * 3))"
    using c_int_nat [of "r * sw"] c_int_nat [of "r * sw * 3"] by simp_all
  have "y * dw * 3 \<le> dw * dh * 3" using assms(2) by simp
  then have "y * dw * 3 < 2147483648" "y * dw < 2147483648" using fits by linarith+
  then have i3: "c_int (int y * int dw) = Some (int (y * dw))" "c_int (int (y * dw) * 3) = Some (int (y * dw * 3))"
    using c_int_nat [of "y * dw"] c_int_nat [of "y * dw * 3"] by simp_all
  have "\<exists>s'. for_each (resize_pixel src (int (r * sw * 3)) (int sw) (int (y * dw * 3)) (int dw)) [0 .. int dw - 1]
      (filled e dst (y * dw * 3)) = Some s' \<and> s' = filled e dst ((y * dw + dw) * 3)"
  proof (rule for_each_upto [where P = "\<lambda>x s. s = filled e dst ((y * dw + x) * 3)"])
    show "filled e dst (y * dw * 3) = filled e dst ((y * dw + 0) * 3)" by simp
  next
    fix x s assume x: "x < dw" and s: "s = filled e dst ((y * dw + x) * 3)"
    have px: "pixel src (r * sw + x * sw div dw) = slice e ((y * dw + x) * 3) 3"
      unfolding e_def resized_pixel [OF assms(1) x assms(2)] by (simp add: source_pixel_def Let_def r_def t_def)
    have en: "(y * dw + x) * 3 + 3 \<le> (dh * dw) * 3"
      by (rule block_end) (use block_end [OF assms(2), of dw] x in linarith)
    have l3: "length (slice e ((y * dw + x) * 3) 3) = 3"
      by (rule length_slice) (use en le assms(3) in \<open>simp add: mult.commute\<close>)
    have "resize_pixel src (int (r * sw * 3)) (int sw) (int (y * dw * 3)) (int dw) (int x) s =
        Some (patch s ((y * dw + x) * 3) (slice e ((y * dw + x) * 3) 3))"
      unfolding px [symmetric]
      by (rule resize_pixel_patch [OF x assms(2) r]) (use fits le assms(3) s in simp_all)
    also have "patch s ((y * dw + x) * 3) (slice e ((y * dw + x) * 3) 3) = filled e dst ((y * dw + x) * 3 + 3)"
      unfolding s
      using filled_patch [OF le, of "(y * dw + x) * 3" "slice e ((y * dw + x) * 3) 3"] l3 en assms(3)
      by (simp add: mult.commute)
    finally show "\<exists>s'. resize_pixel src (int (r * sw * 3)) (int sw) (int (y * dw * 3)) (int dw) (int x) s = Some s' \<and>
        s' = filled e dst ((y * dw + (x + 1)) * 3)"
      by (simp add: ac_simps)
  qed
  then show ?thesis
    unfolding resize_row_def i1 bind.bind_lunit Let_def sy i2 i3 by (simp add: distrib_right add.commute)
qed

lemma resize_rgb_resized:
  assumes "resize_fits src sw sh dw dh" and "length dst = dw * dh * 3"
  shows "resize_rgb src (int sw) (int sh) dst (int dw) (int dh) flip = Some (resized src sw sh dw dh flip)"
proof -
  define e where "e = resized src sw sh dw dh flip"
  have le: "length e = length dst" unfolding e_def assms(2) by (rule length_resized [OF assms(1)])
  have "\<exists>s'. for_each (resize_row src (int sw) (int sh) (int dw) (int dh) flip) [0 .. int dh - 1] dst = Some s' \<and>
      s' = filled e dst (dh * dw * 3)"
  proof (rule for_each_upto [where P = "\<lambda>y s. s = filled e dst (y * dw * 3)"])
    show "dst = filled e dst (0 * dw * 3)" by simp
  next
    fix y s assume "y < dh" and "s = filled e dst (y * dw * 3)"
    then show "\<exists>s'. resize_row src (int sw) (int sh) (int dw) (int dh) flip (int y) s = Some s' \<and>
        s' = filled e dst ((y + 1) * dw * 3)"
      using resize_row_fills [OF assms(1) _ assms(2)] unfolding e_def by blast
  qed
  moreover have "filled e dst (dh * dw * 3) = e" using filled_all [OF le] assms(2) by (simp add: mult.commute)
  ultimately show ?thesis unfolding resize_rgb_def e_def by simp
qed

section \<open>The size inside the canvas\<close>

text \<open>Sizes are below 2^16: a JPEG header has 16 bits for each, the canvas is 256.\<close>

lemma abs_bounds: "\<bar>a - b\<bar> \<le> (c :: rat) \<longleftrightarrow> a \<le> b + c \<and> b - c \<le> a"
  by (auto simp: abs_le_iff)

lemma abs_ub: "\<bar>a - b\<bar> \<le> (c :: rat) \<Longrightarrow> a \<le> b + c"
  and abs_lb: "\<bar>a - b\<bar> \<le> c \<Longrightarrow> b - c \<le> a"
  by (simp_all only: abs_bounds)

lemma rounded_half:
  fixes v :: rat
  assumes "0 \<le> v" and "v \<le> 2 ^ 17"
  shows "\<bar>rnd64 (rnd64 v + 1 / 2) - (v + 1 / 2)\<bar> \<le> 1 / 2 ^ 30"
proof -
  have w: "\<bar>rnd64 v - v\<bar> \<le> v / 2 ^ 53" using rnd64_err [of v] assms(1) by simp
  then have w': "0 \<le> rnd64 v + 1 / 2" "rnd64 v + 1 / 2 \<le> 2 ^ 19" using assms w [unfolded abs_bounds] by simp_all
  have z: "\<bar>rnd64 (rnd64 v + 1 / 2) - (rnd64 v + 1 / 2)\<bar> \<le> (rnd64 v + 1 / 2) / 2 ^ 53"
    using rnd64_err [of "rnd64 v + 1 / 2"] w'(1) by simp
  have "v / 2 ^ 53 \<le> 1 / 2 ^ 36" "(rnd64 v + 1 / 2) / 2 ^ 53 \<le> 1 / 2 ^ 34" using assms(2) w'(2) by simp_all
  then have "\<bar>rnd64 v - v\<bar> \<le> 1 / 2 ^ 36" "\<bar>rnd64 (rnd64 v + 1 / 2) - (rnd64 v + 1 / 2)\<bar> \<le> 1 / 2 ^ 34"
    using w z by linarith+
  then have "\<bar>rnd64 (rnd64 v + 1 / 2) - (v + 1 / 2)\<bar> \<le> 1 / 2 ^ 36 + 1 / 2 ^ 34" by linarith
  then show ?thesis by simp
qed

lemma extent_near:
  fixes scale :: rat
  assumes "0 \<le> of_int s * scale" and "of_int s * scale \<le> 2 ^ 17"
  shows "\<exists>n. float_to_int (rnd64 (rnd64 (of_int s * scale) + 1 / 2)) = Some n \<and> 0 \<le> n \<and>
    \<bar>of_int n - of_int s * scale\<bar> \<le> 1 / 2 + 1 / 2 ^ 30"
proof -
  define z where "z = rnd64 (rnd64 (of_int s * scale) + 1 / 2)"
  define n where "n = \<lfloor>z\<rfloor>"
  have z: "\<bar>z - (of_int s * scale + 1 / 2)\<bar> \<le> 1 / 2 ^ 30" unfolding z_def by (rule rounded_half [OF assms])
  have fl: "of_int n \<le> z" "z < of_int n + 1" unfolding n_def by linarith+
  have z0: "0 \<le> z" using z [unfolded abs_bounds] assms(1) by simp
  then have n0: "0 \<le> n" by (simp add: n_def)
  have "of_int n \<le> (2 :: rat) ^ 18" using fl(1) z [unfolded abs_bounds] assms(2) by simp
  then have "n \<le> 2 ^ 18" by (metis of_int_le_iff of_int_numeral of_int_power)
  then have "c_int n = Some n" using n0 by (intro c_int_Some) simp_all
  then have "float_to_int z = Some n" using z0 by (simp add: float_to_int_def trunc_def n_def)
  moreover have "\<bar>of_int n - of_int s * scale\<bar> \<le> 1 / 2 + 1 / 2 ^ 30"
    unfolding abs_bounds using fl z [unfolded abs_bounds] by simp
  ultimately show ?thesis using n0 unfolding z_def by blast
qed

text \<open>The factor of one side: scaled by it, that side has the extent of the canvas,
  up to the rounding.\<close>

lemma side_scale:
  assumes "1 \<le> s" and "1 \<le> d" and "d < 2 ^ 16"
  defines "f \<equiv> rnd64 (of_int d / of_int s)"
  shows "0 \<le> f" "\<bar>of_int s * f - of_int d\<bar> \<le> 1 / 2 ^ 37"
proof -
  have s: "0 < (of_int s :: rat)" and d: "0 < (of_int d :: rat)" using assms(1,2) by simp_all
  have "d \<le> 2 ^ 16" using assms(3) by simp
  then have d': "of_int d \<le> (2 ^ 16 :: rat)" by (metis of_int_le_iff of_int_numeral of_int_power)
  have err: "\<bar>f - of_int d / of_int s\<bar> \<le> (of_int d / of_int s) / 2 ^ 53"
    unfolding f_def using rnd64_err [of "of_int d / of_int s"] s d by simp
  have q: "0 < of_int d / (of_int s :: rat)" using s d by simp
  show "0 \<le> f" using err [unfolded abs_bounds] q by simp
  have "\<bar>of_int s * f - of_int d\<bar> = of_int s * \<bar>f - of_int d / of_int s\<bar>"
  proof -
    have "of_int s * f - of_int d = of_int s * (f - of_int d / of_int s)" using s by (simp add: right_diff_distrib)
    then show ?thesis using s by (simp add: abs_mult)
  qed
  also have "\<dots> \<le> of_int s * ((of_int d / of_int s) / 2 ^ 53)"
    using err s by (intro mult_left_mono) simp_all
  also have "\<dots> = of_int d / 2 ^ 53" using s by simp
  also have "\<dots> \<le> 1 / 2 ^ 37" using d' by simp
  finally show "\<bar>of_int s * f - of_int d\<bar> \<le> 1 / 2 ^ 37" .
qed

lemma extent_side:
  fixes s d t e :: int
  assumes "1 \<le> s" "s < 2 ^ 16" "1 \<le> d" "d < 2 ^ 16" "1 \<le> t" "t < 2 ^ 16" "1 \<le> e" "e < 2 ^ 16"
  defines "f \<equiv> rnd64 (of_int d / of_int s)" and "g \<equiv> rnd64 (of_int e / of_int t)"
  assumes "f \<le> g"
  shows "contain_extent s f d = Some d"
    and "\<exists>n. contain_extent t f e = Some n \<and> 1 \<le> n \<and> n \<le> e \<and> \<bar>n * s - t * d\<bar> \<le> s"
proof -
  note F = side_scale [OF assms(1,3,4), folded f_def] and G = side_scale [OF assms(5,7,8), folded g_def]
  have le16: "of_int k \<le> (65536 :: rat)" if "k < 2 ^ 16" for k :: int
  proof -
    have "k \<le> 65536" using that by simp
    then have "of_int k \<le> (of_int 65536 :: rat)" by (simp only: of_int_le_iff)
    then show ?thesis by simp
  qed
  have F2: "of_int s * f \<le> of_int d + 1 / 2 ^ 37" "of_int d - 1 / 2 ^ 37 \<le> of_int s * f"
    using F(2) unfolding abs_bounds by simp_all
  have s0: "0 \<le> of_int s * f" using F(1) assms(1) by simp
  have s1: "of_int s * f \<le> 2 ^ 17" using F2(1) le16 [OF assms(4)] by simp
  obtain n where n: "float_to_int (rnd64 (rnd64 (of_int s * f) + 1 / 2)) = Some n" "\<bar>of_int n - of_int s * f\<bar> \<le> 1 / 2 + 1 / 2 ^ 30"
    using extent_near [OF s0 s1] by blast
  have "of_int n < (of_int (d + 1) :: rat) \<and> of_int (d - 1) < (of_int n :: rat)" using abs_ub [OF n(2)] abs_lb [OF n(2)] F2 by simp
  then have "n < d + 1 \<and> d - 1 < n" by (simp only: of_int_less_iff)
  then have "n = d" by linarith
  then show "contain_extent s f d = Some d" using n(1) assms(3) by (simp add: contain_extent_def)
  have t0: "0 \<le> of_int t * f" using F(1) assms(5) by simp
  have "of_int t * f \<le> of_int t * g" using assms(5,11) by simp
  then have t1: "of_int t * f \<le> of_int e + 1 / 2 ^ 37" using G(2) unfolding abs_bounds by linarith
  have t2: "of_int t * f \<le> 2 ^ 17" using t1 le16 [OF assms(8)] by simp
  obtain m where m: "float_to_int (rnd64 (rnd64 (of_int t * f) + 1 / 2)) = Some m" "0 \<le> m"
      "\<bar>of_int m - of_int t * f\<bar> \<le> 1 / 2 + 1 / 2 ^ 30"
    using extent_near [OF t0 t2] by blast
  have "of_int m < (of_int (e + 1) :: rat)" using abs_ub [OF m(3)] t1 by simp
  then have "m < e + 1" by (simp only: of_int_less_iff)
  then have me: "m \<le> e" by simp
  have "\<bar>of_int s * (of_int t * f) - of_int (t * d)\<bar> = of_int t * \<bar>of_int s * f - of_int d\<bar>"
  proof -
    have "of_int s * (of_int t * f) - of_int (t * d) = of_int t * (of_int s * f - of_int d)"
      by (simp add: algebra_simps)
    then show ?thesis using assms(5) by (simp add: abs_mult)
  qed
  also have "\<dots> \<le> 65536 * (1 / 2 ^ 37)"
    by (rule mult_mono) (use le16 [OF assms(6)] F(2) in simp_all)
  finally have v: "\<bar>of_int s * (of_int t * f) - of_int (t * d)\<bar> \<le> 1 / 2 ^ 21" by simp
  have "\<bar>of_int (m * s) - of_int s * (of_int t * f)\<bar> = of_int s * \<bar>of_int m - of_int t * f\<bar>"
  proof -
    have "of_int (m * s) - of_int s * (of_int t * f) = of_int s * (of_int m - of_int t * f)"
      by (simp add: algebra_simps)
    then show ?thesis using assms(1) by (simp add: abs_mult)
  qed
  also have "\<dots> \<le> of_int s * (1 / 2 + 1 / 2 ^ 30)"
    by (rule mult_left_mono [OF m(3)]) (use assms(1) in simp)
  finally have w: "\<bar>of_int (m * s) - of_int s * (of_int t * f)\<bar> \<le> of_int s * (1 / 2 + 1 / 2 ^ 30)" .
  have sp: "1 \<le> (of_int s :: rat)" using assms(1) by simp
  have "\<bar>of_int (m * s) - (of_int (t * d) :: rat)\<bar> \<le> of_int s * (1 / 2 + 1 / 2 ^ 30) + 1 / 2 ^ 21" using v w by linarith
  also have "\<dots> < of_int (s + 1)" using sp by simp
  finally have "\<bar>m * s - t * d\<bar> < s + 1"
    by (simp only: of_int_diff [symmetric] of_int_abs [symmetric] of_int_less_iff)
  then have ms: "\<bar>m * s - t * d\<bar> \<le> s" by simp
  have "contain_extent t f e = Some (if m < 1 then 1 else m)"
    using m(1) me assms(7) by (simp add: contain_extent_def)
  moreover have "\<bar>1 * s - t * d\<bar> \<le> s" if "m < 1"
  proof -
    have "m = 0" using that m(2) by simp
    then have "t * d \<le> s" using ms by simp
    moreover have "0 < t * d" using assms(3,5) by simp
    ultimately show ?thesis by simp
  qed
  ultimately show "\<exists>n. contain_extent t f e = Some n \<and> 1 \<le> n \<and> n \<le> e \<and> \<bar>n * s - t * d\<bar> \<le> s"
    using m(2) me ms assms(7) by auto
qed

lemma contain_size:
  fixes sw sh dw dh :: int
  assumes "1 \<le> sw" "sw < 2 ^ 16" "1 \<le> sh" "sh < 2 ^ 16" "1 \<le> dw" "dw < 2 ^ 16" "1 \<le> dh" "dh < 2 ^ 16"
  shows "\<exists>nw nh. contain_extent sw (contain_scale sw sh dw dh) dw = Some nw \<and>
    contain_extent sh (contain_scale sw sh dw dh) dh = Some nh \<and> 1 \<le> nw \<and> nw \<le> dw \<and> 1 \<le> nh \<and> nh \<le> dh \<and>
    (nw = dw \<and> \<bar>nh * sw - sh * dw\<bar> \<le> sw \<or> nh = dh \<and> \<bar>nw * sh - sw * dh\<bar> \<le> sh)"
proof (cases "rnd64 (of_int dw / of_int sw) < rnd64 (of_int dh / of_int sh)")
  case True
  then have "contain_scale sw sh dw dh = rnd64 (of_int dw / of_int sw)" by (simp add: contain_scale_def)
  then show ?thesis
    using extent_side [OF assms(1,2,5,6,3,4,7,8) less_imp_le [OF True]] assms(5) by auto
next
  case False
  then have "contain_scale sw sh dw dh = rnd64 (of_int dh / of_int sh)" by (simp add: contain_scale_def)
  then show ?thesis
    using extent_side [OF assms(3,4,7,8,1,2,5,6)] False assms(7) by auto
qed

section \<open>The picture on the canvas\<close>

abbreviation zeros :: "nat \<Rightarrow> bytes" where "zeros n \<equiv> replicate n 0"

text \<open>Reference: a picture of nw * nh pixels in the middle of a black canvas.\<close>

definition canvas_row :: "bytes \<Rightarrow> nat \<Rightarrow> nat \<Rightarrow> nat \<Rightarrow> nat \<Rightarrow> nat \<Rightarrow> nat \<Rightarrow> bytes" where
  "canvas_row img nw nh dw x0 y0 y =
     (if y0 \<le> y \<and> y < y0 + nh
      then zeros (x0 * 3) @ slice img ((y - y0) * (nw * 3)) (nw * 3) @ zeros ((dw - x0 - nw) * 3)
      else zeros (dw * 3))"

definition canvas :: "bytes \<Rightarrow> nat \<Rightarrow> nat \<Rightarrow> nat \<Rightarrow> nat \<Rightarrow> bytes" where
  "canvas img nw nh dw dh =
     concat (map (canvas_row img nw nh dw ((dw - nw) div 2) ((dh - nh) div 2)) [0 ..< dh])"

lemma filled_zeros_patch:
  assumes "length e = n" and "k + b \<le> n" and "slice e k b = zeros a @ v @ zeros c" and "a + length v + c = b"
  shows "patch (filled e (zeros n) k) (k + a) v = filled e (zeros n) (k + b)"
proof -
  have "take (k + b) e = take k e @ zeros a @ v @ zeros c" using assms(3) by (simp add: take_add slice_def)
  moreover have "patch (filled e (zeros n) k) (k + a) v = take k e @ zeros a @ v @ zeros (n - k - a - length v)"
    using assms(1,2,4) by (simp add: filled_def patch_def)
  moreover have "zeros (n - k - a - length v) = zeros c @ zeros (n - (k + b))"
    using assms(2,4) by (simp flip: replicate_add)
  ultimately show ?thesis by (simp add: filled_def)
qed

lemma concat_zeros: "(\<And>y. y \<in> set ys \<Longrightarrow> g y = zeros b) \<Longrightarrow> concat (map g ys) = zeros (length ys * b)"
  by (induction ys) (simp_all add: distrib_right add.commute flip: replicate_add)

lemma length_canvas:
  assumes "length img = nw * nh * 3" and "nw \<le> dw" and "nh \<le> dh"
  shows "length (canvas_row img nw nh dw ((dw - nw) div 2) ((dh - nh) div 2) y) = dw * 3"
    and "length (canvas img nw nh dw dh) = dw * dh * 3"
proof -
  define x0 where "x0 = (dw - nw) div 2"
  have x0: "x0 + nw \<le> dw" unfolding x0_def using assms(2) by linarith
  have row: "length (canvas_row img nw nh dw x0 ((dh - nh) div 2) y) = dw * 3" for y
  proof (cases "(dh - nh) div 2 \<le> y \<and> y < (dh - nh) div 2 + nh")
    case True
    then have "(y - (dh - nh) div 2) * (nw * 3) + nw * 3 \<le> nh * (nw * 3)" by (intro block_end) linarith
    then have "length (slice img ((y - (dh - nh) div 2) * (nw * 3)) (nw * 3)) = nw * 3"
      by (intro length_slice) (simp add: assms(1) ac_simps)
    then show ?thesis using True x0 by (simp add: canvas_row_def)
  next
    case False
    then have "canvas_row img nw nh dw x0 ((dh - nh) div 2) y = zeros (dw * 3)"
      unfolding canvas_row_def by (rule if_not_P)
    then show ?thesis by simp
  qed
  then show "length (canvas_row img nw nh dw ((dw - nw) div 2) ((dh - nh) div 2) y) = dw * 3" unfolding x0_def .
  have "length (canvas img nw nh dw dh) = dh * (dw * 3)"
    unfolding canvas_def by (rule length_blocks) (rule row [unfolded x0_def])
  then show "length (canvas img nw nh dw dh) = dw * dh * 3" by simp
qed

lemma copy_row_fills:
  fixes nw nh dw dh :: nat
  assumes "length img = nw * nh * 3" and "nw \<le> dw" and "nh \<le> dh" and "y < nh" and "dw * dh * 3 < 2147483648"
  defines "x0 \<equiv> (dw - nw) div 2" and "y0 \<equiv> (dh - nh) div 2"
  shows "copy_row img (int nw) (int dw) (int x0) (int y0) (int y)
      (filled (canvas img nw nh dw dh) (zeros (dw * dh * 3)) ((y0 + y) * (dw * 3))) =
    Some (filled (canvas img nw nh dw dh) (zeros (dw * dh * 3)) ((y0 + (y + 1)) * (dw * 3)))"
proof -
  let ?e = "canvas img nw nh dw dh"
  define k where "k = (y0 + y) * (dw * 3)"
  define piece where "piece = slice img (y * nw * 3) (nw * 3)"
  have x0: "x0 + nw \<le> dw" unfolding x0_def using assms(2) by linarith
  have y0: "y0 + y < dh" unfolding y0_def using assms(3,4) by linarith
  note lc = length_canvas [OF assms(1-3), folded x0_def y0_def]
  have src: "y * nw * 3 + nw * 3 \<le> nw * nh * 3"
    using block_end [OF assms(4), of "nw * 3"] by (simp add: ac_simps)
  have lp: "length piece = nw * 3" unfolding piece_def by (rule length_slice) (simp add: src assms(1))
  have "slice ?e k (dw * 3) = canvas_row img nw nh dw x0 y0 (y0 + y)"
    unfolding canvas_def k_def x0_def y0_def
    by (rule slice_blocks) (use length_canvas [OF assms(1-3)] y0 in \<open>auto simp: y0_def\<close>)
  also have "\<dots> = zeros (x0 * 3) @ piece @ zeros ((dw - x0 - nw) * 3)"
    using assms(4) by (simp add: canvas_row_def piece_def mult.assoc)
  finally have e: "slice ?e k (dw * 3) = zeros (x0 * 3) @ piece @ zeros ((dw - x0 - nw) * 3)" .
  have kd: "k + dw * 3 \<le> dw * dh * 3" unfolding k_def using block_end [OF y0, of "dw * 3"] by (simp add: ac_simps)
  have "nw * nh \<le> dw * dh" using assms(2,3) by (rule mult_le_mono)
  then have small: "y * nw * 3 < 2147483648" "y * nw < 2147483648"
    using src assms(5) by linarith+
  have small': "(y0 + y) * dw < 2147483648" "((y0 + y) * dw + x0) * 3 < 2147483648"
    using kd x0 assms(5) unfolding k_def by (simp_all add: algebra_simps)
  have i1: "c_int ((int y0 + int y) * int dw) = Some (int ((y0 + y) * dw))"
    using c_int_nat [OF small'(1)] by (simp add: distrib_right)
  have i2: "c_int ((int ((y0 + y) * dw) + int x0) * 3) = Some (int (((y0 + y) * dw + x0) * 3))"
    using c_int_nat [OF small'(2)] by (simp add: distrib_right)
  have i3: "c_int (int y * int nw) = Some (int (y * nw))" "c_int (int (y * nw) * 3) = Some (int (y * nw * 3))"
    using c_int_nat [OF small(2)] c_int_nat [OF small(1)] by simp_all
  have pos: "((y0 + y) * dw + x0) * 3 = k + x0 * 3" by (simp add: k_def algebra_simps)
  have rd: "get_row img (int (y * nw * 3)) (nat (int nw) * 3) = Some piece"
    unfolding at_nat using src assms(1) by (simp add: rd_mem_def piece_def)
  have "k + x0 * 3 + nw * 3 \<le> dw * dh * 3" using kd x0 by linarith
  then have wr: "put_row (filled ?e (zeros (dw * dh * 3)) k) (int (k + x0 * 3)) piece =
      Some (patch (filled ?e (zeros (dw * dh * 3)) k) (k + x0 * 3) piece)"
    unfolding at_nat by (simp add: wr_mem_def lp lc(2))
  have "patch (filled ?e (zeros (dw * dh * 3)) k) (k + x0 * 3) piece = filled ?e (zeros (dw * dh * 3)) (k + dw * 3)"
    by (rule filled_zeros_patch [OF lc(2) kd e]) (use x0 lp in linarith)
  moreover have "k + dw * 3 = (y0 + (y + 1)) * (dw * 3)" by (simp add: k_def algebra_simps)
  ultimately show ?thesis
    unfolding copy_row_def i1 i2 i3 bind.bind_lunit rd pos wr k_def [symmetric] by simp
qed

lemma canvas_margins:
  assumes "length img = nw * nh * 3" and "nw \<le> dw" and "nh \<le> dh"
  defines "y0 \<equiv> (dh - nh) div 2"
  shows "filled (canvas img nw nh dw dh) (zeros (dw * dh * 3)) (y0 * (dw * 3)) = zeros (dw * dh * 3)"
    and "filled (canvas img nw nh dw dh) (zeros (dw * dh * 3)) ((y0 + nh) * (dw * 3)) = canvas img nw nh dw dh"
proof -
  let ?row = "canvas_row img nw nh dw ((dw - nw) div 2) y0"
  let ?z = "zeros (dw * dh * 3)"
  have h: "y0 + nh \<le> dh" unfolding y0_def using assms(3) by linarith
  have "[0 ..< dh] = [0 ..< y0 + nh] @ [y0 + nh ..< dh]" using h upt_add_eq_append [of 0 "y0 + nh" "dh - (y0 + nh)"] by simp
  moreover have "[0 ..< y0 + nh] = [0 ..< y0] @ [y0 ..< y0 + nh]" by (rule upt_add_eq_append) simp
  ultimately have split: "canvas img nw nh dw dh =
      concat (map ?row [0 ..< y0]) @ concat (map ?row [y0 ..< y0 + nh]) @ concat (map ?row [y0 + nh ..< dh])"
    by (simp add: canvas_def y0_def [symmetric])
  have top: "concat (map ?row [0 ..< y0]) = zeros (y0 * (dw * 3))"
    by (subst concat_zeros [where b = "dw * 3"]) (auto simp: canvas_row_def)
  have bot: "concat (map ?row [y0 + nh ..< dh]) = zeros ((dh - (y0 + nh)) * (dw * 3))"
    by (subst concat_zeros [where b = "dw * 3"]) (auto simp: canvas_row_def)
  have n: "dw * dh * 3 = dh * (dw * 3)" by simp
  have le: "y0 * (dw * 3) \<le> dh * (dw * 3)" "(y0 + nh) * (dw * 3) \<le> dh * (dw * 3)" using h by simp_all
  have "take (y0 * (dw * 3)) (canvas img nw nh dw dh) = zeros (y0 * (dw * 3))" unfolding split top by simp
  then show "filled (canvas img nw nh dw dh) ?z (y0 * (dw * 3)) = ?z"
    unfolding filled_def n using le(1) by (simp flip: replicate_add)
  have lc: "length (canvas img nw nh dw dh) = dh * (dw * 3)"
    using length_canvas(2) [OF assms(1-3)] by simp
  have "drop ((y0 + nh) * (dw * 3)) (canvas img nw nh dw dh) = zeros (dh * (dw * 3) - (y0 + nh) * (dw * 3))"
  proof -
    have "canvas img nw nh dw dh = (concat (map ?row [0 ..< y0]) @ concat (map ?row [y0 ..< y0 + nh])) @
        zeros ((dh - (y0 + nh)) * (dw * 3))" (is "_ = ?a @ _")
      unfolding split bot by simp
    moreover from this lc have "length ?a + (dh - (y0 + nh)) * (dw * 3) = dh * (dw * 3)" by simp
    then have "length ?a = (y0 + nh) * (dw * 3)" using le(2) unfolding diff_mult_distrib by linarith
    ultimately show ?thesis by (simp add: diff_mult_distrib)
  qed
  then have "drop ((y0 + nh) * (dw * 3)) (canvas img nw nh dw dh) = drop ((y0 + nh) * (dw * 3)) ?z"
    unfolding n by simp
  then show "filled (canvas img nw nh dw dh) ?z ((y0 + nh) * (dw * 3)) = canvas img nw nh dw dh"
    unfolding filled_def by (metis append_take_drop_id)
qed

text \<open>The size (nw, nh) of a picture of sw * sh pixels fitted into dw * dh: one side
  fills the canvas, the other keeps the proportions to the pixel.\<close>

definition fitted :: "nat \<Rightarrow> nat \<Rightarrow> nat \<Rightarrow> nat \<Rightarrow> nat \<Rightarrow> nat \<Rightarrow> bool" where
  "fitted sw sh dw dh nw nh \<longleftrightarrow> 1 \<le> nw \<and> nw \<le> dw \<and> 1 \<le> nh \<and> nh \<le> dh \<and>
     (nw = dw \<and> \<bar>int nh * int sw - int sh * int dw\<bar> \<le> int sw \<or>
      nh = dh \<and> \<bar>int nw * int sh - int sw * int dh\<bar> \<le> int sh)"

definition contain_nat :: "nat \<Rightarrow> nat \<Rightarrow> nat \<Rightarrow> nat \<Rightarrow> nat \<times> nat" where
  "contain_nat sw sh dw dh =
     (let scale = contain_scale (int sw) (int sh) (int dw) (int dh)
      in (nat (the (contain_extent (int sw) scale (int dw))), nat (the (contain_extent (int sh) scale (int dh)))))"

lemma contain_nat:
  assumes "0 < sw" "sw < 2 ^ 16" "0 < sh" "sh < 2 ^ 16" "0 < dw" "dw < 2 ^ 16" "0 < dh" "dh < 2 ^ 16"
    and "contain_nat sw sh dw dh = (nw, nh)"
  shows "contain_extent (int sw) (contain_scale (int sw) (int sh) (int dw) (int dh)) (int dw) = Some (int nw)"
    and "contain_extent (int sh) (contain_scale (int sw) (int sh) (int dw) (int dh)) (int dh) = Some (int nh)"
    and "fitted sw sh dw dh nw nh"
proof -
  have b: "1 \<le> int k" "int k < 2 ^ 16" if "0 < k" "k < 2 ^ 16" for k using that by simp_all
  obtain n m where nm: "contain_extent (int sw) (contain_scale (int sw) (int sh) (int dw) (int dh)) (int dw) = Some n"
      "contain_extent (int sh) (contain_scale (int sw) (int sh) (int dw) (int dh)) (int dh) = Some m"
      "1 \<le> n" "n \<le> int dw" "1 \<le> m" "m \<le> int dh"
      "n = int dw \<and> \<bar>m * int sw - int sh * int dw\<bar> \<le> int sw \<or> m = int dh \<and> \<bar>n * int sh - int sw * int dh\<bar> \<le> int sh"
    using contain_size [OF b [OF assms(1,2)] b [OF assms(3,4)] b [OF assms(5,6)] b [OF assms(7,8)]] by blast
  have e: "nw = nat n" "nh = nat m" using assms(9) nm(1,2) by (simp_all add: contain_nat_def)
  then have i: "int nw = n" "int nh = m" using nm(3,5) by simp_all
  show "contain_extent (int sw) (contain_scale (int sw) (int sh) (int dw) (int dh)) (int dw) = Some (int nw)"
    "contain_extent (int sh) (contain_scale (int sw) (int sh) (int dw) (int dh)) (int dh) = Some (int nh)"
    unfolding i by (rule nm(1), rule nm(2))
  show "fitted sw sh dw dh nw nh" using nm(3-7) unfolding fitted_def i [symmetric] by auto
qed

definition contained :: "bytes \<Rightarrow> nat \<Rightarrow> nat \<Rightarrow> nat \<Rightarrow> nat \<Rightarrow> bool \<Rightarrow> bytes" where
  "contained src sw sh dw dh flip =
     (case contain_nat sw sh dw dh of (nw, nh) \<Rightarrow> canvas (resized src sw sh nw nh flip) nw nh dw dh)"

lemma contain_allocated:
  assumes "alloc_ok al" and "al (nw * nh * 3) = Some tmp" and "length tmp = nw * nh * 3"
    and "resize_fits src sw sh nw nh" and "nw \<le> dw" and "nh \<le> dh" and "dw * dh * 3 < 2147483648"
  shows "do { tmp \<leftarrow> resize_rgb src (int sw) (int sh) tmp (int nw) (int nh) flip;
      for_each (copy_row tmp (int nw) (int dw) ((int dw - int nw) div 2) ((int dh - int nh) div 2)) [0 .. int nh - 1]
        (zeros (dw * dh * 3)) } = Some (canvas (resized src sw sh nw nh flip) nw nh dw dh)"
proof -
  let ?img = "resized src sw sh nw nh flip"
  let ?e = "canvas ?img nw nh dw dh"
  let ?z = "zeros (dw * dh * 3)"
  define x0 y0 where d: "x0 = (dw - nw) div 2" "y0 = (dh - nh) div 2"
  have i: "(int dw - int nw) div 2 = int x0" "(int dh - int nh) div 2 = int y0"
    using assms(5,6) by (simp_all add: d zdiv_int of_nat_diff)
  have li: "length ?img = nw * nh * 3" by (rule length_resized(2) [OF assms(4)])
  note m = canvas_margins [OF li assms(5,6), folded d]
  have "\<exists>s'. for_each (copy_row ?img (int nw) (int dw) (int x0) (int y0)) [0 .. int nh - 1] ?z = Some s' \<and>
      s' = filled ?e ?z ((y0 + nh) * (dw * 3))"
  proof (rule for_each_upto [where P = "\<lambda>y s. s = filled ?e ?z ((y0 + y) * (dw * 3))"])
    show "?z = filled ?e ?z ((y0 + 0) * (dw * 3))" using m(1) by simp
  next
    fix y s assume "y < nh" and "s = filled ?e ?z ((y0 + y) * (dw * 3))"
    then show "\<exists>s'. copy_row ?img (int nw) (int dw) (int x0) (int y0) (int y) s = Some s' \<and>
        s' = filled ?e ?z ((y0 + (y + 1)) * (dw * 3))"
      using copy_row_fills [OF li assms(5,6) _ assms(7), folded d] by blast
  qed
  then show ?thesis
    unfolding resize_rgb_resized [OF assms(4,3)] i m(2) by simp
qed

lemma resize_rgb_contain_result:
  assumes "0 < sw" "sw < 2 ^ 16" "0 < sh" "sh < 2 ^ 16" "0 < dw" "dw < 2 ^ 14" "0 < dh" "dh < 2 ^ 14"
    and "length src = sw * sh * 3" and "length src < 2147483648" and "length dst = dw * dh * 3"
    and "alloc_ok al" and "contain_nat sw sh dw dh = (nw, nh)"
  shows "resize_rgb_contain al src (int sw) (int sh) dst (int dw) (int dh) flip =
    Some (if al (nw * nh * 3) = None then zeros (dw * dh * 3) else contained src sw sh dw dh flip)"
proof -
  have dl: "dw < 2 ^ 16" "dh < 2 ^ 16" using assms(6,8) by simp_all
  note c = contain_nat [OF assms(1-5) dl(1) assms(7) dl(2) assms(13)]
  have f: "1 \<le> nw" "nw \<le> dw" "1 \<le> nh" "nh \<le> dh" using c(3) by (simp_all add: fitted_def)
  have "dw * dh \<le> 2 ^ 14 * 2 ^ 14" by (rule mult_le_mono) (use assms(6,8) in simp_all)
  then have d3: "dw * dh * 3 < 2147483648" by simp
  have "nw * sw \<le> 2 ^ 14 * 2 ^ 16" by (rule mult_le_mono) (use f assms(2,6) in simp_all)
  moreover have "nh * sh \<le> 2 ^ 14 * 2 ^ 16" by (rule mult_le_mono) (use f assms(4,8) in simp_all)
  moreover have "nw * nh \<le> dw * dh" using f(2,4) by (rule mult_le_mono)
  ultimately have fits: "resize_fits src sw sh nw nh"
    using assms(1,3,9,10) f d3 unfolding resize_fits_def by simp
  have pos: "\<not> (int sw \<le> 0 \<or> int sh \<le> 0 \<or> int dw \<le> 0 \<or> int dh \<le> 0)" using assms(1,3,5,7) by simp
  have z: "wr_mem dst 0 (replicate (nat (int dw) * nat (int dh) * 3) 0) = Some (zeros (dw * dh * 3))"
    using assms(11) by (simp add: wr_mem_def patch_all)
  have n: "nat (int nw) * nat (int nh) * 3 = nw * nh * 3" by simp
  show ?thesis
  proof (cases "al (nw * nh * 3)")
    case None
    then show ?thesis
      unfolding resize_rgb_contain_def if_not_P [OF pos] z bind.bind_lunit Let_def c(1,2) n by simp
  next
    case (Some tmp)
    then have "length tmp = nw * nh * 3" using assms(12) by (simp add: alloc_ok_def)
    from contain_allocated [OF assms(12) Some this fits f(2,4) d3] Some show ?thesis
      unfolding resize_rgb_contain_def if_not_P [OF pos] z bind.bind_lunit Let_def c(1,2) n
      by (simp add: contained_def assms(13))
  qed
qed

end
