(* ===== verification/Cover_Png.thy ===== *)
theory Cover_Png
  imports Cover_Image
begin

text \<open>
  The PNG encoder of c_hook/coverart/coverart_hook.c against a reader of the
  format: the file is the signature and the three chunks, each with its length
  and checksum, and the reader, given an inflate that undoes compress2, gets the
  size and the pixels back.
\<close>

section \<open>The file format\<close>

text \<open>A chunk: length, type, data and the checksum of type and data.\<close>

definition chunk_crc :: "zlib \<Rightarrow> bytes \<times> bytes \<Rightarrow> u32" where
  "chunk_crc z c = (if snd c = [] then z_crc32 z 0 (fst c) else z_crc32 z (z_crc32 z 0 (fst c)) (snd c))"

definition chunk_enc :: "zlib \<Rightarrow> bytes \<times> bytes \<Rightarrow> bytes" where
  "chunk_enc z c = be32_bytes (of_nat (length (snd c))) @ fst c @ snd c @ be32_bytes (chunk_crc z c)"

definition chunk_dec :: "zlib \<Rightarrow> bytes \<Rightarrow> ((bytes \<times> bytes) \<times> bytes) option" where
  "chunk_dec z bs =
     (case read_be32 bs 0 of None \<Rightarrow> None
      | Some n \<Rightarrow>
          (let n = unat n; c = (slice bs 4 4, slice bs 8 n) in
           if 12 + n \<le> length bs \<and> read_be32 bs (8 + n) = Some (chunk_crc z c) then Some (c, drop (12 + n) bs) else None))"

definition chunk_ok :: "bytes \<times> bytes \<Rightarrow> bool" where
  "chunk_ok c \<longleftrightarrow> length (fst c) = 4 \<and> length (snd c) < 2 ^ 32"

lemma read_be32_app: "length a = p \<Longrightarrow> read_be32 (a @ be32_bytes v @ b) p = Some v"
  by (simp add: read_be32_Some nth_append be32_bytes_nth)

lemma read_be32_prefix: "p + 4 \<le> length a \<Longrightarrow> read_be32 (a @ b) p = read_be32 a p"
  by (simp add: read_be32_Some nth_append)

interpretation png: stream_codec "chunk_enc z" "chunk_dec z" chunk_ok for z
proof
  fix x :: "bytes \<times> bytes" and rest assume ok: "chunk_ok x"
  obtain t d where x: "x = (t, d)" by (cases x)
  have t: "length t = 4" and n: "unat (of_nat (length d) :: u32) = length d"
    using ok by (simp_all add: chunk_ok_def x unat_of_nat)
  have e: "chunk_enc z x @ rest = be32_bytes (of_nat (length d)) @ t @ d @ be32_bytes (chunk_crc z (t, d)) @ rest"
    by (simp add: chunk_enc_def x)
  have r0: "read_be32 (chunk_enc z x @ rest) 0 = Some (of_nat (length d))"
    unfolding e using read_be32_app [of "[]" 0] by simp
  have s: "slice (chunk_enc z x @ rest) 4 4 = t" "slice (chunk_enc z x @ rest) 8 (length d) = d"
    unfolding e using t by (simp_all add: slice_append_right)
  have r1: "read_be32 (chunk_enc z x @ rest) (8 + length d) = Some (chunk_crc z (t, d))"
    unfolding e using read_be32_app [of "be32_bytes (of_nat (length d)) @ t @ d" "8 + length d"] t by simp
  have d: "drop (12 + length d) (chunk_enc z x @ rest) = rest" "12 + length d \<le> length (chunk_enc z x @ rest)"
    unfolding e using t by simp_all
  show "chunk_dec z (chunk_enc z x @ rest) = Some (x, rest)"
    unfolding chunk_dec_def r0 option.case Let_def n s r1 d(1) using d(2) by (simp add: x)
next
  fix bs x r assume "chunk_dec z bs = Some (x, r)"
  then show "length r < length bs"
    by (auto simp: chunk_dec_def Let_def split: option.splits if_splits)
next
  fix bs x r c assume a: "chunk_dec z bs = Some (x, r)"
  then obtain n where n: "read_be32 bs 0 = Some n" by (auto simp: chunk_dec_def split: option.splits)
  define k where "k = unat n"
  have k: "12 + k \<le> length bs" "read_be32 bs (8 + k) = Some (chunk_crc z (slice bs 4 4, slice bs 8 k))"
    "x = (slice bs 4 4, slice bs 8 k)" "r = drop (12 + k) bs"
    using a n by (auto simp: chunk_dec_def Let_def k_def split: if_splits)
  have "read_be32 (bs @ c) 0 = Some n" "read_be32 (bs @ c) (8 + k) = read_be32 bs (8 + k)"
    using n k(1) by (simp_all add: read_be32_prefix)
  then show "chunk_dec z (bs @ c) = Some (x, r @ c)"
    using k by (simp add: chunk_dec_def Let_def flip: k_def)
qed

text \<open>The scanlines: each a filter byte, here always 0, and the pixels.\<close>

fun unfilter :: "nat \<Rightarrow> nat \<Rightarrow> bytes \<Rightarrow> bytes option" where
  "unfilter w n raw =
     (if n = 0 then (if raw = [] then Some [] else None)
      else if length raw < w * 3 + 1 \<or> raw ! 0 \<noteq> 0 then None
      else map_option (\<lambda>r. slice raw 1 (w * 3) @ r) (unfilter w (n - 1) (drop (w * 3 + 1) raw)))"

declare unfilter.simps [simp del]

text \<open>A reader of 8 bit RGB files: width, height and pixels.\<close>

definition png_read :: "zlib \<Rightarrow> (bytes \<Rightarrow> bytes option) \<Rightarrow> bytes \<Rightarrow> (nat \<times> nat \<times> bytes) option" where
  "png_read z inflate file =
     (if take 8 file \<noteq> png_sig then None
      else (case dec_all (chunk_dec z) (drop 8 file) of
        ([(t1, hdr), (t2, packed), (t3, e)], []) \<Rightarrow>
          if t1 = str_bytes ''IHDR'' \<and> t2 = str_bytes ''IDAT'' \<and> t3 = str_bytes ''IEND'' \<and>
             length hdr = 13 \<and> drop 8 hdr = [8, 2, 0, 0, 0]
          then do {
            w \<leftarrow> read_be32 hdr 0; h \<leftarrow> read_be32 hdr 4;
            raw \<leftarrow> inflate packed;
            rgb \<leftarrow> unfilter (unat w) (unat h) raw;
            Some (unat w, unat h, rgb) }
          else None
      | _ \<Rightarrow> None))"

section \<open>What the encoder writes\<close>

text \<open>The buffer with out written to it and pos behind it.\<close>

definition cursor :: "bytes \<Rightarrow> bytes \<Rightarrow> bytes \<times> nat" where
  "cursor out room = (out @ room, length out)"

lemma push_mem_cursor:
  "length vs \<le> length room \<Longrightarrow> push_mem vs (cursor out room) = Some (cursor (out @ vs) (drop (length vs) room))"
  by (simp add: push_mem_def cursor_def wr_mem_def patch_def)

lemma push_cursor: "push v (cursor out (x # room)) = Some (cursor (out @ [v]) room)"
  by (simp add: push_def cursor_def wr8_def list_update_append)

lemma push_be32_cursor:
  assumes "4 \<le> length room"
  shows "push_be32 v (cursor out room) = Some (cursor (out @ be32_bytes v) (drop 4 room))"
proof -
  have more: "\<exists>x m'. m = x # m' \<and> n \<le> length m'" if "n + 1 \<le> length m" for m :: bytes and n
    using that by (cases m) auto
  obtain a r1 where r1: "room = a # r1" "3 \<le> length r1" using more [of 3 room] assms by auto
  obtain b r2 where r2: "r1 = b # r2" "2 \<le> length r2" using more [of 2 r1] r1(2) by auto
  obtain c r3 where r3: "r2 = c # r3" "1 \<le> length r3" using more [of 1 r2] r2(2) by auto
  obtain d r where r4: "r3 = d # r" using more [of 0 r3] r3(2) by auto
  have r: "room = a # b # c # d # r" by (simp only: r1(1) r2(1) r3(1) r4)
  show ?thesis unfolding r by (simp add: push_be32_def push_cursor be32_bytes_def)
qed

lemma cursor_result: "(case cursor out room of (buf, pos) \<Rightarrow> Some (Some (take pos buf))) = Some (Some out)"
  by (simp add: cursor_def)

text \<open>The raw data of a picture.\<close>

definition scanline :: "bytes \<Rightarrow> nat \<Rightarrow> nat \<Rightarrow> bytes" where
  "scanline rgb w y = 0 # slice rgb (y * w * 3) (w * 3)"

definition scanlines :: "bytes \<Rightarrow> nat \<Rightarrow> nat \<Rightarrow> bytes" where
  "scanlines rgb w h = concat (map (scanline rgb w) [0 ..< h])"

lemma length_scanline: "y < h \<Longrightarrow> length rgb = w * h * 3 \<Longrightarrow> length (scanline rgb w y) = w * 3 + 1"
proof -
  assume a: "y < h" "length rgb = w * h * 3"
  have "y * w * 3 + w * 3 \<le> length rgb" using block_end [OF a(1), of "w * 3"] a(2) by (simp add: ac_simps)
  then show ?thesis by (simp add: scanline_def)
qed

lemma length_scanlines: "length rgb = w * h * 3 \<Longrightarrow> length (scanlines rgb w h) = h * (w * 3 + 1)"
  unfolding scanlines_def by (rule length_blocks) (rule length_scanline)

lemma raw_row_fills:
  assumes "length rgb = w * h * 3" and "length raw = h * (w * 3 + 1)" and "y < h" and "h * (w * 3 + 1) < 2147483648"
  shows "raw_row rgb (int w) (int y) (filled (scanlines rgb w h) raw (y * (w * 3 + 1))) =
    Some (filled (scanlines rgb w h) raw ((y + 1) * (w * 3 + 1)))"
proof -
  let ?e = "scanlines rgb w h"
  define k where "k = y * (w * 3 + 1)"
  define row where "row = slice rgb (y * w * 3) (w * 3)"
  have le: "length ?e = length raw" using length_scanlines [OF assms(1)] assms(2) by simp
  have kh: "k + (w * 3 + 1) \<le> h * (w * 3 + 1)" unfolding k_def by (rule block_end [OF assms(3)])
  have src: "y * w * 3 + w * 3 \<le> length rgb" using block_end [OF assms(3), of "w * 3"] assms(1) by (simp add: ac_simps)
  have lr: "length row = w * 3" unfolding row_def by (rule length_slice [OF src])
  have "slice ?e k (w * 3 + 1) = 0 # row"
    unfolding scanlines_def k_def row_def
    using slice_blocks [of h "scanline rgb w" "w * 3 + 1" y] length_scanline [OF _ assms(1)] assms(3) by (simp add: scanline_def)
  then have "slice ?e k (length (0 # row)) = 0 # row" using lr by simp
  then have p: "patch (filled ?e raw k) k (0 # row) = filled ?e raw (k + (w * 3 + 1))"
    using filled_patch [OF le, of k "0 # row"] kh lr assms(2) by simp
  have small: "k < 2147483648" "y * w < 2147483648" "y * w * 3 < 2147483648"
    using kh assms(4) unfolding k_def by (simp_all add: algebra_simps)
  have i1: "c_int (int y * (int w * 3 + 1)) = Some (int k)" using c_int_nat [OF small(1)] by (simp add: k_def)
  have i2: "c_int (int y * int w) = Some (int (y * w))" "c_int (int (y * w) * 3) = Some (int (y * w * 3))"
    using c_int_nat [OF small(2)] c_int_nat [OF small(3)] by simp_all
  have i3: "int k + 1 = int (k + 1)" "nat (int w * 3) = w * 3" by simp_all
  have lf: "length (filled ?e raw k) = h * (w * 3 + 1)" using le assms(2) by simp
  have kk: "k < h * (w * 3 + 1)" "k + 1 + w * 3 \<le> h * (w * 3 + 1)" using kh by simp_all
  have rd: "rd_mem rgb (y * w * 3) (w * 3) = Some row" using src by (simp add: rd_mem_def row_def)
  have w1: "wr8 (filled ?e raw k) k 0 = Some ((filled ?e raw k)[k := 0])" using kk(1) lf by (simp add: wr8_def)
  have w2: "wr_mem ((filled ?e raw k)[k := 0]) (k + 1) row = Some (patch ((filled ?e raw k)[k := 0]) (k + 1) row)"
    using kk(2) lf lr by (simp add: wr_mem_def)
  have "patch ((filled ?e raw k)[k := 0]) (k + 1) row = patch (filled ?e raw k) k (0 # row)"
    using kk lf lr by (simp add: list_update_is_patch patch_patch_adj')
  then show ?thesis
    unfolding raw_row_def i1 i2 i3 at_nat bind.bind_lunit rd w1 w2 k_def [symmetric] using p
    by (simp add: k_def algebra_simps)
qed

lemma raw_rows:
  assumes "length rgb = w * h * 3" and "length raw = h * (w * 3 + 1)" and "h * (w * 3 + 1) < 2147483648"
  shows "for_each (raw_row rgb (int w)) [0 .. int h - 1] raw = Some (scanlines rgb w h)"
proof -
  let ?e = "scanlines rgb w h"
  have le: "length ?e = length raw" using length_scanlines [OF assms(1)] assms(2) by simp
  have "\<exists>s'. for_each (raw_row rgb (int w)) [0 .. int h - 1] raw = Some s' \<and> s' = filled ?e raw (h * (w * 3 + 1))"
  proof (rule for_each_upto [where P = "\<lambda>y s. s = filled ?e raw (y * (w * 3 + 1))"])
    show "raw = filled ?e raw (0 * (w * 3 + 1))" by simp
  next
    fix y s assume "y < h" and "s = filled ?e raw (y * (w * 3 + 1))"
    then show "\<exists>s'. raw_row rgb (int w) (int y) s = Some s' \<and> s' = filled ?e raw ((y + 1) * (w * 3 + 1))"
      using raw_row_fills [OF assms(1,2) _ assms(3)] by blast
  qed
  moreover have "filled ?e raw (h * (w * 3 + 1)) = ?e" using filled_all [OF le] assms(2) by simp
  ultimately show ?thesis by simp
qed

text \<open>The documented behaviour of zlib the encoder relies on: compress2 needs no
  more room than compressBound announces, its result is at most 0.1 percent and
  13 bytes longer than its input (zlib.h has asked for 0.1 percent and 12 bytes of
  room, and later for compressBound, whose formula in every version is within
  this), and inflate undoes it.\<close>

definition zlib_ok :: "zlib \<Rightarrow> (bytes \<Rightarrow> bytes option) \<Rightarrow> bool" where
  "zlib_ok z inflate \<longleftrightarrow>
     (\<forall>raw packed. z_compress z raw = Some packed \<longrightarrow>
        length packed \<le> z_bound z (length raw) \<and> length packed \<le> length raw + length raw div 1000 + 13 \<and> packed \<noteq> [] \<and> inflate packed = Some raw)"

definition png_chunks :: "nat \<Rightarrow> nat \<Rightarrow> bytes \<Rightarrow> (bytes \<times> bytes) list" where
  "png_chunks w h packed = [(str_bytes ''IHDR'', ihdr (int w) (int h)), (str_bytes ''IDAT'', packed), (str_bytes ''IEND'', [])]"

definition png_file :: "zlib \<Rightarrow> nat \<Rightarrow> nat \<Rightarrow> bytes \<Rightarrow> bytes" where
  "png_file z w h packed = png_sig @ concat (map (chunk_enc z) (png_chunks w h packed))"

lemma length_ihdr [simp]: "length (ihdr w h) = 13"
  by (simp add: ihdr_def)

lemma ihdr_nonempty [simp]: "ihdr w h \<noteq> []"
  by (simp add: ihdr_def)

lemma build_png_file:
  assumes "length rgb = w * h * 3" and "0 < w" and "0 < h" and "h * (w * 3 + 1) < 2 ^ 19" and "zlib_ok z inflate"
    and "alloc_ok al" and "\<forall>n. al n \<noteq> None" and "z_compress z (scanlines rgb w h) = Some packed"
  shows "build_png z al rgb (int w) (int h) = Some (Some (png_file z w h packed))"
proof -
  define n where "n = h * (w * 3 + 1)"
  have n: "n < 2 ^ 19" using assms(4) unfolding n_def .
  have lp: "length packed \<le> n + 700" "packed \<noteq> []"
  proof -
    have "length packed \<le> n + n div 1000 + 13" "packed \<noteq> []"
      using assms(5,8) length_scanlines [OF assms(1)] unfolding zlib_ok_def n_def by metis+
    moreover have "n div 1000 \<le> 524" using n by simp
    ultimately show "length packed \<le> n + 700" "packed \<noteq> []" by linarith+
  qed
  obtain buf raw out where al: "al (8 + 25 + n + 1024) = Some buf" "al n = Some raw" "al (z_bound z n) = Some out"
    using assms(7) by blast
  have len: "length buf = 8 + 25 + n + 1024" "length raw = h * (w * 3 + 1)"
    using al(1,2) assms(6) by (simp_all add: alloc_ok_def n_def)
  have "1 * (w * 3 + 1) \<le> h * (w * 3 + 1)" using assms(3) by (intro mult_le_mono1) simp
  then have "w * 3 + 1 < 2 ^ 19" unfolding mult_1 using assms(4) by (rule le_less_trans)
  then have w: "w * 3 + 1 < 2147483648" by simp
  have i1: "c_int (int w * 3 + 1) = Some (int (w * 3 + 1))" using c_int_nat [OF w] by simp
  have rl: "nat (int h) * nat (int (w * 3 + 1)) = n" by (simp only: nat_int n_def)
  have rows: "for_each (raw_row rgb (int w)) [0 .. int h - 1] raw = Some (scanlines rgb w h)"
    by (rule raw_rows [OF assms(1) len(2)]) (use assms(4) in simp)
  have st: "(buf, 0) = cursor [] buf" by (simp add: cursor_def)
  have pos: "\<not> (int w \<le> 0 \<or> int h \<le> 0)" using assms(2,3) by simp
  note room = push_mem_cursor push_be32_cursor
  have sig: "length png_sig = 8" by (simp add: png_sig_def)
  show ?thesis
    unfolding build_png_def if_not_P [OF pos] i1 bind.bind_lunit rl Let_def al(1,2) option.case rows al(3) assms(8) st
    using len(1) lp sig
    by (simp add: room cursor_result png_file_def png_chunks_def chunk_enc_def chunk_crc_def)
qed

section \<open>Reading it back\<close>

lemma unfilter_scanlines:
  "length rgb = w * h * 3 \<Longrightarrow> k \<le> h \<Longrightarrow>
   unfilter w k (concat (map (scanline rgb w) [h - k ..< h])) = Some (drop ((h - k) * w * 3) rgb)"
proof (induction k)
  case 0
  then show ?case by (simp add: unfilter.simps)
next
  case (Suc k)
  define y where "y = h - Suc k"
  have y: "y < h" "y + 1 = h - k" unfolding y_def using Suc.prems(2) by linarith+
  have up: "[y ..< h] = y # [h - k ..< h]" using upt_conv_Cons [OF y(1)] unfolding Suc_eq_plus1 y(2) .
  have l: "length (scanline rgb w y) = w * 3 + 1" by (rule length_scanline [OF y(1) Suc.prems(1)])
  have IH: "unfilter w k (concat (map (scanline rgb w) [h - k ..< h])) = Some (drop ((h - k) * w * 3) rgb)"
    using Suc by simp
  have p: "slice (scanline rgb w y) 1 (w * 3) = slice rgb (y * w * 3) (w * 3)"
    using l by (simp add: scanline_def slice_def)
  have z: "scanline rgb w y ! 0 = 0" by (simp add: scanline_def)
  have "unfilter w (Suc k) (concat (map (scanline rgb w) [y ..< h])) =
      Some (slice rgb (y * w * 3) (w * 3) @ drop ((h - k) * w * 3) rgb)"
    unfolding up using l p z IH by (subst unfilter.simps) (simp add: nth_append)
  also have "slice rgb (y * w * 3) (w * 3) @ drop ((h - k) * w * 3) rgb = drop (y * w * 3) rgb"
  proof -
    have "(h - k) * w * 3 = w * 3 + y * w * 3" unfolding y(2) [symmetric] by (simp add: distrib_right)
    then have "drop ((h - k) * w * 3) rgb = drop (w * 3) (drop (y * w * 3) rgb)" by simp
    then show ?thesis by (simp only: slice_def append_take_drop_id)
  qed
  finally show ?case unfolding y_def .
qed

lemma png_file_reads_back:
  assumes "length rgb = w * h * 3" and "w < 2 ^ 31" and "h < 2 ^ 31" and "length packed < 2 ^ 32" and "packed \<noteq> []"
    and "inflate packed = Some (scanlines rgb w h)"
  shows "png_read z inflate (png_file z w h packed) = Some (w, h, rgb)"
proof -
  have ok: "list_all chunk_ok (png_chunks w h packed)" using assms(4) by (simp add: png_chunks_def chunk_ok_def)
  have n: "chunk_dec z [] = None" by (simp add: chunk_dec_def read_be32_def rd8_def)
  have d: "dec_all (chunk_dec z) (concat (map (chunk_enc z) (png_chunks w h packed))) = (png_chunks w h packed, [])"
    by (rule png.dec_all_enc [OF ok n])
  have s: "take 8 (png_file z w h packed) = png_sig" "drop 8 (png_file z w h packed) = concat (map (chunk_enc z) (png_chunks w h packed))"
    by (simp_all add: png_file_def png_sig_def)
  have i: "read_be32 (ihdr (int w) (int h)) 0 = Some (of_nat w)" "read_be32 (ihdr (int w) (int h)) 4 = Some (of_nat h)"
    using read_be32_app [of "[]" 0 "of_nat w"] read_be32_app [of "be32_bytes (of_nat w)" 4 "of_nat h"]
    by (simp_all add: ihdr_def)
  have t: "drop 8 (ihdr (int w) (int h)) = [8, 2, 0, 0, 0]" by (simp add: ihdr_def)
  have u: "unat (of_nat w :: u32) = w" "unat (of_nat h :: u32) = h" using assms(2,3) by (simp_all add: unat_of_nat_u32)
  have f: "unfilter w h (scanlines rgb w h) = Some rgb"
    using unfilter_scanlines [OF assms(1) order_refl] by (simp add: scanlines_def)
  show ?thesis unfolding png_read_def s d by (simp add: png_chunks_def i t u f assms(6))
qed

end
