(* ===== verification/Cover_Files.thy ===== *)
theory Cover_Files
  imports Cover_Png Bus_Text
begin

text \<open>
  c_hook/coverart/coverart_hook.c, the files: ensure_dir and write_png_file over
  a file system that maps absolute paths to nodes.  Every call the kernel may
  refuse has its answer in an environment; write_png_file gives, with its result,
  the file system after every call that changes it, a partly written file
  included, which is what a reader of the canonical path can observe.
  Directories reached through symbolic links are not modelled.
\<close>

section \<open>The file system\<close>

datatype node = Dir | File bytes | Link string

type_synonym fs = "string \<Rightarrow> node option"

definition dirname :: "string \<Rightarrow> string" where
  "dirname p = rev (drop 1 (dropWhile (\<lambda>c. c \<noteq> CHR ''/'') (rev p)))"

definition is_dir :: "fs \<Rightarrow> string \<Rightarrow> bool" where
  "is_dir fs p \<longleftrightarrow> p = [] \<or> fs p = Some Dir"

definition link_path :: "string \<Rightarrow> string \<Rightarrow> string" where
  "link_path p t = (if take 1 t = ''/'' then t else dirname p @ ''/'' @ t)"

text \<open>The kernel follows a bounded number of links.\<close>

fun resolve :: "nat \<Rightarrow> fs \<Rightarrow> string \<Rightarrow> string option" where
  "resolve 0 fs p = None"
| "resolve (Suc n) fs p = (case fs p of Some (Link t) \<Rightarrow> resolve n fs (link_path p t) | _ \<Rightarrow> Some p)"

definition SYMLOOP_MAX :: nat where "SYMLOOP_MAX = 8"

definition read_file :: "fs \<Rightarrow> string \<Rightarrow> bytes option" where
  "read_file fs p =
     (case resolve SYMLOOP_MAX fs p of None \<Rightarrow> None
      | Some q \<Rightarrow> (case fs q of Some (File b) \<Rightarrow> Some b | _ \<Rightarrow> None))"

text \<open>What the kernel may refuse: each call, and how much of a write it takes.\<close>

record kernel =
  k_mkdir :: "string \<Rightarrow> bool"
  k_open :: bool
  k_write :: int
  k_unlink :: "string \<Rightarrow> bool"
  k_symlink :: bool
  k_rename :: bool

datatype mkdir_result = Made fs | Exists | MkdirFailed

definition sys_mkdir :: "kernel \<Rightarrow> string \<Rightarrow> fs \<Rightarrow> mkdir_result" where
  "sys_mkdir k p fs =
     (if fs p \<noteq> None then Exists
      else if k_mkdir k p \<and> is_dir fs (dirname p) then Made (fs(p \<mapsto> Dir)) else MkdirFailed)"

definition sys_stat :: "string \<Rightarrow> fs \<Rightarrow> bool" where
  "sys_stat p fs = (case resolve SYMLOOP_MAX fs p of None \<Rightarrow> False | Some q \<Rightarrow> fs q \<noteq> None)"

text \<open>open with O_CREAT and O_TRUNC: the path of the file that is written.\<close>

definition sys_open :: "kernel \<Rightarrow> string \<Rightarrow> fs \<Rightarrow> (string \<times> fs) option" where
  "sys_open k p fs =
     (case resolve SYMLOOP_MAX fs p of None \<Rightarrow> None
      | Some q \<Rightarrow> if k_open k \<and> is_dir fs (dirname q) \<and> fs q \<noteq> Some Dir then Some (q, fs(q \<mapsto> File [])) else None)"

definition sys_unlink :: "kernel \<Rightarrow> string \<Rightarrow> fs \<Rightarrow> fs" where
  "sys_unlink k p fs = (if k_unlink k p \<and> fs p \<noteq> Some Dir then fs(p := None) else fs)"

definition sys_symlink :: "kernel \<Rightarrow> string \<Rightarrow> string \<Rightarrow> fs \<Rightarrow> fs option" where
  "sys_symlink k t p fs =
     (if k_symlink k \<and> fs p = None \<and> is_dir fs (dirname p) then Some (fs(p \<mapsto> Link t)) else None)"

definition sys_rename :: "kernel \<Rightarrow> string \<Rightarrow> string \<Rightarrow> fs \<Rightarrow> fs option" where
  "sys_rename k a b fs =
     (if k_rename k \<and> fs a \<noteq> None \<and> fs b \<noteq> Some Dir then Some (fs(b := fs a, a := None)) else None)"

section \<open>ensure_dir\<close>

text \<open>The loop over the slashes; pre is the part of the path in front of cs.\<close>

primrec mkdir_loop :: "kernel \<Rightarrow> string \<Rightarrow> string \<Rightarrow> fs \<Rightarrow> fs" where
  "mkdir_loop k pre [] fs = fs"
| "mkdir_loop k pre (c # cs) fs =
     mkdir_loop k (pre @ [c]) cs
       (if c = CHR ''/'' then (case sys_mkdir k pre fs of Made fs' \<Rightarrow> fs' | _ \<Rightarrow> fs) else fs)"

definition ensure_dir :: "kernel \<Rightarrow> string \<Rightarrow> fs \<Rightarrow> int \<times> fs" where
  "ensure_dir k dir fs =
     (if sys_stat dir fs then (0, fs)
      else if length dir \<ge> 256 then (- 1, fs)
      else let fs = mkdir_loop k (take 1 dir) (drop 1 dir) fs in
        case sys_mkdir k dir fs of
          MkdirFailed \<Rightarrow> (- 1, fs)
        | r \<Rightarrow> let fs = (case r of Made fs' \<Rightarrow> fs' | _ \<Rightarrow> fs) in
            if \<not> sys_stat dir fs then (- 1, fs) else (0, fs))"

section \<open>write_png_file\<close>

definition COVERART_DIR :: string where "COVERART_DIR = ''/var/app/icab/tmp/37''"
definition COVERART_FILE :: string where "COVERART_FILE = COVERART_DIR @ ''/coverart.png''"

definition slot_name :: "int \<Rightarrow> string" where
  "slot_name i = ''coverart_'' @ dec_int i @ ''.png''"

definition slot_path :: "int \<Rightarrow> string" where
  "slot_path i = COVERART_DIR @ ''/'' @ slot_name i"

definition tmp_link :: string where "tmp_link = COVERART_FILE @ ''.tmp''"

text \<open>write(): the states in between and the last one.\<close>

definition write_states :: "kernel \<Rightarrow> string \<Rightarrow> bytes \<Rightarrow> fs \<Rightarrow> fs list" where
  "write_states k q data fs =
     map (\<lambda>n. fs(q \<mapsto> File (take n data))) [0 ..< (if k_write k < 0 then 0 else nat (k_write k)) + 1]"

definition write_png_file :: "kernel \<Rightarrow> bytes \<Rightarrow> int \<Rightarrow> fs \<Rightarrow> int \<times> int \<times> fs list" where
  "write_png_file k data slot fs =
     (let fs0 = snd (ensure_dir k COVERART_DIR fs);
          new_slot = 1 - slot; old_slot = slot;
          new_path = slot_path new_slot; old_path = slot_path old_slot
      in case sys_open k new_path fs0 of
        None \<Rightarrow> (- 1, slot, [fs0])
      | Some (q, fs1) \<Rightarrow>
          let ws = write_states k q data fs1; fs2 = last ws in
          if k_write k \<noteq> int (length data)
          then (- 1, slot, fs0 # ws @ [sys_unlink k new_path fs2])
          else let fs3 = sys_unlink k tmp_link fs2 in
            (case sys_symlink k (slot_name new_slot) tmp_link fs3 of
               None \<Rightarrow> (- 1, slot, fs0 # ws @ [fs3, sys_unlink k new_path fs3])
             | Some fs4 \<Rightarrow>
                 (case sys_rename k tmp_link COVERART_FILE fs4 of
                    None \<Rightarrow> (- 1, slot, fs0 # ws @ [fs3, fs4, sys_unlink k tmp_link fs4])
                  | Some fs5 \<Rightarrow> (0, new_slot, fs0 # ws @ [fs3, fs4, fs5, sys_unlink k old_path fs5]))))"

section \<open>The four paths\<close>

lemma dec_int_slots: "dec_int 0 = ''0''" "dec_int 1 = ''1''"
  by code_simp+

definition slot_ok :: "int \<Rightarrow> bool" where
  "slot_ok i \<longleftrightarrow> i = 0 \<or> i = 1"

lemma slot_ok_flip [simp]: "slot_ok i \<Longrightarrow> slot_ok (1 - i)"
  by (auto simp: slot_ok_def)

lemma cover_paths:
  assumes "slot_ok i"
  shows "slot_path (1 - i) \<noteq> slot_path i" "slot_path i \<noteq> tmp_link" "slot_path i \<noteq> COVERART_FILE" "tmp_link \<noteq> COVERART_FILE"
    and "dirname (slot_path i) = COVERART_DIR" "dirname tmp_link = COVERART_DIR" "dirname COVERART_FILE = COVERART_DIR"
    and "link_path COVERART_FILE (slot_name i) = slot_path i"
proof -
  have d: "slot_path 0 = COVERART_DIR @ ''/coverart_0.png''" "slot_path 1 = COVERART_DIR @ ''/coverart_1.png''"
    "slot_name 0 = ''coverart_0.png''" "slot_name 1 = ''coverart_1.png''"
    by (simp_all add: slot_path_def slot_name_def dec_int_slots)
  note defs = COVERART_DIR_def COVERART_FILE_def tmp_link_def dirname_def link_path_def
  show "slot_path (1 - i) \<noteq> slot_path i" "slot_path i \<noteq> tmp_link" "slot_path i \<noteq> COVERART_FILE" "tmp_link \<noteq> COVERART_FILE"
    using assms by (auto simp: slot_ok_def d defs)
  show "dirname (slot_path i) = COVERART_DIR" "dirname tmp_link = COVERART_DIR" "dirname COVERART_FILE = COVERART_DIR"
    using assms by (auto simp: slot_ok_def d defs)
  show "link_path COVERART_FILE (slot_name i) = slot_path i"
    using assms by (auto simp: slot_ok_def d defs)
qed

lemma length_cover_paths:
  "length COVERART_DIR < length COVERART_FILE" "length COVERART_DIR < length tmp_link"
  "length COVERART_DIR < length (slot_path i)"
  by (simp_all add: COVERART_FILE_def tmp_link_def slot_path_def slot_name_def)

section \<open>ensure_dir only makes directories above\<close>

lemma mkdir_loop_longer: "length pre + length cs \<le> length p \<Longrightarrow> mkdir_loop k pre cs fs p = fs p"
  by (induction cs arbitrary: pre fs) (auto simp: sys_mkdir_def)

lemma ensure_dir_longer: "length dir < length p \<Longrightarrow> snd (ensure_dir k dir fs) p = fs p"
  by (cases dir) (auto simp: ensure_dir_def Let_def sys_mkdir_def mkdir_loop_longer)

text \<open>A reader: through the link or nothing.\<close>

lemma SYMLOOP_MAX_Suc: "SYMLOOP_MAX = Suc (Suc 6)"
  by (simp only: SYMLOOP_MAX_def)

lemma resolve_plain: "(\<And>t. fs p \<noteq> Some (Link t)) \<Longrightarrow> resolve SYMLOOP_MAX fs p = Some p"
  unfolding SYMLOOP_MAX_Suc resolve.simps by (auto split: option.split node.split)

lemma read_missing: "fs p = None \<Longrightarrow> read_file fs p = None"
  by (simp add: read_file_def resolve_plain)

lemma read_through_link:
  assumes "fs p = Some (Link t)" and "link_path p t = q"
  shows "read_file fs p = (case fs q of Some (File b) \<Rightarrow> Some b | Some (Link _) \<Rightarrow> read_file fs p | _ \<Rightarrow> None)"
proof (cases "\<exists>u. fs q = Some (Link u)")
  case True
  then show ?thesis by auto
next
  case False
  have "resolve SYMLOOP_MAX fs p = Some q"
    unfolding SYMLOOP_MAX_Suc resolve.simps using assms False by (auto split: option.split node.split)
  then show ?thesis using False by (auto simp: read_file_def split: option.split node.split)
qed

section \<open>Replacing the cover\<close>

text \<open>The files between two calls: the canonical path links to the current slot,
  which holds the current cover (or there is none yet).\<close>

definition cover_files :: "fs \<Rightarrow> int \<Rightarrow> bytes option \<Rightarrow> bool" where
  "cover_files fs slot cur \<longleftrightarrow> slot_ok slot \<and> (\<forall>t. fs (slot_path (1 - slot)) \<noteq> Some (Link t)) \<and>
     (\<forall>t. fs (slot_path slot) \<noteq> Some (Link t)) \<and> fs tmp_link \<noteq> Some Dir \<and>
     (case cur of None \<Rightarrow> fs COVERART_FILE = None
      | Some b \<Rightarrow> fs COVERART_FILE = Some (Link (slot_name slot)) \<and> fs (slot_path slot) = Some (File b))"

definition read_cover :: "fs \<Rightarrow> bytes option" where
  "read_cover fs = read_file fs COVERART_FILE"

lemma read_cover_link:
  "slot_ok i \<Longrightarrow> fs COVERART_FILE = Some (Link (slot_name i)) \<Longrightarrow> fs (slot_path i) = Some (File b) \<Longrightarrow>
   read_cover fs = Some b"
  using read_through_link [of fs COVERART_FILE "slot_name i" "slot_path i"] cover_paths(8) by (simp add: read_cover_def)

lemma cover_files_read: "cover_files fs slot cur \<Longrightarrow> read_cover fs = cur"
  by (cases cur) (auto simp: cover_files_def read_cover_def read_missing intro: read_cover_link [unfolded read_cover_def])

text \<open>A reader's view only depends on the canonical path and the current slot.\<close>

lemma cover_files_cong:
  assumes "cover_files fs slot cur" and "g COVERART_FILE = fs COVERART_FILE" and "g (slot_path slot) = fs (slot_path slot)"
    and "\<forall>t. g (slot_path (1 - slot)) \<noteq> Some (Link t)" and "g tmp_link \<noteq> Some Dir"
  shows "cover_files g slot cur"
  using assms by (auto simp: cover_files_def split: option.splits)

lemma write_states_are:
  assumes "k_write k \<le> int (length data)"
  shows "\<forall>g \<in> set (write_states k q data fs). \<exists>n. g = fs(q \<mapsto> File (take n data))"
    and "last (write_states k q data fs) = fs(q \<mapsto> File (take (nat (k_write k)) data))"
    and "write_states k q data fs \<noteq> []"
proof -
  show "\<forall>g \<in> set (write_states k q data fs). \<exists>n. g = fs(q \<mapsto> File (take n data))"
    unfolding write_states_def by (simp only: set_map) blast
  show "last (write_states k q data fs) = fs(q \<mapsto> File (take (nat (k_write k)) data))" "write_states k q data fs \<noteq> []"
    by (auto simp: write_states_def)
qed

text \<open>Every state a reader can observe, and what is left.\<close>

lemma write_png_file_states:
  assumes "cover_files fs slot cur" and "k_write k \<le> int (length data)"
    and "write_png_file k data slot fs = (r, slot', states)"
  shows "states \<noteq> [] \<and> (\<forall>g \<in> set states. cover_files g slot cur \<or> cover_files g (1 - slot) (Some data)) \<and>
    (if r = 0 then slot' = 1 - slot \<and> cover_files (last states) (1 - slot) (Some data)
     else r = - 1 \<and> slot' = slot \<and> cover_files (last states) slot cur)"
proof -
  have slot: "slot_ok slot" "slot_ok (1 - slot)" using assms(1) by (simp_all add: cover_files_def)
  define N where "N = slot_path (1 - slot)"
  define S where "S = slot_path slot"
  note paths = cover_paths [OF slot(1), folded N_def S_def] cover_paths(2,3,5,8) [OF slot(2), folded N_def]
  define fs0 where "fs0 = snd (ensure_dir k COVERART_DIR fs)"
  have same: "fs0 COVERART_FILE = fs COVERART_FILE" "fs0 S = fs S" "fs0 N = fs N" "fs0 tmp_link = fs tmp_link"
    unfolding fs0_def N_def S_def by (simp_all add: ensure_dir_longer length_cover_paths)
  have fresh: "\<forall>t. fs N \<noteq> Some (Link t)" "fs tmp_link \<noteq> Some Dir" "\<forall>t. fs S \<noteq> Some (Link t)"
    using assms(1) by (simp_all add: cover_files_def N_def S_def)
  have old: "cover_files g slot cur"
    if "g COVERART_FILE = fs COVERART_FILE" "g S = fs S" "\<forall>t. g N \<noteq> Some (Link t)" "g tmp_link \<noteq> Some Dir" for g
    using cover_files_cong [OF assms(1)] that unfolding N_def S_def by blast
  have c0: "cover_files fs0 slot cur" using old [of fs0] same fresh by simp
  show ?thesis
  proof (cases "sys_open k N fs0")
    case None
    then have "r = - 1" "slot' = slot" "states = [fs0]"
      using assms(3) by (auto simp: write_png_file_def Let_def N_def fs0_def)
    then show ?thesis using c0 by simp
  next
    case (Some p)
    then obtain q fs1 where "sys_open k N fs0 = Some (q, fs1)" by (cases p) auto
    moreover have "resolve SYMLOOP_MAX fs0 N = Some N" by (rule resolve_plain) (simp add: same fresh)
    ultimately have op: "sys_open k N fs0 = Some (N, fs0(N \<mapsto> File []))" by (auto simp: sys_open_def split: if_splits)
    define ws where "ws = write_states k N data (fs0(N \<mapsto> File []))"
    have wr: "\<exists>n. g = fs0(N \<mapsto> File (take n data))" if "g \<in> set ws" for g
      using write_states_are(1) [OF assms(2), of N "fs0(N \<mapsto> File [])"] that unfolding ws_def by simp
    have cw: "cover_files g slot cur" if "g \<in> set ws" for g
      using wr [OF that] old [of g] same fresh paths by auto
    define fs2 where "fs2 = last ws"
    have fs2: "fs2 = fs0(N \<mapsto> File (take (nat (k_write k)) data))" "ws \<noteq> []"
      using write_states_are(2,3) [OF assms(2)] by (simp_all add: fs2_def ws_def)
    define fs3 where "fs3 = sys_unlink k tmp_link fs2"
    have res: "write_png_file k data slot fs =
       (if k_write k \<noteq> int (length data) then (- 1, slot, fs0 # ws @ [sys_unlink k N fs2])
        else case sys_symlink k (slot_name (1 - slot)) tmp_link fs3 of
               None \<Rightarrow> (- 1, slot, fs0 # ws @ [fs3, sys_unlink k N fs3])
             | Some fs4 \<Rightarrow>
                 (case sys_rename k tmp_link COVERART_FILE fs4 of
                    None \<Rightarrow> (- 1, slot, fs0 # ws @ [fs3, fs4, sys_unlink k tmp_link fs4])
                  | Some fs5 \<Rightarrow> (0, 1 - slot, fs0 # ws @ [fs3, fs4, fs5, sys_unlink k S fs5])))"
      unfolding write_png_file_def Let_def N_def [symmetric] S_def [symmetric] fs0_def [symmetric] op option.case prod.case
        ws_def [symmetric] fs2_def [symmetric] fs3_def [symmetric] ..
    have u2: "cover_files (sys_unlink k N fs2) slot cur" "cover_files fs3 slot cur" "cover_files (sys_unlink k N fs3) slot cur"
      by (rule old; use paths same fresh in \<open>auto simp: fs3_def sys_unlink_def fs2\<close>)+
    show ?thesis
    proof (cases "k_write k = int (length data)")
      case False
      then have "r = - 1" "slot' = slot" "states = fs0 # ws @ [sys_unlink k N fs2]" using assms(3) res by simp_all
      then show ?thesis using c0 cw u2 by auto
    next
      case full: True
      show ?thesis
      proof (cases "sys_symlink k (slot_name (1 - slot)) tmp_link fs3")
        case None
        then have "r = - 1" "slot' = slot" "states = fs0 # ws @ [fs3, sys_unlink k N fs3]" using assms(3) res full by simp_all
        then show ?thesis using c0 cw u2 by auto
      next
        case (Some fs4)
        then have fs4: "fs4 = fs3(tmp_link \<mapsto> Link (slot_name (1 - slot)))" by (auto simp: sys_symlink_def split: if_splits)
        have u4: "cover_files fs4 slot cur" "cover_files (sys_unlink k tmp_link fs4) slot cur"
          by (rule old; use paths same fresh in \<open>auto simp: fs4 fs3_def sys_unlink_def fs2\<close>)+
        show ?thesis
        proof (cases "sys_rename k tmp_link COVERART_FILE fs4")
          case None
          then have "r = - 1" "slot' = slot" "states = fs0 # ws @ [fs3, fs4, sys_unlink k tmp_link fs4]"
            using assms(3) res full Some by simp_all
          then show ?thesis using c0 cw u2 u4 by auto
        next
          case (Some fs5)
          then have fs5: "fs5 = fs4(COVERART_FILE := fs4 tmp_link, tmp_link := None)"
            by (auto simp: sys_rename_def split: if_splits)
          have noS: "\<forall>t. fs5 S \<noteq> Some (Link t)"
            using fresh(3) paths by (auto simp: fs5 fs4 fs3_def sys_unlink_def fs2 same)
          have five: "fs5 COVERART_FILE = Some (Link (slot_name (1 - slot)))" "fs5 N = Some (File data)" "fs5 tmp_link = None"
            using paths full by (auto simp: fs5 fs4 fs3_def sys_unlink_def fs2)
          have new: "cover_files g (1 - slot) (Some data)" if "g = fs5 \<or> g = sys_unlink k S fs5" for g
            using that five slot paths noS by (auto simp: cover_files_def N_def S_def sys_unlink_def split: if_splits)
          have "r = 0" "slot' = 1 - slot" "states = fs0 # ws @ [fs3, fs4, fs5, sys_unlink k S fs5]"
            using assms(3) res full \<open>sys_symlink k _ _ _ = _\<close> Some by simp_all
          then show ?thesis using c0 cw u2 u4 new by auto
        qed
      qed
    qed
  qed
qed

lemma ensure_dir_there: "is_dir fs COVERART_DIR \<Longrightarrow> ensure_dir k COVERART_DIR fs = (0, fs)"
proof -
  assume "is_dir fs COVERART_DIR"
  then have "fs COVERART_DIR = Some Dir" by (simp add: is_dir_def COVERART_DIR_def)
  then show ?thesis by (simp add: ensure_dir_def sys_stat_def resolve_plain)
qed

text \<open>When nothing is refused the cover is replaced.\<close>

definition all_ok :: "kernel \<Rightarrow> bytes \<Rightarrow> bool" where
  "all_ok k data \<longleftrightarrow> k_open k \<and> k_write k = int (length data) \<and> (\<forall>p. k_unlink k p) \<and> k_symlink k \<and> k_rename k"

lemma write_png_file_succeeds:
  assumes "cover_files fs slot cur" and "is_dir fs COVERART_DIR" and "fs (slot_path (1 - slot)) \<noteq> Some Dir" and "all_ok k data"
  shows "fst (write_png_file k data slot fs) = 0"
proof -
  have slot: "slot_ok slot" "slot_ok (1 - slot)" using assms(1) by (simp_all add: cover_files_def)
  define N where "N = slot_path (1 - slot)"
  note paths = cover_paths [OF slot(1)] cover_paths(2,3,5,8) [OF slot(2), folded N_def]
  have fresh: "\<forall>t. fs N \<noteq> Some (Link t)" "fs tmp_link \<noteq> Some Dir" "fs COVERART_FILE \<noteq> Some Dir" "fs N \<noteq> Some Dir"
    using assms(1,3) by (auto simp: cover_files_def N_def split: option.splits)
  have dir: "fs COVERART_DIR = Some Dir" using assms(2) by (simp add: is_dir_def COVERART_DIR_def)
  have nd: "COVERART_DIR \<noteq> N" "COVERART_DIR \<noteq> tmp_link"
    using length_cover_paths(2) length_cover_paths(3) [of "1 - slot"] by (auto simp: N_def)
  have rN: "resolve SYMLOOP_MAX fs N = Some N" by (rule resolve_plain) (simp add: fresh)
  have op: "sys_open k N fs = Some (N, fs(N \<mapsto> File []))"
    using assms(2,4) fresh paths by (simp add: sys_open_def rN all_ok_def)
  define fs2 where "fs2 = last (write_states k N data (fs(N \<mapsto> File [])))"
  have fs2: "fs2 = fs(N \<mapsto> File data)"
    using assms(4) write_states_are(2) [where k = k and data = data and q = N and fs = "fs(N \<mapsto> File [])"] by (simp add: fs2_def all_ok_def)
  define fs4 where "fs4 = (fs2(tmp_link := None))(tmp_link \<mapsto> Link (slot_name (1 - slot)))"
  have un: "sys_unlink k tmp_link fs2 = fs2(tmp_link := None)"
    using assms(4) fresh paths by (simp add: sys_unlink_def all_ok_def fs2)
  have sl: "sys_symlink k (slot_name (1 - slot)) tmp_link (fs2(tmp_link := None)) = Some fs4"
    using assms(4) dir nd paths by (simp add: sys_symlink_def all_ok_def fs4_def fs2 is_dir_def)
  have rn: "\<exists>fs5. sys_rename k tmp_link COVERART_FILE fs4 = Some fs5"
    using assms(4) fresh paths by (simp add: sys_rename_def all_ok_def fs4_def fs2)
  show ?thesis
    unfolding write_png_file_def Let_def ensure_dir_there [OF assms(2)] snd_conv N_def [symmetric] op option.case prod.case
      fs2_def [symmetric] un sl
    using rn assms(4) by (auto simp: all_ok_def)
qed

text \<open>A refused or short call among the four that count makes it fail.\<close>

lemma write_png_file_fails:
  assumes "\<not> (k_open k \<and> k_write k = int (length data) \<and> k_symlink k \<and> k_rename k)"
  shows "fst (write_png_file k data slot fs) \<noteq> 0"
  using assms unfolding write_png_file_def Let_def
  by (auto simp: sys_open_def sys_symlink_def sys_rename_def split: option.split)

text \<open>The first start, with no cover yet.\<close>

lemma cover_files_first: "cover_files [COVERART_DIR \<mapsto> Dir] 0 None"
proof -
  have z: "slot_ok 0" by (simp add: slot_ok_def)
  have "COVERART_DIR \<noteq> COVERART_FILE" "COVERART_DIR \<noteq> tmp_link"
    using length_cover_paths by (metis less_irrefl_nat)+
  then show ?thesis using z by (auto simp: cover_files_def split: if_splits)
qed

section \<open>Properties\<close>

text \<open>Property C7. Provided that the slot of the module is the one the canonical
  link names, or that there is no cover yet (so it is at the first start, and
  after every call of write_png_file; a restart may break it, see C38): whatever
  the kernel refuses and however much of the file it takes, a reader of the
  canonical path sees, at every moment of write_png_file, the complete old cover
  or the complete new one; the function returns 0 exactly when the new one
  stays, the slots then swap roles, and the files are again fit for the next
  call.\<close>

theorem cover_replaced_atomically:
  assumes "cover_files fs slot cur" and "k_write k \<le> int (length data)"
    and "write_png_file k data slot fs = (r, slot', states)"
  shows "(\<forall>g \<in> set states. read_cover g = cur \<or> read_cover g = Some data) \<and>
    (if r = 0 then slot' = 1 - slot \<and> cover_files (last states) slot' (Some data) \<and> read_cover (last states) = Some data
     else r = - 1 \<and> slot' = slot \<and> cover_files (last states) slot' cur \<and> read_cover (last states) = cur)"
  using write_png_file_states [OF assms] cover_files_read by (auto split: if_splits)

text \<open>A directory with a cover in slot 1, and a kernel that takes all of a short file.\<close>

definition one_cover :: "bytes \<Rightarrow> fs" where
  "one_cover b = [COVERART_DIR \<mapsto> Dir, COVERART_FILE \<mapsto> Link (slot_name 1), slot_path 1 \<mapsto> File b]"

definition kernel_takes :: "int \<Rightarrow> kernel" where
  "kernel_takes n = \<lparr> k_mkdir = (\<lambda>_. True), k_open = True, k_write = n, k_unlink = (\<lambda>_. True), k_symlink = True, k_rename = True \<rparr>"

lemma one_cover_ok: "cover_files (one_cover b) 1 (Some b)" "is_dir (one_cover b) COVERART_DIR"
proof -
  have one: "slot_ok 1" by (simp add: slot_ok_def)
  have n: "COVERART_DIR \<noteq> COVERART_FILE" "COVERART_DIR \<noteq> slot_path 1" "COVERART_DIR \<noteq> slot_path 0" "COVERART_DIR \<noteq> tmp_link"
    using length_cover_paths by (metis less_irrefl_nat)+
  have z: "slot_path 0 \<noteq> slot_path 1" "slot_path 0 \<noteq> COVERART_FILE" "slot_path 0 \<noteq> tmp_link"
    using cover_paths [OF one] cover_paths [of 0] by (simp_all add: slot_ok_def)
  show "cover_files (one_cover b) 1 (Some b)"
    using cover_paths(1-4) [OF one] n z by (auto simp: cover_files_def one_cover_def one split: if_splits)
  show "is_dir (one_cover b) COVERART_DIR" using n by (simp add: is_dir_def one_cover_def)
qed

lemma cover_replaced_atomically_witness:
  "\<exists>states. write_png_file (kernel_takes 2) [7, 8] 1 (one_cover [5]) = (0, 0, states) \<and> read_cover (last states) = Some [7, 8]"
proof -
  obtain r s states where e: "write_png_file (kernel_takes 2) [7, 8] 1 (one_cover [5]) = (r, s, states)" by (metis prod_cases3)
  have "all_ok (kernel_takes 2) [7, 8]" by (simp add: all_ok_def kernel_takes_def)
  moreover have "slot_path 0 \<noteq> COVERART_DIR" using length_cover_paths(3) [of 0] by (metis less_irrefl_nat)
  moreover have "slot_path 0 \<noteq> slot_path 1" "slot_path 0 \<noteq> COVERART_FILE"
    using cover_paths(1) [of 1] cover_paths(3) [of 0] by (simp_all add: slot_ok_def)
  ultimately have "fst (write_png_file (kernel_takes 2) [7, 8] 1 (one_cover [5])) = 0"
    by (intro write_png_file_succeeds [OF one_cover_ok]) (simp_all add: one_cover_def)
  then have "r = 0" by (simp add: e)
  moreover have "k_write (kernel_takes 2) \<le> int (length [7 :: u8, 8])" by (simp add: kernel_takes_def)
  ultimately show ?thesis
    using cover_replaced_atomically [OF one_cover_ok(1) _ e] e by auto
qed

text \<open>Property C38. The slot is not read from the link: after a restart it is 0 again
  while the link may point to slot 1.  The next cover is then written into the
  very file readers see: they observe it empty, and if the write comes short
  the canonical path ends up pointing nowhere.\<close>

theorem restart_exposes_partial_cover:
  assumes "cover_files fs 1 (Some old)" and "is_dir fs COVERART_DIR" and "k_open k"
    and "write_png_file k data 0 fs = (r, slot', states)"
  shows "(\<exists>g \<in> set states. read_cover g = Some []) \<and>
    (k_write k < int (length data) \<and> k_unlink k (slot_path 1) \<longrightarrow> r = - 1 \<and> read_cover (last states) = None)"
proof -
  have one: "slot_ok 1" by (simp add: slot_ok_def)
  note paths = cover_paths [OF one]
  have files: "fs COVERART_FILE = Some (Link (slot_name 1))" "fs (slot_path 1) = Some (File old)"
    using assms(1) by (simp_all add: cover_files_def)
  have "resolve SYMLOOP_MAX fs (slot_path 1) = Some (slot_path 1)" by (rule resolve_plain) (simp add: files)
  then have op: "sys_open k (slot_path 1) fs = Some (slot_path 1, fs(slot_path 1 \<mapsto> File []))"
    using assms(2,3) files paths by (simp add: sys_open_def)
  define ws where "ws = write_states k (slot_path 1) data (fs(slot_path 1 \<mapsto> File []))"
  have st: "set ws \<subseteq> set states"
    using assms(4) op
    unfolding write_png_file_def Let_def ensure_dir_there [OF assms(2)] snd_conv diff_zero ws_def
    by (auto split: if_splits option.splits)
  have "fs(slot_path 1 \<mapsto> File (take 0 data)) \<in> set ws"
    unfolding ws_def write_states_def set_map by (rule rev_image_eqI [of 0]) auto
  then have "fs(slot_path 1 \<mapsto> File []) \<in> set ws" by simp
  moreover have "read_cover (fs(slot_path 1 \<mapsto> File [])) = Some []"
    by (rule read_cover_link [OF one]) (use files paths in simp_all)
  ultimately have seen: "\<exists>g \<in> set states. read_cover g = Some []" using st by blast
  have lost: "r = - 1 \<and> read_cover (last states) = None"
    if "k_write k < int (length data)" "k_unlink k (slot_path 1)"
  proof -
    have "last ws = fs(slot_path 1 \<mapsto> File (take (nat (k_write k)) data))"
      using write_states_are(2) [where k = k and data = data] that(1) by (simp add: ws_def)
    then have "sys_unlink k (slot_path 1) (last ws) = fs(slot_path 1 := None)" using that(2) by (simp add: sys_unlink_def)
    then have "r = - 1" "last states = fs(slot_path 1 := None)"
      using assms(4) op that(1)
      unfolding write_png_file_def Let_def ensure_dir_there [OF assms(2)] snd_conv diff_zero ws_def
      by (auto split: if_splits)
    moreover have "read_cover (fs(slot_path 1 := None)) = None"
      using read_through_link [of "fs(slot_path 1 := None)" COVERART_FILE "slot_name 1" "slot_path 1"] files paths
      by (simp add: read_cover_def)
    ultimately show ?thesis by simp
  qed
  show ?thesis using seen lost by blast
qed

lemma restart_exposes_partial_cover_witness:
  "\<exists>states slot'. write_png_file (kernel_takes 1) [7, 8] 0 (one_cover [5]) = (- 1, slot', states) \<and>
     read_cover (one_cover [5]) = Some [5] \<and> read_cover (last states) = None"
proof -
  obtain r s states where e: "write_png_file (kernel_takes 1) [7, 8] 0 (one_cover [5]) = (r, s, states)" by (metis prod_cases3)
  have k: "k_open (kernel_takes 1)" "k_write (kernel_takes 1) < int (length [7 :: u8, 8])" "k_unlink (kernel_takes 1) (slot_path 1)"
    by (simp_all add: kernel_takes_def)
  show ?thesis
    using restart_exposes_partial_cover [OF one_cover_ok k(1) e] k(2,3) e cover_files_read [OF one_cover_ok(1)] by auto
qed

end
