(* ===== verification/Cover_Save.thy ===== *)
theory Cover_Save
  imports Cover_Files Cover_Bytes Bus_Core
begin

text \<open>
  c_hook/coverart/coverart_hook.c, from a complete image to the published cover:
  the size filter and the deduplication, decoding (stb_image's decoder is a
  parameter), fitting into 256 * 256, the PNG file and the notification on the
  bus; then the worker with its one slot queue.
\<close>

section \<open>Saving an image\<close>

text \<open>g_coverart with the files and the bus it acts on.\<close>

record saver =
  sv_last_crc :: u32
  sv_images_found :: int
  sv_slot :: int
  sv_fs :: fs
  sv_bus :: bus

text \<open>What the outside answers: the decoder gives pixels, width and height.\<close>

record save_env =
  ev_decode :: "bytes \<Rightarrow> (bytes \<times> int \<times> int) option"
  ev_alloc :: allocator
  ev_zlib :: zlib
  ev_kernel :: "bytes \<Rightarrow> kernel"
  ev_bus_alloc :: "bool \<times> bool \<times> bool"

definition write_coverart_notify :: "bool \<times> bool \<times> bool \<Rightarrow> u32 \<Rightarrow> bus \<Rightarrow> bus option" where
  "write_coverart_notify al crc b =
     (let tb = bus_text_begin_with (Some ''coverart'') 128;
          tb = bus_text_uint ''crc'' (unat crc) tb;
          tb = bus_text_str ''path'' (Some COVERART_FILE) tb
      in do { (r, tb, b) \<leftarrow> bus_send_text al EVT_COVERART BUS_FLAG_STICKY tb b; Some b })"

text \<open>The result, the new state and the states of the files in between.\<close>

definition save_artwork :: "save_env \<Rightarrow> bytes \<Rightarrow> saver \<Rightarrow> (int \<times> saver \<times> fs list) option" where
  "save_artwork e data s =
     (if length data < COVERART_MIN_BYTES \<or> length data > COVERART_MAX_BYTES then Some (0, s, [])
      else
        let crc = crc32_bytes data in
        if crc = sv_last_crc s then Some (1, s, [])
        else (case ev_decode e data of
          None \<Rightarrow> Some (0, s, [])
        | Some (rgb, src_w, src_h) \<Rightarrow>
            if src_w \<le> 0 \<or> src_h \<le> 0 then Some (0, s, [])
            else do {
              orientation \<leftarrow> get_jpeg_orientation data;
              let flip = (orientation = 4);
              case ev_alloc e (nat OUTPUT_WIDTH * nat OUTPUT_HEIGHT * 3) of
                None \<Rightarrow> Some (0, s, [])
              | Some out \<Rightarrow> do {
                  out \<leftarrow> resize_rgb_contain (ev_alloc e) rgb src_w src_h out OUTPUT_WIDTH OUTPUT_HEIGHT flip;
                  png \<leftarrow> build_png (ev_zlib e) (ev_alloc e) out OUTPUT_WIDTH OUTPUT_HEIGHT;
                  case png of
                    None \<Rightarrow> Some (0, s, [])
                  | Some png \<Rightarrow>
                      (case write_png_file (ev_kernel e png) png (sv_slot s) (sv_fs s) of (r, slot, states) \<Rightarrow>
                         let s = s\<lparr> sv_slot := slot, sv_fs := last states \<rparr> in
                         if r = 0 then do {
                           b \<leftarrow> write_coverart_notify (ev_bus_alloc e) crc (sv_bus s);
                           Some (1, s\<lparr> sv_last_crc := crc, sv_images_found := sv_images_found s + 1, sv_bus := b \<rparr>, states) }
                         else Some (1, s, states)) } }))"

definition maybe_handle_image :: "save_env \<Rightarrow> bytes \<Rightarrow> saver \<Rightarrow> (int \<times> saver \<times> fs list) option" where
  "maybe_handle_image e data s =
     (if length data < COVERART_MIN_BYTES \<or> length data > COVERART_MAX_BYTES then Some (0, s, [])
      else if is_jpeg data \<or> is_png data then save_artwork e data s
      else Some (0, s, []))"

section \<open>The worker\<close>

text \<open>The queue of one image; wk_busy is the image the worker is working on.\<close>

record worker =
  wk_pending :: "bytes option"
  wk_busy :: "bytes option"
  wk_started :: bool
  wk_shutdown :: bool
  wk_running :: bool
  wk_saver :: saver

text \<open>ensure_worker_started: ok when pthread_create succeeds.\<close>

definition ensure_worker_started :: "bool \<Rightarrow> worker \<Rightarrow> worker" where
  "ensure_worker_started ok w =
     (if \<not> wk_started w then (if ok then w\<lparr> wk_started := True, wk_running := True \<rparr> else w) else w)"

definition enqueue_image_async :: "save_env \<Rightarrow> bytes \<Rightarrow> worker \<Rightarrow> worker option" where
  "enqueue_image_async e data w =
     (if \<not> wk_started w
      then (case maybe_handle_image e data (wk_saver w) of None \<Rightarrow> None | Some (r, s, states) \<Rightarrow> Some (w\<lparr> wk_saver := s \<rparr>))
      else Some (w\<lparr> wk_pending := Some data \<rparr>))"

text \<open>The worker under its lock: it waits (None), leaves its loop, or takes the
  pending image.\<close>

definition worker_take :: "worker \<Rightarrow> worker option" where
  "worker_take w =
     (if \<not> wk_running w \<or> wk_busy w \<noteq> None then None
      else if wk_pending w = None \<and> \<not> wk_shutdown w then None
      else if wk_shutdown w \<and> wk_pending w = None then Some (w\<lparr> wk_running := False \<rparr>)
      else Some (w\<lparr> wk_busy := wk_pending w, wk_pending := None \<rparr>))"

definition worker_finish :: "save_env \<Rightarrow> worker \<Rightarrow> worker option" where
  "worker_finish e w =
     (case wk_busy w of None \<Rightarrow> None
      | Some data \<Rightarrow> (case maybe_handle_image e data (wk_saver w) of None \<Rightarrow> None
          | Some (r, s, states) \<Rightarrow> Some (w\<lparr> wk_busy := None, wk_saver := s \<rparr>)))"

definition coverart_fini :: "worker \<Rightarrow> worker" where
  "coverart_fini w = w\<lparr> wk_shutdown := True, wk_pending := None \<rparr>"

section \<open>The notification\<close>

definition cover_fields :: "u32 \<Rightarrow> bt_field list" where
  "cover_fields crc = [FUint ''crc'' (unat crc), FStr ''path'' (Some COVERART_FILE)]"

definition cover_text :: "u32 \<Rightarrow> string" where
  "cover_text crc = name_line (Some ''coverart'') @ concat (map field_line (cover_fields crc))"

text \<open>What the Java side reads from the cached frame of the cover, as bytes (all of
  them ASCII).\<close>

definition cover_message :: "bus \<Rightarrow> (string \<times> string) list option" where
  "cover_message b = do {
     f \<leftarrow> sticky_cache b (unat EVT_COVERART);
     p \<leftarrow> f_payload f;
     Some (parse_text (bytes_str p)) }"

lemma dec_nat_length: "n < 10 ^ k \<Longrightarrow> 0 < k \<Longrightarrow> length (dec_nat n) \<le> k"
proof (induction k arbitrary: n)
  case (Suc k)
  show ?case
  proof (cases "n < 10")
    case True
    then show ?thesis by (subst dec_nat.simps) simp
  next
    case False
    then have k: "0 < k" using Suc.prems(1) by (cases k) auto
    have "n div 10 < 10 ^ k" using Suc.prems(1) by (simp add: less_mult_imp_div_less mult.commute)
    then have "length (dec_nat (n div 10)) \<le> k" using Suc.IH k by blast
    then show ?thesis using False by (subst dec_nat.simps) simp
  qed
qed simp

lemma sanitize_cover_file: "sanitize COVERART_FILE = COVERART_FILE"
  unfolding COVERART_FILE_def COVERART_DIR_def by code_simp

lemma length_cover_text: "length (cover_text crc) \<le> 128" "0 < length (cover_text crc)"
proof -
  have "unat crc < 10 ^ 10" using unsigned_less [of crc, where 'a = nat] by simp
  then have "length (dec_nat (unat crc)) \<le> 10" by (rule dec_nat_length) simp
  moreover have "length COVERART_FILE = 33" by (simp add: COVERART_FILE_def COVERART_DIR_def)
  ultimately show "length (cover_text crc) \<le> 128" "0 < length (cover_text crc)"
    by (simp_all add: cover_text_def cover_fields_def name_line_def field_line_def NL_def sanitize_cover_file)
qed

lemma cover_text_parses: "parse_text (cover_text crc) = [(''crc'', dec_nat (unat crc)), (''path'', COVERART_FILE)]"
proof -
  have ok: "list_all (\<lambda>f. key_ok (field_key f)) (cover_fields crc)"
    unfolding cover_fields_def by (simp add: key_ok_def nl_def)
  have n: "nl \<notin> set (case Some ''coverart'' of None \<Rightarrow> [] | Some s \<Rightarrow> s)" by (simp add: nl_def)
  show ?thesis
    unfolding cover_text_def using parse_name_line [OF n] parse_fields [OF ok]
    by (simp add: cover_fields_def sanitize_cover_file)
qed

lemma notify_effect:
  assumes "bus_ok b"
  shows "\<exists>b'. write_coverart_notify (True, True, a3) crc b = Some b' \<and> bus_ok b' \<and>
    cover_message b' = Some [(''crc'', dec_nat (unat crc)), (''path'', COVERART_FILE)]"
proof -
  define tb where "tb = put_fields (cover_fields crc) (bus_text_begin_with (Some ''coverart'') 128)"
  have o: "\<not> tb_overflow tb"
    unfolding tb_def payload_text(2) cover_text_def [symmetric] using length_cover_text(1) [of crc] by simp
  then have t: "tb_text tb = cover_text crc"
    unfolding tb_def cover_text_def by (rule payload_text(3))
  have h: "tb_has_buf tb" by (simp add: tb_def put_fields_chunks begin_with_chunks)
  have f: "BUS_FLAG_STICKY AND NOT BUS_FLAG_BINARY = BUS_FLAG_STICKY" "has BUS_FLAG_STICKY BUS_FLAG_STICKY"
    by (simp_all add: BUS_FLAG_STICKY_def BUS_FLAG_BINARY_def has_def)
  have len: "length (cover_text crc) \<le> length (str_bytes (cover_text crc))" "length (cover_text crc) \<le> BUS_MAX_PAYLOAD"
    "unat EVT_COVERART < MAX_TYPES" "length (cover_text crc) = 0 \<or> True"
    using length_cover_text(1) [of crc] by (simp_all add: EVT_COVERART_def MAX_TYPES_def BUS_MAX_PAYLOAD_def)
  obtain r b' where b': "bus_send (True, True, a3) EVT_COVERART BUS_FLAG_STICKY (str_bytes (cover_text crc)) (length (cover_text crc)) b = Some (r, b')"
    "bus_ok b'" "sticky_cache b' = (sticky_cache b)(unat EVT_COVERART \<mapsto>
       sent_frame EVT_COVERART BUS_FLAG_STICKY (g_tx_seq b) (str_bytes (cover_text crc)) (length (cover_text crc)))"
    using bus_send_main [OF assms len, of a3 BUS_FLAG_STICKY] f(2) by auto
  have "write_coverart_notify (True, True, a3) crc b = Some b'"
    using o t h b'(1) f(1)
    by (simp add: write_coverart_notify_def Let_def bus_send_text_def tb_def cover_fields_def put_fields_def)
  moreover have "cover_message b' = Some [(''crc'', dec_nat (unat crc)), (''path'', COVERART_FILE)]"
    using b'(3) length_cover_text(2) [of crc]
    by (simp add: cover_message_def sent_frame_def cover_text_parses)
  ultimately show ?thesis using b'(2) by blast
qed

section \<open>The published picture\<close>

text \<open>The documented behaviour of what the hook calls: allocations succeed, zlib
  works, a write takes at most what it is given, the decoder's pixels fill the
  size it reports, which a JPEG header bounds by 16 bits.\<close>

definition env_ok :: "save_env \<Rightarrow> (bytes \<Rightarrow> bytes option) \<Rightarrow> bool" where
  "env_ok e inflate \<longleftrightarrow> alloc_ok (ev_alloc e) \<and> (\<forall>n. ev_alloc e n \<noteq> None) \<and>
     zlib_ok (ev_zlib e) inflate \<and> (\<forall>raw. z_compress (ev_zlib e) raw \<noteq> None) \<and>
     (\<forall>png. k_write (ev_kernel e png) \<le> int (length png)) \<and> fst (ev_bus_alloc e) \<and> fst (snd (ev_bus_alloc e)) \<and>
     (\<forall>data rgb w h. ev_decode e data = Some (rgb, w, h) \<longrightarrow> 0 < w \<longrightarrow> 0 < h \<longrightarrow>
        w < 2 ^ 16 \<and> h < 2 ^ 16 \<and> length rgb = nat w * nat h * 3 \<and> length rgb < 2147483648)"

lemma orientation_total: "\<exists>v. get_jpeg_orientation data = Some v"
  using orient_loop_total [of data 2] by (simp add: get_jpeg_orientation_def)

text \<open>The picture of a decoded image, as readers of the file get it.\<close>

definition picture :: "bytes \<Rightarrow> int \<Rightarrow> int \<Rightarrow> bool \<Rightarrow> nat \<times> nat \<times> bytes" where
  "picture rgb w h flip = (256, 256, contained rgb (nat w) (nat h) 256 256 flip)"

lemma length_contained:
  assumes "0 < w" "w < 2 ^ 16" "0 < h" "h < 2 ^ 16" and "length rgb = w * h * 3" and "length rgb < 2147483648"
  shows "length (contained rgb w h 256 256 flip) = 256 * 256 * 3"
proof -
  obtain nw nh where n: "contain_nat w h 256 256 = (nw, nh)" by (cases "contain_nat w h 256 256")
  have f: "1 \<le> nw" "nw \<le> 256" "1 \<le> nh" "nh \<le> 256"
    using contain_nat(3) [OF assms(1-4) _ _ _ _ n] by (simp_all add: fitted_def)
  have "nw * w \<le> 256 * 2 ^ 16" by (rule mult_le_mono) (use f assms(2) in simp_all)
  moreover have "nh * h \<le> 256 * 2 ^ 16" by (rule mult_le_mono) (use f assms(4) in simp_all)
  moreover have "nw * nh \<le> 256 * 256" using f by (intro mult_le_mono)
  ultimately have fits: "resize_fits rgb w h nw nh"
    using assms f by (simp add: resize_fits_def)
  show ?thesis
    using length_canvas(2) [OF length_resized(2) [OF fits] f(2,4)] by (simp add: contained_def n)
qed

lemma picture_encoded:
  assumes "env_ok e inflate" and "ev_decode e data = Some (rgb, w, h)" and "0 < w" and "0 < h"
    and "length out = 256 * 256 * 3"
  shows "\<exists>file. resize_rgb_contain (ev_alloc e) rgb w h out 256 256 flip = Some (contained rgb (nat w) (nat h) 256 256 flip) \<and>
    build_png (ev_zlib e) (ev_alloc e) (contained rgb (nat w) (nat h) 256 256 flip) 256 256 = Some (Some file) \<and>
    png_read (ev_zlib e) inflate file = Some (picture rgb w h flip)"
proof -
  have al: "alloc_ok (ev_alloc e)" "\<forall>n. ev_alloc e n \<noteq> None" and z: "zlib_ok (ev_zlib e) inflate"
    using assms(1) unfolding env_ok_def by (metis, metis, metis)
  have dec: "w < 2 ^ 16" "h < 2 ^ 16" "length rgb = nat w * nat h * 3" "length rgb < 2147483648"
    using assms(1-4) unfolding env_ok_def by metis+
  have b: "0 < nat w" "nat w < 2 ^ 16" "0 < nat h" "nat h < 2 ^ 16" using assms(3,4) dec(1,2) by simp_all
  have i: "int (nat w) = w" "int (nat h) = h" using assms(3,4) by simp_all
  obtain nw nh where n: "contain_nat (nat w) (nat h) 256 256 = (nw, nh)" by (cases "contain_nat (nat w) (nat h) 256 256")
  let ?pic = "contained rgb (nat w) (nat h) 256 256 flip"
  have rs: "resize_rgb_contain (ev_alloc e) rgb w h out 256 256 flip = Some ?pic"
    using resize_rgb_contain_result [OF b, of 256 256 rgb out "ev_alloc e" nw nh flip] dec assms(5) al n i by simp
  have lp: "length ?pic = 256 * 256 * 3" by (rule length_contained [OF b dec(3,4)])
  obtain packed where pk: "z_compress (ev_zlib e) (scanlines ?pic 256 256) = Some packed"
    using assms(1) unfolding env_ok_def by (metis option.exhaust)
  have bp: "build_png (ev_zlib e) (ev_alloc e) ?pic 256 256 = Some (Some (png_file (ev_zlib e) 256 256 packed))"
    using build_png_file [OF lp _ _ _ z al pk] by simp
  have inf: "inflate packed = Some (scanlines ?pic 256 256)" "packed \<noteq> []"
    "length packed \<le> length (scanlines ?pic 256 256) + length (scanlines ?pic 256 256) div 1000 + 13"
    using z pk unfolding zlib_ok_def by metis+
  have ls: "length (scanlines ?pic 256 256) = 196864" using length_scanlines [OF lp] by simp
  have "length packed < 2 ^ 32" using inf(3) unfolding ls by simp
  then have "png_read (ev_zlib e) inflate (png_file (ev_zlib e) 256 256 packed) = Some (256, 256, ?pic)"
    by (rule png_file_reads_back [where w = 256 and h = 256, rotated 3]) (use lp inf in simp_all)
  then show ?thesis using rs bp by (auto simp: picture_def)
qed

text \<open>What saving a new image leads to: the file is the cover, recorded and announced,
  or the old cover stays and nothing is recorded.\<close>

definition image_saved :: "bytes \<Rightarrow> bytes \<Rightarrow> saver \<Rightarrow> saver \<Rightarrow> bool" where
  "image_saved data pf s s' \<longleftrightarrow> cover_files (sv_fs s') (sv_slot s') (Some pf) \<and> bus_ok (sv_bus s') \<and>
     sv_last_crc s' = crc32_bytes data \<and> sv_images_found s' = sv_images_found s + 1 \<and>
     cover_message (sv_bus s') = Some [(''crc'', dec_nat (unat (crc32_bytes data))), (''path'', COVERART_FILE)]"

definition image_not_saved :: "bytes option \<Rightarrow> saver \<Rightarrow> saver \<Rightarrow> bool" where
  "image_not_saved cur s s' \<longleftrightarrow> s' = s\<lparr> sv_fs := sv_fs s' \<rparr> \<and> cover_files (sv_fs s') (sv_slot s) cur"

lemma image_not_saved_sel:
  "image_not_saved cur s s' \<Longrightarrow> sv_slot s' = sv_slot s \<and> sv_bus s' = sv_bus s \<and> sv_last_crc s' = sv_last_crc s \<and>
     cover_files (sv_fs s') (sv_slot s') cur"
  by (cases s; cases s') (auto simp: image_not_saved_def)

lemma save_artwork_outcome:
  assumes env: "env_ok e inflate" and cf: "cover_files (sv_fs s) (sv_slot s) cur" and bus: "bus_ok (sv_bus s)"
    and range: "COVERART_MIN_BYTES \<le> length data" "length data \<le> COVERART_MAX_BYTES"
    and new: "crc32_bytes data \<noteq> sv_last_crc s"
    and dec: "ev_decode e data = Some (rgb, w, h)" "0 < w" "0 < h"
  shows "\<exists>s' states pf. save_artwork e data s = Some (1, s', states) \<and>
    png_read (ev_zlib e) inflate pf = Some (picture rgb w h (get_jpeg_orientation data = Some 4)) \<and>
    (\<forall>g \<in> set states. read_cover g = cur \<or> read_cover g = Some pf) \<and>
    (if fst (write_png_file (ev_kernel e pf) pf (sv_slot s) (sv_fs s)) = 0
     then image_saved data pf s s' else image_not_saved cur s s')"
proof -
  obtain v where v: "get_jpeg_orientation data = Some v" using orientation_total by blast
  obtain out where out: "ev_alloc e (256 * 256 * 3) = Some out" "length out = 256 * 256 * 3"
    using env unfolding env_ok_def alloc_ok_def by (metis option.exhaust)
  obtain pf where pf:
      "resize_rgb_contain (ev_alloc e) rgb w h out 256 256 (v = 4) = Some (contained rgb (nat w) (nat h) 256 256 (v = 4))"
      "build_png (ev_zlib e) (ev_alloc e) (contained rgb (nat w) (nat h) 256 256 (v = 4)) 256 256 = Some (Some pf)"
      "png_read (ev_zlib e) inflate pf = Some (picture rgb w h (v = 4))"
    using picture_encoded [OF env dec out(2)] by blast
  obtain r slot states where wr: "write_png_file (ev_kernel e pf) pf (sv_slot s) (sv_fs s) = (r, slot, states)"
    by (metis prod_cases3)
  have kw: "k_write (ev_kernel e pf) \<le> int (length pf)" using env unfolding env_ok_def by metis
  note st = write_png_file_states [OF cf kw wr]
  have seen: "\<forall>g \<in> set states. read_cover g = cur \<or> read_cover g = Some pf"
    using st cover_files_read by metis
  define s1 where "s1 = s\<lparr> sv_slot := slot, sv_fs := last states \<rparr>"
  have sz: "nat OUTPUT_WIDTH * nat OUTPUT_HEIGHT * 3 = 256 * 256 * 3" "OUTPUT_WIDTH = 256" "OUTPUT_HEIGHT = 256"
    by (simp_all add: OUTPUT_WIDTH_def OUTPUT_HEIGHT_def)
  have c: "\<not> (length data < COVERART_MIN_BYTES \<or> length data > COVERART_MAX_BYTES)" "\<not> (w \<le> 0 \<or> h \<le> 0)"
    using range dec by auto
  have res: "save_artwork e data s =
     (if r = 0 then do {
        b \<leftarrow> write_coverart_notify (ev_bus_alloc e) (crc32_bytes data) (sv_bus s1);
        Some (1, s1\<lparr> sv_last_crc := crc32_bytes data, sv_images_found := sv_images_found s1 + 1, sv_bus := b \<rparr>, states) }
      else Some (1, s1, states))"
    unfolding save_artwork_def if_not_P [OF c(1)] Let_def if_not_P [OF new] dec(1) option.case prod.case if_not_P [OF c(2)]
      v bind.bind_lunit sz(1) out(1) unfolding sz(2,3) pf(1,2) bind.bind_lunit option.case wr prod.case s1_def ..
  show ?thesis
  proof (cases "r = 0")
    case True
    obtain a3 where "ev_bus_alloc e = (True, True, a3)"
      using env unfolding env_ok_def by (cases "ev_bus_alloc e") auto
    moreover have "bus_ok (sv_bus s1)" using bus by (simp add: s1_def)
    ultimately obtain b where b: "write_coverart_notify (ev_bus_alloc e) (crc32_bytes data) (sv_bus s1) = Some b" "bus_ok b"
        "cover_message b = Some [(''crc'', dec_nat (unat (crc32_bytes data))), (''path'', COVERART_FILE)]"
      using notify_effect by metis
    have "image_saved data pf s (s1\<lparr> sv_last_crc := crc32_bytes data, sv_images_found := sv_images_found s1 + 1, sv_bus := b \<rparr>)"
      using st True b(2,3) by (simp add: image_saved_def s1_def)
    then show ?thesis using res True b(1) pf(3) seen v wr by auto
  next
    case False
    then have "image_not_saved cur s s1" using st by (cases s) (simp add: image_not_saved_def s1_def)
    then show ?thesis using res False pf(3) seen v wr by auto
  qed
qed

text \<open>The state between two images, and that handling any image keeps it.\<close>

definition saver_ok :: "saver \<Rightarrow> bool" where
  "saver_ok s \<longleftrightarrow> (\<exists>cur. cover_files (sv_fs s) (sv_slot s) cur) \<and> bus_ok (sv_bus s)"

lemma save_artwork_total:
  assumes "env_ok e inflate" and "saver_ok s"
  shows "\<exists>r s' states. save_artwork e data s = Some (r, s', states) \<and> saver_ok s'"
proof -
  obtain cur where cf: "cover_files (sv_fs s) (sv_slot s) cur" "bus_ok (sv_bus s)" using assms(2) by (auto simp: saver_ok_def)
  consider (skip) "save_artwork e data s = Some (0, s, []) \<or> save_artwork e data s = Some (1, s, [])"
    | (new) rgb w h where "COVERART_MIN_BYTES \<le> length data" "length data \<le> COVERART_MAX_BYTES"
        "crc32_bytes data \<noteq> sv_last_crc s" "ev_decode e data = Some (rgb, w, h)" "0 < w" "0 < h"
    by (cases "ev_decode e data") (fastforce simp: save_artwork_def Let_def not_less)+
  then show ?thesis
  proof cases
    case skip
    then show ?thesis using assms(2) by auto
  next
    case new
    obtain s' states pf where "save_artwork e data s = Some (1, s', states)" "image_saved data pf s s' \<or> image_not_saved cur s s'"
      using save_artwork_outcome [OF assms(1) cf new] by (metis (no_types))
    then show ?thesis
      using cf(2) image_not_saved_sel [of cur s s'] by (auto simp: saver_ok_def image_saved_def)
  qed
qed

lemma maybe_handle_image_total:
  assumes "env_ok e inflate" and "saver_ok s"
  shows "\<exists>r s' states. maybe_handle_image e data s = Some (r, s', states) \<and> saver_ok s'"
  using save_artwork_total [OF assms] assms(2) by (auto simp: maybe_handle_image_def)

section \<open>Properties\<close>


text \<open>An environment: a decoder for one pixel, a compressor that stores.\<close>

definition stored_zlib :: zlib where
  "stored_zlib = \<lparr> z_crc32 = (\<lambda>c bs. fold (\<lambda>b c. c + ucast b) bs c),
     z_bound = (\<lambda>n. n + n div 1000 + 12), z_compress = (\<lambda>raw. Some (0 # raw)) \<rparr>"

definition stored_inflate :: "bytes \<Rightarrow> bytes option" where
  "stored_inflate bs = (case bs of [] \<Rightarrow> None | b # raw \<Rightarrow> Some raw)"

definition one_pixel_env :: save_env where
  "one_pixel_env = \<lparr> ev_decode = (\<lambda>_. Some ([1, 2, 3], 1, 1)), ev_alloc = (\<lambda>n. Some (replicate n 0)),
     ev_zlib = stored_zlib, ev_kernel = (\<lambda>png. kernel_takes (int (length png))), ev_bus_alloc = (True, True, True) \<rparr>"

lemma one_pixel_env_ok: "env_ok one_pixel_env stored_inflate"
  by (auto simp: env_ok_def one_pixel_env_def alloc_ok_def zlib_ok_def stored_zlib_def stored_inflate_def kernel_takes_def)

definition blank_image :: bytes where "blank_image = replicate 500 0"

definition saver1 :: "u32 \<Rightarrow> saver" where
  "saver1 crc = \<lparr> sv_last_crc = crc, sv_images_found = 0, sv_slot = 1, sv_fs = one_cover [5], sv_bus = bus0 \<rparr>"


end
