(* ===== verification/Cover_Worker.thy ===== *)
theory Cover_Worker
  imports Cover_Save "HOL-Library.Sublist"
begin

text \<open>
  The cover worker of c_hook/coverart/coverart_hook.c as a transition system:
  readers hand images over, the worker takes and finishes them, coverart_fini
  stops it, in any interleaving.  A run keeps the images handed over and the
  images finished, in order.
\<close>

text \<open>The offsets stay as in the prelude.\<close>

declare One_nat_def [simp del] add_2_eq_Suc [simp del] add_2_eq_Suc' [simp del]

section \<open>Runs\<close>

inductive wrun :: "save_env \<Rightarrow> worker \<Rightarrow> bytes list \<Rightarrow> bytes list \<Rightarrow> worker \<Rightarrow> bool" for e w0 where
  start: "wrun e w0 [] [] w0"
| image: "wrun e w0 got finished w \<Longrightarrow> enqueue_image_async e data w = Some w' \<Longrightarrow> wrun e w0 (got @ [data]) finished w'"
| take: "wrun e w0 got finished w \<Longrightarrow> worker_take w = Some w' \<Longrightarrow> wrun e w0 got finished w'"
| finish: "wrun e w0 got finished w \<Longrightarrow> wk_busy w = Some data \<Longrightarrow> worker_finish e w = Some w' \<Longrightarrow>
    wrun e w0 got (finished @ [data]) w'"
| stop: "wrun e w0 got finished w \<Longrightarrow> wrun e w0 got finished (coverart_fini w)"

text \<open>A started worker with nothing to do.\<close>

definition worker_idle :: "worker \<Rightarrow> bool" where
  "worker_idle w \<longleftrightarrow> wk_started w \<and> wk_running w \<and> \<not> wk_shutdown w \<and> wk_pending w = None \<and> wk_busy w = None \<and> saver_ok (wk_saver w)"

definition opt_list :: "'a option \<Rightarrow> 'a list" where
  "opt_list x = (case x of None \<Rightarrow> [] | Some a \<Rightarrow> [a])"

lemma opt_list_simps [simp]: "opt_list None = []" "opt_list (Some a) = [a]"
  by (simp_all add: opt_list_def)

text \<open>The state after the images handled one after the other.\<close>

primrec handle_all :: "save_env \<Rightarrow> bytes list \<Rightarrow> saver \<Rightarrow> saver option" where
  "handle_all e [] = Some"
| "handle_all e (d # ds) = (\<lambda>s. case maybe_handle_image e d s of None \<Rightarrow> None | Some (r, s, states) \<Rightarrow> handle_all e ds s)"

lemma handle_all_append:
  "handle_all e (ds @ ds') s = (case handle_all e ds s of None \<Rightarrow> None | Some s \<Rightarrow> handle_all e ds' s)"
  by (induction ds arbitrary: s) (auto split: option.splits)

text \<open>Some of the images of ys, in their order.\<close>

definition in_order :: "'a list \<Rightarrow> 'a list \<Rightarrow> bool" where
  "in_order xs ys = subseq xs ys"

lemma in_order_Nil: "in_order [] ys"
  by (simp add: in_order_def)

lemma in_order_front: "in_order (xs @ ys) zs \<Longrightarrow> in_order xs zs"
  unfolding in_order_def by (rule subseq_order.trans [OF prefix_imp_subseq]) simp_all

lemma in_order_snoc: "in_order xs ys \<Longrightarrow> in_order (xs @ [d]) (ys @ [d])"
  unfolding in_order_def by (rule list_emb_append_mono) simp_all

definition ends_in :: "'a list \<Rightarrow> 'a \<Rightarrow> bool" where
  "ends_in xs y \<longleftrightarrow> xs \<noteq> [] \<and> last xs = y"

lemma ends_in_snoc: "ends_in (xs @ [d]) d"
  by (simp add: ends_in_def)

text \<open>The images the worker has still to handle.\<close>

definition work_left :: "worker \<Rightarrow> bytes list" where
  "work_left w = opt_list (wk_busy w) @ opt_list (wk_pending w)"

text \<open>What every run keeps.\<close>

definition run_inv :: "save_env \<Rightarrow> saver \<Rightarrow> bytes list \<Rightarrow> bytes list \<Rightarrow> worker \<Rightarrow> bool" where
  "run_inv e s0 got finished w \<longleftrightarrow> wk_started w \<and>
     in_order (finished @ work_left w) got \<and>
     (\<not> wk_shutdown w \<longrightarrow> wk_running w \<and>
        (got \<noteq> [] \<longrightarrow> ends_in (finished @ work_left w) (last got))) \<and>
     handle_all e finished s0 = Some (wk_saver w)"

lemma wrun_inv:
  assumes "worker_idle w0"
  shows "wrun e w0 got finished w \<Longrightarrow> run_inv e (wk_saver w0) got finished w"
proof (induction rule: wrun.induct)
  case start
  then show ?case using assms by (simp add: run_inv_def worker_idle_def in_order_Nil work_left_def)
next
  case (image got finished w data w')
  from image.IH have st: "wk_started w" and sub: "in_order (finished @ work_left w) got"
    and run: "\<not> wk_shutdown w \<longrightarrow> wk_running w" and h: "handle_all e finished (wk_saver w0) = Some (wk_saver w)"
    unfolding run_inv_def by blast+
  from image.hyps(2) st have w': "w' = w\<lparr> wk_pending := Some data \<rparr>" by (simp add: enqueue_image_async_def)
  define bs where "bs = finished @ opt_list (wk_busy w)"
  have bs: "finished @ work_left w = bs @ opt_list (wk_pending w)" "finished @ work_left w' = bs @ [data]"
    by (simp_all add: bs_def work_left_def w')
  have "in_order (bs @ [data]) (got @ [data])" by (rule in_order_snoc [OF in_order_front [OF sub [unfolded bs]]])
  then show ?case unfolding run_inv_def bs using st run h by (simp add: w' ends_in_snoc)
next
  case (take got finished w w')
  have same: "wk_shutdown w' = wk_shutdown w" "wk_started w' = wk_started w" "work_left w' = work_left w" "wk_saver w' = wk_saver w"
    "wk_running w' \<or> wk_shutdown w"
    using take.hyps(2) by (auto simp: worker_take_def work_left_def split: if_splits)
  show ?case using take.IH same(5) unfolding run_inv_def same by blast
next
  case (finish got finished w data w')
  then obtain r s states where m: "maybe_handle_image e data (wk_saver w) = Some (r, s, states)"
      "w' = w\<lparr> wk_busy := None, wk_saver := s \<rparr>"
    by (auto simp: worker_finish_def split: option.splits)
  have same: "wk_shutdown w' = wk_shutdown w" "wk_started w' = wk_started w" "wk_running w' = wk_running w"
    "(finished @ [data]) @ work_left w' = finished @ work_left w"
    using finish.hyps(2) by (simp_all add: m(2) work_left_def)
  have "handle_all e (finished @ [data]) (wk_saver w0) = Some (wk_saver w')"
    using finish.IH m by (simp add: run_inv_def handle_all_append)
  then show ?case using finish.IH unfolding run_inv_def same by blast
next
  case (stop got finished w)
  have sub: "in_order ((finished @ opt_list (wk_busy w)) @ opt_list (wk_pending w)) got"
    using stop.IH by (simp add: run_inv_def work_left_def)
  have w': "work_left (coverart_fini w) = opt_list (wk_busy w)" "wk_shutdown (coverart_fini w)"
    "wk_started (coverart_fini w) = wk_started w" "wk_saver (coverart_fini w) = wk_saver w"
    by (simp_all add: coverart_fini_def work_left_def)
  show ?case using stop.IH in_order_front [OF sub] w'(2) unfolding run_inv_def w'(1,3,4) by blast
qed

section \<open>The worker comes to rest\<close>

text \<open>Steps of the worker alone, with the images finished in them.\<close>

inductive wturn :: "save_env \<Rightarrow> worker \<Rightarrow> bytes list \<Rightarrow> worker \<Rightarrow> bool" for e where
  rest: "wturn e w [] w"
| takes: "worker_take w = Some w' \<Longrightarrow> wturn e w' ds w'' \<Longrightarrow> wturn e w ds w''"
| finishes: "wk_busy w = Some d \<Longrightarrow> worker_finish e w = Some w' \<Longrightarrow> wturn e w' ds w'' \<Longrightarrow> wturn e w (d # ds) w''"

lemma wturn_wrun: "wturn e w ds w' \<Longrightarrow> wrun e w0 got finished w \<Longrightarrow> wrun e w0 got (finished @ ds) w'"
proof (induction arbitrary: finished rule: wturn.induct)
  case (finishes w d w' ds w'')
  from finishes.IH [OF wrun.finish [OF finishes.prems finishes.hyps(1,2)]] show ?case by simp
qed (auto intro: wrun.take)

lemma finish_one:
  assumes "env_ok e inflate" and "saver_ok (wk_saver w)" and "wk_busy w = Some d"
  shows "\<exists>s. worker_finish e w = Some (w\<lparr> wk_busy := None, wk_saver := s \<rparr>) \<and> saver_ok s"
  using maybe_handle_image_total [OF assms(1,2), of d] assms(3) by (auto simp: worker_finish_def)

lemma take_one:
  assumes "wk_running w" and "\<not> wk_shutdown w" and "wk_busy w = None" and "wk_pending w = Some d"
  shows "worker_take w = Some (w\<lparr> wk_busy := Some d, wk_pending := None \<rparr>)"
  using assms by (simp add: worker_take_def)

lemma finish_pending:
  assumes "env_ok e inflate" and "saver_ok (wk_saver w)" and "wk_running w" and "\<not> wk_shutdown w" and "wk_busy w = None"
  shows "\<exists>w'. wturn e w (opt_list (wk_pending w)) w' \<and> wk_busy w' = None \<and> wk_pending w' = None \<and>
    wk_running w' \<and> \<not> wk_shutdown w' \<and> wk_started w' = wk_started w \<and> saver_ok (wk_saver w')"
proof (cases "wk_pending w")
  case None
  then show ?thesis using assms by (intro exI [of _ w]) (simp add: wturn.rest)
next
  case (Some d)
  let ?b = "w\<lparr> wk_busy := Some d, wk_pending := None \<rparr>"
  obtain s where s: "worker_finish e ?b = Some (?b\<lparr> wk_busy := None, wk_saver := s \<rparr>)" "saver_ok s"
    using finish_one [OF assms(1), of ?b d] assms(2) by auto
  have "wturn e ?b [d] (?b\<lparr> wk_busy := None, wk_saver := s \<rparr>)"
    by (rule wturn.finishes [OF _ s(1) wturn.rest]) simp
  then have "wturn e w [d] (?b\<lparr> wk_busy := None, wk_saver := s \<rparr>)"
    by (rule wturn.takes [OF take_one [OF assms(3-5) Some]])
  then show ?thesis using assms Some s(2) by (intro exI [of _ "?b\<lparr> wk_busy := None, wk_saver := s \<rparr>"]) simp
qed

lemma worker_comes_to_rest:
  assumes "env_ok e inflate" and "saver_ok (wk_saver w)" and "wk_running w" and "\<not> wk_shutdown w" and "wk_started w"
  shows "\<exists>w'. wturn e w (work_left w) w' \<and> worker_idle w'"
proof (cases "wk_busy w")
  case None
  then show ?thesis
    using finish_pending [OF assms(1-4) None] assms(5) unfolding work_left_def worker_idle_def by auto
next
  case (Some d)
  obtain s where s: "worker_finish e w = Some (w\<lparr> wk_busy := None, wk_saver := s \<rparr>)" "saver_ok s"
    using finish_one [OF assms(1,2) Some] by blast
  obtain w' where w': "wturn e (w\<lparr> wk_busy := None, wk_saver := s \<rparr>) (opt_list (wk_pending w)) w'"
      "wk_busy w' = None" "wk_pending w' = None" "wk_running w'" "\<not> wk_shutdown w'" "wk_started w'" "saver_ok (wk_saver w')"
    using finish_pending [OF assms(1), of "w\<lparr> wk_busy := None, wk_saver := s \<rparr>"] s(2) assms(3-5) by auto
  have "wturn e w (work_left w) w'"
    unfolding work_left_def Some using wturn.finishes [OF Some s(1) w'(1)] by simp
  then show ?thesis using w' by (auto simp: worker_idle_def)
qed

lemma wrun_saver_ok:
  assumes "worker_idle w0" and "env_ok e inflate"
  shows "wrun e w0 got finished w \<Longrightarrow> saver_ok (wk_saver w)"
proof (induction rule: wrun.induct)
  case start
  then show ?case using assms(1) by (simp add: worker_idle_def)
next
  case (image got finished w data w')
  have "wk_started w" using wrun_inv [OF assms(1) image.hyps(1)] unfolding run_inv_def by blast
  then show ?case using image by (auto simp: enqueue_image_async_def)
next
  case (take got finished w w')
  then show ?case by (auto simp: worker_take_def split: if_splits)
next
  case (finish got finished w data w')
  show ?case
    using finish_one [OF assms(2) finish.IH finish.hyps(2)] finish.hyps(3) by auto
next
  case (stop got finished w)
  then show ?case by (simp add: coverart_fini_def)
qed

section \<open>Properties\<close>

text \<open>Property C18. However images arrive while the worker works, the images it
  handles are handed over images in their order, and from every state before the
  shutdown the worker, left alone, comes to rest with the last image handed over
  as the last one it handled; the saved state is then the result of handling
  exactly these images one after the other.\<close>

theorem latest_image_wins:
  assumes "worker_idle w0" and "env_ok e inflate" and "wrun e w0 got finished w"
    and "\<not> wk_shutdown w" and "got \<noteq> []"
  shows "\<exists>ds w'. wturn e w ds w' \<and> worker_idle w' \<and> in_order (finished @ ds) got \<and> last (finished @ ds) = last got \<and>
    handle_all e (finished @ ds) (wk_saver w0) = Some (wk_saver w')"
proof -
  note inv = wrun_inv [OF assms(1,3), unfolded run_inv_def]
  have sub: "in_order (finished @ work_left w) got" using inv by blast
  obtain w' where w': "wturn e w (work_left w) w'" "worker_idle w'"
    using worker_comes_to_rest [OF assms(2) wrun_saver_ok [OF assms(1-3)]] inv assms(4) by blast
  have "wrun e w0 got (finished @ work_left w) w'" by (rule wturn_wrun [OF w'(1) assms(3)])
  from wrun_inv [OF assms(1) this]
  have "handle_all e (finished @ work_left w) (wk_saver w0) = Some (wk_saver w')" unfolding run_inv_def by blast
  moreover have "last (finished @ work_left w) = last got" using inv assms(4,5) by (simp add: ends_in_def)
  ultimately show ?thesis using w' sub by blast
qed

definition worker1 :: worker where
  "worker1 = \<lparr> wk_pending = None, wk_busy = None, wk_started = True, wk_shutdown = False, wk_running = True,
     wk_saver = saver1 0 \<rparr>"

lemma worker1_idle: "worker_idle worker1"
  using one_cover_ok(1) bus_ok_bus0 by (auto simp: worker_idle_def worker1_def saver_ok_def saver1_def)

text \<open>Two images arrive before the worker has taken the first.\<close>

lemma latest_image_wins_witness:
  "\<exists>ds w'. wturn one_pixel_env (worker1\<lparr> wk_pending := Some blank_image \<rparr>) ds w' \<and> worker_idle w' \<and> last ds = blank_image"
proof -
  let ?w = "worker1\<lparr> wk_pending := Some blank_image \<rparr>"
  have "enqueue_image_async one_pixel_env d worker1 = Some (worker1\<lparr> wk_pending := Some d \<rparr>)" for d
    by (simp add: enqueue_image_async_def worker1_def)
  then have one: "wrun one_pixel_env worker1 ([] @ [[0]]) [] (worker1\<lparr> wk_pending := Some [0] \<rparr>)"
    by (rule wrun.image [OF wrun.start])
  have "enqueue_image_async one_pixel_env blank_image (worker1\<lparr> wk_pending := Some [0] \<rparr>) = Some ?w"
    by (simp add: enqueue_image_async_def worker1_def)
  then have run: "wrun one_pixel_env worker1 (([] @ [[0]]) @ [blank_image]) [] ?w" by (rule wrun.image [OF one])
  have "\<not> wk_shutdown ?w" "([] @ [[0]]) @ [blank_image] \<noteq> []" by (simp_all add: worker1_def)
  then obtain ds w' where r: "wturn one_pixel_env ?w ds w'" "worker_idle w'"
      "last ([] @ ds) = last (([] @ [[0]]) @ [blank_image])"
    using latest_image_wins [OF worker1_idle one_pixel_env_ok run] by blast
  from r(3) have "last ds = blank_image" by simp
  then show ?thesis using r(1,2) by blast
qed

end
