(* ===== verification/Render_Server.thy ===== *)
theory Render_Server
  imports Common
begin

text \<open>
  The renderer's connection to the head unit: the packets of
  c_render/protocol.h and the TCP client of c_render/server.c (POSIX).  The
  kernel's answers to socket, connect, select, getsockopt, recv and send are
  arguments; the calls made are kept in a log.  The receive buffer is the
  512 byte array of the code with checked accesses.  A run is any interleaving
  of the operations the main loop calls.
\<close>

section \<open>Packets\<close>

definition CR_PKT_SIZE :: nat where "CR_PKT_SIZE = 48"

definition CMD_MANEUVER :: u8 where "CMD_MANEUVER = 0x01"
definition CMD_SCREENSHOT :: u8 where "CMD_SCREENSHOT = 0x02"
definition CMD_SHUTDOWN :: u8 where "CMD_SHUTDOWN = 0x03"
definition CMD_PERSPECTIVE :: u8 where "CMD_PERSPECTIVE = 0x04"
definition CMD_DEBUG :: u8 where "CMD_DEBUG = 0x05"
definition CMD_BARGRAPH :: u8 where "CMD_BARGRAPH = 0x06"
definition CMD_PRELOAD_MANEUVER :: u8 where "CMD_PRELOAD_MANEUVER = 0x07"
definition CMD_START_ANIMATION :: u8 where "CMD_START_ANIMATION = 0x08"
definition CMD_HIDE_DISPLAY :: u8 where "CMD_HIDE_DISPLAY = 0x09"
definition EVT_HEARTBEAT :: u8 where "EVT_HEARTBEAT = 0x80"
definition EVT_READY :: u8 where "EVT_READY = 0x81"
definition EVT_FRAME_READY :: u8 where "EVT_FRAME_READY = 0x82"

lemmas cmd_defs = CMD_MANEUVER_def CMD_SCREENSHOT_def CMD_SHUTDOWN_def CMD_PERSPECTIVE_def CMD_DEBUG_def
  CMD_BARGRAPH_def CMD_PRELOAD_MANEUVER_def CMD_START_ANIMATION_def CMD_HIDE_DISPLAY_def

record cr_cmd =
  c_cmd :: u8
  c_flags :: u8
  c_payload :: bytes

text \<open>The 48 bytes of a packet as the struct they are copied into, and the
  stream of packets.\<close>

definition pkt_of :: "bytes \<Rightarrow> cr_cmd" where
  "pkt_of bs = \<lparr> c_cmd = bs ! 0, c_flags = bs ! 1, c_payload = slice bs 2 46 \<rparr>"

definition pkt_bytes :: "cr_cmd \<Rightarrow> bytes" where
  "pkt_bytes c = c_cmd c # c_flags c # c_payload c"

definition pkt_ok :: "cr_cmd \<Rightarrow> bool" where
  "pkt_ok c \<longleftrightarrow> length (c_payload c) = 46"

definition pkt_dec :: "bytes \<Rightarrow> (cr_cmd \<times> bytes) option" where
  "pkt_dec bs = (if length bs < CR_PKT_SIZE then None else Some (pkt_of (take 48 bs), drop 48 bs))"

lemma length_pkt_bytes: "pkt_ok c \<Longrightarrow> length (pkt_bytes c) = 48"
  by (simp add: pkt_ok_def pkt_bytes_def)

lemma pkt_of_bytes: "pkt_ok c \<Longrightarrow> pkt_of (pkt_bytes c) = c"
  by (simp add: pkt_of_def pkt_bytes_def pkt_ok_def slice_def)

lemma pkt_of_ok: "length bs = 48 \<Longrightarrow> pkt_ok (pkt_of bs)"
  by (simp add: pkt_of_def pkt_ok_def)

lemma pkt_bytes_of:
  assumes "length bs = 48" shows "pkt_bytes (pkt_of bs) = bs"
proof -
  obtain a b r where "bs = a # b # r" "length r = 46"
    using assms by (cases bs; cases "tl bs") (simp_all add: Suc_eq_plus1)
  then show ?thesis by (simp add: pkt_bytes_def pkt_of_def slice_def)
qed

interpretation pkts: stream_codec pkt_bytes pkt_dec pkt_ok
proof
  fix c rest assume "pkt_ok c"
  then show "pkt_dec (pkt_bytes c @ rest) = Some (c, rest)"
    by (simp add: pkt_dec_def CR_PKT_SIZE_def length_pkt_bytes pkt_of_bytes)
next
  fix bs c r assume "pkt_dec bs = Some (c, r)"
  then show "length r < length bs" by (auto simp: pkt_dec_def CR_PKT_SIZE_def split: if_splits)
next
  fix bs c r x assume "pkt_dec bs = Some (c, r)"
  then show "pkt_dec (bs @ x) = Some (c, r @ x)" by (auto simp: pkt_dec_def CR_PKT_SIZE_def split: if_splits)
qed

section \<open>The connection\<close>

text \<open>The calls made on sockets, with the answer of send.\<close>

datatype sock_call = Opened int | Closed int | Sent int bytes int

text \<open>The globals of server.c; of the time of the last attempt only the
  seconds are read.\<close>

record server =
  g_server_fd :: int
  g_target_port :: int
  g_last_retry :: int
  g_recv_buf :: bytes
  g_recv_len :: nat
  g_ready_sent :: bool
  g_frame_ready_sent :: bool
  g_peer_closed :: bool
  srv_log :: "sock_call list"

definition RECV_BUF_SIZE :: nat where "RECV_BUF_SIZE = 512"
definition RETRY_INTERVAL_SEC :: int where "RETRY_INTERVAL_SEC = 1"

definition server0 :: server where
  "server0 = \<lparr> g_server_fd = - 1, g_target_port = 0, g_last_retry = 0, g_recv_buf = replicate RECV_BUF_SIZE 0,
     g_recv_len = 0, g_ready_sent = False, g_frame_ready_sent = False, g_peer_closed = False, srv_log = [] \<rparr>"

definition logged :: "sock_call \<Rightarrow> server \<Rightarrow> server" where
  "logged c s = s\<lparr> srv_log := srv_log s @ [c] \<rparr>"

text \<open>send_event: what send returns is not looked at.\<close>

definition send_event :: "u8 \<Rightarrow> int \<Rightarrow> server \<Rightarrow> server" where
  "send_event event_id r s =
     (if g_server_fd s < 0 then s
      else logged (Sent (g_server_fd s) (event_id # replicate 47 0) r) s)"

text \<open>The answers try_connect gets: the descriptor, the result of connect and
  whether errno is EINPROGRESS or EWOULDBLOCK, the result of select, and the
  result and value of getsockopt(SO_ERROR).\<close>

record conn_ans =
  ca_socket :: int
  ca_connect :: int
  ca_in_progress :: bool
  ca_select :: int
  ca_getsockopt :: int
  ca_soerr :: int

definition try_connect :: "conn_ans \<Rightarrow> server \<Rightarrow> int \<times> server" where
  "try_connect a s =
     (let fd = ca_socket a in
      if fd < 0 then (- 1, s)
      else let s = logged (Opened fd) s in
        if ca_connect a < 0 \<and> \<not> ca_in_progress a then (- 1, logged (Closed fd) s)
        else if ca_connect a < 0 then
          (if ca_select a \<le> 0 then (- 1, logged (Closed fd) s)
           else if ca_getsockopt a < 0 \<or> ca_soerr a \<noteq> 0 then (- 1, logged (Closed fd) s)
           else (fd, s))
        else (fd, s))"

definition cr_server_init :: "int \<Rightarrow> conn_ans \<Rightarrow> server \<Rightarrow> int \<times> server" where
  "cr_server_init port a s =
     (let (fd, s) = try_connect a (s\<lparr> g_target_port := port \<rparr>)
      in (0, s\<lparr> g_server_fd := fd, g_recv_len := 0 \<rparr>))"

text \<open>recv: the bytes received (none when the peer closed), or an error with
  whether errno is EAGAIN or EWOULDBLOCK.\<close>

datatype recv_ans = Received bytes | Recv_Error bool

record poll_ans =
  pa_now :: int
  pa_conn :: conn_ans
  pa_send_ready :: int
  pa_send_frame :: int
  pa_recv :: recv_ans

text \<open>The two halves of cr_server_poll.\<close>

definition reconnect :: "poll_ans \<Rightarrow> server \<Rightarrow> server" where
  "reconnect p s =
     (if g_server_fd s < 0 \<and> g_target_port s > 0 \<and> pa_now p - g_last_retry s \<ge> RETRY_INTERVAL_SEC
      then let (fd, s) = try_connect (pa_conn p) (s\<lparr> g_last_retry := pa_now p \<rparr>);
               s = s\<lparr> g_server_fd := fd \<rparr>
           in if fd \<ge> 0
              then let s = s\<lparr> g_recv_len := 0 \<rparr>;
                       s = (if g_ready_sent s then send_event EVT_READY (pa_send_ready p) s else s)
                   in if g_frame_ready_sent s then send_event EVT_FRAME_READY (pa_send_frame p) s else s
              else s
      else s)"

definition drop_connection :: "server \<Rightarrow> server" where
  "drop_connection s = (logged (Closed (g_server_fd s)) s)\<lparr> g_server_fd := - 1, g_recv_len := 0 \<rparr>"

definition receive :: "poll_ans \<Rightarrow> server \<Rightarrow> server option" where
  "receive p s =
     (if g_server_fd s \<ge> 0 \<and> RECV_BUF_SIZE - g_recv_len s > 0
      then (case pa_recv p of
          Received bs \<Rightarrow>
            if bs \<noteq> []
            then do { b \<leftarrow> wr_mem (g_recv_buf s) (g_recv_len s) bs;
                      Some (s\<lparr> g_recv_buf := b, g_recv_len := g_recv_len s + length bs \<rparr>) }
            else Some ((drop_connection s)\<lparr> g_peer_closed := True \<rparr>)
        | Recv_Error again \<Rightarrow> Some (if again then s else drop_connection s))
      else Some s)"

definition cr_server_poll :: "poll_ans \<Rightarrow> server \<Rightarrow> server option" where
  "cr_server_poll p s = receive p (reconnect p s)"

definition cr_server_read_cmd :: "server \<Rightarrow> (cr_cmd option \<times> server) option" where
  "cr_server_read_cmd s =
     (if g_recv_len s < CR_PKT_SIZE then Some (None, s)
      else do {
        pkt \<leftarrow> rd_mem (g_recv_buf s) 0 CR_PKT_SIZE;
        let len = g_recv_len s - CR_PKT_SIZE;
        b \<leftarrow> (if len > 0
              then do { m \<leftarrow> rd_mem (g_recv_buf s) CR_PKT_SIZE len; wr_mem (g_recv_buf s) 0 m }
              else Some (g_recv_buf s));
        Some (Some (pkt_of pkt), s\<lparr> g_recv_buf := b, g_recv_len := len \<rparr>) })"

definition cr_server_send_heartbeat :: "int \<Rightarrow> server \<Rightarrow> server" where
  "cr_server_send_heartbeat r s = send_event EVT_HEARTBEAT r s"

definition cr_server_mark_ready :: "int \<Rightarrow> server \<Rightarrow> server" where
  "cr_server_mark_ready r s = send_event EVT_READY r (s\<lparr> g_ready_sent := True \<rparr>)"

definition cr_server_mark_frame_ready :: "int \<Rightarrow> server \<Rightarrow> server" where
  "cr_server_mark_frame_ready r s = send_event EVT_FRAME_READY r (s\<lparr> g_frame_ready_sent := True \<rparr>)"

definition cr_server_shutdown :: "server \<Rightarrow> server" where
  "cr_server_shutdown s =
     (let s = (if g_server_fd s \<ge> 0 then (logged (Closed (g_server_fd s)) s)\<lparr> g_server_fd := - 1 \<rparr> else s)
      in s\<lparr> g_recv_len := 0 \<rparr>)"

text \<open>The drain of the main loop, the commands it reads in order.\<close>

lemma read_cmd_shrinks: "cr_server_read_cmd s = Some (Some c, s') \<Longrightarrow> g_recv_len s' < g_recv_len s"
  by (auto simp: cr_server_read_cmd_def CR_PKT_SIZE_def Let_def split: if_splits bind_splits)

function read_cmds :: "server \<Rightarrow> (cr_cmd list \<times> server) option" where
  "read_cmds s = (case cr_server_read_cmd s of
     None \<Rightarrow> None
   | Some (None, s') \<Rightarrow> Some ([], s')
   | Some (Some c, s') \<Rightarrow> (case read_cmds s' of None \<Rightarrow> None | Some (cs, s'') \<Rightarrow> Some (c # cs, s'')))"
  by pat_completeness auto
termination by (relation "measure g_recv_len") (auto dest: read_cmd_shrinks)

declare read_cmds.simps [simp del]

section \<open>The buffer is the end of the stream\<close>

definition pending :: "server \<Rightarrow> bytes" where
  "pending s = take (g_recv_len s) (g_recv_buf s)"

definition srv_ok :: "server \<Rightarrow> bool" where
  "srv_ok s \<longleftrightarrow> length (g_recv_buf s) = RECV_BUF_SIZE \<and> g_recv_len s \<le> RECV_BUF_SIZE"

lemma length_pending [simp]: "srv_ok s \<Longrightarrow> length (pending s) = g_recv_len s"
  by (simp add: srv_ok_def pending_def)

text \<open>What reading and receiving leave alone.\<close>

definition same_conn :: "server \<Rightarrow> server \<Rightarrow> bool" where
  "same_conn s s' \<longleftrightarrow> g_server_fd s' = g_server_fd s \<and> g_target_port s' = g_target_port s \<and> g_last_retry s' = g_last_retry s \<and>
     g_ready_sent s' = g_ready_sent s \<and> g_frame_ready_sent s' = g_frame_ready_sent s \<and>
     g_peer_closed s' = g_peer_closed s \<and> srv_log s' = srv_log s"

lemma same_conn_refl [simp]: "same_conn s s"
  by (simp add: same_conn_def)

lemma same_conn_trans: "same_conn a b \<Longrightarrow> same_conn b c \<Longrightarrow> same_conn a c"
  by (simp add: same_conn_def)

lemma read_cmd_None:
  "srv_ok s \<Longrightarrow> pkt_dec (pending s) = None \<Longrightarrow> cr_server_read_cmd s = Some (None, s)"
  by (simp add: pkt_dec_def cr_server_read_cmd_def split: if_splits)

lemma read_cmd_Some:
  assumes "srv_ok s" and "pkt_dec (pending s) = Some (c, r)"
  shows "\<exists>s'. cr_server_read_cmd s = Some (Some c, s') \<and> srv_ok s' \<and> pending s' = r \<and> same_conn s s'"
proof -
  let ?b = "g_recv_buf s" and ?n = "g_recv_len s - 48"
  have n: "48 \<le> g_recv_len s" "length ?b = 512" "g_recv_len s \<le> 512"
    and c: "c = pkt_of (take 48 (pending s))" and r: "r = drop 48 (pending s)"
    using assms by (auto simp: pkt_dec_def CR_PKT_SIZE_def srv_ok_def RECV_BUF_SIZE_def split: if_splits)
  have pkt: "slice ?b 0 48 = take 48 (pending s)"
    using n by (simp add: slice_def pending_def)
  have rest: "slice ?b 48 ?n = r"
    using n by (simp add: slice_def pending_def r take_drop add.commute)
  define b where "b = (if 0 < ?n then patch ?b 0 (slice ?b 48 ?n) else ?b)"
  have lr: "length r = ?n" using n by (simp add: r pending_def)
  have le: "?n \<le> 512" using n(3) by linarith
  have b: "length b = 512" "take ?n b = r"
    unfolding b_def patch_at_0 rest using n(2) lr le by auto
  have "cr_server_read_cmd s = Some (Some c, s\<lparr> g_recv_buf := b, g_recv_len := ?n \<rparr>)"
    using n le by (simp add: cr_server_read_cmd_def CR_PKT_SIZE_def Let_def rd_mem_def wr_mem_def b_def c pkt)
  then show ?thesis using b le by (simp add: srv_ok_def RECV_BUF_SIZE_def pending_def same_conn_def)
qed

lemma read_cmds_all:
  "srv_ok s \<Longrightarrow> \<exists>s'. read_cmds s = Some (fst (dec_all pkt_dec (pending s)), s') \<and>
    pending s' = snd (dec_all pkt_dec (pending s)) \<and> srv_ok s' \<and> same_conn s s'"
proof (induction "g_recv_len s" arbitrary: s rule: less_induct)
  case less
  show ?case
  proof (cases "pkt_dec (pending s)")
    case None
    then show ?thesis
      using less.prems by (simp add: read_cmds.simps [of s] read_cmd_None pkts.dec_all_Nil_rest)
  next
    case (Some p)
    obtain c r where p: "p = (c, r)" by (cases p)
    from read_cmd_Some [OF less.prems Some [unfolded p]] obtain s' where
      s': "cr_server_read_cmd s = Some (Some c, s')" "srv_ok s'" "pending s' = r" "same_conn s s'" by blast
    from less.hyps [OF read_cmd_shrinks [OF s'(1)] s'(2)] obtain s'' where
      s'': "read_cmds s' = Some (fst (dec_all pkt_dec r), s'')" "pending s'' = snd (dec_all pkt_dec r)"
        "srv_ok s''" "same_conn s' s''" unfolding s'(3) by blast
    show ?thesis
      unfolding pkts.dec_all_Cons [OF Some [unfolded p]]
      using s'(1) s'' same_conn_trans [OF s'(4) s''(4)] by (simp add: read_cmds.simps [of s])
  qed
qed

lemma snd_dec_all_short: "length (snd (dec_all pkt_dec bs)) < 48"
proof (induction bs rule: length_induct)
  case (1 bs)
  show ?case
  proof (cases "pkt_dec bs")
    case None
    then show ?thesis by (simp add: pkts.dec_all_Nil_rest) (simp add: pkt_dec_def CR_PKT_SIZE_def split: if_splits)
  next
    case (Some p)
    then obtain c r where p: "pkt_dec bs = Some (c, r)" by (cases p) simp
    show ?thesis using 1 pkts.dec_shrinks [OF p] by (simp add: pkts.dec_all_Cons [OF p])
  qed
qed

text \<open>The packets of a stream are the stream, but for the bytes left over.\<close>

lemma dec_all_bytes: "concat (map pkt_bytes (fst (dec_all pkt_dec bs))) @ snd (dec_all pkt_dec bs) = bs"
proof (induction bs rule: length_induct)
  case (1 bs)
  show ?case
  proof (cases "pkt_dec bs")
    case None
    then show ?thesis by (simp add: pkts.dec_all_Nil_rest)
  next
    case (Some p)
    then obtain c r where p: "pkt_dec bs = Some (c, r)" by (cases p) simp
    then have "pkt_bytes c @ r = bs"
      by (auto simp: pkt_dec_def CR_PKT_SIZE_def pkt_bytes_of split: if_splits)
    moreover have "length r < length bs" using pkts.dec_shrinks [OF p] .
    ultimately show ?thesis using 1 by (simp add: pkts.dec_all_Cons [OF p])
  qed
qed

section \<open>Polling\<close>

lemma receive_bytes:
  assumes "srv_ok s" and "g_server_fd s \<ge> 0" and "g_recv_len s < RECV_BUF_SIZE"
    and "pa_recv p = Received bs" and "bs \<noteq> []" and "length bs \<le> RECV_BUF_SIZE - g_recv_len s"
  shows "\<exists>s'. receive p s = Some s' \<and> srv_ok s' \<and> pending s' = pending s @ bs \<and> same_conn s s'"
proof -
  let ?b = "patch (g_recv_buf s) (g_recv_len s) bs"
  have n: "length (g_recv_buf s) = 512" "g_recv_len s + length bs \<le> 512" "g_recv_len s \<le> 512"
    using assms(1,6) assms(3) by (simp_all add: srv_ok_def RECV_BUF_SIZE_def)
  have "receive p s = Some (s\<lparr> g_recv_buf := ?b, g_recv_len := g_recv_len s + length bs \<rparr>)"
    using assms n by (simp add: receive_def wr_mem_def)
  moreover have "take (g_recv_len s + length bs) ?b = pending s @ bs"
    using n by (simp add: patch_def pending_def)
  ultimately show ?thesis
    using n by (simp add: srv_ok_def RECV_BUF_SIZE_def pending_def same_conn_def)
qed

text \<open>What recv promises: at most as many bytes as there is space.\<close>

definition recv_fits :: "poll_ans \<Rightarrow> server \<Rightarrow> bool" where
  "recv_fits p s \<longleftrightarrow> (case pa_recv p of Received bs \<Rightarrow> length bs \<le> RECV_BUF_SIZE - g_recv_len s | Recv_Error a \<Rightarrow> True)"

text \<open>The bytes a call of receive takes from the connection.\<close>

definition taken :: "poll_ans \<Rightarrow> server \<Rightarrow> bytes" where
  "taken p s = (if g_server_fd s \<ge> 0 \<and> g_recv_len s < RECV_BUF_SIZE
     then (case pa_recv p of Received bs \<Rightarrow> bs | Recv_Error a \<Rightarrow> []) else [])"

section \<open>Runs\<close>

text \<open>Any interleaving of the operations, with the bytes received on the
  current connection and the packets read from it.\<close>

inductive srv_run :: "int \<Rightarrow> bytes \<Rightarrow> cr_cmd list \<Rightarrow> server \<Rightarrow> bool" for port where
  init: "cr_server_init port a server0 = (r, s) \<Longrightarrow> srv_run port [] [] s"
| poll: "srv_run port got cmds s \<Longrightarrow> recv_fits p (reconnect p s) \<Longrightarrow> cr_server_poll p s = Some s' \<Longrightarrow>
    srv_run port ((if g_server_fd s < 0 then [] else got) @ taken p (reconnect p s))
      (if g_server_fd s < 0 then [] else cmds) s'"
| read: "srv_run port got cmds s \<Longrightarrow> cr_server_read_cmd s = Some (Some c, s') \<Longrightarrow> srv_run port got (cmds @ [c]) s'"
| beat: "srv_run port got cmds s \<Longrightarrow> srv_run port got cmds (cr_server_send_heartbeat r s)"
| ready: "srv_run port got cmds s \<Longrightarrow> srv_run port got cmds (cr_server_mark_ready r s)"
| frame: "srv_run port got cmds s \<Longrightarrow> srv_run port got cmds (cr_server_mark_frame_ready r s)"

text \<open>The descriptors opened and not closed after a log of calls.\<close>

fun fd_step :: "sock_call \<Rightarrow> int list \<Rightarrow> int list" where
  "fd_step (Opened fd) ds = fd # ds"
| "fd_step (Closed fd) ds = remove1 fd ds"
| "fd_step (Sent fd bs r) ds = ds"

definition open_fds :: "sock_call list \<Rightarrow> int list" where
  "open_fds cs = fold fd_step cs []"

lemma open_fds_logged [simp]: "open_fds (srv_log (logged c s)) = fd_step c (open_fds (srv_log s))"
  by (simp add: open_fds_def logged_def)

definition srv_inv :: "bytes \<Rightarrow> cr_cmd list \<Rightarrow> server \<Rightarrow> bool" where
  "srv_inv got cmds s \<longleftrightarrow> srv_ok s \<and>
     open_fds (srv_log s) = (if g_server_fd s < 0 then [] else [g_server_fd s]) \<and>
     (g_server_fd s < 0 \<longrightarrow> g_recv_len s = 0) \<and> list_all pkt_ok cmds \<and>
     (0 \<le> g_server_fd s \<longrightarrow> got = concat (map pkt_bytes cmds) @ pending s)"

lemma logged_fields [simp]:
  "g_server_fd (logged c s) = g_server_fd s" "g_target_port (logged c s) = g_target_port s"
  "g_recv_buf (logged c s) = g_recv_buf s" "g_recv_len (logged c s) = g_recv_len s"
  "g_ready_sent (logged c s) = g_ready_sent s" "g_frame_ready_sent (logged c s) = g_frame_ready_sent s"
  "g_last_retry (logged c s) = g_last_retry s" "g_peer_closed (logged c s) = g_peer_closed s"
  by (simp_all add: logged_def)

text \<open>try_connect touches only the log, and keeps only the descriptor it returns.\<close>

lemma try_connect_effect:
  assumes "try_connect a s = (fd, s')"
  shows "\<exists>l. s' = s\<lparr> srv_log := l \<rparr> \<and>
    open_fds l = (if fd < 0 then open_fds (srv_log s) else fd # open_fds (srv_log s))"
proof -
  have "s' = s\<lparr> srv_log := srv_log s' \<rparr>"
    "open_fds (srv_log s') = (if fd < 0 then open_fds (srv_log s) else fd # open_fds (srv_log s))"
    using assms by (auto simp: try_connect_def Let_def logged_def open_fds_def split: if_splits)
  then show ?thesis by blast
qed

lemma send_event_inv: "srv_inv got cmds s \<Longrightarrow> srv_inv got cmds (send_event e r s)"
  by (simp add: send_event_def srv_inv_def srv_ok_def pending_def)

lemma srv_inv_flags [simp]:
  "srv_inv got cmds (s\<lparr> g_ready_sent := x \<rparr>) = srv_inv got cmds s"
  "srv_inv got cmds (s\<lparr> g_frame_ready_sent := x \<rparr>) = srv_inv got cmds s"
  "srv_inv got cmds (s\<lparr> g_last_retry := t \<rparr>) = srv_inv got cmds s"
  "srv_inv got cmds (s\<lparr> g_target_port := port \<rparr>) = srv_inv got cmds s"
  "srv_inv got cmds (s\<lparr> g_peer_closed := x \<rparr>) = srv_inv got cmds s"
  by (simp_all add: srv_inv_def srv_ok_def pending_def)

text \<open>A new connection, or none, from a state without one.\<close>

lemma connect_inv:
  assumes "srv_inv got cmds s" and "g_server_fd s < 0" and "try_connect a s = (fd, s')"
  shows "srv_inv [] [] (s'\<lparr> g_server_fd := fd, g_recv_len := 0 \<rparr>)"
    and "fd < 0 \<Longrightarrow> srv_inv [] [] (s'\<lparr> g_server_fd := fd \<rparr>)"
  using try_connect_effect [OF assms(3)] assms(1,2) by (auto simp: srv_inv_def srv_ok_def pending_def)

lemma reconnect_inv:
  assumes "srv_inv got cmds s"
  shows "srv_inv (if g_server_fd s < 0 then [] else got) (if g_server_fd s < 0 then [] else cmds) (reconnect p s)"
proof (cases "g_server_fd s < 0 \<and> g_target_port s > 0 \<and> pa_now p - g_last_retry s \<ge> RETRY_INTERVAL_SEC")
  case True
  obtain fd s' where c: "try_connect (pa_conn p) (s\<lparr> g_last_retry := pa_now p \<rparr>) = (fd, s')"
    by fastforce
  have inv: "srv_inv got cmds (s\<lparr> g_last_retry := pa_now p \<rparr>)" "g_server_fd (s\<lparr> g_last_retry := pa_now p \<rparr>) < 0"
    using assms True by simp_all
  show ?thesis
    unfolding reconnect_def if_P [OF True] c Let_def split
    using connect_inv [OF inv c] True by (auto intro!: send_event_inv)
next
  case False
  then show ?thesis using assms by (auto simp: reconnect_def if_not_P [OF False] srv_inv_def)
qed

lemma drop_connection_inv: "srv_inv got cmds s \<Longrightarrow> 0 \<le> g_server_fd s \<Longrightarrow> srv_inv got' cmds (drop_connection s)"
  by (simp add: srv_inv_def srv_ok_def drop_connection_def)

lemma receive_inv:
  assumes "srv_inv got cmds s" and "recv_fits p s"
  shows "\<exists>s'. receive p s = Some s' \<and> srv_inv (got @ taken p s) cmds s'"
proof (cases "g_server_fd s \<ge> 0 \<and> g_recv_len s < RECV_BUF_SIZE")
  case True
  show ?thesis
  proof (cases "\<exists>bs. pa_recv p = Received bs \<and> bs \<noteq> []")
    case r: True
    then obtain bs where bs: "pa_recv p = Received bs" "bs \<noteq> []" by blast
    have "srv_ok s" "length bs \<le> RECV_BUF_SIZE - g_recv_len s"
      using assms bs by (simp_all add: srv_inv_def recv_fits_def)
    from receive_bytes [OF this(1) _ _ bs this(2)] True obtain s' where
      s': "receive p s = Some s'" "srv_ok s'" "pending s' = pending s @ bs" "same_conn s s'" by blast
    have "srv_inv (got @ taken p s) cmds s'"
      using assms(1) s' True bs by (simp add: srv_inv_def taken_def same_conn_def)
    then show ?thesis using s'(1) by blast
  next
    case False
    show ?thesis
      using False True assms(1) drop_connection_inv [OF assms(1), of "got @ taken p s"]
      by (cases "pa_recv p") (auto simp: receive_def taken_def)
  qed
next
  case False
  then have "receive p s = Some s" "taken p s = []"
    by (auto simp: receive_def taken_def)
  then show ?thesis using assms(1) by simp
qed

lemma read_inv:
  assumes "srv_inv got cmds s" and "cr_server_read_cmd s = Some (Some c, s')"
  shows "srv_inv got (cmds @ [c]) s'"
proof -
  have ok: "srv_ok s" using assms(1) by (simp add: srv_inv_def)
  obtain r where d: "pkt_dec (pending s) = Some (c, r)" and s': "srv_ok s'" "pending s' = r" "same_conn s s'"
  proof (cases "pkt_dec (pending s)")
    case None
    then show ?thesis using read_cmd_None [OF ok None] assms(2) by simp
  next
    case (Some p)
    obtain c' r where p: "p = (c', r)" by (cases p)
    show ?thesis using read_cmd_Some [OF ok Some [unfolded p]] assms(2) that Some p by auto
  qed
  have dd: "48 \<le> length (pending s)" "c = pkt_of (take 48 (pending s))" "r = drop 48 (pending s)"
    using d by (auto simp: pkt_dec_def CR_PKT_SIZE_def split: if_splits)
  then have "pkt_ok c" "pending s = pkt_bytes c @ r"
    by (simp_all add: pkt_of_ok pkt_bytes_of)
  moreover have "0 \<le> g_server_fd s"
    using assms(1) dd(1) ok by (cases "g_server_fd s < 0") (simp_all add: srv_inv_def)
  ultimately show ?thesis using assms(1) s' by (simp add: srv_inv_def same_conn_def)
qed

lemma srv_run_inv: "srv_run port got cmds s \<Longrightarrow> srv_inv got cmds s"
proof (induction rule: srv_run.induct)
  case (init a r s)
  have "srv_inv [] [] (server0\<lparr> g_target_port := port \<rparr>)"
    by (simp add: srv_inv_def srv_ok_def server0_def pending_def open_fds_def)
  moreover obtain fd s' where c: "try_connect a (server0\<lparr> g_target_port := port \<rparr>) = (fd, s')" by fastforce
  ultimately show ?case
    using connect_inv(1) [OF _ _ c] init by (auto simp: cr_server_init_def c server0_def)
next
  case (poll got cmds s p s')
  then show ?case using receive_inv [OF reconnect_inv [OF poll.IH] poll.hyps(2)] by (auto simp: cr_server_poll_def)
next
  case (read got cmds s c s')
  then show ?case by (blast intro: read_inv)
qed (simp_all add: cr_server_send_heartbeat_def cr_server_mark_ready_def cr_server_mark_frame_ready_def send_event_inv)

section \<open>Properties\<close>

text \<open>Property C11. However the operations of the connection interleave and
  whatever the kernel answers, polling and draining stay inside the receive
  buffer, the packets read from a connection are its bytes cut every 48, in
  order and without loss, however recv cut them up, and less than one packet is
  left behind; at most the current descriptor is open.\<close>

theorem commands_framed:
  assumes "srv_run port got cmds s"
  shows "(\<forall>p. recv_fits p (reconnect p s) \<longrightarrow> cr_server_poll p s \<noteq> None) \<and>
    open_fds (srv_log s) = (if g_server_fd s < 0 then [] else [g_server_fd s]) \<and>
    (\<exists>cs s'. read_cmds s = Some (cs, s') \<and> g_recv_len s' < CR_PKT_SIZE \<and>
      (g_server_fd s \<ge> 0 \<longrightarrow> (cmds @ cs, pending s') = dec_all pkt_dec got \<and>
         concat (map pkt_bytes (cmds @ cs)) @ pending s' = got))"
proof -
  note inv = srv_run_inv [OF assms]
  have ok: "srv_ok s" using inv by (simp add: srv_inv_def)
  obtain s' where s': "read_cmds s = Some (fst (dec_all pkt_dec (pending s)), s')"
      "pending s' = snd (dec_all pkt_dec (pending s))" "srv_ok s'"
    using read_cmds_all [OF ok] by blast
  have short: "g_recv_len s' < CR_PKT_SIZE"
    using snd_dec_all_short [of "pending s"] length_pending [OF s'(3)] by (simp add: s'(2) CR_PKT_SIZE_def)
  have all: "(cmds @ fst (dec_all pkt_dec (pending s)), pending s') = dec_all pkt_dec got" if "g_server_fd s \<ge> 0"
    using inv that pkts.dec_all_enc_app [of cmds "pending s"] by (simp add: srv_inv_def s'(2))
  have poll: "cr_server_poll p s \<noteq> None" if "recv_fits p (reconnect p s)" for p
    using receive_inv [OF reconnect_inv [OF inv] that] by (auto simp: cr_server_poll_def)
  have "concat (map pkt_bytes (cmds @ fst (dec_all pkt_dec (pending s)))) @ pending s' = got" if "g_server_fd s \<ge> 0"
    using dec_all_bytes [of got] unfolding all [OF that, symmetric] by simp
  then show ?thesis using s'(1) short all poll inv unfolding srv_inv_def by blast
qed

definition answers1 :: conn_ans where
  "answers1 = \<lparr> ca_socket = 3, ca_connect = 0, ca_in_progress = False, ca_select = 0, ca_getsockopt = 0, ca_soerr = 0 \<rparr>"

definition poll1 :: "bytes \<Rightarrow> poll_ans" where
  "poll1 bs = \<lparr> pa_now = 100, pa_conn = answers1, pa_send_ready = 48, pa_send_frame = 48, pa_recv = Received bs \<rparr>"

text \<open>Fifty bytes arrive in one piece: a heartbeat packet's worth and two bytes.\<close>

lemma commands_framed_witness:
  "\<exists>s cs s'. srv_run 19800 (replicate 48 6 @ [6, 6]) [] s \<and> read_cmds s = Some (cs, s') \<and> pending s' = [6, 6] \<and>
    concat (map pkt_bytes cs) = replicate 48 6"
proof -
  define s where "s = snd (cr_server_init 19800 answers1 server0)"
  have fields: "g_server_fd s = 3" "g_recv_len s = 0" "g_recv_buf s = replicate 512 0"
    by (simp_all add: s_def cr_server_init_def try_connect_def answers1_def server0_def RECV_BUF_SIZE_def Let_def)
  have run0: "srv_run 19800 [] [] s" by (rule srv_run.init [of _ answers1 0]) (simp add: s_def cr_server_init_def split_def Let_def)
  have r: "reconnect (poll1 (replicate 48 6 @ [6, 6])) s = s" by (simp add: reconnect_def fields)
  have fits: "recv_fits (poll1 (replicate 48 6 @ [6, 6])) s"
    by (simp add: recv_fits_def poll1_def fields RECV_BUF_SIZE_def)
  have taken: "taken (poll1 (replicate 48 6 @ [6, 6])) s = replicate 48 6 @ [6, 6]"
    by (simp add: taken_def fields poll1_def RECV_BUF_SIZE_def)
  have "srv_ok s" "pa_recv (poll1 (replicate 48 6 @ [6, 6])) = Received (replicate 48 6 @ [6, 6])"
    by (simp_all add: srv_ok_def fields RECV_BUF_SIZE_def poll1_def)
  then obtain t where t: "receive (poll1 (replicate 48 6 @ [6, 6])) s = Some t" "same_conn s t"
    using receive_bytes [of s "poll1 (replicate 48 6 @ [6, 6])" "replicate 48 6 @ [6, 6]"] by (auto simp: fields RECV_BUF_SIZE_def)
  have fd: "g_server_fd t = 3" using t(2) by (simp add: same_conn_def fields)
  have "cr_server_poll (poll1 (replicate 48 6 @ [6, 6])) s = Some t" by (simp add: cr_server_poll_def r t(1))
  from srv_run.poll [OF run0 _ this] have run: "srv_run 19800 (replicate 48 6 @ [6, 6]) [] t"
    by (simp add: r fits taken)
  obtain cs s' where c: "read_cmds t = Some (cs, s')" "g_recv_len s' < CR_PKT_SIZE"
      "(cs, pending s') = dec_all pkt_dec (replicate 48 6 @ [6, 6])" "concat (map pkt_bytes (cs)) @ pending s' = replicate 48 6 @ [6, 6]"
    using commands_framed [OF run] fd by auto
  have "pkt_dec (replicate 48 6 @ [6, 6]) = Some (pkt_of (replicate 48 6), [6, 6])"
    by (simp add: pkt_dec_def CR_PKT_SIZE_def)
  then have p: "pending s' = [6, 6]"
    using c(3) by (simp add: pkts.dec_all_Cons pkts.dec_all_Nil_rest pkt_dec_def CR_PKT_SIZE_def)
  then have "concat (map pkt_bytes cs) @ [6, 6] = replicate 48 6 @ [6, 6]" using c(4) by simp
  then have "concat (map pkt_bytes cs) = replicate 48 6" by (simp only: append_same_eq)
  then show ?thesis using run c(1) p by blast
qed

text \<open>A lost connection is attempted again at most once a second,
  without any call in between; a new connection starts with an empty buffer and
  is first sent READY and FRAME_READY, each exactly if it was announced before,
  and a failed attempt leaves no descriptor open.\<close>

theorem reconnect_replays_events:
  assumes "g_server_fd s < 0" and "0 < g_target_port s"
  shows "reconnect p s =
    (if pa_now p - g_last_retry s < 1 then s
     else let (fd, s1) = try_connect (pa_conn p) s in
       if fd < 0 then s1\<lparr> g_last_retry := pa_now p, g_server_fd := fd \<rparr>
       else s1\<lparr> g_last_retry := pa_now p, g_server_fd := fd, g_recv_len := 0,
           srv_log := srv_log s @ [Opened fd] @
             (if g_ready_sent s then [Sent fd (EVT_READY # replicate 47 0) (pa_send_ready p)] else []) @
             (if g_frame_ready_sent s then [Sent fd (EVT_FRAME_READY # replicate 47 0) (pa_send_frame p)] else []) \<rparr>) \<and>
    (fst (try_connect (pa_conn p) s) < 0 \<longrightarrow> open_fds (srv_log (snd (try_connect (pa_conn p) s))) = open_fds (srv_log s))"
proof -
  have "fst (try_connect (pa_conn p) s) < 0 \<longrightarrow> open_fds (srv_log (snd (try_connect (pa_conn p) s))) = open_fds (srv_log s)"
    using try_connect_effect [of "pa_conn p" s] by (cases "try_connect (pa_conn p) s") auto
  then show ?thesis
    using assms by (auto simp: reconnect_def RETRY_INTERVAL_SEC_def try_connect_def Let_def logged_def send_event_def split: if_splits)
qed

lemma reconnect_replays_events_witness:
  "srv_log (reconnect (poll1 []) (server0\<lparr> g_target_port := 19800, g_ready_sent := True \<rparr>)) =
    [Opened 3, Sent 3 (EVT_READY # replicate 47 0) 48]"
  using reconnect_replays_events [of "server0\<lparr> g_target_port := 19800, g_ready_sent := True \<rparr>" "poll1 []"]
  by (simp add: server0_def poll1_def try_connect_def answers1_def logged_def Let_def)

end
