(* ===== verification/Render_Engine.thy ===== *)
theory Render_Engine
  imports Floats Render_Server
begin

text \<open>
  The renderer's engine: the maneuver packet of c_render/protocol.h as decoded
  by c_render/main.c, the slide and settle animation of c_render/maneuver.c,
  the perspective blend of c_render/render.c, and the engine's transitions of
  c_render/main.c.  Floats are rationals rounded after each operation.  The
  lengths and curvatures of the drawn roads, which the trigonometry of
  maneuver.c computes, are answers of the frame (record frame_geo); camera
  poses and the GL calls are not modelled.
\<close>

text \<open>The offsets stay as in the prelude.\<close>

declare One_nat_def [simp del] add_2_eq_Suc [simp del] add_2_eq_Suc' [simp del]

section \<open>Maneuvers\<close>

definition ICON_NONE :: int where "ICON_NONE = 0"
definition ICON_APPROACH :: int where "ICON_APPROACH = 1"
definition ICON_TURN :: int where "ICON_TURN = 2"
definition ICON_UTURN :: int where "ICON_UTURN = 3"
definition ICON_MERGE :: int where "ICON_MERGE = 4"
definition ICON_EXIT :: int where "ICON_EXIT = 5"
definition ICON_ROUNDABOUT :: int where "ICON_ROUNDABOUT = 6"
definition ICON_ARRIVED :: int where "ICON_ARRIVED = 7"

definition MAX_JUNCTION_ANGLES :: nat where "MAX_JUNCTION_ANGLES = 18"

record maneuver_state =
  ms_icon :: int
  ms_exit_angle :: int
  ms_direction :: int
  ms_driving_side :: int
  ms_junction_angles :: "int list"
  ms_junction_angle_count :: nat

definition maneuver0 :: maneuver_state where
  "maneuver0 = \<lparr> ms_icon = 0, ms_exit_angle = 0, ms_direction = 0, ms_driving_side = 0,
     ms_junction_angles = replicate MAX_JUNCTION_ANGLES 0, ms_junction_angle_count = 0 \<rparr>"

definition MAN_FLAG_SET_PERSP :: u8 where "MAN_FLAG_SET_PERSP = 0x01"
definition MAN_FLAG_BARGRAPH :: u8 where "MAN_FLAG_BARGRAPH = 0x02"

text \<open>CR_MAN_EXIT_ANGLE and CR_MAN_JUNC_ANGLE: a signed big endian number.\<close>

definition man_i16 :: "bytes \<Rightarrow> nat \<Rightarrow> int option" where
  "man_i16 p i = do { v \<leftarrow> read_be16 p i; Some (sint v) }"

primrec junction_loop :: "bytes \<Rightarrow> nat \<Rightarrow> int list \<Rightarrow> int list option" where
  "junction_loop p 0 a = Some a"
| "junction_loop p (Suc i) a = do {
     a \<leftarrow> junction_loop p i a;
     v \<leftarrow> man_i16 p (6 + i * 2);
     wr8 a i v }"

definition decode_maneuver :: "cr_cmd \<Rightarrow> maneuver_state option" where
  "decode_maneuver cmd =
     (let p = c_payload cmd in do {
        icon \<leftarrow> rd8 p 0;
        direction \<leftarrow> rd8 p 1;
        exit_angle \<leftarrow> man_i16 p 2;
        side \<leftarrow> rd8 p 4;
        n \<leftarrow> rd8 p 5;
        let count = (if unat n > MAX_JUNCTION_ANGLES then MAX_JUNCTION_ANGLES else unat n);
        angles \<leftarrow> junction_loop p count (ms_junction_angles maneuver0);
        Some \<lparr> ms_icon = uint icon, ms_exit_angle = exit_angle, ms_direction = sint direction,
          ms_driving_side = uint side, ms_junction_angles = angles, ms_junction_angle_count = count \<rparr> })"

section \<open>The slide and settle animation\<close>

text \<open>The statics of maneuver.c the animation depends on: g_route_len stands
  for the total length of g_route_path, g_light_turned for the light rotation
  of the last combined frame being above its threshold.\<close>

record slide =
  g_route_slide :: rat
  g_route_animating :: bool
  g_anim_start :: rat
  g_anim_target :: rat
  g_slug_override :: rat
  g_route_len :: rat
  g_light_turned :: bool
  g_cam_settle_t :: rat
  g_cam_settle_active :: bool
  g_light_settle_t :: rat
  g_light_settle_active :: bool
  g_tip_morph_t :: rat
  g_tip_morph_active :: bool
  g_flag_active :: bool
  g_camera_prepared_this_frame :: bool
  g_route_debug :: bool

definition ROUTE_SPEED_PEAK :: rat where "ROUTE_SPEED_PEAK = rnd32 (45 / 1000)"
definition ROUTE_SPEED_MIN :: rat where "ROUTE_SPEED_MIN = rnd32 (10 / 1000)"
definition ROUTE_EXTEND :: rat where "ROUTE_EXTEND = rnd32 (5 / 10)"
definition TIP_MORPH_SPEED :: rat where "TIP_MORPH_SPEED = rnd32 (7 / 100)"
definition CAMERA_SETTLE_SPEED :: rat where "CAMERA_SETTLE_SPEED = rnd32 (12 / 100)"
definition LIGHT_SETTLE_SPEED :: rat where "LIGHT_SETTLE_SPEED = rnd32 (1 / 50)"

definition clear_combined_transition :: "'a slide_scheme \<Rightarrow> 'a slide_scheme" where
  "clear_combined_transition s = s\<lparr> g_slug_override := - 1, g_light_turned := False \<rparr>"

definition clear_camera_settle :: "'a slide_scheme \<Rightarrow> 'a slide_scheme" where
  "clear_camera_settle s = s\<lparr> g_cam_settle_t := 0, g_cam_settle_active := False \<rparr>"

definition clear_light_settle :: "'a slide_scheme \<Rightarrow> 'a slide_scheme" where
  "clear_light_settle s = s\<lparr> g_light_settle_t := 0, g_light_settle_active := False \<rparr>"

definition maneuver_start_anim :: "'a slide_scheme \<Rightarrow> 'a slide_scheme" where
  "maneuver_start_anim s =
     (clear_light_settle (clear_camera_settle (clear_combined_transition
        (s\<lparr> g_route_slide := 0, g_anim_start := 0, g_anim_target := 1, g_route_animating := True \<rparr>))))
     \<lparr> g_camera_prepared_this_frame := False, g_tip_morph_t := 0, g_tip_morph_active := False \<rparr>"

definition maneuver_is_animating :: "'a slide_scheme \<Rightarrow> bool" where
  "maneuver_is_animating s \<longleftrightarrow> g_route_animating s \<or> g_cam_settle_active s"

definition maneuver_needs_redraw :: "'a slide_scheme \<Rightarrow> bool" where
  "maneuver_needs_redraw s \<longleftrightarrow> g_route_animating s \<or> g_flag_active s \<or> g_cam_settle_active s \<or>
     g_light_settle_active s \<or> (g_tip_morph_active s \<and> g_tip_morph_t s < 1)"

definition maneuver_set_slide :: "rat \<Rightarrow> 'a slide_scheme \<Rightarrow> 'a slide_scheme" where
  "maneuver_set_slide t s =
     (let t = (if t < 0 then 0 else t); t = (if t > 2 then 2 else t)
      in (clear_light_settle (clear_camera_settle (clear_combined_transition
            (s\<lparr> g_route_slide := t, g_route_animating := False \<rparr>))))\<lparr> g_camera_prepared_this_frame := False \<rparr>)"

definition maneuver_start_push :: "'a slide_scheme \<Rightarrow> 'a slide_scheme" where
  "maneuver_start_push s =
     (clear_light_settle (clear_camera_settle (clear_combined_transition
        (s\<lparr> g_anim_start := g_route_slide s, g_anim_target := 2, g_route_animating := True \<rparr>))))
     \<lparr> g_camera_prepared_this_frame := False \<rparr>"

definition maneuver_is_pushing :: "'a slide_scheme \<Rightarrow> bool" where
  "maneuver_is_pushing s \<longleftrightarrow> g_route_animating s \<and> g_anim_target s > 3 / 2"

definition maneuver_toggle_debug :: "'a slide_scheme \<Rightarrow> 'a slide_scheme" where
  "maneuver_toggle_debug s = s\<lparr> g_route_debug := \<not> g_route_debug s \<rparr>"

definition maneuver_commit_pushed_state :: "'a slide_scheme \<Rightarrow> 'a slide_scheme" where
  "maneuver_commit_pushed_state s = clear_combined_transition
     (s\<lparr> g_route_slide := 1, g_anim_start := 1, g_anim_target := 1, g_route_animating := False,
        g_tip_morph_t := 0, g_tip_morph_active := False, g_cam_settle_t := 0, g_cam_settle_active := True,
        g_light_settle_t := 0, g_light_settle_active := g_light_turned s \<rparr>)"

section \<open>The camera's perspective and the masks\<close>

text \<open>The statics of render.c.\<close>

record camera = slide +
  g_perspective :: int
  g_persp_t :: rat
  g_masks_dirty :: bool
  g_global_alpha :: rat

definition PERSP_ANIM_SPEED :: rat where "PERSP_ANIM_SPEED = rnd32 (33 / 1000)"

text \<open>sync_camera_uniforms: one step of the blend towards its target.\<close>

definition sync_camera_uniforms :: "'a camera_scheme \<Rightarrow> 'a camera_scheme" where
  "sync_camera_uniforms s =
     (let target = of_int (g_perspective s); diff = rnd32 (target - g_persp_t s) in
      if \<bar>diff\<bar> < rnd32 (1 / 1000) then s\<lparr> g_persp_t := target \<rparr>
      else let t = rnd32 (g_persp_t s + (if diff > 0 then 1 else - 1) * PERSP_ANIM_SPEED)
           in if (diff > 0 \<and> t > target) \<or> (diff < 0 \<and> t < target)
              then s\<lparr> g_persp_t := target \<rparr> else s\<lparr> g_persp_t := t \<rparr>)"

definition render_set_global_alpha :: "rat \<Rightarrow> 'a camera_scheme \<Rightarrow> 'a camera_scheme" where
  "render_set_global_alpha alpha s = s\<lparr> g_global_alpha := alpha \<rparr>"

definition render_set_perspective :: "int \<Rightarrow> 'a camera_scheme \<Rightarrow> 'a camera_scheme" where
  "render_set_perspective enabled s = s\<lparr> g_perspective := enabled \<rparr>"

definition render_is_animating :: "'a camera_scheme \<Rightarrow> bool" where
  "render_is_animating s \<longleftrightarrow> \<bar>rnd32 (g_persp_t s - of_int (g_perspective s))\<bar> > rnd32 (1 / 1000)"

definition render_invalidate_masks :: "'a camera_scheme \<Rightarrow> 'a camera_scheme" where
  "render_invalidate_masks s = s\<lparr> g_masks_dirty := True \<rparr>"

section \<open>One frame of the animation\<close>

text \<open>set_default_camera and apply_camera_pose set the pose and synchronise the
  camera once.\<close>

definition set_default_camera :: "'a camera_scheme \<Rightarrow> 'a camera_scheme" where
  "set_default_camera s = sync_camera_uniforms s"

definition update_light_settle :: "'a camera_scheme \<Rightarrow> 'a camera_scheme" where
  "update_light_settle s =
     (if \<not> g_light_settle_active s then s
      else let s = s\<lparr> g_light_settle_t := rnd32 (g_light_settle_t s + LIGHT_SETTLE_SPEED) \<rparr>
           in if g_light_settle_t s \<ge> 1 then clear_light_settle s else s)"

definition update_camera_settle :: "'a camera_scheme \<Rightarrow> 'a camera_scheme" where
  "update_camera_settle s =
     (if \<not> g_cam_settle_active s then set_default_camera s
      else let s = sync_camera_uniforms s;
               s = s\<lparr> g_cam_settle_t := rnd32 (g_cam_settle_t s + CAMERA_SETTLE_SPEED) \<rparr>
           in if g_cam_settle_t s \<ge> 1 then set_default_camera (clear_camera_settle s) else s)"

text \<open>What the geometry of the frame answers: the curvature factor at the arrow
  head, the length of g_route_path once the masks are redrawn, the road length of
  the current maneuver, the distance the arrow moves in a handoff, and whether
  the handoff turns the light.\<close>

record frame_geo =
  fg_curvature :: rat
  fg_route_len :: rat
  fg_road_len :: rat
  fg_transition_len :: rat
  fg_light_turned :: bool

definition combined :: "maneuver_state option \<Rightarrow> 'a slide_scheme \<Rightarrow> bool" where
  "combined next_state s \<longleftrightarrow> next_state \<noteq> None \<and> maneuver_is_pushing s"

definition maneuver_prepare_frame :: "maneuver_state option \<Rightarrow> 'a camera_scheme \<Rightarrow> 'a camera_scheme" where
  "maneuver_prepare_frame next_state s =
     (let comb = combined next_state s; s = s\<lparr> g_camera_prepared_this_frame := False \<rparr> in
      if \<not> comb
      then let s = (if g_cam_settle_active s then update_camera_settle s else set_default_camera s);
               s = (if g_light_settle_active s then update_light_settle s else s)
           in s\<lparr> g_camera_prepared_this_frame := True \<rparr>
      else s)"

definition ease_inout_speed :: "rat \<Rightarrow> rat" where
  "ease_inout_speed t = (if t \<le> 0 \<or> t \<ge> 1 then 0 else rnd32 (rnd32 (6 * t) * rnd32 (1 - t)))"

text \<open>The step of the slide: the pace of the route in route units, over the
  length it is measured in.\<close>

definition slide_length :: "'a slide_scheme \<Rightarrow> rat" where
  "slide_length s =
     (let l = (if g_slug_override s > 0 then g_slug_override s else rnd32 (g_route_len s - rnd32 (2 * ROUTE_EXTEND)))
      in if l < rnd32 (1 / 10) then rnd32 (1 / 10) else l)"

definition slide_speed :: "rat \<Rightarrow> 'a slide_scheme \<Rightarrow> rat" where
  "slide_speed curv s =
     (let range = rnd32 (g_anim_target s - g_anim_start s);
          range = (if range < rnd32 (1 / 100) then rnd32 (1 / 100) else range);
          progress = rnd32 (rnd32 (g_route_slide s - g_anim_start s) / range);
          e = ease_inout_speed progress;
          e = (if e < rnd32 (15 / 100) then rnd32 (15 / 100) else e)
      in rnd32 (ROUTE_SPEED_MIN + rnd32 (rnd32 (rnd32 (ROUTE_SPEED_PEAK - ROUTE_SPEED_MIN) * e) * curv)))"

definition slide_step :: "rat \<Rightarrow> 'a slide_scheme \<Rightarrow> 'a slide_scheme" where
  "slide_step curv s =
     (if g_route_animating s
      then let s = s\<lparr> g_route_slide := rnd32 (g_route_slide s + rnd32 (slide_speed curv s / slide_length s)) \<rparr>
           in if g_route_slide s \<ge> g_anim_target s
              then s\<lparr> g_route_slide := g_anim_target s, g_route_animating := False \<rparr> else s
      else s)"

definition tip_morph_step :: "maneuver_state \<Rightarrow> 'a slide_scheme \<Rightarrow> 'a slide_scheme" where
  "tip_morph_step st s =
     (let s = (if ms_icon st = ICON_ARRIVED \<and> \<not> g_tip_morph_active s \<and> (g_route_slide s \<ge> 1 / 2 \<or> g_anim_start s \<ge> 1)
               then s\<lparr> g_tip_morph_active := True \<rparr> else s)
      in if g_tip_morph_active s \<and> g_tip_morph_t s < 1
         then let t = rnd32 (g_tip_morph_t s + TIP_MORPH_SPEED) in s\<lparr> g_tip_morph_t := (if t > 1 then 1 else t) \<rparr>
         else s)"

text \<open>The icons DISPATCH_DRAW draws; another one draws nothing and leaves the
  masks dirty.\<close>

definition drawn_icon :: "int \<Rightarrow> bool" where
  "drawn_icon i \<longleftrightarrow> i \<in> {ICON_APPROACH, ICON_TURN, ICON_UTURN, ICON_MERGE, ICON_EXIT, ICON_ROUNDABOUT, ICON_ARRIVED}"

text \<open>The handoff's retargeting: the slide ends where the next maneuver's window
  is reached.\<close>

definition retarget :: "frame_geo \<Rightarrow> 'a slide_scheme \<Rightarrow> 'a slide_scheme" where
  "retarget geo s =
     (let s = s\<lparr> g_slug_override := fg_road_len geo, g_light_turned := fg_light_turned geo, g_route_len := fg_route_len geo \<rparr>;
          len = (if fg_transition_len geo < rnd32 (1 / 100) then rnd32 (1 / 100) else fg_transition_len geo)
      in if g_slug_override s > rnd32 (1 / 100)
         then s\<lparr> g_anim_target := rnd32 (g_anim_start s + rnd32 (len / g_slug_override s)) \<rparr> else s)"

definition maneuver_draw :: "frame_geo \<Rightarrow> maneuver_state \<Rightarrow> maneuver_state option \<Rightarrow> 'a camera_scheme \<Rightarrow> 'a camera_scheme" where
  "maneuver_draw geo st next_state s =
     (let s = s\<lparr> g_flag_active := ms_icon st = ICON_ARRIVED \<or>
                   (case next_state of None \<Rightarrow> False | Some n \<Rightarrow> ms_icon n = ICON_ARRIVED) \<rparr>;
          comb = combined next_state s;
          s = (if comb then render_invalidate_masks s
               else if \<not> g_camera_prepared_this_frame s
               then (if g_cam_settle_active s then update_camera_settle s else set_default_camera s) else s);
          s = s\<lparr> g_camera_prepared_this_frame := False \<rparr>;
          s = slide_step (fg_curvature geo) s;
          s = tip_morph_step st s
      in if \<not> g_masks_dirty s then (if comb then sync_camera_uniforms s else s)
         else if comb then sync_camera_uniforms ((retarget geo s)\<lparr> g_masks_dirty := False \<rparr>)
         else if drawn_icon (ms_icon st) then s\<lparr> g_route_len := fg_route_len geo, g_masks_dirty := False \<rparr>
         else s)"

section \<open>The engine\<close>

datatype engine_phase = ENGINE_IDLE | ENGINE_PUSHING | ENGINE_SLIDING_IN

text \<open>cr_engine_t and the globals of main.c.\<close>

record engine = camera +
  e_current :: maneuver_state
  e_next :: maneuver_state
  e_pending :: maneuver_state
  e_has_current :: bool
  e_has_next :: bool
  e_has_pending :: bool
  e_phase :: engine_phase
  e_dirty :: bool
  g_fade_alpha :: rat
  g_fade_active :: bool
  g_preload_pending :: bool
  g_frame_ready_pending :: bool
  g_display_active :: bool
  g_bargraph_on :: int
  g_bargraph_level :: int
  g_persp_deferred :: bool
  g_persp_deferred_value :: int
  g_bargraph_alpha :: rat
  g_bargraph_blink_vis :: bool
  g_bargraph_blink_timer :: int
  g_bargraph_deferred :: bool
  g_bargraph_deferred_level :: int
  g_bargraph_deferred_mode :: int

definition FADE_SPEED :: rat where "FADE_SPEED = rnd32 (4 / 100)"
definition BARGRAPH_FADE_SPEED :: rat where "BARGRAPH_FADE_SPEED = rnd32 (6 / 100)"
definition BARGRAPH_BLINK_FRAMES :: int where "BARGRAPH_BLINK_FRAMES = 18"

definition engine_apply_maneuver :: "maneuver_state \<Rightarrow> 'a engine_scheme \<Rightarrow> 'a engine_scheme" where
  "engine_apply_maneuver state s =
     (if \<not> e_has_current s
      then let s = s\<lparr> e_current := state, e_has_current := True, e_has_next := False, e_phase := ENGINE_SLIDING_IN \<rparr>;
               s = render_invalidate_masks (maneuver_start_anim (maneuver_set_slide 0 s));
               s = s\<lparr> e_dirty := True, g_fade_alpha := 0, g_fade_active := True \<rparr>
           in render_set_global_alpha 0 s
      else if e_phase s = ENGINE_PUSHING \<or> e_phase s = ENGINE_SLIDING_IN
      then s\<lparr> e_pending := state, e_has_pending := True \<rparr>
      else let s = s\<lparr> e_next := state, e_has_next := True, g_bargraph_on := 0 \<rparr>;
               s = (maneuver_start_push s)\<lparr> e_phase := ENGINE_PUSHING \<rparr>
           in (render_invalidate_masks s)\<lparr> e_dirty := True \<rparr>)"

definition engine_preload_maneuver :: "maneuver_state \<Rightarrow> 'a engine_scheme \<Rightarrow> 'a engine_scheme" where
  "engine_preload_maneuver state s =
     (let s = s\<lparr> e_current := state, e_has_current := True, e_has_next := False, e_has_pending := False,
                 e_phase := ENGINE_IDLE \<rparr>;
          s = render_invalidate_masks (maneuver_set_slide 0 s);
          s = s\<lparr> e_dirty := True, g_fade_alpha := 0, g_fade_active := False \<rparr>;
          s = render_set_global_alpha 0 s
      in s\<lparr> g_preload_pending := True, g_frame_ready_pending := True \<rparr>)"

definition engine_start_preloaded_animation :: "'a engine_scheme \<Rightarrow> 'a engine_scheme" where
  "engine_start_preloaded_animation s =
     (if \<not> g_preload_pending s \<or> \<not> e_has_current s then s
      else let s = s\<lparr> g_preload_pending := False, g_display_active := True, e_phase := ENGINE_SLIDING_IN \<rparr>;
               s = render_invalidate_masks (maneuver_start_anim s);
               s = s\<lparr> e_dirty := True, g_fade_alpha := 0, g_fade_active := True \<rparr>;
               s = render_set_global_alpha 0 s;
               s = (if g_persp_deferred s
                    then (render_set_perspective (g_persp_deferred_value s) s)\<lparr> g_persp_deferred := False \<rparr> else s)
           in if g_bargraph_deferred s
              then s\<lparr> g_bargraph_level := g_bargraph_deferred_level s, g_bargraph_on := g_bargraph_deferred_mode s,
                     g_bargraph_deferred := False \<rparr> else s)"

text \<open>engine_tick, one definition per phase.\<close>

definition promote_pending :: "'a engine_scheme \<Rightarrow> 'a engine_scheme" where
  "promote_pending s =
     (let s = s\<lparr> e_next := e_pending s, e_has_next := True, e_has_pending := False \<rparr>
      in (maneuver_start_push s)\<lparr> e_phase := ENGINE_PUSHING \<rparr>)"

definition tick_pushing :: "'a engine_scheme \<Rightarrow> 'a engine_scheme" where
  "tick_pushing s =
     (if maneuver_is_pushing s then s
      else let s = (if e_has_next s then s\<lparr> e_current := e_next s, e_has_next := False \<rparr> else s);
               s = (render_invalidate_masks (maneuver_commit_pushed_state s))\<lparr> e_dirty := True \<rparr>
           in if e_has_pending s then promote_pending s else s\<lparr> e_phase := ENGINE_SLIDING_IN \<rparr>)"

definition settle_idle :: "'a engine_scheme \<Rightarrow> 'a engine_scheme" where
  "settle_idle s =
     (let s = s\<lparr> e_phase := ENGINE_IDLE \<rparr>;
          s = (if g_persp_deferred s
               then (render_set_perspective (g_persp_deferred_value s) s)\<lparr> g_persp_deferred := False, e_dirty := True \<rparr> else s)
      in if g_bargraph_deferred s
         then let s = s\<lparr> g_bargraph_level := g_bargraph_deferred_level s, g_bargraph_on := g_bargraph_deferred_mode s \<rparr>;
                  s = (if g_bargraph_on s = 2 then s\<lparr> g_bargraph_blink_vis := True, g_bargraph_blink_timer := 0 \<rparr> else s)
              in s\<lparr> g_bargraph_deferred := False, e_dirty := True \<rparr>
         else s)"

definition tick_sliding_in :: "'a engine_scheme \<Rightarrow> 'a engine_scheme" where
  "tick_sliding_in s =
     (if maneuver_is_animating s then s
      else if e_has_pending s then (render_invalidate_masks (promote_pending s))\<lparr> e_dirty := True \<rparr>
      else settle_idle s)"

definition engine_tick :: "'a engine_scheme \<Rightarrow> 'a engine_scheme" where
  "engine_tick s = (case e_phase s of
      ENGINE_PUSHING \<Rightarrow> tick_pushing s
    | ENGINE_SLIDING_IN \<Rightarrow> tick_sliding_in s
    | ENGINE_IDLE \<Rightarrow> s)"

lemmas anim_defs = clear_combined_transition_def clear_camera_settle_def clear_light_settle_def maneuver_start_anim_def
  maneuver_set_slide_def maneuver_start_push_def maneuver_commit_pushed_state_def render_invalidate_masks_def
  render_set_global_alpha_def render_set_perspective_def Let_def

lemmas engine_defs = engine_apply_maneuver_def engine_preload_maneuver_def engine_start_preloaded_animation_def
  promote_pending_def tick_pushing_def settle_idle_def tick_sliding_in_def anim_defs

section \<open>Decoding\<close>

lemma junction_loop_spec:
  assumes "6 + 2 * n \<le> length p" and "n \<le> length a"
  shows "junction_loop p n a = Some (map (\<lambda>i. sint (be16 (p ! (6 + i * 2)) (p ! (6 + i * 2 + 1)))) [0 ..< n] @ drop n a)"
  using assms
proof (induction n)
  case 0
  then show ?case by simp
next
  case (Suc n)
  have p: "6 + n * 2 + 2 \<le> length p" and n: "n < length a" using Suc.prems by simp_all
  have "drop n a = a ! n # drop (Suc n) a" by (rule Cons_nth_drop_Suc [symmetric, OF n])
  then show ?case
    using Suc n by (simp add: man_i16_def read_be16_Some [OF p] wr8_def list_update_append)
qed

lemma decode_maneuver_spec:
  assumes "pkt_ok cmd"
  defines "p \<equiv> c_payload cmd" and "n \<equiv> min 18 (unat (c_payload cmd ! 5))"
  shows "decode_maneuver cmd = Some \<lparr> ms_icon = uint (p ! 0), ms_exit_angle = sint (be16 (p ! 2) (p ! 3)),
    ms_direction = sint (p ! 1), ms_driving_side = uint (p ! 4),
    ms_junction_angles = map (\<lambda>i. sint (be16 (p ! (6 + i * 2)) (p ! (6 + i * 2 + 1)))) [0 ..< n] @ replicate (18 - n) 0,
    ms_junction_angle_count = n \<rparr>"
proof -
  have l: "length p = 46" using assms by (simp add: pkt_ok_def p_def)
  have n: "(if unat (p ! 5) > MAX_JUNCTION_ANGLES then MAX_JUNCTION_ANGLES else unat (p ! 5)) = n"
    by (simp add: n_def p_def MAX_JUNCTION_ANGLES_def min_def)
  have "n \<le> 18" by (simp add: n_def)
  then have j: "junction_loop p n (ms_junction_angles maneuver0) =
      Some (map (\<lambda>i. sint (be16 (p ! (6 + i * 2)) (p ! (6 + i * 2 + 1)))) [0 ..< n] @ replicate (18 - n) 0)"
    using junction_loop_spec [of n p "ms_junction_angles maneuver0"] l
    by (simp add: maneuver0_def MAX_JUNCTION_ANGLES_def)
  have e: "man_i16 p 2 = Some (sint (be16 (p ! 2) (p ! 3)))"
    using l read_be16_Some [of 2 p] by (simp add: man_i16_def)
  show ?thesis
    unfolding decode_maneuver_def p_def [symmetric] Let_def
    using l e j by (simp add: rd8_def n)
qed

text \<open>The maneuvers the decoder makes: every number in the range of its field,
  unused angles zero.\<close>

definition man_ok :: "maneuver_state \<Rightarrow> bool" where
  "man_ok m \<longleftrightarrow> 0 \<le> ms_icon m \<and> ms_icon m < 256 \<and> - 128 \<le> ms_direction m \<and> ms_direction m < 128 \<and>
     - 32768 \<le> ms_exit_angle m \<and> ms_exit_angle m < 32768 \<and> 0 \<le> ms_driving_side m \<and> ms_driving_side m < 256 \<and>
     ms_junction_angle_count m \<le> 18 \<and>
     length (ms_junction_angles m) = 18 \<and> (\<forall>a \<in> set (ms_junction_angles m). - 32768 \<le> a \<and> a < 32768) \<and>
     drop (ms_junction_angle_count m) (ms_junction_angles m) = replicate (18 - ms_junction_angle_count m) 0"

lemma sint_u16_range: "- 32768 \<le> sint (v :: u16)" "sint (v :: u16) < 32768"
  using sint_range_size [of v] by (simp_all add: word_size)

lemma sint_u8_range: "- 128 \<le> sint (v :: u8)" "sint (v :: u8) < 128"
  using sint_range_size [of v] by (simp_all add: word_size)

lemma uint_u8_range: "uint (v :: u8) < 256"
  using uint_range_size [of v] by (simp add: word_size)

lemma decode_maneuver_ok: "pkt_ok cmd \<Longrightarrow> \<exists>m. decode_maneuver cmd = Some m \<and> man_ok m"
  by (simp add: decode_maneuver_spec) (auto simp: man_ok_def sint_u16_range sint_u8_range uint_u8_range)

lemma maneuver0_ok: "man_ok maneuver0"
  by (auto simp: man_ok_def maneuver0_def MAX_JUNCTION_ANGLES_def)

text \<open>The payload of protocol.h that carries a maneuver, as a sender writes it.\<close>

definition man_payload :: "maneuver_state \<Rightarrow> u8 \<Rightarrow> u8 \<Rightarrow> u8 \<Rightarrow> bytes" where
  "man_payload m persp level mode =
     (let n = ms_junction_angle_count m in
      [of_int (ms_icon m), of_int (ms_direction m)] @ be16_bytes (of_int (ms_exit_angle m)) @
      [of_int (ms_driving_side m), of_nat n] @
      concat (map (\<lambda>a. be16_bytes (of_int a)) (take n (ms_junction_angles m))) @
      replicate (37 - 2 * n) 0 @ [persp, level, mode])"

lemma length_angle_bytes: "length (concat (map (\<lambda>a. be16_bytes (f a)) as)) = 2 * length as"
  by (induction as) simp_all

lemma nth_angle_bytes:
  "i < length as \<Longrightarrow> concat (map (\<lambda>a. be16_bytes (f a)) as) ! (i * 2) = be16_bytes (f (as ! i)) ! 0 \<and>
    concat (map (\<lambda>a. be16_bytes (f a)) as) ! (i * 2 + 1) = be16_bytes (f (as ! i)) ! 1"
proof (induction as arbitrary: i)
  case (Cons a as)
  show ?case
  proof (cases i)
    case 0
    then show ?thesis by (simp add: be16_bytes_def)
  next
    case (Suc j)
    have "(be16_bytes (f a) @ r) ! (2 + j * 2) = r ! (j * 2)" "(be16_bytes (f a) @ r) ! (3 + j * 2) = r ! (j * 2 + 1)" for r
      by (simp_all add: nth_append add.commute)
    then show ?thesis using Cons.IH [of j] Cons.prems Suc by simp
  qed
qed simp

lemma man_payload_parts:
  assumes "man_ok m"
  shows "length (man_payload m persp level mode) = 46"
    and "\<And>i. i < ms_junction_angle_count m \<Longrightarrow>
      be16 (man_payload m persp level mode ! (6 + i * 2)) (man_payload m persp level mode ! (6 + i * 2 + 1)) =
      of_int (ms_junction_angles m ! i)"
proof -
  let ?n = "ms_junction_angle_count m" and ?f = "\<lambda>a :: int. of_int a :: u16"
  define c where "c = concat (map (\<lambda>a. be16_bytes (?f a)) (take ?n (ms_junction_angles m)))"
  have l: "length (take ?n (ms_junction_angles m)) = ?n" and n: "?n \<le> 18"
    using assms by (simp_all add: man_ok_def)
  have lc: "length c = 2 * ?n" by (simp only: c_def length_angle_bytes l)
  define h where "h = [of_int (ms_icon m), of_int (ms_direction m)] @ be16_bytes (of_int (ms_exit_angle m)) @
      [of_int (ms_driving_side m), of_nat ?n :: u8]"
  have p: "man_payload m persp level mode = h @ c @ replicate (37 - 2 * ?n) 0 @ [persp, level, mode]"
    by (simp add: man_payload_def Let_def c_def h_def)
  have lh: "length h = 6" by (simp add: h_def be16_bytes_def)
  show "length (man_payload m persp level mode) = 46" using n by (simp add: p lh lc)
  fix i assume i: "i < ?n"
  have "man_payload m persp level mode ! (6 + j) = c ! j" if "j < 2 * ?n" for j
    using that by (simp add: p nth_append lh lc)
  from this [of "i * 2"] this [of "i * 2 + 1"]
  have "man_payload m persp level mode ! (6 + i * 2) = c ! (i * 2)"
    "man_payload m persp level mode ! (6 + i * 2 + 1) = c ! (i * 2 + 1)"
    using i by (simp_all add: add.assoc)
  moreover have "c ! (i * 2) = be16_bytes (?f (ms_junction_angles m ! i)) ! 0 \<and>
      c ! (i * 2 + 1) = be16_bytes (?f (ms_junction_angles m ! i)) ! 1"
    using nth_angle_bytes [of i "take ?n (ms_junction_angles m)" ?f] i l by (simp add: c_def)
  ultimately show "be16 (man_payload m persp level mode ! (6 + i * 2)) (man_payload m persp level mode ! (6 + i * 2 + 1)) =
      of_int (ms_junction_angles m ! i)"
    using be16_bytes_nth by simp
qed

lemma uint_of_int_u8: "0 \<le> a \<Longrightarrow> a < 256 \<Longrightarrow> uint (of_int a :: u8) = a"
  by (simp add: unsigned_of_int take_bit_int_eq_self)

lemma sint_of_int_u8: "- 128 \<le> a \<Longrightarrow> a < 128 \<Longrightarrow> sint (of_int a :: u8) = a"
  by (simp add: signed_of_int signed_take_bit_int_eq_self)

lemma sint_of_int_u16: "- 32768 \<le> a \<Longrightarrow> a < 32768 \<Longrightarrow> sint (of_int a :: u16) = a"
  by (simp add: signed_of_int signed_take_bit_int_eq_self)

lemma decode_man_payload:
  assumes m: "man_ok m"
  shows "decode_maneuver \<lparr> c_cmd = cid, c_flags = flags, c_payload = man_payload m persp level mode \<rparr> = Some m"
proof -
  let ?p = "man_payload m persp level mode" and ?n = "ms_junction_angle_count m"
  have n: "?n \<le> 18" and l18: "length (ms_junction_angles m) = 18" using m by (simp_all add: man_ok_def)
  have head: "?p ! 0 = of_int (ms_icon m)" "?p ! 1 = of_int (ms_direction m)"
    "be16 (?p ! 2) (?p ! 3) = of_int (ms_exit_angle m)" "?p ! 4 = of_int (ms_driving_side m)" "?p ! 5 = of_nat ?n"
    using be16_hi_lo by (simp_all add: man_payload_def Let_def be16_bytes_def nth_Cons_numeral)
  have cnt: "min 18 (unat (?p ! 5)) = ?n" using n by (simp add: head unat_of_nat)
  have "map (\<lambda>i. sint (be16 (?p ! (6 + i * 2)) (?p ! (6 + i * 2 + 1)))) [0 ..< ?n] = take ?n (ms_junction_angles m)"
  proof (rule nth_equalityI)
    fix i assume "i < length (map (\<lambda>i. sint (be16 (?p ! (6 + i * 2)) (?p ! (6 + i * 2 + 1)))) [0 ..< ?n])"
    then have i: "i < ?n" by simp
    then have "ms_junction_angles m ! i \<in> set (ms_junction_angles m)" using n l18 by simp
    then have "- 32768 \<le> ms_junction_angles m ! i" "ms_junction_angles m ! i < 32768"
      using m unfolding man_ok_def by blast+
    then show "map (\<lambda>i. sint (be16 (?p ! (6 + i * 2)) (?p ! (6 + i * 2 + 1)))) [0 ..< ?n] ! i = take ?n (ms_junction_angles m) ! i"
      using man_payload_parts(2) [OF m i] i by (simp add: sint_of_int_u16)
  qed (use n l18 in simp)
  then have angles: "map (\<lambda>i. sint (be16 (?p ! (6 + i * 2)) (?p ! (6 + i * 2 + 1)))) [0 ..< ?n] @ replicate (18 - ?n) 0 =
      ms_junction_angles m"
    using m by (metis append_take_drop_id man_ok_def)
  have "pkt_ok \<lparr> c_cmd = cid, c_flags = flags, c_payload = ?p \<rparr>" using man_payload_parts(1) [OF m] by (simp add: pkt_ok_def)
  from decode_maneuver_spec [OF this]
  show "decode_maneuver \<lparr> c_cmd = cid, c_flags = flags, c_payload = ?p \<rparr> = Some m"
    unfolding cr_cmd.simps cnt angles
    using m by (simp add: head man_ok_def uint_of_int_u8 sint_of_int_u8 sint_of_int_u16)
qed

text \<open>Property C12. The decoder never reads outside the payload, makes a maneuver
  of at most 18 angles with every number in its field's range from any packet,
  and gives back every such maneuver from the payload of the protocol.\<close>

theorem maneuver_decoded:
  "(\<forall>cmd. pkt_ok cmd \<longrightarrow> (\<exists>m. decode_maneuver cmd = Some m \<and> man_ok m)) \<and>
   (\<forall>m id flags persp level mode. man_ok m \<longrightarrow>
      decode_maneuver \<lparr> c_cmd = id, c_flags = flags, c_payload = man_payload m persp level mode \<rparr> = Some m)"
  using decode_maneuver_ok decode_man_payload by blast

definition roundabout2 :: maneuver_state where
  "roundabout2 = \<lparr> ms_icon = ICON_ROUNDABOUT, ms_exit_angle = - 90, ms_direction = - 1, ms_driving_side = 1,
     ms_junction_angles = [- 90, 45] @ replicate 16 0, ms_junction_angle_count = 2 \<rparr>"

lemma roundabout2_ok: "man_ok roundabout2"
proof -
  have "drop 2 ([- 90, 45] @ replicate 16 0 :: int list) = replicate 16 0" by simp
  then show ?thesis unfolding man_ok_def by (simp add: roundabout2_def ICON_ROUNDABOUT_def)
qed

lemma maneuver_decoded_witness:
  "decode_maneuver \<lparr> c_cmd = CMD_MANEUVER, c_flags = 0, c_payload = man_payload roundabout2 1 0 0 \<rparr> = Some roundabout2"
  using maneuver_decoded roundabout2_ok by blast

end
