(* ===== verification/Render_Loop.thy ===== *)
theory Render_Loop
  imports Render_Engine
begin

text \<open>
  The renderer's main loop (c_render/main.c): the drain of the command
  packets, the latest maneuver, the engine's tick, the fades, the frame and the
  timed calls.  One iteration takes the clock, the kernel's answers, the window
  size and the frame's geometry as its input; the calls that reach the screen
  and the platform are kept in a log.
\<close>

section \<open>The loop's state\<close>

definition timespec_elapsed_at_least :: "int \<times> int \<Rightarrow> int \<times> int \<Rightarrow> int \<Rightarrow> int \<Rightarrow> bool" where
  "timespec_elapsed_at_least now prev seconds nanoseconds =
     (if fst prev = 0 then True
      else let ds = fst now - fst prev in
        if ds > seconds then True
        else if ds < seconds then False
        else snd now - snd prev \<ge> nanoseconds)"

text \<open>The calls of a frame: the maneuver drawn with the one pushed in and the
  global alpha, the bars of the bargraph, the screenshot's label, and the
  platform's calls.\<close>

datatype frame_call = Preview_Visible bool
  | Set_Viewport int int
  | Drawn maneuver_state "maneuver_state option" rat
  | Bargraph int rat
  | Screenshot bytes
  | Swapped
  | Ensure_Focus
  | Check_Window

record renderer = engine +
  r_srv :: server
  r_grid_on :: bool
  g_3d_offset_adjust :: rat
  l_dirty :: bool
  l_running :: bool
  l_announced_first_frame :: bool
  l_fb_w :: int
  l_fb_h :: int
  l_focus_last :: "int \<times> int"
  l_health_last :: "int \<times> int"
  l_hb_last :: "int \<times> int"
  l_calls :: "frame_call list"

definition emit :: "frame_call \<Rightarrow> renderer \<Rightarrow> renderer" where
  "emit c s = s\<lparr> l_calls := l_calls s @ [c] \<rparr>"

section \<open>The drain\<close>

text \<open>The locals of one drain: 0, 1 for a maneuver, 2 for a preload, and the
  fields of the last one.\<close>

record drained =
  d_got :: nat
  d_maneuver :: maneuver_state
  d_flags :: u8
  d_perspective :: u8
  d_bargraph_level :: u8
  d_bargraph_mode :: u8
  d_screenshot :: "bytes option"

definition drained0 :: drained where
  "drained0 = \<lparr> d_got = 0, d_maneuver = maneuver0, d_flags = 0, d_perspective = 1, d_bargraph_level = 0,
     d_bargraph_mode = 0, d_screenshot = None \<rparr>"

definition note_maneuver :: "nat \<Rightarrow> cr_cmd \<Rightarrow> drained \<Rightarrow> drained option" where
  "note_maneuver got cmd d = do {
     m \<leftarrow> decode_maneuver cmd;
     persp \<leftarrow> rd8 (c_payload cmd) 43;
     level \<leftarrow> rd8 (c_payload cmd) 44;
     mode \<leftarrow> rd8 (c_payload cmd) 45;
     Some (d\<lparr> d_got := got, d_maneuver := m, d_flags := c_flags cmd, d_perspective := persp,
              d_bargraph_level := level, d_bargraph_mode := mode \<rparr>) }"

definition debug_cmd :: "u8 \<Rightarrow> renderer \<Rightarrow> renderer" where
  "debug_cmd p s =
     (let s = (if p = 2 then s\<lparr> r_grid_on := \<not> r_grid_on s \<rparr>
               else if p = 3 then s\<lparr> g_3d_offset_adjust := rnd32 (g_3d_offset_adjust s - rnd32 (2 / 100)) \<rparr>
               else if p = 4 then s\<lparr> g_3d_offset_adjust := rnd32 (g_3d_offset_adjust s + rnd32 (2 / 100)) \<rparr>
               else maneuver_toggle_debug s)
      in s\<lparr> e_dirty := True \<rparr>)"

definition bargraph_cmd :: "u8 \<Rightarrow> u8 \<Rightarrow> renderer \<Rightarrow> renderer" where
  "bargraph_cmd level mode s =
     (let s = s\<lparr> g_bargraph_level := (if uint level > 16 then 16 else uint level),
                 g_bargraph_on := (if uint mode > 2 then 1 else uint mode) \<rparr>;
          s = (if g_bargraph_on s = 2 then s\<lparr> g_bargraph_blink_vis := True, g_bargraph_blink_timer := 0 \<rparr> else s)
      in s\<lparr> e_dirty := True \<rparr>)"

definition handle_cmd :: "cr_cmd \<Rightarrow> drained \<times> renderer \<Rightarrow> (drained \<times> renderer) option" where
  "handle_cmd cmd = (\<lambda>(d, s).
     (if c_cmd cmd = CMD_MANEUVER then do {
        d \<leftarrow> note_maneuver 1 cmd d;
        Some (d, emit (Preview_Visible True) s) }
      else if c_cmd cmd = CMD_PRELOAD_MANEUVER then do {
        d \<leftarrow> note_maneuver 2 cmd d;
        Some (d, s) }
      else if c_cmd cmd = CMD_START_ANIMATION then
        Some (d, engine_start_preloaded_animation (emit (Preview_Visible True) s))
      else if c_cmd cmd = CMD_HIDE_DISPLAY then
        Some (d, emit (Preview_Visible False) (s\<lparr> g_display_active := False \<rparr>))
      else if c_cmd cmd = CMD_SCREENSHOT then do {
        label \<leftarrow> rd_mem (c_payload cmd) 0 16;
        Some (d\<lparr> d_screenshot := Some label \<rparr>, s) }
      else if c_cmd cmd = CMD_PERSPECTIVE then do {
        p \<leftarrow> rd8 (c_payload cmd) 0;
        Some (d, (render_set_perspective (if p \<noteq> 0 then 1 else 0) s)\<lparr> e_dirty := True \<rparr>) }
      else if c_cmd cmd = CMD_DEBUG then do {
        p \<leftarrow> rd8 (c_payload cmd) 0;
        Some (d, debug_cmd p s) }
      else if c_cmd cmd = CMD_BARGRAPH then do {
        level \<leftarrow> rd8 (c_payload cmd) 0;
        mode \<leftarrow> rd8 (c_payload cmd) 1;
        Some (d, bargraph_cmd level mode s) }
      else if c_cmd cmd = CMD_SHUTDOWN then Some (d, s\<lparr> l_running := False \<rparr>)
      else Some (d, s)))"

primrec handle_cmds :: "cr_cmd list \<Rightarrow> drained \<times> renderer \<Rightarrow> (drained \<times> renderer) option" where
  "handle_cmds [] ds = Some ds"
| "handle_cmds (c # cs) ds = do { ds \<leftarrow> handle_cmd c ds; handle_cmds cs ds }"

text \<open>The latest maneuver of the drain.\<close>

definition defer_perspective :: "drained \<Rightarrow> renderer \<Rightarrow> renderer" where
  "defer_perspective d s =
     (if d_got d = 2 \<or> has (d_flags d) MAN_FLAG_SET_PERSP
      then s\<lparr> g_persp_deferred := True, g_persp_deferred_value := (if d_perspective d \<noteq> 0 then 1 else 0) \<rparr> else s)"

definition defer_bargraph :: "drained \<Rightarrow> renderer \<Rightarrow> renderer" where
  "defer_bargraph d s =
     (if d_got d = 2 \<or> has (d_flags d) MAN_FLAG_BARGRAPH
      then s\<lparr> g_bargraph_deferred := True,
              g_bargraph_deferred_level := (if uint (d_bargraph_level d) > 16 then 16 else uint (d_bargraph_level d)),
              g_bargraph_deferred_mode := (if uint (d_bargraph_mode d) > 2 then 1 else uint (d_bargraph_mode d)) \<rparr> else s)"

definition apply_latest :: "drained \<Rightarrow> renderer \<Rightarrow> renderer" where
  "apply_latest d s =
     (if d_got d \<noteq> 0
      then let s = defer_bargraph d (defer_perspective d s)
           in if d_got d = 2 then engine_preload_maneuver (d_maneuver d) s else engine_apply_maneuver (d_maneuver d) s
      else s)"

section \<open>The frame\<close>

text \<open>The inputs of an iteration; fi_masks_resized tells whether a new window
  size changes the allocated size of the mask buffers, which makes the masks
  dirty.\<close>

record frame_in =
  fi_time :: "int \<times> int"
  fi_close :: bool
  fi_poll :: poll_ans
  fi_w :: int
  fi_h :: int
  fi_masks_resized :: bool
  fi_geo :: frame_geo
  fi_send_frame :: int
  fi_send_beat :: int

definition resize_viewport :: "frame_in \<Rightarrow> renderer \<Rightarrow> renderer" where
  "resize_viewport i s =
     (if fi_w i \<noteq> l_fb_w s \<or> fi_h i \<noteq> l_fb_h s
      then emit (Set_Viewport (fi_w i) (fi_h i))
             (s\<lparr> l_fb_w := fi_w i, l_fb_h := fi_h i, l_dirty := True,
                g_masks_dirty := g_masks_dirty s \<or> fi_masks_resized i \<rparr>) else s)"

definition fade_tick :: "renderer \<Rightarrow> renderer" where
  "fade_tick s =
     (if g_fade_active s
      then let s = s\<lparr> g_fade_alpha := rnd32 (g_fade_alpha s + FADE_SPEED) \<rparr>;
               s = (if g_fade_alpha s \<ge> 1 then s\<lparr> g_fade_alpha := 1, g_fade_active := False \<rparr> else s)
           in (render_set_global_alpha (g_fade_alpha s) s)\<lparr> e_dirty := True \<rparr>
      else s)"

definition decide_dirty :: "drained \<Rightarrow> renderer \<Rightarrow> renderer" where
  "decide_dirty d s =
     (if e_dirty s \<or> render_is_animating s \<or> maneuver_needs_redraw s \<or> d_screenshot d \<noteq> None
      then s\<lparr> l_dirty := True, e_dirty := False \<rparr> else s\<lparr> e_dirty := False \<rparr>)"

definition bargraph_fade :: "renderer \<Rightarrow> renderer" where
  "bargraph_fade s =
     (let target = (if g_bargraph_on s > 0 then 1 else 0) in
      if g_bargraph_alpha s < target
      then let a = rnd32 (g_bargraph_alpha s + BARGRAPH_FADE_SPEED)
           in s\<lparr> g_bargraph_alpha := (if a > target then target else a), l_dirty := True \<rparr>
      else if g_bargraph_alpha s > target
      then let a = rnd32 (g_bargraph_alpha s - BARGRAPH_FADE_SPEED)
           in s\<lparr> g_bargraph_alpha := (if a < target then target else a), l_dirty := True \<rparr>
      else s)"

definition bargraph_blink :: "renderer \<Rightarrow> renderer" where
  "bargraph_blink s =
     (if g_bargraph_on s = 2
      then let s = s\<lparr> g_bargraph_blink_timer := g_bargraph_blink_timer s + 1 \<rparr>
           in if g_bargraph_blink_timer s \<ge> BARGRAPH_BLINK_FRAMES
              then s\<lparr> g_bargraph_blink_timer := 0, g_bargraph_blink_vis := \<not> g_bargraph_blink_vis s, l_dirty := True \<rparr>
              else s
      else s)"

text \<open>The bars of render_bargraph from the bottom, lit or not.\<close>

definition bargraph_bars :: "int \<Rightarrow> bool list" where
  "bargraph_bars level = map (\<lambda>i. 16 - 1 - int i < level) [0 ..< 16]"

definition next_ptr :: "'a engine_scheme \<Rightarrow> maneuver_state option" where
  "next_ptr s = (if e_has_next s then Some (e_next s) else None)"

definition draw_maneuver :: "frame_in \<Rightarrow> renderer \<Rightarrow> renderer" where
  "draw_maneuver i s =
     (let n = next_ptr s;
          s = (if e_has_current s then maneuver_prepare_frame n s else s);
          s = sync_camera_uniforms s
      in if e_has_current s
         then emit (Drawn (e_current s) n (g_global_alpha s)) (maneuver_draw (fi_geo i) (e_current s) n s) else s)"

definition draw_bargraph :: "renderer \<Rightarrow> renderer" where
  "draw_bargraph s =
     (if g_bargraph_alpha s > 0
      then emit (Bargraph
             (if g_bargraph_on s = 2 then (if g_bargraph_blink_vis s then 16 else 0) else g_bargraph_level s)
             (rnd32 (g_bargraph_alpha s * g_fade_alpha s))) s
      else s)"

definition draw_screenshot :: "drained \<Rightarrow> renderer \<Rightarrow> renderer" where
  "draw_screenshot d s = (case d_screenshot d of None \<Rightarrow> s | Some label \<Rightarrow> emit (Screenshot label) s)"

definition announce_frame :: "frame_in \<Rightarrow> renderer \<Rightarrow> renderer" where
  "announce_frame i s =
     (if e_has_current s \<and> (\<not> l_announced_first_frame s \<or> g_frame_ready_pending s)
      then s\<lparr> l_announced_first_frame := True, g_frame_ready_pending := False,
              r_srv := cr_server_mark_frame_ready (fi_send_frame i) (r_srv s) \<rparr>
      else s)"

definition render_frame :: "frame_in \<Rightarrow> drained \<Rightarrow> renderer \<Rightarrow> renderer" where
  "render_frame i d s =
     (if l_dirty s
      then let s = announce_frame i (emit Swapped (draw_screenshot d (draw_bargraph (draw_maneuver i s))))
           in s\<lparr> l_dirty := render_is_animating s \<or> maneuver_needs_redraw s \<or> g_fade_active s \<or> g_bargraph_on s = 2 \<or>
                             (g_bargraph_alpha s > 0 \<and> g_bargraph_alpha s < 1) \<rparr>
      else s)"

definition focus_watchdog :: "frame_in \<Rightarrow> renderer \<Rightarrow> renderer" where
  "focus_watchdog i s =
     (if g_display_active s \<and> e_phase s = ENGINE_IDLE \<and> \<not> render_is_animating s \<and>
         timespec_elapsed_at_least (fi_time i) (l_focus_last s) 30 0
      then emit Ensure_Focus (s\<lparr> l_focus_last := fi_time i \<rparr>) else s)"

definition health_check :: "frame_in \<Rightarrow> renderer \<Rightarrow> renderer" where
  "health_check i s =
     (if timespec_elapsed_at_least (fi_time i) (l_health_last s) 5 0
      then emit Check_Window (s\<lparr> l_health_last := fi_time i \<rparr>) else s)"

definition heartbeat_tick :: "frame_in \<Rightarrow> renderer \<Rightarrow> renderer" where
  "heartbeat_tick i s =
     (if timespec_elapsed_at_least (fi_time i) (l_hb_last s) 1 0
      then s\<lparr> l_hb_last := fi_time i, r_srv := cr_server_send_heartbeat (fi_send_beat i) (r_srv s) \<rparr> else s)"

section \<open>An iteration and the loop\<close>

definition finish_iteration :: "frame_in \<Rightarrow> drained \<Rightarrow> renderer \<Rightarrow> renderer" where
  "finish_iteration i d s =
     heartbeat_tick i (health_check i (focus_watchdog i (render_frame i d
       (bargraph_blink (bargraph_fade (decide_dirty d (fade_tick (resize_viewport i (engine_tick (apply_latest d s))))))))))"

definition main_iteration :: "frame_in \<Rightarrow> renderer \<Rightarrow> renderer option" where
  "main_iteration i s = (case cr_server_poll (fi_poll i) (r_srv s) of
      None \<Rightarrow> None
    | Some srv \<Rightarrow>
        if g_peer_closed srv then Some (s\<lparr> r_srv := srv, l_running := False \<rparr>)
        else (case read_cmds srv of
            None \<Rightarrow> None
          | Some (cs, srv) \<Rightarrow> (case handle_cmds cs (drained0, s\<lparr> r_srv := srv \<rparr>) of
                None \<Rightarrow> None
              | Some (d, s) \<Rightarrow> Some (finish_iteration i d s))))"

primrec main_loop :: "frame_in list \<Rightarrow> renderer \<Rightarrow> renderer option" where
  "main_loop [] s = Some s"
| "main_loop (i # is) s =
     (if l_running s \<and> \<not> fi_close i
      then (case main_iteration i s of None \<Rightarrow> None | Some s \<Rightarrow> main_loop is s) else Some s)"

text \<open>The statics before main, and the state at the loop's start.\<close>

definition renderer0 :: "server \<Rightarrow> int \<Rightarrow> int \<Rightarrow> renderer" where
  "renderer0 srv w h = \<lparr> g_route_slide = 1, g_route_animating = False, g_anim_start = 0, g_anim_target = 1,
     g_slug_override = - 1, g_route_len = 0, g_light_turned = False, g_cam_settle_t = 0, g_cam_settle_active = False,
     g_light_settle_t = 0, g_light_settle_active = False, g_tip_morph_t = 1, g_tip_morph_active = False,
     g_flag_active = False, g_camera_prepared_this_frame = False, g_route_debug = False,
     g_perspective = 1, g_persp_t = 1, g_masks_dirty = True, g_global_alpha = 0,
     e_current = maneuver0, e_next = maneuver0, e_pending = maneuver0, e_has_current = False, e_has_next = False,
     e_has_pending = False, e_phase = ENGINE_IDLE, e_dirty = False, g_fade_alpha = 0, g_fade_active = False,
     g_preload_pending = False, g_frame_ready_pending = False, g_display_active = False, g_bargraph_on = 0,
     g_bargraph_level = 0, g_persp_deferred = False, g_persp_deferred_value = 1, g_bargraph_alpha = 0,
     g_bargraph_blink_vis = True, g_bargraph_blink_timer = 0, g_bargraph_deferred = False,
     g_bargraph_deferred_level = 0, g_bargraph_deferred_mode = 0,
     r_srv = srv, r_grid_on = False, g_3d_offset_adjust = rnd32 (- 10 / 100), l_dirty = True, l_running = True,
     l_announced_first_frame = False, l_fb_w = w, l_fb_h = h, l_focus_last = (0, 0), l_health_last = (0, 0),
     l_hb_last = (0, 0), l_calls = [] \<rparr>"

definition main_start :: "conn_ans \<Rightarrow> int \<Rightarrow> int \<Rightarrow> int \<Rightarrow> renderer" where
  "main_start a w h r = renderer0 (cr_server_mark_ready r (snd (cr_server_init 19800 a server0))) w h"

end
