(* ===== verification/Render_Safety.thy ===== *)
theory Render_Safety
  imports Render_Loop
begin

text \<open>
  What every iteration of the renderer's main loop keeps: the phases agree with
  the maneuvers stored and the animation, every value stays in its range, a
  preloaded maneuver stays transparent until its animation is started, and no
  input makes the loop fail.
\<close>

text \<open>The offsets stay as in the prelude.\<close>

declare One_nat_def [simp del] add_2_eq_Suc [simp del] add_2_eq_Suc' [simp del]

section \<open>The invariant\<close>

definition phases_ok :: "'a engine_scheme \<Rightarrow> bool" where
  "phases_ok s \<longleftrightarrow>
     (e_phase s = ENGINE_PUSHING \<longrightarrow> e_has_current s \<and> e_has_next s) \<and>
     (e_phase s = ENGINE_SLIDING_IN \<longrightarrow> e_has_current s) \<and>
     (e_phase s \<noteq> ENGINE_PUSHING \<longrightarrow> \<not> maneuver_is_pushing s) \<and>
     (e_phase s = ENGINE_IDLE \<longrightarrow> \<not> g_route_animating s \<and> \<not> e_has_pending s)"

definition values_ok :: "'a engine_scheme \<Rightarrow> bool" where
  "values_ok s \<longleftrightarrow>
     0 \<le> g_bargraph_level s \<and> g_bargraph_level s \<le> 16 \<and> g_bargraph_on s \<in> {0, 1, 2} \<and>
     0 \<le> g_bargraph_deferred_level s \<and> g_bargraph_deferred_level s \<le> 16 \<and> g_bargraph_deferred_mode s \<in> {0, 1, 2} \<and>
     g_perspective s \<in> {0, 1} \<and> g_persp_deferred_value s \<in> {0, 1} \<and>
     0 \<le> g_bargraph_alpha s \<and> g_bargraph_alpha s \<le> 1 \<and>
     0 \<le> g_bargraph_blink_timer s \<and> g_bargraph_blink_timer s < BARGRAPH_BLINK_FRAMES"

definition fade_ok :: "'a engine_scheme \<Rightarrow> bool" where
  "fade_ok s \<longleftrightarrow> 0 \<le> g_fade_alpha s \<and> g_fade_alpha s \<le> 1 \<and> g_global_alpha s = g_fade_alpha s \<and>
     (g_preload_pending s \<longrightarrow> e_has_current s \<and> g_fade_alpha s = 0 \<and> \<not> g_fade_active s)"

definition mans_ok :: "'a engine_scheme \<Rightarrow> bool" where
  "mans_ok s \<longleftrightarrow> man_ok (e_current s) \<and> man_ok (e_next s) \<and> man_ok (e_pending s)"

definition engine_ok :: "'a engine_scheme \<Rightarrow> bool" where
  "engine_ok s \<longleftrightarrow> phases_ok s \<and> values_ok s \<and> fade_ok s \<and> mans_ok s"

lemma engine_okI: "phases_ok s \<Longrightarrow> values_ok s \<Longrightarrow> fade_ok s \<Longrightarrow> mans_ok s \<Longrightarrow> engine_ok s"
  by (simp add: engine_ok_def)

lemma engine_okD: "engine_ok s \<Longrightarrow> phases_ok s" "engine_ok s \<Longrightarrow> values_ok s" "engine_ok s \<Longrightarrow> fade_ok s" "engine_ok s \<Longrightarrow> mans_ok s"
  by (simp_all add: engine_ok_def)

section \<open>The engine's operations keep it\<close>

lemma apply_maneuver_keeps:
  "phases_ok s \<Longrightarrow> phases_ok (engine_apply_maneuver m s)"
  "values_ok s \<Longrightarrow> values_ok (engine_apply_maneuver m s)"
  "fade_ok s \<Longrightarrow> fade_ok (engine_apply_maneuver m s)"
  "mans_ok s \<Longrightarrow> man_ok m \<Longrightarrow> mans_ok (engine_apply_maneuver m s)"
     apply (auto simp: phases_ok_def engine_defs maneuver_is_pushing_def)[1]
    apply (auto simp: values_ok_def engine_defs)[1]
   apply (auto simp: fade_ok_def engine_defs)[1]
  apply (auto simp: mans_ok_def engine_defs)[1]
  done

lemma preload_maneuver_keeps:
  "phases_ok s \<Longrightarrow> phases_ok (engine_preload_maneuver m s)"
  "values_ok s \<Longrightarrow> values_ok (engine_preload_maneuver m s)"
  "fade_ok s \<Longrightarrow> fade_ok (engine_preload_maneuver m s)"
  "mans_ok s \<Longrightarrow> man_ok m \<Longrightarrow> mans_ok (engine_preload_maneuver m s)"
     apply (auto simp: phases_ok_def engine_defs maneuver_is_pushing_def)[1]
    apply (auto simp: values_ok_def engine_defs)[1]
   apply (auto simp: fade_ok_def engine_defs)[1]
  apply (auto simp: mans_ok_def engine_defs)[1]
  done

lemma start_preloaded_keeps:
  "phases_ok s \<Longrightarrow> phases_ok (engine_start_preloaded_animation s)"
  "values_ok s \<Longrightarrow> values_ok (engine_start_preloaded_animation s)"
  "fade_ok s \<Longrightarrow> fade_ok (engine_start_preloaded_animation s)"
  "mans_ok s \<Longrightarrow> mans_ok (engine_start_preloaded_animation s)"
     apply (auto simp: phases_ok_def engine_defs maneuver_is_pushing_def)[1]
    apply (auto simp: values_ok_def engine_defs)[1]
   apply (auto simp: fade_ok_def engine_defs)[1]
  apply (auto simp: mans_ok_def engine_defs)[1]
  done

lemma promote_pending_keeps:
  "e_has_current s \<Longrightarrow> phases_ok (promote_pending s)"
  "values_ok s \<Longrightarrow> values_ok (promote_pending s)"
  "fade_ok s \<Longrightarrow> fade_ok (promote_pending s)"
  "mans_ok s \<Longrightarrow> mans_ok (promote_pending s)"
     apply (auto simp: phases_ok_def promote_pending_def anim_defs maneuver_is_pushing_def)[1]
    apply (auto simp: values_ok_def promote_pending_def anim_defs)[1]
   apply (auto simp: fade_ok_def promote_pending_def anim_defs)[1]
  apply (auto simp: mans_ok_def promote_pending_def anim_defs)[1]
  done

lemma promote_pending_fields:
  "maneuver_is_pushing (promote_pending s)" "e_phase (promote_pending s) = ENGINE_PUSHING"
  "e_next (promote_pending s) = e_pending s" "e_has_next (promote_pending s)" "\<not> e_has_pending (promote_pending s)"
  "e_has_current (promote_pending s) = e_has_current s" "e_current (promote_pending s) = e_current s"
  by (simp_all add: promote_pending_def anim_defs maneuver_is_pushing_def)

text \<open>The commit of tick_pushing, before the pending maneuver is looked at.\<close>

definition commit_next :: "'a engine_scheme \<Rightarrow> 'a engine_scheme" where
  "commit_next s =
     (render_invalidate_masks (maneuver_commit_pushed_state
        (if e_has_next s then s\<lparr> e_current := e_next s, e_has_next := False \<rparr> else s)))\<lparr> e_dirty := True \<rparr>"

lemma tick_pushing_commit:
  "tick_pushing s = (if maneuver_is_pushing s then s
     else if e_has_pending s then promote_pending (commit_next s)
     else (commit_next s)\<lparr> e_phase := ENGINE_SLIDING_IN \<rparr>)"
  unfolding tick_pushing_def commit_next_def Let_def by (simp add: anim_defs)

lemma commit_next_keeps:
  "values_ok s \<Longrightarrow> values_ok (commit_next s)" "fade_ok s \<Longrightarrow> fade_ok (commit_next s)" "mans_ok s \<Longrightarrow> mans_ok (commit_next s)"
  "e_has_current (commit_next s) = e_has_current s" "\<not> g_route_animating (commit_next s)"
  "e_current (commit_next s) = (if e_has_next s then e_next s else e_current s)"
  "e_pending (commit_next s) = e_pending s" "e_has_pending (commit_next s) = e_has_pending s"
  by (auto simp: values_ok_def fade_ok_def mans_ok_def commit_next_def anim_defs)

lemma values_phase [simp]: "values_ok (s\<lparr> e_phase := p \<rparr>) = values_ok s" "fade_ok (s\<lparr> e_phase := p \<rparr>) = fade_ok s"
  "mans_ok (s\<lparr> e_phase := p \<rparr>) = mans_ok s"
  by (simp_all add: values_ok_def fade_ok_def mans_ok_def)

lemma tick_pushing_keeps:
  "phases_ok s \<Longrightarrow> e_phase s = ENGINE_PUSHING \<Longrightarrow> phases_ok (tick_pushing s)"
  "values_ok s \<Longrightarrow> values_ok (tick_pushing s)"
  "fade_ok s \<Longrightarrow> fade_ok (tick_pushing s)"
  "mans_ok s \<Longrightarrow> mans_ok (tick_pushing s)"
  by (auto simp: tick_pushing_commit intro!: promote_pending_keeps commit_next_keeps)
    (auto simp: phases_ok_def commit_next_keeps maneuver_is_pushing_def)

lemma settle_idle_keeps:
  "\<not> maneuver_is_animating s \<Longrightarrow> \<not> e_has_pending s \<Longrightarrow> phases_ok (settle_idle s)"
  "values_ok s \<Longrightarrow> values_ok (settle_idle s)"
  "fade_ok s \<Longrightarrow> fade_ok (settle_idle s)"
  "mans_ok s \<Longrightarrow> mans_ok (settle_idle s)"
     apply (auto simp: phases_ok_def settle_idle_def anim_defs maneuver_is_pushing_def maneuver_is_animating_def)[1]
    apply (auto simp: values_ok_def settle_idle_def anim_defs BARGRAPH_BLINK_FRAMES_def)[1]
   apply (auto simp: fade_ok_def settle_idle_def anim_defs)[1]
  apply (auto simp: mans_ok_def settle_idle_def anim_defs)[1]
  done

lemma invalidate_dirty_keeps:
  "phases_ok ((render_invalidate_masks s)\<lparr> e_dirty := b \<rparr>) = phases_ok s"
  "values_ok ((render_invalidate_masks s)\<lparr> e_dirty := b \<rparr>) = values_ok s"
  "fade_ok ((render_invalidate_masks s)\<lparr> e_dirty := b \<rparr>) = fade_ok s"
  "mans_ok ((render_invalidate_masks s)\<lparr> e_dirty := b \<rparr>) = mans_ok s"
  by (simp_all add: phases_ok_def values_ok_def fade_ok_def mans_ok_def render_invalidate_masks_def maneuver_is_pushing_def)

lemma engine_tick_ok:
  assumes "engine_ok s" shows "engine_ok (engine_tick s)"
proof -
  have "phases_ok (engine_tick s)"
    using assms tick_pushing_keeps(1) [of s] settle_idle_keeps(1) [of s] promote_pending_keeps(1) [of s]
    by (cases "e_phase s")
      (auto simp: engine_ok_def engine_tick_def tick_sliding_in_def invalidate_dirty_keeps phases_ok_def [of s])
  moreover have "values_ok (engine_tick s) \<and> fade_ok (engine_tick s) \<and> mans_ok (engine_tick s)"
    using assms tick_pushing_keeps(2-4) [of s] settle_idle_keeps(2-4) [of s] promote_pending_keeps(2-4) [of s]
    by (cases "e_phase s") (auto simp: engine_ok_def engine_tick_def tick_sliding_in_def invalidate_dirty_keeps)
  ultimately show ?thesis by (simp add: engine_ok_def)
qed

section \<open>The frame keeps it\<close>

text \<open>Drawing changes the animation, the perspective's blend and the masks only.\<close>

definition same_engine :: "'a camera_scheme \<Rightarrow> 'a camera_scheme \<Rightarrow> bool" where
  "same_engine s s' \<longleftrightarrow> camera.more s' = camera.more s \<and> g_perspective s' = g_perspective s \<and>
     g_global_alpha s' = g_global_alpha s"

text \<open>The slide and its range.\<close>

definition same_slide :: "'a slide_scheme \<Rightarrow> 'a slide_scheme \<Rightarrow> bool" where
  "same_slide s s' \<longleftrightarrow> g_route_slide s' = g_route_slide s \<and> g_route_animating s' = g_route_animating s \<and>
     g_anim_start s' = g_anim_start s \<and> g_anim_target s' = g_anim_target s \<and> g_slug_override s' = g_slug_override s \<and>
     g_route_len s' = g_route_len s"

lemma same_engine_refl [simp]: "same_engine s s" and same_slide_refl [simp]: "same_slide s s"
  by (simp_all add: same_engine_def same_slide_def)

lemma same_engine_trans: "same_engine a b \<Longrightarrow> same_engine b c \<Longrightarrow> same_engine a c"
  by (simp add: same_engine_def)

lemma same_slide_trans: "same_slide a b \<Longrightarrow> same_slide b c \<Longrightarrow> same_slide a c"
  by (simp add: same_slide_def)

lemma sync_same: "same_engine s (sync_camera_uniforms s)" "same_slide s (sync_camera_uniforms s)"
  "g_cam_settle_active (sync_camera_uniforms s) = g_cam_settle_active s"
  "g_cam_settle_t (sync_camera_uniforms s) = g_cam_settle_t s"
  "g_light_settle_active (sync_camera_uniforms s) = g_light_settle_active s"
  by (simp_all add: sync_camera_uniforms_def same_engine_def same_slide_def Let_def)

lemma camera_settle_same: "same_engine s (update_camera_settle s)" "same_slide s (update_camera_settle s)"
  using sync_same(1,2) [of s] sync_same(1,2) [of "clear_camera_settle ((sync_camera_uniforms s)
    \<lparr> g_cam_settle_t := rnd32 (g_cam_settle_t (sync_camera_uniforms s) + CAMERA_SETTLE_SPEED) \<rparr>)"]
  by (auto simp: update_camera_settle_def set_default_camera_def Let_def same_engine_def same_slide_def clear_camera_settle_def)

lemma light_settle_same: "same_engine s (update_light_settle s)" "same_slide s (update_light_settle s)"
  by (auto simp: update_light_settle_def Let_def same_engine_def same_slide_def clear_light_settle_def)

lemma prepare_frame_same: "same_engine s (maneuver_prepare_frame n s)" "same_slide s (maneuver_prepare_frame n s)"
proof -
  let ?a = "s\<lparr> g_camera_prepared_this_frame := False \<rparr>"
  define b where "b = (if g_cam_settle_active ?a then update_camera_settle ?a else set_default_camera ?a)"
  define c where "c = (if g_light_settle_active b then update_light_settle b else b)"
  have "same_engine s ?a" "same_slide s ?a" by (simp_all add: same_engine_def same_slide_def)
  moreover have "same_engine ?a b" "same_slide ?a b"
    by (auto simp: b_def set_default_camera_def intro: camera_settle_same sync_same)
  moreover have "same_engine b c" "same_slide b c" by (auto simp: c_def intro: light_settle_same)
  moreover have "same_engine c (c\<lparr> g_camera_prepared_this_frame := True \<rparr>)" "same_slide c (c\<lparr> g_camera_prepared_this_frame := True \<rparr>)"
    by (simp_all add: same_engine_def same_slide_def)
  moreover have "maneuver_prepare_frame n s = (if \<not> combined n s then c\<lparr> g_camera_prepared_this_frame := True \<rparr> else ?a)"
    by (simp add: maneuver_prepare_frame_def Let_def b_def c_def)
  ultimately show "same_engine s (maneuver_prepare_frame n s)" "same_slide s (maneuver_prepare_frame n s)"
    by (auto intro: same_engine_trans same_slide_trans)
qed

text \<open>The slide after a step.\<close>

lemma slide_step_more: "slide.more (slide_step c s) = slide.more s"
  by (simp add: slide_step_def Let_def)

lemma tip_morph_same: "slide.more (tip_morph_step st s) = slide.more s" "same_slide s (tip_morph_step st s)"
  by (simp_all add: tip_morph_step_def Let_def same_slide_def)

lemma slide_step_anim: "g_route_animating (slide_step c s) \<Longrightarrow> g_route_animating s"
  "g_anim_target (slide_step c s) = g_anim_target s" "g_anim_start (slide_step c s) = g_anim_start s"
  "g_slug_override (slide_step c s) = g_slug_override s" "g_route_len (slide_step c s) = g_route_len s"
  "g_cam_settle_active (slide_step c s) = g_cam_settle_active s" "g_cam_settle_t (slide_step c s) = g_cam_settle_t s"
  by (simp_all add: slide_step_def Let_def split: if_splits)

lemma same_engine_slide: "slide.more s' = slide.more s \<Longrightarrow> same_engine s s'"
  by (cases s; cases s') (simp add: same_engine_def)

lemma retarget_more: "slide.more (retarget geo s) = slide.more s"
  by (simp add: retarget_def Let_def)

lemma masks_flag_same: "same_engine s (s\<lparr> g_masks_dirty := b \<rparr>)" "same_slide s (s\<lparr> g_masks_dirty := b \<rparr>)"
  by (simp_all add: same_engine_def same_slide_def)

text \<open>A drawn frame: after some camera work the slide makes one step, and a
  handoff may then be retargeted.\<close>

lemma maneuver_draw_cases:
  fixes s :: "'a camera_scheme"
  obtains a :: "'a camera_scheme" and b :: "'a camera_scheme" where "same_engine s a" and "same_slide s a"
    and "b = tip_morph_step st (slide_step (fg_curvature geo) a)" and "same_engine s (maneuver_draw geo st n s)"
    and "if combined n s then same_slide b (maneuver_draw geo st n s) \<or> same_slide (retarget geo b) (maneuver_draw geo st n s)
      else same_slide b (maneuver_draw geo st n s) \<or> same_slide (b\<lparr> g_route_len := fg_route_len geo \<rparr>) (maneuver_draw geo st n s)"
proof -
  define s1 where "s1 = s\<lparr> g_flag_active := ms_icon st = ICON_ARRIVED \<or>
      (case n of None \<Rightarrow> False | Some n \<Rightarrow> ms_icon n = ICON_ARRIVED) \<rparr>"
  define s2 where "s2 = (if combined n s1 then render_invalidate_masks s1
      else if \<not> g_camera_prepared_this_frame s1
      then (if g_cam_settle_active s1 then update_camera_settle s1 else set_default_camera s1) else s1)"
  define a where "a = s2\<lparr> g_camera_prepared_this_frame := False \<rparr>"
  define b where "b = tip_morph_step st (slide_step (fg_curvature geo) a)"
  have c: "combined n s1 = combined n s" by (simp add: combined_def s1_def maneuver_is_pushing_def)
  have 1: "same_engine s s1" "same_slide s s1" by (simp_all add: s1_def same_engine_def same_slide_def)
  have 2: "same_engine s1 s2" "same_slide s1 s2"
    by (auto simp: s2_def set_default_camera_def render_invalidate_masks_def masks_flag_same intro: camera_settle_same sync_same)
  have 3: "same_engine s2 a" "same_slide s2 a" by (simp_all add: a_def same_engine_def same_slide_def)
  have sa: "same_engine s a" "same_slide s a"
    by (rule same_engine_trans [OF same_engine_trans [OF 1(1) 2(1)] 3(1)],
        rule same_slide_trans [OF same_slide_trans [OF 1(2) 2(2)] 3(2)])
  have "slide.more b = slide.more a" by (simp add: b_def tip_morph_same(1) slide_step_more)
  then have ab: "same_engine a b" by (rule same_engine_slide)
  then have sb: "same_engine s b" using sa(1) same_engine_trans by blast
  have rb: "same_engine s (retarget geo b)"
    using same_engine_slide [OF retarget_more [of geo b]] sb same_engine_trans by blast
  have eq: "maneuver_draw geo st n s =
     (if \<not> g_masks_dirty b then (if combined n s then sync_camera_uniforms b else b)
      else if combined n s then sync_camera_uniforms ((retarget geo b)\<lparr> g_masks_dirty := False \<rparr>)
      else if drawn_icon (ms_icon st) then b\<lparr> g_route_len := fg_route_len geo, g_masks_dirty := False \<rparr>
      else b)"
    unfolding maneuver_draw_def Let_def b_def a_def s2_def s1_def c [unfolded s1_def] ..
  let ?r = "(retarget geo b)\<lparr> g_masks_dirty := False \<rparr>" and ?l = "b\<lparr> g_route_len := fg_route_len geo, g_masks_dirty := False \<rparr>"
  have r: "same_engine s (sync_camera_uniforms ?r)" "same_slide (retarget geo b) (sync_camera_uniforms ?r)"
    using same_engine_trans [OF same_engine_trans [OF rb masks_flag_same(1)] sync_same(1)]
      same_slide_trans [OF masks_flag_same(2) sync_same(2)] by blast+
  have l: "same_engine s ?l" "same_slide (b\<lparr> g_route_len := fg_route_len geo \<rparr>) ?l"
    using sb by (simp_all add: same_engine_def same_slide_def)
  have y: "same_engine s (sync_camera_uniforms b)" "same_slide b (sync_camera_uniforms b)"
    using same_engine_trans [OF sb sync_same(1)] sync_same(2) by blast+
  have "same_engine s (maneuver_draw geo st n s)" unfolding eq using r(1) l(1) y(1) sb by simp
  moreover have "if combined n s then same_slide b (maneuver_draw geo st n s) \<or> same_slide (retarget geo b) (maneuver_draw geo st n s)
      else same_slide b (maneuver_draw geo st n s) \<or> same_slide (b\<lparr> g_route_len := fg_route_len geo \<rparr>) (maneuver_draw geo st n s)"
    unfolding eq using r(2) l(2) y(2) by simp
  ultimately show thesis using that [OF sa b_def] by blast
qed

lemma same_engine_fields:
  fixes s s' :: "'a engine_scheme"
  assumes "same_engine s s'"
  shows "e_phase s' = e_phase s" "e_has_current s' = e_has_current s" "e_has_next s' = e_has_next s"
    "e_has_pending s' = e_has_pending s" "e_current s' = e_current s" "e_next s' = e_next s" "e_pending s' = e_pending s"
    "g_fade_alpha s' = g_fade_alpha s" "g_fade_active s' = g_fade_active s" "g_preload_pending s' = g_preload_pending s"
    "g_bargraph_on s' = g_bargraph_on s" "g_display_active s' = g_display_active s" "g_persp_deferred s' = g_persp_deferred s"
    "engine.more s' = engine.more s" "e_dirty s' = e_dirty s" "g_bargraph_alpha s' = g_bargraph_alpha s"
  using assms by (cases s; cases s'; simp add: same_engine_def)+

lemma same_engine_keeps:
  fixes s s' :: "'a engine_scheme"
  assumes "same_engine s s'"
  shows "values_ok s \<Longrightarrow> values_ok s'" "fade_ok s \<Longrightarrow> fade_ok s'" "mans_ok s \<Longrightarrow> mans_ok s'"
  using assms by (cases s; cases s'; simp add: same_engine_def values_ok_def fade_ok_def mans_ok_def)+

text \<open>A frame without a handoff neither starts the animation nor moves its target.\<close>

lemma maneuver_draw_plain:
  assumes "\<not> combined n s"
  shows "g_route_animating (maneuver_draw geo st n s) \<Longrightarrow> g_route_animating s"
    and "g_anim_target (maneuver_draw geo st n s) = g_anim_target s"
proof -
  obtain a b where c: "same_slide s a" "b = tip_morph_step st (slide_step (fg_curvature geo) a)"
      "same_slide b (maneuver_draw geo st n s) \<or> same_slide (b\<lparr> g_route_len := fg_route_len geo \<rparr>) (maneuver_draw geo st n s)"
    by (rule maneuver_draw_cases [of s st geo n]) (use assms in simp)
  have "g_anim_target b = g_anim_target s" "g_route_animating b \<Longrightarrow> g_route_animating s"
    using c(1) tip_morph_same(2) [of "slide_step (fg_curvature geo) a" st] slide_step_anim(1,2) [of "fg_curvature geo" a]
    by (auto simp: same_slide_def c(2))
  then show "g_route_animating (maneuver_draw geo st n s) \<Longrightarrow> g_route_animating s"
    "g_anim_target (maneuver_draw geo st n s) = g_anim_target s"
    using c(3) by (auto simp: same_slide_def)
qed

lemma maneuver_draw_engine: "same_engine s (maneuver_draw geo st n s)"
  by (rule maneuver_draw_cases [of s st geo n])

lemma maneuver_draw_ok:
  fixes s :: "'a engine_scheme"
  assumes "engine_ok s" shows "engine_ok (maneuver_draw geo st n s)"
proof -
  let ?d = "maneuver_draw geo st n s"
  note f = same_engine_fields [OF maneuver_draw_engine [of s geo st n]]
  have "phases_ok ?d"
  proof (cases "e_phase s = ENGINE_PUSHING")
    case True
    then show ?thesis using assms by (simp add: engine_ok_def phases_ok_def f)
  next
    case False
    then have "\<not> maneuver_is_pushing s" using assms by (simp add: engine_ok_def phases_ok_def)
    then have n: "\<not> combined n s" by (simp add: combined_def)
    show ?thesis
      using assms False maneuver_draw_plain [OF n, of geo st] by (auto simp: engine_ok_def phases_ok_def f maneuver_is_pushing_def)
  qed
  then show ?thesis
    using assms same_engine_keeps [OF maneuver_draw_engine [of s geo st n]] by (simp add: engine_ok_def)
qed

lemma same_engine_slide_ok:
  fixes s s' :: "'a engine_scheme"
  assumes "same_engine s s'" and "same_slide s s'" and "engine_ok s" shows "engine_ok s'"
  using assms(2,3) same_engine_keeps [OF assms(1)]
  by (simp add: engine_ok_def phases_ok_def same_engine_fields [OF assms(1)] maneuver_is_pushing_def same_slide_def)

text \<open>The loop's own fields.\<close>

lemma engine_ok_loop [simp]:
  "engine_ok (s\<lparr> l_calls := c \<rparr>) = engine_ok (s :: renderer)"
  "engine_ok (s\<lparr> r_srv := srv \<rparr>) = engine_ok (s :: renderer)" "engine_ok (s\<lparr> r_grid_on := b \<rparr>) = engine_ok (s :: renderer)"
  "engine_ok (s\<lparr> g_3d_offset_adjust := x \<rparr>) = engine_ok (s :: renderer)" "engine_ok (s\<lparr> l_dirty := b \<rparr>) = engine_ok (s :: renderer)"
  "engine_ok (s\<lparr> l_running := b \<rparr>) = engine_ok (s :: renderer)"
  "engine_ok (s\<lparr> l_announced_first_frame := b \<rparr>) = engine_ok (s :: renderer)"
  "engine_ok (s\<lparr> l_fb_w := w \<rparr>) = engine_ok (s :: renderer)" "engine_ok (s\<lparr> l_fb_h := w \<rparr>) = engine_ok (s :: renderer)"
  "engine_ok (s\<lparr> l_focus_last := t \<rparr>) = engine_ok (s :: renderer)" "engine_ok (s\<lparr> l_health_last := t \<rparr>) = engine_ok (s :: renderer)"
  "engine_ok (s\<lparr> l_hb_last := t \<rparr>) = engine_ok (s :: renderer)"
  "engine_ok (s\<lparr> e_dirty := b \<rparr>) = engine_ok (s :: renderer)"
  "engine_ok (s\<lparr> g_masks_dirty := b \<rparr>) = engine_ok (s :: renderer)"
  "engine_ok (s\<lparr> g_display_active := b \<rparr>) = engine_ok (s :: renderer)"
  "engine_ok (s\<lparr> g_frame_ready_pending := b \<rparr>) = engine_ok (s :: renderer)"
  "engine_ok (s\<lparr> g_route_debug := b \<rparr>) = engine_ok (s :: renderer)"
  "engine_ok (s\<lparr> g_persp_deferred := b \<rparr>) = engine_ok (s :: renderer)"
  "engine_ok (s\<lparr> g_bargraph_deferred := b \<rparr>) = engine_ok (s :: renderer)"
  "engine_ok (s\<lparr> g_bargraph_blink_vis := b \<rparr>) = engine_ok (s :: renderer)"
  by (simp_all add: engine_ok_def phases_ok_def values_ok_def fade_ok_def mans_ok_def maneuver_is_pushing_def)

lemma engine_ok_emit [simp]: "engine_ok (emit c s) = engine_ok s"
  by (simp add: emit_def)

section \<open>The loop keeps it\<close>

lemma fade_speed: "0 < FADE_SPEED" "0 < BARGRAPH_FADE_SPEED" "BARGRAPH_FADE_SPEED \<le> 1"
  using rnd32_bounds(2) [of "6 / 100"] by (simp_all add: FADE_SPEED_def BARGRAPH_FADE_SPEED_def rnd32_pos)

lemma engine_ok_bars:
  assumes "engine_ok s" and "0 \<le> l" "l \<le> 16" and "0 \<le> on" "on \<le> 2"
  shows "engine_ok (s\<lparr> g_bargraph_level := l, g_bargraph_on := on \<rparr>)"
proof -
  have "on \<in> {0, 1, 2}" using assms(4,5) by auto
  then show ?thesis
    using assms(1-3) by (simp add: engine_ok_def phases_ok_def values_ok_def fade_ok_def mans_ok_def maneuver_is_pushing_def)
qed

lemma engine_ok_blink: "engine_ok s \<Longrightarrow> engine_ok (s\<lparr> g_bargraph_blink_vis := b, g_bargraph_blink_timer := 0 \<rparr>)"
  by (simp add: engine_ok_def phases_ok_def values_ok_def fade_ok_def mans_ok_def maneuver_is_pushing_def BARGRAPH_BLINK_FRAMES_def)

lemma engine_ok_persp: "engine_ok s \<Longrightarrow> p \<in> {0, 1} \<Longrightarrow> engine_ok (s\<lparr> g_perspective := p \<rparr>)"
  by (simp add: engine_ok_def phases_ok_def values_ok_def fade_ok_def mans_ok_def maneuver_is_pushing_def)

lemma bargraph_cmd_ok: "engine_ok s \<Longrightarrow> engine_ok (bargraph_cmd level mode s)"
proof -
  assume s: "engine_ok s"
  define a where "a = s\<lparr> g_bargraph_level := (if uint level > 16 then 16 else uint level),
      g_bargraph_on := (if uint mode > 2 then 1 else uint mode) \<rparr>"
  have a: "engine_ok a" unfolding a_def by (rule engine_ok_bars [OF s]) simp_all
  have "bargraph_cmd level mode s =
      (if g_bargraph_on a = 2 then a\<lparr> g_bargraph_blink_vis := True, g_bargraph_blink_timer := 0 \<rparr> else a)\<lparr> e_dirty := True \<rparr>"
    by (simp only: bargraph_cmd_def Let_def a_def)
  then show ?thesis using a engine_ok_blink [OF a] by simp
qed

lemma start_preloaded_ok: "engine_ok s \<Longrightarrow> engine_ok (engine_start_preloaded_animation s)"
  using start_preloaded_keeps [of s] by (simp add: engine_ok_def)

lemma cmd_srv:
  "r_srv (engine_start_preloaded_animation s) = r_srv s" "r_srv (bargraph_cmd level mode s) = r_srv s"
  "r_srv (debug_cmd p s) = r_srv s" "r_srv (emit c s) = r_srv s"
  by (simp_all add: engine_start_preloaded_animation_def anim_defs bargraph_cmd_def debug_cmd_def maneuver_toggle_debug_def emit_def)

text \<open>Any packet is handled, and keeps the invariant.\<close>

lemma handle_cmd_ok:
  assumes "pkt_ok cmd" and "man_ok (d_maneuver d)" and "engine_ok s"
  shows "\<exists>d' s'. handle_cmd cmd (d, s) = Some (d', s') \<and> man_ok (d_maneuver d') \<and> engine_ok s' \<and> r_srv s' = r_srv s"
proof -
  have l: "length (c_payload cmd) = 46" using assms(1) by (simp add: pkt_ok_def)
  have nm: "\<exists>d'. note_maneuver got cmd d = Some d' \<and> man_ok (d_maneuver d')" for got
    using decode_maneuver_ok [OF assms(1)] l by (auto simp: note_maneuver_def rd8_def)
  have debug: "engine_ok (debug_cmd p s)" for p
    using assms(3) by (simp add: debug_cmd_def maneuver_toggle_debug_def Let_def)
  have rd: "rd8 (c_payload cmd) 0 = Some (c_payload cmd ! 0)" "rd8 (c_payload cmd) 1 = Some (c_payload cmd ! 1)"
    "rd_mem (c_payload cmd) 0 16 = Some (slice (c_payload cmd) 0 16)"
    using l by (simp_all add: rd8_def rd_mem_def)
  consider "c_cmd cmd = CMD_MANEUVER" | "c_cmd cmd = CMD_PRELOAD_MANEUVER" | "c_cmd cmd = CMD_START_ANIMATION"
    | "c_cmd cmd = CMD_HIDE_DISPLAY" | "c_cmd cmd = CMD_SCREENSHOT" | "c_cmd cmd = CMD_PERSPECTIVE"
    | "c_cmd cmd = CMD_DEBUG" | "c_cmd cmd = CMD_BARGRAPH" | "c_cmd cmd = CMD_SHUTDOWN"
    | "c_cmd cmd \<notin> {CMD_MANEUVER, CMD_PRELOAD_MANEUVER, CMD_START_ANIMATION, CMD_HIDE_DISPLAY, CMD_SCREENSHOT,
        CMD_PERSPECTIVE, CMD_DEBUG, CMD_BARGRAPH, CMD_SHUTDOWN}" by blast
  then show ?thesis
  proof cases
    case 1
    then show ?thesis using nm [of 1] assms(3) by (auto simp: handle_cmd_def cmd_srv)
  next
    case 2
    then show ?thesis using nm [of 2] assms(3) by (auto simp: handle_cmd_def cmd_defs)
  next
    case 3
    then show ?thesis using assms(2,3) by (simp add: handle_cmd_def cmd_defs cmd_srv start_preloaded_ok)
  next
    case 6
    then show ?thesis using assms(2,3) by (simp add: handle_cmd_def cmd_defs rd render_set_perspective_def engine_ok_persp)
  qed (use assms(2,3) debug in \<open>simp_all add: handle_cmd_def cmd_defs rd cmd_srv bargraph_cmd_ok\<close>)
qed

lemma handle_cmds_ok:
  "list_all pkt_ok cs \<Longrightarrow> man_ok (d_maneuver d) \<Longrightarrow> engine_ok s \<Longrightarrow>
    \<exists>d' s'. handle_cmds cs (d, s) = Some (d', s') \<and> man_ok (d_maneuver d') \<and> engine_ok s' \<and> r_srv s' = r_srv s"
proof (induction cs arbitrary: d s)
  case (Cons c cs)
  then obtain d1 s1 where 1: "handle_cmd c (d, s) = Some (d1, s1)" "man_ok (d_maneuver d1)" "engine_ok s1" "r_srv s1 = r_srv s"
    using handle_cmd_ok [of c d s] by auto
  then show ?case using Cons.IH [of d1 s1] Cons.prems by simp
qed simp

lemma mode_range: "0 \<le> x \<Longrightarrow> x \<le> 2 \<Longrightarrow> x \<in> {0, 1, 2 :: int}"
  by auto

lemma apply_latest_ok:
  assumes "engine_ok s" and "man_ok (d_maneuver d)"
  shows "engine_ok (apply_latest d s)"
proof -
  have p: "engine_ok (defer_perspective d s)"
    using assms(1) by (simp add: defer_perspective_def engine_ok_def phases_ok_def values_ok_def fade_ok_def mans_ok_def maneuver_is_pushing_def)
  have "uint (d_bargraph_mode d) \<le> 2 \<Longrightarrow> uint (d_bargraph_mode d) \<in> {0, 1, 2}"
    by (rule mode_range [OF uint_ge_0])
  then have "engine_ok (defer_bargraph d (defer_perspective d s))"
    using p by (simp add: defer_bargraph_def engine_ok_def phases_ok_def values_ok_def fade_ok_def mans_ok_def maneuver_is_pushing_def)
  then show ?thesis
    using assms(2) preload_maneuver_keeps [of "defer_bargraph d (defer_perspective d s)" "d_maneuver d"]
      apply_maneuver_keeps [of "defer_bargraph d (defer_perspective d s)" "d_maneuver d"] assms(1)
    by (simp add: apply_latest_def engine_ok_def Let_def)
qed

lemma resize_ok: "engine_ok s \<Longrightarrow> engine_ok (resize_viewport i s)"
  by (simp add: resize_viewport_def)

lemma fade_tick_ok:
  assumes "engine_ok s" shows "engine_ok (fade_tick s)"
proof (cases "g_fade_active s")
  case True
  let ?a = "rnd32 (g_fade_alpha s + FADE_SPEED)"
  have "0 \<le> ?a"
    using assms fade_speed(1) by (intro rnd32_bounds(3)) (simp add: engine_ok_def fade_ok_def)
  moreover have "\<not> g_preload_pending s" using assms True by (simp add: engine_ok_def fade_ok_def)
  ultimately show ?thesis
    using assms True unfolding engine_ok_def
    by (simp add: fade_tick_def Let_def render_set_global_alpha_def phases_ok_def values_ok_def fade_ok_def mans_ok_def maneuver_is_pushing_def)
next
  case False
  then show ?thesis using assms by (simp add: fade_tick_def)
qed

lemma decide_dirty_ok: "engine_ok s \<Longrightarrow> engine_ok (decide_dirty d s)"
  by (simp add: decide_dirty_def)

lemma bargraph_fade_ok:
  assumes "engine_ok s" shows "engine_ok (bargraph_fade s)"
proof -
  have a: "0 \<le> g_bargraph_alpha s" "g_bargraph_alpha s \<le> 1" using assms by (simp_all add: engine_ok_def values_ok_def)
  have up: "0 \<le> rnd32 (g_bargraph_alpha s + BARGRAPH_FADE_SPEED)"
    using a fade_speed(2) by (intro rnd32_bounds(3)) simp
  have down: "rnd32 (g_bargraph_alpha s - BARGRAPH_FADE_SPEED) \<le> 1"
  proof (cases "0 \<le> g_bargraph_alpha s - BARGRAPH_FADE_SPEED")
    case True
    have "(59 :: rat) / 1000 \<le> BARGRAPH_FADE_SPEED" using rnd32_bounds(1) [of "6 / 100"] by (simp add: BARGRAPH_FADE_SPEED_def)
    moreover define x where "x = g_bargraph_alpha s - BARGRAPH_FADE_SPEED"
    ultimately have "0 \<le> x" "x \<le> 941 / 1000" using True a(2) by linarith+
    then have "rnd32 x \<le> x + x / 16777216" "x / 16777216 \<le> 1 / 16777216" using rnd32_bounds(2) [of x] by simp_all
    then have "rnd32 x \<le> 1" using \<open>x \<le> 941 / 1000\<close> by linarith
    then show ?thesis by (simp add: x_def)
  next
    case False
    then have "\<bar>rnd32 (g_bargraph_alpha s - BARGRAPH_FADE_SPEED) - (g_bargraph_alpha s - BARGRAPH_FADE_SPEED)\<bar> \<le> 1"
      using rnd32_err [of "g_bargraph_alpha s - BARGRAPH_FADE_SPEED"] a fade_speed(3) by simp
    then show ?thesis using False unfolding abs_le_iff by linarith
  qed
  have "engine_ok (s\<lparr> g_bargraph_alpha := x, l_dirty := b \<rparr>)" if "0 \<le> x" "x \<le> 1" for x b
    using assms that by (simp add: engine_ok_def phases_ok_def values_ok_def fade_ok_def mans_ok_def maneuver_is_pushing_def)
  then show ?thesis
    using assms up down a by (simp add: bargraph_fade_def Let_def)
qed

lemma bargraph_blink_ok: "engine_ok s \<Longrightarrow> engine_ok (bargraph_blink s)"
  by (auto simp: bargraph_blink_def Let_def BARGRAPH_BLINK_FRAMES_def engine_ok_def phases_ok_def values_ok_def fade_ok_def mans_ok_def maneuver_is_pushing_def)

lemma draw_maneuver_ok:
  assumes "engine_ok s" shows "engine_ok (draw_maneuver i s)"
proof -
  define a where "a = (if e_has_current s then maneuver_prepare_frame (next_ptr s) s else s)"
  have a: "engine_ok a"
    using assms same_engine_slide_ok [OF prepare_frame_same assms, of "next_ptr s"] by (simp add: a_def)
  have "engine_ok (sync_camera_uniforms a)"
    by (rule same_engine_slide_ok [OF sync_same(1,2) a])
  then show ?thesis
    by (simp add: draw_maneuver_def Let_def a_def [symmetric] maneuver_draw_ok)
qed

lemma render_frame_ok: "engine_ok s \<Longrightarrow> engine_ok (render_frame i d s)"
  by (simp add: render_frame_def Let_def announce_frame_def draw_screenshot_def draw_bargraph_def draw_maneuver_ok split: option.splits)

lemma finish_iteration_ok:
  assumes "engine_ok s" and "man_ok (d_maneuver d)" shows "engine_ok (finish_iteration i d s)"
proof -
  have "engine_ok (render_frame i d (bargraph_blink (bargraph_fade (decide_dirty d
      (fade_tick (resize_viewport i (engine_tick (apply_latest d s))))))))"
    by (intro render_frame_ok bargraph_blink_ok bargraph_fade_ok decide_dirty_ok fade_tick_ok resize_ok engine_tick_ok
        apply_latest_ok assms)
  then show ?thesis
    by (simp add: finish_iteration_def heartbeat_tick_def health_check_def focus_watchdog_def)
qed

section \<open>Runs of the loop\<close>

definition kernel_fits :: "frame_in \<Rightarrow> renderer \<Rightarrow> bool" where
  "kernel_fits i s \<longleftrightarrow> recv_fits (fi_poll i) (reconnect (fi_poll i) (r_srv s))"

inductive reachable :: "renderer \<Rightarrow> bool" where
  start: "reachable (main_start a w h r)"
| iterate: "reachable s \<Longrightarrow> l_running s \<Longrightarrow> kernel_fits i s \<Longrightarrow> main_iteration i s = Some s' \<Longrightarrow> reachable s'"

lemma read_cmds_run: "read_cmds s = Some (cs, s') \<Longrightarrow> srv_run port got cmds s \<Longrightarrow> srv_run port got (cmds @ cs) s'"
proof (induction s arbitrary: cs cmds rule: read_cmds.induct)
  case (1 s)
  show ?case
  proof (cases "cr_server_read_cmd s")
    case None
    then show ?thesis using "1.prems" by (simp add: read_cmds.simps [of s])
  next
    case (Some p)
    obtain c t where p: "p = (c, t)" by (cases p)
    show ?thesis
    proof (cases c)
      case c: None
      then show ?thesis
        using 1 Some p by (auto simp: read_cmds.simps [of s] cr_server_read_cmd_def Let_def split: if_splits bind_splits)
    next
      case c: (Some cmd)
      then obtain cs' where cs': "read_cmds t = Some (cs', s')" "cs = cmd # cs'"
        using "1.prems"(1) Some p by (auto simp: read_cmds.simps [of s] split: option.splits)
      have r: "srv_run port got (cmds @ [cmd]) t" using srv_run.read [OF "1.prems"(2)] Some p c by blast
      show ?thesis using "1.IH" [OF Some p [symmetric] c cs'(1) r] cs'(2) by simp
    qed
  qed
qed

text \<open>The sends of a frame are steps of the server.\<close>

lemma send_run: "srv_run port got cmds s \<Longrightarrow> srv_run port got cmds (cr_server_mark_frame_ready r s)"
  "srv_run port got cmds s \<Longrightarrow> srv_run port got cmds (cr_server_send_heartbeat r s)"
  by (rule srv_run.frame, assumption) (rule srv_run.beat)

lemma engine_srv:
  "r_srv (apply_latest d s) = r_srv s" "r_srv (engine_tick s) = r_srv s" "r_srv (resize_viewport i s) = r_srv s"
  "r_srv (fade_tick s) = r_srv s" "r_srv (decide_dirty d s) = r_srv s" "r_srv (bargraph_fade s) = r_srv s"
  "r_srv (bargraph_blink s) = r_srv s" "r_srv (focus_watchdog i s) = r_srv s" "r_srv (health_check i s) = r_srv s"
          apply (simp add: apply_latest_def defer_bargraph_def defer_perspective_def engine_apply_maneuver_def engine_preload_maneuver_def anim_defs)
         apply (simp add: engine_tick_def tick_pushing_def tick_sliding_in_def settle_idle_def promote_pending_def anim_defs split: engine_phase.splits)
  by (simp_all add: resize_viewport_def fade_tick_def decide_dirty_def bargraph_fade_def bargraph_blink_def focus_watchdog_def
      health_check_def emit_def Let_def render_set_global_alpha_def)

lemma same_engine_loop:
  fixes s s' :: renderer
  assumes "same_engine s s'"
  shows "r_srv s' = r_srv s" "l_calls s' = l_calls s" "l_dirty s' = l_dirty s" "l_running s' = l_running s"
  using same_engine_fields(14) [OF assms] by (cases s; cases s'; simp)+

lemma draw_maneuver_same: "same_engine (if e_has_current s
    then emit (Drawn (e_current s) (next_ptr s) (g_global_alpha s)) s else s) (draw_maneuver i s)"
proof -
  define a where "a = (if e_has_current s then maneuver_prepare_frame (next_ptr s) s else s)"
  have a: "same_engine s a" by (simp add: a_def prepare_frame_same)
  have b: "same_engine s (sync_camera_uniforms a)" by (rule same_engine_trans [OF a sync_same(1)])
  have c: "same_engine s (maneuver_draw (fi_geo i) st n (sync_camera_uniforms a))" for st n
    by (rule same_engine_trans [OF b maneuver_draw_engine])
  have emit: "same_engine (emit f s) (emit f t)" if "same_engine s t" for f t
    using that same_engine_loop(2) [OF that] by (cases s; cases t; simp add: emit_def same_engine_def)
  have "e_has_current (sync_camera_uniforms a) = e_has_current s" "e_current (sync_camera_uniforms a) = e_current s"
      "g_global_alpha (sync_camera_uniforms a) = g_global_alpha s"
    using b by (simp_all add: same_engine_fields(2,5) [OF b]) (simp add: same_engine_def)
  moreover have "draw_maneuver i s = (let t = sync_camera_uniforms a in if e_has_current t
      then emit (Drawn (e_current t) (next_ptr s) (g_global_alpha t)) (maneuver_draw (fi_geo i) (e_current t) (next_ptr s) t) else t)"
    by (simp only: draw_maneuver_def Let_def a_def)
  ultimately show ?thesis using b emit [OF c] by (simp add: Let_def)
qed

lemma render_frame_srv: "srv_run port got cmds (r_srv s) \<Longrightarrow> srv_run port got cmds (r_srv (render_frame i d s))"
proof -
  assume run: "srv_run port got cmds (r_srv s)"
  have d: "r_srv (draw_maneuver i s) = r_srv s"
    using same_engine_loop(1) [OF draw_maneuver_same [of s i]] by (simp add: emit_def split: if_splits)
  have "r_srv (draw_screenshot d (draw_bargraph (draw_maneuver i s))) = r_srv s"
    by (simp add: draw_screenshot_def draw_bargraph_def emit_def d split: option.splits)
  then show ?thesis
    using run send_run(1) [OF run] by (simp add: render_frame_def Let_def announce_frame_def emit_def)
qed

lemma finish_iteration_srv:
  "srv_run port got cmds (r_srv s) \<Longrightarrow> srv_run port got cmds (r_srv (finish_iteration i d s))"
  by (simp add: finish_iteration_def heartbeat_tick_def engine_srv render_frame_srv send_run(2))

text \<open>What every iteration needs and keeps.\<close>

definition renderer_ok :: "renderer \<Rightarrow> bool" where
  "renderer_ok s \<longleftrightarrow> engine_ok s \<and> (\<exists>got cmds. srv_run 19800 got cmds (r_srv s))"

lemma main_iteration_drained:
  assumes "renderer_ok s" and "kernel_fits i s"
  shows "(\<exists>t. main_iteration i s = Some (s\<lparr> r_srv := t, l_running := False \<rparr>) \<and> renderer_ok (s\<lparr> r_srv := t, l_running := False \<rparr>)) \<or>
    (\<exists>cs u d v. main_iteration i s = Some (finish_iteration i d v) \<and> handle_cmds cs (drained0, s\<lparr> r_srv := u \<rparr>) = Some (d, v) \<and>
       man_ok (d_maneuver d) \<and> engine_ok v \<and> renderer_ok (finish_iteration i d v))"
proof -
  obtain got cmds where run: "srv_run 19800 got cmds (r_srv s)" using assms(1) by (auto simp: renderer_ok_def)
  have e: "engine_ok s" using assms(1) by (simp add: renderer_ok_def)
  obtain t where t: "cr_server_poll (fi_poll i) (r_srv s) = Some t"
    using receive_inv [OF reconnect_inv [OF srv_run_inv [OF run]], of "fi_poll i" "fi_poll i"] assms(2)
    by (auto simp: cr_server_poll_def kernel_fits_def)
  obtain got' cmds' where run': "srv_run 19800 got' cmds' t"
    using srv_run.poll [OF run assms(2) [unfolded kernel_fits_def] t] by blast
  show ?thesis
  proof (cases "g_peer_closed t")
    case True
    then show ?thesis using t e run' by (auto simp: main_iteration_def renderer_ok_def)
  next
    case False
    have "srv_ok t" using srv_run_inv [OF run'] by (simp add: srv_inv_def)
    then obtain cs u where u: "read_cmds t = Some (cs, u)" using read_cmds_all by blast
    note run'' = read_cmds_run [OF u run']
    have "list_all pkt_ok cs" using srv_run_inv [OF run''] by (simp add: srv_inv_def)
    moreover have "man_ok (d_maneuver drained0)" by (simp add: drained0_def maneuver0_ok)
    moreover have "engine_ok (s\<lparr> r_srv := u \<rparr>)" using e by simp
    ultimately obtain d v where v: "handle_cmds cs (drained0, s\<lparr> r_srv := u \<rparr>) = Some (d, v)" "man_ok (d_maneuver d)"
        "engine_ok v" "r_srv v = u"
      using handle_cmds_ok [of cs drained0 "s\<lparr> r_srv := u \<rparr>"] by auto
    have "srv_run 19800 got' (cmds' @ cs) (r_srv (finish_iteration i d v))"
      by (rule finish_iteration_srv) (simp add: v(4) run'')
    then have "renderer_ok (finish_iteration i d v)"
      using finish_iteration_ok [OF v(3,2)] by (auto simp: renderer_ok_def)
    moreover have "main_iteration i s = Some (finish_iteration i d v)" using t False u v(1) by (simp add: main_iteration_def)
    ultimately show ?thesis using v by blast
  qed
qed

lemma main_iteration_total:
  assumes "renderer_ok s" and "kernel_fits i s"
  shows "\<exists>s'. main_iteration i s = Some s' \<and> renderer_ok s'"
  using main_iteration_drained [OF assms] by blast

lemma main_start_ok: "renderer_ok (main_start a w h r)"
proof -
  have "srv_run 19800 [] [] (snd (cr_server_init 19800 a server0))"
    by (rule srv_run.init [of 19800 a 0]) (simp add: cr_server_init_def split_def Let_def)
  then have "srv_run 19800 [] [] (r_srv (main_start a w h r))"
    using srv_run.ready by (simp add: main_start_def renderer0_def)
  moreover have "engine_ok (main_start a w h r)"
    by (simp add: main_start_def renderer0_def engine_ok_def phases_ok_def values_ok_def fade_ok_def mans_ok_def
        maneuver0_ok maneuver_is_pushing_def BARGRAPH_BLINK_FRAMES_def)
  ultimately show ?thesis by (auto simp: renderer_ok_def)
qed

lemma reachable_ok: "reachable s \<Longrightarrow> renderer_ok s"
proof (induction rule: reachable.induct)
  case (iterate s i s')
  then show ?case using main_iteration_total [of s i] by auto
qed (rule main_start_ok)

end
