(* ===== verification/Render_Display.thy ===== *)
theory Render_Display
  imports Render_Safety
begin

text \<open>
  What the renderer shows: the calls of an iteration, the transparency of a
  preloaded maneuver, and the orders of commands after which a maneuver or the
  recovery of the focus is lost.
\<close>

text \<open>The offsets stay as in the prelude.\<close>

declare One_nat_def [simp del] add_2_eq_Suc [simp del] add_2_eq_Suc' [simp del]

section \<open>The calls of an iteration\<close>

text \<open>The calls of a drawn frame.\<close>

definition frame_calls :: "drained \<Rightarrow> renderer \<Rightarrow> frame_call list" where
  "frame_calls d s =
     (if l_dirty s
      then (if e_has_current s then [Drawn (e_current s) (next_ptr s) (g_global_alpha s)] else []) @
           (if g_bargraph_alpha s > 0
            then [Bargraph (if g_bargraph_on s = 2 then (if g_bargraph_blink_vis s then 16 else 0) else g_bargraph_level s)
                    (rnd32 (g_bargraph_alpha s * g_fade_alpha s))] else []) @
           (case d_screenshot d of None \<Rightarrow> [] | Some label \<Rightarrow> [Screenshot label]) @ [Swapped]
      else [])"

text \<open>What the calls of a frame show of the state.\<close>

definition same_shown :: "renderer \<Rightarrow> renderer \<Rightarrow> bool" where
  "same_shown s s' \<longleftrightarrow> e_has_current s' = e_has_current s \<and> e_current s' = e_current s \<and> next_ptr s' = next_ptr s \<and>
     g_global_alpha s' = g_global_alpha s \<and> g_fade_alpha s' = g_fade_alpha s \<and> g_preload_pending s' = g_preload_pending s \<and>
     g_bargraph_level s' = g_bargraph_level s \<and> g_bargraph_on s' = g_bargraph_on s \<and> g_bargraph_alpha s' = g_bargraph_alpha s \<and>
     g_bargraph_blink_vis s' = g_bargraph_blink_vis s \<and> e_phase s' = e_phase s \<and> g_fade_active s' = g_fade_active s"

lemma same_shown_trans: "same_shown a b \<Longrightarrow> same_shown b c \<Longrightarrow> same_shown a c"
  by (simp add: same_shown_def)

lemma same_shown_loop [simp]: "same_shown s (s\<lparr> l_calls := c \<rparr>)" "same_shown s (s\<lparr> r_srv := v, l_hb_last := t \<rparr>)"
  "same_shown s (s\<lparr> l_announced_first_frame := b, g_frame_ready_pending := b', r_srv := v \<rparr>)" "same_shown s (s\<lparr> l_dirty := b \<rparr>)"
  "same_shown s (s\<lparr> l_focus_last := t, l_calls := c \<rparr>)" "same_shown s (s\<lparr> l_health_last := t, l_calls := c \<rparr>)" "same_shown s s"
  by (simp_all add: same_shown_def next_ptr_def)

lemma draw_maneuver_shown: "same_shown s (draw_maneuver i s)"
proof -
  define e where "e = (if e_has_current s then emit (Drawn (e_current s) (next_ptr s) (g_global_alpha s)) s else s)"
  have e: "same_engine e (draw_maneuver i s)" using draw_maneuver_same [of s i] by (simp only: e_def)
  have "same_shown s e" by (simp add: e_def emit_def)
  moreover have "same_shown e (draw_maneuver i s)"
    using e by (cases e; cases "draw_maneuver i s"; simp add: same_engine_def same_shown_def next_ptr_def)
  ultimately show ?thesis by (rule same_shown_trans)
qed

lemma draw_maneuver_calls: "l_calls (draw_maneuver i s) =
    l_calls s @ (if e_has_current s then [Drawn (e_current s) (next_ptr s) (g_global_alpha s)] else [])"
  using same_engine_loop(2) [OF draw_maneuver_same [of s i]] by (simp add: emit_def split: if_splits)

lemma render_frame_calls:
  "l_calls (render_frame i d s) = l_calls s @ frame_calls d s" "same_shown s (render_frame i d s)"
proof -
  define a where "a = draw_maneuver i s"
  have a: "same_shown s a" and c: "l_calls a = l_calls s @
      (if e_has_current s then [Drawn (e_current s) (next_ptr s) (g_global_alpha s)] else [])"
    by (simp_all add: a_def draw_maneuver_shown draw_maneuver_calls)
  define b where "b = announce_frame i (emit Swapped (draw_screenshot d (draw_bargraph a)))"
  have b: "same_shown a b"
    by (auto simp: b_def announce_frame_def draw_screenshot_def draw_bargraph_def emit_def same_shown_def next_ptr_def split: option.splits)
  have "l_calls b = l_calls a @
      (if g_bargraph_alpha a > 0
       then [Bargraph (if g_bargraph_on a = 2 then (if g_bargraph_blink_vis a then 16 else 0) else g_bargraph_level a)
               (rnd32 (g_bargraph_alpha a * g_fade_alpha a))] else []) @
      (case d_screenshot d of None \<Rightarrow> [] | Some label \<Rightarrow> [Screenshot label]) @ [Swapped]"
    by (simp add: b_def announce_frame_def draw_screenshot_def draw_bargraph_def emit_def split: option.splits)
  then have lb: "l_calls b = l_calls s @ frame_calls d s" if "l_dirty s"
    using a c that by (simp add: frame_calls_def same_shown_def)
  have r: "render_frame i d s = (if l_dirty s then b\<lparr> l_dirty := render_is_animating b \<or> maneuver_needs_redraw b \<or> g_fade_active b \<or>
      g_bargraph_on b = 2 \<or> (g_bargraph_alpha b > 0 \<and> g_bargraph_alpha b < 1) \<rparr> else s)"
    by (simp add: render_frame_def Let_def b_def a_def)
  show "l_calls (render_frame i d s) = l_calls s @ frame_calls d s"
    unfolding r using lb by (simp add: frame_calls_def)
  show "same_shown s (render_frame i d s)"
    unfolding r using same_shown_trans [OF same_shown_trans [OF a b] same_shown_loop(4)] by simp
qed

text \<open>The calls before the frame.\<close>

definition control_call :: "frame_call \<Rightarrow> bool" where
  "control_call c \<longleftrightarrow> (case c of Preview_Visible b \<Rightarrow> True | Set_Viewport w h \<Rightarrow> True | Ensure_Focus \<Rightarrow> True | Check_Window \<Rightarrow> True
     | _ \<Rightarrow> False)"

definition adds :: "renderer \<Rightarrow> renderer \<Rightarrow> bool" where
  "adds s s' \<longleftrightarrow> (\<exists>cs. l_calls s' = l_calls s @ cs \<and> list_all control_call cs)"

lemma adds_same: "l_calls s' = l_calls s \<Longrightarrow> adds s s'"
  by (simp add: adds_def)

lemma adds_refl [simp]: "adds s s"
  by (simp add: adds_same)

lemma adds_trans: "adds a b \<Longrightarrow> adds b c \<Longrightarrow> adds a c"
  by (fastforce simp: adds_def)

lemma adds_emit: "control_call c \<Longrightarrow> l_calls t = l_calls s \<Longrightarrow> adds s (emit c t)"
  by (simp add: adds_def emit_def)

lemma start_preloaded_calls: "l_calls (engine_start_preloaded_animation s) = l_calls s"
  by (simp add: engine_start_preloaded_animation_def anim_defs)

lemma cmd_calls: "l_calls (bargraph_cmd level mode s) = l_calls s" "l_calls (debug_cmd p s) = l_calls s"
  by (simp_all add: bargraph_cmd_def debug_cmd_def maneuver_toggle_debug_def Let_def)

lemma handle_cmd_adds:
  assumes "handle_cmd cmd (d, s) = Some (d', s')" shows "adds s s'"
proof -
  consider "c_cmd cmd = CMD_MANEUVER" | "c_cmd cmd = CMD_START_ANIMATION" | "c_cmd cmd = CMD_HIDE_DISPLAY"
    | "c_cmd cmd \<notin> {CMD_MANEUVER, CMD_START_ANIMATION, CMD_HIDE_DISPLAY}" by blast
  then show ?thesis
  proof cases
    case 1
    then have "s' = emit (Preview_Visible True) s" using assms by (auto simp: handle_cmd_def cmd_defs split: bind_splits)
    then show ?thesis by (simp add: adds_emit control_call_def)
  next
    case 2
    then have "s' = engine_start_preloaded_animation (emit (Preview_Visible True) s)"
      using assms by (auto simp: handle_cmd_def cmd_defs)
    then show ?thesis by (simp add: adds_def start_preloaded_calls emit_def control_call_def)
  next
    case 3
    then have "s' = emit (Preview_Visible False) (s\<lparr> g_display_active := False \<rparr>)"
      using assms by (auto simp: handle_cmd_def cmd_defs)
    then show ?thesis by (simp add: adds_emit control_call_def)
  next
    case 4
    then have "l_calls s' = l_calls s"
      using assms by (auto simp: handle_cmd_def render_set_perspective_def cmd_calls split: if_splits bind_splits)
    then show ?thesis by (rule adds_same)
  qed
qed

lemma handle_cmds_adds: "handle_cmds cs (d, s) = Some (d', s') \<Longrightarrow> adds s s'"
proof (induction cs arbitrary: d s)
  case (Cons c cs)
  then obtain d1 s1 where "handle_cmd c (d, s) = Some (d1, s1)" "handle_cmds cs (d1, s1) = Some (d', s')"
    by (auto split: bind_splits)
  then show ?case using handle_cmd_adds Cons.IH adds_trans by blast
qed simp

text \<open>The engine's state when the frame is drawn.\<close>

definition before_frame :: "frame_in \<Rightarrow> drained \<Rightarrow> renderer \<Rightarrow> renderer" where
  "before_frame i d s = bargraph_blink (bargraph_fade (decide_dirty d
     (fade_tick (resize_viewport i (engine_tick (apply_latest d s))))))"

lemma engine_calls:
  "l_calls (apply_latest d s) = l_calls s" "l_calls (engine_tick s) = l_calls s"
  "l_calls (fade_tick s) = l_calls s" "l_calls (decide_dirty d s) = l_calls s" "l_calls (bargraph_fade s) = l_calls s"
  "l_calls (bargraph_blink s) = l_calls s"
       apply (simp add: apply_latest_def defer_bargraph_def defer_perspective_def engine_apply_maneuver_def engine_preload_maneuver_def anim_defs)
      apply (simp add: engine_tick_def tick_pushing_def tick_sliding_in_def settle_idle_def promote_pending_def anim_defs split: engine_phase.splits)
  by (simp_all add: fade_tick_def decide_dirty_def bargraph_fade_def bargraph_blink_def Let_def render_set_global_alpha_def)

lemma before_frame_adds: "adds s (before_frame i d s)"
proof -
  have "adds t (resize_viewport i t)" for t
    by (simp add: resize_viewport_def adds_emit control_call_def)
  from this [of "engine_tick (apply_latest d s)"] show ?thesis
    by (simp add: before_frame_def adds_def engine_calls)
qed

lemma finish_iteration_calls:
  "\<exists>cs. l_calls (finish_iteration i d s) = l_calls (before_frame i d s) @ frame_calls d (before_frame i d s) @ cs \<and>
     list_all control_call cs"
  "same_shown (before_frame i d s) (finish_iteration i d s)"
proof -
  define r where "r = render_frame i d (before_frame i d s)"
  have f: "finish_iteration i d s = heartbeat_tick i (health_check i (focus_watchdog i r))"
    by (simp add: finish_iteration_def r_def before_frame_def)
  have "adds r (focus_watchdog i r)" "adds t (health_check i t)" "l_calls (heartbeat_tick i t) = l_calls t" for t
    by (simp_all add: focus_watchdog_def health_check_def heartbeat_tick_def adds_emit control_call_def)
  then have "adds r (finish_iteration i d s)" unfolding f by (simp add: adds_def) (metis append.assoc list_all_append)
  then show "\<exists>cs. l_calls (finish_iteration i d s) = l_calls (before_frame i d s) @ frame_calls d (before_frame i d s) @ cs \<and>
     list_all control_call cs"
    by (auto simp: adds_def r_def render_frame_calls(1))
  have "same_shown r (focus_watchdog i r)" "same_shown t (health_check i t)" "same_shown t (heartbeat_tick i t)" for t
    by (simp_all add: focus_watchdog_def health_check_def heartbeat_tick_def emit_def same_shown_def next_ptr_def)
  then have "same_shown r (finish_iteration i d s)" unfolding f using same_shown_trans by blast
  then show "same_shown (before_frame i d s) (finish_iteration i d s)"
    unfolding r_def using render_frame_calls(2) same_shown_trans by blast
qed

lemma main_iteration_shape:
  assumes "main_iteration i s = Some s'"
  shows "(\<exists>v. s' = s\<lparr> r_srv := v, l_running := False \<rparr>) \<or> (\<exists>d v. adds s v \<and> s' = finish_iteration i d v)"
proof (cases "cr_server_poll (fi_poll i) (r_srv s)")
  case None
  then show ?thesis using assms by (simp add: main_iteration_def)
next
  case (Some t)
  show ?thesis
  proof (cases "g_peer_closed t")
    case True
    then show ?thesis using assms Some by (auto simp: main_iteration_def)
  next
    case False
    obtain cs u where u: "read_cmds t = Some (cs, u)"
      using assms Some False by (cases "read_cmds t") (auto simp: main_iteration_def)
    obtain d v where v: "handle_cmds cs (drained0, s\<lparr> r_srv := u \<rparr>) = Some (d, v)"
      using assms Some False u by (cases "handle_cmds cs (drained0, s\<lparr> r_srv := u \<rparr>)") (auto simp: main_iteration_def)
    have "s' = finish_iteration i d v" using assms Some False u v by (simp add: main_iteration_def)
    moreover have "adds s v" using handle_cmds_adds [OF v] by (simp add: adds_def)
    ultimately show ?thesis by blast
  qed
qed

section \<open>Iterations with given packets\<close>

lemma packets_iteration:
  assumes "srv_ok (r_srv s)" and "0 \<le> g_server_fd (r_srv s)" and "g_recv_len (r_srv s) = 0" and "\<not> g_peer_closed (r_srv s)"
    and "pa_recv (fi_poll i) = Received (concat (map pkt_bytes cs))" and "list_all pkt_ok cs" and "cs \<noteq> []" and "length cs \<le> 10"
  shows "\<exists>u. main_iteration i s = (case handle_cmds cs (drained0, s\<lparr> r_srv := u \<rparr>) of None \<Rightarrow> None
      | Some (d, v) \<Rightarrow> Some (finish_iteration i d v)) \<and> kernel_fits i s \<and> same_conn (r_srv s) u \<and> pending u = [] \<and> srv_ok u"
proof -
  let ?bs = "concat (map pkt_bytes cs)"
  have len: "length ?bs = 48 * length cs"
    using assms(6) by (induction cs) (simp_all add: length_pkt_bytes)
  have r: "reconnect (fi_poll i) (r_srv s) = r_srv s" using assms(2) by (simp add: reconnect_def)
  have p0: "pending (r_srv s) = []" using assms(3) by (simp add: pending_def)
  have nz: "?bs \<noteq> []" using assms(7) by (cases cs) (simp_all add: pkt_bytes_def)
  have fits: "length ?bs \<le> RECV_BUF_SIZE - g_recv_len (r_srv s)" using assms(3,8) len by (simp add: RECV_BUF_SIZE_def)
  have room: "g_recv_len (r_srv s) < RECV_BUF_SIZE" using assms(3) by (simp add: RECV_BUF_SIZE_def)
  obtain t where t: "receive (fi_poll i) (r_srv s) = Some t" "srv_ok t" "pending t = ?bs" "same_conn (r_srv s) t"
    using receive_bytes [OF assms(1,2) room assms(5) nz fits] p0 by auto
  have "dec_all pkt_dec ?bs = (cs, [])"
    by (rule pkts.dec_all_enc [OF assms(6)]) (simp add: pkt_dec_def CR_PKT_SIZE_def)
  then obtain u where u: "read_cmds t = Some (cs, u)" "pending u = []" "srv_ok u" "same_conn t u"
    using read_cmds_all [OF t(2)] t(3) by auto
  have "kernel_fits i s" using fits assms(5) by (simp add: kernel_fits_def r recv_fits_def)
  moreover have "\<not> g_peer_closed t" using t(4) assms(4) by (simp add: same_conn_def)
  moreover have "same_conn (r_srv s) u" using t(4) u(4) same_conn_trans by blast
  ultimately show ?thesis using t(1) u(1-3) by (auto simp: main_iteration_def cr_server_poll_def r)
qed

text \<open>A start with the head unit listening, and an iteration with the given packets.\<close>

definition start1 :: renderer where
  "start1 = main_start answers1 328 181 48"

definition frame1 :: "cr_cmd list \<Rightarrow> frame_in" where
  "frame1 cs = \<lparr> fi_time = (100, 0), fi_close = False, fi_poll = poll1 (concat (map pkt_bytes cs)), fi_w = 328, fi_h = 181,
     fi_masks_resized = False,
     fi_geo = \<lparr> fg_curvature = 1, fg_route_len = 2, fg_road_len = 1, fg_transition_len = 2, fg_light_turned = False \<rparr>,
     fi_send_frame = 48, fi_send_beat = 48 \<rparr>"

definition man_cmd :: "u8 \<Rightarrow> maneuver_state \<Rightarrow> cr_cmd" where
  "man_cmd cid m = \<lparr> c_cmd = cid, c_flags = 3, c_payload = man_payload m 1 9 1 \<rparr>"

lemma man_cmd_ok: "man_ok m \<Longrightarrow> pkt_ok (man_cmd cid m)"
  by (simp add: man_cmd_def pkt_ok_def man_payload_parts(1))

lemma start1_fields:
  "srv_ok (r_srv start1)" "0 \<le> g_server_fd (r_srv start1)" "g_recv_len (r_srv start1) = 0" "\<not> g_peer_closed (r_srv start1)"
  by (simp_all add: start1_def main_start_def renderer0_def cr_server_mark_ready_def send_event_def cr_server_init_def
      try_connect_def answers1_def server0_def srv_ok_def RECV_BUF_SIZE_def logged_def Let_def)

lemma start1_iteration:
  assumes "list_all pkt_ok cs" and "cs \<noteq> []" and "length cs \<le> 10"
  shows "\<exists>u. main_iteration (frame1 cs) start1 = (case handle_cmds cs (drained0, start1\<lparr> r_srv := u \<rparr>) of None \<Rightarrow> None
      | Some (d, v) \<Rightarrow> Some (finish_iteration (frame1 cs) d v)) \<and> kernel_fits (frame1 cs) start1 \<and>
    same_conn (r_srv start1) u \<and> pending u = [] \<and> srv_ok u"
  by (rule packets_iteration [OF start1_fields]) (use assms in \<open>simp_all add: frame1_def poll1_def\<close>)

lemma reachable_start1: "reachable start1"
  unfolding start1_def by (rule reachable.start)

text \<open>The stages that leave a pending preload pending.\<close>

lemma preload_stages:
  "g_preload_pending (engine_tick s) = g_preload_pending s" "g_preload_pending (before_frame i d s) = g_preload_pending (apply_latest d s)"
proof -
  have tick: "g_preload_pending (engine_tick s) = g_preload_pending s" for s :: "'a engine_scheme"
    by (simp add: engine_tick_def tick_pushing_def tick_sliding_in_def settle_idle_def promote_pending_def anim_defs split: engine_phase.splits)
  then show "g_preload_pending (engine_tick s) = g_preload_pending s" .
  have "g_preload_pending (bargraph_blink s) = g_preload_pending s" "g_preload_pending (bargraph_fade s) = g_preload_pending s"
    "g_preload_pending (decide_dirty d s) = g_preload_pending s" "g_preload_pending (fade_tick s) = g_preload_pending s"
    "g_preload_pending (resize_viewport i s) = g_preload_pending s" for s
    by (simp_all add: bargraph_blink_def bargraph_fade_def decide_dirty_def fade_tick_def resize_viewport_def emit_def Let_def
        render_set_global_alpha_def)
  then show "g_preload_pending (before_frame i d t) = g_preload_pending (apply_latest d t)" for t :: renderer
    by (simp add: before_frame_def tick)
qed

section \<open>Properties\<close>

text \<open>Property C8. Every state the loop reaches is well formed: the phase agrees
  with the maneuvers stored and with the animation, every value is in its range,
  the global alpha is the fade's and a preloaded maneuver is at alpha 0; and on
  whatever the kernel, the clock, the window and the geometry answer the next
  iteration runs through and keeps that.\<close>

theorem renderer_loop_safe:
  assumes "reachable s" and "kernel_fits i s"
  shows "engine_ok s \<and> (\<exists>s'. main_iteration i s = Some s' \<and> engine_ok s')"
  using main_iteration_total [OF reachable_ok [OF assms(1)] assms(2)] reachable_ok [OF assms(1)]
  by (auto simp: renderer_ok_def)

lemma renderer_loop_safe_witness:
  "\<exists>s'. main_iteration (frame1 [man_cmd CMD_MANEUVER roundabout2]) start1 = Some s' \<and> engine_ok s'"
proof -
  have "list_all pkt_ok [man_cmd CMD_MANEUVER roundabout2]" by (simp add: man_cmd_ok roundabout2_ok)
  then have "kernel_fits (frame1 [man_cmd CMD_MANEUVER roundabout2]) start1"
    using start1_iteration [of "[man_cmd CMD_MANEUVER roundabout2]"] by auto
  from renderer_loop_safe [OF reachable_start1 this] show ?thesis by blast
qed

text \<open>Property C9. An iteration draws nothing before a maneuver is stored; the
  frame it draws shows the current maneuver and the one pushed in at the fade's
  alpha, the bargraph has 0 to 16 bars, and as long as a preloaded maneuver is
  not started everything is drawn fully transparent.\<close>

theorem preload_stays_hidden:
  assumes "reachable s" and "kernel_fits i s" and "main_iteration i s = Some s'"
  shows "\<exists>cs. l_calls s' = l_calls s @ cs \<and>
    (\<forall>m n a. Drawn m n a \<in> set cs \<longrightarrow> e_has_current s' \<and> m = e_current s' \<and> n = next_ptr s' \<and> a = g_fade_alpha s' \<and>
       (g_preload_pending s' \<longrightarrow> a = 0)) \<and>
    (\<forall>bars a. Bargraph bars a \<in> set cs \<longrightarrow> 0 \<le> bars \<and> bars \<le> 16 \<and> (g_preload_pending s' \<longrightarrow> a = 0))"
proof -
  have ok: "engine_ok s'"
    using main_iteration_total [OF reachable_ok [OF assms(1)] assms(2)] assms(3) by (auto simp: renderer_ok_def)
  consider v where "s' = s\<lparr> r_srv := v, l_running := False \<rparr>" | d v where "adds s v" "s' = finish_iteration i d v"
    using main_iteration_shape [OF assms(3)] by blast
  then show ?thesis
  proof cases
    case 1
    then show ?thesis by simp
  next
    case 2
    let ?t = "before_frame i d v"
    have t: "same_shown ?t s'" using finish_iteration_calls(2) 2(2) by simp
    obtain as where as: "l_calls ?t = l_calls s @ as" "list_all control_call as"
      using adds_trans [OF 2(1) before_frame_adds] by (auto simp: adds_def)
    obtain bs where bs: "l_calls s' = l_calls ?t @ frame_calls d ?t @ bs" "list_all control_call bs"
      using finish_iteration_calls(1) [of i d v] 2(2) by blast
    have "c \<notin> set as" "c \<notin> set bs" if "\<not> control_call c" for c
      using as(2) bs(2) that by (auto simp: list_all_iff)
    then have dr: "Drawn m n a \<in> set (frame_calls d ?t)" if "Drawn m n a \<in> set (as @ frame_calls d ?t @ bs)" for m n a
      using that by (auto simp: control_call_def)
    have ba: "Bargraph l a \<in> set (frame_calls d ?t)" if "Bargraph l a \<in> set (as @ frame_calls d ?t @ bs)" for l a
      using that as(2) bs(2) by (auto simp: control_call_def list_all_iff)
    have f: "g_global_alpha s' = g_fade_alpha s'" "g_preload_pending s' \<longrightarrow> g_fade_alpha s' = 0"
      "0 \<le> g_bargraph_level s'" "g_bargraph_level s' \<le> 16"
      using ok by (simp_all add: engine_ok_def fade_ok_def values_ok_def)
    have "Drawn m n a \<in> set (frame_calls d ?t) \<Longrightarrow> e_has_current s' \<and> m = e_current s' \<and> n = next_ptr s' \<and> a = g_fade_alpha s'" for m n a
      using t f(1) by (auto simp: frame_calls_def same_shown_def split: if_splits option.splits)
    moreover have "Bargraph l a \<in> set (frame_calls d ?t) \<Longrightarrow>
        0 \<le> l \<and> l \<le> 16 \<and> a = rnd32 (g_bargraph_alpha s' * g_fade_alpha s')" for l a
      using t f(3,4) by (auto simp: frame_calls_def same_shown_def split: if_splits option.splits)
    ultimately show ?thesis
      using dr ba f(2) as(1) bs(1) by (intro exI [of _ "as @ frame_calls d ?t @ bs"]) fastforce
  qed
qed

text \<open>The first iteration gets a preload.\<close>

lemma preload_stays_hidden_witness:
  "\<exists>s' cs. main_iteration (frame1 [man_cmd CMD_PRELOAD_MANEUVER roundabout2]) start1 = Some s' \<and> g_preload_pending s' \<and>
     l_calls s' = l_calls start1 @ cs \<and> (\<forall>m n a. Drawn m n a \<in> set cs \<longrightarrow> m = e_current s' \<and> a = 0)"
proof -
  let ?c = "man_cmd CMD_PRELOAD_MANEUVER roundabout2"
  let ?d = "drained0\<lparr> d_got := 2, d_maneuver := roundabout2, d_flags := 3, d_perspective := c_payload ?c ! 43,
      d_bargraph_level := c_payload ?c ! 44, d_bargraph_mode := c_payload ?c ! 45 \<rparr>"
  have ok: "pkt_ok ?c" by (simp add: man_cmd_ok roundabout2_ok)
  obtain u where u: "main_iteration (frame1 [?c]) start1 = (case handle_cmds [?c] (drained0, start1\<lparr> r_srv := u \<rparr>) of None \<Rightarrow> None
      | Some (d, v) \<Rightarrow> Some (finish_iteration (frame1 [?c]) d v))" and fits: "kernel_fits (frame1 [?c]) start1"
    using start1_iteration [of "[?c]"] ok by auto
  have "decode_maneuver ?c = Some roundabout2" unfolding man_cmd_def by (rule decode_man_payload [OF roundabout2_ok])
  moreover have "length (c_payload ?c) = 46" using ok by (simp add: pkt_ok_def)
  ultimately have "note_maneuver 2 ?c drained0 = Some ?d"
    by (simp add: note_maneuver_def rd8_def) (simp add: man_cmd_def)
  then have "handle_cmds [?c] (drained0, start1\<lparr> r_srv := u \<rparr>) = Some (?d, start1\<lparr> r_srv := u \<rparr>)"
    by (simp add: handle_cmd_def man_cmd_def cmd_defs)
  then have it: "main_iteration (frame1 [?c]) start1 = Some (finish_iteration (frame1 [?c]) ?d (start1\<lparr> r_srv := u \<rparr>))"
    by (simp add: u)
  have "g_preload_pending (apply_latest ?d s)" for s
    by (simp add: apply_latest_def engine_preload_maneuver_def Let_def)
  then have "g_preload_pending (before_frame (frame1 [?c]) ?d (start1\<lparr> r_srv := u \<rparr>))"
    by (simp only: preload_stages)
  then have p: "g_preload_pending (finish_iteration (frame1 [?c]) ?d (start1\<lparr> r_srv := u \<rparr>))"
    using finish_iteration_calls(2) [of "frame1 [?c]" ?d "start1\<lparr> r_srv := u \<rparr>"] by (simp add: same_shown_def)
  show ?thesis
    using preload_stays_hidden [OF reachable_start1 fits it] it p by blast
qed

text \<open>Property C39. A maneuver that arrives between a preload and the start of its
  animation is lost: starting puts the engine into the slide-in phase with the
  maneuver still stored as the next one, and once the slide-in ends, however the
  frames went, the engine is idle with the preloaded maneuver.\<close>

theorem maneuver_before_start_lost:
  assumes "s' = engine_start_preloaded_animation (engine_apply_maneuver b (engine_preload_maneuver a s))"
    and "same_engine s' t" and "\<not> maneuver_is_animating t"
  shows "e_has_next s' \<and> e_next s' = b \<and> e_phase s' = ENGINE_SLIDING_IN \<and>
    e_phase (engine_tick t) = ENGINE_IDLE \<and> e_current (engine_tick t) = a"
proof -
  have s': "e_has_next s'" "e_next s' = b" "e_phase s' = ENGINE_SLIDING_IN" "e_current s' = a" "\<not> e_has_pending s'"
    unfolding assms(1) by (simp_all add: engine_defs)
  have t: "e_phase t = ENGINE_SLIDING_IN" "e_current t = a" "\<not> e_has_pending t"
    using s' same_engine_fields [OF assms(2)] by simp_all
  have "e_phase (settle_idle t) = ENGINE_IDLE" "e_current (settle_idle t) = e_current t"
    by (simp_all add: settle_idle_def anim_defs)
  then show ?thesis using s' t assms(3) by (simp add: engine_tick_def tick_sliding_in_def)
qed

definition straight_on :: maneuver_state where
  "straight_on = maneuver0\<lparr> ms_icon := ICON_APPROACH \<rparr>"

lemma maneuver_before_start_lost_witness:
  "\<exists>s'. s' = engine_start_preloaded_animation (engine_apply_maneuver roundabout2 (engine_preload_maneuver straight_on start1)) \<and>
     e_next s' = roundabout2 \<and> e_current (engine_tick (s'\<lparr> g_route_animating := False \<rparr>)) = straight_on"
proof -
  define s' where "s' = engine_start_preloaded_animation (engine_apply_maneuver roundabout2 (engine_preload_maneuver straight_on start1))"
  have "same_engine s' (s'\<lparr> g_route_animating := False \<rparr>)" by (simp add: same_engine_def)
  moreover have "\<not> maneuver_is_animating (s'\<lparr> g_route_animating := False \<rparr>)"
    by (simp add: maneuver_is_animating_def s'_def engine_defs)
  ultimately show ?thesis using maneuver_before_start_lost [OF s'_def] s'_def by blast
qed

text \<open>The commands other than a preload leave the display's state off.\<close>

lemma handle_cmd_display:
  assumes "handle_cmd cmd (d, s) = Some (d', s')" and "c_cmd cmd \<noteq> CMD_PRELOAD_MANEUVER"
    and "\<not> g_display_active s" and "\<not> g_preload_pending s" and "d_got d \<noteq> 2"
  shows "\<not> g_display_active s' \<and> \<not> g_preload_pending s' \<and> d_got d' \<noteq> 2"
proof -
  have st: "engine_start_preloaded_animation (emit c s) = emit c s" for c
    using assms(4) by (simp add: engine_start_preloaded_animation_def emit_def)
  have dbg: "g_display_active (debug_cmd p s) = g_display_active s" "g_preload_pending (debug_cmd p s) = g_preload_pending s" for p
    by (simp_all add: debug_cmd_def maneuver_toggle_debug_def Let_def)
  have bar: "g_display_active (bargraph_cmd l m s) = g_display_active s" "g_preload_pending (bargraph_cmd l m s) = g_preload_pending s" for l m
    by (simp_all add: bargraph_cmd_def Let_def)
  have em: "g_display_active (emit c s) = g_display_active s" "g_preload_pending (emit c s) = g_preload_pending s" for c and s :: renderer
    by (simp_all add: emit_def)
  have nm: "note_maneuver 1 cmd d = Some d' \<Longrightarrow> d_got d' \<noteq> 2" for d'
    by (auto simp: note_maneuver_def split: bind_splits)
  show ?thesis
    using assms nm unfolding handle_cmd_def prod.case
    by (auto simp: st dbg bar em render_set_perspective_def split: if_splits bind_splits)
qed

lemma handle_cmds_display:
  "handle_cmds cs (d, s) = Some (d', s') \<Longrightarrow> list_all (\<lambda>c. c_cmd c \<noteq> CMD_PRELOAD_MANEUVER) cs \<Longrightarrow> \<not> g_display_active s \<Longrightarrow>
    \<not> g_preload_pending s \<Longrightarrow> d_got d \<noteq> 2 \<Longrightarrow> \<not> g_display_active s' \<and> \<not> g_preload_pending s' \<and> d_got d' \<noteq> 2"
proof (induction cs arbitrary: d s)
  case (Cons c cs)
  then obtain d1 s1 where 1: "handle_cmd c (d, s) = Some (d1, s1)" "handle_cmds cs (d1, s1) = Some (d', s')"
    by (auto split: bind_splits)
  have "\<not> g_display_active s1 \<and> \<not> g_preload_pending s1 \<and> d_got d1 \<noteq> 2"
    using handle_cmd_display [OF 1(1)] Cons.prems by simp
  then show ?case using Cons.IH [OF 1(2)] Cons.prems by simp
qed simp

lemma display_stages: "g_display_active (finish_iteration i d s) = g_display_active (apply_latest d s)"
proof -
  have draw: "g_display_active (draw_maneuver i s) = g_display_active s" for s
    using same_engine_fields(12) [OF draw_maneuver_same [of s i]] by (simp add: emit_def split: if_splits)
  have tick: "g_display_active (engine_tick s) = g_display_active s" for s :: renderer
    by (simp add: engine_tick_def tick_pushing_def tick_sliding_in_def settle_idle_def promote_pending_def anim_defs split: engine_phase.splits)
  have frame: "g_display_active (render_frame i d s) = g_display_active s" for s
    by (simp add: render_frame_def announce_frame_def draw_screenshot_def draw_bargraph_def emit_def draw Let_def split: option.splits)
  have stages: "g_display_active (bargraph_blink s) = g_display_active s" "g_display_active (bargraph_fade s) = g_display_active s"
    "g_display_active (decide_dirty d s) = g_display_active s" "g_display_active (fade_tick s) = g_display_active s"
    "g_display_active (resize_viewport i s) = g_display_active s" "g_display_active (heartbeat_tick i s) = g_display_active s"
    "g_display_active (health_check i s) = g_display_active s" "g_display_active (focus_watchdog i s) = g_display_active s" for s
    by (simp_all add: bargraph_blink_def bargraph_fade_def decide_dirty_def fade_tick_def resize_viewport_def emit_def Let_def
        render_set_global_alpha_def heartbeat_tick_def health_check_def focus_watchdog_def)
  show ?thesis by (simp add: finish_iteration_def stages frame tick)
qed

text \<open>Property C40. Once the display is hidden only a preload and its start turn the
  recovery of the focus on again: whatever other packets an iteration drains, a
  maneuver followed by the start of the animation included, the display counts
  as hidden afterwards and the focus watchdog does nothing.\<close>

theorem focus_recovery_stays_off:
  assumes "handle_cmds cs (drained0, s) = Some (d, v)" and "list_all (\<lambda>c. c_cmd c \<noteq> CMD_PRELOAD_MANEUVER) cs"
    and "\<not> g_display_active s" and "\<not> g_preload_pending s"
  shows "\<not> g_display_active (finish_iteration i d v) \<and> \<not> g_preload_pending (finish_iteration i d v) \<and>
    focus_watchdog i' (finish_iteration i d v) = finish_iteration i d v"
proof -
  have v: "\<not> g_display_active v" "\<not> g_preload_pending v" "d_got d \<noteq> 2"
    using handle_cmds_display [OF assms(1,2,3,4)] by (simp_all add: drained0_def)
  have "g_display_active (apply_latest d v) = g_display_active v" "g_preload_pending (apply_latest d v) = g_preload_pending v"
    using v(3) by (simp_all add: apply_latest_def defer_bargraph_def defer_perspective_def engine_apply_maneuver_def anim_defs)
  then have "\<not> g_display_active (finish_iteration i d v)" "\<not> g_preload_pending (before_frame i d v)"
    using v by (simp_all add: display_stages preload_stages(2))
  moreover have "g_preload_pending (finish_iteration i d v) = g_preload_pending (before_frame i d v)"
    using finish_iteration_calls(2) [of i d v] by (simp add: same_shown_def)
  ultimately show ?thesis by (simp add: focus_watchdog_def)
qed

lemma focus_recovery_stays_off_witness:
  "\<exists>d v. handle_cmds [man_cmd CMD_MANEUVER roundabout2, man_cmd CMD_START_ANIMATION maneuver0] (drained0, start1) = Some (d, v) \<and>
     \<not> g_display_active (finish_iteration (frame1 []) d v)"
proof -
  let ?cs = "[man_cmd CMD_MANEUVER roundabout2, man_cmd CMD_START_ANIMATION maneuver0]"
  have s: "\<not> g_display_active start1" "\<not> g_preload_pending start1" by (simp_all add: start1_def main_start_def renderer0_def)
  have ok: "list_all pkt_ok ?cs" "man_ok (d_maneuver drained0)" "engine_ok start1"
    using reachable_ok [OF reachable_start1] by (simp_all add: man_cmd_ok roundabout2_ok maneuver0_ok drained0_def renderer_ok_def)
  then obtain d v where h: "handle_cmds ?cs (drained0, start1) = Some (d, v)" using handle_cmds_ok by blast
  have "list_all (\<lambda>c. c_cmd c \<noteq> CMD_PRELOAD_MANEUVER) ?cs" by (simp add: man_cmd_def cmd_defs)
  from focus_recovery_stays_off [OF h this s] show ?thesis using h by blast
qed

end
