(* ===== verification/Render_Settle.thy ===== *)
theory Render_Settle
  imports Render_Display
begin

text \<open>
  The engine comes to rest: with no new command, and road lengths in the range
  the renderer draws, every transition ends after a bounded number of frames,
  and the maneuver shown is then the latest one.  The argument is a measure: the
  rank of the phase before the frames its animation has left.
\<close>

text \<open>The offsets stay as in the prelude.\<close>

declare One_nat_def [simp del] add_2_eq_Suc [simp del] add_2_eq_Suc' [simp del]

section \<open>The latest maneuver\<close>

text \<open>The newest maneuver the engine holds: what its transitions work towards, and the
  abstraction they keep.\<close>

definition latest :: "'a engine_scheme \<Rightarrow> maneuver_state" where
  "latest s = (if e_has_pending s then e_pending s
     else if e_phase s = ENGINE_PUSHING then e_next s else e_current s)"

lemma latest_apply: "phases_ok s \<Longrightarrow> latest (engine_apply_maneuver m s) = m"
  by (cases "e_phase s") (simp_all add: latest_def phases_ok_def engine_apply_maneuver_def anim_defs)

lemma latest_preload: "latest (engine_preload_maneuver m s) = m"
  by (simp add: latest_def engine_preload_maneuver_def anim_defs)

lemma latest_tick: "phases_ok s \<Longrightarrow> latest (engine_tick s) = latest s"
proof (cases "e_phase s")
  case ENGINE_IDLE
  then show ?thesis by (simp add: engine_tick_def)
next
  case ENGINE_PUSHING
  moreover assume "phases_ok s"
  ultimately show ?thesis
    by (simp add: engine_tick_def tick_pushing_commit latest_def promote_pending_fields commit_next_keeps phases_ok_def)
next
  case ENGINE_SLIDING_IN
  have "latest (settle_idle s) = e_current s" if "\<not> e_has_pending s"
    using that by (simp add: latest_def settle_idle_def anim_defs)
  moreover have "latest ((render_invalidate_masks (promote_pending s))\<lparr> e_dirty := True \<rparr>) = e_pending s"
    by (simp add: latest_def promote_pending_def anim_defs)
  moreover have "latest s = (if e_has_pending s then e_pending s else e_current s)"
    using ENGINE_SLIDING_IN by (simp add: latest_def)
  ultimately show ?thesis
    using ENGINE_SLIDING_IN by (simp add: engine_tick_def tick_sliding_in_def)
qed

lemma latest_same: "same_engine s s' \<Longrightarrow> latest s' = latest s"
  for s s' :: "'a engine_scheme"
  by (simp add: latest_def same_engine_fields)

section \<open>The range of the slide\<close>

text \<open>Road lengths as the maneuvers have them, with room to spare: the window is
  two units wide, a road is between half a unit and four units long.\<close>

definition geo_ok :: "frame_geo \<Rightarrow> bool" where
  "geo_ok g \<longleftrightarrow> 0 \<le> fg_curvature g \<and> 1 / 2 \<le> fg_road_len g \<and> fg_road_len g \<le> 4 \<and> fg_transition_len g \<le> 8 \<and>
     fg_route_len g \<le> 10"

definition slide_range :: "'a slide_scheme \<Rightarrow> bool" where
  "slide_range s \<longleftrightarrow> 0 \<le> g_route_slide s \<and> g_route_slide s \<le> 18 \<and> 0 \<le> g_anim_start s \<and> g_anim_start s \<le> 1 \<and>
     0 \<le> g_anim_target s \<and> g_anim_target s \<le> 18 \<and> g_slug_override s \<le> 4 \<and> g_route_len s \<le> 10"

text \<open>Without a handoff the slide goes from 0 to 1.\<close>

definition slide_plain :: "'a slide_scheme \<Rightarrow> bool" where
  "slide_plain s \<longleftrightarrow> g_route_slide s \<le> 1 \<and> (g_route_animating s \<longrightarrow> g_anim_target s = 1)"

definition slide_ok :: "'a engine_scheme \<Rightarrow> bool" where
  "slide_ok s \<longleftrightarrow> slide_range s \<and> 0 \<le> g_cam_settle_t s \<and> g_cam_settle_t s \<le> 1 \<and>
     (e_phase s \<noteq> ENGINE_PUSHING \<longrightarrow> slide_plain s)"

lemmas slide_ok_defs = slide_ok_def slide_range_def slide_plain_def

lemma apply_slide_ok: "slide_ok s \<Longrightarrow> phases_ok s \<Longrightarrow> slide_ok (engine_apply_maneuver m s)"
  by (cases "e_phase s") (simp_all add: slide_ok_defs engine_apply_maneuver_def anim_defs)

lemma preload_slide_ok: "slide_ok s \<Longrightarrow> slide_ok (engine_preload_maneuver m s)"
  by (simp add: slide_ok_defs engine_preload_maneuver_def anim_defs)

lemma start_slide_ok: "slide_ok s \<Longrightarrow> slide_ok (engine_start_preloaded_animation s)"
  by (simp add: slide_ok_defs engine_start_preloaded_animation_def anim_defs)

lemma promote_slide_ok: "slide_ok s \<Longrightarrow> g_route_slide s \<le> 1 \<Longrightarrow> slide_ok (promote_pending s)"
  by (simp add: slide_ok_defs promote_pending_def anim_defs)

lemma commit_slide_ok: "slide_ok s \<Longrightarrow> slide_ok (commit_next s) \<and> g_route_slide (commit_next s) = 1 \<and> slide_ok ((commit_next s)\<lparr> e_phase := p \<rparr>)"
  by (simp add: slide_ok_defs commit_next_def anim_defs)

lemma settle_slide_ok: "slide_ok s \<Longrightarrow> e_phase s \<noteq> ENGINE_PUSHING \<Longrightarrow> slide_ok (settle_idle s)"
  by (simp add: slide_ok_defs settle_idle_def anim_defs)

lemma invalidate_slide_ok: "slide_ok ((render_invalidate_masks s)\<lparr> e_dirty := b \<rparr>) = slide_ok s"
  by (simp add: slide_ok_defs render_invalidate_masks_def)

lemma tick_slide_ok:
  assumes "slide_ok s" shows "slide_ok (engine_tick s)"
proof (cases "e_phase s")
  case ENGINE_IDLE
  then show ?thesis using assms by (simp add: engine_tick_def)
next
  case ENGINE_PUSHING
  then show ?thesis
    using assms commit_slide_ok [OF assms] promote_slide_ok [of "commit_next s"] by (simp add: engine_tick_def tick_pushing_commit)
next
  case ENGINE_SLIDING_IN
  have "g_route_slide s \<le> 1" using assms ENGINE_SLIDING_IN by (simp add: slide_ok_defs)
  then show ?thesis
    using ENGINE_SLIDING_IN assms promote_slide_ok [OF assms] settle_slide_ok [OF assms]
    by (simp add: engine_tick_def tick_sliding_in_def invalidate_slide_ok)
qed

section \<open>The progress of a frame\<close>

lemma route_speeds: "99999 / 10000000 \<le> ROUTE_SPEED_MIN" "ROUTE_SPEED_MIN \<le> ROUTE_SPEED_PEAK"
  using rnd32_bounds(1) [of "10 / 1000"] rnd32_bounds(2) [of "10 / 1000"] rnd32_bounds(1) [of "45 / 1000"]
  by (simp_all add: ROUTE_SPEED_MIN_def ROUTE_SPEED_PEAK_def)

lemma slide_speed_low:
  assumes "0 \<le> curv" shows "99 / 10000 \<le> slide_speed curv s"
proof -
  obtain e where e: "slide_speed curv s = rnd32 (ROUTE_SPEED_MIN + rnd32 (rnd32 (rnd32 (ROUTE_SPEED_PEAK - ROUTE_SPEED_MIN) * e) * curv))"
      "rnd32 (15 / 100) \<le> e"
    unfolding slide_speed_def Let_def by (simp split: if_splits)
  have "0 \<le> e" using e(2) rnd32_bounds(3) [of "15 / 100"] by simp
  moreover have "0 \<le> rnd32 (ROUTE_SPEED_PEAK - ROUTE_SPEED_MIN)" using route_speeds(2) by (intro rnd32_bounds(3)) simp
  ultimately have "0 \<le> rnd32 (ROUTE_SPEED_PEAK - ROUTE_SPEED_MIN) * e" by simp
  from rnd32_bounds(3) [OF this] have "0 \<le> rnd32 (rnd32 (ROUTE_SPEED_PEAK - ROUTE_SPEED_MIN) * e) * curv" using assms by simp
  from rnd32_bounds(3) [OF this]
  have "99999 / 10000000 \<le> ROUTE_SPEED_MIN + rnd32 (rnd32 (rnd32 (ROUTE_SPEED_PEAK - ROUTE_SPEED_MIN) * e) * curv)"
    using route_speeds(1) by linarith
  from rnd32_ge_mono [OF this] show ?thesis by (simp add: e(1))
qed

lemma slide_length_range:
  assumes "g_slug_override s \<le> 4" and "g_route_len s \<le> 10"
  shows "0 < slide_length s" "slide_length s \<le> 10"
proof -
  have tenth: "0 < rnd32 (1 / 10)" "rnd32 (1 / 10) \<le> 1" using rnd32_bounds(2) [of "1 / 10"] by (simp_all add: rnd32_pos)
  have ext: "499999 / 1000000 \<le> ROUTE_EXTEND" using rnd32_bounds(1) [of "5 / 10"] by (simp add: ROUTE_EXTEND_def)
  then have "999998 / 1000000 \<le> 2 * ROUTE_EXTEND" by simp
  from rnd32_ge_mono [OF this] have "9 / 10 \<le> rnd32 (2 * ROUTE_EXTEND)" by simp
  then have "g_route_len s - rnd32 (2 * ROUTE_EXTEND) \<le> 91 / 10" using assms(2) by simp
  from rnd32_le_mono [OF this] have "rnd32 (g_route_len s - rnd32 (2 * ROUTE_EXTEND)) \<le> 10" by simp
  then show "0 < slide_length s" "slide_length s \<le> 10"
    using tenth assms(1) by (auto simp: slide_length_def Let_def)
qed

lemma slide_advances:
  assumes "0 \<le> curv" and "g_slug_override s \<le> 4" and "g_route_len s \<le> 10" and "0 \<le> g_route_slide s" and "g_route_slide s \<le> 18"
  shows "g_route_slide s + 1 / 1100 \<le> rnd32 (g_route_slide s + rnd32 (slide_speed curv s / slide_length s))"
proof -
  note l = slide_length_range [OF assms(2,3)]
  have "99 / 100000 * slide_length s \<le> 99 / 10000" using l(2) by simp
  then have "99 / 100000 * slide_length s \<le> slide_speed curv s" using slide_speed_low [OF assms(1), of s] by linarith
  then have "99 / 100000 \<le> slide_speed curv s / slide_length s" using l(1) by (simp add: le_divide_eq)
  from rnd32_ge_mono [OF this] have inc: "98 / 100000 \<le> rnd32 (slide_speed curv s / slide_length s)" by simp
  define x where "x = g_route_slide s"
  have x: "x \<le> 18" "0 \<le> x" using assms(4,5) by (simp_all add: x_def)
  have "x + 98 / 100000 \<le> x + rnd32 (slide_speed curv s / slide_length s)" using inc by simp
  from rnd32_ge_mono [OF this] have "x + 98 / 100000 - (x + 98 / 100000) / 16777216 \<le> rnd32 (x + rnd32 (slide_speed curv s / slide_length s))"
    using x by simp
  moreover have "(x + 98 / 100000) / 16777216 \<le> 19 / 16777216" using x by (intro divide_right_mono) simp_all
  ultimately show ?thesis unfolding x_def by linarith
qed

lemma cam_speed: "11 / 100 \<le> CAMERA_SETTLE_SPEED" "CAMERA_SETTLE_SPEED \<le> 13 / 100"
  using rnd32_bounds(1,2) [of "12 / 100"] by (simp_all add: CAMERA_SETTLE_SPEED_def)

lemma cam_settle_advances:
  assumes "0 \<le> t" and "t \<le> 1" shows "t + 1 / 10 \<le> rnd32 (t + CAMERA_SETTLE_SPEED)"
proof -
  have "t + 11 / 100 \<le> t + CAMERA_SETTLE_SPEED" using cam_speed by simp
  from rnd32_ge_mono [OF this] have "t + 11 / 100 - (t + 11 / 100) / 16777216 \<le> rnd32 (t + CAMERA_SETTLE_SPEED)" using assms by simp
  moreover have "(t + 11 / 100) / 16777216 \<le> 2 / 16777216" using assms by (intro divide_right_mono) simp_all
  ultimately show ?thesis by linarith
qed

section \<open>The frames left\<close>

definition slide_left :: "'a slide_scheme \<Rightarrow> nat" where
  "slide_left s = (if g_route_animating s then nat \<lceil>(18 - g_route_slide s) * 1100\<rceil> + 1 else 0)"

definition settle_left :: "'a slide_scheme \<Rightarrow> nat" where
  "settle_left s = (if g_cam_settle_active s then nat \<lceil>(1 - g_cam_settle_t s) * 10\<rceil> + 1 else 0)"

lemma slide_step_left:
  assumes "0 \<le> curv" and "g_slug_override s \<le> 4" and "g_route_len s \<le> 10" and "0 \<le> g_route_slide s" and "g_route_slide s \<le> 18"
    and "g_anim_target s \<le> 18" and "g_route_animating s"
  shows "slide_left (slide_step curv s) < slide_left s"
proof -
  define x where "x = rnd32 (g_route_slide s + rnd32 (slide_speed curv s / slide_length s))"
  have x: "g_route_slide s + 1 / 1100 \<le> x" unfolding x_def by (rule slide_advances [OF assms(1-5)])
  show ?thesis
  proof (cases "x \<ge> g_anim_target s")
    case True
    then show ?thesis using assms(7) by (simp add: slide_step_def slide_left_def Let_def x_def)
  next
    case False
    then have "x < 18" using assms(6) by simp
    then have "nat \<lceil>(18 - x) * 1100\<rceil> < nat \<lceil>(18 - g_route_slide s) * 1100\<rceil>"
      using x by (intro nat_ceiling_less) (simp_all add: algebra_simps)
    then show ?thesis using False assms(7) by (simp add: slide_step_def slide_left_def Let_def x_def)
  qed
qed

section \<open>A drawn frame\<close>

text \<open>The camera's settling in prepare_frame; drawing leaves it alone.\<close>

lemma draw_cam:
  assumes "combined n s \<or> g_camera_prepared_this_frame s"
  shows "g_cam_settle_active (maneuver_draw geo st n s) = g_cam_settle_active s"
    "g_cam_settle_t (maneuver_draw geo st n s) = g_cam_settle_t s"
proof -
  have t: "g_cam_settle_active (tip_morph_step st s) = g_cam_settle_active s" "g_cam_settle_t (tip_morph_step st s) = g_cam_settle_t s"
    for s :: "'b slide_scheme" by (simp_all add: tip_morph_step_def Let_def)
  have r: "g_cam_settle_active (retarget geo s) = g_cam_settle_active s" "g_cam_settle_t (retarget geo s) = g_cam_settle_t s"
    for s :: "'b slide_scheme" by (simp_all add: retarget_def Let_def)
  have c: "combined n (s\<lparr> g_flag_active := b \<rparr>) = combined n s" for b by (simp add: combined_def maneuver_is_pushing_def)
  show "g_cam_settle_active (maneuver_draw geo st n s) = g_cam_settle_active s"
    "g_cam_settle_t (maneuver_draw geo st n s) = g_cam_settle_t s"
    using assms by (cases "combined n s"; simp add: maneuver_draw_def Let_def c sync_same(3,4) t r slide_step_anim(6,7) render_invalidate_masks_def)+
qed

lemma prepare_cam_combined:
  "combined n s \<Longrightarrow> g_cam_settle_active (maneuver_prepare_frame n s) = g_cam_settle_active s"
  "combined n s \<Longrightarrow> g_cam_settle_t (maneuver_prepare_frame n s) = g_cam_settle_t s"
  by (simp_all add: maneuver_prepare_frame_def)

lemma prepare_cam:
  assumes "\<not> combined n s"
  shows "g_camera_prepared_this_frame (maneuver_prepare_frame n s)"
    and "\<not> g_cam_settle_active s \<Longrightarrow> \<not> g_cam_settle_active (maneuver_prepare_frame n s) \<and>
      g_cam_settle_t (maneuver_prepare_frame n s) = g_cam_settle_t s"
    and "g_cam_settle_active s \<Longrightarrow> (let t = rnd32 (g_cam_settle_t s + CAMERA_SETTLE_SPEED) in
      if t \<ge> 1 then \<not> g_cam_settle_active (maneuver_prepare_frame n s) \<and> g_cam_settle_t (maneuver_prepare_frame n s) = 0
      else g_cam_settle_active (maneuver_prepare_frame n s) \<and> g_cam_settle_t (maneuver_prepare_frame n s) = t)"
proof -
  have l: "g_cam_settle_active (update_light_settle s) = g_cam_settle_active s" "g_cam_settle_t (update_light_settle s) = g_cam_settle_t s"
    for s :: "'b camera_scheme" by (simp_all add: update_light_settle_def Let_def clear_light_settle_def)
  show "g_camera_prepared_this_frame (maneuver_prepare_frame n s)" using assms by (simp add: maneuver_prepare_frame_def Let_def)
  show "\<not> g_cam_settle_active s \<Longrightarrow> \<not> g_cam_settle_active (maneuver_prepare_frame n s) \<and>
      g_cam_settle_t (maneuver_prepare_frame n s) = g_cam_settle_t s"
    using assms by (simp add: maneuver_prepare_frame_def Let_def l set_default_camera_def sync_same(3,4))
  show "g_cam_settle_active s \<Longrightarrow> (let t = rnd32 (g_cam_settle_t s + CAMERA_SETTLE_SPEED) in
      if t \<ge> 1 then \<not> g_cam_settle_active (maneuver_prepare_frame n s) \<and> g_cam_settle_t (maneuver_prepare_frame n s) = 0
      else g_cam_settle_active (maneuver_prepare_frame n s) \<and> g_cam_settle_t (maneuver_prepare_frame n s) = t)"
    using assms by (simp add: maneuver_prepare_frame_def Let_def l update_camera_settle_def set_default_camera_def
        sync_same(3,4) clear_camera_settle_def)
qed

lemma prepare_settles:
  assumes "0 \<le> g_cam_settle_t s" and "g_cam_settle_t s \<le> 1"
  shows "0 \<le> g_cam_settle_t (maneuver_prepare_frame n s)" "g_cam_settle_t (maneuver_prepare_frame n s) \<le> 1"
    "settle_left (maneuver_prepare_frame n s) \<le> settle_left s"
    "\<not> combined n s \<Longrightarrow> g_cam_settle_active s \<Longrightarrow> settle_left (maneuver_prepare_frame n s) < settle_left s"
proof -
  let ?p = "maneuver_prepare_frame n s"
  have *: "0 \<le> g_cam_settle_t ?p \<and> g_cam_settle_t ?p \<le> 1 \<and> settle_left ?p \<le> settle_left s \<and>
      (\<not> combined n s \<longrightarrow> g_cam_settle_active s \<longrightarrow> settle_left ?p < settle_left s)"
  proof (cases "combined n s \<or> \<not> g_cam_settle_active s")
    case True
    then have "g_cam_settle_active ?p = g_cam_settle_active s" "g_cam_settle_t ?p = g_cam_settle_t s"
      by (cases "combined n s"; simp add: prepare_cam_combined prepare_cam(2))+
    then show ?thesis using assms True by (auto simp: settle_left_def)
  next
    case False
    define t where "t = rnd32 (g_cam_settle_t s + CAMERA_SETTLE_SPEED)"
    have t: "g_cam_settle_t s + 1 / 10 \<le> t" using cam_settle_advances [OF assms] by (simp add: t_def)
    have p: "if t \<ge> 1 then \<not> g_cam_settle_active ?p \<and> g_cam_settle_t ?p = 0 else g_cam_settle_active ?p \<and> g_cam_settle_t ?p = t"
      using prepare_cam(3) [of n s] False by (simp add: Let_def t_def)
    show ?thesis
    proof (cases "t \<ge> 1")
      case True
      then show ?thesis using p False by (simp add: settle_left_def)
    next
      case t1: False
      then have "nat \<lceil>(1 - t) * 10\<rceil> < nat \<lceil>(1 - g_cam_settle_t s) * 10\<rceil>"
        using t by (intro nat_ceiling_less) (simp_all add: algebra_simps)
      then show ?thesis using t1 p t assms False by (simp add: settle_left_def)
    qed
  qed
  then show "0 \<le> g_cam_settle_t ?p" "g_cam_settle_t ?p \<le> 1" "settle_left ?p \<le> settle_left s"
    "\<not> combined n s \<Longrightarrow> g_cam_settle_active s \<Longrightarrow> settle_left ?p < settle_left s" by blast+
qed

text \<open>The slide of a drawn frame.\<close>

lemma same_slide_range:
  assumes "same_slide s s'"
  shows "slide_range s' = slide_range s" "slide_plain s' = slide_plain s" "slide_left s' = slide_left s"
  using assms by (simp_all add: same_slide_def slide_range_def slide_plain_def slide_left_def)

lemma slide_step_range:
  assumes "slide_range s" and "0 \<le> curv"
  shows "slide_range (slide_step curv s)" "slide_plain s \<Longrightarrow> slide_plain (slide_step curv s)"
    "slide_left (slide_step curv s) \<le> slide_left s"
    "g_route_animating s \<Longrightarrow> slide_left (slide_step curv s) < slide_left s"
proof -
  define x where "x = rnd32 (g_route_slide s + rnd32 (slide_speed curv s / slide_length s))"
  have x: "g_route_slide s + 1 / 1100 \<le> x" unfolding x_def
    by (rule slide_advances [OF assms(2)]) (use assms(1) in \<open>simp_all add: slide_range_def\<close>)
  have s: "slide_step curv s = (if g_route_animating s
      then (if x \<ge> g_anim_target s then s\<lparr> g_route_slide := g_anim_target s, g_route_animating := False \<rparr>
            else s\<lparr> g_route_slide := x \<rparr>) else s)"
    by (simp add: slide_step_def Let_def x_def)
  show "slide_range (slide_step curv s)" "slide_plain s \<Longrightarrow> slide_plain (slide_step curv s)"
    using x assms(1) by (auto simp: s slide_range_def slide_plain_def)
  show less: "slide_left (slide_step curv s) < slide_left s" if "g_route_animating s"
    by (rule slide_step_left [OF assms(2)]) (use assms(1) that in \<open>simp_all add: slide_range_def\<close>)
  show "slide_left (slide_step curv s) \<le> slide_left s" using less by (cases "g_route_animating s") (auto simp: s)
qed

lemma retarget_range:
  assumes "slide_range s" and "geo_ok geo"
  shows "slide_range (retarget geo s)" "slide_left (retarget geo s) = slide_left s"
proof -
  define len where "len = (if fg_transition_len geo < rnd32 (1 / 100) then rnd32 (1 / 100) else fg_transition_len geo)"
  have g: "1 / 2 \<le> fg_road_len geo" "fg_road_len geo \<le> 4" "fg_transition_len geo \<le> 8" "fg_route_len geo \<le> 10"
    using assms(2) by (simp_all add: geo_ok_def)
  have c: "rnd32 (1 / 100) < 1 / 2" "0 < rnd32 (1 / 100)" using rnd32_bounds(2) [of "1 / 100"] by (simp_all add: rnd32_pos)
  have "0 < len" "len \<le> 8" using c g by (auto simp: len_def)
  then have "0 \<le> len / fg_road_len geo" "len / fg_road_len geo \<le> 16" using g by (simp_all add: divide_le_eq)
  then have q: "0 \<le> rnd32 (len / fg_road_len geo)" "rnd32 (len / fg_road_len geo) \<le> 33 / 2"
    using rnd32_bounds(3) rnd32_le_mono [of "len / fg_road_len geo" 16] by simp_all
  have "0 \<le> g_anim_start s" "g_anim_start s \<le> 1" using assms(1) by (simp_all add: slide_range_def)
  then have "0 \<le> g_anim_start s + rnd32 (len / fg_road_len geo)" "g_anim_start s + rnd32 (len / fg_road_len geo) \<le> 35 / 2"
    using q by simp_all
  then have "0 \<le> rnd32 (g_anim_start s + rnd32 (len / fg_road_len geo))"
    "rnd32 (g_anim_start s + rnd32 (len / fg_road_len geo)) \<le> 18"
    using rnd32_bounds(3) rnd32_le_mono [of "g_anim_start s + rnd32 (len / fg_road_len geo)" "35 / 2"] by simp_all
  moreover have "rnd32 (1 / 100) < fg_road_len geo" using c g by simp
  ultimately show "slide_range (retarget geo s)"
    using assms(1) g by (simp add: retarget_def Let_def slide_range_def len_def)
  show "slide_left (retarget geo s) = slide_left s" by (simp add: retarget_def Let_def slide_left_def)
qed

lemma draw_slide:
  assumes "slide_range s" and "geo_ok geo"
  shows "slide_range (maneuver_draw geo st n s)" "\<not> combined n s \<Longrightarrow> slide_plain s \<Longrightarrow> slide_plain (maneuver_draw geo st n s)"
    "slide_left (maneuver_draw geo st n s) \<le> slide_left s"
    "g_route_animating s \<Longrightarrow> slide_left (maneuver_draw geo st n s) < slide_left s"
proof -
  let ?r = "maneuver_draw geo st n s"
  obtain a b where sa: "same_slide s a" and b: "b = tip_morph_step st (slide_step (fg_curvature geo) a)" and
    r: "if combined n s then same_slide b ?r \<or> same_slide (retarget geo b) ?r
      else same_slide b ?r \<or> same_slide (b\<lparr> g_route_len := fg_route_len geo \<rparr>) ?r"
    by (rule maneuver_draw_cases [of s st geo n])
  have a: "slide_range a" using assms(1) same_slide_range(1) [OF sa] by simp
  have anim: "g_route_animating a = g_route_animating s" using sa by (simp add: same_slide_def)
  have c: "0 \<le> fg_curvature geo" using assms(2) by (simp add: geo_ok_def)
  note step = slide_step_range [OF a c] and tip = same_slide_range [OF tip_morph_same(2) [of "slide_step (fg_curvature geo) a" st]]
  have br: "slide_range b" "slide_plain s \<Longrightarrow> slide_plain b" "slide_left b \<le> slide_left s"
    "g_route_animating s \<Longrightarrow> slide_left b < slide_left s"
    using step tip anim same_slide_range [OF sa] by (simp_all add: b)
  have l: "slide_range (b\<lparr> g_route_len := fg_route_len geo \<rparr>)" "slide_plain (b\<lparr> g_route_len := fg_route_len geo \<rparr>) = slide_plain b"
    "slide_left (b\<lparr> g_route_len := fg_route_len geo \<rparr>) = slide_left b"
    using br(1) assms(2) by (simp_all add: slide_range_def slide_plain_def slide_left_def geo_ok_def)
  obtain u where u: "same_slide u ?r" "slide_range u" "slide_left u = slide_left b" "\<not> combined n s \<Longrightarrow> slide_plain u = slide_plain b"
    using r br(1) retarget_range [OF br(1) assms(2)] l by (metis (full_types))
  show "slide_range ?r" "\<not> combined n s \<Longrightarrow> slide_plain s \<Longrightarrow> slide_plain ?r" "slide_left ?r \<le> slide_left s"
    "g_route_animating s \<Longrightarrow> slide_left ?r < slide_left s"
    using same_slide_range [OF u(1)] u br by simp_all
qed

text \<open>The stages around the drawing leave the animation and the maneuvers as they are.\<close>

definition same_motion :: "renderer \<Rightarrow> renderer \<Rightarrow> bool" where
  "same_motion s s' \<longleftrightarrow> slide.truncate s' = slide.truncate s \<and> e_phase s' = e_phase s \<and> e_has_current s' = e_has_current s \<and>
     e_has_next s' = e_has_next s \<and> e_has_pending s' = e_has_pending s \<and> e_current s' = e_current s \<and>
     e_next s' = e_next s \<and> e_pending s' = e_pending s \<and> l_running s' = l_running s"

lemma same_motion_trans: "same_motion a b \<Longrightarrow> same_motion b c \<Longrightarrow> same_motion a c"
  by (simp add: same_motion_def)

lemma same_motionD:
  assumes "same_motion s s'"
  shows "slide_ok s' = slide_ok s" "slide_left s' = slide_left s" "settle_left s' = settle_left s"
    "maneuver_is_animating s' = maneuver_is_animating s" "maneuver_needs_redraw s' = maneuver_needs_redraw s"
    "phases_ok s' = phases_ok s" "latest s' = latest s" "e_phase s' = e_phase s" "e_has_current s' = e_has_current s"
    "e_has_pending s' = e_has_pending s" "e_current s' = e_current s" "l_running s' = l_running s" "g_route_animating s' = g_route_animating s"
  using assms by (simp_all add: same_motion_def slide.truncate_def slide_ok_defs slide_left_def settle_left_def
      maneuver_is_animating_def maneuver_needs_redraw_def phases_ok_def maneuver_is_pushing_def latest_def)

lemma same_motion_fields [simp]: "same_motion s s"
  "same_motion s (s\<lparr> l_calls := c \<rparr>)" "same_motion s (s\<lparr> l_dirty := b \<rparr>)" "same_motion s (s\<lparr> l_dirty := b, e_dirty := b' \<rparr>)"
  "same_motion s (s\<lparr> e_dirty := b' \<rparr>)" "same_motion s (s\<lparr> l_hb_last := x, r_srv := v \<rparr>)"
  "same_motion s (s\<lparr> g_bargraph_alpha := q, l_dirty := b \<rparr>)" "same_motion s (s\<lparr> g_bargraph_blink_timer := k \<rparr>)"
  "same_motion s (s\<lparr> g_bargraph_blink_timer := k, g_bargraph_blink_vis := b', l_dirty := b \<rparr>)"
  "same_motion s (s\<lparr> l_announced_first_frame := b, g_frame_ready_pending := b', r_srv := v \<rparr>)"
  "same_motion s (s\<lparr> l_focus_last := x, l_calls := c \<rparr>)" "same_motion s (s\<lparr> l_health_last := x, l_calls := c \<rparr>)"
  "same_motion s (s\<lparr> l_fb_w := k, l_fb_h := k', l_dirty := b, g_masks_dirty := b', l_calls := c \<rparr>)"
  "same_motion s (s\<lparr> g_fade_alpha := q, g_global_alpha := q', e_dirty := b \<rparr>)"
  "same_motion s (s\<lparr> g_fade_alpha := q, g_fade_active := b', g_global_alpha := q', e_dirty := b \<rparr>)"
  by (simp_all add: same_motion_def slide.truncate_def)

lemma stages_same_motion:
  "same_motion s (resize_viewport i s)" "same_motion s (fade_tick s)" "same_motion s (decide_dirty d s)"
  "same_motion s (bargraph_fade s)" "same_motion s (bargraph_blink s)" "same_motion s (draw_bargraph s)"
  "same_motion s (draw_screenshot d s)" "same_motion s (announce_frame i s)" "same_motion s (focus_watchdog i s)"
  "same_motion s (health_check i s)" "same_motion s (heartbeat_tick i s)" "same_motion s (emit c s)"
             apply (simp add: resize_viewport_def emit_def)
            apply (simp add: fade_tick_def Let_def render_set_global_alpha_def)
           apply (simp add: decide_dirty_def)
          apply (simp add: bargraph_fade_def Let_def)
         apply (simp add: bargraph_blink_def Let_def)
        apply (simp add: draw_bargraph_def emit_def)
       apply (cases "d_screenshot d"; simp add: draw_screenshot_def emit_def)
      apply (simp add: announce_frame_def)
     apply (simp add: focus_watchdog_def emit_def)
    apply (simp add: health_check_def emit_def)
   apply (simp add: heartbeat_tick_def)
  apply (simp add: emit_def)
  done

text \<open>What drawing the maneuver leaves of the frames to come.\<close>

definition fewer :: "renderer \<Rightarrow> renderer \<Rightarrow> bool" where
  "fewer s s' \<longleftrightarrow> slide_left s' \<le> slide_left s \<and> settle_left s' \<le> settle_left s \<and>
     (maneuver_is_animating s \<longrightarrow> slide_left s' + settle_left s' < slide_left s + settle_left s)"

lemma fewer_refl: "\<not> maneuver_is_animating s \<Longrightarrow> fewer s s"
  by (simp add: fewer_def)

lemma draw_maneuver_settles:
  assumes "slide_ok s" and "phases_ok s" and "geo_ok (fi_geo i)" and "e_has_current s"
  shows "slide_ok (draw_maneuver i s)" "e_phase s = ENGINE_PUSHING \<longrightarrow> g_route_animating s \<Longrightarrow> fewer s (draw_maneuver i s)"
proof -
  define n where "n = next_ptr s"
  define p where "p = maneuver_prepare_frame n s"
  define q where "q = sync_camera_uniforms p"
  define r where "r = maneuver_draw (fi_geo i) (e_current q) n q"
  have e: "same_engine s q" and sl: "same_slide s q"
    using same_engine_trans [OF prepare_frame_same(1) sync_same(1)] same_slide_trans [OF prepare_frame_same(2) sync_same(2)]
    by (simp_all add: q_def p_def)
  have d: "draw_maneuver i s = emit (Drawn (e_current q) n (g_global_alpha q)) r"
    using assms(4) same_engine_fields(2) [OF e] by (simp add: draw_maneuver_def Let_def n_def r_def q_def p_def)
  have nq: "combined n q = combined n s" using sl by (simp add: combined_def maneuver_is_pushing_def same_slide_def)
  have "g_camera_prepared_this_frame q = g_camera_prepared_this_frame p" by (simp add: q_def sync_camera_uniforms_def Let_def)
  then have "combined n q \<or> g_camera_prepared_this_frame q" using prepare_cam(1) [of n s] nq by (auto simp: p_def)
  note cam = draw_cam [OF this, of "fi_geo i" "e_current q"]
  have cq: "g_cam_settle_active q = g_cam_settle_active p" "g_cam_settle_t q = g_cam_settle_t p"
    by (simp_all add: q_def sync_same(3,4))
  have t: "0 \<le> g_cam_settle_t s" "g_cam_settle_t s \<le> 1" using assms(1) by (simp_all add: slide_ok_def)
  note settle = prepare_settles [OF t, of n, folded p_def]
  have ct: "g_cam_settle_t r = g_cam_settle_t p" by (simp add: r_def cam cq)
  have sr: "settle_left r = settle_left p" by (simp add: settle_left_def r_def cam cq)
  have rq: "slide_range q" "slide_plain q = slide_plain s" "slide_left q = slide_left s"
    using assms(1) same_slide_range [OF sl] by (simp_all add: slide_ok_def)
  note draw = draw_slide [OF rq(1) assms(3), where st = "e_current q" and n = n, folded r_def]
  have phase: "e_phase r = e_phase s"
    using same_engine_fields(1) [OF same_engine_trans [OF e maneuver_draw_engine]] by (simp add: r_def)
  have plain: "\<not> combined n s" if "e_phase s \<noteq> ENGINE_PUSHING"
    using assms(2) that by (simp add: combined_def phases_ok_def)
  have "slide_ok r" using draw(1,2) rq(2) plain nq settle(1,2) assms(1) by (auto simp: slide_ok_def phase ct)
  note emitted = same_motionD [OF stages_same_motion(12), of "Drawn (e_current q) n (g_global_alpha q)" r]
  from \<open>slide_ok r\<close> show "slide_ok (draw_maneuver i s)" by (simp add: d emitted)
  have anim: "g_route_animating q = g_route_animating s" using sl by (simp add: same_slide_def)
  assume pushing: "e_phase s = ENGINE_PUSHING \<longrightarrow> g_route_animating s"
  have "slide_left r + settle_left r < slide_left s + settle_left s" if "maneuver_is_animating s"
  proof (cases "g_route_animating s")
    case True
    then show ?thesis using draw(4) anim rq(3) settle(3) sr by linarith
  next
    case False
    then have "g_cam_settle_active s" "\<not> combined n s"
      using that pushing plain by (auto simp: maneuver_is_animating_def)
    then show ?thesis using draw(3) rq(3) settle(4) sr by linarith
  qed
  then have "fewer s r" using draw(3) rq(3) settle(3) sr by (simp add: fewer_def)
  then show "fewer s (draw_maneuver i s)" by (simp add: d fewer_def emitted)
qed

lemma before_frame_motion: "same_motion (engine_tick (apply_latest d s)) (before_frame i d s)"
  unfolding before_frame_def
  by (rule same_motion_trans [OF same_motion_trans [OF same_motion_trans [OF same_motion_trans [OF
        stages_same_motion(1) stages_same_motion(2)] stages_same_motion(3)] stages_same_motion(4)] stages_same_motion(5)])

lemma before_frame_dirty:
  assumes "maneuver_needs_redraw (engine_tick (apply_latest d s))" shows "l_dirty (before_frame i d s)"
proof -
  define x where "x = fade_tick (resize_viewport i (engine_tick (apply_latest d s)))"
  have "same_motion (engine_tick (apply_latest d s)) x"
    unfolding x_def by (rule same_motion_trans [OF stages_same_motion(1) stages_same_motion(2)])
  then have "maneuver_needs_redraw x" using assms same_motionD(5) by blast
  then have "l_dirty (decide_dirty d x)" by (simp add: decide_dirty_def)
  moreover have "l_dirty u \<Longrightarrow> l_dirty (bargraph_fade u)" "l_dirty u \<Longrightarrow> l_dirty (bargraph_blink u)" for u
    by (simp_all add: bargraph_fade_def bargraph_blink_def Let_def)
  ultimately show ?thesis by (simp add: before_frame_def x_def)
qed

lemma draw_nothing:
  assumes "\<not> e_has_current s" shows "slide_ok (draw_maneuver i s) = slide_ok s"
proof -
  have d: "draw_maneuver i s = sync_camera_uniforms s"
    using assms same_engine_fields(2) [OF sync_same(1) [of s]] by (simp add: draw_maneuver_def Let_def)
  show ?thesis
    using same_slide_range [OF sync_same(2) [of s]] same_engine_fields(1) [OF sync_same(1) [of s]]
    by (simp add: d slide_ok_def sync_same(4))
qed

lemma render_frame_motion: "l_dirty s \<Longrightarrow> same_motion (draw_maneuver i s) (render_frame i d s)"
  "\<not> l_dirty s \<Longrightarrow> render_frame i d s = s"
proof -
  assume "l_dirty s"
  then obtain b where r: "render_frame i d s = (announce_frame i (emit Swapped (draw_screenshot d (draw_bargraph (draw_maneuver i s)))))\<lparr> l_dirty := b \<rparr>"
    by (simp add: render_frame_def Let_def)
  show "same_motion (draw_maneuver i s) (render_frame i d s)"
    unfolding r by (rule same_motion_trans [OF same_motion_trans [OF same_motion_trans [OF same_motion_trans [OF
          stages_same_motion(6) stages_same_motion(7)] stages_same_motion(12)] stages_same_motion(8)] same_motion_fields(3)])
qed (simp add: render_frame_def)

lemma finish_motion: "same_motion (render_frame i d (before_frame i d s)) (finish_iteration i d s)"
proof -
  have f: "finish_iteration i d s = heartbeat_tick i (health_check i (focus_watchdog i (render_frame i d (before_frame i d s))))"
    by (simp add: finish_iteration_def before_frame_def)
  show ?thesis unfolding f
    by (rule same_motion_trans [OF same_motion_trans [OF stages_same_motion(9) stages_same_motion(10)] stages_same_motion(11)])
qed

section \<open>The measure\<close>

definition rank :: "'a engine_scheme \<Rightarrow> nat" where
  "rank s = (if e_phase s = ENGINE_IDLE then 0 else if e_has_pending s then 3
     else if e_phase s = ENGINE_PUSHING then 2 else 1)"

definition SLIDE_FRAMES :: nat where "SLIDE_FRAMES = 19813"

definition frames_left :: "'a engine_scheme \<Rightarrow> nat" where
  "frames_left s = (if e_phase s = ENGINE_IDLE then 0 else rank s * SLIDE_FRAMES + slide_left s + settle_left s)"

lemma left_bounds:
  assumes "slide_ok s" shows "slide_left s + settle_left s < SLIDE_FRAMES"
proof -
  have "(18 - g_route_slide s) * 1100 \<le> of_int 19800" "(1 - g_cam_settle_t s) * 10 \<le> of_int 10"
    using assms by (simp_all add: slide_ok_defs)
  then have "\<lceil>(18 - g_route_slide s) * 1100\<rceil> \<le> 19800" "\<lceil>(1 - g_cam_settle_t s) * 10\<rceil> \<le> 10"
    by (simp_all only: ceiling_le_iff)
  then have "nat \<lceil>(18 - g_route_slide s) * 1100\<rceil> \<le> 19800" "nat \<lceil>(1 - g_cam_settle_t s) * 10\<rceil> \<le> 10" by linarith+
  then have "slide_left s \<le> 19801" "settle_left s \<le> 11" unfolding slide_left_def settle_left_def by (simp_all only: split: if_split) linarith+
  then show ?thesis by (simp add: SLIDE_FRAMES_def)
qed

lemma frames_left_max: "slide_ok s \<Longrightarrow> frames_left s < 4 * SLIDE_FRAMES"
  using left_bounds [of s] by (simp add: frames_left_def rank_def)

lemma frames_left_rank: "slide_ok s' \<Longrightarrow> rank s' < rank s \<Longrightarrow> frames_left s' < frames_left s"
proof -
  assume ok: "slide_ok s'" and r: "rank s' < rank s"
  have "(rank s' + 1) * SLIDE_FRAMES \<le> rank s * SLIDE_FRAMES" using r by (intro mult_le_mono1) simp
  then have "rank s' * SLIDE_FRAMES + SLIDE_FRAMES \<le> rank s * SLIDE_FRAMES" by (simp only: add_mult_distrib mult_1)
  moreover have "slide_left s' + settle_left s' < SLIDE_FRAMES" using ok by (rule left_bounds)
  moreover have "e_phase s \<noteq> ENGINE_IDLE" using r by (auto simp: rank_def)
  ultimately show ?thesis by (auto simp: frames_left_def)
qed

lemma tick_rank:
  assumes "phases_ok s" and "e_phase s \<noteq> ENGINE_IDLE"
  shows "engine_tick s = s \<and> maneuver_is_animating s \<and> (e_phase s = ENGINE_PUSHING \<longrightarrow> g_route_animating s) \<or>
    rank (engine_tick s) < rank s"
proof (cases "e_phase s")
  case ENGINE_PUSHING
  then show ?thesis
    by (auto simp: engine_tick_def tick_pushing_commit rank_def promote_pending_fields commit_next_keeps
        maneuver_is_pushing_def maneuver_is_animating_def)
next
  case ENGINE_SLIDING_IN
  have "rank ((render_invalidate_masks (promote_pending s))\<lparr> e_dirty := True \<rparr>) = 2"
    by (simp add: rank_def promote_pending_def anim_defs)
  moreover have "rank (settle_idle s) = 0" by (simp add: rank_def settle_idle_def anim_defs)
  moreover have "rank s = (if e_has_pending s then 3 else 1)" using ENGINE_SLIDING_IN by (simp add: rank_def)
  moreover have "engine_tick s = tick_sliding_in s" using ENGINE_SLIDING_IN by (simp add: engine_tick_def)
  ultimately show ?thesis using ENGINE_SLIDING_IN by (auto simp only: tick_sliding_in_def split: if_splits)
qed (use assms in simp)

section \<open>An iteration\<close>

text \<open>Behind the drain, from the engine with the latest maneuver stored.\<close>

lemma iteration_settles:
  assumes "apply_latest d s0 = s" and "engine_ok s" and "slide_ok s" and "geo_ok (fi_geo i)"
  shows "slide_ok (finish_iteration i d s0)" "latest (finish_iteration i d s0) = latest s"
    "l_running (finish_iteration i d s0) = l_running s"
    "e_phase s = ENGINE_IDLE \<Longrightarrow> e_phase (finish_iteration i d s0) = ENGINE_IDLE"
    "e_phase s \<noteq> ENGINE_IDLE \<Longrightarrow> frames_left (finish_iteration i d s0) < frames_left s"
proof -
  define t where "t = engine_tick s"
  define b where "b = before_frame i d s0"
  define r where "r = render_frame i d b"
  let ?f = "finish_iteration i d s0"
  note s = assms(1)
  note p = engine_okD(1) [OF assms(2)]
  have tb: "same_motion t b" using before_frame_motion [of d s0 i] by (simp add: t_def b_def s)
  have rf: "same_motion r ?f" unfolding r_def b_def by (rule finish_motion)
  have pt: "phases_ok t" unfolding t_def by (rule engine_okD(1) [OF engine_tick_ok [OF assms(2)]])
  have okb: "slide_ok b" "phases_ok b"
    using tick_slide_ok [OF assms(3)] pt by (simp_all add: same_motionD [OF tb] t_def)
  have run: "l_running t = l_running s"
    by (cases "e_phase s") (simp_all add: t_def engine_tick_def tick_pushing_commit commit_next_def promote_pending_def
      tick_sliding_in_def settle_idle_def anim_defs)
  have dirty: "l_dirty b" if "maneuver_is_animating b"
    using that before_frame_dirty [of d s0 i] same_motionD(4) [OF tb]
    by (auto simp: s t_def b_def maneuver_is_animating_def maneuver_needs_redraw_def)
  have draw: "slide_ok r \<and> latest r = latest b \<and> e_phase r = e_phase b \<and> e_has_pending r = e_has_pending b \<and> l_running r = l_running b"
  proof (cases "l_dirty b")
    case True
    define x where "x = (if e_has_current b then emit (Drawn (e_current b) (next_ptr b) (g_global_alpha b)) b else b)"
    have "same_engine x (draw_maneuver i b)" using draw_maneuver_same [of b i] by (simp add: x_def)
    then have "latest (draw_maneuver i b) = latest x" "e_phase (draw_maneuver i b) = e_phase x"
      "e_has_pending (draw_maneuver i b) = e_has_pending x" "l_running (draw_maneuver i b) = l_running x"
      using latest_same same_engine_fields(1,4) same_engine_loop(4) by blast+
    moreover have "same_motion b x" by (simp add: x_def stages_same_motion(12))
    ultimately have "latest (draw_maneuver i b) = latest b" "e_phase (draw_maneuver i b) = e_phase b"
      "e_has_pending (draw_maneuver i b) = e_has_pending b" "l_running (draw_maneuver i b) = l_running b"
      by (simp_all add: same_motionD)
    moreover have "slide_ok (draw_maneuver i b)"
      using draw_maneuver_settles(1) [OF okb assms(4)] draw_nothing okb(1) by blast
    ultimately show ?thesis using same_motionD [OF render_frame_motion(1) [OF True, of i d]] by (simp add: r_def)
  next
    case False
    then show ?thesis using render_frame_motion(2) okb by (simp add: r_def)
  qed
  show "slide_ok ?f" "latest ?f = latest s" "l_running ?f = l_running s"
    using draw latest_tick [OF p] run by (simp_all add: same_motionD [OF rf] same_motionD [OF tb] t_def)
  have phase: "e_phase ?f = e_phase t" "e_has_pending ?f = e_has_pending t"
    using draw by (simp_all add: same_motionD [OF rf] same_motionD [OF tb])
  show "e_phase s = ENGINE_IDLE \<Longrightarrow> e_phase ?f = ENGINE_IDLE" using phase by (simp add: t_def engine_tick_def)
  assume busy: "e_phase s \<noteq> ENGINE_IDLE"
  have rank: "rank ?f = rank t" by (simp add: rank_def phase)
  show "frames_left ?f < frames_left s"
  proof (cases "rank t < rank s")
    case True
    then have "rank ?f < rank s" by (simp only: rank)
    then show ?thesis by (rule frames_left_rank [OF \<open>slide_ok ?f\<close>])
  next
    case False
    then have t: "t = s" "maneuver_is_animating s" "e_phase s = ENGINE_PUSHING \<longrightarrow> g_route_animating s"
      using tick_rank [OF p busy] by (auto simp: t_def)
    have cur: "e_has_current s" using p busy by (cases "e_phase s") (simp_all add: phases_ok_def)
    have b: "maneuver_is_animating b" "e_phase b = ENGINE_PUSHING \<longrightarrow> g_route_animating b" "e_has_current b"
      using t cur by (simp_all add: same_motionD [OF tb])
    have "fewer b (draw_maneuver i b)" by (rule draw_maneuver_settles(2) [OF okb assms(4) b(3,2)])
    then have "slide_left r + settle_left r < slide_left b + settle_left b"
      using b(1) same_motionD(2,3) [OF render_frame_motion(1) [OF dirty [OF b(1)], of i d]] by (simp add: fewer_def r_def)
    then have "slide_left ?f + settle_left ?f < slide_left s + settle_left s"
      using t(1) by (simp add: same_motionD [OF rf] same_motionD [OF tb])
    then show ?thesis using rank t(1) busy phase by (simp add: frames_left_def)
  qed
qed

text \<open>The fade-in.\<close>

definition fade_left :: "'a engine_scheme \<Rightarrow> nat" where
  "fade_left s = (if g_fade_active s then nat \<lceil>(1 - g_fade_alpha s) * 30\<rceil> + 1 else 0)"

definition same_fade :: "'a engine_scheme \<Rightarrow> 'a engine_scheme \<Rightarrow> bool" where
  "same_fade s s' \<longleftrightarrow> g_fade_alpha s' = g_fade_alpha s \<and> g_fade_active s' = g_fade_active s"

lemma same_fade_tick: "same_fade s (engine_tick s)"
  by (cases "e_phase s") (simp_all add: same_fade_def engine_tick_def tick_pushing_commit commit_next_def promote_pending_def
      tick_sliding_in_def settle_idle_def anim_defs)

lemma fade_advances:
  assumes "0 \<le> a" and "a \<le> 1" shows "a + 1 / 30 \<le> rnd32 (a + FADE_SPEED)"
proof -
  have "39 / 1000 \<le> FADE_SPEED" using rnd32_bounds(1) [of "4 / 100"] by (simp add: FADE_SPEED_def)
  then have "a + 39 / 1000 \<le> a + FADE_SPEED" by simp
  from rnd32_ge_mono [OF this] have "a + 39 / 1000 - (a + 39 / 1000) / 16777216 \<le> rnd32 (a + FADE_SPEED)" using assms by simp
  moreover have "(a + 39 / 1000) / 16777216 \<le> 2 / 16777216" using assms by (intro divide_right_mono) simp_all
  ultimately show ?thesis by linarith
qed

lemma fade_tick_left:
  assumes "fade_ok s" and "g_fade_active s"
  shows "fade_left (fade_tick s) < fade_left s" "\<not> g_fade_active (fade_tick s) \<Longrightarrow> g_fade_alpha (fade_tick s) = 1"
proof -
  define a where "a = rnd32 (g_fade_alpha s + FADE_SPEED)"
  have a: "g_fade_alpha s + 1 / 30 \<le> a" unfolding a_def by (rule fade_advances) (use assms(1) in \<open>simp_all add: fade_ok_def\<close>)
  have f: "g_fade_active (fade_tick s) \<longleftrightarrow> a < 1" "g_fade_alpha (fade_tick s) = (if a < 1 then a else 1)"
    using assms(2) by (simp_all add: fade_tick_def Let_def render_set_global_alpha_def a_def)
  show "\<not> g_fade_active (fade_tick s) \<Longrightarrow> g_fade_alpha (fade_tick s) = 1" using f by simp
  show "fade_left (fade_tick s) < fade_left s"
  proof (cases "a < 1")
    case True
    then have "nat \<lceil>(1 - a) * 30\<rceil> < nat \<lceil>(1 - g_fade_alpha s) * 30\<rceil>"
      using a by (intro nat_ceiling_less) (simp_all add: algebra_simps)
    then show ?thesis using True f assms(2) by (simp add: fade_left_def)
  qed (use f assms(2) in \<open>simp add: fade_left_def\<close>)
qed

lemma iteration_fade:
  assumes "apply_latest d s0 = s" and "engine_ok s"
  shows "if g_fade_active s then fade_left (finish_iteration i d s0) < fade_left s \<and>
      (\<not> g_fade_active (finish_iteration i d s0) \<longrightarrow> g_fade_alpha (finish_iteration i d s0) = 1)
    else same_fade s (finish_iteration i d s0)"
proof -
  define x where "x = resize_viewport i (engine_tick s)"
  have "same_fade (engine_tick s) x" by (simp add: x_def resize_viewport_def emit_def same_fade_def)
  then have x: "same_fade s x" using same_fade_tick [of s] by (simp add: same_fade_def)
  have ok: "fade_ok x" using engine_okD(3) [OF resize_ok [OF engine_tick_ok [OF assms(2)]]] by (simp add: x_def)
  have "same_fade (fade_tick x) (before_frame i d s0)"
    by (simp add: before_frame_def assms(1) x_def same_fade_def decide_dirty_def bargraph_fade_def bargraph_blink_def Let_def)
  moreover have "same_fade (before_frame i d s0) (finish_iteration i d s0)"
    using finish_iteration_calls(2) [of i d s0] by (simp add: same_shown_def same_fade_def)
  ultimately have f: "same_fade (fade_tick x) (finish_iteration i d s0)" by (simp add: same_fade_def)
  show ?thesis
  proof (cases "g_fade_active s")
    case True
    then have xa: "g_fade_active x" "fade_left x = fade_left s" using x by (simp_all add: same_fade_def fade_left_def)
    have "fade_left (finish_iteration i d s0) = fade_left (fade_tick x)" using f by (simp add: same_fade_def fade_left_def)
    then show ?thesis using True fade_tick_left [OF ok xa(1)] f xa(2) by (simp add: same_fade_def)
  next
    case False
    then have "fade_tick x = x" using x by (simp add: fade_tick_def same_fade_def)
    then show ?thesis using False f x by (simp add: same_fade_def)
  qed
qed

lemma fade_left_max: "fade_ok s \<Longrightarrow> fade_left s \<le> 31"
proof -
  assume "fade_ok s"
  then have "(1 - g_fade_alpha s) * 30 \<le> of_int 30" by (simp add: fade_ok_def)
  then have "\<lceil>(1 - g_fade_alpha s) * 30\<rceil> \<le> 30" by (simp only: ceiling_le_iff)
  then have "nat \<lceil>(1 - g_fade_alpha s) * 30\<rceil> \<le> 30" by linarith
  then show ?thesis unfolding fade_left_def by (simp only: split: if_split) linarith
qed

section \<open>The loop without new commands\<close>

text \<open>Connected with less than a packet in the buffer; a poll that finds nothing.\<close>

definition listening :: "server \<Rightarrow> bool" where
  "listening s \<longleftrightarrow> 0 \<le> g_server_fd s \<and> g_recv_len s < CR_PKT_SIZE \<and> \<not> g_peer_closed s"

definition quiet :: "frame_in \<Rightarrow> bool" where
  "quiet i \<longleftrightarrow> \<not> fi_close i \<and> pa_recv (fi_poll i) = Recv_Error True \<and> geo_ok (fi_geo i)"

lemma listening_finish: "listening (r_srv s) \<Longrightarrow> listening (r_srv (finish_iteration i d s))"
proof -
  have send: "listening v \<Longrightarrow> listening (send_event e r v)" for e r v
    by (simp add: send_event_def logged_def listening_def)
  have mark: "listening v \<Longrightarrow> listening (cr_server_mark_frame_ready r v)" for r v
    unfolding cr_server_mark_frame_ready_def by (rule send) (simp add: listening_def)
  have l: "r_srv (draw_maneuver i t) = r_srv t" for t
    using same_engine_loop(1) [OF draw_maneuver_same [of t i]] by (simp add: emit_def split: if_splits)
  have "r_srv (draw_screenshot d (draw_bargraph (draw_maneuver i t))) = r_srv t" for t
    by (cases "d_screenshot d") (simp_all add: draw_screenshot_def draw_bargraph_def emit_def l)
  then have "listening (r_srv t) \<Longrightarrow> listening (r_srv (render_frame i d t))" for t
    by (simp add: render_frame_def Let_def announce_frame_def emit_def mark)
  then show "listening (r_srv s) \<Longrightarrow> listening (r_srv (finish_iteration i d s))"
    by (simp add: finish_iteration_def heartbeat_tick_def engine_srv cr_server_send_heartbeat_def send)
qed

lemma quiet_iteration:
  assumes "listening (r_srv s)" and "quiet i"
  shows "main_iteration i s = Some (finish_iteration i drained0 s)"
proof -
  have "cr_server_poll (fi_poll i) (r_srv s) = Some (r_srv s)"
    using assms by (simp add: cr_server_poll_def reconnect_def receive_def listening_def quiet_def)
  moreover have "read_cmds (r_srv s) = Some ([], r_srv s)"
    using assms(1) by (simp add: read_cmds.simps [of "r_srv s"] cr_server_read_cmd_def listening_def)
  ultimately show ?thesis using assms(1) by (simp add: main_iteration_def listening_def)
qed

text \<open>The quiet part of a run.\<close>

definition settled_from :: "renderer \<Rightarrow> renderer \<Rightarrow> bool" where
  "settled_from s s' \<longleftrightarrow> l_running s' \<and> e_phase s' = ENGINE_IDLE \<and> e_current s' = latest s \<and>
     \<not> g_fade_active s' \<and> g_fade_alpha s' = (if g_fade_active s then 1 else g_fade_alpha s)"

lemma quiet_loop:
  assumes "engine_ok s" and "slide_ok s" and "l_running s" and "listening (r_srv s)"
    and "list_all quiet is" and "frames_left s \<le> length is" and "fade_left s \<le> length is"
  shows "\<exists>s'. main_loop is s = Some s' \<and> settled_from s s'"
  using assms
proof (induction "is" arbitrary: s)
  case Nil
  then have "e_phase s = ENGINE_IDLE" "\<not> g_fade_active s"
    by (auto simp: frames_left_def fade_left_def rank_def SLIDE_FRAMES_def split: if_splits)
  moreover have "\<not> e_has_pending s" using Nil.prems(1) calculation by (simp add: engine_ok_def phases_ok_def)
  ultimately show ?case using Nil.prems(3) by (simp add: settled_from_def latest_def)
next
  case (Cons i js)
  let ?f = "finish_iteration i drained0 s"
  have a: "apply_latest drained0 s = s" by (simp add: apply_latest_def drained0_def)
  have g: "geo_ok (fi_geo i)" "\<not> fi_close i" using Cons.prems(5) by (simp_all add: quiet_def)
  note f = iteration_settles [OF a Cons.prems(1,2) g(1)] and fade = iteration_fade [OF a Cons.prems(1), of i]
  have "main_iteration i s = Some ?f" using quiet_iteration [OF Cons.prems(4)] Cons.prems(5) by simp
  then have m: "main_loop (i # js) s = main_loop js ?f" using Cons.prems(3) g(2) by simp
  have ok: "engine_ok ?f" using finish_iteration_ok [OF Cons.prems(1), of drained0 i] by (simp add: drained0_def maneuver0_ok)
  have "frames_left ?f \<le> length js"
    using f(4,5) Cons.prems(6) by (cases "e_phase s = ENGINE_IDLE") (auto simp: frames_left_def)
  moreover have "fade_left ?f \<le> length js"
    using fade Cons.prems(7) by (cases "g_fade_active s") (auto simp: fade_left_def same_fade_def)
  ultimately obtain s' where s': "main_loop js ?f = Some s'" "settled_from ?f s'"
    using Cons.IH [OF ok f(1)] f(3) Cons.prems(3,5) listening_finish [OF Cons.prems(4)] by auto
  have "settled_from s s'"
    using s'(2) f(2) fade by (auto simp: settled_from_def same_fade_def split: if_splits)
  then show ?case using m s'(1) by auto
qed

section \<open>Runs whose roads are in range\<close>

inductive driven :: "renderer \<Rightarrow> bool" where
  start: "driven (main_start a w h r)"
| iterate: "driven s \<Longrightarrow> l_running s \<Longrightarrow> kernel_fits i s \<Longrightarrow> geo_ok (fi_geo i) \<Longrightarrow> main_iteration i s = Some s' \<Longrightarrow> driven s'"

lemma driven_reachable: "driven s \<Longrightarrow> reachable s"
  by (induction rule: driven.induct) (auto intro: reachable.intros)

lemma handle_cmd_slide: "handle_cmd cmd (d, s) = Some (d', s') \<Longrightarrow> slide_ok s \<Longrightarrow> slide_ok s'"
proof -
  assume h: "handle_cmd cmd (d, s) = Some (d', s')" and ok: "slide_ok s"
  have e: "slide_ok (emit c t) = slide_ok t" for c t by (rule same_motionD(1) [OF stages_same_motion(12)])
  have c: "slide_ok (debug_cmd p s)" "slide_ok (bargraph_cmd l m s)" "slide_ok ((render_set_perspective x s)\<lparr> e_dirty := True \<rparr>)"
    "slide_ok (s\<lparr> g_display_active := b \<rparr>)" "slide_ok (s\<lparr> l_running := b \<rparr>)" for p l m x b
    using ok by (simp_all add: slide_ok_defs debug_cmd_def bargraph_cmd_def render_set_perspective_def maneuver_toggle_debug_def Let_def)
  have "slide_ok (engine_start_preloaded_animation (emit (Preview_Visible True) s))" using ok by (simp add: start_slide_ok e)
  then show "slide_ok s'" using h ok c by (auto simp: handle_cmd_def e split: if_splits bind_splits)
qed

lemma handle_cmds_slide: "handle_cmds cs (d, s) = Some (d', s') \<Longrightarrow> slide_ok s \<Longrightarrow> slide_ok s'"
proof (induction cs arbitrary: d s)
  case (Cons c cs)
  then obtain d1 s1 where "handle_cmd c (d, s) = Some (d1, s1)" "handle_cmds cs (d1, s1) = Some (d', s')"
    by (auto split: bind_splits)
  then show ?case using Cons.IH handle_cmd_slide Cons.prems(2) by blast
qed simp

lemma apply_latest_slide: "slide_ok s \<Longrightarrow> phases_ok s \<Longrightarrow> slide_ok (apply_latest d s)"
proof -
  assume "slide_ok s" "phases_ok s"
  then have "slide_ok (defer_bargraph d (defer_perspective d s))" "phases_ok (defer_bargraph d (defer_perspective d s))"
    by (simp_all add: slide_ok_defs phases_ok_def defer_bargraph_def defer_perspective_def maneuver_is_pushing_def)
  then show "slide_ok (apply_latest d s)"
    using \<open>slide_ok s\<close> by (simp add: apply_latest_def Let_def apply_slide_ok preload_slide_ok)
qed

lemma driven_slide: "driven s \<Longrightarrow> slide_ok s"
proof (induction rule: driven.induct)
  case (start a w h r)
  then show ?case by (simp add: main_start_def renderer0_def slide_ok_defs)
next
  case (iterate s i s')
  have "renderer_ok s" by (rule reachable_ok [OF driven_reachable [OF iterate.hyps(1)]])
  from main_iteration_drained [OF this iterate.hyps(3)] consider
    t where "main_iteration i s = Some (s\<lparr> r_srv := t, l_running := False \<rparr>)" |
    cs u d v where "main_iteration i s = Some (finish_iteration i d v)" "handle_cmds cs (drained0, s\<lparr> r_srv := u \<rparr>) = Some (d, v)"
      "man_ok (d_maneuver d)" "engine_ok v" by blast
  then show ?case
  proof cases
    case 1
    then show ?thesis using iterate.hyps(5) iterate.IH by (simp add: slide_ok_defs)
  next
    case 2
    have "slide_ok (s\<lparr> r_srv := u \<rparr>)" using iterate.IH by (simp add: slide_ok_defs)
    then have "slide_ok v" using handle_cmds_slide 2(2) by blast
    then have "slide_ok (apply_latest d v)" using apply_latest_slide engine_okD(1) [OF 2(4)] by blast
    then have "slide_ok (finish_iteration i d v)"
      using iteration_settles(1) [OF refl apply_latest_ok [OF 2(4,3)] _ iterate.hyps(4)] by blast
    then show ?thesis using 2(1) iterate.hyps(5) by simp
  qed
qed

section \<open>The engine comes to rest\<close>

text \<open>Property C10. Once no more packets arrive the engine comes to rest: from any
  state a run with roads in range reaches, connected and running, after
  4 * SLIDE_FRAMES quiet iterations (fewer than 80,000) at the latest the engine
  is idle and shows the newest maneuver it holds in that state: the pending one
  if there is one, else the one being pushed in, else the current one.  A fade-in
  that had begun is then complete.  A maneuver the engine has already dropped by
  then, as in C39, is not among those it holds.\<close>

theorem engine_settles:
  assumes "driven s" and "l_running s" and "listening (r_srv s)"
    and "list_all quiet is" and "4 * SLIDE_FRAMES \<le> length is"
  shows "\<exists>s'. main_loop is s = Some s' \<and> l_running s' \<and> e_phase s' = ENGINE_IDLE \<and> e_current s' = latest s \<and>
    \<not> g_fade_active s' \<and> g_fade_alpha s' = (if g_fade_active s then 1 else g_fade_alpha s)"
proof -
  have ok: "engine_ok s" using reachable_ok [OF driven_reachable [OF assms(1)]] by (simp add: renderer_ok_def)
  note sl = driven_slide [OF assms(1)]
  have "frames_left s \<le> length is" using frames_left_max [OF sl] assms(5) by linarith
  moreover have "fade_left s \<le> length is"
    using fade_left_max [OF engine_okD(3) [OF ok]] assms(5) by (simp add: SLIDE_FRAMES_def)
  ultimately show ?thesis using quiet_loop [OF ok sl assms(2,3,4)] unfolding settled_from_def by blast
qed

text \<open>A maneuver arrives, then nothing more.\<close>

lemma engine_settles_witness:
  "\<exists>s is s'. main_iteration (frame1 [man_cmd CMD_MANEUVER roundabout2]) start1 = Some s \<and> main_loop is s = Some s' \<and>
     e_phase s' = ENGINE_IDLE \<and> e_current s' = roundabout2"
proof -
  let ?c = "man_cmd CMD_MANEUVER roundabout2"
  let ?i = "frame1 [?c]"
  let ?d = "drained0\<lparr> d_got := 1, d_maneuver := roundabout2, d_flags := 3, d_perspective := c_payload ?c ! 43,
      d_bargraph_level := c_payload ?c ! 44, d_bargraph_mode := c_payload ?c ! 45 \<rparr>"
  have ok: "pkt_ok ?c" by (simp add: man_cmd_ok roundabout2_ok)
  obtain u where u: "main_iteration ?i start1 = (case handle_cmds [?c] (drained0, start1\<lparr> r_srv := u \<rparr>) of None \<Rightarrow> None
      | Some (d, v) \<Rightarrow> Some (finish_iteration ?i d v))" "kernel_fits ?i start1" "same_conn (r_srv start1) u" "pending u = []" "srv_ok u"
    using start1_iteration [of "[?c]"] ok by auto
  define v where "v = emit (Preview_Visible True) (start1\<lparr> r_srv := u \<rparr>)"
  define s where "s = finish_iteration ?i ?d v"
  have "decode_maneuver ?c = Some roundabout2" unfolding man_cmd_def by (rule decode_man_payload [OF roundabout2_ok])
  moreover have "length (c_payload ?c) = 46" using ok by (simp add: pkt_ok_def)
  ultimately have "note_maneuver 1 ?c drained0 = Some ?d"
    by (simp add: note_maneuver_def rd8_def) (simp add: man_cmd_def)
  then have it: "main_iteration ?i start1 = Some s"
    by (simp add: u(1) handle_cmd_def s_def v_def) (simp add: man_cmd_def)
  have geo: "geo_ok (fi_geo ?i)" by (simp add: frame1_def geo_ok_def)
  have start: "driven start1" "l_running start1"
    unfolding start1_def by (rule driven.start) (simp add: main_start_def renderer0_def)
  have driven: "driven s" by (rule driven.iterate [OF start u(2) geo it])
  have "engine_ok start1" using reachable_ok [OF reachable_start1] by (simp add: renderer_ok_def)
  then have v: "engine_ok v" by (simp add: v_def)
  have "slide_ok v" using driven_slide [OF start(1)] by (simp add: v_def slide_ok_defs emit_def)
  then have sl: "slide_ok (apply_latest ?d v)" by (rule apply_latest_slide [OF _ engine_okD(1) [OF v]])
  have eo: "engine_ok (apply_latest ?d v)" by (rule apply_latest_ok [OF v]) (simp add: roundabout2_ok)
  note f = iteration_settles [OF refl eo sl geo, folded s_def]
  have "phases_ok (defer_bargraph ?d (defer_perspective ?d v))"
    using engine_okD(1) [OF v] by (simp add: phases_ok_def defer_bargraph_def defer_perspective_def maneuver_is_pushing_def)
  then have "latest s = roundabout2" by (simp only: f(2)) (simp add: apply_latest_def latest_apply)
  moreover have "l_running s" using f(3) start(2)
    by (simp add: apply_latest_def defer_bargraph_def defer_perspective_def engine_apply_maneuver_def anim_defs v_def emit_def)
  moreover have "listening (r_srv v)"
    using u(3,4,5) start1_fields(2,4) by (auto simp: listening_def same_conn_def v_def emit_def pending_def srv_ok_def CR_PKT_SIZE_def)
  then have "listening (r_srv s)" unfolding s_def by (rule listening_finish)
  moreover define q where "q = replicate (4 * SLIDE_FRAMES) (?i\<lparr> fi_poll := (poll1 [])\<lparr> pa_recv := Recv_Error True \<rparr> \<rparr>)"
  have "list_all quiet q" by (simp add: q_def list_all_iff quiet_def geo) (simp add: frame1_def)
  ultimately obtain s' where "main_loop q s = Some s'" "e_phase s' = ENGINE_IDLE" "e_current s' = latest s"
    using engine_settles [OF driven, of q] by (auto simp: q_def)
  then show ?thesis using it \<open>latest s = roundabout2\<close> by auto
qed

end
