(* ===== verification/Route_Path.thy ===== *)
theory Route_Path
  imports Floats "HOL-Library.While_Combinator"
begin

text \<open>
  The route paths of the renderer: c_render/route_path.c up to the mesh, and the
  samplers of c_render/maneuver.c.  A path is a sequence of lines and arcs, made
  into a polyline with cumulative distances.

  The arrays of route_path_t are the lists of their valid elements; a write is
  guarded as in the code and a read behind the valid ones is None.  Floats are
  rationals rounded after every operation; the functions of the C library are
  the record libm.
\<close>

text \<open>The offsets stay as in the prelude.\<close>

declare One_nat_def [simp del] add_2_eq_Suc [simp del] add_2_eq_Suc' [simp del]

section \<open>Float operations\<close>

definition fadd :: "rat \<Rightarrow> rat \<Rightarrow> rat" where "fadd x y = rnd32 (x + y)"
definition fsub :: "rat \<Rightarrow> rat \<Rightarrow> rat" where "fsub x y = rnd32 (x - y)"
definition fmul :: "rat \<Rightarrow> rat \<Rightarrow> rat" where "fmul x y = rnd32 (x * y)"
definition fdiv :: "rat \<Rightarrow> rat \<Rightarrow> rat" where "fdiv x y = rnd32 (x / y)"

text \<open>A quotient whose divisor the code does not test: an infinity or NaN, which
  the model has no value for, is None.\<close>

definition fdiv_ok :: "rat \<Rightarrow> rat \<Rightarrow> rat option" where
  "fdiv_ok x y = (if y = 0 then None else Some (fdiv x y))"

text \<open>The functions of math.h in single precision.\<close>

record libm =
  lm_sin :: "rat \<Rightarrow> rat"
  lm_cos :: "rat \<Rightarrow> rat"
  lm_tan :: "rat \<Rightarrow> rat"
  lm_acos :: "rat \<Rightarrow> rat"
  lm_sqrt :: "rat \<Rightarrow> rat"
  lm_atan2 :: "rat \<Rightarrow> rat \<Rightarrow> rat"

text \<open>What is used of their documented behaviour: square roots are not negative,
  atan2 and acos stay within pi.\<close>

definition libm_ok :: "libm \<Rightarrow> bool" where
  "libm_ok L \<longleftrightarrow> (\<forall>x. 0 \<le> x \<longrightarrow> 0 \<le> lm_sqrt L x) \<and> (\<forall>y x. - 4 \<le> lm_atan2 L y x \<and> lm_atan2 L y x \<le> 4) \<and>
     (\<forall>x. 0 \<le> lm_acos L x \<and> lm_acos L x \<le> 4)"

text \<open>M_PI, and (float)M_PI and (float)(M_PI * 0.5).\<close>

definition M_PI :: rat where "M_PI = rnd64 (314159265358979323846 / 100000000000000000000)"
definition PI_F :: rat where "PI_F = rnd32 M_PI"
definition HALF_PI_F :: rat where "HALF_PI_F = rnd32 (rnd64 (M_PI * (1 / 2)))"

text \<open>sqrtf(dx * dx + dy * dy).\<close>

definition norm2 :: "rat \<Rightarrow> rat \<Rightarrow> rat" where
  "norm2 dx dy = fadd (fmul dx dx) (fmul dy dy)"

definition hypotenuse :: "libm \<Rightarrow> rat \<Rightarrow> rat \<Rightarrow> rat" where
  "hypotenuse L dx dy = lm_sqrt L (norm2 dx dy)"

section \<open>Paths\<close>

definition RPATH_MAX_SEGS :: nat where "RPATH_MAX_SEGS = 48"
definition RPATH_MAX_PTS :: nat where "RPATH_MAX_PTS = 480"

text \<open>The ends of a line; an arc's center, radius, start and end angle.\<close>

datatype route_seg = RSEG_LINE rat rat rat rat | RSEG_ARC rat rat rat rat rat

record route_point =
  pt_x :: rat
  pt_y :: rat
  pt_smooth :: bool

record route_path =
  p_segs :: "route_seg list"
  p_pts :: "route_point list"
  p_dist :: "rat list"
  p_total_length :: rat
  p_arrow_x :: rat
  p_arrow_y :: rat
  p_arrow_angle :: rat
  p_tip_blend :: rat
  p_bulb_radius :: rat

definition rpath_clear :: "route_path \<Rightarrow> route_path" where
  "rpath_clear p = p\<lparr> p_segs := [], p_pts := [], p_dist := [], p_total_length := 0, p_arrow_x := 0, p_arrow_y := 0,
     p_arrow_angle := 0, p_tip_blend := 0, p_bulb_radius := 0 \<rparr>"

definition add_seg :: "route_path \<Rightarrow> route_seg \<Rightarrow> route_path" where
  "add_seg p s = (if length (p_segs p) \<ge> RPATH_MAX_SEGS then p else p\<lparr> p_segs := p_segs p @ [s] \<rparr>)"

definition rpath_add_line :: "route_path \<Rightarrow> rat \<Rightarrow> rat \<Rightarrow> rat \<Rightarrow> rat \<Rightarrow> route_path" where
  "rpath_add_line p x0 y0 x1 y1 = add_seg p (RSEG_LINE x0 y0 x1 y1)"

definition rpath_add_arc :: "route_path \<Rightarrow> rat \<Rightarrow> rat \<Rightarrow> rat \<Rightarrow> rat \<Rightarrow> rat \<Rightarrow> route_path" where
  "rpath_add_arc p cx cy radius start_rad end_rad = add_seg p (RSEG_ARC cx cy radius start_rad end_rad)"

definition rpath_set_arrow :: "route_path \<Rightarrow> rat \<Rightarrow> rat \<Rightarrow> rat \<Rightarrow> route_path" where
  "rpath_set_arrow p x y angle = p\<lparr> p_arrow_x := x, p_arrow_y := y, p_arrow_angle := angle \<rparr>"

section \<open>The polyline\<close>

definition add_pt :: "rat \<Rightarrow> rat \<Rightarrow> bool \<Rightarrow> route_point list \<Rightarrow> route_point list" where
  "add_pt x y smooth ps =
     (if length ps \<ge> RPATH_MAX_PTS then ps
      else if ps \<noteq> [] \<and> norm2 (fsub x (pt_x (last ps))) (fsub y (pt_y (last ps))) < rnd32 (1 / 100000000)
      then (if smooth then butlast ps @ [(last ps)\<lparr> pt_smooth := True \<rparr>] else ps)
      else ps @ [\<lparr> pt_x = x, pt_y = y, pt_smooth = smooth \<rparr>])"

text \<open>The steps of an arc; the conversion to int is undefined out of range.\<close>

definition arc_steps :: "rat \<Rightarrow> int option" where
  "arc_steps sweep = do {
     n \<leftarrow> float_to_int (fdiv \<bar>sweep\<bar> (fdiv (fmul 3 PI_F) 180));
     n \<leftarrow> c_int (n + 1);
     Some (if n < 2 then 2 else n) }"

definition arc_point :: "libm \<Rightarrow> route_seg \<Rightarrow> int \<Rightarrow> int \<Rightarrow> route_point list \<Rightarrow> route_point list" where
  "arc_point L s steps j ps = (case s of
      RSEG_LINE _ _ _ _ \<Rightarrow> ps
    | RSEG_ARC cx cy radius a0 a1 \<Rightarrow>
        let t = fdiv (rnd32 (of_int j)) (rnd32 (of_int steps));
            angle = fadd a0 (fmul (fsub a1 a0) t)
        in add_pt (fadd cx (fmul radius (lm_cos L angle))) (fadd cy (fmul radius (lm_sin L angle))) (0 < j \<and> j < steps) ps)"

definition densify_seg :: "libm \<Rightarrow> route_seg \<Rightarrow> route_point list \<Rightarrow> route_point list option" where
  "densify_seg L s ps = (case s of
      RSEG_LINE x0 y0 x1 y1 \<Rightarrow> Some (add_pt x1 y1 False (add_pt x0 y0 False ps))
    | RSEG_ARC cx cy radius a0 a1 \<Rightarrow> do {
        steps \<leftarrow> arc_steps (fsub a1 a0);
        Some (fold (\<lambda>j. arc_point L s steps (int j)) [0 ..< nat steps + 1] ps) })"

primrec densify_segs :: "libm \<Rightarrow> route_seg list \<Rightarrow> route_point list \<Rightarrow> route_point list option" where
  "densify_segs L [] ps = Some ps"
| "densify_segs L (s # ss) ps = do { ps \<leftarrow> densify_seg L s ps; densify_segs L ss ps }"

text \<open>The cumulative distances behind a point at distance d.\<close>

fun distances :: "libm \<Rightarrow> rat \<Rightarrow> route_point list \<Rightarrow> rat list" where
  "distances L d (a # b # ps) =
     (let d' = fadd d (hypotenuse L (fsub (pt_x b) (pt_x a)) (fsub (pt_y b) (pt_y a))) in d' # distances L d' (b # ps))"
| "distances L d _ = []"

definition rpath_densify :: "libm \<Rightarrow> route_path \<Rightarrow> route_path option" where
  "rpath_densify L p = do {
     ps \<leftarrow> densify_segs L (p_segs p) [];
     let ds = 0 # distances L 0 ps;
     Some (p\<lparr> p_pts := ps, p_dist := ds, p_total_length := (if ps \<noteq> [] then ds ! (length ps - 1) else 0) \<rparr>) }"

section \<open>Samples\<close>

text \<open>The loops over dist from index i, n of them left: the first index whose
  distance is not below the target.\<close>

primrec first_from :: "rat list \<Rightarrow> rat \<Rightarrow> nat \<Rightarrow> nat \<Rightarrow> nat option option" where
  "first_from ds target i 0 = Some None"
| "first_from ds target i (Suc n) = do {
     d \<leftarrow> rd8 ds i;
     if d \<ge> target then Some (Some i) else first_from ds target (i + 1) n }"

text \<open>The point at the target distance on the piece that ends at point i.\<close>

definition interpolate :: "route_path \<Rightarrow> nat \<Rightarrow> rat \<Rightarrow> (rat \<times> rat) option" where
  "interpolate p i target = do {
     d1 \<leftarrow> rd8 (p_dist p) i;
     d0 \<leftarrow> rd8 (p_dist p) (i - 1);
     a \<leftarrow> rd8 (p_pts p) (i - 1);
     b \<leftarrow> rd8 (p_pts p) i;
     let seg_len = fsub d1 d0;
     let frac = (if seg_len > rnd32 (1 / 1000000) then fdiv (fsub target d0) seg_len else 0);
     Some (fadd (pt_x a) (fmul frac (fsub (pt_x b) (pt_x a))), fadd (pt_y a) (fmul frac (fsub (pt_y b) (pt_y a)))) }"

definition rpath_sample :: "route_path \<Rightarrow> rat \<Rightarrow> (rat \<times> rat) option" where
  "rpath_sample p t =
     (if length (p_pts p) < 2 then Some (0, 0)
      else do {
        let target = fmul t (p_total_length p);
        found \<leftarrow> first_from (p_dist p) target 1 (length (p_pts p) - 1);
        case found of
          Some i \<Rightarrow> interpolate p i target
        | None \<Rightarrow> do { l \<leftarrow> rd8 (p_pts p) (length (p_pts p) - 1); Some (pt_x l, pt_y l) } })"

text \<open>The direction of the piece that ends at point i, when it is long enough.\<close>

definition piece_heading :: "libm \<Rightarrow> route_path \<Rightarrow> nat \<Rightarrow> rat option option" where
  "piece_heading L p i = do {
     a \<leftarrow> rd8 (p_pts p) (i - 1);
     b \<leftarrow> rd8 (p_pts p) i;
     let dx = fsub (pt_x b) (pt_x a);
     let dy = fsub (pt_y b) (pt_y a);
     Some (if norm2 dx dy > rnd32 (1 / 100000000) then Some (lm_atan2 L dy dx) else None) }"

primrec heading_from :: "libm \<Rightarrow> route_path \<Rightarrow> rat \<Rightarrow> nat \<Rightarrow> nat \<Rightarrow> rat option option" where
  "heading_from L p target i 0 = Some None"
| "heading_from L p target i (Suc n) = do {
     d \<leftarrow> rd8 (p_dist p) i;
     h \<leftarrow> (if d \<ge> target then piece_heading L p i else Some None);
     case h of Some a \<Rightarrow> Some (Some a) | None \<Rightarrow> heading_from L p target (i + 1) n }"

definition rpath_sample_heading :: "libm \<Rightarrow> route_path \<Rightarrow> rat \<Rightarrow> rat option" where
  "rpath_sample_heading L p t =
     (if length (p_pts p) < 2 then Some HALF_PI_F
      else do {
        let t = (if t < 0 then 0 else t);
        let t = (if t > 1 then 1 else t);
        h \<leftarrow> heading_from L p (fmul t (p_total_length p)) 1 (length (p_pts p) - 1);
        case h of Some a \<Rightarrow> Some a
        | None \<Rightarrow> do {
            h \<leftarrow> piece_heading L p (length (p_pts p) - 1);
            Some (case h of Some a \<Rightarrow> a | None \<Rightarrow> HALF_PI_F) } })"

definition CURV_WINDOW :: nat where "CURV_WINDOW = 3"
definition CURV_SLOWDOWN :: rat where "CURV_SLOWDOWN = 8"

text \<open>The loop: idx stops at the last point.\<close>

primrec curvature_index :: "rat list \<Rightarrow> rat \<Rightarrow> nat \<Rightarrow> nat \<Rightarrow> nat option" where
  "curvature_index ds target idx 0 = Some idx"
| "curvature_index ds target idx (Suc n) = do {
     d \<leftarrow> rd8 ds idx;
     if d < target then curvature_index ds target (idx + 1) n else Some idx }"

definition path_curvature_factor :: "libm \<Rightarrow> route_path \<Rightarrow> rat \<Rightarrow> rat option" where
  "path_curvature_factor L p t =
     (let n = length (p_pts p) in
      if n < 3 \<or> p_total_length p < rnd32 (1 / 1000000) then Some 1
      else do {
        idx \<leftarrow> curvature_index (p_dist p) (fmul t (p_total_length p)) 1 (n - 2);
        let lo = idx - CURV_WINDOW;
        let hi = (if idx + CURV_WINDOW \<ge> n then n - 1 else idx + CURV_WINDOW);
        if hi - lo < 2 then Some 1
        else do {
          a0 \<leftarrow> rd8 (p_pts p) lo;
          b0 \<leftarrow> rd8 (p_pts p) (lo + 1);
          a1 \<leftarrow> rd8 (p_pts p) (hi - 1);
          b1 \<leftarrow> rd8 (p_pts p) hi;
          let d0x = fsub (pt_x b0) (pt_x a0); let d0y = fsub (pt_y b0) (pt_y a0);
          let d1x = fsub (pt_x b1) (pt_x a1); let d1y = fsub (pt_y b1) (pt_y a1);
          let len0 = hypotenuse L d0x d0y;
          let len1 = hypotenuse L d1x d1y;
          if len0 < rnd32 (1 / 1000000) \<or> len1 < rnd32 (1 / 1000000) then Some 1
          else
            let dot = fdiv (fadd (fmul d0x d1x) (fmul d0y d1y)) (fmul len0 len1);
                dot = (if dot > 1 then 1 else dot);
                dot = (if dot < - 1 then - 1 else dot);
                angle = lm_acos L dot
            in Some (if angle < rnd32 (3 / 10) then rnd32 (7 / 10)
                     else fdiv 1 (fadd 1 (fmul CURV_SLOWDOWN angle))) } })"

section \<open>Chaining\<close>

definition xform_seg :: "rat \<Rightarrow> rat \<Rightarrow> rat \<Rightarrow> rat \<Rightarrow> rat \<Rightarrow> route_seg \<Rightarrow> route_seg" where
  "xform_seg tx ty cos_r sin_r rot_rad s =
     (let fx = (\<lambda>x y. fadd (fsub (fmul cos_r x) (fmul sin_r y)) tx);
          fy = (\<lambda>x y. fadd (fadd (fmul sin_r x) (fmul cos_r y)) ty)
      in case s of
           RSEG_LINE x0 y0 x1 y1 \<Rightarrow> RSEG_LINE (fx x0 y0) (fy x0 y0) (fx x1 y1) (fy x1 y1)
         | RSEG_ARC cx cy radius a0 a1 \<Rightarrow> RSEG_ARC (fx cx cy) (fy cx cy) radius (fadd a0 rot_rad) (fadd a1 rot_rad))"

primrec append_segs :: "(route_seg \<Rightarrow> route_seg) \<Rightarrow> route_seg list \<Rightarrow> route_path \<Rightarrow> route_path" where
  "append_segs f [] dst = dst"
| "append_segs f (s # ss) dst =
     (if length (p_segs dst) \<ge> RPATH_MAX_SEGS then dst else append_segs f ss (dst\<lparr> p_segs := p_segs dst @ [f s] \<rparr>))"

definition rpath_xform_append :: "route_path \<Rightarrow> route_path \<Rightarrow> rat \<Rightarrow> rat \<Rightarrow> rat \<Rightarrow> rat \<Rightarrow> rat \<Rightarrow> route_path" where
  "rpath_xform_append dst src tx ty cos_r sin_r rot_rad = append_segs (xform_seg tx ty cos_r sin_r rot_rad) (p_segs src) dst"

section \<open>The polyline stays in its arrays\<close>

text \<open>Angles for which the number of steps is an int.\<close>

definition seg_in :: "rat \<Rightarrow> route_seg \<Rightarrow> bool" where
  "seg_in B s = (case s of RSEG_LINE _ _ _ _ \<Rightarrow> True | RSEG_ARC _ _ _ a0 a1 \<Rightarrow> \<bar>a0\<bar> \<le> B \<and> \<bar>a1\<bar> \<le> B)"

text \<open>Points that follow each other are apart.\<close>

definition apart :: "route_point list \<Rightarrow> bool" where
  "apart ps \<longleftrightarrow> (\<forall>i. i + 1 < length ps \<longrightarrow>
     rnd32 (1 / 100000000) \<le> norm2 (fsub (pt_x (ps ! (i + 1))) (pt_x (ps ! i))) (fsub (pt_y (ps ! (i + 1))) (pt_y (ps ! i))))"

lemma apart_snoc: "apart (ps @ [q]) \<longleftrightarrow> apart ps \<and> (ps \<noteq> [] \<longrightarrow>
    rnd32 (1 / 100000000) \<le> norm2 (fsub (pt_x q) (pt_x (last ps))) (fsub (pt_y q) (pt_y (last ps))))"
proof (cases "ps = []")
  case False
  then obtain m where m: "length ps = m + 1" by (cases ps) (auto simp: Suc_eq_plus1)
  have "last ps = ps ! m" using False m by (simp add: last_conv_nth)
  moreover have "i < m + 1 \<longleftrightarrow> i < m \<or> i = m" for i by auto
  ultimately show ?thesis using False m by (auto simp: apart_def nth_append)
qed (simp add: apart_def)

lemma apart_smooth: "ps \<noteq> [] \<Longrightarrow> apart (butlast ps @ [(last ps)\<lparr> pt_smooth := b \<rparr>]) = apart ps"
proof -
  assume "ps \<noteq> []"
  then have "apart ps = apart (butlast ps @ [last ps])" by simp
  then show ?thesis by (simp add: apart_snoc)
qed

lemma add_pt_ok:
  assumes "length ps \<le> RPATH_MAX_PTS" and "apart ps"
  shows "length (add_pt x y b ps) \<le> RPATH_MAX_PTS \<and> apart (add_pt x y b ps)"
proof -
  have "apart (butlast ps @ [(last ps)\<lparr> pt_smooth := True \<rparr>])" if "ps \<noteq> []" using apart_smooth [OF that] assms(2) by blast
  moreover have "length (butlast ps @ [(last ps)\<lparr> pt_smooth := True \<rparr>]) = length ps" if "ps \<noteq> []"
    using that by (cases ps rule: rev_cases) simp_all
  ultimately show ?thesis using assms by (simp add: add_pt_def apart_snoc not_less)
qed

lemma fold_points:
  "length ps \<le> RPATH_MAX_PTS \<Longrightarrow> apart ps \<Longrightarrow>
    length (fold (\<lambda>j. arc_point L s n (int j)) js ps) \<le> RPATH_MAX_PTS \<and> apart (fold (\<lambda>j. arc_point L s n (int j)) js ps)"
proof (induction js arbitrary: ps)
  case (Cons j js)
  have "length (arc_point L s n (int j) ps) \<le> RPATH_MAX_PTS \<and> apart (arc_point L s n (int j) ps)"
    using Cons.prems by (cases s) (simp_all add: arc_point_def Let_def add_pt_ok)
  then show ?case using Cons.IH by simp
qed simp

text \<open>Bounds of rounded values: up to 2^20 the rounding error is below 1/8.\<close>

lemma rnd32_near: "\<bar>x\<bar> \<le> B \<Longrightarrow> \<bar>rnd32 x - x\<bar> \<le> B / 16777216"
  using rnd32_err [of x] divide_right_mono [of "\<bar>x\<bar>" B "16777216 :: rat"] by simp

lemma rnd32_abs: "\<bar>x\<bar> \<le> B \<Longrightarrow> \<bar>rnd32 x\<bar> \<le> B + B / 16777216"
  using rnd32_near [of x B] by linarith

lemma rnd32_nonneg: "0 \<le> x \<Longrightarrow> 0 \<le> rnd32 x"
  by (rule rnd32_bounds(3))

lemma pi_f: "157 / 50 \<le> PI_F" "PI_F \<le> 63 / 20" "157 / 100 \<le> HALF_PI_F" "HALF_PI_F \<le> 158 / 100"
proof -
  define x :: rat where "x = 314159265358979323846 / 100000000000000000000"
  have x: "31415 / 10000 \<le> x" "x \<le> 31416 / 10000" by (simp_all add: x_def)
  have "\<bar>M_PI - x\<bar> \<le> \<bar>x\<bar> / 2 ^ 53" using rnd64_err [of x] by (simp add: M_PI_def x_def)
  also have "\<bar>x\<bar> / 2 ^ 53 \<le> 1 / 100000" using x by simp
  finally have m: "3141 / 1000 \<le> M_PI" "M_PI \<le> 3142 / 1000" using x by linarith+
  have "\<bar>PI_F - M_PI\<bar> \<le> \<bar>M_PI\<bar> / 2 ^ 24" using rnd32_err [of M_PI] by (simp add: PI_F_def)
  also have "\<bar>M_PI\<bar> / 2 ^ 24 \<le> 1 / 100000" using m by simp
  finally show "157 / 50 \<le> PI_F" "PI_F \<le> 63 / 20" using m by linarith+
  define y where "y = rnd64 (M_PI * (1 / 2))"
  have "\<bar>y - M_PI * (1 / 2)\<bar> \<le> \<bar>M_PI * (1 / 2)\<bar> / 2 ^ 53" using rnd64_err by (simp only: y_def)
  also have "\<bar>M_PI * (1 / 2)\<bar> / 2 ^ 53 \<le> 1 / 100000" using m by simp
  finally have y: "1570 / 1000 + 1 / 3000 \<le> y" "y \<le> 1571 / 1000 + 1 / 3000" using m by linarith+
  have "\<bar>HALF_PI_F - y\<bar> \<le> \<bar>y\<bar> / 2 ^ 24" using rnd32_err [of y] by (simp add: HALF_PI_F_def y_def)
  also have "\<bar>y\<bar> / 2 ^ 24 \<le> 1 / 100000" using y by simp
  finally show "157 / 100 \<le> HALF_PI_F" "HALF_PI_F \<le> 158 / 100" using y by linarith+
qed

lemma arc_step_pos: "1 / 20 \<le> fdiv (fmul 3 PI_F) 180"
proof -
  have "471 / 50 \<le> 3 * PI_F" "3 * PI_F \<le> 10" using pi_f(1,2) by simp_all
  then have "471 / 50 - 1 / 1000 \<le> fmul 3 PI_F"
    using rnd32_bounds(1) [of "3 * PI_F"] unfolding fmul_def by linarith
  then have "52 / 1000 \<le> fmul 3 PI_F / 180" by simp
  then show ?thesis using rnd32_bounds(1) [of "fmul 3 PI_F / 180"] by (simp add: fdiv_def)
qed

lemma arc_steps_total:
  assumes "\<bar>sweep\<bar> \<le> 1000000" shows "\<exists>n. arc_steps sweep = Some n \<and> 2 \<le> n"
proof -
  define d where "d = fdiv (fmul 3 PI_F) 180"
  have d: "1 / 20 \<le> d" using arc_step_pos by (simp add: d_def)
  have "\<bar>sweep\<bar> / d \<le> 1000000 / d" using d assms by (intro divide_right_mono) simp_all
  also have "1000000 / d \<le> 20000000" using d by (simp add: divide_le_eq)
  finally have q: "0 \<le> \<bar>sweep\<bar> / d" "\<bar>sweep\<bar> / d \<le> 20000000" using d by simp_all
  define x where "x = \<bar>sweep\<bar> / d"
  have r: "0 \<le> fdiv \<bar>sweep\<bar> d" "fdiv \<bar>sweep\<bar> d \<le> 20000002"
    using rnd32_bounds(2,3) [OF q(1)] q(2) unfolding fdiv_def x_def [symmetric] by linarith+
  then have "0 \<le> \<lfloor>fdiv \<bar>sweep\<bar> d\<rfloor>" "\<lfloor>fdiv \<bar>sweep\<bar> d\<rfloor> \<le> 20000002" by linarith+
  then show ?thesis using r(1)
    by (auto simp: arc_steps_def d_def [symmetric] float_to_int_def trunc_def c_int_def)
qed

lemma densify_segs_total:
  "list_all (seg_in 400000) ss \<Longrightarrow> length ps \<le> RPATH_MAX_PTS \<Longrightarrow> apart ps \<Longrightarrow>
    \<exists>qs. densify_segs L ss ps = Some qs \<and> length qs \<le> RPATH_MAX_PTS \<and> apart qs"
proof (induction ss arbitrary: ps)
  case (Cons s ss)
  have "\<exists>qs. densify_seg L s ps = Some qs \<and> length qs \<le> RPATH_MAX_PTS \<and> apart qs"
  proof (cases s)
    case (RSEG_LINE x0 y0 x1 y1)
    then show ?thesis using Cons.prems add_pt_ok by (simp add: densify_seg_def)
  next
    case (RSEG_ARC cx cy r a0 a1)
    have a: "\<bar>a0\<bar> \<le> 400000" "\<bar>a1\<bar> \<le> 400000" using Cons.prems(1) RSEG_ARC by (simp_all add: seg_in_def)
    then have "\<bar>a1 - a0\<bar> \<le> 800000" by linarith
    then have "\<bar>fsub a1 a0\<bar> \<le> 1000000" using rnd32_abs [of "a1 - a0" 800000] by (simp add: fsub_def)
    then obtain n where n: "arc_steps (fsub a1 a0) = Some n" using arc_steps_total by blast
    have "densify_seg L s ps = Some (fold (\<lambda>j. arc_point L s n (int j)) [0 ..< nat n + 1] ps)"
      by (simp add: densify_seg_def RSEG_ARC n)
    moreover obtain js where "js = [0 ..< nat n + 1]" by blast
    ultimately show ?thesis using fold_points [OF Cons.prems(2,3), of L s n js] by simp
  qed
  then show ?case using Cons.IH Cons.prems(1) by auto
qed simp

text \<open>A path whose polyline was made: the two arrays go together.\<close>

definition path_ok :: "route_path \<Rightarrow> bool" where
  "path_ok p \<longleftrightarrow> length (p_pts p) \<le> RPATH_MAX_PTS \<and> apart (p_pts p) \<and> length (p_pts p) \<le> length (p_dist p)"

lemma length_distances: "length (distances L d ps) = length ps - 1"
  by (induction L d ps rule: distances.induct) (simp_all add: Let_def)

lemma rpath_densify_total:
  assumes "list_all (seg_in 400000) (p_segs p)"
  shows "\<exists>q. rpath_densify L p = Some q \<and> path_ok q \<and> p_segs q = p_segs p"
proof -
  obtain qs where qs: "densify_segs L (p_segs p) [] = Some qs" "length qs \<le> RPATH_MAX_PTS" "apart qs"
    using densify_segs_total [OF assms, of "[]" L] by (auto simp: apart_def)
  then show ?thesis by (simp add: rpath_densify_def Let_def path_ok_def length_distances)
qed

section \<open>The samplers read inside the polyline\<close>

lemma first_from_total:
  "i + n \<le> length ds \<Longrightarrow> \<exists>r. first_from ds target i n = Some r \<and> (\<forall>k. r = Some k \<longrightarrow> i \<le> k \<and> k < i + n \<and> target \<le> ds ! k)"
proof (induction n arbitrary: i)
  case (Suc n)
  have "i + 1 + n \<le> length ds" using Suc.prems by simp
  then obtain r where r: "first_from ds target (i + 1) n = Some r"
      "\<And>k. r = Some k \<Longrightarrow> i + 1 \<le> k \<and> k < i + 1 + n \<and> target \<le> ds ! k"
    using Suc.IH by blast
  have "\<forall>k. r = Some k \<longrightarrow> i \<le> k \<and> k < Suc (i + n) \<and> target \<le> ds ! k" using r(2) by fastforce
  then show ?case using Suc.prems r(1) by (auto simp: rd8_def)
qed simp

lemma interpolate_total:
  assumes "path_ok p" and "i < length (p_pts p)"
  shows "\<exists>x y. interpolate p i target = Some (x, y)"
proof -
  have "i < length (p_dist p)" "i - 1 < length (p_dist p)" "i - 1 < length (p_pts p)"
    using assms by (auto simp: path_ok_def)
  then show ?thesis using assms(2) by (simp add: interpolate_def rd8_def Let_def)
qed

lemma rpath_sample_total:
  assumes "path_ok p" shows "\<exists>x y. rpath_sample p t = Some (x, y)"
proof (cases "length (p_pts p) < 2")
  case False
  let ?n = "length (p_pts p)" and ?target = "fmul t (p_total_length p)"
  have "1 + (?n - 1) \<le> length (p_dist p)" using False assms by (simp add: path_ok_def)
  then obtain r where r: "first_from (p_dist p) ?target 1 (?n - 1) = Some r" "\<forall>k. r = Some k \<longrightarrow> k < 1 + (?n - 1)"
    using first_from_total by blast
  show ?thesis
  proof (cases r)
    case None
    then show ?thesis using r(1) False by (simp add: rpath_sample_def rd8_def)
  next
    case (Some k)
    then have "k < ?n" using r(2) False by simp
    then show ?thesis using interpolate_total [OF assms] r(1) Some False by (simp add: rpath_sample_def)
  qed
qed (simp add: rpath_sample_def)

lemma piece_heading_total:
  "i < length (p_pts p) \<Longrightarrow> \<exists>h. piece_heading L p i = Some h"
  by (simp add: piece_heading_def rd8_def Let_def)

lemma heading_from_total:
  "i + n \<le> length (p_pts p) \<Longrightarrow> path_ok p \<Longrightarrow> \<exists>h. heading_from L p target i n = Some h"
proof (induction n arbitrary: i)
  case (Suc n)
  obtain h where h: "piece_heading L p i = Some h" using piece_heading_total [of i p L] Suc.prems by auto
  have "i < length (p_dist p)" using Suc.prems by (simp add: path_ok_def)
  then show ?case
    using Suc.IH [of "i + 1"] Suc.prems h by (auto simp: rd8_def split: option.split)
qed simp

lemma rpath_sample_heading_total:
  assumes "path_ok p" shows "\<exists>a. rpath_sample_heading L p t = Some a"
proof (cases "length (p_pts p) < 2")
  case False
  let ?n = "length (p_pts p)"
  have n: "1 + (?n - 1) \<le> ?n" "?n - 1 < ?n" using False by simp_all
  obtain h where h: "piece_heading L p (?n - 1) = Some h" using piece_heading_total [OF n(2)] by blast
  have "\<exists>a. heading_from L p target 1 (?n - 1) = Some a" for target by (rule heading_from_total [OF n(1) assms])
  then obtain g where g: "\<And>target. heading_from L p target 1 (?n - 1) = Some (g target)" by metis
  show ?thesis using False by (simp add: rpath_sample_heading_def Let_def g h split: option.split)
qed (simp add: rpath_sample_heading_def)

lemma curvature_index_total:
  "idx + n \<le> length ds \<Longrightarrow> \<exists>k. curvature_index ds target idx n = Some k \<and> idx \<le> k \<and> k \<le> idx + n"
proof (induction n arbitrary: idx)
  case (Suc n)
  then show ?case using Suc.IH [of "idx + 1"] by (fastforce simp: rd8_def)
qed simp

lemma path_curvature_factor_total:
  assumes "path_ok p" and "libm_ok L" shows "\<exists>k. path_curvature_factor L p t = Some k \<and> 0 \<le> k"
proof (cases "length (p_pts p) < 3 \<or> p_total_length p < rnd32 (1 / 1000000)")
  case False
  let ?n = "length (p_pts p)"
  have "?n \<le> length (p_dist p)" "3 \<le> ?n" using False assms(1) by (auto simp: path_ok_def)
  then have "1 + (?n - 2) \<le> length (p_dist p)" by linarith
  then obtain k where k: "curvature_index (p_dist p) (fmul t (p_total_length p)) 1 (?n - 2) = Some k" "1 \<le> k" "k \<le> 1 + (?n - 2)"
    using curvature_index_total by blast
  define lo where "lo = k - CURV_WINDOW"
  define hi where "hi = (if k + CURV_WINDOW \<ge> ?n then ?n - 1 else k + CURV_WINDOW)"
  have pos: "0 \<le> fdiv 1 (fadd 1 (fmul CURV_SLOWDOWN (lm_acos L x)))" for x
  proof -
    have "0 \<le> lm_acos L x" using assms(2) by (simp add: libm_ok_def)
    then have "0 \<le> CURV_SLOWDOWN * lm_acos L x" by (simp add: CURV_SLOWDOWN_def)
    then have "0 \<le> 1 + fmul CURV_SLOWDOWN (lm_acos L x)" unfolding fmul_def using rnd32_nonneg by (metis add_nonneg_nonneg zero_le_one)
    then have "0 \<le> fadd 1 (fmul CURV_SLOWDOWN (lm_acos L x))" unfolding fadd_def by (rule rnd32_nonneg)
    then have "0 \<le> 1 / fadd 1 (fmul CURV_SLOWDOWN (lm_acos L x))" by simp
    then show ?thesis unfolding fdiv_def by (rule rnd32_nonneg)
  qed
  have mild: "0 \<le> rnd32 (7 / 10)" by (rule rnd32_nonneg) simp
  show ?thesis
  proof (cases "hi - lo < 2")
    case True
    then show ?thesis using False k by (simp add: path_curvature_factor_def Let_def lo_def hi_def)
  next
    case hl: False
    have "hi < ?n" using False k(2) by (auto simp: hi_def)
    then have "lo < ?n" "lo + 1 < ?n" "hi - 1 < ?n" "hi < ?n" using hl by simp_all
    note rd = this [THEN rd8_Some]
    show ?thesis
      using False k(1) hl mild pos
      by (simp add: path_curvature_factor_def Let_def lo_def [symmetric] hi_def [symmetric] rd)
  qed
qed (auto simp: path_curvature_factor_def Let_def)

section \<open>Chaining stays in its array\<close>

lemma append_segs_bound:
  "length (p_segs dst) \<le> RPATH_MAX_SEGS \<Longrightarrow>
    p_segs (append_segs f ss dst) = p_segs dst @ map f (take (RPATH_MAX_SEGS - length (p_segs dst)) ss)"
proof (induction ss arbitrary: dst)
  case (Cons s ss)
  show ?case
  proof (cases "length (p_segs dst) \<ge> RPATH_MAX_SEGS")
    case False
    define m where "m = RPATH_MAX_SEGS - length (p_segs dst) - 1"
    have m: "RPATH_MAX_SEGS - length (p_segs dst) = Suc m" "RPATH_MAX_SEGS - length (p_segs dst @ [f s]) = m"
      using False by (simp_all add: m_def)
    have "p_segs (append_segs f ss (dst\<lparr> p_segs := p_segs dst @ [f s] \<rparr>)) = (p_segs dst @ [f s]) @ map f (take m ss)"
      using Cons.IH [of "dst\<lparr> p_segs := p_segs dst @ [f s] \<rparr>"] False m(2) by simp
    then show ?thesis using False by (simp only: m(1) append_segs.simps if_False take_Suc_Cons list.map append.assoc append.simps)
  qed (use Cons.prems in simp)
qed simp

end
