(* ===== verification/Route_Build.thy ===== *)
theory Route_Build
  imports Route_Path Render_Engine
begin

text \<open>
  The routes of the maneuvers: c_render/maneuver.c, the ends of a segment, the
  fillets at the junctions, the extension, the roundabout's arc, the route of
  each icon, and the chain of two routes that a handoff draws.
\<close>

text \<open>The offsets stay as in the prelude.\<close>

declare One_nat_def [simp del] add_2_eq_Suc [simp del] add_2_eq_Suc' [simp del]

section \<open>The ends of a segment\<close>

definition unit_dir :: "libm \<Rightarrow> rat \<Rightarrow> rat \<Rightarrow> rat \<times> rat" where
  "unit_dir L ddx ddy = (let len = hypotenuse L ddx ddy in
     if len < rnd32 (1 / 1000000) then (0, 1) else (fdiv ddx len, fdiv ddy len))"

text \<open>The sign of an arc's winding, a point on it and the tangent there.\<close>

definition arc_sign :: "rat \<Rightarrow> rat \<Rightarrow> rat" where
  "arc_sign a0 a1 = (if fsub a1 a0 \<ge> 0 then 1 else - 1)"

definition arc_at :: "libm \<Rightarrow> rat \<Rightarrow> rat \<Rightarrow> rat \<Rightarrow> rat \<Rightarrow> rat \<Rightarrow> (rat \<times> rat) \<times> (rat \<times> rat)" where
  "arc_at L cx cy r sg a =
     ((fadd cx (fmul r (lm_cos L a)), fadd cy (fmul r (lm_sin L a))), (fmul (- sg) (lm_sin L a), fmul sg (lm_cos L a)))"

definition seg_start_dir :: "libm \<Rightarrow> route_seg \<Rightarrow> (rat \<times> rat) \<times> (rat \<times> rat)" where
  "seg_start_dir L s = (case s of
      RSEG_LINE x0 y0 x1 y1 \<Rightarrow> ((x0, y0), unit_dir L (fsub x1 x0) (fsub y1 y0))
    | RSEG_ARC cx cy r a0 a1 \<Rightarrow> arc_at L cx cy r (arc_sign a0 a1) a0)"

definition seg_end_dir :: "libm \<Rightarrow> route_seg \<Rightarrow> (rat \<times> rat) \<times> (rat \<times> rat)" where
  "seg_end_dir L s = (case s of
      RSEG_LINE x0 y0 x1 y1 \<Rightarrow> ((x1, y1), unit_dir L (fsub x1 x0) (fsub y1 y0))
    | RSEG_ARC cx cy r a0 a1 \<Rightarrow> arc_at L cx cy r (arc_sign a0 a1) a1)"

definition rpath_extend :: "libm \<Rightarrow> route_path \<Rightarrow> route_path" where
  "rpath_extend L p =
     (if length (p_segs p) < 1 \<or> length (p_segs p) + 2 > RPATH_MAX_SEGS then p
      else let ((sx, sy), (sdx, sdy)) = seg_start_dir L (hd (p_segs p));
               ((ex, ey), (edx, edy)) = seg_end_dir L (last (p_segs p))
           in p\<lparr> p_segs :=
                RSEG_LINE (fsub sx (fmul sdx ROUTE_EXTEND)) (fsub sy (fmul sdy ROUTE_EXTEND)) sx sy # p_segs p @
                [RSEG_LINE ex ey (fadd ex (fmul edx ROUTE_EXTEND)) (fadd ey (fmul edy ROUTE_EXTEND))] \<rparr>)"

section \<open>Winding an angle\<close>

text \<open>The while loops that add or subtract a turn; None is a loop that does not end.\<close>

definition TWO_PI_F :: rat where "TWO_PI_F = fmul 2 PI_F"

definition wind_up :: "(rat \<Rightarrow> bool) \<Rightarrow> rat \<Rightarrow> rat option" where
  "wind_up b a = while_option b (\<lambda>a. fadd a TWO_PI_F) a"

definition wind_down :: "(rat \<Rightarrow> bool) \<Rightarrow> rat \<Rightarrow> rat option" where
  "wind_down b a = while_option b (\<lambda>a. fsub a TWO_PI_F) a"

section \<open>Fillets at the junctions of a path\<close>

definition seg_length :: "libm \<Rightarrow> route_seg \<Rightarrow> rat" where
  "seg_length L s = (case s of
      RSEG_LINE x0 y0 x1 y1 \<Rightarrow> hypotenuse L (fsub x1 x0) (fsub y1 y0)
    | RSEG_ARC _ _ r a0 a1 \<Rightarrow> fmul \<bar>fsub a1 a0\<bar> r)"

text \<open>A segment shortened at its end or at its start, with the new end and the tangent there.\<close>

definition trim_end :: "libm \<Rightarrow> route_seg \<Rightarrow> rat \<times> rat \<Rightarrow> rat \<Rightarrow> (route_seg \<times> (rat \<times> rat) \<times> (rat \<times> rat)) option" where
  "trim_end L s d t = (case s of
      RSEG_LINE x0 y0 x1 y1 \<Rightarrow>
        let x = fsub x1 (fmul (fst d) t); y = fsub y1 (fmul (snd d) t) in Some (RSEG_LINE x0 y0 x y, (x, y), d)
    | RSEG_ARC cx cy r a0 a1 \<Rightarrow> do {
        da \<leftarrow> fdiv_ok t r;
        let up = fsub a1 a0 > 0;
        let new_end = (if up then fsub a1 da else fadd a1 da);
        Some (RSEG_ARC cx cy r a0 new_end, arc_at L cx cy r (if up then 1 else - 1) new_end) })"

definition trim_start :: "libm \<Rightarrow> route_seg \<Rightarrow> rat \<times> rat \<Rightarrow> rat \<Rightarrow> (route_seg \<times> (rat \<times> rat) \<times> (rat \<times> rat)) option" where
  "trim_start L s d t = (case s of
      RSEG_LINE x0 y0 x1 y1 \<Rightarrow>
        let x = fadd x0 (fmul (fst d) t); y = fadd y0 (fmul (snd d) t) in Some (RSEG_LINE x y x1 y1, (x, y), d)
    | RSEG_ARC cx cy r a0 a1 \<Rightarrow> do {
        da \<leftarrow> fdiv_ok t r;
        let up = fsub a1 a0 > 0;
        let new_start = (if up then fadd a0 da else fsub a0 da);
        Some (RSEG_ARC cx cy r new_start a1, arc_at L cx cy r (if up then 1 else - 1) new_start) })"

definition clamp1 :: "rat \<Rightarrow> rat" where
  "clamp1 x = (if x < - 1 then - 1 else if x > 1 then 1 else x)"

text \<open>The turns too small or too sharp for a fillet.\<close>

definition no_fillet :: "rat \<Rightarrow> bool" where
  "no_fillet alpha \<longleftrightarrow> alpha < rnd32 (9 / 100) \<or> alpha > fmul PI_F (rnd32 (97 / 100))"

definition half_tan :: "libm \<Rightarrow> rat \<Rightarrow> rat" where
  "half_tan L alpha = (let x = lm_tan L (fmul (fsub PI_F alpha) (1 / 2)) in
     if x < rnd32 (1 / 1000000) then rnd32 (1 / 1000000) else x)"

text \<open>The distance of the tangent points from the corner.\<close>

definition trim_length :: "libm \<Rightarrow> rat \<Rightarrow> rat \<Rightarrow> route_seg \<Rightarrow> route_seg \<Rightarrow> rat" where
  "trim_length L fillet_r tan_vh prev cur =
     (let t = fdiv fillet_r tan_vh;
          max_t = fmul (rnd32 (45 / 100)) (min (seg_length L prev) (seg_length L cur))
      in if t > max_t then max_t else t)"

text \<open>The arc from one tangent point to the other.\<close>

definition fillet_arc :: "libm \<Rightarrow> rat \<Rightarrow> rat \<times> rat \<Rightarrow> rat \<times> rat \<Rightarrow> rat \<Rightarrow> rat \<times> rat \<Rightarrow> route_seg option" where
  "fillet_arc L cross t1 t2 r perp = do {
     let cx = fadd (fst t1) (fmul (fst perp) r);
     let cy = fadd (snd t1) (fmul (snd perp) r);
     let sa = lm_atan2 L (fsub (snd t1) cy) (fsub (fst t1) cx);
     let ea = lm_atan2 L (fsub (snd t2) cy) (fsub (fst t2) cx);
     ea \<leftarrow> (if cross > 0 then wind_up (\<lambda>a. a < sa) ea else wind_down (\<lambda>a. a > sa) ea);
     Some (RSEG_ARC cx cy r sa ea) }"

definition cross2 :: "rat \<times> rat \<Rightarrow> rat \<times> rat \<Rightarrow> rat" where
  "cross2 u v = fsub (fmul (fst u) (snd v)) (fmul (snd u) (fst v))"

definition inside_perp :: "rat \<Rightarrow> rat \<times> rat \<Rightarrow> rat \<times> rat" where
  "inside_perp cross d = (if cross > 0 then (- snd d, fst d) else (snd d, - fst d))"

text \<open>The radius of the circle through both tangent points.\<close>

definition fit_radius :: "rat \<times> rat \<Rightarrow> rat \<times> rat \<Rightarrow> rat \<times> rat \<Rightarrow> rat \<Rightarrow> (rat \<times> rat) \<times> rat" where
  "fit_radius t1 t2 perp r =
     (let dx = fsub (fst t1) (fst t2); dy = fsub (snd t1) (snd t2);
          d_perp = fadd (fmul dx (fst perp)) (fmul dy (snd perp)) in
      if \<bar>d_perp\<bar> > rnd32 (1 / 1000000)
      then let r = fdiv (- norm2 dx dy) (fmul 2 d_perp) in
           if r < 0 then ((- fst perp, - snd perp), - r) else (perp, r)
      else (perp, r))"

text \<open>A write to new_segs, an array of RPATH_MAX_SEGS on the stack.\<close>

definition push_seg :: "route_seg \<Rightarrow> route_seg list \<Rightarrow> route_seg list option" where
  "push_seg s ns = (if length ns < RPATH_MAX_SEGS then Some (ns @ [s]) else None)"

definition fillet_step :: "libm \<Rightarrow> rat \<Rightarrow> route_seg \<Rightarrow> route_seg list \<Rightarrow> route_seg list option" where
  "fillet_step L fillet_r cur ns =
     (if length ns \<ge> RPATH_MAX_SEGS - 2 then push_seg cur ns
      else let prev = last ns;
               ed = snd (seg_end_dir L prev);
               sd = snd (seg_start_dir L cur);
               alpha = lm_acos L (clamp1 (fadd (fmul (fst ed) (fst sd)) (fmul (snd ed) (snd sd)))) in
           if no_fillet alpha then push_seg cur ns
           else do {
             let tan_vh = half_tan L alpha;
             let t = trim_length L fillet_r tan_vh prev cur;
             (prev, t1, d1) \<leftarrow> trim_end L prev ed t;
             (cur, t2, d2) \<leftarrow> trim_start L cur sd t;
             let c = cross2 d1 d2;
             let (perp, r) = fit_radius t1 t2 (inside_perp c d1) (fmul t tan_vh);
             f \<leftarrow> fillet_arc L c t1 t2 r perp;
             ns \<leftarrow> push_seg f (butlast ns @ [prev]);
             push_seg cur ns })"

primrec fillet_steps :: "libm \<Rightarrow> rat \<Rightarrow> route_seg list \<Rightarrow> route_seg list \<Rightarrow> route_seg list option" where
  "fillet_steps L r [] ns = Some ns"
| "fillet_steps L r (s # ss) ns = do { ns \<leftarrow> fillet_step L r s ns; fillet_steps L r ss ns }"

definition rpath_fillet_junctions :: "libm \<Rightarrow> route_path \<Rightarrow> rat \<Rightarrow> route_path option" where
  "rpath_fillet_junctions L p fillet_r =
     (if length (p_segs p) < 2 then Some p
      else do {
        ns \<leftarrow> fillet_steps L fillet_r (tl (p_segs p)) [hd (p_segs p)];
        Some (p\<lparr> p_segs := ns \<rparr>) })"

section \<open>The path through points, with fillets\<close>

text \<open>The line to the first tangent point and the arc to the second one.\<close>

definition emit_fillet :: "libm \<Rightarrow> route_path \<Rightarrow> rat \<times> rat \<Rightarrow> rat \<Rightarrow> rat \<times> rat \<Rightarrow> rat \<times> rat \<Rightarrow> rat \<Rightarrow> rat \<times> rat \<Rightarrow>
    ((rat \<times> rat) \<times> route_path) option" where
  "emit_fillet L p cs cross t1 t2 r perp = do {
     f \<leftarrow> fillet_arc L cross t1 t2 r perp;
     Some (t2, add_seg (rpath_add_line p (fst cs) (snd cs) (fst t1) (snd t1)) f) }"

text \<open>The corner b between a and c, with the start of the current segment; pts are
  the points behind c.\<close>

definition fillet_corner :: "libm \<Rightarrow> rat \<Rightarrow> rat \<times> rat \<Rightarrow> rat \<times> rat \<Rightarrow> rat \<times> rat \<Rightarrow> rat \<times> rat \<Rightarrow> route_path \<Rightarrow>
    ((rat \<times> rat) \<times> route_path) option" where
  "fillet_corner L fillet_r cs a b c p =
     (let in_dx = fsub (fst b) (fst a); in_dy = fsub (snd b) (snd a);
          in_len = hypotenuse L in_dx in_dy;
          out_dx = fsub (fst c) (fst b); out_dy = fsub (snd c) (snd b);
          out_len = hypotenuse L out_dx out_dy;
          straight = (b, rpath_add_line p (fst cs) (snd cs) (fst b) (snd b)) in
      if in_len < rnd32 (1 / 1000000) \<or> out_len < rnd32 (1 / 1000000) then Some straight
      else let u = (fdiv in_dx in_len, fdiv in_dy in_len);
               v = (fdiv out_dx out_len, fdiv out_dy out_len);
               cross = cross2 u v;
               alpha = lm_acos L (clamp1 (fadd (fmul (fst u) (fst v)) (fmul (snd u) (snd v)))) in
           if no_fillet alpha then Some straight
           else
             let tan_vh = half_tan L alpha;
                 t = fdiv fillet_r tan_vh;
                 max_t = min (fmul in_len (rnd32 (45 / 100))) (fmul out_len (rnd32 (45 / 100)));
                 t = (if t > max_t then max_t else t);
                 t1 = (fsub (fst b) (fmul (fst u) t), fsub (snd b) (fmul (snd u) t));
                 t2 = (fadd (fst b) (fmul (fst v) t), fadd (snd b) (fmul (snd v) t))
             in emit_fillet L p cs cross t1 t2 (fmul t tan_vh) (inside_perp cross u))"

fun filleted :: "libm \<Rightarrow> rat \<Rightarrow> rat \<times> rat \<Rightarrow> (rat \<times> rat) list \<Rightarrow> route_path \<Rightarrow> route_path option" where
  "filleted L r cs (a # b # c # pts) p = do {
     (cs, p) \<leftarrow> fillet_corner L r cs a b c p;
     filleted L r cs (b # c # pts) p }"
| "filleted L r cs [a, b] p = Some (rpath_add_line p (fst cs) (snd cs) (fst b) (snd b))"
| "filleted L r cs _ p = Some p"

definition build_filleted_path :: "libm \<Rightarrow> (rat \<times> rat) list \<Rightarrow> rat \<Rightarrow> route_path \<Rightarrow> route_path option" where
  "build_filleted_path L pts fillet_r p =
     (let p = rpath_clear p in if length pts < 2 then Some p else filleted L fillet_r (hd pts) pts p)"

section \<open>The roundabout\<close>

definition SNAP_SENTINEL :: rat where "SNAP_SENTINEL = 999"

text \<open>The index and the difference of the nearest of the angles from index i on.\<close>

definition angle_diff :: "rat \<Rightarrow> int \<Rightarrow> rat" where
  "angle_diff e a = (let d = \<bar>fsub (rnd32 (of_int a)) e\<bar> in if d > 180 then fsub 360 d else d)"

primrec nearest_angle :: "rat \<Rightarrow> int list \<Rightarrow> nat \<Rightarrow> nat \<Rightarrow> rat \<Rightarrow> nat \<times> rat" where
  "nearest_angle e [] i best best_diff = (best, best_diff)"
| "nearest_angle e (a # as) i best best_diff =
     (let d = angle_diff e a in
      if d < best_diff then nearest_angle e as (i + 1) i d else nearest_angle e as (i + 1) best best_diff)"

definition deg_to_rad :: "rat \<Rightarrow> rat" where
  "deg_to_rad d = fdiv (fmul d PI_F) 180"

text \<open>The snapped angle in degrees, in radians, and the index of the angle it snapped to.\<close>

definition snap_roundabout_exit :: "rat \<Rightarrow> int list \<Rightarrow> nat \<Rightarrow> (rat \<times> rat \<times> int) option" where
  "snap_roundabout_exit e angles count = do {
     (deg, idx) \<leftarrow> (if count > 0
       then do {
         as \<leftarrow> rd_mem angles 0 (min count MAX_JUNCTION_ANGLES);
         let (best, diff) = nearest_angle e as 0 0 SNAP_SENTINEL;
         if diff < 30 then do { a \<leftarrow> rd8 angles best; Some (rnd32 (of_int a), int best) } else Some (e, - 1) }
       else Some (e, - 1));
     Some (deg, deg_to_rad (fsub 90 deg), idx) }"

definition roundabout_arc_range :: "rat \<Rightarrow> rat \<Rightarrow> int \<Rightarrow> (rat \<times> rat) option" where
  "roundabout_arc_range entry_rad exit_rad driving_side =
     (if driving_side = 0
      then do { e \<leftarrow> wind_up (\<lambda>a. a \<le> entry_rad) exit_rad;
                Some (entry_rad, if fsub e entry_rad < rnd32 (1 / 100) then fadd e TWO_PI_F else e) }
      else do { e \<leftarrow> wind_down (\<lambda>a. a \<ge> entry_rad) exit_rad;
                Some (entry_rad, if fsub entry_rad e < rnd32 (1 / 100) then fsub e TWO_PI_F else e) })"

section \<open>The routes of the icons\<close>

definition SHAFT_T :: rat where "SHAFT_T = rnd32 (14 / 100)"
definition HEAD_SZ :: rat where "HEAD_SZ = fmul SHAFT_T (rnd32 (13 / 10))"
definition ROAD_LEN :: rat where "ROAD_LEN = rnd32 (55 / 100)"
definition BLUE_LEN :: rat where "BLUE_LEN = 1 / 2"
definition SHAFT_BOT :: rat where "SHAFT_BOT = - ROAD_LEN"
definition JOINT_R :: rat where "JOINT_R = fmul SHAFT_T (1 / 2)"
definition RAB_RING_R :: rat where "RAB_RING_R = rnd32 (28 / 100)"
definition UTURN_GAP :: rat where "UTURN_GAP = rnd32 (18 / 100)"
definition UTURN_TOP :: rat where "UTURN_TOP = rnd32 (30 / 100)"
definition UTURN_ARROW :: rat where "UTURN_ARROW = - rnd32 (10 / 100)"
definition LANE_SHIFT :: rat where "LANE_SHIFT = rnd32 (35 / 100)"
definition MERGE_OFFSET :: rat where "MERGE_OFFSET = rnd32 (38 / 100)"
definition BEND_LO :: rat where "BEND_LO = - rnd32 (15 / 100)"
definition BEND_HI :: rat where "BEND_HI = rnd32 (15 / 100)"
definition MERGE_BEND_LO :: rat where "MERGE_BEND_LO = - rnd32 (10 / 100)"
definition ARRIVE_CENTER_Y :: rat where "ARRIVE_CENTER_Y = rnd32 (12 / 100)"

definition route_approach :: "route_path \<Rightarrow> route_path option" where
  "route_approach p =
     (let straight_end = fsub ARRIVE_CENTER_Y HEAD_SZ
      in Some (rpath_set_arrow (rpath_add_line (rpath_clear p) 0 SHAFT_BOT 0 straight_end) 0 straight_end HALF_PI_F))"

definition route_turn :: "libm \<Rightarrow> int \<Rightarrow> route_path \<Rightarrow> route_path option" where
  "route_turn L exit_angle p = do {
     let angle_rad = deg_to_rad (rnd32 (of_int exit_angle));
     let end_x = fmul BLUE_LEN (lm_sin L angle_rad);
     let end_y = fmul BLUE_LEN (lm_cos L angle_rad);
     p \<leftarrow> build_filleted_path L [(0, SHAFT_BOT), (0, 0), (end_x, end_y)] JOINT_R p;
     Some (rpath_set_arrow p end_x end_y (fsub HALF_PI_F angle_rad)) }"

definition route_uturn :: "libm \<Rightarrow> int \<Rightarrow> int \<Rightarrow> route_path \<Rightarrow> route_path option" where
  "route_uturn L driving_side direction p = do {
     let go_left = (if direction \<noteq> 0 then direction < 0 else driving_side = 0);
     let enter_x = (if go_left then UTURN_GAP else - UTURN_GAP);
     let exit_x = (if go_left then - UTURN_GAP else UTURN_GAP);
     let p = rpath_add_line (rpath_clear p) enter_x SHAFT_BOT enter_x UTURN_TOP;
     let p = (if go_left then rpath_add_arc p 0 UTURN_TOP UTURN_GAP 0 PI_F else rpath_add_arc p 0 UTURN_TOP UTURN_GAP PI_F 0);
     p \<leftarrow> rpath_fillet_junctions L (rpath_add_line p exit_x UTURN_TOP exit_x UTURN_ARROW) JOINT_R;
     Some (rpath_set_arrow p exit_x UTURN_ARROW (- HALF_PI_F)) }"

definition route_roundabout :: "libm \<Rightarrow> maneuver_state \<Rightarrow> route_path \<Rightarrow> route_path option" where
  "route_roundabout L st p = do {
     let entry_rad = - HALF_PI_F;
     (deg, exit_rad, idx) \<leftarrow>
       snap_roundabout_exit (rnd32 (of_int (ms_exit_angle st))) (ms_junction_angles st) (ms_junction_angle_count st);
     let ext = fsub BLUE_LEN RAB_RING_R;
     let entry_pt_x = fmul RAB_RING_R (lm_cos L entry_rad);
     let entry_pt_y = fmul RAB_RING_R (lm_sin L entry_rad);
     let ex0_x = fmul RAB_RING_R (lm_cos L exit_rad);
     let ex0_y = fmul RAB_RING_R (lm_sin L exit_rad);
     let ex_tip_x = fmul (fadd RAB_RING_R ext) (lm_cos L exit_rad);
     let ex_tip_y = fmul (fadd RAB_RING_R ext) (lm_sin L exit_rad);
     (arc_s, arc_e) \<leftarrow> roundabout_arc_range entry_rad exit_rad (ms_driving_side st);
     let p = rpath_add_line (rpath_clear p) 0 SHAFT_BOT entry_pt_x entry_pt_y;
     let p = rpath_add_arc p 0 0 RAB_RING_R arc_s arc_e;
     p \<leftarrow> rpath_fillet_junctions L (rpath_add_line p ex0_x ex0_y ex_tip_x ex_tip_y) JOINT_R;
     Some (rpath_set_arrow p ex_tip_x ex_tip_y exit_rad) }"

definition route_merge :: "libm \<Rightarrow> int \<Rightarrow> route_path \<Rightarrow> route_path option" where
  "route_merge L direction p = do {
     let sg = (if direction > 0 then 1 else - 1);
     let start_x = fmul sg (- MERGE_OFFSET);
     p \<leftarrow> build_filleted_path L [(start_x, SHAFT_BOT), (start_x, MERGE_BEND_LO), (0, BEND_HI), (0, BLUE_LEN)] JOINT_R p;
     Some (rpath_set_arrow p 0 BLUE_LEN HALF_PI_F) }"

definition route_exit :: "libm \<Rightarrow> int \<Rightarrow> route_path \<Rightarrow> route_path option" where
  "route_exit L direction p = do {
     let sg = (if direction < 0 then - 1 else 1);
     let shift = fmul sg LANE_SHIFT;
     p \<leftarrow> build_filleted_path L [(0, SHAFT_BOT), (0, BEND_LO), (shift, BEND_HI), (shift, BLUE_LEN)] JOINT_R p;
     Some (rpath_set_arrow p shift BLUE_LEN HALF_PI_F) }"

definition route_arrived :: "route_path \<Rightarrow> route_path option" where
  "route_arrived p =
     Some (rpath_set_arrow (rpath_add_line (rpath_clear p) 0 SHAFT_BOT 0 ARRIVE_CENTER_Y) 0 ARRIVE_CENTER_Y HALF_PI_F)"

definition maneuver_build_route :: "libm \<Rightarrow> maneuver_state \<Rightarrow> route_path \<Rightarrow> route_path option" where
  "maneuver_build_route L st p =
     (if ms_icon st = ICON_APPROACH then route_approach p
      else if ms_icon st = ICON_TURN then route_turn L (ms_exit_angle st) p
      else if ms_icon st = ICON_UTURN then route_uturn L (ms_driving_side st) (ms_direction st) p
      else if ms_icon st = ICON_ROUNDABOUT then route_roundabout L st p
      else if ms_icon st = ICON_MERGE then route_merge L (ms_direction st) p
      else if ms_icon st = ICON_EXIT then route_exit L (ms_direction st) p
      else route_arrived p)"

text \<open>The route of a handoff in maneuver_draw: the current route, the next one
  moved behind it (the transform is computed from the two exits), and the arrow at
  the end; the first road's length is g_slug_override, the second's next_road_len.\<close>

definition handoff_route :: "libm \<Rightarrow> maneuver_state \<Rightarrow> maneuver_state \<Rightarrow> rat \<Rightarrow> rat \<Rightarrow> rat \<Rightarrow> rat \<Rightarrow> rat \<Rightarrow>
    route_path \<Rightarrow> route_path \<Rightarrow> (rat \<times> rat \<times> route_path) option" where
  "handoff_route L st next_state tx ty cos_r sin_r rot g_route next_path = do {
     g \<leftarrow> maneuver_build_route L st g_route;
     g \<leftarrow> rpath_densify L g;
     let slug = p_total_length g;
     let g = rpath_extend L g;
     n \<leftarrow> maneuver_build_route L next_state next_path;
     n \<leftarrow> rpath_densify L n;
     let next_road_len = p_total_length n;
     let n = rpath_extend L n;
     let g = rpath_xform_append g n tx ty cos_r sin_r rot;
     let ax = fadd (fsub (fmul cos_r (p_arrow_x n)) (fmul sin_r (p_arrow_y n))) tx;
     let ay = fadd (fadd (fmul sin_r (p_arrow_x n)) (fmul cos_r (p_arrow_y n))) ty;
     g \<leftarrow> rpath_densify L (rpath_set_arrow g ax ay (fadd (p_arrow_angle n) rot));
     Some (slug, next_road_len, g) }"

section \<open>Winding ends\<close>

lemma two_pi_f: "627 / 100 \<le> TWO_PI_F" "TWO_PI_F \<le> 631 / 100"
proof -
  have "314 / 50 \<le> 2 * PI_F" "2 * PI_F \<le> 63 / 10" using pi_f(1,2) by simp_all
  moreover from this have "\<bar>rnd32 (2 * PI_F) - 2 * PI_F\<bar> \<le> 1 / 1000" using rnd32_near [of "2 * PI_F" 7] by simp
  ultimately show "627 / 100 \<le> TWO_PI_F" "TWO_PI_F \<le> 631 / 100" unfolding TWO_PI_F_def fmul_def by linarith+
qed

lemma turn_up: "\<bar>a\<bar> \<le> 1010 \<Longrightarrow> a + 6 \<le> fadd a TWO_PI_F \<and> fadd a TWO_PI_F \<le> a + 7"
  and turn_down: "\<bar>a\<bar> \<le> 1010 \<Longrightarrow> a - 7 \<le> fsub a TWO_PI_F \<and> fsub a TWO_PI_F \<le> a - 6"
proof -
  assume "\<bar>a\<bar> \<le> 1010"
  then have "\<bar>a + TWO_PI_F\<bar> \<le> 1020" "\<bar>a - TWO_PI_F\<bar> \<le> 1020" using two_pi_f by linarith+
  then have "\<bar>rnd32 (a + TWO_PI_F) - (a + TWO_PI_F)\<bar> \<le> 1 / 1000" "\<bar>rnd32 (a - TWO_PI_F) - (a - TWO_PI_F)\<bar> \<le> 1 / 1000"
    using rnd32_near [of "a + TWO_PI_F" 1020] rnd32_near [of "a - TWO_PI_F" 1020] by simp_all
  then show "a + 6 \<le> fadd a TWO_PI_F \<and> fadd a TWO_PI_F \<le> a + 7" "a - 7 \<le> fsub a TWO_PI_F \<and> fsub a TWO_PI_F \<le> a - 6"
    unfolding fadd_def fsub_def using two_pi_f by linarith+
qed

lemma wind_up_total:
  assumes "\<And>a. b a \<Longrightarrow> a \<le> lo" and "\<bar>lo\<bar> \<le> 1000" and "\<bar>a\<bar> \<le> 1000"
  shows "\<exists>r. wind_up b a = Some r \<and> \<not> b r \<and> \<bar>r\<bar> \<le> 1010"
proof -
  let ?P = "\<lambda>a. - 1000 \<le> a \<and> a \<le> 1010"
  have step: "?P (fadd s TWO_PI_F) \<and> nat \<lceil>lo + 10 - fadd s TWO_PI_F\<rceil> < nat \<lceil>lo + 10 - s\<rceil>" if "?P s" "b s" for s
  proof -
    have s: "s \<le> lo" "\<bar>s\<bar> \<le> 1010" using assms(1) [OF that(2)] that(1) by auto
    have "?P (fadd s TWO_PI_F)" using turn_up [OF s(2)] s(1) that(1) assms(2) by linarith
    moreover have "nat \<lceil>lo + 10 - fadd s TWO_PI_F\<rceil> < nat \<lceil>lo + 10 - s\<rceil>"
      by (rule nat_ceiling_less) (use turn_up [OF s(2)] s(1) in linarith)+
    ultimately show ?thesis by blast
  qed
  have start: "?P a" using assms(3) by auto
  obtain r where r: "while_option b (\<lambda>a. fadd a TWO_PI_F) a = Some r"
    using measure_while_option_Some [where P = ?P and f = "\<lambda>a. nat \<lceil>lo + 10 - a\<rceil>", OF step start] by blast
  have "?P r" by (rule while_option_rule [OF _ r, where P = ?P]) (use step start in auto)
  then show ?thesis using r while_option_stop [OF r] by (auto simp: wind_up_def)
qed

lemma wind_down_total:
  assumes "\<And>a. b a \<Longrightarrow> hi \<le> a" and "\<bar>hi\<bar> \<le> 1000" and "\<bar>a\<bar> \<le> 1000"
  shows "\<exists>r. wind_down b a = Some r \<and> \<not> b r \<and> \<bar>r\<bar> \<le> 1010"
proof -
  let ?P = "\<lambda>a. - 1010 \<le> a \<and> a \<le> 1000"
  have step: "?P (fsub s TWO_PI_F) \<and> nat \<lceil>fsub s TWO_PI_F + 10 - hi\<rceil> < nat \<lceil>s + 10 - hi\<rceil>" if "?P s" "b s" for s
  proof -
    have s: "hi \<le> s" "\<bar>s\<bar> \<le> 1010" using assms(1) [OF that(2)] that(1) by auto
    have "?P (fsub s TWO_PI_F)" using turn_down [OF s(2)] s(1) that(1) assms(2) by linarith
    moreover have "nat \<lceil>fsub s TWO_PI_F + 10 - hi\<rceil> < nat \<lceil>s + 10 - hi\<rceil>"
      by (rule nat_ceiling_less) (use turn_down [OF s(2)] s(1) in linarith)+
    ultimately show ?thesis by blast
  qed
  have start: "?P a" using assms(3) by auto
  obtain r where r: "while_option b (\<lambda>a. fsub a TWO_PI_F) a = Some r"
    using measure_while_option_Some [where P = ?P and f = "\<lambda>a. nat \<lceil>a + 10 - hi\<rceil>", OF step start] by blast
  have "?P r" by (rule while_option_rule [OF _ r, where P = ?P]) (use step start in auto)
  then show ?thesis using r while_option_stop [OF r] by (auto simp: wind_down_def)
qed

lemma fillet_arc_total:
  assumes "libm_ok L" shows "\<exists>f. fillet_arc L c t1 t2 r perp = Some f \<and> seg_in 1010 f"
proof -
  let ?cx = "fadd (fst t1) (fmul (fst perp) r)" and ?cy = "fadd (snd t1) (fmul (snd perp) r)"
  define sa where "sa = lm_atan2 L (fsub (snd t1) ?cy) (fsub (fst t1) ?cx)"
  define ea where "ea = lm_atan2 L (fsub (snd t2) ?cy) (fsub (fst t2) ?cx)"
  have "- 4 \<le> sa" "sa \<le> 4" "- 4 \<le> ea" "ea \<le> 4" using assms by (simp_all add: libm_ok_def sa_def ea_def)
  then have a: "\<bar>sa\<bar> \<le> 1000" "\<bar>ea\<bar> \<le> 1000" by auto
  obtain u where u: "wind_up (\<lambda>a. a < sa) ea = Some u" "\<bar>u\<bar> \<le> 1010" using wind_up_total [OF _ a, of "\<lambda>a. a < sa"] by auto
  obtain d where d: "wind_down (\<lambda>a. a > sa) ea = Some d" "\<bar>d\<bar> \<le> 1010" using wind_down_total [OF _ a, of "\<lambda>a. a > sa"] by auto
  show ?thesis
    unfolding fillet_arc_def Let_def sa_def [symmetric] ea_def [symmetric]
    using u d a by (simp add: seg_in_def)
qed

section \<open>Trimming\<close>

text \<open>Arcs with a radius.\<close>

definition arc_pos :: "route_seg \<Rightarrow> bool" where
  "arc_pos s \<longleftrightarrow> (case s of RSEG_LINE _ _ _ _ \<Rightarrow> True | RSEG_ARC _ _ r _ _ \<Rightarrow> 0 < r)"

lemma seg_in_mono: "seg_in A s \<Longrightarrow> A \<le> B \<Longrightarrow> seg_in B s"
  by (cases s) (auto simp: seg_in_def)

lemma norm2_nonneg: "0 \<le> norm2 x y"
  by (simp add: norm2_def fadd_def fmul_def rnd32_nonneg add_nonneg_nonneg)

lemma hypotenuse_nonneg: "libm_ok L \<Longrightarrow> 0 \<le> hypotenuse L x y"
  by (simp add: hypotenuse_def libm_ok_def norm2_nonneg)

lemma seg_length_nonneg: "libm_ok L \<Longrightarrow> arc_pos s \<Longrightarrow> 0 \<le> seg_length L s"
  by (cases s) (simp_all add: seg_length_def hypotenuse_nonneg arc_pos_def fmul_def rnd32_nonneg)

text \<open>The trim is at most half of the length it is measured in.\<close>

lemma trim_half:
  assumes "0 \<le> m" and "m \<le> len" and "0 \<le> t" and "t \<le> fmul (rnd32 (45 / 100)) m"
  shows "t \<le> 47 / 100 * len"
proof -
  have "rnd32 (45 / 100) \<le> 46 / 100" "0 \<le> rnd32 (45 / 100)" using rnd32_bounds(2,3) [of "45 / 100"] by simp_all
  from mult_right_mono [OF this(1) assms(1)] mult_right_mono [OF this(2) assms(1)]
  have "rnd32 (45 / 100) * m \<le> 46 / 100 * m" "0 \<le> rnd32 (45 / 100) * m" by simp_all
  then have "fmul (rnd32 (45 / 100)) m \<le> 46 / 100 * m + 46 / 100 * m / 16777216"
    using rnd32_le_mono [of "rnd32 (45 / 100) * m" "46 / 100 * m"] assms(1) by (simp add: fmul_def)
  then show ?thesis using assms by linarith
qed

lemma trim_angle:
  assumes "0 < r" and "0 \<le> t" and "t \<le> 47 / 100 * fmul \<bar>sw\<bar> r"
  shows "\<exists>da. fdiv_ok t r = Some da \<and> 0 \<le> da \<and> da \<le> \<bar>sw\<bar>"
proof -
  have "fmul \<bar>sw\<bar> r \<le> \<bar>sw\<bar> * r + \<bar>sw\<bar> * r / 16777216"
    using rnd32_bounds(2) [of "\<bar>sw\<bar> * r"] assms(1) by (simp add: fmul_def)
  moreover have "0 \<le> \<bar>sw\<bar> * r" using assms(1) by simp
  ultimately have "t \<le> 48 / 100 * (\<bar>sw\<bar> * r)" using assms(3) by linarith
  then have "t / r \<le> 48 / 100 * \<bar>sw\<bar>" "0 \<le> t / r" using assms(1,2) by (simp_all add: divide_le_eq)
  then have "0 \<le> fdiv t r" "fdiv t r \<le> 48 / 100 * \<bar>sw\<bar> + 48 / 100 * \<bar>sw\<bar> / 16777216"
    using rnd32_le_mono [of "t / r" "48 / 100 * \<bar>sw\<bar>"] rnd32_nonneg by (simp_all add: fdiv_def)
  then have "0 \<le> fdiv t r" "fdiv t r \<le> \<bar>sw\<bar>" by linarith+
  then show ?thesis using assms(1) by (simp add: fdiv_ok_def)
qed

lemma moved_angle:
  assumes "\<bar>a0\<bar> \<le> B" and "\<bar>a1\<bar> \<le> B" and "0 \<le> da" and "da \<le> \<bar>fsub a1 a0\<bar>" and "\<bar>a\<bar> \<le> B"
  shows "\<bar>fadd a da\<bar> \<le> 5 * B" "\<bar>fsub a da\<bar> \<le> 5 * B"
proof -
  have "\<bar>a1 - a0\<bar> \<le> 2 * B" using assms(1,2) by linarith
  from rnd32_abs [OF this] have "\<bar>fsub a1 a0\<bar> \<le> 2 * B + 2 * B / 16777216" by (simp only: fsub_def)
  then have "da \<le> 3 * B" using assms(4) by linarith
  then have "\<bar>a + da\<bar> \<le> 4 * B" "\<bar>a - da\<bar> \<le> 4 * B" using assms(3,5) by linarith+
  from this [THEN rnd32_abs] have "\<bar>fadd a da\<bar> \<le> 4 * B + 4 * B / 16777216" "\<bar>fsub a da\<bar> \<le> 4 * B + 4 * B / 16777216"
    unfolding fadd_def fsub_def by simp_all
  then show "\<bar>fadd a da\<bar> \<le> 5 * B" "\<bar>fsub a da\<bar> \<le> 5 * B" using assms(5) by linarith+
qed

lemma trim_total:
  assumes "seg_in B s" and "arc_pos s" and "0 \<le> t" and "t \<le> 47 / 100 * seg_length L s" and "0 \<le> B"
  shows "\<exists>s' x d'. trim_end L s d t = Some (s', x, d') \<and> seg_in (5 * B) s' \<and> arc_pos s'"
    and "\<exists>s' x d'. trim_start L s d t = Some (s', x, d') \<and> seg_in (5 * B) s' \<and> arc_pos s'"
proof -
  have *: "(\<exists>s' x d'. trim_end L s d t = Some (s', x, d') \<and> seg_in (5 * B) s' \<and> arc_pos s') \<and>
    (\<exists>s' x d'. trim_start L s d t = Some (s', x, d') \<and> seg_in (5 * B) s' \<and> arc_pos s')"
  proof (cases s)
    case (RSEG_LINE x0 y0 x1 y1)
    then show ?thesis by (simp add: trim_end_def trim_start_def Let_def seg_in_def arc_pos_def)
  next
    case (RSEG_ARC cx cy r a0 a1)
    have r: "0 < r" "t \<le> 47 / 100 * fmul \<bar>fsub a1 a0\<bar> r" using assms(2,4) RSEG_ARC by (simp_all add: arc_pos_def seg_length_def)
    have a: "\<bar>a0\<bar> \<le> B" "\<bar>a1\<bar> \<le> B" using assms(1) RSEG_ARC by (simp_all add: seg_in_def)
    obtain da where da: "fdiv_ok t r = Some da" "0 \<le> da" "da \<le> \<bar>fsub a1 a0\<bar>" using trim_angle [OF r(1) assms(3) r(2)] by blast
    note m = moved_angle [OF a da(2,3)]
    have "\<bar>a0\<bar> \<le> 5 * B" "\<bar>a1\<bar> \<le> 5 * B" using a assms(5) by linarith+
    then show ?thesis
      using da(1) m [OF a(1)] m [OF a(2)] r(1)
      by (simp add: trim_end_def trim_start_def Let_def RSEG_ARC seg_in_def arc_pos_def arc_at_def)
  qed
  then show "\<exists>s' x d'. trim_end L s d t = Some (s', x, d') \<and> seg_in (5 * B) s' \<and> arc_pos s'"
    "\<exists>s' x d'. trim_start L s d t = Some (s', x, d') \<and> seg_in (5 * B) s' \<and> arc_pos s'" by blast+
qed

section \<open>The fillets fit in their array\<close>

lemma half_tan_pos: "0 < half_tan L alpha"
proof -
  have "0 < rnd32 (1 / 1000000)" by (rule rnd32_pos) simp
  then show ?thesis by (simp add: half_tan_def Let_def)
qed

text \<open>The segments made so far: the last one may be shortened once more.\<close>

definition fillets_ok :: "rat \<Rightarrow> route_seg list \<Rightarrow> bool" where
  "fillets_ok B ns \<longleftrightarrow> ns \<noteq> [] \<and> list_all (seg_in (25 * B)) ns \<and> seg_in (5 * B) (last ns) \<and> arc_pos (last ns)"

lemma push_total:
  "length ns < RPATH_MAX_SEGS \<Longrightarrow> push_seg s ns = Some (ns @ [s])"
  by (simp add: push_seg_def)

lemma fillet_step_total:
  assumes "libm_ok L" and "0 \<le> fillet_r" and "1010 \<le> B" and "fillets_ok B ns" and "seg_in B cur" and "arc_pos cur"
    and "length ns < RPATH_MAX_SEGS"
  shows "\<exists>ns'. fillet_step L fillet_r cur ns = Some ns' \<and> fillets_ok B ns' \<and> length ns < length ns' \<and>
    length ns' \<le> (if length ns < RPATH_MAX_SEGS - 2 then length ns + 2 else length ns + 1)"
proof -
  have cur: "seg_in (5 * B) cur" "seg_in (25 * B) cur" using seg_in_mono [OF assms(5)] assms(3) by simp_all
  have plain: "push_seg cur ns = Some (ns @ [cur]) \<and> fillets_ok B (ns @ [cur])"
    using assms(4,6,7) cur by (simp add: push_total fillets_ok_def)
  define ed where "ed = snd (seg_end_dir L (last ns))"
  define sd where "sd = snd (seg_start_dir L cur)"
  define alpha where "alpha = lm_acos L (clamp1 (fadd (fmul (fst ed) (fst sd)) (fmul (snd ed) (snd sd))))"
  show ?thesis
  proof (cases "length ns \<ge> RPATH_MAX_SEGS - 2 \<or> no_fillet alpha")
    case True
    then have "fillet_step L fillet_r cur ns = push_seg cur ns"
      by (auto simp: fillet_step_def Let_def ed_def sd_def alpha_def)
    then show ?thesis using plain by simp
  next
    case False
    define m where "m = min (seg_length L (last ns)) (seg_length L cur)"
    define max_t where "max_t = fmul (rnd32 (45 / 100)) m"
    define t0 where "t0 = fdiv fillet_r (half_tan L alpha)"
    define t where "t = trim_length L fillet_r (half_tan L alpha) (last ns) cur"
    have t_eq: "t = (if t0 > max_t then max_t else t0)"
      unfolding t_def trim_length_def Let_def t0_def max_t_def m_def ..
    have last: "seg_in (5 * B) (last ns)" "arc_pos (last ns)" "ns \<noteq> []" "list_all (seg_in (25 * B)) ns"
      using assms(4) by (simp_all add: fillets_ok_def)
    have m: "0 \<le> m" "m \<le> seg_length L (last ns)" "m \<le> seg_length L cur"
      using seg_length_nonneg [OF assms(1) last(2)] seg_length_nonneg [OF assms(1,6)] by (simp_all add: m_def)
    have "0 \<le> rnd32 (45 / 100)" by (rule rnd32_nonneg) simp
    then have "0 \<le> max_t" "0 \<le> t0" unfolding max_t_def t0_def fmul_def fdiv_def
      using m(1) assms(2) half_tan_pos [of L alpha] by (simp_all add: rnd32_nonneg)
    then have t: "0 \<le> t" "t \<le> max_t" by (simp_all add: t_eq)
    have B: "0 \<le> 5 * B" "0 \<le> B" using assms(3) by simp_all
    note half = trim_half [OF m(1) _ t(1) t(2) [unfolded max_t_def]]
    obtain s1 t1 d1 where e: "trim_end L (last ns) ed t = Some (s1, t1, d1)" "seg_in (5 * (5 * B)) s1"
      using trim_total(1) [OF last(1,2) t(1) half [OF m(2)] B(1), of ed] by blast
    obtain s2 t2 d2 where s: "trim_start L cur sd t = Some (s2, t2, d2)" "seg_in (5 * B) s2" "arc_pos s2"
      using trim_total(2) [OF assms(5,6) t(1) half [OF m(3)] B(2), of sd] by blast
    obtain perp r where pr: "fit_radius t1 t2 (inside_perp (cross2 d1 d2) d1) (fmul t (half_tan L alpha)) = (perp, r)"
      by (cases "fit_radius t1 t2 (inside_perp (cross2 d1 d2) d1) (fmul t (half_tan L alpha))")
    obtain f where f: "fillet_arc L (cross2 d1 d2) t1 t2 r perp = Some f" "seg_in 1010 f"
      using fillet_arc_total [OF assms(1)] by blast
    have n: "length ns < RPATH_MAX_SEGS - 2" using False by simp
    have p1: "push_seg f (butlast ns @ [s1]) = Some (butlast ns @ [s1, f])" using n last(3) by (simp add: push_total)
    have p2: "push_seg s2 (butlast ns @ [s1, f]) = Some (butlast ns @ [s1, f, s2])" using n last(3) by (simp add: push_total RPATH_MAX_SEGS_def)
    have step: "fillet_step L fillet_r cur ns = Some (butlast ns @ [s1, f, s2])"
      using False
      by (simp add: fillet_step_def Let_def ed_def [symmetric] sd_def [symmetric] alpha_def [symmetric]
          t_def [symmetric] e(1) s(1) pr f(1) p1 p2)
    have "list_all (seg_in (25 * B)) (butlast ns)" using last(4) by (auto simp: list_all_iff dest: in_set_butlastD)
    then have "fillets_ok B (butlast ns @ [s1, f, s2])"
      using e(2) s(2,3) f(2) assms(3) by (auto simp: fillets_ok_def intro: seg_in_mono)
    moreover have "length (butlast ns @ [s1, f, s2]) = length ns + 2" using last(3) by (cases ns rule: rev_cases) simp_all
    ultimately show ?thesis using step n by simp
  qed
qed

text \<open>Room for what the remaining segments can add.\<close>

definition fillets_room :: "nat \<Rightarrow> nat \<Rightarrow> bool" where
  "fillets_room l k \<longleftrightarrow> (if l < RPATH_MAX_SEGS - 2 then l + 2 * k \<le> RPATH_MAX_SEGS + 2 else l + k \<le> RPATH_MAX_SEGS)"

lemma fillet_steps_total:
  assumes "libm_ok L" and "0 \<le> fillet_r" and "1010 \<le> B"
  shows "fillets_ok B ns \<Longrightarrow> list_all (seg_in B) ss \<Longrightarrow> list_all arc_pos ss \<Longrightarrow> fillets_room (length ns) (length ss) \<Longrightarrow>
    \<exists>ns'. fillet_steps L fillet_r ss ns = Some ns' \<and> fillets_ok B ns' \<and> length ns' \<le> length ns + 2 * length ss \<and>
      (ss \<noteq> [] \<longrightarrow> length ns' \<le> RPATH_MAX_SEGS)"
proof (induction ss arbitrary: ns)
  case (Cons s ss)
  have room: "length ns < RPATH_MAX_SEGS" using Cons.prems(4) by (auto simp: fillets_room_def RPATH_MAX_SEGS_def split: if_splits)
  obtain ns1 where ns1: "fillet_step L fillet_r s ns = Some ns1" "fillets_ok B ns1" "length ns < length ns1"
      "length ns1 \<le> (if length ns < RPATH_MAX_SEGS - 2 then length ns + 2 else length ns + 1)"
    using fillet_step_total [OF assms Cons.prems(1) _ _ room, of s] Cons.prems(2,3) by auto
  have "fillets_room (length ns1) (length ss)"
    using Cons.prems(4) ns1(3,4) by (auto simp: fillets_room_def RPATH_MAX_SEGS_def split: if_splits)
  then obtain ns' where ns': "fillet_steps L fillet_r ss ns1 = Some ns'" "fillets_ok B ns'" "length ns' \<le> length ns1 + 2 * length ss"
      "ss \<noteq> [] \<longrightarrow> length ns' \<le> RPATH_MAX_SEGS"
    using Cons.IH [OF ns1(2)] Cons.prems(2,3) by auto
  have "length ns' \<le> RPATH_MAX_SEGS"
  proof (cases ss)
    case Nil
    then show ?thesis using ns'(1) ns1(4) Cons.prems(4) by (auto simp: RPATH_MAX_SEGS_def fillets_room_def split: if_splits)
  qed (use ns'(4) in simp)
  then show ?case using ns1(1,4) ns'(1-3) by (auto split: if_splits)
qed simp

lemma fillet_junctions_total:
  assumes "libm_ok L" and "0 \<le> fillet_r" and "1010 \<le> B" and "list_all (seg_in B) (p_segs p)" and "list_all arc_pos (p_segs p)"
    and "length (p_segs p) \<le> 25"
  shows "\<exists>q. rpath_fillet_junctions L p fillet_r = Some q \<and> list_all (seg_in (25 * B)) (p_segs q) \<and>
    length (p_segs q) \<le> RPATH_MAX_SEGS \<and> length (p_segs q) \<le> 2 * length (p_segs p) \<and> (p_segs p \<noteq> [] \<longrightarrow> p_segs q \<noteq> [])"
proof (cases "length (p_segs p) < 2")
  case True
  then show ?thesis
    using assms(3,4) by (auto simp: rpath_fillet_junctions_def list_all_iff RPATH_MAX_SEGS_def intro: seg_in_mono)
next
  case False
  then obtain s ss where ss: "p_segs p = s # ss" "ss \<noteq> []" by (cases "p_segs p") (auto simp: neq_Nil_conv)
  have "fillets_ok B [s]" using assms(3,4,5) ss(1) by (auto simp: fillets_ok_def intro: seg_in_mono)
  moreover have "fillets_room (length [s]) (length ss)"
    using assms(6) ss(1) by (simp add: fillets_room_def RPATH_MAX_SEGS_def)
  ultimately obtain ns where "fillet_steps L fillet_r ss [s] = Some ns" "fillets_ok B ns" "length ns \<le> length [s] + 2 * length ss"
      "length ns \<le> RPATH_MAX_SEGS"
    using fillet_steps_total [OF assms(1-3), of "[s]" ss] assms(4,5) ss by auto
  then show ?thesis using False ss(1) by (simp add: rpath_fillet_junctions_def fillets_ok_def)
qed

section \<open>The path through points\<close>

lemma add_seg_segs: "length (p_segs p) < RPATH_MAX_SEGS \<Longrightarrow> p_segs (add_seg p s) = p_segs p @ [s]"
  by (simp add: add_seg_def)

lemma line_in: "seg_in B (RSEG_LINE a b c d)"
  by (simp add: seg_in_def)

lemma fillet_corner_total:
  assumes "libm_ok L" and "length (p_segs p) + 2 \<le> RPATH_MAX_SEGS"
  shows "\<exists>cs' q new. fillet_corner L r cs a b c p = Some (cs', q) \<and> p_segs q = p_segs p @ new \<and>
    length new \<le> 2 \<and> list_all (seg_in 1010) new"
proof -
  let ?straight = "Some (b, rpath_add_line p (fst cs) (snd cs) (fst b) (snd b))"
  have l: "p_segs (rpath_add_line p x y x' y') = p_segs p @ [RSEG_LINE x y x' y']" for x y x' y'
    using assms(2) by (simp add: rpath_add_line_def add_seg_segs)
  have straight: "\<exists>cs' q new. ?straight = Some (cs', q) \<and> p_segs q = p_segs p @ new \<and> length new \<le> 2 \<and> list_all (seg_in 1010) new"
    by (simp add: l line_in)
  have fillet: "\<exists>cs' q new. emit_fillet L p cs x t1 t2 r' perp = Some (cs', q) \<and> p_segs q = p_segs p @ new \<and>
      length new \<le> 2 \<and> list_all (seg_in 1010) new" for x t1 t2 r' perp
  proof -
    obtain f where f: "fillet_arc L x t1 t2 r' perp = Some f" "seg_in 1010 f" using fillet_arc_total [OF assms(1)] by blast
    have "p_segs (add_seg (rpath_add_line p u v u' v') f) = p_segs p @ [RSEG_LINE u v u' v', f]" for u v u' v'
      using assms(2) l by (simp add: add_seg_segs RPATH_MAX_SEGS_def)
    then show ?thesis using f by (simp add: emit_fillet_def line_in)
  qed
  have "\<exists>c1 c2 x t1 t2 r' perp. fillet_corner L r cs a b c p =
      (if c1 then ?straight else if c2 then ?straight else emit_fillet L p cs x t1 t2 r' perp)"
    unfolding fillet_corner_def Let_def by (intro exI, rule refl)
  then obtain c1 c2 x t1 t2 r' perp where "fillet_corner L r cs a b c p =
      (if c1 then ?straight else if c2 then ?straight else emit_fillet L p cs x t1 t2 r' perp)" by blast
  then show ?thesis using straight fillet [of x t1 t2 r' perp] by (cases c1; cases c2) simp_all
qed

lemma filleted_total:
  assumes "libm_ok L"
  shows "2 \<le> length pts \<Longrightarrow> length (p_segs p) + 2 * length pts \<le> RPATH_MAX_SEGS \<Longrightarrow>
    \<exists>q new. filleted L r cs pts p = Some q \<and> p_segs q = p_segs p @ new \<and> new \<noteq> [] \<and> length new + 3 \<le> 2 * length pts \<and>
      list_all (seg_in 1010) new"
  using assms
proof (induction L r cs pts p rule: filleted.induct)
  case (1 L r cs a b c pts p)
  have "length (p_segs p) + 2 \<le> RPATH_MAX_SEGS" using "1.prems"(2) by simp
  then obtain cs' p' new' where c: "fillet_corner L r cs a b c p = Some (cs', p')" "p_segs p' = p_segs p @ new'" "length new' \<le> 2"
      "list_all (seg_in 1010) new'" using fillet_corner_total [OF "1.prems"(3), of p r cs a b c] by blast
  have "length (p_segs p') + 2 * length (b # c # pts) \<le> RPATH_MAX_SEGS" using "1.prems"(2) c(2,3) by simp
  then obtain q new where "filleted L r cs' (b # c # pts) p' = Some q" "p_segs q = p_segs p' @ new" "new \<noteq> []"
      "length new + 3 \<le> 2 * length (b # c # pts)" "list_all (seg_in 1010) new"
    using "1.IH" [OF c(1) refl _ _ "1.prems"(3)] by auto
  then show ?case using c by simp
next
  case (2 L r cs a b p)
  then have "p_segs (rpath_add_line p (fst cs) (snd cs) (fst b) (snd b)) = p_segs p @ [RSEG_LINE (fst cs) (snd cs) (fst b) (snd b)]"
    by (simp add: rpath_add_line_def add_seg_segs)
  then show ?case by (simp add: line_in)
qed simp_all

lemma build_filleted_total:
  assumes "libm_ok L" and "2 \<le> length pts" and "length pts \<le> 24"
  shows "\<exists>q. build_filleted_path L pts r p = Some q \<and> p_segs q \<noteq> [] \<and> length (p_segs q) + 3 \<le> 2 * length pts \<and>
    list_all (seg_in 1010) (p_segs q)"
  using filleted_total [OF assms(1,2), of "rpath_clear p" r "hd pts"] assms(2,3)
  by (auto simp: build_filleted_path_def Let_def rpath_clear_def RPATH_MAX_SEGS_def)

section \<open>The routes of the icons fit\<close>

lemma deg_to_rad_bound: "\<bar>d\<bar> \<le> 33000 \<Longrightarrow> \<bar>deg_to_rad d\<bar> \<le> 600"
proof -
  assume d: "\<bar>d\<bar> \<le> 33000"
  have "\<bar>d * PI_F\<bar> \<le> 33000 * (63 / 20)" unfolding abs_mult by (rule mult_mono) (use d pi_f in auto)
  then have "\<bar>d * PI_F\<bar> \<le> 103950" by simp
  from rnd32_abs [OF this] have "\<bar>fmul d PI_F\<bar> \<le> 104000" by (simp add: fmul_def)
  then have "\<bar>fmul d PI_F / 180\<bar> \<le> 104000 / 180" by (simp add: abs_divide)
  from rnd32_abs [OF this] show ?thesis by (simp add: deg_to_rad_def fdiv_def)
qed

lemma int_float: "\<bar>a\<bar> \<le> 32768 \<Longrightarrow> \<bar>rnd32 (of_int a)\<bar> \<le> 32800"
proof -
  assume "\<bar>a\<bar> \<le> 32768"
  then have "\<bar>of_int a :: rat\<bar> \<le> 32768" by linarith
  from rnd32_abs [OF this] show ?thesis by simp
qed

lemma nearest_angle_index: "nearest_angle e as i best d = (b, d') \<Longrightarrow> b = best \<or> (i \<le> b \<and> b < i + length as)"
  by (induction as arbitrary: i best d) (fastforce simp: Let_def split: if_splits)+

lemma snap_total:
  assumes "man_ok st"
  shows "\<exists>deg rad idx. snap_roundabout_exit (rnd32 (of_int (ms_exit_angle st))) (ms_junction_angles st) (ms_junction_angle_count st) =
    Some (deg, rad, idx) \<and> \<bar>rad\<bar> \<le> 600"
proof -
  define e where "e = rnd32 (of_int (ms_exit_angle st))"
  define js where "js = ms_junction_angles st"
  define n where "n = min (ms_junction_angle_count st) MAX_JUNCTION_ANGLES"
  have js: "length js = 18" "\<forall>a \<in> set js. - 32768 \<le> a \<and> a < 32768" using assms by (simp_all add: man_ok_def js_def)
  have e: "\<bar>e\<bar> \<le> 32800" unfolding e_def using assms by (intro int_float) (auto simp: man_ok_def)
  have rad: "\<bar>deg_to_rad (fsub 90 d)\<bar> \<le> 600" if "\<bar>d\<bar> \<le> 32800" for d
  proof -
    have "\<bar>90 - d\<bar> \<le> 32900" using that by linarith
    from rnd32_abs [OF this] show ?thesis by (intro deg_to_rad_bound) (simp add: fsub_def)
  qed
  obtain b d where bd: "nearest_angle e (slice js 0 n) 0 0 SNAP_SENTINEL = (b, d)" by (cases "nearest_angle e (slice js 0 n) 0 0 SNAP_SENTINEL")
  have "b < 18" using nearest_angle_index [OF bd] js(1) by (auto simp: slice_def)
  then have jb: "rd8 js b = Some (js ! b)" "js ! b \<in> set js" using js(1) by (simp_all add: rd8_def)
  have a: "\<bar>rnd32 (of_int (js ! b))\<bar> \<le> 32800" by (rule int_float) (use js(2) jb(2) in force)
  have rd: "rd_mem js 0 n = Some (slice js 0 n)" using js(1) by (simp add: rd_mem_def n_def MAX_JUNCTION_ANGLES_def)
  show ?thesis
    unfolding e_def [symmetric] js_def [symmetric] snap_roundabout_exit_def n_def [symmetric]
    using rad [OF e] rad [OF a] by (simp add: rd bd jb(1))
qed

lemma arc_range_total:
  assumes "\<bar>exit_rad\<bar> \<le> 600"
  shows "\<exists>arc_e. roundabout_arc_range (- HALF_PI_F) exit_rad side = Some (- HALF_PI_F, arc_e) \<and> \<bar>arc_e\<bar> \<le> 1020"
proof -
  have h: "\<bar>- HALF_PI_F\<bar> \<le> 1000" "\<bar>exit_rad\<bar> \<le> 1000" using pi_f(3,4) assms by auto
  obtain u where u: "wind_up (\<lambda>a. a \<le> - HALF_PI_F) exit_rad = Some u" "\<bar>u\<bar> \<le> 1010"
    using wind_up_total [OF _ h, of "\<lambda>a. a \<le> - HALF_PI_F"] by auto
  obtain d where d: "wind_down (\<lambda>a. a \<ge> - HALF_PI_F) exit_rad = Some d" "\<bar>d\<bar> \<le> 1010"
    using wind_down_total [OF _ h, of "\<lambda>a. a \<ge> - HALF_PI_F"] by auto
  have "\<bar>fadd u TWO_PI_F\<bar> \<le> 1020" "\<bar>fsub d TWO_PI_F\<bar> \<le> 1020" using turn_up [OF u(2)] turn_down [OF d(2)] u(2) d(2) by linarith+
  moreover have "\<bar>u\<bar> \<le> 1020" "\<bar>d\<bar> \<le> 1020" using u(2) d(2) by linarith+
  ultimately show ?thesis by (simp add: roundabout_arc_range_def u(1) d(1))
qed

text \<open>The size of an icon's route.\<close>

definition route_fits :: "route_path \<Rightarrow> bool" where
  "route_fits q \<longleftrightarrow> p_segs q \<noteq> [] \<and> length (p_segs q) \<le> 6 \<and> list_all (seg_in 25500) (p_segs q)"

lemma fits_arrow: "route_fits (rpath_set_arrow q x y a) = route_fits q"
  by (simp add: route_fits_def rpath_set_arrow_def)

lemma then_arrow:
  "\<exists>q. X = Some q \<and> route_fits q \<Longrightarrow> \<exists>q. do { p \<leftarrow> X; Some (rpath_set_arrow p x y a) } = Some q \<and> route_fits q"
  by (auto simp: fits_arrow)

lemma one_line_fits: "route_fits (rpath_add_line (rpath_clear p) a b c d)"
  by (simp add: route_fits_def rpath_add_line_def rpath_clear_def add_seg_def RPATH_MAX_SEGS_def line_in)

lemma points_fit:
  assumes "libm_ok L" and "2 \<le> length pts" and "length pts \<le> 4"
  shows "\<exists>q. build_filleted_path L pts r p = Some q \<and> route_fits q"
proof -
  obtain q where q: "build_filleted_path L pts r p = Some q" "p_segs q \<noteq> []" "length (p_segs q) + 3 \<le> 2 * length pts"
      "list_all (seg_in 1010) (p_segs q)" using build_filleted_total [OF assms(1,2), of r p] assms(3) by auto
  have "list_all (seg_in 25500) (p_segs q)" using q(4) by (auto simp: list_all_iff intro: seg_in_mono)
  then show ?thesis using q assms(3) by (auto simp: route_fits_def)
qed

text \<open>A line, an arc and a line with their fillets.\<close>

lemma three_segs_fit:
  assumes "libm_ok L" and "0 < r" and "\<bar>a0\<bar> \<le> 1020" and "\<bar>a1\<bar> \<le> 1020"
  shows "\<exists>q. rpath_fillet_junctions L (rpath_add_line (rpath_add_arc (rpath_add_line (rpath_clear p) b0 b1 b2 b3) cx cy r a0 a1) c0 c1 c2 c3) JOINT_R =
      Some q \<and> route_fits q"
proof -
  define p3 where "p3 = rpath_add_line (rpath_add_arc (rpath_add_line (rpath_clear p) b0 b1 b2 b3) cx cy r a0 a1) c0 c1 c2 c3"
  have s: "p_segs p3 = [RSEG_LINE b0 b1 b2 b3, RSEG_ARC cx cy r a0 a1, RSEG_LINE c0 c1 c2 c3]"
    by (simp add: p3_def rpath_add_line_def rpath_add_arc_def rpath_clear_def add_seg_def RPATH_MAX_SEGS_def)
  have "0 \<le> JOINT_R" by (simp add: JOINT_R_def SHAFT_T_def fmul_def rnd32_nonneg)
  moreover have "list_all (seg_in 1020) (p_segs p3)" "list_all arc_pos (p_segs p3)"
    using assms(2-4) by (simp_all add: s seg_in_def arc_pos_def)
  ultimately obtain q where "rpath_fillet_junctions L p3 JOINT_R = Some q" "list_all (seg_in (25 * 1020)) (p_segs q)"
      "length (p_segs q) \<le> 2 * length (p_segs p3)" "p_segs q \<noteq> []"
    using fillet_junctions_total [OF assms(1), of JOINT_R 1020 p3] s by auto
  then show ?thesis unfolding p3_def [symmetric] by (simp add: s route_fits_def)
qed

lemma maneuver_build_route_total:
  assumes "libm_ok L" and "man_ok st"
  shows "\<exists>q. maneuver_build_route L st p = Some q \<and> route_fits q"
proof -
  have pi: "\<bar>PI_F\<bar> \<le> 1020" "\<bar>0 :: rat\<bar> \<le> 1020" "\<bar>- HALF_PI_F\<bar> \<le> 1020" using pi_f by auto
  have r: "0 < UTURN_GAP" "0 < RAB_RING_R" by (simp_all add: UTURN_GAP_def RAB_RING_R_def rnd32_pos)
  have turn: "\<exists>q. route_turn L a p = Some q \<and> route_fits q" for a
    unfolding route_turn_def Let_def by (rule then_arrow, rule points_fit) (use assms(1) in simp_all)
  have merge: "\<exists>q. route_merge L d p = Some q \<and> route_fits q" for d
    unfolding route_merge_def Let_def by (rule then_arrow, rule points_fit) (use assms(1) in simp_all)
  have exit: "\<exists>q. route_exit L d p = Some q \<and> route_fits q" for d
    unfolding route_exit_def Let_def by (rule then_arrow, rule points_fit) (use assms(1) in simp_all)
  have uturn: "\<exists>q. route_uturn L side d p = Some q \<and> route_fits q" for side d
    unfolding route_uturn_def Let_def
    by (rule then_arrow) (use three_segs_fit [OF assms(1) r(1) pi(1,2)] three_segs_fit [OF assms(1) r(1) pi(2,1)] in simp)
  obtain deg rad idx where snap: "snap_roundabout_exit (rnd32 (of_int (ms_exit_angle st))) (ms_junction_angles st)
      (ms_junction_angle_count st) = Some (deg, rad, idx)" "\<bar>rad\<bar> \<le> 600" using snap_total [OF assms(2)] by blast
  obtain arc_e where e: "roundabout_arc_range (- HALF_PI_F) rad (ms_driving_side st) = Some (- HALF_PI_F, arc_e)" "\<bar>arc_e\<bar> \<le> 1020"
    using arc_range_total [OF snap(2)] by blast
  have rab: "\<exists>q. route_roundabout L st p = Some q \<and> route_fits q"
    unfolding route_roundabout_def Let_def snap(1) e(1) bind.simps prod.case
    by (rule then_arrow, rule three_segs_fit [OF assms(1) r(2) pi(3) e(2)])
  show ?thesis
    using turn merge exit uturn rab
    by (simp add: maneuver_build_route_def route_approach_def route_arrived_def Let_def one_line_fits fits_arrow)
qed

section \<open>The handoff's route fits\<close>

lemma rpath_extend_fits:
  assumes "list_all (seg_in B) (p_segs p)"
  shows "list_all (seg_in B) (p_segs (rpath_extend L p))" "length (p_segs (rpath_extend L p)) \<le> length (p_segs p) + 2"
    "p_pts (rpath_extend L p) = p_pts p"
  using assms by (simp_all add: rpath_extend_def line_in split: prod.split)

lemma xform_in:
  assumes "seg_in 25500 s" and "\<bar>rot\<bar> \<le> 1000" shows "seg_in 400000 (xform_seg tx ty c r rot s)"
proof (cases s)
  case (RSEG_LINE x0 y0 x1 y1)
  then show ?thesis by (simp add: xform_seg_def Let_def line_in)
next
  case (RSEG_ARC cx cy rd a0 a1)
  then have "\<bar>a0 + rot\<bar> \<le> 26500" "\<bar>a1 + rot\<bar> \<le> 26500" using assms by (auto simp: seg_in_def)
  then have "\<bar>fadd a0 rot\<bar> \<le> 400000" "\<bar>fadd a1 rot\<bar> \<le> 400000"
    using rnd32_abs [of "a0 + rot" 26500] rnd32_abs [of "a1 + rot" 26500] by (simp_all add: fadd_def)
  then show ?thesis by (simp add: RSEG_ARC xform_seg_def Let_def seg_in_def)
qed

lemma route_densified:
  assumes "libm_ok L" and "man_ok st"
  shows "\<exists>q. (maneuver_build_route L st p \<bind> rpath_densify L) = Some q \<and> path_ok q \<and> route_fits q"
proof -
  obtain q where q: "maneuver_build_route L st p = Some q" "route_fits q" using maneuver_build_route_total [OF assms] by blast
  have "list_all (seg_in 400000) (p_segs q)" using q(2) by (auto simp: route_fits_def list_all_iff intro: seg_in_mono)
  from rpath_densify_total [OF this] obtain q' where "rpath_densify L q = Some q'" "path_ok q'" "p_segs q' = p_segs q" by blast
  then show ?thesis using q by (simp add: route_fits_def)
qed

lemma densify_idem:
  assumes "rpath_densify L p = Some q"
  shows "p_segs q = p_segs p" "rpath_densify L q = Some q"
proof -
  obtain ps where ps: "densify_segs L (p_segs p) [] = Some ps"
    using assms by (cases "densify_segs L (p_segs p) []") (simp_all add: rpath_densify_def)
  define ds where "ds = 0 # distances L 0 ps"
  have q: "q = p\<lparr> p_pts := ps, p_dist := ds, p_total_length := (if ps \<noteq> [] then ds ! (length ps - 1) else 0) \<rparr>"
    using assms by (simp add: rpath_densify_def ps ds_def [symmetric] del: nth_Cons_0)
  show "p_segs q = p_segs p" by (simp add: q)
  then have "densify_segs L (p_segs q) [] = Some ps" by (simp only: ps)
  then show "rpath_densify L q = Some q" by (simp add: rpath_densify_def ds_def [symmetric] q)
qed

text \<open>The handoff's path: the two roads with their extensions, the second one moved
  behind the first, whole, and densified.\<close>

lemma handoff_route_total:
  assumes "libm_ok L" and "man_ok st" and "man_ok next_state" and "\<bar>rot\<bar> \<le> 1000"
  shows "\<exists>p n g. handoff_route L st next_state tx ty cos_r sin_r rot g0 n0 = Some (p_total_length p, p_total_length n, g) \<and>
    (maneuver_build_route L st g0 \<bind> rpath_densify L) = Some p \<and>
    (maneuver_build_route L next_state n0 \<bind> rpath_densify L) = Some n \<and>
    p_segs g = p_segs (rpath_extend L p) @ map (xform_seg tx ty cos_r sin_r rot) (p_segs (rpath_extend L n)) \<and>
    rpath_densify L g = Some g \<and> path_ok g \<and> length (p_segs g) \<le> 16"
proof -
  obtain g where g: "(maneuver_build_route L st g0 \<bind> rpath_densify L) = Some g" "route_fits g" using route_densified [OF assms(1,2)] by blast
  obtain n where n: "(maneuver_build_route L next_state n0 \<bind> rpath_densify L) = Some n" "route_fits n" using route_densified [OF assms(1,3)] by blast
  define ge where "ge = rpath_extend L g"
  define ne where "ne = rpath_extend L n"
  have ge: "length (p_segs ge) \<le> 8" "list_all (seg_in 25500) (p_segs ge)"
    using rpath_extend_fits [of 25500 g L] g(2) by (simp_all add: ge_def route_fits_def)
  have ne: "length (p_segs ne) \<le> 8" "list_all (seg_in 25500) (p_segs ne)"
    using rpath_extend_fits [of 25500 n L] n(2) by (simp_all add: ne_def route_fits_def)
  define x where "x = rpath_xform_append ge ne tx ty cos_r sin_r rot"
  have xs: "p_segs x = p_segs ge @ map (xform_seg tx ty cos_r sin_r rot) (p_segs ne)"
    using append_segs_bound [of ge] ge(1) ne(1) by (simp add: x_def rpath_xform_append_def RPATH_MAX_SEGS_def)
  have "list_all (seg_in 400000) (p_segs x)"
    using ge(2) ne(2) xform_in [OF _ assms(4)] by (auto simp: xs list_all_iff intro: seg_in_mono)
  then have "list_all (seg_in 400000) (p_segs (rpath_set_arrow x u v w))" for u v w by (simp add: rpath_set_arrow_def)
  from rpath_densify_total [OF this] obtain y where y: "\<And>u v w. rpath_densify L (rpath_set_arrow x u v w) = Some (y u v w)"
    "\<And>u v w. path_ok (y u v w)" "\<And>u v w. p_segs (y u v w) = p_segs (rpath_set_arrow x u v w)" by metis
  obtain g1 n1 where gn: "maneuver_build_route L st g0 = Some g1" "rpath_densify L g1 = Some g"
    "maneuver_build_route L next_state n0 = Some n1" "rpath_densify L n1 = Some n"
    using g(1) n(1) by (auto simp: bind_eq_Some_conv)
  have segs: "p_segs (y u v w) = p_segs ge @ map (xform_seg tx ty cos_r sin_r rot) (p_segs ne)" for u v w
    by (simp add: y(3) rpath_set_arrow_def xs)
  have 16: "length (p_segs (y u v w)) \<le> 16" for u v w using ge(1) ne(1) by (simp add: segs)
  have idem: "rpath_densify L (y u v w) = Some (y u v w)" for u v w by (rule densify_idem(2) [OF y(1)])
  define u where "u = fadd (fsub (fmul cos_r (p_arrow_x ne)) (fmul sin_r (p_arrow_y ne))) tx"
  define v where "v = fadd (fadd (fmul sin_r (p_arrow_x ne)) (fmul cos_r (p_arrow_y ne))) ty"
  define w where "w = fadd (p_arrow_angle ne) rot"
  have h: "handoff_route L st next_state tx ty cos_r sin_r rot g0 n0 = Some (p_total_length g, p_total_length n, y u v w)"
    by (simp add: handoff_route_def Let_def gn ge_def [symmetric] ne_def [symmetric] x_def [symmetric] u_def [symmetric]
      v_def [symmetric] w_def [symmetric] y(1))
  show ?thesis
    by (rule exI [of _ g], rule exI [of _ n], rule exI [of _ "y u v w"])
      (use h g(1) n(1) segs [of u v w] idem [of u v w] y(2) [of u v w] 16 [of u v w] in \<open>unfold ge_def ne_def, intro conjI\<close>)
qed

end
