(* ===== verification/Route_Mesh.thy ===== *)
theory Route_Mesh
  imports Route_Build
begin

text \<open>
  The mesh of a route: c_render/route_path.c, rpath_extrude_partial with its
  rounded joins, caps and tip, and rpath_draw, which hands the mesh to the vertex
  buffer of c_render/render.c in batches.

  A function that calls mesh_v gives the vertices of its calls in order.  The
  local arrays are lists of the elements written; reading another one is None.
\<close>

text \<open>The offsets stay as in the prelude.\<close>

declare One_nat_def [simp del] add_2_eq_Suc [simp del] add_2_eq_Suc' [simp del]

section \<open>Vertices\<close>

text \<open>Position and normal.\<close>

type_synonym vec = "rat \<times> rat \<times> rat"
type_synonym vertex = "vec \<times> vec"

definition RMESH_MAX_VERTS :: nat where "RMESH_MAX_VERTS = 7200"

record route_mesh =
  m_verts :: "vertex list"
  m_valid :: bool

definition mesh_v :: "vertex \<Rightarrow> route_mesh \<Rightarrow> route_mesh" where
  "mesh_v v m = (if length (m_verts m) \<ge> RMESH_MAX_VERTS then m else m\<lparr> m_verts := m_verts m @ [v] \<rparr>)"

definition mesh_quad :: "vec \<Rightarrow> vec \<Rightarrow> vec \<Rightarrow> vec \<Rightarrow> vec \<Rightarrow> vertex list" where
  "mesh_quad p0 p1 p2 p3 n = [(p0, n), (p1, n), (p2, n), (p0, n), (p2, n), (p3, n)]"

section \<open>Rounded joins\<close>

text \<open>A wall from the anchor to a point of the fan, its normal away from the fan.\<close>

definition spoke :: "libm \<Rightarrow> rat \<times> rat \<Rightarrow> rat \<times> rat \<Rightarrow> rat \<times> rat \<Rightarrow> rat \<Rightarrow> rat \<Rightarrow> vertex list" where
  "spoke L from_pt to_pt fan_d base_y top_y =
     (let dx = fsub (fst to_pt) (fst from_pt); dz = fsub (snd to_pt) (snd from_pt);
          len = hypotenuse L dx dz in
      if len > rnd32 (1 / 1000000)
      then let nx = fdiv (- dz) len; nz = fdiv dx len;
               flip = fadd (fmul nx (fst fan_d)) (fmul nz (snd fan_d)) > 0;
               n = (if flip then (- nx, 0, - nz) else (nx, 0, nz))
           in mesh_quad (fst from_pt, base_y, snd from_pt) (fst to_pt, base_y, snd to_pt)
                (fst to_pt, top_y, snd to_pt) (fst from_pt, top_y, snd from_pt) n
      else [])"

definition fan_segment :: "libm \<Rightarrow> rat \<times> rat \<Rightarrow> rat \<times> rat \<Rightarrow> rat \<Rightarrow> rat \<Rightarrow> rat \<Rightarrow> rat \<Rightarrow> rat \<Rightarrow> nat \<Rightarrow> nat \<Rightarrow> vertex list" where
  "fan_segment L anchor corner base_y top_y hw ang_a diff fan_segs j =
     (let t0 = fdiv (of_nat j) (of_nat fan_segs); t1 = fdiv (of_nat (j + 1)) (of_nat fan_segs);
          a0 = fadd ang_a (fmul diff t0); a1 = fadd ang_a (fmul diff t1);
          ox0 = fadd (fst corner) (fmul hw (lm_cos L a0)); oz0 = fadd (snd corner) (fmul hw (lm_sin L a0));
          ox1 = fadd (fst corner) (fmul hw (lm_cos L a1)); oz1 = fadd (snd corner) (fmul hw (lm_sin L a1));
          mid = fmul (fadd a0 a1) (1 / 2)
      in [((fst anchor, top_y, snd anchor), (0, 1, 0)), ((ox0, top_y, oz0), (0, 1, 0)), ((ox1, top_y, oz1), (0, 1, 0))] @
         mesh_quad (ox0, base_y, oz0) (ox1, base_y, oz1) (ox1, top_y, oz1) (ox0, top_y, oz0) (lm_cos L mid, 0, lm_sin L mid))"

definition emit_round_join :: "libm \<Rightarrow> rat \<times> rat \<Rightarrow> rat \<times> rat \<Rightarrow> rat \<Rightarrow> rat \<Rightarrow> rat \<times> rat \<Rightarrow> rat \<times> rat \<Rightarrow> rat \<Rightarrow> vertex list" where
  "emit_round_join L anchor corner base_y top_y pa pb hw =
     (let ang_a = lm_atan2 L (snd pa) (fst pa);
          ang_b = lm_atan2 L (snd pb) (fst pb);
          diff = fsub ang_b ang_a;
          diff = (if diff > PI_F then fsub diff TWO_PI_F else diff);
          diff = (if diff < - PI_F then fadd diff TWO_PI_F else diff);
          fan_segs = (if \<bar>diff\<bar> < rnd32 (3 / 10) then 3 else if \<bar>diff\<bar> < 1 then 5 else 8);
          rim = (\<lambda>a. (fadd (fst corner) (fmul hw (lm_cos L a)), fadd (snd corner) (fmul hw (lm_sin L a))));
          mid = fadd ang_a (fmul diff (1 / 2));
          fan_d = (lm_cos L mid, lm_sin L mid)
      in concat (map (fan_segment L anchor corner base_y top_y hw ang_a diff fan_segs) [0 ..< fan_segs]) @
         spoke L anchor (rim ang_a) fan_d base_y top_y @
         spoke L (rim (fadd ang_a diff)) anchor fan_d base_y top_y)"

section \<open>The window of the path\<close>

text \<open>The start point and the index of the first point behind it; the end point
  and the index of the first point not before it.\<close>

definition window_start :: "route_path \<Rightarrow> rat \<Rightarrow> ((rat \<times> rat) \<times> nat) option" where
  "window_start p t0 = do {
     a \<leftarrow> rd8 (p_pts p) 0;
     let start_dist = fmul t0 (p_total_length p);
     found \<leftarrow> (if t0 > 0 then first_from (p_dist p) start_dist 1 (length (p_pts p) - 1) else Some None);
     case found of None \<Rightarrow> Some ((pt_x a, pt_y a), 0)
     | Some i \<Rightarrow> do { xy \<leftarrow> interpolate p i start_dist; Some (xy, i) } }"

definition window_end :: "route_path \<Rightarrow> rat \<Rightarrow> ((rat \<times> rat) \<times> nat) option" where
  "window_end p t1 = do {
     let e_idx = length (p_pts p) - 1;
     a \<leftarrow> rd8 (p_pts p) e_idx;
     let target_dist = fmul t1 (p_total_length p);
     found \<leftarrow> (if t1 < 1 then first_from (p_dist p) target_dist 1 (length (p_pts p) - 1) else Some None);
     case found of None \<Rightarrow> Some ((pt_x a, pt_y a), e_idx)
     | Some i \<Rightarrow> do { xy \<leftarrow> interpolate p i target_dist; Some (xy, i) } }"

definition too_near :: "rat \<Rightarrow> rat \<Rightarrow> route_point \<Rightarrow> bool" where
  "too_near x y q \<longleftrightarrow> norm2 (fsub x (pt_x q)) (fsub y (pt_y q)) < rnd32 (1 / 100000000)"

text \<open>The loop over the points from index i, n of them left.\<close>

primrec window_points :: "route_path \<Rightarrow> nat \<Rightarrow> nat \<Rightarrow> route_point list \<Rightarrow> route_point list option" where
  "window_points p i 0 ep = Some ep"
| "window_points p i (Suc n) ep = do {
     q \<leftarrow> rd8 (p_pts p) i;
     if too_near (pt_x q) (pt_y q) (last ep) then window_points p (i + 1) n ep
     else if length ep \<ge> RPATH_MAX_PTS then Some ep
     else window_points p (i + 1) n (ep @ [q]) }"

definition window :: "route_path \<Rightarrow> rat \<Rightarrow> rat \<Rightarrow> ((rat \<times> rat) \<times> route_point list) option" where
  "window p t0 t1 = do {
     ((sx, sy), s_idx) \<leftarrow> window_start p t0;
     ((ex, ey), e_idx) \<leftarrow> window_end p t1;
     let last_orig = (if t1 \<ge> 1 then length (p_pts p) - 1 else e_idx - 1);
     ep \<leftarrow> window_points p s_idx (last_orig + 1 - s_idx) [\<lparr> pt_x = sx, pt_y = sy, pt_smooth = False \<rparr>];
     Some ((ex, ey),
       if t1 < 1 \<and> \<not> too_near ex ey (last ep) \<and> length ep < RPATH_MAX_PTS
       then ep @ [\<lparr> pt_x = ex, pt_y = ey, pt_smooth = False \<rparr>] else ep) }"

section \<open>Heights\<close>

record ramp =
  g_ramp_restart :: rat
  g_ramp_lift_current :: rat
  g_ramp_lift_next :: rat

definition rpath_set_elevation :: "rat \<Rightarrow> rat \<Rightarrow> ramp \<Rightarrow> ramp" where
  "rpath_set_elevation f s rs = rs\<lparr> g_ramp_lift_current := f, g_ramp_lift_next := s \<rparr>"

definition rpath_set_ramp_restart :: "rat \<Rightarrow> ramp \<Rightarrow> ramp" where
  "rpath_set_ramp_restart d rs = rs\<lparr> g_ramp_restart := d \<rparr>"

definition HEIGHT_ENTRY_DIST :: rat where "HEIGHT_ENTRY_DIST = 1 / 2"
definition HEIGHT_RAMP_DIST :: rat where "HEIGHT_RAMP_DIST = 3 / 2"

definition at_most1 :: "rat \<Rightarrow> rat" where "at_most1 x = (if x > 1 then 1 else x)"
definition clamp01 :: "rat \<Rightarrow> rat" where "clamp01 x = (if at_most1 x < 0 then 0 else at_most1 x)"

definition height_lift :: "ramp \<Rightarrow> rat \<Rightarrow> rat" where
  "height_lift rs d =
     (if g_ramp_restart rs > 0 \<and> d \<ge> g_ramp_restart rs
      then let local_entry = fadd (g_ramp_restart rs) HEIGHT_ENTRY_DIST in
           if d < local_entry then 0
           else fmul (at_most1 (fdiv (fsub d local_entry) HEIGHT_RAMP_DIST)) (g_ramp_lift_next rs)
      else if g_ramp_restart rs > 0 \<and> d > fsub (g_ramp_restart rs) HEIGHT_ENTRY_DIST
      then let first_lift = fmul (clamp01 (fdiv (fsub d HEIGHT_ENTRY_DIST) HEIGHT_RAMP_DIST)) (g_ramp_lift_current rs);
               bt = clamp01 (fdiv (fsub d (fsub (g_ramp_restart rs) HEIGHT_ENTRY_DIST)) HEIGHT_ENTRY_DIST);
               bt = fmul (fmul bt bt) (fsub 3 (fmul 2 bt))
           in fmul first_lift (fsub 1 bt)
      else if d < HEIGHT_ENTRY_DIST then 0
      else fmul (at_most1 (fdiv (fsub d HEIGHT_ENTRY_DIST) HEIGHT_RAMP_DIST)) (g_ramp_lift_current rs))"

text \<open>The base and top of every point of the window.\<close>

definition heights :: "libm \<Rightarrow> ramp \<Rightarrow> rat \<Rightarrow> rat \<Rightarrow> rat \<Rightarrow> route_point list \<Rightarrow> (rat \<times> rat) list" where
  "heights L rs start_dist base_y top_y ep =
     map (\<lambda>d. let lift = height_lift rs (fadd start_dist d) in (fadd base_y lift, fadd top_y lift)) (0 # distances L 0 ep)"

section \<open>Directions and offsets\<close>

text \<open>The unit direction of a piece and its left perpendicular of half the width.\<close>

definition piece_dir :: "libm \<Rightarrow> rat \<Rightarrow> route_point \<Rightarrow> route_point \<Rightarrow> (rat \<times> rat) \<times> (rat \<times> rat)" where
  "piece_dir L hw a b =
     (let dx = fsub (pt_x b) (pt_x a); dy = fsub (pt_y b) (pt_y a); len = hypotenuse L dx dy;
          d = (if len < rnd32 (1 / 1000000) then (1, 0) else (fdiv dx len, fdiv dy len))
      in (d, (fmul (- snd d) hw, fmul (fst d) hw)))"

definition piece_dirs :: "libm \<Rightarrow> rat \<Rightarrow> route_point list \<Rightarrow> ((rat \<times> rat) \<times> (rat \<times> rat)) list" where
  "piece_dirs L hw ep = map (\<lambda>(a, b). piece_dir L hw a b) (zip ep (tl ep))"

text \<open>A point's left and right offsets, the cross product of its directions, and
  whether it is a hard corner.\<close>

record corner =
  c_left :: "rat \<times> rat"
  c_right :: "rat \<times> rat"
  corner_cross :: rat
  hard_corner :: bool

definition JOIN_MIN_ANGLE :: rat where "JOIN_MIN_ANGLE = rnd32 (3 / 100)"
definition MITER_LIMIT :: rat where "MITER_LIMIT = 3"

definition plus2 :: "route_point \<Rightarrow> rat \<times> rat \<Rightarrow> rat \<times> rat" where
  "plus2 e v = (fadd (pt_x e) (fst v), fadd (pt_y e) (snd v))"

definition minus2 :: "route_point \<Rightarrow> rat \<times> rat \<Rightarrow> rat \<times> rat" where
  "minus2 e v = (fsub (pt_x e) (fst v), fsub (pt_y e) (snd v))"

definition end_corner :: "route_point \<Rightarrow> rat \<times> rat \<Rightarrow> corner" where
  "end_corner e perp = \<lparr> c_left = plus2 e perp, c_right = minus2 e perp, corner_cross = 0, hard_corner = False \<rparr>"

text \<open>An inner point, with the direction and perpendicular of the pieces around it.\<close>

definition inner_corner :: "libm \<Rightarrow> rat \<Rightarrow> route_point \<Rightarrow> (rat \<times> rat) \<times> (rat \<times> rat) \<Rightarrow> (rat \<times> rat) \<times> (rat \<times> rat) \<Rightarrow> corner option" where
  "inner_corner L hw e a b =
     (let cross = cross2 (fst a) (fst b);
          mx = fadd (fst (snd a)) (fst (snd b)); my = fadd (snd (snd a)) (snd (snd b));
          ml = hypotenuse L mx my;
          hard = (\<not> pt_smooth e \<and> \<bar>cross\<bar> \<ge> JOIN_MIN_ANGLE);
          prev_l = plus2 e (snd a); prev_r = minus2 e (snd a) in
      if ml < rnd32 (1 / 1000000) \<or> \<bar>cross\<bar> < JOIN_MIN_ANGLE
      then Some \<lparr> c_left = prev_l, c_right = prev_r, corner_cross = cross, hard_corner = hard \<rparr>
      else do {
        let mx = fdiv mx ml; let my = fdiv my ml;
        pu_x \<leftarrow> fdiv_ok (fst (snd a)) hw;
        pu_y \<leftarrow> fdiv_ok (snd (snd a)) hw;
        let d = fadd (fmul mx pu_x) (fmul my pu_y);
        let d = (if d < rnd32 (1 / 100) then rnd32 (1 / 100) else d);
        let ml = fdiv hw d;
        let ml = (if ml > fmul hw MITER_LIMIT then fmul hw MITER_LIMIT else ml);
        let miter = (fmul mx ml, fmul my ml);
        Some (if hard
              then if cross > 0
                   then \<lparr> c_left = plus2 e miter, c_right = prev_r, corner_cross = cross, hard_corner = True \<rparr>
                   else \<lparr> c_left = prev_l, c_right = minus2 e miter, corner_cross = cross, hard_corner = True \<rparr>
              else \<lparr> c_left = plus2 e miter, c_right = minus2 e miter, corner_cross = cross, hard_corner = False \<rparr>) })"

definition corner_at :: "libm \<Rightarrow> rat \<Rightarrow> route_point list \<Rightarrow> ((rat \<times> rat) \<times> (rat \<times> rat)) list \<Rightarrow> nat \<Rightarrow> corner option" where
  "corner_at L hw ep dirs i = do {
     e \<leftarrow> rd8 ep i;
     if i = 0 then do { d \<leftarrow> rd8 dirs 0; Some (end_corner e (snd d)) }
     else if i = length ep - 1 then do { d \<leftarrow> rd8 dirs (length ep - 2); Some (end_corner e (snd d)) }
     else do { a \<leftarrow> rd8 dirs (i - 1); b \<leftarrow> rd8 dirs i; inner_corner L hw e a b } }"

section \<open>The pieces, the joins and the ends\<close>

text \<open>The left and right points of a piece at one of its ends: at a hard corner the
  outer side keeps the offset of the piece.\<close>

definition piece_sides :: "route_point \<Rightarrow> corner \<Rightarrow> rat \<times> rat \<Rightarrow> (rat \<times> rat) \<times> (rat \<times> rat)" where
  "piece_sides e c perp =
     (if \<not> hard_corner c then (c_left c, c_right c)
      else if corner_cross c > 0 then (c_left c, minus2 e perp) else (plus2 e perp, c_right c))"

definition piece_vertices :: "rat \<times> rat \<Rightarrow> rat \<times> rat \<Rightarrow> rat \<times> rat \<Rightarrow> rat \<times> rat \<Rightarrow> rat \<times> rat \<Rightarrow> rat \<times> rat \<Rightarrow> rat \<Rightarrow> rat \<Rightarrow> vertex list" where
  "piece_vertices l0 r0 l1 r1 h0 h1 snx snz =
     (let pt = (\<lambda>q y. (fst q, y, snd q)); top = (0, 1, 0); left = (snx, 0, snz); right = (- snx, 0, - snz)
      in [(pt l0 (snd h0), top), (pt r0 (snd h0), top), (pt r1 (snd h1), top),
          (pt l0 (snd h0), top), (pt r1 (snd h1), top), (pt l1 (snd h1), top),
          (pt l0 (fst h0), left), (pt l1 (fst h1), left), (pt l1 (snd h1), left),
          (pt l0 (fst h0), left), (pt l1 (snd h1), left), (pt l0 (snd h0), left),
          (pt r0 (snd h0), right), (pt r1 (snd h1), right), (pt r1 (fst h1), right),
          (pt r0 (snd h0), right), (pt r1 (fst h1), right), (pt r0 (fst h0), right)])"

definition piece_mesh :: "rat \<Rightarrow> route_point list \<Rightarrow> ((rat \<times> rat) \<times> (rat \<times> rat)) list \<Rightarrow> corner list \<Rightarrow> (rat \<times> rat) list \<Rightarrow> nat \<Rightarrow>
    vertex list option" where
  "piece_mesh hw ep dirs cs hs i = do {
     e0 \<leftarrow> rd8 ep i; e1 \<leftarrow> rd8 ep (i + 1); c0 \<leftarrow> rd8 cs i; c1 \<leftarrow> rd8 cs (i + 1); d \<leftarrow> rd8 dirs i;
     h0 \<leftarrow> rd8 hs i; h1 \<leftarrow> rd8 hs (i + 1);
     snx \<leftarrow> fdiv_ok (fst (snd d)) hw;
     snz \<leftarrow> fdiv_ok (snd (snd d)) hw;
     let (l0, r0) = piece_sides e0 c0 (snd d);
     let (l1, r1) = piece_sides e1 c1 (snd d);
     Some (piece_vertices l0 r0 l1 r1 h0 h1 snx snz) }"

definition join_mesh :: "libm \<Rightarrow> rat \<Rightarrow> route_point list \<Rightarrow> ((rat \<times> rat) \<times> (rat \<times> rat)) list \<Rightarrow> corner list \<Rightarrow> (rat \<times> rat) list \<Rightarrow> nat \<Rightarrow>
    vertex list option" where
  "join_mesh L hw ep dirs cs hs i = do {
     c \<leftarrow> rd8 cs i;
     if \<not> hard_corner c then Some []
     else do {
       e \<leftarrow> rd8 ep i; h \<leftarrow> rd8 hs i; a \<leftarrow> rd8 dirs (i - 1); b \<leftarrow> rd8 dirs i;
       let neg = (\<lambda>v. (- fst v, - snd v));
       Some (if corner_cross c > 0
             then emit_round_join L (c_left c) (pt_x e, pt_y e) (fst h) (snd h) (neg (snd a)) (neg (snd b)) hw
             else emit_round_join L (c_right c) (pt_x e, pt_y e) (fst h) (snd h) (snd a) (snd b) hw) } }"

definition cap_mesh :: "rat \<times> rat \<Rightarrow> rat \<times> rat \<Rightarrow> rat \<times> rat \<Rightarrow> rat \<times> rat \<Rightarrow> vertex list" where
  "cap_mesh a b h n = mesh_quad (fst a, fst h, snd a) (fst b, fst h, snd b) (fst b, snd h, snd b) (fst a, snd h, snd a) (fst n, 0, snd n)"

section \<open>The tip\<close>

definition normalised :: "libm \<Rightarrow> rat \<Rightarrow> rat \<Rightarrow> rat \<times> rat" where
  "normalised L x z = (let len = hypotenuse L x z in
     if len > rnd32 (1 / 1000000) then (fdiv x len, fdiv z len) else (x, z))"

definition arrow_mesh :: "libm \<Rightarrow> rat \<Rightarrow> rat \<Rightarrow> rat \<Rightarrow> rat \<times> rat \<Rightarrow> rat \<Rightarrow> rat \<Rightarrow> rat \<Rightarrow> vertex list" where
  "arrow_mesh L width hw s a a_dir tip_base tip_top =
     (let size = fmul (fmul width (rnd32 (13 / 10))) s;
          tx = fadd (fst a) (fmul size (lm_cos L a_dir)); tz = fadd (snd a) (fmul size (lm_sin L a_dir));
          px = fmul (fmul (fmul (- lm_sin L a_dir) hw) (rnd32 (1536 / 1000))) s;
          pz = fmul (fmul (fmul (lm_cos L a_dir) hw) (rnd32 (1536 / 1000))) s;
          blx = fadd (fst a) px; blz = fadd (snd a) pz; brx = fsub (fst a) px; brz = fsub (snd a) pz;
          (lnx, lnz) = normalised L (fsub tz blz) (- fsub tx blx);
          (rnx, rnz) = normalised L (- fsub tz brz) (fsub tx brx);
          up = (0, 1, 0); down = (0, - 1, 0); ln = (lnx, 0, lnz); rn = (rnx, 0, rnz)
      in [((blx, tip_top, blz), up), ((brx, tip_top, brz), up), ((tx, tip_top, tz), up),
          ((blx, tip_base, blz), ln), ((tx, tip_base, tz), ln), ((tx, tip_top, tz), ln),
          ((blx, tip_base, blz), ln), ((tx, tip_top, tz), ln), ((blx, tip_top, blz), ln),
          ((brx, tip_base, brz), rn), ((brx, tip_top, brz), rn), ((tx, tip_top, tz), rn),
          ((brx, tip_base, brz), rn), ((tx, tip_top, tz), rn), ((tx, tip_base, tz), rn)] @
         mesh_quad (blx, tip_base, blz) (blx, tip_top, blz) (brx, tip_top, brz) (brx, tip_base, brz)
           (- lm_cos L a_dir, 0, - lm_sin L a_dir) @
         [((blx, tip_base, blz), down), ((tx, tip_base, tz), down), ((brx, tip_base, brz), down)])"

definition bulb_segment :: "libm \<Rightarrow> rat \<times> rat \<Rightarrow> rat \<Rightarrow> rat \<Rightarrow> rat \<Rightarrow> nat \<Rightarrow> vertex list" where
  "bulb_segment L a r tip_base tip_top i =
     (let turn = (\<lambda>k. fmul (fmul (fdiv (of_nat k) 16) 2) PI_F);
          c0 = lm_cos L (turn i); s0 = lm_sin L (turn i); c1 = lm_cos L (turn (i + 1)); s1 = lm_sin L (turn (i + 1));
          x0 = fadd (fst a) (fmul r c0); z0 = fadd (snd a) (fmul r s0);
          x1 = fadd (fst a) (fmul r c1); z1 = fadd (snd a) (fmul r s1);
          up = (0, 1, 0); n0 = (c0, 0, s0); n1 = (c1, 0, s1)
      in [((fst a, tip_top, snd a), up), ((x0, tip_top, z0), up), ((x1, tip_top, z1), up),
          ((x0, tip_base, z0), n0), ((x0, tip_top, z0), n0), ((x1, tip_top, z1), n1),
          ((x0, tip_base, z0), n0), ((x1, tip_top, z1), n1), ((x1, tip_base, z1), n1)])"

definition tip_mesh :: "libm \<Rightarrow> route_path \<Rightarrow> rat \<Rightarrow> rat \<Rightarrow> rat \<times> rat \<Rightarrow> rat \<times> rat \<Rightarrow> rat \<times> rat \<Rightarrow> vertex list" where
  "tip_mesh L p width hw a d h =
     (let blend = (if p_tip_blend p < 0 then 0 else p_tip_blend p);
          blend = (if blend > 1 then 1 else blend);
          a_dir = lm_atan2 L (snd d) (fst d)
      in (if blend < 1 then arrow_mesh L width hw (fsub 1 blend) a a_dir (fst h) (snd h) else []) @
         (if blend > 0
          then concat (map (bulb_segment L a (fmul (p_bulb_radius p) blend) (fst h) (snd h)) [0 ..< 16]) else []))"

section \<open>The mesh of a window\<close>

text \<open>The vertices of the calls of mesh_v, in order.\<close>

definition route_vertices :: "libm \<Rightarrow> ramp \<Rightarrow> route_path \<Rightarrow> rat \<Rightarrow> rat \<Rightarrow> rat \<Rightarrow> rat \<Rightarrow> rat \<Rightarrow> bool \<Rightarrow> bool \<Rightarrow> bool \<Rightarrow>
    rat \<times> rat \<Rightarrow> route_point list \<Rightarrow> vertex list option" where
  "route_vertices L rs p width base_y top_y t0 t1 cap_start cap_end tip_end end_pt ep = do {
     let n = length ep;
     let hw = fmul width (1 / 2);
     let hs = heights L rs (fmul t0 (p_total_length p)) base_y top_y ep;
     let dirs = piece_dirs L hw ep;
     cs \<leftarrow> those (map (corner_at L hw ep dirs) [0 ..< n]);
     pieces \<leftarrow> those (map (piece_mesh hw ep dirs cs hs) [0 ..< n - 1]);
     joins \<leftarrow> those (map (join_mesh L hw ep dirs cs hs) [1 ..< n - 1]);
     d0 \<leftarrow> rd8 dirs 0; dl \<leftarrow> rd8 dirs (n - 2);
     c0 \<leftarrow> rd8 cs 0; cl \<leftarrow> rd8 cs (n - 1);
     h0 \<leftarrow> rd8 hs 0; hl \<leftarrow> rd8 hs (n - 1);
     el \<leftarrow> rd8 ep (n - 1);
     let a = (if t1 \<ge> 1 then (pt_x el, pt_y el) else end_pt);
     Some (concat pieces @ concat joins @
       (if cap_start then cap_mesh (c_left c0) (c_right c0) h0 (- fst (fst d0), - snd (fst d0)) else []) @
       (if cap_end then cap_mesh (c_right cl) (c_left cl) hl (fst dl) else []) @
       (if tip_end then tip_mesh L p width hw a (fst dl) hl else [])) }"

definition no_mesh :: route_mesh where "no_mesh = \<lparr> m_verts = [], m_valid = False \<rparr>"

definition rpath_extrude_partial :: "libm \<Rightarrow> ramp \<Rightarrow> route_path \<Rightarrow> rat \<Rightarrow> rat \<Rightarrow> rat \<Rightarrow> rat \<Rightarrow> rat \<Rightarrow> bool \<Rightarrow> bool \<Rightarrow> bool \<Rightarrow>
    route_mesh option" where
  "rpath_extrude_partial L rs p width base_y top_y t0 t1 cap_start cap_end tip_end =
     (let t0 = (if t0 < 0 then 0 else t0); t1 = (if t1 > 1 then 1 else t1) in
      if length (p_pts p) < 2 \<or> t0 \<ge> t1 \<or> t1 \<le> 0 then Some no_mesh
      else do {
        (end_pt, ep) \<leftarrow> window p t0 t1;
        if length ep < 2 then Some no_mesh
        else do {
          vs \<leftarrow> route_vertices L rs p width base_y top_y t0 t1 cap_start cap_end tip_end end_pt ep;
          Some ((fold mesh_v vs no_mesh)\<lparr> m_valid := True \<rparr>) } })"

definition rpath_extrude :: "libm \<Rightarrow> ramp \<Rightarrow> route_path \<Rightarrow> rat \<Rightarrow> rat \<Rightarrow> rat \<Rightarrow> rat \<Rightarrow> rat \<Rightarrow> route_mesh option" where
  "rpath_extrude L rs p width base_y top_y t0 t1 = rpath_extrude_partial L rs p width base_y top_y t0 t1 True True True"

section \<open>Drawing\<close>

definition MAX_VERTS :: nat where "MAX_VERTS = 1200"

text \<open>The vertex buffer.\<close>

definition vb_v :: "vertex \<Rightarrow> vertex list \<Rightarrow> vertex list" where
  "vb_v v vb = (if length vb \<ge> MAX_VERTS then vb else vb @ [v])"

text \<open>The loop of rpath_draw: what every vb_flush hands over.\<close>

function draw_batches :: "vertex list \<Rightarrow> nat \<Rightarrow> vertex list list option" where
  "draw_batches vs drawn =
     (if drawn < length vs
      then let batch = length vs - drawn;
               batch = (if batch > 1200 then 1200 else batch);
               batch = batch div 3 * 3
           in if batch = 0 then Some []
              else do {
                b \<leftarrow> rd_mem vs drawn batch;
                rest \<leftarrow> draw_batches vs (drawn + batch);
                Some (fold vb_v b [] # rest) }
      else Some [])"
  by pat_completeness auto
termination by (relation "measure (\<lambda>(vs, drawn). length vs - drawn)") (auto simp: Let_def split: if_splits)

declare draw_batches.simps [simp del]

definition rpath_draw :: "route_mesh \<Rightarrow> vertex list list option" where
  "rpath_draw m = (if \<not> m_valid m \<or> m_verts m = [] then Some [] else draw_batches (m_verts m) 0)"

section \<open>Whole triangles\<close>

named_theorems mesh_simps

lemma quad_triangles [mesh_simps]: "length (mesh_quad p0 p1 p2 p3 n) = 6"
  by (simp add: mesh_quad_def)

lemma concat_triangles: "(\<And>x. x \<in> set xs \<Longrightarrow> 3 dvd length x) \<Longrightarrow> 3 dvd length (concat xs)"
  by (induction xs) simp_all

lemma spoke_triangles [mesh_simps]: "3 dvd length (spoke L a b f y0 y1)"
  by (simp add: spoke_def Let_def mesh_simps)

lemma fan_triangles: "3 dvd length (fan_segment L a c y0 y1 hw g d k j)"
  by (simp add: fan_segment_def Let_def mesh_simps)

lemma join_triangles [mesh_simps]: "3 dvd length (emit_round_join L a c y0 y1 pa pb hw)"
proof -
  have "3 dvd length (concat (map (fan_segment L a c y0 y1 hw g d k) js))" for g d k js
    by (rule concat_triangles) (auto simp: fan_triangles)
  then show ?thesis by (simp add: emit_round_join_def Let_def mesh_simps)
qed

lemma arrow_triangles [mesh_simps]: "length (arrow_mesh L width hw s a d y0 y1) = 24"
  by (simp add: arrow_mesh_def Let_def mesh_simps split: prod.split)

lemma tip_triangles [mesh_simps]: "3 dvd length (tip_mesh L p width hw a d h)"
proof -
  have "3 dvd length (concat (map (bulb_segment L a r y0 y1) is))" for r y0 y1 "is"
    by (rule concat_triangles) (auto simp: bulb_segment_def Let_def)
  then show ?thesis by (simp add: tip_mesh_def Let_def mesh_simps)
qed

lemma cap_triangles [mesh_simps]: "length (cap_mesh a b h n) = 6"
  by (simp add: cap_mesh_def mesh_simps)

lemma piece_triangles [mesh_simps]: "length (piece_vertices l0 r0 l1 r1 h0 h1 x z) = 18"
  by (simp add: piece_vertices_def Let_def)

section \<open>The mesh exists\<close>

lemma those_total:
  "(\<And>x. x \<in> set xs \<Longrightarrow> \<exists>y. f x = Some y \<and> P y) \<Longrightarrow>
    \<exists>ys. those (map f xs) = Some ys \<and> length ys = length xs \<and> (\<forall>y \<in> set ys. P y)"
proof (induction xs)
  case (Cons x xs)
  then obtain y ys where "f x = Some y" "P y" "those (map f xs) = Some ys" "length ys = length xs" "\<forall>y \<in> set ys. P y"
    by fastforce
  then show ?case by simp
qed simp

lemma length_piece_dirs: "length (piece_dirs L hw ep) = length ep - 1"
  by (simp add: piece_dirs_def)

lemma length_heights: "ep \<noteq> [] \<Longrightarrow> length (heights L rs d y0 y1 ep) = length ep"
  by (cases ep) (simp_all add: heights_def Let_def length_distances)

lemma inner_corner_total: "hw \<noteq> 0 \<Longrightarrow> \<exists>c. inner_corner L hw e a b = Some c"
  by (simp add: inner_corner_def fdiv_ok_def Let_def)

lemma corner_at_total:
  assumes "hw \<noteq> 0" and "2 \<le> length ep" and "i < length ep"
  shows "\<exists>c. corner_at L hw ep (piece_dirs L hw ep) i = Some c"
proof -
  let ?d = "piece_dirs L hw ep"
  have d: "0 < length ?d" "length ep - 2 < length ?d" using assms(2) by (auto simp: length_piece_dirs)
  have i: "i \<noteq> 0 \<Longrightarrow> i \<noteq> length ep - 1 \<Longrightarrow> i - 1 < length ?d \<and> i < length ?d"
    using assms(3) by (auto simp: length_piece_dirs)
  show ?thesis
    using assms(3) d i inner_corner_total [OF assms(1)] by (simp add: corner_at_def rd8_Some)
qed

lemma piece_mesh_total:
  assumes "hw \<noteq> 0" and "i + 1 < length ep" and "length cs = length ep" and "length hs = length ep" and "length dirs = length ep - 1"
  shows "\<exists>vs. piece_mesh hw ep dirs cs hs i = Some vs \<and> 3 dvd length vs"
proof -
  have "i < length ep" "i < length cs" "i + 1 < length cs" "i < length hs" "i + 1 < length hs" "i < length dirs"
    using assms by simp_all
  then show ?thesis using assms(1,2)
    by (simp add: piece_mesh_def rd8_Some fdiv_ok_def Let_def mesh_simps split: prod.split)
qed

lemma join_mesh_total:
  assumes "i + 1 < length ep" and "length cs = length ep" and "length hs = length ep" and "length dirs = length ep - 1"
  shows "\<exists>vs. join_mesh L hw ep dirs cs hs i = Some vs \<and> 3 dvd length vs"
proof -
  have "i < length ep" "i < length cs" "i < length hs" "i < length dirs" "i - 1 < length dirs" using assms by simp_all
  then show ?thesis by (simp add: join_mesh_def rd8_Some Let_def mesh_simps)
qed

lemma route_vertices_total:
  assumes "0 < width" and "2 \<le> length ep"
  shows "\<exists>vs. route_vertices L rs p width y0 y1 t0 t1 cap_start cap_end tip_end end_pt ep = Some vs \<and> 3 dvd length vs"
proof -
  define n where "n = length ep"
  define hw where "hw = fmul width (1 / 2)"
  define hs where "hs = heights L rs (fmul t0 (p_total_length p)) y0 y1 ep"
  define dirs where "dirs = piece_dirs L hw ep"
  have hw: "hw \<noteq> 0" using rnd32_pos [of "width * (1 / 2)"] assms(1) by (simp add: hw_def fmul_def)
  have "ep \<noteq> []" using assms(2) by auto
  then have hs: "length hs = n" by (simp add: hs_def n_def length_heights)
  have dirs: "length dirs = n - 1" by (simp add: dirs_def n_def length_piece_dirs)
  have "\<exists>c. corner_at L hw ep dirs i = Some c \<and> True" if "i \<in> set [0 ..< n]" for i
    using corner_at_total [OF hw assms(2)] that by (simp add: n_def dirs_def)
  then obtain cs where cs: "those (map (corner_at L hw ep dirs) [0 ..< n]) = Some cs" "length cs = n"
    using those_total [of "[0 ..< n]" "corner_at L hw ep dirs" "\<lambda>_. True"] by auto
  have "\<exists>v. piece_mesh hw ep dirs cs hs i = Some v \<and> 3 dvd length v" if "i \<in> set [0 ..< n - 1]" for i
    using piece_mesh_total [OF hw] that cs(2) hs dirs by (simp add: n_def)
  then obtain pieces where pieces: "those (map (piece_mesh hw ep dirs cs hs) [0 ..< n - 1]) = Some pieces" "\<forall>v \<in> set pieces. 3 dvd length v"
    using those_total [of "[0 ..< n - 1]" "piece_mesh hw ep dirs cs hs" "\<lambda>v. 3 dvd length v"] by auto
  have "\<exists>v. join_mesh L hw ep dirs cs hs i = Some v \<and> 3 dvd length v" if "i \<in> set [1 ..< n - 1]" for i
    using join_mesh_total [of i ep cs hs dirs L hw] that cs(2) hs dirs by (auto simp: n_def)
  then obtain joins where joins: "those (map (join_mesh L hw ep dirs cs hs) [1 ..< n - 1]) = Some joins" "\<forall>v \<in> set joins. 3 dvd length v"
    using those_total [of "[1 ..< n - 1]" "join_mesh L hw ep dirs cs hs" "\<lambda>v. 3 dvd length v"] by auto
  have cc: "3 dvd length (concat pieces)" "3 dvd length (concat joins)"
    using concat_triangles pieces(2) joins(2) by blast+
  have rd: "0 < length dirs" "n - 2 < length dirs" "0 < length cs" "n - 1 < length cs" "0 < length hs" "n - 1 < length hs" "n - 1 < length ep"
    using assms(2) cs(2) hs dirs by (auto simp: n_def)
  note rd = this [THEN rd8_Some]
  show ?thesis
    by (simp add: route_vertices_def Let_def n_def [symmetric] hw_def [symmetric] hs_def [symmetric] dirs_def [symmetric]
        cs(1) pieces(1) joins(1) rd cc mesh_simps)
qed

section \<open>The window exists\<close>

lemma window_start_total:
  assumes "path_ok p" and "2 \<le> length (p_pts p)"
  shows "\<exists>xy i. window_start p t0 = Some (xy, i) \<and> i < length (p_pts p)"
proof -
  let ?n = "length (p_pts p)" and ?d = "fmul t0 (p_total_length p)"
  have "1 + (?n - 1) \<le> length (p_dist p)" using assms by (simp add: path_ok_def)
  then obtain r where r: "first_from (p_dist p) ?d 1 (?n - 1) = Some r" "\<And>k. r = Some k \<Longrightarrow> k < 1 + (?n - 1)"
    using first_from_total by blast
  have p: "0 < ?n" using assms(2) by linarith
  show ?thesis
  proof (cases "t0 > 0 \<and> r \<noteq> None")
    case True
    then obtain k where k: "r = Some k" by blast
    then have "k < ?n" using r(2) [OF k] assms(2) by simp
    moreover from this obtain x y where "interpolate p k ?d = Some (x, y)" using interpolate_total [OF assms(1)] by blast
    ultimately show ?thesis using True r(1) k p by (simp add: window_start_def Let_def rd8_Some)
  next
    case False
    then show ?thesis using r(1) p by (auto simp: window_start_def Let_def rd8_Some)
  qed
qed

lemma window_end_total:
  assumes "path_ok p" and "2 \<le> length (p_pts p)"
  shows "\<exists>xy i. window_end p t1 = Some (xy, i) \<and> i < length (p_pts p)"
proof -
  let ?n = "length (p_pts p)" and ?d = "fmul t1 (p_total_length p)"
  have "1 + (?n - 1) \<le> length (p_dist p)" using assms by (simp add: path_ok_def)
  then obtain r where r: "first_from (p_dist p) ?d 1 (?n - 1) = Some r" "\<And>k. r = Some k \<Longrightarrow> k < 1 + (?n - 1)"
    using first_from_total by blast
  have p: "?n - 1 < ?n" using assms(2) by simp
  show ?thesis
  proof (cases "t1 < 1 \<and> r \<noteq> None")
    case True
    then obtain k where k: "r = Some k" by blast
    then have "k < ?n" using r(2) [OF k] assms(2) by simp
    moreover from this obtain x y where "interpolate p k ?d = Some (x, y)" using interpolate_total [OF assms(1)] by blast
    ultimately show ?thesis using True r(1) k p by (simp add: window_end_def Let_def rd8_Some)
  next
    case False
    then show ?thesis using r(1) p by (auto simp: window_end_def Let_def rd8_Some)
  qed
qed

lemma window_points_total:
  "i + n \<le> length (p_pts p) \<Longrightarrow> length ep \<le> RPATH_MAX_PTS \<Longrightarrow>
    \<exists>qs. window_points p i n ep = Some qs \<and> length qs \<le> RPATH_MAX_PTS"
proof (induction n arbitrary: i ep)
  case (Suc n)
  have i: "i < length (p_pts p)" "i + 1 + n \<le> length (p_pts p)" using Suc.prems(1) by simp_all
  show ?case
    using Suc.IH [OF i(2), of ep] Suc.IH [OF i(2), of "ep @ [p_pts p ! i]"] Suc.prems(2) i(1)
    by (simp add: rd8_Some)
qed simp

lemma window_total:
  assumes "path_ok p" and "2 \<le> length (p_pts p)"
  shows "\<exists>e ep. window p t0 t1 = Some (e, ep) \<and> length ep \<le> RPATH_MAX_PTS"
proof -
  obtain sx sy i where s: "window_start p t0 = Some ((sx, sy), i)" "i < length (p_pts p)" using window_start_total [OF assms] by force
  obtain ex ey k where e: "window_end p t1 = Some ((ex, ey), k)" "k < length (p_pts p)" using window_end_total [OF assms] by force
  define l where "l = (if t1 \<ge> 1 then length (p_pts p) - 1 else k - 1)"
  have "i + (l + 1 - i) \<le> length (p_pts p)" using s(2) e(2) assms(2) by (auto simp: l_def)
  moreover have "length [\<lparr> pt_x = sx, pt_y = sy, pt_smooth = False \<rparr>] \<le> RPATH_MAX_PTS" by (simp add: RPATH_MAX_PTS_def)
  ultimately obtain ep where "window_points p i (l + 1 - i) [\<lparr> pt_x = sx, pt_y = sy, pt_smooth = False \<rparr>] = Some ep" "length ep \<le> RPATH_MAX_PTS"
    using window_points_total by blast
  then show ?thesis using s(1) e(1) by (simp add: window_def Let_def l_def)
qed

section \<open>The mesh is bounded\<close>

lemma mesh_fold:
  "length (m_verts m) \<le> RMESH_MAX_VERTS \<Longrightarrow> m_verts (fold mesh_v vs m) = take RMESH_MAX_VERTS (m_verts m @ vs)"
proof (induction vs arbitrary: m)
  case (Cons v vs)
  show ?case
  proof (cases "length (m_verts m) \<ge> RMESH_MAX_VERTS")
    case False
    then show ?thesis using Cons.IH [of "m\<lparr> m_verts := m_verts m @ [v] \<rparr>"] by (simp add: mesh_v_def)
  next
    case True
    then show ?thesis using Cons by (simp add: mesh_v_def)
  qed
qed simp

text \<open>A mesh with room for its vertices, of whole triangles.\<close>

definition mesh_ok :: "route_mesh \<Rightarrow> bool" where
  "mesh_ok m \<longleftrightarrow> length (m_verts m) \<le> RMESH_MAX_VERTS \<and> 3 dvd length (m_verts m)"

lemma fold_mesh_ok:
  assumes "3 dvd length vs" shows "mesh_ok (fold mesh_v vs no_mesh)"
proof -
  have "m_verts (fold mesh_v vs no_mesh) = take RMESH_MAX_VERTS vs" using mesh_fold [of no_mesh vs] by (simp add: no_mesh_def)
  moreover have "3 dvd RMESH_MAX_VERTS" by (simp add: RMESH_MAX_VERTS_def)
  ultimately show ?thesis using assms by (simp add: mesh_ok_def min_def)
qed

lemma mesh_ok_valid: "mesh_ok (m\<lparr> m_valid := b \<rparr>) = mesh_ok m"
  by (simp add: mesh_ok_def)

lemma no_mesh_ok: "mesh_ok no_mesh"
  by (simp add: mesh_ok_def no_mesh_def)

lemma no_mesh_valid: "m_verts no_mesh = []"
  by (simp add: no_mesh_def)

lemma extrude_total:
  assumes "path_ok p" and "0 < width"
  shows "\<exists>m. rpath_extrude_partial L rs p width y0 y1 t0 t1 cap_start cap_end tip_end = Some m \<and> mesh_ok m \<and>
    (\<not> m_valid m \<longrightarrow> m_verts m = [])"
proof -
  define a where "a = (if t0 < 0 then 0 else t0)"
  define b where "b = (if t1 > 1 then 1 else t1)"
  show ?thesis
  proof (cases "length (p_pts p) < 2 \<or> a \<ge> b \<or> b \<le> 0")
    case True
    then show ?thesis by (simp add: rpath_extrude_partial_def Let_def a_def [symmetric] b_def [symmetric] no_mesh_ok no_mesh_valid)
  next
    case False
    then have "2 \<le> length (p_pts p)" by simp
    then obtain e ep where w: "window p a b = Some (e, ep)" using window_total [OF assms(1)] by blast
    show ?thesis
    proof (cases "length ep < 2")
      case True
      then show ?thesis using False w by (simp add: rpath_extrude_partial_def Let_def a_def [symmetric] b_def [symmetric] no_mesh_ok no_mesh_valid)
    next
      case ep: False
      then have "2 \<le> length ep" by simp
      then obtain vs where "route_vertices L rs p width y0 y1 a b cap_start cap_end tip_end e ep = Some vs" "3 dvd length vs"
        using route_vertices_total [OF assms(2)] by blast
      then show ?thesis using False w ep
        by (simp add: rpath_extrude_partial_def Let_def a_def [symmetric] b_def [symmetric] fold_mesh_ok mesh_ok_valid)
    qed
  qed
qed

section \<open>The batches\<close>

lemma vb_fold: "length vb + length vs \<le> MAX_VERTS \<Longrightarrow> fold vb_v vs vb = vb @ vs"
  by (induction vs arbitrary: vb) (simp_all add: vb_v_def)

text \<open>The size of the next batch.\<close>

definition batch_size :: "nat \<Rightarrow> nat" where
  "batch_size n = (if n > 1200 then 1200 else n) div 3 * 3"

lemma batch_size_ok: "3 dvd n \<Longrightarrow> 0 < n \<Longrightarrow> 0 < batch_size n \<and> batch_size n \<le> n \<and> batch_size n \<le> MAX_VERTS \<and> 3 dvd batch_size n"
  by (auto simp: batch_size_def MAX_VERTS_def elim!: dvdE)

lemma draw_batches_step:
  "drawn < length vs \<Longrightarrow> batch_size (length vs - drawn) \<noteq> 0 \<Longrightarrow> draw_batches vs drawn =
     do { b \<leftarrow> rd_mem vs drawn (batch_size (length vs - drawn));
          rest \<leftarrow> draw_batches vs (drawn + batch_size (length vs - drawn));
          Some (fold vb_v b [] # rest) }"
  by (subst draw_batches.simps) (simp only: Let_def batch_size_def if_True if_False)

lemma draw_batches_in_order:
  "3 dvd length vs \<Longrightarrow> 3 dvd drawn \<Longrightarrow> drawn \<le> length vs \<Longrightarrow> \<exists>bs. draw_batches vs drawn = Some bs \<and> concat bs = drop drawn vs \<and>
    (\<forall>b \<in> set bs. 0 < length b \<and> length b \<le> MAX_VERTS \<and> 3 dvd length b)"
proof (induction "length vs - drawn" arbitrary: drawn rule: less_induct)
  case less
  show ?case
  proof (cases "drawn < length vs")
    case True
    define k where "k = batch_size (length vs - drawn)"
    have "3 dvd length vs - drawn" using less.prems by simp
    then have k: "0 < k" "drawn + k \<le> length vs" "k \<le> MAX_VERTS" "3 dvd k"
      using batch_size_ok [of "length vs - drawn"] True unfolding k_def by linarith+
    have "3 dvd drawn + k" using k(4) less.prems(2) by simp
    moreover have "length vs - (drawn + k) < length vs - drawn" using True k(1) by simp
    ultimately obtain rest where r: "draw_batches vs (drawn + k) = Some rest" "concat rest = drop (drawn + k) vs"
        "\<forall>b \<in> set rest. 0 < length b \<and> length b \<le> MAX_VERTS \<and> 3 dvd length b"
      using less.hyps less.prems(1) k(2) by blast
    have b: "length (slice vs drawn k) = k" "fold vb_v (slice vs drawn k) [] = slice vs drawn k"
      using k(2,3) vb_fold [of "[]" "slice vs drawn k"] by simp_all
    then have ne: "slice vs drawn k \<noteq> []" using k(1) by force
    have "slice vs drawn k @ drop (drawn + k) vs = drop drawn vs"
      by (simp add: slice_def) (metis add.commute append_take_drop_id drop_drop)
    then show ?thesis
      using draw_batches_step [OF True] k r b ne by (simp add: k_def [symmetric] rd_mem_Some)
  next
    case False
    then show ?thesis by (subst draw_batches.simps) simp
  qed
qed

lemma draw_total:
  assumes "mesh_ok m" and "\<not> m_valid m \<longrightarrow> m_verts m = []"
  shows "\<exists>bs. rpath_draw m = Some bs \<and> concat bs = m_verts m \<and>
    (\<forall>b \<in> set bs. 0 < length b \<and> length b \<le> MAX_VERTS \<and> 3 dvd length b)"
proof (cases "m_verts m = []")
  case False
  have "\<exists>bs. draw_batches (m_verts m) 0 = Some bs \<and> concat bs = drop 0 (m_verts m) \<and>
      (\<forall>b \<in> set bs. 0 < length b \<and> length b \<le> MAX_VERTS \<and> 3 dvd length b)"
    by (rule draw_batches_in_order) (use assms(1) in \<open>simp_all add: mesh_ok_def\<close>)
  moreover have "rpath_draw m = draw_batches (m_verts m) 0" using False assms(2) by (auto simp: rpath_draw_def)
  ultimately show ?thesis by simp
qed (simp add: rpath_draw_def)

section \<open>Properties\<close>

text \<open>A math library for the witnesses.\<close>

definition flat_libm :: libm where
  "flat_libm = \<lparr> lm_sin = \<lambda>_. 0, lm_cos = \<lambda>_. 1, lm_tan = \<lambda>_. 1, lm_acos = \<lambda>_. 0, lm_sqrt = \<lambda>x. x, lm_atan2 = \<lambda>_ _. 0 \<rparr>"

lemma flat_libm_ok: "libm_ok flat_libm"
  by (simp add: libm_ok_def flat_libm_def)

definition empty_path :: route_path where
  "empty_path = \<lparr> p_segs = [], p_pts = [], p_dist = [], p_total_length = 0, p_arrow_x = 0, p_arrow_y = 0, p_arrow_angle = 0,
     p_tip_blend = 0, p_bulb_radius = 0 \<rparr>"

definition no_ramp :: ramp where
  "no_ramp = \<lparr> g_ramp_restart = 0, g_ramp_lift_current = 0, g_ramp_lift_next = 0 \<rparr>"

text \<open>Drawing a mesh hands over its vertices, all of them and in their
  order, in batches that fit the vertex buffer and cut no triangle: split into
  batches the drawing is the drawing of the whole mesh.\<close>

theorem mesh_drawn_in_order:
  assumes "path_ok p" and "0 < width"
  shows "\<exists>m bs. rpath_extrude_partial L rs p width y0 y1 t0 t1 cap_start cap_end tip_end = Some m \<and>
    rpath_draw m = Some bs \<and> concat bs = m_verts m \<and>
    (\<forall>b \<in> set bs. 0 < length b \<and> length b \<le> MAX_VERTS \<and> 3 dvd length b)"
proof -
  obtain m where m: "rpath_extrude_partial L rs p width y0 y1 t0 t1 cap_start cap_end tip_end = Some m" "mesh_ok m"
      "\<not> m_valid m \<longrightarrow> m_verts m = []" using extrude_total [OF assms] by blast
  then show ?thesis using draw_total [OF m(2,3)] by blast
qed

lemma mesh_drawn_in_order_witness:
  "\<exists>p m bs. rpath_densify flat_libm (rpath_add_line empty_path 0 0 0 8) = Some p \<and>
    rpath_extrude_partial flat_libm no_ramp p 1 0 1 0 1 True True True = Some m \<and> rpath_draw m = Some bs \<and> concat bs = m_verts m"
proof -
  have "list_all (seg_in 400000) (p_segs (rpath_add_line empty_path 0 0 0 8))"
    by (simp add: rpath_add_line_def add_seg_def empty_path_def RPATH_MAX_SEGS_def seg_in_def)
  then obtain p where p: "rpath_densify flat_libm (rpath_add_line empty_path 0 0 0 8) = Some p" "path_ok p"
    using rpath_densify_total by blast
  then show ?thesis
    using mesh_drawn_in_order [OF p(2), of 1 flat_libm no_ramp 0 1 0 1 True True True] by force
qed

end
