(* ===== verification/Route_Chain.thy ===== *)
theory Route_Chain
  imports Route_Mesh
begin

text \<open>
  The handoff from one maneuver to the next and the drawing of the route:
  c_render/maneuver.c, where the next maneuver is placed behind the current one,
  the joined path, the window of it that the arrow moves through, the camera that
  follows the arrow and the slices of the route that are drawn.

  The record chain holds the statics of maneuver.c that this geometry keeps; the
  animation's statics are the record slide of the engine.
\<close>

text \<open>The offsets stay as in the prelude.\<close>

declare One_nat_def [simp del] add_2_eq_Suc [simp del] add_2_eq_Suc' [simp del]

section \<open>Poses of a route's ends\<close>

record maneuver_exit =
  ex_x :: rat
  ex_y :: rat
  ex_heading :: rat

definition maneuver_get_exit :: "libm \<Rightarrow> maneuver_state \<Rightarrow> maneuver_exit option" where
  "maneuver_get_exit L st =
     (if ms_icon st = ICON_APPROACH then Some \<lparr> ex_x = 0, ex_y = fsub ARRIVE_CENTER_Y HEAD_SZ, ex_heading = HALF_PI_F \<rparr>
      else if ms_icon st = ICON_TURN then
        let a = deg_to_rad (rnd32 (of_int (ms_exit_angle st)))
        in Some \<lparr> ex_x = fmul BLUE_LEN (lm_sin L a), ex_y = fmul BLUE_LEN (lm_cos L a), ex_heading = fsub HALF_PI_F a \<rparr>
      else if ms_icon st = ICON_UTURN then
        let go_left = (if ms_direction st \<noteq> 0 then ms_direction st < 0 else ms_driving_side st = 0)
        in Some \<lparr> ex_x = (if go_left then - UTURN_GAP else UTURN_GAP), ex_y = UTURN_ARROW, ex_heading = - HALF_PI_F \<rparr>
      else if ms_icon st = ICON_ROUNDABOUT then do {
        (deg, exit_rad, idx) \<leftarrow>
          snap_roundabout_exit (rnd32 (of_int (ms_exit_angle st))) (ms_junction_angles st) (ms_junction_angle_count st);
        let ext = fsub BLUE_LEN RAB_RING_R;
        Some \<lparr> ex_x = fmul (fadd RAB_RING_R ext) (lm_cos L exit_rad), ex_y = fmul (fadd RAB_RING_R ext) (lm_sin L exit_rad),
          ex_heading = exit_rad \<rparr> }
      else if ms_icon st = ICON_MERGE then Some \<lparr> ex_x = 0, ex_y = BLUE_LEN, ex_heading = HALF_PI_F \<rparr>
      else if ms_icon st = ICON_EXIT then
        Some \<lparr> ex_x = fmul (if ms_direction st < 0 then - 1 else 1) LANE_SHIFT, ex_y = BLUE_LEN, ex_heading = HALF_PI_F \<rparr>
      else Some \<lparr> ex_x = 0, ex_y = ARRIVE_CENTER_Y, ex_heading = HALF_PI_F \<rparr>)"

definition route_path_get_start_pose :: "libm \<Rightarrow> route_path \<Rightarrow> maneuver_exit" where
  "route_path_get_start_pose L p =
     (if length (p_segs p) > 0
      then let ((sx, sy), (sdx, sdy)) = seg_start_dir L (hd (p_segs p))
           in \<lparr> ex_x = sx, ex_y = sy, ex_heading = lm_atan2 L sdy sdx \<rparr>
      else \<lparr> ex_x = 0, ex_y = SHAFT_BOT, ex_heading = HALF_PI_F \<rparr>)"

definition route_path_get_end_pose :: "libm \<Rightarrow> route_path \<Rightarrow> maneuver_exit" where
  "route_path_get_end_pose L p =
     (if length (p_segs p) > 0
      then let ((ex, ey), (edx, edy)) = seg_end_dir L (last (p_segs p))
           in \<lparr> ex_x = ex, ex_y = ey, ex_heading = lm_atan2 L edy edx \<rparr>
      else \<lparr> ex_x = 0, ex_y = fsub ARRIVE_CENTER_Y HEAD_SZ, ex_heading = HALF_PI_F \<rparr>)"

section \<open>The place of the next maneuver\<close>

definition FADE_LEN :: rat where "FADE_LEN = rnd32 (30 / 100)"
definition TRANSITION_PAD :: rat where "TRANSITION_PAD = rnd32 (15 / 100)"

definition maneuver_exit_road_reach :: rat where
  "maneuver_exit_road_reach = fadd (fsub ROAD_LEN BLUE_LEN) FADE_LEN"

definition maneuver_entry_road_reach :: rat where "maneuver_entry_road_reach = FADE_LEN"

text \<open>The translation, the cosine and the sine of the rotation, and the rotation.
  The two paths are locals that start with any contents.\<close>

definition compute_combined_transform :: "libm \<Rightarrow> maneuver_state \<Rightarrow> maneuver_state \<Rightarrow> route_path \<Rightarrow> route_path \<Rightarrow>
    (rat \<times> rat \<times> rat \<times> rat \<times> rat) option" where
  "compute_combined_transform L cur_state next_state cur_path next_path = do {
     c \<leftarrow> maneuver_build_route L cur_state cur_path;
     n \<leftarrow> maneuver_build_route L next_state next_path;
     let cur_end = route_path_get_end_pose L (rpath_extend L c);
     let next_start = route_path_get_start_pose L (rpath_extend L n);
     let rot = fsub (ex_heading cur_end) (ex_heading next_start);
     let cos_r = lm_cos L rot;
     let sin_r = lm_sin L rot;
     let ns_rx = fsub (fmul cos_r (ex_x next_start)) (fmul sin_r (ex_y next_start));
     let ns_ry = fadd (fmul sin_r (ex_x next_start)) (fmul cos_r (ex_y next_start));
     let tx = fsub (ex_x cur_end) ns_rx;
     let ty = fsub (ex_y cur_end) ns_ry;
     cur_exit \<leftarrow> maneuver_get_exit L cur_state;
     let hdx = lm_cos L (ex_heading cur_exit);
     let hdy = lm_sin L (ex_heading cur_exit);
     let proj = fadd (fmul tx hdx) (fmul ty hdy);
     let min_sep = fadd (fadd maneuver_exit_road_reach maneuver_entry_road_reach) TRANSITION_PAD;
     Some (if proj < min_sep
           then let deficit = fsub min_sep proj in (fadd tx (fmul deficit hdx), fadd ty (fmul deficit hdy), cos_r, sin_r, rot)
           else (tx, ty, cos_r, sin_r, rot)) }"

definition ELEV_LIFT :: rat where "ELEV_LIFT = rnd32 (6 / 100)"

definition maneuver_elevation :: "maneuver_state option \<Rightarrow> rat" where
  "maneuver_elevation s = (case s of None \<Rightarrow> 0 | Some st \<Rightarrow>
     if ms_icon st \<in> {ICON_ROUNDABOUT, ICON_TURN} \<and> \<bar>ms_exit_angle st\<bar> > 150 then ELEV_LIFT else 0)"

section \<open>The statics of the route's geometry\<close>

record chain =
  g_route_path :: route_path
  g_route_pre_frac :: rat
  g_route_end_frac :: rat
  g_t_tail :: rat
  g_t_head :: rat
  g_combined_window_active :: bool
  g_combined_start_tail_dist :: rat
  g_combined_start_head_dist :: rat
  g_combined_end_tail_dist :: rat
  g_combined_end_head_dist :: rat
  g_next_cam_pan_x :: rat
  g_next_cam_pan_y :: rat
  g_next_cam_rot :: rat
  g_next_cam_intro_end_dist :: rat
  g_next_cam_follow_dist :: rat
  g_next_cam_release_end_dist :: rat
  g_xfade_mid_dist :: rat
  g_last_combined_rot :: rat
  g_man_cam_rot :: rat
  g_man_cam_pan :: "rat \<times> rat"
  g_release_cam_x :: rat
  g_release_cam_y :: rat
  g_was_following :: bool
  g_combined_flag_x :: rat
  g_combined_flag_y :: rat
  g_combined_flag_flip_x :: bool
  g_arrive_flag_dx :: rat
  g_arrive_flag_dy :: rat
  g_ramp :: ramp

text \<open>clear_combined_transition and maneuver_commit_pushed_state on these statics.\<close>

definition clear_combined_chain :: "'a chain_scheme \<Rightarrow> 'a chain_scheme" where
  "clear_combined_chain c = c\<lparr> g_combined_window_active := False, g_combined_start_tail_dist := 0, g_combined_start_head_dist := 0,
     g_combined_end_tail_dist := 0, g_combined_end_head_dist := 0, g_next_cam_pan_x := 0, g_next_cam_pan_y := 0,
     g_next_cam_rot := 0, g_next_cam_intro_end_dist := 0, g_next_cam_follow_dist := 0, g_next_cam_release_end_dist := 0,
     g_xfade_mid_dist := 0, g_last_combined_rot := 0 \<rparr>"

text \<open>A value into the range from 0 to hi, the test against 0 first.\<close>

definition clamp0 :: "rat \<Rightarrow> rat \<Rightarrow> rat" where
  "clamp0 hi x = (let x = (if x < 0 then 0 else x) in if x > hi then hi else x)"

definition smooth :: "rat \<Rightarrow> rat" where
  "smooth t = fmul (fmul t t) (fsub 3 (fmul 2 t))"

definition XFADE_HALF :: rat where "XFADE_HALF = rnd32 (20 / 100)"

definition spatial_xfade :: "'a chain_scheme \<Rightarrow> rat" where
  "spatial_xfade c =
     (let path_len = p_total_length (g_route_path c) in
      if \<not> g_combined_window_active c \<or> g_xfade_mid_dist c \<le> 0 then 0
      else if path_len < rnd32 (1 / 1000000) then 0
      else let head_dist = fmul (g_t_head c) path_len;
               rel = fdiv (fsub head_dist (g_xfade_mid_dist c)) XFADE_HALF
           in smooth (clamp0 1 (fmul (fadd rel 1) (1 / 2))))"

section \<open>The window of the slide\<close>

text \<open>How far the slide is between its ends.\<close>

definition slide_progress :: "'b slide_scheme \<Rightarrow> rat" where
  "slide_progress s =
     (let range = fsub (g_anim_target s) (g_anim_start s)
      in clamp0 1 (if range > rnd32 (1 / 100) then fdiv (fsub (g_route_slide s) (g_anim_start s)) range else 1))"

definition compute_slide_params :: "'b slide_scheme \<Rightarrow> 'a chain_scheme \<Rightarrow> 'a chain_scheme" where
  "compute_slide_params s c =
     (let path_len = p_total_length (g_route_path c) in
      if path_len < rnd32 (1 / 1000000)
      then c\<lparr> g_route_pre_frac := 0, g_route_end_frac := 1, g_t_tail := 0,
              g_t_head := (if g_route_slide s < 1 then g_route_slide s else 1) \<rparr>
      else let pre = fdiv ROUTE_EXTEND path_len;
               fin = fdiv (fsub path_len ROUTE_EXTEND) path_len;
               c = c\<lparr> g_route_pre_frac := pre, g_route_end_frac := fin \<rparr>
           in if g_combined_window_active c
              then let from_dist = g_combined_start_head_dist c; to_dist = g_combined_end_head_dist c;
                       head_dist = clamp0 path_len (fadd from_dist (fmul (fsub to_dist from_dist) (slide_progress s)))
                   in c\<lparr> g_t_tail := 0, g_t_head := fdiv head_dist path_len \<rparr>
              else let slug_frac = (if g_slug_override s > 0 then fdiv (g_slug_override s) path_len else fsub fin pre);
                       t_head = fadd pre (fmul (g_route_slide s) slug_frac)
                   in c\<lparr> g_t_tail := 0, g_t_head := (if t_head > 1 then 1 else t_head) \<rparr>)"

section \<open>The handoff's path and window\<close>

definition ARRIVE_OUTER_R :: rat where "ARRIVE_OUTER_R = rnd32 (28 / 100)"

text \<open>Where the flag stands, from the side of the destination.\<close>

definition flag_at :: "int \<Rightarrow> rat \<times> rat" where
  "flag_at dir =
     (if dir < 0 then (- ARRIVE_OUTER_R, ARRIVE_CENTER_Y)
      else if dir > 0 then (ARRIVE_OUTER_R, ARRIVE_CENTER_Y)
      else (0, fadd ARRIVE_CENTER_Y ARRIVE_OUTER_R))"

definition combined_flag :: "maneuver_state \<Rightarrow> rat \<Rightarrow> rat \<Rightarrow> rat \<Rightarrow> rat \<Rightarrow> 'a chain_scheme \<Rightarrow> 'a chain_scheme" where
  "combined_flag next_state tx ty cos_r sin_r c =
     (if ms_icon next_state = ICON_ARRIVED
      then let (nfx, nfy) = flag_at (ms_direction next_state)
           in c\<lparr> g_combined_flag_x := fadd (fsub (fmul cos_r nfx) (fmul sin_r nfy)) tx,
                 g_combined_flag_y := fadd (fadd (fmul sin_r nfx) (fmul cos_r nfy)) ty,
                 g_combined_flag_flip_x := cos_r < 0 \<rparr>
      else c\<lparr> g_combined_flag_flip_x := False \<rparr>)"

text \<open>The distance on the joined path where the roads crossfade.\<close>

definition xfade_mid :: "rat \<Rightarrow> rat \<Rightarrow> rat \<Rightarrow> rat" where
  "xfade_mid slug next_road_len path_len =
     (let cur_zone_end = fadd (fadd ROUTE_EXTEND slug) maneuver_exit_road_reach;
          next_zone_start = fsub (fsub (fsub path_len ROUTE_EXTEND) next_road_len) maneuver_entry_road_reach;
          next_zone_start = (if next_zone_start < cur_zone_end then cur_zone_end else next_zone_start)
      in fmul (1 / 2) (fadd cur_zone_end next_zone_start))"

text \<open>The distances of the tail and the head at the start and the end of the slide.\<close>

definition window_dists :: "rat \<Rightarrow> rat \<Rightarrow> rat \<Rightarrow> rat \<Rightarrow> (rat \<times> rat) \<times> (rat \<times> rat)" where
  "window_dists anim_start slug next_road_len path_len =
     (let current_total = fadd slug (fmul 2 ROUTE_EXTEND);
          start_head = fadd ROUTE_EXTEND (fmul anim_start slug);
          start_tail = fsub start_head slug;
          end_head = fsub path_len ROUTE_EXTEND;
          end_tail = fsub end_head next_road_len
      in ((clamp0 current_total start_tail, clamp0 current_total start_head),
          (if end_tail < 0 then 0 else end_tail, clamp0 path_len end_head)))"

definition transition_length :: "(rat \<times> rat) \<times> (rat \<times> rat) \<Rightarrow> rat" where
  "transition_length w =
     (let ((start_tail, start_head), (end_tail, end_head)) = w
      in fsub (fmul (1 / 2) (fadd end_tail end_head)) (fmul (1 / 2) (fadd start_tail start_head)))"

text \<open>The statics of the window and of the camera.\<close>

definition set_window :: "(rat \<times> rat) \<times> (rat \<times> rat) \<Rightarrow> rat \<Rightarrow> rat \<Rightarrow> rat \<Rightarrow> rat \<Rightarrow> 'a chain_scheme \<Rightarrow> 'a chain_scheme" where
  "set_window w slug tx ty rot c =
     (let ((start_tail, start_head), (end_tail, end_head)) = w;
          follow = fadd (fadd slug (fmul 2 ROUTE_EXTEND)) ROUTE_EXTEND;
          intro = fadd start_head (fmul (rnd32 (30 / 100)) slug);
          intro = (if intro < start_head then start_head else intro);
          intro = (if intro > follow then follow else intro)
      in c\<lparr> g_combined_window_active := True, g_combined_start_tail_dist := start_tail, g_combined_start_head_dist := start_head,
            g_combined_end_tail_dist := end_tail, g_combined_end_head_dist := end_head,
            g_next_cam_pan_x := tx, g_next_cam_pan_y := ty, g_next_cam_rot := rot,
            g_next_cam_intro_end_dist := intro, g_next_cam_follow_dist := follow, g_next_cam_release_end_dist := end_head \<rparr>)"

text \<open>The animation's target: the length of the transition in roads.\<close>

definition retarget_slide :: "rat \<Rightarrow> rat \<Rightarrow> 'b slide_scheme \<Rightarrow> 'b slide_scheme" where
  "retarget_slide slug transition_len s =
     (let len = (if transition_len < rnd32 (1 / 100) then rnd32 (1 / 100) else transition_len)
      in if slug > rnd32 (1 / 100) then s\<lparr> g_anim_target := fadd (g_anim_start s) (fdiv len slug) \<rparr> else s)"

definition wrap_angle :: "rat \<Rightarrow> rat option" where
  "wrap_angle a = do { a \<leftarrow> wind_down (\<lambda>a. a > PI_F) a; wind_up (\<lambda>a. a < - PI_F) a }"

definition lerp_angle :: "rat \<Rightarrow> rat \<Rightarrow> rat \<Rightarrow> rat option" where
  "lerp_angle a b t = do { w \<leftarrow> wrap_angle (fsub b a); Some (fadd a (fmul w t)) }"

text \<open>The part of maneuver_draw that joins the two routes.  The animation sees the
  current road's length, the length of the joined path, and whether the rotation
  will turn the light at the commit.\<close>

definition handoff :: "libm \<Rightarrow> maneuver_state \<Rightarrow> maneuver_state \<Rightarrow> route_path \<Rightarrow> route_path \<Rightarrow> route_path \<Rightarrow>
    'b slide_scheme \<Rightarrow> 'a chain_scheme \<Rightarrow> ('b slide_scheme \<times> 'a chain_scheme) option" where
  "handoff L st next_state l1 l2 l3 s c = do {
     (tx, ty, cos_r, sin_r, rot) \<leftarrow> compute_combined_transform L st next_state l1 l2;
     (slug, next_road_len, g) \<leftarrow> handoff_route L st next_state tx ty cos_r sin_r rot (g_route_path c) l3;
     light \<leftarrow> wrap_angle rot;
     let path_len = p_total_length g;
     let c = combined_flag next_state tx ty cos_r sin_r (c\<lparr> g_last_combined_rot := rot \<rparr>);
     let rs = rpath_set_elevation (maneuver_elevation (Some st)) (maneuver_elevation (Some next_state))
                (rpath_set_ramp_restart (fadd slug (fmul 2 ROUTE_EXTEND)) (g_ramp c));
     let c = c\<lparr> g_ramp := rs, g_route_path := g, g_xfade_mid_dist := xfade_mid slug next_road_len path_len \<rparr>;
     let w = window_dists (g_anim_start s) slug next_road_len path_len;
     let s = s\<lparr> g_slug_override := slug, g_route_len := path_len, g_light_turned := \<bar>light\<bar> > rnd32 (1 / 10000) \<rparr>;
     Some (retarget_slide slug (transition_length w) s, set_window w slug tx ty rot c) }"

section \<open>The camera\<close>

definition apply_camera_pose :: "rat \<Rightarrow> rat \<Rightarrow> rat \<Rightarrow> 'a chain_scheme \<Rightarrow> 'a chain_scheme" where
  "apply_camera_pose pan_x pan_y rot c = c\<lparr> g_man_cam_rot := rot, g_man_cam_pan := (pan_x, pan_y) \<rparr>"

definition route_rot :: "libm \<Rightarrow> route_path \<Rightarrow> rat \<Rightarrow> rat option" where
  "route_rot L p t = do { h \<leftarrow> rpath_sample_heading L p t; Some (fsub h HALF_PI_F) }"

definition camera_spring :: rat where "camera_spring = rnd32 (7 / 100)"

definition release_blend01 :: "rat \<Rightarrow> rat" where "release_blend01 t = smooth (clamp0 1 t)"

text \<open>The three stretches of the way: towards the arrow, with the arrow, and on to
  the next maneuver.\<close>

definition camera_intro :: "libm \<Rightarrow> rat \<Rightarrow> 'a chain_scheme \<Rightarrow> 'a chain_scheme option" where
  "camera_intro L head_dist c = do {
     let denom = fsub (g_next_cam_intro_end_dist c) (g_combined_start_head_dist c);
     let blend = (if denom > rnd32 (1 / 10000) then fdiv (fsub head_dist (g_combined_start_head_dist c)) denom else 1);
     (x, y) \<leftarrow> rpath_sample (g_route_path c) (g_t_head c);
     rot \<leftarrow> route_rot L (g_route_path c) (g_t_head c);
     let blend = fsub (fmul 2 blend) (fmul blend blend);
     r \<leftarrow> lerp_angle 0 rot blend;
     Some (apply_camera_pose (fmul x blend) (fmul y blend) r c) }"

definition camera_follow :: "libm \<Rightarrow> 'a chain_scheme \<Rightarrow> 'a chain_scheme option" where
  "camera_follow L c = do {
     (x, y) \<leftarrow> rpath_sample (g_route_path c) (g_t_head c);
     rot \<leftarrow> route_rot L (g_route_path c) (g_t_head c);
     Some (apply_camera_pose x y rot (c\<lparr> g_was_following := True, g_release_cam_x := x, g_release_cam_y := y \<rparr>)) }"

definition camera_release :: "libm \<Rightarrow> rat \<Rightarrow> 'a chain_scheme \<Rightarrow> 'a chain_scheme option" where
  "camera_release L head_dist c = do {
     let path_len = p_total_length (g_route_path c);
     let follow_t = clamp0 1 (if g_next_cam_follow_dist c > 0 then fdiv (g_next_cam_follow_dist c) path_len else 0);
     rot \<leftarrow> route_rot L (g_route_path c) follow_t;
     let denom = fsub (g_next_cam_release_end_dist c) (g_next_cam_follow_dist c);
     let blend = (if denom > rnd32 (1 / 10000) then fdiv (fsub head_dist (g_next_cam_follow_dist c)) denom else 1);
     let blend = (if blend > 1 then 1 else blend);
     let x = fadd (g_release_cam_x c) (fmul (fsub (g_next_cam_pan_x c) (g_release_cam_x c)) camera_spring);
     let y = fadd (g_release_cam_y c) (fmul (fsub (g_next_cam_pan_y c) (g_release_cam_y c)) camera_spring);
     r \<leftarrow> lerp_angle rot (g_next_cam_rot c) (release_blend01 blend);
     Some (apply_camera_pose x y r (c\<lparr> g_was_following := False, g_release_cam_x := x, g_release_cam_y := y \<rparr>)) }"

definition update_combined_camera :: "libm \<Rightarrow> 'a chain_scheme \<Rightarrow> 'a chain_scheme option" where
  "update_combined_camera L c =
     (let path_len = p_total_length (g_route_path c) in
      if path_len < rnd32 (1 / 1000000) then Some (apply_camera_pose 0 0 0 c)
      else let head_dist = fmul (g_t_head c) path_len in
           if head_dist \<le> g_next_cam_intro_end_dist c then camera_intro L head_dist c
           else if head_dist \<le> g_next_cam_follow_dist c then camera_follow L c
           else camera_release L head_dist c)"

section \<open>The drawing of the route\<close>

definition ROUTE_BASE_Y :: rat where "ROUTE_BASE_Y = rnd32 (3 / 100)"
definition ROUTE_TOP_Y :: rat where "ROUTE_TOP_Y = rnd32 (6 / 100)"
definition ROUTE_TAIL_FADE_DIST :: rat where "ROUTE_TAIL_FADE_DIST = rnd32 (35 / 100)"
definition ROUTE_TAIL_FADE_SLICES :: nat where "ROUTE_TAIL_FADE_SLICES = 24"

definition route_extrude_body :: "libm \<Rightarrow> 'a chain_scheme \<Rightarrow> route_mesh option" where
  "route_extrude_body L c = rpath_extrude L (g_ramp c) (g_route_path c) SHAFT_T ROUTE_BASE_Y ROUTE_TOP_Y (g_t_tail c) (g_t_head c)"

text \<open>The batches drawn, each with its alpha.\<close>

definition route_draw_window :: "libm \<Rightarrow> 'a chain_scheme \<Rightarrow> rat \<Rightarrow> rat \<Rightarrow> rat \<Rightarrow> bool \<Rightarrow> bool \<Rightarrow> bool \<Rightarrow> (rat \<times> vertex list) list option" where
  "route_draw_window L c t0 t1 alpha cap_start cap_end tip_end =
     (if alpha \<le> rnd32 (1 / 1000) \<or> fsub t1 t0 \<le> rnd32 (1 / 100000) then Some []
      else do {
        m \<leftarrow> rpath_extrude_partial L (g_ramp c) (g_route_path c) SHAFT_T ROUTE_BASE_Y ROUTE_TOP_Y t0 t1 cap_start cap_end tip_end;
        bs \<leftarrow> rpath_draw m;
        Some (map (\<lambda>b. (alpha, b)) bs) })"

definition fade_slice :: "libm \<Rightarrow> 'a chain_scheme \<Rightarrow> rat \<Rightarrow> nat \<Rightarrow> (rat \<times> vertex list) list option" where
  "fade_slice L c fade_t i =
     (let n = of_nat ROUTE_TAIL_FADE_SLICES;
          u0 = fdiv (of_nat i) n;
          u1 = fdiv (of_nat (i + 1)) n;
          seg_t0 = fadd (g_t_tail c) (fmul (fsub fade_t (g_t_tail c)) u0);
          seg_t1 = fadd (g_t_tail c) (fmul (fsub fade_t (g_t_tail c)) u1);
          last_slice = (i + 1 = ROUTE_TAIL_FADE_SLICES \<and> fade_t \<ge> fsub (g_t_head c) (rnd32 (1 / 100000)))
      in route_draw_window L c seg_t0 seg_t1 (smooth (clamp0 1 u1)) (i = 0) last_slice last_slice)"

definition route_draw_with_fade :: "libm \<Rightarrow> route_mesh \<Rightarrow> 'a chain_scheme \<Rightarrow> (rat \<times> vertex list) list option" where
  "route_draw_with_fade L m c =
     (let path_len = p_total_length (g_route_path c); eps = rnd32 (1 / 100000) in
      if g_combined_window_active c \<and> path_len > rnd32 (1 / 1000000)
      then let fade_t = fadd (g_t_tail c) (fdiv ROUTE_TAIL_FADE_DIST path_len);
               fade_t = (if fade_t > g_t_head c then g_t_head c else fade_t)
           in do {
             tail \<leftarrow> (if fade_t > fadd (g_t_tail c) eps then those (map (fade_slice L c fade_t) [0 ..< ROUTE_TAIL_FADE_SLICES]) else Some []);
             body \<leftarrow> (if fade_t < fsub (g_t_head c) eps then route_draw_window L c fade_t (g_t_head c) 1 False True True else Some []);
             Some (concat tail @ body) }
      else do { bs \<leftarrow> rpath_draw m; Some (map (\<lambda>b. (1, b)) bs) })"

section \<open>Angles\<close>

lemma wrap_angle_total: "\<bar>a\<bar> \<le> 900 \<Longrightarrow> \<exists>w. wrap_angle a = Some w"
proof -
  assume a: "\<bar>a\<bar> \<le> 900"
  have h: "\<bar>PI_F\<bar> \<le> 1000" "\<bar>- PI_F\<bar> \<le> 1000" using pi_f(1,2) by auto
  let ?P = "\<lambda>x. - 900 \<le> x \<and> x \<le> 900"
  obtain d where d: "wind_down (\<lambda>a. a > PI_F) a = Some d"
    using wind_down_total [of "\<lambda>a. a > PI_F" PI_F a] a h(1) by auto
  have step: "?P (fsub x TWO_PI_F)" if "?P x" "PI_F < x" for x
  proof -
    have "\<bar>x\<bar> \<le> 1010" using that(1) by auto
    from turn_down [OF this] show ?thesis using that pi_f(1) by linarith
  qed
  have "?P d"
    by (rule while_option_rule [where P = ?P, OF _ d [unfolded wind_down_def]]) (use step a in auto)
  then have "\<bar>d\<bar> \<le> 1000" by auto
  then obtain w where "wind_up (\<lambda>a. a < - PI_F) d = Some w"
    using wind_up_total [of "\<lambda>a. a < - PI_F" "- PI_F" d] h(2) by auto
  then show ?thesis by (simp add: wrap_angle_def d)
qed

lemma lerp_angle_total: "\<bar>b - a\<bar> \<le> 800 \<Longrightarrow> \<exists>r. lerp_angle a b t = Some r"
proof -
  assume "\<bar>b - a\<bar> \<le> 800"
  then have "\<bar>fsub b a\<bar> \<le> 900" using rnd32_abs [of "b - a" 800] by (simp add: fsub_def)
  from wrap_angle_total [OF this] show ?thesis by (auto simp: lerp_angle_def)
qed

lemma piece_heading_range: "libm_ok L \<Longrightarrow> piece_heading L p i = Some (Some a) \<Longrightarrow> \<bar>a\<bar> \<le> 4"
  by (auto simp: piece_heading_def libm_ok_def Let_def bind_eq_Some_conv abs_le_iff minus_le_iff split: if_splits)

lemma heading_from_range: "libm_ok L \<Longrightarrow> heading_from L p t i n = Some (Some a) \<Longrightarrow> \<bar>a\<bar> \<le> 4"
proof (induction n arbitrary: i)
  case (Suc n)
  from Suc.prems(2) obtain d h where h: "(if d \<ge> t then piece_heading L p i else Some None) = Some h"
      "(case h of Some a \<Rightarrow> Some (Some a) | None \<Rightarrow> heading_from L p t (i + 1) n) = Some (Some a)"
    by (auto simp: bind_eq_Some_conv)
  show ?case
  proof (cases h)
    case None
    then show ?thesis using h(2) Suc.IH [OF Suc.prems(1)] by simp
  next
    case (Some b)
    then have "piece_heading L p i = Some (Some b)" using h(1) by (simp split: if_splits)
    then show ?thesis using piece_heading_range [OF Suc.prems(1)] h(2) Some by simp
  qed
qed simp

lemma route_rot_total:
  assumes "libm_ok L" and "path_ok p" shows "\<exists>r. route_rot L p t = Some r \<and> \<bar>r\<bar> \<le> 100"
proof -
  obtain h where h: "rpath_sample_heading L p t = Some h" using rpath_sample_heading_total [OF assms(2)] by blast
  have "\<bar>h\<bar> \<le> 4"
  proof -
    have "\<bar>HALF_PI_F\<bar> \<le> 4" using pi_f(3,4) by auto
    then show ?thesis using h heading_from_range [OF assms(1)] piece_heading_range [OF assms(1)]
      by (auto simp: rpath_sample_heading_def Let_def bind_eq_Some_conv split: if_splits option.splits)
  qed
  then have "\<bar>h - HALF_PI_F\<bar> \<le> 6" using pi_f(3,4) by linarith
  then have "\<bar>fsub h HALF_PI_F\<bar> \<le> 100" using rnd32_abs [of "h - HALF_PI_F" 6] by (simp add: fsub_def)
  then show ?thesis by (simp add: route_rot_def h)
qed

section \<open>The transform\<close>

lemma pose_range:
  assumes "libm_ok L"
  shows "\<bar>ex_heading (route_path_get_start_pose L p)\<bar> \<le> 4" "\<bar>ex_heading (route_path_get_end_pose L p)\<bar> \<le> 4"
proof -
  have a: "\<bar>lm_atan2 L y x\<bar> \<le> 4" for y x
  proof -
    have "- 4 \<le> lm_atan2 L y x" "lm_atan2 L y x \<le> 4" using assms by (simp_all add: libm_ok_def)
    then show ?thesis by (simp add: abs_le_iff)
  qed
  have h: "\<bar>HALF_PI_F\<bar> \<le> 4" using pi_f(3,4) by auto
  show "\<bar>ex_heading (route_path_get_start_pose L p)\<bar> \<le> 4" "\<bar>ex_heading (route_path_get_end_pose L p)\<bar> \<le> 4"
    using a h by (simp_all add: route_path_get_start_pose_def route_path_get_end_pose_def split: prod.split)
qed

lemma maneuver_get_exit_total:
  assumes "man_ok st" shows "\<exists>e. maneuver_get_exit L st = Some e"
  using snap_total [OF assms] by (auto simp: maneuver_get_exit_def Let_def)

lemma compute_combined_transform_total:
  assumes "libm_ok L" and "man_ok st" and "man_ok next_state"
  shows "\<exists>tx ty cos_r sin_r rot. compute_combined_transform L st next_state l1 l2 = Some (tx, ty, cos_r, sin_r, rot) \<and> \<bar>rot\<bar> \<le> 100"
proof -
  obtain c where c: "maneuver_build_route L st l1 = Some c" using maneuver_build_route_total [OF assms(1,2)] by blast
  obtain n where n: "maneuver_build_route L next_state l2 = Some n" using maneuver_build_route_total [OF assms(1,3)] by blast
  obtain e where e: "maneuver_get_exit L st = Some e" using maneuver_get_exit_total [OF assms(2)] by blast
  define a where "a = ex_heading (route_path_get_end_pose L (rpath_extend L c))"
  define b where "b = ex_heading (route_path_get_start_pose L (rpath_extend L n))"
  have "\<bar>a\<bar> \<le> 4" "\<bar>b\<bar> \<le> 4" using pose_range [OF assms(1)] by (simp_all add: a_def b_def)
  then have "\<bar>a - b\<bar> \<le> 8" by linarith
  then have "\<bar>fsub a b\<bar> \<le> 100" using rnd32_abs [of "a - b" 8] by (simp add: fsub_def)
  then show ?thesis
    by (simp add: compute_combined_transform_def Let_def c n e a_def [symmetric] b_def [symmetric])
qed

section \<open>The window\<close>

lemma clamp0_range: "0 \<le> hi \<Longrightarrow> 0 \<le> clamp0 hi x \<and> clamp0 hi x \<le> hi"
  by (simp add: clamp0_def Let_def)

lemma frac_range: "0 \<le> x \<Longrightarrow> x \<le> y \<Longrightarrow> 0 < y \<Longrightarrow> 0 \<le> fdiv x y \<and> fdiv x y \<le> 1"
  by (simp add: fdiv_def rnd32_nonneg rnd32_le_1 divide_le_eq)

text \<open>The head of the arrow stays on the path.\<close>

lemma head_range:
  assumes "g_combined_window_active c" and "0 \<le> g_route_slide s"
  shows "0 \<le> g_t_head (compute_slide_params s c) \<and> g_t_head (compute_slide_params s c) \<le> 1"
proof (cases "p_total_length (g_route_path c) < rnd32 (1 / 1000000)")
  case True
  then show ?thesis using assms by (simp add: compute_slide_params_def)
next
  case False
  have "0 < rnd32 (1 / 1000000)" by (rule rnd32_pos) simp
  then have l: "0 < p_total_length (g_route_path c)" using False by linarith
  then have "0 \<le> clamp0 (p_total_length (g_route_path c)) x \<and> clamp0 (p_total_length (g_route_path c)) x \<le> p_total_length (g_route_path c)" for x
    by (intro clamp0_range) simp
  then show ?thesis using False assms(1) frac_range l by (simp add: compute_slide_params_def Let_def)
qed

lemma compute_slide_params_keeps:
  "g_route_path (compute_slide_params s c) = g_route_path c" "g_combined_window_active (compute_slide_params s c) = g_combined_window_active c"
  "g_next_cam_rot (compute_slide_params s c) = g_next_cam_rot c" "g_ramp (compute_slide_params s c) = g_ramp c"
  by (simp_all add: compute_slide_params_def Let_def)

section \<open>The camera\<close>

lemma camera_total:
  assumes "libm_ok L" and "path_ok (g_route_path c)" and "\<bar>g_next_cam_rot c\<bar> \<le> 100"
  shows "\<exists>c'. update_combined_camera L c = Some c'"
proof -
  obtain x y where s: "rpath_sample (g_route_path c) (g_t_head c) = Some (x, y)" using rpath_sample_total [OF assms(2)] by blast
  obtain r where r: "route_rot L (g_route_path c) (g_t_head c) = Some r" "\<bar>r\<bar> \<le> 100" using route_rot_total [OF assms(1,2)] by blast
  have intro: "\<exists>c'. camera_intro L d c = Some c'" for d
  proof -
    have "\<bar>r - 0\<bar> \<le> 800" using r(2) by simp
    note t = lerp_angle_total [OF this]
    then show ?thesis by (simp add: camera_intro_def Let_def s r(1) bind_eq_Some_conv)
  qed
  have follow: "\<exists>c'. camera_follow L c = Some c'" by (simp add: camera_follow_def s r(1))
  have release: "\<exists>c'. camera_release L d c = Some c'" for d
  proof -
    define t where "t = clamp0 1 (if g_next_cam_follow_dist c > 0 then fdiv (g_next_cam_follow_dist c) (p_total_length (g_route_path c)) else 0)"
    obtain q where q: "route_rot L (g_route_path c) t = Some q" "\<bar>q\<bar> \<le> 100" using route_rot_total [OF assms(1,2)] by blast
    have "\<bar>g_next_cam_rot c - q\<bar> \<le> 800" using q(2) assms(3) by linarith
    note l = lerp_angle_total [OF this]
    then show ?thesis by (simp add: camera_release_def Let_def t_def [symmetric] q(1) bind_eq_Some_conv)
  qed
  show ?thesis using intro follow release by (simp add: update_combined_camera_def Let_def)
qed

section \<open>The drawing\<close>

text \<open>Batches that the vertex buffer takes whole.\<close>

definition batch_ok :: "vertex list \<Rightarrow> bool" where
  "batch_ok b \<longleftrightarrow> 0 < length b \<and> length b \<le> MAX_VERTS \<and> 3 dvd length b"

lemma shaft_pos: "0 < SHAFT_T"
  by (simp add: SHAFT_T_def rnd32_pos)

lemma draw_window_total:
  assumes "path_ok (g_route_path c)"
  shows "\<exists>bs. route_draw_window L c t0 t1 alpha cap_start cap_end tip_end = Some bs \<and> (\<forall>b \<in> set bs. batch_ok (snd b))"
proof -
  obtain m where m: "rpath_extrude_partial L (g_ramp c) (g_route_path c) SHAFT_T ROUTE_BASE_Y ROUTE_TOP_Y t0 t1 cap_start cap_end tip_end = Some m"
      "mesh_ok m" "\<not> m_valid m \<longrightarrow> m_verts m = []" using extrude_total [OF assms shaft_pos] by blast
  obtain bs where "rpath_draw m = Some bs" "\<forall>b \<in> set bs. batch_ok b" using draw_total [OF m(2,3)] unfolding batch_ok_def by blast
  then show ?thesis by (auto simp: route_draw_window_def m(1))
qed

lemma draw_with_fade_total:
  assumes "path_ok (g_route_path c)" and "mesh_ok m" and "\<not> m_valid m \<longrightarrow> m_verts m = []"
  shows "\<exists>bs. route_draw_with_fade L m c = Some bs \<and> (\<forall>b \<in> set bs. batch_ok (snd b))"
proof -
  obtain bs where bs: "rpath_draw m = Some bs" "\<forall>b \<in> set bs. batch_ok b" using draw_total [OF assms(2,3)] unfolding batch_ok_def by blast
  have tl: "\<exists>ys. those (map (fade_slice L c f) [0 ..< ROUTE_TAIL_FADE_SLICES]) = Some ys \<and> (\<forall>y \<in> set ys. \<forall>b \<in> set y. batch_ok (snd b))" for f
  proof -
    have "\<exists>ys. fade_slice L c f i = Some ys \<and> (\<forall>b \<in> set ys. batch_ok (snd b))" for i
      unfolding fade_slice_def Let_def by (rule draw_window_total [OF assms(1)])
    from those_total [of "[0 ..< ROUTE_TAIL_FADE_SLICES]" "fade_slice L c f" "\<lambda>y. \<forall>b \<in> set y. batch_ok (snd b)", OF this]
    show ?thesis by blast
  qed
  let ?len = "p_total_length (g_route_path c)" and ?eps = "rnd32 (1 / 100000)"
  show ?thesis
  proof (cases "g_combined_window_active c \<and> ?len > rnd32 (1 / 1000000)")
    case True
    define e where "e = fadd (g_t_tail c) (fdiv ROUTE_TAIL_FADE_DIST ?len)"
    define f where "f = (if e > g_t_head c then g_t_head c else e)"
    obtain t where t: "those (map (fade_slice L c f) [0 ..< ROUTE_TAIL_FADE_SLICES]) = Some t" "\<forall>y \<in> set t. \<forall>b \<in> set y. batch_ok (snd b)"
      using tl by blast
    obtain body where body: "route_draw_window L c f (g_t_head c) 1 False True True = Some body" "\<forall>b \<in> set body. batch_ok (snd b)"
      using draw_window_total [OF assms(1)] by blast
    have "route_draw_with_fade L m c = Some (concat (if f > fadd (g_t_tail c) ?eps then t else []) @
        (if f < fsub (g_t_head c) ?eps then body else []))"
      using True by (simp add: route_draw_with_fade_def Let_def e_def [symmetric] f_def [symmetric] t(1) body(1))
    then show ?thesis using t(2) body(2) by auto
  next
    case False
    then have "route_draw_with_fade L m c = Some (map (\<lambda>b. (1, b)) bs)" by (simp only: route_draw_with_fade_def Let_def if_False bs(1) bind.bind_lunit)
    then show ?thesis using bs(2) by simp
  qed
qed

section \<open>The handoff\<close>

lemma handoff_total:
  assumes "libm_ok L" and "man_ok st" and "man_ok next_state"
  shows "\<exists>s' c'. handoff L st next_state l1 l2 l3 s c = Some (s', c') \<and> path_ok (g_route_path c') \<and>
    length (p_segs (g_route_path c')) \<le> 16 \<and> g_combined_window_active c' \<and> \<bar>g_next_cam_rot c'\<bar> \<le> 100"
proof -
  obtain tx ty cr sr rot where t: "compute_combined_transform L st next_state l1 l2 = Some (tx, ty, cr, sr, rot)" "\<bar>rot\<bar> \<le> 100"
    using compute_combined_transform_total [OF assms] by blast
  have "\<bar>rot\<bar> \<le> 1000" using t(2) by simp
  from handoff_route_total [OF assms this] obtain slug len g where
    g: "handoff_route L st next_state tx ty cr sr rot (g_route_path c) l3 = Some (slug, len, g)" "path_ok g" "length (p_segs g) \<le> 16" by fast
  obtain w where w: "wrap_angle rot = Some w" using wrap_angle_total [of rot] t(2) by auto
  show ?thesis
    using t(2) g by (simp add: handoff_def Let_def t(1) w set_window_def window_dists_def)
qed

section \<open>Properties\<close>

definition still_slide :: slide where
  "still_slide = \<lparr> g_route_slide = 1, g_route_animating = False, g_anim_start = 0, g_anim_target = 1, g_slug_override = - 1,
     g_route_len = 2, g_light_turned = False, g_cam_settle_t = 0, g_cam_settle_active = False, g_light_settle_t = 0,
     g_light_settle_active = False, g_tip_morph_t = 1, g_tip_morph_active = False, g_flag_active = False,
     g_camera_prepared_this_frame = False, g_route_debug = False \<rparr>"

definition no_chain :: chain where
  "no_chain = \<lparr> g_route_path = empty_path, g_route_pre_frac = 0, g_route_end_frac = 1, g_t_tail = 0, g_t_head = 1,
     g_combined_window_active = False, g_combined_start_tail_dist = 0, g_combined_start_head_dist = 0,
     g_combined_end_tail_dist = 0, g_combined_end_head_dist = 0, g_next_cam_pan_x = 0, g_next_cam_pan_y = 0, g_next_cam_rot = 0,
     g_next_cam_intro_end_dist = 0, g_next_cam_follow_dist = 0, g_next_cam_release_end_dist = 0, g_xfade_mid_dist = 0,
     g_last_combined_rot = 0, g_man_cam_rot = 0, g_man_cam_pan = (0, 0), g_release_cam_x = 0, g_release_cam_y = 0,
     g_was_following = False, g_combined_flag_x = 0, g_combined_flag_y = 0, g_combined_flag_flip_x = False,
     g_arrive_flag_dx = 0, g_arrive_flag_dy = 0, g_ramp = no_ramp \<rparr>"

text \<open>Property C13. For any two decoded maneuvers the handoff between them is built:
  every loop over angles and corners ends, no array is read outside its valid
  part or written behind its end, and the joined path has at most 16 of the 48
  segments and 480 points.  Wherever the slide then is, the arrow's head stays on
  the path, the camera finds its pose, and what is drawn are whole triangles in
  batches that fit the vertex buffer.\<close>

theorem handoff_in_bounds:
  assumes "libm_ok L" and "man_ok st" and "man_ok next_state"
  shows "\<exists>s' c'. handoff L st next_state l1 l2 l3 s c = Some (s', c') \<and>
    length (p_segs (g_route_path c')) \<le> 16 \<and> length (p_pts (g_route_path c')) \<le> RPATH_MAX_PTS \<and>
    (\<forall>x d. 0 \<le> x \<and> d = compute_slide_params (s'\<lparr> g_route_slide := x \<rparr>) c' \<longrightarrow> 0 \<le> g_t_head d \<and> g_t_head d \<le> 1 \<and>
      (\<exists>cam. update_combined_camera L d = Some cam) \<and>
      (\<exists>m bs. route_extrude_body L d = Some m \<and> route_draw_with_fade L m d = Some bs \<and>
        (\<forall>b \<in> set bs. 0 < length (snd b) \<and> length (snd b) \<le> MAX_VERTS \<and> 3 dvd length (snd b))))"
proof -
  obtain s' c' where h: "handoff L st next_state l1 l2 l3 s c = Some (s', c')" "path_ok (g_route_path c')"
      "length (p_segs (g_route_path c')) \<le> 16" "g_combined_window_active c'" "\<bar>g_next_cam_rot c'\<bar> \<le> 100"
    using handoff_total [OF assms] by blast
  have n: "length (p_pts (g_route_path c')) \<le> RPATH_MAX_PTS" using h(2) by (simp add: path_ok_def)
  have frame: "0 \<le> g_t_head d \<and> g_t_head d \<le> 1 \<and> (\<exists>cam. update_combined_camera L d = Some cam) \<and>
      (\<exists>m bs. route_extrude_body L d = Some m \<and> route_draw_with_fade L m d = Some bs \<and>
        (\<forall>b \<in> set bs. 0 < length (snd b) \<and> length (snd b) \<le> MAX_VERTS \<and> 3 dvd length (snd b)))"
    if d: "d = compute_slide_params (s'\<lparr> g_route_slide := x \<rparr>) c'" and "0 \<le> x" for d x
  proof -
    have k: "path_ok (g_route_path d)" "\<bar>g_next_cam_rot d\<bar> \<le> 100" using h by (simp_all add: d compute_slide_params_keeps)
    obtain m where m: "route_extrude_body L d = Some m" "mesh_ok m" "\<not> m_valid m \<longrightarrow> m_verts m = []"
      unfolding route_extrude_body_def rpath_extrude_def using extrude_total [OF k(1) shaft_pos] by blast
    obtain bs where "route_draw_with_fade L m d = Some bs" "\<forall>b \<in> set bs. batch_ok (snd b)"
      using draw_with_fade_total [OF k(1) m(2,3)] by blast
    moreover have "0 \<le> g_t_head d \<and> g_t_head d \<le> 1" unfolding d by (rule head_range) (use h(4) \<open>0 \<le> x\<close> in simp_all)
    ultimately show ?thesis using camera_total [OF assms(1) k] m(1) unfolding batch_ok_def by blast
  qed
  show ?thesis
    by (rule exI [of _ s'], rule exI [of _ c'], rule conjI [OF h(1)], rule conjI [OF h(3)], rule conjI [OF n],
        intro allI impI, elim conjE, erule (1) frame)
qed

lemma handoff_in_bounds_witness:
  "\<exists>s' c'. handoff flat_libm roundabout2 maneuver0 empty_path empty_path empty_path (maneuver_start_push still_slide) no_chain = Some (s', c') \<and>
    length (p_segs (g_route_path c')) \<le> 16"
  using handoff_in_bounds [OF flat_libm_ok roundabout2_ok maneuver0_ok] by fast

text \<open>What the joined roads must give the animation, from the lengths of the two
  roads and of the path that joins them.  A window is the distances of its tail and
  of its head on the path: the first one is the current road, moved by the part of
  the slide already done, the second one the next road at the path's end; both are
  cut at the ends of their road with its extensions.\<close>

definition cut_to :: "rat \<Rightarrow> rat \<Rightarrow> rat" where
  "cut_to hi x = min hi (max 0 x)"

definition first_window :: "rat \<Rightarrow> rat \<Rightarrow> rat \<times> rat" where
  "first_window x road =
     (let whole = fadd road (fmul 2 ROUTE_EXTEND); tip = fadd ROUTE_EXTEND (fmul x road)
      in (cut_to whole (fsub tip road), cut_to whole tip))"

definition last_window :: "rat \<Rightarrow> rat \<Rightarrow> rat \<times> rat" where
  "last_window next_road len = (let tip = fsub len ROUTE_EXTEND in (max 0 (fsub tip next_road), cut_to len tip))"

definition middle :: "rat \<times> rat \<Rightarrow> rat" where
  "middle w = fmul (1 / 2) (fadd (fst w) (snd w))"

text \<open>The place of the arrow's tip on the path, as a part of its length.\<close>

definition tip_at :: "'b slide_scheme \<Rightarrow> 'a chain_scheme \<Rightarrow> rat \<Rightarrow> rat" where
  "tip_at s c x = g_t_head (compute_slide_params (s\<lparr> g_route_slide := x \<rparr>) c)"

lemma clamp0_cut: "clamp0 hi x = cut_to hi x"
  by (auto simp: clamp0_def cut_to_def Let_def min_def max_def)

lemma cut_rounded: "rnd32 hi = hi \<Longrightarrow> rnd32 x = x \<Longrightarrow> rnd32 (cut_to hi x) = cut_to hi x"
  by (auto simp: cut_to_def min_def max_def)

lemma rnd32_one: "rnd32 1 = 1"
  by code_simp

lemma window_dists_windows:
  "window_dists x road next_road len = (first_window x road, last_window next_road len)"
  by (simp add: window_dists_def first_window_def last_window_def Let_def clamp0_cut max_def)

lemma transition_length_middles: "transition_length (a, b) = fsub (middle b) (middle a)"
  by (simp add: transition_length_def middle_def split: prod.split)

lemma transform_turns:
  "compute_combined_transform L st next_state l1 l2 = Some (tx, ty, cr, sr, rot) \<Longrightarrow> cr = lm_cos L rot \<and> sr = lm_sin L rot"
  by (simp add: compute_combined_transform_def Let_def bind_eq_Some_conv split: if_splits) blast+

lemma first_head_rounded: "rnd32 (snd (first_window x road)) = snd (first_window x road)"
  by (simp add: first_window_def Let_def, rule cut_rounded) (simp_all add: fadd_def)

text \<open>The tip at the ends of a slide that has a range.\<close>

lemma tip_at_ends:
  assumes "g_combined_window_active c" and "g_combined_start_head_dist c = a" and "g_combined_end_head_dist c = b"
    and "rnd32 a = a" and "len = p_total_length (g_route_path c)" and "rnd32 (1 / 1000000) \<le> len"
    and "rnd32 (1 / 100) < fsub (g_anim_target s) (g_anim_start s)"
  shows "tip_at s c (g_anim_start s) = fdiv (cut_to len a) len"
    "tip_at s c (g_anim_target s) = fdiv (cut_to len (fadd a (fsub b a))) len"
proof -
  let ?range = "fsub (g_anim_target s) (g_anim_start s)"
  have "0 < rnd32 (1 / 100)" by (rule rnd32_pos) simp
  then have "?range \<noteq> 0" using assms(7) by linarith
  then have one: "fdiv ?range ?range = 1" by (simp add: fdiv_def rnd32_one)
  have none: "fsub y y = 0" "fdiv 0 y = 0" for y by (simp_all add: fsub_def fdiv_def)
  have p: "slide_progress (s\<lparr> g_route_slide := g_anim_start s \<rparr>) = 0" "slide_progress (s\<lparr> g_route_slide := g_anim_target s \<rparr>) = 1"
    using assms(7) by (simp_all add: slide_progress_def Let_def clamp0_def one none)
  have r: "\<not> len < rnd32 (1 / 1000000)" using assms(6) by simp
  have d: "fmul x 0 = 0" "fmul (fsub x y) 1 = fsub x y" "fadd a 0 = a" for x y
    using assms(4) by (simp_all add: fmul_def fsub_def fadd_def)
  show "tip_at s c (g_anim_start s) = fdiv (cut_to len a) len"
    using r by (simp add: tip_at_def compute_slide_params_def Let_def assms(1,2) assms(5) [symmetric] p d clamp0_cut)
  show "tip_at s c (g_anim_target s) = fdiv (cut_to len (fadd a (fsub b a))) len"
    using r by (simp add: tip_at_def compute_slide_params_def Let_def assms(1-3) assms(5) [symmetric] p d clamp0_cut)
qed

text \<open>Property C14. A handoff between any two decoded maneuvers joins their roads: the
  path drawn is the current road with its extensions and behind it the next road
  with its own, whole, turned and moved by the combined transform and with nothing
  else changed, and its points are those of these segments.  The animation then
  continues by exactly the engine's retarget for this geometry: the current road's
  length, the joined path's length, the way from the middle of the current road's
  window to the middle of the next road's window at the path's end, and whether the
  turn is large enough for the light.  The window kept is those two, the camera
  ends on the next maneuver's place, and the arrow's tip goes from its place on the
  current road to the end of the next road, cut at the path's end.\<close>

theorem handoff_joins_roads:
  assumes "libm_ok L" and "man_ok st" and "man_ok next_state"
  shows "\<exists>s' c' cur nxt tx ty rot light joined len road w0 w1.
    handoff L st next_state l1 l2 l3 s c = Some (s', c') \<and>
    (maneuver_build_route L st (g_route_path c) \<bind> rpath_densify L) = Some cur \<and>
    (maneuver_build_route L next_state l3 \<bind> rpath_densify L) = Some nxt \<and>
    compute_combined_transform L st next_state l1 l2 = Some (tx, ty, lm_cos L rot, lm_sin L rot, rot) \<and>
    wrap_angle rot = Some light \<and>
    g_route_path c' = joined \<and> len = p_total_length joined \<and> road = p_total_length cur \<and>
    p_segs joined = p_segs (rpath_extend L cur) @
      map (xform_seg tx ty (lm_cos L rot) (lm_sin L rot) rot) (p_segs (rpath_extend L nxt)) \<and>
    rpath_densify L joined = Some joined \<and>
    w0 = first_window (g_anim_start s) road \<and> w1 = last_window (p_total_length nxt) len \<and>
    s' = retarget \<lparr> fg_curvature = k, fg_route_len = len, fg_road_len = road,
      fg_transition_len = fsub (middle w1) (middle w0), fg_light_turned = (rnd32 (1 / 10000) < \<bar>light\<bar>) \<rparr> s \<and>
    g_combined_window_active c' \<and>
    ((g_combined_start_tail_dist c', g_combined_start_head_dist c'), (g_combined_end_tail_dist c', g_combined_end_head_dist c')) =
      (w0, w1) \<and>
    (g_next_cam_pan_x c', g_next_cam_pan_y c', g_next_cam_rot c', g_next_cam_release_end_dist c') = (tx, ty, rot, snd w1) \<and>
    (rnd32 (1 / 1000000) \<le> len \<and> rnd32 (1 / 100) < fsub (g_anim_target s') (g_anim_start s') \<longrightarrow>
      tip_at s' c' (g_anim_start s') = fdiv (cut_to len (snd w0)) len \<and>
      tip_at s' c' (g_anim_target s') = fdiv (cut_to len (fadd (snd w0) (fsub (snd w1) (snd w0)))) len)"
proof -
  obtain tx ty cr sr rot where t0: "compute_combined_transform L st next_state l1 l2 = Some (tx, ty, cr, sr, rot)" "\<bar>rot\<bar> \<le> 100"
    using compute_combined_transform_total [OF assms] by blast
  have turns: "cr = lm_cos L rot" "sr = lm_sin L rot" using transform_turns [OF t0(1)] by simp_all
  note t = t0(1) [unfolded turns]
  obtain light where w: "wrap_angle rot = Some light" using wrap_angle_total [of rot] t0(2) by auto
  have "\<bar>rot\<bar> \<le> 1000" using t0(2) by simp
  from handoff_route_total [OF assms this] obtain cur nxt joined where
    r: "handoff_route L st next_state tx ty (lm_cos L rot) (lm_sin L rot) rot (g_route_path c) l3 =
        Some (p_total_length cur, p_total_length nxt, joined)"
      "(maneuver_build_route L st (g_route_path c) \<bind> rpath_densify L) = Some cur"
      "(maneuver_build_route L next_state l3 \<bind> rpath_densify L) = Some nxt"
      "p_segs joined = p_segs (rpath_extend L cur) @
        map (xform_seg tx ty (lm_cos L rot) (lm_sin L rot) rot) (p_segs (rpath_extend L nxt))"
      "rpath_densify L joined = Some joined" by fast
  define len where "len = p_total_length joined"
  define road where "road = p_total_length cur"
  define w0 where "w0 = first_window (g_anim_start s) road"
  define w1 where "w1 = last_window (p_total_length nxt) len"
  define geo where "geo = \<lparr> fg_curvature = k, fg_route_len = len, fg_road_len = road,
    fg_transition_len = fsub (middle w1) (middle w0), fg_light_turned = (rnd32 (1 / 10000) < \<bar>light\<bar>) \<rparr>"
  obtain d where d: "handoff L st next_state l1 l2 l3 s c = Some (retarget geo s, set_window (w0, w1) road tx ty rot d)"
      "g_route_path d = joined"
    by (rule that [of "_\<lparr> g_ramp := _, g_route_path := joined, g_xfade_mid_dist := _ \<rparr>"])
      (simp_all add: handoff_def Let_def t w r(1) window_dists_windows transition_length_middles len_def [symmetric] road_def [symmetric]
        w0_def [symmetric] w1_def [symmetric] retarget_def retarget_slide_def geo_def fadd_def fdiv_def)
  define c' where "c' = set_window (w0, w1) road tx ty rot d"
  note h = d(1) [folded c'_def]
  have kept: "g_route_path c' = joined" "g_combined_window_active c'" "g_combined_start_tail_dist c' = fst w0"
    "g_combined_start_head_dist c' = snd w0" "g_combined_end_tail_dist c' = fst w1" "g_combined_end_head_dist c' = snd w1"
    "g_next_cam_pan_x c' = tx" "g_next_cam_pan_y c' = ty" "g_next_cam_rot c' = rot" "g_next_cam_release_end_dist c' = snd w1"
    by (simp_all add: c'_def set_window_def Let_def d(2) split: prod.split)
  have far: "rnd32 (1 / 1000000) \<le> len \<Longrightarrow> rnd32 (1 / 100) < fsub (g_anim_target (retarget geo s)) (g_anim_start (retarget geo s)) \<Longrightarrow>
      tip_at (retarget geo s) c' (g_anim_start (retarget geo s)) = fdiv (cut_to len (snd w0)) len \<and>
      tip_at (retarget geo s) c' (g_anim_target (retarget geo s)) = fdiv (cut_to len (fadd (snd w0) (fsub (snd w1) (snd w0)))) len"
    by (intro conjI tip_at_ends) (simp_all add: kept len_def w0_def first_head_rounded)
  show ?thesis
    by (rule exI [of _ "retarget geo s"], rule exI [of _ c'], rule exI [of _ cur], rule exI [of _ nxt], rule exI [of _ tx],
        rule exI [of _ ty], rule exI [of _ rot], rule exI [of _ light], rule exI [of _ joined], rule exI [of _ len],
        rule exI [of _ road], rule exI [of _ w0], rule exI [of _ w1], intro conjI impI)
      (use h r(2-5) t w kept far in \<open>simp_all add: len_def road_def w0_def w1_def geo_def\<close>)
qed

lemma handoff_joins_roads_witness:
  "\<exists>s' c' cur nxt tx ty rot. handoff flat_libm roundabout2 maneuver0 empty_path empty_path empty_path still_slide no_chain = Some (s', c') \<and>
    (maneuver_build_route flat_libm roundabout2 empty_path \<bind> rpath_densify flat_libm) = Some cur \<and>
    (maneuver_build_route flat_libm maneuver0 empty_path \<bind> rpath_densify flat_libm) = Some nxt \<and>
    p_segs (g_route_path c') = p_segs (rpath_extend flat_libm cur) @
      map (xform_seg tx ty (lm_cos flat_libm rot) (lm_sin flat_libm rot) rot) (p_segs (rpath_extend flat_libm nxt)) \<and>
    g_slug_override s' = p_total_length cur"
proof -
  have p: "g_route_path no_chain = empty_path" by (simp add: no_chain_def)
  note j = handoff_joins_roads [OF flat_libm_ok roundabout2_ok maneuver0_ok, where s = still_slide and c = no_chain
      and ?l1.0 = empty_path and ?l2.0 = empty_path and ?l3.0 = empty_path and k = 1]
  from j [unfolded p] obtain s' c' cur nxt tx ty rot len x where
    h: "handoff flat_libm roundabout2 maneuver0 empty_path empty_path empty_path still_slide no_chain = Some (s', c')"
    "(maneuver_build_route flat_libm roundabout2 empty_path \<bind> rpath_densify flat_libm) = Some cur"
    "(maneuver_build_route flat_libm maneuver0 empty_path \<bind> rpath_densify flat_libm) = Some nxt"
    "p_segs (g_route_path c') = p_segs (rpath_extend flat_libm cur) @
      map (xform_seg tx ty (lm_cos flat_libm rot) (lm_sin flat_libm rot) rot) (p_segs (rpath_extend flat_libm nxt))"
    and s: "s' = retarget \<lparr> fg_curvature = 1, fg_route_len = len, fg_road_len = p_total_length cur,
      fg_transition_len = fst x, fg_light_turned = snd x \<rparr> still_slide" by fastforce
  have "g_slug_override s' = p_total_length cur" by (simp add: s retarget_def Let_def)
  then show ?thesis using h by (intro exI conjI)
qed

end
