(* ===== verification/Spec2Isabelle.thy ===== *)
theory Spec2Isabelle
  imports Prelude Common Iap2_Protocol Bus_Threads Hook_Framework Rgd_Identify Cover_Assembly Cover_Worker Render_Settle Route_Chain
begin

text \<open>
  A verification development for the CarPlay route guidance and cover art
  integration of this repository: the hook library that is loaded into the head
  unit's iAP2 process (c_hook/) and the process that draws the maneuvers
  (c_render/).

  THE PROGRAM.  The hook library intercepts the calls with which the host
  process decodes and encodes iAP2 messages and reads from its descriptors.
  The framework (c_hook/framework/hook_framework.c) hands each message to the
  registered modules in priority order and injects frames of theirs.  The route
  guidance module (c_hook/routeguidance/) adds a display component to the
  Identify message, asks the phone for route guidance, keeps caches of what
  arrives (update, maneuvers, lanes) and publishes their state as one text
  frame.  The cover art module (c_hook/coverart/coverart_hook.c) finds images in
  the bytes read, and a worker scales them into a PNG file and announces it.
  Both publish on the bus (c_hook/framework/bus.c), a connection to the Java
  side with its own threads.  The renderer (c_render/) takes maneuvers from
  the Java side over a second connection and animates them.

  THEORIES AND CODE.
    Prelude         the memory of a C object with checked accesses, words, masks,
                    and the interfaces codec, stream_codec and bounded_queue
    Common          framework/common.h
    Iap2_Protocol   framework/iap2_protocol.c and .h, every function
    Bus_Text        framework/bus.c, the bus_text builder, and the reader parseText
                    of CarplayBus.java over the bytes
    Bus_Core        framework/bus.c, everything that runs under g_lock, send_frame,
                    write_all and the snapshot (record bus)
    Bus_Threads     framework/bus.c, the connector, the writer, producers and
                    shutdown as the step relation bstep
    Hook_Framework  framework/hook_framework.c (records core, fw; module states are
                    of any type)
    Rgd_Data, Rgd_Tlv, Rgd_Parse, Rgd_Lane
                    routeguidance/rgd_tlv.c and .h: structures, parsers, the
                    component TLV; what the parsers compute; lanes
    Rgd_State, Rgd_Slots, Rgd_Publish, Rgd_Snapshot, Rgd_Operations, Rgd_Hook,
    Rgd_Identify    routeguidance/rgd_hook.c: state and slot tables (record rgd),
                    the slot interface, the publisher, its text, the three
                    publishing operations, the callbacks with the debounce and the
                    tick, the Identify patch
    Floats          rounding to the nearest binary32 or binary64 value
    Cover_Bytes, Cover_Stream, Cover_Assembly, Cover_Image, Cover_Png, Cover_Files,
    Cover_Save, Cover_Worker
                    coverart/coverart_hook.c: byte tests and Exif, capture, the
                    delivery of images, scaling and PNG, the PNG reader, files,
                    save_artwork, the worker
    Render_Server   c_render/server.c and protocol.h (record server)
    Render_Engine   c_render/main.c, the engine and the maneuver packet, the
                    animation statics of maneuver.c and render.c (records slide,
                    camera, engine)
    Render_Loop     c_render/main.c, one iteration of the main loop and the loop
                    (record renderer)
    Render_Safety, Render_Display, Render_Settle
                    what the iterations keep, what a frame shows, when it comes to rest
    Route_Path      c_render/route_path.c up to the mesh and the samplers of
                    maneuver.c (record route_path), as rounded floats
    Route_Build     c_render/maneuver.c, fillets and the routes of the icons
    Route_Mesh      c_render/route_path.c, the mesh of a window and its batches
    Route_Chain     c_render/maneuver.c, the handoff: the next maneuver's place,
                    the joined path, its window, the camera, the slices drawn
                    (record chain)

  HOW THE CODE IS READ.  A struct or the statics of a file are a record, an enum a
  datatype or its constants, an operation a function from the state to the new
  state, in the order of the code with its early returns.  An undefined access
  (outside an object, of an unwritten local, through NULL, a signed overflow) is
  the value None of the outer option, so a theorem that a model returns Some is
  a theorem that the code has no such access; error returns are values of
  hook_result or of the inner option.  Integers keep their width as words where
  wrap-around matters; size_t and lengths are nat, since no length reaches
  2^32 (each theory says where that is used).  Sections under a mutex are single
  steps; what runs between them is interleaved by bstep, by wrun, and by the
  split of the tick into its claim and its send.

  WHAT IS A PARAMETER.  The answers of the kernel (send, recv, connect, open,
  write, rename, symlink), the success and the unspecified contents of
  allocations, the clock, zlib's crc32 and compress2, the decoder of stb_image,
  the host's transport and the modules' callbacks where the framework calls
  them, the window and the road geometry of a frame where the engine uses them,
  and the functions of math.h where the routes do.  Theorems that need something
  of them name it as a hypothesis (alloc_ok, zlib's laws, kernel_fits, which says
  that recv returns no more than it was asked for, env_ok, which says of
  compress2 that it stays within compressBound and within n + n div 1000 + 13
  bytes, and that inflate undoes it, utf8_decoder, which says how Java decodes
  ASCII, and libm_ok, which says that
  sqrtf is not negative and that acosf and atan2f stay within pi), and every such
  theorem has an instance on concrete functions.

  BOUNDS AND FUEL.  Loops over buffers are structural or have a measure; the
  path resolution follows at most SYMLOOP_MAX = 8 links, which the paths of
  the code never reach.  The slot tables are well formed while the two 32 bit
  access counters are below their maximum: rgd_wf n carries that budget, each
  message uses at most 64 of it.  The text builder drops a text of more than
  64 KB.  A capture buffer holds at most 10 MB of image and 1 MB of unscanned
  bytes; the renderer's receive buffer is 512 bytes.  Floats are exact
  rationals rounded to nearest even after every operation, without overflow
  and NaN, which the bounded values do not reach; a division whose divisor the
  code does not test is None at zero.  The loops that add or subtract turns are
  while_option, and they end for the angles of up to 1000 that occur.  That the engine comes to rest
  assumes roads in range (geo_ok: between half a unit and four units, where the
  window is two units wide); the slide then makes at least 1/1100 a frame and
  never passes 18, so a phase lasts fewer than SLIDE_FRAMES = 19,813 frames and
  there are at most four.

  WHAT IS PROVED.
    Frames: a built frame is found, the walkers of TLVs agree with one reading
    of the payload, a link header is patched with its checksum.
    Bus: the ring is a queue, every branch of bus_send, the snapshot and the
    bytes on the wire, the builder against the Java reader, for any
    decoder; on every interleaving a connection carries HELLO, the snapshot, then
    live frames, but for the one frame a reused descriptor number lets through.
    Framework: the registry stays sorted without duplicates, dispatch calls
    the modules that want a message one after the other, whatever they do, injection sends one well formed frame.
    Route guidance: the parsers stay in their buffers on any bytes and compute
    the last value of each field; the slot tables are injective maps with least
    recently used eviction that spares displayed maneuvers; the fields the
    Java side reads are those of the state kept (state_fields) and no others;
    every message is handled without a fault, but for two kinds that make an
    unwritten text be published; a route end
    is held back and withdrawn by evidence of a running route; the Identify
    message gets exactly one component.
    Cover art: an image that arrives in packets, however reads cut them, is
    handed off once; the worker ends with the newest image; the file published
    is a PNG whose pixels are the fitted picture, and readers of the canonical
    path never see a partial file, except after a restart, which is a theorem
    too.
    Renderer: the packets handed out are the packets received, whatever the
    kernel answers; decoded maneuvers are in range; every iteration of the loop
    runs through and keeps the engine consistent; a preloaded maneuver is
    transparent until it is started; without new
    commands the engine comes to rest on the newest maneuver it holds within a bounded
    number of frames.
    Routes: for any two decoded maneuvers the handoff is built without a fault
    or an endless loop and within its arrays, the arrow stays on the path, the
    camera finds its pose, and whole triangles are drawn in batches that fit the
    vertex buffer, all of a mesh in its order; the joined path is the two
    roads, whole, and the animation goes on by the engine's retarget for its
    lengths, its windows and its turn.
    Where the code does not do what it means to (an unwritten text published, a
    stale descriptor, a late tick, a lost maneuver, a focus recovery that stays
    off, a wrapped Exif bound), the theorem states what it does.

  INTERFACES.  codec and stream_codec (Prelude) say that records laid end to end
  are read back, also when the stream is cut: the interpretations are the TLVs
  (tlvc), the bus frames (busw), the PNG chunks (png) and the renderer's packets
  (pkts).  bounded_queue is interpreted by the send ring (busq), slot_table by
  the maneuver and the lane table of rgd_hook.c (maneuver_slots, lane_slots).

  NOT MODELLED.  Log output (logging.c and every log call), which nothing reads
  back.  Of the framework: the dlsym lookups, the write, writev and MsgSend hooks
  that only pass on, constructors.  c_hook/main.c, which only includes the
  modules.  stb_image.h, third-party code, is a parameter.  Of the renderer: the
  road masks of maneuver.c (the draw_* functions, which fill flat shapes) and the
  shaders and GL calls of render.c, with no result the program reads back; that
  the roads of the routes have the lengths geo_ok assumes, which would need
  more of sinf and cosf than their range; the route's debug overlay; the
  platform files; the Windows server; the test harness.  The Java side and the
  scripts are other languages; the Java readers of the bus formats are modelled
  as the other end of the round trips.
\<close>

end
